(* ===== verification/Prelude.thy ===== *)
theory Prelude
  imports Main "HOL-Library.Word"
begin

text \<open>
  Shared vocabulary of the development: machine integers, the error codes of
  \<^verbatim>\<open>include/error.h\<close>, and the result type of kernel code.

  A kernel routine is a function from the machine state to an \<open>outcome\<close>. It ends in one of
  three ways: it returns a value (\<open>Done\<close>), it stops the machine in \<^verbatim>\<open>panic\<close> (\<open>Panic\<close>,
  with the message of the source), or it leaves the kernel through a \<^verbatim>\<open>noreturn\<close> call that
  resumes a user environment (\<open>Away\<close>, with the state at that moment). Sequencing is
  \<open>bindK\<close>; \<open>wpx\<close> is the corresponding predicate transformer, and its rules in the
  collection \<open>wpx_rules\<close> let the simplifier walk through a routine.
\<close>

unbundle bit_operations_syntax

type_synonym u8 = "8 word"
type_synonym u16 = "16 word"
type_synonym u32 = "32 word"

section \<open>Error codes\<close>

datatype err = E_UNSPECIFIED | E_BAD_ENV | E_INVAL | E_NO_MEM | E_NO_SYS | E_NO_FREE_ENV
  | E_IPC_NOT_RECV | E_NO_DISK | E_MAX_OPEN | E_NOT_FOUND | E_BAD_PATH | E_FILE_EXISTS | E_NOT_EXEC

fun errno :: "err \<Rightarrow> int" where
  "errno E_UNSPECIFIED = 1"
| "errno E_BAD_ENV = 2"
| "errno E_INVAL = 3"
| "errno E_NO_MEM = 4"
| "errno E_NO_SYS = 5"
| "errno E_NO_FREE_ENV = 6"
| "errno E_IPC_NOT_RECV = 7"
| "errno E_NO_DISK = 8"
| "errno E_MAX_OPEN = 9"
| "errno E_NOT_FOUND = 10"
| "errno E_BAD_PATH = 11"
| "errno E_FILE_EXISTS = 12"
| "errno E_NOT_EXEC = 13"

lemma errno_pos [simp]: "0 < errno e"
  by (cases e) simp_all

lemma errno_le: "errno e \<le> 13"
  by (cases e) simp_all

lemma errno_inj [simp]: "errno e = errno e' \<longleftrightarrow> e = e'"
  by (cases e; cases e') simp_all

section \<open>Outcomes of kernel code\<close>

datatype ('a, 's) outcome = Done 'a 's | Panic string | Away 's

type_synonym ('s, 'a) kprog = "'s \<Rightarrow> ('a, 's) outcome"

definition retK :: "'a \<Rightarrow> ('s, 'a) kprog" where
  "retK a s = Done a s"

definition panicK :: "string \<Rightarrow> ('s, 'a) kprog" where
  "panicK msg s = Panic msg"

definition awayK :: "('s, 'a) kprog" where
  "awayK s = Away s"

definition bindK :: "('s, 'a) kprog \<Rightarrow> ('a \<Rightarrow> ('s, 'b) kprog) \<Rightarrow> ('s, 'b) kprog" where
  "bindK m f s = (case m s of Done a t \<Rightarrow> f a t | Panic msg \<Rightarrow> Panic msg | Away t \<Rightarrow> Away t)"

definition seqK :: "('s, 'a) kprog \<Rightarrow> ('s, 'b) kprog \<Rightarrow> ('s, 'b) kprog" where
  "seqK m n = bindK m (\<lambda>_. n)"

definition getsK :: "('s \<Rightarrow> 'a) \<Rightarrow> ('s, 'a) kprog" where
  "getsK f s = Done (f s) s"

definition modifyK :: "('s \<Rightarrow> 's) \<Rightarrow> ('s, unit) kprog" where
  "modifyK f s = Done () (f s)"

definition assertK :: "bool \<Rightarrow> string \<Rightarrow> ('s, unit) kprog" where
  "assertK b msg = (if b then retK () else panicK msg)"

text \<open>A step that may fault: \<open>None\<close> is a store through a bad pointer.\<close>

definition stepK :: "('s \<Rightarrow> 's option) \<Rightarrow> string \<Rightarrow> ('s, unit) kprog" where
  "stepK f msg s = (case f s of None \<Rightarrow> Panic msg | Some t \<Rightarrow> Done () t)"

text \<open>
  The \<^verbatim>\<open>try\<close> macro of \<^verbatim>\<open>include/error.h\<close>: an error of the callee is returned
  at once, a success continues.
\<close>

definition tryK :: "('s, err + 'a) kprog \<Rightarrow> ('a \<Rightarrow> ('s, err + 'b) kprog) \<Rightarrow> ('s, err + 'b) kprog" where
  "tryK m f = bindK m (\<lambda>r. case r of Inl e \<Rightarrow> retK (Inl e) | Inr a \<Rightarrow> f a)"

text \<open>A counted loop: the body runs for each index in turn.\<close>

fun forK :: "'i list \<Rightarrow> ('i \<Rightarrow> ('s, unit) kprog) \<Rightarrow> ('s, unit) kprog" where
  "forK [] f = retK ()"
| "forK (i # is) f = seqK (f i) (forK is f)"

text \<open>A loop that stops with the first error.\<close>

fun forE :: "'i list \<Rightarrow> ('i \<Rightarrow> ('s, err + unit) kprog) \<Rightarrow> ('s, err + unit) kprog" where
  "forE [] f = retK (Inr ())"
| "forE (i # is) f = tryK (f i) (\<lambda>_. forE is f)"

text \<open>The integer a C function with an error code returns to its caller.\<close>

definition ret_code :: "err + 'a \<Rightarrow> int" where
  "ret_code r = (case r of Inl e \<Rightarrow> - errno e | Inr _ \<Rightarrow> 0)"

section \<open>A predicate transformer\<close>

text \<open>
  \<open>wpx p c Q N s\<close>: running \<open>c\<close> from \<open>s\<close> returns with \<open>Q\<close>, or leaves the kernel in a state
  with \<open>N\<close>, or panics, which is accepted only when \<open>p\<close> holds.
\<close>

definition wpx :: "bool \<Rightarrow> ('s, 'a) kprog \<Rightarrow> ('a \<Rightarrow> 's \<Rightarrow> bool) \<Rightarrow> ('s \<Rightarrow> bool) \<Rightarrow> 's \<Rightarrow> bool" where
  "wpx p c Q N s = (case c s of Done a t \<Rightarrow> Q a t | Panic _ \<Rightarrow> p | Away t \<Rightarrow> N t)"

named_theorems wpx_rules

lemma wpx_ret [wpx_rules]: "wpx p (retK a) Q N s = Q a s"
  by (simp add: wpx_def retK_def)

lemma wpx_panic [wpx_rules]: "wpx p (panicK msg) Q N s = p"
  by (simp add: wpx_def panicK_def)

lemma wpx_away [wpx_rules]: "wpx p awayK Q N s = N s"
  by (simp add: wpx_def awayK_def)

lemma wpx_bind [wpx_rules]: "wpx p (bindK m f) Q N s = wpx p m (\<lambda>a. wpx p (f a) Q N) N s"
  by (simp add: wpx_def bindK_def split: outcome.split)

lemma wpx_seq [wpx_rules]: "wpx p (seqK m n) Q N s = wpx p m (\<lambda>_. wpx p n Q N) N s"
  by (simp add: seqK_def wpx_bind)

lemma wpx_gets [wpx_rules]: "wpx p (getsK f) Q N s = Q (f s) s"
  by (simp add: wpx_def getsK_def)

lemma wpx_modify [wpx_rules]: "wpx p (modifyK f) Q N s = Q () (f s)"
  by (simp add: wpx_def modifyK_def)

lemma wpx_assert [wpx_rules]: "wpx p (assertK b msg) Q N s = (if b then Q () s else p)"
  by (simp add: assertK_def wpx_ret wpx_panic)

lemma wpx_step [wpx_rules]:
  "wpx p (stepK f msg) Q N s = (case f s of None \<Rightarrow> p | Some t \<Rightarrow> Q () t)"
  by (simp add: wpx_def stepK_def split: option.split)

lemma wpx_try [wpx_rules]:
  "wpx p (tryK m f) Q N s =
     wpx p m (\<lambda>r. case r of Inl e \<Rightarrow> Q (Inl e) | Inr a \<Rightarrow> wpx p (f a) Q N) N s"
  unfolding tryK_def wpx_bind
  by (rule arg_cong [where f = "\<lambda>q. wpx p m q N s"]) (auto simp: fun_eq_iff wpx_ret split: sum.split)

lemma wpx_if [wpx_rules]:
  "wpx p (if b then c else d) Q N s = (if b then wpx p c Q N s else wpx p d Q N s)"
  by simp

lemma wpx_mono:
  assumes "wpx p c Q N s" "\<And>a t. Q a t \<Longrightarrow> Q' a t" "\<And>t. N t \<Longrightarrow> N' t" "p \<Longrightarrow> p'"
  shows "wpx p' c Q' N' s"
  using assms by (auto simp: wpx_def split: outcome.splits)

lemma wpx_conj:
  "wpx p c Q N s \<Longrightarrow> wpx p c Q' N' s \<Longrightarrow> wpx p c (\<lambda>a t. Q a t \<and> Q' a t) (\<lambda>t. N t \<and> N' t) s"
  by (auto simp: wpx_def split: outcome.splits)

lemma wpx_forK:
  assumes "P s" "\<And>i t. i \<in> set is \<Longrightarrow> P t \<Longrightarrow> wpx p (f i) (\<lambda>_. P) N t"
  shows "wpx p (forK is f) (\<lambda>_. P) N s"
  using assms
proof (induction "is" arbitrary: s)
  case Nil
  then show ?case by (simp add: wpx_ret)
next
  case (Cons i "is")
  then have "wpx p (f i) (\<lambda>_. P) N s" by simp
  then show ?case
    unfolding forK.simps wpx_seq
    by (rule wpx_mono) (use Cons in auto)
qed

text \<open>A counted loop that always returns, with an invariant that may mention the index.\<close>

lemma forK_upt:
  assumes "P 0 s" "\<And>k t. k < n \<Longrightarrow> P k t \<Longrightarrow> \<exists>t'. f k t = Done () t' \<and> P (Suc k) t'"
  shows "\<exists>s'. forK [0..<n] f s = Done () s' \<and> P n s'"
proof -
  have "\<exists>s'. forK [m..<n] f s = Done () s' \<and> P n s'" if "m \<le> n" "P m s" for m s
    using that
  proof (induction "n - m" arbitrary: m s)
    case 0
    then show ?case by (simp add: retK_def)
  next
    case (Suc d)
    then have m: "m < n" by simp
    with assms(2) [OF m Suc.prems(2)] obtain t where t: "f m s = Done () t" "P (Suc m) t" by blast
    have "d = n - Suc m" "Suc m \<le> n" using Suc.hyps(2) m by simp_all
    from Suc.hyps(1) [OF this t(2)] obtain s' where
      "forK [Suc m..<n] f t = Done () s'" "P n s'" by blast
    with t(1) m show ?case by (simp add: upt_conv_Cons seqK_def bindK_def)
  qed
  with assms(1) show ?thesis by blast
qed

lemma wpx_DoneD: "wpx p c Q N s \<Longrightarrow> c s = Done a t \<Longrightarrow> Q a t"
  by (simp add: wpx_def)

lemma wpx_AwayD: "wpx p c Q N s \<Longrightarrow> c s = Away t \<Longrightarrow> N t"
  by (simp add: wpx_def)

lemma wpx_TrueI: "wpx True c (\<lambda>_ _. True) (\<lambda>_. True) s"
  by (simp add: wpx_def split: outcome.split)

text \<open>Running the same combinators on concrete states, for evaluation.\<close>

named_theorems run_rules

lemma run_ret [run_rules]: "retK a s = Done a s"
  by (rule retK_def)

lemma run_bind [run_rules]:
  "bindK m f s = (case m s of Done a t \<Rightarrow> f a t | Panic msg \<Rightarrow> Panic msg | Away t \<Rightarrow> Away t)"
  by (rule bindK_def)

lemma run_seq [run_rules]:
  "seqK m n s = (case m s of Done a t \<Rightarrow> n t | Panic msg \<Rightarrow> Panic msg | Away t \<Rightarrow> Away t)"
  by (simp add: seqK_def bindK_def)

lemma run_try [run_rules]:
  "tryK m f s = (case m s of
      Done r t \<Rightarrow> (case r of Inl e \<Rightarrow> Done (Inl e) t | Inr a \<Rightarrow> f a t)
    | Panic msg \<Rightarrow> Panic msg | Away t \<Rightarrow> Away t)"
  by (simp add: tryK_def bindK_def retK_def split: outcome.split sum.split)

lemmas run_basic [run_rules] =
  panicK_def awayK_def getsK_def modifyK_def assertK_def stepK_def

section \<open>Word arithmetic\<close>

text \<open>Taking a run that returned apart.\<close>

named_theorems done_rules

lemma bind_Done [done_rules]: "bindK m f s = Done b u \<longleftrightarrow> (\<exists>a t. m s = Done a t \<and> f a t = Done b u)"
  by (simp add: bindK_def split: outcome.split)

lemma seq_Done [done_rules]: "seqK m c s = Done b u \<longleftrightarrow> (\<exists>a t. m s = Done a t \<and> c t = Done b u)"
  by (simp add: seqK_def bind_Done)

lemma basic_Done [done_rules]:
  "retK a s = Done b t \<longleftrightarrow> b = a \<and> t = s" "getsK f s = Done b t \<longleftrightarrow> b = f s \<and> t = s"
  "modifyK g s = Done () t \<longleftrightarrow> t = g s" "assertK c msg s = Done () t \<longleftrightarrow> c \<and> t = s"
  "panicK msg s = Done b t \<longleftrightarrow> False"
  by (auto simp: retK_def getsK_def modifyK_def assertK_def panicK_def)

lemma unat_of_nat_len: "k < 2 ^ 32 \<Longrightarrow> unat (of_nat k :: u32) = k"
  by (simp add: unsigned_of_nat take_bit_nat_eq_self)

lemma unat_add_nat: "unat (a :: u32) + k < 2 ^ 32 \<Longrightarrow> unat (a + of_nat k) = unat a + k"
  by (simp add: unat_word_ariths unat_of_nat take_bit_eq_mod)

section \<open>Little-endian words in frames\<close>

text \<open>
  A page of memory and a disk block are the same object, a \<open>frame\<close>: 1024 words of 32 bits.
  Bytes are parts of words; \<^verbatim>\<open>include.mk\<close> builds for little-endian MIPS
  (\<^verbatim>\<open>ENDIAN := EL\<close>), so byte \<open>k\<close> of a frame is byte \<open>k mod 4\<close> of word \<open>k div 4\<close>,
  counted from the low end.
\<close>

type_synonym frame = "nat \<Rightarrow> u32"

definition byte_of :: "u32 \<Rightarrow> nat \<Rightarrow> u8" where
  "byte_of w k = ucast (drop_bit (8 * k) w)"

definition set_byte_of :: "u32 \<Rightarrow> nat \<Rightarrow> u8 \<Rightarrow> u32" where
  "set_byte_of w k b = (w AND NOT (push_bit (8 * k) (mask 8))) OR push_bit (8 * k) (ucast b)"

definition frame_byte :: "frame \<Rightarrow> nat \<Rightarrow> u8" where
  "frame_byte fr k = byte_of (fr (k div 4)) (k mod 4)"

definition set_frame_byte :: "frame \<Rightarrow> nat \<Rightarrow> u8 \<Rightarrow> frame" where
  "set_frame_byte fr k b = fr(k div 4 := set_byte_of (fr (k div 4)) (k mod 4) b)"

lemma bit_ucast_byte: "bit (ucast (b :: u8) :: u32) n \<longleftrightarrow> n < 8 \<and> bit b n"
  using bit_imp_le_length [of b n] by (auto simp: bit_ucast_iff)

lemma bit_u8_lt: "bit (b :: u8) n \<Longrightarrow> n < 8"
  using bit_imp_le_length [of b n] by simp

lemma byte_of_set_same: "k < 4 \<Longrightarrow> byte_of (set_byte_of w k b) k = b"
  by (rule bit_word_eqI)
    (auto simp: byte_of_def set_byte_of_def bit_simps)

lemma byte_of_set_other:
  assumes "j < 4" "k < 4" "j \<noteq> k"
  shows "byte_of (set_byte_of w k b) j = byte_of w j"
proof (rule bit_word_eqI)
  fix n
  assume n: "n < LENGTH(8)"
  have "8 * j + n < 8 * k \<or> 8 * k + 8 \<le> 8 * j + n"
    using assms n by (cases "j < k") auto
  then show "bit (byte_of (set_byte_of w k b) j) n \<longleftrightarrow> bit (byte_of w j) n"
    using n assms
    by (auto simp: byte_of_def set_byte_of_def bit_simps dest: bit_u8_lt)
qed

lemma frame_byte_set_same [simp]: "frame_byte (set_frame_byte fr k b) k = b"
  by (simp add: frame_byte_def set_frame_byte_def byte_of_set_same)

lemma frame_byte_set_other:
  assumes "j \<noteq> k"
  shows "frame_byte (set_frame_byte fr k b) j = frame_byte fr j"
proof (cases "j div 4 = k div 4")
  case True
  with assms have "j mod 4 \<noteq> k mod 4"
    by (metis div_mod_decomp)
  with True show ?thesis
    by (simp add: frame_byte_def set_frame_byte_def byte_of_set_other)
next
  case False
  then show ?thesis by (simp add: frame_byte_def set_frame_byte_def)
qed

lemma frame_byte_set:
  "frame_byte (set_frame_byte fr k b) j = (if j = k then b else frame_byte fr j)"
  by (simp add: frame_byte_set_other)

lemma frame_word_set_other: "i \<noteq> k div 4 \<Longrightarrow> set_frame_byte fr k b i = fr i"
  by (simp add: set_frame_byte_def)

end
