(* ===== verification/Mmu.thy ===== *)
theory Mmu
  imports Prelude
begin

text \<open>
  Addresses, page numbers and page-table entries: the constants and macros of
  \<^verbatim>\<open>include/mmu.h\<close>, \<^verbatim>\<open>include/types.h\<close> and the memory layout, over 32-bit words, with
  the facts about them that the page tables and the system calls rest on.
\<close>

definition BY2PG :: u32 where "BY2PG = 4096"
definition PDMAP :: u32 where "PDMAP = 4 * 1024 * 1024"
definition ULIM :: u32 where "ULIM = 0x80000000"
definition UVPT :: u32 where "UVPT = ULIM - PDMAP"
definition UPAGES :: u32 where "UPAGES = UVPT - PDMAP"
definition UENVS :: u32 where "UENVS = UPAGES - PDMAP"
definition UTOP :: u32 where "UTOP = UENVS"
definition UXSTACKTOP :: u32 where "UXSTACKTOP = UTOP"
definition USTACKTOP :: u32 where "USTACKTOP = UTOP - 2 * BY2PG"
definition UTEXT :: u32 where "UTEXT = PDMAP"
definition UCOW :: u32 where "UCOW = UTEXT - BY2PG"
definition UTEMP :: u32 where "UTEMP = UCOW - BY2PG"
definition KSEG1 :: u32 where "KSEG1 = 0xA0000000"

definition PTE_G :: u32 where "PTE_G = 0x0100"
definition PTE_V :: u32 where "PTE_V = 0x0200"
definition PTE_D :: u32 where "PTE_D = 0x0400"
definition PTE_COW :: u32 where "PTE_COW = 0x0001"
definition PTE_LIBRARY :: u32 where "PTE_LIBRARY = 0x0004"

lemmas layout_defs = ULIM_def UVPT_def UPAGES_def UENVS_def UTOP_def UXSTACKTOP_def USTACKTOP_def
  UTEXT_def UCOW_def UTEMP_def PDMAP_def BY2PG_def KSEG1_def
lemmas pte_flag_defs = PTE_G_def PTE_V_def PTE_D_def PTE_COW_def PTE_LIBRARY_def

definition PDX :: "u32 \<Rightarrow> nat" where
  "PDX va = unat (drop_bit 22 va AND 0x03FF)"

definition PTX :: "u32 \<Rightarrow> nat" where
  "PTX va = unat (drop_bit 12 va AND 0x03FF)"

definition PTE_ADDR :: "u32 \<Rightarrow> u32" where
  "PTE_ADDR pte = pte AND NOT 0xFFF"

definition PPN :: "u32 \<Rightarrow> nat" where
  "PPN va = unat (drop_bit 12 va)"

definition VPN :: "u32 \<Rightarrow> nat" where
  "VPN va = unat (drop_bit 12 va)"

definition ROUND :: "u32 \<Rightarrow> u32 \<Rightarrow> u32" where
  "ROUND a n = (a + n - 1) AND NOT (n - 1)"

definition ROUNDDOWN :: "u32 \<Rightarrow> u32 \<Rightarrow> u32" where
  "ROUNDDOWN a n = a AND NOT (n - 1)"

text \<open>The physical address of page \<open>pp\<close>: \<^verbatim>\<open>page2ppn(pp) << PGSHIFT\<close>.\<close>

definition page2pa :: "nat \<Rightarrow> u32" where
  "page2pa pp = push_bit 12 (of_nat pp)"

section \<open>Indices\<close>

lemma and_3FF_lt: "unat (w AND 0x3FF :: u32) < 1024"
proof -
  have "w AND 0x3FF \<le> (0x3FF :: u32)" by (rule word_and_le1)
  then show ?thesis by (simp add: word_le_nat_alt)
qed

lemma PDX_less [simp]: "PDX va < 1024"
  by (simp add: PDX_def and_3FF_lt)

lemma PTX_less [simp]: "PTX va < 1024"
  by (simp add: PTX_def and_3FF_lt)

lemma mask10: "(0x3FF :: u32) = mask 10"
  by (simp add: mask_eq_exp_minus_1)

lemma mask12: "(0xFFF :: u32) = mask 12"
  by (simp add: mask_eq_exp_minus_1)

lemma PDX_alt: "PDX va = unat va div 2 ^ 22"
proof -
  have "take_bit 10 (drop_bit 22 va) = drop_bit 22 va"
    by (rule bit_word_eqI) (auto simp: bit_simps dest: bit_imp_le_length)
  then show ?thesis
    by (simp only: PDX_def mask10 flip: take_bit_eq_mask) (simp only: unat_drop_bit_eq, simp only: drop_bit_eq_div)
qed

lemma PTX_alt: "PTX va = unat va div 2 ^ 12 mod 2 ^ 10"
  by (simp only: PTX_def mask10 unsigned_take_bit_eq unat_drop_bit_eq flip: take_bit_eq_mask)
    (simp only: drop_bit_eq_div take_bit_eq_mod)

lemma VPN_alt: "VPN va = unat va div 2 ^ 12"
  by (simp only: VPN_def unat_drop_bit_eq) (simp only: drop_bit_eq_div)

lemma PPN_alt: "PPN va = unat va div 2 ^ 12"
  by (simp only: PPN_def unat_drop_bit_eq) (simp only: drop_bit_eq_div)

text \<open>The two indices of an address determine its page, and conversely.\<close>

lemma VPN_split: "VPN va = PDX va * 1024 + PTX va"
proof -
  have "unat va div 2 ^ 22 = unat va div 2 ^ 12 div 2 ^ 10"
    by (simp add: div_mult2_eq [symmetric])
  then show ?thesis by (simp add: VPN_alt PDX_alt PTX_alt)
qed

lemma same_page_iff: "VPN va = VPN va' \<longleftrightarrow> PDX va = PDX va' \<and> PTX va = PTX va'"
proof
  assume "VPN va = VPN va'"
  then have eq: "PDX va * 1024 + PTX va = PDX va' * 1024 + PTX va'" by (simp add: VPN_split)
  have "(PDX va * 1024 + PTX va) div 1024 = PDX va" "(PDX va * 1024 + PTX va) mod 1024 = PTX va"
    "(PDX va' * 1024 + PTX va') div 1024 = PDX va'" "(PDX va' * 1024 + PTX va') mod 1024 = PTX va'"
    by simp_all
  with eq show "PDX va = PDX va' \<and> PTX va = PTX va'" by metis
qed (simp add: VPN_split)

lemma PDX_below_UTOP: "va < UTOP \<Longrightarrow> PDX va < 509"
  by (simp add: layout_defs PDX_alt word_less_nat_alt less_mult_imp_div_less)

section \<open>Page-table entries\<close>

lemma PTE_ADDR_alt: "PTE_ADDR pte = push_bit 12 (drop_bit 12 pte)"
  by (rule bit_word_eqI) (auto simp: PTE_ADDR_def mask12 bit_simps)

lemma PPN_PTE_ADDR [simp]: "PPN (PTE_ADDR pte) = PPN pte"
proof -
  have "drop_bit 12 (PTE_ADDR pte) = drop_bit 12 pte"
    by (rule bit_word_eqI) (auto simp: PTE_ADDR_def mask12 bit_simps dest: bit_imp_le_length)
  then show ?thesis by (simp add: PPN_def)
qed

lemma small_take_bit: "perm < 4096 \<longleftrightarrow> take_bit 12 perm = (perm :: u32)"
proof -
  have "take_bit 12 perm = perm \<longleftrightarrow> unat perm mod 4096 = unat perm"
    by (simp only: word_eq_iff_unsigned [where ?'a = nat] unsigned_take_bit_eq)
      (simp add: take_bit_eq_mod)
  also have "\<dots> \<longleftrightarrow> unat perm < 4096"
    using mod_less_divisor [of 4096 "unat perm"] by (metis mod_less zero_less_numeral)
  finally show ?thesis by (simp add: word_less_nat_alt)
qed

lemma small_bit: "perm < 4096 \<Longrightarrow> bit (perm :: u32) n \<Longrightarrow> n < 12"
  by (metis small_take_bit bit_take_bit_iff)

lemma PPN_page2pa_flags:
  assumes "pp < 2 ^ 20" "perm < 4096"
  shows "PPN (page2pa pp OR perm) = pp"
proof -
  have "bit (of_nat pp :: u32) n \<Longrightarrow> n < 20" for n
  proof -
    assume "bit (of_nat pp :: u32) n"
    then have "bit pp n" by (simp add: bit_of_nat_iff)
    moreover have "take_bit 20 pp = pp" using assms(1) by (simp add: take_bit_nat_eq_self)
    ultimately show "n < 20" by (metis bit_take_bit_iff)
  qed
  then have "drop_bit 12 (page2pa pp OR perm) = of_nat pp"
    by (intro bit_word_eqI) (auto simp: page2pa_def bit_simps dest: small_bit [OF assms(2)])
  with assms(1) show ?thesis by (simp add: PPN_def unat_of_nat)
qed

lemma or_small: "a < 4096 \<Longrightarrow> b < 4096 \<Longrightarrow> (a OR b :: u32) < 4096"
proof -
  assume "a < 4096" "b < 4096"
  then show ?thesis by (simp only: small_take_bit take_bit_or)
qed

definition valid :: "u32 \<Rightarrow> bool" where
  "valid pte \<longleftrightarrow> pte AND PTE_V \<noteq> 0"

lemma valid_bit: "valid pte \<longleftrightarrow> bit pte 9"
proof -
  have V: "bit PTE_V n \<longleftrightarrow> n = 9" for n
  proof -
    have eq: "PTE_V = push_bit 9 1" by (simp add: PTE_V_def)
    show ?thesis unfolding eq by (auto simp only: bit_push_bit_iff bit_1_iff) auto
  qed
  show ?thesis
  proof
    assume "valid pte"
    then obtain n where "bit (pte AND PTE_V) n"
      unfolding valid_def by (metis bit_word_eqI bit_0_eq bot_apply bot_bool_def)
    then show "bit pte 9" by (auto simp: V bit_simps)
  next
    assume b: "bit pte 9"
    then have "bit (pte AND PTE_V) 9" by (simp add: V bit_simps)
    then show "valid pte" unfolding valid_def by (metis bit_0_eq bot_apply bot_bool_def)
  qed
qed

lemma valid_or [simp]: "valid (a OR PTE_V)" "valid (a OR b) \<longleftrightarrow> valid a \<or> valid b"
  by (auto simp: valid_bit bit_simps) (simp add: PTE_V_def)

lemma not_valid_0 [simp]: "\<not> valid 0"
  by (simp add: valid_def)

lemma PTE_small: "PTE_V < 4096" "PTE_D < 4096" "PTE_G < 4096"
  by (simp_all add: pte_flag_defs)

lemma PPN_pte:
  assumes "pp < 2 ^ 20" "perm < 4096"
  shows "PPN (page2pa pp OR perm OR PTE_V) = pp"
  using PPN_page2pa_flags [OF assms(1) or_small [OF assms(2) PTE_small(1)]] by (simp only: or.assoc)

lemma PPN_page2pa [simp]: "pp < 2 ^ 20 \<Longrightarrow> PPN (page2pa pp) = pp"
  using PPN_page2pa_flags [of pp 0] by simp

lemma PPN_pde [simp]: "pp < 2 ^ 20 \<Longrightarrow> PPN (page2pa pp OR PTE_D OR PTE_V) = pp"
  by (rule PPN_pte) (simp_all add: PTE_small)

lemma page2pa_inj: "pp < 2 ^ 20 \<Longrightarrow> pp' < 2 ^ 20 \<Longrightarrow> page2pa pp = page2pa pp' \<longleftrightarrow> pp = pp'"
  by (metis PPN_page2pa)

section \<open>Rounding\<close>

lemma ROUNDDOWN_page: "ROUNDDOWN a BY2PG = push_bit 12 (drop_bit 12 a)"
  using PTE_ADDR_alt [of a] by (simp add: ROUNDDOWN_def BY2PG_def PTE_ADDR_def)

lemma unat_ROUNDDOWN_page: "unat (ROUNDDOWN a BY2PG) = unat a div 4096 * 4096"
proof -
  have lt: "unat a div 4096 * 4096 < 2 ^ 32"
    using unsigned_less [of a, where ?'a = nat] by (simp add: div_times_less_eq_dividend le_less_trans)
  have "unat (push_bit 12 (drop_bit 12 a)) = unat a div 4096 * 4096 mod 2 ^ 32"
    by (simp only: unsigned_push_bit_eq unat_drop_bit_eq)
      (simp add: drop_bit_eq_div push_bit_eq_mult take_bit_eq_mod)
  with lt show ?thesis by (simp add: ROUNDDOWN_page)
qed

lemma ROUND_page_unat:
  assumes "unat a + 4095 < 2 ^ 32"
  shows "unat (ROUND a BY2PG) = (unat a + 4095) div 4096 * 4096"
proof -
  have eq: "ROUND a BY2PG = ROUNDDOWN (a + 4095) BY2PG"
    by (simp add: ROUND_def ROUNDDOWN_def BY2PG_def add.commute)
  have "unat (a + 4095) = unat a + 4095"
    using assms by (simp add: unat_word_ariths)
  with eq show ?thesis by (simp add: unat_ROUNDDOWN_page)
qed

end
