(* ===== verification/Queue.thy ===== *)
theory Queue
  imports Prelude
begin

text \<open>
  The intrusive lists of \<^verbatim>\<open>include/queue.h\<close>. Elements are numbered; the link fields of all
  elements are two functions, and a value of type \<open>'a ref\<close> is the address of a
  \<^verbatim>\<open>struct type *\<close> cell: the head's first-pointer, the next-field of an element, or null.
  Every macro is translated assignment by assignment; a store through a null pointer is \<open>None\<close>.

  The abstraction predicates \<open>is_list\<close> and \<open>is_tailq\<close> relate the pointer structure to a HOL
  list, and each macro is shown to implement the list operation it stands for. The locales
  \<open>link_queue\<close> and \<open>fifo_queue\<close> are the contract the rest of the kernel uses.
\<close>

section \<open>The macros\<close>

datatype 'a ref = NullRef | HeadRef | NextRef 'a

record 'a lqueue =
  lh_first :: "'a option"
  le_next :: "'a \<Rightarrow> 'a option"
  le_prev :: "'a \<Rightarrow> 'a ref"

text \<open>\<^verbatim>\<open>*ref = v\<close>\<close>

fun le_store :: "'a ref \<Rightarrow> 'a option \<Rightarrow> 'a lqueue \<Rightarrow> 'a lqueue option" where
  "le_store NullRef v q = None"
| "le_store HeadRef v q = Some (q\<lparr>lh_first := v\<rparr>)"
| "le_store (NextRef x) v q = Some (q\<lparr>le_next := (le_next q)(x := v)\<rparr>)"

definition LIST_EMPTY :: "'a lqueue \<Rightarrow> bool" where
  "LIST_EMPTY q \<longleftrightarrow> lh_first q = None"

definition LIST_FIRST :: "'a lqueue \<Rightarrow> 'a option" where
  "LIST_FIRST q = lh_first q"

definition LIST_NEXT :: "'a \<Rightarrow> 'a lqueue \<Rightarrow> 'a option" where
  "LIST_NEXT elm q = le_next q elm"

definition LIST_INIT :: "'a lqueue \<Rightarrow> 'a lqueue" where
  "LIST_INIT q = q\<lparr>lh_first := None\<rparr>"

definition LIST_INSERT_AFTER :: "'a \<Rightarrow> 'a \<Rightarrow> 'a lqueue \<Rightarrow> 'a lqueue" where
  "LIST_INSERT_AFTER listelm elm q =
     (let q = q\<lparr>le_next := (le_next q)(elm := le_next q listelm)\<rparr>;
          q = (case le_next q elm of None \<Rightarrow> q
               | Some n \<Rightarrow> q\<lparr>le_prev := (le_prev q)(n := NextRef elm)\<rparr>);
          q = q\<lparr>le_next := (le_next q)(listelm := Some elm)\<rparr>
      in q\<lparr>le_prev := (le_prev q)(elm := NextRef listelm)\<rparr>)"

definition LIST_INSERT_BEFORE :: "'a \<Rightarrow> 'a \<Rightarrow> 'a lqueue \<Rightarrow> 'a lqueue option" where
  "LIST_INSERT_BEFORE listelm elm q =
     (let q = q\<lparr>le_prev := (le_prev q)(elm := le_prev q listelm)\<rparr>;
          q = q\<lparr>le_next := (le_next q)(elm := Some listelm)\<rparr>
      in map_option (\<lambda>q. q\<lparr>le_prev := (le_prev q)(listelm := NextRef elm)\<rparr>)
           (le_store (le_prev q listelm) (Some elm) q))"

definition LIST_INSERT_HEAD :: "'a \<Rightarrow> 'a lqueue \<Rightarrow> 'a lqueue" where
  "LIST_INSERT_HEAD elm q =
     (let q = q\<lparr>le_next := (le_next q)(elm := lh_first q)\<rparr>;
          q = (case le_next q elm of None \<Rightarrow> q
               | Some n \<Rightarrow> q\<lparr>le_prev := (le_prev q)(n := NextRef elm)\<rparr>);
          q = q\<lparr>lh_first := Some elm\<rparr>
      in q\<lparr>le_prev := (le_prev q)(elm := HeadRef)\<rparr>)"

definition LIST_REMOVE :: "'a \<Rightarrow> 'a lqueue \<Rightarrow> 'a lqueue option" where
  "LIST_REMOVE elm q =
     (let q = (case le_next q elm of None \<Rightarrow> q
               | Some n \<Rightarrow> q\<lparr>le_prev := (le_prev q)(n := le_prev q elm)\<rparr>)
      in le_store (le_prev q elm) (le_next q elm) q)"

record 'a tqueue =
  tqh_first :: "'a option"
  tqh_last :: "'a ref"
  tqe_next :: "'a \<Rightarrow> 'a option"
  tqe_prev :: "'a \<Rightarrow> 'a ref"

fun tqe_store :: "'a ref \<Rightarrow> 'a option \<Rightarrow> 'a tqueue \<Rightarrow> 'a tqueue option" where
  "tqe_store NullRef v q = None"
| "tqe_store HeadRef v q = Some (q\<lparr>tqh_first := v\<rparr>)"
| "tqe_store (NextRef x) v q = Some (q\<lparr>tqe_next := (tqe_next q)(x := v)\<rparr>)"

definition TAILQ_EMPTY :: "'a tqueue \<Rightarrow> bool" where
  "TAILQ_EMPTY q \<longleftrightarrow> tqh_first q = None"

definition TAILQ_FIRST :: "'a tqueue \<Rightarrow> 'a option" where
  "TAILQ_FIRST q = tqh_first q"

definition TAILQ_NEXT :: "'a \<Rightarrow> 'a tqueue \<Rightarrow> 'a option" where
  "TAILQ_NEXT elm q = tqe_next q elm"

definition TAILQ_INIT :: "'a tqueue \<Rightarrow> 'a tqueue" where
  "TAILQ_INIT q = q\<lparr>tqh_first := None, tqh_last := HeadRef\<rparr>"

definition TAILQ_INSERT_HEAD :: "'a \<Rightarrow> 'a tqueue \<Rightarrow> 'a tqueue" where
  "TAILQ_INSERT_HEAD elm q =
     (let q = q\<lparr>tqe_next := (tqe_next q)(elm := tqh_first q)\<rparr>;
          q = (case tqe_next q elm of
                 Some n \<Rightarrow> q\<lparr>tqe_prev := (tqe_prev q)(n := NextRef elm)\<rparr>
               | None \<Rightarrow> q\<lparr>tqh_last := NextRef elm\<rparr>);
          q = q\<lparr>tqh_first := Some elm\<rparr>
      in q\<lparr>tqe_prev := (tqe_prev q)(elm := HeadRef)\<rparr>)"

definition TAILQ_INSERT_TAIL :: "'a \<Rightarrow> 'a tqueue \<Rightarrow> 'a tqueue option" where
  "TAILQ_INSERT_TAIL elm q =
     (let q = q\<lparr>tqe_next := (tqe_next q)(elm := None)\<rparr>;
          q = q\<lparr>tqe_prev := (tqe_prev q)(elm := tqh_last q)\<rparr>
      in map_option (\<lambda>q. q\<lparr>tqh_last := NextRef elm\<rparr>) (tqe_store (tqh_last q) (Some elm) q))"

definition TAILQ_INSERT_AFTER :: "'a \<Rightarrow> 'a \<Rightarrow> 'a tqueue \<Rightarrow> 'a tqueue" where
  "TAILQ_INSERT_AFTER listelm elm q =
     (let q = q\<lparr>tqe_next := (tqe_next q)(elm := tqe_next q listelm)\<rparr>;
          q = (case tqe_next q elm of
                 Some n \<Rightarrow> q\<lparr>tqe_prev := (tqe_prev q)(n := NextRef elm)\<rparr>
               | None \<Rightarrow> q\<lparr>tqh_last := NextRef elm\<rparr>);
          q = q\<lparr>tqe_next := (tqe_next q)(listelm := Some elm)\<rparr>
      in q\<lparr>tqe_prev := (tqe_prev q)(elm := NextRef listelm)\<rparr>)"

definition TAILQ_INSERT_BEFORE :: "'a \<Rightarrow> 'a \<Rightarrow> 'a tqueue \<Rightarrow> 'a tqueue option" where
  "TAILQ_INSERT_BEFORE listelm elm q =
     (let q = q\<lparr>tqe_prev := (tqe_prev q)(elm := tqe_prev q listelm)\<rparr>;
          q = q\<lparr>tqe_next := (tqe_next q)(elm := Some listelm)\<rparr>
      in map_option (\<lambda>q. q\<lparr>tqe_prev := (tqe_prev q)(listelm := NextRef elm)\<rparr>)
           (tqe_store (tqe_prev q listelm) (Some elm) q))"

definition TAILQ_REMOVE :: "'a \<Rightarrow> 'a tqueue \<Rightarrow> 'a tqueue option" where
  "TAILQ_REMOVE elm q =
     (let q = (case tqe_next q elm of
                 Some n \<Rightarrow> q\<lparr>tqe_prev := (tqe_prev q)(n := tqe_prev q elm)\<rparr>
               | None \<Rightarrow> q\<lparr>tqh_last := tqe_prev q elm\<rparr>)
      in tqe_store (tqe_prev q elm) (tqe_next q elm) q)"

section \<open>Segments of doubly linked cells\<close>

text \<open>
  \<open>lseg nx pv r p xs r' p'\<close>: the cell at address \<open>r\<close> holds the pointer \<open>p\<close>; following the
  next-fields from there visits \<open>xs\<close>, each element's prev-field being the address of the cell
  that points to it, and ends at the cell \<open>r'\<close>, which holds \<open>p'\<close>.
\<close>

fun lseg :: "('a \<Rightarrow> 'a option) \<Rightarrow> ('a \<Rightarrow> 'a ref) \<Rightarrow> 'a ref \<Rightarrow> 'a option \<Rightarrow> 'a list \<Rightarrow>
    'a ref \<Rightarrow> 'a option \<Rightarrow> bool" where
  "lseg nx pv r p [] r' p' \<longleftrightarrow> r' = r \<and> p' = p"
| "lseg nx pv r p (x # xs) r' p' \<longleftrightarrow> p = Some x \<and> pv x = r \<and> lseg nx pv (NextRef x) (nx x) xs r' p'"

lemma lseg_append:
  "lseg nx pv r p (xs @ ys) r' p' \<longleftrightarrow>
     (\<exists>r1 p1. lseg nx pv r p xs r1 p1 \<and> lseg nx pv r1 p1 ys r' p')"
  by (induction xs arbitrary: r p) auto

lemma lseg_snoc [simp]:
  "lseg nx pv r p (xs @ [y]) r' p' \<longleftrightarrow>
     lseg nx pv r p xs (pv y) (Some y) \<and> r' = NextRef y \<and> p' = nx y"
  by (auto simp: lseg_append)

lemma lseg_upd_next [simp]:
  "x \<notin> set xs \<Longrightarrow> lseg (nx(x := v)) pv r p xs r' p' = lseg nx pv r p xs r' p'"
  by (induction xs arbitrary: r p) auto

lemma lseg_upd_prev [simp]:
  "x \<notin> set xs \<Longrightarrow> lseg nx (pv(x := v)) r p xs r' p' = lseg nx pv r p xs r' p'"
  by (induction xs arbitrary: r p) auto

lemma lseg_unique:
  "lseg nx pv r p xs r1 None \<Longrightarrow> lseg nx pv r p ys r2 None \<Longrightarrow> xs = ys"
proof (induction xs arbitrary: r p ys)
  case Nil
  then show ?case by (cases ys) auto
next
  case (Cons x xs)
  then show ?case by (cases ys) auto
qed

lemma lseg_end:
  "lseg nx pv r p xs r' p' \<Longrightarrow> r' = (if xs = [] then r else NextRef (last xs))"
  by (induction xs arbitrary: r p) auto

lemma lseg_start: "lseg nx pv r p xs r' None \<Longrightarrow> p = (case xs of [] \<Rightarrow> None | x # _ \<Rightarrow> Some x)"
  by (cases xs) auto

definition is_list :: "'a lqueue \<Rightarrow> 'a list \<Rightarrow> bool" where
  "is_list q xs \<longleftrightarrow>
     distinct xs \<and> (\<exists>r. lseg (le_next q) (le_prev q) HeadRef (lh_first q) xs r None)"

definition is_tailq :: "'a tqueue \<Rightarrow> 'a list \<Rightarrow> bool" where
  "is_tailq q xs \<longleftrightarrow>
     distinct xs \<and> lseg (tqe_next q) (tqe_prev q) HeadRef (tqh_first q) xs (tqh_last q) None"

lemma is_list_unique: "is_list q xs \<Longrightarrow> is_list q ys \<Longrightarrow> xs = ys"
  by (auto simp: is_list_def dest: lseg_unique)

lemma is_tailq_unique: "is_tailq q xs \<Longrightarrow> is_tailq q ys \<Longrightarrow> xs = ys"
  by (auto simp: is_tailq_def dest: lseg_unique)

section \<open>\<^verbatim>\<open>LIST_*\<close> implement the list operations\<close>

lemma LIST_INIT_spec: "is_list (LIST_INIT q) []"
  by (simp add: is_list_def LIST_INIT_def)

lemma LIST_FIRST_spec: "is_list q xs \<Longrightarrow> LIST_FIRST q = (case xs of [] \<Rightarrow> None | x # _ \<Rightarrow> Some x)"
  by (auto simp: is_list_def LIST_FIRST_def dest: lseg_start)

lemma LIST_EMPTY_spec: "is_list q xs \<Longrightarrow> LIST_EMPTY q \<longleftrightarrow> xs = []"
  using LIST_FIRST_spec [of q xs] by (simp add: LIST_EMPTY_def LIST_FIRST_def split: list.splits)

lemma LIST_INSERT_HEAD_spec:
  assumes "is_list q xs" "x \<notin> set xs"
  shows "is_list (LIST_INSERT_HEAD x q) (x # xs)"
  using assms by (cases xs) (auto simp: is_list_def LIST_INSERT_HEAD_def)

lemma LIST_INSERT_AFTER_spec:
  assumes "is_list q (xs @ y # ys)" "x \<notin> set (xs @ y # ys)"
  shows "is_list (LIST_INSERT_AFTER y x q) (xs @ y # x # ys)"
  using assms
  by (cases ys) (auto simp: is_list_def LIST_INSERT_AFTER_def lseg_append)

lemma LIST_INSERT_BEFORE_spec:
  assumes "is_list q (xs @ y # ys)" "x \<notin> set (xs @ y # ys)"
  shows "\<exists>q'. LIST_INSERT_BEFORE y x q = Some q' \<and> is_list q' (xs @ x # y # ys)"
  using assms
  by (cases xs rule: rev_cases) (auto simp: is_list_def LIST_INSERT_BEFORE_def lseg_append)

lemma LIST_REMOVE_split:
  assumes "is_list q (xs @ x # ys)"
  shows "\<exists>q'. LIST_REMOVE x q = Some q' \<and> is_list q' (xs @ ys)"
  using assms
  by (cases xs rule: rev_cases; cases ys)
    (auto simp: is_list_def LIST_REMOVE_def lseg_append)

lemma LIST_REMOVE_spec:
  assumes "is_list q xs" "x \<in> set xs"
  shows "\<exists>q'. LIST_REMOVE x q = Some q' \<and> is_list q' (remove1 x xs)"
proof -
  obtain ys zs where xs: "xs = ys @ x # zs" and "x \<notin> set ys"
    using split_list_first [OF assms(2)] by blast
  then have "remove1 x xs = ys @ zs" by (simp add: remove1_append)
  with LIST_REMOVE_split [of q ys x zs] assms(1) xs show ?thesis by simp
qed

section \<open>\<^verbatim>\<open>TAILQ_*\<close> implement the list operations\<close>

lemma TAILQ_INIT_spec: "is_tailq (TAILQ_INIT q) []"
  by (simp add: is_tailq_def TAILQ_INIT_def)

lemma TAILQ_FIRST_spec: "is_tailq q xs \<Longrightarrow> TAILQ_FIRST q = (case xs of [] \<Rightarrow> None | x # _ \<Rightarrow> Some x)"
  by (auto simp: is_tailq_def TAILQ_FIRST_def dest: lseg_start)

lemma TAILQ_EMPTY_spec: "is_tailq q xs \<Longrightarrow> TAILQ_EMPTY q \<longleftrightarrow> xs = []"
  using TAILQ_FIRST_spec [of q xs] by (simp add: TAILQ_EMPTY_def TAILQ_FIRST_def split: list.splits)

lemma TAILQ_INSERT_HEAD_spec:
  assumes "is_tailq q xs" "x \<notin> set xs"
  shows "is_tailq (TAILQ_INSERT_HEAD x q) (x # xs)"
  using assms by (cases xs) (auto simp: is_tailq_def TAILQ_INSERT_HEAD_def)

lemma TAILQ_INSERT_TAIL_spec:
  assumes "is_tailq q xs" "x \<notin> set xs"
  shows "\<exists>q'. TAILQ_INSERT_TAIL x q = Some q' \<and> is_tailq q' (xs @ [x])"
  using assms
  by (cases xs rule: rev_cases) (auto simp: is_tailq_def TAILQ_INSERT_TAIL_def lseg_append)

lemma TAILQ_INSERT_AFTER_spec:
  assumes "is_tailq q (xs @ y # ys)" "x \<notin> set (xs @ y # ys)"
  shows "is_tailq (TAILQ_INSERT_AFTER y x q) (xs @ y # x # ys)"
  using assms
  by (cases ys) (auto simp: is_tailq_def TAILQ_INSERT_AFTER_def lseg_append)

lemma TAILQ_INSERT_BEFORE_spec:
  assumes "is_tailq q (xs @ y # ys)" "x \<notin> set (xs @ y # ys)"
  shows "\<exists>q'. TAILQ_INSERT_BEFORE y x q = Some q' \<and> is_tailq q' (xs @ x # y # ys)"
  using assms
  by (cases xs rule: rev_cases) (auto simp: is_tailq_def TAILQ_INSERT_BEFORE_def lseg_append)

lemma TAILQ_REMOVE_split:
  assumes "is_tailq q (xs @ x # ys)"
  shows "\<exists>q'. TAILQ_REMOVE x q = Some q' \<and> is_tailq q' (xs @ ys)"
  using assms
  by (cases xs rule: rev_cases; cases ys)
    (auto simp: is_tailq_def TAILQ_REMOVE_def lseg_append)

lemma TAILQ_REMOVE_spec:
  assumes "is_tailq q xs" "x \<in> set xs"
  shows "\<exists>q'. TAILQ_REMOVE x q = Some q' \<and> is_tailq q' (remove1 x xs)"
proof -
  obtain ys zs where xs: "xs = ys @ x # zs" and "x \<notin> set ys"
    using split_list_first [OF assms(2)] by blast
  then have "remove1 x xs = ys @ zs" by (simp add: remove1_append)
  with TAILQ_REMOVE_split [of q ys x zs] assms(1) xs show ?thesis by simp
qed

text \<open>
  Removal leaves the links of the removed element as they were. Removing it again at once
  therefore stores the same values a second time and changes nothing; removing it again after
  another element was appended behind it drops that element.
\<close>

lemma TAILQ_REMOVE_again:
  assumes "is_tailq q xs" "x \<in> set xs" "TAILQ_REMOVE x q = Some q'"
  shows "TAILQ_REMOVE x q' = Some q'"
proof -
  obtain ys zs where xs: "xs = ys @ x # zs" using assms(2) by (meson split_list)
  with assms show ?thesis
    by (cases ys rule: rev_cases; cases zs)
      (auto simp: is_tailq_def TAILQ_REMOVE_def lseg_append)
qed

lemma TAILQ_REMOVE_stale:
  assumes q: "is_tailq q (xs @ [x])" and y: "y \<notin> set (xs @ [x])"
    and rem: "TAILQ_REMOVE x q = Some q1" and ins: "TAILQ_INSERT_TAIL y q1 = Some q2"
  shows "is_tailq q2 (xs @ [y])" "\<exists>q3. TAILQ_REMOVE x q2 = Some q3 \<and> is_tailq q3 xs"
proof -
  from TAILQ_REMOVE_split [of q xs x "[]"] q rem have q1: "is_tailq q1 xs" by simp
  from TAILQ_INSERT_TAIL_spec [OF q1, of y] y ins show "is_tailq q2 (xs @ [y])" by simp
  show "\<exists>q3. TAILQ_REMOVE x q2 = Some q3 \<and> is_tailq q3 xs"
    using q y rem ins
    by (cases xs rule: rev_cases)
      (auto simp: is_tailq_def TAILQ_REMOVE_def TAILQ_INSERT_TAIL_def lseg_append)
qed

text \<open>Appending the element that is already last makes it its own successor.\<close>

lemma TAILQ_INSERT_TAIL_again:
  assumes "is_tailq q (xs @ [x])" "TAILQ_INSERT_TAIL x q = Some q'"
  shows "tqe_next q' x = Some x" "\<not> is_tailq q' ys"
proof -
  from assms show loop: "tqe_next q' x = Some x"
    by (auto simp: is_tailq_def TAILQ_INSERT_TAIL_def)
  have last: "tqh_last q' = NextRef x"
    using assms by (auto simp: TAILQ_INSERT_TAIL_def)
  show "\<not> is_tailq q' ys"
    using loop last by (cases ys rule: rev_cases) (auto simp: is_tailq_def)
qed

section \<open>The contract of the queues\<close>

text \<open>
  What the allocators and the scheduler rely on. \<open>repr q xs\<close> says that the pointer structure
  \<open>q\<close> holds exactly the elements \<open>xs\<close>, in this order.
\<close>

locale link_queue =
  fixes repr :: "'q \<Rightarrow> 'a list \<Rightarrow> bool"
    and init :: "'q \<Rightarrow> 'q"
    and front :: "'q \<Rightarrow> 'a option"
    and push :: "'a \<Rightarrow> 'q \<Rightarrow> 'q"
    and unlink :: "'a \<Rightarrow> 'q \<Rightarrow> 'q option"
  assumes repr_unique: "repr q xs \<Longrightarrow> repr q ys \<Longrightarrow> xs = ys"
    and repr_distinct: "repr q xs \<Longrightarrow> distinct xs"
    and repr_init: "repr (init q) []"
    and front_repr: "repr q xs \<Longrightarrow> front q = (case xs of [] \<Rightarrow> None | x # _ \<Rightarrow> Some x)"
    and push_repr: "repr q xs \<Longrightarrow> x \<notin> set xs \<Longrightarrow> repr (push x q) (x # xs)"
    and unlink_repr: "repr q xs \<Longrightarrow> x \<in> set xs \<Longrightarrow>
      \<exists>q'. unlink x q = Some q' \<and> repr q' (remove1 x xs)"
begin

lemma front_None_iff: "repr q xs \<Longrightarrow> front q = None \<longleftrightarrow> xs = []"
  by (auto simp: front_repr split: list.splits)

lemma front_Some_iff: "repr q xs \<Longrightarrow> front q = Some x \<longleftrightarrow> (\<exists>ys. xs = x # ys)"
  by (auto simp: front_repr split: list.splits)

lemma pop:
  assumes "repr q (x # xs)"
  shows "front q = Some x" "\<exists>q'. unlink x q = Some q' \<and> repr q' xs"
  using assms front_repr [OF assms] unlink_repr [OF assms, of x] by simp_all

lemma pop_front:
  assumes "repr q xs" "front q = Some x"
  obtains q' ys where "xs = x # ys" "unlink x q = Some q'" "repr q' ys" "x \<notin> set ys"
proof -
  from assms obtain ys where xs: "xs = x # ys" by (auto simp: front_Some_iff)
  with assms pop(2) [of q x ys] repr_distinct [OF assms(1)] that show ?thesis by auto
qed

lemma push_pop:
  assumes "repr q xs" "x \<notin> set xs"
  shows "front (push x q) = Some x" "\<exists>q'. unlink x (push x q) = Some q' \<and> repr q' xs"
  using pop [OF push_repr [OF assms]] by simp_all

lemma fold_push:
  "repr q ys \<Longrightarrow> distinct xs \<Longrightarrow> set xs \<inter> set ys = {} \<Longrightarrow> repr (fold push xs q) (rev xs @ ys)"
proof (induction xs arbitrary: q ys)
  case Nil
  then show ?case by simp
next
  case (Cons x xs)
  then have "repr (push x q) (x # ys)" by (simp add: push_repr)
  with Cons.IH [of "push x q" "x # ys"] Cons.prems show ?case by auto
qed

end

locale fifo_queue = link_queue repr init front push unlink
  for repr :: "'q \<Rightarrow> 'a list \<Rightarrow> bool" and init front push unlink +
  fixes enq :: "'a \<Rightarrow> 'q \<Rightarrow> 'q option"
  assumes enq_repr: "repr q xs \<Longrightarrow> x \<notin> set xs \<Longrightarrow> \<exists>q'. enq x q = Some q' \<and> repr q' (xs @ [x])"
begin

text \<open>Moving an element to the back, as the scheduler does with the current environment.\<close>

lemma rotate:
  assumes "repr q xs" "x \<in> set xs"
  obtains q1 q2 where "unlink x q = Some q1" "repr q1 (remove1 x xs)"
    "enq x q1 = Some q2" "repr q2 (remove1 x xs @ [x])"
proof -
  from unlink_repr [OF assms] obtain q1 where q1: "unlink x q = Some q1" "repr q1 (remove1 x xs)"
    by blast
  have "x \<notin> set (remove1 x xs)" using repr_distinct [OF assms(1)] by simp
  from enq_repr [OF q1(2) this] q1 that show ?thesis by blast
qed

end

interpretation lq: link_queue is_list LIST_INIT LIST_FIRST LIST_INSERT_HEAD LIST_REMOVE
  by unfold_locales
    (auto simp: is_list_unique LIST_INIT_spec LIST_FIRST_spec LIST_INSERT_HEAD_spec LIST_REMOVE_spec,
     simp add: is_list_def)

interpretation tq: fifo_queue is_tailq TAILQ_INIT TAILQ_FIRST TAILQ_INSERT_HEAD TAILQ_REMOVE
    TAILQ_INSERT_TAIL
  by unfold_locales
    (auto simp: is_tailq_unique TAILQ_INIT_spec TAILQ_FIRST_spec TAILQ_INSERT_HEAD_spec
      TAILQ_REMOVE_spec TAILQ_INSERT_TAIL_spec, simp add: is_tailq_def)

section \<open>Walking\<close>

text \<open>
  The elements that a \<^verbatim>\<open>FOREACH\<close> loop visits, in at most \<open>n\<close> turns. \<^verbatim>\<open>TAILQ_LAST\<close> and \<^verbatim>\<open>TAILQ_PREV\<close> take the link
  field of an element for a list head, whose second word is the element's \<^verbatim>\<open>tqe_prev\<close>, and read the cell
  that it points to.
\<close>

fun walk :: "nat \<Rightarrow> ('a \<Rightarrow> 'a option) \<Rightarrow> 'a option \<Rightarrow> 'a list option" where
  "walk n nx None = Some []"
| "walk 0 nx (Some x) = None"
| "walk (Suc n) nx (Some x) = map_option (\<lambda>xs. x # xs) (walk n nx (nx x))"

definition LIST_FOREACH :: "nat \<Rightarrow> 'a lqueue \<Rightarrow> 'a list option" where
  "LIST_FOREACH n q = walk n (\<lambda>x. LIST_NEXT x q) (LIST_FIRST q)"

definition TAILQ_FOREACH :: "nat \<Rightarrow> 'a tqueue \<Rightarrow> 'a list option" where
  "TAILQ_FOREACH n q = walk n (\<lambda>x. TAILQ_NEXT x q) (TAILQ_FIRST q)"

fun tqe_load :: "'a ref \<Rightarrow> 'a tqueue \<Rightarrow> 'a option" where
  "tqe_load NullRef q = None"
| "tqe_load HeadRef q = tqh_first q"
| "tqe_load (NextRef x) q = tqe_next q x"

fun as_head_last :: "'a ref \<Rightarrow> 'a tqueue \<Rightarrow> 'a ref" where
  "as_head_last NullRef q = NullRef"
| "as_head_last HeadRef q = tqh_last q"
| "as_head_last (NextRef x) q = tqe_prev q x"

definition TAILQ_LAST :: "'a tqueue \<Rightarrow> 'a option" where
  "TAILQ_LAST q = tqe_load (as_head_last (tqh_last q) q) q"

definition TAILQ_PREV :: "'a \<Rightarrow> 'a tqueue \<Rightarrow> 'a option" where
  "TAILQ_PREV elm q = tqe_load (as_head_last (tqe_prev q elm) q) q"

definition TAILQ_FOREACH_REVERSE :: "nat \<Rightarrow> 'a tqueue \<Rightarrow> 'a list option" where
  "TAILQ_FOREACH_REVERSE n q = walk n (\<lambda>x. TAILQ_PREV x q) (TAILQ_LAST q)"

lemma walk_lseg: "lseg nx pv r p xs r' None \<Longrightarrow> length xs \<le> n \<Longrightarrow> walk n nx p = Some xs"
proof (induction xs arbitrary: n r p)
  case (Cons x xs)
  then show ?case by (cases n) auto
qed simp

lemma LIST_FOREACH_spec: "is_list q xs \<Longrightarrow> length xs \<le> n \<Longrightarrow> LIST_FOREACH n q = Some xs"
  by (auto simp: is_list_def LIST_FOREACH_def LIST_NEXT_def LIST_FIRST_def dest: walk_lseg)

lemma TAILQ_FOREACH_spec: "is_tailq q xs \<Longrightarrow> length xs \<le> n \<Longrightarrow> TAILQ_FOREACH n q = Some xs"
  by (auto simp: is_tailq_def TAILQ_FOREACH_def TAILQ_NEXT_def TAILQ_FIRST_def dest: walk_lseg)

text \<open>The cell at the end of a segment holds the segment's end.\<close>

lemma tqe_load_lseg:
  "lseg (tqe_next q) (tqe_prev q) HeadRef (tqh_first q) xs r p \<Longrightarrow> tqe_load r q = p"
  by (cases xs rule: rev_cases) auto

lemma as_head_last_lseg:
  assumes "is_tailq q (xs @ ys)" "lseg (tqe_next q) (tqe_prev q) HeadRef (tqh_first q) xs r p"
  shows "tqe_load (as_head_last r q) q = (if xs = [] then None else Some (last xs))"
proof (cases xs rule: rev_cases)
  case Nil
  then show ?thesis using assms tqe_load_lseg [of q "xs @ ys"] by (auto simp: is_tailq_def)
next
  case (snoc zs z)
  then show ?thesis using assms(2) tqe_load_lseg [of q zs] by auto
qed

lemma TAILQ_LAST_spec: "is_tailq q xs \<Longrightarrow> TAILQ_LAST q = (if xs = [] then None else Some (last xs))"
  using as_head_last_lseg [of q xs "[]"] by (auto simp: TAILQ_LAST_def is_tailq_def)

lemma TAILQ_PREV_spec: "is_tailq q (xs @ y # ys) \<Longrightarrow> TAILQ_PREV y q = (if xs = [] then None else Some (last xs))"
  using as_head_last_lseg [of q xs "y # ys"] by (fastforce simp: TAILQ_PREV_def is_tailq_def lseg_append)

lemma walk_back:
  assumes "is_tailq q (xs @ ys)" "length xs \<le> n"
  shows "walk n (\<lambda>x. TAILQ_PREV x q) (if xs = [] then None else Some (last xs)) = Some (rev xs)"
  using assms
proof (induction xs arbitrary: n ys rule: rev_induct)
  case (snoc x xs)
  from snoc.prems(2) obtain m where m: "n = Suc m" "length xs \<le> m" by (cases n) auto
  have "is_tailq q (xs @ x # ys)" using snoc.prems(1) by simp
  from TAILQ_PREV_spec [OF this] snoc.IH [OF this m(2)] show ?case by (simp add: m(1))
qed simp

lemma TAILQ_FOREACH_REVERSE_spec: "is_tailq q xs \<Longrightarrow> length xs \<le> n \<Longrightarrow> TAILQ_FOREACH_REVERSE n q = Some (rev xs)"
  using walk_back [of q xs "[]" n] TAILQ_LAST_spec [of q xs] by (simp add: TAILQ_FOREACH_REVERSE_def)

end
