(* ===== verification/Kstate.thy ===== *)
theory Kstate
  imports Mmu Queue
begin

text \<open>
  The state of the kernel: one field per global variable of \<^verbatim>\<open>kern/pmap.c\<close>,
  \<^verbatim>\<open>kern/env.c\<close>, \<^verbatim>\<open>kern/sched.c\<close> and \<^verbatim>\<open>kern/syscall_all.c\<close>, plus
  physical memory and the TLB.

  Pointers into arrays are indices: a \<^verbatim>\<open>struct Page *\<close> is the page's number, a
  \<^verbatim>\<open>struct Env *\<close> the environment's. A \<^verbatim>\<open>Pde *\<close> or \<^verbatim>\<open>Pte *\<close> at the
  start of a page is the number of that page's frame, and a pointer to one entry is the pair of
  frame and index. \<open>mem\<close> maps a frame number to its 1024 words. The TLB is content-addressed: it
  maps an EntryHi value (page number and ASID) to the EntryLo value loaded with it. A character
  array is a function from offsets to bytes. \<open>kstack_tf\<close> is the trap frame below
  \<^verbatim>\<open>KSTACKTOP\<close>, \<open>console\<close> the characters printed by system calls, \<open>cons_in\<close> the
  results the next polls of the console will give (0 when no key is pressed), and \<open>dev_out\<close> the
  writes to device registers, latest first.
\<close>

record trapframe =
  tf_regs :: "nat \<Rightarrow> u32"
  tf_status :: u32
  tf_hi :: u32
  tf_lo :: u32
  tf_badvaddr :: u32
  tf_cause :: u32
  tf_epc :: u32

datatype env_status = ENV_FREE | ENV_RUNNABLE | ENV_NOT_RUNNABLE

record env =
  env_tf :: trapframe
  env_id :: u32
  env_asid :: u32
  env_parent_id :: u32
  env_status :: env_status
  env_pgdir :: nat
  env_pri :: u32
  env_ipc_value :: u32
  env_ipc_from :: u32
  env_ipc_recving :: u32
  env_ipc_dstva :: u32
  env_ipc_perm :: u32
  env_user_tlb_mod_entry :: u32
  env_runs :: u32
  env_path :: "nat \<Rightarrow> u8"

record kstate =
  memsize :: u32
  npage :: nat
  freemem :: u32
  kernel_end :: u32
  pages_kva :: u32
  page_free_list :: "nat lqueue"
  pp_ref :: "nat \<Rightarrow> u16"
  mem :: "nat \<Rightarrow> frame"
  cur_pgdir :: nat
  tlb :: "u32 \<Rightarrow> u32 option"
  envs :: "nat \<Rightarrow> env"
  envs_kva :: u32
  curenv :: "nat option"
  env_free_list :: "nat lqueue"
  env_sched_list :: "nat tqueue"
  base_pgdir :: nat
  asid_bitmap :: "nat \<Rightarrow> u32"
  mkenvid_i :: u32
  sched_count :: u32
  kstack_tf :: trapframe
  pwd :: "nat \<Rightarrow> u8"
  console :: "u8 list"
  cons_in :: "u8 list"
  dev_out :: "(u32 \<times> u8 list) list"

definition LOG2NENV :: nat where "LOG2NENV = 10"
definition NENV :: nat where "NENV = 2 ^ LOG2NENV"

definition ENVX :: "u32 \<Rightarrow> nat" where
  "ENVX envid = unat (envid AND (of_nat NENV - 1))"

text \<open>Writing through the field of one environment, and through a page-table pointer.\<close>

definition upd_env :: "nat \<Rightarrow> (env \<Rightarrow> env) \<Rightarrow> kstate \<Rightarrow> kstate" where
  "upd_env e f s = s\<lparr>envs := (envs s)(e := f (envs s e))\<rparr>"

definition store :: "nat \<Rightarrow> nat \<Rightarrow> u32 \<Rightarrow> kstate \<Rightarrow> kstate" where
  "store fr i w s = s\<lparr>mem := (mem s)(fr := (mem s fr)(i := w))\<rparr>"

definition set_ref :: "nat \<Rightarrow> u16 \<Rightarrow> kstate \<Rightarrow> kstate" where
  "set_ref pp r s = s\<lparr>pp_ref := (pp_ref s)(pp := r)\<rparr>"

text \<open>The kernel's variables as the loader leaves them: zero, apart from the linker's symbols.\<close>

definition zero_tf :: trapframe where
  "zero_tf = \<lparr>tf_regs = (\<lambda>_. 0), tf_status = 0, tf_hi = 0, tf_lo = 0, tf_badvaddr = 0, tf_cause = 0,
     tf_epc = 0\<rparr>"

definition zero_env :: env where
  "zero_env = \<lparr>env_tf = zero_tf, env_id = 0, env_asid = 0, env_parent_id = 0, env_status = ENV_FREE,
     env_pgdir = 0, env_pri = 0, env_ipc_value = 0, env_ipc_from = 0, env_ipc_recving = 0,
     env_ipc_dstva = 0, env_ipc_perm = 0, env_user_tlb_mod_entry = 0, env_runs = 0,
     env_path = (\<lambda>_. 0)\<rparr>"

definition empty_list :: "nat lqueue" where
  "empty_list = \<lparr>lh_first = None, le_next = (\<lambda>_. None), le_prev = (\<lambda>_. NullRef)\<rparr>"

definition empty_tailq :: "nat tqueue" where
  "empty_tailq = \<lparr>tqh_first = None, tqh_last = NullRef, tqe_next = (\<lambda>_. None), tqe_prev = (\<lambda>_. NullRef)\<rparr>"

definition bss :: "u32 \<Rightarrow> u32 \<Rightarrow> kstate" where
  "bss kend envs_at = \<lparr>memsize = 0, npage = 0, freemem = 0, kernel_end = kend, pages_kva = 0,
     page_free_list = empty_list, pp_ref = (\<lambda>_. 0), mem = (\<lambda>_ _. 0), cur_pgdir = 0,
     tlb = (\<lambda>_. None), envs = (\<lambda>_. zero_env), envs_kva = envs_at, curenv = None,
     env_free_list = empty_list, env_sched_list = empty_tailq, base_pgdir = 0,
     asid_bitmap = (\<lambda>_. 0), mkenvid_i = 0, sched_count = 0, kstack_tf = zero_tf,
     pwd = (\<lambda>_. 0), console = [], cons_in = [], dev_out = []\<rparr>"

end
