(* ===== verification/Pmap.thy ===== *)
theory Pmap
  imports Kstate
begin

text \<open>
  The page allocator, the two-level page tables and the TLB flush: \<^verbatim>\<open>kern/pmap.c\<close> with the
  inline functions of \<^verbatim>\<open>include/pmap.h\<close> and \<^verbatim>\<open>tlb_out\<close> of \<^verbatim>\<open>kern/tlb_asm.S\<close>.
\<close>

section \<open>Address conversions\<close>

definition KADDR :: "u32 \<Rightarrow> (kstate, nat) kprog" where
  "KADDR pa = bindK (getsK npage) (\<lambda>n.
     if n \<le> PPN pa then panicK ''KADDR called with invalid pa'' else retK (PPN pa))"

definition PADDR :: "u32 \<Rightarrow> (kstate, u32) kprog" where
  "PADDR a = (if a < ULIM then panicK ''PADDR called with invalid kva'' else retK (a - ULIM))"

definition pa2page :: "u32 \<Rightarrow> (kstate, nat) kprog" where
  "pa2page pa = bindK (getsK npage) (\<lambda>n.
     if n \<le> PPN pa then panicK ''pa2page called with invalid pa'' else retK (PPN pa))"

definition page2kva :: "nat \<Rightarrow> (kstate, nat) kprog" where
  "page2kva pp = KADDR (page2pa pp)"

text \<open>The address \<^verbatim>\<open>~0\<close> stands for "not mapped".\<close>

definition va2pa :: "nat \<Rightarrow> u32 \<Rightarrow> (kstate, u32) kprog" where
  "va2pa pgdir va =
     bindK (getsK (\<lambda>s. mem s pgdir (PDX va))) (\<lambda>pde.
     if \<not> valid pde then retK (- 1)
     else bindK (KADDR (PTE_ADDR pde)) (\<lambda>t.
          bindK (getsK (\<lambda>s. mem s t (PTX va))) (\<lambda>pte.
          if \<not> valid pte then retK (- 1) else retK (PTE_ADDR pte))))"

section \<open>Boot-time memory\<close>

definition mips_detect_memory :: "u32 \<Rightarrow> (kstate, unit) kprog" where
  "mips_detect_memory dev_mp_memory =
     seqK (modifyK (\<lambda>s. s\<lparr>memsize := dev_mp_memory\<rparr>))
          (modifyK (\<lambda>s. s\<lparr>npage := unat (memsize s div BY2PG)\<rparr>))"

text \<open>Clearing \<open>n\<close> bytes from a kernel address in \<open>kseg0\<close>, byte by byte.\<close>

fun clear_bytes :: "nat \<Rightarrow> nat \<Rightarrow> (nat \<Rightarrow> frame) \<Rightarrow> (nat \<Rightarrow> frame)" where
  "clear_bytes a 0 m = m"
| "clear_bytes a (Suc n) m =
     clear_bytes (Suc a) n (m(a div 4096 := set_frame_byte (m (a div 4096)) (a mod 4096) 0))"

definition boot_alloc :: "u32 \<Rightarrow> u32 \<Rightarrow> bool \<Rightarrow> (kstate, u32) kprog" where
  "boot_alloc n align clear =
     seqK (modifyK (\<lambda>s. if freemem s = 0 then s\<lparr>freemem := kernel_end s\<rparr> else s))
    (seqK (modifyK (\<lambda>s. s\<lparr>freemem := ROUND (freemem s) align\<rparr>))
    (bindK (getsK freemem) (\<lambda>alloced.
     seqK (modifyK (\<lambda>s. s\<lparr>freemem := freemem s + n\<rparr>))
    (bindK (getsK freemem) (\<lambda>fm. bindK (PADDR fm) (\<lambda>pa. bindK (getsK memsize) (\<lambda>ms.
     seqK (assertK (\<not> ms \<le> pa) ''out of memory'')
    (seqK (modifyK (\<lambda>s. if clear
              then s\<lparr>mem := clear_bytes (unat (alloced - ULIM)) (unat n) (mem s)\<rparr> else s))
          (retK alloced)))))))))"

definition sizeof_Page :: u32 where "sizeof_Page = 12"

definition mips_vm_init :: "(kstate, unit) kprog" where
  "mips_vm_init =
     bindK (getsK (\<lambda>s. of_nat (npage s) * sizeof_Page)) (\<lambda>n.
     bindK (boot_alloc n BY2PG True) (\<lambda>a. modifyK (\<lambda>s. s\<lparr>pages_kva := a\<rparr>)))"

text \<open>
  The two loops of \<^verbatim>\<open>page_init\<close>. The counter \<open>n\<close> is \<open>npage - pp\<close>: at 0 the next
  \<^verbatim>\<open>page2kva(pp)\<close> of the first loop panics and the test of the second fails.
\<close>

fun page_init_free :: "nat \<Rightarrow> nat \<Rightarrow> kstate \<Rightarrow> kstate" where
  "page_init_free 0 pp s = s"
| "page_init_free (Suc n) pp s =
     (let s = set_ref pp 0 s;
          s = s\<lparr>page_free_list := LIST_INSERT_HEAD pp (page_free_list s)\<rparr>
      in page_init_free n (Suc pp) s)"

fun page_init_used :: "nat \<Rightarrow> nat \<Rightarrow> (kstate, unit) kprog" where
  "page_init_used 0 pp = panicK ''KADDR called with invalid pa''"
| "page_init_used (Suc n) pp =
     bindK (getsK (\<lambda>s. page2pa pp + ULIM < freemem s)) (\<lambda>below.
       if below then seqK (modifyK (set_ref pp 1)) (page_init_used n (Suc pp))
       else modifyK (page_init_free (Suc n) pp))"

definition page_init :: "(kstate, unit) kprog" where
  "page_init =
     seqK (modifyK (\<lambda>s. s\<lparr>page_free_list := LIST_INIT (page_free_list s)\<rparr>))
    (seqK (modifyK (\<lambda>s. s\<lparr>freemem := ROUND (freemem s) BY2PG\<rparr>))
    (bindK (getsK npage) (\<lambda>n. page_init_used n 0)))"

section \<open>Allocating and releasing pages\<close>

definition page_alloc :: "(kstate, err + nat) kprog" where
  "page_alloc =
     bindK (getsK (\<lambda>s. LIST_FIRST (page_free_list s))) (\<lambda>first.
     case first of
       None \<Rightarrow> retK (Inl E_NO_MEM)
     | Some pp \<Rightarrow>
         seqK (stepK (\<lambda>s. map_option (\<lambda>q. s\<lparr>page_free_list := q\<rparr>)
                            (LIST_REMOVE pp (page_free_list s))) ''store through NULL'')
        (bindK (page2kva pp) (\<lambda>fr.
         seqK (modifyK (\<lambda>s. s\<lparr>mem := (mem s)(fr := (\<lambda>_. 0))\<rparr>))
              (retK (Inr pp)))))"

definition page_free :: "nat \<Rightarrow> (kstate, unit) kprog" where
  "page_free pp =
     bindK (getsK (\<lambda>s. pp_ref s pp)) (\<lambda>r.
     seqK (assertK (r = 0) ''assertion failed: pp->pp_ref == 0'')
          (if r = 0
           then modifyK (\<lambda>s. s\<lparr>page_free_list := LIST_INSERT_HEAD pp (page_free_list s)\<rparr>)
           else retK ()))"

definition page_incref :: "nat \<Rightarrow> kstate \<Rightarrow> kstate" where
  "page_incref pp s = set_ref pp (pp_ref s pp + 1) s"

definition page_decref :: "nat \<Rightarrow> (kstate, unit) kprog" where
  "page_decref pp =
     bindK (getsK (\<lambda>s. pp_ref s pp)) (\<lambda>r.
     seqK (assertK (0 < r) ''assertion failed: pp->pp_ref > 0'')
    (seqK (modifyK (\<lambda>s. set_ref pp (pp_ref s pp - 1) s))
    (bindK (getsK (\<lambda>s. pp_ref s pp)) (\<lambda>r.
     if r = 0 then page_free pp else retK ()))))"

section \<open>Page tables\<close>

text \<open>The last step of \<^verbatim>\<open>pgdir_walk\<close>: the address of the entry in the page table.\<close>

definition pte_pointer :: "nat \<Rightarrow> u32 \<Rightarrow> (kstate, err + (nat \<times> nat) option) kprog" where
  "pte_pointer pgdir va =
     bindK (getsK (\<lambda>s. mem s pgdir (PDX va))) (\<lambda>pde.
     bindK (KADDR (PTE_ADDR pde)) (\<lambda>t. retK (Inr (Some (t, PTX va)))))"

definition pgdir_walk :: "nat \<Rightarrow> u32 \<Rightarrow> bool \<Rightarrow> (kstate, err + (nat \<times> nat) option) kprog" where
  "pgdir_walk pgdir va create =
     bindK (getsK (\<lambda>s. mem s pgdir (PDX va))) (\<lambda>pde.
     if PTE_V AND pde = 0 then
       if create then
         tryK page_alloc (\<lambda>pp.
         seqK (modifyK (store pgdir (PDX va) (page2pa pp)))
        (seqK (modifyK (\<lambda>s. store pgdir (PDX va) (mem s pgdir (PDX va) OR PTE_D OR PTE_V) s))
        (seqK (modifyK (page_incref pp))
              (pte_pointer pgdir va))))
       else retK (Inr None)
     else pte_pointer pgdir va)"

definition page_lookup :: "nat \<Rightarrow> u32 \<Rightarrow> (kstate, (nat \<times> nat \<times> nat) option) kprog" where
  "page_lookup pgdir va =
     bindK (pgdir_walk pgdir va False) (\<lambda>r.
     case r of
       Inr (Some (t, j)) \<Rightarrow>
         bindK (getsK (\<lambda>s. mem s t j)) (\<lambda>pte.
         if \<not> valid pte then retK None
         else bindK (pa2page pte) (\<lambda>pp. retK (Some (pp, t, j))))
     | _ \<Rightarrow> retK None)"

text \<open>
  \<^verbatim>\<open>tlb_out\<close> probes for the entry that matches an EntryHi value (same page and, unless the
  entry is global, same ASID) and overwrites it with zero.
\<close>

definition tlb_match :: "u32 \<Rightarrow> u32 \<Rightarrow> u32 \<Rightarrow> bool" where
  "tlb_match hi key lo \<longleftrightarrow>
     PTE_ADDR key = PTE_ADDR hi \<and> (key AND 0xFC0 = hi AND 0xFC0 \<or> lo AND PTE_G \<noteq> 0)"

definition tlb_out :: "u32 \<Rightarrow> (kstate, unit) kprog" where
  "tlb_out hi = modifyK (\<lambda>s. s\<lparr>tlb := (\<lambda>key. case tlb s key of
       None \<Rightarrow> None | Some lo \<Rightarrow> if tlb_match hi key lo then None else Some lo)\<rparr>)"

definition tlb_key :: "u32 \<Rightarrow> u32 \<Rightarrow> u32" where
  "tlb_key asid va = PTE_ADDR va OR push_bit 6 asid"

definition tlb_invalidate :: "u32 \<Rightarrow> u32 \<Rightarrow> (kstate, unit) kprog" where
  "tlb_invalidate asid va = tlb_out (tlb_key asid va)"

definition page_remove :: "nat \<Rightarrow> u32 \<Rightarrow> u32 \<Rightarrow> (kstate, unit) kprog" where
  "page_remove pgdir asid va =
     bindK (page_lookup pgdir va) (\<lambda>r.
     case r of
       None \<Rightarrow> retK ()
     | Some (pp, t, j) \<Rightarrow>
         seqK (page_decref pp)
        (seqK (modifyK (store t j 0))
              (tlb_invalidate asid va)))"

text \<open>Steps 2 to 4 of \<^verbatim>\<open>page_insert\<close>, when the address maps no page or another one.\<close>

definition page_insert_new :: "nat \<Rightarrow> u32 \<Rightarrow> nat \<Rightarrow> u32 \<Rightarrow> u32 \<Rightarrow> (kstate, err + unit) kprog" where
  "page_insert_new pgdir asid pp va perm =
     seqK (tlb_invalidate asid va)
    (tryK (pgdir_walk pgdir va True) (\<lambda>w.
     case w of
       None \<Rightarrow> panicK ''store through NULL''
     | Some (t, j) \<Rightarrow>
         seqK (modifyK (store t j (page2pa pp OR perm OR PTE_V)))
        (seqK (modifyK (page_incref pp))
              (retK (Inr ())))))"

definition page_insert :: "nat \<Rightarrow> u32 \<Rightarrow> nat \<Rightarrow> u32 \<Rightarrow> u32 \<Rightarrow> (kstate, err + unit) kprog" where
  "page_insert pgdir asid pp va perm =
     bindK (pgdir_walk pgdir va False) (\<lambda>r.
     case r of
       Inr (Some (t, j)) \<Rightarrow>
         bindK (getsK (\<lambda>s. mem s t j)) (\<lambda>pte.
         if valid pte then
           bindK (pa2page pte) (\<lambda>old.
           if old \<noteq> pp then
             seqK (page_remove pgdir asid va) (page_insert_new pgdir asid pp va perm)
           else
             seqK (tlb_invalidate asid va)
            (seqK (modifyK (store t j (page2pa pp OR perm OR PTE_V)))
                  (retK (Inr ()))))
         else page_insert_new pgdir asid pp va perm)
     | _ \<Rightarrow> page_insert_new pgdir asid pp va perm)"

end
