(* ===== verification/Pmap_Inv.thy ===== *)
theory Pmap_Inv
  imports Pmap
begin

text \<open>
  The invariant of physical memory. \<open>idx d\<close> is the set of directory slots of the page directory
  \<open>d\<close> that are under management (empty when \<open>d\<close> is no page directory): all slots below
  \<^verbatim>\<open>PDX(UTOP)\<close> for an environment. \<open>pin p\<close> counts the references to page \<open>p\<close> that do not
  come from page tables: page directories, and pages the kernel took at boot. \<open>fl\<close> is the list
  that \<^verbatim>\<open>page_free_list\<close> holds.

  \<open>mm_inv idx pin fl s\<close> says that the managed page tables form a tree (no table is used twice,
  none is a directory), that every entry stays inside physical memory, that free pages have no
  references, and that every reference count is exact.
\<close>

definition tabs :: "(nat \<Rightarrow> nat set) \<Rightarrow> (nat \<Rightarrow> frame) \<Rightarrow> (nat \<times> nat) set" where
  "tabs idx m = {(d, i). i \<in> idx d \<and> valid (m d i)}"

fun tab_of :: "(nat \<Rightarrow> frame) \<Rightarrow> nat \<times> nat \<Rightarrow> nat" where
  "tab_of m (d, i) = PPN (m d i)"

definition leafs :: "(nat \<Rightarrow> nat set) \<Rightarrow> (nat \<Rightarrow> frame) \<Rightarrow> (nat \<times> nat \<times> nat) set" where
  "leafs idx m = {(d, i, j). (d, i) \<in> tabs idx m \<and> j < 1024 \<and> valid (m (PPN (m d i)) j)}"

fun leaf_of :: "(nat \<Rightarrow> frame) \<Rightarrow> nat \<times> nat \<times> nat \<Rightarrow> nat" where
  "leaf_of m (d, i, j) = PPN (m (PPN (m d i)) j)"

declare tab_of.simps [simp del] leaf_of.simps [simp del]

definition pt_wf :: "(nat \<Rightarrow> nat set) \<Rightarrow> (nat \<Rightarrow> frame) \<Rightarrow> nat \<Rightarrow> bool" where
  "pt_wf idx m n \<longleftrightarrow>
     n \<le> 2 ^ 20 \<and> finite {d. idx d \<noteq> {}} \<and> (\<forall>d. idx d \<subseteq> {..<1024}) \<and>
     (\<forall>d. idx d \<noteq> {} \<longrightarrow> d < n) \<and>
     (\<forall>x \<in> tabs idx m. tab_of m x < n \<and> idx (tab_of m x) = {}) \<and>
     inj_on (tab_of m) (tabs idx m) \<and>
     (\<forall>l \<in> leafs idx m. leaf_of m l < n)"

definition ntab :: "(nat \<Rightarrow> nat set) \<Rightarrow> (nat \<Rightarrow> frame) \<Rightarrow> nat \<Rightarrow> nat" where
  "ntab idx m p = card {x \<in> tabs idx m. tab_of m x = p}"

definition nleaf :: "(nat \<Rightarrow> nat set) \<Rightarrow> (nat \<Rightarrow> frame) \<Rightarrow> nat \<Rightarrow> nat" where
  "nleaf idx m p = card {l \<in> leafs idx m. leaf_of m l = p}"

definition mm_inv :: "(nat \<Rightarrow> nat set) \<Rightarrow> (nat \<Rightarrow> nat) \<Rightarrow> nat list \<Rightarrow> kstate \<Rightarrow> bool" where
  "mm_inv idx pin fl s \<longleftrightarrow>
     pt_wf idx (mem s) (npage s) \<and>
     is_list (page_free_list s) fl \<and> (\<forall>p \<in> set fl. p < npage s \<and> pp_ref s p = 0) \<and>
     (\<forall>d. idx d \<noteq> {} \<longrightarrow> 0 < pin d) \<and>
     (\<forall>p < npage s. unat (pp_ref s p) = pin p + ntab idx (mem s) p + nleaf idx (mem s) p)"

lemma pt_wf_finite_tabs: "pt_wf idx m n \<Longrightarrow> finite (tabs idx m)"
proof -
  assume wf: "pt_wf idx m n"
  then have "finite (idx d)" for d
    using finite_subset [of "idx d" "{..<1024}"] by (simp add: pt_wf_def)
  with wf have "finite (Sigma {d. idx d \<noteq> {}} idx)"
    by (intro finite_SigmaI) (auto simp: pt_wf_def)
  moreover have "tabs idx m \<subseteq> Sigma {d. idx d \<noteq> {}} idx" by (auto simp: tabs_def)
  ultimately show ?thesis by (rule rev_finite_subset)
qed

lemma pt_wf_finite_leafs: "pt_wf idx m n \<Longrightarrow> finite (leafs idx m)"
proof -
  assume wf: "pt_wf idx m n"
  have "leafs idx m \<subseteq> (\<lambda>((d, i), j). (d, i, j)) ` (tabs idx m \<times> {..<1024})"
    by (force simp: leafs_def)
  with pt_wf_finite_tabs [OF wf] show ?thesis by (auto intro: finite_subset)
qed

lemma pt_wf_tab:
  assumes "pt_wf idx m n" "(d, i) \<in> tabs idx m"
  shows "PPN (m d i) < n" "idx (PPN (m d i)) = {}"
proof -
  from assms have "tab_of m (d, i) < n \<and> idx (tab_of m (d, i)) = {}"
    unfolding pt_wf_def by blast
  then show "PPN (m d i) < n" "idx (PPN (m d i)) = {}" by (simp_all add: tab_of.simps)
qed

lemma pt_wf_inj:
  assumes "pt_wf idx m n" "(d, i) \<in> tabs idx m" "(d', i') \<in> tabs idx m"
    "PPN (m d' i') = PPN (m d i)"
  shows "(d', i') = (d, i)"
proof -
  from assms(1) have "inj_on (tab_of m) (tabs idx m)" by (simp add: pt_wf_def)
  then show ?thesis by (rule inj_onD) (use assms in \<open>simp_all add: tab_of.simps\<close>)
qed

lemma card_filter_0D: "finite A \<Longrightarrow> card {x \<in> A. f x = p} = 0 \<Longrightarrow> x \<in> A \<Longrightarrow> f x \<noteq> p"
  by auto

text \<open>A page without references is neither a directory, nor a table, nor mapped.\<close>

lemma mm_inv_unreferenced:
  assumes inv: "mm_inv idx pin fl s" and p: "p < npage s" and r: "pp_ref s p = 0"
  shows "idx p = {}" "pin p = 0" "\<And>x. x \<in> tabs idx (mem s) \<Longrightarrow> tab_of (mem s) x \<noteq> p"
    "\<And>l. l \<in> leafs idx (mem s) \<Longrightarrow> leaf_of (mem s) l \<noteq> p"
proof -
  from inv have wf: "pt_wf idx (mem s) (npage s)" by (simp add: mm_inv_def)
  from inv p have "unat (pp_ref s p) = pin p + ntab idx (mem s) p + nleaf idx (mem s) p"
    by (simp add: mm_inv_def)
  with r have z: "pin p = 0" "ntab idx (mem s) p = 0" "nleaf idx (mem s) p = 0" by simp_all
  then show "pin p = 0" by simp
  moreover from inv have "idx p \<noteq> {} \<longrightarrow> 0 < pin p" by (simp add: mm_inv_def)
  ultimately show "idx p = {}" by simp
  show "tab_of (mem s) x \<noteq> p" if "x \<in> tabs idx (mem s)" for x
    using pt_wf_finite_tabs [OF wf] z(2) [unfolded ntab_def] that by (rule card_filter_0D)
  show "leaf_of (mem s) l \<noteq> p" if "l \<in> leafs idx (mem s)" for l
    using pt_wf_finite_leafs [OF wf] z(3) [unfolded nleaf_def] that by (rule card_filter_0D)
qed

section \<open>Writing one page-table entry\<close>

lemma tabs_store_leaf:
  fixes j :: nat and w :: u32
  assumes wf: "pt_wf idx m n" and di: "(d, i) \<in> tabs idx m"
  defines "m' \<equiv> m(PPN (m d i) := (m (PPN (m d i)))(j := w))"
  shows "tabs idx m' = tabs idx m" "\<And>d' i'. i' \<in> idx d' \<Longrightarrow> m' d' i' = m d' i'"
proof -
  note nr = pt_wf_tab(2) [OF wf di]
  then show same: "m' d' i' = m d' i'" if "i' \<in> idx d'" for d' i'
    using that by (auto simp: m'_def)
  then show "tabs idx m' = tabs idx m" by (auto simp: tabs_def)
qed

lemma leafs_store_leaf:
  fixes j :: nat and w :: u32
  assumes wf: "pt_wf idx m n" and di: "(d, i) \<in> tabs idx m" and j: "j < 1024"
  defines "m' \<equiv> m(PPN (m d i) := (m (PPN (m d i)))(j := w))"
  shows "leafs idx m' = (if valid w then insert (d, i, j) (leafs idx m) else leafs idx m - {(d, i, j)})"
    and "leaf_of m' (d, i, j) = PPN w"
    and "l \<in> leafs idx m \<Longrightarrow> l \<noteq> (d, i, j) \<Longrightarrow> leaf_of m' l = leaf_of m l"
proof -
  note inj = pt_wf_inj [OF wf di]
  note tabs' = tabs_store_leaf [OF wf di, where j = j and w = w, folded m'_def]
  have mem': "m' (PPN (m' d' i')) j' = (if (d', i', j') = (d, i, j) then w else m (PPN (m d' i')) j')"
    if "(d', i') \<in> tabs idx m" for d' i' j'
    using that inj [OF that] tabs'(2) by (auto simp: m'_def tabs_def)
  have "(d', i', j') \<in> leafs idx m' \<longleftrightarrow> (if (d', i', j') = (d, i, j) then valid w
      else (d', i', j') \<in> leafs idx m)" for d' i' j'
  proof (cases "(d', i') \<in> tabs idx m")
    case True
    with mem' [OF True, of j'] j show ?thesis by (auto simp: leafs_def tabs'(1))
  next
    case False
    with di show ?thesis by (auto simp: leafs_def tabs'(1))
  qed
  then show "leafs idx m' = (if valid w then insert (d, i, j) (leafs idx m) else leafs idx m - {(d, i, j)})"
    by (auto split: if_splits)
  show "leaf_of m' (d, i, j) = PPN w" using mem' [OF di, of j] by (simp add: leaf_of.simps)
  show "leaf_of m' l = leaf_of m l" if "l \<in> leafs idx m" "l \<noteq> (d, i, j)"
    using that mem' by (cases l) (auto simp: leafs_def leaf_of.simps)
qed

text \<open>The counts after the write, as integers: what the old entry gave up, what the new one takes.\<close>

definition hits :: "u32 \<Rightarrow> nat \<Rightarrow> int" where
  "hits w p = (if valid w \<and> PPN w = p then 1 else 0)"

lemma filter_replace:
  assumes "L' = (if v then insert x L else L - {x})" "f' x = q"
    and "\<And>l. l \<in> L \<Longrightarrow> l \<noteq> x \<Longrightarrow> f' l = f l"
  shows "{l \<in> L'. f' l = p} = ({l \<in> L. f l = p} - {x}) \<union> (if v \<and> q = p then {x} else {})"
    (is "?A = ?B")
proof (rule set_eqI)
  fix y
  show "y \<in> ?A \<longleftrightarrow> y \<in> ?B"
    using assms(1,2) assms(3) [of y] by (cases "y = x") auto
qed

lemma card_replace:
  assumes "finite A"
  shows "int (card ((A - {x}) \<union> (if b then {x} else {}))) =
    int (card A) - (if x \<in> A then 1 else 0) + (if b then 1 else 0)"
proof -
  have "card (A - {x}) = (if x \<in> A then card A - 1 else card A)" by simp
  moreover have "x \<in> A \<Longrightarrow> 0 < card A" using assms by (auto simp: card_gt_0_iff)
  moreover have "card (insert x (A - {x})) = Suc (card (A - {x}))"
    by (rule card_insert_disjoint) (use assms in auto)
  ultimately show ?thesis by auto
qed

lemma nleaf_store_leaf:
  fixes j :: nat and w :: u32
  assumes wf: "pt_wf idx m n" and di: "(d, i) \<in> tabs idx m" and j: "j < 1024"
  defines "m' \<equiv> m(PPN (m d i) := (m (PPN (m d i)))(j := w))"
  shows "int (nleaf idx m' p) = int (nleaf idx m p) - hits (m (PPN (m d i)) j) p + hits w p"
proof -
  let ?S = "{l \<in> leafs idx m. leaf_of m l = p}"
  note upd = leafs_store_leaf [OF wf di j, where w = w, folded m'_def]
  have "{l \<in> leafs idx m'. leaf_of m' l = p} =
      (?S - {(d, i, j)}) \<union> (if valid w \<and> PPN w = p then {(d, i, j)} else {})"
    using upd(1,2) by (rule filter_replace) (rule upd(3))
  moreover have "(d, i, j) \<in> ?S \<longleftrightarrow> valid (m (PPN (m d i)) j) \<and> PPN (m (PPN (m d i)) j) = p"
    using di j by (simp add: leafs_def leaf_of.simps)
  moreover have "finite ?S" using pt_wf_finite_leafs [OF wf] by simp
  ultimately show ?thesis
    using card_replace [of ?S "(d, i, j)" "valid w \<and> PPN w = p"] by (simp add: nleaf_def hits_def)
qed

lemma pt_wf_store_leaf:
  assumes wf: "pt_wf idx m n" and di: "(d, i) \<in> tabs idx m" and j: "j < 1024"
    and w: "valid w \<Longrightarrow> PPN w < n"
  shows "pt_wf idx (m(PPN (m d i) := (m (PPN (m d i)))(j := w))) n"
proof -
  let ?m = "m(PPN (m d i) := (m (PPN (m d i)))(j := w))"
  note t = tabs_store_leaf [OF wf di, where j = j and w = w] and l = leafs_store_leaf [OF wf di j, where w = w]
  have same: "tab_of ?m x = tab_of m x" if "x \<in> tabs idx m" for x
    using that t(2) by (cases x) (auto simp: tabs_def tab_of.simps)
  then have "inj_on (tab_of ?m) (tabs idx ?m) = inj_on (tab_of m) (tabs idx m)"
    unfolding t(1) by (rule inj_on_cong)
  moreover have "\<forall>x \<in> tabs idx ?m. tab_of ?m x < n \<and> idx (tab_of ?m x) = {}"
    using wf same unfolding t(1) by (auto simp: pt_wf_def)
  moreover have "leaf_of ?m x < n" if "x \<in> leafs idx ?m" for x
    using that wf w l by (cases "x = (d, i, j)") (auto simp: pt_wf_def split: if_splits)
  ultimately show ?thesis using wf unfolding pt_wf_def by blast
qed

lemma ntab_store_leaf:
  assumes wf: "pt_wf idx m n" and di: "(d, i) \<in> tabs idx m"
  shows "ntab idx (m(PPN (m d i) := (m (PPN (m d i)))(j := w))) p = ntab idx m p"
proof -
  note t = tabs_store_leaf [OF wf di, where j = j and w = w]
  have "tab_of (m(PPN (m d i) := (m (PPN (m d i)))(j := w))) x = tab_of m x" if "x \<in> tabs idx m" for x
    using that t(2) by (cases x) (auto simp: tabs_def tab_of.simps)
  then show ?thesis unfolding ntab_def t(1) by (metis (no_types, lifting))
qed

text \<open>
  The invariant survives the write of a leaf entry when the reference counts change by exactly
  the difference between the old and the new entry.
\<close>

lemma mm_inv_store_leaf:
  assumes inv: "mm_inv idx pin fl s" and di: "(d, i) \<in> tabs idx (mem s)" and j: "j < 1024"
    and w: "valid w \<Longrightarrow> PPN w < npage s"
    and s': "mem s' = (mem s)(PPN (mem s d i) := (mem s (PPN (mem s d i)))(j := w))"
      "npage s' = npage s"
    and fl': "is_list (page_free_list s') fl'" "\<forall>p \<in> set fl'. p < npage s \<and> pp_ref s' p = 0"
    and r: "\<And>p. p < npage s \<Longrightarrow> int (unat (pp_ref s' p)) =
      int (unat (pp_ref s p)) - hits (mem s (PPN (mem s d i)) j) p + hits w p"
  shows "mm_inv idx pin fl' s'"
proof -
  from inv have wf: "pt_wf idx (mem s) (npage s)" by (simp add: mm_inv_def)
  have "unat (pp_ref s' p) = pin p + ntab idx (mem s') p + nleaf idx (mem s') p" if "p < npage s" for p
  proof -
    from inv that have "unat (pp_ref s p) = pin p + ntab idx (mem s) p + nleaf idx (mem s) p"
      by (simp add: mm_inv_def)
    with r [OF that] nleaf_store_leaf [OF wf di j, where w = w and p = p] ntab_store_leaf [OF wf di, of j w p]
    have "int (unat (pp_ref s' p)) = int (pin p + ntab idx (mem s') p + nleaf idx (mem s') p)"
      unfolding s' by simp
    then show ?thesis by (simp only: of_nat_eq_iff)
  qed
  with inv fl' s' pt_wf_store_leaf [OF wf di j w] show ?thesis by (simp add: mm_inv_def)
qed

section \<open>Installing a fresh page table\<close>

lemma mm_inv_new_table:
  assumes inv: "mm_inv idx pin fl s" and i: "i \<in> idx d" and inval: "\<not> valid (mem s d i)"
    and t: "t < npage s" "pp_ref s t = 0" "t \<notin> set fl" and zero: "\<And>j. mem s t j = 0"
    and w: "valid w" "PPN w = t"
    and s': "mem s' = (mem s)(d := (mem s d)(i := w))" "npage s' = npage s"
      "page_free_list s' = page_free_list s" "pp_ref s' = (pp_ref s)(t := 1)"
  shows "mm_inv idx pin fl s'"
proof -
  let ?m = "mem s" and ?m' = "(mem s)(d := (mem s d)(i := w))"
  from inv have wf: "pt_wf idx ?m (npage s)" by (simp add: mm_inv_def)
  note un = mm_inv_unreferenced [OF inv t(1,2)]
  have dt: "d \<noteq> t" using i un(1) by auto
  have notab: "(d, i) \<notin> tabs idx ?m" using inval by (simp add: tabs_def)
  have droot: "PPN (?m d' i') \<noteq> d" if "(d', i') \<in> tabs idx ?m" for d' i'
    using pt_wf_tab(2) [OF wf that] i by auto
  have "?m' a b = (if (a, b) = (d, i) then w else ?m a b)" for a b by simp
  then have tabs': "tabs idx ?m' = insert (d, i) (tabs idx ?m)"
    using i w(1) unfolding tabs_def by auto
  have tab': "tab_of ?m' x = (if x = (d, i) then t else tab_of ?m x)"
    for x using w(2) by (cases x) (auto simp: tab_of.simps)
  have leafs': "leafs idx ?m' = leafs idx ?m"
  proof -
    have "(d', i', j) \<in> leafs idx ?m' \<longleftrightarrow> (d', i', j) \<in> leafs idx ?m" for d' i' j
    proof (cases "(d', i') = (d, i)")
      case True
      then show ?thesis using notab zero dt w by (auto simp: leafs_def)
    next
      case False
      then show ?thesis using droot by (auto simp: leafs_def tabs')
    qed
    then show ?thesis by auto
  qed
  have leaf': "leaf_of ?m' l = leaf_of ?m l" if "l \<in> leafs idx ?m" for l
  proof (cases l)
    case (fields d' i' j')
    with that have "(d', i') \<in> tabs idx ?m" by (simp add: leafs_def)
    with notab droot fields show ?thesis by (auto simp: leaf_of.simps split: if_splits)
  qed
  have wf': "pt_wf idx ?m' (npage s)"
  proof -
    have "inj_on (tab_of ?m') (tabs idx ?m')"
    proof -
      have "inj_on (tab_of ?m') (tabs idx ?m)"
        using wf notab by (auto simp: pt_wf_def inj_on_def tab')
      moreover have "tab_of ?m' (d, i) \<notin> tab_of ?m' ` (tabs idx ?m - {(d, i)})"
        using un(3) by (auto simp: tab')
      ultimately show ?thesis unfolding tabs' by simp
    qed
    moreover have "\<forall>x \<in> tabs idx ?m'. tab_of ?m' x < npage s \<and> idx (tab_of ?m' x) = {}"
      using wf t(1) un(1) unfolding tabs' tab' by (auto simp: pt_wf_def)
    moreover have "\<forall>l \<in> leafs idx ?m'. leaf_of ?m' l < npage s"
      using wf leaf' unfolding leafs' by (simp add: pt_wf_def)
    ultimately show ?thesis using wf unfolding pt_wf_def by blast
  qed
  have ntab': "ntab idx ?m' p = ntab idx ?m p + (if p = t then 1 else 0)" for p
  proof -
    have "{x \<in> tabs idx ?m'. tab_of ?m' x = p} =
        {x \<in> tabs idx ?m. tab_of ?m x = p} \<union> (if p = t then {(d, i)} else {})"
      unfolding tabs' tab' using notab by auto
    with notab pt_wf_finite_tabs [OF wf] show ?thesis by (simp add: ntab_def)
  qed
  have nleaf': "nleaf idx ?m' p = nleaf idx ?m p" for p
    unfolding nleaf_def leafs' using leaf' by (metis (no_types, lifting))
  have "unat (((pp_ref s)(t := 1)) p) = pin p + ntab idx ?m' p + nleaf idx ?m' p" if "p < npage s" for p
    using inv that t(2) unfolding ntab' nleaf' by (auto simp: mm_inv_def)
  with inv wf' t(3) show ?thesis unfolding mm_inv_def s' by auto
qed

end
