(* ===== verification/Pmap_Ops.thy ===== *)
theory Pmap_Ops
  imports Pmap_Inv
begin

text \<open>
  What the operations of the page tables do to the memory invariant, and what they mean as
  operations on the address space: \<open>lookup_pte m d va\<close> is the entry that the two-level walk from
  directory \<open>d\<close> finds for \<open>va\<close> (0 when there is none).
\<close>

definition lookup_pte :: "(nat \<Rightarrow> frame) \<Rightarrow> nat \<Rightarrow> u32 \<Rightarrow> u32" where
  "lookup_pte m d va = (if valid (m d (PDX va)) then m (PPN (m d (PDX va))) (PTX va) else 0)"

text \<open>\<open>s'\<close> differs from \<open>s\<close> at most in the fields that the page allocator and page tables own.\<close>

definition same_rest :: "kstate \<Rightarrow> kstate \<Rightarrow> bool" where
  "same_rest s s' \<longleftrightarrow>
     (\<exists>q r m t. s' = s\<lparr>page_free_list := q, pp_ref := r, mem := m, tlb := t\<rparr>)"

lemma same_restI: "s' = s\<lparr>page_free_list := q, pp_ref := r, mem := m, tlb := t\<rparr> \<Longrightarrow> same_rest s s'"
  unfolding same_rest_def by blast

lemma same_restI':
  "s' = s\<lparr>page_free_list := page_free_list s', pp_ref := pp_ref s', mem := mem s', tlb := tlb s'\<rparr> \<Longrightarrow>
    same_rest s s'"
  by (rule same_restI)

lemma same_rest_refl [simp]: "same_rest s s"
  by (rule same_restI') simp

lemma same_rest_trans: "same_rest s t \<Longrightarrow> same_rest t u \<Longrightarrow> same_rest s u"
  unfolding same_rest_def by (elim exE) (simp, blast)

lemma same_restD:
  assumes "same_rest s s'"
  shows "npage s' = npage s" "envs s' = envs s" "curenv s' = curenv s"
    "env_free_list s' = env_free_list s" "env_sched_list s' = env_sched_list s"
    "base_pgdir s' = base_pgdir s" "asid_bitmap s' = asid_bitmap s" "mkenvid_i s' = mkenvid_i s"
    "sched_count s' = sched_count s" "kstack_tf s' = kstack_tf s" "cur_pgdir s' = cur_pgdir s"
    "pwd s' = pwd s" "console s' = console s" "freemem s' = freemem s"
proof -
  obtain a b c d where s': "s' = s\<lparr>page_free_list := a, pp_ref := b, mem := c, tlb := d\<rparr>"
    using assms unfolding same_rest_def by blast
  show "npage s' = npage s" "envs s' = envs s" "curenv s' = curenv s"
    "env_free_list s' = env_free_list s" "env_sched_list s' = env_sched_list s"
    "base_pgdir s' = base_pgdir s" "asid_bitmap s' = asid_bitmap s" "mkenvid_i s' = mkenvid_i s"
    "sched_count s' = sched_count s" "kstack_tf s' = kstack_tf s" "cur_pgdir s' = cur_pgdir s"
    "pwd s' = pwd s" "console s' = console s" "freemem s' = freemem s"
    unfolding s' by simp_all
qed

lemma mm_inv_tlb [simp]: "mm_inv idx pin fl (s\<lparr>tlb := x\<rparr>) = mm_inv idx pin fl s"
  by (simp add: mm_inv_def)

lemma mm_inv_wf: "mm_inv idx pin fl s \<Longrightarrow> pt_wf idx (mem s) (npage s)"
  by (simp add: mm_inv_def)

lemma mm_inv_npage: "mm_inv idx pin fl s \<Longrightarrow> p < npage s \<Longrightarrow> p < 2 ^ 20"
  by (simp add: mm_inv_def pt_wf_def)

section \<open>Writing a frame that is no page table\<close>

lemma tabs_agree:
  assumes "\<And>d. idx d \<noteq> {} \<Longrightarrow> m' d = m d"
  shows "tabs idx m' = tabs idx m" "x \<in> tabs idx m \<Longrightarrow> tab_of m' x = tab_of m x"
proof -
  have eq: "m' d i = m d i" if "i \<in> idx d" for d i
    using assms [of d] that by (cases "idx d = {}") auto
  then show "tabs idx m' = tabs idx m" by (auto simp: tabs_def)
  show "x \<in> tabs idx m \<Longrightarrow> tab_of m' x = tab_of m x"
    using eq by (cases x) (auto simp: tabs_def tab_of.simps)
qed

lemma leafs_agree:
  assumes r: "\<And>d. idx d \<noteq> {} \<Longrightarrow> m' d = m d"
    and t: "\<And>x. x \<in> tabs idx m \<Longrightarrow> m' (tab_of m x) = m (tab_of m x)"
  shows "leafs idx m' = leafs idx m" "l \<in> leafs idx m \<Longrightarrow> leaf_of m' l = leaf_of m l"
proof -
  have eq: "m' (PPN (m' d i)) = m (PPN (m d i))" if "(d, i) \<in> tabs idx m" for d i
  proof -
    have "idx d \<noteq> {}" using that by (auto simp: tabs_def)
    with t [OF that] r [of d] show ?thesis by (simp add: tab_of.simps)
  qed
  have "tabs idx m' = tabs idx m" by (rule tabs_agree(1)) (rule r)
  with eq show "leafs idx m' = leafs idx m"
    by (auto simp: leafs_def)
  show "l \<in> leafs idx m \<Longrightarrow> leaf_of m' l = leaf_of m l"
    using eq by (cases l) (auto simp: leafs_def leaf_of.simps)
qed

lemma pt_agree:
  assumes r: "\<And>d. idx d \<noteq> {} \<Longrightarrow> m' d = m d"
    and t: "\<And>x. x \<in> tabs idx m \<Longrightarrow> m' (tab_of m x) = m (tab_of m x)"
  shows "pt_wf idx m' n = pt_wf idx m n" "ntab idx m' p = ntab idx m p"
    "nleaf idx m' p = nleaf idx m p"
proof -
  have ta: "tabs idx m' = tabs idx m" "\<And>x. x \<in> tabs idx m \<Longrightarrow> tab_of m' x = tab_of m x"
    using tabs_agree [of idx m' m] r by blast+
  have la: "leafs idx m' = leafs idx m" "\<And>l. l \<in> leafs idx m \<Longrightarrow> leaf_of m' l = leaf_of m l"
    using leafs_agree [of idx m' m] r t by blast+
  have inj: "inj_on (tab_of m') (tabs idx m) = inj_on (tab_of m) (tabs idx m)"
    by (rule inj_on_cong) (rule ta(2))
  show "pt_wf idx m' n = pt_wf idx m n"
    unfolding pt_wf_def ta(1) la(1) inj by (simp only: ta(2) la(2) cong: ball_cong)
  show "ntab idx m' p = ntab idx m p"
    unfolding ntab_def ta(1) by (simp only: ta(2) cong: conj_cong)
  show "nleaf idx m' p = nleaf idx m p"
    unfolding nleaf_def la(1) by (simp only: la(2) cong: conj_cong)
qed

lemma mm_inv_write_data:
  assumes inv: "mm_inv idx pin fl s" and p: "idx p = {}" "\<And>x. x \<in> tabs idx (mem s) \<Longrightarrow> tab_of (mem s) x \<noteq> p"
    and mem': "mem s' = (mem s)(p := fr)" and rest: "npage s' = npage s" "pp_ref s' = pp_ref s"
    and fl': "is_list (page_free_list s') fl'" "set fl' \<subseteq> set fl"
  shows "mm_inv idx pin fl' s'"
proof -
  have agr: "\<And>d. idx d \<noteq> {} \<Longrightarrow> ((mem s)(p := fr)) d = mem s d"
    using p(1) by auto
  have "\<And>x. x \<in> tabs idx (mem s) \<Longrightarrow> ((mem s)(p := fr)) (tab_of (mem s) x) = mem s (tab_of (mem s) x)"
    using p(2) by simp
  note pt_agree [where m' = "(mem s)(p := fr)" and m = "mem s", OF agr this]
  with inv fl' show ?thesis unfolding mm_inv_def mem' rest by auto
qed

section \<open>Allocation\<close>

lemma KADDR_run: "PPN pa < npage s \<Longrightarrow> KADDR pa s = Done (PPN pa) s"
  by (simp add: KADDR_def run_rules)

lemma pa2page_run: "PPN pa < npage s \<Longrightarrow> pa2page pa s = Done (PPN pa) s"
  by (simp add: pa2page_def run_rules)

lemma page_alloc_run:
  assumes inv: "mm_inv idx pin fl s"
  shows "page_alloc s = (case fl of [] \<Rightarrow> Done (Inl E_NO_MEM) s
    | pp # fl' \<Rightarrow> Done (Inr pp) (s\<lparr>page_free_list := the (LIST_REMOVE pp (page_free_list s)),
        mem := (mem s)(pp := (\<lambda>_. 0))\<rparr>))"
proof (cases fl)
  case Nil
  with inv have "LIST_FIRST (page_free_list s) = None"
    by (auto simp: mm_inv_def lq.front_None_iff)
  with Nil show ?thesis by (simp add: page_alloc_def run_rules)
next
  case (Cons pp fl')
  with inv have q: "is_list (page_free_list s) (pp # fl')" and pp: "pp < npage s"
    by (simp_all add: mm_inv_def)
  from lq.pop [OF q] obtain q' where
    "LIST_FIRST (page_free_list s) = Some pp" "LIST_REMOVE pp (page_free_list s) = Some q'" by blast
  with Cons pp mm_inv_npage [OF inv pp] show ?thesis
    by (simp add: page_alloc_def page2kva_def run_rules KADDR_run)
qed

lemma page_alloc_inv:
  assumes inv: "mm_inv idx pin (pp # fl) s"
    and s': "s' = s\<lparr>page_free_list := the (LIST_REMOVE pp (page_free_list s)),
        mem := (mem s)(pp := (\<lambda>_. 0))\<rparr>"
  shows "mm_inv idx pin fl s'" "pp < npage s'" "pp_ref s' pp = 0" "pp \<notin> set fl"
    "mem s' pp = (\<lambda>_. 0)" "idx pp = {}" "\<And>x. x \<in> tabs idx (mem s) \<Longrightarrow> tab_of (mem s) x \<noteq> pp"
    "same_rest s s'"
proof -
  from inv have q: "is_list (page_free_list s) (pp # fl)" and pp: "pp < npage s" "pp_ref s pp = 0"
    by (simp_all add: mm_inv_def)
  note un = mm_inv_unreferenced [OF inv pp]
  from lq.pop(2) [OF q] have q': "is_list (the (LIST_REMOVE pp (page_free_list s))) fl" by auto
  show "mm_inv idx pin fl s'"
    by (rule mm_inv_write_data [OF inv un(1) un(3)]) (use q' s' in auto)
  show "pp \<notin> set fl" using q by (simp add: is_list_def)
  show "idx pp = {}" "\<And>x. x \<in> tabs idx (mem s) \<Longrightarrow> tab_of (mem s) x \<noteq> pp" by (fact un)+
  show "pp < npage s'" "pp_ref s' pp = 0" "mem s' pp = (\<lambda>_. 0)" "same_rest s s'"
    using pp s' by (simp_all add: same_restI')
qed

lemma page_free_run:
  assumes "pp_ref s pp = 0"
  shows "page_free pp s = Done () (s\<lparr>page_free_list := LIST_INSERT_HEAD pp (page_free_list s)\<rparr>)"
  using assms by (simp add: page_free_def run_rules)

text \<open>The state after dropping one reference to \<open>pp\<close>.\<close>

definition decref_state :: "nat \<Rightarrow> kstate \<Rightarrow> kstate" where
  "decref_state pp s =
     (let s = set_ref pp (pp_ref s pp - 1) s
      in if pp_ref s pp = 0 then s\<lparr>page_free_list := LIST_INSERT_HEAD pp (page_free_list s)\<rparr> else s)"

lemma page_decref_run:
  assumes "pp_ref s pp \<noteq> 0"
  shows "page_decref pp s = Done () (decref_state pp s)"
proof -
  have "0 < pp_ref s pp" using assms by (simp add: word_neq_0_conv)
  then show ?thesis
    by (simp add: page_decref_def decref_state_def Let_def run_rules page_free_run)
qed

lemma decref_state_simps [simp]:
  "mem (decref_state pp s) = mem s" "npage (decref_state pp s) = npage s"
  "tlb (decref_state pp s) = tlb s" "pp_ref (decref_state pp s) = (pp_ref s)(pp := pp_ref s pp - 1)"
  by (simp_all add: decref_state_def Let_def set_ref_def)

lemma decref_state_free:
  assumes "is_list (page_free_list s) fl" "pp \<notin> set fl"
  shows "is_list (page_free_list (decref_state pp s)) (if pp_ref s pp = 1 then pp # fl else fl)"
  using assms by (auto simp: decref_state_def Let_def set_ref_def LIST_INSERT_HEAD_spec)

lemma same_rest_decref: "same_rest s (decref_state pp s)"
  by (rule same_restI') (simp add: decref_state_def Let_def set_ref_def)

section \<open>Walking the tables\<close>

lemma valid_PTE_V [simp]: "valid PTE_V"
  by (simp add: valid_def PTE_V_def)

lemma PTE_V_and: "PTE_V AND w = 0 \<longleftrightarrow> \<not> valid w"
  by (simp add: valid_def and.commute)

lemma in_tabs: "PDX va \<in> idx d \<Longrightarrow> valid (m d (PDX va)) \<Longrightarrow> (d, PDX va) \<in> tabs idx m"
  by (simp add: tabs_def)

lemma pte_pointer_run:
  assumes "PPN (mem s d (PDX va)) < npage s"
  shows "pte_pointer d va s = Done (Inr (Some (PPN (mem s d (PDX va)), PTX va))) s"
  using assms by (simp add: pte_pointer_def run_rules KADDR_run)

lemma pgdir_walk_found:
  assumes inv: "mm_inv idx pin fl s" and va: "PDX va \<in> idx d" and v: "valid (mem s d (PDX va))"
  shows "pgdir_walk d va create s = Done (Inr (Some (PPN (mem s d (PDX va)), PTX va))) s"
  using v pte_pointer_run [OF pt_wf_tab(1) [OF mm_inv_wf [OF inv] in_tabs [of va idx d "mem s", OF va v]]]
  by (simp add: pgdir_walk_def run_rules PTE_V_and)

lemma pgdir_walk_none:
  "\<not> valid (mem s d (PDX va)) \<Longrightarrow> pgdir_walk d va False s = Done (Inr None) s"
  by (simp add: pgdir_walk_def run_rules PTE_V_and)

text \<open>Creating the page table: it fails exactly when no page is free.\<close>

lemma pgdir_walk_create:
  assumes inv: "mm_inv idx pin fl s" and va: "PDX va \<in> idx d" and v: "\<not> valid (mem s d (PDX va))"
  shows "fl = [] \<Longrightarrow> pgdir_walk d va True s = Done (Inl E_NO_MEM) s"
    and "fl = t # fl' \<Longrightarrow> \<exists>s'. pgdir_walk d va True s = Done (Inr (Some (t, PTX va))) s' \<and>
      mm_inv idx pin fl' s' \<and> same_rest s s' \<and> tlb s' = tlb s \<and> pp_ref s' = (pp_ref s)(t := 1) \<and>
      mem s' = (mem s)(t := (\<lambda>_. 0), d := (mem s d)(PDX va := page2pa t OR PTE_D OR PTE_V)) \<and>
      t < npage s \<and> d \<noteq> t"
proof -
  show "pgdir_walk d va True s = Done (Inl E_NO_MEM) s" if "fl = []"
    using v page_alloc_run [OF inv] that by (simp add: pgdir_walk_def run_rules PTE_V_and)
  assume fl: "fl = t # fl'"
  define s1 where "s1 = s\<lparr>page_free_list := the (LIST_REMOVE t (page_free_list s)),
        mem := (mem s)(t := (\<lambda>_. 0))\<rparr>"
  note al = page_alloc_inv [OF inv [unfolded fl] s1_def]
  have tn: "t < 2 ^ 20" using mm_inv_npage [OF al(1) al(2)] .
  have dt: "d \<noteq> t" using al(6) va by auto
  define w where "w = page2pa t OR PTE_D OR PTE_V"
  have w: "valid w" "PPN w = t" using tn by (simp_all add: w_def)
  define s2 where "s2 = page_incref t (store d (PDX va) w s1)"
  have mem2: "mem s2 = (mem s1)(d := (mem s1 d)(PDX va := w))"
    by (simp add: s2_def page_incref_def set_ref_def store_def)
  have inv2: "mm_inv idx pin fl' s2"
  proof (rule mm_inv_new_table [OF al(1) va _ al(2,3,4) _ w mem2])
    show "\<not> valid (mem s1 d (PDX va))" using v dt by (simp add: s1_def)
    show "mem s1 t j = 0" for j using al(5) by simp
    show "npage s2 = npage s1" "page_free_list s2 = page_free_list s1"
      "pp_ref s2 = (pp_ref s1)(t := 1)"
      using al(3) by (simp_all add: s2_def page_incref_def set_ref_def store_def)
  qed
  have run: "pgdir_walk d va True s = Done (Inr (Some (t, PTX va))) s2"
  proof -
    have "pgdir_walk d va True s = pte_pointer d va s2"
      using v page_alloc_run [OF inv] fl dt
      by (simp add: pgdir_walk_def run_rules PTE_V_and s1_def [symmetric])
        (simp add: s2_def w_def store_def page_incref_def set_ref_def or.assoc)
    moreover have "PPN (mem s2 d (PDX va)) = t" using w(2) by (simp add: mem2)
    moreover have "t < npage s2" using al(2) by (simp add: s2_def page_incref_def set_ref_def store_def)
    ultimately show ?thesis using pte_pointer_run [of s2 d va] by simp
  qed
  have "same_rest s s2" "tlb s2 = tlb s" "pp_ref s2 = (pp_ref s)(t := 1)" "t < npage s"
    using al(2,3) by (simp_all add: s2_def s1_def page_incref_def set_ref_def store_def same_restI')
  moreover have "mem s2 = (mem s)(t := (\<lambda>_. 0), d := (mem s d)(PDX va := w))"
    using dt by (simp add: mem2 s1_def fun_upd_twist)
  ultimately show "\<exists>s'. pgdir_walk d va True s = Done (Inr (Some (t, PTX va))) s' \<and>
      mm_inv idx pin fl' s' \<and> same_rest s s' \<and> tlb s' = tlb s \<and> pp_ref s' = (pp_ref s)(t := 1) \<and>
      mem s' = (mem s)(t := (\<lambda>_. 0), d := (mem s d)(PDX va := page2pa t OR PTE_D OR PTE_V)) \<and>
      t < npage s \<and> d \<noteq> t"
    using run inv2 dt unfolding w_def by blast
qed

lemma page_lookup_run:
  assumes inv: "mm_inv idx pin fl s" and va: "PDX va \<in> idx d"
  shows "page_lookup d va s =
    Done (if valid (lookup_pte (mem s) d va)
          then Some (PPN (lookup_pte (mem s) d va), PPN (mem s d (PDX va)), PTX va) else None) s"
proof (cases "valid (mem s d (PDX va))")
  case True
  show ?thesis
  proof (cases "valid (lookup_pte (mem s) d va)")
    case v: True
    with True va have "(d, PDX va, PTX va) \<in> leafs idx (mem s)"
      by (simp add: leafs_def tabs_def lookup_pte_def)
    then have "leaf_of (mem s) (d, PDX va, PTX va) < npage s"
      using mm_inv_wf [OF inv] by (simp add: pt_wf_def)
    with v True show ?thesis
      by (simp add: page_lookup_def run_rules pgdir_walk_found [OF inv va] lookup_pte_def
          leaf_of.simps pa2page_run)
  next
    case False
    with True show ?thesis
      by (simp add: page_lookup_def run_rules pgdir_walk_found [OF inv va] lookup_pte_def)
  qed
next
  case False
  then show ?thesis
    by (simp add: page_lookup_def run_rules pgdir_walk_none lookup_pte_def)
qed

end
