(* ===== verification/Pmap_Spec.thy ===== *)
theory Pmap_Spec
  imports Pmap_Ops
begin

text \<open>
  The specification of mapping and unmapping: \<open>page_insert\<close> and \<open>page_remove\<close> change the
  translation of one page of one address space and nothing else, keep every reference count exact,
  and leave no stale translation in the TLB.
\<close>

section \<open>The translation after a store\<close>

lemma lookup_store_leaf:
  assumes wf: "pt_wf idx m n" and va: "PDX va \<in> idx d" "valid (m d (PDX va))"
    and va': "PDX va' \<in> idx d'"
  shows "lookup_pte (m(PPN (m d (PDX va)) := (m (PPN (m d (PDX va))))(PTX va := w))) d' va' =
    (if d' = d \<and> VPN va' = VPN va then w else lookup_pte m d' va')"
proof -
  let ?t = "PPN (m d (PDX va))"
  have di: "(d, PDX va) \<in> tabs idx m" using va by (simp add: tabs_def)
  have root: "(m(?t := f)) d' = m d'" for f
    using pt_wf_tab(2) [OF wf di] va' by auto
  show ?thesis
  proof (cases "valid (m d' (PDX va'))")
    case True
    then have "(d', PDX va') \<in> tabs idx m" using va' by (simp add: tabs_def)
    from pt_wf_inj [OF wf di this]
    have "PPN (m d' (PDX va')) = ?t \<longleftrightarrow> d' = d \<and> PDX va' = PDX va" by auto
    with True root show ?thesis by (auto simp: lookup_pte_def same_page_iff)
  next
    case False
    with va root show ?thesis by (auto simp: lookup_pte_def same_page_iff)
  qed
qed

lemma lookup_new_table:
  assumes t: "idx t = {}" "\<And>x. x \<in> tabs idx m \<Longrightarrow> tab_of m x \<noteq> t"
    and d: "idx d \<noteq> {}" "\<And>x. x \<in> tabs idx m \<Longrightarrow> tab_of m x \<noteq> d"
    and w: "\<not> valid (m d i)" "PPN w = t" and va': "PDX va' \<in> idx d'"
  shows "lookup_pte (m(t := (\<lambda>_. 0), d := (m d)(i := w))) d' va' = (if valid (m d' (PDX va'))
    then lookup_pte m d' va' else 0)"
proof (cases "valid (m d' (PDX va'))")
  case True
  then have "(d', PDX va') \<in> tabs idx m" using va' by (simp add: tabs_def)
  then have "PPN (m d' (PDX va')) \<noteq> t" "PPN (m d' (PDX va')) \<noteq> d"
    using t(2) d(2) by (force simp: tab_of.simps)+
  moreover have "d' \<noteq> t" using t(1) va' by auto
  moreover have "\<not> (d' = d \<and> PDX va' = i)" using True w(1) by auto
  ultimately show ?thesis using True by (auto simp: lookup_pte_def)
next
  case False
  have "d \<noteq> t" "d' \<noteq> t" using t(1) d(1) va' by auto
  with False w(2) show ?thesis by (auto simp: lookup_pte_def)
qed

lemma lookup_invalid_dir: "\<not> valid (m d (PDX va)) \<Longrightarrow> lookup_pte m d va = 0"
  by (simp add: lookup_pte_def)

section \<open>Flushing\<close>

definition flush :: "u32 \<Rightarrow> u32 \<Rightarrow> kstate \<Rightarrow> kstate" where
  "flush asid va s = s\<lparr>tlb := (\<lambda>key. case tlb s key of
       None \<Rightarrow> None | Some lo \<Rightarrow> if tlb_match (tlb_key asid va) key lo then None else Some lo)\<rparr>"

lemma tlb_invalidate_run: "tlb_invalidate asid va s = Done () (flush asid va s)"
  by (simp add: tlb_invalidate_def tlb_out_def flush_def run_rules)

lemma flush_simps [simp]:
  "mem (flush asid va s) = mem s" "npage (flush asid va s) = npage s" "pp_ref (flush asid va s) = pp_ref s"
  "page_free_list (flush asid va s) = page_free_list s"
  "mm_inv idx pin fl (flush asid va s) = mm_inv idx pin fl s"
  by (simp_all add: flush_def)

lemma same_rest_flush: "same_rest s (flush asid va s)"
  by (rule same_restI') (simp add: flush_def)

lemma flush_hit: "tlb (flush asid va s) (tlb_key asid va) = None"
  by (simp add: flush_def tlb_match_def split: option.split)

lemma flush_sub: "tlb (flush asid va s) key = Some lo \<Longrightarrow> tlb s key = Some lo"
  by (simp add: flush_def split: option.splits if_splits)

section \<open>Mapped pages are referenced\<close>

lemma mm_inv_mapped:
  assumes inv: "mm_inv idx pin fl s" and va: "PDX va \<in> idx d" and v: "valid (lookup_pte (mem s) d va)"
  defines "p \<equiv> PPN (lookup_pte (mem s) d va)"
  shows "p < npage s" "pp_ref s p \<noteq> 0" "p \<notin> set fl"
proof -
  from v have vd: "valid (mem s d (PDX va))" by (auto simp: lookup_pte_def split: if_splits)
  with va v have l: "(d, PDX va, PTX va) \<in> leafs idx (mem s)"
    "leaf_of (mem s) (d, PDX va, PTX va) = p"
    by (simp_all add: leafs_def tabs_def lookup_pte_def leaf_of.simps p_def)
  with mm_inv_wf [OF inv] show "p < npage s" by (force simp: pt_wf_def)
  with mm_inv_unreferenced(4) [OF inv, of p] l show r: "pp_ref s p \<noteq> 0" by blast
  with inv show "p \<notin> set fl" by (auto simp: mm_inv_def)
qed

lemma unat_dec: "(r :: u16) \<noteq> 0 \<Longrightarrow> int (unat (r - 1)) = int (unat r) - 1"
proof -
  assume r: "r \<noteq> 0"
  then have "unat (r - 1) = unat r - 1" by (simp add: unat_minus_one)
  moreover have "0 < unat r" using r by (simp add: unat_gt_0)
  ultimately show ?thesis by simp
qed

lemma unat_inc: "unat (r :: u16) < 65535 \<Longrightarrow> unat (r + 1) = unat r + 1"
  by (simp add: unat_word_ariths)

section \<open>Unmapping\<close>

definition removed :: "nat \<Rightarrow> u32 \<Rightarrow> u32 \<Rightarrow> kstate \<Rightarrow> kstate" where
  "removed d asid va s = flush asid va (store (PPN (mem s d (PDX va))) (PTX va) 0
     (decref_state (PPN (lookup_pte (mem s) d va)) s))"

lemma removed_mem: "mem (removed d asid va s) =
    (mem s)(PPN (mem s d (PDX va)) := (mem s (PPN (mem s d (PDX va))))(PTX va := 0))"
  by (simp add: removed_def store_def)

lemma page_remove_run:
  assumes inv: "mm_inv idx pin fl s" and va: "PDX va \<in> idx d"
  shows "page_remove d asid va s =
    Done () (if valid (lookup_pte (mem s) d va) then removed d asid va s else s)"
proof (cases "valid (lookup_pte (mem s) d va)")
  case True
  from mm_inv_mapped(2) [OF inv va True] True show ?thesis
    by (simp add: page_remove_def run_rules page_lookup_run [OF inv va] page_decref_run
        tlb_invalidate_run removed_def)
qed (simp add: page_remove_def run_rules page_lookup_run [OF inv va])

lemma removed_inv:
  assumes inv: "mm_inv idx pin fl s" and va: "PDX va \<in> idx d" and v: "valid (lookup_pte (mem s) d va)"
  defines "p \<equiv> PPN (lookup_pte (mem s) d va)"
  shows "mm_inv idx pin (if pp_ref s p = 1 then p # fl else fl) (removed d asid va s)"
proof -
  from v have vd: "valid (mem s d (PDX va))" by (auto simp: lookup_pte_def split: if_splits)
  then have di: "(d, PDX va) \<in> tabs idx (mem s)" using va by (simp add: tabs_def)
  note mp = mm_inv_mapped [OF inv va v, folded p_def]
  have old: "mem s (PPN (mem s d (PDX va))) (PTX va) = lookup_pte (mem s) d va"
    using vd by (simp add: lookup_pte_def)
  from inv have fl: "is_list (page_free_list s) fl" by (simp add: mm_inv_def)
  have refs: "pp_ref (removed d asid va s) = (pp_ref s)(p := pp_ref s p - 1)"
    by (simp add: removed_def store_def p_def)
  show ?thesis
  proof (rule mm_inv_store_leaf [OF inv di PTX_less _ removed_mem])
    show "npage (removed d asid va s) = npage s" by (simp add: removed_def store_def)
    show "is_list (page_free_list (removed d asid va s)) (if pp_ref s p = 1 then p # fl else fl)"
      using decref_state_free [OF fl mp(3)] by (simp add: removed_def store_def p_def)
    show "\<forall>x \<in> set (if pp_ref s p = 1 then p # fl else fl). x < npage s \<and> pp_ref (removed d asid va s) x = 0"
      using inv mp by (auto simp: mm_inv_def refs)
    show "int (unat (pp_ref (removed d asid va s) x)) = int (unat (pp_ref s x)) -
        hits (mem s (PPN (mem s d (PDX va))) (PTX va)) x + hits 0 x" for x
      using v unat_dec [OF mp(2)] unfolding old refs
      by (cases "x = p") (auto simp: hits_def p_def [symmetric])
  qed simp
qed

section \<open>Mapping\<close>

definition inserted :: "nat \<Rightarrow> nat \<Rightarrow> u32 \<Rightarrow> u32 \<Rightarrow> kstate \<Rightarrow> kstate" where
  "inserted d pp va perm s = page_incref pp
     (store (PPN (mem s d (PDX va))) (PTX va) (page2pa pp OR perm OR PTE_V) s)"

lemma inserted_mem: "mem (inserted d pp va perm s) = (mem s)(PPN (mem s d (PDX va)) :=
    (mem s (PPN (mem s d (PDX va))))(PTX va := page2pa pp OR perm OR PTE_V))"
  by (simp add: inserted_def store_def page_incref_def set_ref_def)

lemma inserted_inv:
  assumes inv: "mm_inv idx pin fl s" and va: "PDX va \<in> idx d" "valid (mem s d (PDX va))"
    and nv: "\<not> valid (lookup_pte (mem s) d va)"
    and pp: "pp < npage s" "pp \<notin> set fl" "unat (pp_ref s pp) < 65535" and perm: "perm < 4096"
  shows "mm_inv idx pin fl (inserted d pp va perm s)"
proof -
  have di: "(d, PDX va) \<in> tabs idx (mem s)" using va by (simp add: tabs_def)
  have w: "PPN (page2pa pp OR perm OR PTE_V) = pp"
    using mm_inv_npage [OF inv pp(1)] perm by (rule PPN_pte)
  have refs: "pp_ref (inserted d pp va perm s) = (pp_ref s)(pp := pp_ref s pp + 1)"
    by (simp add: inserted_def store_def page_incref_def set_ref_def)
  have inc: "uint (pp_ref s pp + 1) = uint (pp_ref s pp) + 1"
    using arg_cong [OF unat_inc [OF pp(3)], of int] by simp
  show ?thesis
  proof (rule mm_inv_store_leaf [OF inv di PTX_less _ inserted_mem])
    show "npage (inserted d pp va perm s) = npage s" "is_list (page_free_list (inserted d pp va perm s)) fl"
      using inv by (simp_all add: inserted_def store_def page_incref_def set_ref_def mm_inv_def)
    show "\<forall>p \<in> set fl. p < npage s \<and> pp_ref (inserted d pp va perm s) p = 0"
      using inv pp(2) by (auto simp: mm_inv_def refs)
    show "int (unat (pp_ref (inserted d pp va perm s) p)) = int (unat (pp_ref s p)) -
        hits (mem s (PPN (mem s d (PDX va))) (PTX va)) p + hits (page2pa pp OR perm OR PTE_V) p" for p
      using nv va(2) inc unfolding refs by (cases "p = pp") (auto simp: hits_def lookup_pte_def w)
    show "PPN (page2pa pp OR perm OR PTE_V) < npage s" using pp(1) w by simp
  qed
qed

text \<open>
  The effect of a map or unmap, seen from outside: the translation of \<open>va\<close> in \<open>d\<close> becomes \<open>w\<close>,
  every other managed translation stays, and no frame outside the tables and the free list is
  written.
\<close>

definition remap :: "(nat \<Rightarrow> nat set) \<Rightarrow> nat list \<Rightarrow> nat \<Rightarrow> u32 \<Rightarrow> u32 \<Rightarrow> kstate \<Rightarrow> kstate \<Rightarrow> bool" where
  "remap idx fl d va w s s' \<longleftrightarrow>
     lookup_pte (mem s') d va = w \<and>
     (\<forall>d' va'. PDX va' \<in> idx d' \<longrightarrow> d' \<noteq> d \<or> VPN va' \<noteq> VPN va \<longrightarrow>
        lookup_pte (mem s') d' va' = lookup_pte (mem s) d' va') \<and>
     (\<forall>f. f \<notin> set fl \<longrightarrow> idx f = {} \<longrightarrow> (\<forall>x \<in> tabs idx (mem s). tab_of (mem s) x \<noteq> f) \<longrightarrow>
        mem s' f = mem s f)"

lemma remap_store_leaf:
  assumes inv: "mm_inv idx pin fl s" and va: "PDX va \<in> idx d" "valid (mem s d (PDX va))"
    and s': "mem s' = (mem s)(PPN (mem s d (PDX va)) := (mem s (PPN (mem s d (PDX va))))(PTX va := w))"
  shows "remap idx fl' d va w s s'"
proof -
  note l = lookup_store_leaf [OF mm_inv_wf [OF inv] va, where w = w, folded s']
  have "(d, PDX va) \<in> tabs idx (mem s)" using va by (simp add: tabs_def)
  then have "mem s' f = mem s f" if "\<forall>x \<in> tabs idx (mem s). tab_of (mem s) x \<noteq> f" for f
    using that s' by (force simp: tab_of.simps)
  with l [OF va(1)] l show ?thesis unfolding remap_def by auto
qed

text \<open>Mapping where nothing is mapped: the only failure is that a page table was needed and no page is free.\<close>

lemma page_insert_new_spec:
  assumes inv: "mm_inv idx pin fl s" and va: "PDX va \<in> idx d"
    and nv: "\<not> valid (lookup_pte (mem s) d va)"
    and pp: "pp < npage s" "pp \<notin> set fl" "unat (pp_ref s pp) < 65535" and perm: "perm < 4096"
  shows "(\<exists>s' fl'. page_insert_new d asid pp va perm s = Done (Inr ()) s' \<and> mm_inv idx pin fl' s' \<and>
      remap idx fl d va (page2pa pp OR perm OR PTE_V) s s' \<and> same_rest s s' \<and>
      tlb s' = tlb (flush asid va s) \<and>
      fl' = (if valid (mem s d (PDX va)) then fl else tl fl) \<and> pp_ref s' pp = pp_ref s pp + 1) \<or>
    fl = [] \<and> \<not> valid (mem s d (PDX va)) \<and>
      page_insert_new d asid pp va perm s = Done (Inl E_NO_MEM) (flush asid va s)"
proof (cases "valid (mem s d (PDX va))")
  case True
  let ?s1 = "flush asid va s"
  have inv1: "mm_inv idx pin fl ?s1" using inv by simp
  have run: "page_insert_new d asid pp va perm s = Done (Inr ()) (inserted d pp va perm ?s1)"
    using True pgdir_walk_found [OF inv1 va, of True]
    by (simp add: page_insert_new_def run_rules tlb_invalidate_run inserted_def)
  have "mm_inv idx pin fl (inserted d pp va perm ?s1)"
    by (rule inserted_inv [OF inv1 va]) (use True nv pp perm in simp_all)
  moreover have "remap idx fl d va (page2pa pp OR perm OR PTE_V) s (inserted d pp va perm ?s1)"
    by (rule remap_store_leaf [OF inv va True]) (simp add: inserted_mem)
  moreover have "same_rest s (inserted d pp va perm ?s1)"
    "tlb (inserted d pp va perm ?s1) = tlb ?s1" "pp_ref (inserted d pp va perm ?s1) pp = pp_ref s pp + 1"
    by (rule same_restI') (simp_all add: inserted_def store_def page_incref_def set_ref_def flush_def)
  ultimately show ?thesis using run True by auto
next
  case False
  let ?s1 = "flush asid va s"
  have inv1: "mm_inv idx pin fl ?s1" and nv1: "\<not> valid (mem ?s1 d (PDX va))" using inv False by simp_all
  note walk = pgdir_walk_create [OF inv1 va nv1]
  show ?thesis
  proof (cases fl)
    case Nil
    with walk(1) False show ?thesis
      by (simp add: page_insert_new_def run_rules tlb_invalidate_run)
  next
    case (Cons t fl')
    from walk(2) [OF this] obtain s2 where s2: "pgdir_walk d va True ?s1 = Done (Inr (Some (t, PTX va))) s2"
      "mm_inv idx pin fl' s2" "same_rest ?s1 s2" "tlb s2 = tlb ?s1" "pp_ref s2 = (pp_ref s)(t := 1)"
      and mem2: "mem s2 = (mem s)(t := (\<lambda>_. 0), d := (mem s d)(PDX va := page2pa t OR PTE_D OR PTE_V))"
      and tn: "t < npage s" and dt: "d \<noteq> t"
      by auto
    have t20: "t < 2 ^ 20" using mm_inv_npage [OF inv tn] .
    have tab2: "mem s2 d (PDX va) = page2pa t OR PTE_D OR PTE_V" by (simp add: mem2)
    have w2: "valid (mem s2 d (PDX va))" "PPN (mem s2 d (PDX va)) = t"
      using t20 by (simp_all add: tab2)
    have npt: "pp \<noteq> t" using pp(2) Cons by auto
    have np2: "npage s2 = npage s" using same_restD(1) [OF s2(3)] by simp
    have run: "page_insert_new d asid pp va perm s = Done (Inr ()) (inserted d pp va perm s2)"
      using s2(1) w2(2) by (simp add: page_insert_new_def run_rules tlb_invalidate_run inserted_def)
    have nv2: "\<not> valid (lookup_pte (mem s2) d va)"
      using w2 dt by (simp add: lookup_pte_def mem2)
    have inv3: "mm_inv idx pin fl' (inserted d pp va perm s2)"
      by (rule inserted_inv [OF s2(2) va w2(1) nv2]) (use pp perm np2 Cons npt s2(5) in auto)
    have rt: "pp_ref s t = 0" using inv Cons by (simp add: mm_inv_def)
    note un = mm_inv_unreferenced [OF inv tn rt]
    have droot: "tab_of (mem s) x \<noteq> d" if "x \<in> tabs idx (mem s)" for x
      using that pt_wf_tab(2) [OF mm_inv_wf [OF inv]] va by (cases x) (auto simp: tab_of.simps)
    have d0: "idx d \<noteq> {}" using va by auto
    have look2: "lookup_pte (mem s2) d' va' = lookup_pte (mem s) d' va'" if "PDX va' \<in> idx d'" for d' va'
      unfolding mem2
      using lookup_new_table [where w = "page2pa t OR PTE_D OR PTE_V", OF un(1) un(3) d0 droot False _ that]
        t20 by (simp add: lookup_invalid_dir)
    have "remap idx fl' d va (page2pa pp OR perm OR PTE_V) s2 (inserted d pp va perm s2)"
      by (rule remap_store_leaf [OF s2(2) va w2(1) inserted_mem])
    then have "remap idx fl d va (page2pa pp OR perm OR PTE_V) s (inserted d pp va perm s2)"
    proof -
      assume rm: "remap idx fl' d va (page2pa pp OR perm OR PTE_V) s2 (inserted d pp va perm s2)"
      have "mem (inserted d pp va perm s2) f = mem s f"
        if f: "f \<notin> set fl" "idx f = {}" for f
      proof -
        have "f \<noteq> t" "f \<noteq> d" using f Cons d0 by auto
        then show ?thesis unfolding inserted_mem w2(2) by (simp add: mem2)
      qed
      with rm look2 show ?thesis by (simp add: remap_def)
    qed
    moreover have "same_rest s (inserted d pp va perm s2)"
    proof -
      have "same_rest s2 (inserted d pp va perm s2)"
        by (rule same_restI') (simp add: inserted_def store_def page_incref_def set_ref_def)
      with same_rest_flush s2(3) show ?thesis by (blast intro: same_rest_trans)
    qed
    moreover have "tlb (inserted d pp va perm s2) = tlb ?s1"
      "pp_ref (inserted d pp va perm s2) pp = pp_ref s pp + 1"
      using s2(4,5) npt by (simp_all add: inserted_def store_def page_incref_def set_ref_def)
    ultimately show ?thesis using run inv3 False Cons by auto
  qed
qed

lemma lookup_dir: "valid (lookup_pte m d va) \<Longrightarrow> valid (m d (PDX va))"
  by (auto simp: lookup_pte_def split: if_splits)

text \<open>Remapping a page to itself only changes the permission bits.\<close>

definition reperm :: "nat \<Rightarrow> nat \<Rightarrow> u32 \<Rightarrow> u32 \<Rightarrow> kstate \<Rightarrow> kstate" where
  "reperm d pp va perm s = store (PPN (mem s d (PDX va))) (PTX va) (page2pa pp OR perm OR PTE_V) s"

lemma reperm_mem: "mem (reperm d pp va perm s) = (mem s)(PPN (mem s d (PDX va)) :=
    (mem s (PPN (mem s d (PDX va))))(PTX va := page2pa pp OR perm OR PTE_V))"
  by (simp add: reperm_def store_def)

lemma reperm_inv:
  assumes inv: "mm_inv idx pin fl s" and va: "PDX va \<in> idx d" and v: "valid (lookup_pte (mem s) d va)"
    and pp: "PPN (lookup_pte (mem s) d va) = pp" and perm: "perm < 4096"
  shows "mm_inv idx pin fl (reperm d pp va perm s)"
proof -
  note mp = mm_inv_mapped [OF inv va v, unfolded pp]
  have di: "(d, PDX va) \<in> tabs idx (mem s)" using va lookup_dir [OF v] by (simp add: tabs_def)
  have old: "mem s (PPN (mem s d (PDX va))) (PTX va) = lookup_pte (mem s) d va"
    using lookup_dir [OF v] by (simp add: lookup_pte_def)
  have w: "PPN (page2pa pp OR perm OR PTE_V) = pp"
    using mm_inv_npage [OF inv mp(1)] perm by (rule PPN_pte)
  show ?thesis
  proof (rule mm_inv_store_leaf [OF inv di PTX_less _ reperm_mem])
    show "PPN (page2pa pp OR perm OR PTE_V) < npage s" using w mp(1) by simp
    show "npage (reperm d pp va perm s) = npage s" "is_list (page_free_list (reperm d pp va perm s)) fl"
      "\<forall>p \<in> set fl. p < npage s \<and> pp_ref (reperm d pp va perm s) p = 0"
      using inv by (simp_all add: reperm_def store_def mm_inv_def)
    show "int (unat (pp_ref (reperm d pp va perm s) p)) = int (unat (pp_ref s p)) -
        hits (mem s (PPN (mem s d (PDX va))) (PTX va)) p + hits (page2pa pp OR perm OR PTE_V) p" for p
      using v unfolding old by (simp add: reperm_def store_def hits_def w pp)
  qed
qed

lemma page_insert_run_new:
  assumes inv: "mm_inv idx pin fl s" and va: "PDX va \<in> idx d" and nv: "\<not> valid (lookup_pte (mem s) d va)"
  shows "page_insert d asid pp va perm s = page_insert_new d asid pp va perm s"
  using nv pgdir_walk_found [OF inv va, of False] pgdir_walk_none [of s d va]
  by (cases "valid (mem s d (PDX va))") (simp_all add: page_insert_def run_rules lookup_pte_def)

lemma page_insert_run_same:
  assumes inv: "mm_inv idx pin fl s" and va: "PDX va \<in> idx d" and v: "valid (lookup_pte (mem s) d va)"
    and pp: "PPN (lookup_pte (mem s) d va) = pp"
  shows "page_insert d asid pp va perm s = Done (Inr ()) (reperm d pp va perm (flush asid va s))"
proof -
  note lookup_dir [OF v]
  with v pp mm_inv_mapped(1) [OF inv va v] pgdir_walk_found [OF inv va, of False] show ?thesis
    by (simp add: page_insert_def run_rules lookup_pte_def pa2page_run tlb_invalidate_run reperm_def)
qed

lemma page_insert_run_other:
  assumes inv: "mm_inv idx pin fl s" and va: "PDX va \<in> idx d" and v: "valid (lookup_pte (mem s) d va)"
    and pp: "PPN (lookup_pte (mem s) d va) \<noteq> pp"
  shows "page_insert d asid pp va perm s = page_insert_new d asid pp va perm (removed d asid va s)"
proof -
  note lookup_dir [OF v]
  with v pp mm_inv_mapped(1) [OF inv va v] pgdir_walk_found [OF inv va, of False]
    page_remove_run [OF inv va, of asid] show ?thesis
    by (simp add: page_insert_def run_rules lookup_pte_def pa2page_run)
qed

lemma removed_facts:
  assumes inv: "mm_inv idx pin fl s" and va: "PDX va \<in> idx d" and v: "valid (lookup_pte (mem s) d va)"
  shows "mem (removed d asid va s) d = mem s d" "\<not> valid (lookup_pte (mem (removed d asid va s)) d va)"
    "npage (removed d asid va s) = npage s" "same_rest s (removed d asid va s)"
    "tlb (removed d asid va s) = tlb (flush asid va s)"
    "pp_ref (removed d asid va s) = (pp_ref s)(PPN (lookup_pte (mem s) d va) :=
       pp_ref s (PPN (lookup_pte (mem s) d va)) - 1)"
    "remap idx fl' d va 0 s (removed d asid va s)"
proof -
  have di: "(d, PDX va) \<in> tabs idx (mem s)" using va lookup_dir [OF v] by (simp add: tabs_def)
  show "remap idx fl' d va 0 s (removed d asid va s)"
    by (rule remap_store_leaf [OF inv va lookup_dir [OF v] removed_mem])
  then show "\<not> valid (lookup_pte (mem (removed d asid va s)) d va)" by (simp add: remap_def)
  show "mem (removed d asid va s) d = mem s d"
    using pt_wf_tab(2) [OF mm_inv_wf [OF inv] di] va by (auto simp: removed_mem)
  show "npage (removed d asid va s) = npage s" "tlb (removed d asid va s) = tlb (flush asid va s)"
    "pp_ref (removed d asid va s) = (pp_ref s)(PPN (lookup_pte (mem s) d va) :=
       pp_ref s (PPN (lookup_pte (mem s) d va)) - 1)"
    by (simp_all add: removed_def store_def flush_def)
  show "same_rest s (removed d asid va s)"
    by (rule same_restI') (simp add: removed_def store_def flush_def decref_state_def Let_def set_ref_def)
qed

lemma remap_trans:
  "remap idx fl d va w s t \<Longrightarrow> remap idx fl d va w' t u \<Longrightarrow> tabs idx (mem t) = tabs idx (mem s) \<Longrightarrow>
    (\<And>x. x \<in> tabs idx (mem s) \<Longrightarrow> tab_of (mem t) x = tab_of (mem s) x) \<Longrightarrow> remap idx fl d va w' s u"
  unfolding remap_def by auto

text \<open>The three ways \<open>page_insert\<close> can end.\<close>

lemma page_insert_cases:
  assumes inv: "mm_inv idx pin fl s" and va: "PDX va \<in> idx d"
    and pp: "pp < npage s" "pp \<notin> set fl" "unat (pp_ref s pp) < 65535" and perm: "perm < 4096"
  shows "(\<exists>s' fl'. page_insert d asid pp va perm s = Done (Inr ()) s' \<and> mm_inv idx pin fl' s' \<and>
      remap idx fl d va (page2pa pp OR perm OR PTE_V) s s' \<and> same_rest s s' \<and>
      tlb s' (tlb_key asid va) = None \<and> (\<forall>key lo. tlb s' key = Some lo \<longrightarrow> tlb s key = Some lo)) \<or>
    fl = [] \<and> \<not> valid (mem s d (PDX va)) \<and>
      page_insert d asid pp va perm s = Done (Inl E_NO_MEM) (flush asid va s)"
proof (cases "valid (lookup_pte (mem s) d va)")
  case False
  from page_insert_new_spec [OF inv va False pp perm, of asid]
  show ?thesis unfolding page_insert_run_new [OF inv va False]
    using flush_hit [of asid va s] flush_sub [of asid va s] by metis
next
  case v: True
  show ?thesis
  proof (cases "PPN (lookup_pte (mem s) d va) = pp")
    case True
    let ?s' = "reperm d pp va perm (flush asid va s)"
    have "mm_inv idx pin fl ?s'"
      by (rule reperm_inv) (use inv va v True perm in simp_all)
    moreover have "remap idx fl d va (page2pa pp OR perm OR PTE_V) s ?s'"
      by (rule remap_store_leaf [OF inv va lookup_dir [OF v]]) (simp add: reperm_mem)
    moreover have "same_rest s ?s'" by (rule same_restI') (simp add: reperm_def store_def flush_def)
    moreover have "tlb ?s' = tlb (flush asid va s)" by (simp add: reperm_def store_def)
    ultimately show ?thesis
      using page_insert_run_same [OF inv va v True] flush_hit [of asid va s] flush_sub [of asid va s]
      by (simp; blast)
  next
    case False
    let ?p = "PPN (lookup_pte (mem s) d va)" and ?r = "removed d asid va s"
    let ?fl = "if pp_ref s ?p = 1 then ?p # fl else fl"
    note rf = removed_facts [OF inv va v, where asid = asid] and ri = removed_inv [OF inv va v, where asid = asid]
    have dir: "valid (mem ?r d (PDX va))" using rf(1) lookup_dir [OF v] by simp
    have "pp < npage ?r" "pp \<notin> set ?fl" "unat (pp_ref ?r pp) < 65535"
      using pp False rf(3,6) by auto
    from page_insert_new_spec [OF ri va rf(2) this perm, of asid] dir
    obtain s' where s': "page_insert_new d asid pp va perm ?r = Done (Inr ()) s'" "mm_inv idx pin ?fl s'"
      "same_rest ?r s'" "tlb s' = tlb (flush asid va ?r)" by auto
    have eq: "s' = inserted d pp va perm (flush asid va ?r)"
      using s'(1) dir pgdir_walk_found [of idx pin ?fl "flush asid va ?r" va d True] ri va
      by (simp add: page_insert_new_def run_rules tlb_invalidate_run inserted_def)
    have "mem s' = (mem s)(PPN (mem s d (PDX va)) :=
        (mem s (PPN (mem s d (PDX va))))(PTX va := page2pa pp OR perm OR PTE_V))"
      unfolding eq inserted_mem using rf(1) by (simp add: removed_mem)
    then have "remap idx fl d va (page2pa pp OR perm OR PTE_V) s s'"
      by (rule remap_store_leaf [OF inv va lookup_dir [OF v]])
    moreover have "same_rest s s'" using rf(4) s'(3) by (rule same_rest_trans)
    moreover have "tlb s' (tlb_key asid va) = None" "tlb s' key = Some lo \<Longrightarrow> tlb s key = Some lo" for key lo
      using flush_hit [of asid va ?r] flush_sub [of asid va ?r key lo] flush_sub [of asid va s key lo]
      unfolding s'(4) by (simp_all add: flush_def removed_def store_def)
    ultimately show ?thesis
      using page_insert_run_other [OF inv va v False] s'(1,2) by auto
  qed
qed

section \<open>TLB coherence\<close>

text \<open>Every valid TLB entry of address space \<open>d\<close> (with ASID \<open>a\<close>) agrees with its page tables.\<close>

definition tlb_ok :: "(nat \<Rightarrow> nat set) \<Rightarrow> nat \<Rightarrow> u32 \<Rightarrow> kstate \<Rightarrow> bool" where
  "tlb_ok idx d a s \<longleftrightarrow> (\<forall>va lo. PDX va \<in> idx d \<longrightarrow> tlb s (tlb_key a va) = Some lo \<longrightarrow> valid lo \<longrightarrow>
     lo = lookup_pte (mem s) d va)"

lemma tlb_key_same_page: "VPN va = VPN va' \<Longrightarrow> tlb_key a va = tlb_key a va'"
proof -
  assume "VPN va = VPN va'"
  then have "drop_bit 12 va = drop_bit 12 va'"
    by (simp only: word_eq_iff_unsigned [where ?'a = nat] VPN_def)
  then show ?thesis by (simp add: tlb_key_def PTE_ADDR_alt)
qed

lemma remap_tlb_ok:
  assumes "remap idx fl d va w s s'" "tlb s' (tlb_key asid va) = None"
    and sub: "\<forall>key lo. tlb s' key = Some lo \<longrightarrow> tlb s key = Some lo"
    and ok: "tlb_ok idx d' a s" and one: "d' = d \<Longrightarrow> a = asid"
  shows "tlb_ok idx d' a s'"
  unfolding tlb_ok_def
proof (intro allI impI)
  fix va' lo
  assume va': "PDX va' \<in> idx d'" and hit: "tlb s' (tlb_key a va') = Some lo" and v: "valid lo"
  have "d' \<noteq> d \<or> VPN va' \<noteq> VPN va"
    using hit assms(2) one tlb_key_same_page [of va' va a] by auto
  with assms(1) va' have "lookup_pte (mem s') d' va' = lookup_pte (mem s) d' va'"
    by (simp add: remap_def)
  with ok va' hit v sub show "lo = lookup_pte (mem s') d' va'" by (simp add: tlb_ok_def)
qed

end
