(* ===== verification/Pmap_Boot.thy ===== *)
theory Pmap_Boot
  imports Pmap_Spec
begin

text \<open>
  What \<^verbatim>\<open>page_init\<close> establishes: the free list holds exactly the pages above the memory the
  kernel has taken, and the invariant of physical memory holds with no address space yet.
\<close>

lemma page_init_free_eq:
  assumes "is_list (page_free_list s) fl" "set fl \<inter> {pp..<pp + n} = {}"
  shows "\<exists>q. page_init_free n pp s = s\<lparr>page_free_list := q,
      pp_ref := (\<lambda>p. if pp \<le> p \<and> p < pp + n then 0 else pp_ref s p)\<rparr> \<and>
    is_list q (rev [pp..<pp + n] @ fl)"
  using assms
proof (induction n arbitrary: pp s fl)
  case 0
  have "(\<lambda>p. if pp \<le> p \<and> p < pp + 0 then 0 else pp_ref s p) = pp_ref s" by (auto simp: fun_eq_iff)
  with 0 show ?case by (intro exI [of _ "page_free_list s"]) simp
next
  case (Suc n)
  let ?s = "(set_ref pp 0 s)\<lparr>page_free_list := LIST_INSERT_HEAD pp (page_free_list s)\<rparr>"
  have pp: "pp \<notin> set fl" using Suc.prems(2) by auto
  have l: "is_list (page_free_list ?s) (pp # fl)"
    using lq.push_repr [OF Suc.prems(1) pp] by simp
  have "set (pp # fl) \<inter> {Suc pp..<Suc pp + n} = {}" using Suc.prems(2) by auto
  from Suc.IH [OF l this] obtain q where
    q: "page_init_free n (Suc pp) ?s = ?s\<lparr>page_free_list := q,
      pp_ref := (\<lambda>p. if Suc pp \<le> p \<and> p < Suc pp + n then 0 else pp_ref ?s p)\<rparr>"
      "is_list q (rev [Suc pp..<Suc pp + n] @ pp # fl)" by blast
  have refs: "(\<lambda>p. if Suc pp \<le> p \<and> p < Suc (pp + n) then 0 else if p = pp then 0 else pp_ref s p) =
      (\<lambda>p. if pp \<le> p \<and> p \<le> pp + n then 0 else pp_ref s p)"
    by (rule ext) auto
  have up: "[pp..<pp + Suc n] = pp # [Suc pp..<Suc pp + n]" by (simp add: upt_conv_Cons del: upt_Suc)
  have "page_init_free (Suc n) pp s = s\<lparr>page_free_list := q,
      pp_ref := (\<lambda>p. if pp \<le> p \<and> p < pp + Suc n then 0 else pp_ref s p)\<rparr>"
    using q(1) refs by (simp add: set_ref_def fun_upd_def less_Suc_eq_le cong: if_cong)
  with q(2) show ?case unfolding up by auto
qed

text \<open>The test of the first loop, over page numbers.\<close>

lemma less_div_4096: "u mod 4096 = 0 \<Longrightarrow> pp * 4096 < u \<longleftrightarrow> (pp::nat) < u div 4096"
  by (auto simp: mod_eq_0_iff_dvd)

lemma sub_ULIM_aligned:
  assumes "u = a - 2147483648" "a mod 4096 = 0"
  shows "u mod 4096 = (0::nat)"
proof -
  from assms obtain q where "a = 4096 * q" by (auto simp: mod_eq_0_iff_dvd)
  with assms have "u = 4096 * (q - 524288)" by (simp add: diff_mult_distrib2)
  then show ?thesis by simp
qed

lemma page_below:
  assumes "pp < 2 ^ 19" "ULIM \<le> a" "a AND 0xFFF = 0"
  shows "page2pa pp + ULIM < a \<longleftrightarrow> pp < unat (a - ULIM) div 4096"
proof -
  have low: "unat a mod 4096 = 0"
    using arg_cong [OF assms(3), of unat] by (simp add: mask12 flip: take_bit_eq_mask)
      (simp add: unsigned_take_bit_eq take_bit_eq_mod unat_mod)
  have u: "unat (a - ULIM) = unat a - 2147483648" "2147483648 \<le> unat a"
    using assms(2) by (simp_all add: unat_sub word_le_nat_alt ULIM_def)
  have "page2pa pp = of_nat (pp * 4096)" by (simp add: page2pa_def push_bit_eq_mult)
  moreover have "unat (of_nat (pp * 4096) :: u32) = pp * 4096"
    using assms(1) by (simp only: unat_of_nat take_bit_eq_mod) simp
  ultimately have p: "unat (page2pa pp) = pp * 4096" by simp
  then have "unat (page2pa pp + ULIM) = pp * 4096 + 2147483648"
    using assms(1) by (simp add: unat_word_ariths ULIM_def)
  then have "page2pa pp + ULIM < a \<longleftrightarrow> pp * 4096 + 2147483648 < unat a"
    by (simp add: word_less_nat_alt)
  also have "\<dots> \<longleftrightarrow> pp * 4096 < unat (a - ULIM)" using u by auto
  also have "\<dots> \<longleftrightarrow> pp < unat (a - ULIM) div 4096"
    by (rule less_div_4096 [OF sub_ULIM_aligned [OF u(1) low]])
  finally show ?thesis .
qed

lemma page_init_used_run:
  assumes "n = npage s - pp" "pp \<le> k" "k < npage s" "npage s \<le> 2 ^ 19"
    and fm: "ULIM \<le> freemem s" "freemem s AND 0xFFF = 0" "k = unat (freemem s - ULIM) div 4096"
  shows "page_init_used n pp s = Done () (page_init_free (npage s - k) k
    (s\<lparr>pp_ref := (\<lambda>p. if pp \<le> p \<and> p < k then 1 else pp_ref s p)\<rparr>))"
  using assms
proof (induction n arbitrary: pp s)
  case 0
  then show ?case by simp
next
  case (Suc n)
  note below = page_below [OF _ fm(1) fm(2)]
  have pp: "pp < 2 ^ 19" using Suc.prems by linarith
  show ?case
  proof (cases "pp < k")
    case True
    let ?s = "set_ref pp 1 s"
    have eq: "(\<lambda>p. if Suc pp \<le> p \<and> p < k then 1 else pp_ref ?s p) =
        (\<lambda>p. if pp \<le> p \<and> p < k then 1 else pp_ref s p)"
      using True by (auto simp: set_ref_def fun_eq_iff)
    have "page_init_used n (Suc pp) ?s = Done () (page_init_free (npage ?s - k) k
        (?s\<lparr>pp_ref := (\<lambda>p. if Suc pp \<le> p \<and> p < k then 1 else pp_ref ?s p)\<rparr>))"
      by (rule Suc.IH) (use Suc.prems True in \<open>auto simp: set_ref_def\<close>)
    moreover have "page2pa pp + ULIM < freemem s"
      using page_below [OF pp Suc.prems(5,6)] True Suc.prems(7) by simp
    ultimately show ?thesis
      unfolding eq by (simp add: run_rules set_ref_def)
  next
    case False
    then have k: "k = pp" using Suc.prems by simp
    moreover have "\<not> page2pa pp + ULIM < freemem s"
      using page_below [OF pp Suc.prems(5,6)] False Suc.prems(7) by simp
    moreover have "(\<lambda>p. if pp \<le> p \<and> p < pp then 1 else pp_ref s p) = pp_ref s"
      by (auto simp: fun_eq_iff)
    ultimately show ?thesis by (simp add: run_rules flip: Suc.prems(1))
  qed
qed

text \<open>Memory without address spaces: only the free list and the pinned pages matter.\<close>

lemma mm_inv_no_space:
  "mm_inv (\<lambda>_. {}) pin fl s \<longleftrightarrow> npage s \<le> 2 ^ 20 \<and> is_list (page_free_list s) fl \<and>
     (\<forall>p \<in> set fl. p < npage s \<and> pp_ref s p = 0) \<and> (\<forall>p < npage s. unat (pp_ref s p) = pin p)"
  by (auto simp: mm_inv_def pt_wf_def tabs_def leafs_def ntab_def nleaf_def)

lemma page_init_run:
  fixes s :: kstate
  defines "a \<equiv> ROUND (freemem s) BY2PG"
  defines "k \<equiv> unat (a - ULIM) div 4096"
  assumes "ULIM \<le> a" "k < npage s" "npage s \<le> 2 ^ 19"
  shows "\<exists>s'. page_init s = Done () s' \<and> mm_inv (\<lambda>_. {}) (\<lambda>p. if p < k then 1 else 0) (rev [k..<npage s]) s' \<and>
    freemem s' = a \<and> mem s' = mem s"
proof -
  let ?s = "s\<lparr>page_free_list := LIST_INIT (page_free_list s), freemem := a\<rparr>"
  let ?t = "?s\<lparr>pp_ref := (\<lambda>p. if 0 \<le> p \<and> p < k then 1 else pp_ref s p)\<rparr>"
  have "a AND 0xFFF = 0"
    unfolding a_def ROUND_def BY2PG_def
    by (rule bit_word_eqI) (simp add: bit_simps mask12)
  then have "page_init_used (npage ?s - 0) 0 ?s = Done () (page_init_free (npage ?s - k) k
      (?s\<lparr>pp_ref := (\<lambda>p. if 0 \<le> p \<and> p < k then 1 else pp_ref ?s p)\<rparr>))"
    by (intro page_init_used_run) (use assms in simp_all)
  then have r: "page_init s = Done () (page_init_free (npage s - k) k ?t)"
    by (simp add: page_init_def run_rules cong: if_cong flip: a_def)
  have "is_list (page_free_list ?t) []" by (simp add: lq.repr_init)
  from page_init_free_eq [OF this, of k "npage s - k"] assms(4) obtain q where
    "page_init_free (npage s - k) k ?t = ?t\<lparr>page_free_list := q,
      pp_ref := (\<lambda>p. if k \<le> p \<and> p < npage s then 0 else pp_ref ?t p)\<rparr>"
    "is_list q (rev [k..<npage s])" by auto
  with r assms(4,5) show ?thesis by (auto simp: mm_inv_no_space)
qed

end
