(* ===== verification/Pmap_Thms.thy ===== *)
theory Pmap_Thms
  imports Pmap_Boot
begin

text \<open>
  The properties of the page allocator and the page tables, with a small machine on which they
  are evaluated: 8 pages, pages 0 to 3 taken, one empty page directory in page 1, the rest free.
\<close>

section \<open>A small machine\<close>

definition small_idx :: "nat \<Rightarrow> nat set" where
  "small_idx d = (if d = 1 then {..<509} else {})"

definition small_pin :: "nat \<Rightarrow> nat" where
  "small_pin p = (if p < 4 then 1 else 0)"

definition small_free :: "nat lqueue" where
  "small_free = fold LIST_INSERT_HEAD [7, 6, 5, 4] (LIST_INIT empty_list)"

definition small_machine :: kstate where
  "small_machine = (bss 0x80400000 0x80300000)\<lparr>npage := 8, page_free_list := small_free,
     pp_ref := (\<lambda>p. if p < 4 then 1 else 0), cur_pgdir := 1\<rparr>"

lemma small_free_list: "is_list small_free [4, 5, 6, 7]"
  unfolding small_free_def
  using lq.fold_push [OF lq.repr_init, of "[7, 6, 5, 4 :: nat]"] by simp

lemma small_machine_inv: "mm_inv small_idx small_pin [4, 5, 6, 7] small_machine"
  by (simp add: mm_inv_def pt_wf_def tabs_def leafs_def ntab_def nleaf_def small_machine_def bss_def
      small_free_list small_idx_def small_pin_def)

lemma small_machine_simps [simp]:
  "npage small_machine = 8" "pp_ref small_machine p = (if p < 4 then 1 else 0)"
  "mem small_machine = (\<lambda>_ _. 0)" "tlb small_machine = (\<lambda>_. None)"
  by (simp_all add: small_machine_def bss_def)

lemma small_PDX: "PDX 0x400000 = 1" "PDX 0x400000 \<in> small_idx 1"
  by (simp_all add: PDX_alt small_idx_def)

section \<open>Mapping\<close>

text \<open>
  C1. \<open>page_insert\<close> on a managed slot, for a page in use and permissions below the page number:
  either it succeeds, \<open>va\<close> then translates to the page with the permissions and \<open>PTE_V\<close>,
  every other translation of every address space is as before, the reference counts are exact
  again and no variable other than free list, counts, tables and TLB has changed; or a page table
  was needed and no page is free, and it fails with \<open>E_NO_MEM\<close> having only flushed the TLB entry.
\<close>

theorem page_insert_correct:
  assumes "mm_inv idx pin fl s" "PDX va \<in> idx d"
    and "pp < npage s" "pp \<notin> set fl" "unat (pp_ref s pp) < 65535" "perm < 4096"
  shows "(\<exists>s' fl'. page_insert d asid pp va perm s = Done (Inr ()) s' \<and> mm_inv idx pin fl' s' \<and>
      lookup_pte (mem s') d va = page2pa pp OR perm OR PTE_V \<and>
      (\<forall>d' va'. PDX va' \<in> idx d' \<longrightarrow> d' \<noteq> d \<or> VPN va' \<noteq> VPN va \<longrightarrow>
         lookup_pte (mem s') d' va' = lookup_pte (mem s) d' va') \<and> same_rest s s') \<or>
    fl = [] \<and> \<not> valid (mem s d (PDX va)) \<and>
      page_insert d asid pp va perm s = Done (Inl E_NO_MEM) (flush asid va s)"
  using page_insert_cases [OF assms, of asid] unfolding remap_def by blast

theorem page_insert_correct_witness:
  "(\<exists>s' fl'. page_insert 1 0 3 0x400000 PTE_D small_machine = Done (Inr ()) s' \<and>
      mm_inv small_idx small_pin fl' s' \<and>
      lookup_pte (mem s') 1 0x400000 = page2pa 3 OR PTE_D OR PTE_V)"
  using page_insert_correct [OF small_machine_inv small_PDX(2), of 3 PTE_D 0]
  by (auto simp: pte_flag_defs)

text \<open>
  C2. \<open>page_remove\<close> always returns; afterwards \<open>va\<close> is not mapped, every other translation is
  as before, the reference counts are exact, and the page that was mapped is on the free list
  exactly when this was its last reference.
\<close>

theorem page_remove_correct:
  assumes "mm_inv idx pin fl s" "PDX va \<in> idx d"
  shows "\<exists>s' fl'. page_remove d asid va s = Done () s' \<and> mm_inv idx pin fl' s' \<and>
    \<not> valid (lookup_pte (mem s') d va) \<and>
    (\<forall>d' va'. PDX va' \<in> idx d' \<longrightarrow> d' \<noteq> d \<or> VPN va' \<noteq> VPN va \<longrightarrow>
       lookup_pte (mem s') d' va' = lookup_pte (mem s) d' va') \<and> same_rest s s' \<and>
    fl' = (if valid (lookup_pte (mem s) d va) \<and> pp_ref s (PPN (lookup_pte (mem s) d va)) = 1
           then PPN (lookup_pte (mem s) d va) # fl else fl)"
proof (cases "valid (lookup_pte (mem s) d va)")
  case True
  let ?s' = "removed d asid va s" and ?p = "PPN (lookup_pte (mem s) d va)"
  note rf = removed_facts [OF assms True, where asid = asid]
  have "page_remove d asid va s = Done () ?s'" by (simp add: page_remove_run [OF assms] True)
  with True removed_inv [OF assms True, where asid = asid] rf(2,4) rf(7) [of fl]
  show ?thesis unfolding remap_def by (intro exI [of _ ?s'] exI [of _ "if pp_ref s ?p = 1 then ?p # fl else fl"]) simp
next
  case False
  with assms show ?thesis by (simp add: page_remove_run [OF assms])
qed

theorem page_remove_correct_witness:
  "\<exists>s' fl'. page_remove 1 0 0x400000 small_machine = Done () s' \<and> mm_inv small_idx small_pin fl' s' \<and>
    \<not> valid (lookup_pte (mem s') 1 0x400000)"
  using page_remove_correct [OF small_machine_inv small_PDX(2), of 0] by blast

section \<open>The TLB\<close>

lemma tlb_ok_ops:
  assumes "mm_inv idx pin fl s" "PDX va \<in> idx d"
    and "tlb_ok idx d' a s" "d' = d \<Longrightarrow> a = asid"
  shows "page_remove d asid va s = Done () s' \<Longrightarrow> tlb_ok idx d' a s'"
    and "pp < npage s \<Longrightarrow> pp \<notin> set fl \<Longrightarrow> unat (pp_ref s pp) < 65535 \<Longrightarrow> perm < 4096 \<Longrightarrow>
      page_insert d asid pp va perm s = Done r s' \<Longrightarrow> tlb_ok idx d' a s'"
proof -
  assume "page_remove d asid va s = Done () s'"
  with page_remove_run [OF assms(1,2), of asid]
  have s': "s' = (if valid (lookup_pte (mem s) d va) then removed d asid va s else s)" by simp
  show "tlb_ok idx d' a s'"
  proof (cases "valid (lookup_pte (mem s) d va)")
    case True
    note rf = removed_facts [OF assms(1,2) True, where asid = asid]
    from flush_hit [of asid va s] flush_sub [of asid va s]
    have "tlb_ok idx d' a (removed d asid va s)"
      by (intro remap_tlb_ok [OF rf(7) _ _ assms(3,4)]) (auto simp: rf(5))
    with s' True show ?thesis by simp
  qed (simp add: s' assms(3))
next
  assume pp: "pp < npage s" "pp \<notin> set fl" "unat (pp_ref s pp) < 65535" "perm < 4096"
    and run: "page_insert d asid pp va perm s = Done r s'"
  from page_insert_cases [OF assms(1,2) pp, of asid] show "tlb_ok idx d' a s'"
  proof (elim disjE exE conjE)
    fix t fl'
    assume t: "page_insert d asid pp va perm s = Done (Inr ()) t" "mm_inv idx pin fl' t"
      "remap idx fl d va (page2pa pp OR perm OR PTE_V) s t" "same_rest s t"
      "tlb t (tlb_key asid va) = None" "\<forall>key lo. tlb t key = Some lo \<longrightarrow> tlb s key = Some lo"
    from t(1) run have "s' = t" by simp
    with remap_tlb_ok [OF t(3,5,6) assms(3,4)] show ?thesis by simp
  next
    assume "page_insert d asid pp va perm s = Done (Inl E_NO_MEM) (flush asid va s)"
    with run have "s' = flush asid va s" by simp
    with assms(3) flush_sub [of asid va s] show ?thesis by (auto simp: tlb_ok_def)
  qed
qed

text \<open>
  C3. Mapping or unmapping a page keeps the TLB coherent: if every valid TLB entry of an address
  space \<open>d'\<close> with ASID \<open>a\<close> agrees with the page tables before, it does after \<open>page_insert\<close> or
  \<open>page_remove\<close> on any \<open>d\<close>, provided a change of \<open>d'\<close> itself is made under its own ASID.
\<close>

theorem tlb_stays_coherent:
  assumes "mm_inv idx pin fl s" "PDX va \<in> idx d"
    and "tlb_ok idx d' a s" "d' = d \<Longrightarrow> a = asid"
  shows "wpx True (page_remove d asid va) (\<lambda>_. tlb_ok idx d' a) (\<lambda>_. True) s \<and>
    (pp < npage s \<longrightarrow> pp \<notin> set fl \<longrightarrow> unat (pp_ref s pp) < 65535 \<longrightarrow> perm < 4096 \<longrightarrow>
     wpx True (page_insert d asid pp va perm) (\<lambda>_. tlb_ok idx d' a) (\<lambda>_. True) s)"
  using tlb_ok_ops [OF assms] by (auto simp: wpx_def split: outcome.split)

theorem tlb_stays_coherent_witness:
  "wpx True (page_insert 1 2 3 0x400000 PTE_D) (\<lambda>_. tlb_ok small_idx 1 2) (\<lambda>_. True)
     (small_machine\<lparr>tlb := (\<lambda>key. if key = tlb_key 2 0x401000 then Some 0 else None)\<rparr>)"
proof -
  let ?s = "small_machine\<lparr>tlb := (\<lambda>key. if key = tlb_key 2 0x401000 then Some 0 else None)\<rparr>"
  have "mm_inv small_idx small_pin [4, 5, 6, 7] ?s" by (simp add: small_machine_inv)
  moreover have "tlb_ok small_idx 1 2 ?s" by (simp add: tlb_ok_def)
  ultimately show ?thesis
    using tlb_stays_coherent [where s = ?s and d = 1 and d' = 1 and a = 2 and asid = 2 and pp = 3
        and perm = PTE_D and va = "0x400000" and idx = small_idx and pin = small_pin
        and fl = "[4, 5, 6, 7]"] small_PDX(2)
    by (simp add: pte_flag_defs)
qed

section \<open>The allocator\<close>

text \<open>
  \<open>page_alloc\<close> takes the first page of the free list and returns it filled with zeroes and
  with no reference; no address translation changes; with an empty list it fails with
  \<open>E_NO_MEM\<close> and leaves the state alone.
\<close>

theorem page_alloc_correct:
  assumes "mm_inv idx pin fl s"
  shows "case fl of
      [] \<Rightarrow> page_alloc s = Done (Inl E_NO_MEM) s
    | pp # fl' \<Rightarrow> \<exists>s'. page_alloc s = Done (Inr pp) s' \<and> mm_inv idx pin fl' s' \<and>
        pp < npage s \<and> pp_ref s' = pp_ref s \<and> pp_ref s pp = 0 \<and> mem s' = (mem s)(pp := (\<lambda>_. 0)) \<and>
        (\<forall>d va. PDX va \<in> idx d \<longrightarrow> lookup_pte (mem s') d va = lookup_pte (mem s) d va)"
proof (cases fl)
  case Nil
  with page_alloc_run [OF assms] show ?thesis by simp
next
  case (Cons pp fl')
  let ?s = "s\<lparr>page_free_list := the (LIST_REMOVE pp (page_free_list s)), mem := (mem s)(pp := (\<lambda>_. 0))\<rparr>"
  note al = page_alloc_inv [OF assms [unfolded Cons] refl [of ?s]]
  have "lookup_pte (mem ?s) d va = lookup_pte (mem s) d va" if "PDX va \<in> idx d" for d va
  proof (cases "valid (mem s d (PDX va))")
    case True
    with that al(7) [of "(d, PDX va)"] al(6) show ?thesis
      by (auto simp: lookup_pte_def tabs_def tab_of.simps)
  next
    case False
    with that al(6) show ?thesis by (auto simp: lookup_pte_def)
  qed
  with page_alloc_run [OF assms] Cons al(1-3) show ?thesis by simp
qed

theorem page_alloc_correct_witness:
  "\<exists>s'. page_alloc small_machine = Done (Inr 4) s' \<and> mm_inv small_idx small_pin [5, 6, 7] s' \<and>
     pp_ref small_machine 4 = 0"
  using page_alloc_correct [OF small_machine_inv] by auto

text \<open>
  C4. \<open>page_init\<close>, run when the kernel's memory ends at \<open>freemem\<close> with room above it, returns and
  establishes the invariant of physical memory: the pages below the rounded \<open>freemem\<close> have one
  reference, all others have none and are on the free list, highest first.
\<close>

theorem page_init_correct:
  assumes "ULIM \<le> ROUND (freemem s) BY2PG" "unat (ROUND (freemem s) BY2PG - ULIM) div 4096 < npage s"
    and "npage s \<le> 2 ^ 19"
  shows "\<exists>s'. page_init s = Done () s' \<and>
    mm_inv (\<lambda>_. {}) (\<lambda>p. if p < unat (ROUND (freemem s) BY2PG - ULIM) div 4096 then 1 else 0)
      (rev [unat (ROUND (freemem s) BY2PG - ULIM) div 4096..<npage s]) s'"
  using page_init_run [OF assms] by blast

theorem page_init_correct_witness:
  "\<exists>s'. page_init ((bss 0x80400000 0)\<lparr>npage := 1074, freemem := 0x80430000\<rparr>) = Done () s' \<and>
    mm_inv (\<lambda>_. {}) (\<lambda>p. if p < 1072 then 1 else 0) (rev [1072..<1074]) s'"
  using page_init_correct [of "(bss 0x80400000 0)\<lparr>npage := 1074, freemem := 0x80430000\<rparr>"]
  by (simp add: ROUND_def BY2PG_def ULIM_def)

end
