(* ===== verification/Env.thy ===== *)
theory Env
  imports Pmap
begin

text \<open>
  Environments: \<^verbatim>\<open>kern/env.c\<close> up to \<^verbatim>\<open>env_run\<close>. ASIDs, environment ids and their
  resolution, the template page directory, allocation, release and the switch to user mode.
  \<^verbatim>\<open>env_destroy\<close> calls the scheduler and is in \<open>Sched\<close>; \<^verbatim>\<open>load_icode\<close> and
  \<^verbatim>\<open>env_create\<close> are in \<open>Elf\<close>. The messages of \<^verbatim>\<open>printk\<close> are not part of the
  state.
\<close>

section \<open>ASIDs\<close>

definition NASID :: nat where "NASID = 64"

definition asid_word :: "nat \<Rightarrow> nat" where "asid_word i = i div 32"
definition asid_bit :: "nat \<Rightarrow> u32" where "asid_bit i = push_bit (i mod 32) 1"

fun asid_scan :: "nat list \<Rightarrow> (kstate, err + u32) kprog" where
  "asid_scan [] = retK (Inl E_NO_FREE_ENV)"
| "asid_scan (i # is) =
     bindK (getsK (\<lambda>s. asid_bitmap s (asid_word i))) (\<lambda>w.
     if w AND asid_bit i = 0 then
       seqK (modifyK (\<lambda>s. s\<lparr>asid_bitmap := (asid_bitmap s)(asid_word i := w OR asid_bit i)\<rparr>))
            (retK (Inr (of_nat i)))
     else asid_scan is)"

definition asid_alloc :: "(kstate, err + u32) kprog" where
  "asid_alloc = asid_scan [0..<NASID]"

definition asid_free :: "u32 \<Rightarrow> (kstate, unit) kprog" where
  "asid_free i = modifyK (\<lambda>s. s\<lparr>asid_bitmap := (asid_bitmap s)(asid_word (unat i) :=
     asid_bitmap s (asid_word (unat i)) AND NOT (asid_bit (unat i)))\<rparr>)"

section \<open>Environment ids\<close>

definition mkenvid :: "nat \<Rightarrow> (kstate, u32) kprog" where
  "mkenvid e =
     seqK (modifyK (\<lambda>s. s\<lparr>mkenvid_i := mkenvid_i s + 1\<rparr>))
    (bindK (getsK mkenvid_i) (\<lambda>i. retK (push_bit (1 + LOG2NENV) i OR of_nat e)))"

text \<open>The result is the pointer stored in \<^verbatim>\<open>*penv\<close>; for id 0 it is \<^verbatim>\<open>curenv\<close>, which may be null.\<close>

definition envid2env :: "u32 \<Rightarrow> bool \<Rightarrow> (kstate, err + nat option) kprog" where
  "envid2env envid checkperm =
     (if envid = 0 then bindK (getsK curenv) (\<lambda>c. retK (Inr c))
      else
        let e = ENVX envid in
        bindK (getsK (\<lambda>s. envs s e)) (\<lambda>env.
        if env_status env = ENV_FREE \<or> env_id env \<noteq> envid then retK (Inl E_BAD_ENV)
        else if checkperm then
          bindK (getsK curenv) (\<lambda>c. case c of
            None \<Rightarrow> panicK ''load through NULL''
          | Some cur \<Rightarrow>
              bindK (getsK (\<lambda>s. env_id (envs s cur))) (\<lambda>cid.
              if \<not> (env_id env = cid \<or> env_parent_id env = cid) then retK (Inl E_BAD_ENV)
              else retK (Inr (Some e))))
        else retK (Inr (Some e))))"

text \<open>A use of the pointer \<^verbatim>\<open>envid2env\<close> left in its argument.\<close>

definition the_env :: "nat option \<Rightarrow> (nat \<Rightarrow> (kstate, 'a) kprog) \<Rightarrow> (kstate, 'a) kprog" where
  "the_env p f = (case p of None \<Rightarrow> panicK ''load through NULL'' | Some e \<Rightarrow> f e)"

section \<open>The template directory\<close>

definition map_segment :: "nat \<Rightarrow> u32 \<Rightarrow> u32 \<Rightarrow> u32 \<Rightarrow> u32 \<Rightarrow> u32 \<Rightarrow> (kstate, unit) kprog" where
  "map_segment pgdir asid pa va len perm =
     seqK (assertK (pa mod BY2PG = 0) ''assertion failed: pa % BY2PG == 0'')
    (seqK (assertK (va mod BY2PG = 0) ''assertion failed: va % BY2PG == 0'')
    (seqK (assertK (len mod BY2PG = 0) ''assertion failed: size % BY2PG == 0'')
    (forK [0..<unat len div 4096] (\<lambda>k.
       bindK (pa2page (pa + of_nat k * BY2PG)) (\<lambda>pp.
       bindK (page_insert pgdir asid pp (va + of_nat k * BY2PG) perm) (\<lambda>_. retK ()))))))"

definition sizeof_Env :: u32 where "sizeof_Env = 1244"

text \<open>The loop of \<^verbatim>\<open>env_init\<close>: from the last environment down to the first.\<close>

definition free_env_slot :: "nat \<Rightarrow> kstate \<Rightarrow> kstate" where
  "free_env_slot i s = (upd_env i (env_status_update (\<lambda>_. ENV_FREE)) s)
     \<lparr>env_free_list := LIST_INSERT_HEAD i (env_free_list s)\<rparr>"

definition env_init :: "(kstate, unit) kprog" where
  "env_init =
     seqK (modifyK (\<lambda>s. s\<lparr>env_free_list := LIST_INIT (env_free_list s)\<rparr>))
    (seqK (modifyK (\<lambda>s. s\<lparr>env_sched_list := TAILQ_INIT (env_sched_list s)\<rparr>))
    (seqK (forK (rev [0..<NENV]) (\<lambda>i. modifyK (free_env_slot i)))
    (bindK page_alloc (\<lambda>r. case r of
       Inl _ \<Rightarrow> panicK ''page_alloc(&p) failed''
     | Inr p \<Rightarrow>
         seqK (modifyK (page_incref p))
        (bindK (page2kva p) (\<lambda>dir.
         seqK (modifyK (\<lambda>s. s\<lparr>base_pgdir := dir\<rparr>))
        (bindK (getsK pages_kva) (\<lambda>pk. bindK (PADDR pk) (\<lambda>ppa.
         bindK (getsK (\<lambda>s. ROUND (of_nat (npage s) * sizeof_Page) BY2PG)) (\<lambda>psz.
         seqK (map_segment dir 0 ppa UPAGES psz PTE_G)
        (bindK (getsK envs_kva) (\<lambda>ek. bindK (PADDR ek) (\<lambda>epa.
         map_segment dir 0 epa UENVS (ROUND (of_nat NENV * sizeof_Env) BY2PG) PTE_G)))))))))))))"

section \<open>Allocation\<close>

text \<open>The directory slots \<^verbatim>\<open>memcpy\<close> copies from the template, and the slot of the directory itself.\<close>

definition env_setup_vm :: "nat \<Rightarrow> (kstate, err + unit) kprog" where
  "env_setup_vm e =
     tryK page_alloc (\<lambda>p.
     seqK (modifyK (page_incref p))
    (bindK (page2kva p) (\<lambda>dir.
     seqK (modifyK (upd_env e (env_pgdir_update (\<lambda>_. dir))))
    (seqK (modifyK (\<lambda>s. s\<lparr>mem := (mem s)(dir := (\<lambda>i.
        if PDX UTOP \<le> i \<and> i < PDX UTOP + (PDX UVPT - PDX UTOP) then mem s (base_pgdir s) i
        else mem s dir i))\<rparr>))
    (seqK (modifyK (store dir (PDX UVPT) (page2pa dir OR PTE_V)))
          (retK (Inr ())))))))"

definition STATUS_CU0 :: u32 where "STATUS_CU0 = 0x10000000"
definition STATUS_IM4 :: u32 where "STATUS_IM4 = 0x1000"
definition STATUS_KUp :: u32 where "STATUS_KUp = 0x8"
definition STATUS_IEp :: u32 where "STATUS_IEp = 0x4"

definition env_alloc :: "u32 \<Rightarrow> (kstate, err + nat) kprog" where
  "env_alloc parent_id =
     bindK (getsK (\<lambda>s. LIST_FIRST (env_free_list s))) (\<lambda>first. case first of
       None \<Rightarrow> retK (Inl E_NO_FREE_ENV)
     | Some e \<Rightarrow>
         tryK (env_setup_vm e) (\<lambda>_.
         seqK (modifyK (upd_env e (env_user_tlb_mod_entry_update (\<lambda>_. 0))))
        (seqK (modifyK (upd_env e (env_runs_update (\<lambda>_. 0))))
        (bindK (mkenvid e) (\<lambda>eid.
         seqK (modifyK (upd_env e (env_id_update (\<lambda>_. eid))))
        (bindK asid_alloc (\<lambda>r. case r of
           Inl _ \<Rightarrow> retK (Inl E_NO_FREE_ENV)
         | Inr asid \<Rightarrow>
             seqK (modifyK (upd_env e (env_asid_update (\<lambda>_. asid))))
            (seqK (modifyK (upd_env e (env_parent_id_update (\<lambda>_. parent_id))))
            (seqK (modifyK (upd_env e (env_path_update (\<lambda>p. p(0 := 0x2F)))))
            (seqK (modifyK (upd_env e (env_tf_update (tf_status_update
                     (\<lambda>_. STATUS_IM4 OR STATUS_KUp OR STATUS_IEp)))))
            (seqK (modifyK (upd_env e (env_tf_update (tf_regs_update
                     (\<lambda>r. r(29 := USTACKTOP - 4 - 4))))))
            (seqK (stepK (\<lambda>s. map_option (\<lambda>q. s\<lparr>env_free_list := q\<rparr>)
                     (LIST_REMOVE e (env_free_list s))) ''store through NULL'')
                  (retK (Inr e))))))))))))))"

section \<open>Release\<close>

text \<open>One page table of \<^verbatim>\<open>env_free\<close>'s walk, at directory slot \<open>pdeno\<close>.\<close>

definition env_free_pt :: "nat \<Rightarrow> u32 \<Rightarrow> nat \<Rightarrow> (kstate, unit) kprog" where
  "env_free_pt dir asid pdeno =
     bindK (getsK (\<lambda>s. mem s dir pdeno)) (\<lambda>pde.
     if \<not> valid pde then retK ()
     else
       bindK (KADDR (PTE_ADDR pde)) (\<lambda>pt.
       seqK (forK [0..<1024] (\<lambda>pteno.
               bindK (getsK (\<lambda>s. mem s pt pteno)) (\<lambda>pte.
               if valid pte
               then page_remove dir asid (push_bit 22 (of_nat pdeno) OR push_bit 12 (of_nat pteno))
               else retK ())))
      (seqK (modifyK (store dir pdeno 0))
      (bindK (pa2page (PTE_ADDR pde)) (\<lambda>pp.
       seqK (page_decref pp)
            (tlb_invalidate asid (UVPT + push_bit 12 (of_nat pdeno))))))))"

definition env_free :: "nat \<Rightarrow> (kstate, unit) kprog" where
  "env_free e =
     bindK (getsK (\<lambda>s. envs s e)) (\<lambda>env.
     seqK (forK [0..<PDX UTOP] (env_free_pt (env_pgdir env) (env_asid env)))
    (bindK (pa2page (page2pa (env_pgdir env))) (\<lambda>pp.
     seqK (page_decref pp)
    (seqK (asid_free (env_asid env))
    (seqK (tlb_invalidate (env_asid env) (UVPT + push_bit 12 (of_nat (PDX UVPT))))
    (seqK (modifyK (upd_env e (env_status_update (\<lambda>_. ENV_FREE))))
    (seqK (modifyK (\<lambda>s. s\<lparr>env_free_list := LIST_INSERT_HEAD e (env_free_list s)\<rparr>))
          (stepK (\<lambda>s. map_option (\<lambda>q. s\<lparr>env_sched_list := q\<rparr>)
             (TAILQ_REMOVE e (env_sched_list s))) ''store through NULL''))))))))"

section \<open>Switching\<close>

text \<open>
  \<^verbatim>\<open>env_pop_tf\<close> loads the registers from the environment's trap frame and never returns:
  the routine ends \<open>Away\<close> with \<^verbatim>\<open>curenv\<close> set.
\<close>

definition env_run :: "nat \<Rightarrow> (kstate, 'a) kprog" where
  "env_run e =
     bindK (getsK (\<lambda>s. env_status (envs s e))) (\<lambda>st.
     seqK (assertK (st = ENV_RUNNABLE) ''assertion failed: e->env_status == ENV_RUNNABLE'')
    (seqK (modifyK (\<lambda>s. case curenv s of
              None \<Rightarrow> s
            | Some c \<Rightarrow> upd_env c (env_tf_update (\<lambda>_. kstack_tf s)) s))
    (seqK (modifyK (\<lambda>s. s\<lparr>curenv := Some e\<rparr>))
    (seqK (modifyK (upd_env e (env_runs_update (\<lambda>r. r + 1))))
    (seqK (modifyK (\<lambda>s. s\<lparr>cur_pgdir := env_pgdir (envs s e)\<rparr>))
          awayK)))))"

end
