(* ===== verification/Sched.thy ===== *)
theory Sched
  imports Env
begin

text \<open>
  The round-robin scheduler of \<^verbatim>\<open>kern/sched.c\<close>, and \<^verbatim>\<open>env_destroy\<close> of
  \<^verbatim>\<open>kern/env.c\<close>, which calls it. \<^verbatim>\<open>schedule\<close> never returns: it ends \<open>Away\<close> in
  \<^verbatim>\<open>env_run\<close>, or panics.
\<close>

definition sched_remove :: "nat \<Rightarrow> (kstate, unit) kprog" where
  "sched_remove e = stepK (\<lambda>s. map_option (\<lambda>q. s\<lparr>env_sched_list := q\<rparr>)
     (TAILQ_REMOVE e (env_sched_list s))) ''store through NULL''"

definition sched_insert_tail :: "nat \<Rightarrow> (kstate, unit) kprog" where
  "sched_insert_tail e = stepK (\<lambda>s. map_option (\<lambda>q. s\<lparr>env_sched_list := q\<rparr>)
     (TAILQ_INSERT_TAIL e (env_sched_list s))) ''store through NULL''"

text \<open>Taking the head of the list: a null head is read at once for its priority.\<close>

definition sched_pick :: "(kstate, nat) kprog" where
  "sched_pick =
     bindK (getsK (\<lambda>s. TAILQ_FIRST (env_sched_list s))) (\<lambda>first. case first of
       None \<Rightarrow> panicK ''address too low''
     | Some e \<Rightarrow>
         seqK (modifyK (\<lambda>s. s\<lparr>sched_count := env_pri (envs s e)\<rparr>)) (retK e))"

definition schedule :: "bool \<Rightarrow> (kstate, 'a) kprog" where
  "schedule yield =
     seqK (modifyK (\<lambda>s. s\<lparr>sched_count := sched_count s - 1\<rparr>))
    (bindK (getsK (\<lambda>s. s)) (\<lambda>s. 
     if yield \<or> sched_count s = 0 \<or> curenv s = None \<or>
        env_status (envs s (the (curenv s))) \<noteq> ENV_RUNNABLE
     then
       if TAILQ_EMPTY (env_sched_list s) then panicK ''schedule: no runnable envs''
       else case curenv s of
         None \<Rightarrow> bindK sched_pick env_run
       | Some e \<Rightarrow>
           if env_status (envs s e) = ENV_RUNNABLE
           then seqK (sched_remove e) (seqK (sched_insert_tail e) (bindK sched_pick env_run))
           else seqK (sched_remove e) (bindK sched_pick env_run)
     else env_run (the (curenv s))))"

definition env_destroy :: "nat \<Rightarrow> (kstate, unit) kprog" where
  "env_destroy e =
     seqK (env_free e)
    (bindK (getsK curenv) (\<lambda>c.
     if c = Some e
     then seqK (modifyK (\<lambda>s. s\<lparr>curenv := None\<rparr>)) (schedule True)
     else retK ()))"

end
