(* ===== verification/Slots.thy ===== *)
theory Slots
  imports Prelude
begin

text \<open>
  Bitmaps of 32-bit words, and the contract of an allocator that hands out the lowest free slot.
  The kernel's ASIDs and the file system's disk blocks are both kept this way; each provides the
  contract \<open>slot_allocator\<close> for its own code.
\<close>

section \<open>Bits of a word array\<close>

definition bitmap_bit :: "(nat \<Rightarrow> u32) \<Rightarrow> nat \<Rightarrow> bool" where
  "bitmap_bit bm i = bit (bm (i div 32)) (i mod 32)"

lemma and_bit_eq_0: "w AND push_bit k 1 = 0 \<longleftrightarrow> \<not> bit (w :: u32) k" if "k < 32"
proof -
  have "bit (w AND push_bit k 1) n \<longleftrightarrow> n = k \<and> bit w k" for n
    using that by (auto simp: bit_simps bit_1_iff)
  moreover have "x = 0 \<longleftrightarrow> (\<forall>n. \<not> bit x n)" for x :: u32
    by (metis bit_0_eq bit_word_eqI bot_apply bot_bool_def)
  ultimately show ?thesis by metis
qed

lemma bitmap_test: "bm (i div 32) AND push_bit (i mod 32) 1 = 0 \<longleftrightarrow> \<not> bitmap_bit bm i"
  unfolding bitmap_bit_def by (rule and_bit_eq_0) simp

lemma bitmap_set:
  "bitmap_bit (bm(i div 32 := bm (i div 32) OR push_bit (i mod 32) 1)) j \<longleftrightarrow> j = i \<or> bitmap_bit bm j"
proof (cases "j div 32 = i div 32")
  case True
  then have "j = i \<longleftrightarrow> j mod 32 = i mod 32" by (metis div_mod_decomp)
  with True show ?thesis by (auto simp: bitmap_bit_def bit_simps bit_1_iff)
next
  case False
  then show ?thesis by (auto simp: bitmap_bit_def)
qed

lemma bitmap_clear:
  "bitmap_bit (bm(i div 32 := bm (i div 32) AND NOT (push_bit (i mod 32) 1))) j \<longleftrightarrow>
     j \<noteq> i \<and> bitmap_bit bm j"
proof (cases "j div 32 = i div 32")
  case True
  then have "j = i \<longleftrightarrow> j mod 32 = i mod 32" by (metis div_mod_decomp)
  with True show ?thesis by (auto simp: bitmap_bit_def bit_simps bit_1_iff)
next
  case False
  then show ?thesis by (auto simp: bitmap_bit_def)
qed

lemmas bitmap_simps = bitmap_test bitmap_set bitmap_clear bitmap_test [unfolded push_bit_of_1]
  bitmap_set [unfolded push_bit_of_1] bitmap_clear [unfolded push_bit_of_1]

section \<open>The contract\<close>

text \<open>
  \<open>used s\<close> is the set of slots in use, \<open>slots s\<close> the slots the allocator may hand out in state
  \<open>s\<close>. \<open>alloc\<close> takes the lowest free one, and \<open>release\<close> gives one back.
\<close>

locale slot_allocator =
  fixes ok :: "'s \<Rightarrow> bool"
    and used :: "'s \<Rightarrow> nat set"
    and slots :: "'s \<Rightarrow> nat set"
    and alloc :: "'s \<Rightarrow> (nat \<times> 's) option"
    and release :: "nat \<Rightarrow> 's \<Rightarrow> 's"
  assumes alloc_None: "ok s \<Longrightarrow> alloc s = None \<Longrightarrow> slots s \<subseteq> used s"
    and alloc_Some: "ok s \<Longrightarrow> alloc s = Some (i, s') \<Longrightarrow>
      i \<in> slots s \<and> i \<notin> used s \<and> (\<forall>j \<in> slots s. j < i \<longrightarrow> j \<in> used s)"
    and alloc_used: "ok s \<Longrightarrow> alloc s = Some (i, s') \<Longrightarrow>
      ok s' \<and> used s' = insert i (used s) \<and> slots s' = slots s"
    and release_used: "ok s \<Longrightarrow> i \<in> slots s \<Longrightarrow>
      ok (release i s) \<and> used (release i s) = used s - {i} \<and> slots (release i s) = slots s"
begin

lemma alloc_None_iff:
  assumes "ok s"
  shows "alloc s = None \<longleftrightarrow> slots s \<subseteq> used s"
proof (cases "alloc s")
  case None
  then show ?thesis using alloc_None [OF assms] by simp
next
  case (Some a)
  then obtain i s' where "alloc s = Some (i, s')" by (cases a) simp
  with alloc_Some [OF assms this] show ?thesis by auto
qed

text \<open>A slot that was just released is available again, and allocation then cannot fail.\<close>

lemma release_alloc:
  assumes "ok s" "i \<in> slots s"
  shows "\<exists>j s'. alloc (release i s) = Some (j, s') \<and> j \<le> i"
proof -
  note rel = release_used [OF assms]
  have "alloc (release i s) \<noteq> None" using alloc_None_iff [of "release i s"] rel assms(2) by auto
  then obtain j s' where a: "alloc (release i s) = Some (j, s')" by auto
  have "\<not> i < j" using alloc_Some [OF conjunct1 [OF rel] a] rel assms(2) by auto
  with a show ?thesis by (auto simp: not_less)
qed

lemma alloc_release:
  assumes "ok s" "alloc s = Some (i, s')"
  shows "used (release i s') = used s" "slots (release i s') = slots s"
proof -
  from assms have "ok s'" "i \<in> slots s'" "i \<notin> used s" using alloc_Some alloc_used by blast+
  with release_used [of s' i] alloc_used [OF assms] show "used (release i s') = used s"
    "slots (release i s') = slots s" by auto
qed

text \<open>Successive allocations, without a release between them, give different slots.\<close>

fun alloc_many :: "nat \<Rightarrow> 's \<Rightarrow> (nat list \<times> 's) option" where
  "alloc_many 0 s = Some ([], s)"
| "alloc_many (Suc n) s = (case alloc s of
     None \<Rightarrow> None
   | Some (i, s') \<Rightarrow> map_option (\<lambda>(is, t). (i # is, t)) (alloc_many n s'))"

lemma alloc_many:
  "ok s \<Longrightarrow> alloc_many n s = Some (is, s') \<Longrightarrow> ok s' \<and>
     length is = n \<and> distinct is \<and> sorted is \<and> set is \<subseteq> slots s \<and> set is \<inter> used s = {} \<and>
     used s' = used s \<union> set is"
proof (induction n arbitrary: s "is")
  case 0
  then show ?case by simp
next
  case (Suc n)
  then obtain i s1 is1 where a: "alloc s = Some (i, s1)" and m: "alloc_many n s1 = Some (is1, s')"
    and "is": "is = i # is1" by (auto split: option.splits)
  note al = alloc_Some [OF Suc.prems(1) a] and us = alloc_used [OF Suc.prems(1) a]
  note ih = Suc.IH [OF conjunct1 [OF us] m]
  have "i \<le> j" if "j \<in> set is1" for j
  proof (rule ccontr)
    assume "\<not> i \<le> j"
    moreover have "j \<in> slots s" "j \<notin> used s" using that ih us by auto
    ultimately show False using al by auto
  qed
  with "is" ih al us show ?case by auto
qed

text \<open>Allocation succeeds as often as there are free slots.\<close>

lemma alloc_many_ok:
  assumes "ok s" "finite (slots s)" "n \<le> card (slots s - used s)"
  shows "alloc_many n s \<noteq> None"
  using assms
proof (induction n arbitrary: s)
  case 0
  then show ?case by simp
next
  case (Suc n)
  then have "slots s - used s \<noteq> {}" by (metis card.empty not_less_eq_eq zero_le)
  then have "alloc s \<noteq> None" using alloc_None_iff [of s] Suc.prems(1) by auto
  then obtain i s' where a: "alloc s = Some (i, s')" by auto
  from alloc_Some [OF Suc.prems(1) this] alloc_used [OF Suc.prems(1) this]
  have "slots s' - used s' = (slots s - used s) - {i}" "i \<in> slots s - used s" by auto
  with Suc.prems alloc_used [OF Suc.prems(1) a] have "ok s'" "n \<le> card (slots s' - used s')" "finite (slots s')" by auto
  from Suc.IH [OF this(1,3,2)] a show ?case by auto
qed

end

end
