(* ===== verification/Env_Inv.thy ===== *)
theory Env_Inv
  imports Env Pmap_Boot Slots
begin

text \<open>
  Facts about ASIDs, environment ids and their resolution, and the invariant of the environment
  table.
\<close>

section \<open>ASIDs\<close>

definition asid_used :: "kstate \<Rightarrow> nat set" where
  "asid_used s = {i. i < NASID \<and> bitmap_bit (asid_bitmap s) i}"

definition set_asid :: "nat \<Rightarrow> kstate \<Rightarrow> kstate" where
  "set_asid i s = s\<lparr>asid_bitmap := (asid_bitmap s)(i div 32 := asid_bitmap s (i div 32) OR push_bit (i mod 32) 1)\<rparr>"

lemma asid_used_set: "i < NASID \<Longrightarrow> asid_used (set_asid i s) = insert i (asid_used s)"
  by (auto simp: asid_used_def set_asid_def bitmap_simps)

lemma asid_scan_run:
  "asid_scan is s = (case filter (\<lambda>i. \<not> bitmap_bit (asid_bitmap s) i) is of
     [] \<Rightarrow> Done (Inl E_NO_FREE_ENV) s
   | i # _ \<Rightarrow> Done (Inr (of_nat i)) (set_asid i s))"
  by (induction "is")
    (simp_all add: run_rules asid_word_def asid_bit_def bitmap_simps set_asid_def)

text \<open>\<^verbatim>\<open>asid_alloc\<close> and \<^verbatim>\<open>asid_free\<close> in the form of the allocator contract.\<close>

definition asid_alloc_opt :: "kstate \<Rightarrow> (nat \<times> kstate) option" where
  "asid_alloc_opt s = (case asid_alloc s of Done (Inr a) s' \<Rightarrow> Some (unat a, s') | _ \<Rightarrow> None)"

definition asid_release :: "nat \<Rightarrow> kstate \<Rightarrow> kstate" where
  "asid_release i s = s\<lparr>asid_bitmap := (asid_bitmap s)(i div 32 :=
     asid_bitmap s (i div 32) AND NOT (push_bit (i mod 32) 1))\<rparr>"

lemma asid_free_run: "asid_free i s = Done () (asid_release (unat i) s)"
  by (simp add: asid_free_def asid_release_def run_rules asid_word_def asid_bit_def)

lemma asid_alloc_cases:
  obtains (full) "{..<NASID} \<subseteq> asid_used s" "asid_alloc s = Done (Inl E_NO_FREE_ENV) s"
  | (found) i where "i < NASID" "i \<notin> asid_used s" "\<forall>j < i. j \<in> asid_used s"
      "asid_alloc s = Done (Inr (of_nat i)) (set_asid i s)"
proof (cases "filter (\<lambda>i. \<not> bitmap_bit (asid_bitmap s) i) [0..<NASID]")
  case Nil
  then have "{..<NASID} \<subseteq> asid_used s" by (auto simp: filter_empty_conv asid_used_def)
  with full Nil show ?thesis by (simp add: asid_alloc_def asid_scan_run)
next
  case (Cons i rest)
  then obtain us vs where up: "[0..<NASID] = us @ i # vs" and us: "\<forall>u \<in> set us. bitmap_bit (asid_bitmap s) u"
    and i: "\<not> bitmap_bit (asid_bitmap s) i" by (auto simp: filter_eq_Cons_iff)
  have lus: "i = length us" "i < NASID"
  proof -
    have "length us < NASID" using arg_cong [OF up, of length] by simp
    then have "[0..<NASID] ! length us = length us" by simp
    with up \<open>length us < NASID\<close> show "i = length us" "i < NASID" by simp_all
  qed
  have "j \<in> set us" if "j < i" for j
  proof -
    have "us ! j = [0..<NASID] ! j" using that lus up by (simp add: nth_append)
    also have "\<dots> = j" using that lus by simp
    finally show ?thesis using that lus nth_mem [of j us] by simp
  qed
  with us lus have "\<forall>j < i. j \<in> asid_used s" by (auto simp: asid_used_def)
  with found [of i] i lus Cons show ?thesis
    by (simp add: asid_alloc_def asid_scan_run asid_used_def)
qed

lemma unat_NASID: "i < NASID \<Longrightarrow> unat (of_nat i :: u32) = i"
  by (simp add: NASID_def unat_of_nat take_bit_eq_mod)

interpretation asids: slot_allocator "\<lambda>_. True" asid_used "\<lambda>_. {..<NASID}" asid_alloc_opt asid_release
proof (unfold_locales, goal_cases)
  case (1 s)
  then show ?case by (cases s rule: asid_alloc_cases) (auto simp: asid_alloc_opt_def)
next
  case (2 s i s')
  then show ?case
    by (cases s rule: asid_alloc_cases) (auto simp: asid_alloc_opt_def unat_NASID)
next
  case (3 s i s')
  then show ?case
    by (cases s rule: asid_alloc_cases) (auto simp: asid_alloc_opt_def unat_NASID asid_used_set)
next
  case (4 i s)
  then show ?case by (auto simp: asid_used_def asid_release_def bitmap_simps)
qed

section \<open>Environment ids\<close>

lemma ENVX_alt: "ENVX w = unat (take_bit 10 w)"
proof -
  have "(of_nat NENV - 1 :: u32) = mask 10" by (simp add: NENV_def LOG2NENV_def mask_eq_exp_minus_1)
  then show ?thesis by (simp add: ENVX_def take_bit_eq_mask)
qed

lemma ENVX_less: "ENVX w < NENV"
proof -
  have "ENVX w = unat w mod 1024"
    by (simp add: ENVX_alt unsigned_take_bit_eq take_bit_eq_mod unat_mod)
  then show ?thesis by (simp add: NENV_def LOG2NENV_def)
qed

definition envid_of :: "u32 \<Rightarrow> nat \<Rightarrow> u32" where
  "envid_of i e = push_bit 11 i OR of_nat e"

lemma mkenvid_run:
  "mkenvid e s = Done (envid_of (mkenvid_i s + 1) e) (s\<lparr>mkenvid_i := mkenvid_i s + 1\<rparr>)"
  by (simp add: mkenvid_def envid_of_def run_rules LOG2NENV_def)

lemma bit_index: "e < NENV \<Longrightarrow> bit e n \<Longrightarrow> n < 10"
proof -
  assume e: "e < NENV" and b: "bit e n"
  have "take_bit 10 e = e" using e by (simp add: NENV_def LOG2NENV_def take_bit_eq_mod)
  with b show "n < 10" by (metis bit_take_bit_iff)
qed

lemma ENVX_envid_of [simp]: "e < NENV \<Longrightarrow> ENVX (envid_of i e) = e"
proof -
  assume e: "e < NENV"
  have "take_bit 10 (envid_of i e) = of_nat e"
    by (rule bit_word_eqI) (auto simp: envid_of_def bit_simps dest: bit_index [OF e])
  moreover have "unat (of_nat e :: u32) = e"
    using e by (simp add: NENV_def LOG2NENV_def unat_of_nat take_bit_eq_mod)
  ultimately show "ENVX (envid_of i e) = e" by (simp add: ENVX_alt)
qed

text \<open>Ids do not repeat until the counter has wrapped through \<open>2 ^ 21\<close> allocations.\<close>

lemma envid_of_inj:
  assumes e: "e < NENV" "e' < NENV" and eq: "envid_of i e = envid_of i' e'"
  shows "e = e'" "take_bit 21 i = take_bit 21 i'"
proof -
  show "e = e'" using e eq by (metis ENVX_envid_of)
  have dr: "drop_bit 11 (envid_of i e) = take_bit 21 i" if "e < NENV" for i e
    by (rule bit_word_eqI)
      (auto simp: envid_of_def bit_simps dest: bit_index [OF that] bit_imp_le_length)
  from dr [OF e(1), of i] dr [OF e(2), of i'] eq show "take_bit 21 i = take_bit 21 i'" by simp
qed

lemma envid_of_nonzero: "e < NENV \<Longrightarrow> take_bit 21 i \<noteq> 0 \<Longrightarrow> envid_of i e \<noteq> 0"
proof
  assume e: "e < NENV" and i: "take_bit 21 i \<noteq> 0" and z: "envid_of i e = 0"
  have "envid_of 0 0 = (0 :: u32)" by (simp add: envid_of_def)
  with envid_of_inj(2) [of e 0 i 0] e z i show False by (simp add: NENV_def)
qed

text \<open>
  The ids in the table are canonical: an environment in use sits at the index its id encodes and
  its id is not 0, the name of the caller.
\<close>

definition ids_ok :: "kstate \<Rightarrow> bool" where
  "ids_ok s \<longleftrightarrow> (\<forall>e < NENV. env_status (envs s e) \<noteq> ENV_FREE \<longrightarrow>
     env_id (envs s e) \<noteq> 0 \<and> ENVX (env_id (envs s e)) = e)"

definition names :: "kstate \<Rightarrow> u32 \<Rightarrow> nat \<Rightarrow> bool" where
  "names s envid e \<longleftrightarrow> e < NENV \<and> env_status (envs s e) \<noteq> ENV_FREE \<and> env_id (envs s e) = envid"

definition may_control :: "kstate \<Rightarrow> nat \<Rightarrow> nat \<Rightarrow> bool" where
  "may_control s c e \<longleftrightarrow> env_id (envs s e) = env_id (envs s c) \<or> env_parent_id (envs s e) = env_id (envs s c)"

lemma names_iff: "ids_ok s \<Longrightarrow> envid \<noteq> 0 \<Longrightarrow> names s envid e \<longleftrightarrow>
    e = ENVX envid \<and> env_status (envs s e) \<noteq> ENV_FREE \<and> env_id (envs s e) = envid"
  using ENVX_less by (auto simp: names_def ids_ok_def)

lemma envid2env_run:
  assumes "ids_ok s" "curenv s = Some c" "envid \<noteq> 0"
  shows "envid2env envid chk s = Done (if names s envid (ENVX envid) \<and> (chk \<longrightarrow> may_control s c (ENVX envid))
      then Inr (Some (ENVX envid)) else Inl E_BAD_ENV) s"
  using assms by (auto simp: envid2env_def run_rules Let_def names_iff may_control_def)

lemma envid2env_zero: "envid2env 0 chk s = Done (Inr (curenv s)) s"
  by (simp add: envid2env_def run_rules)

text \<open>Whatever \<^verbatim>\<open>envid2env\<close> does, it does not change the state.\<close>

lemma envid2env_pure:
  "wpx True (envid2env envid chk) (\<lambda>r t. t = s \<and> (\<forall>e. r = Inr (Some e) \<longrightarrow>
     (envid = 0 \<and> curenv s = Some e) \<or> (envid \<noteq> 0 \<and> names s envid e \<and> e = ENVX envid \<and>
       (chk \<longrightarrow> (\<exists>c. curenv s = Some c \<and> may_control s c e))))) (\<lambda>_. False) s"
  using ENVX_less [of envid]
  by (auto simp: envid2env_def Let_def wpx_rules names_def may_control_def split: option.splits)

end
