(* ===== verification/Sched_Spec.thy ===== *)
theory Sched_Spec
  imports Sched Env_Inv
begin

text \<open>
  The scheduler against its specification: \<open>env_sched_list\<close> holds exactly the runnable
  environments, the current one is at its head, and \<^verbatim>\<open>schedule\<close> is a round-robin step on that
  queue with the remaining time slice.
\<close>

definition runnable :: "kstate \<Rightarrow> nat set" where
  "runnable s = {e. e < NENV \<and> env_status (envs s e) = ENV_RUNNABLE}"

text \<open>The invariant stated in \<^verbatim>\<open>kern/env.c\<close>: an environment is in the list iff it is runnable.\<close>

definition sched_ok :: "nat list \<Rightarrow> kstate \<Rightarrow> bool" where
  "sched_ok xs s \<longleftrightarrow> is_tailq (env_sched_list s) xs \<and> set xs = runnable s"

lemma sched_ok_distinct: "sched_ok xs s \<Longrightarrow> distinct xs"
  using tq.repr_distinct by (auto simp: sched_ok_def)

section \<open>Entering an environment\<close>

definition save_cur :: "kstate \<Rightarrow> kstate" where
  "save_cur s = (case curenv s of None \<Rightarrow> s | Some c \<Rightarrow> upd_env c (env_tf_update (\<lambda>_. kstack_tf s)) s)"

definition enter :: "nat \<Rightarrow> kstate \<Rightarrow> kstate" where
  "enter e s = (let t = upd_env e (env_runs_update (\<lambda>r. r + 1)) ((save_cur s)\<lparr>curenv := Some e\<rparr>)
     in t\<lparr>cur_pgdir := env_pgdir (envs t e)\<rparr>)"

lemma env_run_run: "env_status (envs s e) = ENV_RUNNABLE \<Longrightarrow> env_run e s = Away (enter e s)"
  by (simp add: env_run_def run_rules enter_def save_cur_def Let_def split: option.split)

lemma save_cur_simps [simp]:
  "env_sched_list (save_cur s) = env_sched_list s" "sched_count (save_cur s) = sched_count s"
  "env_status (envs (save_cur s) e) = env_status (envs s e)" "env_pri (envs (save_cur s) e) = env_pri (envs s e)"
  "env_id (envs (save_cur s) e) = env_id (envs s e)" "env_pgdir (envs (save_cur s) e) = env_pgdir (envs s e)"
  "env_asid (envs (save_cur s) e) = env_asid (envs s e)"
  "env_runs (envs (save_cur s) e) = env_runs (envs s e)"
  by (simp_all add: save_cur_def upd_env_def split: option.split)

lemma enter_simps [simp]:
  "curenv (enter e s) = Some e" "env_sched_list (enter e s) = env_sched_list s"
  "sched_count (enter e s) = sched_count s" "cur_pgdir (enter e s) = env_pgdir (envs s e)"
  "env_status (envs (enter e s) e') = env_status (envs s e')" "env_pri (envs (enter e s) e') = env_pri (envs s e')"
  "env_id (envs (enter e s) e') = env_id (envs s e')" "env_pgdir (envs (enter e s) e') = env_pgdir (envs s e')"
  "env_asid (envs (enter e s) e') = env_asid (envs s e')"
  "env_runs (envs (enter e s) e') = (if e' = e then env_runs (envs s e) + 1 else env_runs (envs s e'))"
  by (simp_all add: enter_def Let_def upd_env_def)

lemma runnable_cong: "(\<And>e. env_status (envs s e) = env_status (envs t e)) \<Longrightarrow> runnable s = runnable t"
  by (simp add: runnable_def)

lemma sched_ok_enter [simp]: "sched_ok xs (enter e s) = sched_ok xs s"
  using runnable_cong [of "enter e s" s] by (simp add: sched_ok_def)

lemma sched_ok_count [simp]: "sched_ok xs (s\<lparr>sched_count := c\<rparr>) = sched_ok xs s"
  by (simp add: sched_ok_def runnable_def)

lemma sched_ok_tf [simp]: "sched_ok xs (s\<lparr>kstack_tf := c\<rparr>) = sched_ok xs s"
  by (simp add: sched_ok_def runnable_def)

lemma sched_ok_curenv [simp]: "sched_ok xs (s\<lparr>curenv := c\<rparr>) = sched_ok xs s"
  by (simp add: sched_ok_def runnable_def)

section \<open>List operations\<close>

lemma sched_remove_run:
  assumes "is_tailq (env_sched_list s) xs" "e \<in> set xs"
  obtains q where "sched_remove e s = Done () (s\<lparr>env_sched_list := q\<rparr>)" "is_tailq q (remove1 e xs)"
    "TAILQ_REMOVE e (env_sched_list s) = Some q"
  using tq.unlink_repr [OF assms] by (auto simp: sched_remove_def run_rules)

lemma sched_insert_run:
  assumes "is_tailq (env_sched_list s) xs" "e \<notin> set xs"
  obtains q where "sched_insert_tail e s = Done () (s\<lparr>env_sched_list := q\<rparr>)" "is_tailq q (xs @ [e])"
  using tq.enq_repr [OF assms] by (auto simp: sched_insert_tail_def run_rules)

lemma sched_pick_run:
  assumes "is_tailq (env_sched_list s) (e # xs)"
  shows "sched_pick s = Done e (s\<lparr>sched_count := env_pri (envs s e)\<rparr>)"
  using tq.pop(1) [OF assms] by (simp add: sched_pick_def run_rules)

section \<open>The step of the scheduler\<close>

text \<open>No current environment: the head of the list runs.\<close>

lemma schedule_idle:
  assumes ok: "sched_ok (e # xs) s" and c: "curenv s = None"
  shows "schedule y s = Away (enter e (s\<lparr>sched_count := env_pri (envs s e)\<rparr>))"
proof -
  let ?s = "s\<lparr>sched_count := sched_count s - 1\<rparr>"
  from ok have q: "is_tailq (env_sched_list s) (e # xs)" and r: "env_status (envs s e) = ENV_RUNNABLE"
    by (auto simp: sched_ok_def runnable_def)
  have p: "sched_pick ?s = Done e (?s\<lparr>sched_count := env_pri (envs s e)\<rparr>)"
    using sched_pick_run [of ?s e xs] q by simp
  have "\<not> TAILQ_EMPTY (env_sched_list s)" using TAILQ_EMPTY_spec [OF q] by simp
  with p r c show ?thesis by (simp add: schedule_def run_rules env_run_run)
qed

text \<open>The current environment keeps the CPU while its slice lasts.\<close>

lemma schedule_keep:
  assumes "curenv s = Some e" "env_status (envs s e) = ENV_RUNNABLE" "sched_count s \<noteq> 1"
  shows "schedule False s = Away (enter e (s\<lparr>sched_count := sched_count s - 1\<rparr>))"
  using assms by (simp add: schedule_def run_rules env_run_run)

text \<open>Otherwise it goes to the back of the list and the new head runs with a full slice.\<close>

lemma schedule_rotate:
  assumes ok: "sched_ok xs s" and c: "curenv s = Some e" "e \<in> set xs" and y: "y \<or> sched_count s = 1"
  shows "\<exists>q. is_tailq q (remove1 e xs @ [e]) \<and>
    schedule y s = Away (let n = hd (remove1 e xs @ [e]) in
      enter n (s\<lparr>env_sched_list := q, sched_count := env_pri (envs s n)\<rparr>))"
proof -
  let ?s = "s\<lparr>sched_count := sched_count s - 1\<rparr>" and ?n = "hd (remove1 e xs @ [e])"
  from ok have q: "is_tailq (env_sched_list ?s) xs" by (simp add: sched_ok_def)
  from sched_remove_run [OF q c(2)] obtain q1 where
    r1: "sched_remove e ?s = Done () (?s\<lparr>env_sched_list := q1\<rparr>)" "is_tailq q1 (remove1 e xs)" by blast
  have "e \<notin> set (remove1 e xs)" using sched_ok_distinct [OF ok] by simp
  with r1(2) obtain q2 where
    r2: "sched_insert_tail e (?s\<lparr>env_sched_list := q1\<rparr>) = Done () (?s\<lparr>env_sched_list := q2\<rparr>)"
      "is_tailq q2 (remove1 e xs @ [e])"
    using sched_insert_run [of "?s\<lparr>env_sched_list := q1\<rparr>" "remove1 e xs" e] by auto
  obtain zs where zs: "remove1 e xs @ [e] = ?n # zs"
    by (cases "remove1 e xs @ [e]") auto
  have p: "sched_pick (?s\<lparr>env_sched_list := q2\<rparr>) =
      Done ?n (?s\<lparr>env_sched_list := q2, sched_count := env_pri (envs s ?n)\<rparr>)"
    using sched_pick_run [of "?s\<lparr>env_sched_list := q2\<rparr>" ?n zs] r2(2) zs by simp
  have "?n \<in> set xs"
    using zs set_remove1_subset [of e xs] c(2) by (cases "remove1 e xs") auto
  with ok have run: "env_status (envs s ?n) = ENV_RUNNABLE" "env_status (envs s e) = ENV_RUNNABLE"
    using c(2) by (auto simp: sched_ok_def runnable_def)
  have "\<not> TAILQ_EMPTY (env_sched_list s)" using TAILQ_EMPTY_spec [of _ xs] q c(2) by auto
  with y c(1) run r1(1) r2(1) p have
    "schedule y s = Away (enter ?n (s\<lparr>env_sched_list := q2, sched_count := env_pri (envs s ?n)\<rparr>))"
    by (auto simp: schedule_def run_rules env_run_run)
  with r2(2) show ?thesis by (auto simp: Let_def)
qed

section \<open>Round robin\<close>

text \<open>
  The abstract scheduler: a queue whose head is running, and the ticks left in its slice.
\<close>

fun rr_step :: "(nat \<Rightarrow> u32) \<Rightarrow> bool \<Rightarrow> nat list \<times> u32 \<Rightarrow> nat list \<times> u32" where
  "rr_step pri y (xs, n) =
     (if y \<or> n = 1 then (rotate1 xs, pri (hd (rotate1 xs))) else (xs, n - 1))"

definition rr_abs :: "kstate \<Rightarrow> nat list \<times> u32 \<Rightarrow> bool" where
  "rr_abs s = (\<lambda>(xs, n). sched_ok xs s \<and> xs \<noteq> [] \<and> curenv s = Some (hd xs) \<and> sched_count s = n)"

definition pri_of :: "kstate \<Rightarrow> nat \<Rightarrow> u32" where
  "pri_of s e = env_pri (envs s e)"

lemma pri_of_enter [simp]: "pri_of (enter e s) = pri_of s"
  by (simp add: pri_of_def fun_eq_iff)

lemma pri_of_simps [simp]:
  "pri_of (s\<lparr>kstack_tf := t\<rparr>) = pri_of s" "pri_of (s\<lparr>sched_count := n\<rparr>) = pri_of s"
  "pri_of (s\<lparr>env_sched_list := q\<rparr>) = pri_of s"
  by (simp_all add: pri_of_def fun_eq_iff)

lemma rr_abs_tf [simp]: "rr_abs (s\<lparr>kstack_tf := t\<rparr>) = rr_abs s"
  by (simp add: rr_abs_def fun_eq_iff)

lemma schedule_refines_step:
  assumes "rr_abs s a"
  shows "\<exists>s'. (schedule y s :: ('b, kstate) outcome) = Away s' \<and> rr_abs s' (rr_step (pri_of s) y a) \<and> pri_of s' = pri_of s"
proof -
  obtain xs n where a: "a = (xs, n)" by force
  with assms obtain e ys where xs: "xs = e # ys" and ok: "sched_ok (e # ys) s" and c: "curenv s = Some e"
    and n: "sched_count s = n" by (cases xs) (auto simp: rr_abs_def)
  show ?thesis
  proof (cases "y \<or> n = 1")
    case True
    let ?h = "hd (ys @ [e])"
    from schedule_rotate [OF ok c, of y] True n obtain q where
      q: "is_tailq q (ys @ [e])" and run: "(schedule y s :: ('b, kstate) outcome) =
        Away (enter ?h (s\<lparr>env_sched_list := q, sched_count := env_pri (envs s ?h)\<rparr>))"
      by (auto simp: Let_def)
    have "sched_ok (ys @ [e]) (s\<lparr>env_sched_list := q\<rparr>)"
      using ok q by (auto simp: sched_ok_def runnable_def)
    moreover have "rr_step (pri_of s) y a = (ys @ [e], pri_of s ?h)" using True a xs by auto
    ultimately have "rr_abs (enter ?h (s\<lparr>env_sched_list := q, sched_count := env_pri (envs s ?h)\<rparr>))
        (rr_step (pri_of s) y a)"
      by (simp add: rr_abs_def pri_of_def)
    with run show ?thesis by simp
  next
    case False
    from ok have r: "env_status (envs s e) = ENV_RUNNABLE" by (auto simp: sched_ok_def runnable_def)
    have "(schedule y s :: ('b, kstate) outcome) = Away (enter e (s\<lparr>sched_count := n - 1\<rparr>))"
      using schedule_keep [OF c r] False n by simp
    with False n ok c a xs show ?thesis by (simp add: rr_abs_def)
  qed
qed

text \<open>
  A run: at each entry the user program has left some trap frame, and has asked to yield or was
  interrupted by the timer.
\<close>

fun run_sched :: "(bool \<times> trapframe) list \<Rightarrow> kstate \<Rightarrow> kstate option" where
  "run_sched [] s = Some s"
| "run_sched ((y, tf) # es) s =
     (case (schedule y (s\<lparr>kstack_tf := tf\<rparr>) :: (unit, kstate) outcome) of
        Away s' \<Rightarrow> run_sched es s' | _ \<Rightarrow> None)"

fun rr_run :: "(nat \<Rightarrow> u32) \<Rightarrow> bool list \<Rightarrow> nat list \<times> u32 \<Rightarrow> nat list \<times> u32" where
  "rr_run pri [] a = a"
| "rr_run pri (y # ys) a = rr_run pri ys (rr_step pri y a)"

lemma run_sched_refines:
  "rr_abs s a \<Longrightarrow> \<exists>s'. run_sched es s = Some s' \<and> rr_abs s' (rr_run (pri_of s) (map fst es) a) \<and>
     pri_of s' = pri_of s"
proof (induction es arbitrary: s a)
  case Nil
  then show ?case by simp
next
  case (Cons x es)
  obtain y tf where x: "x = (y, tf)" by force
  let ?s = "s\<lparr>kstack_tf := tf\<rparr>"
  from Cons.prems have "rr_abs ?s a" by simp
  from schedule_refines_step [OF this, of y] obtain s' where
    s': "(schedule y ?s :: (unit, kstate) outcome) = Away s'" "rr_abs s' (rr_step (pri_of s) y a)" "pri_of s' = pri_of s" by auto
  from Cons.IH [OF s'(2)] s' x show ?case by auto
qed

lemma rr_run_append: "rr_run pri (xs @ ys) a = rr_run pri ys (rr_run pri xs a)"
  by (induction xs arbitrary: a) simp_all

text \<open>Ticks alone: the head keeps the CPU for its slice.\<close>

lemma rr_slice:
  "0 < n \<Longrightarrow> k < unat n \<Longrightarrow> rr_run pri (replicate k False) (xs, n) = (xs, n - of_nat k)"
proof (induction k arbitrary: n)
  case 0
  then show ?case by simp
next
  case (Suc k)
  have n1: "n \<noteq> 1" using Suc.prems by auto
  have u: "unat (n - 1) = unat n - 1"
    using Suc.prems(1) by (metis unat_minus_one word_neq_0_conv)
  have "0 < n - 1" using Suc.prems u by (metis One_nat_def Suc_less_eq Suc_pred gr_zeroI not_less0 unat_0 word_greater_zero_iff zero_less_diff not_less_eq less_trans_Suc)
  with Suc.IH [of "n - 1"] Suc.prems u n1 show ?case by simp
qed

end
