(* ===== verification/Sched_Thms.thy ===== *)
theory Sched_Thms
  imports Sched_Spec
begin

text \<open>
  The properties of the scheduler, with a machine with three runnable environments on which they
  are evaluated.
\<close>

section \<open>Three environments\<close>

definition three_envs :: "nat \<Rightarrow> env" where
  "three_envs e = (if e < 3 then zero_env\<lparr>env_id := envid_of (of_nat e + 1) e,
     env_status := ENV_RUNNABLE, env_pri := of_nat e + 1\<rparr> else zero_env)"

definition three_queue :: "nat tqueue" where
  "three_queue = TAILQ_INSERT_HEAD 0 (TAILQ_INSERT_HEAD 1 (TAILQ_INSERT_HEAD 2 (TAILQ_INIT empty_tailq)))"

definition three_machine :: kstate where
  "three_machine = (bss 0x80400000 0x80300000)\<lparr>envs := three_envs, env_sched_list := three_queue,
     curenv := Some 0, sched_count := 1\<rparr>"

lemma three_queue_repr: "is_tailq three_queue [0, 1, 2]"
  unfolding three_queue_def
  by (intro tq.push_repr tq.repr_init) simp_all

lemma three_sched_ok: "sched_ok [0, 1, 2] three_machine"
  using three_queue_repr
  by (auto simp: sched_ok_def runnable_def three_machine_def three_envs_def bss_def zero_env_def NENV_def
      LOG2NENV_def)

lemma three_rr: "rr_abs three_machine ([0, 1, 2], 1)"
  using three_sched_ok by (simp add: rr_abs_def three_machine_def)

lemma three_pri: "pri_of three_machine e = (if e < 3 then of_nat e + 1 else 0)"
  by (simp add: pri_of_def three_machine_def three_envs_def zero_env_def)

section \<open>Refinement\<close>

text \<open>
  C5. \<^verbatim>\<open>schedule\<close> implements round robin: from any state whose list holds exactly the
  runnable environments with the current one at its head, every sequence of timer interrupts and
  yields, with any register contents at each entry, runs without a panic and follows the abstract
  queue, and the current environment is the head of the queue throughout.
\<close>

theorem schedule_round_robin:
  assumes "rr_abs s (xs, n)"
  shows "\<exists>s'. run_sched es s = Some s' \<and> rr_abs s' (rr_run (pri_of s) (map fst es) (xs, n))"
  using run_sched_refines [OF assms, of es] by blast

theorem schedule_round_robin_witness:
  "\<exists>s'. run_sched [(False, zero_tf), (False, zero_tf), (True, zero_tf), (False, zero_tf)] three_machine = Some s' \<and>
     rr_abs s' ([2, 0, 1], 2)"
  using schedule_round_robin [OF three_rr, of "[(False, zero_tf), (False, zero_tf), (True, zero_tf), (False, zero_tf)]"]
  by (simp add: three_pri)

section \<open>No starvation\<close>

text \<open>
  The ticks a slice lasts: a slice of 0 lasts \<open>2 ^ 32\<close>, since the counter is decremented before it
  is compared with 0.
\<close>

definition slice_len :: "u32 \<Rightarrow> nat" where
  "slice_len p = (if p = 0 then 2 ^ 32 else unat p)"

lemma slice_len_pos: "0 < slice_len p"
  by (simp add: slice_len_def unat_gt_0)

lemma slice_len_dec:
  assumes "p \<noteq> 1"
  shows "slice_len p = Suc (slice_len (p - 1))"
proof (cases "p = 0")
  case True
  then show ?thesis by (simp add: slice_len_def unsigned_minus_1_eq_mask mask_eq_exp_minus_1)
next
  case False
  moreover have "0 < unat p" using False by (simp add: unat_gt_0)
  ultimately show ?thesis using assms by (simp add: slice_len_def unat_minus_one)
qed

text \<open>Whatever mixture of ticks and yields comes in, the head leaves the CPU within its slice.\<close>

lemma rr_turn_within:
  "slice_len n \<le> length ys \<Longrightarrow>
     \<exists>m \<le> slice_len n. rr_run pri (take m ys) (xs, n) = (rotate1 xs, pri (hd (rotate1 xs)))"
proof (induction ys arbitrary: n)
  case Nil
  then show ?case using slice_len_pos [of n] by simp
next
  case (Cons y ys)
  show ?case
  proof (cases "y \<or> n = 1")
    case True
    then show ?thesis using slice_len_pos [of n] by (intro exI [of _ 1]) auto
  next
    case False
    with slice_len_dec [of n] Cons.prems Cons.IH [of "n - 1"] obtain m where
      "m \<le> slice_len (n - 1)" "rr_run pri (take m ys) (xs, n - 1) = (rotate1 xs, pri (hd (rotate1 xs)))" by auto
    with False slice_len_dec [of n] show ?thesis by (intro exI [of _ "Suc m"]) auto
  qed
qed

definition wait_bound :: "(nat \<Rightarrow> u32) \<Rightarrow> nat list \<Rightarrow> u32 \<Rightarrow> nat \<Rightarrow> nat" where
  "wait_bound pri xs n k =
     (if k = 0 then 0 else slice_len n + (\<Sum>i = 1..<k. slice_len (pri (xs ! i))))"

lemma wait_bound_Suc:
  "wait_bound pri xs n (Suc k) = wait_bound pri xs n k + slice_len (if k = 0 then n else pri (xs ! k))"
  by (simp add: wait_bound_def)

lemma rr_waits:
  assumes "k < length xs" "wait_bound pri xs n k \<le> length ys"
  shows "\<exists>m \<le> wait_bound pri xs n k.
    rr_run pri (take m ys) (xs, n) = (rotate k xs, if k = 0 then n else pri (xs ! k))"
  using assms
proof (induction k)
  case 0
  then show ?case by (intro exI [of _ 0]) simp
next
  case (Suc k)
  let ?n = "if k = 0 then n else pri (xs ! k)"
  from Suc obtain m where m: "m \<le> wait_bound pri xs n k"
    "rr_run pri (take m ys) (xs, n) = (rotate k xs, ?n)" by (auto simp: wait_bound_Suc)
  have "slice_len ?n \<le> length (drop m ys)" using m(1) Suc.prems(2) by (simp add: wait_bound_Suc)
  from rr_turn_within [OF this, of pri "rotate k xs"] obtain j where
    j: "j \<le> slice_len ?n" "rr_run pri (take j (drop m ys)) (rotate k xs, ?n) =
      (rotate1 (rotate k xs), pri (hd (rotate1 (rotate k xs))))" by blast
  have "hd (rotate1 (rotate k xs)) = xs ! Suc k"
    using Suc.prems(1) hd_rotate_conv_nth [of xs "Suc k"] by (cases xs) auto
  with m j show ?case
    by (intro exI [of _ "m + j"]) (simp add: take_add rr_run_append wait_bound_Suc)
qed

text \<open>
  C6. No runnable environment starves: from any state in which the list holds exactly the runnable
  environments with the current one at its head, whatever the priorities (0 counts as \<open>2 ^ 32\<close>
  ticks), and for every sequence of timer ticks and yields in which no environment blocks or is
  created, the environment at position \<open>k\<close> of the list has the CPU at some point within what is left
  of the current slice plus the slices of the environments before it.
\<close>

theorem schedule_no_starvation:
  assumes "rr_abs s (xs, n)" "k < length xs" "wait_bound (pri_of s) xs n k \<le> length es"
  shows "\<exists>m \<le> wait_bound (pri_of s) xs n k.
    \<exists>s'. run_sched (take m es) s = Some s' \<and> curenv s' = Some (xs ! k)"
proof -
  from rr_waits [OF assms(2), of "pri_of s" n "map fst es"] assms(3) obtain m where
    m: "m \<le> wait_bound (pri_of s) xs n k"
      "rr_run (pri_of s) (map fst (take m es)) (xs, n) =
        (rotate k xs, if k = 0 then n else pri_of s (xs ! k))"
    by (auto simp: take_map)
  have "hd (rotate k xs) = xs ! k" using assms(2) hd_rotate_conv_nth [of xs k] by (cases xs) auto
  with run_sched_refines [OF assms(1), of "take m es"] m show ?thesis
    by (intro exI [of _ m]) (auto simp: rr_abs_def)
qed

theorem schedule_no_starvation_witness:
  "\<exists>m \<le> 3. \<exists>s'. run_sched (take m [(False, zero_tf), (True, zero_tf), (False, zero_tf)]) three_machine = Some s' \<and>
     curenv s' = Some 2"
  using schedule_no_starvation [OF three_rr, of 2 "[(False, zero_tf), (True, zero_tf), (False, zero_tf)]"]
  by (simp add: three_pri wait_bound_def slice_len_def numeral_3_eq_3)

lemma map_fst_replicate: "\<forall>x \<in> set es. \<not> fst x \<Longrightarrow> map fst es = replicate (length es) False"
  by (induction es) auto

section \<open>Priority zero\<close>

text \<open>
  An environment whose slice is 0, the priority 0 given at creation, is not preempted by the
  next \<open>2 ^ 32 - 1\<close> ticks: the counter is decremented before it is compared with 0, so it wraps.
\<close>

theorem priority_zero_never_preempted:
  assumes "rr_abs s (xs, 0)" "k < 2 ^ 32" "length es = k" "\<forall>x \<in> set es. \<not> fst x"
  shows "\<exists>s'. run_sched es s = Some s' \<and> curenv s' = curenv s"
proof -
  have "rr_run pri (replicate j False) (xs, 0) = (xs, - of_nat j)" if "j < 2 ^ 32" for pri j
  proof (cases j)
    case (Suc i)
    have "rr_run pri (replicate i False) (xs, - 1) = (xs, - 1 - of_nat i)"
      by (rule rr_slice) (use that Suc in \<open>simp_all add: unsigned_minus_1_eq_mask mask_eq_exp_minus_1 word_greater_zero_iff\<close>)
    with Suc show ?thesis by simp
  qed simp
  with run_sched_refines [OF assms(1), of es] map_fst_replicate [OF assms(4)] assms(1-3)
  show ?thesis by (auto simp: rr_abs_def)
qed

theorem priority_zero_never_preempted_witness:
  "\<exists>s'. run_sched [(False, zero_tf), (False, zero_tf)] (three_machine\<lparr>sched_count := 0\<rparr>) = Some s' \<and>
     curenv s' = Some 0"
proof -
  have "rr_abs (three_machine\<lparr>sched_count := 0\<rparr>) ([0, 1, 2], 0)" "curenv three_machine = Some 0"
    using three_rr by (simp_all add: rr_abs_def three_machine_def)
  with priority_zero_never_preempted [OF this(1), of 2 "[(False, zero_tf), (False, zero_tf)]"]
  show ?thesis by simp
qed

end
