(* ===== verification/Env_Mem.thy ===== *)
theory Env_Mem
  imports Env_Inv
begin

text \<open>
  Creating and destroying address spaces keeps the invariant of physical memory: a fresh page
  directory joins the managed ones, an emptied page table is given back, and an emptied directory
  leaves them.
\<close>

section \<open>A new directory\<close>

lemma tabs_new_dir:
  assumes "idx p = {}" "\<And>i. i \<in> I \<Longrightarrow> \<not> valid (fr i)"
  shows "tabs (idx(p := I)) (m(p := fr)) = tabs idx m"
  using assms by (auto simp: tabs_def split: if_splits)

lemma mm_inv_new_dir:
  assumes inv: "mm_inv idx pin fl s" and p: "p < npage s" "p \<notin> set fl" "pp_ref s p = 0"
    and I: "I \<subseteq> {..<1024}" "\<And>i. i \<in> I \<Longrightarrow> \<not> valid (fr i)"
    and s': "mem s' = (mem s)(p := fr)" "npage s' = npage s" "page_free_list s' = page_free_list s"
      "pp_ref s' = (pp_ref s)(p := 1)"
  shows "mm_inv (idx(p := I)) (pin(p := 1)) fl s'"
proof -
  let ?idx = "idx(p := I)" and ?m = "mem s" and ?m' = "(mem s)(p := fr)"
  note un = mm_inv_unreferenced [OF inv p(1,3)]
  from inv have wf: "pt_wf idx ?m (npage s)" by (simp add: mm_inv_def)
  have tabs': "tabs ?idx ?m' = tabs idx ?m" by (rule tabs_new_dir) (use un(1) I(2) in auto)
  have dir: "d \<noteq> p" if "(d, i) \<in> tabs idx ?m" for d i using that un(1) by (auto simp: tabs_def)
  have tabp: "PPN (?m d i) \<noteq> p" if "(d, i) \<in> tabs idx ?m" for d i
    using un(3) [OF that] by (simp add: tab_of.simps)
  have tab': "tab_of ?m' x = tab_of ?m x" if "x \<in> tabs idx ?m" for x
    using that dir by (cases x) (auto simp: tab_of.simps)
  have leafs': "leafs ?idx ?m' = leafs idx ?m"
    unfolding leafs_def tabs' using dir tabp by auto
  have leaf': "leaf_of ?m' l = leaf_of ?m l" if "l \<in> leafs idx ?m" for l
    using that dir tabp by (cases l) (auto simp: leafs_def leaf_of.simps)
  have cnt: "ntab ?idx ?m' q = ntab idx ?m q" "nleaf ?idx ?m' q = nleaf idx ?m q" for q
    unfolding ntab_def nleaf_def tabs' leafs' using tab' leaf' by (metis (no_types, lifting))+
  have wf': "pt_wf ?idx ?m' (npage s)"
  proof -
    have "inj_on (tab_of ?m') (tabs ?idx ?m')"
      using wf tab' unfolding tabs' by (simp add: pt_wf_def inj_on_def)
    moreover have "\<forall>x \<in> tabs ?idx ?m'. tab_of ?m' x < npage s \<and> ?idx (tab_of ?m' x) = {}"
      using wf tab' un(3) unfolding tabs' by (simp add: pt_wf_def)
    moreover have "\<forall>l \<in> leafs ?idx ?m'. leaf_of ?m' l < npage s"
      using wf leaf' unfolding leafs' by (simp add: pt_wf_def)
    moreover have "finite {d. ?idx d \<noteq> {}}"
      by (rule finite_subset [of _ "insert p {d. idx d \<noteq> {}}"]) (use wf in \<open>auto simp: pt_wf_def\<close>)
    moreover have "\<forall>d. ?idx d \<subseteq> {..<1024}" "\<forall>d. ?idx d \<noteq> {} \<longrightarrow> d < npage s"
      using wf I(1) p(1) by (auto simp: pt_wf_def)
    ultimately show ?thesis using wf unfolding pt_wf_def by blast
  qed
  have "unat (((pp_ref s)(p := 1)) q) = (pin(p := 1)) q + ntab ?idx ?m' q + nleaf ?idx ?m' q"
    if "q < npage s" for q
  proof -
    have "unat (pp_ref s q) = pin q + ntab idx ?m q + nleaf idx ?m q"
      using inv that by (simp add: mm_inv_def)
    with p(3) show ?thesis unfolding cnt by auto
  qed
  with inv wf' p(2) show ?thesis unfolding mm_inv_def s' by auto
qed

section \<open>Giving back an empty page table\<close>

text \<open>One reference to \<open>t\<close> less; \<open>t\<close> joins the free list when it was the last.\<close>

definition freed :: "kstate \<Rightarrow> nat \<Rightarrow> nat list \<Rightarrow> nat list" where
  "freed s t fl = (if pp_ref s t = 1 then t # fl else fl)"

lemma decref_free_list:
  assumes inv: "mm_inv idx pin fl s" and t: "t < npage s" "pp_ref s t \<noteq> 0"
  shows "is_list (page_free_list (decref_state t s)) (freed s t fl)"
    "\<forall>q \<in> set (freed s t fl). q < npage s \<and> ((pp_ref s)(t := pp_ref s t - 1)) q = 0"
proof -
  from inv have fl: "is_list (page_free_list s) fl" and "\<forall>q \<in> set fl. q < npage s \<and> pp_ref s q = 0"
    by (simp_all add: mm_inv_def)
  with t have "t \<notin> set fl" by auto
  from decref_state_free [OF fl this] show "is_list (page_free_list (decref_state t s)) (freed s t fl)"
    by (simp add: freed_def)
  show "\<forall>q \<in> set (freed s t fl). q < npage s \<and> ((pp_ref s)(t := pp_ref s t - 1)) q = 0"
    using \<open>\<forall>q \<in> set fl. _\<close> t by (auto simp: freed_def)
qed

lemma mm_inv_drop_table:
  assumes inv: "mm_inv idx pin fl s" and di: "(d, i) \<in> tabs idx (mem s)"
    and empty: "\<And>j. j < 1024 \<Longrightarrow> \<not> valid (mem s (PPN (mem s d i)) j)"
  defines "t \<equiv> PPN (mem s d i)"
  shows "pp_ref s t \<noteq> 0" "t < npage s" "mm_inv idx pin (freed s t fl) (decref_state t (store d i 0 s))"
proof -
  let ?m = "mem s" and ?m' = "(mem s)(d := (mem s d)(i := 0))"
  from inv have wf: "pt_wf idx ?m (npage s)" by (simp add: mm_inv_def)
  have i: "i \<in> idx d" "valid (?m d i)" using di by (simp_all add: tabs_def)
  have t: "t < npage s" "idx t = {}" using pt_wf_tab [OF wf di] by (simp_all add: t_def)
  then show "t < npage s" by simp
  have ref: "unat (pp_ref s t) = pin t + ntab idx ?m t + nleaf idx ?m t"
    using inv t by (simp add: mm_inv_def)
  have "{x \<in> tabs idx ?m. tab_of ?m x = t} = {(d, i)}"
    using di pt_wf_inj [OF wf di] by (auto simp: t_def tab_of.simps)
  then have nt: "ntab idx ?m t = 1" by (simp add: ntab_def)
  with ref have "unat (pp_ref s t) \<noteq> 0" by simp
  then show r0: "pp_ref s t \<noteq> 0" by auto
  have "?m' a b = (if (a, b) = (d, i) then 0 else ?m a b)" for a b by simp
  then have tabs': "tabs idx ?m' = tabs idx ?m - {(d, i)}" unfolding tabs_def by auto
  have tab': "tab_of ?m' x = tab_of ?m x" if "x \<noteq> (d, i)" for x
    using that by (cases x) (auto simp: tab_of.simps)
  have droot: "PPN (?m d' i') \<noteq> d" if "(d', i') \<in> tabs idx ?m" for d' i'
    using pt_wf_tab(2) [OF wf that] i by auto
  have noleaf: "(d, i, j) \<notin> leafs idx ?m" for j using empty by (auto simp: leafs_def)
  have leafs': "leafs idx ?m' = leafs idx ?m"
  proof -
    have "(d', i', j) \<in> leafs idx ?m' \<longleftrightarrow> (d', i', j) \<in> leafs idx ?m" for d' i' j
    proof (cases "(d', i') = (d, i)")
      case True
      then show ?thesis using noleaf by (auto simp: leafs_def tabs')
    next
      case False
      then show ?thesis using droot by (auto simp: leafs_def tabs')
    qed
    then show ?thesis by auto
  qed
  have leaf': "leaf_of ?m' l = leaf_of ?m l" if "l \<in> leafs idx ?m" for l
  proof (cases l)
    case (fields d' i' j')
    with that have "(d', i') \<in> tabs idx ?m" "(d', i') \<noteq> (d, i)" using noleaf by (auto simp: leafs_def)
    with droot fields show ?thesis by (auto simp: leaf_of.simps split: if_splits)
  qed
  have wf': "pt_wf idx ?m' (npage s)"
  proof -
    have "inj_on (tab_of ?m') (tabs idx ?m')"
      using wf tab' unfolding tabs' by (auto simp: pt_wf_def inj_on_def)
    moreover have "\<forall>x \<in> tabs idx ?m'. tab_of ?m' x < npage s \<and> idx (tab_of ?m' x) = {}"
      using wf tab' unfolding tabs' by (auto simp: pt_wf_def)
    moreover have "\<forall>l \<in> leafs idx ?m'. leaf_of ?m' l < npage s"
      using wf leaf' unfolding leafs' by (simp add: pt_wf_def)
    ultimately show ?thesis using wf unfolding pt_wf_def by blast
  qed
  have t0: "tab_of ?m (d, i) = t" by (simp add: t_def tab_of.simps)
  have ntab': "ntab idx ?m q = ntab idx ?m' q + (if q = t then 1 else 0)" for q
  proof (cases "q = t")
    case True
    have "{x \<in> tabs idx ?m'. tab_of ?m' x = t} = {x \<in> tabs idx ?m. tab_of ?m x = t} - {(d, i)}"
      unfolding tabs' using tab' by auto
    also have "\<dots> = {}" using \<open>{x \<in> tabs idx ?m. tab_of ?m x = t} = _\<close> by simp
    finally have "ntab idx ?m' t = 0" by (simp only: ntab_def card.empty)
    then show ?thesis using True nt by simp
  next
    case False
    have "{x \<in> tabs idx ?m'. tab_of ?m' x = q} = {x \<in> tabs idx ?m. tab_of ?m x = q}"
    proof (rule Collect_cong)
      fix x
      show "x \<in> tabs idx ?m' \<and> tab_of ?m' x = q \<longleftrightarrow> x \<in> tabs idx ?m \<and> tab_of ?m x = q"
        using False t0 tab' [of x] unfolding tabs' by (cases "x = (d, i)") simp_all
    qed
    with False show ?thesis by (simp add: ntab_def)
  qed
  have nleaf': "nleaf idx ?m' q = nleaf idx ?m q" for q
    unfolding nleaf_def leafs' using leaf' by (metis (no_types, lifting))
  have refs: "unat (((pp_ref s)(t := pp_ref s t - 1)) q) = pin q + ntab idx ?m' q + nleaf idx ?m' q"
    if "q < npage s" for q
  proof -
    have "unat (pp_ref s q) = pin q + ntab idx ?m q + nleaf idx ?m q" using inv that by (simp add: mm_inv_def)
    with unat_minus_one [OF r0] show ?thesis unfolding nleaf' ntab' by auto
  qed
  let ?s = "store d i 0 s"
  have s: "mem ?s = ?m'" "npage ?s = npage s" "pp_ref ?s = pp_ref s" "page_free_list ?s = page_free_list s"
    by (simp_all add: store_def)
  have fs: "page_free_list (decref_state t ?s) = page_free_list (decref_state t s)"
    by (simp add: decref_state_def Let_def set_ref_def store_def)
  note df = decref_free_list [OF inv t(1) r0]
  show "mm_inv idx pin (freed s t fl) (decref_state t ?s)"
    using wf' refs df inv by (simp add: mm_inv_def s fs)
qed

section \<open>Giving back an empty directory\<close>

lemma mm_inv_drop_dir:
  assumes inv: "mm_inv idx pin fl s" and d: "d < npage s" "pin d = 1"
    and empty: "\<And>i. i \<in> idx d \<Longrightarrow> \<not> valid (mem s d i)"
  shows "pp_ref s d \<noteq> 0" "mm_inv (idx(d := {})) (pin(d := 0)) (freed s d fl) (decref_state d s)"
proof -
  let ?idx = "idx(d := {})" and ?m = "mem s"
  from inv have wf: "pt_wf idx ?m (npage s)" by (simp add: mm_inv_def)
  have ref: "unat (pp_ref s d) = pin d + ntab idx ?m d + nleaf idx ?m d" using inv d by (simp add: mm_inv_def)
  with d have "unat (pp_ref s d) \<noteq> 0" by simp
  then show r0: "pp_ref s d \<noteq> 0" by auto
  have tabs': "tabs ?idx ?m = tabs idx ?m" using empty by (auto simp: tabs_def split: if_splits)
  have leafs': "leafs ?idx ?m = leafs idx ?m" by (simp add: leafs_def tabs')
  have cnt: "ntab ?idx ?m q = ntab idx ?m q" "nleaf ?idx ?m q = nleaf idx ?m q" for q
    by (simp_all add: ntab_def nleaf_def tabs' leafs')
  have wf': "pt_wf ?idx ?m (npage s)"
  proof -
    have "finite {e. ?idx e \<noteq> {}}"
      by (rule finite_subset [of _ "{e. idx e \<noteq> {}}"]) (use wf in \<open>auto simp: pt_wf_def\<close>)
    moreover have "\<forall>x \<in> tabs ?idx ?m. tab_of ?m x < npage s \<and> ?idx (tab_of ?m x) = {}"
      using wf unfolding tabs' by (auto simp: pt_wf_def)
    ultimately show ?thesis using wf unfolding pt_wf_def tabs' leafs' by auto
  qed
  have refs: "unat (((pp_ref s)(d := pp_ref s d - 1)) q) = (pin(d := 0)) q + ntab ?idx ?m q + nleaf ?idx ?m q"
    if "q < npage s" for q
  proof -
    have "unat (pp_ref s q) = pin q + ntab idx ?m q + nleaf idx ?m q" using inv that by (simp add: mm_inv_def)
    with unat_minus_one [OF r0] d(2) r0 show ?thesis unfolding cnt by auto
  qed
  note df = decref_free_list [OF inv d(1) r0]
  show "mm_inv ?idx (pin(d := 0)) (freed s d fl) (decref_state d s)"
    using wf' refs df inv by (auto simp: mm_inv_def)
qed

end
