(* ===== verification/Env_Spec.thy ===== *)
theory Env_Spec
  imports Env_Mem
begin

text \<open>
  \<^verbatim>\<open>env_setup_vm\<close>, \<^verbatim>\<open>env_alloc\<close> and \<^verbatim>\<open>env_free\<close> against the invariant of physical
  memory: what a new address space looks like, and that releasing it returns all its pages.
\<close>

lemma PDX_UTOP: "PDX UTOP = 509" and PDX_UVPT: "PDX UVPT = 511"
  by (simp_all add: PDX_alt layout_defs)

definition user_slots :: "nat set" where "user_slots = {..<509}"

section \<open>A new address space\<close>

definition new_dir :: "nat \<Rightarrow> kstate \<Rightarrow> frame" where
  "new_dir pp s = (\<lambda>i. if i = 511 then page2pa pp OR PTE_V
     else if 509 \<le> i \<and> i < 511 then mem s (base_pgdir s) i else 0)"

definition set_up :: "nat \<Rightarrow> nat \<Rightarrow> kstate \<Rightarrow> kstate" where
  "set_up e pp s = s\<lparr>page_free_list := the (LIST_REMOVE pp (page_free_list s)),
     mem := (mem s)(pp := new_dir pp s), pp_ref := (pp_ref s)(pp := 1),
     envs := (envs s)(e := (envs s e)\<lparr>env_pgdir := pp\<rparr>)\<rparr>"

lemma env_setup_vm_run:
  assumes inv: "mm_inv idx pin fl s" and base: "base_pgdir s \<notin> set fl"
  shows "env_setup_vm e s = (case fl of [] \<Rightarrow> Done (Inl E_NO_MEM) s
    | pp # fl' \<Rightarrow> Done (Inr ()) (set_up e pp s))"
proof (cases fl)
  case Nil
  with page_alloc_run [OF inv] show ?thesis by (simp add: env_setup_vm_def run_rules)
next
  case (Cons pp fl')
  with inv have pp: "pp < npage s" "pp_ref s pp = 0" by (simp_all add: mm_inv_def)
  have b: "base_pgdir s \<noteq> pp" using base Cons by auto
  have dir: "(\<lambda>i. if 509 \<le> i \<and> i < 509 + (511 - 509) then mem s (base_pgdir s) i else 0)
      (511 := page2pa pp OR PTE_V) = new_dir pp s"
    by (auto simp: new_dir_def fun_eq_iff)
  show ?thesis
    using Cons pp b dir mm_inv_npage [OF inv pp(1)] page_alloc_run [OF inv]
    by (simp add: env_setup_vm_def run_rules page_incref_def set_ref_def page2kva_def KADDR_run
        upd_env_def store_def PDX_UTOP PDX_UVPT set_up_def cong: if_cong)
qed

lemma set_up_inv:
  assumes inv: "mm_inv idx pin (pp # fl) s"
  shows "mm_inv (idx(pp := user_slots)) (pin(pp := 1)) fl (set_up e pp s)"
    "idx pp = {}" "pin pp = 0"
proof -
  let ?s = "s\<lparr>page_free_list := the (LIST_REMOVE pp (page_free_list s)), mem := (mem s)(pp := (\<lambda>_. 0))\<rparr>"
  note al = page_alloc_inv [OF inv refl [of ?s]]
  have nv: "i \<in> user_slots \<Longrightarrow> \<not> valid (new_dir pp s i)" for i
    by (simp add: user_slots_def new_dir_def)
  show "mm_inv (idx(pp := user_slots)) (pin(pp := 1)) fl (set_up e pp s)"
    by (rule mm_inv_new_dir [OF al(1,2,4,3) _ nv]) (simp_all add: user_slots_def set_up_def subset_iff)
  from inv have "pp < npage s" "pp_ref s pp = 0" by (simp_all add: mm_inv_def)
  from mm_inv_unreferenced(1,2) [OF inv this] show "idx pp = {}" "pin pp = 0" by simp_all
qed

section \<open>A new environment\<close>

definition new_env :: "nat \<Rightarrow> u32 \<Rightarrow> u32 \<Rightarrow> u32 \<Rightarrow> env \<Rightarrow> env" where
  "new_env pp eid asid parent env = env\<lparr>env_pgdir := pp, env_user_tlb_mod_entry := 0, env_runs := 0,
     env_id := eid, env_asid := asid, env_parent_id := parent, env_path := (env_path env)(0 := 0x2F),
     env_tf := (env_tf env)\<lparr>tf_status := STATUS_IM4 OR STATUS_KUp OR STATUS_IEp,
       tf_regs := (tf_regs (env_tf env))(29 := USTACKTOP - 8)\<rparr>\<rparr>"

definition alloc_state :: "nat \<Rightarrow> nat \<Rightarrow> nat \<Rightarrow> u32 \<Rightarrow> kstate \<Rightarrow> kstate" where
  "alloc_state e pp i parent s = (set_asid i (set_up e pp s))\<lparr>mkenvid_i := mkenvid_i s + 1,
     envs := (envs s)(e := new_env pp (envid_of (mkenvid_i s + 1) e) (of_nat i) parent (envs s e)),
     env_free_list := the (LIST_REMOVE e (env_free_list s))\<rparr>"

lemma set_up_simps [simp]:
  "env_free_list (set_up e pp s) = env_free_list s" "asid_bitmap (set_up e pp s) = asid_bitmap s"
  "mkenvid_i (set_up e pp s) = mkenvid_i s" "envs (set_up e pp s) = (envs s)(e := (envs s e)\<lparr>env_pgdir := pp\<rparr>)"
  "mem (set_up e pp s) = (mem s)(pp := new_dir pp s)" "npage (set_up e pp s) = npage s"
  "curenv (set_up e pp s) = curenv s" "env_sched_list (set_up e pp s) = env_sched_list s"
  "base_pgdir (set_up e pp s) = base_pgdir s"
  by (simp_all add: set_up_def)

lemma env_alloc_run:
  assumes inv: "mm_inv idx pin (pp # fl) s" and base: "base_pgdir s \<notin> set (pp # fl)"
    and el: "is_list (env_free_list s) (e # el)" and asid: "i < NASID" "i \<notin> asid_used s" "\<forall>j < i. j \<in> asid_used s"
  shows "env_alloc parent s = Done (Inr e) (alloc_state e pp i parent s)"
proof -
  from lq.pop [OF el] obtain q where q: "LIST_FIRST (env_free_list s) = Some e"
    "LIST_REMOVE e (env_free_list s) = Some q" by blast
  note vm = env_setup_vm_run [OF inv base, of e, simplified]
  let ?t = "(set_up e pp s)\<lparr>mkenvid_i := mkenvid_i s + 1, envs := (envs s)(e := (envs s e)\<lparr>env_pgdir := pp,
     env_user_tlb_mod_entry := 0, env_runs := 0, env_id := envid_of (mkenvid_i s + 1) e\<rparr>)\<rparr>"
  have u: "asid_used ?t = asid_used s" by (simp add: asid_used_def)
  have al: "asid_alloc ?t = Done (Inr (of_nat i)) (set_asid i ?t)"
  proof (cases rule: asid_alloc_cases [of ?t])
    case full
    then show ?thesis using asid by (auto simp: u)
  next
    case (found j)
    then have "j = i" using asid unfolding u by (metis linorder_neqE_nat)
    with found show ?thesis by simp
  qed
  show ?thesis
    using q vm al by (cases "envs s e"; cases "env_tf (envs s e)")
      (simp add: env_alloc_def run_rules upd_env_def mkenvid_run set_asid_def alloc_state_def new_env_def)
qed

lemma env_alloc_no_asid:
  assumes inv: "mm_inv idx pin (pp # fl) s" and base: "base_pgdir s \<notin> set (pp # fl)"
    and el: "is_list (env_free_list s) (e # el)" and asid: "{..<NASID} \<subseteq> asid_used s"
  shows "\<exists>s'. env_alloc parent s = Done (Inl E_NO_FREE_ENV) s' \<and>
    mm_inv (idx(pp := user_slots)) (pin(pp := 1)) fl s' \<and> env_free_list s' = env_free_list s"
proof -
  from lq.pop [OF el] have q: "LIST_FIRST (env_free_list s) = Some e" by blast
  note vm = env_setup_vm_run [OF inv base, of e, simplified]
  let ?t = "(set_up e pp s)\<lparr>mkenvid_i := mkenvid_i s + 1, envs := (envs s)(e := (envs s e)\<lparr>env_pgdir := pp,
     env_user_tlb_mod_entry := 0, env_runs := 0, env_id := envid_of (mkenvid_i s + 1) e\<rparr>)\<rparr>"
  have u: "asid_used ?t = asid_used s" by (simp add: asid_used_def)
  have al: "asid_alloc ?t = Done (Inl E_NO_FREE_ENV) ?t"
    by (cases rule: asid_alloc_cases [of ?t]) (use asid u in auto)
  have "env_alloc parent s = Done (Inl E_NO_FREE_ENV) ?t"
    using q vm al by (simp add: env_alloc_def run_rules upd_env_def mkenvid_run)
  moreover have "mm_inv (idx(pp := user_slots)) (pin(pp := 1)) fl ?t"
    using set_up_inv(1) [OF inv, of e] by (simp add: mm_inv_def)
  ultimately show ?thesis by simp
qed

lemma env_alloc_fail:
  "is_list (env_free_list s) [] \<Longrightarrow> env_alloc parent s = Done (Inl E_NO_FREE_ENV) s"
  "is_list (env_free_list s) (e # el) \<Longrightarrow> mm_inv idx pin [] s \<Longrightarrow> env_alloc parent s = Done (Inl E_NO_MEM) s"
proof -
  assume "is_list (env_free_list s) []"
  then show "env_alloc parent s = Done (Inl E_NO_FREE_ENV) s"
    by (simp add: env_alloc_def run_rules lq.front_repr)
next
  assume "is_list (env_free_list s) (e # el)" and inv: "mm_inv idx pin [] s"
  then show "env_alloc parent s = Done (Inl E_NO_MEM) s"
    using env_setup_vm_run [OF inv, of e] by (simp add: env_alloc_def run_rules lq.front_repr)
qed

end
