(* ===== verification/Env_Free.thy ===== *)
theory Env_Free
  imports Env_Spec
begin

text \<open>
  \<^verbatim>\<open>env_free\<close> returns every page of an address space: each page table is emptied entry by
  entry, given back and unhooked, and then the directory itself goes.
\<close>

text \<open>No page is lost: a page without references is on the free list.\<close>

definition no_leak :: "nat list \<Rightarrow> kstate \<Rightarrow> bool" where
  "no_leak fl s \<longleftrightarrow> (\<forall>p < npage s. pp_ref s p = 0 \<longrightarrow> p \<in> set fl)"

lemma no_leak_dec:
  assumes "no_leak fl s" "npage s' = npage s" "pp_ref s' = (pp_ref s)(p := pp_ref s p - 1)"
  shows "no_leak (freed s p fl) s'"
proof -
  have "pp_ref s p = 1 \<longleftrightarrow> pp_ref s p - 1 = 0" by simp
  with assms show ?thesis by (auto simp: no_leak_def freed_def)
qed

section \<open>Addresses built from indices\<close>

definition index_va :: "nat \<Rightarrow> nat \<Rightarrow> u32" where
  "index_va i j = push_bit 22 (of_nat i) OR push_bit 12 (of_nat j)"

lemma bit_nat_less: "x < 2 ^ n \<Longrightarrow> bit (x :: nat) k \<Longrightarrow> k < n"
  by (metis bit_take_bit_iff mod_less take_bit_eq_mod)

lemma index_va_idx:
  assumes "i < 1024" "j < 1024"
  shows "PDX (index_va i j) = i" "PTX (index_va i j) = j"
proof -
  have b: "bit i k \<Longrightarrow> k < 10" "bit j k \<Longrightarrow> k < 10" for k
    using bit_nat_less [of i 10 k] bit_nat_less [of j 10 k] assms by simp_all
  have small: "unat (of_nat x :: u32) = x" if "x < 1024" for x
    using that by (simp add: unat_of_nat take_bit_eq_mod)
  have "drop_bit 22 (index_va i j) AND mask 10 = of_nat i"
    by (rule bit_word_eqI) (auto simp: index_va_def bit_simps dest: b)
  then show "PDX (index_va i j) = i" using small assms by (simp only: PDX_def mask10)
  have "drop_bit 12 (index_va i j) AND mask 10 = of_nat j"
    by (rule bit_word_eqI) (auto simp: index_va_def bit_simps dest: b)
  then show "PTX (index_va i j) = j" using small assms by (simp only: PTX_def mask10)
qed

section \<open>The progress of the walk\<close>

text \<open>
  From \<open>s\<close> to \<open>s'\<close> only translations of \<open>d\<close> were removed, and the pages this set free were added
  to the free list.
\<close>

definition shrunk :: "(nat \<Rightarrow> nat set) \<Rightarrow> nat \<Rightarrow> nat list \<Rightarrow> kstate \<Rightarrow> nat list \<Rightarrow> kstate \<Rightarrow> bool" where
  "shrunk idx d fl s fl' s' \<longleftrightarrow> same_rest s s' \<and> set fl \<subseteq> set fl' \<and> (no_leak fl s \<longrightarrow> no_leak fl' s') \<and>
     (\<forall>d' va. d' \<noteq> d \<longrightarrow> PDX va \<in> idx d' \<longrightarrow> lookup_pte (mem s') d' va = lookup_pte (mem s) d' va) \<and>
     (\<forall>key lo. tlb s' key = Some lo \<longrightarrow> tlb s key = Some lo)"

lemma shrunk_refl: "shrunk idx d fl s fl s"
  by (simp add: shrunk_def)

lemma shrunk_trans: "shrunk idx d fl s fl1 s1 \<Longrightarrow> shrunk idx d fl1 s1 fl2 s2 \<Longrightarrow> shrunk idx d fl s fl2 s2"
  unfolding shrunk_def using same_rest_trans [of s s1 s2] by auto

lemma page_remove_shrunk:
  assumes inv: "mm_inv idx pin fl s" and va: "PDX va \<in> idx d"
  obtains s' fl' where "page_remove d asid va s = Done () s'" "mm_inv idx pin fl' s'" "shrunk idx d fl s fl' s'"
    "mem s' d = mem s d" "\<not> valid (lookup_pte (mem s') d va)"
    "\<And>va'. PDX va' \<in> idx d \<Longrightarrow> VPN va' \<noteq> VPN va \<Longrightarrow> lookup_pte (mem s') d va' = lookup_pte (mem s) d va'"
proof (cases "valid (lookup_pte (mem s) d va)")
  case True
  let ?s' = "removed d asid va s" and ?p = "PPN (lookup_pte (mem s) d va)"
  note rf = removed_facts [OF inv va True, where asid = asid]
  have nl: "no_leak fl s \<Longrightarrow> no_leak (freed s ?p fl) ?s'" by (rule no_leak_dec [OF _ rf(3,6)])
  from rf(7) have l: "\<And>d' va'. PDX va' \<in> idx d' \<Longrightarrow> d' \<noteq> d \<or> VPN va' \<noteq> VPN va \<Longrightarrow>
      lookup_pte (mem ?s') d' va' = lookup_pte (mem s) d' va'" by (simp add: remap_def)
  have "shrunk idx d fl s (freed s ?p fl) ?s'"
    using rf(4) nl l flush_sub [of asid va s] unfolding shrunk_def rf(5) by (auto simp: freed_def)
  with that [of ?s' "freed s ?p fl"] rf(1,2) l removed_inv [OF inv va True, where asid = asid] True
  show ?thesis by (auto simp: page_remove_run [OF inv va] freed_def)
next
  case False
  with that [of s fl] inv show ?thesis by (simp add: page_remove_run [OF inv va] shrunk_refl)
qed

section \<open>One page table\<close>

lemma empty_table:
  assumes inv: "mm_inv idx pin fl s" and di: "(d, i) \<in> tabs idx (mem s)" and i: "i < 1024"
  shows "\<exists>s'. forK [0..<1024] (\<lambda>j. bindK (getsK (\<lambda>s'. mem s' (PPN (mem s d i)) j)) (\<lambda>pte.
      if valid pte then page_remove d asid (index_va i j) else retK ())) s = Done () s' \<and>
    (\<exists>fl'. mm_inv idx pin fl' s' \<and> shrunk idx d fl s fl' s' \<and> mem s' d = mem s d \<and>
      (\<forall>j < 1024. \<not> valid (mem s' (PPN (mem s d i)) j)))"
proof -
  have idx: "i \<in> idx d" "valid (mem s d i)" using di by (simp_all add: tabs_def)
  let ?f = "\<lambda>j. bindK (getsK (\<lambda>s'. mem s' (PPN (mem s d i)) j)) (\<lambda>pte.
      if valid pte then page_remove d asid (index_va i j) else retK ())"
  let ?P = "\<lambda>k t. \<exists>fl'. mm_inv idx pin fl' t \<and> shrunk idx d fl s fl' t \<and> mem t d = mem s d \<and>
      (\<forall>j < k. \<not> valid (mem t (PPN (mem s d i)) j))"
  have look: "lookup_pte (mem t) d (index_va i j) = mem t (PPN (mem s d i)) j"
    if "mem t d = mem s d" "j < 1024" for t j
    using that idx(2) index_va_idx [OF i that(2)] by (simp add: lookup_pte_def)
  have "\<exists>s'. forK [0..<1024] ?f s = Done () s' \<and> ?P 1024 s'"
  proof (rule forK_upt)
    show "?P 0 s" using inv shrunk_refl by auto
  next
    fix k t
    assume k: "k < 1024" and "?P k t"
    then obtain fl1 where t: "mm_inv idx pin fl1 t" "shrunk idx d fl s fl1 t" "mem t d = mem s d"
      "\<forall>j < k. \<not> valid (mem t (PPN (mem s d i)) j)" by blast
    note ix = index_va_idx [OF i k]
    show "\<exists>t'. ?f k t = Done () t' \<and> ?P (Suc k) t'"
    proof (cases "valid (mem t (PPN (mem s d i)) k)")
      case True
      have "PDX (index_va i k) \<in> idx d" using ix idx by simp
      from page_remove_shrunk [OF t(1) this, where asid = asid] obtain t' fl2 where
        t': "page_remove d asid (index_va i k) t = Done () t'" "mm_inv idx pin fl2 t'"
          "shrunk idx d fl1 t fl2 t'" "mem t' d = mem t d" "\<not> valid (lookup_pte (mem t') d (index_va i k))"
          "\<And>va'. PDX va' \<in> idx d \<Longrightarrow> VPN va' \<noteq> VPN (index_va i k) \<Longrightarrow>
             lookup_pte (mem t') d va' = lookup_pte (mem t) d va'" by blast
      have d': "mem t' d = mem s d" using t'(4) t(3) by simp
      have "\<not> valid (mem t' (PPN (mem s d i)) j)" if "j < Suc k" for j
      proof (cases "j = k")
        case True
        with t'(5) look [OF d' k] show ?thesis by simp
      next
        case False
        then have j: "j < k" "j < 1024" using that k by simp_all
        note jx = index_va_idx [OF i j(2)]
        have "VPN (index_va i j) \<noteq> VPN (index_va i k)"
          using j jx ix by (simp add: same_page_iff)
        with t'(6) [of "index_va i j"] jx idx look [OF d' j(2)] look [OF t(3) j(2)] t(4) j(1)
        show ?thesis by simp
      qed
      with True t' d' shrunk_trans [OF t(2) t'(3)] show ?thesis by (auto simp: run_rules)
    next
      case False
      with t have "?P (Suc k) t" by (metis less_Suc_eq)
      with False show ?thesis by (simp add: run_rules)
    qed
  qed
  then show ?thesis by blast
qed

text \<open>The directory slot \<open>i\<close> is cleared and its table given back.\<close>

lemma env_free_pt_run:
  assumes inv: "mm_inv idx pin fl s" and i: "i \<in> idx d"
  shows "\<exists>s' fl'. env_free_pt d asid i s = Done () s' \<and> mm_inv idx pin fl' s' \<and> shrunk idx d fl s fl' s' \<and>
    \<not> valid (mem s' d i) \<and> (\<forall>k. k \<noteq> i \<longrightarrow> mem s' d k = mem s d k)"
proof (cases "valid (mem s d i)")
  case False
  then show ?thesis using inv shrunk_refl by (auto simp: env_free_pt_def run_rules)
next
  case True
  let ?t = "PPN (mem s d i)"
  note wf = mm_inv_wf [OF inv]
  have di: "(d, i) \<in> tabs idx (mem s)" using True i by (simp add: tabs_def)
  have i1: "i < 1024" using wf i by (auto simp: pt_wf_def)
  have t: "?t < npage s" by (rule pt_wf_tab(1) [OF wf di])
  from empty_table [OF inv di i1, of asid] obtain s1 fl1 where
    s1: "forK [0..<1024] (\<lambda>j. bindK (getsK (\<lambda>s'. mem s' ?t j)) (\<lambda>pte.
      if valid pte then page_remove d asid (index_va i j) else retK ())) s = Done () s1"
      "mm_inv idx pin fl1 s1" "shrunk idx d fl s fl1 s1" "mem s1 d = mem s d"
      "\<forall>j < 1024. \<not> valid (mem s1 ?t j)" by auto
  have di1: "(d, i) \<in> tabs idx (mem s1)" using i True s1(4) by (simp add: tabs_def)
  have n1: "npage s1 = npage s" using s1(3) same_restD by (simp add: shrunk_def)
  note dt = mm_inv_drop_table [OF s1(2) di1, unfolded s1(4)]
  let ?s2 = "decref_state ?t (store d i 0 s1)"
  have e: "\<And>j. j < 1024 \<Longrightarrow> \<not> valid (mem s1 ?t j)" using s1(5) by blast
  let ?s3 = "flush asid (UVPT + push_bit 12 (of_nat i)) ?s2"
  have m3: "mem ?s3 = (mem s1)(d := (mem s1 d)(i := 0))" by (simp add: store_def)
  have r1: "pp_ref (store d i 0 s1) ?t \<noteq> 0" using dt(1) [OF e] by (simp add: store_def)
  have run: "env_free_pt d asid i s = Done () ?s3"
    using True t n1 s1(1) [unfolded index_va_def] page_decref_run [OF r1]
    by (simp add: env_free_pt_def run_rules KADDR_run pa2page_run tlb_invalidate_run store_def)
  have inv3: "mm_inv idx pin (freed s1 ?t fl1) ?s3" using dt(3) [OF e] by simp
  have sh: "shrunk idx d fl1 s1 (freed s1 ?t fl1) ?s3"
  proof -
    have "same_rest s1 ?s3"
      by (rule same_restI') (simp add: store_def flush_def decref_state_def Let_def set_ref_def)
    moreover have "no_leak fl1 s1 \<Longrightarrow> no_leak (freed s1 ?t fl1) ?s3"
      by (rule no_leak_dec) (simp_all add: store_def flush_def)
    moreover have "lookup_pte (mem ?s3) d' va = lookup_pte (mem s1) d' va"
      if "d' \<noteq> d" "PDX va \<in> idx d'" for d' va
    proof (cases "valid (mem s1 d' (PDX va))")
      case True
      then have "(d', PDX va) \<in> tabs idx (mem s1)" using that by (simp add: tabs_def)
      from pt_wf_tab(2) [OF mm_inv_wf [OF s1(2)] this] have "PPN (mem s1 d' (PDX va)) \<noteq> d" using i by auto
      with that(1) show ?thesis unfolding m3 by (simp add: lookup_pte_def)
    next
      case False
      with that(1) show ?thesis unfolding m3 by (simp add: lookup_pte_def)
    qed
    moreover have "tlb ?s3 key = Some lo \<Longrightarrow> tlb s1 key = Some lo" for key lo
      using flush_sub [of asid _ ?s2 key lo] by (simp add: store_def)
    ultimately show ?thesis by (auto simp: shrunk_def freed_def)
  qed
  have "\<not> valid (mem ?s3 d i)" "\<forall>k. k \<noteq> i \<longrightarrow> mem ?s3 d k = mem s d k"
    using s1(4) unfolding m3 by simp_all
  with run inv3 shrunk_trans [OF s1(3) sh] show ?thesis by blast
qed

section \<open>The whole environment\<close>

lemma env_free_all_run:
  assumes inv: "mm_inv idx pin fl s" and d: "idx d = user_slots"
  shows "\<exists>s' fl'. forK [0..<PDX UTOP] (env_free_pt d asid) s = Done () s' \<and> mm_inv idx pin fl' s' \<and>
    shrunk idx d fl s fl' s' \<and> (\<forall>i \<in> idx d. \<not> valid (mem s' d i))"
proof -
  let ?P = "\<lambda>k t. \<exists>fl'. mm_inv idx pin fl' t \<and> shrunk idx d fl s fl' t \<and> (\<forall>i < k. \<not> valid (mem t d i))"
  have "\<exists>s'. forK [0..<PDX UTOP] (env_free_pt d asid) s = Done () s' \<and> ?P (PDX UTOP) s'"
  proof (rule forK_upt)
    show "?P 0 s" using inv shrunk_refl by auto
  next
    fix k t
    assume k: "k < PDX UTOP" and "?P k t"
    then obtain fl1 where t: "mm_inv idx pin fl1 t" "shrunk idx d fl s fl1 t" "\<forall>i < k. \<not> valid (mem t d i)"
      by blast
    have "k \<in> idx d" using k by (simp add: d user_slots_def PDX_UTOP)
    from env_free_pt_run [OF t(1) this, of asid] obtain t' fl2 where
      t': "env_free_pt d asid k t = Done () t'" "mm_inv idx pin fl2 t'" "shrunk idx d fl1 t fl2 t'"
        "\<not> valid (mem t' d k)" "\<forall>i. i \<noteq> k \<longrightarrow> mem t' d i = mem t d i" by blast
    then have "\<forall>i < Suc k. \<not> valid (mem t' d i)" using t(3) by (metis less_Suc_eq)
    with t' shrunk_trans [OF t(2) t'(3)] show "\<exists>t'. env_free_pt d asid k t = Done () t' \<and> ?P (Suc k) t'"
      by blast
  qed
  then show ?thesis by (auto simp: d user_slots_def PDX_UTOP)
qed

text \<open>
  After \<^verbatim>\<open>env_free\<close> the directory is no longer managed, nothing is lost, the other address
  spaces are untouched, and environment, ASID and list entry are free again.
\<close>

lemma env_free_run:
  assumes inv: "mm_inv idx pin fl s" and d: "d = env_pgdir (envs s e)" "idx d = user_slots" "pin d = 1"
    and q: "is_tailq (env_sched_list s) xs" "e \<in> set xs"
    and el: "is_list (env_free_list s) el" "e \<notin> set el"
  shows "\<exists>s' fl'. env_free e s = Done () s' \<and> mm_inv (idx(d := {})) (pin(d := 0)) fl' s' \<and>
    set fl \<subseteq> set fl' \<and> (no_leak fl s \<longrightarrow> no_leak fl' s') \<and>
    (\<forall>d' va. d' \<noteq> d \<longrightarrow> PDX va \<in> idx d' \<longrightarrow> lookup_pte (mem s') d' va = lookup_pte (mem s) d' va) \<and>
    is_list (env_free_list s') (e # el) \<and> is_tailq (env_sched_list s') (remove1 e xs) \<and>
    asid_used s' = asid_used s - {unat (env_asid (envs s e))} \<and>
    envs s' = (envs s)(e := (envs s e)\<lparr>env_status := ENV_FREE\<rparr>) \<and> curenv s' = curenv s \<and>
    sched_count s' = sched_count s"
proof -
  let ?a = "env_asid (envs s e)"
  from env_free_all_run [OF inv d(2), of ?a] obtain s1 fl1 where
    s1: "forK [0..<PDX UTOP] (env_free_pt d ?a) s = Done () s1" "mm_inv idx pin fl1 s1"
      "shrunk idx d fl s fl1 s1" "\<forall>i \<in> idx d. \<not> valid (mem s1 d i)" by blast
  have rest: "same_rest s s1" using s1(3) by (simp add: shrunk_def)
  have dn: "d < npage s1" 
  proof -
    have "0 \<in> idx d" by (simp add: d(2) user_slots_def)
    then have "idx d \<noteq> {}" by blast
    with mm_inv_wf [OF s1(2)] show ?thesis by (simp add: pt_wf_def)
  qed
  have d20: "d < 2 ^ 20" by (rule mm_inv_npage [OF s1(2) dn])
  have e: "\<And>i. i \<in> idx d \<Longrightarrow> \<not> valid (mem s1 d i)" using s1(4) by blast
  note dd = mm_inv_drop_dir [OF s1(2) dn d(3) e]
  let ?s2 = "flush ?a (UVPT + push_bit 12 (of_nat (PDX UVPT))) (asid_release (unat ?a) (decref_state d s1))"
  have keep: "envs ?s2 = envs s" "env_free_list ?s2 = env_free_list s" "env_sched_list ?s2 = env_sched_list s"
    "curenv ?s2 = curenv s" "sched_count ?s2 = sched_count s"
    using same_restD [OF rest] same_restD [OF same_rest_decref [of s1 d]]
    by (simp_all add: flush_def asid_release_def)
  from tq.unlink_repr [OF q] obtain q' where q': "TAILQ_REMOVE e (env_sched_list s) = Some q'"
    "is_tailq q' (remove1 e xs)" by blast
  let ?s' = "?s2\<lparr>envs := (envs s)(e := (envs s e)\<lparr>env_status := ENV_FREE\<rparr>),
     env_free_list := LIST_INSERT_HEAD e (env_free_list s), env_sched_list := q'\<rparr>"
  have run: "env_free e s = Done () ?s'"
    using s1(1) dn d20 dd(1) q' keep d(1)
    by (simp add: env_free_def run_rules pa2page_run page_decref_run asid_free_run tlb_invalidate_run upd_env_def)
  moreover have "mm_inv (idx(d := {})) (pin(d := 0)) (freed s1 d fl1) ?s'"
    using dd(2) by (simp add: mm_inv_def asid_release_def flush_def)
  moreover have "no_leak fl s \<longrightarrow> no_leak (freed s1 d fl1) ?s'"
  proof
    assume "no_leak fl s"
    with s1(3) have "no_leak fl1 s1" by (simp add: shrunk_def)
    then show "no_leak (freed s1 d fl1) ?s'"
      by (rule no_leak_dec) (simp_all add: flush_def asid_release_def)
  qed
  moreover have "set fl \<subseteq> set (freed s1 d fl1)" using s1(3) by (auto simp: shrunk_def freed_def)
  moreover have "lookup_pte (mem ?s') d' va = lookup_pte (mem s) d' va"
    if "d' \<noteq> d" "PDX va \<in> idx d'" for d' va
    using s1(3) that by (simp add: shrunk_def flush_def asid_release_def)
  moreover have "is_list (env_free_list ?s') (e # el)" using lq.push_repr [OF el] by simp
  moreover have "asid_used ?s' = asid_used s - {unat ?a}"
    using same_restD [OF rest] same_restD [OF same_rest_decref [of s1 d]]
    by (auto simp: asid_used_def asid_release_def flush_def bitmap_simps)
  ultimately show ?thesis using q'(2) keep by (intro exI [of _ ?s'] exI [of _ "freed s1 d fl1"]) simp
qed

end
