(* ===== verification/Env_Thms.thy ===== *)
theory Env_Thms
  imports Env_Free Pmap_Thms
begin

text \<open>
  The properties of environments and address spaces, evaluated on a small machine with one
  running environment, two free ones and four free pages.
\<close>

section \<open>One environment\<close>

definition one_env :: "nat \<Rightarrow> env" where
  "one_env e = (if e = 0 then zero_env\<lparr>env_id := envid_of 1 0, env_status := ENV_RUNNABLE, env_pgdir := 1,
     env_pri := 1\<rparr> else zero_env)"

definition env_machine :: kstate where
  "env_machine = set_asid 0 (small_machine\<lparr>envs := one_env, curenv := Some 0,
     env_sched_list := TAILQ_INSERT_HEAD 0 (TAILQ_INIT empty_tailq),
     env_free_list := LIST_INSERT_HEAD 1 (LIST_INSERT_HEAD 2 (LIST_INIT empty_list)),
     mkenvid_i := 1\<rparr>)"

lemma env_machine_lists: "is_tailq (env_sched_list env_machine) [0]" "is_list (env_free_list env_machine) [1, 2]"
proof -
  show "is_tailq (env_sched_list env_machine) [0]"
    by (simp add: env_machine_def set_asid_def tq.push_repr tq.repr_init)
  have "is_list (LIST_INSERT_HEAD 1 (LIST_INSERT_HEAD 2 (LIST_INIT empty_list))) [1, 2]"
    by (intro lq.push_repr lq.repr_init) simp_all
  then show "is_list (env_free_list env_machine) [1, 2]" by (simp add: env_machine_def set_asid_def)
qed

lemma env_machine_simps [simp]:
  "npage env_machine = 8" "curenv env_machine = Some 0" "envs env_machine = one_env"
  "base_pgdir env_machine = 0" "mkenvid_i env_machine = 1"
  "pp_ref env_machine p = (if p < 4 then 1 else 0)" "mem env_machine = (\<lambda>_ _. 0)"
  by (simp_all add: env_machine_def small_machine_def bss_def set_asid_def)

lemma env_machine_inv: "mm_inv small_idx small_pin [4, 5, 6, 7] env_machine"
  using small_machine_inv by (simp add: mm_inv_def env_machine_def set_asid_def)

lemma env_machine_asids: "asid_used env_machine = {0}"
proof -
  have "asid_used (small_machine\<lparr>envs := x, curenv := y, env_sched_list := z, env_free_list := u, mkenvid_i := v\<rparr>) = {}"
    for x y z u v by (simp add: asid_used_def bitmap_bit_def small_machine_def bss_def)
  then show ?thesis using asid_used_set [of 0] by (simp add: env_machine_def NASID_def)
qed

lemma env_machine_ids: "ids_ok env_machine"
proof -
  have "envid_of 1 0 \<noteq> 0" by (rule envid_of_nonzero) (simp_all add: NENV_def)
  then show ?thesis by (simp add: ids_ok_def one_env_def zero_env_def NENV_def LOG2NENV_def)
qed

section \<open>ASIDs\<close>

text \<open>
  \<^verbatim>\<open>asid_alloc\<close> hands out the lowest unused ASID and marks exactly that one as used; it
  fails, with \<open>E_NO_FREE_ENV\<close> and no change, exactly when all 64 are in use; and
  \<^verbatim>\<open>asid_free\<close> of the allocated ASID restores the set of used ones.
\<close>

theorem asid_alloc_correct:
  "(asid_used s = {..<NASID} \<and> asid_alloc s = Done (Inl E_NO_FREE_ENV) s) \<or>
   (\<exists>i s'. i < NASID \<and> i \<notin> asid_used s \<and> {..<i} \<subseteq> asid_used s \<and> asid_alloc s = Done (Inr (of_nat i)) s' \<and>
      asid_used s' = insert i (asid_used s) \<and>
      (\<exists>s''. asid_free (of_nat i) s' = Done () s'' \<and> asid_used s'' = asid_used s))"
proof (cases s rule: asid_alloc_cases)
  case full
  then show ?thesis by (auto simp: asid_used_def)
next
  case (found i)
  have opt: "asid_alloc_opt s = Some (i, set_asid i s)"
    using found by (simp add: asid_alloc_opt_def unat_NASID)
  have "asid_free (of_nat i) (set_asid i s) = Done () (asid_release i (set_asid i s))"
    using found(1) by (simp add: asid_free_run unat_NASID)
  with found asids.alloc_release(1) [OF TrueI opt] asid_used_set [OF found(1), of s] show ?thesis by blast
qed

section \<open>Names of environments\<close>

text \<open>
  C7. \<^verbatim>\<open>envid2env\<close> resolves a nonzero id exactly to the environment in use that has it, and
  to nothing when there is none; with the permission check it does so exactly when that environment
  is the caller or a child of the caller. It never changes the state.
\<close>

theorem envid2env_correct:
  assumes "ids_ok s" "curenv s = Some c" "envid \<noteq> 0"
  shows "(\<exists>e. names s envid e \<and> (chk \<longrightarrow> may_control s c e) \<and> envid2env envid chk s = Done (Inr (Some e)) s) \<or>
    ((\<forall>e. names s envid e \<longrightarrow> chk \<and> \<not> may_control s c e) \<and> envid2env envid chk s = Done (Inl E_BAD_ENV) s)"
proof (cases "names s envid (ENVX envid) \<and> (chk \<longrightarrow> may_control s c (ENVX envid))")
  case True
  with envid2env_run [OF assms, of chk] show ?thesis by auto
next
  case False
  moreover have "names s envid e \<Longrightarrow> e = ENVX envid" for e using names_iff [OF assms(1,3)] by simp
  ultimately have "\<forall>e. names s envid e \<longrightarrow> chk \<and> \<not> may_control s c e" by metis
  moreover have "envid2env envid chk s = Done (Inl E_BAD_ENV) s"
    using False envid2env_run [OF assms, of chk] by (simp only: if_False)
  ultimately show ?thesis by blast
qed

theorem envid2env_correct_witness:
  "envid2env (envid_of 1 0) True env_machine = Done (Inr (Some 0)) env_machine"
proof -
  have "envid_of 1 0 \<noteq> 0" by (rule envid_of_nonzero) (simp_all add: NENV_def)
  note env = envid2env_correct [OF env_machine_ids env_machine_simps(2) this, of True]
  have n: "names env_machine (envid_of 1 0) 0" "may_control env_machine 0 0"
    by (simp_all add: names_def may_control_def one_env_def zero_env_def NENV_def)
  have "names env_machine (envid_of 1 0) e \<Longrightarrow> e = 0" for e
    by (simp add: names_def one_env_def zero_env_def split: if_splits)
  with env n show ?thesis by blast
qed

text \<open>
  Ids made by \<^verbatim>\<open>mkenvid\<close> lead back to their environment: the low bits are its index, so
  two environments never share an id, and one environment gets a new id each time until the counter
  has wrapped through \<open>2 ^ 21\<close> calls.
\<close>

theorem mkenvid_unique:
  assumes "e < NENV" "e' < NENV" "mkenvid e s = Done x s1" "mkenvid e' t = Done y t1"
  shows "ENVX x = e \<and> (x = y \<longrightarrow> e = e' \<and> take_bit 21 (mkenvid_i s1) = take_bit 21 (mkenvid_i t1))"
  using assms envid_of_inj [OF assms(1,2), of "mkenvid_i s + 1" "mkenvid_i t + 1"]
  by (auto simp: mkenvid_run)

theorem mkenvid_unique_witness:
  "ENVX (envid_of 2 1) = 1 \<and> envid_of 2 1 \<noteq> envid_of 2 2"
  using mkenvid_unique [where e = 1 and e' = 2 and s = env_machine and t = env_machine
      and x = "envid_of 2 1" and y = "envid_of 2 2"]
  by (simp add: mkenvid_run NENV_def LOG2NENV_def)

section \<open>Creation\<close>

text \<open>
  Every id in the table was made by \<^verbatim>\<open>mkenvid\<close> with a value that its counter has had.
\<close>

definition ids_issued :: "kstate \<Rightarrow> bool" where
  "ids_issued s \<longleftrightarrow> (\<forall>x < NENV. \<exists>j \<le> mkenvid_i s. env_id (envs s x) \<in> {0, envid_of j x})"

lemma envid_of_new:
  assumes "e < NENV" "x < NENV" "unat i + 1 < 2 ^ 21" "j \<le> i"
  shows "envid_of (i + 1) e \<noteq> envid_of j x"
proof
  assume "envid_of (i + 1) e = envid_of j x"
  from envid_of_inj(2) [OF assms(1,2) this] have "unat (take_bit 21 (i + 1)) = unat (take_bit 21 j)" by simp
  moreover have "unat (i + 1) = unat i + 1" using assms(3) by (simp add: unat_word_ariths)
  ultimately show False using assms(3,4) by (simp add: unsigned_take_bit_eq take_bit_nat_eq_self word_le_nat_alt)
qed

lemma ids_issued_alloc:
  assumes "ids_issued s" "unat (mkenvid_i s) + 1 < 2 ^ 21"
  shows "ids_issued (alloc_state e pp i parent s)"
proof -
  have up: "mkenvid_i s \<le> mkenvid_i s + 1"
    using assms(2) by (simp add: word_le_nat_alt unat_word_ariths)
  have "\<exists>j \<le> mkenvid_i s + 1. env_id (envs (alloc_state e pp i parent s) x) \<in> {0, envid_of j x}"
    if "x < NENV" for x
  proof (cases "x = e")
    case True
    then show ?thesis by (intro exI [of _ "mkenvid_i s + 1"]) (simp add: alloc_state_def new_env_def)
  next
    case False
    from assms(1) that obtain j where "j \<le> mkenvid_i s" "env_id (envs s x) \<in> {0, envid_of j x}"
      by (auto simp: ids_issued_def)
    with False up show ?thesis by (intro exI [of _ j]) (auto simp: alloc_state_def)
  qed
  then show ?thesis by (simp add: ids_issued_def alloc_state_def)
qed

lemma env_machine_issued: "ids_issued env_machine"
  by (auto simp: ids_issued_def one_env_def zero_env_def)

text \<open>
  C8. \<^verbatim>\<open>env_alloc\<close> with a free environment, a free page and a free ASID: it returns the head
  of the free list with a fresh id, the lowest free ASID and its own address space. While the counter
  of \<^verbatim>\<open>mkenvid\<close> has not reached \<open>2 ^ 21\<close>, the id is nonzero and differs from every id that
  the counter has given out before, hence from that of every slot of the table, and the counter is
  advanced, so that the same holds for the next call. Nothing
  below \<^verbatim>\<open>UTOP\<close> is mapped, the tables of \<^verbatim>\<open>[UTOP, UVPT)\<close> are those of the template and
  slot \<^verbatim>\<open>UVPT\<close> is the directory itself; the invariant of physical memory holds with the new
  directory, the translations of all other spaces are unchanged, and so are all other environments.
\<close>

theorem env_alloc_correct:
  assumes "mm_inv idx pin (pp # fl) s" "base_pgdir s \<notin> set (pp # fl)"
    and "is_list (env_free_list s) (e # el)" "i < NASID" "i \<notin> asid_used s" "{..<i} \<subseteq> asid_used s"
    and "e < NENV" "ids_issued s" "unat (mkenvid_i s) + 1 < 2 ^ 21"
  shows "\<exists>s'. env_alloc parent s = Done (Inr e) s' \<and>
    mkenvid_i s' = mkenvid_i s + 1 \<and> ids_issued s' \<and> env_id (envs s' e) \<noteq> 0 \<and>
    (\<forall>j \<le> mkenvid_i s. \<forall>x < NENV. env_id (envs s' e) \<noteq> envid_of j x) \<and>
    (\<forall>x < NENV. env_id (envs s' e) \<noteq> env_id (envs s x)) \<and>
    mm_inv (idx(pp := user_slots)) (pin(pp := 1)) fl s' \<and> is_list (env_free_list s') el \<and>
    asid_used s' = insert i (asid_used s) \<and>
    envs s' = (envs s)(e := new_env pp (envid_of (mkenvid_i s + 1) e) (of_nat i) parent (envs s e)) \<and>
    (\<forall>va. PDX va < PDX UTOP \<longrightarrow> lookup_pte (mem s') pp va = 0) \<and>
    (\<forall>k \<in> {PDX UTOP..<PDX UVPT}. mem s' pp k = mem s (base_pgdir s) k) \<and>
    mem s' pp (PDX UVPT) = page2pa pp OR PTE_V \<and>
    (\<forall>d va. PDX va \<in> idx d \<longrightarrow> lookup_pte (mem s') d va = lookup_pte (mem s) d va)"
proof -
  let ?s = "alloc_state e pp i parent s"
  have "\<forall>j < i. j \<in> asid_used s" using assms(6) by auto
  note run = env_alloc_run [OF assms(1-5) this, of parent]
  have mem: "mem ?s = (mem s)(pp := new_dir pp s)" by (simp add: alloc_state_def set_asid_def)
  from set_up_inv(1) [OF assms(1), of e] set_up_inv(2) [OF assms(1)] have inv: "mm_inv (idx(pp := user_slots)) (pin(pp := 1)) fl ?s"
    and pp: "idx pp = {}" by (simp_all add: alloc_state_def set_asid_def mm_inv_def)
  from lq.pop(2) [OF assms(3)] have el: "is_list (env_free_list ?s) el"
    by (auto simp: alloc_state_def)
  have ref: "pp < npage s" "pp_ref s pp = 0" using assms(1) by (simp_all add: mm_inv_def)
  note un = mm_inv_unreferenced(3) [OF assms(1) ref]
  have "lookup_pte (mem ?s) d va = lookup_pte (mem s) d va" if "PDX va \<in> idx d" for d va
  proof (cases "valid (mem s d (PDX va))")
    case True
    with that un [of "(d, PDX va)"] pp show ?thesis
      unfolding mem by (auto simp: lookup_pte_def tabs_def tab_of.simps)
  next
    case False
    with that pp show ?thesis unfolding mem by (auto simp: lookup_pte_def)
  qed
  moreover have "asid_used ?s = insert i (asid_used s)"
    using asid_used_set [OF assms(4), of "set_up e pp s"] by (simp add: alloc_state_def asid_used_def)
  moreover have "envs ?s = (envs s)(e := new_env pp (envid_of (mkenvid_i s + 1) e) (of_nat i) parent (envs s e))"
    by (simp add: alloc_state_def)
  moreover have "\<forall>va. PDX va < PDX UTOP \<longrightarrow> lookup_pte (mem ?s) pp va = 0"
    unfolding mem by (simp add: lookup_pte_def new_dir_def PDX_UTOP)
  moreover have fresh: "\<forall>j \<le> mkenvid_i s. \<forall>x < NENV. env_id (envs ?s e) \<noteq> envid_of j x"
    using envid_of_new [OF assms(7) _ assms(9)] by (simp add: alloc_state_def new_env_def)
  moreover have "env_id (envs ?s e) \<noteq> 0"
    using envid_of_new [OF assms(7) _ assms(9), of 0 0]
    by (simp add: alloc_state_def new_env_def envid_of_def NENV_def)
  moreover from this fresh assms(8) have "\<forall>x < NENV. env_id (envs ?s e) \<noteq> env_id (envs s x)"
    unfolding ids_issued_def by (metis empty_iff insert_iff)
  moreover have "ids_issued ?s" "mkenvid_i ?s = mkenvid_i s + 1"
    using ids_issued_alloc [OF assms(8,9)] by (simp_all add: alloc_state_def)
  ultimately show ?thesis
    using run inv el assms(6) unfolding mem
    by (intro exI [of _ ?s]) (auto simp: mem new_dir_def PDX_UTOP PDX_UVPT)
qed

theorem env_alloc_correct_witness:
  "\<exists>s'. env_alloc 0 env_machine = Done (Inr 1) s' \<and> env_id (envs s' 1) = envid_of 2 1 \<and>
     env_id (envs s' 1) \<noteq> env_id (envs env_machine 0) \<and> mkenvid_i s' = 2 \<and> asid_used s' = {0, 1} \<and> (\<forall>va. PDX va < PDX UTOP \<longrightarrow> lookup_pte (mem s') 4 va = 0)"
proof -
  have "{..<Suc 0} \<subseteq> {0 :: nat}" by auto
  with env_alloc_correct [OF env_machine_inv _ env_machine_lists(2) _ _ _ _ env_machine_issued,
      where i = 1 and parent = 0]
  obtain s' where "env_alloc 0 env_machine = Done (Inr 1) s'" "asid_used s' = insert 1 {0}"
    "mkenvid_i s' = 2" "env_id (envs s' 1) \<noteq> env_id (one_env 0)"
    "envs s' = one_env(1 := new_env 4 (envid_of 2 1) 1 0 (one_env 1))"
    "\<forall>va. PDX va < PDX UTOP \<longrightarrow> lookup_pte (mem s') 4 va = 0"
    by (auto simp: env_machine_asids NASID_def NENV_def LOG2NENV_def)
  then show ?thesis by (auto simp: new_env_def)
qed

text \<open>
  When all ASIDs are in use, \<^verbatim>\<open>env_alloc\<close> fails but has taken a page: the free list has
  lost its first page, to a directory that no environment in use refers to.
\<close>

theorem env_alloc_leaks_directory:
  assumes "mm_inv idx pin (pp # fl) s" "base_pgdir s \<notin> set (pp # fl)"
    and "is_list (env_free_list s) (e # el)" "{..<NASID} \<subseteq> asid_used s"
  shows "\<exists>s'. env_alloc parent s = Done (Inl E_NO_FREE_ENV) s' \<and> is_list (page_free_list s') fl \<and>
    is_list (env_free_list s') (e # el)"
proof -
  from env_alloc_no_asid [OF assms] obtain s' where "env_alloc parent s = Done (Inl E_NO_FREE_ENV) s'"
    "mm_inv (idx(pp := user_slots)) (pin(pp := 1)) fl s'" "env_free_list s' = env_free_list s" by blast
  with assms(3) show ?thesis by (auto simp: mm_inv_def)
qed

theorem env_alloc_leaks_directory_witness:
  "\<exists>s'. env_alloc 0 (env_machine\<lparr>asid_bitmap := (\<lambda>_. - 1)\<rparr>) = Done (Inl E_NO_FREE_ENV) s' \<and>
     is_list (page_free_list s') [5, 6, 7]"
proof -
  let ?s = "env_machine\<lparr>asid_bitmap := (\<lambda>_. - 1)\<rparr>"
  have "mm_inv small_idx small_pin [4, 5, 6, 7] ?s" using env_machine_inv by (simp add: mm_inv_def)
  moreover have "{..<NASID} \<subseteq> asid_used ?s" by (auto simp: asid_used_def bitmap_bit_def)
  moreover have "is_list (env_free_list ?s) [1, 2]" using env_machine_lists(2) by simp
  ultimately show ?thesis using env_alloc_leaks_directory [of small_idx small_pin 4 "[5, 6, 7]" ?s 1 "[2]" 0] by auto
qed

section \<open>Destruction\<close>

text \<open>
  C9. \<^verbatim>\<open>env_free\<close> of an environment in the run list returns all its memory: afterwards every
  page without references is on the free list (if that held before), the invariant holds without
  the environment's directory, no translation of another space has changed, its ASID is free, and
  the environment has moved from the run list to the head of the free list.
\<close>

theorem env_free_correct:
  assumes "mm_inv idx pin fl s" "idx (env_pgdir (envs s e)) = user_slots" "pin (env_pgdir (envs s e)) = 1"
    and "is_tailq (env_sched_list s) xs" "e \<in> set xs" "is_list (env_free_list s) el" "e \<notin> set el"
    and "no_leak fl s"
  shows "\<exists>s' fl'. env_free e s = Done () s' \<and>
    mm_inv (idx(env_pgdir (envs s e) := {})) (pin(env_pgdir (envs s e) := 0)) fl' s' \<and> no_leak fl' s' \<and>
    (\<forall>d va. d \<noteq> env_pgdir (envs s e) \<longrightarrow> PDX va \<in> idx d \<longrightarrow> lookup_pte (mem s') d va = lookup_pte (mem s) d va) \<and>
    asid_used s' = asid_used s - {unat (env_asid (envs s e))} \<and>
    is_list (env_free_list s') (e # el) \<and> is_tailq (env_sched_list s') (remove1 e xs) \<and>
    envs s' = (envs s)(e := (envs s e)\<lparr>env_status := ENV_FREE\<rparr>)"
  using env_free_run [OF assms(1) refl assms(2-7)] assms(8) by blast

theorem env_free_correct_witness:
  "\<exists>s' fl'. env_free 0 env_machine = Done () s' \<and>
     mm_inv (small_idx(1 := {})) (small_pin(1 := 0)) fl' s' \<and> no_leak fl' s' \<and> asid_used s' = {}"
proof -
  have "no_leak [4, 5, 6, 7] env_machine" by (auto simp: no_leak_def)
  moreover have "small_idx (env_pgdir (one_env 0)) = user_slots" "small_pin (env_pgdir (one_env 0)) = 1"
    by (simp_all add: small_idx_def small_pin_def user_slots_def one_env_def zero_env_def)
  ultimately show ?thesis
    using env_free_correct [OF env_machine_inv _ _ env_machine_lists(1) _ env_machine_lists(2)]
    by (fastforce simp: env_machine_asids one_env_def zero_env_def)
qed

end
