(* ===== verification/Elf.thy ===== *)
theory Elf
  imports Sched
begin

text \<open>
  The ELF loader: \<^verbatim>\<open>lib/elfloader.c\<close>, and \<^verbatim>\<open>load_icode\<close> and
  \<^verbatim>\<open>env_create\<close> of \<^verbatim>\<open>kern/env.c\<close>, which load the first environments.

  The image is memory the loader can read, \<open>rd :: u32 \<Rightarrow> u8\<close>, and a pointer into it is an
  address. The loader is polymorphic in the state: \<open>map_page\<close> is the callback of
  \<^verbatim>\<open>elf_load_seg\<close>, called with an address, an offset in its page, the permissions, the source
  (\<open>None\<close> for \<^verbatim>\<open>NULL\<close>) and the number of bytes.
\<close>

type_synonym 's mapper = "u32 \<Rightarrow> u32 \<Rightarrow> u32 \<Rightarrow> u32 option \<Rightarrow> u32 \<Rightarrow> ('s, err + unit) kprog"

definition rd_half :: "(u32 \<Rightarrow> u8) \<Rightarrow> u32 \<Rightarrow> u32" where
  "rd_half rd a = ucast (rd a) OR push_bit 8 (ucast (rd (a + 1)))"

definition rd_word :: "(u32 \<Rightarrow> u8) \<Rightarrow> u32 \<Rightarrow> u32" where
  "rd_word rd a = rd_half rd a OR push_bit 16 (rd_half rd (a + 2))"

record ehdr =
  e_ident :: "u8 list"
  e_type :: u32
  e_entry :: u32
  e_phoff :: u32
  e_phentsize :: u32
  e_phnum :: u32

record phdr =
  p_type :: u32
  p_offset :: u32
  p_vaddr :: u32
  p_filesz :: u32
  p_memsz :: u32
  p_flags :: u32

definition read_ehdr :: "(u32 \<Rightarrow> u8) \<Rightarrow> u32 \<Rightarrow> ehdr" where
  "read_ehdr rd a = \<lparr>e_ident = [rd a, rd (a + 1), rd (a + 2), rd (a + 3)],
     e_type = rd_half rd (a + 16), e_entry = rd_word rd (a + 24), e_phoff = rd_word rd (a + 28),
     e_phentsize = rd_half rd (a + 42), e_phnum = rd_half rd (a + 44)\<rparr>"

definition read_phdr :: "(u32 \<Rightarrow> u8) \<Rightarrow> u32 \<Rightarrow> phdr" where
  "read_phdr rd a = \<lparr>p_type = rd_word rd a, p_offset = rd_word rd (a + 4),
     p_vaddr = rd_word rd (a + 8), p_filesz = rd_word rd (a + 16), p_memsz = rd_word rd (a + 20),
     p_flags = rd_word rd (a + 24)\<rparr>"

definition elf_from :: "(u32 \<Rightarrow> u8) \<Rightarrow> u32 \<Rightarrow> u32 \<Rightarrow> ehdr option" where
  "elf_from rd binary len =
     (let h = read_ehdr rd binary in
      if 52 \<le> len \<and> e_ident h = [0x7F, 0x45, 0x4C, 0x46] \<and> e_type h = 2
      then Some h else None)"

text \<open>
  The two loops of \<^verbatim>\<open>elf_load_seg\<close>. The index is a 32-bit integer that wraps, so they carry
  fuel; \<open>elf_fuel\<close> steps suffice for every segment that does not reach the last page of the
  address space.
\<close>

fun elf_load_bin :: "nat \<Rightarrow> 's mapper \<Rightarrow> u32 \<Rightarrow> u32 \<Rightarrow> u32 \<Rightarrow> u32 \<Rightarrow> u32 \<Rightarrow> ('s, err + u32) kprog" where
  "elf_load_bin n map_page va perm bin bin_size i =
     (if i < bin_size then
        case n of
          0 \<Rightarrow> panicK ''elf_load_seg loops''
        | Suc n' \<Rightarrow>
            tryK (map_page (va + i) 0 perm (Some (bin + i)) (min (bin_size - i) BY2PG)) (\<lambda>_.
            elf_load_bin n' map_page va perm bin bin_size (i + BY2PG))
      else retK (Inr i))"

fun elf_load_bss :: "nat \<Rightarrow> 's mapper \<Rightarrow> u32 \<Rightarrow> u32 \<Rightarrow> u32 \<Rightarrow> u32 \<Rightarrow> u32 \<Rightarrow> ('s, err + unit) kprog" where
  "elf_load_bss n map_page va perm bin_size sgsize i =
     (if i < sgsize then
        case n of
          0 \<Rightarrow> panicK ''elf_load_seg loops''
        | Suc n' \<Rightarrow>
            tryK (map_page (va + i) 0 perm None (min (bin_size - i) BY2PG)) (\<lambda>_.
            elf_load_bss n' map_page va perm bin_size sgsize (i + BY2PG))
      else retK (Inr ()))"

declare elf_load_bin.simps [simp del] elf_load_bss.simps [simp del]

definition PF_W :: u32 where "PF_W = 2"
definition elf_fuel :: nat where "elf_fuel = 2 ^ 20"

definition elf_load_seg :: "phdr \<Rightarrow> u32 \<Rightarrow> 's mapper \<Rightarrow> ('s, err + unit) kprog" where
  "elf_load_seg ph bin map_page =
     (let va = p_vaddr ph; bin_size = p_filesz ph; sgsize = p_memsz ph;
          perm = (if p_flags ph AND PF_W \<noteq> 0 then PTE_V OR PTE_D else PTE_V);
          offset = va - ROUNDDOWN va BY2PG;
          first = min bin_size (BY2PG - offset)
      in
      tryK (if offset \<noteq> 0 then map_page va offset perm (Some bin) first else retK (Inr ())) (\<lambda>_.
      tryK (elf_load_bin elf_fuel map_page va perm bin bin_size (if offset \<noteq> 0 then first else 0)) (\<lambda>i.
      elf_load_bss elf_fuel map_page va perm bin_size sgsize i)))"

section \<open>Loading the first environments\<close>

text \<open>\<^verbatim>\<open>memcpy\<close> to a kernel address, given as a physical address.\<close>

fun kcopy :: "nat \<Rightarrow> u8 list \<Rightarrow> (nat \<Rightarrow> frame) \<Rightarrow> (nat \<Rightarrow> frame)" where
  "kcopy a [] m = m"
| "kcopy a (b # bs) m =
     kcopy (Suc a) bs (m(a div 4096 := set_frame_byte (m (a div 4096)) (a mod 4096) b))"

definition rd_bytes :: "(u32 \<Rightarrow> u8) \<Rightarrow> u32 \<Rightarrow> nat \<Rightarrow> u8 list" where
  "rd_bytes rd a n = map (\<lambda>k. rd (a + of_nat k)) [0..<n]"

text \<open>The result of \<^verbatim>\<open>page_alloc\<close> is not checked: on failure \<^verbatim>\<open>p\<close> is an uninitialised pointer.\<close>

definition load_icode_mapper :: "(u32 \<Rightarrow> u8) \<Rightarrow> nat \<Rightarrow> kstate mapper" where
  "load_icode_mapper rd e va offset perm src len =
     bindK page_alloc (\<lambda>r. case r of
       Inl _ \<Rightarrow> panicK ''uninitialised page pointer''
     | Inr p \<Rightarrow>
         seqK (case src of
                 None \<Rightarrow> retK ()
               | Some a \<Rightarrow> bindK (page2kva p) (\<lambda>fr. modifyK (\<lambda>s. s\<lparr>mem :=
                   kcopy (fr * 4096 + unat offset) (rd_bytes rd a (unat len)) (mem s)\<rparr>)))
        (bindK (getsK (\<lambda>s. envs s e)) (\<lambda>env.
         page_insert (env_pgdir env) (env_asid env) p va perm)))"

definition load_icode :: "(u32 \<Rightarrow> u8) \<Rightarrow> nat \<Rightarrow> u32 \<Rightarrow> u32 \<Rightarrow> (kstate, unit) kprog" where
  "load_icode rd e binary len = (case elf_from rd binary len of
       None \<Rightarrow> panicK ''bad elf''
     | Some eh \<Rightarrow>
         seqK (forK [0..<unat (e_phnum eh)] (\<lambda>k.
           let ph = read_phdr rd (binary + (e_phoff eh + of_nat k * e_phentsize eh)) in
           if p_type ph = 1 then
             bindK (elf_load_seg ph (binary + p_offset ph) (load_icode_mapper rd e)) (\<lambda>r. case r of
               Inl _ \<Rightarrow> panicK ''elf_load_seg failed''
             | Inr _ \<Rightarrow> retK ())
           else retK ()))
        (modifyK (upd_env e (env_tf_update (\<lambda>tf. tf\<lparr>tf_epc := e_entry eh\<rparr>)))))"

definition env_create :: "(u32 \<Rightarrow> u8) \<Rightarrow> u32 \<Rightarrow> u32 \<Rightarrow> u32 \<Rightarrow> (kstate, nat) kprog" where
  "env_create rd binary len priority =
     bindK (env_alloc 0) (\<lambda>r. case r of
       Inl _ \<Rightarrow> panicK ''uninitialised environment pointer''
     | Inr e \<Rightarrow>
         seqK (modifyK (upd_env e (env_pri_update (\<lambda>_. priority))))
        (seqK (modifyK (upd_env e (env_status_update (\<lambda>_. ENV_RUNNABLE))))
        (seqK (load_icode rd e binary len)
        (seqK (modifyK (\<lambda>s. s\<lparr>env_sched_list := TAILQ_INSERT_HEAD e (env_sched_list s)\<rparr>))
              (retK e)))))"

section \<open>The section table\<close>

text \<open>
  \<^verbatim>\<open>tools/readelf/readelf.c\<close>, on the bytes of the file: the lines it prints are \<open>(index, address)\<close>, \<open>Inl\<close> is
  the message for a file that is no ELF file, and \<open>None\<close> stands for a read behind the file.
\<close>

definition is_elf_format :: "u8 list \<Rightarrow> bool" where
  "is_elf_format file \<longleftrightarrow> 52 \<le> length file \<and> take 4 file = [0x7F, 0x45, 0x4C, 0x46]"

definition file_half :: "u8 list \<Rightarrow> nat \<Rightarrow> nat" where
  "file_half file a = unat (file ! a) + 256 * unat (file ! (a + 1))"

definition file_word :: "u8 list \<Rightarrow> nat \<Rightarrow> nat" where
  "file_word file a = file_half file a + 65536 * file_half file (a + 2)"

definition section_addr :: "u8 list \<Rightarrow> nat \<Rightarrow> nat option" where
  "section_addr file shdr = (if shdr + 16 \<le> length file then Some (file_word file (shdr + 12)) else None)"

fun section_lines :: "u8 list \<Rightarrow> nat \<Rightarrow> nat \<Rightarrow> nat list \<Rightarrow> (nat \<times> nat) list option" where
  "section_lines file sh_table sh_entry_size [] = Some []"
| "section_lines file sh_table sh_entry_size (i # is) =
     (case section_addr file (sh_table + i * sh_entry_size) of
        None \<Rightarrow> None
      | Some addr \<Rightarrow> map_option (\<lambda>ls. (i, addr) # ls) (section_lines file sh_table sh_entry_size is))"

definition readelf :: "u8 list \<Rightarrow> (string + (nat \<times> nat) list) option" where
  "readelf file =
     (if \<not> is_elf_format file then Some (Inl ''not an elf file'')
      else map_option Inr (section_lines file (file_word file 32) (file_half file 46) [0..<file_half file 48]))"

end
