(* ===== verification/Tlbex.thy ===== *)
theory Tlbex
  imports Env
begin

text \<open>
  The TLB exceptions of \<^verbatim>\<open>kern/tlbex.c\<close>, and the kernel's accesses to user memory, which
  go through the TLB and may take a refill.
\<close>

section \<open>Refill\<close>

definition passive_alloc :: "u32 \<Rightarrow> nat \<Rightarrow> u32 \<Rightarrow> (kstate, unit) kprog" where
  "passive_alloc va pgdir asid =
     (if va < UTEMP then panicK ''address too low''
      else if USTACKTOP \<le> va \<and> va < USTACKTOP + BY2PG then panicK ''invalid memory''
      else if UENVS \<le> va \<and> va < UPAGES then panicK ''envs zone''
      else if UPAGES \<le> va \<and> va < UVPT then panicK ''pages zone''
      else if ULIM \<le> va then panicK ''kernel address''
      else bindK page_alloc (\<lambda>r. case r of
             Inl _ \<Rightarrow> panicK ''page_alloc(&p) failed''
           | Inr p \<Rightarrow> bindK (page_insert pgdir asid p (PTE_ADDR va) PTE_D) (\<lambda>r. case r of
               Inl _ \<Rightarrow> panicK ''page_insert failed''
             | Inr _ \<Rightarrow> retK ())))"

text \<open>
  The loop of \<^verbatim>\<open>_do_tlb_refill\<close>, with the number of \<^verbatim>\<open>page_lookup\<close> calls as fuel:
  after one \<^verbatim>\<open>passive_alloc\<close> the second lookup succeeds (\<open>refill_terminates\<close>).
\<close>

fun tlb_refill_loop :: "nat \<Rightarrow> u32 \<Rightarrow> u32 \<Rightarrow> (kstate, u32) kprog" where
  "tlb_refill_loop 0 va asid = panicK ''refill loops''"
| "tlb_refill_loop (Suc n) va asid =
     bindK (getsK cur_pgdir) (\<lambda>dir.
     bindK (page_lookup dir va) (\<lambda>r. case r of
       Some (pp, t, j) \<Rightarrow> getsK (\<lambda>s. mem s t j)
     | None \<Rightarrow> seqK (passive_alloc va dir asid) (tlb_refill_loop n va asid)))"

definition do_tlb_refill :: "u32 \<Rightarrow> u32 \<Rightarrow> (kstate, u32) kprog" where
  "do_tlb_refill va asid =
     bindK (tlb_refill_loop 2 va asid) (\<lambda>pte.
     seqK (modifyK (\<lambda>s. s\<lparr>tlb := (tlb s)(tlb_key asid va := Some pte)\<rparr>)) (retK pte))"

section \<open>User memory from the kernel\<close>

definition cur_asid :: "kstate \<Rightarrow> u32" where
  "cur_asid s = (case curenv s of None \<Rightarrow> 0 | Some e \<Rightarrow> env_asid (envs s e))"

text \<open>The frame behind a virtual address: through the TLB below \<^verbatim>\<open>ULIM\<close>, directly in \<^verbatim>\<open>kseg0\<close>.\<close>

definition translate :: "bool \<Rightarrow> u32 \<Rightarrow> (kstate, nat) kprog" where
  "translate wr va =
     (if va < ULIM then
        bindK (getsK (\<lambda>s. tlb s (tlb_key (cur_asid s) va))) (\<lambda>hit.
        bindK (case hit of
                 Some lo \<Rightarrow> if valid lo then retK lo
                            else bindK (getsK cur_asid) (do_tlb_refill va)
               | None \<Rightarrow> bindK (getsK cur_asid) (do_tlb_refill va)) (\<lambda>lo.
        if wr \<and> lo AND PTE_D = 0 then panicK ''TLB Mod in the kernel'' else retK (PPN lo)))
      else if va < KSEG1 then KADDR (va - ULIM)
      else panicK ''uncached access'')"

definition load_byte :: "u32 \<Rightarrow> (kstate, u8) kprog" where
  "load_byte va = bindK (translate False va) (\<lambda>fr. getsK (\<lambda>s. frame_byte (mem s fr) (unat va mod 4096)))"

definition store_byte :: "u32 \<Rightarrow> u8 \<Rightarrow> (kstate, unit) kprog" where
  "store_byte va b = bindK (translate True va) (\<lambda>fr.
     modifyK (\<lambda>s. s\<lparr>mem := (mem s)(fr := set_frame_byte (mem s fr) (unat va mod 4096) b)\<rparr>))"

definition load_word :: "u32 \<Rightarrow> (kstate, u32) kprog" where
  "load_word va =
     seqK (assertK (va AND 3 = 0) ''unaligned access'')
    (bindK (translate False va) (\<lambda>fr. getsK (\<lambda>s. mem s fr (unat va mod 4096 div 4))))"

definition store_word :: "u32 \<Rightarrow> u32 \<Rightarrow> (kstate, unit) kprog" where
  "store_word va w =
     seqK (assertK (va AND 3 = 0) ''unaligned access'')
    (bindK (translate True va) (\<lambda>fr. modifyK (store fr (unat va mod 4096 div 4) w)))"

fun load_bytes :: "nat \<Rightarrow> u32 \<Rightarrow> (kstate, u8 list) kprog" where
  "load_bytes 0 va = retK []"
| "load_bytes (Suc n) va =
     bindK (load_byte va) (\<lambda>b. bindK (load_bytes n (va + 1)) (\<lambda>bs. retK (b # bs)))"

fun store_bytes :: "u8 list \<Rightarrow> u32 \<Rightarrow> (kstate, unit) kprog" where
  "store_bytes [] va = retK ()"
| "store_bytes (b # bs) va = seqK (store_byte va b) (store_bytes bs (va + 1))"

fun load_words :: "nat \<Rightarrow> u32 \<Rightarrow> (kstate, u32 list) kprog" where
  "load_words 0 va = retK []"
| "load_words (Suc n) va =
     bindK (load_word va) (\<lambda>w. bindK (load_words n (va + 4)) (\<lambda>ws. retK (w # ws)))"

fun store_words :: "u32 list \<Rightarrow> u32 \<Rightarrow> (kstate, unit) kprog" where
  "store_words [] va = retK ()"
| "store_words (w # ws) va = seqK (store_word va w) (store_words ws (va + 4))"

section \<open>Trap frames in memory\<close>

definition tf_words :: "trapframe \<Rightarrow> u32 list" where
  "tf_words tf = map (tf_regs tf) [0..<32] @
     [tf_status tf, tf_hi tf, tf_lo tf, tf_badvaddr tf, tf_cause tf, tf_epc tf]"

definition words_tf :: "u32 list \<Rightarrow> trapframe" where
  "words_tf ws = \<lparr>tf_regs = (\<lambda>i. if i < 32 then ws ! i else 0), tf_status = ws ! 32, tf_hi = ws ! 33,
     tf_lo = ws ! 34, tf_badvaddr = ws ! 35, tf_cause = ws ! 36, tf_epc = ws ! 37\<rparr>"

definition sizeof_Trapframe :: u32 where "sizeof_Trapframe = 152"

lemma length_tf_words: "length (tf_words tf) = 38"
  by (simp add: tf_words_def)

lemma words_tf_words:
  "words_tf (tf_words tf) = tf\<lparr>tf_regs := \<lambda>i. if i < 32 then tf_regs tf i else 0\<rparr>"
proof -
  have "tf_words tf ! i = tf_regs tf i" if "i < 32" for i
    using that by (simp add: tf_words_def nth_append)
  moreover have "tf_words tf ! (32 + k) =
      [tf_status tf, tf_hi tf, tf_lo tf, tf_badvaddr tf, tf_cause tf, tf_epc tf] ! k" for k
    by (simp add: tf_words_def nth_append)
  from this [of 0] this [of 1] this [of 2] this [of 3] this [of 4] this [of 5]
  have "tf_words tf ! 32 = tf_status tf" "tf_words tf ! 33 = tf_hi tf" "tf_words tf ! 34 = tf_lo tf"
    "tf_words tf ! 35 = tf_badvaddr tf" "tf_words tf ! 36 = tf_cause tf" "tf_words tf ! 37 = tf_epc tf"
    by simp_all
  ultimately show ?thesis by (simp add: words_tf_def fun_eq_iff)
qed

section \<open>TLB Mod\<close>

text \<open>\<^verbatim>\<open>tf\<close> is the trap frame on the kernel stack.\<close>

definition set_tf_reg :: "nat \<Rightarrow> u32 \<Rightarrow> trapframe \<Rightarrow> trapframe" where
  "set_tf_reg i w tf = tf\<lparr>tf_regs := (tf_regs tf)(i := w)\<rparr>"

definition do_tlb_mod :: "(kstate, unit) kprog" where
  "do_tlb_mod =
     bindK (getsK kstack_tf) (\<lambda>tmp_tf.
     let sp = (if tf_regs tmp_tf 29 < USTACKTOP \<or> UXSTACKTOP \<le> tf_regs tmp_tf 29
               then UXSTACKTOP else tf_regs tmp_tf 29) - sizeof_Trapframe
     in
     seqK (modifyK (\<lambda>s. s\<lparr>kstack_tf := set_tf_reg 29 sp (kstack_tf s)\<rparr>))
    (seqK (store_words (tf_words tmp_tf) sp)
    (bindK (getsK curenv) (\<lambda>c. the_env c (\<lambda>e.
     bindK (getsK (\<lambda>s. env_user_tlb_mod_entry (envs s e))) (\<lambda>entry.
     if entry \<noteq> 0 then
       seqK (modifyK (\<lambda>s. s\<lparr>kstack_tf := set_tf_reg 4 sp (kstack_tf s)\<rparr>))
      (seqK (modifyK (\<lambda>s. s\<lparr>kstack_tf := set_tf_reg 29 (sp - 4) (kstack_tf s)\<rparr>))
            (modifyK (\<lambda>s. s\<lparr>kstack_tf := (kstack_tf s)\<lparr>tf_epc := entry\<rparr>\<rparr>)))
     else panicK ''TLB Mod but no user handler registered''))))))"

end
