(* ===== verification/Syscall.thy ===== *)
theory Syscall
  imports Elf Tlbex
begin

text \<open>
  The system calls of \<^verbatim>\<open>kern/syscall_all.c\<close> and their dispatch. A call returns \<open>Inl e\<close>
  for the code \<^verbatim>\<open>-e\<close> and \<open>Inr v\<close> for the value \<open>v\<close> that goes to \<^verbatim>\<open>$v0\<close>.
\<close>

type_synonym sysres = "err + u32"

abbreviation okK :: "(kstate, sysres) kprog" where "okK \<equiv> retK (Inr 0)"

definition is_illegal_va :: "u32 \<Rightarrow> bool" where
  "is_illegal_va va \<longleftrightarrow> va < UTEMP \<or> UTOP \<le> va"

definition is_illegal_va_range :: "u32 \<Rightarrow> u32 \<Rightarrow> bool" where
  "is_illegal_va_range va len =
     (if len = 0 then False else va + len < va \<or> va < UTEMP \<or> UTOP < va + len)"

section \<open>Console, environment ids, scheduling\<close>

definition sys_putchar :: "u32 \<Rightarrow> (kstate, unit) kprog" where
  "sys_putchar c = modifyK (\<lambda>s. s\<lparr>console := console s @ [ucast c]\<rparr>)"

definition sys_print_cons :: "u32 \<Rightarrow> u32 \<Rightarrow> (kstate, sysres) kprog" where
  "sys_print_cons a num =
     (if UTOP < a + num \<or> UTOP \<le> a \<or> a + num < a then retK (Inl E_INVAL)
      else seqK (forK [0..<unat num] (\<lambda>i. bindK (load_byte (a + of_nat i)) (\<lambda>b. sys_putchar (ucast b))))
                okK)"

definition sys_getenvid :: "(kstate, sysres) kprog" where
  "sys_getenvid = bindK (getsK curenv) (\<lambda>c. the_env c (\<lambda>e. getsK (\<lambda>s. Inr (env_id (envs s e)))))"

definition sys_yield :: "(kstate, sysres) kprog" where
  "sys_yield = schedule True"

definition sys_env_destroy :: "u32 \<Rightarrow> (kstate, sysres) kprog" where
  "sys_env_destroy envid =
     tryK (envid2env envid True) (\<lambda>p. the_env p (\<lambda>e. seqK (env_destroy e) okK))"

definition sys_set_tlb_mod_entry :: "u32 \<Rightarrow> u32 \<Rightarrow> (kstate, sysres) kprog" where
  "sys_set_tlb_mod_entry envid func =
     tryK (envid2env envid False) (\<lambda>p. the_env p (\<lambda>e.
       seqK (modifyK (upd_env e (env_user_tlb_mod_entry_update (\<lambda>_. func)))) okK))"

section \<open>Memory\<close>

definition page_insert_sys :: "nat \<Rightarrow> nat \<Rightarrow> u32 \<Rightarrow> u32 \<Rightarrow> (kstate, sysres) kprog" where
  "page_insert_sys e pp va perm =
     bindK (getsK (\<lambda>s. envs s e)) (\<lambda>env.
     tryK (page_insert (env_pgdir env) (env_asid env) pp va perm) (\<lambda>_. okK))"

definition sys_mem_alloc :: "u32 \<Rightarrow> u32 \<Rightarrow> u32 \<Rightarrow> (kstate, sysres) kprog" where
  "sys_mem_alloc envid va perm =
     (if is_illegal_va va then retK (Inl E_INVAL)
      else bindK (envid2env envid True) (\<lambda>r. case r of
          Inl _ \<Rightarrow> retK (Inl E_BAD_ENV)
        | Inr p \<Rightarrow> tryK page_alloc (\<lambda>pp. the_env p (\<lambda>e. page_insert_sys e pp va perm))))"

definition sys_mem_map :: "u32 \<Rightarrow> u32 \<Rightarrow> u32 \<Rightarrow> u32 \<Rightarrow> u32 \<Rightarrow> (kstate, sysres) kprog" where
  "sys_mem_map srcid srcva dstid dstva perm =
     (if is_illegal_va srcva \<or> is_illegal_va dstva then retK (Inl E_INVAL)
      else bindK (envid2env srcid True) (\<lambda>r. case r of
          Inl _ \<Rightarrow> retK (Inl E_BAD_ENV)
        | Inr src \<Rightarrow> bindK (envid2env dstid True) (\<lambda>r. case r of
          Inl _ \<Rightarrow> retK (Inl E_BAD_ENV)
        | Inr dst \<Rightarrow>
            the_env src (\<lambda>se.
            bindK (getsK (\<lambda>s. env_pgdir (envs s se))) (\<lambda>dir.
            bindK (page_lookup dir srcva) (\<lambda>l. case l of
              None \<Rightarrow> retK (Inl E_INVAL)
            | Some (pp, _, _) \<Rightarrow> the_env dst (\<lambda>de. page_insert_sys de pp dstva perm)))))))"

definition sys_mem_unmap :: "u32 \<Rightarrow> u32 \<Rightarrow> (kstate, sysres) kprog" where
  "sys_mem_unmap envid va =
     (if is_illegal_va va then retK (Inl E_INVAL)
      else bindK (envid2env envid True) (\<lambda>r. case r of
          Inl _ \<Rightarrow> retK (Inl E_BAD_ENV)
        | Inr p \<Rightarrow> the_env p (\<lambda>e.
            bindK (getsK (\<lambda>s. envs s e)) (\<lambda>env.
            seqK (page_remove (env_pgdir env) (env_asid env) va) okK))))"

section \<open>Creating and controlling environments\<close>

text \<open>\<^verbatim>\<open>strcpy\<close> between character arrays of \<open>n\<close> bytes; \<open>None\<close> when no terminator is found.\<close>

fun strcpy_buf :: "nat \<Rightarrow> nat \<Rightarrow> (nat \<Rightarrow> u8) \<Rightarrow> (nat \<Rightarrow> u8) \<Rightarrow> (nat \<Rightarrow> u8) option" where
  "strcpy_buf 0 i src dst = None"
| "strcpy_buf (Suc n) i src dst =
     (let dst = dst(i := src i) in if src i = 0 then Some dst else strcpy_buf n (Suc i) src dst)"

definition MAXPATH :: nat where "MAXPATH = 1024"

definition sys_exofork :: "(kstate, sysres) kprog" where
  "sys_exofork =
     bindK (getsK curenv) (\<lambda>c. the_env c (\<lambda>cur.
     bindK (getsK (\<lambda>s. env_id (envs s cur))) (\<lambda>cid.
     tryK (env_alloc cid) (\<lambda>e.
     seqK (modifyK (\<lambda>s. upd_env e (env_tf_update (\<lambda>_. kstack_tf s)) s))
    (seqK (modifyK (upd_env e (env_tf_update (set_tf_reg 2 0))))
    (seqK (modifyK (upd_env e (env_status_update (\<lambda>_. ENV_NOT_RUNNABLE))))
    (seqK (modifyK (\<lambda>s. upd_env e (env_pri_update (\<lambda>_. env_pri (envs s cur))) s))
    (seqK (stepK (\<lambda>s. map_option (\<lambda>p. upd_env e (env_path_update (\<lambda>_. p)) s)
             (strcpy_buf MAXPATH 0 (env_path (envs s cur)) (env_path (envs s e))))
             ''path without terminator'')
          (getsK (\<lambda>s. Inr (env_id (envs s e))))))))))))"

definition status_of :: "u32 \<Rightarrow> env_status option" where
  "status_of w = (if w = 1 then Some ENV_RUNNABLE else if w = 2 then Some ENV_NOT_RUNNABLE else None)"

definition sys_set_env_status :: "u32 \<Rightarrow> u32 \<Rightarrow> (kstate, sysres) kprog" where
  "sys_set_env_status envid status = (case status_of status of
       None \<Rightarrow> retK (Inl E_INVAL)
     | Some st \<Rightarrow>
         tryK (envid2env envid False) (\<lambda>p. the_env p (\<lambda>e.
         bindK (getsK (\<lambda>s. env_status (envs s e))) (\<lambda>old.
         seqK (if st = ENV_RUNNABLE \<and> old = ENV_NOT_RUNNABLE then sched_insert_tail e else retK ())
        (seqK (if st = ENV_NOT_RUNNABLE \<and> old = ENV_RUNNABLE then sched_remove e else retK ())
        (seqK (modifyK (upd_env e (env_status_update (\<lambda>_. st)))) okK))))))"

definition sys_set_trapframe :: "u32 \<Rightarrow> u32 \<Rightarrow> (kstate, sysres) kprog" where
  "sys_set_trapframe envid tf =
     (if is_illegal_va_range tf sizeof_Trapframe then retK (Inl E_INVAL)
      else tryK (envid2env envid True) (\<lambda>p.
        bindK (getsK curenv) (\<lambda>c.
        if p = c then
          bindK (load_words 38 tf) (\<lambda>ws.
          seqK (modifyK (\<lambda>s. s\<lparr>kstack_tf := words_tf ws\<rparr>))
         (bindK (load_word (tf + 8)) (\<lambda>w. retK (Inr w))))
        else the_env p (\<lambda>e.
          bindK (load_words 38 tf) (\<lambda>ws.
          seqK (modifyK (upd_env e (env_tf_update (\<lambda>_. words_tf ws)))) okK)))))"

definition sys_panic :: "(kstate, sysres) kprog" where
  "sys_panic = panicK ''panic from user''"

section \<open>Messages\<close>

definition sys_ipc_recv :: "u32 \<Rightarrow> (kstate, sysres) kprog" where
  "sys_ipc_recv dstva =
     (if dstva \<noteq> 0 \<and> is_illegal_va dstva then retK (Inl E_INVAL)
      else bindK (getsK curenv) (\<lambda>c. the_env c (\<lambda>cur.
        seqK (modifyK (upd_env cur (env_ipc_recving_update (\<lambda>_. 1))))
       (seqK (modifyK (upd_env cur (env_ipc_dstva_update (\<lambda>_. dstva))))
       (seqK (modifyK (upd_env cur (env_status_update (\<lambda>_. ENV_NOT_RUNNABLE))))
       (seqK (sched_remove cur)
       (seqK (modifyK (\<lambda>s. s\<lparr>kstack_tf := set_tf_reg 2 0 (kstack_tf s)\<rparr>))
             (schedule True))))))))"

definition sys_ipc_try_send :: "u32 \<Rightarrow> u32 \<Rightarrow> u32 \<Rightarrow> u32 \<Rightarrow> (kstate, sysres) kprog" where
  "sys_ipc_try_send envid val srcva perm =
     (if srcva \<noteq> 0 \<and> is_illegal_va srcva then retK (Inl E_INVAL)
      else tryK (envid2env envid False) (\<lambda>p. the_env p (\<lambda>e.
        bindK (getsK (\<lambda>s. env_ipc_recving (envs s e))) (\<lambda>recving.
        if recving = 0 then retK (Inl E_IPC_NOT_RECV)
        else bindK (getsK curenv) (\<lambda>c. the_env c (\<lambda>cur.
          seqK (modifyK (upd_env e (env_ipc_value_update (\<lambda>_. val))))
         (seqK (modifyK (\<lambda>s. upd_env e (env_ipc_from_update (\<lambda>_. env_id (envs s cur))) s))
         (seqK (modifyK (upd_env e (env_ipc_perm_update (\<lambda>_. PTE_V OR perm))))
         (seqK (modifyK (upd_env e (env_ipc_recving_update (\<lambda>_. 0))))
         (seqK (modifyK (upd_env e (env_status_update (\<lambda>_. ENV_RUNNABLE))))
         (seqK (sched_insert_tail e)
         (if srcva \<noteq> 0 then
            bindK (getsK (\<lambda>s. env_pgdir (envs s cur))) (\<lambda>dir.
            bindK (page_lookup dir srcva) (\<lambda>l. case l of
              None \<Rightarrow> retK (Inl E_INVAL)
            | Some (pp, _, _) \<Rightarrow>
                bindK (getsK (\<lambda>s. envs s e)) (\<lambda>env.
                bindK (page_insert (env_pgdir env) (env_asid env) pp (env_ipc_dstva env) perm)
                  (\<lambda>_. okK))))
          else okK)))))))))))) "

section \<open>Devices\<close>

text \<open>The loop of \<^verbatim>\<open>sys_cgetc\<close> polls until a key arrives.\<close>

fun cgetc_poll :: "u8 list \<Rightarrow> (u8 \<times> u8 list) option" where
  "cgetc_poll [] = None"
| "cgetc_poll (c # cs) = (if c = 0 then cgetc_poll cs else Some (c, cs))"

definition sys_cgetc :: "(kstate, sysres) kprog" where
  "sys_cgetc = bindK (getsK (\<lambda>s. cgetc_poll (cons_in s))) (\<lambda>r. case r of
       None \<Rightarrow> panicK ''no key is ever pressed''
     | Some (c, cs) \<Rightarrow> seqK (modifyK (\<lambda>s. s\<lparr>cons_in := cs\<rparr>)) (retK (Inr (ucast c))))"

definition is_dev_range :: "u32 \<Rightarrow> u32 \<Rightarrow> bool" where
  "is_dev_range pa len \<longleftrightarrow>
     0x10000000 \<le> pa \<and> pa + len \<le> 0x10000020 \<or>
     0x13000000 \<le> pa \<and> pa + len \<le> 0x13004200 \<or>
     0x15000000 \<le> pa \<and> pa + len \<le> 0x15000200"

definition sys_write_dev :: "u32 \<Rightarrow> u32 \<Rightarrow> u32 \<Rightarrow> (kstate, sysres) kprog" where
  "sys_write_dev va pa len =
     (if is_illegal_va_range va len then retK (Inl E_INVAL)
      else if \<not> is_dev_range pa len then retK (Inl E_INVAL)
      else bindK (load_bytes (unat len) va) (\<lambda>bs.
        seqK (modifyK (\<lambda>s. s\<lparr>dev_out := (pa, bs) # dev_out s\<rparr>)) okK))"

text \<open>\<open>rd\<close> is what the device registers read as.\<close>

definition sys_read_dev :: "(u32 \<Rightarrow> u8) \<Rightarrow> u32 \<Rightarrow> u32 \<Rightarrow> u32 \<Rightarrow> (kstate, sysres) kprog" where
  "sys_read_dev rd va pa len =
     (if is_illegal_va_range va len then retK (Inl E_INVAL)
      else if \<not> is_dev_range pa len then retK (Inl E_INVAL)
      else seqK (store_bytes (rd_bytes rd pa (unat len)) va) okK)"

section \<open>The working directory\<close>

text \<open>\<^verbatim>\<open>strcpy\<close> from and to user memory; the array \<^verbatim>\<open>pwd\<close> has \<open>MAXPATH\<close> bytes.\<close>

fun copy_path_in :: "nat \<Rightarrow> nat \<Rightarrow> u32 \<Rightarrow> (kstate, unit) kprog" where
  "copy_path_in 0 i a = panicK ''store past pwd''"
| "copy_path_in (Suc n) i a =
     bindK (load_byte a) (\<lambda>b.
     seqK (modifyK (\<lambda>s. s\<lparr>pwd := (pwd s)(i := b)\<rparr>))
          (if b = 0 then retK () else copy_path_in n (Suc i) (a + 1)))"

fun copy_path_out :: "nat \<Rightarrow> nat \<Rightarrow> u32 \<Rightarrow> (kstate, unit) kprog" where
  "copy_path_out 0 i a = panicK ''load past pwd''"
| "copy_path_out (Suc n) i a =
     bindK (getsK (\<lambda>s. pwd s i)) (\<lambda>b.
     seqK (store_byte a b)
          (if b = 0 then retK () else copy_path_out n (Suc i) (a + 1)))"

definition sys_set_path :: "u32 \<Rightarrow> (kstate, unit) kprog" where
  "sys_set_path newpath = copy_path_in MAXPATH 0 newpath"

definition sys_get_path :: "u32 \<Rightarrow> (kstate, unit) kprog" where
  "sys_get_path newpath =
     seqK (modifyK (\<lambda>s. if pwd s 0 = 0 then s\<lparr>pwd := (pwd s)(0 := 0x2F)\<rparr> else s))
          (copy_path_out MAXPATH 0 newpath)"

section \<open>Dispatch\<close>

text \<open>A call without a result leaves some value in \<^verbatim>\<open>$v0\<close>; \<open>junk\<close> stands for it.\<close>

definition voidK :: "u32 \<Rightarrow> (kstate, unit) kprog \<Rightarrow> (kstate, sysres) kprog" where
  "voidK junk m = seqK m (retK (Inr junk))"

definition MAX_SYSNO :: nat where "MAX_SYSNO = 20"

definition syscall_table ::
    "(u32 \<Rightarrow> u8) \<Rightarrow> u32 \<Rightarrow> nat \<Rightarrow> u32 \<Rightarrow> u32 \<Rightarrow> u32 \<Rightarrow> u32 \<Rightarrow> u32 \<Rightarrow> (kstate, sysres) kprog" where
  "syscall_table rd junk no a1 a2 a3 a4 a5 =
     [voidK junk (sys_putchar a1), sys_print_cons a1 a2, sys_getenvid, sys_yield,
      sys_env_destroy a1, sys_set_tlb_mod_entry a1 a2, sys_mem_alloc a1 a2 a3,
      sys_mem_map a1 a2 a3 a4 a5, sys_mem_unmap a1 a2, sys_exofork, sys_set_env_status a1 a2,
      sys_set_trapframe a1 a2, sys_panic, sys_ipc_try_send a1 a2 a3 a4, sys_ipc_recv a1,
      sys_cgetc, sys_write_dev a1 a2 a3, sys_read_dev rd a1 a2 a3,
      voidK junk (sys_get_path a1), voidK junk (sys_set_path a1)] ! no"

definition sys_value :: "sysres \<Rightarrow> u32" where
  "sys_value r = (case r of Inl e \<Rightarrow> of_int (- errno e) | Inr v \<Rightarrow> v)"

definition set_v0 :: "u32 \<Rightarrow> (kstate, unit) kprog" where
  "set_v0 v = modifyK (\<lambda>s. s\<lparr>kstack_tf := set_tf_reg 2 v (kstack_tf s)\<rparr>)"

definition do_syscall :: "(u32 \<Rightarrow> u8) \<Rightarrow> u32 \<Rightarrow> (kstate, unit) kprog" where
  "do_syscall rd junk =
     bindK (getsK (\<lambda>s. tf_regs (kstack_tf s) 4)) (\<lambda>sysno.
     if sint sysno < 0 \<or> int MAX_SYSNO \<le> sint sysno then set_v0 (of_int (- errno E_NO_SYS))
     else
       seqK (modifyK (\<lambda>s. s\<lparr>kstack_tf := (kstack_tf s)\<lparr>tf_epc := tf_epc (kstack_tf s) + 4\<rparr>\<rparr>))
      (bindK (getsK (\<lambda>s. tf_regs (kstack_tf s))) (\<lambda>r.
       bindK (load_word (r 29 + 16)) (\<lambda>arg4.
       bindK (load_word (r 29 + 20)) (\<lambda>arg5.
       bindK (syscall_table rd junk (unat sysno) (r 5) (r 6) (r 7) arg4 arg5) (\<lambda>v.
       set_v0 (sys_value v)))))))"

end
