(* ===== verification/Syscall_Spec.thy ===== *)
theory Syscall_Spec
  imports Syscall Sched_Spec Env_Free
begin

text \<open>
  The invariant between system calls, and the system calls on memory in terms of translations.
\<close>

section \<open>The kernel invariant\<close>

definition in_use :: "kstate \<Rightarrow> nat \<Rightarrow> bool" where
  "in_use s e \<longleftrightarrow> e < NENV \<and> env_status (envs s e) \<noteq> ENV_FREE"

lemma ids_ok_in_use: "ids_ok s \<longleftrightarrow> (\<forall>e. in_use s e \<longrightarrow> env_id (envs s e) \<noteq> 0 \<and> ENVX (env_id (envs s e)) = e)"
  by (auto simp: ids_ok_def in_use_def)

text \<open>
  Every environment in use has a managed directory of its own and an ASID of its own, ids are
  canonical, and the current environment is in use.
\<close>

definition kern_inv :: "(nat \<Rightarrow> nat set) \<Rightarrow> (nat \<Rightarrow> nat) \<Rightarrow> nat list \<Rightarrow> nat \<Rightarrow> kstate \<Rightarrow> bool" where
  "kern_inv idx pin fl c s \<longleftrightarrow> mm_inv idx pin fl s \<and> ids_ok s \<and> curenv s = Some c \<and> in_use s c \<and>
     (\<forall>e. in_use s e \<longrightarrow> idx (env_pgdir (envs s e)) = user_slots) \<and>
     inj_on (\<lambda>e. env_pgdir (envs s e)) {e. in_use s e} \<and> inj_on (\<lambda>e. env_asid (envs s e)) {e. in_use s e}"

lemma kern_invD:
  assumes "kern_inv idx pin fl c s"
  shows "mm_inv idx pin fl s" "ids_ok s" "curenv s = Some c" "in_use s c"
    "in_use s e \<Longrightarrow> idx (env_pgdir (envs s e)) = user_slots"
  using assms by (simp_all add: kern_inv_def)

lemma kern_inv_rest:
  assumes "kern_inv idx pin fl c s" "same_rest s s'" "mm_inv idx pin fl' s'"
  shows "kern_inv idx pin fl' c s'"
  using assms same_restD [OF assms(2)] by (simp add: kern_inv_def ids_ok_def in_use_def)

text \<open>The translation of an environment.\<close>

definition tr :: "kstate \<Rightarrow> nat \<Rightarrow> u32 \<Rightarrow> u32" where
  "tr s e va = lookup_pte (mem s) (env_pgdir (envs s e)) va"

lemma legal_slot: "\<not> is_illegal_va va \<Longrightarrow> PDX va \<in> user_slots"
  using PDX_below_UTOP [of va] by (simp add: is_illegal_va_def user_slots_def not_le)

text \<open>Which environment a call's \<^verbatim>\<open>envid\<close> argument names, when the caller may name it.\<close>

definition target :: "kstate \<Rightarrow> nat \<Rightarrow> u32 \<Rightarrow> bool \<Rightarrow> nat option" where
  "target s c envid chk = (if envid = 0 then Some c
     else if names s envid (ENVX envid) \<and> (chk \<longrightarrow> may_control s c (ENVX envid)) then Some (ENVX envid) else None)"

lemma envid2env_target:
  assumes "ids_ok s" "curenv s = Some c"
  shows "envid2env envid chk s = (case target s c envid chk of
    None \<Rightarrow> Done (Inl E_BAD_ENV) s | Some e \<Rightarrow> Done (Inr (Some e)) s)"
  using envid2env_run [OF assms] envid2env_zero [of chk s] assms(2) by (auto simp: target_def)

lemma target_in_use: "kern_inv idx pin fl c s \<Longrightarrow> target s c envid chk = Some e \<Longrightarrow> in_use s e"
  by (auto simp: target_def kern_inv_def in_use_def names_def split: if_splits)

text \<open>Frames that hold neither tables nor free pages, that is data, are not written.\<close>

definition data_kept :: "(nat \<Rightarrow> nat set) \<Rightarrow> nat list \<Rightarrow> kstate \<Rightarrow> kstate \<Rightarrow> bool" where
  "data_kept idx fl s s' \<longleftrightarrow> (\<forall>f. f \<notin> set fl \<longrightarrow> idx f = {} \<longrightarrow>
     (\<forall>x \<in> tabs idx (mem s). tab_of (mem s) x \<noteq> f) \<longrightarrow> mem s' f = mem s f)"

text \<open>Only the translation of page \<open>va\<close> of environment \<open>e\<close> differs between \<open>s\<close> and \<open>s'\<close>.\<close>

definition only_tr :: "nat \<Rightarrow> u32 \<Rightarrow> kstate \<Rightarrow> kstate \<Rightarrow> bool" where
  "only_tr e va s s' \<longleftrightarrow> (\<forall>e' va'. in_use s e' \<longrightarrow> PDX va' < PDX UTOP \<longrightarrow>
     e' \<noteq> e \<or> VPN va' \<noteq> VPN va \<longrightarrow> tr s' e' va' = tr s e' va')"

lemma only_trI:
  assumes k: "kern_inv idx pin fl c s" and e: "in_use s e" and rest: "same_rest s s'"
    and l: "\<forall>d' va'. PDX va' \<in> idx d' \<longrightarrow> d' \<noteq> env_pgdir (envs s e) \<or> VPN va' \<noteq> VPN va \<longrightarrow>
      lookup_pte (mem s') d' va' = lookup_pte (mem s) d' va'"
  shows "only_tr e va s s'"
  unfolding only_tr_def tr_def
proof (intro allI impI)
  fix e' va'
  assume e': "in_use s e'" "PDX va' < PDX UTOP" "e' \<noteq> e \<or> VPN va' \<noteq> VPN va"
  have "PDX va' \<in> idx (env_pgdir (envs s e'))"
    using e'(2) kern_invD(5) [OF k e'(1)] by (simp add: user_slots_def PDX_UTOP)
  moreover have "env_pgdir (envs s e') \<noteq> env_pgdir (envs s e) \<or> VPN va' \<noteq> VPN va"
    using e' e k by (auto simp: kern_inv_def inj_on_def)
  ultimately show "lookup_pte (mem s') (env_pgdir (envs s' e')) va' = lookup_pte (mem s) (env_pgdir (envs s e')) va'"
    using l same_restD(2) [OF rest] by simp
qed

section \<open>Mapping a page for an environment\<close>

definition full_for :: "kstate \<Rightarrow> nat \<Rightarrow> u32 \<Rightarrow> nat list \<Rightarrow> bool" where
  "full_for s e va fl \<longleftrightarrow> fl = [] \<and> \<not> valid (mem s (env_pgdir (envs s e)) (PDX va))"

lemma page_insert_sys_run:
  assumes k: "kern_inv idx pin fl c s" and e: "in_use s e" and va: "\<not> is_illegal_va va"
    and pp: "pp < npage s" "pp \<notin> set fl" "unat (pp_ref s pp) < 65535" "perm < 4096"
  shows "(\<exists>s' fl'. page_insert_sys e pp va perm s = Done (Inr 0) s' \<and> kern_inv idx pin fl' c s' \<and>
      tr s' e va = page2pa pp OR perm OR PTE_V \<and> only_tr e va s s' \<and> same_rest s s' \<and> data_kept idx fl s s') \<or>
    full_for s e va fl \<and> (\<exists>s'. page_insert_sys e pp va perm s = Done (Inl E_NO_MEM) s' \<and>
      s' = flush (env_asid (envs s e)) va s)"
proof -
  let ?d = "env_pgdir (envs s e)" and ?a = "env_asid (envs s e)"
  have slot: "PDX va \<in> idx ?d" using legal_slot [OF va] kern_invD(5) [OF k e] by simp
  from page_insert_cases [OF kern_invD(1) [OF k] slot pp, of ?a] show ?thesis
  proof (elim disjE exE conjE)
    fix s' fl'
    assume s': "page_insert ?d ?a pp va perm s = Done (Inr ()) s'" "mm_inv idx pin fl' s'"
      "remap idx fl ?d va (page2pa pp OR perm OR PTE_V) s s'" "same_rest s s'"
    have "only_tr e va s s'" by (rule only_trI [OF k e s'(4)]) (use s'(3) in \<open>simp add: remap_def\<close>)
    moreover have "tr s' e va = page2pa pp OR perm OR PTE_V"
      using s'(3) same_restD(2) [OF s'(4)] by (simp add: tr_def remap_def)
    moreover have "data_kept idx fl s s'" using s'(3) by (auto simp: remap_def data_kept_def)
    ultimately show ?thesis
      using s' kern_inv_rest [OF k s'(4,2)] by (auto simp: page_insert_sys_def run_rules)
  next
    assume "fl = []" "\<not> valid (mem s ?d (PDX va))"
      "page_insert ?d ?a pp va perm s = Done (Inl E_NO_MEM) (flush ?a va s)"
    then show ?thesis by (simp add: page_insert_sys_def run_rules full_for_def)
  qed
qed

lemma page_remove_sys_run:
  assumes k: "kern_inv idx pin fl c s" and e: "in_use s e" and va: "\<not> is_illegal_va va"
  shows "\<exists>s' fl'. page_remove (env_pgdir (envs s e)) (env_asid (envs s e)) va s = Done () s' \<and>
    kern_inv idx pin fl' c s' \<and> \<not> valid (tr s' e va) \<and> only_tr e va s s' \<and> same_rest s s'"
proof -
  let ?d = "env_pgdir (envs s e)" and ?a = "env_asid (envs s e)"
  have slot: "PDX va \<in> idx ?d" using legal_slot [OF va] kern_invD(5) [OF k e] by simp
  note inv = kern_invD(1) [OF k]
  show ?thesis
  proof (cases "valid (lookup_pte (mem s) ?d va)")
    case True
    note rf = removed_facts [OF inv slot True, where asid = ?a]
    let ?s' = "removed ?d ?a va s"
    have "only_tr e va s ?s'"
      by (rule only_trI [OF k e rf(4)]) (use rf(7) in \<open>simp add: remap_def\<close>)
    moreover have "\<not> valid (tr ?s' e va)" using rf(2) same_restD(2) [OF rf(4)] by (simp add: tr_def)
    ultimately show ?thesis
      using True rf(4) kern_inv_rest [OF k rf(4) removed_inv [OF inv slot True]]
      by (auto simp: page_remove_run [OF inv slot])
  next
    case False
    with k show ?thesis by (auto simp: page_remove_run [OF inv slot] tr_def only_tr_def)
  qed
qed

lemma page_lookup_sys:
  assumes k: "kern_inv idx pin fl c s" and e: "in_use s e" and va: "\<not> is_illegal_va va"
  shows "\<exists>t j. page_lookup (env_pgdir (envs s e)) va s =
      Done (if valid (tr s e va) then Some (PPN (tr s e va), t, j) else None) s"
    "valid (tr s e va) \<Longrightarrow> PPN (tr s e va) < npage s \<and> PPN (tr s e va) \<notin> set fl"
proof -
  have slot: "PDX va \<in> idx (env_pgdir (envs s e))" using legal_slot [OF va] kern_invD(5) [OF k e] by simp
  show "\<exists>t j. page_lookup (env_pgdir (envs s e)) va s =
      Done (if valid (tr s e va) then Some (PPN (tr s e va), t, j) else None) s"
    using page_lookup_run [OF kern_invD(1) [OF k] slot] by (auto simp: tr_def)
  show "valid (tr s e va) \<Longrightarrow> PPN (tr s e va) < npage s \<and> PPN (tr s e va) \<notin> set fl"
    using mm_inv_mapped [OF kern_invD(1) [OF k] slot] by (simp add: tr_def)
qed

section \<open>The calls\<close>

lemma sys_mem_map_run:
  assumes k: "kern_inv idx pin fl c s" and va: "\<not> is_illegal_va srcva" "\<not> is_illegal_va dstva"
    and ids: "target s c srcid True = Some se" "target s c dstid True = Some de"
  shows "sys_mem_map srcid srcva dstid dstva perm s =
    (if valid (tr s se srcva) then page_insert_sys de (PPN (tr s se srcva)) dstva perm s
     else Done (Inl E_INVAL) s)"
proof -
  note su = target_in_use [OF k ids(1)]
  from page_lookup_sys(1) [OF k su va(1)] obtain t j where
    "page_lookup (env_pgdir (envs s se)) srcva s =
      Done (if valid (tr s se srcva) then Some (PPN (tr s se srcva), t, j) else None) s" by blast
  with va ids kern_invD [OF k] show ?thesis
    by (simp add: sys_mem_map_def run_rules envid2env_target the_env_def)
qed

lemma sys_mem_map_bad:
  assumes k: "kern_inv idx pin fl c s"
  shows "is_illegal_va srcva \<or> is_illegal_va dstva \<Longrightarrow>
      sys_mem_map srcid srcva dstid dstva perm s = Done (Inl E_INVAL) s"
    "\<not> is_illegal_va srcva \<Longrightarrow> \<not> is_illegal_va dstva \<Longrightarrow>
      target s c srcid True = None \<or> target s c dstid True = None \<Longrightarrow>
      sys_mem_map srcid srcva dstid dstva perm s = Done (Inl E_BAD_ENV) s"
  using kern_invD [OF k]
  by (auto simp: sys_mem_map_def run_rules envid2env_target split: option.split)

lemma sys_mem_alloc_run:
  assumes k: "kern_inv idx pin (pp # fl) c s" and va: "\<not> is_illegal_va va" and id: "target s c envid True = Some e"
  obtains s1 where "page_alloc s = Done (Inr pp) s1" "kern_inv idx pin fl c s1" "same_rest s s1"
    "mem s1 pp = (\<lambda>_. 0)" "pp < npage s1" "pp_ref s1 pp = 0" "pp \<notin> set fl"
    "\<And>d va. PDX va \<in> idx d \<Longrightarrow> lookup_pte (mem s1) d va = lookup_pte (mem s) d va"
    "sys_mem_alloc envid va perm s = page_insert_sys e pp va perm s1"
    "idx pp = {}" "\<forall>x \<in> tabs idx (mem s1). tab_of (mem s1) x \<noteq> pp"
proof -
  let ?s1 = "s\<lparr>page_free_list := the (LIST_REMOVE pp (page_free_list s)), mem := (mem s)(pp := (\<lambda>_. 0))\<rparr>"
  note inv = kern_invD(1) [OF k]
  note al = page_alloc_inv [OF inv refl [of ?s1]]
  have run: "page_alloc s = Done (Inr pp) ?s1" using page_alloc_run [OF inv] by simp
  have "lookup_pte (mem ?s1) d va = lookup_pte (mem s) d va" if "PDX va \<in> idx d" for d va
  proof (cases "valid (mem s d (PDX va))")
    case True
    with that al(7) [of "(d, PDX va)"] al(6) show ?thesis
      by (auto simp: lookup_pte_def tabs_def tab_of.simps)
  next
    case False
    with that al(6) show ?thesis by (auto simp: lookup_pte_def)
  qed
  moreover have "sys_mem_alloc envid va perm s = page_insert_sys e pp va perm ?s1"
    using va id run kern_invD [OF k] by (simp add: sys_mem_alloc_def run_rules envid2env_target the_env_def)
  moreover have "\<forall>x \<in> tabs idx (mem ?s1). tab_of (mem ?s1) x \<noteq> pp"
  proof -
    have agr: "mem ?s1 d = mem s d" if "idx d \<noteq> {}" for d using that al(6) by auto
    from tabs_agree [where idx = idx and m' = "mem ?s1" and m = "mem s", OF agr] al(7)
    show ?thesis by metis
  qed
  ultimately show ?thesis using that [OF run kern_inv_rest [OF k al(8,1)] al(8,5,2,3,4)] al(6) by blast
qed

lemma only_tr_pre:
  assumes "only_tr e va s1 s2" "\<And>e. in_use s e \<Longrightarrow> idx (env_pgdir (envs s e)) = user_slots" "same_rest s s1"
    "\<And>d va. PDX va \<in> idx d \<Longrightarrow> lookup_pte (mem s1) d va = lookup_pte (mem s) d va"
  shows "only_tr e va s s2"
  using assms same_restD(2) [OF assms(3)]
  by (simp add: only_tr_def tr_def in_use_def user_slots_def PDX_UTOP)

end
