(* ===== verification/Tlbex_Thms.thy ===== *)
theory Tlbex_Thms
  imports Syscall_Spec Pmap_Thms
begin

text \<open>
  The TLB refill: it terminates after at most one passive allocation, returns the page-table entry
  of the address, and demand-zero pages are the only change it makes.
\<close>

definition passive_ok :: "u32 \<Rightarrow> bool" where
  "passive_ok va \<longleftrightarrow> UTEMP \<le> va \<and> va < UTOP \<and> \<not> (USTACKTOP \<le> va \<and> va < USTACKTOP + BY2PG)"

lemma VPN_PTE_ADDR: "VPN (PTE_ADDR va) = VPN va"
  using PPN_PTE_ADDR [of va] by (simp add: VPN_def PPN_def)

lemma same_page_idx: "PDX (PTE_ADDR va) = PDX va" "PTX (PTE_ADDR va) = PTX va"
  using VPN_PTE_ADDR [of va] by (simp_all add: same_page_iff)

lemma lookup_PTE_ADDR: "lookup_pte m d (PTE_ADDR va) = lookup_pte m d va"
  by (simp add: lookup_pte_def same_page_idx)

lemma tlb_key_PTE_ADDR: "tlb_key a (PTE_ADDR va) = tlb_key a va"
  by (rule tlb_key_same_page) (rule VPN_PTE_ADDR)

declare tlb_refill_loop.simps [simp del]

lemma refill_hit:
  assumes "mm_inv idx pin fl s" "PDX va \<in> idx (cur_pgdir s)" "valid (lookup_pte (mem s) (cur_pgdir s) va)"
  shows "tlb_refill_loop (Suc n) va asid s = Done (lookup_pte (mem s) (cur_pgdir s) va) s"
proof -
  note l = page_lookup_run [OF assms(1,2)]
  from lookup_dir [OF assms(3)] have
    "mem s (PPN (mem s (cur_pgdir s) (PDX va))) (PTX va) = lookup_pte (mem s) (cur_pgdir s) va"
    by (simp add: lookup_pte_def)
  with l assms(3) show ?thesis by (simp add: run_rules tlb_refill_loop.simps)
qed

text \<open>The state of a demand-zero allocation.\<close>

lemma passive_alloc_run:
  assumes inv: "mm_inv idx pin (pp # p2 # fl) s" and va: "PDX va \<in> idx d" and ok: "passive_ok va"
    and nv: "\<not> valid (lookup_pte (mem s) d va)"
  obtains s' fl' where "passive_alloc va d asid s = Done () s'" "mm_inv idx pin fl' s'" "same_rest s s'"
    "lookup_pte (mem s') d va = page2pa pp OR PTE_D OR PTE_V" "mem s' pp = (\<lambda>_. 0)"
    "\<And>d' va'. PDX va' \<in> idx d' \<Longrightarrow> d' \<noteq> d \<or> VPN va' \<noteq> VPN va \<Longrightarrow>
       lookup_pte (mem s') d' va' = lookup_pte (mem s) d' va'"
proof -
  let ?s1 = "s\<lparr>page_free_list := the (LIST_REMOVE pp (page_free_list s)), mem := (mem s)(pp := (\<lambda>_. 0))\<rparr>"
  note al = page_alloc_inv [OF inv refl [of ?s1]]
  have run: "page_alloc s = Done (Inr pp) ?s1" using page_alloc_run [OF inv] by simp
  have same: "lookup_pte (mem ?s1) d' va' = lookup_pte (mem s) d' va'" if "PDX va' \<in> idx d'" for d' va'
  proof (cases "valid (mem s d' (PDX va'))")
    case True
    with that al(7) [of "(d', PDX va')"] al(6) show ?thesis
      by (auto simp: lookup_pte_def tabs_def tab_of.simps)
  next
    case False
    with that al(6) show ?thesis by (auto simp: lookup_pte_def)
  qed
  have agr: "mem ?s1 d = mem s d" if "idx d \<noteq> {}" for d using that al(6) by auto
  from tabs_agree [where idx = idx and m' = "mem ?s1" and m = "mem s", OF agr] al(7)
  have notab: "\<forall>x \<in> tabs idx (mem ?s1). tab_of (mem ?s1) x \<noteq> pp" by metis
  have va': "PDX (PTE_ADDR va) \<in> idx d" using va by (simp add: same_page_idx)
  have nv': "\<not> valid (lookup_pte (mem ?s1) d va)" using same [OF va] nv by simp
  have pd: "PTE_D < (4096 :: u32)" by (simp add: pte_flag_defs)
  have r: "unat (pp_ref ?s1 pp) < 65535" using al(3) by simp
  from page_insert_cases [OF al(1) va' al(2,4) r pd, of asid] obtain s' fl' where
    s': "page_insert d asid pp (PTE_ADDR va) PTE_D ?s1 = Done (Inr ()) s'" "mm_inv idx pin fl' s'"
      "remap idx (p2 # fl) d (PTE_ADDR va) (page2pa pp OR PTE_D OR PTE_V) ?s1 s'" "same_rest ?s1 s'"
    by auto
  have "passive_alloc va d asid s = Done () s'"
  proof -
    from ok have "\<not> va < UTEMP" "\<not> (USTACKTOP \<le> va \<and> va < USTACKTOP + BY2PG)" "\<not> UENVS \<le> va"
      "\<not> UPAGES \<le> va" "\<not> ULIM \<le> va"
      by (auto simp: passive_ok_def layout_defs word_le_nat_alt word_less_nat_alt)
    with run s'(1) show ?thesis by (simp add: passive_alloc_def run_rules)
  qed
  moreover have "mem s' pp = (\<lambda>_. 0)"
    using s'(3) al(4,5,6) notab by (simp add: remap_def)
  ultimately show ?thesis
    using that [of s' fl'] s' same_rest_trans [OF al(8) s'(4)] same
    by (auto simp: remap_def lookup_PTE_ADDR VPN_PTE_ADDR)
qed

text \<open>
  C19. \<^verbatim>\<open>_do_tlb_refill\<close> terminates: for an address a program may use, with two free pages, the
  loop ends after at most two lookups whatever the fuel, and returns the page-table entry of \<open>va\<close>:
  the one that was there, or that of a fresh zero-filled writable page, in which case the
  translations of all other pages of all address spaces are unchanged.
\<close>

theorem refill_terminates:
  assumes "mm_inv idx pin (pp # p2 # fl) s" "PDX va \<in> idx (cur_pgdir s)" "passive_ok va" "2 \<le> n"
  shows "\<exists>s' fl'. tlb_refill_loop n va asid s = Done (lookup_pte (mem s') (cur_pgdir s) va) s' \<and>
    mm_inv idx pin fl' s' \<and> same_rest s s' \<and>
    (if valid (lookup_pte (mem s) (cur_pgdir s) va) then s' = s
     else lookup_pte (mem s') (cur_pgdir s) va = page2pa pp OR PTE_D OR PTE_V \<and> mem s' pp = (\<lambda>_. 0)) \<and>
    (\<forall>d' va'. PDX va' \<in> idx d' \<longrightarrow> d' \<noteq> cur_pgdir s \<or> VPN va' \<noteq> VPN va \<longrightarrow>
       lookup_pte (mem s') d' va' = lookup_pte (mem s) d' va')"
proof -
  let ?d = "cur_pgdir s"
  obtain m where n: "n = Suc (Suc m)" using assms(4) by (metis add_2_eq_Suc le_Suc_ex)
  show ?thesis
  proof (cases "valid (lookup_pte (mem s) ?d va)")
    case True
    with refill_hit [OF assms(1,2) True] assms(1) n show ?thesis by auto
  next
    case False
    from passive_alloc_run [OF assms(1,2,3) False, of asid] obtain s' fl' where
      s': "passive_alloc va ?d asid s = Done () s'" "mm_inv idx pin fl' s'" "same_rest s s'"
        "lookup_pte (mem s') ?d va = page2pa pp OR PTE_D OR PTE_V" "mem s' pp = (\<lambda>_. 0)"
        "\<And>d' va'. PDX va' \<in> idx d' \<Longrightarrow> d' \<noteq> ?d \<or> VPN va' \<noteq> VPN va \<Longrightarrow>
          lookup_pte (mem s') d' va' = lookup_pte (mem s) d' va'" by metis
    have d': "cur_pgdir s' = ?d" using same_restD [OF s'(3)] by simp
    have v: "valid (lookup_pte (mem s') ?d va)" using s'(4) by simp
    have "PDX va \<in> idx (cur_pgdir s')" using assms(2) d' by simp
    from refill_hit [OF s'(2) this, of m asid] v d'
    have hit: "tlb_refill_loop (Suc m) va asid s' = Done (lookup_pte (mem s') ?d va) s'" by simp
    have "page_lookup ?d va s = Done None s"
      using page_lookup_run [OF assms(1,2)] False by simp
    then have "tlb_refill_loop n va asid s = Done (lookup_pte (mem s') ?d va) s'"
      unfolding n tlb_refill_loop.simps(2) [of "Suc m"] using s'(1) hit by (simp add: run_rules)
    with s' False show ?thesis by auto
  qed
qed

theorem refill_terminates_witness:
  "\<exists>s'. tlb_refill_loop 2 0x400000 0 small_machine = Done (page2pa 4 OR PTE_D OR PTE_V) s' \<and> mem s' 4 = (\<lambda>_. 0)"
proof -
  have "cur_pgdir small_machine = 1" by (simp add: small_machine_def)
  moreover have "passive_ok 0x400000" by (simp add: passive_ok_def layout_defs)
  moreover have "\<not> valid (lookup_pte (mem small_machine) 1 0x400000)" by (simp add: lookup_pte_def)
  ultimately show ?thesis
    using refill_terminates [OF small_machine_inv, of "0x400000" 2 0] small_PDX(2) by auto
qed

section \<open>Reading mapped user memory\<close>

text \<open>
  What the kernel may rely on while a program is current: the tables are well formed and the TLB
  holds nothing stale for the current address space.
\<close>

definition user_space :: "(nat \<Rightarrow> nat set) \<Rightarrow> (nat \<Rightarrow> nat) \<Rightarrow> nat list \<Rightarrow> kstate \<Rightarrow> bool" where
  "user_space idx pin fl s \<longleftrightarrow> mm_inv idx pin fl s \<and> idx (cur_pgdir s) = user_slots \<and>
     cur_asid s < 64 \<and> tlb_ok idx (cur_pgdir s) (cur_asid s) s"

definition mapped :: "kstate \<Rightarrow> u32 \<Rightarrow> bool" where
  "mapped s va \<longleftrightarrow> va < UTOP \<and> valid (lookup_pte (mem s) (cur_pgdir s) va)"

definition user_byte :: "kstate \<Rightarrow> u32 \<Rightarrow> u8" where
  "user_byte s va = frame_byte (mem s (PPN (lookup_pte (mem s) (cur_pgdir s) va))) (unat va mod 4096)"

lemma user_tlb_simps [simp]:
  "mapped (s\<lparr>tlb := t\<rparr>) = mapped s" "user_byte (s\<lparr>tlb := t\<rparr>) = user_byte s"
  "cur_asid (s\<lparr>tlb := t\<rparr>) = cur_asid s"
  by (simp_all add: mapped_def user_byte_def cur_asid_def fun_eq_iff split: option.split)

lemma mapped_slot: "mapped s va \<Longrightarrow> PDX va \<in> user_slots \<and> va < ULIM"
  by (auto simp: mapped_def user_slots_def PDX_alt layout_defs word_less_nat_alt)

lemma tlb_key_inj:
  assumes "a < 64" "tlb_key a va = tlb_key a va'"
  shows "VPN va = VPN va'"
proof -
  have "unat (take_bit 6 a) = unat a"
    using assms(1) by (simp add: unsigned_take_bit_eq take_bit_nat_eq_self word_less_nat_alt)
  then have "take_bit 6 a = a" by (simp only: word_eq_iff_unsigned [where ?'a = nat])
  moreover have "drop_bit 12 (push_bit 6 (take_bit 6 a)) = 0"
    by (rule bit_word_eqI) (auto simp: bit_simps)
  moreover have "drop_bit 12 (PTE_ADDR va) = drop_bit 12 va" for va
    by (rule bit_word_eqI) (auto simp: PTE_ADDR_alt bit_simps dest: bit_imp_le_length)
  ultimately have "drop_bit 12 (tlb_key a va) = drop_bit 12 va" for va
    by (simp add: tlb_key_def)
  with assms(2) show ?thesis unfolding VPN_def by metis
qed

lemma user_space_fill:
  assumes "user_space idx pin fl s" "mapped s va"
  shows "user_space idx pin fl (s\<lparr>tlb := (tlb s)(tlb_key (cur_asid s) va := Some (lookup_pte (mem s) (cur_pgdir s) va))\<rparr>)"
proof -
  let ?d = "cur_pgdir s" and ?a = "cur_asid s"
  let ?s = "s\<lparr>tlb := (tlb s)(tlb_key ?a va := Some (lookup_pte (mem s) ?d va))\<rparr>"
  have u: "mm_inv idx pin fl s" "idx ?d = user_slots" "?a < 64" "tlb_ok idx ?d ?a s"
    using assms(1) by (simp_all add: user_space_def)
  have same: "lookup_pte (mem s) ?d va' = lookup_pte (mem s) ?d va" if "tlb_key ?a va' = tlb_key ?a va" for va'
    using tlb_key_inj [OF u(3) that] by (simp add: same_page_iff lookup_pte_def)
  have "tlb_ok idx ?d ?a ?s"
    unfolding tlb_ok_def
  proof (intro allI impI)
    fix va' lo
    assume "PDX va' \<in> idx ?d" "tlb ?s (tlb_key ?a va') = Some lo" "valid lo"
    with same [of va'] u(4) show "lo = lookup_pte (mem ?s) ?d va'"
      by (cases "tlb_key ?a va' = tlb_key ?a va") (simp_all add: tlb_ok_def)
  qed
  with u(1-3) show ?thesis by (simp add: user_space_def)
qed

lemma translate_mapped:
  assumes "user_space idx pin fl s" "mapped s va"
  shows "\<exists>t. translate False va s = Done (PPN (lookup_pte (mem s) (cur_pgdir s) va)) (s\<lparr>tlb := t\<rparr>) \<and>
    user_space idx pin fl (s\<lparr>tlb := t\<rparr>)"
proof -
  let ?w = "lookup_pte (mem s) (cur_pgdir s) va" and ?k = "tlb_key (cur_asid s) va"
  note u = mapped_slot [OF assms(2)]
  have inv: "mm_inv idx pin fl s" "PDX va \<in> idx (cur_pgdir s)" "valid ?w"
    using assms u by (simp_all add: user_space_def mapped_def)
  show ?thesis
  proof (cases "\<exists>lo. tlb s ?k = Some lo \<and> valid lo")
    case True
    then obtain lo where lo: "tlb s ?k = Some lo" "valid lo" by blast
    with assms(1) inv(2) have "lo = ?w" by (simp add: user_space_def tlb_ok_def)
    with lo u assms(1) show ?thesis
      by (intro exI [of _ "tlb s"]) (simp add: translate_def run_rules)
  next
    case False
    have "do_tlb_refill va (cur_asid s) s = Done ?w (s\<lparr>tlb := (tlb s)(?k := Some ?w)\<rparr>)"
      using refill_hit [OF inv, of 1] by (simp add: do_tlb_refill_def run_rules numeral_2_eq_2)
    with False u have "translate False va s = Done (PPN ?w) (s\<lparr>tlb := (tlb s)(?k := Some ?w)\<rparr>)"
      by (auto simp: translate_def run_rules split: option.split)
    with user_space_fill [OF assms] show ?thesis by blast
  qed
qed

lemma load_bytes_mapped:
  "user_space idx pin fl s \<Longrightarrow> \<forall>i < n. mapped s (va + of_nat i) \<Longrightarrow>
   \<exists>t. load_bytes n va s = Done (map (\<lambda>i. user_byte s (va + of_nat i)) [0..<n]) (s\<lparr>tlb := t\<rparr>) \<and>
     user_space idx pin fl (s\<lparr>tlb := t\<rparr>)"
proof (induction n arbitrary: va s)
  case 0
  then show ?case by (intro exI [of _ "tlb s"]) (simp add: run_rules)
next
  case (Suc n)
  have m: "mapped s va" "\<forall>i < n. mapped s (va + 1 + of_nat i)"
    using Suc.prems(2) [rule_format, of 0] Suc.prems(2) [rule_format, of "Suc i" for i]
    by (auto simp: ac_simps)
  from translate_mapped [OF Suc.prems(1) m(1)] obtain t where
    t: "load_byte va s = Done (user_byte s va) (s\<lparr>tlb := t\<rparr>)" "user_space idx pin fl (s\<lparr>tlb := t\<rparr>)"
    by (auto simp: load_byte_def run_rules user_byte_def)
  from Suc.IH [OF t(2), of "va + 1"] m(2) obtain t' where
    "load_bytes n (va + 1) (s\<lparr>tlb := t\<rparr>) = Done (map (\<lambda>i. user_byte s (va + 1 + of_nat i)) [0..<n]) (s\<lparr>tlb := t'\<rparr>)"
    "user_space idx pin fl (s\<lparr>tlb := t'\<rparr>)" by auto
  moreover have "map (\<lambda>i. user_byte s (va + of_nat i)) [0..<Suc n] =
      user_byte s va # map (\<lambda>i. user_byte s (va + 1 + of_nat i)) [0..<n]"
    by (simp add: map_upt_Suc ac_simps del: upt_Suc)
  ultimately show ?case using t(1) by (intro exI [of _ t']) (simp add: run_rules)
qed

end
