(* ===== verification/Syscall_Thms.thy ===== *)
theory Syscall_Thms
  imports Syscall_Spec Env_Thms Tlbex_Thms
begin

text \<open>The properties of the memory system calls and of the dispatch.\<close>

lemma env_machine_kern: "kern_inv small_idx small_pin [4, 5, 6, 7] 0 env_machine"
proof -
  have "in_use env_machine e \<longleftrightarrow> e = 0" for e
    by (auto simp: in_use_def one_env_def zero_env_def NENV_def)
  then show ?thesis
    using env_machine_inv env_machine_ids
    by (auto simp: kern_inv_def one_env_def zero_env_def small_idx_def user_slots_def)
qed

lemma env_machine_target: "target env_machine 0 0 chk = Some 0"
  by (simp add: target_def)

lemma legal_page: "\<not> is_illegal_va 0x400000" "\<not> is_illegal_va 0x500000"
  by (simp_all add: is_illegal_va_def layout_defs)

section \<open>Memory calls\<close>

text \<open>
  \<^verbatim>\<open>sys_mem_alloc\<close>: bad addresses give \<open>E_INVAL\<close>, environments the caller may not
  control \<open>E_BAD_ENV\<close>, no free page \<open>E_NO_MEM\<close>, all without a change. Otherwise either \<open>va\<close> of the
  target translates to a page that was free, filled with zeroes, with the given permissions, and
  no other translation of any environment differs; or a page table was needed and that was the last
  free page: the call fails with \<open>E_NO_MEM\<close>.
\<close>

theorem sys_mem_alloc_correct:
  assumes "kern_inv idx pin fl c s" "perm < 4096"
  shows "if is_illegal_va va then sys_mem_alloc envid va perm s = Done (Inl E_INVAL) s
    else case target s c envid True of
      None \<Rightarrow> sys_mem_alloc envid va perm s = Done (Inl E_BAD_ENV) s
    | Some e \<Rightarrow> (case fl of
        [] \<Rightarrow> sys_mem_alloc envid va perm s = Done (Inl E_NO_MEM) s
      | pp # fl1 \<Rightarrow>
          (\<exists>s' fl'. sys_mem_alloc envid va perm s = Done (Inr 0) s' \<and> kern_inv idx pin fl' c s' \<and>
             tr s' e va = page2pa pp OR perm OR PTE_V \<and> mem s' pp = (\<lambda>_. 0) \<and> only_tr e va s s') \<or>
          fl1 = [] \<and> (\<exists>s'. sys_mem_alloc envid va perm s = Done (Inl E_NO_MEM) s'))"
proof (cases "is_illegal_va va")
  case True
  then show ?thesis by (simp add: sys_mem_alloc_def run_rules)
next
  case legal: False
  show ?thesis
  proof (cases "target s c envid True")
    case None
    with legal show ?thesis using kern_invD [OF assms(1)]
      by (simp add: sys_mem_alloc_def run_rules envid2env_target)
  next
    case (Some e)
    note id = this and eu = target_in_use [OF assms(1) this]
    show ?thesis
    proof (cases fl)
      case Nil
      with legal Some page_alloc_run [OF kern_invD(1) [OF assms(1)]] kern_invD [OF assms(1)] show ?thesis
        by (simp add: sys_mem_alloc_def run_rules envid2env_target)
    next
      case (Cons pp fl1)
      from sys_mem_alloc_run [OF assms(1) [unfolded Cons] legal id, of perm] obtain s1 where
        s1: "page_alloc s = Done (Inr pp) s1" "kern_inv idx pin fl1 c s1" "same_rest s s1"
          "mem s1 pp = (\<lambda>_. 0)" "pp < npage s1" "pp_ref s1 pp = 0" "pp \<notin> set fl1"
          "\<And>d va. PDX va \<in> idx d \<Longrightarrow> lookup_pte (mem s1) d va = lookup_pte (mem s) d va"
          "sys_mem_alloc envid va perm s = page_insert_sys e pp va perm s1"
          "idx pp = {}" "\<forall>x \<in> tabs idx (mem s1). tab_of (mem s1) x \<noteq> pp" by metis
      have e1: "in_use s1 e" using eu same_restD(2) [OF s1(3)] by (simp add: in_use_def)
      have r: "unat (pp_ref s1 pp) < 65535" using s1(6) by simp
      from page_insert_sys_run [OF s1(2) e1 legal s1(5,7) r assms(2)] show ?thesis
      proof (elim disjE exE conjE)
        fix s' fl'
        assume s': "page_insert_sys e pp va perm s1 = Done (Inr 0) s'" "kern_inv idx pin fl' c s'"
          "tr s' e va = page2pa pp OR perm OR PTE_V" "only_tr e va s1 s'" "data_kept idx fl1 s1 s'"
        have "only_tr e va s s'"
          by (rule only_tr_pre [where idx = idx, OF s'(4) _ s1(3)]) (use kern_invD(5) [OF assms(1)] s1(8) in auto)
        moreover have "mem s' pp = (\<lambda>_. 0)" using s'(5) s1(4,7,10,11) by (simp add: data_kept_def)
        ultimately show ?thesis using s' s1(9) legal id Cons by auto
      next
        fix s'
        assume "full_for s1 e va fl1" "page_insert_sys e pp va perm s1 = Done (Inl E_NO_MEM) s'"
        with s1(9) legal id Cons show ?thesis by (auto simp: full_for_def)
      qed
    qed
  qed
qed

theorem sys_mem_alloc_correct_witness:
  "\<exists>s' fl'. sys_mem_alloc 0 0x400000 PTE_D env_machine = Done (Inr 0) s' \<and>
     kern_inv small_idx small_pin fl' 0 s' \<and> tr s' 0 0x400000 = page2pa 4 OR PTE_D OR PTE_V"
proof -
  have "PTE_D < 4096" by (simp add: pte_flag_defs)
  from sys_mem_alloc_correct [OF env_machine_kern this, of "0x400000" 0]
  show ?thesis by (auto simp: legal_page env_machine_target)
qed

text \<open>
  C10. \<^verbatim>\<open>sys_mem_map\<close> shares a page: when the call is legal and \<open>srcva\<close> is mapped in the source,
  afterwards \<open>dstva\<close> of the destination translates to the same page with the permissions given, and
  no other translation of any environment differs. The other cases are errors without a change,
  or the lack of a page for a page table.
\<close>

theorem sys_mem_map_correct:
  assumes "kern_inv idx pin fl c s" "perm < 4096" "\<forall>p. unat (pp_ref s p) < 65535"
  shows "if is_illegal_va srcva \<or> is_illegal_va dstva
    then sys_mem_map srcid srcva dstid dstva perm s = Done (Inl E_INVAL) s
    else case (target s c srcid True, target s c dstid True) of
      (Some se, Some de) \<Rightarrow>
        if valid (tr s se srcva) then
          (\<exists>s' fl'. sys_mem_map srcid srcva dstid dstva perm s = Done (Inr 0) s' \<and> kern_inv idx pin fl' c s' \<and>
             tr s' de dstva = page2pa (PPN (tr s se srcva)) OR perm OR PTE_V \<and> only_tr de dstva s s') \<or>
          full_for s de dstva fl \<and>
            (\<exists>s'. sys_mem_map srcid srcva dstid dstva perm s = Done (Inl E_NO_MEM) s' \<and> mem s' = mem s)
        else sys_mem_map srcid srcva dstid dstva perm s = Done (Inl E_INVAL) s
    | _ \<Rightarrow> sys_mem_map srcid srcva dstid dstva perm s = Done (Inl E_BAD_ENV) s"
proof (cases "is_illegal_va srcva \<or> is_illegal_va dstva")
  case True
  with sys_mem_map_bad(1) [OF assms(1)] show ?thesis by simp
next
  case False
  then have legal: "\<not> is_illegal_va srcva" "\<not> is_illegal_va dstva" by simp_all
  show ?thesis
  proof (cases "target s c srcid True"; cases "target s c dstid True")
    fix se de
    assume ids: "target s c srcid True = Some se" "target s c dstid True = Some de"
    note run = sys_mem_map_run [OF assms(1) legal ids, of perm]
    note su = target_in_use [OF assms(1) ids(1)] and du = target_in_use [OF assms(1) ids(2)]
    show ?thesis
    proof (cases "valid (tr s se srcva)")
      case True
      note p = page_lookup_sys(2) [OF assms(1) su legal(1) True]
      from page_insert_sys_run [OF assms(1) du legal(2) _ _ _ assms(2), of "PPN (tr s se srcva)"] p assms(3)
      have "(\<exists>s' fl'. page_insert_sys de (PPN (tr s se srcva)) dstva perm s = Done (Inr 0) s' \<and>
          kern_inv idx pin fl' c s' \<and> tr s' de dstva = page2pa (PPN (tr s se srcva)) OR perm OR PTE_V \<and>
          only_tr de dstva s s') \<or>
        full_for s de dstva fl \<and> page_insert_sys de (PPN (tr s se srcva)) dstva perm s =
          Done (Inl E_NO_MEM) (flush (env_asid (envs s de)) dstva s)" by blast
      with True legal ids run show ?thesis by auto
    next
      case False
      with legal ids run show ?thesis by simp
    qed
  qed (use legal sys_mem_map_bad(2) [OF assms(1) legal] in auto)
qed

theorem sys_mem_map_correct_witness:
  "sys_mem_map 0 0x400000 0 0x500000 PTE_D env_machine = Done (Inl E_INVAL) env_machine"
proof -
  have p: "PTE_D < 4096" "\<forall>p. unat (pp_ref env_machine p) < 65535" by (simp_all add: pte_flag_defs)
  have "tr env_machine 0 va = 0" for va by (simp add: tr_def lookup_pte_def)
  with sys_mem_map_correct [OF env_machine_kern p, of "0x400000" "0x500000" 0 0]
  show ?thesis by (simp add: legal_page env_machine_target)
qed

text \<open>
  \<^verbatim>\<open>sys_mem_unmap\<close> on a legal address of an environment the caller controls always succeeds:
  the address is unmapped and no other translation of any environment differs.
\<close>

theorem sys_mem_unmap_correct:
  assumes "kern_inv idx pin fl c s"
  shows "if is_illegal_va va then sys_mem_unmap envid va s = Done (Inl E_INVAL) s
    else case target s c envid True of
      None \<Rightarrow> sys_mem_unmap envid va s = Done (Inl E_BAD_ENV) s
    | Some e \<Rightarrow> \<exists>s' fl'. sys_mem_unmap envid va s = Done (Inr 0) s' \<and> kern_inv idx pin fl' c s' \<and>
        \<not> valid (tr s' e va) \<and> only_tr e va s s'"
proof (cases "is_illegal_va va")
  case True
  then show ?thesis by (simp add: sys_mem_unmap_def run_rules)
next
  case legal: False
  note D = kern_invD [OF assms]
  show ?thesis
  proof (cases "target s c envid True")
    case None
    with legal D show ?thesis by (simp add: sys_mem_unmap_def run_rules envid2env_target)
  next
    case (Some e)
    from page_remove_sys_run [OF assms target_in_use [OF assms Some] legal] obtain s' fl' where
      "page_remove (env_pgdir (envs s e)) (env_asid (envs s e)) va s = Done () s'"
      "kern_inv idx pin fl' c s'" "\<not> valid (tr s' e va)" "only_tr e va s s'" by blast
    with legal D Some show ?thesis
      by (auto simp: sys_mem_unmap_def run_rules envid2env_target the_env_def)
  qed
qed

theorem sys_mem_unmap_correct_witness:
  "\<exists>s'. sys_mem_unmap 0 0x400000 env_machine = Done (Inr 0) s' \<and> \<not> valid (tr s' 0 0x400000)"
  using sys_mem_unmap_correct [OF env_machine_kern, of "0x400000" 0]
  by (auto simp: legal_page env_machine_target)

section \<open>Dispatch\<close>

text \<open>
  A number outside the table gives \<open>- E_NO_SYS\<close> in \<^verbatim>\<open>$v0\<close> and changes nothing else: the
  saved program counter still points at the system call instruction, so the program repeats it.
\<close>

theorem do_syscall_bad_number:
  assumes "sint (tf_regs (kstack_tf s) 4) < 0 \<or> int MAX_SYSNO \<le> sint (tf_regs (kstack_tf s) 4)"
  shows "do_syscall rd junk s = Done () (s\<lparr>kstack_tf := set_tf_reg 2 (- 5) (kstack_tf s)\<rparr>) \<and>
    tf_epc (set_tf_reg 2 (- 5) (kstack_tf s)) = tf_epc (kstack_tf s)"
  using assms by (simp add: do_syscall_def run_rules set_v0_def set_tf_reg_def)

theorem do_syscall_bad_number_witness:
  "do_syscall (\<lambda>_. 0) 0 (env_machine\<lparr>kstack_tf := set_tf_reg 4 20 zero_tf\<rparr>) =
     Done () (env_machine\<lparr>kstack_tf := set_tf_reg 2 (- 5) (set_tf_reg 4 20 zero_tf)\<rparr>)"
  using do_syscall_bad_number [of "env_machine\<lparr>kstack_tf := set_tf_reg 4 20 zero_tf\<rparr>" "\<lambda>_. 0" 0]
  by (simp add: set_tf_reg_def MAX_SYSNO_def)

section \<open>Devices\<close>








text \<open>
  The sum \<open>pa + len\<close> is computed modulo \<open>2 ^ 32\<close>, so a range that wraps around to 0 is accepted
  whatever it covers.
\<close>

theorem dev_range_wraps:
  assumes "unat pa + unat len = 2 ^ 32" "0x10000000 \<le> pa"
  shows "is_dev_range pa len"
proof -
  have "unat (pa + len) = 0" using assms(1) by (simp add: unat_word_ariths)
  then have "pa + len = 0" by (simp add: unat_eq_zero)
  with assms(2) show ?thesis by (simp add: is_dev_range_def)
qed

theorem dev_range_wraps_witness: "is_dev_range 0xFFFFF000 0x1000"
  by (rule dev_range_wraps) simp_all

end
