(* ===== verification/Ipc_Thms.thy ===== *)
theory Ipc_Thms
  imports Syscall_Spec Sched_Thms Pmap_Thms
begin

text \<open>
  Blocking, waking and messages: the system calls that move environments in and out of
  \<^verbatim>\<open>env_sched_list\<close>.
\<close>

section \<open>Changing the status\<close>

lemma runnable_upd:
  "e < NENV \<Longrightarrow> runnable (upd_env e (env_status_update (\<lambda>_. st)) s) =
     (if st = ENV_RUNNABLE then insert e (runnable s) else runnable s - {e})"
  by (auto simp: runnable_def upd_env_def)

lemma sched_ok_mem: "sched_ok xs s \<Longrightarrow> e < NENV \<Longrightarrow> e \<in> set xs \<longleftrightarrow> env_status (envs s e) = ENV_RUNNABLE"
  by (simp add: sched_ok_def runnable_def)

text \<open>The queue after \<open>e\<close> got status \<open>st\<close>.\<close>

definition requeue :: "env_status \<Rightarrow> nat \<Rightarrow> nat list \<Rightarrow> nat list" where
  "requeue st e xs = (if st = ENV_RUNNABLE then (if e \<in> set xs then xs else xs @ [e]) else remove1 e xs)"

lemma set_env_status_run:
  assumes "sched_ok xs s" "ids_ok s" "curenv s = Some c" "target s c envid False = Some e"
    and "e < NENV" "env_status (envs s e) \<noteq> ENV_FREE" "status_of w = Some st"
  shows "\<exists>s' q'. sys_set_env_status envid w s = Done (Inr 0) s' \<and> sched_ok (requeue st e xs) s' \<and>
    s' = upd_env e (env_status_update (\<lambda>_. st)) (s\<lparr>env_sched_list := q'\<rparr>)"
proof -
  let ?old = "env_status (envs s e)"
  note q = assms(1) [unfolded sched_ok_def, THEN conjunct1]
  have st: "st = ENV_RUNNABLE \<or> st = ENV_NOT_RUNNABLE"
    using assms(7) by (auto simp: status_of_def split: if_splits)
  have m: "e \<in> set xs \<longleftrightarrow> ?old = ENV_RUNNABLE" by (rule sched_ok_mem [OF assms(1,5)])
  have id: "envid2env envid False s = Done (Inr (Some e)) s"
    using envid2env_target [OF assms(2,3)] assms(4) by simp
  have fin: ?thesis
    if "sys_set_env_status envid w s = Done (Inr 0) (upd_env e (env_status_update (\<lambda>_. st)) (s\<lparr>env_sched_list := q'\<rparr>))"
      "is_tailq q' (requeue st e xs)" for q'
  proof -
    let ?s' = "upd_env e (env_status_update (\<lambda>_. st)) (s\<lparr>env_sched_list := q'\<rparr>)"
    have "distinct xs" by (rule sched_ok_distinct [OF assms(1)])
    then have "set (requeue st e xs) = runnable ?s'"
      using assms(1) runnable_upd [OF assms(5), of st "s\<lparr>env_sched_list := q'\<rparr>"]
      by (auto simp: sched_ok_def requeue_def runnable_def)
    with that show ?thesis by (intro exI [of _ ?s'] exI [of _ q']) (simp add: sched_ok_def upd_env_def)
  qed
  show ?thesis
  proof (cases "st = ENV_RUNNABLE")
    case True
    show ?thesis
    proof (cases "?old = ENV_RUNNABLE")
      case True
      with \<open>st = ENV_RUNNABLE\<close> m q id assms(7) show ?thesis
        by (intro fin [of "env_sched_list s"])
          (simp_all add: sys_set_env_status_def run_rules the_env_def requeue_def)
    next
      case False
      with m have "e \<notin> set xs" by simp
      from sched_insert_run [OF q this] obtain q' where
        "sched_insert_tail e s = Done () (s\<lparr>env_sched_list := q'\<rparr>)" "is_tailq q' (xs @ [e])" .
      with False \<open>st = ENV_RUNNABLE\<close> m id assms(6,7) show ?thesis
        by (intro fin [of q'], cases ?old)
          (simp_all add: sys_set_env_status_def run_rules the_env_def requeue_def)
    qed
  next
    case False
    with st have n: "st = ENV_NOT_RUNNABLE" by simp
    show ?thesis
    proof (cases "?old = ENV_RUNNABLE")
      case True
      with m have "e \<in> set xs" by simp
      from sched_remove_run [OF q this] obtain q' where
        "sched_remove e s = Done () (s\<lparr>env_sched_list := q'\<rparr>)" "is_tailq q' (remove1 e xs)" .
      with True n id assms(7) show ?thesis
        by (intro fin [of q']) (simp_all add: sys_set_env_status_def run_rules the_env_def requeue_def)
    next
      case False
      with n m q id assms(7) show ?thesis
        by (intro fin [of "env_sched_list s"])
          (simp_all add: sys_set_env_status_def run_rules the_env_def requeue_def remove1_idem)
    qed
  qed
qed

text \<open>
  C12. \<^verbatim>\<open>sys_set_env_status\<close> keeps the invariant of the scheduler: on any environment in use, of
  whatever owner, it succeeds, sets the status, and afterwards the list again holds exactly the
  runnable environments; one that becomes runnable joins at the tail.
\<close>

theorem set_env_status_keeps_queue:
  assumes "sched_ok xs s" "ids_ok s" "curenv s = Some c" "target s c envid False = Some e"
    and "e < NENV" "env_status (envs s e) \<noteq> ENV_FREE" "status_of w = Some st"
  shows "\<exists>s'. sys_set_env_status envid w s = Done (Inr 0) s' \<and> sched_ok (requeue st e xs) s' \<and>
    env_status (envs s' e) = st \<and> (\<forall>e'. e' \<noteq> e \<longrightarrow> envs s' e' = envs s e')"
  using set_env_status_run [OF assms] by (auto simp: upd_env_def)

lemma three_ids: "ids_ok three_machine"
proof -
  have "take_bit 21 (of_nat e + 1 :: u32) \<noteq> 0" if "e < 3" for e
    using that by (auto simp: less_Suc_eq numeral_3_eq_3)
  then have "envid_of (of_nat e + 1) e \<noteq> 0" if "e < 3" for e
    using that envid_of_nonzero [of e "of_nat e + 1"] by (simp add: NENV_def LOG2NENV_def)
  then show ?thesis by (simp add: ids_ok_def three_machine_def three_envs_def zero_env_def)
qed

lemma three_simps [simp]: "curenv three_machine = Some 0" "envs three_machine = three_envs"
  by (simp_all add: three_machine_def)

lemma three_target: "e < 3 \<Longrightarrow> target three_machine 0 (envid_of (of_nat e + 1) e) False = Some e"
proof -
  assume e: "e < 3"
  then have "envid_of (of_nat e + 1) e = env_id (envs three_machine e)" "env_status (envs three_machine e) \<noteq> ENV_FREE"
    "e < NENV" by (simp_all add: three_envs_def NENV_def LOG2NENV_def)
  with three_ids show ?thesis by (auto simp: target_def names_def ids_ok_def)
qed

theorem set_env_status_keeps_queue_witness:
  "\<exists>s'. sys_set_env_status (envid_of 2 1) 2 three_machine = Done (Inr 0) s' \<and> sched_ok [0, 2] s'"
proof -
  have "target three_machine 0 (envid_of 2 1) False = Some 1" using three_target [of 1] by simp
  from set_env_status_keeps_queue [OF three_sched_ok three_ids _ this, of 2 ENV_NOT_RUNNABLE]
  show ?thesis by (auto simp: three_envs_def status_of_def requeue_def NENV_def LOG2NENV_def)
qed

section \<open>Waiting for a message\<close>

definition waiting :: "nat \<Rightarrow> u32 \<Rightarrow> kstate \<Rightarrow> bool" where
  "waiting e dstva s \<longleftrightarrow> env_status (envs s e) = ENV_NOT_RUNNABLE \<and> env_ipc_recving (envs s e) = 1 \<and>
     env_ipc_dstva (envs s e) = dstva"

text \<open>
  \<^verbatim>\<open>sys_ipc_recv\<close> blocks the caller: it leaves the run list, is marked as receiving at
  \<open>dstva\<close> with result 0 in its saved frame, and the next runnable environment runs with a full slice;
  if there is none, the kernel panics. (The list is unlinked twice on this path, here and in
  \<^verbatim>\<open>schedule\<close>; the second time has no effect.)
\<close>

theorem ipc_recv_blocks:
  assumes "sched_ok xs s" "curenv s = Some c" "c \<in> set xs" "dstva = 0 \<or> \<not> is_illegal_va dstva"
  shows "case remove1 c xs of
      [] \<Rightarrow> sys_ipc_recv dstva s = Panic ''schedule: no runnable envs''
    | n # ys \<Rightarrow> \<exists>s'. sys_ipc_recv dstva s = Away s' \<and> sched_ok (n # ys) s' \<and> curenv s' = Some n \<and>
        sched_count s' = env_pri (envs s n) \<and> waiting c dstva s' \<and> tf_regs (env_tf (envs s' c)) 2 = 0 \<and>
        (\<forall>x. env_id (envs s' x) = env_id (envs s x) \<and> (env_status (envs s' x) = ENV_FREE \<longleftrightarrow> env_status (envs s x) = ENV_FREE))"
proof -
  have c: "c < NENV" "env_status (envs s c) = ENV_RUNNABLE"
    using assms(1,3) by (auto simp: sched_ok_def runnable_def)
  let ?s1 = "upd_env c (\<lambda>e. e\<lparr>env_ipc_recving := 1, env_ipc_dstva := dstva, env_status := ENV_NOT_RUNNABLE\<rparr>) s"
  from assms(1) have q: "is_tailq (env_sched_list ?s1) xs" by (simp add: sched_ok_def upd_env_def)
  from sched_remove_run [OF q assms(3)] obtain q1 where q1: "sched_remove c ?s1 = Done () (?s1\<lparr>env_sched_list := q1\<rparr>)"
    "is_tailq q1 (remove1 c xs)" "TAILQ_REMOVE c (env_sched_list ?s1) = Some q1" .
  note again = TAILQ_REMOVE_again [OF q assms(3) q1(3)]
  let ?s2 = "?s1\<lparr>env_sched_list := q1, kstack_tf := set_tf_reg 2 0 (kstack_tf s)\<rparr>"
  have run: "sys_ipc_recv dstva s = schedule True ?s2"
    using assms(2,4) q1(1) by (cases "envs s c") (auto simp: sys_ipc_recv_def run_rules the_env_def upd_env_def)
  have em: "TAILQ_EMPTY q1 \<longleftrightarrow> remove1 c xs = []" by (rule TAILQ_EMPTY_spec [OF q1(2)])
  show ?thesis
  proof (cases "remove1 c xs")
    case Nil
    with run em assms(2) show ?thesis by (simp add: schedule_def run_rules upd_env_def)
  next
    case (Cons n ys)
    let ?s3 = "?s2\<lparr>sched_count := sched_count s - 1\<rparr>"
    have "sched_remove c ?s3 = Done () ?s3" using again by (simp add: sched_remove_def run_rules)
    moreover have "sched_pick ?s3 = Done n (?s2\<lparr>sched_count := env_pri (envs ?s2 n)\<rparr>)"
      using sched_pick_run [of ?s3 n ys] q1(2) Cons by simp
    moreover have n: "n \<in> set xs" "n \<noteq> c"
      using Cons set_remove1_subset [of c xs] set_remove1_eq [OF sched_ok_distinct [OF assms(1)], of c] by auto
    moreover have "env_status (envs ?s2 n) = ENV_RUNNABLE"
      using n assms(1) by (auto simp: sched_ok_def runnable_def upd_env_def)
    ultimately have away: "sys_ipc_recv dstva s = Away (enter n (?s2\<lparr>sched_count := env_pri (envs ?s2 n)\<rparr>))"
      unfolding run using Cons em assms(2)
      by (simp add: schedule_def run_rules env_run_run upd_env_def)
    let ?s' = "enter n (?s2\<lparr>sched_count := env_pri (envs ?s2 n)\<rparr>)"
    have "runnable ?s2 = runnable s - {c}" by (auto simp: runnable_def upd_env_def)
    then have "sched_ok (n # ys) ?s2"
      using q1(2) assms(1) Cons sched_ok_distinct [OF assms(1)] set_remove1_eq [of xs c]
      by (auto simp: sched_ok_def)
    moreover have "waiting c dstva ?s'" "tf_regs (env_tf (envs ?s' c)) 2 = 0"
      using assms(2) n(2)
      by (simp_all add: waiting_def enter_def Let_def save_cur_def upd_env_def set_tf_reg_def)
    moreover have "\<forall>x. env_id (envs ?s' x) = env_id (envs s x) \<and> (env_status (envs ?s' x) = ENV_FREE \<longleftrightarrow> env_status (envs s x) = ENV_FREE)"
      using c(2) by (simp add: upd_env_def)
    ultimately show ?thesis using away Cons n(2) by (simp add: upd_env_def)
  qed
qed

theorem ipc_recv_blocks_witness:
  "\<exists>s'. sys_ipc_recv 0 three_machine = Away s' \<and> sched_ok [1, 2] s' \<and> curenv s' = Some 1 \<and> waiting 0 0 s'"
  using ipc_recv_blocks [OF three_sched_ok three_simps(1), of 0] by auto

section \<open>Sending\<close>

definition delivered :: "nat \<Rightarrow> u32 \<Rightarrow> u32 \<Rightarrow> u32 \<Rightarrow> kstate \<Rightarrow> bool" where
  "delivered e val from perm s \<longleftrightarrow> env_ipc_value (envs s e) = val \<and> env_ipc_from (envs s e) = from \<and>
     env_ipc_perm (envs s e) = PTE_V OR perm \<and> env_ipc_recving (envs s e) = 0 \<and>
     env_status (envs s e) = ENV_RUNNABLE"

lemma ipc_try_send_state:
  assumes "sched_ok xs s" "ids_ok s" "curenv s = Some c" "target s c envid False = Some e" "e < NENV"
    and "env_ipc_recving (envs s e) \<noteq> 0" "env_status (envs s e) = ENV_NOT_RUNNABLE"
    and "srcva = 0 \<or> \<not> is_illegal_va srcva"
  obtains s1 where "sched_ok (xs @ [e]) s1" "delivered e val (env_id (envs s c)) perm s1"
    "mem s1 = mem s" "\<forall>e'. e' \<noteq> e \<longrightarrow> envs s1 e' = envs s e'" "curenv s1 = Some c"
    "env_pgdir (envs s1 e) = env_pgdir (envs s e)" "env_ipc_dstva (envs s1 e) = env_ipc_dstva (envs s e)"
    "env_asid (envs s1 e) = env_asid (envs s e)" "env_id (envs s1 e) = env_id (envs s e)"
    "npage s1 = npage s" "page_free_list s1 = page_free_list s" "pp_ref s1 = pp_ref s"
    "sys_ipc_try_send envid val srcva perm s =
      (if srcva \<noteq> 0 then
         bindK (getsK (\<lambda>s. env_pgdir (envs s c))) (\<lambda>dir.
         bindK (page_lookup dir srcva) (\<lambda>l. case l of
           None \<Rightarrow> retK (Inl E_INVAL)
         | Some (pp, _, _) \<Rightarrow> bindK (getsK (\<lambda>s. envs s e)) (\<lambda>env.
             bindK (page_insert (env_pgdir env) (env_asid env) pp (env_ipc_dstva env) perm) (\<lambda>_. okK)))) s1
       else Done (Inr 0) s1)"
proof -
  let ?s0 = "upd_env e (\<lambda>x. x\<lparr>env_ipc_value := val, env_ipc_from := env_id (envs s c),
     env_ipc_perm := PTE_V OR perm, env_ipc_recving := 0, env_status := ENV_RUNNABLE\<rparr>) s"
  have "e \<notin> set xs" using sched_ok_mem [OF assms(1,5)] assms(7) by simp
  moreover have q: "is_tailq (env_sched_list ?s0) xs" using assms(1) by (simp add: sched_ok_def upd_env_def)
  ultimately obtain q' where q': "sched_insert_tail e ?s0 = Done () (?s0\<lparr>env_sched_list := q'\<rparr>)"
    "is_tailq q' (xs @ [e])" using sched_insert_run by blast
  let ?s1 = "?s0\<lparr>env_sched_list := q'\<rparr>"
  have id: "envid2env envid False s = Done (Inr (Some e)) s"
    using envid2env_target [OF assms(2,3)] assms(4) by simp
  have ec: "env_id (envs s c) = env_id (if c = e then X\<lparr>env_ipc_value := val\<rparr> else envs s c)"
    if "X = envs s e" for X using that by simp
  have run: "sys_ipc_try_send envid val srcva perm s =
      (if srcva \<noteq> 0 then
         bindK (getsK (\<lambda>s. env_pgdir (envs s c))) (\<lambda>dir.
         bindK (page_lookup dir srcva) (\<lambda>l. case l of
           None \<Rightarrow> retK (Inl E_INVAL)
         | Some (pp, _, _) \<Rightarrow> bindK (getsK (\<lambda>s. envs s e)) (\<lambda>env.
             bindK (page_insert (env_pgdir env) (env_asid env) pp (env_ipc_dstva env) perm) (\<lambda>_. okK)))) ?s1
       else Done (Inr 0) ?s1)"
    using assms(3,6,8) id q'(1)
    by (cases "envs s e"; cases "c = e") (auto simp: sys_ipc_try_send_def run_rules the_env_def upd_env_def)
  have "runnable ?s1 = insert e (runnable s)" using assms(5) by (auto simp: runnable_def upd_env_def)
  then have "sched_ok (xs @ [e]) ?s1" using q'(2) assms(1) by (auto simp: sched_ok_def)
  moreover have "delivered e val (env_id (envs s c)) perm ?s1" by (simp add: delivered_def upd_env_def)
  ultimately show ?thesis using run assms(3) by (intro that [of ?s1]) (simp_all add: upd_env_def)
qed

lemma ipc_try_send_run:
  assumes "kern_inv idx pin fl c s" "sched_ok xs s" "target s c envid False = Some e"
    and "env_ipc_recving (envs s e) \<noteq> 0" "env_status (envs s e) = ENV_NOT_RUNNABLE"
    and "srcva = 0 \<or> \<not> is_illegal_va srcva" "srcva \<noteq> 0 \<Longrightarrow> \<not> is_illegal_va (env_ipc_dstva (envs s e))"
    and "perm < 4096" "\<forall>p. unat (pp_ref s p) < 65535"
  shows "\<exists>r s'. sys_ipc_try_send envid val srcva perm s = Done r s' \<and>
    delivered e val (env_id (envs s c)) perm s' \<and> sched_ok (xs @ [e]) s' \<and>
    (if srcva = 0 then r = Inr 0 \<and> mem s' = mem s
     else if valid (tr s c srcva) then r = Inr 0 \<and>
       (tr s' e (env_ipc_dstva (envs s e)) = page2pa (PPN (tr s c srcva)) OR perm OR PTE_V \<and>
          only_tr e (env_ipc_dstva (envs s e)) s s' \<or> full_for s e (env_ipc_dstva (envs s e)) fl)
     else r = Inl E_INVAL)"
proof -
  let ?dst = "env_ipc_dstva (envs s e)"
  note D = kern_invD [OF assms(1)]
  have eu: "in_use s e" by (rule target_in_use [OF assms(1,3)])
  then have e: "e < NENV" by (simp add: in_use_def)
  from ipc_try_send_state [OF assms(2) D(2,3) assms(3) e assms(4,5,6), of val perm] obtain s1 where
    s1: "sched_ok (xs @ [e]) s1" "delivered e val (env_id (envs s c)) perm s1"
      "mem s1 = mem s" "\<forall>e'. e' \<noteq> e \<longrightarrow> envs s1 e' = envs s e'" "curenv s1 = Some c"
      "env_pgdir (envs s1 e) = env_pgdir (envs s e)" "env_ipc_dstva (envs s1 e) = ?dst"
      "env_asid (envs s1 e) = env_asid (envs s e)" "env_id (envs s1 e) = env_id (envs s e)"
      "npage s1 = npage s" "page_free_list s1 = page_free_list s" "pp_ref s1 = pp_ref s" and
    run: "sys_ipc_try_send envid val srcva perm s =
      (if srcva \<noteq> 0 then
         bindK (getsK (\<lambda>s. env_pgdir (envs s c))) (\<lambda>dir.
         bindK (page_lookup dir srcva) (\<lambda>l. case l of
           None \<Rightarrow> retK (Inl E_INVAL)
         | Some (pp, _, _) \<Rightarrow> bindK (getsK (\<lambda>s. envs s e)) (\<lambda>env.
             bindK (page_insert (env_pgdir env) (env_asid env) pp (env_ipc_dstva env) perm) (\<lambda>_. okK)))) s1
       else Done (Inr 0) s1)" .
  have same: "env_pgdir (envs s1 x) = env_pgdir (envs s x)" "env_asid (envs s1 x) = env_asid (envs s x)"
    "env_id (envs s1 x) = env_id (envs s x)" "in_use s1 x = in_use s x" for x
    using s1(2,4,6,8,9) assms(5) by (cases "x = e"; simp add: in_use_def delivered_def)+
  have k1: "kern_inv idx pin fl c s1"
    using assms(1) s1(3,5,10,11,12) same by (simp add: kern_inv_def mm_inv_def ids_ok_in_use)
  have tr1: "tr s1 x va = tr s x va" for x va using s1(3) same(1) by (simp add: tr_def)
  show ?thesis
  proof (cases "srcva = 0")
    case True
    with run s1(1,2,3) show ?thesis by simp
  next
    case False
    with assms(6,7) have legal: "\<not> is_illegal_va srcva" "\<not> is_illegal_va ?dst" by auto
    from page_lookup_sys(1) [OF k1 kern_invD(4) [OF k1] legal(1)] obtain t j where
      l: "page_lookup (env_pgdir (envs s1 c)) srcva s1 =
        Done (if valid (tr s c srcva) then Some (PPN (tr s c srcva), t, j) else None) s1"
      unfolding tr1 by blast
    show ?thesis
    proof (cases "valid (tr s c srcva)")
      case unmapped: False
      with False run l s1(1,2) show ?thesis by (simp add: run_rules)
    next
      case True
      have e1: "in_use s1 e" using eu same(4) by simp
      note p = page_lookup_sys(2) [OF k1 kern_invD(4) [OF k1] legal(1), unfolded tr1, OF True]
      have pr: "unat (pp_ref s1 (PPN (tr s c srcva))) < 65535" using assms(9) s1(12) by simp
      from page_insert_sys_run [OF k1 e1 legal(2) conjunct1 [OF p] conjunct2 [OF p] pr assms(8)]
      have "\<exists>r s'. page_insert (env_pgdir (envs s1 e)) (env_asid (envs s1 e)) (PPN (tr s c srcva)) ?dst perm s1 = Done r s' \<and>
          same_rest s1 s' \<and> (tr s' e ?dst = page2pa (PPN (tr s c srcva)) OR perm OR PTE_V \<and> only_tr e ?dst s1 s' \<or>
            full_for s1 e ?dst fl)"
        using same_rest_flush
        by (auto simp: page_insert_sys_def run_rules split: outcome.splits sum.splits)
      then obtain r s' where s': "page_insert (env_pgdir (envs s1 e)) (env_asid (envs s1 e)) (PPN (tr s c srcva)) ?dst perm s1 = Done r s'"
        "same_rest s1 s'" "tr s' e ?dst = page2pa (PPN (tr s c srcva)) OR perm OR PTE_V \<and> only_tr e ?dst s1 s' \<or>
            full_for s1 e ?dst fl" by blast
      note R = same_restD [OF s'(2)]
      have "only_tr e ?dst s1 s' \<Longrightarrow> only_tr e ?dst s s'" by (simp add: only_tr_def same(4) tr1)
      moreover have "full_for s1 e ?dst fl = full_for s e ?dst fl" by (simp add: full_for_def s1(3,6))
      moreover have "sched_ok (xs @ [e]) s'" using s1(1) R by (simp add: sched_ok_def runnable_def)
      moreover have "delivered e val (env_id (envs s c)) perm s'" using s1(2) R by (simp add: delivered_def)
      moreover have "sys_ipc_try_send envid val srcva perm s = Done (Inr 0) s'"
        using False True run l s'(1) s1(7) by (simp add: run_rules)
      ultimately show ?thesis using s'(3) False True by auto
    qed
  qed
qed


text \<open>
  \<^verbatim>\<open>sys_ipc_try_send\<close> to a blocked receiver delivers the value, the sender's id and the
  permissions, and wakes the receiver at the tail of the run list. With a page address that is
  mapped at the sender, the receiver's \<open>dstva\<close> translates to the sender's page afterwards, and no
  other translation differs; with one that is not mapped the call reports \<open>E_INVAL\<close>, although
  the message has been delivered.
\<close>

theorem ipc_send_delivers:
  assumes "kern_inv idx pin fl c s" "sched_ok xs s" "target s c envid False = Some e"
    and "env_ipc_recving (envs s e) \<noteq> 0" "env_status (envs s e) = ENV_NOT_RUNNABLE"
    and "srcva = 0 \<or> \<not> is_illegal_va srcva" "srcva \<noteq> 0 \<Longrightarrow> \<not> is_illegal_va (env_ipc_dstva (envs s e))"
    and "perm < 4096" "\<forall>p. unat (pp_ref s p) < 65535"
  shows "\<exists>r s'. sys_ipc_try_send envid val srcva perm s = Done r s' \<and>
    delivered e val (env_id (envs s c)) perm s' \<and> sched_ok (xs @ [e]) s' \<and>
    (if srcva = 0 then r = Inr 0 \<and> mem s' = mem s
     else if valid (tr s c srcva) then r = Inr 0 \<and>
       (tr s' e (env_ipc_dstva (envs s e)) = page2pa (PPN (tr s c srcva)) OR perm OR PTE_V \<and>
          only_tr e (env_ipc_dstva (envs s e)) s s' \<or> full_for s e (env_ipc_dstva (envs s e)) fl)
     else r = Inl E_INVAL)"
  using assms by (rule ipc_try_send_run)
text \<open>A machine with a runnable sender 0 and a blocked receiver 1, each with an empty directory.\<close>

definition pair_idx :: "nat \<Rightarrow> nat set" where
  "pair_idx d = (if d = 1 \<or> d = 2 then user_slots else {})"

definition pair_env :: "nat \<Rightarrow> env" where
  "pair_env e = (if e = 0 then zero_env\<lparr>env_id := envid_of 1 0, env_status := ENV_RUNNABLE, env_pgdir := 1, env_pri := 1\<rparr>
     else if e = 1 then zero_env\<lparr>env_id := envid_of 2 1, env_status := ENV_NOT_RUNNABLE, env_pgdir := 2,
       env_asid := 1, env_ipc_recving := 1, env_pri := 1\<rparr>
     else zero_env)"

definition pair_machine :: kstate where
  "pair_machine = small_machine\<lparr>envs := pair_env, curenv := Some 0,
     env_sched_list := TAILQ_INSERT_HEAD 0 (TAILQ_INIT empty_tailq)\<rparr>"

lemma pair_simps [simp]: "curenv pair_machine = Some 0" "envs pair_machine = pair_env"
  "pp_ref pair_machine p = (if p < 4 then 1 else 0)" "mem pair_machine = (\<lambda>_ _. 0)"
  by (simp_all add: pair_machine_def)

lemma pair_in_use: "in_use pair_machine e \<longleftrightarrow> e = 0 \<or> e = 1"
  by (auto simp: in_use_def pair_env_def zero_env_def NENV_def LOG2NENV_def)

lemma pair_nonzero: "envid_of 1 0 \<noteq> 0" "envid_of 2 1 \<noteq> 0"
  by (rule envid_of_nonzero; simp add: NENV_def LOG2NENV_def)+

lemma pair_kern: "kern_inv pair_idx small_pin [4, 5, 6, 7] 0 pair_machine"
proof -
  have "mm_inv pair_idx small_pin [4, 5, 6, 7] pair_machine"
    by (simp add: mm_inv_def pt_wf_def tabs_def leafs_def ntab_def nleaf_def pair_machine_def
        small_machine_def bss_def small_free_list pair_idx_def small_pin_def user_slots_def)
  moreover have "ids_ok pair_machine"
    using pair_nonzero by (auto simp: ids_ok_in_use pair_in_use pair_env_def NENV_def LOG2NENV_def)
  ultimately show ?thesis
    by (auto simp: kern_inv_def pair_in_use pair_idx_def pair_env_def zero_env_def inj_on_def)
qed

lemma pair_sched: "sched_ok [0] pair_machine"
proof -
  have "is_tailq (env_sched_list pair_machine) [0]"
    by (simp add: pair_machine_def tq.push_repr tq.repr_init)
  then show ?thesis
    by (auto simp: sched_ok_def runnable_def pair_env_def zero_env_def NENV_def LOG2NENV_def split: if_splits)
qed

lemma pair_target: "target pair_machine 0 (envid_of 2 1) False = Some 1"
  using pair_nonzero by (simp add: target_def names_def pair_env_def NENV_def LOG2NENV_def)

theorem ipc_send_delivers_witness:
  "\<exists>s'. sys_ipc_try_send (envid_of 2 1) 42 0 0 pair_machine = Done (Inr 0) s' \<and>
     delivered 1 42 (envid_of 1 0) 0 s' \<and> sched_ok [0, 1] s'"
proof -
  have "\<forall>p. unat (pp_ref pair_machine p) < 65535" by simp
  with ipc_send_delivers [OF pair_kern pair_sched pair_target, of 0 0 42] show ?thesis
    by (auto simp: pair_env_def zero_env_def)
qed

section \<open>Waking twice\<close>

text \<open>
  \<^verbatim>\<open>sys_set_env_status\<close> can wake an environment that waits for a message without ending the
  wait. A message sent to it then, while it is last in the list, links it a second time: it becomes
  its own successor, and the list is no longer well formed, so every environment behind is lost.
\<close>

theorem woken_receiver_corrupts_queue:
  assumes "sched_ok xs s" "ids_ok s" "curenv s = Some c" "c \<noteq> e" "target s c envid False = Some e" "e < NENV"
    and "env_ipc_recving (envs s e) \<noteq> 0" "env_status (envs s e) = ENV_NOT_RUNNABLE"
  shows "\<exists>s1 s2. sys_set_env_status envid 1 s = Done (Inr 0) s1 \<and> sched_ok (xs @ [e]) s1 \<and>
    sys_ipc_try_send envid val 0 perm s1 = Done (Inr 0) s2 \<and>
    TAILQ_NEXT e (env_sched_list s2) = Some e \<and> (\<forall>ys. \<not> sched_ok ys s2)"
proof -
  have ex: "e \<notin> set xs" using sched_ok_mem [OF assms(1,6)] assms(8) by simp
  have q: "is_tailq (env_sched_list s) xs" using assms(1) by (simp add: sched_ok_def)
  from sched_insert_run [OF q ex] obtain q1 where q1: "sched_insert_tail e s = Done () (s\<lparr>env_sched_list := q1\<rparr>)"
    "is_tailq q1 (xs @ [e])" .
  let ?s1 = "upd_env e (env_status_update (\<lambda>_. ENV_RUNNABLE)) (s\<lparr>env_sched_list := q1\<rparr>)"
  have id: "envid2env envid False s = Done (Inr (Some e)) s"
    using envid2env_target [OF assms(2,3)] assms(5) by simp
  have run1: "sys_set_env_status envid 1 s = Done (Inr 0) ?s1"
    using id q1(1) assms(8) by (simp add: sys_set_env_status_def status_of_def run_rules the_env_def)
  have ok1: "sched_ok (xs @ [e]) ?s1"
    using q1(2) assms(1,6) by (auto simp: sched_ok_def runnable_def upd_env_def)
  have "ids_ok ?s1" using assms(2,8) by (auto simp: ids_ok_def upd_env_def)
  moreover have "target ?s1 c envid False = Some e"
    using assms(4,5,8) by (auto simp: target_def names_def upd_env_def split: if_splits)
  ultimately have id1: "envid2env envid False ?s1 = Done (Inr (Some e)) ?s1"
    using envid2env_target [of ?s1 c envid False] assms(3) by (simp add: upd_env_def)
  let ?s2 = "upd_env e (\<lambda>x. x\<lparr>env_ipc_value := val, env_ipc_from := env_id (envs s c),
     env_ipc_perm := PTE_V OR perm, env_ipc_recving := 0, env_status := ENV_RUNNABLE\<rparr>) ?s1"
  obtain q2 where q2: "TAILQ_INSERT_TAIL e q1 = Some q2"
    using q1(2) by (auto simp: TAILQ_INSERT_TAIL_def is_tailq_def)
  have run2: "sys_ipc_try_send envid val 0 perm ?s1 = Done (Inr 0) (?s2\<lparr>env_sched_list := q2\<rparr>)"
    using id1 q2 assms(3,4,7) by (cases "envs s e")
      (simp add: sys_ipc_try_send_def run_rules the_env_def upd_env_def sched_insert_tail_def)
  note again = TAILQ_INSERT_TAIL_again [OF q1(2) q2]
  have "TAILQ_NEXT e (env_sched_list (?s2\<lparr>env_sched_list := q2\<rparr>)) = Some e"
    using again(1) by (simp add: TAILQ_NEXT_def)
  moreover have "\<not> sched_ok ys (?s2\<lparr>env_sched_list := q2\<rparr>)" for ys
    using again(2) by (simp add: sched_ok_def)
  ultimately show ?thesis using run1 run2 ok1 by blast
qed

theorem woken_receiver_corrupts_queue_witness:
  "\<exists>s1 s2. sys_set_env_status (envid_of 2 1) 1 pair_machine = Done (Inr 0) s1 \<and>
    sys_ipc_try_send (envid_of 2 1) 7 0 0 s1 = Done (Inr 0) s2 \<and>
    TAILQ_NEXT 1 (env_sched_list s2) = Some 1"
  using woken_receiver_corrupts_queue [OF pair_sched kern_invD(2) [OF pair_kern] pair_simps(1) _ pair_target,
      of 7 0] by (auto simp: pair_env_def NENV_def LOG2NENV_def)

end
