(* ===== verification/Elf_Thms.thy ===== *)
theory Elf_Thms
  imports Elf Env_Thms
begin

text \<open>
  What \<^verbatim>\<open>elf_load_seg\<close> builds. The locale \<open>segment_mapper\<close> is its contract with the callback: a call
  that has memory left maps the page of its address with the given bytes among zeroes and leaves the
  rest of the image alone. The loader is proved once in the locale; \<open>load_icode_mapper\<close>, the
  kernel's callback, is its interpretation here, and \<open>spawn_mapper\<close> in \<open>Spawn_Load\<close>.
\<close>

type_synonym image = "u32 \<Rightarrow> u8 option"

section \<open>The image of a segment\<close>

text \<open>The byte at offset \<open>j\<close> of a page that is mapped by a call of the callback.\<close>

definition page_byte :: "(u32 \<Rightarrow> u8) \<Rightarrow> u32 \<Rightarrow> u32 option \<Rightarrow> u32 \<Rightarrow> nat \<Rightarrow> u8" where
  "page_byte rd off src len j = (case src of None \<Rightarrow> 0
     | Some b \<Rightarrow> if unat off \<le> j \<and> j < unat off + unat len then rd (b + of_nat (j - unat off)) else 0)"

text \<open>What a segment means: the file's bytes from \<^verbatim>\<open>p_vaddr\<close> on, and zeroes elsewhere in its pages.\<close>

definition seg_byte :: "(u32 \<Rightarrow> u8) \<Rightarrow> phdr \<Rightarrow> u32 \<Rightarrow> u32 \<Rightarrow> u8" where
  "seg_byte rd ph bin a = (if p_vaddr ph \<le> a \<and> unat a < unat (p_vaddr ph) + unat (p_filesz ph)
     then rd (bin + (a - p_vaddr ph)) else 0)"

definition seg_first :: "phdr \<Rightarrow> nat" where "seg_first ph = unat (p_vaddr ph) div 4096"
definition seg_end :: "phdr \<Rightarrow> nat" where "seg_end ph = (unat (p_vaddr ph) + unat (p_memsz ph) + 4095) div 4096"
definition in_seg :: "phdr \<Rightarrow> u32 \<Rightarrow> bool" where "in_seg ph a \<longleftrightarrow> seg_first ph \<le> VPN a \<and> VPN a < seg_end ph"

definition page_offset :: "u32 \<Rightarrow> nat" where
  "page_offset va = unat va mod 4096"

text \<open>
  The segments that \<^verbatim>\<open>elf_load_seg\<close> loads as they are meant: they start on a page boundary, or their file
  contents reach past the first page, or there is nothing beyond them (see \<open>elf_load_seg_twice\<close>).
\<close>

definition loadable :: "phdr \<Rightarrow> bool" where
  "loadable ph \<longleftrightarrow> p_filesz ph \<le> p_memsz ph \<and> unat (p_vaddr ph) + unat (p_memsz ph) + 4096 \<le> 2 ^ 32 \<and>
     (page_offset (p_vaddr ph) = 0 \<or> 4096 - page_offset (p_vaddr ph) \<le> unat (p_filesz ph) \<or> p_memsz ph = p_filesz ph)"

text \<open>The pages up to \<open>h\<close> are built on top of the image \<open>img0\<close>.\<close>

definition built :: "(u32 \<Rightarrow> u8) \<Rightarrow> phdr \<Rightarrow> u32 \<Rightarrow> nat \<Rightarrow> image \<Rightarrow> image \<Rightarrow> bool" where
  "built rd ph bin h img0 img \<longleftrightarrow>
     (\<forall>a. img a = (if seg_first ph \<le> VPN a \<and> VPN a < h then Some (seg_byte rd ph bin a) else img0 a))"

lemma offset_word: "va \<le> (a :: u32) \<Longrightarrow> of_nat (unat a - unat va) = a - va"
  using unat_sub [of va a] by (metis of_nat_unat ucast_id)

lemma unat_page_offset: "unat (va - ROUNDDOWN va BY2PG) = page_offset va"
proof -
  have r: "unat (ROUNDDOWN va BY2PG) = unat va div 4096 * 4096" by (rule unat_ROUNDDOWN_page)
  then have "ROUNDDOWN va BY2PG \<le> va" by (simp add: word_le_nat_alt)
  then have "unat (va - ROUNDDOWN va BY2PG) = unat va - unat va div 4096 * 4096" using r by (simp add: unat_sub)
  also have "\<dots> = unat va mod 4096" by (simp add: minus_div_mult_eq_mod)
  finally show ?thesis by (simp add: page_offset_def)
qed

lemma page_split: "unat (a :: u32) = 4096 * VPN a + unat a mod 4096"
  by (simp add: VPN_alt)

text \<open>The bytes of the three kinds of calls: the first page, a page of the file, a page of zeroes.\<close>

lemma page_byte_file:
  assumes "VPN a = VPN x" "p_vaddr ph \<le> x" "unat x mod 4096 = unat off"
    and len: "unat len = min (unat (p_vaddr ph) + unat (p_filesz ph) - unat x) (4096 - unat off)"
    and lo: "unat off = 0 \<or> x = p_vaddr ph"
  shows "page_byte rd off (Some (bin + (x - p_vaddr ph))) len (unat a mod 4096) = seg_byte rd ph bin a"
proof -
  let ?va = "p_vaddr ph" and ?j = "unat a mod 4096"
  have a: "unat a = 4096 * VPN x + ?j" using page_split [of a] assms(1) by simp
  have x: "unat x = 4096 * VPN x + unat off" using page_split [of x] assms(3) by simp
  have jl: "?j < 4096" by simp
  show ?thesis
  proof (cases "unat off \<le> ?j")
    case True
    then have xa: "x \<le> a" "?va \<le> a" using a x assms(2) by (simp_all add: word_le_nat_alt)
    have "?j - unat off = unat a - unat x" using a x by simp
    then have e: "bin + (x - ?va) + of_nat (?j - unat off) = bin + (a - ?va)" using offset_word [OF xa(1)] by simp
    have c: "unat off \<le> ?j \<and> ?j < unat off + unat len \<longleftrightarrow> unat a < unat ?va + unat (p_filesz ph)"
      unfolding len using True jl a x by linarith
    show ?thesis unfolding page_byte_def seg_byte_def option.case c e using xa(2) by simp
  next
    case False
    then have "\<not> ?va \<le> a" using lo a x by (auto simp: word_le_nat_alt)
    then show ?thesis using False by (simp add: page_byte_def seg_byte_def)
  qed
qed

lemma page_byte_zero:
  assumes "VPN a = VPN x" "unat x mod 4096 = 0" "unat (p_vaddr ph) + unat (p_filesz ph) \<le> unat x"
  shows "page_byte rd off None len j = seg_byte rd ph bin a"
proof -
  have "unat x \<le> unat a" using page_split [of a] page_split [of x] assms(1,2) by simp
  then show ?thesis using assms(3) by (simp add: page_byte_def seg_byte_def)
qed

section \<open>The contract of the callback\<close>

text \<open>
  \<open>ready n s\<close>: there is memory for \<open>n\<close> more pages; \<open>image\<close> is the address space that is built;
  \<open>legal\<close> are the addresses that may be mapped, \<open>source\<close> those that hold the file's bytes \<open>rd\<close>.
\<close>

locale segment_mapper =
  fixes map_page :: "'s mapper"
    and rd :: "u32 \<Rightarrow> u8"
    and ready :: "nat \<Rightarrow> 's \<Rightarrow> bool"
    and image :: "'s \<Rightarrow> image"
    and legal :: "u32 \<Rightarrow> bool"
    and source :: "u32 \<Rightarrow> bool"
  assumes maps: "ready (Suc n) s \<Longrightarrow> legal va \<Longrightarrow> (\<And>a. VPN a = VPN va \<Longrightarrow> image s a = None) \<Longrightarrow>
      perm = PTE_V \<or> perm = PTE_V OR PTE_D \<Longrightarrow> unat off < 4096 \<Longrightarrow>
      (\<And>b. src = Some b \<Longrightarrow> unat off + unat len \<le> 4096 \<and> (\<forall>k < unat len. source (b + of_nat k))) \<Longrightarrow>
      \<exists>t. map_page va off perm src len s = Done (Inr ()) t \<and> ready n t \<and>
        (\<forall>a. image t a = (if VPN a = VPN va then Some (page_byte rd off src len (unat a mod 4096)) else image s a))"
begin

lemma one_page:
  assumes r: "ready (Suc n) s" and b: "built rd ph bin (VPN x) img0 (image s)"
    and x: "in_seg ph x" and seg: "\<And>a. in_seg ph a \<Longrightarrow> img0 a = None \<and> legal a"
    and perm: "perm = PTE_V \<or> perm = PTE_V OR PTE_D" and off: "unat off < 4096"
    and src: "\<And>b. src = Some b \<Longrightarrow> unat off + unat len \<le> 4096 \<and> (\<forall>k < unat len. source (b + of_nat k))"
    and bytes: "\<And>a. VPN a = VPN x \<Longrightarrow> page_byte rd off src len (unat a mod 4096) = seg_byte rd ph bin a"
  shows "\<exists>t. map_page x off perm src len s = Done (Inr ()) t \<and> ready n t \<and>
    built rd ph bin (Suc (VPN x)) img0 (image t)"
proof -
  have "image s a = None" if "VPN a = VPN x" for a
    using that b x seg [of a] by (simp add: built_def in_seg_def)
  from maps [OF r _ this perm off src] seg [OF x] obtain t where
    t: "map_page x off perm src len s = Done (Inr ()) t" "ready n t"
      "\<forall>a. image t a = (if VPN a = VPN x then Some (page_byte rd off src len (unat a mod 4096)) else image s a)"
    by blast
  have "built rd ph bin (Suc (VPN x)) img0 (image t)"
    using b x bytes t(3) by (auto simp: built_def in_seg_def less_Suc_eq)
  then show ?thesis using t(1,2) by blast
qed

text \<open>A call at an address of the segment.\<close>

lemma bin_loop:
  assumes fit: "p_filesz ph \<le> p_memsz ph" "unat (p_vaddr ph) + unat (p_memsz ph) + 4096 \<le> 2 ^ 32"
    and seg: "\<And>a. in_seg ph a \<Longrightarrow> img0 a = None \<and> legal a"
    and src: "\<And>k. k < unat (p_filesz ph) \<Longrightarrow> source (bin + of_nat k)"
    and perm: "perm = PTE_V \<or> perm = PTE_V OR PTE_D"
  shows "i < p_filesz ph \<longrightarrow> unat (p_vaddr ph) + unat i = 4096 * h \<Longrightarrow> seg_first ph \<le> h \<Longrightarrow>
    built rd ph bin h img0 (image s) \<Longrightarrow> ready (n + (seg_end ph - h)) s \<Longrightarrow> unat (p_filesz ph) \<le> unat i + m * 4096 \<Longrightarrow>
    \<exists>i' h' t. elf_load_bin m map_page (p_vaddr ph) perm bin (p_filesz ph) i s = Done (Inr i') t \<and>
      built rd ph bin h' img0 (image t) \<and> ready (n + (seg_end ph - h')) t \<and> p_filesz ph \<le> i' \<and> seg_first ph \<le> h' \<and>
      (if i < p_filesz ph then unat (p_vaddr ph) + unat i' = 4096 * h' \<and> unat i' < unat (p_filesz ph) + 4096
       else i' = i \<and> h' = h)"
proof (induction m arbitrary: i h s)
  case 0
  then have "\<not> i < p_filesz ph" by (simp add: word_less_nat_alt)
  then show ?case using 0 by (auto simp: elf_load_bin.simps run_rules)
next
  case (Suc m)
  let ?va = "p_vaddr ph" and ?f = "p_filesz ph"
  show ?case
  proof (cases "i < ?f")
    case False
    then show ?thesis using Suc.prems by (auto simp: elf_load_bin.simps run_rules)
  next
    case True
    then have lt: "unat i < unat ?f" and h: "unat ?va + unat i = 4096 * h" using Suc.prems(1) by (simp_all add: word_less_nat_alt)
    have fm: "unat ?f \<le> unat (p_memsz ph)" using fit(1) by (simp add: word_le_nat_alt)
    let ?x = "?va + i"
    have ux: "unat ?x = 4096 * h" using lt fm fit(2) h unat_add_nat [of ?va "unat i"] by simp
    have vx: "VPN ?x = h" "unat ?x mod 4096 = 0" unfolding VPN_alt ux by simp_all
    have end': "h < seg_end ph" unfolding seg_end_def using lt fm h by linarith
    have x: "in_seg ph ?x" using end' Suc.prems(2) by (simp add: in_seg_def vx(1))
    have mn: "unat (min (?f - i) BY2PG) = min (unat ?f - unat i) 4096"
      using unat_sub [OF less_imp_le [OF True]] by (simp add: min_def word_le_nat_alt BY2PG_def)
    have eq: "bin + (?x - ?va) = bin + i" by simp
    have le: "?va \<le> ?x" using ux h by (simp add: word_le_nat_alt)
    have bytes: "page_byte rd 0 (Some (bin + i)) (min (?f - i) BY2PG) (unat a mod 4096) = seg_byte rd ph bin a"
      if "VPN a = VPN ?x" for a
      using page_byte_file [OF that le, of 0 "min (?f - i) BY2PG" rd bin] vx(2) mn ux h unfolding eq by simp
    have sr: "source (bin + i + of_nat k)" if "k < unat (min (?f - i) BY2PG)" for k
      using src [of "unat i + k"] that mn less_diff_conv [of k "unat (p_filesz ph)" "unat i"]
      by (simp add: ac_simps)
    have "n + (seg_end ph - h) = Suc (n + (seg_end ph - Suc h))" using end' by simp
    then have "ready (Suc (n + (seg_end ph - Suc h))) s" using Suc.prems(4) by simp
    from one_page [OF this _ x seg perm, of bin 0 "Some (bin + i)" "min (?f - i) BY2PG"] Suc.prems(3) bytes sr mn obtain t where
      t: "map_page ?x 0 perm (Some (bin + i)) (min (?f - i) BY2PG) s = Done (Inr ()) t"
        "ready (n + (seg_end ph - Suc h)) t" "built rd ph bin (Suc h) img0 (image t)"
      unfolding vx(1) by auto
    have ui: "unat (i + BY2PG) = unat i + 4096"
      using lt fm fit(2) unat_add_nat [of i 4096] by (simp add: BY2PG_def)
    have "\<exists>i' h' t'. elf_load_bin m map_page ?va perm bin ?f (i + BY2PG) t = Done (Inr i') t' \<and>
      built rd ph bin h' img0 (image t') \<and> ready (n + (seg_end ph - h')) t' \<and> ?f \<le> i' \<and> seg_first ph \<le> h' \<and>
      (if i + BY2PG < ?f then unat ?va + unat i' = 4096 * h' \<and> unat i' < unat ?f + 4096 else i' = i + BY2PG \<and> h' = Suc h)"
      by (rule Suc.IH) (use Suc.prems(2,5) t(2,3) ui h in simp_all)
    then obtain i' h' t' where
      ih: "elf_load_bin m map_page ?va perm bin ?f (i + BY2PG) t = Done (Inr i') t'"
        "built rd ph bin h' img0 (image t') \<and> ready (n + (seg_end ph - h')) t' \<and> ?f \<le> i' \<and> seg_first ph \<le> h'"
        "if i + BY2PG < ?f then unat ?va + unat i' = 4096 * h' \<and> unat i' < unat ?f + 4096 else i' = i + BY2PG \<and> h' = Suc h"
      by blast
    have "unat ?va + unat i' = 4096 * h' \<and> unat i' < unat ?f + 4096"
      using ih(3) ui h lt by (auto split: if_splits)
    moreover have "elf_load_bin (Suc m) map_page ?va perm bin ?f i s = Done (Inr i') t'"
      using True t(1) ih(1) by (subst elf_load_bin.simps) (simp add: run_rules)
    ultimately show ?thesis using ih(2) True by auto
  qed
qed

lemma bss_loop:
  assumes fit: "unat (p_vaddr ph) + unat (p_memsz ph) + 4096 \<le> 2 ^ 32"
    and seg: "\<And>a. in_seg ph a \<Longrightarrow> img0 a = None \<and> legal a"
    and perm: "perm = PTE_V \<or> perm = PTE_V OR PTE_D"
  shows "p_filesz ph \<le> i \<Longrightarrow> (if i < p_memsz ph then unat (p_vaddr ph) + unat i = 4096 * h else h = seg_end ph) \<Longrightarrow>
    seg_first ph \<le> h \<Longrightarrow> built rd ph bin h img0 (image s) \<Longrightarrow> ready (n + (seg_end ph - h)) s \<Longrightarrow>
    unat (p_memsz ph) \<le> unat i + m * 4096 \<Longrightarrow>
    \<exists>t. elf_load_bss m map_page (p_vaddr ph) perm bsz (p_memsz ph) i s = Done (Inr ()) t \<and>
      built rd ph bin (seg_end ph) img0 (image t) \<and> ready n t"
proof (induction m arbitrary: i h s)
  case 0
  then have "\<not> i < p_memsz ph" by (simp add: word_less_nat_alt)
  then show ?case using 0 by (simp add: elf_load_bss.simps run_rules)
next
  case (Suc m)
  let ?va = "p_vaddr ph" and ?m = "p_memsz ph"
  show ?case
  proof (cases "i < ?m")
    case False
    then show ?thesis using Suc.prems by (simp add: elf_load_bss.simps run_rules)
  next
    case True
    then have lt: "unat i < unat ?m" and h: "unat ?va + unat i = 4096 * h" using Suc.prems(2) by (simp_all add: word_less_nat_alt)
    let ?x = "?va + i"
    have ux: "unat ?x = 4096 * h" using lt fit h unat_add_nat [of ?va "unat i"] by simp
    have vx: "VPN ?x = h" "unat ?x mod 4096 = 0" unfolding VPN_alt ux by simp_all
    have end': "h < seg_end ph" unfolding seg_end_def using lt h by linarith
    have x: "in_seg ph ?x" using end' Suc.prems(3) by (simp add: in_seg_def vx(1))
    have "unat ?va + unat (p_filesz ph) \<le> unat ?x" using Suc.prems(1) ux h by (simp add: word_le_nat_alt)
    note bytes = page_byte_zero [OF _ vx(2) this]
    have "n + (seg_end ph - h) = Suc (n + (seg_end ph - Suc h))" using end' by simp
    then have "ready (Suc (n + (seg_end ph - Suc h))) s" using Suc.prems(5) by simp
    from one_page [OF this _ x seg perm, of bin 0 None "min (bsz - i) BY2PG"] Suc.prems(4) bytes obtain t where
      t: "map_page ?x 0 perm None (min (bsz - i) BY2PG) s = Done (Inr ()) t"
        "ready (n + (seg_end ph - Suc h)) t" "built rd ph bin (Suc h) img0 (image t)"
      unfolding vx(1) by auto
    have ui: "unat (i + BY2PG) = unat i + 4096"
      using lt fit unat_add_nat [of i 4096] by (simp add: BY2PG_def)
    have last: "Suc h = seg_end ph" if "\<not> unat i + 4096 < unat ?m"
      unfolding seg_end_def using that lt h by linarith
    have "\<exists>t'. elf_load_bss m map_page ?va perm bsz ?m (i + BY2PG) t = Done (Inr ()) t' \<and>
        built rd ph bin (seg_end ph) img0 (image t') \<and> ready n t'"
      by (rule Suc.IH [where h = "Suc h"])
        (use Suc.prems(1,3,6) t(2,3) ui h last in \<open>simp_all add: word_le_nat_alt word_less_nat_alt\<close>)
    then show ?thesis using True t(1) by (subst elf_load_bss.simps) (simp add: run_rules)
  qed
qed

lemma segment:
  assumes ok: "loadable ph" and r: "ready (n + (seg_end ph - seg_first ph)) s"
    and seg: "\<And>a. in_seg ph a \<Longrightarrow> image s a = None \<and> legal a"
    and src: "\<And>k. k < unat (p_filesz ph) \<Longrightarrow> source (bin + of_nat k)"
  shows "\<exists>t. elf_load_seg ph bin map_page s = Done (Inr ()) t \<and> ready n t \<and>
    (\<forall>a. image t a = (if in_seg ph a then Some (seg_byte rd ph bin a) else image s a))"
proof -
  define va where "va = p_vaddr ph"
  define fsz where "fsz = p_filesz ph"
  define msz where "msz = p_memsz ph"
  define perm where "perm = (if p_flags ph AND PF_W \<noteq> 0 then PTE_V OR PTE_D else PTE_V)"
  define off where "off = va - ROUNDDOWN va BY2PG"
  define first where "first = (if off \<noteq> 0 then min fsz (BY2PG - off) else 0)"
  note D = va_def fsz_def msz_def
  have A: "fsz \<le> msz" "unat va + unat msz + 4096 \<le> 2 ^ 32"
    "page_offset va = 0 \<or> 4096 - page_offset va \<le> unat fsz \<or> msz = fsz"
    using ok by (simp_all add: loadable_def D)
  have uoff: "unat off = page_offset va" by (simp add: off_def unat_page_offset)
  have off_lt: "page_offset va < 4096" by (simp add: page_offset_def)
  have off0: "off = 0 \<longleftrightarrow> page_offset va = 0" using uoff by (metis unat_0 unat_eq_zero)
  have le: "unat fsz \<le> unat msz" using A(1) by (simp add: word_le_nat_alt)
  have ub: "unat (BY2PG - off) = 4096 - page_offset va"
    using off_lt uoff by (simp add: unat_sub word_le_nat_alt BY2PG_def)
  have ufirst: "unat first = (if page_offset va = 0 then 0 else min (unat fsz) (4096 - page_offset va))"
    using ub off0 by (auto simp: first_def min_def word_le_nat_alt)
  have pm: "perm = PTE_V \<or> perm = PTE_V OR PTE_D" by (simp add: perm_def)
  have va: "unat va = 4096 * seg_first ph + page_offset va" by (simp add: seg_first_def page_offset_def va_def)
  have se: "seg_end ph = (unat va + unat msz + 4095) div 4096" by (simp add: seg_end_def D)
  define h where "h = (if off = 0 then seg_first ph else Suc (seg_first ph))"
  have "\<exists>t. (if off \<noteq> 0 then map_page va off perm (Some bin) (min fsz (BY2PG - off)) else retK (Inr ())) s = Done (Inr ()) t \<and>
      ready (n + (seg_end ph - h)) t \<and> built rd ph bin h (image s) (image t)"
  proof (cases "off = 0")
    case True
    then show ?thesis using r by (auto simp: run_rules h_def built_def)
  next
    case False
    then have f: "first = min fsz (BY2PG - off)" by (simp add: first_def)
    have v: "VPN va = seg_first ph" by (simp add: VPN_alt seg_first_def va_def)
    have e: "seg_first ph < seg_end ph" unfolding se using va False off0 by linarith
    have x: "in_seg ph va" using e by (simp add: in_seg_def v)
    have bytes: "page_byte rd off (Some bin) first (unat a mod 4096) = seg_byte rd ph bin a" if "VPN a = VPN va" for a
      using page_byte_file [OF that, of ph off first rd bin] uoff ufirst False off0
      by (simp add: D [symmetric] page_offset_def)
    have "n + (seg_end ph - seg_first ph) = Suc (n + (seg_end ph - Suc (seg_first ph)))" using e by simp
    then have "ready (Suc (n + (seg_end ph - Suc (seg_first ph)))) s" using r by simp
    moreover have "built rd ph bin (VPN va) (image s) (image s)" by (auto simp: built_def v)
    moreover have "unat off + unat first \<le> 4096 \<and> (\<forall>k < unat first. source (bin + of_nat k))"
      using src uoff ufirst off_lt by (auto simp: D)
    ultimately have "\<exists>t. map_page va off perm (Some bin) first s = Done (Inr ()) t \<and>
        ready (n + (seg_end ph - Suc (seg_first ph))) t \<and> built rd ph bin (Suc (VPN va)) (image s) (image t)"
      using one_page [OF _ _ x seg pm, of _ s bin off "Some bin" first] bytes uoff off_lt by auto
    then show ?thesis using False by (simp add: v h_def f [symmetric])
  qed
  then obtain s1 where s1: "(if off \<noteq> 0 then map_page va off perm (Some bin) (min fsz (BY2PG - off)) else retK (Inr ())) s
      = Done (Inr ()) s1" "ready (n + (seg_end ph - h)) s1" "built rd ph bin h (image s) (image s1)" by blast
  have al: "unat va + unat first = 4096 * h" if "page_offset va = 0 \<or> unat first = 4096 - page_offset va"
    using that va ufirst off0 off_lt by (auto simp: h_def)
  have fl: "first < fsz \<longrightarrow> unat va + unat first = 4096 * h"
    using al ufirst by (auto simp: word_less_nat_alt min_def split: if_splits)
  have fuel: "unat fsz \<le> unat first + elf_fuel * 4096" "unat msz \<le> unat i + elf_fuel * 4096" for i :: u32
    using A(2) le by (simp_all add: elf_fuel_def)
  have hf: "seg_first ph \<le> h" by (simp add: h_def)
  obtain i h' s2 where
    b: "elf_load_bin elf_fuel map_page va perm bin fsz first s1 = Done (Inr i) s2"
      "built rd ph bin h' (image s) (image s2)" "ready (n + (seg_end ph - h')) s2" "fsz \<le> i" "seg_first ph \<le> h'"
      "if first < fsz then unat va + unat i = 4096 * h' \<and> unat i < unat fsz + 4096 else i = first \<and> h' = h"
    using bin_loop [OF A(1,2) [unfolded D] seg src pm fl [unfolded D] hf s1(3,2) fuel(1) [unfolded D]] unfolding D by blast
  have "if i < msz then unat va + unat i = 4096 * h' else h' = seg_end ph"
  proof (cases "first < fsz")
    case True
    then show ?thesis
      using b(4,6) le unfolding se by (auto simp: word_less_nat_alt word_le_nat_alt)
  next
    case False
    then have i: "i = first" "h' = h" "unat fsz \<le> unat first" using b(6) by (simp_all add: word_less_nat_alt)
    show ?thesis
    proof (cases "page_offset va = 0")
      case True
      then show ?thesis using i al ufirst off0 va unfolding se by (auto simp: word_less_nat_alt h_def)
    next
      case po: False
      then have ff: "unat first = unat fsz" "unat fsz \<le> 4096 - page_offset va" using i(3) ufirst by auto
      then have eq: "first = fsz" by (simp add: word_unat_eq_iff)
      show ?thesis
      proof (cases "msz = fsz")
        case True
        have "Suc (seg_first ph) = seg_end ph" unfolding se True using va po ff(2) off_lt by linarith
        then show ?thesis using i(1,2) eq True po off0 by (simp add: h_def)
      next
        case ne: False
        then have "unat first = 4096 - page_offset va" using A(3) po ff by simp
        moreover have "first < msz" using ne eq A(1) by simp
        ultimately show ?thesis using al i(1,2) by simp
      qed
    qed
  qed
  then obtain s3 where
    c: "elf_load_bss elf_fuel map_page va perm fsz msz i s2 = Done (Inr ()) s3"
      "built rd ph bin (seg_end ph) (image s) (image s3)" "ready n s3"
    using bss_loop [OF A(2) [unfolded D] seg pm b(4) [unfolded D] _ b(5,2,3) fuel(2) [unfolded D]] unfolding D by blast
  have "elf_load_seg ph bin map_page s = Done (Inr ()) s3"
    using s1(1) b(1) c(1)
    unfolding elf_load_seg_def Let_def D [symmetric] perm_def [symmetric] off_def [symmetric]
    by (cases "off = 0") (simp_all add: run_rules first_def)
  then show ?thesis using c(2,3) by (auto simp: built_def in_seg_def)
qed

end

section \<open>The kernel's callback\<close>

lemma kcopy_page:
  "off + length bs \<le> 4096 \<Longrightarrow> \<exists>fr. kcopy (f * 4096 + off) bs m = m(f := fr) \<and>
    (\<forall>j. frame_byte fr j = (if off \<le> j \<and> j < off + length bs then bs ! (j - off) else frame_byte (m f) j))"
proof (induction bs arbitrary: off m)
  case Nil
  then show ?case by (intro exI [of _ "m f"]) auto
next
  case (Cons b bs)
  let ?m = "m(f := set_frame_byte (m f) off b)"
  have "off < 4096" using Cons.prems by simp
  then have dm: "(f * 4096 + off) div 4096 = f" "(f * 4096 + off) mod 4096 = off" by simp_all
  have "Suc off + length bs \<le> 4096" using Cons.prems by simp
  from Cons.IH [OF this, of ?m] obtain fr where fr: "kcopy (f * 4096 + Suc off) bs ?m = ?m(f := fr)"
    "\<forall>j. frame_byte fr j = (if Suc off \<le> j \<and> j < Suc off + length bs then bs ! (j - Suc off) else frame_byte (?m f) j)"
    by blast
  have "frame_byte fr j = (if off \<le> j \<and> j < off + length (b # bs) then (b # bs) ! (j - off) else frame_byte (m f) j)" for j
    using fr(2) by (auto simp: frame_byte_set nth_Cons' Suc_le_eq)
  then show ?case using fr(1) dm by (intro exI [of _ fr]) simp
qed

text \<open>
  The user part of the address space with directory \<open>d\<close>; its pages are its own when each has one
  reference. \<open>room n\<close>: two free frames for each of \<open>n\<close> pages, one for the page and one for a page table.
\<close>

definition user_image :: "nat \<Rightarrow> kstate \<Rightarrow> image" where
  "user_image d s a = (let w = lookup_pte (mem s) d a in
     if PDX a \<in> user_slots \<and> valid w then Some (frame_byte (mem s (PPN w)) (unat a mod 4096)) else None)"

definition own_pages :: "nat \<Rightarrow> kstate \<Rightarrow> bool" where
  "own_pages d s \<longleftrightarrow> (\<forall>va. PDX va \<in> user_slots \<longrightarrow> valid (lookup_pte (mem s) d va) \<longrightarrow>
     pp_ref s (PPN (lookup_pte (mem s) d va)) = 1)"

definition room :: "(nat \<Rightarrow> nat set) \<Rightarrow> (nat \<Rightarrow> nat) \<Rightarrow> nat \<Rightarrow> nat \<Rightarrow> nat \<Rightarrow> kstate \<Rightarrow> bool" where
  "room idx pin e d n s \<longleftrightarrow> idx d = user_slots \<and> env_pgdir (envs s e) = d \<and> own_pages d s \<and>
     (\<exists>fl. mm_inv idx pin fl s \<and> 2 * n \<le> length fl)"

text \<open>A page with one reference that is mapped is no directory, no page table and not free.\<close>

lemma own_page_data:
  assumes inv: "mm_inv idx pin fl s" and va: "PDX va \<in> idx d" "valid (lookup_pte (mem s) d va)"
    and one: "pp_ref s (PPN (lookup_pte (mem s) d va)) = 1"
  shows "idx (PPN (lookup_pte (mem s) d va)) = {}"
    "\<forall>x \<in> tabs idx (mem s). tab_of (mem s) x \<noteq> PPN (lookup_pte (mem s) d va)"
    "PPN (lookup_pte (mem s) d va) \<notin> set fl"
proof -
  let ?p = "PPN (lookup_pte (mem s) d va)"
  have wf: "pt_wf idx (mem s) (npage s)" using inv by (simp add: mm_inv_def)
  have "valid (mem s d (PDX va))" using va(2) by (auto simp: lookup_pte_def split: if_splits)
  then have "(d, PDX va, PTX va) \<in> {l \<in> leafs idx (mem s). leaf_of (mem s) l = ?p}"
    using va by (simp add: leafs_def tabs_def lookup_pte_def leaf_of.simps)
  moreover have "finite {l \<in> leafs idx (mem s). leaf_of (mem s) l = ?p}" using pt_wf_finite_leafs [OF wf] by simp
  ultimately have "0 < nleaf idx (mem s) ?p" unfolding nleaf_def by (auto simp: card_gt_0_iff)
  moreover have "unat (pp_ref s ?p) = pin ?p + ntab idx (mem s) ?p + nleaf idx (mem s) ?p"
    using inv mm_inv_mapped(1) [OF inv va] by (simp add: mm_inv_def)
  ultimately have z: "pin ?p = 0" "ntab idx (mem s) ?p = 0" using one by simp_all
  then show "idx ?p = {}" using inv by (auto simp: mm_inv_def)
  show "\<forall>x \<in> tabs idx (mem s). tab_of (mem s) x \<noteq> ?p"
    using card_filter_0D [OF pt_wf_finite_tabs [OF wf] z(2) [unfolded ntab_def]] by blast
  show "?p \<notin> set fl" by (rule mm_inv_mapped(3) [OF inv va])
qed

lemma lookup_data:
  assumes "idx p = {}" "\<And>x. x \<in> tabs idx m \<Longrightarrow> tab_of m x \<noteq> p" "PDX va \<in> idx d"
  shows "lookup_pte (m(p := fr)) d va = lookup_pte m d va"
proof (cases "valid (m d (PDX va))")
  case True
  then show ?thesis using assms assms(2) [of "(d, PDX va)"] by (auto simp: lookup_pte_def tabs_def tab_of.simps)
next
  case False
  then show ?thesis using assms by (auto simp: lookup_pte_def)
qed

text \<open>Mapping a new page changes the count of that page and of frames that were free.\<close>

lemma page_insert_new_refs:
  assumes inv: "mm_inv idx pin fl s" and va: "PDX va \<in> idx d"
    and run: "page_insert_new d asid pp va perm s = Done (Inr ()) s'" and p: "p \<notin> set fl" "p \<noteq> pp"
  shows "pp_ref s' p = pp_ref s p"
proof (cases "valid (mem s d (PDX va))")
  case True
  have "mm_inv idx pin fl (flush asid va s)" using inv by simp
  from pgdir_walk_found [OF this va, of True] True run p show ?thesis
    by (auto simp: page_insert_new_def run_rules tlb_invalidate_run store_def page_incref_def set_ref_def flush_def)
next
  case False
  have inv1: "mm_inv idx pin fl (flush asid va s)" and nv1: "\<not> valid (mem (flush asid va s) d (PDX va))"
    using inv False by simp_all
  note walk = pgdir_walk_create [OF inv1 va nv1]
  show ?thesis
  proof (cases fl)
    case Nil
    with walk(1) run show ?thesis by (simp add: page_insert_new_def run_rules tlb_invalidate_run)
  next
    case (Cons t fl')
    from walk(2) [OF this] obtain s2 where "pgdir_walk d va True (flush asid va s) = Done (Inr (Some (t, PTX va))) s2"
      "pp_ref s2 = (pp_ref s)(t := 1)" by auto
    with run p Cons show ?thesis
      by (auto simp: page_insert_new_def run_rules tlb_invalidate_run store_def page_incref_def set_ref_def)
  qed
qed

text \<open>The new frame, before it is mapped.\<close>

lemma load_icode_frame:
  assumes inv: "mm_inv idx pin (pp # fl) s" and off: "unat off < 4096"
    and src: "src \<noteq> None \<longrightarrow> unat off + unat len \<le> 4096"
  shows "\<exists>s2. load_icode_mapper rd e va off perm src len s =
      page_insert (env_pgdir (envs s e)) (env_asid (envs s e)) pp va perm s2 \<and>
    mm_inv idx pin fl s2 \<and> same_rest s s2 \<and> pp < npage s2 \<and> pp \<notin> set fl \<and> pp_ref s2 = pp_ref s \<and> pp_ref s pp = 0 \<and>
    (\<forall>j. frame_byte (mem s2 pp) j = page_byte rd off src len j) \<and> (\<forall>f. f \<noteq> pp \<longrightarrow> mem s2 f = mem s f) \<and>
    (\<forall>d va. PDX va \<in> idx d \<longrightarrow> lookup_pte (mem s2) d va = lookup_pte (mem s) d va)"
proof -
  define s1 where s1: "s1 = s\<lparr>page_free_list := the (LIST_REMOVE pp (page_free_list s)), mem := (mem s)(pp := (\<lambda>_. 0))\<rparr>"
  note al = page_alloc_inv [OF inv s1]
  have alloc: "page_alloc s = Done (Inr pp) s1" using page_alloc_run [OF inv] by (simp add: s1)
  note un = mm_inv_unreferenced [OF al(1,2,3)]
  have p20: "pp < 2 ^ 20" by (rule mm_inv_npage [OF al(1,2)])
  define bs where "bs = (case src of None \<Rightarrow> [] | Some b \<Rightarrow> rd_bytes rd b (unat len))"
  have fit: "unat off + length bs \<le> 4096" using off src by (auto simp: bs_def rd_bytes_def split: option.split)
  obtain fr where fr: "kcopy (pp * 4096 + unat off) bs (mem s1) = (mem s1)(pp := fr)"
    "\<forall>j. frame_byte fr j = (if unat off \<le> j \<and> j < unat off + length bs then bs ! (j - unat off) else frame_byte (mem s1 pp) j)"
    using kcopy_page [OF fit] by blast
  define s2 where s2: "s2 = s1\<lparr>mem := (mem s1)(pp := fr)\<rparr>"
  have z: "frame_byte (\<lambda>_. 0) j = 0" for j by (simp add: frame_byte_def byte_of_def)
  have kva: "page2kva pp s1 = Done pp s1" using al(2) p20 by (simp add: page2kva_def KADDR_run)
  have ev: "envs s1 = envs s" by (simp add: s1)
  have run: "load_icode_mapper rd e va off perm src len s =
      page_insert (env_pgdir (envs s e)) (env_asid (envs s e)) pp va perm s2"
  proof (cases src)
    case None
    then have "(mem s1)(pp := fr) = mem s1" using fr(1) by (simp add: bs_def)
    then have "s2 = s1" by (simp add: s2)
    then show ?thesis using None alloc ev by (simp add: load_icode_mapper_def run_rules)
  next
    case (Some b)
    then show ?thesis using alloc kva fr(1) ev by (simp add: load_icode_mapper_def run_rules bs_def s2)
  qed
  have inv2: "mm_inv idx pin fl s2"
    by (rule mm_inv_write_data [OF al(1) un(1,3)]) (use al(1) in \<open>simp_all add: mm_inv_def s2\<close>)
  have bytes: "frame_byte (mem s2 pp) j = page_byte rd off src len j" for j
    using fr(2) z al(5) by (auto simp: s2 page_byte_def bs_def rd_bytes_def split: option.split)
  have look: "lookup_pte (mem s2) d va = lookup_pte (mem s) d va" if "PDX va \<in> idx d" for d va
    using lookup_data [where m = "mem s", OF al(6) al(7) that] by (simp add: s2 s1)
  have "same_rest s s2" by (rule same_restI') (simp add: s2 s1)
  moreover have "pp < npage s2" "pp_ref s2 = pp_ref s" "pp_ref s pp = 0" using al(2,3) by (simp_all add: s2 s1)
  moreover have "mem s2 f = mem s f" if "f \<noteq> pp" for f using that by (simp add: s2 s1)
  ultimately show ?thesis using run inv2 al(4) bytes look by blast
qed

lemma load_icode_mapper_maps:
  assumes r: "room idx pin e d (Suc n) s" and va: "PDX va \<in> user_slots"
    and new: "\<And>a. VPN a = VPN va \<Longrightarrow> user_image d s a = None"
    and perm: "perm = PTE_V \<or> perm = PTE_V OR PTE_D" and off: "unat off < 4096"
    and src: "\<And>b. src = Some b \<Longrightarrow> unat off + unat len \<le> 4096"
  shows "\<exists>t. load_icode_mapper rd e va off perm src len s = Done (Inr ()) t \<and> room idx pin e d n t \<and>
    (\<forall>a. user_image d t a = (if VPN a = VPN va then Some (page_byte rd off src len (unat a mod 4096)) else user_image d s a))"
proof -
  obtain fl0 where d: "idx d = user_slots" "env_pgdir (envs s e) = d" and own: "own_pages d s"
    and inv0: "mm_inv idx pin fl0 s" "2 * Suc n \<le> length fl0" using r by (auto simp: room_def)
  obtain pp fl where fl: "fl0 = pp # fl" "2 * n + 1 \<le> length fl" using inv0(2) by (cases fl0) auto
  let ?asid = "env_asid (envs s e)"
  have src': "src \<noteq> None \<longrightarrow> unat off + unat len \<le> 4096" using src by auto
  note inv = inv0(1) [unfolded fl]
  obtain s2 where s2: "load_icode_mapper rd e va off perm src len s = page_insert d ?asid pp va perm s2"
    "mm_inv idx pin fl s2" "same_rest s s2" "pp < npage s2" "pp \<notin> set fl" "pp_ref s2 = pp_ref s" "pp_ref s pp = 0"
    "\<forall>j. frame_byte (mem s2 pp) j = page_byte rd off src len j" "\<forall>f. f \<noteq> pp \<longrightarrow> mem s2 f = mem s f"
    "\<forall>d va. PDX va \<in> idx d \<longrightarrow> lookup_pte (mem s2) d va = lookup_pte (mem s) d va"
    using load_icode_frame [OF inv off src', where rd = rd and e = e and va = va and perm = perm]
    unfolding d(2) by (elim exE conjE) (rule that)
  note look = s2(10) [rule_format]
  have slot: "PDX va \<in> idx d" using va d(1) by simp
  have nv: "\<not> valid (lookup_pte (mem s2) d va)"
    using new [of va] va look [OF slot] by (simp add: user_image_def Let_def split: if_splits)
  have pm: "perm < 4096" using perm by (auto simp: PTE_V_def PTE_D_def)
  have "unat (pp_ref s2 pp) < 65535" "fl \<noteq> []" using s2(6,7) fl(2) by auto
  then obtain t fl' where
    t: "page_insert_new d ?asid pp va perm s2 = Done (Inr ()) t" "mm_inv idx pin fl' t"
      "remap idx fl d va (page2pa pp OR perm OR PTE_V) s2 t" "same_rest s2 t"
      "fl' = (if valid (mem s2 d (PDX va)) then fl else tl fl)" "pp_ref t pp = pp_ref s2 pp + 1"
    using page_insert_new_spec [OF s2(2) slot nv s2(4,5) _ pm, of ?asid] by blast
  have run: "load_icode_mapper rd e va off perm src len s = Done (Inr ()) t"
    using t(1) page_insert_run_new [OF s2(2) slot nv] s2(1) by simp
  have p20: "pp < 2 ^ 20" by (rule mm_inv_npage [OF s2(2,4)])
  have w: "PPN (page2pa pp OR perm OR PTE_V) = pp" "valid (page2pa pp OR perm OR PTE_V)"
    using PPN_pte [OF p20 pm] by simp_all
  have same: "lookup_pte (mem t) d a = page2pa pp OR perm OR PTE_V" if "VPN a = VPN va" for a
  proof -
    have "lookup_pte (mem t) d a = lookup_pte (mem t) d va" using that by (simp add: lookup_pte_def same_page_iff)
    then show ?thesis using t(3) by (simp add: remap_def)
  qed
  have other: "lookup_pte (mem t) d a = lookup_pte (mem s) d a" if "VPN a \<noteq> VPN va" "PDX a \<in> user_slots" for a
    using t(3) look [of a d] that d(1) by (simp add: remap_def)
  have kept: "mem t p = mem s2 p" if "p \<notin> set fl" "idx p = {}" "\<forall>x \<in> tabs idx (mem s2). tab_of (mem s2) x \<noteq> p" for p
    using t(3) that by (simp add: remap_def)
  have old: "pp_ref t (PPN (lookup_pte (mem s) d a)) = 1 \<and>
      mem t (PPN (lookup_pte (mem s) d a)) = mem s (PPN (lookup_pte (mem s) d a))"
    if a: "PDX a \<in> user_slots" "valid (lookup_pte (mem s) d a)" for a
  proof -
    let ?p = "PPN (lookup_pte (mem s) d a)"
    have ai: "PDX a \<in> idx d" using a(1) d(1) by simp
    have one: "pp_ref s ?p = 1" using own a by (simp add: own_pages_def)
    have o: "?p \<noteq> pp" using one s2(7) by auto
    note o2 = own_page_data [OF s2(2) ai, unfolded look [OF ai] s2(6), OF a(2) one]
    have "pp_ref t ?p = pp_ref s2 ?p" by (rule page_insert_new_refs [OF s2(2) slot t(1) o2(3) o])
    then show ?thesis using one kept [OF o2(3,1,2)] s2(6) s2(9) o by simp
  qed
  have "room idx pin e d n t"
  proof -
    have "pp_ref t (PPN (lookup_pte (mem t) d a)) = 1"
      if "PDX a \<in> user_slots" "valid (lookup_pte (mem t) d a)" for a
    proof (cases "VPN a = VPN va")
      case True
      then show ?thesis using same [OF True] w(1) t(6) s2(6,7) by simp
    next
      case False
      then show ?thesis using other [OF False that(1)] old [of a] that by simp
    qed
    moreover have "env_pgdir (envs t e) = d" using same_restD(2) [OF t(4)] same_restD(2) [OF s2(3)] d(2) by simp
    moreover have "2 * n \<le> length fl'" using fl(2) t(5) by auto
    ultimately show ?thesis using d(1) t(2) by (auto simp: room_def own_pages_def)
  qed
  moreover have "user_image d t a = (if VPN a = VPN va then Some (page_byte rd off src len (unat a mod 4096)) else user_image d s a)" for a
  proof (cases "VPN a = VPN va")
    case True
    then have "PDX a \<in> user_slots" using va by (simp add: same_page_iff)
    moreover have "mem t pp = mem s2 pp"
      using kept [OF s2(5)] mm_inv_unreferenced(1,3) [OF s2(2,4)] s2(6,7) by simp
    ultimately show ?thesis using True same [OF True] w s2(8) by (simp add: user_image_def Let_def)
  next
    case False
    then show ?thesis using other [OF False] old [of a] by (auto simp: user_image_def Let_def)
  qed
  ultimately show ?thesis using run by blast
qed

interpretation icode: segment_mapper "load_icode_mapper rd e" rd "room idx pin e d" "user_image d"
    "\<lambda>a. PDX a \<in> user_slots" "\<lambda>_. True" for rd e idx pin d
  by unfold_locales (rule load_icode_mapper_maps, assumption+, blast)

text \<open>
  C20. \<^verbatim>\<open>elf_load_seg\<close> with the kernel's \<^verbatim>\<open>load_icode_mapper\<close> builds the segment in the environment's
  address space. For a \<open>loadable\<close> segment (its file contents no larger than the segment, not
  reaching the end of the address space, and either starting on a page boundary, or filling the first
  page, or with nothing beyond the file contents) on user pages that are not mapped yet, with
  two free frames for each of its pages, it returns without error; then the file's bytes lie from
  \<^verbatim>\<open>p_vaddr\<close> on, every other byte of the segment's pages is 0, every other page of the address space
  is as before, and the invariant of physical memory holds.
\<close>

theorem elf_load_seg_correct:
  assumes "loadable ph" "mm_inv idx pin fl s" "idx (env_pgdir (envs s e)) = user_slots" "own_pages (env_pgdir (envs s e)) s"
    and "\<And>a. in_seg ph a \<Longrightarrow> PDX a \<in> user_slots \<and> user_image (env_pgdir (envs s e)) s a = None"
    and "2 * (seg_end ph - seg_first ph) \<le> length fl"
  shows "\<exists>t fl'. elf_load_seg ph bin (load_icode_mapper rd e) s = Done (Inr ()) t \<and> mm_inv idx pin fl' t \<and>
    env_pgdir (envs t e) = env_pgdir (envs s e) \<and>
    (\<forall>a. user_image (env_pgdir (envs t e)) t a =
      (if in_seg ph a then Some (seg_byte rd ph bin a) else user_image (env_pgdir (envs s e)) s a))"
proof -
  let ?d = "env_pgdir (envs s e)"
  have "room idx pin e ?d (0 + (seg_end ph - seg_first ph)) s" using assms(2-4,6) by (auto simp: room_def)
  from icode.segment [OF assms(1) this, of bin rd] assms(5) obtain t where
    "elf_load_seg ph bin (load_icode_mapper rd e) s = Done (Inr ()) t" "room idx pin e ?d 0 t"
    "\<forall>a. user_image ?d t a = (if in_seg ph a then Some (seg_byte rd ph bin a) else user_image ?d s a)" by blast
  then show ?thesis by (auto simp: room_def)
qed

text \<open>
  A segment of two pages that starts inside a page, for the environment of the small machine.
\<close>

theorem elf_load_seg_correct_witness:
  "\<exists>t. elf_load_seg \<lparr>p_type = 1, p_offset = 0, p_vaddr = 0x400100, p_filesz = 0xF80, p_memsz = 0x1000, p_flags = 7\<rparr>
      0x1000 (load_icode_mapper ucast 0) env_machine = Done (Inr ()) t \<and>
    user_image 1 t 0x400000 = Some 0 \<and> user_image 1 t 0x401002 = Some 2 \<and> user_image 1 t 0x401082 = Some 0 \<and>
    user_image 1 t 0x402000 = None"
proof -
  let ?ph = "\<lparr>p_type = 1, p_offset = 0, p_vaddr = 0x400100, p_filesz = 0xF80, p_memsz = 0x1000, p_flags = 7\<rparr>"
  have d: "env_pgdir (envs env_machine 0) = 1" by (simp add: one_env_def zero_env_def)
  have l: "loadable ?ph" by (simp add: loadable_def page_offset_def)
  have se: "seg_first ?ph = 0x400" "seg_end ?ph = 0x402" by (simp_all add: seg_first_def seg_end_def)
  have lk: "lookup_pte (mem env_machine) d' a = 0" for d' a by (simp add: lookup_pte_def)
  have u: "user_image d' env_machine a = None" for d' a using lk [of d' a] by (simp add: user_image_def Let_def)
  have i: "in_seg ?ph a \<longleftrightarrow> VPN a = 0x400 \<or> VPN a = 0x401" for a by (auto simp: in_seg_def se)
  have "PDX a \<in> user_slots" if "in_seg ?ph a" for a
    using that VPN_split [of a] PTX_less [of a] unfolding i by (auto simp: user_slots_def)
  moreover have "small_idx (env_pgdir (envs env_machine 0)) = user_slots"
    unfolding d by (simp add: small_idx_def user_slots_def)
  moreover have "own_pages (env_pgdir (envs env_machine 0)) env_machine" by (simp add: own_pages_def lookup_pte_def)
  ultimately obtain t where t: "elf_load_seg ?ph 0x1000 (load_icode_mapper ucast 0) env_machine = Done (Inr ()) t"
    "env_pgdir (envs t 0) = 1" "\<And>a. user_image 1 t a = (if in_seg ?ph a then Some (seg_byte ucast ?ph 0x1000 a) else None)"
    using elf_load_seg_correct [OF l env_machine_inv, of 0 "0x1000" ucast] u unfolding d se by auto
  have "VPN 0x400000 = 0x400" "VPN 0x401002 = 0x401" "VPN 0x401082 = 0x401" "VPN 0x402000 = 0x402"
    by (simp_all add: VPN_alt)
  then show ?thesis using t(1) by (simp add: t(3) [unfolded One_nat_def] i seg_byte_def)
qed

section \<open>A page that is mapped twice\<close>

text \<open>
  The segments that are not \<open>loadable\<close>: one that starts inside a page, whose file contents end
  before the page does and whose zero part continues in that page. With every callback the run
  consists of two calls for the same page: first with the file's bytes, then without any. Either
  callback of the repository then maps a fresh page over the file's bytes.
\<close>

theorem elf_load_seg_twice:
  assumes "0 < page_offset (p_vaddr ph)" "p_filesz ph < p_memsz ph"
    and "page_offset (p_vaddr ph) + unat (p_memsz ph) \<le> 4096"
    and "unat (p_vaddr ph) + unat (p_memsz ph) + 4096 \<le> 2 ^ 32"
  shows "\<exists>perm. elf_load_seg ph bin map_page =
      tryK (map_page (p_vaddr ph) (of_nat (page_offset (p_vaddr ph))) perm (Some bin) (p_filesz ph)) (\<lambda>_.
      tryK (map_page (p_vaddr ph + p_filesz ph) 0 perm None 0) (\<lambda>_. retK (Inr ()))) \<and>
    VPN (p_vaddr ph + p_filesz ph) = VPN (p_vaddr ph)"
proof -
  let ?va = "p_vaddr ph" and ?f = "p_filesz ph" and ?m = "p_memsz ph"
  let ?off = "?va - ROUNDDOWN ?va BY2PG" and ?perm = "if p_flags ph AND PF_W \<noteq> 0 then PTE_V OR PTE_D else PTE_V"
  have uoff: "unat ?off = page_offset ?va" by (rule unat_page_offset)
  have lt: "unat ?f < unat ?m" using assms(2) by (simp add: word_less_nat_alt)
  have off0: "?off \<noteq> 0" using uoff assms(1) by auto
  have ub: "unat (BY2PG - ?off) = 4096 - page_offset ?va"
    using uoff assms(3) by (simp add: unat_sub word_le_nat_alt BY2PG_def)
  have first: "min ?f (BY2PG - ?off) = ?f"
  proof -
    have "?f \<le> BY2PG - ?off" unfolding word_le_nat_alt ub using lt assms(3) by linarith
    then show ?thesis by (rule min_absorb1)
  qed
  have step: "\<not> ?f + BY2PG < ?m"
  proof -
    have "unat (?f + BY2PG) = unat ?f + 4096"
      using unat_add_nat [of ?f 4096] lt assms(4) by (simp add: BY2PG_def)
    then show ?thesis using assms(3) by (simp add: word_less_nat_alt)
  qed
  obtain k where fuel: "elf_fuel = Suc (Suc k)"
    using that [of "2 ^ 20 - 2"] by (simp add: elf_fuel_def)
  have bin: "elf_load_bin elf_fuel map_page ?va ?perm bin ?f ?f = retK (Inr ?f)"
    by (subst elf_load_bin.simps) simp
  have bss: "elf_load_bss elf_fuel map_page ?va ?perm ?f ?m ?f =
      tryK (map_page (?va + ?f) 0 ?perm None 0) (\<lambda>_. retK (Inr ()))"
    unfolding fuel using assms(2)
    by (subst elf_load_bss.simps) (simp add: elf_load_bss.simps [of "Suc k" _ _ _ _ _ "?f + BY2PG"] step)
  have o: "?off = of_nat (page_offset ?va)" using uoff by (metis of_nat_unat ucast_id)
  have "elf_load_seg ph bin map_page = tryK (map_page ?va ?off ?perm (Some bin) ?f) (\<lambda>_.
      tryK (retK (Inr ?f)) (elf_load_bss elf_fuel map_page ?va ?perm ?f ?m))"
    using off0 first bin by (simp add: elf_load_seg_def Let_def)
  also have "(\<lambda>_ :: unit. tryK (retK (Inr ?f)) (elf_load_bss elf_fuel map_page ?va ?perm ?f ?m)) =
      (\<lambda>_. tryK (map_page (?va + ?f) 0 ?perm None 0) (\<lambda>_. retK (Inr ())))"
    unfolding bss [symmetric] by (simp add: tryK_def bindK_def retK_def fun_eq_iff)
  finally have "elf_load_seg ph bin map_page = tryK (map_page ?va (of_nat (page_offset ?va)) ?perm (Some bin) ?f) (\<lambda>_.
      tryK (map_page (?va + ?f) 0 ?perm None 0) (\<lambda>_. retK (Inr ())))" unfolding o .
  moreover have "VPN (?va + ?f) = VPN ?va"
  proof -
    have u: "unat (?va + ?f) = unat ?va + unat ?f"
      using unat_add_nat [of ?va "unat ?f"] lt assms(4) by simp
    have "unat ?va = 4096 * (unat ?va div 4096) + page_offset ?va" by (simp add: page_offset_def)
    then have "(unat ?va + unat ?f) div 4096 = unat ?va div 4096" using lt assms(3) by linarith
    then show ?thesis unfolding VPN_alt u by simp
  qed
  ultimately show ?thesis by blast
qed

theorem elf_load_seg_twice_witness:
  "\<exists>perm. elf_load_seg \<lparr>p_type = 1, p_offset = 0, p_vaddr = 0x400100, p_filesz = 0x10, p_memsz = 0x20, p_flags = 7\<rparr>
      0x1000 (load_icode_mapper ucast 0) =
    tryK (load_icode_mapper ucast 0 0x400100 0x100 perm (Some 0x1000) 0x10) (\<lambda>_.
    tryK (load_icode_mapper ucast 0 0x400110 0 perm None 0) (\<lambda>_. retK (Inr ())))"
  using elf_load_seg_twice [of "\<lparr>p_type = 1, p_offset = 0, p_vaddr = 0x400100, p_filesz = 0x10, p_memsz = 0x20, p_flags = 7\<rparr>"
      "0x1000" "load_icode_mapper ucast 0"]
  by (simp add: page_offset_def)

section \<open>The section table\<close>

text \<open>
  When the table lies in the file, \<^verbatim>\<open>readelf\<close> prints every section once, in order, with its address; it
  reads behind the file exactly when some header does.
\<close>

lemma section_lines_map:
  "section_lines file tab len is =
     (if \<forall>i \<in> set is. tab + i * len + 16 \<le> length file
      then Some (map (\<lambda>i. (i, file_word file (tab + i * len + 12))) is) else None)"
  by (induction "is") (auto simp: section_addr_def)

lemma readelf_lines:
  assumes "is_elf_format file" "file_word file 32 + file_half file 48 * file_half file 46 \<le> length file" "16 \<le> file_half file 46"
  shows "readelf file = Some (Inr (map (\<lambda>i. (i, file_word file (file_word file 32 + i * file_half file 46 + 12))) [0..<file_half file 48]))"
proof -
  have "file_word file 32 + i * file_half file 46 + 16 \<le> length file" if "i < file_half file 48" for i
  proof -
    have "(i + 1) * file_half file 46 \<le> file_half file 48 * file_half file 46" using that by (intro mult_right_mono) auto
    then show ?thesis using assms(2,3) by simp
  qed
  then show ?thesis using assms(1) by (simp add: readelf_def section_lines_map)
qed

end
