(* ===== verification/Umem.thy ===== *)
theory Umem
  imports Mmu
begin

text \<open>
  The memory of a user process as its own code sees it: pages by virtual page number, the
  file system's dirty bit of each page, and how many pages the kernel will still grant. Loads and
  stores to an unmapped page of the usable range are satisfied by a fresh zero page, as the
  kernel's TLB refill does. A page given back is not counted in \<open>mem_left\<close> again: whether the
  kernel's pool grows depends on the page's other references, which the process cannot see.
\<close>

record umem =
  upages :: "nat \<Rightarrow> frame option"
  udirty :: "nat \<Rightarrow> bool"
  mem_left :: nat

definition bad_va :: "u32 \<Rightarrow> bool" where
  "bad_va va \<longleftrightarrow> va < UTEMP \<or> UTOP \<le> va \<or> USTACKTOP \<le> va \<and> va < USTACKTOP + BY2PG"

definition touch :: "u32 \<Rightarrow> ('x umem_scheme, unit) kprog" where
  "touch va = bindK (getsK (\<lambda>s. upages s (VPN va))) (\<lambda>pg. case pg of
       Some _ \<Rightarrow> retK ()
     | None \<Rightarrow>
         if bad_va va then panicK ''bad address''
         else bindK (getsK mem_left) (\<lambda>n.
           if n = 0 then panicK ''out of memory''
           else modifyK (\<lambda>s. s\<lparr>upages := (upages s)(VPN va := Some (\<lambda>_. 0)),
             udirty := (udirty s)(VPN va := False), mem_left := n - 1\<rparr>)))"

definition widx :: "u32 \<Rightarrow> nat" where "widx va = unat va mod 4096 div 4"
definition bidx :: "u32 \<Rightarrow> nat" where "bidx va = unat va mod 4096"

definition ldw :: "u32 \<Rightarrow> ('x umem_scheme, u32) kprog" where
  "ldw va = seqK (touch va) (getsK (\<lambda>s. the (upages s (VPN va)) (widx va)))"

definition stw :: "u32 \<Rightarrow> u32 \<Rightarrow> ('x umem_scheme, unit) kprog" where
  "stw va w = seqK (touch va) (modifyK (\<lambda>s. s\<lparr>upages := (upages s)(VPN va :=
     Some ((the (upages s (VPN va)))(widx va := w)))\<rparr>))"

definition ldb :: "u32 \<Rightarrow> ('x umem_scheme, u8) kprog" where
  "ldb va = seqK (touch va) (getsK (\<lambda>s. frame_byte (the (upages s (VPN va))) (bidx va)))"

definition stb :: "u32 \<Rightarrow> u8 \<Rightarrow> ('x umem_scheme, unit) kprog" where
  "stb va b = seqK (touch va) (modifyK (\<lambda>s. s\<lparr>upages := (upages s)(VPN va :=
     Some (set_frame_byte (the (upages s (VPN va))) (bidx va) b))\<rparr>))"

text \<open>The system calls on the process's own memory.\<close>

definition u_mem_alloc :: "u32 \<Rightarrow> ('x umem_scheme, err + unit) kprog" where
  "u_mem_alloc va =
     (if va < UTEMP \<or> UTOP \<le> va then retK (Inl E_INVAL)
      else bindK (getsK mem_left) (\<lambda>n.
        if n = 0 then retK (Inl E_NO_MEM)
        else seqK (modifyK (\<lambda>s. s\<lparr>upages := (upages s)(VPN va := Some (\<lambda>_. 0)),
               udirty := (udirty s)(VPN va := False), mem_left := n - 1\<rparr>)) (retK (Inr ()))))"

definition u_mem_unmap :: "u32 \<Rightarrow> ('x umem_scheme, err + unit) kprog" where
  "u_mem_unmap va =
     (if va < UTEMP \<or> UTOP \<le> va then retK (Inl E_INVAL)
      else seqK (modifyK (\<lambda>s. s\<lparr>upages := (upages s)(VPN va := None), udirty := (udirty s)(VPN va := False)\<rparr>))
                (retK (Inr ())))"

text \<open>\<^verbatim>\<open>syscall_mem_map(0, va, 0, va, perm)\<close>: the page stays, its permission bits change.\<close>

definition u_mem_redirty :: "u32 \<Rightarrow> ('x umem_scheme, err + unit) kprog" where
  "u_mem_redirty va =
     (if va < UTEMP \<or> UTOP \<le> va then retK (Inl E_INVAL)
      else bindK (getsK (\<lambda>s. upages s (VPN va))) (\<lambda>pg. case pg of
          None \<Rightarrow> retK (Inl E_INVAL)
        | Some _ \<Rightarrow> seqK (modifyK (\<lambda>s. s\<lparr>udirty := (udirty s)(VPN va := True)\<rparr>)) (retK (Inr ()))))"

section \<open>Accesses to mapped pages\<close>

lemma touch_run: "upages s (VPN va) = Some fr \<Longrightarrow> touch va s = Done () s"
  by (simp add: touch_def run_rules)

lemma ldw_run: "upages s (VPN va) = Some fr \<Longrightarrow> ldw va s = Done (fr (widx va)) s"
  by (simp add: ldw_def run_rules touch_run)

lemma stw_run: "upages s (VPN va) = Some fr \<Longrightarrow>
    stw va w s = Done () (s\<lparr>upages := (upages s)(VPN va := Some (fr(widx va := w)))\<rparr>)"
  by (simp add: stw_def run_rules touch_run)

lemma ldb_run: "upages s (VPN va) = Some fr \<Longrightarrow> ldb va s = Done (frame_byte fr (bidx va)) s"
  by (simp add: ldb_def run_rules touch_run)

lemma stb_run: "upages s (VPN va) = Some fr \<Longrightarrow>
    stb va b s = Done () (s\<lparr>upages := (upages s)(VPN va := Some (set_frame_byte fr (bidx va) b))\<rparr>)"
  by (simp add: stb_def run_rules touch_run)

end
