(* ===== verification/Fs.thy ===== *)
theory Fs
  imports Umem
begin

text \<open>
  The file system server's core, \<^verbatim>\<open>fs/fs.c\<close>: the block cache, the free-block bitmap, the
  block map of a file, directories, paths and the file operations.

  Pointers are addresses in the server's memory; a \<^verbatim>\<open>struct File *\<close> points into a cached
  block (or at \<^verbatim>\<open>super->s_root\<close>) and its fields are at fixed offsets. \<open>disk\<close> holds the disk's
  blocks; \<^verbatim>\<open>ide_read\<close> and \<^verbatim>\<open>ide_write\<close> of \<^verbatim>\<open>SECT2BLK\<close> sectors move a whole block
  (\<open>Ide\<close> has the sector loops). Paths and names are byte lists without the terminator.
\<close>

record fsys = umem +
  super :: u32
  bitmap :: u32
  disk :: "nat \<Rightarrow> frame"

type_synonym 'a fsM = "(fsys, 'a) kprog"

definition BY2BLK :: u32 where "BY2BLK = BY2PG"
definition BIT2BLK :: u32 where "BIT2BLK = BY2BLK * 8"
definition DISKMAP :: u32 where "DISKMAP = 0x10000000"
definition DISKMAX :: u32 where "DISKMAX = 0x40000000"
definition NDIRECT :: u32 where "NDIRECT = 10"
definition NINDIRECT :: u32 where "NINDIRECT = BY2BLK div 4"
definition FS_MAGIC :: u32 where "FS_MAGIC = 0x68286097"
definition MAXNAMELEN :: nat where "MAXNAMELEN = 128"
definition BY2FILE :: u32 where "BY2FILE = 256"
definition FTYPE_DIR :: u32 where "FTYPE_DIR = 1"

text \<open>Fields of \<^verbatim>\<open>struct File\<close> and \<^verbatim>\<open>struct Super\<close>.\<close>

definition f_size :: "u32 \<Rightarrow> u32" where "f_size f = f + 128"
definition f_type :: "u32 \<Rightarrow> u32" where "f_type f = f + 132"
definition f_direct :: "u32 \<Rightarrow> u32 \<Rightarrow> u32" where "f_direct f k = f + 136 + 4 * k"
definition f_indirect :: "u32 \<Rightarrow> u32" where "f_indirect f = f + 176"
definition f_dir :: "u32 \<Rightarrow> u32" where "f_dir f = f + 180"
definition s_nblocks :: "u32 fsM" where "s_nblocks = bindK (getsK super) (\<lambda>p. ldw (p + 4))"

section \<open>The block cache\<close>

definition diskaddr :: "u32 \<Rightarrow> u32" where
  "diskaddr blockno = DISKMAP + blockno * BY2BLK"

definition va_is_mapped :: "u32 \<Rightarrow> fsys \<Rightarrow> bool" where
  "va_is_mapped va s \<longleftrightarrow> upages s (VPN va) \<noteq> None"

definition block_is_mapped :: "u32 \<Rightarrow> fsys \<Rightarrow> bool" where
  "block_is_mapped blockno = va_is_mapped (diskaddr blockno)"

definition va_is_dirty :: "u32 \<Rightarrow> fsys \<Rightarrow> bool" where
  "va_is_dirty va s \<longleftrightarrow> udirty s (VPN va)"

definition block_is_dirty :: "u32 \<Rightarrow> fsys \<Rightarrow> bool" where
  "block_is_dirty blockno s \<longleftrightarrow> va_is_mapped (diskaddr blockno) s \<and> va_is_dirty (diskaddr blockno) s"

definition dirty_block :: "u32 \<Rightarrow> (err + unit) fsM" where
  "dirty_block blockno =
     bindK (getsK (va_is_mapped (diskaddr blockno))) (\<lambda>m.
     if \<not> m then retK (Inl E_NOT_FOUND)
     else bindK (getsK (va_is_dirty (diskaddr blockno))) (\<lambda>d.
       if d then retK (Inr ()) else u_mem_redirty (diskaddr blockno)))"

definition ide_write_block :: "u32 \<Rightarrow> unit fsM" where
  "ide_write_block blockno =
     seqK (touch (diskaddr blockno))
          (modifyK (\<lambda>s. s\<lparr>disk := (disk s)(unat blockno := the (upages s (VPN (diskaddr blockno))))\<rparr>))"

definition ide_read_block :: "u32 \<Rightarrow> unit fsM" where
  "ide_read_block blockno =
     seqK (touch (diskaddr blockno))
          (modifyK (\<lambda>s. s\<lparr>upages := (upages s)(VPN (diskaddr blockno) := Some (disk s (unat blockno)))\<rparr>))"

definition write_block :: "u32 \<Rightarrow> unit fsM" where
  "write_block blockno =
     bindK (getsK (block_is_mapped blockno)) (\<lambda>m.
     if \<not> m then panicK ''write unmapped block'' else ide_write_block blockno)"

definition block_is_free :: "u32 \<Rightarrow> bool fsM" where
  "block_is_free blockno =
     bindK (getsK super) (\<lambda>sp.
     if sp = 0 then retK False
     else bindK s_nblocks (\<lambda>n.
       if n \<le> blockno then retK False
       else bindK (getsK bitmap) (\<lambda>bp.
         bindK (ldw (bp + 4 * (blockno div 32))) (\<lambda>w.
         retK (w AND push_bit (unat (blockno mod 32)) 1 \<noteq> 0)))))"

text \<open>The result is the address of the block and the value of \<^verbatim>\<open>*isnew\<close>.\<close>

definition read_block :: "u32 \<Rightarrow> (err + u32 \<times> bool) fsM" where
  "read_block blockno =
     bindK (getsK super) (\<lambda>sp.
     bindK (if sp = 0 then retK False else bindK s_nblocks (\<lambda>n. retK (n \<le> blockno))) (\<lambda>beyond.
     if beyond then panicK ''reading non-existent block''
     else bindK (getsK bitmap) (\<lambda>bp.
       bindK (if bp = 0 then retK False else block_is_free blockno) (\<lambda>free.
       if free then panicK ''reading free block''
       else bindK (getsK (block_is_mapped blockno)) (\<lambda>m.
         if m then retK (Inr (diskaddr blockno, False))
         else bindK (u_mem_alloc (diskaddr blockno)) (\<lambda>_.
           seqK (ide_read_block blockno) (retK (Inr (diskaddr blockno, True)))))))))"

definition map_block :: "u32 \<Rightarrow> (err + unit) fsM" where
  "map_block blockno =
     bindK (getsK (block_is_mapped blockno)) (\<lambda>m.
     if m then retK (Inr ()) else u_mem_alloc (diskaddr blockno))"

definition unmap_block :: "u32 \<Rightarrow> unit fsM" where
  "unmap_block blockno =
     bindK (getsK (block_is_mapped blockno)) (\<lambda>m.
     bindK (block_is_free blockno) (\<lambda>free.
     bindK (getsK (block_is_dirty blockno)) (\<lambda>d.
     seqK (if \<not> free \<and> d then write_block blockno else retK ())
    (bindK (u_mem_unmap (if m then diskaddr blockno else 0)) (\<lambda>_.
     bindK (getsK (block_is_mapped blockno)) (\<lambda>m'.
     assertK (\<not> m') ''assertion failed: !block_is_mapped(blockno)''))))))"

section \<open>The bitmap\<close>

definition free_block :: "u32 \<Rightarrow> unit fsM" where
  "free_block blockno =
     bindK s_nblocks (\<lambda>n.
     if blockno = 0 \<or> n \<le> blockno then retK ()
     else bindK (getsK bitmap) (\<lambda>bp.
       bindK (ldw (bp + 4 * (blockno div 32))) (\<lambda>w.
       stw (bp + 4 * (blockno div 32)) (w OR push_bit (unat (blockno mod 32)) 1))))"

text \<open>The loop of \<^verbatim>\<open>alloc_block_num\<close>; the fuel is \<^verbatim>\<open>s_nblocks\<close> at the start of the loop.\<close>

fun alloc_scan :: "nat \<Rightarrow> u32 \<Rightarrow> (err + u32) fsM" where
  "alloc_scan 0 blockno = retK (Inl E_NO_DISK)"
| "alloc_scan (Suc k) blockno =
     bindK s_nblocks (\<lambda>n.
     if \<not> blockno < n then retK (Inl E_NO_DISK)
     else bindK (getsK bitmap) (\<lambda>bp.
       bindK (ldw (bp + 4 * (blockno div 32))) (\<lambda>w.
       if w AND push_bit (unat (blockno mod 32)) 1 \<noteq> 0 then
         seqK (stw (bp + 4 * (blockno div 32)) (w AND NOT (push_bit (unat (blockno mod 32)) 1)))
        (seqK (write_block (blockno div BIT2BLK + 2))
              (retK (Inr blockno)))
       else alloc_scan k (blockno + 1))))"

definition alloc_block_num :: "(err + u32) fsM" where
  "alloc_block_num = bindK s_nblocks (\<lambda>n. alloc_scan (unat n) 3)"

definition alloc_block :: "(err + u32) fsM" where
  "alloc_block =
     tryK alloc_block_num (\<lambda>bno.
     bindK (map_block bno) (\<lambda>r. case r of
       Inl e \<Rightarrow> seqK (free_block bno) (retK (Inl e))
     | Inr _ \<Rightarrow> retK (Inr bno)))"

section \<open>Starting up\<close>

definition read_super :: "unit fsM" where
  "read_super =
     bindK (read_block 1) (\<lambda>r. case r of
       Inl _ \<Rightarrow> panicK ''cannot read superblock''
     | Inr (blk, _) \<Rightarrow>
         seqK (modifyK (\<lambda>s. s\<lparr>super := blk\<rparr>))
        (bindK (ldw blk) (\<lambda>magic.
         seqK (assertK (magic = FS_MAGIC) ''bad file system magic number'')
        (bindK s_nblocks (\<lambda>n.
         assertK (\<not> DISKMAX div BY2BLK < n) ''file system is too large'')))))"

definition assert_used :: "u32 \<Rightarrow> unit fsM" where
  "assert_used b = bindK (block_is_free b) (\<lambda>f. assertK (\<not> f) ''assertion failed: !block_is_free(i)'')"

definition read_bitmap :: "unit fsM" where
  "read_bitmap =
     bindK s_nblocks (\<lambda>n.
     let nbitmap = n div BIT2BLK + 1 in
     seqK (forK [0..<unat nbitmap] (\<lambda>i. bindK (read_block (of_nat i + 2)) (\<lambda>_. retK ())))
    (seqK (modifyK (\<lambda>s. s\<lparr>bitmap := diskaddr 2\<rparr>))
    (seqK (assert_used 0)
    (seqK (assert_used 1)
          (forK [0..<unat nbitmap] (\<lambda>i. assert_used (of_nat i + 2)))))))"

definition u_copy_page :: "u32 \<Rightarrow> u32 \<Rightarrow> unit fsM" where
  "u_copy_page dst src =
     seqK (touch src) (seqK (touch dst)
       (modifyK (\<lambda>s. s\<lparr>upages := (upages s)(VPN dst := upages s (VPN src))\<rparr>)))"

fun st_string :: "u8 list \<Rightarrow> u32 \<Rightarrow> unit fsM" where
  "st_string [] p = stb p 0"
| "st_string (c # cs) p = seqK (stb p c) (st_string cs (p + 1))"

text \<open>\<^verbatim>\<open>strcmp\<close> of a given string with one in memory, for equality.\<close>

fun eq_string :: "u8 list \<Rightarrow> u32 \<Rightarrow> bool fsM" where
  "eq_string [] p = bindK (ldb p) (\<lambda>b. retK (b = 0))"
| "eq_string (c # cs) p = bindK (ldb p) (\<lambda>b. if b = c then eq_string cs (p + 1) else retK False)"

definition smash_text :: "u8 list" where "smash_text = [0x4F, 0x4F, 0x50, 0x53, 0x21, 0x0A]"

definition check_write_block :: "unit fsM" where
  "check_write_block =
     seqK (modifyK (\<lambda>s. s\<lparr>super := 0\<rparr>))
    (bindK (read_block 0) (\<lambda>_.
     seqK (u_copy_page (diskaddr 0) (diskaddr 1))
    (seqK (st_string smash_text (diskaddr 1))
    (seqK (write_block 1)
    (bindK (getsK (block_is_mapped 1)) (\<lambda>m.
     seqK (assertK m ''assertion failed: block_is_mapped(1)'')
    (bindK (u_mem_unmap (diskaddr 1)) (\<lambda>_.
     bindK (getsK (block_is_mapped 1)) (\<lambda>m'.
     seqK (assertK (\<not> m') ''assertion failed: !block_is_mapped(1)'')
    (bindK (read_block 1) (\<lambda>_.
     bindK (eq_string smash_text (diskaddr 1)) (\<lambda>e.
     seqK (assertK e ''assertion failed: strcmp'')
    (seqK (u_copy_page (diskaddr 1) (diskaddr 0))
    (seqK (write_block 1)
          (modifyK (\<lambda>s. s\<lparr>super := diskaddr 1\<rparr>))))))))))))))))"

definition fs_init :: "unit fsM" where
  "fs_init = seqK read_super (seqK check_write_block read_bitmap)"

section \<open>The blocks of a file\<close>

text \<open>The address of the slot that holds the number of block \<open>filebno\<close>.\<close>

definition file_block_walk :: "u32 \<Rightarrow> u32 \<Rightarrow> bool \<Rightarrow> (err + u32) fsM" where
  "file_block_walk f filebno alloc =
     (if filebno < NDIRECT then retK (Inr (f_direct f filebno))
      else if filebno < NINDIRECT then
        bindK (ldw (f_indirect f)) (\<lambda>ind.
        tryK (if ind = 0 then
                if \<not> alloc then retK (Inl E_NOT_FOUND)
                else tryK alloc_block (\<lambda>b. seqK (stw (f_indirect f) b) (retK (Inr ())))
              else retK (Inr ())) (\<lambda>_.
        bindK (ldw (f_indirect f)) (\<lambda>ind.
        tryK (read_block ind) (\<lambda>(blk, _). retK (Inr (blk + 4 * filebno))))))
      else retK (Inl E_INVAL))"

definition file_map_block :: "u32 \<Rightarrow> u32 \<Rightarrow> bool \<Rightarrow> (err + u32) fsM" where
  "file_map_block f filebno alloc =
     tryK (file_block_walk f filebno alloc) (\<lambda>ptr.
     bindK (ldw ptr) (\<lambda>b.
     tryK (if b = 0 then
             if \<not> alloc then retK (Inl E_NOT_FOUND)
             else tryK alloc_block (\<lambda>b. seqK (stw ptr b) (retK (Inr ())))
           else retK (Inr ())) (\<lambda>_.
     bindK (ldw ptr) (\<lambda>b. retK (Inr b)))))"

definition file_clear_block :: "u32 \<Rightarrow> u32 \<Rightarrow> (err + unit) fsM" where
  "file_clear_block f filebno =
     tryK (file_block_walk f filebno False) (\<lambda>ptr.
     bindK (ldw ptr) (\<lambda>b.
     if b \<noteq> 0 then seqK (free_block b) (seqK (stw ptr 0) (retK (Inr ()))) else retK (Inr ())))"

definition file_get_block :: "u32 \<Rightarrow> u32 \<Rightarrow> (err + u32) fsM" where
  "file_get_block f filebno =
     tryK (file_map_block f filebno True) (\<lambda>diskbno.
     tryK (read_block diskbno) (\<lambda>(blk, _). retK (Inr blk)))"

definition file_dirty :: "u32 \<Rightarrow> u32 \<Rightarrow> (err + unit) fsM" where
  "file_dirty f offset =
     tryK (file_map_block f (offset div BY2BLK) False) dirty_block"

section \<open>Directories\<close>

text \<open>The 16 file structures of a directory block, from number \<open>16 - n\<close> on.\<close>

fun scan_names :: "nat \<Rightarrow> u8 list \<Rightarrow> u32 \<Rightarrow> (u32 option) fsM" where
  "scan_names 0 name f = retK None"
| "scan_names (Suc n) name f =
     bindK (eq_string name f) (\<lambda>e. if e then retK (Some f) else scan_names n name (f + BY2FILE))"

fun dir_scan :: "nat list \<Rightarrow> u32 \<Rightarrow> u8 list \<Rightarrow> (err + u32) fsM" where
  "dir_scan [] dir name = retK (Inl E_NOT_FOUND)"
| "dir_scan (i # is) dir name =
     tryK (file_get_block dir (of_nat i)) (\<lambda>blk.
     bindK (scan_names 16 name blk) (\<lambda>r. case r of
       Some f \<Rightarrow> seqK (stw (f_dir f) dir) (retK (Inr f))
     | None \<Rightarrow> dir_scan is dir name))"

definition dir_lookup :: "u32 \<Rightarrow> u8 list \<Rightarrow> (err + u32) fsM" where
  "dir_lookup dir name =
     bindK (ldw (f_size dir)) (\<lambda>sz. dir_scan [0..<unat (sz div BY2BLK)] dir name)"

fun scan_free :: "nat \<Rightarrow> u32 \<Rightarrow> (u32 option) fsM" where
  "scan_free 0 f = retK None"
| "scan_free (Suc n) f =
     bindK (ldb f) (\<lambda>b. if b = 0 then retK (Some f) else scan_free n (f + BY2FILE))"

fun dir_scan_free :: "nat list \<Rightarrow> u32 \<Rightarrow> (err + u32 option) fsM" where
  "dir_scan_free [] dir = retK (Inr None)"
| "dir_scan_free (i # is) dir =
     tryK (file_get_block dir (of_nat i)) (\<lambda>blk.
     bindK (scan_free 16 blk) (\<lambda>r. case r of
       Some f \<Rightarrow> retK (Inr (Some f))
     | None \<Rightarrow> dir_scan_free is dir))"

definition dir_alloc_file :: "u32 \<Rightarrow> (err + u32) fsM" where
  "dir_alloc_file dir =
     bindK (ldw (f_size dir)) (\<lambda>sz.
     tryK (dir_scan_free [0..<unat (sz div BY2BLK)] dir) (\<lambda>r. case r of
       Some f \<Rightarrow> retK (Inr f)
     | None \<Rightarrow>
         bindK (ldw (f_size dir)) (\<lambda>sz'.
         seqK (stw (f_size dir) (sz' + BY2BLK))
              (file_get_block dir (sz div BY2BLK)))))"

section \<open>Paths\<close>

definition slash :: u8 where "slash = 0x2F"

definition skip_slash :: "u8 list \<Rightarrow> u8 list" where
  "skip_slash p = dropWhile (\<lambda>c. c = slash) p"

text \<open>
  \<^verbatim>\<open>walk_path\<close> returns its code and what it leaves in \<^verbatim>\<open>*pdir\<close>, \<^verbatim>\<open>*pfile\<close> and
  \<^verbatim>\<open>lastelem\<close> (\<open>None\<close> when not written).
\<close>

type_synonym walked = "(err + unit) \<times> u32 \<times> u32 \<times> u8 list option"

lemma walk_shrinks:
  assumes "path \<noteq> []"
  shows "length (skip_slash (dropWhile (\<lambda>c. c \<noteq> slash) path)) < length path"
proof -
  obtain c cs where path: "path = c # cs" using assms by (cases path) auto
  have le: "length (dropWhile P xs) \<le> length xs" for P and xs :: "u8 list"
    by (induction xs) auto
  show ?thesis
  proof (cases "c = slash")
    case True
    with le [of "\<lambda>c. c = slash" cs] path show ?thesis by (simp add: skip_slash_def)
  next
    case False
    have "length (skip_slash (dropWhile (\<lambda>c. c \<noteq> slash) path)) \<le> length (dropWhile (\<lambda>c. c \<noteq> slash) path)"
      using le by (simp add: skip_slash_def)
    also have "\<dots> \<le> length cs" using le [of "\<lambda>c. c \<noteq> slash" cs] path False by simp
    finally show ?thesis using path by simp
  qed
qed

function walk_loop :: "u8 list \<Rightarrow> u32 \<Rightarrow> u32 \<Rightarrow> walked fsM" where
  "walk_loop path dir file =
     (if path = [] then retK (Inr (), dir, file, None)
      else
        let name = takeWhile (\<lambda>c. c \<noteq> slash) path;
            path' = skip_slash (dropWhile (\<lambda>c. c \<noteq> slash) path)
        in
        if MAXNAMELEN \<le> length name then retK (Inl E_BAD_PATH, 0, 0, None)
        else bindK (ldw (f_type file)) (\<lambda>ty.
          if ty \<noteq> FTYPE_DIR then retK (Inl E_NOT_FOUND, 0, 0, None)
          else bindK (dir_lookup file name) (\<lambda>r. case r of
              Inl e \<Rightarrow>
                if e = E_NOT_FOUND \<and> path' = [] then retK (Inl e, file, 0, Some name)
                else retK (Inl e, 0, 0, None)
            | Inr f \<Rightarrow> walk_loop path' file f)))"
  by pat_completeness auto
termination
  by (relation "measure (\<lambda>(path, _, _). length path)") (auto simp: walk_shrinks)

declare walk_loop.simps [simp del]

definition walk_path :: "u8 list \<Rightarrow> walked fsM" where
  "walk_path path = bindK (getsK super) (\<lambda>sp. walk_loop (skip_slash path) 0 (sp + 8))"

section \<open>Files\<close>

definition file_open :: "u8 list \<Rightarrow> (err + u32) fsM" where
  "file_open path = bindK (walk_path path) (\<lambda>(r, _, f, _). retK (map_sum id (\<lambda>_. f) r))"

definition file_create :: "u8 list \<Rightarrow> (err + u32) fsM" where
  "file_create path =
     bindK (walk_path path) (\<lambda>(r, dir, _, name). case r of
       Inr _ \<Rightarrow> retK (Inl E_FILE_EXISTS)
     | Inl e \<Rightarrow>
         if e \<noteq> E_NOT_FOUND \<or> dir = 0 then retK (Inl e)
         else bindK (dir_alloc_file dir) (\<lambda>q. case q of
             Inl _ \<Rightarrow> retK (Inl e)
           | Inr f \<Rightarrow> seqK (st_string (the name) f) (retK (Inr f))))"

definition clear_blocks :: "u32 \<Rightarrow> u32 \<Rightarrow> u32 \<Rightarrow> unit fsM" where
  "clear_blocks f new old =
     forK [unat new..<unat old] (\<lambda>bno. bindK (file_clear_block f (of_nat bno)) (\<lambda>_. retK ()))"

definition file_truncate :: "u32 \<Rightarrow> u32 \<Rightarrow> unit fsM" where
  "file_truncate f newsize =
     bindK (ldw (f_size f)) (\<lambda>sz.
     let old_nblocks = sz div BY2BLK + 1;
         new_nblocks = (if newsize = 0 then 0 else newsize div BY2BLK + 1)
     in
     seqK (if new_nblocks \<le> NDIRECT then
             seqK (clear_blocks f new_nblocks old_nblocks)
            (bindK (ldw (f_indirect f)) (\<lambda>ind.
             if ind \<noteq> 0 then seqK (free_block ind) (stw (f_indirect f) 0) else retK ()))
           else clear_blocks f new_nblocks old_nblocks)
          (stw (f_size f) newsize))"

definition file_flush :: "u32 \<Rightarrow> unit fsM" where
  "file_flush f =
     bindK (ldw (f_size f)) (\<lambda>sz.
     forK [0..<unat (sz div BY2BLK + 1)] (\<lambda>bno.
       bindK (file_map_block f (of_nat bno) False) (\<lambda>r. case r of
         Inl _ \<Rightarrow> retK ()
       | Inr diskno \<Rightarrow>
           bindK (getsK (block_is_dirty diskno)) (\<lambda>d.
           if d then write_block diskno else retK ()))))"

definition flush_dir :: "u32 \<Rightarrow> unit fsM" where
  "flush_dir f = bindK (ldw (f_dir f)) (\<lambda>d. if d \<noteq> 0 then file_flush d else retK ())"

definition file_set_size :: "u32 \<Rightarrow> u32 \<Rightarrow> (err + unit) fsM" where
  "file_set_size f newsize =
     bindK (ldw (f_size f)) (\<lambda>sz.
     seqK (if newsize < sz then file_truncate f newsize else retK ())
    (seqK (stw (f_size f) newsize)
    (seqK (flush_dir f) (retK (Inr ())))))"

definition fs_sync :: "unit fsM" where
  "fs_sync =
     bindK s_nblocks (\<lambda>n.
     forK [0..<unat n] (\<lambda>i.
       bindK (getsK (block_is_dirty (of_nat i))) (\<lambda>d.
       if d then write_block (of_nat i) else retK ())))"

definition file_close :: "u32 \<Rightarrow> unit fsM" where
  "file_close f = seqK (file_flush f) (flush_dir f)"

definition file_remove :: "u8 list \<Rightarrow> (err + unit) fsM" where
  "file_remove path =
     bindK (walk_path path) (\<lambda>(r, _, f, _). case r of
       Inl e \<Rightarrow> retK (Inl e)
     | Inr _ \<Rightarrow>
         seqK (file_truncate f 0)
        (seqK (stb f 0)
        (seqK (file_flush f)
        (seqK (flush_dir f) (retK (Inr ()))))))"

end
