(* ===== verification/Fs_Alloc.thy ===== *)
theory Fs_Alloc
  imports Fs Slots
begin

text \<open>
  The block allocator against its specification. The bitmap in the block cache is read as one
  array of words; a set bit is a free block. \<open>alloc_block_num\<close> takes the lowest free block from 3
  on, and \<open>free_block\<close> gives one back.
\<close>

section \<open>The cached bitmap\<close>

definition BM_VPN :: nat where "BM_VPN = 0x10002"

definition bm_word :: "fsys \<Rightarrow> nat \<Rightarrow> u32" where
  "bm_word s i = the (upages s (BM_VPN + i div 1024)) (i mod 1024)"

text \<open>Super block and bitmap are in the cache, for a disk of \<open>n\<close> blocks.\<close>

definition fs_ok :: "nat \<Rightarrow> fsys \<Rightarrow> bool" where
  "fs_ok n s \<longleftrightarrow> super s = diskaddr 1 \<and> bitmap s = diskaddr 2 \<and> n \<le> 0x40000 \<and>
     (\<exists>fr. upages s (VPN (diskaddr 1)) = Some fr \<and> fr 1 = of_nat n) \<and>
     (\<forall>j \<le> n div 32768. upages s (BM_VPN + j) \<noteq> None)"

lemma VPN_diskaddr: "b < 0x40000 + 0x100 \<Longrightarrow> VPN (diskaddr (of_nat b)) = 0x10000 + b"
proof -
  assume b: "b < 0x40000 + 0x100"
  have "unat (diskaddr (of_nat b)) = 0x10000000 + b * 4096"
    using b by (simp add: diskaddr_def DISKMAP_def BY2BLK_def BY2PG_def unat_word_ariths unat_of_nat take_bit_eq_mod)
  also have "\<dots> = (0x10000 + b) * 4096" by simp
  finally show ?thesis by (simp only: VPN_alt) simp
qed

lemma bm_addr:
  assumes "i < 0x10000"
  shows "VPN (diskaddr 2 + 4 * of_nat i) = BM_VPN + i div 1024" "widx (diskaddr 2 + 4 * of_nat i) = i mod 1024"
proof -
  have u: "unat (diskaddr 2 + 4 * of_nat i) = 4096 * (BM_VPN + i div 1024) + 4 * (i mod 1024)"
  proof -
    have "unat (diskaddr 2 + 4 * of_nat i) = 0x10002000 + 4 * i"
      using assms by (simp add: diskaddr_def DISKMAP_def BY2BLK_def BY2PG_def unat_word_ariths unat_of_nat take_bit_eq_mod)
    moreover have "4 * i = 4096 * (i div 1024) + 4 * (i mod 1024)"
      using mult_div_mod_eq [of 1024 i] by linarith
    ultimately show ?thesis by (simp add: BM_VPN_def)
  qed
  have r: "4 * (i mod 1024) < 4096" by simp
  show "VPN (diskaddr 2 + 4 * of_nat i) = BM_VPN + i div 1024"
    using r unfolding VPN_alt u by simp
  have "unat (diskaddr 2 + 4 * of_nat i) mod 4096 = 4 * (i mod 1024)"
    unfolding u mod_mult_self4 using r by (rule mod_less)
  then show "widx (diskaddr 2 + 4 * of_nat i) = i mod 1024" by (simp add: widx_def)
qed

lemma fs_okD:
  assumes "fs_ok n s"
  shows "super s = diskaddr 1" "bitmap s = diskaddr 2" "n \<le> 0x40000" "super s \<noteq> 0"
  using assms by (simp_all add: fs_ok_def diskaddr_def DISKMAP_def BY2BLK_def BY2PG_def)

lemma s_nblocks_run: "fs_ok n s \<Longrightarrow> s_nblocks s = Done (of_nat n) s"
proof -
  assume ok: "fs_ok n s"
  then obtain fr where fr: "upages s (VPN (diskaddr 1)) = Some fr" "fr 1 = of_nat n" by (auto simp: fs_ok_def)
  have "VPN (diskaddr 1 + 4) = VPN (diskaddr 1)" "widx (diskaddr 1 + 4) = 1"
    by (simp_all add: diskaddr_def DISKMAP_def BY2BLK_def BY2PG_def VPN_alt widx_def)
  with fr ldw_run [of s "diskaddr 1 + 4" fr] fs_okD(1) [OF ok] show ?thesis
    by (simp add: s_nblocks_def run_rules)
qed

lemma div32_of_nat: "b < 2 ^ 32 \<Longrightarrow> (of_nat b :: u32) div 32 = of_nat (b div 32)"
  by (simp add: word_eq_iff_unsigned [where ?'a = nat] unat_div unat_of_nat take_bit_eq_mod)

lemma mod32_of_nat: "b < 2 ^ 32 \<Longrightarrow> unat ((of_nat b :: u32) mod 32) = b mod 32"
  by (simp add: unat_mod unat_of_nat take_bit_eq_mod)

lemma bm_page:
  assumes ok: "fs_ok n s" and b: "b < n"
  shows "upages s (BM_VPN + b div 32 div 1024) = Some (\<lambda>k. the (upages s (BM_VPN + b div 32 div 1024)) k)"
proof -
  have "b div 32 div 1024 \<le> n div 32768" using b by (simp add: div_mult2_eq [symmetric] div_le_mono)
  with ok show ?thesis by (auto simp: fs_ok_def)
qed

lemma ldw_bm:
  assumes ok: "fs_ok n s" and b: "b < n"
  shows "ldw (bitmap s + 4 * ((of_nat b :: u32) div 32)) s = Done (bm_word s (b div 32)) s"
proof -
  have n: "n \<le> 0x40000" by (rule fs_okD(3) [OF ok])
  then have "b div 32 < 0x10000" "b < 2 ^ 32" using b by auto
  note ba = bm_addr [OF this(1)] and d = div32_of_nat [OF this(2)]
  from ldw_run [of s "diskaddr 2 + 4 * of_nat (b div 32)"] bm_page [OF ok b] ba show ?thesis
    unfolding fs_okD(2) [OF ok] d by (simp add: bm_word_def)
qed

definition set_bm :: "nat \<Rightarrow> u32 \<Rightarrow> fsys \<Rightarrow> fsys" where
  "set_bm i w s = s\<lparr>upages := (upages s)(BM_VPN + i div 1024 :=
     Some ((the (upages s (BM_VPN + i div 1024)))(i mod 1024 := w)))\<rparr>"

lemma stw_bm:
  assumes ok: "fs_ok n s" and b: "b < n"
  shows "stw (bitmap s + 4 * ((of_nat b :: u32) div 32)) w s = Done () (set_bm (b div 32) w s)"
proof -
  have n: "n \<le> 0x40000" by (rule fs_okD(3) [OF ok])
  then have "b div 32 < 0x10000" "b < 2 ^ 32" using b by auto
  note ba = bm_addr [OF this(1)] and d = div32_of_nat [OF this(2)]
  from stw_run [of s "diskaddr 2 + 4 * of_nat (b div 32)"] bm_page [OF ok b] ba show ?thesis
    unfolding fs_okD(2) [OF ok] d by (simp add: set_bm_def)
qed

lemma bm_word_set: "bm_word (set_bm i w s) = (bm_word s)(i := w)"
proof
  fix j
  have "j = i \<longleftrightarrow> j div 1024 = i div 1024 \<and> j mod 1024 = i mod 1024" by (metis div_mod_decomp)
  then show "bm_word (set_bm i w s) j = ((bm_word s)(i := w)) j"
    by (auto simp: bm_word_def set_bm_def)
qed

lemma VPN_super: "VPN (diskaddr 1) = 0x10001"
  using VPN_diskaddr [of 1] by simp

lemma fs_ok_set: "fs_ok n s \<Longrightarrow> fs_ok n (set_bm i w s)"
  by (auto simp: fs_ok_def set_bm_def VPN_super BM_VPN_def)

lemma fs_ok_disk: "fs_ok n s \<Longrightarrow> fs_ok n (s\<lparr>disk := d\<rparr>)"
  by (simp add: fs_ok_def)

lemma bm_word_disk [simp]: "bm_word (s\<lparr>disk := d\<rparr>) = bm_word s"
  by (simp add: bm_word_def fun_eq_iff)

section \<open>Free blocks\<close>

definition free_blocks :: "nat \<Rightarrow> fsys \<Rightarrow> nat set" where
  "free_blocks n s = {b. b < n \<and> bitmap_bit (bm_word s) b}"

lemma of_nat_less_n: "b < 2 ^ 32 \<Longrightarrow> n \<le> 0x40000 \<Longrightarrow> (of_nat b :: u32) < of_nat n \<longleftrightarrow> b < n"
  by (simp add: word_less_nat_alt unat_of_nat take_bit_eq_mod)

lemma block_is_free_run:
  assumes ok: "fs_ok n s" and b: "b < 2 ^ 32"
  shows "block_is_free (of_nat b) s = Done (b \<in> free_blocks n s) s"
proof (cases "b < n")
  case True
  have "(of_nat n :: u32) \<le> of_nat b \<longleftrightarrow> False"
    using of_nat_less_n [OF b fs_okD(3) [OF ok]] True by (simp add: not_le)
  with True show ?thesis
    using ldw_bm [OF ok True] s_nblocks_run [OF ok] fs_okD(4) [OF ok]
    by (simp add: block_is_free_def run_rules mod32_of_nat [OF b] free_blocks_def bitmap_bit_def
        and_bit_eq_0 [unfolded push_bit_of_1])
next
  case False
  have "(of_nat n :: u32) \<le> of_nat b"
    using of_nat_less_n [OF b fs_okD(3) [OF ok]] False by (simp add: not_le [symmetric])
  with False show ?thesis
    using s_nblocks_run [OF ok] fs_okD(4) [OF ok]
    by (simp add: block_is_free_def run_rules free_blocks_def)
qed

definition mark_free :: "nat \<Rightarrow> fsys \<Rightarrow> fsys" where
  "mark_free b s = set_bm (b div 32) (bm_word s (b div 32) OR push_bit (b mod 32) 1) s"

definition mark_used :: "nat \<Rightarrow> fsys \<Rightarrow> fsys" where
  "mark_used b s = set_bm (b div 32) (bm_word s (b div 32) AND NOT (push_bit (b mod 32) 1)) s"

lemma free_blocks_mark_free: "b < n \<Longrightarrow> free_blocks n (mark_free b s) = insert b (free_blocks n s)"
  by (auto simp: free_blocks_def mark_free_def bm_word_set bitmap_simps)

lemma free_blocks_mark_used: "free_blocks n (mark_used b s) = free_blocks n s - {b}"
  by (auto simp: free_blocks_def mark_used_def bm_word_set bitmap_simps)

lemma of_nat_neq_0_word: "b \<noteq> 0 \<Longrightarrow> b < 2 ^ 32 \<Longrightarrow> (of_nat b :: u32) \<noteq> 0"
  using of_nat_neq_0 [where ?'a = 32, of b] by simp

lemma free_block_run:
  assumes ok: "fs_ok n s" and b: "b < 2 ^ 32"
  shows "free_block (of_nat b) s = Done () (if b = 0 \<or> n \<le> b then s else mark_free b s)"
proof (cases "b = 0 \<or> n \<le> b")
  case True
  then have c: "(of_nat b :: u32) = 0 \<or> (of_nat n :: u32) \<le> of_nat b"
  proof (cases "b = 0")
    case False
    then have "\<not> (of_nat b :: u32) < of_nat n"
      using True unfolding of_nat_less_n [OF b fs_okD(3) [OF ok]] by simp
    then show ?thesis by (simp only: not_less simp_thms)
  qed simp
  have "free_block (of_nat b) s = Done () s"
    unfolding free_block_def bindK_def s_nblocks_run [OF ok] using c by (simp add: retK_def)
  with True show ?thesis by auto
next
  case False
  then have lt: "b < n" by simp
  have "\<not> (of_nat n :: u32) \<le> of_nat b"
    using of_nat_less_n [OF b fs_okD(3) [OF ok]] lt by (simp add: not_le)
  moreover have "(of_nat b :: u32) \<noteq> 0"
    using of_nat_neq_0_word False b by simp
  ultimately have c: "\<not> ((of_nat b :: u32) = 0 \<or> (of_nat n :: u32) \<le> of_nat b)" by blast
  have "free_block (of_nat b) s = Done () (set_bm (b div 32) (bm_word s (b div 32) OR push_bit (b mod 32) 1) s)"
    unfolding free_block_def bindK_def s_nblocks_run [OF ok] outcome.case getsK_def if_not_P [OF c]
      ldw_bm [OF ok lt] mod32_of_nat [OF b] by (simp only: if_False outcome.case stw_bm [OF ok lt])
  with False show ?thesis unfolding mark_free_def by auto
qed

lemma free_blocks_cong:
  assumes "\<And>j. j \<le> n div 32768 \<Longrightarrow> upages t (BM_VPN + j) = upages s (BM_VPN + j)"
  shows "free_blocks n t = free_blocks n s"
proof -
  have "bm_word t (x div 32) = bm_word s (x div 32)" if "x < n" for x
  proof -
    have "x div 32 div 1024 \<le> n div 32768" using that by (simp add: div_mult2_eq [symmetric] div_le_mono)
    from assms [OF this] show ?thesis by (simp add: bm_word_def)
  qed
  then show ?thesis by (auto simp: free_blocks_def bitmap_bit_def)
qed

section \<open>Allocation\<close>

text \<open>The bitmap block that holds the bit of block \<open>b\<close>, written through to the disk.\<close>

definition sync_bitmap :: "nat \<Rightarrow> fsys \<Rightarrow> fsys" where
  "sync_bitmap b s = s\<lparr>disk := (disk s)(b div 32768 + 2 := the (upages s (BM_VPN + b div 32768)))\<rparr>"

lemma write_bm_run:
  assumes ok: "fs_ok n s" and b: "b < n"
  shows "write_block (of_nat b div BIT2BLK + 2) s = Done () (sync_bitmap b s)"
proof -
  have n: "b < 0x40000" using b fs_okD(3) [OF ok] by simp
  have d: "(of_nat b div BIT2BLK + 2 :: u32) = of_nat (b div 32768 + 2)"
    using n by (simp add: BIT2BLK_def BY2BLK_def BY2PG_def word_eq_iff_unsigned [where ?'a = nat]
        unat_word_ariths unat_div unat_of_nat take_bit_eq_mod)
  have lt: "b div 32768 + 2 < 0x40000 + 0x100" using n by auto
  have v: "VPN (diskaddr (of_nat (b div 32768 + 2))) = BM_VPN + b div 32768"
    using VPN_diskaddr [OF lt] by (simp add: BM_VPN_def)
  have "b div 32768 \<le> n div 32768" using b by (simp add: div_le_mono)
  with ok obtain fr where fr: "upages s (BM_VPN + b div 32768) = Some fr" by (auto simp: fs_ok_def)
  have u: "unat (of_nat (b div 32768 + 2) :: u32) = b div 32768 + 2"
    using lt by (simp add: unat_of_nat take_bit_eq_mod del: of_nat_add of_nat_Suc)
  have t: "touch (diskaddr (of_nat (b div 32768 + 2))) s = Done () s"
    by (rule touch_run [of _ _ fr]) (unfold v, rule fr)
  show ?thesis unfolding d write_block_def ide_write_block_def sync_bitmap_def
    using t fr v u by (simp add: run_rules block_is_mapped_def va_is_mapped_def del: of_nat_add of_nat_Suc)
qed

lemma alloc_scan_run:
  assumes "fs_ok n s" "b < 2 ^ 32 - 1" "n \<le> b + k"
  shows "alloc_scan k (of_nat b) s = (case filter (\<lambda>x. x \<in> free_blocks n s) [b..<n] of
      [] \<Rightarrow> Done (Inl E_NO_DISK) s
    | x # _ \<Rightarrow> Done (Inr (of_nat x)) (sync_bitmap x (mark_used x s)))"
  using assms
proof (induction k arbitrary: b)
  case 0
  then show ?case by (simp add: run_rules)
next
  case (Suc k)
  note ok = Suc.prems(1)
  have b: "b < 2 ^ 32" using Suc.prems(2) by simp
  note lt = of_nat_less_n [OF b fs_okD(3) [OF ok]]
  show ?case
  proof (cases "b < n")
    case False
    with lt s_nblocks_run [OF ok] show ?thesis by (simp add: run_rules)
  next
    case True
    note l = ldw_bm [OF ok True] and st = stw_bm [OF ok True] and sn = s_nblocks_run [OF ok]
    have up: "[b..<n] = b # [Suc b..<n]" using True by (simp add: upt_conv_Cons)
    have w: "bm_word s (b div 32) AND push_bit (b mod 32) 1 = 0 \<longleftrightarrow> b \<notin> free_blocks n s"
      using True by (simp add: free_blocks_def bitmap_bit_def and_bit_eq_0 [unfolded push_bit_of_1])
    show ?thesis
    proof (cases "b \<in> free_blocks n s")
      case free: True
      have wr: "write_block (of_nat b div BIT2BLK + 2) (mark_used b s) = Done () (sync_bitmap b (mark_used b s))"
        by (rule write_bm_run [OF _ True]) (simp add: mark_used_def fs_ok_set ok)
      have "alloc_scan (Suc k) (of_nat b) s = Done (Inr (of_nat b)) (sync_bitmap b (mark_used b s))"
        using sn lt True l st free w wr
        by (simp add: run_rules mod32_of_nat [OF b] mark_used_def del: push_bit_of_1)
      with free show ?thesis unfolding up by simp
    next
      case used: False
      have "alloc_scan (Suc k) (of_nat b) s = alloc_scan k (of_nat (Suc b)) s"
        using sn lt True l used w by (simp add: run_rules mod32_of_nat [OF b] add.commute del: push_bit_of_1)
      moreover have "Suc b < 2 ^ 32 - 1" using True fs_okD(3) [OF ok] by simp
      ultimately show ?thesis using Suc.IH [of "Suc b"] Suc.prems used unfolding up by simp
    qed
  qed
qed

lemma alloc_block_num_run:
  assumes ok: "fs_ok n s"
  shows "alloc_block_num s = (case filter (\<lambda>x. x \<in> free_blocks n s) [3..<n] of
      [] \<Rightarrow> Done (Inl E_NO_DISK) s
    | x # _ \<Rightarrow> Done (Inr (of_nat x)) (sync_bitmap x (mark_used x s)))"
proof -
  have "unat (of_nat n :: u32) = n"
    using fs_okD(3) [OF ok] by (simp add: unat_of_nat take_bit_eq_mod)
  with alloc_scan_run [OF ok, of 3 n] s_nblocks_run [OF ok] show ?thesis
    by (simp add: alloc_block_num_def run_rules)
qed

lemma alloc_block_num_found:
  assumes ok: "fs_ok n s" and ex: "\<exists>b \<in> free_blocks n s. 3 \<le> b"
  shows "\<exists>b. b \<in> free_blocks n s \<and> 3 \<le> b \<and> (\<forall>x \<in> free_blocks n s. 3 \<le> x \<longrightarrow> b \<le> x) \<and>
     alloc_block_num s = Done (Inr (of_nat b)) (sync_bitmap b (mark_used b s))"
proof -
  let ?xs = "filter (\<lambda>x. x \<in> free_blocks n s) [3..<n]"
  have set: "set ?xs = {b \<in> free_blocks n s. 3 \<le> b}" by (auto simp: free_blocks_def)
  with ex obtain b bs where xs: "?xs = b # bs" by (cases ?xs) auto
  have "sorted ?xs" by (simp add: sorted_wrt_filter)
  then have "\<forall>x \<in> set ?xs. b \<le> x" unfolding xs by simp
  moreover have "b \<in> set ?xs" unfolding xs by simp
  moreover have "alloc_block_num s = Done (Inr (of_nat b)) (sync_bitmap b (mark_used b s))"
    unfolding alloc_block_num_run [OF ok] xs by simp
  ultimately show ?thesis unfolding set by blast
qed

lemma alloc_block_num_full:
  assumes ok: "fs_ok n s" and no: "\<not> (\<exists>b \<in> free_blocks n s. 3 \<le> b)"
  shows "alloc_block_num s = Done (Inl E_NO_DISK) s"
proof -
  have "filter (\<lambda>x. x \<in> free_blocks n s) [3..<n] = []" using no by (auto simp: filter_empty_conv)
  then show ?thesis by (simp add: alloc_block_num_run [OF ok])
qed

section \<open>The contract of the allocator\<close>

definition alloc_block_opt :: "fsys \<Rightarrow> (nat \<times> fsys) option" where
  "alloc_block_opt s = (case alloc_block_num s of Done (Inr b) t \<Rightarrow> Some (unat b, t) | _ \<Rightarrow> None)"

definition release_block :: "nat \<Rightarrow> fsys \<Rightarrow> fsys" where
  "release_block b s = (case free_block (of_nat b) s of Done _ t \<Rightarrow> t | _ \<Rightarrow> s)"

lemma alloc_block_opt_cases:
  assumes "fs_ok n s"
  obtains (full) "alloc_block_opt s = None" "\<not> (\<exists>b \<in> free_blocks n s. 3 \<le> b)"
  | (found) b where "b \<in> free_blocks n s" "3 \<le> b" "\<forall>x \<in> free_blocks n s. 3 \<le> x \<longrightarrow> b \<le> x"
      "alloc_block_opt s = Some (b, sync_bitmap b (mark_used b s))"
proof (cases "\<exists>b \<in> free_blocks n s. 3 \<le> b")
  case False
  then show ?thesis using alloc_block_num_full [OF assms] that(1) by (simp add: alloc_block_opt_def)
next
  case True
  then obtain b where b: "b \<in> free_blocks n s" "3 \<le> b" "\<forall>x \<in> free_blocks n s. 3 \<le> x \<longrightarrow> b \<le> x"
      "alloc_block_num s = Done (Inr (of_nat b)) (sync_bitmap b (mark_used b s))"
    using alloc_block_num_found [OF assms True] by blast
  have "b < n" using b(1) by (simp add: free_blocks_def)
  then have "unat (of_nat b :: u32) = b"
    using fs_okD(3) [OF assms] by (simp add: unat_of_nat take_bit_eq_mod)
  then show ?thesis using b that(2) by (simp add: alloc_block_opt_def)
qed

lemma free_blocks_sync: "free_blocks n (sync_bitmap b s) = free_blocks n s"
  by (rule free_blocks_cong) (simp add: sync_bitmap_def)

lemma fs_ok_alloc: "fs_ok n s \<Longrightarrow> fs_ok n (sync_bitmap b (mark_used b s))"
  by (simp add: sync_bitmap_def mark_used_def fs_ok_set fs_ok_disk)

interpretation blocks: slot_allocator "fs_ok n" "\<lambda>s. {..<n} - free_blocks n s" "\<lambda>_. {3..<n}"
    alloc_block_opt release_block for n
proof (unfold_locales, goal_cases)
  case (1 s)
  from 1(1) show ?case by (cases rule: alloc_block_opt_cases) (use 1(2) in auto)
next
  case (2 s i s')
  from 2(1) show ?case
  proof (cases rule: alloc_block_opt_cases)
    case (found b)
    then have i: "i = b" "b < n" using 2(2) by (auto simp: free_blocks_def)
    have "j \<notin> free_blocks n s" if "j \<in> {3..<n}" "j < b" for j using found(3) that by force
    then show ?thesis using found(1, 2) i by auto
  qed (use 2(2) in simp)
next
  case (3 s i s')
  from 3(1) show ?case
  proof (cases rule: alloc_block_opt_cases)
    case (found b)
    then have "i = b" "s' = sync_bitmap b (mark_used b s)" "b < n"
      using 3(2) by (auto simp: free_blocks_def)
    then show ?thesis using fs_ok_alloc [OF 3(1)] by (auto simp: free_blocks_sync free_blocks_mark_used)
  qed (use 3(2) in simp)
next
  case (4 s i)
  then have "i < 2 ^ 32" using fs_okD(3) [OF 4(1)] by simp
  then have "release_block i s = mark_free i s"
    using free_block_run [OF 4(1)] 4(2) by (simp add: release_block_def)
  moreover have "fs_ok n (mark_free i s)" using 4(1) by (simp add: mark_free_def fs_ok_set)
  moreover have "free_blocks n (mark_free i s) = insert i (free_blocks n s)"
    using 4(2) by (simp add: free_blocks_mark_free)
  ultimately show ?case by auto
qed

end
