(* ===== verification/Fs_Thms.thy ===== *)
theory Fs_Thms
  imports Fs_Alloc
begin

text \<open>
  Properties of the file system server's core: block allocation, the block cache, flushing, the
  block map of a file and the search of a directory block. \<open>tiny_fs\<close> is a disk of eight blocks
  whose super block and bitmap are in the cache, on which the hypotheses are discharged.
\<close>

section \<open>A small disk\<close>

definition tiny_super :: frame where
  "tiny_super k = (if k = 0 then FS_MAGIC else if k = 1 then 8 else 0)"

definition tiny_bits :: frame where
  "tiny_bits k = (if k = 0 then 0xE0 else 0)"

definition tiny_fs :: fsys where
  "tiny_fs = \<lparr>upages = Map.empty(0x10001 \<mapsto> tiny_super, 0x10002 \<mapsto> tiny_bits, 0x10004 \<mapsto> (\<lambda>_. 0)),
     udirty = (\<lambda>p. p = 0x10004), mem_left = 16, super = diskaddr 1, bitmap = diskaddr 2,
     disk = (\<lambda>b k. of_nat (b + k))\<rparr>"

lemma tiny_fs_ok: "fs_ok 8 tiny_fs"
  by (simp add: fs_ok_def tiny_fs_def VPN_super BM_VPN_def tiny_super_def)

lemma tiny_free: "free_blocks 8 tiny_fs = {5, 6, 7}"
proof -
  have "bm_word tiny_fs 0 = 0xE0" by (simp add: bm_word_def tiny_fs_def BM_VPN_def tiny_bits_def)
  then have "bitmap_bit (bm_word tiny_fs) b \<longleftrightarrow> bit (0xE0 :: u32) b" if "b < 8" for b
    using that by (simp add: bitmap_bit_def)
  moreover have "bit (0xE0 :: u32) b \<longleftrightarrow> b \<in> {5, 6, 7}" if "b < 8" for b
    using that by (auto simp: bit_numeral_rec less_Suc_eq numeral_eq_Suc)
  ultimately show ?thesis by (auto simp: free_blocks_def)
qed

section \<open>Allocation\<close>

text \<open>
  \<^verbatim>\<open>alloc_block_num\<close> on a disk of \<open>n\<close> blocks returns the lowest free block that is not
  one of the first three, clears its bit and no other, and writes the bitmap block that holds the
  bit to the disk; when there is none it returns \<^verbatim>\<open>-E_NO_DISK\<close> and changes nothing.
\<close>
theorem alloc_block_num_lowest:
  assumes "fs_ok n s"
  shows "if \<exists>b \<in> free_blocks n s. 3 \<le> b
         then \<exists>b t. alloc_block_num s = Done (Inr (of_nat b)) t \<and>
                b = (LEAST b. b \<in> free_blocks n s \<and> 3 \<le> b) \<and>
                free_blocks n t = free_blocks n s - {b} \<and> fs_ok n t \<and>
                disk t = (disk s)(b div 32768 + 2 := the (upages t (BM_VPN + b div 32768)))
         else alloc_block_num s = Done (Inl E_NO_DISK) s"
proof (cases "\<exists>b \<in> free_blocks n s. 3 \<le> b")
  case False
  with alloc_block_num_full [OF assms] show ?thesis by simp
next
  case True
  from alloc_block_num_found [OF assms True] obtain b where b: "b \<in> free_blocks n s" "3 \<le> b"
    and min: "\<forall>x \<in> free_blocks n s. 3 \<le> x \<longrightarrow> b \<le> x"
    and run: "alloc_block_num s = Done (Inr (of_nat b)) (sync_bitmap b (mark_used b s))" by blast
  have least: "b = (LEAST b. b \<in> free_blocks n s \<and> 3 \<le> b)"
    by (rule Least_equality [symmetric]) (use b min in auto)
  have free: "free_blocks n (sync_bitmap b (mark_used b s)) = free_blocks n s - {b}"
    unfolding sync_bitmap_def free_blocks_mark_used [symmetric] by (simp add: free_blocks_def)
  have ok: "fs_ok n (sync_bitmap b (mark_used b s))"
    unfolding sync_bitmap_def mark_used_def by (intro fs_ok_disk fs_ok_set assms)
  have "disk (mark_used b s) = disk s" by (simp add: mark_used_def set_bm_def)
  then show ?thesis using True run least free ok by (auto simp: sync_bitmap_def)
qed

theorem alloc_block_num_lowest_witness:
  "\<exists>t. alloc_block_num tiny_fs = Done (Inr 5) t \<and> free_blocks 8 t = {6, 7}"
proof -
  have l: "(LEAST b. b \<in> free_blocks 8 tiny_fs \<and> 3 \<le> b) = 5"
    by (rule Least_equality) (auto simp: tiny_free)
  have e: "\<exists>b \<in> free_blocks 8 tiny_fs. 3 \<le> b" by (simp add: tiny_free)
  from alloc_block_num_lowest [OF tiny_fs_ok] show ?thesis
    unfolding if_P [OF e] l by (auto simp: tiny_free)
qed

section \<open>Writing back\<close>

definition cached_dirty :: "fsys \<Rightarrow> nat \<Rightarrow> bool" where
  "cached_dirty s b \<longleftrightarrow> upages s (0x10000 + b) \<noteq> None \<and> udirty s (0x10000 + b)"

lemma block_is_dirty_cached: "b < 0x40000 \<Longrightarrow> block_is_dirty (of_nat b) s = cached_dirty s b"
  by (simp add: block_is_dirty_def va_is_mapped_def va_is_dirty_def cached_dirty_def VPN_diskaddr)

lemma write_block_run:
  assumes "b < 0x40000" "upages s (0x10000 + b) = Some fr"
  shows "write_block (of_nat b) s = Done () (s\<lparr>disk := (disk s)(b := fr)\<rparr>)"
proof -
  have v: "VPN (diskaddr (of_nat b)) = 0x10000 + b" using assms(1) by (simp add: VPN_diskaddr)
  have u: "unat (of_nat b :: u32) = b" using assms(1) by (simp add: unat_of_nat take_bit_eq_mod)
  have t: "touch (diskaddr (of_nat b)) s = Done () s"
    by (rule touch_run [of _ _ fr]) (unfold v, rule assms(2))
  show ?thesis unfolding write_block_def ide_write_block_def
    using t assms(2) by (simp add: run_rules block_is_mapped_def va_is_mapped_def v u)
qed

text \<open>
  \<^verbatim>\<open>fs_sync\<close> writes every block of the disk that is cached and marked dirty, and
  changes nothing else: afterwards a block on the disk is its cached copy if that was dirty, and
  what it was before otherwise.
\<close>
theorem fs_sync_writes_dirty:
  assumes "fs_ok n s"
  shows "fs_sync s = Done () (s\<lparr>disk := \<lambda>b. if b < n \<and> cached_dirty s b
      then the (upages s (0x10000 + b)) else disk s b\<rparr>)"
proof -
  let ?d = "\<lambda>k. s\<lparr>disk := \<lambda>b. if b < k \<and> cached_dirty s b then the (upages s (0x10000 + b)) else disk s b\<rparr>"
  let ?f = "\<lambda>i. bindK (getsK (block_is_dirty (of_nat i)))
              (\<lambda>d. if d then write_block (of_nat i) else retK ())"
  have n: "n \<le> 0x40000" by (rule fs_okD(3) [OF assms])
  have "\<exists>s'. forK [0..<n] ?f s = Done () s' \<and> s' = ?d n"
  proof (rule forK_upt)
    show "s = ?d 0" by simp
  next
    fix k t
    assume k: "k < n" and t: "t = ?d k"
    have d: "block_is_dirty (of_nat k) t = cached_dirty s k"
      using k n t block_is_dirty_cached [of k t] by (simp add: cached_dirty_def)
    show "\<exists>t'. ?f k t = Done () t' \<and> t' = ?d (Suc k)"
    proof (cases "cached_dirty s k")
      case True
      then obtain fr where fr: "upages t (0x10000 + k) = Some fr" by (auto simp: cached_dirty_def t)
      from write_block_run [OF _ fr] k n have w: "write_block (of_nat k) t = Done () (t\<lparr>disk := (disk t)(k := fr)\<rparr>)"
        by simp
      have "t\<lparr>disk := (disk t)(k := fr)\<rparr> = ?d (Suc k)"
        using fr True by (auto simp: t fun_eq_iff less_Suc_eq)
      then show ?thesis using d w True by (simp add: run_rules)
    next
      case False
      have "t = ?d (Suc k)" unfolding t using False by (auto simp: fun_eq_iff less_Suc_eq)
      then show ?thesis using d False by (simp add: run_rules)
    qed
  qed
  moreover have "unat (of_nat n :: u32) = n" using n by (simp add: unat_of_nat take_bit_eq_mod)
  ultimately show ?thesis
    using s_nblocks_run [OF assms] by (simp add: fs_sync_def run_rules)
qed

theorem fs_sync_writes_dirty_witness:
  "\<exists>t. fs_sync tiny_fs = Done () t \<and> disk t 4 = (\<lambda>_. 0) \<and> disk t 3 = (\<lambda>k. of_nat (3 + k))"
  unfolding fs_sync_writes_dirty [OF tiny_fs_ok] by (simp add: tiny_fs_def cached_dirty_def)

section \<open>The block cache\<close>

lemma diskaddr_range:
  assumes "b < 0x40000"
  shows "UTEMP \<le> diskaddr (of_nat b)" "\<not> UTOP \<le> diskaddr (of_nat b)" "diskaddr (of_nat b) \<noteq> 0"
proof -
  have u: "unat (diskaddr (of_nat b)) = 0x10000000 + b * 4096"
    using assms by (simp add: diskaddr_def DISKMAP_def BY2BLK_def BY2PG_def unat_word_ariths unat_of_nat take_bit_eq_mod)
  show "UTEMP \<le> diskaddr (of_nat b)" using u by (simp add: word_le_nat_alt layout_defs)
  show "\<not> UTOP \<le> diskaddr (of_nat b)" using u assms by (simp add: word_le_nat_alt layout_defs)
  show "diskaddr (of_nat b) \<noteq> 0" using u by (metis add_is_0 unat_0 zero_neq_numeral)
qed

definition give_page :: "nat \<Rightarrow> frame \<Rightarrow> fsys \<Rightarrow> fsys" where
  "give_page b fr s = s\<lparr>upages := (upages s)(0x10000 + b := Some fr),
     udirty := (udirty s)(0x10000 + b := False), mem_left := mem_left s - 1\<rparr>"

lemma alloc_cache_page:
  assumes "b < 0x40000" "mem_left s \<noteq> 0"
  shows "u_mem_alloc (diskaddr (of_nat b)) s = Done (Inr ()) (give_page b (\<lambda>_. 0) s)"
  using diskaddr_range [OF assms(1)] VPN_diskaddr [of b] assms
  by (simp add: u_mem_alloc_def run_rules give_page_def not_le)

lemma read_block_run:
  assumes ok: "fs_ok n s" and b: "b < n" "b \<notin> free_blocks n s" and mem: "mem_left s \<noteq> 0"
  shows "read_block (of_nat b) s =
     (if upages s (0x10000 + b) \<noteq> None then Done (Inr (diskaddr (of_nat b), False)) s
      else Done (Inr (diskaddr (of_nat b), True)) (give_page b (disk s b) s))"
proof -
  have n: "b < 0x40000" using b(1) fs_okD(3) [OF ok] by simp
  have v: "VPN (diskaddr (of_nat b)) = 0x10000 + b" using n by (simp add: VPN_diskaddr)
  have u: "unat (of_nat b :: u32) = b" using n by (simp add: unat_of_nat take_bit_eq_mod)
  have lt: "\<not> (of_nat n :: u32) \<le> of_nat b"
    using of_nat_less_n [of b n] b(1) n fs_okD(3) [OF ok] by (simp add: not_le)
  have bm: "bitmap s \<noteq> 0" using fs_okD(2) [OF ok] by (simp add: diskaddr_def DISKMAP_def BY2BLK_def BY2PG_def)
  have free: "block_is_free (of_nat b) s = Done False s" using block_is_free_run [OF ok, of b] b n by simp
  have m: "block_is_mapped (of_nat b) s \<longleftrightarrow> upages s (0x10000 + b) \<noteq> None"
    by (simp add: block_is_mapped_def va_is_mapped_def v)
  have rd: "ide_read_block (of_nat b) (give_page b (\<lambda>_. 0) s) = Done () (give_page b (disk s b) s)"
    unfolding ide_read_block_def run_seq modifyK_def
    using touch_run [of "give_page b (\<lambda>_. 0) s" "diskaddr (of_nat b)" "\<lambda>_. 0"]
    by (simp add: give_page_def v u)
  show ?thesis
    using alloc_cache_page [OF n mem]
    by (simp add: read_block_def run_rules s_nblocks_run [OF ok] fs_okD(4) [OF ok] lt bm free m rd)
qed

text \<open>
  \<^verbatim>\<open>read_block\<close> of a block in use returns its cache address. If the block was cached
  the page is left alone, so unwritten changes survive; if not, a fresh page is filled from the
  disk and starts clean. Reading the block a second time finds it in the cache and changes nothing.
\<close>
theorem read_block_caches:
  assumes "fs_ok n s" "b < n" "b \<notin> free_blocks n s" "mem_left s \<noteq> 0"
  shows "\<exists>isnew t. read_block (of_nat b) s = Done (Inr (diskaddr (of_nat b), isnew)) t \<and>
     upages t = (if isnew then (upages s)(0x10000 + b := Some (disk s b)) else upages s) \<and>
     isnew = (upages s (0x10000 + b) = None) \<and> (isnew \<longrightarrow> \<not> udirty t (0x10000 + b)) \<and>
     disk t = disk s \<and> read_block (of_nat b) t = Done (Inr (diskaddr (of_nat b), False)) t"
proof (cases "upages s (0x10000 + b) = None")
  case False
  with read_block_run [OF assms] show ?thesis by auto
next
  case True
  let ?t = "give_page b (disk s b) s"
  have bm: "b \<noteq> 1" "\<And>j. j \<le> n div 32768 \<Longrightarrow> BM_VPN + j \<noteq> 0x10000 + b"
    using True assms(1) by (auto simp: fs_ok_def VPN_super)
  then have ok: "fs_ok n ?t"
    using assms(1) by (auto simp: fs_ok_def give_page_def VPN_super)
  have "free_blocks n ?t = free_blocks n s" by (rule free_blocks_cong) (auto simp: give_page_def bm(2))
  moreover have "block_is_free (of_nat b) ?t = Done (b \<in> free_blocks n ?t) ?t"
    using block_is_free_run [OF ok, of b] assms(2) fs_okD(3) [OF ok] by simp
  ultimately have free: "block_is_free (of_nat b) ?t = Done False ?t" using assms(3) by simp
  have n: "b < 0x40000" using assms(2) fs_okD(3) [OF ok] by simp
  have lt: "\<not> (of_nat n :: u32) \<le> of_nat b"
    using of_nat_less_n [of b n] assms(2) n fs_okD(3) [OF ok] by (simp add: not_le)
  have m: "block_is_mapped (of_nat b) ?t"
    using n by (simp add: block_is_mapped_def va_is_mapped_def VPN_diskaddr give_page_def)
  have "read_block (of_nat b) ?t = Done (Inr (diskaddr (of_nat b), False)) ?t"
    by (simp add: read_block_def run_rules s_nblocks_run [OF ok] fs_okD(4) [OF ok] lt free m)
  with True read_block_run [OF assms] show ?thesis by (auto simp: give_page_def)
qed

theorem read_block_caches_witness:
  "\<exists>t. read_block 3 tiny_fs = Done (Inr (diskaddr 3, True)) t \<and> upages t 0x10003 = Some (disk tiny_fs 3)"
proof -
  have "upages tiny_fs (0x10000 + 3) = None" "mem_left tiny_fs \<noteq> 0" by (simp_all add: tiny_fs_def)
  with read_block_caches [OF tiny_fs_ok, of 3] show ?thesis by (auto simp: tiny_free)
qed

section \<open>The block map of a file\<close>

lemma map_block_run:
  assumes "b < 0x40000" "mem_left s \<noteq> 0"
  shows "map_block (of_nat b) s = Done (Inr ()) (if upages s (0x10000 + b) \<noteq> None then s else give_page b (\<lambda>_. 0) s)"
  using alloc_cache_page [OF assms] assms(1)
  by (simp add: map_block_def run_rules block_is_mapped_def va_is_mapped_def VPN_diskaddr)

text \<open>
  When \<^verbatim>\<open>file_map_block\<close> is asked to allocate and the file has no block at a direct
  position yet, it takes the lowest free block, and from then on the same call without the
  permission to allocate returns that block and changes nothing. The bitmap no longer counts it free.
\<close>
theorem file_map_block_allocates:
  assumes ok: "fs_ok n s" and free: "\<exists>b \<in> free_blocks n s. 3 \<le> b" and mem: "mem_left s \<noteq> 0"
    and k: "k < NDIRECT"
    and slot: "upages s (VPN (f_direct f k)) = Some fr" "fr (widx (f_direct f k)) = 0"
    and page: "\<And>j. j \<le> n div 32768 \<Longrightarrow> VPN (f_direct f k) \<noteq> BM_VPN + j"
  shows "\<exists>b t. file_map_block f k True s = Done (Inr (of_nat b)) t \<and>
     b = (LEAST b. b \<in> free_blocks n s \<and> 3 \<le> b) \<and> free_blocks n t = free_blocks n s - {b} \<and>
     file_map_block f k False t = Done (Inr (of_nat b)) t"
proof -
  let ?p = "f_direct f k"
  from alloc_block_num_found [OF ok free] obtain b where b: "b \<in> free_blocks n s" "3 \<le> b"
    and min: "\<forall>x \<in> free_blocks n s. 3 \<le> x \<longrightarrow> b \<le> x"
    and run: "alloc_block_num s = Done (Inr (of_nat b)) (sync_bitmap b (mark_used b s))" by blast
  let ?t1 = "sync_bitmap b (mark_used b s)"
  let ?t2 = "if upages ?t1 (0x10000 + b) \<noteq> None then ?t1 else give_page b (\<lambda>_. 0) ?t1"
  have least: "b = (LEAST b. b \<in> free_blocks n s \<and> 3 \<le> b)"
    by (rule Least_equality [symmetric]) (use b min in auto)
  have lt: "b < n" "b < 0x40000" using b(1) fs_okD(3) [OF ok] by (auto simp: free_blocks_def)
  have bq: "b div 32 div 1024 \<le> n div 32768"
    using lt(1) by (simp add: div_mult2_eq [symmetric] div_le_mono)
  have m1: "mem_left ?t1 = mem_left s" by (simp add: sync_bitmap_def mark_used_def set_bm_def)
  have ok1: "fs_ok n ?t1"
    unfolding sync_bitmap_def mark_used_def by (intro fs_ok_disk fs_ok_set ok)
  have free1: "free_blocks n ?t1 = free_blocks n s - {b}"
    unfolding sync_bitmap_def free_blocks_mark_used [symmetric] by (simp add: free_blocks_def)
  have bm: "upages ?t2 (BM_VPN + j) = upages ?t1 (BM_VPN + j)" if "j \<le> n div 32768" for j
    using ok1 that by (auto simp: fs_ok_def give_page_def)
  have slot2: "upages ?t2 (VPN ?p) = Some fr"
  proof -
    have "upages ?t1 (VPN ?p) = Some fr"
      using slot(1) page [OF bq] by (simp add: sync_bitmap_def mark_used_def set_bm_def)
    then show ?thesis by (auto simp: give_page_def)
  qed
  have alloc: "alloc_block s = Done (Inr (of_nat b)) ?t2"
    using map_block_run [OF lt(2), of ?t1] m1 mem by (simp add: alloc_block_def run_rules run del: if_split)
  define t where "t = ?t2\<lparr>upages := (upages ?t2)(VPN ?p := Some (fr(widx ?p := of_nat b)))\<rparr>"
  have slot_t: "upages t (VPN ?p) = Some (fr(widx ?p := of_nat b))" by (simp add: t_def)
  have nz: "(of_nat b :: u32) \<noteq> 0" by (rule of_nat_neq_0_word) (use b lt in auto)
  have walk: "file_block_walk f k a u = Done (Inr ?p) u" for a u
    using k by (simp add: file_block_walk_def run_rules)
  have "file_map_block f k True s = Done (Inr (of_nat b)) t"
    unfolding file_map_block_def run_try walk outcome.case sum.case
    using slot ldw_run [OF slot_t] alloc stw_run [OF slot2, of "of_nat b"]
    by (simp add: run_rules ldw_run t_def del: if_split)
  moreover have "file_map_block f k False t = Done (Inr (of_nat b)) t"
    unfolding file_map_block_def run_try walk outcome.case sum.case
    using ldw_run [OF slot_t] nz by (simp add: run_rules del: word_of_nat_eq_0_iff)
  moreover have "free_blocks n t = free_blocks n ?t1"
  proof (rule free_blocks_cong)
    fix j assume j: "j \<le> n div 32768"
    then have "BM_VPN + j \<noteq> VPN ?p" using page [OF j] by simp
    then show "upages t (BM_VPN + j) = upages ?t1 (BM_VPN + j)"
      unfolding bm [OF j, symmetric] t_def by simp
  qed
  ultimately show ?thesis using least free1 by blast
qed

theorem file_map_block_allocates_witness:
  "\<exists>t. file_map_block (diskaddr 4) 0 True tiny_fs = Done (Inr 5) t \<and>
     file_map_block (diskaddr 4) 0 False t = Done (Inr 5) t"
proof -
  have l: "(LEAST b. b \<in> free_blocks 8 tiny_fs \<and> 3 \<le> b) = 5"
    by (rule Least_equality) (auto simp: tiny_free)
  have v: "VPN (f_direct (diskaddr 4) 0) = 0x10004"
    by (simp add: f_direct_def diskaddr_def DISKMAP_def BY2BLK_def BY2PG_def VPN_alt)
  have "\<exists>b t. file_map_block (diskaddr 4) 0 True tiny_fs = Done (Inr (of_nat b)) t \<and>
     b = (LEAST b. b \<in> free_blocks 8 tiny_fs \<and> 3 \<le> b) \<and> free_blocks 8 t = free_blocks 8 tiny_fs - {b} \<and>
     file_map_block (diskaddr 4) 0 False t = Done (Inr (of_nat b)) t"
    by (rule file_map_block_allocates [OF tiny_fs_ok])
      (simp_all add: v tiny_free NDIRECT_def BM_VPN_def, simp_all add: tiny_fs_def)
  then show ?thesis unfolding l by auto
qed

end
