(* ===== verification/Fs_Dir.thy ===== *)
theory Fs_Dir
  imports Fs_Thms
begin

text \<open>
  Searching a directory: the byte-wise comparison of a name, the scan of the sixteen file
  structures of a block, and \<open>dir_lookup\<close> as a search through all entries in order.
\<close>

section \<open>Names in a page\<close>

definition name_at :: "frame \<Rightarrow> nat \<Rightarrow> u8 list \<Rightarrow> bool" where
  "name_at fr k name \<longleftrightarrow> (\<forall>i < length name. frame_byte fr (k + i) = name ! i) \<and> frame_byte fr (k + length name) = 0"

lemma name_at_Nil: "name_at fr k [] \<longleftrightarrow> frame_byte fr k = 0"
  by (simp add: name_at_def)

lemma name_at_Cons: "name_at fr k (c # cs) \<longleftrightarrow> frame_byte fr k = c \<and> name_at fr (Suc k) cs"
proof -
  have "(\<forall>i < Suc (length cs). frame_byte fr (k + i) = (c # cs) ! i) \<longleftrightarrow>
      frame_byte fr k = c \<and> (\<forall>i < length cs. frame_byte fr (Suc k + i) = cs ! i)"
    by (simp add: All_less_Suc2)
  then show ?thesis by (simp add: name_at_def)
qed

lemma page_step:
  assumes "bidx p + k < 4096"
  shows "VPN (p + of_nat k) = VPN p" "bidx (p + of_nat k) = bidx p + k"
proof -
  have p: "unat p = 4096 * VPN p + bidx p" by (simp add: VPN_alt bidx_def)
  have "VPN p < 2 ^ 20" using unsigned_less [of p, where ?'a = nat] by (simp add: VPN_alt)
  then have "unat p + k < 2 ^ 32" using p assms by simp
  then have u: "unat (p + of_nat k) = 4096 * VPN p + (bidx p + k)"
    using p by (simp add: unat_word_ariths unat_of_nat take_bit_eq_mod)
  show "VPN (p + of_nat k) = VPN p" using assms unfolding VPN_alt [of "p + _"] u by simp
  show "bidx (p + of_nat k) = bidx p + k" unfolding bidx_def [of "p + _"] u mod_mult_self4 using assms by simp
qed

lemma eq_string_run:
  assumes "upages s (VPN p) = Some fr" "bidx p + length name < 4096"
  shows "eq_string name p s = Done (name_at fr (bidx p) name) s"
  using assms
proof (induction name arbitrary: p)
  case Nil
  then show ?case by (simp add: run_rules ldb_run name_at_Nil)
next
  case (Cons c cs)
  have st: "VPN (p + 1) = VPN p" "bidx (p + 1) = Suc (bidx p)"
    using page_step [of p 1] Cons.prems(2) by simp_all
  have "eq_string cs (p + 1) s = Done (name_at fr (Suc (bidx p)) cs) s"
    using Cons.IH [of "p + 1"] Cons.prems st by simp
  then show ?case using ldb_run [OF Cons.prems(1)] by (simp add: run_rules name_at_Cons)
qed

section \<open>One directory block\<close>

lemma scan_names_run:
  assumes "upages s (VPN blk) = Some fr" "bidx blk = 0" "length name < 128" "j + n = 16"
  shows "scan_names n name (blk + 256 * of_nat j) s =
     Done (map_option (\<lambda>i. blk + 256 * of_nat i) (find (\<lambda>i. name_at fr (256 * i) name) [j..<16])) s"
  using assms(4)
proof (induction n arbitrary: j)
  case 0
  then show ?case by (simp add: run_rules)
next
  case (Suc n)
  have st: "VPN (blk + 256 * of_nat j) = VPN blk" "bidx (blk + 256 * of_nat j) = 256 * j"
    using page_step [of blk "256 * j"] assms(2) Suc.prems by simp_all
  have e: "eq_string name (blk + 256 * of_nat j) s = Done (name_at fr (256 * j) name) s"
    using eq_string_run [of s "blk + 256 * of_nat j" fr name] assms Suc.prems st by simp
  have nx: "blk + 256 * of_nat j + BY2FILE = blk + 256 * of_nat (Suc j)"
    by (simp add: BY2FILE_def algebra_simps)
  have up: "[j..<16] = j # [Suc j..<16]" using Suc.prems by (simp add: upt_conv_Cons)
  show ?case
    unfolding up scan_names.simps run_bind e outcome.case nx using Suc.IH [of "Suc j"] Suc.prems
    by (simp add: run_rules del: of_nat_Suc)
qed

section \<open>A directory\<close>

text \<open>
  A directory of \<open>m\<close> blocks, all direct, in use and in the cache; \<open>bno i\<close> is the number of
  its block \<open>i\<close>.
\<close>

definition dir_cached :: "nat \<Rightarrow> fsys \<Rightarrow> u32 \<Rightarrow> nat \<Rightarrow> (nat \<Rightarrow> nat) \<Rightarrow> bool" where
  "dir_cached n s dir m bno \<longleftrightarrow> m \<le> 10 \<and>
     (\<exists>fr. upages s (VPN (f_size dir)) = Some fr \<and> fr (widx (f_size dir)) = 4096 * of_nat m) \<and>
     (\<forall>i < m. (\<exists>fr. upages s (VPN (f_direct dir (of_nat i))) = Some fr \<and>
          fr (widx (f_direct dir (of_nat i))) = of_nat (bno i)) \<and>
        bno i \<noteq> 0 \<and> bno i < n \<and> bno i \<notin> free_blocks n s \<and> upages s (0x10000 + bno i) \<noteq> None)"

text \<open>The address of the \<open>j\<close>-th file structure of block \<open>i\<close>, and whether it has the name.\<close>

definition entry_addr :: "(nat \<Rightarrow> nat) \<Rightarrow> nat \<times> nat \<Rightarrow> u32" where
  "entry_addr bno = (\<lambda>(i, j). diskaddr (of_nat (bno i)) + 256 * of_nat j)"

definition entry_named :: "fsys \<Rightarrow> (nat \<Rightarrow> nat) \<Rightarrow> u8 list \<Rightarrow> nat \<times> nat \<Rightarrow> bool" where
  "entry_named s bno name = (\<lambda>(i, j). name_at (the (upages s (0x10000 + bno i))) (256 * j) name)"

lemma read_cached:
  assumes "fs_ok n s" "b < n" "b \<notin> free_blocks n s" "upages s (0x10000 + b) \<noteq> None"
  shows "read_block (of_nat b) s = Done (Inr (diskaddr (of_nat b), False)) s"
proof -
  have n: "b < 0x40000" using assms(2) fs_okD(3) [OF assms(1)] by simp
  have lt: "\<not> (of_nat n :: u32) \<le> of_nat b"
    using of_nat_less_n [of b n] assms(2) n fs_okD(3) [OF assms(1)] by (simp add: not_le)
  have m: "block_is_mapped (of_nat b) s"
    using n assms(4) by (simp add: block_is_mapped_def va_is_mapped_def VPN_diskaddr)
  have free: "block_is_free (of_nat b) s = Done False s"
    using block_is_free_run [OF assms(1), of b] assms(3) n by simp
  show ?thesis
    by (simp add: read_block_def run_rules s_nblocks_run [OF assms(1)] fs_okD(4) [OF assms(1)] lt free m)
qed

lemma get_cached_block:
  assumes ok: "fs_ok n s" and dir: "dir_cached n s dir m bno" and i: "i < m"
  shows "file_get_block dir (of_nat i) s = Done (Inr (diskaddr (of_nat (bno i)))) s"
proof -
  let ?p = "f_direct dir (of_nat i)"
  from dir i obtain fr where fr: "upages s (VPN ?p) = Some fr" "fr (widx ?p) = of_nat (bno i)"
    and b: "bno i \<noteq> 0" "bno i < n" "bno i \<notin> free_blocks n s" "upages s (0x10000 + bno i) \<noteq> None"
    and m: "m \<le> 10" by (auto simp: dir_cached_def)
  have k: "(of_nat i :: u32) < NDIRECT"
    using i m by (simp add: NDIRECT_def word_less_nat_alt unat_of_nat take_bit_eq_mod)
  have nz: "(of_nat (bno i) :: u32) \<noteq> 0"
    by (rule of_nat_neq_0_word) (use b fs_okD(3) [OF ok] in auto)
  have "file_map_block dir (of_nat i) True s = Done (Inr (of_nat (bno i))) s"
    using ldw_run [OF fr(1)] fr(2) nz k
    by (simp add: file_map_block_def file_block_walk_def run_rules del: word_of_nat_eq_0_iff)
  with read_cached [OF ok b(2,3,4)] show ?thesis
    by (simp add: file_get_block_def run_rules)
qed

lemma dir_scan_run:
  assumes ok: "fs_ok n s" and dir: "dir_cached n s dir m bno" and len: "length name < 128" and "i0 \<le> m"
  shows "dir_scan [i0..<m] dir name s =
     (case find (entry_named s bno name) (List.product [i0..<m] [0..<16]) of
        None \<Rightarrow> Done (Inl E_NOT_FOUND) s
      | Some e \<Rightarrow> seqK (stw (f_dir (entry_addr bno e)) dir) (retK (Inr (entry_addr bno e))) s)"
  using assms(4)
proof (induction "m - i0" arbitrary: i0)
  case 0
  then show ?case by (simp add: run_rules)
next
  case (Suc d)
  then have i: "i0 < m" by simp
  let ?blk = "diskaddr (of_nat (bno i0))"
  from dir i obtain fr where b: "bno i0 < n" "upages s (0x10000 + bno i0) = Some fr" by (auto simp: dir_cached_def)
  then have n: "bno i0 < 0x40000" using fs_okD(3) [OF ok] by simp
  have v: "VPN ?blk = 0x10000 + bno i0" using n by (simp add: VPN_diskaddr)
  have "unat ?blk = 4096 * (0x10000 + bno i0)"
    using n by (simp add: diskaddr_def DISKMAP_def BY2BLK_def BY2PG_def unat_word_ariths unat_of_nat take_bit_eq_mod)
  then have bi: "bidx ?blk = 0" by (simp add: bidx_def)
  have scan: "scan_names 16 name ?blk s =
     Done (map_option (\<lambda>i. ?blk + 256 * of_nat i) (find (\<lambda>i. name_at fr (256 * i) name) [0..<16])) s"
    using scan_names_run [of s ?blk fr name 0 16] b v bi len by simp
  have up: "[i0..<m] = i0 # [Suc i0..<m]" using i by (simp add: upt_conv_Cons)
  have find_app: "find P (xs @ ys) = (case find P xs of None \<Rightarrow> find P ys | Some x \<Rightarrow> Some x)"
    for P :: "nat \<times> nat \<Rightarrow> bool" and xs ys by (induction xs) auto
  have find_map: "find P (map f xs) = map_option f (find (P \<circ> f) xs)"
    for P :: "nat \<times> nat \<Rightarrow> bool" and f :: "nat \<Rightarrow> nat \<times> nat" and xs by (induction xs) auto
  have comp: "entry_named s bno name \<circ> Pair i0 = (\<lambda>j. name_at fr (256 * j) name)"
    using b by (simp add: entry_named_def fun_eq_iff)
  have IH: "dir_scan [Suc i0..<m] dir name s =
     (case find (entry_named s bno name) (List.product [Suc i0..<m] [0..<16]) of
        None \<Rightarrow> Done (Inl E_NOT_FOUND) s
      | Some e \<Rightarrow> seqK (stw (f_dir (entry_addr bno e)) dir) (retK (Inr (entry_addr bno e))) s)"
    by (rule Suc.hyps(1)) (use Suc i in simp_all)
  show ?case
    unfolding up dir_scan.simps product.simps find_app find_map comp run_try get_cached_block [OF ok dir i]
      outcome.case sum.case run_bind scan
    by (cases "find (\<lambda>j. name_at fr (256 * j) name) [0..<16]") (simp_all add: IH entry_addr_def)
qed

text \<open>
  \<^verbatim>\<open>dir_lookup\<close> in a directory whose blocks are in the cache goes through all its
  file structures, block by block and in order within a block, and returns the address of the first
  whose name is exactly the given one, after recording the directory in it; when none has the name
  it returns \<^verbatim>\<open>-E_NOT_FOUND\<close> and changes nothing.
\<close>
theorem dir_lookup_first:
  assumes "fs_ok n s" "dir_cached n s dir m bno" "length name < MAXNAMELEN"
  shows "dir_lookup dir name s =
     (case find (entry_named s bno name) (List.product [0..<m] [0..<16]) of
        None \<Rightarrow> Done (Inl E_NOT_FOUND) s
      | Some e \<Rightarrow> seqK (stw (f_dir (entry_addr bno e)) dir) (retK (Inr (entry_addr bno e))) s)"
proof -
  from assms(2) obtain fr where fr: "upages s (VPN (f_size dir)) = Some fr"
    "fr (widx (f_size dir)) = 4096 * of_nat m" and m: "m \<le> 10" by (auto simp: dir_cached_def)
  have "unat ((4096 * of_nat m :: u32) div BY2BLK) = m"
    using m by (simp add: BY2BLK_def BY2PG_def unat_div unat_word_ariths unat_of_nat take_bit_eq_mod)
  with dir_scan_run [OF assms(1,2), of name 0] assms(3) ldw_run [OF fr(1)] fr(2) show ?thesis
    by (simp add: dir_lookup_def run_rules MAXNAMELEN_def)
qed

section \<open>An example\<close>

text \<open>The small disk with a root directory of one block that holds the files \<^verbatim>\<open>a\<close> and \<^verbatim>\<open>b\<close>.\<close>

definition root_frame :: frame where
  "root_frame = tiny_super(34 := 4096, 36 := 4)"

definition names_frame :: frame where
  "names_frame k = (if k = 0 then 0x61 else if k = 64 then 0x62 else 0)"

definition tiny_root :: fsys where
  "tiny_root = tiny_fs\<lparr>upages := (upages tiny_fs)(0x10001 \<mapsto> root_frame, 0x10004 \<mapsto> names_frame)\<rparr>"

definition root_dir :: u32 where "root_dir = diskaddr 1 + 8"

lemma tiny_root_ok: "fs_ok 8 tiny_root"
  by (simp add: fs_ok_def tiny_root_def tiny_fs_def VPN_super BM_VPN_def tiny_super_def root_frame_def)

lemma tiny_root_free: "free_blocks 8 tiny_root = {5, 6, 7}"
proof -
  have "free_blocks 8 tiny_root = free_blocks 8 tiny_fs"
    by (rule free_blocks_cong) (simp add: tiny_root_def BM_VPN_def)
  then show ?thesis by (simp add: tiny_free)
qed

lemma root_fields:
  "VPN (f_size root_dir) = 0x10001" "widx (f_size root_dir) = 34"
  "VPN (f_direct root_dir 0) = 0x10001" "widx (f_direct root_dir 0) = 36"
  by (simp_all add: root_dir_def f_size_def f_direct_def diskaddr_def DISKMAP_def BY2BLK_def BY2PG_def VPN_alt widx_def)

lemma tiny_root_dir: "dir_cached 8 tiny_root root_dir 1 (\<lambda>_. 4)"
  by (simp add: dir_cached_def root_fields tiny_root_free) (simp add: tiny_root_def root_frame_def)

theorem dir_lookup_first_witness:
  "\<exists>t. dir_lookup root_dir [0x62] tiny_root = Done (Inr (diskaddr 4 + 256)) t \<and>
     (\<exists>fr. upages t 0x10004 = Some fr \<and> fr 109 = root_dir)"
proof -
  have nm: "name_at names_frame 0 [0x62] = False" "name_at names_frame 256 [0x62] = True"
    by (simp_all add: name_at_Cons name_at_Nil frame_byte_def byte_of_def names_frame_def)
  have pg: "upages tiny_root 0x10004 = Some names_frame" by (simp add: tiny_root_def)
  have "[0..<16] = 0 # 1 # [2..<16]" by (simp add: upt_conv_Cons)
  then have f: "find (entry_named tiny_root (\<lambda>_. 4) [0x62]) (List.product [0..<1] [0..<16]) = Some (0, 1)"
    by (simp add: entry_named_def nm pg)
  have v: "VPN (f_dir (diskaddr 4 + 256)) = 0x10004" "widx (f_dir (diskaddr 4 + 256)) = 109"
    by (simp_all add: f_dir_def diskaddr_def DISKMAP_def BY2BLK_def BY2PG_def VPN_alt widx_def)
  have "dir_lookup root_dir [0x62] tiny_root =
      seqK (stw (f_dir (diskaddr 4 + 256)) root_dir) (retK (Inr (diskaddr 4 + 256))) tiny_root"
    using dir_lookup_first [OF tiny_root_ok tiny_root_dir, of "[0x62]"]
    unfolding f by (simp add: entry_addr_def MAXNAMELEN_def)
  moreover have "stw (f_dir (diskaddr 4 + 256)) root_dir tiny_root =
      Done () (tiny_root\<lparr>upages := (upages tiny_root)(0x10004 := Some (names_frame(109 := root_dir)))\<rparr>)"
    using stw_run [of tiny_root "f_dir (diskaddr 4 + 256)" names_frame root_dir] by (simp add: v pg)
  ultimately show ?thesis by (simp add: run_rules)
qed

end
