(* ===== verification/Fs_Trunc.thy ===== *)
theory Fs_Trunc
  imports Fs_Thms
begin

text \<open>
  Giving back the blocks of a file: \<^verbatim>\<open>file_clear_block\<close> and \<^verbatim>\<open>file_truncate\<close> of \<^verbatim>\<open>fs/fs.c\<close> in terms of
  the numbers that a file's direct and indirect slots hold.
\<close>

section \<open>A file structure in the cache\<close>

definition fword :: "fsys \<Rightarrow> nat \<Rightarrow> nat \<Rightarrow> u32" where
  "fword s p i = the (upages s p) i"

definition put_word :: "nat \<Rightarrow> nat \<Rightarrow> u32 \<Rightarrow> fsys \<Rightarrow> fsys" where
  "put_word p i x s = s\<lparr>upages := (upages s)(p := Some ((the (upages s p))(i := x)))\<rparr>"

definition word_addr :: "nat \<Rightarrow> nat \<Rightarrow> u32" where
  "word_addr p i = of_nat (4096 * p + 4 * i)"

lemma word_addr_page:
  assumes "p < 0x100000" "i < 1024"
  shows "VPN (word_addr p i) = p" "widx (word_addr p i) = i"
proof -
  have u: "unat (word_addr p i) = 4 * i + 4096 * p"
    unfolding word_addr_def using assms by (subst unat_of_nat_len) auto
  show "VPN (word_addr p i) = p" "widx (word_addr p i) = i"
    using assms(2) by (simp_all add: VPN_alt widx_def u)
qed

lemma ldw_word: "p < 0x100000 \<Longrightarrow> i < 1024 \<Longrightarrow> upages s p \<noteq> None \<Longrightarrow> ldw (word_addr p i) s = Done (fword s p i) s"
  using ldw_run [of s "word_addr p i"] by (auto simp: word_addr_page fword_def)

lemma stw_word: "p < 0x100000 \<Longrightarrow> i < 1024 \<Longrightarrow> upages s p \<noteq> None \<Longrightarrow> stw (word_addr p i) x s = Done () (put_word p i x s)"
  using stw_run [of s "word_addr p i"] by (auto simp: word_addr_page put_word_def)

lemma put_word_simps [simp]:
  "fword (put_word p i x s) q j = (if q = p \<and> j = i then x else fword s q j)"
  "upages (put_word p i x s) q = None \<longleftrightarrow> q \<noteq> p \<and> upages s q = None"
  "q \<noteq> p \<Longrightarrow> upages (put_word p i x s) q = upages s q"
  "disk (put_word p i x s) = disk s" "super (put_word p i x s) = super s" "bitmap (put_word p i x s) = bitmap s"
  by (auto simp: put_word_def fword_def)

text \<open>The pages of the bitmap.\<close>

definition bm_pages :: "nat \<Rightarrow> nat set" where
  "bm_pages n = {BM_VPN..BM_VPN + n div 32768}"

lemma free_blocks_put: "p \<notin> bm_pages n \<Longrightarrow> free_blocks n (put_word p i x s) = free_blocks n s"
  by (rule free_blocks_cong) (auto simp: bm_pages_def)

lemma fs_ok_put: "fs_ok n s \<Longrightarrow> p \<notin> bm_pages n \<Longrightarrow> p = 0x10001 \<longrightarrow> i \<noteq> 1 \<Longrightarrow> fs_ok n (put_word p i x s)"
  by (auto simp: fs_ok_def bm_pages_def VPN_super put_word_def)

lemma mark_free_page:
  assumes "b < n" "q \<notin> bm_pages n"
  shows "upages (mark_free b s) q = upages s q" "fword (mark_free b s) q i = fword s q i"
proof -
  have "b div 32 div 1024 \<le> n div 32768" using assms(1) by (simp add: div_mult2_eq [symmetric] div_le_mono)
  then show "upages (mark_free b s) q = upages s q" using assms(2) by (auto simp: mark_free_def set_bm_def bm_pages_def)
  then show "fword (mark_free b s) q i = fword s q i" by (simp add: fword_def)
qed

lemma mark_free_simps [simp]: "disk (mark_free b s) = disk s"
  by (simp add: mark_free_def set_bm_def)

lemma mark_free_mapped: "upages s q \<noteq> None \<Longrightarrow> upages (mark_free b s) q \<noteq> None"
  by (simp add: mark_free_def set_bm_def)

lemma fs_ok_mark_free: "fs_ok n s \<Longrightarrow> fs_ok n (mark_free b s)"
  by (simp add: mark_free_def fs_ok_set)

text \<open>
  The structure at \<open>f\<close> begins at word \<open>w\<close> of the page \<open>p\<close>; \<open>ib\<close> is its indirect block, 0 when it has
  none, in the cache and used by nothing else.
\<close>

definition slot :: "nat \<Rightarrow> nat \<Rightarrow> nat \<Rightarrow> fsys \<Rightarrow> nat \<Rightarrow> u32" where
  "slot p w ib s k =
     (if k < 10 then fword s p (w + 34 + k)
      else if ib = 0 \<or> 1024 \<le> k then 0 else fword s (0x10000 + ib) k)"

definition file_struct :: "nat \<Rightarrow> u32 \<Rightarrow> nat \<Rightarrow> nat \<Rightarrow> nat \<Rightarrow> fsys \<Rightarrow> bool" where
  "file_struct n f p w ib s \<longleftrightarrow> fs_ok n s \<and> f = word_addr p w \<and> p < 0x100000 \<and> w + 64 \<le> 1024 \<and> upages s p \<noteq> None \<and>
     p \<notin> bm_pages n \<and> fword s p (w + 44) = of_nat ib \<and>
     (ib \<noteq> 0 \<longrightarrow> 2 \<le> ib \<and> ib < n \<and> ib \<notin> free_blocks n s \<and> upages s (0x10000 + ib) \<noteq> None \<and> 0x10000 + ib \<noteq> p \<and>
        0x10000 + ib \<notin> bm_pages n \<and> (\<forall>k. slot p w ib s k \<noteq> of_nat ib))"

lemma file_fields:
  assumes "f = word_addr p w"
  shows "f_size f = word_addr p (w + 32)" "f_indirect f = word_addr p (w + 44)"
    "f_direct f k = word_addr p (w + 34 + unat k)"
  using assms by (simp_all add: f_size_def f_indirect_def f_direct_def word_addr_def)

lemma file_block_walk_run:
  assumes s: "file_struct n f p w ib s" and k: "k < 2 ^ 32"
  shows "file_block_walk f (of_nat k) False s =
    (if k < 10 then Done (Inr (word_addr p (w + 34 + k))) s
     else if 1024 \<le> k then Done (Inl E_INVAL) s
     else if ib = 0 then Done (Inl E_NOT_FOUND) s
     else Done (Inr (word_addr (0x10000 + ib) k)) s)"
proof -
  note h = s [unfolded file_struct_def]
  have c: "(of_nat k :: u32) < NDIRECT \<longleftrightarrow> k < 10" "(of_nat k :: u32) < NINDIRECT \<longleftrightarrow> k < 1024"
    using k by (simp_all add: word_less_nat_alt NDIRECT_def NINDIRECT_def BY2BLK_def BY2PG_def unat_of_nat_len)
  have ind: "ldw (f_indirect f) s = Done (of_nat ib) s"
    using h ldw_word [of p "w + 44" s] by (simp add: file_fields)
  show ?thesis
  proof (cases "10 \<le> k \<and> k < 1024 \<and> ib \<noteq> 0")
    case True
    then have ib: "ib < n" "ib \<notin> free_blocks n s" "upages s (0x10000 + ib) \<noteq> None" "ib < 0x40000"
      using h fs_okD(3) [of n s] by auto
    have rb: "read_block (of_nat ib) s = Done (Inr (diskaddr (of_nat ib), False)) s"
    proof -
      have ok: "fs_ok n s" using h by blast
      have nz: "(of_nat n :: u32) \<le> of_nat ib \<longleftrightarrow> False"
        using of_nat_less_n [of ib n] ib(1, 4) fs_okD(3) [OF ok] by (simp add: not_le)
      show ?thesis
        using ib s_nblocks_run [OF ok] block_is_free_run [OF ok, of ib] fs_okD [OF ok] nz VPN_diskaddr [of ib]
        by (simp add: read_block_def run_rules block_is_mapped_def va_is_mapped_def)
    qed
    have "diskaddr (of_nat ib) + 4 * of_nat k = word_addr (0x10000 + ib) k"
      by (simp add: diskaddr_def DISKMAP_def BY2BLK_def BY2PG_def word_addr_def algebra_simps)
    moreover have "(of_nat ib :: u32) \<noteq> 0" using True ib(4) by (intro of_nat_neq_0_word) auto
    ultimately show ?thesis
      using True c ind rb by (simp add: file_block_walk_def run_rules del: word_of_nat_eq_0_iff)
  next
    case False
    have "unat (of_nat k :: u32) = k" using k by (simp add: unat_of_nat_len)
    moreover have "ib = 0 \<Longrightarrow> (of_nat ib :: u32) = 0" by simp
    ultimately show ?thesis
      using False c ind h by (auto simp: file_block_walk_def run_rules file_fields)
  qed
qed

section \<open>Clearing one slot\<close>

definition slot_page :: "nat \<Rightarrow> nat \<Rightarrow> nat \<Rightarrow> nat" where
  "slot_page p ib k = (if k < 10 then p else 0x10000 + ib)"

definition slot_index :: "nat \<Rightarrow> nat \<Rightarrow> nat" where
  "slot_index w k = (if k < 10 then w + 34 + k else k)"

definition freed :: "nat \<Rightarrow> u32 \<Rightarrow> nat set" where
  "freed n v = {b. 0 < b \<and> b < n \<and> v = of_nat b}"

definition clear_slot :: "nat \<Rightarrow> nat \<Rightarrow> nat \<Rightarrow> nat \<Rightarrow> nat \<Rightarrow> fsys \<Rightarrow> fsys" where
  "clear_slot n p w ib k s = (let v = slot p w ib s k in
     if v = 0 then s
     else put_word (slot_page p ib k) (slot_index w k) 0 (if n \<le> unat v then s else mark_free (unat v) s))"

lemma free_block_word:
  assumes "fs_ok n s" "v \<noteq> 0"
  shows "free_block v s = Done () (if n \<le> unat v then s else mark_free (unat v) s)"
proof -
  have "unat v < 2 ^ 32" using unsigned_less [of v, where ?'a = nat] by simp
  then show ?thesis
    using free_block_run [OF assms(1), of "unat v"] assms(2) by (auto simp: unsigned_eq_0_iff)
qed

lemma file_clear_block_run:
  assumes s: "file_struct n f p w ib s" and k: "k < 2 ^ 32"
  shows "\<exists>r. file_clear_block f (of_nat k) s = Done r (clear_slot n p w ib k s)"
proof (cases "k < 10 \<or> k < 1024 \<and> ib \<noteq> 0")
  case False
  then have "slot p w ib s k = 0" by (auto simp: slot_def)
  then show ?thesis using False file_block_walk_run [OF s k]
    by (auto simp: file_clear_block_def run_rules clear_slot_def)
next
  case True
  note h = s [unfolded file_struct_def]
  let ?q = "slot_page p ib k" and ?i = "slot_index w k" and ?v = "slot p w ib s k"
  have ok: "fs_ok n s" using h by blast
  have q: "?q < 0x100000" "?i < 1024" "upages s ?q \<noteq> None"
    using True h fs_okD(3) [OF ok] by (auto simp: slot_page_def slot_index_def)
  have walk: "file_block_walk f (of_nat k) False s = Done (Inr (word_addr ?q ?i)) s"
    using True file_block_walk_run [OF s k] by (auto simp: slot_page_def slot_index_def)
  have v: "fword s ?q ?i = ?v" using True by (auto simp: slot_page_def slot_index_def slot_def)
  have "upages (if n \<le> unat ?v then s else mark_free (unat ?v) s) ?q \<noteq> None"
    using q(3) mark_free_mapped by auto
  note st = stw_word [OF q(1, 2) this]
  show ?thesis
    using walk ldw_word [OF q] v free_block_word [OF ok, of ?v] st
    by (auto simp: file_clear_block_def run_rules clear_slot_def Let_def)
qed

lemma unat_pos: "v \<noteq> 0 \<Longrightarrow> 0 < unat v"
  by (metis gr0I unsigned_eq_0_iff)

lemma freed_small: "n \<le> 0x40000 \<Longrightarrow> freed n v = (if v = 0 \<or> n \<le> unat v then {} else {unat v})"
  using of_nat_neq_0_word unat_pos [of v]
  by (auto simp: freed_def unat_of_nat_len unsigned_eq_0_iff simp del: word_of_nat_eq_0_iff)

lemma slot_pages:
  assumes "file_struct n f p w ib s" "slot p w ib s k \<noteq> 0"
  shows "slot_page p ib k \<notin> bm_pages n" "slot_page p ib k = 0x10001 \<longrightarrow> slot_index w k \<noteq> 1"
    "k < 1024" "ib = 0 \<longrightarrow> k < 10" "upages s (slot_page p ib k) \<noteq> None"
  using assms unfolding file_struct_def by (auto simp: slot_page_def slot_index_def slot_def split: if_splits)

lemma clear_slot_fields:
  assumes s: "file_struct n f p w ib s"
  shows "slot p w ib (clear_slot n p w ib k s) j = (if j = k then 0 else slot p w ib s j)"
    "free_blocks n (clear_slot n p w ib k s) = free_blocks n s \<union> freed n (slot p w ib s k)"
    "disk (clear_slot n p w ib k s) = disk s" "fs_ok n (clear_slot n p w ib k s)"
    "q \<notin> bm_pages n \<Longrightarrow> q \<noteq> p \<Longrightarrow> ib = 0 \<or> q \<noteq> 0x10000 + ib \<Longrightarrow> upages (clear_slot n p w ib k s) q = upages s q"
    "upages s q \<noteq> None \<Longrightarrow> upages (clear_slot n p w ib k s) q \<noteq> None"
    "i < 34 \<or> i = 44 \<Longrightarrow> fword (clear_slot n p w ib k s) p (w + i) = fword s p (w + i)"
proof -
  note h = s [unfolded file_struct_def]
  let ?v = "slot p w ib s k" and ?t = "clear_slot n p w ib k s"
  let ?s = "if n \<le> unat ?v then s else mark_free (unat ?v) s"
  have ok: "fs_ok n s" "fs_ok n ?s" using h fs_ok_mark_free by auto
  have p: "p \<notin> bm_pages n" "ib \<noteq> 0 \<Longrightarrow> 0x10000 + ib \<notin> bm_pages n \<and> 0x10000 + ib \<noteq> p" using h by auto
  have "slot p w ib ?t j = (if j = k then 0 else slot p w ib s j) \<and>
    free_blocks n ?t = free_blocks n s \<union> freed n ?v \<and> disk ?t = disk s \<and> fs_ok n ?t \<and>
    (q \<notin> bm_pages n \<longrightarrow> q \<noteq> p \<longrightarrow> ib = 0 \<or> q \<noteq> 0x10000 + ib \<longrightarrow> upages ?t q = upages s q) \<and>
    (upages s q \<noteq> None \<longrightarrow> upages ?t q \<noteq> None) \<and>
    (i < 34 \<or> i = 44 \<longrightarrow> fword ?t p (w + i) = fword s p (w + i))"
  proof (cases "?v = 0")
    case True
    then have "freed n ?v = {}" by (simp add: freed_small [OF fs_okD(3) [OF ok(1)]])
    then show ?thesis using True ok(1) by (simp add: clear_slot_def)
  next
    case False
    let ?q = "slot_page p ib k" and ?i = "slot_index w k"
    note sp = slot_pages [OF s False]
    have t: "?t = put_word ?q ?i 0 ?s" using False by (simp add: clear_slot_def Let_def)
    have up: "upages ?s q' = upages s q'" "fword ?s q' i' = fword s q' i'" if "q' \<notin> bm_pages n" for q' i'
      using mark_free_page [of "unat ?v" n q' s] that by (simp_all add: not_le)
    have sl: "slot p w ib ?s j = slot p w ib s j" using p up(2) by (auto simp: slot_def)
    have "slot p w ib ?t j = (if j = k then 0 else slot p w ib ?s j)"
      unfolding t using p(2) sp(3, 4) by (auto simp: slot_def slot_page_def slot_index_def)
    moreover have "free_blocks n ?t = free_blocks n s \<union> freed n ?v"
      unfolding t free_blocks_put [OF sp(1)] freed_small [OF fs_okD(3) [OF ok(1)]]
      using False free_blocks_mark_free [of "unat ?v" n s] by auto
    moreover have "disk ?t = disk s" by (simp add: t)
    moreover have "fs_ok n ?t" unfolding t using ok(2) sp(1, 2) by (rule fs_ok_put)
    moreover have "upages ?t q = upages s q" if "q \<notin> bm_pages n" "q \<noteq> p" "ib = 0 \<or> q \<noteq> 0x10000 + ib"
    proof -
      have "q \<noteq> ?q" using that sp(4) by (auto simp: slot_page_def)
      then show ?thesis unfolding t using up(1) [OF that(1)] by simp
    qed
    moreover have "upages ?t q \<noteq> None" if "upages s q \<noteq> None"
      unfolding t using that mark_free_mapped by simp
    moreover have "fword ?t p (w + i) = fword s p (w + i)" if "i < 34 \<or> i = 44"
      unfolding t using that up(2) [OF p(1)] p(2) sp(4) by (auto simp: slot_page_def slot_index_def)
    ultimately show ?thesis using sl by simp
  qed
  then show "slot p w ib ?t j = (if j = k then 0 else slot p w ib s j)"
    "free_blocks n ?t = free_blocks n s \<union> freed n ?v" "disk ?t = disk s" "fs_ok n ?t"
    "q \<notin> bm_pages n \<Longrightarrow> q \<noteq> p \<Longrightarrow> ib = 0 \<or> q \<noteq> 0x10000 + ib \<Longrightarrow> upages ?t q = upages s q"
    "upages s q \<noteq> None \<Longrightarrow> upages ?t q \<noteq> None"
    "i < 34 \<or> i = 44 \<Longrightarrow> fword ?t p (w + i) = fword s p (w + i)"
    by blast+
qed

lemma clear_slot_struct:
  assumes s: "file_struct n f p w ib s"
  shows "file_struct n f p w ib (clear_slot n p w ib k s)"
proof -
  note h = s [unfolded file_struct_def]
  have ib: "ib \<noteq> 0 \<Longrightarrow> (of_nat ib :: u32) \<noteq> 0" using h fs_okD(3) [of n s] by (intro of_nat_neq_0_word) auto
  have "ib \<noteq> 0 \<Longrightarrow> ib \<notin> freed n (slot p w ib s k)" using h by (auto simp: freed_def)
  then show ?thesis
    using h ib clear_slot_fields(4, 6, 7) [OF s]
    unfolding file_struct_def clear_slot_fields(1) [OF s] clear_slot_fields(2) [OF s] by auto
qed

section \<open>Truncation\<close>

lemma forK_snoc_run: "forK is f s = Done () t \<Longrightarrow> forK (is @ [i]) f s = f i t"
  by (induction "is" arbitrary: s) (auto simp: run_rules split: outcome.splits)

lemma clear_blocks_run:
  assumes s: "file_struct n f p w ib s" and m: "unat new \<le> m" "m \<le> 2 ^ 32"
  shows "\<exists>t. forK [unat new..<m] (\<lambda>bno. bindK (file_clear_block f (of_nat bno)) (\<lambda>_. retK ())) s = Done () t \<and>
    file_struct n f p w ib t \<and> (\<forall>k. slot p w ib t k = (if unat new \<le> k \<and> k < m then 0 else slot p w ib s k)) \<and>
    free_blocks n t = free_blocks n s \<union> (\<Union>k \<in> {unat new..<m}. freed n (slot p w ib s k)) \<and> disk t = disk s \<and>
    (\<forall>q. q \<notin> bm_pages n \<longrightarrow> q \<noteq> p \<longrightarrow> ib = 0 \<or> q \<noteq> 0x10000 + ib \<longrightarrow> upages t q = upages s q)"
  using m
proof (induction m)
  case 0
  then show ?case using s by (simp add: run_rules)
next
  case (Suc m)
  let ?f = "\<lambda>bno. bindK (file_clear_block f (of_nat bno)) (\<lambda>_. retK ())"
  show ?case
  proof (cases "unat new = Suc m")
    case True
    then show ?thesis using s by (auto simp: run_rules)
  next
    case False
    then obtain t where t: "forK [unat new..<m] ?f s = Done () t" "file_struct n f p w ib t"
        "\<forall>k. slot p w ib t k = (if unat new \<le> k \<and> k < m then 0 else slot p w ib s k)"
        "free_blocks n t = free_blocks n s \<union> (\<Union>k \<in> {unat new..<m}. freed n (slot p w ib s k))" "disk t = disk s"
        "\<forall>q. q \<notin> bm_pages n \<longrightarrow> q \<noteq> p \<longrightarrow> ib = 0 \<or> q \<noteq> 0x10000 + ib \<longrightarrow> upages t q = upages s q"
      using Suc by auto
    have m: "unat new \<le> m" "m < 2 ^ 32" using Suc.prems False by auto
    obtain r where r: "file_clear_block f (of_nat m) t = Done r (clear_slot n p w ib m t)"
      using file_clear_block_run [OF t(2) m(2)] by blast
    have sm: "slot p w ib t m = slot p w ib s m" using t(3) by simp
    have "forK [unat new..<Suc m] ?f s = Done () (clear_slot n p w ib m t)"
      using forK_snoc_run [OF t(1)] r m(1) by (simp add: run_rules)
    moreover have "{unat new..<Suc m} = insert m {unat new..<m}" using m(1) by auto
    ultimately show ?thesis
      using m(1) clear_slot_struct [OF t(2), of m] clear_slot_fields(1-3, 5) [OF t(2), where k = m] t(3-6) sm
      by (intro exI [of _ "clear_slot n p w ib m t"] conjI) (simp_all add: less_Suc_eq ac_simps)
  qed
qed

lemma file_struct_put:
  assumes s: "file_struct n f p w ib s" and i: "i = 32 \<or> i = 44 \<and> x = of_nat ib"
  shows "file_struct n f p w ib (put_word p (w + i) x s)" "slot p w ib (put_word p (w + i) x s) = slot p w ib s"
    "free_blocks n (put_word p (w + i) x s) = free_blocks n s"
proof -
  note h = s [unfolded file_struct_def]
  show sl: "slot p w ib (put_word p (w + i) x s) = slot p w ib s"
    using h i by (auto simp: slot_def fun_eq_iff)
  show fb: "free_blocks n (put_word p (w + i) x s) = free_blocks n s" using h by (intro free_blocks_put) blast
  have "fs_ok n (put_word p (w + i) x s)" using h i by (intro fs_ok_put) auto
  then show "file_struct n f p w ib (put_word p (w + i) x s)"
    unfolding file_struct_def sl fb using h i by auto
qed

text \<open>The end of truncation to at most ten blocks: the indirect block goes.\<close>

definition drop_indirect :: "nat \<Rightarrow> nat \<Rightarrow> nat \<Rightarrow> nat \<Rightarrow> fsys \<Rightarrow> fsys" where
  "drop_indirect n p w ib s = (if ib = 0 then s else put_word p (w + 44) 0 (mark_free ib s))"

lemma drop_indirect_run:
  assumes s: "file_struct n f p w ib s"
  shows "bindK (ldw (f_indirect f)) (\<lambda>ind. if ind \<noteq> 0 then seqK (free_block ind) (stw (f_indirect f) 0) else retK ()) s =
    Done () (drop_indirect n p w ib s)"
proof -
  note h = s [unfolded file_struct_def]
  have ok: "fs_ok n s" using h by blast
  have l: "ldw (f_indirect f) s = Done (of_nat ib) s"
    using h ldw_word [of p "w + 44" s] by (simp add: file_fields)
  show ?thesis
  proof (cases "ib = 0")
    case True
    then show ?thesis using l by (simp add: run_rules drop_indirect_def)
  next
    case False
    have ib: "ib < n" "ib < 2 ^ 32" using False h fs_okD(3) [OF ok] by auto
    have nz: "(of_nat ib :: u32) \<noteq> 0" using False ib(2) by (rule of_nat_neq_0_word)
    have "upages (mark_free ib s) p \<noteq> None" using h mark_free_mapped by blast
    then have "stw (f_indirect f) 0 (mark_free ib s) = Done () (put_word p (w + 44) 0 (mark_free ib s))"
      using h stw_word [of p "w + 44" "mark_free ib s"] by (simp add: file_fields)
    then show ?thesis
      using False ib nz l free_block_run [OF ok ib(2)] by (simp add: run_rules drop_indirect_def del: word_of_nat_eq_0_iff)
  qed
qed

lemma drop_indirect_fields:
  assumes s: "file_struct n f p w ib s"
  shows "file_struct n f p w 0 (drop_indirect n p w ib s)"
    "slot p w 0 (drop_indirect n p w ib s) k = (if k < 10 then slot p w ib s k else 0)"
    "free_blocks n (drop_indirect n p w ib s) = free_blocks n s \<union> (if ib = 0 then {} else {ib})"
    "disk (drop_indirect n p w ib s) = disk s"
    "q \<notin> bm_pages n \<Longrightarrow> q \<noteq> p \<Longrightarrow> upages (drop_indirect n p w ib s) q = upages s q"
proof -
  note h = s [unfolded file_struct_def]
  let ?t = "drop_indirect n p w ib s"
  have ib: "ib \<noteq> 0 \<Longrightarrow> ib < n" and p: "p \<notin> bm_pages n" using h by auto
  have up: "ib \<noteq> 0 \<Longrightarrow> upages (mark_free ib s) q = upages s q" if "q \<notin> bm_pages n" for q
    using mark_free_page(1) [OF ib that] .
  have fw: "ib \<noteq> 0 \<Longrightarrow> fword (mark_free ib s) p i = fword s p i" for i using mark_free_page(2) [OF ib p] .
  show fb: "free_blocks n ?t = free_blocks n s \<union> (if ib = 0 then {} else {ib})"
    using free_blocks_put [OF p] free_blocks_mark_free [OF ib] by (auto simp: drop_indirect_def)
  show "slot p w 0 ?t k = (if k < 10 then slot p w ib s k else 0)"
    using fw by (auto simp: drop_indirect_def slot_def)
  show "disk ?t = disk s" by (simp add: drop_indirect_def)
  show "upages ?t q = upages s q" if "q \<notin> bm_pages n" "q \<noteq> p" using up that by (simp add: drop_indirect_def)
  have "fs_ok n ?t" using h fs_ok_mark_free by (auto simp: drop_indirect_def intro!: fs_ok_put)
  moreover have "fword ?t p (w + 44) = 0" using h by (simp add: drop_indirect_def)
  moreover have "upages ?t p \<noteq> None" using h by (simp add: drop_indirect_def del: not_None_eq)
  ultimately show "file_struct n f p w 0 ?t" using h by (simp add: file_struct_def)
qed

text \<open>
  C21. \<^verbatim>\<open>file_truncate\<close> gives back exactly the blocks behind the new end: the free blocks afterwards are
  those before, the blocks in the slots from the new number of blocks to the old one, and the
  indirect block when at most ten blocks stay. The slots that stay keep their blocks, the others are
  empty, the size is the new one, and no page of another block and no block on disk changes.
\<close>

theorem file_truncate_frees:
  assumes s: "file_struct n f p w ib s"
    and new: "new = (if newsize = 0 then 0 else unat newsize div 4096 + 1)" and old: "old = unat (fword s p (w + 32)) div 4096 + 1"
    and ib': "ib' = (if new \<le> 10 then 0 else ib)"
  shows "\<exists>t. file_truncate f newsize s = Done () t \<and> file_struct n f p w ib' t \<and> fword t p (w + 32) = newsize \<and>
    free_blocks n t = free_blocks n s \<union> (\<Union>k \<in> {new..<old}. freed n (slot p w ib s k)) \<union> {b. b = ib \<and> ib \<noteq> ib'} \<and>
    (\<forall>k < new. slot p w ib' t k = slot p w ib s k) \<and> (\<forall>k. new \<le> k \<and> k < old \<longrightarrow> slot p w ib' t k = 0) \<and> disk t = disk s \<and>
    (\<forall>q. q \<notin> bm_pages n \<longrightarrow> q \<noteq> p \<longrightarrow> ib = 0 \<or> q \<noteq> 0x10000 + ib \<longrightarrow> upages t q = upages s q)"
proof -
  note h = s [unfolded file_struct_def]
  let ?sz = "fword s p (w + 32)"
  let ?new = "if newsize = 0 then 0 else newsize div BY2BLK + 1" and ?old = "?sz div BY2BLK + 1"
  have div: "unat (x div BY2BLK + 1) = unat x div 4096 + 1" for x :: u32
  proof -
    have "unat x < 2 ^ 32" using unsigned_less [of x, where ?'a = nat] by simp
    then have "unat (x div BY2BLK) + 1 < 2 ^ 32" by (simp add: BY2BLK_def BY2PG_def unat_div)
    then show ?thesis using unat_add_nat [of "x div BY2BLK" 1] by (simp add: BY2BLK_def BY2PG_def unat_div)
  qed
  have un: "unat ?new = new" "unat ?old = old" using div new old by simp_all
  let ?m = "max new old"
  have m: "unat ?new \<le> ?m" "?m \<le> 2 ^ 32"
    using un unsigned_less [of ?new, where ?'a = nat] unsigned_less [of ?old, where ?'a = nat] by auto
  obtain t where t: "forK [new..<?m] (\<lambda>bno. bindK (file_clear_block f (of_nat bno)) (\<lambda>_. retK ())) s = Done () t"
      "file_struct n f p w ib t" "\<forall>k. slot p w ib t k = (if new \<le> k \<and> k < ?m then 0 else slot p w ib s k)"
      "free_blocks n t = free_blocks n s \<union> (\<Union>k \<in> {new..<?m}. freed n (slot p w ib s k))" "disk t = disk s"
      "\<forall>q. q \<notin> bm_pages n \<longrightarrow> q \<noteq> p \<longrightarrow> ib = 0 \<or> q \<noteq> 0x10000 + ib \<longrightarrow> upages t q = upages s q"
    using clear_blocks_run [OF s m] unfolding un by blast
  have range: "[new..<?m] = [new..<old]" "{new..<?m} = {new..<old}" by (auto simp: max_def)
  have clear: "clear_blocks f ?new ?old s = Done () t"
    using t(1) unfolding clear_blocks_def un range(1) .
  have le: "?new \<le> NDIRECT \<longleftrightarrow> new \<le> 10" using un(1) by (simp add: word_le_nat_alt NDIRECT_def)
  define u where "u = (if new \<le> 10 then drop_indirect n p w ib t else t)"
  have u: "file_struct n f p w ib' u" "disk u = disk s"
    "free_blocks n u = free_blocks n t \<union> {b. b = ib \<and> ib \<noteq> ib'}"
    "\<And>k. k < new \<Longrightarrow> slot p w ib' u k = slot p w ib s k" "\<And>k. new \<le> k \<Longrightarrow> k < old \<Longrightarrow> slot p w ib' u k = 0"
    "\<And>q. q \<notin> bm_pages n \<Longrightarrow> q \<noteq> p \<Longrightarrow> ib = 0 \<or> q \<noteq> 0x10000 + ib \<Longrightarrow> upages u q = upages s q"
    using t(2-6) drop_indirect_fields [OF t(2)] ib' by (auto simp: u_def)
  have "ldw (f_size f) s = Done ?sz s" using h ldw_word [of p "w + 32" s] by (simp add: file_fields)
  moreover have "stw (f_size f) newsize u = Done () (put_word p (w + 32) newsize u)"
    using u(1) stw_word [of p "w + 32" u] unfolding file_struct_def by (simp add: file_fields)
  ultimately have "file_truncate f newsize s = Done () (put_word p (w + 32) newsize u)"
    using clear drop_indirect_run [OF t(2)] le
    by (cases "new \<le> 10") (simp_all add: file_truncate_def Let_def run_rules u_def)
  moreover have "fword (put_word p (w + 32) newsize u) p (w + 32) = newsize" by simp
  ultimately show ?thesis
    using u file_struct_put [OF u(1), of 32 newsize] t(4) range(2)
    by (intro exI [of _ "put_word p (w + 32) newsize u"]) auto
qed

text \<open>
  A disk of eight blocks, of which 5 is free. The file at the start of block 4 has 5000 bytes in the
  blocks 6 and 7 and an empty indirect block 3; 100 bytes stay.
\<close>

definition trunc_fs :: fsys where
  "trunc_fs = \<lparr>upages = Map.empty(0x10001 \<mapsto> tiny_super, 0x10002 \<mapsto> (\<lambda>k. if k = 0 then 0x20 else 0), 0x10003 \<mapsto> (\<lambda>_. 0),
       0x10004 \<mapsto> (\<lambda>k. if k = 32 then 5000 else if k = 34 then 6 else if k = 35 then 7 else if k = 44 then 3 else 0)),
     udirty = (\<lambda>_. False), mem_left = 16, super = diskaddr 1, bitmap = diskaddr 2, disk = (\<lambda>_ _. 0)\<rparr>"

lemma trunc_free: "free_blocks 8 trunc_fs = {5}"
proof -
  have "bm_word trunc_fs 0 = 0x20" by (simp add: bm_word_def trunc_fs_def BM_VPN_def)
  then have "bitmap_bit (bm_word trunc_fs) b \<longleftrightarrow> bit (0x20 :: u32) b" if "b < 8" for b
    using that by (simp add: bitmap_bit_def)
  moreover have "bit (0x20 :: u32) b \<longleftrightarrow> b = 5" if "b < 8" for b
    using that by (auto simp: bit_numeral_rec less_Suc_eq numeral_eq_Suc)
  ultimately show ?thesis by (auto simp: free_blocks_def)
qed

lemma trunc_slots: "slot 0x10004 0 3 trunc_fs k = (if k = 0 then 6 else if k = 1 then 7 else 0)"
  by (simp add: slot_def fword_def trunc_fs_def)

lemma trunc_struct: "file_struct 8 (diskaddr 4) 0x10004 0 3 trunc_fs"
proof -
  have "fs_ok 8 trunc_fs" by (simp add: fs_ok_def trunc_fs_def VPN_super BM_VPN_def tiny_super_def)
  moreover have "diskaddr 4 = word_addr 0x10004 0" by (simp add: diskaddr_def DISKMAP_def BY2BLK_def BY2PG_def word_addr_def)
  moreover have "upages trunc_fs 0x10004 \<noteq> None" "upages trunc_fs 0x10003 \<noteq> None" "fword trunc_fs 0x10004 44 = 3"
    by (simp_all add: trunc_fs_def fword_def)
  ultimately show ?thesis
    by (simp add: file_struct_def trunc_free trunc_slots bm_pages_def BM_VPN_def)
qed

theorem file_truncate_frees_witness:
  "\<exists>t. file_truncate (diskaddr 4) 100 trunc_fs = Done () t \<and> free_blocks 8 t = {3, 5, 7} \<and>
    slot 0x10004 0 0 t 0 = 6 \<and> slot 0x10004 0 0 t 1 = 0"
proof -
  have sz: "fword trunc_fs 0x10004 (0 + 32) = 5000" by (simp add: trunc_fs_def fword_def)
  have new: "1 = (if (100 :: u32) = 0 then 0 else unat (100 :: u32) div 4096 + 1)" by simp
  have old: "2 = unat (fword trunc_fs 0x10004 (0 + 32)) div 4096 + 1" unfolding sz by simp
  have ib: "0 = (if (1 :: nat) \<le> 10 then 0 else 3 :: nat)" by simp
  have u: "{1..<2} = {1 :: nat}" by auto
  have f: "freed 8 (7 :: u32) = {7}" by (simp add: freed_small)
  obtain t where t: "file_truncate (diskaddr 4) 100 trunc_fs = Done () t"
      "free_blocks 8 t = free_blocks 8 trunc_fs \<union> (\<Union>k \<in> {1..<2}. freed 8 (slot 0x10004 0 3 trunc_fs k)) \<union> {b. b = 3 \<and> (3 :: nat) \<noteq> 0}"
      "\<forall>k < 1. slot 0x10004 0 0 t k = slot 0x10004 0 3 trunc_fs k" "\<forall>k. 1 \<le> k \<and> k < 2 \<longrightarrow> slot 0x10004 0 0 t k = 0"
    using file_truncate_frees [OF trunc_struct new old ib] by blast
  have "free_blocks 8 t = {3, 5, 7}" unfolding t(2) trunc_free u by (auto simp: trunc_slots f)
  moreover have "slot 0x10004 0 0 t 0 = 6" "slot 0x10004 0 0 t 1 = 0" using t(3, 4) trunc_slots by simp_all
  ultimately show ?thesis using t(1) by blast
qed

end
