(* ===== verification/Fs_Create.thy ===== *)
theory Fs_Create
  imports Fs_Dir
begin

text \<open>
  Creating a file in the root directory and finding it again, \<^verbatim>\<open>file_create\<close> and \<^verbatim>\<open>file_open\<close> of
  \<^verbatim>\<open>fs/fs.c\<close>, through the walk along the path, the search for a free file structure and the bytes of
  its name.
\<close>

section \<open>Writing a name\<close>

lemma st_string_run:
  assumes "upages s (VPN p) = Some fr" "bidx p + length name < 4096"
  shows "\<exists>fr'. st_string name p s = Done () (s\<lparr>upages := (upages s)(VPN p := Some fr')\<rparr>) \<and> name_at fr' (bidx p) name \<and>
    (\<forall>k. k < bidx p \<or> bidx p + length name < k \<longrightarrow> frame_byte fr' k = frame_byte fr k)"
  using assms
proof (induction name arbitrary: p s fr)
  case Nil
  have "st_string [] p s = Done () (s\<lparr>upages := (upages s)(VPN p := Some (set_frame_byte fr (bidx p) 0))\<rparr>)"
    using stb_run [OF Nil(1)] by simp
  moreover have "name_at (set_frame_byte fr (bidx p) 0) (bidx p) []" by (simp add: name_at_Nil)
  moreover have "\<forall>k. k < bidx p \<or> bidx p + length [] < k \<longrightarrow> frame_byte (set_frame_byte fr (bidx p) 0) k = frame_byte fr k"
    by (auto simp: frame_byte_set)
  ultimately show ?case by blast
next
  case (Cons c cs)
  have st: "VPN (p + 1) = VPN p" "bidx (p + 1) = Suc (bidx p)"
    using page_step [of p 1] Cons.prems(2) by simp_all
  let ?fr = "set_frame_byte fr (bidx p) c" and ?s = "s\<lparr>upages := (upages s)(VPN p := Some (set_frame_byte fr (bidx p) c))\<rparr>"
  have pg: "upages ?s (VPN (p + 1)) = Some ?fr" and len: "bidx (p + 1) + length cs < 4096"
    using st Cons.prems(2) by simp_all
  obtain fr' where fr': "st_string cs (p + 1) ?s = Done () (?s\<lparr>upages := (upages ?s)(VPN (p + 1) := Some fr')\<rparr>)"
      "name_at fr' (bidx (p + 1)) cs"
      "\<forall>k. k < bidx (p + 1) \<or> bidx (p + 1) + length cs < k \<longrightarrow> frame_byte fr' k = frame_byte ?fr k"
    using Cons.IH [OF pg len] by blast
  have "st_string (c # cs) p s = Done () (s\<lparr>upages := (upages s)(VPN p := Some fr')\<rparr>)"
    using stb_run [OF Cons.prems(1), of c] fr'(1) st by (simp add: run_rules)
  moreover have "frame_byte fr' (bidx p) = c" using fr'(3) st by simp
  moreover have "frame_byte fr' k = frame_byte fr k" if "k < bidx p \<or> bidx p + length (c # cs) < k" for k
    using that fr'(3) st by (auto simp: frame_byte_set)
  moreover have "name_at fr' (bidx p) (c # cs)" using fr'(2, 3) st unfolding name_at_Cons by simp
  ultimately show ?case by blast
qed

section \<open>A free entry\<close>

lemma scan_free_run:
  assumes "upages s (VPN blk) = Some fr" "bidx blk = 0" "j + n = 16"
  shows "scan_free n (blk + 256 * of_nat j) s =
     Done (map_option (\<lambda>i. blk + 256 * of_nat i) (find (\<lambda>i. name_at fr (256 * i) []) [j..<16])) s"
  using assms(3)
proof (induction n arbitrary: j)
  case 0
  then show ?case by (simp add: run_rules)
next
  case (Suc n)
  have st: "VPN (blk + 256 * of_nat j) = VPN blk" "bidx (blk + 256 * of_nat j) = 256 * j"
    using page_step [of blk "256 * j"] assms(2) Suc.prems by simp_all
  have e: "ldb (blk + 256 * of_nat j) s = Done (frame_byte fr (256 * j)) s"
    using ldb_run [of s "blk + 256 * of_nat j"] assms(1) st by simp
  have nx: "blk + 256 * of_nat j + BY2FILE = blk + 256 * of_nat (Suc j)"
    by (simp add: BY2FILE_def algebra_simps)
  have up: "[j..<16] = j # [Suc j..<16]" using Suc.prems by (simp add: upt_conv_Cons)
  show ?case
    unfolding up scan_free.simps run_bind e outcome.case nx using Suc.IH [of "Suc j"] Suc.prems
    by (simp add: run_rules name_at_Nil del: of_nat_Suc)
qed

lemma cached_block:
  assumes "fs_ok n s" "dir_cached n s dir m bno" "i < m"
  shows "VPN (diskaddr (of_nat (bno i))) = 0x10000 + bno i" "bidx (diskaddr (of_nat (bno i))) = 0"
    "upages s (0x10000 + bno i) = Some (the (upages s (0x10000 + bno i)))" "bno i < 0x40000"
proof -
  have b: "bno i < n" "upages s (0x10000 + bno i) \<noteq> None" using assms(2, 3) by (auto simp: dir_cached_def)
  then show n: "bno i < 0x40000" using fs_okD(3) [OF assms(1)] by simp
  then show "VPN (diskaddr (of_nat (bno i))) = 0x10000 + bno i" by (simp add: VPN_diskaddr)
  have "unat (diskaddr (of_nat (bno i))) = 4096 * (0x10000 + bno i)"
    using n by (simp add: diskaddr_def DISKMAP_def BY2BLK_def BY2PG_def unat_word_ariths unat_of_nat take_bit_eq_mod)
  then show "bidx (diskaddr (of_nat (bno i))) = 0" by (simp add: bidx_def)
  show "upages s (0x10000 + bno i) = Some (the (upages s (0x10000 + bno i)))" using b(2) by simp
qed

lemma find_append: "find P (xs @ ys) = (case find P xs of None \<Rightarrow> find P ys | Some x \<Rightarrow> Some x)"
  by (induction xs) auto

lemma find_map: "find P (map f xs) = map_option f (find (P \<circ> f) xs)"
  by (induction xs) auto

lemma dir_scan_free_run:
  assumes ok: "fs_ok n s" and dir: "dir_cached n s dir m bno" and "i0 \<le> m"
  shows "dir_scan_free [i0..<m] dir s =
     Done (Inr (map_option (entry_addr bno) (find (entry_named s bno []) (List.product [i0..<m] [0..<16])))) s"
  using assms(3)
proof (induction "m - i0" arbitrary: i0)
  case 0
  then show ?case by (simp add: run_rules)
next
  case (Suc d)
  then have i: "i0 < m" by simp
  let ?blk = "diskaddr (of_nat (bno i0))" and ?fr = "the (upages s (0x10000 + bno i0))"
  note c = cached_block [OF ok dir i]
  have scan: "scan_free 16 ?blk s =
     Done (map_option (\<lambda>i. ?blk + 256 * of_nat i) (find (\<lambda>i. name_at ?fr (256 * i) []) [0..<16])) s"
    using scan_free_run [of s ?blk ?fr 0 16] c by simp
  have up: "[i0..<m] = i0 # [Suc i0..<m]" using i by (simp add: upt_conv_Cons)
  have comp: "entry_named s bno [] \<circ> Pair i0 = (\<lambda>j. name_at ?fr (256 * j) [])"
    by (simp add: entry_named_def fun_eq_iff)
  have IH: "dir_scan_free [Suc i0..<m] dir s =
     Done (Inr (map_option (entry_addr bno) (find (entry_named s bno []) (List.product [Suc i0..<m] [0..<16])))) s"
    by (rule Suc.hyps(1)) (use Suc i in simp_all)
  show ?case
    unfolding up dir_scan_free.simps product.simps find_append find_map comp run_try get_cached_block [OF ok dir i]
      outcome.case sum.case run_bind scan
    by (cases "find (\<lambda>j. name_at ?fr (256 * j) []) [0..<16]") (simp_all add: IH run_rules entry_addr_def)
qed

lemma dir_alloc_file_run:
  assumes ok: "fs_ok n s" and dir: "dir_cached n s dir m bno"
    and e: "find (entry_named s bno []) (List.product [0..<m] [0..<16]) = Some e"
  shows "dir_alloc_file dir s = Done (Inr (entry_addr bno e)) s"
proof -
  from dir obtain fr where fr: "upages s (VPN (f_size dir)) = Some fr"
    "fr (widx (f_size dir)) = 4096 * of_nat m" and m: "m \<le> 10" by (auto simp: dir_cached_def)
  have "unat ((4096 * of_nat m :: u32) div BY2BLK) = m"
    using m by (simp add: BY2BLK_def BY2PG_def unat_div unat_word_ariths unat_of_nat take_bit_eq_mod)
  then show ?thesis
    using dir_scan_free_run [OF ok dir, of 0] ldw_run [OF fr(1)] fr(2) e by (simp add: dir_alloc_file_def run_rules)
qed

section \<open>The root directory\<close>

text \<open>
  The root directory in the cache: its blocks are different and none of the reserved ones.
\<close>

definition root_ok :: "nat \<Rightarrow> fsys \<Rightarrow> nat \<Rightarrow> (nat \<Rightarrow> nat) \<Rightarrow> bool" where
  "root_ok n s m bno \<longleftrightarrow> fs_ok n s \<and> dir_cached n s root_dir m bno \<and> inj_on bno {..<m} \<and>
     (\<forall>i < m. n div 32768 + 2 < bno i) \<and>
     (\<exists>fr. upages s 0x10001 = Some fr \<and> fr 35 = FTYPE_DIR)"

lemma root_type: "VPN (f_type root_dir) = 0x10001" "widx (f_type root_dir) = 35"
  by (simp_all add: root_dir_def f_type_def diskaddr_def DISKMAP_def BY2BLK_def BY2PG_def VPN_alt widx_def)

lemma root_slot:
  assumes "k < 10"
  shows "VPN (f_direct root_dir (of_nat k)) = 0x10001" "widx (f_direct root_dir (of_nat k)) = 36 + k"
proof -
  have "f_direct root_dir (of_nat k) = of_nat (0x10001090 + 4 * k)"
    by (simp add: root_dir_def f_direct_def diskaddr_def DISKMAP_def BY2BLK_def BY2PG_def)
  then have "unat (f_direct root_dir (of_nat k)) = 0x10001090 + 4 * k"
    using assms by (simp only:) (subst unat_of_nat_len, simp_all)
  moreover have "0x10001090 + 4 * k = (144 + 4 * k) + 4096 * 0x10001" by simp
  ultimately have u: "unat (f_direct root_dir (of_nat k)) = (144 + 4 * k) + 4096 * 0x10001" by (simp only:)
  show "VPN (f_direct root_dir (of_nat k)) = 0x10001" "widx (f_direct root_dir (of_nat k)) = 36 + k"
    unfolding VPN_alt widx_def u mod_mult_self2 using assms by simp_all
qed

text \<open>A change within a block of the directory.\<close>

lemma root_ok_write:
  assumes r: "root_ok n s m bno" and i: "i < m" "t = s\<lparr>upages := (upages s)(0x10000 + bno i := Some fr)\<rparr>"
  shows "root_ok n t m bno"
proof -
  have b: "n div 32768 + 2 < bno i" using r i(1) by (auto simp: root_ok_def)
  have bm: "upages t (BM_VPN + j) = upages s (BM_VPN + j)" if "j \<le> n div 32768" for j
    using that b i(2) by (auto simp: BM_VPN_def)
  have sup: "upages t 0x10001 = upages s 0x10001" using b i(2) by auto
  have "fs_ok n t" using r bm sup i(2) by (auto simp: root_ok_def fs_ok_def VPN_super)
  moreover have "free_blocks n t = free_blocks n s" using bm by (rule free_blocks_cong)
  moreover have "upages t q \<noteq> None" if "upages s q \<noteq> None" for q using that i(2) by auto
  moreover have m: "m \<le> 10" using r by (simp add: root_ok_def dir_cached_def)
  ultimately show ?thesis
    using r sup root_slot root_fields(1, 2) unfolding root_ok_def dir_cached_def by auto
qed

text \<open>Walking along a path of one name.\<close>

lemma skip_slash_name: "name \<noteq> [] \<Longrightarrow> slash \<notin> set name \<Longrightarrow> skip_slash (replicate k slash @ name) = name"
  by (induction k) (cases name; auto simp: skip_slash_def)+

lemma walk_name:
  assumes r: "root_ok n s m bno" and name: "name \<noteq> []" "slash \<notin> set name" "length name < MAXNAMELEN"
  shows "walk_path (replicate k slash @ name) s =
    (case find (entry_named s bno name) (List.product [0..<m] [0..<16]) of
       None \<Rightarrow> Done (Inl E_NOT_FOUND, root_dir, 0, Some name) s
     | Some e \<Rightarrow> bindK (stw (f_dir (entry_addr bno e)) root_dir)
         (\<lambda>_. retK (Inr (), root_dir, entry_addr bno e, None)) s)"
proof -
  have ok: "fs_ok n s" "dir_cached n s root_dir m bno" using r by (simp_all add: root_ok_def)
  obtain fr where fr: "upages s 0x10001 = Some fr" "fr 35 = FTYPE_DIR" using r by (auto simp: root_ok_def)
  have ty: "ldw (f_type root_dir) s = Done FTYPE_DIR s"
    using ldw_run [of s "f_type root_dir" fr] fr root_type by simp
  have tw: "takeWhile (\<lambda>c. c \<noteq> slash) name = name" "dropWhile (\<lambda>c. c \<noteq> slash) name = []"
    using name(2) by (auto simp: takeWhile_eq_all_conv dropWhile_eq_Nil_conv)
  have sp: "super s + 8 = root_dir" using fs_okD(1) [OF ok(1)] by (simp add: root_dir_def)
  have nle: "\<not> MAXNAMELEN \<le> length name" using name(3) by simp
  have "walk_path (replicate k slash @ name) s = walk_loop name 0 root_dir s"
    by (simp add: walk_path_def run_rules sp skip_slash_name [OF name(1, 2)])
  also have "\<dots> = bindK (dir_lookup root_dir name) (\<lambda>r. case r of
      Inl e \<Rightarrow> if e = E_NOT_FOUND then retK (Inl e, root_dir, 0, Some name) else retK (Inl e, 0, 0, None)
    | Inr f \<Rightarrow> walk_loop [] root_dir f) s"
    by (subst walk_loop.simps) (simp add: tw name(1) nle run_rules ty Let_def skip_slash_def cong: sum.case_cong)
  also have "\<dots> = (case find (entry_named s bno name) (List.product [0..<m] [0..<16]) of
       None \<Rightarrow> Done (Inl E_NOT_FOUND, root_dir, 0, Some name) s
     | Some e \<Rightarrow> bindK (stw (f_dir (entry_addr bno e)) root_dir)
         (\<lambda>_. retK (Inr (), root_dir, entry_addr bno e, None)) s)"
    using dir_lookup_first [OF ok name(3)]
    by (auto simp: run_rules walk_loop.simps [of "[]"] split: option.split outcome.split)
  finally show ?thesis .
qed

section \<open>Creating and opening\<close>

definition entries :: "nat \<Rightarrow> (nat \<times> nat) list" where
  "entries m = List.product [0..<m] [0..<16]"

lemma entry_addr_page:
  assumes r: "root_ok n s m bno" and e: "(i, j) \<in> set (entries m)" and k: "256 * j + k < 4096"
  shows "VPN (entry_addr bno (i, j) + of_nat k) = 0x10000 + bno i" "bidx (entry_addr bno (i, j) + of_nat k) = 256 * j + k"
proof -
  have i: "i < m" using e by (simp add: entries_def)
  have ok: "fs_ok n s" "dir_cached n s root_dir m bno" using r by (simp_all add: root_ok_def)
  note c = cached_block [OF ok i]
  have a: "entry_addr bno (i, j) + of_nat k = diskaddr (of_nat (bno i)) + of_nat (256 * j + k)"
    by (simp add: entry_addr_def)
  show "VPN (entry_addr bno (i, j) + of_nat k) = 0x10000 + bno i" "bidx (entry_addr bno (i, j) + of_nat k) = 256 * j + k"
    unfolding a using page_step [of "diskaddr (of_nat (bno i))" "256 * j + k"] c(1, 2) k by simp_all
qed

lemma name_at_cong:
  "(\<And>k. a \<le> k \<Longrightarrow> k \<le> a + length w \<Longrightarrow> frame_byte fr' k = frame_byte fr k) \<Longrightarrow> name_at fr' a w = name_at fr a w"
  by (auto simp: name_at_def)

lemma find_unique: "P e \<Longrightarrow> e \<in> set xs \<Longrightarrow> (\<And>x. x \<in> set xs \<Longrightarrow> x \<noteq> e \<Longrightarrow> \<not> P x) \<Longrightarrow> find P xs = Some e"
  by (induction xs) auto

text \<open>Storing a name in an entry, and the link to the directory in it.\<close>

lemma put_name_entry:
  assumes r: "root_ok n s m bno" and e: "e \<in> set (entries m)" and name: "length name < MAXNAMELEN"
  shows "\<exists>t. st_string name (entry_addr bno e) s = Done () t \<and> root_ok n t m bno \<and> disk t = disk s \<and>
    entry_named t bno name e \<and>
    (\<forall>e' \<in> set (entries m). \<forall>x. e' \<noteq> e \<longrightarrow> length x < MAXNAMELEN \<longrightarrow> entry_named t bno x e' = entry_named s bno x e')"
proof -
  obtain i j where ij: "e = (i, j)" "i < m" "j < 16" using e by (auto simp: entries_def)
  have ok: "fs_ok n s" "dir_cached n s root_dir m bno" and inj: "inj_on bno {..<m}" using r by (simp_all add: root_ok_def)
  let ?fr = "the (upages s (0x10000 + bno i))" and ?p = "entry_addr bno (i, j)"
  note pg = entry_addr_page [OF r e [unfolded ij], of 0]
  have v: "VPN ?p = 0x10000 + bno i" "bidx ?p = 256 * j" using pg ij(3) by simp_all
  have "upages s (VPN ?p) = Some ?fr" using cached_block(3) [OF ok ij(2)] v(1) by simp
  moreover have "bidx ?p + length name < 4096" using v(2) ij(3) name by (simp add: MAXNAMELEN_def)
  ultimately obtain fr' where fr': "st_string name ?p s = Done () (s\<lparr>upages := (upages s)(VPN ?p := Some fr')\<rparr>)"
      "name_at fr' (256 * j) name"
      "\<forall>k. k < 256 * j \<or> 256 * j + length name < k \<longrightarrow> frame_byte fr' k = frame_byte ?fr k"
    using st_string_run [of s ?p ?fr name] unfolding v(2) by blast
  let ?t = "s\<lparr>upages := (upages s)(0x10000 + bno i := Some fr')\<rparr>"
  have other: "entry_named ?t bno x e' = entry_named s bno x e'"
    if e': "e' \<in> set (entries m)" "e' \<noteq> e" "length x < MAXNAMELEN" for e' x
  proof -
    obtain i' j' where ij': "e' = (i', j')" "i' < m" using e'(1) by (auto simp: entries_def)
    show ?thesis
    proof (cases "i' = i")
      case True
      then have "j' < j \<or> j < j'" using e'(2) ij ij' by auto
      then have "name_at fr' (256 * j') x = name_at ?fr (256 * j') x"
        using fr'(3) e'(3) name by (intro name_at_cong) (auto simp: MAXNAMELEN_def)
      then show ?thesis using True ij' by (simp add: entry_named_def)
    next
      case False
      then have "bno i' \<noteq> bno i" using inj ij(2) ij'(2) by (auto simp: inj_on_def)
      then show ?thesis using ij' by (simp add: entry_named_def)
    qed
  qed
  have "root_ok n ?t m bno" by (rule root_ok_write [OF r ij(2) refl])
  moreover have "entry_named ?t bno name e" using fr'(2) ij(1) by (simp add: entry_named_def)
  ultimately show ?thesis
    using fr'(1) v(1) ij(1) other by (intro exI [of _ ?t]) auto
qed

definition same_names :: "nat \<Rightarrow> (nat \<Rightarrow> nat) \<Rightarrow> fsys \<Rightarrow> fsys \<Rightarrow> bool" where
  "same_names m bno s t \<longleftrightarrow>
     (\<forall>e \<in> set (entries m). \<forall>x. length x < MAXNAMELEN \<longrightarrow> entry_named t bno x e = entry_named s bno x e)"

lemma same_names_refl: "same_names m bno s s"
  and same_names_trans: "same_names m bno s t \<Longrightarrow> same_names m bno t u \<Longrightarrow> same_names m bno s u"
  by (simp_all add: same_names_def)

lemma find_same_names:
  "same_names m bno s t \<Longrightarrow> length x < MAXNAMELEN \<Longrightarrow>
     find (entry_named t bno x) (entries m) = find (entry_named s bno x) (entries m)"
  by (intro find_cong) (auto simp: same_names_def)

text \<open>The link to the directory lies behind the names of all entries.\<close>

lemma link_entry:
  assumes r: "root_ok n s m bno" and e: "e \<in> set (entries m)"
  shows "\<exists>t. stw (f_dir (entry_addr bno e)) x s = Done () t \<and> root_ok n t m bno \<and>
    same_names m bno s t \<and> disk t = disk s"
proof -
  obtain i j where ij: "e = (i, j)" "i < m" "j < 16" using e by (auto simp: entries_def)
  have ok: "fs_ok n s" "dir_cached n s root_dir m bno" and inj: "inj_on bno {..<m}" using r by (simp_all add: root_ok_def)
  let ?p = "f_dir (entry_addr bno e)" and ?fr = "the (upages s (0x10000 + bno i))"
  have v: "VPN ?p = 0x10000 + bno i" "bidx ?p = 256 * j + 180"
    using entry_addr_page [OF r e [unfolded ij], of 180] ij by (simp_all add: f_dir_def)
  then have w: "widx ?p = 64 * j + 45" by (simp add: widx_def bidx_def)
  let ?t = "s\<lparr>upages := (upages s)(0x10000 + bno i := Some (?fr(widx ?p := x)))\<rparr>"
  have "upages s (VPN ?p) = Some ?fr" using cached_block(3) [OF ok ij(2)] v by simp
  from stw_run [OF this] have run: "stw ?p x s = Done () ?t" using v by simp
  have "entry_named ?t bno y e' = entry_named s bno y e'"
    if e': "e' \<in> set (entries m)" "length y < MAXNAMELEN" for e' y
  proof -
    obtain i' j' where ij': "e' = (i', j')" "i' < m" using e'(1) by (auto simp: entries_def)
    have "frame_byte (?fr(64 * j + 45 := x)) k = frame_byte ?fr k"
      if k: "256 * j' \<le> k" "k \<le> 256 * j' + length y" for k
    proof -
      have "k < 256 * j + 180 \<or> 256 * j + 184 \<le> k"
      proof (cases "j' \<le> j")
        case True
        with k(2) e'(2) have "k < 256 * j + 180" unfolding MAXNAMELEN_def by linarith
        then show ?thesis ..
      next
        case False
        with k(1) have "256 * j + 184 \<le> k" by linarith
        then show ?thesis ..
      qed
      then have "k div 4 \<noteq> 64 * j + 45" by linarith
      then show ?thesis by (simp add: frame_byte_def)
    qed
    then have "name_at (?fr(64 * j + 45 := x)) (256 * j') y = name_at ?fr (256 * j') y"
      by (intro name_at_cong) auto
    moreover have "bno i' = bno i \<longleftrightarrow> i' = i" using inj ij(2) ij'(2) by (auto simp: inj_on_def)
    ultimately show ?thesis using ij' w by (auto simp: entry_named_def)
  qed
  then have "same_names m bno s ?t" by (simp add: same_names_def)
  with run root_ok_write [OF r ij(2) refl] show ?thesis by auto
qed

lemma walk_found:
  assumes r: "root_ok n s m bno" and name: "name \<noteq> []" "slash \<notin> set name" "length name < MAXNAMELEN"
    and f: "find (entry_named s bno name) (entries m) = Some e"
  shows "\<exists>t. walk_path (replicate k slash @ name) s = Done (Inr (), root_dir, entry_addr bno e, None) t \<and>
    root_ok n t m bno \<and> same_names m bno s t \<and> disk t = disk s"
proof -
  have "e \<in> set (entries m)" using f by (auto simp: find_Some_iff)
  then obtain t where "stw (f_dir (entry_addr bno e)) root_dir s = Done () t" "root_ok n t m bno"
      "same_names m bno s t" "disk t = disk s"
    using link_entry [OF r] by blast
  then show ?thesis using walk_name [OF r name, of k] f by (simp add: entries_def run_rules)
qed

text \<open>Opening files of the root directory, whether they exist or not, one after the other.\<close>

definition root_path :: "u8 list \<Rightarrow> bool" where
  "root_path p \<longleftrightarrow> (\<exists>k name. p = replicate k slash @ name \<and> name \<noteq> [] \<and> slash \<notin> set name \<and> length name < MAXNAMELEN)"

fun open_all :: "u8 list list \<Rightarrow> unit fsM" where
  "open_all [] = retK ()"
| "open_all (p # ps) = bindK (file_open p) (\<lambda>_. open_all ps)"

lemma file_open_run:
  assumes r: "root_ok n s m bno" and name: "name \<noteq> []" "slash \<notin> set name" "length name < MAXNAMELEN"
  shows "\<exists>t. file_open (replicate k slash @ name) s = Done (case find (entry_named s bno name) (entries m) of
      None \<Rightarrow> Inl E_NOT_FOUND | Some e \<Rightarrow> Inr (entry_addr bno e)) t \<and>
    root_ok n t m bno \<and> same_names m bno s t \<and> disk t = disk s"
proof (cases "find (entry_named s bno name) (entries m)")
  case None
  with walk_name [OF r name, of k] r same_names_refl show ?thesis
    by (simp add: file_open_def run_rules entries_def)
next
  case (Some e)
  with walk_found [OF r name Some, of k] show ?thesis by (auto simp: file_open_def run_rules)
qed

lemma open_all_run:
  "root_ok n s m bno \<Longrightarrow> \<forall>p \<in> set ps. root_path p \<Longrightarrow>
     \<exists>t. open_all ps s = Done () t \<and> root_ok n t m bno \<and> same_names m bno s t \<and> disk t = disk s"
proof (induction ps arbitrary: s)
  case Nil
  then show ?case by (simp add: run_rules same_names_refl)
next
  case (Cons p ps)
  then obtain k name where p: "p = replicate k slash @ name" "name \<noteq> []" "slash \<notin> set name" "length name < MAXNAMELEN"
    by (auto simp: root_path_def)
  from file_open_run [OF Cons.prems(1) p(2-4), of k] obtain x t where
    t: "file_open p s = Done x t" "root_ok n t m bno" "same_names m bno s t" "disk t = disk s"
    unfolding p(1) by blast
  with Cons.IH [OF t(2)] Cons.prems(2) same_names_trans [OF t(3)] show ?case by (auto simp: run_rules)
qed

text \<open>
  C22. A file that is created in the root directory is found. When no entry of the directory has the
  name and \<open>e\<close> is the first free one, the path cannot be opened before; \<^verbatim>\<open>file_create\<close> puts the name
  into \<open>e\<close> and returns it, the other entries keep their names and the disk is not written. However
  many files of the root directory are then opened, found or not, all names stay as they are,
  \<^verbatim>\<open>file_open\<close> still returns that entry, and a second \<^verbatim>\<open>file_create\<close> reports that the file exists.
\<close>

theorem file_create_then_open:
  assumes r: "root_ok n s m bno" and name: "name \<noteq> []" "slash \<notin> set name" "length name < MAXNAMELEN"
    and new: "find (entry_named s bno name) (entries m) = None" and e: "find (entry_named s bno []) (entries m) = Some e"
    and path: "path = replicate k slash @ name"
  shows "file_open path s = Done (Inl E_NOT_FOUND) s \<and>
    (\<exists>t. file_create path s = Done (Inr (entry_addr bno e)) t \<and> disk t = disk s \<and>
      (\<forall>e' \<in> set (entries m). \<forall>x. e' \<noteq> e \<longrightarrow> length x < MAXNAMELEN \<longrightarrow> entry_named t bno x e' = entry_named s bno x e') \<and>
      (\<forall>ps. (\<forall>p \<in> set ps. root_path p) \<longrightarrow>
        (\<exists>u v w. open_all ps t = Done () u \<and> root_ok n u m bno \<and> same_names m bno t u \<and> disk u = disk s \<and>
          file_open path u = Done (Inr (entry_addr bno e)) v \<and> same_names m bno t v \<and>
          file_create path u = Done (Inl E_FILE_EXISTS) w)))"
proof -
  have ok: "fs_ok n s" "dir_cached n s root_dir m bno" using r by (simp_all add: root_ok_def)
  have w: "walk_path path s = Done (Inl E_NOT_FOUND, root_dir, 0, Some name) s"
    using walk_name [OF r name, of k] new path by (simp add: entries_def)
  have in_dir: "e \<in> set (entries m)" using e by (auto simp: find_Some_iff)
  obtain t where t: "st_string name (entry_addr bno e) s = Done () t" "root_ok n t m bno" "disk t = disk s"
      "entry_named t bno name e"
      "\<forall>e' \<in> set (entries m). \<forall>x. e' \<noteq> e \<longrightarrow> length x < MAXNAMELEN \<longrightarrow> entry_named t bno x e' = entry_named s bno x e'"
    using put_name_entry [OF r in_dir name(3)] by blast
  have "dir_alloc_file root_dir s = Done (Inr (entry_addr bno e)) s"
    using dir_alloc_file_run [OF ok] e by (simp add: entries_def)
  moreover have "root_dir \<noteq> 0" by (simp add: root_dir_def diskaddr_def DISKMAP_def BY2BLK_def BY2PG_def)
  ultimately have create: "file_create path s = Done (Inr (entry_addr bno e)) t"
    using w t(1) by (simp add: file_create_def run_rules)
  have found: "find (entry_named t bno name) (entries m) = Some e"
    by (rule find_unique [of "entry_named t bno name" e "entries m", OF t(4) in_dir]) (use t(5) name(3) new in \<open>auto simp: find_None_iff\<close>)
  have later: "\<exists>u v w. open_all ps t = Done () u \<and> root_ok n u m bno \<and> same_names m bno t u \<and> disk u = disk s \<and>
      file_open path u = Done (Inr (entry_addr bno e)) v \<and> same_names m bno t v \<and>
      file_create path u = Done (Inl E_FILE_EXISTS) w" if ps: "\<forall>p \<in> set ps. root_path p" for ps
  proof -
    from open_all_run [OF t(2) ps] obtain u where u: "open_all ps t = Done () u" "root_ok n u m bno"
      "same_names m bno t u" "disk u = disk t" by blast
    have "find (entry_named u bno name) (entries m) = Some e"
      using find_same_names [OF u(3) name(3)] found by simp
    from walk_found [OF u(2) name this, of k] path obtain v where
      "walk_path path u = Done (Inr (), root_dir, entry_addr bno e, None) v" "same_names m bno u v" by auto
    with u t(3) same_names_trans [OF u(3)] show ?thesis
      by (auto simp: file_open_def file_create_def run_rules)
  qed
  with w create t(3,5) show ?thesis by (simp add: file_open_def run_rules)
qed

text \<open>In the small disk, where the root directory has the files \<^verbatim>\<open>a\<close> and \<^verbatim>\<open>b\<close>, the third entry is taken for \<^verbatim>\<open>c\<close>.\<close>

definition tiny_dir :: fsys where
  "tiny_dir = tiny_root\<lparr>upages := (upages tiny_root)(0x10001 := Some (root_frame(35 := FTYPE_DIR)))\<rparr>"

lemma tiny_dir_ok: "root_ok 8 tiny_dir 1 (\<lambda>_. 4)"
proof -
  have "free_blocks 8 tiny_dir = free_blocks 8 tiny_root"
    by (rule free_blocks_cong) (simp add: tiny_dir_def BM_VPN_def)
  then have f: "free_blocks 8 tiny_dir = {5, 6, 7}" by (simp add: tiny_root_free)
  have "fs_ok 8 tiny_dir"
    by (simp add: fs_ok_def tiny_dir_def tiny_root_def tiny_fs_def VPN_super BM_VPN_def tiny_super_def root_frame_def)
  moreover have "dir_cached 8 tiny_dir root_dir 1 (\<lambda>_. 4)"
    by (simp add: dir_cached_def root_fields f) (simp add: tiny_dir_def tiny_root_def root_frame_def)
  ultimately show ?thesis
    by (simp add: root_ok_def inj_on_def) (simp add: tiny_dir_def)
qed

theorem file_create_then_open_witness:
  "file_open [slash, 0x63] tiny_dir = Done (Inl E_NOT_FOUND) tiny_dir \<and>
    (\<exists>t u v. file_create [slash, 0x63] tiny_dir = Done (Inr (diskaddr 4 + 512)) t \<and>
      open_all [[slash, 0x61], [0x64]] t = Done () u \<and>
      file_open [slash, 0x63] u = Done (Inr (diskaddr 4 + 512)) v)"
proof -
  have pg: "upages tiny_dir 0x10004 = Some names_frame" by (simp add: tiny_dir_def tiny_root_def)
  have up: "[0..<16] = [0, 1, 2, 3, 4, 5, 6, 7, 8, 9, 10, 11, 12, 13, 14, 15::nat]" by (simp add: upt_rec)
  have b: "frame_byte names_frame (256 * j) = (if j = 0 then 0x61 else if j = 1 then 0x62 else 0)" for j
  proof -
    have "256 * j div 4 = 64 * j" by simp
    then show ?thesis by (auto simp: frame_byte_def byte_of_def names_frame_def)
  qed
  have new: "find (entry_named tiny_dir (\<lambda>_. 4) [0x63]) (entries 1) = None"
    by (auto simp: find_None_iff entries_def entry_named_def pg name_at_Cons b)
  have e: "find (entry_named tiny_dir (\<lambda>_. 4) []) (entries 1) = Some (0, 2)"
    by (simp add: entries_def entry_named_def pg name_at_Nil b up)
  have w: "[0x63] \<noteq> ([] :: u8 list)" "slash \<notin> set [0x63]" "length [0x63 :: u8] < MAXNAMELEN"
    "[slash, 0x63] = replicate 1 slash @ [0x63]" by (simp_all add: slash_def MAXNAMELEN_def)
  have "[slash, 0x61] = replicate 1 slash @ [0x61]" "[0x64] = replicate 0 slash @ [0x64 :: u8]" by simp_all
  moreover have "[0x61 :: u8] \<noteq> [] \<and> slash \<notin> set [0x61] \<and> length [0x61 :: u8] < MAXNAMELEN"
    "[0x64 :: u8] \<noteq> [] \<and> slash \<notin> set [0x64] \<and> length [0x64 :: u8] < MAXNAMELEN"
    by (simp_all add: slash_def MAXNAMELEN_def)
  ultimately have "root_path [slash, 0x61]" "root_path [0x64]" unfolding root_path_def by blast+
  then have ps: "\<forall>p \<in> set [[slash, 0x61], [0x64]]. root_path p" by simp
  note c = file_create_then_open [OF tiny_dir_ok w(1, 2, 3) new e w(4)]
  from conjunct2 [OF c] obtain t where
    t: "file_create [slash, 0x63] tiny_dir = Done (Inr (entry_addr (\<lambda>_. 4) (0, 2))) t" and
    L: "\<forall>ps. (\<forall>p \<in> set ps. root_path p) \<longrightarrow>
        (\<exists>u v w. open_all ps t = Done () u \<and> root_ok 8 u 1 (\<lambda>_. 4) \<and> same_names 1 (\<lambda>_. 4) t u \<and> disk u = disk tiny_dir \<and>
          file_open [slash, 0x63] u = Done (Inr (entry_addr (\<lambda>_. 4) (0, 2))) v \<and> same_names 1 (\<lambda>_. 4) t v \<and>
          file_create [slash, 0x63] u = Done (Inl E_FILE_EXISTS) w)"
    by (elim exE conjE) (rule that; assumption)
  from mp [OF spec [OF L] ps] obtain u v where
    "open_all [[slash, 0x61], [0x64]] t = Done () u"
    "file_open [slash, 0x63] u = Done (Inr (entry_addr (\<lambda>_. 4) (0, 2))) v"
    by (elim exE conjE) (rule that; assumption)
  moreover have "entry_addr (\<lambda>_. 4) (0, 2) = diskaddr 4 + 512" by (simp add: entry_addr_def)
  ultimately show ?thesis using conjunct1 [OF c] t by (simp only:) blast
qed

end
