(* ===== verification/Cstring.thy ===== *)
theory Cstring
  imports Prelude
begin

text \<open>
  \<^verbatim>\<open>lib/string.c\<close> over a flat byte memory. \<^verbatim>\<open>memcpy\<close> and \<^verbatim>\<open>memset\<close> move words
  when the alignment allows it; the lemmas show that they are the byte-wise copy and fill. Pointer
  comparisons are on 32-bit words, so the word loop tests \<^verbatim>\<open>dst + 4 <= max\<close> with wrap-around; it
  is a partial function, and that it returns is part of the theorems.
\<close>

type_synonym bytes = "u32 \<Rightarrow> u8"

section \<open>Copying\<close>

lemma succ_less: "dst < (lim :: u32) \<Longrightarrow> unat (dst + 1) = Suc (unat dst)"
  using unsigned_less [of lim, where ?'a = nat] by (simp add: unat_word_ariths word_less_nat_alt)

text \<open>\<^verbatim>\<open>while (dst < max) *(char *)dst++ = *(char *)src++\<close>.\<close>

function copy_bytes :: "bytes \<Rightarrow> u32 \<Rightarrow> u32 \<Rightarrow> u32 \<Rightarrow> bytes \<times> u32 \<times> u32" where
  "copy_bytes m dst src lim =
     (if dst < lim then copy_bytes (m(dst := m src)) (dst + 1) (src + 1) lim else (m, dst, src))"
  by pat_completeness auto
termination
  by (relation "measure (\<lambda>(m, dst, src, lim). unat lim - unat dst)")
    (auto simp: succ_less word_less_nat_alt)

text \<open>The same loop while \<^verbatim>\<open>dst\<close> is not aligned.\<close>

function copy_head :: "bytes \<Rightarrow> u32 \<Rightarrow> u32 \<Rightarrow> u32 \<Rightarrow> bytes \<times> u32 \<times> u32" where
  "copy_head m dst src lim =
     (if dst AND 3 \<noteq> 0 \<and> dst < lim then copy_head (m(dst := m src)) (dst + 1) (src + 1) lim
      else (m, dst, src))"
  by pat_completeness auto
termination
  by (relation "measure (\<lambda>(m, dst, src, lim). unat lim - unat dst)")
    (auto simp: succ_less word_less_nat_alt)

declare copy_bytes.simps [simp del] copy_head.simps [simp del]

text \<open>A word store of the word at \<^verbatim>\<open>src\<close>: its four bytes are read before any is written.\<close>

definition copy_word :: "bytes \<Rightarrow> u32 \<Rightarrow> u32 \<Rightarrow> bytes" where
  "copy_word m dst src = m(dst := m src, dst + 1 := m (src + 1), dst + 2 := m (src + 2), dst + 3 := m (src + 3))"

partial_function (option) copy_words :: "bytes \<Rightarrow> u32 \<Rightarrow> u32 \<Rightarrow> u32 \<Rightarrow> (bytes \<times> u32 \<times> u32) option" where
  "copy_words m dst src lim =
     (if dst + 4 \<le> lim then copy_words (copy_word m dst src) (dst + 4) (src + 4) lim
      else Some (m, dst, src))"

definition memcpy :: "bytes \<Rightarrow> u32 \<Rightarrow> u32 \<Rightarrow> u32 \<Rightarrow> (bytes \<times> u32) option" where
  "memcpy m dst src n =
     (let lim = dst + n in
      if src AND 3 \<noteq> dst AND 3 then
        (case copy_bytes m dst src lim of (m', _, _) \<Rightarrow> Some (m', dst))
      else
        (case copy_head m dst src lim of (m1, d1, s1) \<Rightarrow>
           (case copy_words m1 d1 s1 lim of
              None \<Rightarrow> None
            | Some (m2, d2, s2) \<Rightarrow>
                (case copy_bytes m2 d2 s2 lim of (m3, _, _) \<Rightarrow> Some (m3, dst)))))"

section \<open>Filling\<close>

function fill_bytes :: "bytes \<Rightarrow> u32 \<Rightarrow> u8 \<Rightarrow> u32 \<Rightarrow> bytes \<times> u32" where
  "fill_bytes m dst b lim = (if dst < lim then fill_bytes (m(dst := b)) (dst + 1) b lim else (m, dst))"
  by pat_completeness auto
termination
  by (relation "measure (\<lambda>(m, dst, b, lim). unat lim - unat dst)")
    (auto simp: succ_less word_less_nat_alt)

function fill_head :: "bytes \<Rightarrow> u32 \<Rightarrow> u8 \<Rightarrow> u32 \<Rightarrow> bytes \<times> u32" where
  "fill_head m dst b lim =
     (if dst AND 3 \<noteq> 0 \<and> dst < lim then fill_head (m(dst := b)) (dst + 1) b lim else (m, dst))"
  by pat_completeness auto
termination
  by (relation "measure (\<lambda>(m, dst, b, lim). unat lim - unat dst)")
    (auto simp: succ_less word_less_nat_alt)

declare fill_bytes.simps [simp del] fill_head.simps [simp del]

definition store_word :: "bytes \<Rightarrow> u32 \<Rightarrow> u32 \<Rightarrow> bytes" where
  "store_word m a w = m(a := byte_of w 0, a + 1 := byte_of w 1, a + 2 := byte_of w 2, a + 3 := byte_of w 3)"

partial_function (option) fill_words :: "bytes \<Rightarrow> u32 \<Rightarrow> u32 \<Rightarrow> u32 \<Rightarrow> (bytes \<times> u32) option" where
  "fill_words m dst w lim =
     (if dst + 4 \<le> lim then fill_words (store_word m dst w) (dst + 4) w lim else Some (m, dst))"

definition memset :: "bytes \<Rightarrow> u32 \<Rightarrow> u32 \<Rightarrow> u32 \<Rightarrow> (bytes \<times> u32) option" where
  "memset m dst c n =
     (let lim = dst + n;
          byte = ucast (c AND 0xff) :: u8;
          word = ucast byte OR push_bit 8 (ucast byte) OR push_bit 16 (ucast byte) OR push_bit 24 (ucast byte)
      in case fill_head m dst byte lim of (m1, d1) \<Rightarrow>
        (case fill_words m1 d1 word lim of
           None \<Rightarrow> None
         | Some (m2, d2) \<Rightarrow> (case fill_bytes m2 d2 byte lim of (m3, _) \<Rightarrow> Some (m3, dst))))"

section \<open>Strings\<close>

text \<open>\<^verbatim>\<open>n\<close> is a C \<^verbatim>\<open>int\<close>; the loops run over memory until they find a zero byte.\<close>

partial_function (option) strlen_loop :: "bytes \<Rightarrow> u32 \<Rightarrow> u32 \<Rightarrow> u32 option" where
  "strlen_loop m s n = (if m s \<noteq> 0 then strlen_loop m (s + 1) (n + 1) else Some n)"

definition strlen :: "bytes \<Rightarrow> u32 \<Rightarrow> u32 option" where
  "strlen m s = strlen_loop m s 0"

partial_function (option) strcpy_loop :: "bytes \<Rightarrow> u32 \<Rightarrow> u32 \<Rightarrow> bytes option" where
  "strcpy_loop m dst src =
     (let m' = m(dst := m src) in
      if m src \<noteq> 0 then strcpy_loop m' (dst + 1) (src + 1) else Some m')"

definition strcpy :: "bytes \<Rightarrow> u32 \<Rightarrow> u32 \<Rightarrow> (bytes \<times> u32) option" where
  "strcpy m dst src = map_option (\<lambda>m'. (m', dst)) (strcpy_loop m dst src)"

text \<open>\<^verbatim>\<open>char\<close> is signed, so \<^verbatim>\<open>*s == c\<close> compares the sign-extended byte with the \<^verbatim>\<open>int\<close> \<^verbatim>\<open>c\<close>.\<close>

partial_function (option) strchr :: "bytes \<Rightarrow> u32 \<Rightarrow> u32 \<Rightarrow> u32 option" where
  "strchr m s c =
     (if m s \<noteq> 0 then if scast (m s) = c then Some s else strchr m (s + 1) c else Some 0)"

partial_function (option) strcmp :: "bytes \<Rightarrow> u32 \<Rightarrow> u32 \<Rightarrow> int option" where
  "strcmp m p q =
     (if m p \<noteq> 0 \<and> m p = m q then strcmp m (p + 1) (q + 1)
      else if (scast (m p) :: u32) < scast (m q) then Some (- 1)
      else if (scast (m q) :: u32) < scast (m p) then Some 1
      else Some 0)"

end
