(* ===== verification/Cstring_Thms.thy ===== *)
theory Cstring_Thms
  imports Cstring
begin

text \<open>
  \<^verbatim>\<open>lib/string.c\<close> against its byte-wise meaning: copying, filling, measuring, copying and
  comparing strings.
\<close>

section \<open>Copying\<close>

text \<open>The memory after the first \<open>k\<close> bytes have been copied.\<close>

definition copied :: "bytes \<Rightarrow> u32 \<Rightarrow> u32 \<Rightarrow> nat \<Rightarrow> bytes" where
  "copied m dst src k = (\<lambda>a. if unat dst \<le> unat a \<and> unat a < unat dst + k then m (src + (a - dst)) else m a)"

text \<open>No byte of the source is overwritten before it is read, and no pointer wraps.\<close>

definition copy_ok :: "u32 \<Rightarrow> u32 \<Rightarrow> nat \<Rightarrow> bool" where
  "copy_ok dst src n \<longleftrightarrow> unat dst + n + 4 < 2 ^ 32 \<and> unat src + n \<le> 2 ^ 32 \<and>
     (dst \<le> src \<or> unat src + n \<le> unat dst)"

lemma copied_0 [simp]: "copied m dst src 0 = m"
  by (rule ext) (auto simp: copied_def)

lemma copied_read:
  assumes ok: "copy_ok dst src n" and k: "k \<le> j" "j < n"
  shows "copied m dst src k (src + of_nat j) = m (src + of_nat j)"
proof -
  have u: "unat (src + of_nat j) = unat src + j" by (rule unat_add_nat) (use ok k in \<open>simp add: copy_ok_def\<close>)
  show ?thesis using ok k unfolding copied_def u by (auto simp: copy_ok_def word_le_nat_alt)
qed

lemma copied_Suc:
  assumes ok: "copy_ok dst src n" and k: "k < n"
  shows "(copied m dst src k)(dst + of_nat k := m (src + of_nat k)) = copied m dst src (Suc k)"
proof
  fix a
  have u: "unat (dst + of_nat k) = unat dst + k" by (rule unat_add_nat) (use ok k in \<open>simp add: copy_ok_def\<close>)
  show "((copied m dst src k)(dst + of_nat k := m (src + of_nat k))) a = copied m dst src (Suc k) a"
  proof (cases "a = dst + of_nat k")
    case True
    then show ?thesis using u by (simp add: copied_def)
  next
    case False
    then have "unat a \<noteq> unat dst + k" using u by (metis word_unat_eq_iff)
    with False show ?thesis by (auto simp: copied_def)
  qed
qed

lemma copy_step:
  assumes "copy_ok dst src n" "k < n"
  shows "(copied m dst src k)(dst + of_nat k := copied m dst src k (src + of_nat k)) = copied m dst src (Suc k)"
  using copied_Suc [OF assms] copied_read [OF assms(1) order_refl assms(2)] by simp

lemma at_less:
  assumes "copy_ok dst src n" "k \<le> n"
  shows "dst + of_nat k < dst + of_nat n \<longleftrightarrow> k < n"
  using assms unat_add_nat [of dst k] unat_add_nat [of dst n] by (simp add: copy_ok_def word_less_nat_alt)

lemma copy_bytes_run:
  assumes ok: "copy_ok dst src n" and "k \<le> n"
  shows "copy_bytes (copied m dst src k) (dst + of_nat k) (src + of_nat k) (dst + of_nat n) =
     (copied m dst src n, dst + of_nat n, src + of_nat n)"
  using assms(2)
proof (induction "n - k" arbitrary: k)
  case 0
  then show ?case by (subst copy_bytes.simps) simp
next
  case (Suc d)
  then have k: "k < n" by simp
  have "copy_bytes (copied m dst src (Suc k)) (dst + of_nat (Suc k)) (src + of_nat (Suc k)) (dst + of_nat n) =
      (copied m dst src n, dst + of_nat n, src + of_nat n)"
    by (rule Suc.hyps(1)) (use Suc.hyps(2) k in simp_all)
  then show ?case
    using copy_step [OF ok k] at_less [OF ok Suc.prems] k
    by (subst copy_bytes.simps) (simp add: ac_simps)
qed

lemma copy_head_run:
  assumes ok: "copy_ok dst src n" and "k \<le> n"
  shows "\<exists>j \<le> n. copy_head (copied m dst src k) (dst + of_nat k) (src + of_nat k) (dst + of_nat n) =
     (copied m dst src j, dst + of_nat j, src + of_nat j)"
  using assms(2)
proof (induction "n - k" arbitrary: k)
  case 0
  then show ?case by (subst copy_head.simps) auto
next
  case (Suc d)
  then have k: "k < n" by simp
  show ?case
  proof (cases "(dst + of_nat k) AND 3 = 0")
    case True
    then show ?thesis using Suc.prems by (subst copy_head.simps) auto
  next
    case False
    have "\<exists>j \<le> n. copy_head (copied m dst src (Suc k)) (dst + of_nat (Suc k)) (src + of_nat (Suc k)) (dst + of_nat n) =
        (copied m dst src j, dst + of_nat j, src + of_nat j)"
      by (rule Suc.hyps(1)) (use Suc.hyps(2) k in simp_all)
    then show ?thesis
      using copy_step [OF ok k] at_less [OF ok Suc.prems] k False
      by (subst copy_head.simps) (simp add: ac_simps)
  qed
qed

lemma copy_word_run:
  assumes ok: "copy_ok dst src n" and k: "k + 4 \<le> n"
  shows "copy_word (copied m dst src k) (dst + of_nat k) (src + of_nat k) = copied m dst src (k + 4)"
proof -
  have r: "copied m dst src k (src + of_nat (k + i)) = m (src + of_nat (k + i))" if "i < 4" for i
    by (rule copied_read [OF ok]) (use that k in auto)
  have s: "(copied m dst src (k + i))(dst + of_nat (k + i) := m (src + of_nat (k + i))) = copied m dst src (Suc (k + i))"
    if "i < 4" for i by (rule copied_Suc [OF ok]) (use that k in simp)
  show ?thesis
    using r [of 0] r [of 1] r [of 2] r [of 3] s [of 0] s [of 1] s [of 2] s [of 3]
    by (simp add: copy_word_def ac_simps numeral_eq_Suc)
qed

lemma copy_words_run:
  assumes ok: "copy_ok dst src n" and "k \<le> n"
  shows "\<exists>j \<le> n. copy_words (copied m dst src k) (dst + of_nat k) (src + of_nat k) (dst + of_nat n) =
     Some (copied m dst src j, dst + of_nat j, src + of_nat j)"
  using assms(2)
proof (induction "n - k" arbitrary: k rule: less_induct)
  case less
  have u: "unat (dst + of_nat k + 4) = unat dst + k + 4" "unat (dst + of_nat n) = unat dst + n"
    using unat_add_nat [of dst "k + 4"] unat_add_nat [of dst n] ok less.prems by (simp_all add: copy_ok_def ac_simps)
  then have t: "dst + of_nat k + 4 \<le> dst + of_nat n \<longleftrightarrow> k + 4 \<le> n" by (simp add: word_le_nat_alt)
  show ?case
  proof (cases "k + 4 \<le> n")
    case False
    then show ?thesis using t less.prems by (subst copy_words.simps) auto
  next
    case True
    have "\<exists>j \<le> n. copy_words (copied m dst src (k + 4)) (dst + of_nat (k + 4)) (src + of_nat (k + 4)) (dst + of_nat n) =
        Some (copied m dst src j, dst + of_nat j, src + of_nat j)"
      by (rule less.hyps) (use True in simp_all)
    then show ?thesis
      using t True copy_word_run [OF ok True, of m] by (subst copy_words.simps) (simp add: ac_simps)
  qed
qed

text \<open>
  C23. \<^verbatim>\<open>memcpy\<close> with its alignment cases and its word loop is the plain copy: it returns
  \<^verbatim>\<open>dst\<close>, the \<^verbatim>\<open>n\<close> bytes from \<^verbatim>\<open>dst\<close> on are the bytes that were at \<^verbatim>\<open>src\<close>, and no other
  byte changes. The regions may overlap as long as the destination is not the higher one.
\<close>
theorem memcpy_copies:
  assumes "copy_ok dst src (unat n)"
  shows "memcpy m dst src n = Some (copied m dst src (unat n), dst)"
proof -
  have lim: "dst + n = dst + of_nat (unat n)" by simp
  from copy_bytes_run [OF assms, of 0] have b:
    "copy_bytes m dst src (dst + of_nat (unat n)) =
      (copied m dst src (unat n), dst + of_nat (unat n), src + of_nat (unat n))" by simp
  from copy_head_run [OF assms, of 0 m] obtain j where j: "j \<le> unat n"
    "copy_head m dst src (dst + of_nat (unat n)) = (copied m dst src j, dst + of_nat j, src + of_nat j)" by auto
  from copy_words_run [OF assms j(1), of m] obtain i where i: "i \<le> unat n"
    "copy_words (copied m dst src j) (dst + of_nat j) (src + of_nat j) (dst + of_nat (unat n)) =
      Some (copied m dst src i, dst + of_nat i, src + of_nat i)" by auto
  show ?thesis
    unfolding memcpy_def Let_def lim b j(2) prod.case i(2) option.case copy_bytes_run [OF assms i(1)] by simp
qed

theorem memcpy_copies_witness:
  "\<exists>m'. memcpy (\<lambda>a. ucast a) 0x1003 0x2003 9 = Some (m', 0x1003) \<and> m' 0x1008 = 0x08 \<and> m' 0x100B = 0x0B \<and>
     m' 0x100C = 0x0C"
proof -
  have "copy_ok 0x1003 0x2003 (unat (9 :: u32))" by (simp add: copy_ok_def)
  from memcpy_copies [OF this, of "\<lambda>a. ucast a"] show ?thesis by (simp add: copied_def)
qed

section \<open>Filling\<close>

definition filled :: "bytes \<Rightarrow> u32 \<Rightarrow> u8 \<Rightarrow> nat \<Rightarrow> bytes" where
  "filled m dst b k = (\<lambda>a. if unat dst \<le> unat a \<and> unat a < unat dst + k then b else m a)"

text \<open>Filling is copying from a source that holds the byte everywhere; the loops agree.\<close>

lemma filled_0 [simp]: "filled m dst b 0 = m"
  by (rule ext) (auto simp: filled_def)

lemma filled_Suc:
  assumes "unat dst + n + 4 < 2 ^ 32" "k < n"
  shows "(filled m dst b k)(dst + of_nat k := b) = filled m dst b (Suc k)"
proof
  fix a
  have u: "unat (dst + of_nat k) = unat dst + k" by (rule unat_add_nat) (use assms in simp)
  show "((filled m dst b k)(dst + of_nat k := b)) a = filled m dst b (Suc k) a"
  proof (cases "a = dst + of_nat k")
    case False
    then have "unat a \<noteq> unat dst + k" using u by (metis word_unat_eq_iff)
    with False show ?thesis by (auto simp: filled_def)
  qed (use u in \<open>simp add: filled_def\<close>)
qed

lemma fill_less:
  assumes "unat (dst :: u32) + n + 4 < 2 ^ 32" "k \<le> n"
  shows "dst + of_nat k < dst + of_nat n \<longleftrightarrow> k < n"
  using assms unat_add_nat [of dst k] unat_add_nat [of dst n] by (simp add: word_less_nat_alt)

lemma fill_bytes_run:
  assumes ok: "unat dst + n + 4 < 2 ^ 32" and "k \<le> n"
  shows "fill_bytes (filled m dst b k) (dst + of_nat k) b (dst + of_nat n) = (filled m dst b n, dst + of_nat n)"
  using assms(2)
proof (induction "n - k" arbitrary: k)
  case 0
  then show ?case by (subst fill_bytes.simps) simp
next
  case (Suc d)
  then have k: "k < n" by simp
  have "fill_bytes (filled m dst b (Suc k)) (dst + of_nat (Suc k)) b (dst + of_nat n) = (filled m dst b n, dst + of_nat n)"
    by (rule Suc.hyps(1)) (use Suc.hyps(2) k in simp_all)
  then show ?case
    using filled_Suc [OF ok k] fill_less [OF ok Suc.prems] k
    by (subst fill_bytes.simps) (simp add: ac_simps)
qed

lemma fill_head_run:
  assumes ok: "unat dst + n + 4 < 2 ^ 32" and "k \<le> n"
  shows "\<exists>j \<le> n. fill_head (filled m dst b k) (dst + of_nat k) b (dst + of_nat n) = (filled m dst b j, dst + of_nat j)"
  using assms(2)
proof (induction "n - k" arbitrary: k)
  case 0
  then show ?case by (subst fill_head.simps) auto
next
  case (Suc d)
  then have k: "k < n" by simp
  show ?case
  proof (cases "(dst + of_nat k) AND 3 = 0")
    case True
    then show ?thesis using Suc.prems by (subst fill_head.simps) auto
  next
    case False
    have "\<exists>j \<le> n. fill_head (filled m dst b (Suc k)) (dst + of_nat (Suc k)) b (dst + of_nat n) =
        (filled m dst b j, dst + of_nat j)"
      by (rule Suc.hyps(1)) (use Suc.hyps(2) k in simp_all)
    then show ?thesis
      using filled_Suc [OF ok k] fill_less [OF ok Suc.prems] k False
      by (subst fill_head.simps) (simp add: ac_simps)
  qed
qed

lemma store_word_run:
  assumes ok: "unat dst + n + 4 < 2 ^ 32" and k: "k + 4 \<le> n" and w: "\<And>i. i < 4 \<Longrightarrow> byte_of w i = b"
  shows "store_word (filled m dst b k) (dst + of_nat k) w = filled m dst b (k + 4)"
proof -
  have s: "(filled m dst b (k + i))(dst + of_nat (k + i) := b) = filled m dst b (Suc (k + i))" if "i < 4" for i
    by (rule filled_Suc [OF ok]) (use that k in simp)
  show ?thesis
    using s [of 0] s [of 1] s [of 2] s [of 3]
    by (simp add: store_word_def w ac_simps numeral_eq_Suc)
qed

lemma fill_words_run:
  assumes ok: "unat dst + n + 4 < 2 ^ 32" and w: "\<And>i. i < 4 \<Longrightarrow> byte_of w i = b" and "k \<le> n"
  shows "\<exists>j \<le> n. fill_words (filled m dst b k) (dst + of_nat k) w (dst + of_nat n) =
     Some (filled m dst b j, dst + of_nat j)"
  using assms(3)
proof (induction "n - k" arbitrary: k rule: less_induct)
  case less
  have u: "unat (dst + of_nat k + 4) = unat dst + k + 4" "unat (dst + of_nat n) = unat dst + n"
    using unat_add_nat [of dst "k + 4"] unat_add_nat [of dst n] ok less.prems by (simp_all add: ac_simps)
  then have t: "dst + of_nat k + 4 \<le> dst + of_nat n \<longleftrightarrow> k + 4 \<le> n" by (simp add: word_le_nat_alt)
  show ?case
  proof (cases "k + 4 \<le> n")
    case False
    then show ?thesis using t less.prems by (subst fill_words.simps) auto
  next
    case True
    have "\<exists>j \<le> n. fill_words (filled m dst b (k + 4)) (dst + of_nat (k + 4)) w (dst + of_nat n) =
        Some (filled m dst b j, dst + of_nat j)"
      by (rule less.hyps) (use True in simp_all)
    then show ?thesis
      using t True store_word_run [OF ok True w, of m] by (subst fill_words.simps) (simp add: ac_simps)
  qed
qed

lemma splat_byte:
  fixes b :: u8
  assumes "i < 4"
  shows "byte_of (ucast b OR push_bit 8 (ucast b) OR push_bit 16 (ucast b) OR push_bit 24 (ucast b)) i = b"
proof (rule bit_word_eqI)
  fix n assume n: "n < LENGTH(8)"
  from assms consider "i = 0" | "i = 1" | "i = 2" | "i = 3" by linarith
  then show "bit (byte_of (ucast b OR push_bit 8 (ucast b) OR push_bit 16 (ucast b) OR push_bit 24 (ucast b)) i) n \<longleftrightarrow> bit b n"
    using n by cases (auto simp: byte_of_def bit_simps dest: bit_u8_lt)
qed

lemma memset_fills:
  assumes "unat dst + unat n + 4 < 2 ^ 32"
  shows "memset m dst c n = Some (filled m dst (ucast c) (unat n), dst)"
proof -
  let ?b = "ucast (c AND 0xff) :: u8"
  have ff: "(0xff :: u32) = mask 8" by (simp add: mask_eq_exp_minus_1)
  have b: "?b = ucast c" unfolding ff by (rule bit_word_eqI) (auto simp: bit_simps)
  have lim: "dst + n = dst + of_nat (unat n)" by simp
  from fill_head_run [OF assms, of 0, where m = m and b = ?b] obtain j where j: "j \<le> unat n"
    "fill_head m dst ?b (dst + of_nat (unat n)) = (filled m dst ?b j, dst + of_nat j)" by auto
  from fill_words_run [OF assms splat_byte j(1), where b = ?b and m = m] obtain i where i: "i \<le> unat n"
    "fill_words (filled m dst ?b j) (dst + of_nat j)
       (ucast ?b OR push_bit 8 (ucast ?b) OR push_bit 16 (ucast ?b) OR push_bit 24 (ucast ?b)) (dst + of_nat (unat n)) =
      Some (filled m dst ?b i, dst + of_nat i)" by auto
  show ?thesis
    unfolding memset_def Let_def lim j(2) prod.case i(2) option.case fill_bytes_run [OF assms i(1)]
    by (simp add: b)
qed

section \<open>Strings\<close>

definition cstr :: "bytes \<Rightarrow> u32 \<Rightarrow> u8 list \<Rightarrow> bool" where
  "cstr m p xs \<longleftrightarrow> (\<forall>i < length xs. m (p + of_nat i) = xs ! i) \<and> m (p + of_nat (length xs)) = 0 \<and> 0 \<notin> set xs"

lemma cstr_Nil: "cstr m p [] \<longleftrightarrow> m p = 0"
  by (simp add: cstr_def)

lemma cstr_Cons: "cstr m p (x # xs) \<longleftrightarrow> m p = x \<and> x \<noteq> 0 \<and> cstr m (p + 1) xs"
proof -
  have "(\<forall>i < Suc (length xs). m (p + of_nat i) = (x # xs) ! i) \<longleftrightarrow>
      m p = x \<and> (\<forall>i < length xs. m (p + 1 + of_nat i) = xs ! i)"
    unfolding All_less_Suc2 by (simp add: ac_simps)
  then show ?thesis by (auto simp: cstr_def ac_simps)
qed

lemma strlen_loop_run: "cstr m p xs \<Longrightarrow> strlen_loop m p n = Some (n + of_nat (length xs))"
proof (induction xs arbitrary: p n)
  case Nil
  then show ?case by (subst strlen_loop.simps) (simp add: cstr_Nil)
next
  case (Cons x xs)
  then show ?case by (subst strlen_loop.simps) (simp add: cstr_Cons ac_simps)
qed

lemma strlen_length: "cstr m p xs \<Longrightarrow> strlen m p = Some (of_nat (length xs))"
  by (simp add: strlen_def strlen_loop_run)

lemma strchr_run:
  "cstr m p xs \<Longrightarrow> strchr m p c =
     Some (case find (\<lambda>i. scast (xs ! i) = c) [0..<length xs] of None \<Rightarrow> 0 | Some i \<Rightarrow> p + of_nat i)"
proof (induction xs arbitrary: p)
  case Nil
  then show ?case by (subst strchr.simps) (simp add: cstr_Nil)
next
  case (Cons x xs)
  have f: "find P (map Suc is) = map_option Suc (find (P \<circ> Suc) is)" for P "is" by (induction "is") auto
  have up: "[0..<length (x # xs)] = 0 # map Suc [0..<length xs]"
    by (simp add: map_Suc_upt upt_conv_Cons del: upt_Suc)
  have cmp: "(\<lambda>i. scast ((x # xs) ! i) = c) \<circ> Suc = (\<lambda>i. scast (xs ! i) = c)" by (simp add: fun_eq_iff)
  show ?case
  proof (cases "scast x = c")
    case True
    with Cons.prems show ?thesis unfolding up by (subst strchr.simps) (simp add: cstr_Cons)
  next
    case False
    with Cons.prems Cons.IH [of "p + 1"] show ?thesis
      unfolding up by (subst strchr.simps) (auto simp: cstr_Cons f cmp ac_simps split: option.splits)
  qed
qed

text \<open>The order of strings that \<^verbatim>\<open>strcmp\<close> computes: the first difference decides, as sign-extended words.\<close>

fun str_order :: "u8 list \<Rightarrow> u8 list \<Rightarrow> int" where
  "str_order [] [] = 0"
| "str_order [] (y # ys) = - 1"
| "str_order (x # xs) [] = 1"
| "str_order (x # xs) (y # ys) =
     (if x = y then str_order xs ys else if (scast x :: u32) < scast y then - 1 else 1)"

lemma scast_u8_inj: "(scast (x :: u8) :: u32) = scast y \<longleftrightarrow> x = y"
proof
  assume "(scast x :: u32) = scast y"
  then have b: "bit (scast x :: u32) n = bit (scast y :: u32) n" for n by simp
  have "bit x n = bit y n" if "n < 8" for n
    using b [of n] that by (cases "n = 7") (auto simp: bit_simps)
  then show "x = y" by (auto intro: bit_word_eqI)
qed simp

lemma scast_zero_less: "x \<noteq> 0 \<Longrightarrow> (0 :: u32) < scast (x :: u8)"
  using scast_u8_inj [of x 0] by (simp add: word_neq_0_conv [symmetric])

lemma str_order_0: "str_order xs ys = 0 \<longleftrightarrow> xs = ys"
  by (induction xs ys rule: str_order.induct) auto

lemma str_order_swap: "str_order ys xs = - str_order xs ys"
proof (induction xs ys rule: str_order.induct)
  case (4 x xs y ys)
  have "x \<noteq> y \<Longrightarrow> (scast x :: u32) < scast y \<longleftrightarrow> \<not> (scast y :: u32) < scast x"
    using scast_u8_inj [of x y] by (auto simp: not_less order.order_iff_strict)
  with 4 show ?case by auto
qed auto

text \<open>
  \<^verbatim>\<open>strcmp\<close> on two terminated strings returns, with a value that is 0 exactly when the
  strings are equal, and otherwise given by the first byte in which they differ; swapping the
  arguments swaps the sign.
\<close>
theorem strcmp_orders:
  assumes "cstr m p xs" "cstr m q ys"
  shows "strcmp m p q = Some (str_order xs ys) \<and> strcmp m q p = Some (- str_order xs ys) \<and>
     (strcmp m p q = Some 0 \<longleftrightarrow> xs = ys)"
proof -
  have run: "strcmp m p q = Some (str_order xs ys)" if "cstr m p xs" "cstr m q ys" for p q xs ys
    using that
  proof (induction xs ys arbitrary: p q rule: str_order.induct)
    case 1
    then show ?case by (subst strcmp.simps) (simp add: cstr_Nil)
  next
    case (2 y ys)
    then show ?case using scast_zero_less [of y] by (subst strcmp.simps) (simp add: cstr_Nil cstr_Cons)
  next
    case (3 x xs)
    then show ?case using scast_zero_less [of x] by (subst strcmp.simps) (auto simp: cstr_Nil cstr_Cons)
  next
    case (4 x xs y ys)
    show ?case
    proof (cases "x = y")
      case True
      with 4 show ?thesis by (subst strcmp.simps) (simp add: cstr_Cons)
    next
      case False
      with scast_u8_inj [of x y] 4(2,3) show ?thesis
        by (subst strcmp.simps) (auto simp: cstr_Cons not_less order.order_iff_strict)
    qed
  qed
  from run [OF assms] run [OF assms(2,1)] show ?thesis
    using str_order_swap [of ys xs] str_order_0 by auto
qed

theorem strcmp_orders_witness:
  "strcmp (\<lambda>a. if a = 16 then 0x61 else if a = 32 then 0x61 else if a = 33 then 0x62 else 0) 16 32 = Some (- 1)"
proof -
  let ?m = "\<lambda>a :: u32. if a = 16 then 0x61 else if a = 32 then 0x61 else if a = 33 then 0x62 else (0 :: u8)"
  have "cstr ?m 16 [0x61]" "cstr ?m 32 [0x61, 0x62]" by (simp_all add: cstr_Cons cstr_Nil)
  from strcmp_orders [OF this] show ?thesis by simp
qed

lemma strcpy_loop_run:
  assumes "cstr m src xs" "copy_ok dst src (Suc (length xs))" "k \<le> length xs"
  shows "strcpy_loop (copied m dst src k) (dst + of_nat k) (src + of_nat k) =
     Some (copied m dst src (Suc (length xs)))"
  using assms(3)
proof (induction "length xs - k" arbitrary: k rule: less_induct)
  case less
  let ?n = "Suc (length xs)"
  have st: "(copied m dst src k)(dst + of_nat k := copied m dst src k (src + of_nat k)) = copied m dst src (Suc k)"
    by (rule copy_step [OF assms(2)]) (use less.prems in simp)
  have rd: "copied m dst src k (src + of_nat k) = m (src + of_nat k)"
    by (rule copied_read [OF assms(2)]) (use less.prems in simp_all)
  show ?case
  proof (cases "k = length xs")
    case True
    then have "m (src + of_nat k) = 0" using assms(1) by (simp add: cstr_def)
    with st rd True show ?thesis by (subst strcpy_loop.simps) (simp add: Let_def)
  next
    case False
    then have k: "k < length xs" using less.prems by simp
    then have "m (src + of_nat k) \<noteq> 0" using assms(1) by (auto simp: cstr_def) (metis nth_mem)
    moreover have "strcpy_loop (copied m dst src (Suc k)) (dst + of_nat (Suc k)) (src + of_nat (Suc k)) =
        Some (copied m dst src ?n)"
      by (rule less.hyps) (use k in simp_all)
    ultimately show ?thesis using st rd by (subst strcpy_loop.simps) (simp add: Let_def ac_simps)
  qed
qed

lemma strcpy_copies:
  assumes "cstr m src xs" "copy_ok dst src (Suc (length xs))"
  shows "strcpy m dst src = Some (copied m dst src (Suc (length xs)), dst)"
  using strcpy_loop_run [OF assms, of 0] by (simp add: strcpy_def)

end
