(* ===== verification/Print.thy ===== *)
theory Print
  imports Cstring
begin

text \<open>
  \<^verbatim>\<open>lib/print.c\<close>: formatted output. The calls of the \<^verbatim>\<open>out\<close> callback are collected as a
  list of chunks. A format is its bytes without the terminator; the variadic arguments are a list of
  words (\<^verbatim>\<open>int\<close>, \<^verbatim>\<open>long\<close> and pointers all have 32 bits here, so the long flag does
  not change what is read). \<open>None\<close> stands for what C leaves undefined: a missing argument, or
  an unterminated string. \<^verbatim>\<open>int\<close> counters that C must not overflow are natural numbers.
\<close>

type_synonym chunks = "u8 list list"

abbreviation sp :: u8 where "sp \<equiv> 0x20"
abbreviation zero_ch :: u8 where "zero_ch \<equiv> 0x30"
abbreviation minus_ch :: u8 where "minus_ch \<equiv> 0x2D"

section \<open>Characters and strings\<close>

definition print_char :: "u8 \<Rightarrow> nat \<Rightarrow> bool \<Rightarrow> chunks" where
  "print_char c width ladjust =
     (let n = (if width < 1 then 1 else width) in
      if ladjust then [c] # replicate (n - 1) [sp] else replicate (n - 1) [sp] @ [[c]])"

definition print_str :: "bytes \<Rightarrow> u32 \<Rightarrow> nat \<Rightarrow> bool \<Rightarrow> chunks option" where
  "print_str m s width ladjust =
     (case strlen_loop m s 0 of
        None \<Rightarrow> None
      | Some l \<Rightarrow>
          let len = unat l; n = (if width < len then len else width);
              str = map (\<lambda>i. m (s + of_nat i)) [0..<len]
          in Some (if ladjust then str # replicate (n - len) [sp] else replicate (n - len) [sp] @ [str]))"

section \<open>Numbers\<close>

definition digit_char :: "bool \<Rightarrow> u32 \<Rightarrow> u8" where
  "digit_char upcase tmp =
     (if tmp \<le> 9 then 0x30 + ucast tmp
      else if upcase then 0x41 + ucast tmp - 10 else 0x61 + ucast tmp - 10)"

text \<open>\<^verbatim>\<open>do ... while (u != 0)\<close>: the digits go into \<^verbatim>\<open>buf\<close> with the lowest first.\<close>

partial_function (option) put_digits :: "u32 \<Rightarrow> bool \<Rightarrow> u32 \<Rightarrow> u8 list \<Rightarrow> nat \<Rightarrow> (u8 list \<times> nat) option" where
  "put_digits base upcase u buf p =
     (let buf' = buf[p := digit_char upcase (u mod base)]; u' = u div base in
      if u' \<noteq> 0 then put_digits base upcase u' buf' (Suc p) else Some (buf', Suc p))"

definition pad_range :: "nat \<Rightarrow> nat \<Rightarrow> u8 \<Rightarrow> u8 list \<Rightarrow> u8 list" where
  "pad_range i j c buf = fold (\<lambda>k b. b[k := c]) [i..<j] buf"

function reverse_range :: "nat \<Rightarrow> nat \<Rightarrow> u8 list \<Rightarrow> u8 list" where
  "reverse_range start stop buf =
     (if start < stop
      then reverse_range (start + 1) (stop - 1) (buf[start := buf ! stop, stop := buf ! start]) else buf)"
  by pat_completeness auto
termination by (relation "measure (\<lambda>(i, j, b). j - i)") auto
declare reverse_range.simps [simp del]

definition print_num :: "u32 \<Rightarrow> u32 \<Rightarrow> bool \<Rightarrow> nat \<Rightarrow> bool \<Rightarrow> u8 \<Rightarrow> bool \<Rightarrow> u8 list option" where
  "print_num u base neg_flag width ladjust padc upcase =
     (case put_digits base upcase u (replicate (width + 70) 0) 0 of
        None \<Rightarrow> None
      | Some (buf1, p) \<Rightarrow>
          let (buf2, actual) = (if neg_flag then (buf1[p := minus_ch], p + 1) else (buf1, p));
              n = (if width < actual then actual else width);
              pc = (if ladjust then sp else padc);
              buf3 = (if neg_flag \<and> \<not> ladjust \<and> pc = zero_ch
                      then (pad_range (actual - 1) (n - 1) pc buf2)[n - 1 := minus_ch]
                      else pad_range actual n pc buf2);
              stop = (if ladjust then actual - 1 else n - 1)
          in Some (take n (reverse_range 0 stop buf3)))"

section \<open>Formats\<close>

text \<open>One conversion: flags, width and the long modifiers, up to the conversion character.\<close>

record conv =
  c_ladjust :: bool
  c_padc :: u8
  c_width :: nat
  c_long :: bool

definition is_digit :: "u8 \<Rightarrow> bool" where "is_digit c \<longleftrightarrow> 0x30 \<le> c \<and> c \<le> 0x39"

fun scan_width :: "u8 list \<Rightarrow> nat \<Rightarrow> nat \<times> u8 list" where
  "scan_width [] w = (w, [])"
| "scan_width (c # cs) w = (if is_digit c then scan_width cs (w * 10 + unat c - 0x30) else (w, c # cs))"

definition skip_if :: "u8 \<Rightarrow> u8 list \<Rightarrow> bool \<times> u8 list" where
  "skip_if c fmt = (case fmt of [] \<Rightarrow> (False, []) | d # ds \<Rightarrow> if d = c then (True, ds) else (False, fmt))"

definition scan_conv :: "u8 list \<Rightarrow> conv \<times> u8 list" where
  "scan_conv fmt =
     (let (ladjust, f1) = skip_if 0x2D fmt;
          (zero, f2) = skip_if 0x30 f1;
          (width, f3) = scan_width f2 0;
          (l1, f4) = skip_if 0x6C f3;
          (l2, f5) = skip_if 0x6C f4
      in (\<lparr>c_ladjust = ladjust, c_padc = (if zero then zero_ch else sp), c_width = width,
           c_long = (l1 \<or> l2)\<rparr>, f5))"

text \<open>What the switch on the conversion character prints, and the arguments it leaves.\<close>

definition print_conv :: "bytes \<Rightarrow> conv \<Rightarrow> u8 \<Rightarrow> u32 list \<Rightarrow> (chunks \<times> u32 list) option" where
  "print_conv m k c args =
     (let num = (\<lambda>base upcase. case args of
            [] \<Rightarrow> None
          | a # as \<Rightarrow> map_option (\<lambda>b. ([b], as))
              (print_num a base False (c_width k) (c_ladjust k) (c_padc k) upcase))
      in
      if c = 0x62 then num 2 False
      else if c = 0x64 \<or> c = 0x44 then
        (case args of
           [] \<Rightarrow> None
         | a # as \<Rightarrow> map_option (\<lambda>b. ([b], as))
             (if sint a < 0
              then print_num (- a) 10 True (c_width k) (c_ladjust k) (c_padc k) False
              else print_num a 10 False (c_width k) (c_ladjust k) (c_padc k) False))
      else if c = 0x6F \<or> c = 0x4F then num 8 False
      else if c = 0x75 \<or> c = 0x55 then num 10 False
      else if c = 0x78 then num 16 False
      else if c = 0x58 then num 16 True
      else if c = 0x63 then
        (case args of [] \<Rightarrow> None
         | a # as \<Rightarrow> Some (print_char (ucast a) (c_width k) (c_ladjust k), as))
      else if c = 0x73 then
        (case args of [] \<Rightarrow> None
         | a # as \<Rightarrow> map_option (\<lambda>b. (b, as)) (print_str m a (c_width k) (c_ladjust k)))
      else Some ([[c]], args))"

lemma skip_if_le: "length (snd (skip_if c fmt)) \<le> length fmt"
  by (cases fmt) (auto simp: skip_if_def)

lemma scan_width_le: "length (snd (scan_width fmt w)) \<le> length fmt"
proof (induction fmt w rule: scan_width.induct)
  case (2 c cs w)
  then show ?case by (cases "is_digit c") (auto intro: order_trans)
qed simp

lemma scan_conv_le: "length (snd (scan_conv fmt)) \<le> length fmt"
proof -
  obtain a f1 b f2 w f3 l1 f4 l2 f5 where s: "skip_if 0x2D fmt = (a, f1)" "skip_if 0x30 f1 = (b, f2)"
    "scan_width f2 0 = (w, f3)" "skip_if 0x6C f3 = (l1, f4)" "skip_if 0x6C f4 = (l2, f5)"
    by (metis surj_pair)
  have "length f5 \<le> length f4" "length f4 \<le> length f3" "length f3 \<le> length f2"
    "length f2 \<le> length f1" "length f1 \<le> length fmt"
    using s skip_if_le scan_width_le by (metis snd_conv)+
  then show ?thesis by (simp add: scan_conv_def s)
qed

function vprintfmt :: "bytes \<Rightarrow> u8 list \<Rightarrow> u32 list \<Rightarrow> chunks option" where
  "vprintfmt m fmt args =
     (case fmt of
        [] \<Rightarrow> Some []
      | c # cs \<Rightarrow>
          if c \<noteq> 0x25 then map_option ((#) [c]) (vprintfmt m cs args)
          else
            (case snd (scan_conv cs) of
               [] \<Rightarrow> Some []
             | d # ds \<Rightarrow>
                 (case print_conv m (fst (scan_conv cs)) d args of
                    None \<Rightarrow> None
                  | Some (out, args') \<Rightarrow> map_option ((@) out) (vprintfmt m ds args'))))"
  by pat_completeness auto
termination
proof (relation "measure (\<lambda>(m, fmt, args). length fmt)")
  fix fmt :: "u8 list" and c cs d ds
  assume "fmt = c # cs" "snd (scan_conv cs) = d # ds"
  with scan_conv_le [of cs] have "length ds < length fmt" by simp
  then show "((m :: bytes, ds, args' :: u32 list), m, fmt, args) \<in> measure (\<lambda>(m, fmt, args). length fmt)" for m args' args
    by simp
qed auto

declare vprintfmt.simps [simp del]

end
