(* ===== verification/Print_Thms.thy ===== *)
theory Print_Thms
  imports Print
begin

text \<open>
  What \<open>print_num\<close> prints: the digits of the number in the base, most significant first,
  with sign and padding in their places; reading the digits back gives the number.
\<close>

section \<open>Buffers\<close>

lemma length_fold_upd: "length (fold (\<lambda>k b. b[k := c]) ks buf) = length buf"
  by (induction ks arbitrary: buf) auto

lemma pad_range_eq:
  "i \<le> j \<Longrightarrow> j \<le> length buf \<Longrightarrow> pad_range i j c buf = take i buf @ replicate (j - i) c @ drop j buf"
proof (induction "j - i" arbitrary: j)
  case 0
  then show ?case by (simp add: pad_range_def)
next
  case (Suc d)
  then obtain j' where j: "j = Suc j'" "i \<le> j'" by (cases j) auto
  have IH: "pad_range i j' c buf = take i buf @ replicate (j' - i) c @ drop j' buf"
    by (rule Suc.hyps(1)) (use Suc j in simp_all)
  have "pad_range i j c buf = (pad_range i j' c buf)[j' := c]" using j by (simp add: pad_range_def)
  also have "\<dots> = take i buf @ replicate (j' - i) c @ (drop j' buf)[0 := c]"
    unfolding IH using j Suc.prems by (simp add: list_update_append)
  also have "(drop j' buf)[0 := c] = c # drop j buf"
    using j Suc.prems by (simp add: Cons_nth_drop_Suc [symmetric])
  also have "replicate (j' - i) c @ c # drop j buf = replicate (j - i) c @ drop j buf"
    using j by (simp add: Suc_diff_le replicate_append_same [symmetric])
  finally show ?case .
qed

lemma reverse_range_nth:
  "j < length buf \<Longrightarrow> length (reverse_range i j buf) = length buf \<and>
     (\<forall>k < length buf. reverse_range i j buf ! k = (if i \<le> k \<and> k \<le> j then buf ! (i + j - k) else buf ! k))"
proof (induction i j buf rule: reverse_range.induct)
  case (1 i j buf)
  show ?case
  proof (cases "i < j")
    case False
    then have "i + j - k = k" if "i \<le> k" "k \<le> j" for k using that by simp
    with False show ?thesis by (subst (1 2) reverse_range.simps) simp
  next
    case True
    let ?b = "buf[i := buf ! j, j := buf ! i]"
    have IH: "length (reverse_range (i + 1) (j - 1) ?b) = length ?b"
      "\<And>k. k < length ?b \<Longrightarrow> reverse_range (i + 1) (j - 1) ?b ! k =
         (if i + 1 \<le> k \<and> k \<le> j - 1 then ?b ! (i + 1 + (j - 1) - k) else ?b ! k)"
      using 1 True by auto
    have e: "reverse_range i j buf = reverse_range (i + 1) (j - 1) ?b"
      using True by (subst reverse_range.simps) simp
    have "reverse_range i j buf ! k = (if i \<le> k \<and> k \<le> j then buf ! (i + j - k) else buf ! k)"
      if k: "k < length buf" for k
    proof -
      consider "k < i \<or> j < k" | "k = i" | "k = j" | "i < k" "k < j" by linarith
      then show ?thesis
        using True 1(2) k IH(2) [of k] unfolding e by cases (auto simp: nth_list_update)
    qed
    then show ?thesis using IH(1) by (simp add: e)
  qed
qed

lemma reverse_prefix:
  assumes "n \<le> length buf" "0 < n"
  shows "reverse_range 0 (n - 1) buf = rev (take n buf) @ drop n buf"
proof (rule nth_equalityI)
  have r: "length (reverse_range 0 (n - 1) buf) = length buf"
    "\<And>k. k < length buf \<Longrightarrow> reverse_range 0 (n - 1) buf ! k = (if k \<le> n - 1 then buf ! (n - 1 - k) else buf ! k)"
    using reverse_range_nth [of "n - 1" buf 0] assms by auto
  then show "length (reverse_range 0 (n - 1) buf) = length (rev (take n buf) @ drop n buf)"
    using assms by simp
  fix k
  assume "k < length (reverse_range 0 (n - 1) buf)"
  then have k: "k < length buf" using r by simp
  show "reverse_range 0 (n - 1) buf ! k = (rev (take n buf) @ drop n buf) ! k"
    using r(2) [OF k] k assms by (auto simp: nth_append rev_nth min_def)
qed

section \<open>Digits\<close>

text \<open>The digits of a number, lowest first.\<close>

fun digits :: "nat \<Rightarrow> nat \<Rightarrow> nat list" where
  "digits b n = (if n < b \<or> b < 2 then [n mod b] else n mod b # digits b (n div b))"

declare digits.simps [simp del]

lemma digits_less: "2 \<le> b \<Longrightarrow> d \<in> set (digits b n) \<Longrightarrow> d < b"
proof (induction b n rule: digits.induct)
  case (1 b n)
  from 1(3) show ?case
    by (subst (asm) digits.simps) (use 1(1,2) in \<open>auto split: if_splits\<close>)
qed

lemma digits_value: "2 \<le> b \<Longrightarrow> foldr (\<lambda>d v. d + b * v) (digits b n) 0 = n"
proof (induction b n rule: digits.induct)
  case (1 b n)
  then show ?case by (subst digits.simps) auto
qed

lemma digits_length: "2 \<le> b \<Longrightarrow> n < 2 ^ k \<Longrightarrow> 0 < k \<Longrightarrow> length (digits b n) \<le> k"
proof (induction k arbitrary: n)
  case (Suc k)
  show ?case
  proof (cases "n < b")
    case True
    then show ?thesis by (subst digits.simps) simp
  next
    case False
    have "n div b \<le> n div 2" using Suc.prems(1) by (simp add: div_le_mono2)
    also have "\<dots> < 2 ^ k" using Suc.prems(2) by simp
    finally have lt: "n div b < 2 ^ k" .
    have "0 < k"
    proof (rule ccontr)
      assume "\<not> 0 < k"
      with Suc.prems False show False by simp
    qed
    with Suc.IH [OF Suc.prems(1) lt] False Suc.prems(1) show ?thesis by (subst digits.simps) simp
  qed
qed simp

definition digit_chars :: "u32 \<Rightarrow> bool \<Rightarrow> u32 \<Rightarrow> u8 list" where
  "digit_chars base upcase u = map (\<lambda>d. digit_char upcase (of_nat d)) (digits (unat base) (unat u))"

lemma digit_chars_rec:
  assumes "2 \<le> unat base"
  shows "digit_chars base upcase u = digit_char upcase (u mod base) #
     (if u div base = 0 then [] else digit_chars base upcase (u div base))"
proof -
  have m: "of_nat (unat u mod unat base) = u mod base" by (simp add: unat_mod [symmetric])
  have z: "u div base = 0 \<longleftrightarrow> unat u < unat base"
    using assms by (simp add: word_eq_iff_unsigned [where ?'a = nat] unat_div div_eq_0_iff)
  have s: "unat u < unat base \<Longrightarrow> u mod base = u"
    by (simp add: word_eq_iff_unsigned [where ?'a = nat] unat_mod)
  show ?thesis
    unfolding digit_chars_def z by (subst digits.simps) (use assms in \<open>auto simp: unat_div m s\<close>)
qed

lemma digit_chars_length: "2 \<le> unat base \<Longrightarrow> length (digit_chars base upcase u) \<le> 32"
  using digits_length [of "unat base" "unat u" 32] unsigned_less [of u, where ?'a = nat]
  by (simp add: digit_chars_def)

lemma put_digits_run:
  assumes "2 \<le> unat base"
  shows "p + length (digit_chars base upcase u) \<le> length buf \<Longrightarrow>
     put_digits base upcase u buf p =
       Some (take p buf @ digit_chars base upcase u @ drop (p + length (digit_chars base upcase u)) buf,
             p + length (digit_chars base upcase u))"
proof (induction "unat u" arbitrary: u p buf rule: less_induct)
  case less
  let ?c = "digit_char upcase (u mod base)"
  note rec = digit_chars_rec [OF assms, of upcase u]
  have p: "p < length buf" using less.prems unfolding rec by simp
  have up: "buf[p := ?c] = take p buf @ ?c # drop (Suc p) buf" using p by (simp add: upd_conv_take_nth_drop)
  show ?case
  proof (cases "u div base = 0")
    case True
    then show ?thesis unfolding rec by (subst put_digits.simps) (simp add: Let_def up)
  next
    case False
    have lt: "unat (u div base) < unat u"
    proof -
      have "unat u \<noteq> 0" using False by (auto simp: unat_eq_0)
      then show ?thesis using assms by (simp add: unat_div)
    qed
    have len: "Suc p + length (digit_chars base upcase (u div base)) \<le> length (buf[p := ?c])"
      using less.prems False unfolding rec by simp
    have "put_digits base upcase (u div base) (buf[p := ?c]) (Suc p) =
       Some (take (Suc p) (buf[p := ?c]) @ digit_chars base upcase (u div base) @
               drop (Suc p + length (digit_chars base upcase (u div base))) (buf[p := ?c]),
             Suc p + length (digit_chars base upcase (u div base)))"
      by (rule less.hyps [OF lt len])
    then show ?thesis using False p unfolding rec
      by (subst put_digits.simps) (simp add: Let_def up add.commute)
  qed
qed

section \<open>The printed number\<close>

definition num_layout :: "u8 list \<Rightarrow> bool \<Rightarrow> nat \<Rightarrow> bool \<Rightarrow> u8 \<Rightarrow> u8 list" where
  "num_layout ds neg width ladjust padc =
     (let sign = (if neg then [minus_ch] else []); fill = width - (length sign + length ds) in
      if ladjust then sign @ ds @ replicate fill sp
      else if neg \<and> padc = zero_ch then sign @ replicate fill padc @ ds
      else replicate fill padc @ sign @ ds)"

lemma print_num_layout_gen:
  assumes "2 \<le> unat base"
  shows "print_num u base neg width ladjust padc upcase =
     Some (num_layout (rev (digit_chars base upcase u)) neg width ladjust padc)"
proof -
  let ?ds = "digit_chars base upcase u" and ?b0 = "replicate (width + 70) (0 :: u8)"
  let ?s = "if neg then [minus_ch] else []"
  define k where "k = length ?ds + length ?s"
  define n where "n = max width k"
  have len: "length ?ds \<le> 32" by (rule digit_chars_length [OF assms])
  have pos: "0 < length ?ds" by (subst digit_chars_rec [OF assms]) simp
  have put: "put_digits base upcase u ?b0 0 = Some (?ds @ drop (length ?ds) ?b0, length ?ds)"
    using put_digits_run [OF assms, of 0 upcase u ?b0] len by simp
  define b2 where "b2 = ?ds @ ?s @ replicate (width + 70 - k) (0 :: u8)"
  have b2: "(if neg then ((?ds @ drop (length ?ds) ?b0)[length ?ds := minus_ch], length ?ds + 1)
        else (?ds @ drop (length ?ds) ?b0, length ?ds)) = (b2, k)"
  proof -
    have "width + 70 - length ?ds = Suc (width + 70 - Suc (length ?ds))" using len by simp
    then have "replicate (width + 70 - length ?ds) (0 :: u8) = 0 # replicate (width + 70 - Suc (length ?ds)) 0"
      by (metis replicate_Suc)
    then show ?thesis by (simp add: b2_def k_def list_update_append)
  qed
  have lb: "length b2 = width + 70" "k \<le> n" "0 < k" "n \<le> width + 70" and tk: "take k b2 = ?ds @ ?s"
    using len pos by (auto simp: b2_def k_def n_def)
  have nn: "(if width < k then k else width) = n" by (simp add: n_def max_def)
  have fill: "n - k = width - (length ?s + length (rev ?ds))" by (simp add: n_def k_def max_def)
  have pad: "pad_range k n c b2 = ?ds @ ?s @ replicate (n - k) c @ drop n b2" for c
    using pad_range_eq [of k n b2 c] lb tk by simp
  consider "ladjust" | "\<not> ladjust" "neg \<and> padc = zero_ch" | "\<not> ladjust" "\<not> (neg \<and> padc = zero_ch)" by blast
  then show ?thesis
  proof cases
    case 1
    have "reverse_range 0 (k - 1) (pad_range k n sp b2) = rev ?s @ rev ?ds @ replicate (n - k) sp @ drop n b2"
      using reverse_prefix [of k "pad_range k n sp b2"] lb unfolding pad by (simp add: k_def)
    with 1 show ?thesis using lb
      unfolding print_num_def put option.case prod.case b2 Let_def nn num_layout_def fill [symmetric]
      by (auto simp: k_def)
  next
    case 2
    then have k: "k = Suc (length ?ds)" and "neg" by (simp_all add: k_def)
    have "pad_range (k - 1) (n - 1) padc b2 = ?ds @ replicate (n - k) padc @ drop (n - 1) b2"
      using pad_range_eq [of "k - 1" "n - 1" b2 padc] lb k by (simp add: b2_def)
    moreover have "drop (n - 1) b2 = b2 ! (n - 1) # drop n b2"
      using lb Cons_nth_drop_Suc [of "n - 1" b2] by simp
    ultimately have e: "pad_range (k - 1) (n - 1) padc b2 = ?ds @ replicate (n - k) padc @ b2 ! (n - 1) # drop n b2"
      by simp
    have p: "(pad_range (k - 1) (n - 1) padc b2)[n - 1 := minus_ch] =
        ?ds @ replicate (n - k) padc @ minus_ch # drop n b2"
    proof -
      have "\<not> n - 1 < length ?ds" "\<not> n - 1 < length ?ds + (n - k)" "n - 1 = length ?ds + (n - k)" using lb k by auto
      then show ?thesis unfolding e by (simp add: list_update_append)
    qed
    have "reverse_range 0 (n - 1) (?ds @ replicate (n - k) padc @ minus_ch # drop n b2) =
        minus_ch # replicate (n - k) padc @ rev ?ds @ drop n b2"
      using reverse_prefix [of n "?ds @ replicate (n - k) padc @ minus_ch # drop n b2"] lb k by simp
    moreover have "take n (minus_ch # replicate (n - k) padc @ rev ?ds @ drop n b2) =
        minus_ch # replicate (n - k) padc @ rev ?ds" using lb k by (cases n) simp_all
    ultimately show ?thesis using 2 p lb k
      unfolding print_num_def put option.case prod.case b2 Let_def nn num_layout_def fill [symmetric]
      by simp
  next
    case 3
    have "reverse_range 0 (n - 1) (pad_range k n padc b2) = replicate (n - k) padc @ rev ?s @ rev ?ds @ drop n b2"
      using reverse_prefix [of n "pad_range k n padc b2"] lb unfolding pad by (simp add: k_def)
    with 3 show ?thesis using lb
      unfolding print_num_def put option.case prod.case b2 Let_def nn num_layout_def fill [symmetric]
      by (auto simp: k_def)
  qed
qed

text \<open>
  \<^verbatim>\<open>print_num\<close> returns for every number, base from 2 on, width and flags: its output
  is the digits, most significant first, padded to the width: on the right with spaces when left
  adjusted, with zeros between the sign and the digits when padded with zeros, and on the left
  otherwise. Its buffer of \<^verbatim>\<open>length + 70\<close> bytes is never exceeded.
\<close>
theorem print_num_layout:
  assumes "2 \<le> unat base"
  shows "print_num u base neg width ladjust padc upcase =
     Some (num_layout (rev (digit_chars base upcase u)) neg width ladjust padc)"
  by (rule print_num_layout_gen [OF assms])

theorem print_num_layout_witness:
  "print_num 42 16 True 6 False zero_ch True = Some [minus_ch, 0x30, 0x30, 0x30, 0x32, 0x41]"
proof -
  have d: "digits 16 42 = [10, 2]" by (subst digits.simps, simp, subst digits.simps, simp)
  from print_num_layout [where base = 16 and u = 42 and neg = True and width = 6 and ladjust = False
      and padc = zero_ch and upcase = True] show ?thesis
    by (simp add: digit_chars_def d num_layout_def digit_char_def numeral_3_eq_3)
qed

section \<open>Reading a printed number back\<close>

definition dec_value :: "u8 list \<Rightarrow> int" where
  "dec_value cs = foldl (\<lambda>v c. 10 * v + (int (unat c) - 0x30)) 0 cs"

definition parse_dec :: "u8 list \<Rightarrow> int" where
  "parse_dec cs = (case cs of [] \<Rightarrow> 0 | c # ds \<Rightarrow> if c = minus_ch then - dec_value ds else dec_value cs)"

lemma digit_char_small: "d < 10 \<Longrightarrow> unat (digit_char up (of_nat d)) = 0x30 + d"
  by (simp add: digit_char_def word_le_nat_alt unat_of_nat take_bit_eq_mod unat_word_ariths unsigned_ucast_eq)

lemma dec_value_digits:
  "dec_value (rev (map (\<lambda>d. digit_char up (of_nat d)) ds)) = int (foldr (\<lambda>d v. d + 10 * v) ds 0)"
  if "\<forall>d \<in> set ds. d < 10"
  using that
proof (induction ds)
  case Nil
  then show ?case by (simp add: dec_value_def)
next
  case (Cons d ds)
  then have "dec_value (rev (map (\<lambda>d. digit_char up (of_nat d)) ds)) = int (foldr (\<lambda>d v. d + 10 * v) ds 0)" by simp
  moreover have "d < 10" using Cons.prems by simp
  moreover from this have "int (unat (digit_char up (of_nat d))) - 0x30 = int d" by (simp add: digit_char_small)
  ultimately show ?case by (simp add: dec_value_def del: int_nat_eq)
qed

lemma dec_value_chars: "dec_value (rev (digit_chars 10 up u)) = int (unat u)"
proof -
  have b: "unat (10 :: u32) = 10" by simp
  have "\<forall>d \<in> set (digits 10 (unat u)). d < 10" using digits_less [of 10 _ "unat u"] by auto
  from dec_value_digits [OF this, of up] show ?thesis
    by (simp add: digit_chars_def b digits_value)
qed

lemma digit_chars_not_minus: "c \<in> set (digit_chars 10 up u) \<Longrightarrow> c \<noteq> minus_ch"
proof -
  assume "c \<in> set (digit_chars 10 up u)"
  then obtain d where d: "d \<in> set (digits 10 (unat u))" "c = digit_char up (of_nat d)"
    by (auto simp: digit_chars_def)
  then have "unat c = 0x30 + d" using digits_less [of 10 d "unat u"] digit_char_small by simp
  then show ?thesis by auto
qed

lemma unat_abs: "sint (a :: u32) < 0 \<Longrightarrow> int (unat (- a)) = - sint a" "\<not> sint a < 0 \<Longrightarrow> int (unat a) = sint a"
proof -
  have u: "uint a = sint a mod 2 ^ 32" by (simp add: uint_sint take_bit_eq_mod)
  have r: "- (2 ^ 31) \<le> sint a" "sint a < 2 ^ 31" using sint_ge [of a] sint_less [of a] by simp_all
  show "int (unat (- a)) = - sint a" if n: "sint a < 0"
  proof -
    have "int (unat (- a)) = (- uint a) mod 2 ^ 32" by (simp add: uint_word_ariths)
    also have "\<dots> = (- sint a) mod 2 ^ 32" unfolding u by (rule mod_minus_eq)
    also have "\<dots> = - sint a" using n r by (intro mod_pos_pos_trivial) auto
    finally show ?thesis .
  qed
  show "int (unat a) = sint a" if "\<not> sint a < 0"
  proof -
    have "sint a mod 2 ^ 32 = sint a" using that r by (intro mod_pos_pos_trivial) auto
    with u show ?thesis by simp
  qed
qed

lemma vprintfmt_Nil [simp]: "vprintfmt m [] args = Some []"
  by (subst vprintfmt.simps) simp

lemma print_d:
  "vprintfmt m [0x25, 0x64] [a] = Some [num_layout (rev (digit_chars 10 False (if sint a < 0 then - a else a)))
     (sint a < 0) 0 False sp]"
proof -
  have sc: "scan_conv [0x64] = (\<lparr>c_ladjust = False, c_padc = sp, c_width = 0, c_long = False\<rparr>, [0x64])"
    by (simp add: scan_conv_def skip_if_def is_digit_def)
  have b: "2 \<le> unat (10 :: u32)" by simp
  show ?thesis
    by (subst vprintfmt.simps) (simp add: sc print_conv_def print_num_layout_gen [OF b])
qed

text \<open>
  C24. Printing any \<^verbatim>\<open>int\<close> with \<^verbatim>\<open>%d\<close> succeeds, in one call of the output function, and
  reading the printed text back as a decimal number gives the same \<^verbatim>\<open>int\<close>, for the smallest
  one too, whose negation in \<^verbatim>\<open>vprintfmt\<close> wraps around.
\<close>
theorem print_decimal_roundtrip:
  "\<exists>out. vprintfmt m [0x25, 0x64] [a] = Some [out] \<and> parse_dec out = sint a"
proof -
  let ?u = "if sint a < 0 then - a else a"
  let ?ds = "rev (digit_chars 10 False ?u)"
  obtain c cs where c: "?ds = c # cs" by (cases ?ds) (use digit_chars_rec [of 10 False ?u] in auto)
  then have "c \<in> set (digit_chars 10 False ?u)" by (metis list.set_intros(1) set_rev)
  then have nm: "c \<noteq> minus_ch" by (rule digit_chars_not_minus)
  have v: "dec_value ?ds = int (unat ?u)" by (rule dec_value_chars)
  have "parse_dec (num_layout ?ds (sint a < 0) 0 False sp) = sint a"
  proof (cases "sint a < 0")
    case True
    with v unat_abs(1) show ?thesis by (simp add: num_layout_def parse_dec_def)
  next
    case False
    with v unat_abs(2) nm c show ?thesis by (simp add: num_layout_def parse_dec_def)
  qed
  then show ?thesis unfolding print_d by blast
qed

end
