(* ===== verification/Serv.thy ===== *)
theory Serv
  imports Fs
begin

text \<open>
  The file system server's request loop, \<^verbatim>\<open>fs/serv.c\<close>: the table of open files and one
  handler per request.

  The server's state is the file system (\<open>fsys\<close>), \<^verbatim>\<open>opentab\<close>, the reference counts of the
  pages it maps (\<^verbatim>\<open>pages[].pp_ref\<close>, which \<^verbatim>\<open>pageref\<close> reads) and the replies sent so
  far, as arguments of \<^verbatim>\<open>ipc_send\<close>. A page sent with a reply is mapped by the client, which
  adds a reference.
\<close>

record open_file =
  o_file :: u32
  o_fileid :: u32
  o_mode :: u32
  o_ff :: u32

record reply =
  r_to :: u32
  r_value :: u32
  r_srcva :: u32
  r_perm :: u32

record serv =
  sys :: fsys
  opentab :: "nat \<Rightarrow> open_file"
  urefs :: "nat \<Rightarrow> nat"
  replies :: "reply list"

type_synonym 'a servM = "(serv, 'a) kprog"

definition MAXOPEN :: u32 where "MAXOPEN = 1024"
definition FILEVA :: u32 where "FILEVA = 0x60000000"
definition REQVA :: u32 where "REQVA = 0x0ffff000"
definition DEV_FILE :: u32 where "DEV_FILE = 0x66"
definition MAXPATHLEN :: u32 where "MAXPATHLEN = 1024"

text \<open>The file system code runs on its part of the state.\<close>

definition fsK :: "'a fsM \<Rightarrow> 'a servM" where
  "fsK m s = (case m (sys s) of
      Done a t \<Rightarrow> Done a (s\<lparr>sys := t\<rparr>) | Panic msg \<Rightarrow> Panic msg | Away t \<Rightarrow> Away (s\<lparr>sys := t\<rparr>))"

text \<open>A code an \<^verbatim>\<open>int\<close> function returned, as the word that is sent.\<close>

definition reply_code :: "err + 'a \<Rightarrow> u32" where
  "reply_code r = of_int (ret_code r)"

definition ipc_send :: "u32 \<Rightarrow> u32 \<Rightarrow> u32 \<Rightarrow> u32 \<Rightarrow> unit servM" where
  "ipc_send whom val srcva perm =
     modifyK (\<lambda>s. s\<lparr>replies := replies s @ [\<lparr>r_to = whom, r_value = val, r_srcva = srcva, r_perm = perm\<rparr>],
       urefs := (if srcva = 0 then urefs s else (urefs s)(VPN srcva := Suc (urefs s (VPN srcva))))\<rparr>)"

definition pageref :: "u32 \<Rightarrow> serv \<Rightarrow> nat" where
  "pageref v s = (if upages (sys s) (VPN v) = None then 0 else urefs s (VPN v))"

definition serv_mem_alloc :: "u32 \<Rightarrow> (err + unit) servM" where
  "serv_mem_alloc va =
     tryK (fsK (u_mem_alloc va)) (\<lambda>_.
     seqK (modifyK (\<lambda>s. s\<lparr>urefs := (urefs s)(VPN va := 1)\<rparr>)) (retK (Inr ())))"

section \<open>The table of open files\<close>

definition serve_init :: "unit servM" where
  "serve_init =
     forK [0..<unat MAXOPEN] (\<lambda>i. modifyK (\<lambda>s. s\<lparr>opentab := (opentab s)(i := (opentab s i)
       \<lparr>o_fileid := of_nat i, o_ff := FILEVA + of_nat i * BY2PG\<rparr>)\<rparr>))"

text \<open>\<^verbatim>\<open>memset(va, 0, BY2PG)\<close> on a page.\<close>

definition zero_page :: "u32 \<Rightarrow> unit servM" where
  "zero_page va = fsK (seqK (touch va) (modifyK (\<lambda>s. s\<lparr>upages := (upages s)(VPN va \<mapsto> (\<lambda>_. 0))\<rparr>)))"

text \<open>The body of \<^verbatim>\<open>case 1\<close>: the entry gets a new file id and a cleared page.\<close>

definition open_take :: "nat \<Rightarrow> (err + u32 \<times> nat) servM" where
  "open_take i =
     seqK (modifyK (\<lambda>s. s\<lparr>opentab := (opentab s)(i := (opentab s i)\<lparr>o_fileid := o_fileid (opentab s i) + MAXOPEN\<rparr>)\<rparr>))
    (bindK (getsK (\<lambda>s. o_ff (opentab s i))) (\<lambda>ff.
     seqK (zero_page ff)
    (bindK (getsK (\<lambda>s. o_fileid (opentab s i))) (\<lambda>fid. retK (Inr (fid, i))))))"

fun open_scan :: "nat list \<Rightarrow> (err + u32 \<times> nat) servM" where
  "open_scan [] = retK (Inl E_MAX_OPEN)"
| "open_scan (i # is) =
     bindK (getsK (\<lambda>s. o_ff (opentab s i))) (\<lambda>ff.
     bindK (getsK (pageref ff)) (\<lambda>n.
     if n = 0 then tryK (serv_mem_alloc ff) (\<lambda>_. open_take i)
     else if n = 1 then open_take i
     else open_scan is))"

definition open_alloc :: "(err + u32 \<times> nat) servM" where
  "open_alloc = open_scan [0..<unat MAXOPEN]"

definition open_lookup :: "u32 \<Rightarrow> u32 \<Rightarrow> (err + nat) servM" where
  "open_lookup envid fileid =
     (let i = unat (fileid mod MAXOPEN) in
      bindK (getsK (\<lambda>s. opentab s i)) (\<lambda>ob.
      bindK (getsK (pageref (o_ff ob))) (\<lambda>n.
      if n = 1 \<or> o_fileid ob \<noteq> fileid then retK (Inl E_INVAL) else retK (Inr i))))"

section \<open>Requests\<close>

text \<open>
  A path in the request page, read up to its terminator; a page that has none is outside the
  model (the source would read on into the next page).
\<close>

fun ld_path :: "nat \<Rightarrow> u32 \<Rightarrow> (u8 list) fsM" where
  "ld_path 0 p = panicK ''unterminated path''"
| "ld_path (Suc k) p =
     bindK (ldb p) (\<lambda>c. if c = 0 then retK [] else bindK (ld_path k (p + 1)) (\<lambda>cs. retK (c # cs)))"

fun copy_words_u :: "nat \<Rightarrow> u32 \<Rightarrow> u32 \<Rightarrow> unit fsM" where
  "copy_words_u 0 dst src = retK ()"
| "copy_words_u (Suc k) dst src =
     bindK (ldw src) (\<lambda>w. seqK (stw dst w) (copy_words_u k (dst + 4) (src + 4)))"

text \<open>The \<^verbatim>\<open>int\<close> a failing or succeeding \<^verbatim>\<open>open_alloc\<close> returns; a file id from \<open>2 ^ 31\<close> on is negative.\<close>

definition open_code :: "err + u32 \<times> nat \<Rightarrow> u32" where
  "open_code r = (case r of Inl e \<Rightarrow> - of_int (errno e) | Inr (fid, _) \<Rightarrow> fid)"

definition serve_open :: "u32 \<Rightarrow> u32 \<Rightarrow> unit servM" where
  "serve_open envid rq =
     bindK open_alloc (\<lambda>r.
     seqK (if sint (open_code r) < 0 then ipc_send envid (open_code r) 0 0 else retK ())
    (bindK (fsK (ld_path 4096 rq)) (\<lambda>path.
     bindK (fsK (file_open path)) (\<lambda>q. case q of
       Inl e \<Rightarrow> ipc_send envid (- of_int (errno e)) 0 0
     | Inr f \<Rightarrow>
         (case r of
            Inl _ \<Rightarrow> panicK ''store through an uninitialised pointer''
          | Inr (_, i) \<Rightarrow>
              seqK (modifyK (\<lambda>s. s\<lparr>opentab := (opentab s)(i := (opentab s i)\<lparr>o_file := f\<rparr>)\<rparr>))
             (bindK (getsK (\<lambda>s. opentab s i)) (\<lambda>ob.
              let ff = o_ff ob in
              seqK (fsK (copy_words_u 64 (ff + 16) f))
             (seqK (fsK (stw (ff + 12) (o_fileid ob)))
             (bindK (fsK (ldw (rq + MAXPATHLEN))) (\<lambda>mode.
              seqK (modifyK (\<lambda>s. s\<lparr>opentab := (opentab s)(i := (opentab s i)\<lparr>o_mode := mode\<rparr>)\<rparr>))
             (seqK (fsK (stw (ff + 8) mode))
             (seqK (fsK (stw ff DEV_FILE))
                   (ipc_send envid 0 ff (PTE_D OR PTE_LIBRARY))))))))))))))"

definition serve_map :: "u32 \<Rightarrow> u32 \<Rightarrow> unit servM" where
  "serve_map envid rq =
     bindK (fsK (ldw rq)) (\<lambda>fileid.
     bindK (open_lookup envid fileid) (\<lambda>r. case r of
       Inl e \<Rightarrow> ipc_send envid (- of_int (errno e)) 0 0
     | Inr i \<Rightarrow>
         bindK (fsK (ldw (rq + 4))) (\<lambda>offset.
         bindK (getsK (\<lambda>s. o_file (opentab s i))) (\<lambda>f.
         bindK (fsK (file_get_block f (offset div BY2BLK))) (\<lambda>q. case q of
           Inl e \<Rightarrow> ipc_send envid (- of_int (errno e)) 0 0
         | Inr blk \<Rightarrow> ipc_send envid 0 blk (PTE_D OR PTE_LIBRARY))))))"

definition serve_set_size :: "u32 \<Rightarrow> u32 \<Rightarrow> unit servM" where
  "serve_set_size envid rq =
     bindK (fsK (ldw rq)) (\<lambda>fileid.
     bindK (open_lookup envid fileid) (\<lambda>r. case r of
       Inl e \<Rightarrow> ipc_send envid (- of_int (errno e)) 0 0
     | Inr i \<Rightarrow>
         bindK (fsK (ldw (rq + 4))) (\<lambda>sz.
         bindK (getsK (\<lambda>s. o_file (opentab s i))) (\<lambda>f.
         bindK (fsK (file_set_size f sz)) (\<lambda>q. case q of
           Inl e \<Rightarrow> ipc_send envid (- of_int (errno e)) 0 0
         | Inr _ \<Rightarrow> ipc_send envid 0 0 0)))))"

definition serve_close :: "u32 \<Rightarrow> u32 \<Rightarrow> unit servM" where
  "serve_close envid rq =
     bindK (fsK (ldw rq)) (\<lambda>fileid.
     bindK (open_lookup envid fileid) (\<lambda>r. case r of
       Inl e \<Rightarrow> ipc_send envid (- of_int (errno e)) 0 0
     | Inr i \<Rightarrow>
         bindK (getsK (\<lambda>s. o_file (opentab s i))) (\<lambda>f.
         seqK (fsK (file_close f)) (ipc_send envid 0 0 0))))"

definition serve_remove :: "u32 \<Rightarrow> u32 \<Rightarrow> unit servM" where
  "serve_remove envid rq =
     bindK (fsK (ld_path 4096 rq)) (\<lambda>path.
     bindK (fsK (file_remove path)) (\<lambda>r. ipc_send envid (reply_code r) 0 0))"

definition serve_dirty :: "u32 \<Rightarrow> u32 \<Rightarrow> unit servM" where
  "serve_dirty envid rq =
     bindK (fsK (ldw rq)) (\<lambda>fileid.
     bindK (open_lookup envid fileid) (\<lambda>r. case r of
       Inl e \<Rightarrow> ipc_send envid (- of_int (errno e)) 0 0
     | Inr i \<Rightarrow>
         bindK (fsK (ldw (rq + 4))) (\<lambda>offset.
         bindK (getsK (\<lambda>s. o_file (opentab s i))) (\<lambda>f.
         bindK (fsK (file_dirty f offset)) (\<lambda>q. case q of
           Inl e \<Rightarrow> ipc_send envid (- of_int (errno e)) 0 0
         | Inr _ \<Rightarrow> ipc_send envid 0 0 0)))))"

definition serve_sync :: "u32 \<Rightarrow> unit servM" where
  "serve_sync envid = seqK (fsK fs_sync) (ipc_send envid 0 0 0)"

definition serve_create :: "u32 \<Rightarrow> u32 \<Rightarrow> unit servM" where
  "serve_create envid rq =
     bindK (fsK (ld_path 4096 (rq + 4))) (\<lambda>path.
     bindK (fsK (file_create path)) (\<lambda>r. case r of
       Inl e \<Rightarrow> ipc_send envid (- of_int (errno e)) 0 0
     | Inr f \<Rightarrow>
         bindK (fsK (ldw rq)) (\<lambda>ty.
         seqK (fsK (stw (f_type f) ty)) (ipc_send envid 0 0 0))))"

text \<open>
  One turn of the loop of \<^verbatim>\<open>serve\<close>. \<^verbatim>\<open>ipc_recv\<close> has returned request \<open>req\<close> of
  \<open>whom\<close> with permission \<open>perm\<close>; \<open>page\<close> is the page it mapped at \<^verbatim>\<open>REQVA\<close>, if any.
\<close>

definition dispatch :: "u32 \<Rightarrow> u32 \<Rightarrow> unit servM" where
  "dispatch req whom =
     (if req = 1 then serve_open whom REQVA
      else if req = 2 then serve_map whom REQVA
      else if req = 3 then serve_set_size whom REQVA
      else if req = 4 then serve_close whom REQVA
      else if req = 5 then serve_dirty whom REQVA
      else if req = 6 then serve_remove whom REQVA
      else if req = 7 then serve_sync whom
      else if req = 8 then serve_create whom REQVA
      else retK ())"

definition serve_step :: "u32 \<Rightarrow> u32 \<Rightarrow> u32 \<Rightarrow> frame option \<Rightarrow> unit servM" where
  "serve_step req whom perm page =
     seqK (fsK (modifyK (\<lambda>s. case page of None \<Rightarrow> s | Some fr \<Rightarrow> s\<lparr>upages := (upages s)(VPN REQVA \<mapsto> fr)\<rparr>)))
     (if perm AND PTE_V = 0 then retK ()
      else seqK (dispatch req whom) (bindK (fsK (u_mem_unmap REQVA)) (\<lambda>_. retK ())))"

fun serve :: "(u32 \<times> u32 \<times> u32 \<times> frame option) list \<Rightarrow> unit servM" where
  "serve [] = retK ()"
| "serve ((req, whom, perm, page) # ms) = seqK (serve_step req whom perm page) (serve ms)"

definition serv_main :: "(u32 \<times> u32 \<times> u32 \<times> frame option) list \<Rightarrow> unit servM" where
  "serv_main ms = seqK serve_init (seqK (fsK fs_init) (serve ms))"

end
