(* ===== verification/Serv_Thms.thy ===== *)
theory Serv_Thms
  imports Serv Fs_Thms
begin

text \<open>
  The table of open files: ids and entries, what \<open>open_alloc\<close> hands out and \<open>open_lookup\<close>
  accepts, and a request with an id that was never handed out.
\<close>

section \<open>The table\<close>

definition table_ok :: "serv \<Rightarrow> bool" where
  "table_ok s \<longleftrightarrow> (\<forall>i < 1024. o_fileid (opentab s i) mod 1024 = of_nat i \<and>
     o_ff (opentab s i) = FILEVA + of_nat i * BY2PG)"

lemma ff_VPN: "i < 1024 \<Longrightarrow> VPN (FILEVA + of_nat i * BY2PG) = 0x60000 + i"
proof -
  assume i: "i < 1024"
  have "unat (FILEVA + of_nat i * BY2PG) = 4096 * (0x60000 + i)"
    using i by (simp add: FILEVA_def BY2PG_def unat_word_ariths unat_of_nat take_bit_eq_mod)
  then show ?thesis by (simp only: VPN_alt) simp
qed

lemma ff_alloc_run:
  assumes "i < 1024" "mem_left (sys s) \<noteq> 0"
  shows "\<exists>t. serv_mem_alloc (FILEVA + of_nat i * BY2PG) s = Done (Inr ()) t \<and>
     opentab t = opentab s \<and> upages (sys t) = (upages (sys s))(0x60000 + i \<mapsto> (\<lambda>_. 0)) \<and>
     urefs t = (urefs s)(0x60000 + i := 1) \<and> replies t = replies s"
proof -
  have u: "unat (FILEVA + of_nat i * BY2PG) = 0x60000000 + i * 4096"
    using assms(1) by (simp add: FILEVA_def BY2PG_def unat_word_ariths unat_of_nat take_bit_eq_mod)
  have r: "\<not> FILEVA + of_nat i * BY2PG < UTEMP" "\<not> UTOP \<le> FILEVA + of_nat i * BY2PG"
    unfolding word_less_nat_alt word_le_nat_alt u using assms(1) by (simp_all add: layout_defs)
  show ?thesis
    using r assms by (simp add: serv_mem_alloc_def fsK_def u_mem_alloc_def run_rules ff_VPN)
qed

lemma zero_page_run:
  assumes "upages (sys s) (VPN va) = Some fr"
  shows "zero_page va s = Done () (s\<lparr>sys := (sys s)\<lparr>upages := (upages (sys s))(VPN va \<mapsto> (\<lambda>_. 0))\<rparr>\<rparr>)"
  using touch_run [OF assms] by (simp add: zero_page_def fsK_def run_rules)

lemma open_take_run:
  assumes ok: "table_ok s" and i: "i < 1024" and pg: "upages (sys s) (0x60000 + i) = Some fr"
  shows "\<exists>t. open_take i s = Done (Inr (o_fileid (opentab s i) + 1024, i)) t \<and>
     opentab t = (opentab s)(i := (opentab s i)\<lparr>o_fileid := o_fileid (opentab s i) + 1024\<rparr>) \<and>
     upages (sys t) = (upages (sys s))(0x60000 + i \<mapsto> (\<lambda>_. 0)) \<and> urefs t = urefs s \<and> replies t = replies s"
proof -
  have ff: "o_ff (opentab s i) = FILEVA + of_nat i * BY2PG" using ok i by (simp add: table_ok_def)
  let ?s = "s\<lparr>opentab := (opentab s)(i := (opentab s i)\<lparr>o_fileid := o_fileid (opentab s i) + MAXOPEN\<rparr>)\<rparr>"
  have "upages (sys ?s) (VPN (FILEVA + of_nat i * BY2PG)) = Some fr" using pg ff_VPN [OF i] by simp
  from zero_page_run [OF this] show ?thesis
    using ff ff_VPN [OF i] by (simp add: open_take_def run_rules MAXOPEN_def)
qed

lemma pageref_ff: "table_ok s \<Longrightarrow> i < 1024 \<Longrightarrow> pageref (o_ff (opentab s i)) s =
    (if upages (sys s) (0x60000 + i) = None then 0 else urefs s (0x60000 + i))"
  by (simp add: pageref_def table_ok_def ff_VPN)

text \<open>An entry is available when nobody but the server maps its page.\<close>

definition available :: "serv \<Rightarrow> nat \<Rightarrow> bool" where
  "available s i \<longleftrightarrow> pageref (o_ff (opentab s i)) s \<le> 1"

definition taken :: "nat \<Rightarrow> serv \<Rightarrow> serv \<Rightarrow> bool" where
  "taken i s t \<longleftrightarrow>
     opentab t = (opentab s)(i := (opentab s i)\<lparr>o_fileid := o_fileid (opentab s i) + 1024\<rparr>) \<and>
     upages (sys t) = (upages (sys s))(0x60000 + i \<mapsto> (\<lambda>_. 0)) \<and>
     urefs t = (urefs s)(0x60000 + i := 1) \<and> replies t = replies s"

lemma open_scan_run:
  assumes ok: "table_ok s" and mem: "mem_left (sys s) \<noteq> 0"
    and k: "available s (a + k)" "\<forall>j < k. \<not> available s (a + j)" "a + k < b" "b \<le> 1024"
  shows "\<exists>t. open_scan [a..<b] s = Done (Inr (o_fileid (opentab s (a + k)) + 1024, a + k)) t \<and> taken (a + k) s t"
  using k
proof (induction k arbitrary: a)
  case (Suc k)
  have up: "[a..<b] = a # [Suc a..<b]" using Suc.prems by (simp add: upt_conv_Cons)
  have n: "\<not> available s a" using Suc.prems(2) by auto
  have "\<exists>t. open_scan [Suc a..<b] s = Done (Inr (o_fileid (opentab s (Suc a + k)) + 1024, Suc a + k)) t \<and>
      taken (Suc a + k) s t"
  proof (rule Suc.IH)
    show "\<forall>j < k. \<not> available s (Suc a + j)" using Suc.prems(2) by auto
  qed (use Suc.prems in simp_all)
  with n show ?case unfolding up by (auto simp: run_rules available_def)
next
  case 0
  then have i: "a < 1024" and av: "available s a" by simp_all
  have up: "[a..<b] = a # [Suc a..<b]" using 0 by (simp add: upt_conv_Cons)
  have ff: "o_ff (opentab s a) = FILEVA + of_nat a * BY2PG" using ok i by (simp add: table_ok_def)
  show ?case
  proof (cases "pageref (o_ff (opentab s a)) s = 0")
    case True
    from ff_alloc_run [OF i mem] obtain u where u:
      "serv_mem_alloc (FILEVA + of_nat a * BY2PG) s = Done (Inr ()) u" "opentab u = opentab s"
      "upages (sys u) = (upages (sys s))(0x60000 + a \<mapsto> (\<lambda>_. 0))" "urefs u = (urefs s)(0x60000 + a := 1)"
      "replies u = replies s" by blast
    have oku: "table_ok u" using ok u(2) by (simp add: table_ok_def)
    from open_take_run [OF oku i, of "\<lambda>_. 0"] u obtain t where
      "open_take a u = Done (Inr (o_fileid (opentab s a) + 1024, a)) t" "taken a s t"
      by (auto simp: taken_def)
    with True u(1) ff show ?thesis unfolding up by (auto simp: run_rules)
  next
    case False
    with av have one: "pageref (o_ff (opentab s a)) s = 1" by (simp add: available_def)
    then obtain fr where pg: "upages (sys s) (0x60000 + a) = Some fr" "urefs s (0x60000 + a) = 1"
      "(urefs s)(0x60000 + a := 1) = urefs s"
      using pageref_ff [OF ok i] by (auto split: if_splits intro: fun_upd_idem)
    from open_take_run [OF ok i pg(1)] obtain t where
      "open_take a s = Done (Inr (o_fileid (opentab s a) + 1024, a)) t" "taken a s t"
      unfolding taken_def pg(3) by blast
    with one show ?thesis unfolding up by (auto simp: run_rules)
  qed
qed

lemma open_scan_full: "(\<And>i. i \<in> set is \<Longrightarrow> \<not> available s i) \<Longrightarrow> open_scan is s = Done (Inl E_MAX_OPEN) s"
proof (induction "is")
  case (Cons i "is")
  then have "\<not> available s i" "open_scan is s = Done (Inl E_MAX_OPEN) s" by auto
  then show ?case by (simp add: run_rules available_def)
qed (simp add: run_rules)

lemma id_mod: "(x :: u32) mod 1024 = y \<Longrightarrow> (x + 1024) mod 1024 = y"
proof -
  assume "x mod 1024 = y"
  moreover have "(x + 1024) mod 1024 = x mod 1024"
  proof -
    have "(unat x + 1024) mod 2 ^ 32 mod 1024 = (unat x + 1024) mod 1024"
      by (rule mod_mod_cancel) simp
    then have "unat ((x + 1024) mod 1024) = unat (x mod 1024)"
      by (simp add: unat_mod unat_word_ariths)
    then show ?thesis by (simp only: word_unat_eq_iff)
  qed
  ultimately show ?thesis by simp
qed

lemma table_ok_taken: "table_ok s \<Longrightarrow> i < 1024 \<Longrightarrow> taken i s t \<Longrightarrow> table_ok t"
  by (auto simp: table_ok_def taken_def id_mod)

lemma open_lookup_run:
  assumes "table_ok s" "i < 1024" "fid mod 1024 = of_nat i"
  shows "open_lookup e fid s = Done (if pageref (o_ff (opentab s i)) s = 1 \<or> o_fileid (opentab s i) \<noteq> fid
     then Inl E_INVAL else Inr i) s"
proof -
  have "unat (fid mod MAXOPEN) = i" using assms by (simp add: MAXOPEN_def unat_of_nat take_bit_eq_mod)
  then show ?thesis by (simp add: open_lookup_def run_rules Let_def)
qed

text \<open>
  \<^verbatim>\<open>open_alloc\<close> takes the first table entry whose page nobody but the server maps and
  returns a new file id for it; with none it returns \<^verbatim>\<open>-E_MAX_OPEN\<close> and changes nothing. Once
  the client has the page, \<^verbatim>\<open>open_lookup\<close> maps the new id to this entry and refuses the id
  the entry had before, so a client that closed the file cannot reach its successor.
\<close>
theorem open_alloc_fresh_id:
  assumes ok: "table_ok s" and mem: "mem_left (sys s) \<noteq> 0"
  shows "if \<exists>i < 1024. available s i
     then \<exists>i t. (let fid = o_fileid (opentab s i); u = t\<lparr>urefs := (urefs t)(0x60000 + i := 2)\<rparr> in
       i = (LEAST i. i < 1024 \<and> available s i) \<and> open_alloc s = Done (Inr (fid + 1024, i)) t \<and> table_ok t \<and>
       (\<forall>j. j \<noteq> i \<longrightarrow> opentab t j = opentab s j) \<and> upages (sys t) (0x60000 + i) = Some (\<lambda>_. 0) \<and>
       open_lookup e (fid + 1024) u = Done (Inr i) u \<and> open_lookup e fid u = Done (Inl E_INVAL) u)
     else open_alloc s = Done (Inl E_MAX_OPEN) s"
proof (cases "\<exists>i < 1024. available s i")
  case False
  then show ?thesis using open_scan_full [of "[0..<1024]" s] by (simp add: open_alloc_def MAXOPEN_def)
next
  case True
  define i where "i = (LEAST i. i < 1024 \<and> available s i)"
  have i: "i < 1024" "available s i" using True LeastI_ex [of "\<lambda>i. i < 1024 \<and> available s i"] unfolding i_def by auto
  have "\<forall>j < i. \<not> available s j" using not_less_Least [of _ "\<lambda>i. i < 1024 \<and> available s i"] i(1)
    unfolding i_def by (metis order.strict_trans)
  with open_scan_run [OF ok mem, of 0 i 1024] i obtain t where
    t: "open_alloc s = Done (Inr (o_fileid (opentab s i) + 1024, i)) t" and tk: "taken i s t"
    by (auto simp: open_alloc_def MAXOPEN_def)
  have okt: "table_ok t" by (rule table_ok_taken [OF ok i(1) tk])
  let ?u = "t\<lparr>urefs := (urefs t)(0x60000 + i := 2)\<rparr>"
  have oku: "table_ok ?u" using okt by (simp add: table_ok_def)
  have m: "o_fileid (opentab s i) mod 1024 = of_nat i" using ok i(1) by (simp add: table_ok_def)
  have pr: "pageref (o_ff (opentab ?u i)) ?u = 2"
    using pageref_ff [OF oku i(1)] tk by (simp add: taken_def)
  have id: "o_fileid (opentab ?u i) = o_fileid (opentab s i) + 1024" using tk by (simp add: taken_def)
  have "open_lookup e (o_fileid (opentab s i) + 1024) ?u = Done (Inr i) ?u"
    using open_lookup_run [OF oku i(1) id_mod [OF m], of e] pr id by simp
  moreover have "open_lookup e (o_fileid (opentab s i)) ?u = Done (Inl E_INVAL) ?u"
    using open_lookup_run [OF oku i(1) m, of e] id by simp
  ultimately have "i = (LEAST i. i < 1024 \<and> available s i) \<and>
       open_alloc s = Done (Inr (o_fileid (opentab s i) + 1024, i)) t \<and> table_ok t \<and>
       (\<forall>j. j \<noteq> i \<longrightarrow> opentab t j = opentab s j) \<and> upages (sys t) (0x60000 + i) = Some (\<lambda>_. 0) \<and>
       open_lookup e (o_fileid (opentab s i) + 1024) ?u = Done (Inr i) ?u \<and>
       open_lookup e (o_fileid (opentab s i)) ?u = Done (Inl E_INVAL) ?u"
    using i_def t okt tk by (simp add: taken_def)
  then show ?thesis using True unfolding Let_def by auto
qed

text \<open>The table as \<^verbatim>\<open>serve_init\<close> leaves it, over the small disk.\<close>

definition first_serv :: serv where
  "first_serv = \<lparr>sys = tiny_fs, opentab = (\<lambda>i. \<lparr>o_file = 0, o_fileid = of_nat i, o_mode = (if i = 0 then 1 else 0),
     o_ff = FILEVA + of_nat i * BY2PG\<rparr>), urefs = (\<lambda>_. 0), replies = []\<rparr>"

lemma first_table_ok: "table_ok first_serv"
proof -
  have "(of_nat i :: u32) mod 1024 = of_nat i" if "i < 1024" for i
    using that by (simp add: word_eq_iff_unsigned [where ?'a = nat] unat_mod unat_of_nat take_bit_eq_mod)
  then show ?thesis by (simp add: table_ok_def first_serv_def)
qed

theorem open_alloc_fresh_id_witness:
  "\<exists>t. open_alloc first_serv = Done (Inr (1024, 0)) t"
proof -
  have pr: "pageref (o_ff (opentab first_serv i)) first_serv = 0" if "i < 1024" for i
    using pageref_ff [OF first_table_ok that] that by (simp add: first_serv_def tiny_fs_def)
  have av: "\<exists>i < 1024. available first_serv i" using pr [of 0] by (auto simp: available_def intro: exI [of _ 0])
  have l: "(LEAST i. i < 1024 \<and> available first_serv i) = 0"
    by (rule Least_equality) (use pr in \<open>auto simp: available_def\<close>)
  have "mem_left (sys first_serv) \<noteq> 0" by (simp add: first_serv_def tiny_fs_def)
  from open_alloc_fresh_id [OF first_table_ok this] show ?thesis
    unfolding if_P [OF av] Let_def l by (auto simp: first_serv_def)
qed

section \<open>A request with an id never handed out\<close>

lemma fsK_run: "m (sys s) = Done a t \<Longrightarrow> fsK m s = Done a (s\<lparr>sys := t\<rparr>)"
  by (simp add: fsK_def)

lemma fsK_panic: "m (sys s) = Panic msg \<Longrightarrow> fsK m s = Panic msg"
  by (simp add: fsK_def)

text \<open>
  \<^verbatim>\<open>open_lookup\<close> refuses an entry whose page has one reference but not one whose page
  was never allocated: as long as entry \<open>i\<close> has not been opened, a map request with file id \<open>i\<close>
  passes the check, the handler follows the null \<^verbatim>\<open>o_file\<close>, and the access to the page at
  address 0 stops the system.
\<close>
theorem unopened_id_halts:
  assumes ok: "table_ok s" and i: "i < 1024" "o_fileid (opentab s i) = of_nat i" "o_file (opentab s i) = 0"
    and free: "upages (sys s) (0x60000 + i) = None" "upages (sys s) 0 = None"
    and rq: "upages (sys s) (VPN REQVA) = Some fr" "fr 0 = of_nat i" "fr 1 < 40960"
  shows "serve_map e REQVA s = Panic ''bad address''"
proof -
  let ?k = "fr 1 div BY2BLK"
  have w: "VPN (REQVA + 4) = VPN REQVA" "widx REQVA = 0" "widx (REQVA + 4) = 1"
    by (simp_all add: REQVA_def VPN_alt widx_def)
  have l0: "fsK (ldw REQVA) s = Done (of_nat i) s" and l1: "fsK (ldw (REQVA + 4)) s = Done (fr 1) s"
    using fsK_run [of "ldw REQVA" s, OF ldw_run [OF rq(1)]] fsK_run [of "ldw (REQVA + 4)" s, OF ldw_run] w rq
    by simp_all
  have m: "(of_nat i :: u32) mod 1024 = of_nat i"
    using i(1) by (simp add: word_eq_iff_unsigned [where ?'a = nat] unat_mod unat_of_nat take_bit_eq_mod)
  have lk: "open_lookup e (of_nat i) s = Done (Inr i) s"
    using open_lookup_run [OF ok i(1) m, of e] pageref_ff [OF ok i(1)] free(1) i(2) by simp
  have kn: "unat ?k < 10"
    using rq(3) by (simp add: BY2BLK_def BY2PG_def unat_div word_less_nat_alt less_mult_imp_div_less)
  then have k: "?k < NDIRECT" by (simp add: NDIRECT_def word_less_nat_alt)
  have u: "unat (f_direct 0 ?k) = 136 + 4 * unat ?k"
    using kn by (simp add: f_direct_def unat_word_ariths)
  have v: "VPN (f_direct 0 ?k) = 0" unfolding VPN_alt u using kn by simp
  have bad: "bad_va (f_direct 0 ?k)"
    unfolding bad_va_def word_less_nat_alt u using kn by (simp add: layout_defs)
  have "file_map_block 0 ?k True (sys s) = Panic ''bad address''"
    using k v bad free(2) by (simp add: file_map_block_def file_block_walk_def run_rules ldw_def touch_def)
  then have "file_get_block 0 ?k (sys s) = Panic ''bad address''"
    by (simp add: file_get_block_def run_rules)
  then have "fsK (file_get_block 0 ?k) s = Panic ''bad address''" by (rule fsK_panic)
  with l0 l1 lk i(3) show ?thesis by (simp add: serve_map_def run_rules)
qed

theorem unopened_id_halts_witness:
  "serve_map 1 REQVA (first_serv\<lparr>sys := tiny_fs\<lparr>upages := (upages tiny_fs)(VPN REQVA \<mapsto> (\<lambda>k. if k = 0 then 5 else 0))\<rparr>\<rparr>)
     = Panic ''bad address''"
  by (rule unopened_id_halts [where i = 5 and fr = "\<lambda>k. if k = 0 then 5 else 0"])
    (use first_table_ok in \<open>simp_all add: table_ok_def first_serv_def tiny_fs_def REQVA_def VPN_alt\<close>)

end
