(* ===== verification/Ide.thy ===== *)
theory Ide
  imports Syscall
begin

text \<open>
  \<^verbatim>\<open>fs/ide.c\<close>: moving sectors between the server's memory and the IDE disk through the
  device system calls. The disk is hardware: its registers are the parameters \<open>devw\<close> (the device
  after bytes are written at an address) and \<open>devr\<close> (the bytes read at an address). The memory
  is a byte array; \<open>temp\<close> lives on the server's stack, so its address always passes the kernel's
  check.
\<close>

record 'd ide =
  imem :: "u32 \<Rightarrow> u8"
  idev :: 'd

type_synonym 'd devwrite = "'d \<Rightarrow> u32 \<Rightarrow> u8 list \<Rightarrow> 'd"
type_synonym 'd devread = "'d \<Rightarrow> u32 \<Rightarrow> nat \<Rightarrow> u8 list"

definition BY2SECT :: u32 where "BY2SECT = 512"
definition DEV_DISK_ADDRESS :: u32 where "DEV_DISK_ADDRESS = 0x13000000"
definition DEV_DISK_OFFSET :: u32 where "DEV_DISK_OFFSET = 0"
definition DEV_DISK_ID :: u32 where "DEV_DISK_ID = 0x10"
definition DEV_DISK_START_OPERATION :: u32 where "DEV_DISK_START_OPERATION = 0x20"
definition DEV_DISK_STATUS :: u32 where "DEV_DISK_STATUS = 0x30"
definition DEV_DISK_BUFFER :: u32 where "DEV_DISK_BUFFER = 0x4000"

lemmas disk_regs = DEV_DISK_ADDRESS_def DEV_DISK_OFFSET_def DEV_DISK_ID_def
  DEV_DISK_START_OPERATION_def DEV_DISK_STATUS_def DEV_DISK_BUFFER_def

definition word_bytes :: "u32 \<Rightarrow> u8 list" where
  "word_bytes w = map (byte_of w) [0..<4]"

definition bytes_word :: "u8 list \<Rightarrow> u32" where
  "bytes_word bs = (case bs of [a, b, c, d] \<Rightarrow>
     ucast a OR push_bit 8 (ucast b) OR push_bit 16 (ucast c) OR push_bit 24 (ucast d) | _ \<Rightarrow> 0)"

section \<open>Device system calls\<close>

text \<open>\<^verbatim>\<open>syscall_write_dev(&temp, pa, 4)\<close> and \<^verbatim>\<open>syscall_read_dev(&temp, pa, 4)\<close>, with the caller's panic.\<close>

definition put_reg :: "'d devwrite \<Rightarrow> string \<Rightarrow> u32 \<Rightarrow> u32 \<Rightarrow> ('d ide, unit) kprog" where
  "put_reg devw msg pa w =
     (if \<not> is_dev_range pa 4 then panicK msg
      else modifyK (\<lambda>s. s\<lparr>idev := devw (idev s) pa (word_bytes w)\<rparr>))"

definition get_reg :: "'d devread \<Rightarrow> string \<Rightarrow> u32 \<Rightarrow> ('d ide, u32) kprog" where
  "get_reg devr msg pa =
     (if \<not> is_dev_range pa 4 then panicK msg else getsK (\<lambda>s. bytes_word (devr (idev s) pa 4)))"

text \<open>The transfers of a whole sector between the buffer of the disk and memory.\<close>

definition store_list :: "u32 \<Rightarrow> u8 list \<Rightarrow> (u32 \<Rightarrow> u8) \<Rightarrow> u32 \<Rightarrow> u8" where
  "store_list va bs m = (\<lambda>a. if unat (a - va) < length bs then bs ! unat (a - va) else m a)"

definition buffer_in :: "'d devread \<Rightarrow> string \<Rightarrow> u32 \<Rightarrow> ('d ide, unit) kprog" where
  "buffer_in devr msg va =
     (if is_illegal_va_range va BY2SECT \<or> \<not> is_dev_range (DEV_DISK_ADDRESS + DEV_DISK_BUFFER) BY2SECT
      then panicK msg
      else modifyK (\<lambda>s. s\<lparr>imem :=
        store_list va (devr (idev s) (DEV_DISK_ADDRESS + DEV_DISK_BUFFER) (unat BY2SECT)) (imem s)\<rparr>))"

definition buffer_out :: "'d devwrite \<Rightarrow> string \<Rightarrow> u32 \<Rightarrow> ('d ide, unit) kprog" where
  "buffer_out devw msg va =
     (if is_illegal_va_range va BY2SECT \<or> \<not> is_dev_range (DEV_DISK_ADDRESS + DEV_DISK_BUFFER) BY2SECT
      then panicK msg
      else modifyK (\<lambda>s. s\<lparr>idev := devw (idev s) (DEV_DISK_ADDRESS + DEV_DISK_BUFFER)
        (map (\<lambda>i. imem s (va + of_nat i)) [0..<unat BY2SECT])\<rparr>))"

section \<open>The sector loops\<close>

definition ide_read_sector :: "'d devwrite \<Rightarrow> 'd devread \<Rightarrow> u32 \<Rightarrow> u32 \<Rightarrow> u32 \<Rightarrow> ('d ide, unit) kprog" where
  "ide_read_sector devw devr diskno offset va =
     seqK (put_reg devw ''ide_read error!'' (DEV_DISK_ADDRESS + DEV_DISK_ID) diskno)
    (seqK (put_reg devw ''ide_read error!'' (DEV_DISK_ADDRESS + DEV_DISK_OFFSET) offset)
    (seqK (put_reg devw ''ide_read error!'' (DEV_DISK_ADDRESS + DEV_DISK_START_OPERATION) 0)
    (bindK (get_reg devr ''ide_read error!'' (DEV_DISK_ADDRESS + DEV_DISK_STATUS)) (\<lambda>temp.
     if temp = 0 then panicK ''ide read faild!''
     else buffer_in devr ''ide_read error!'' va))))"

definition ide_write_sector :: "'d devwrite \<Rightarrow> 'd devread \<Rightarrow> u32 \<Rightarrow> u32 \<Rightarrow> u32 \<Rightarrow> ('d ide, unit) kprog" where
  "ide_write_sector devw devr diskno offset va =
     seqK (put_reg devw ''ide_read error!'' (DEV_DISK_ADDRESS + DEV_DISK_ID) diskno)
    (seqK (buffer_out devw ''ide_read error!'' va)
    (seqK (put_reg devw ''ide_read error!'' (DEV_DISK_ADDRESS + DEV_DISK_OFFSET) offset)
    (seqK (put_reg devw ''ide_read error!'' (DEV_DISK_ADDRESS + DEV_DISK_START_OPERATION) 1)
    (bindK (get_reg devr ''ide_read error!'' (DEV_DISK_ADDRESS + DEV_DISK_STATUS)) (\<lambda>temp.
     if temp = 0 then panicK ''ide read faild!'' else retK ())))))"

text \<open>
  \<^verbatim>\<open>for (off = 0; begin + off < end; off += BY2SECT)\<close> over 32-bit words; the fuel is one
  more than the number of sectors, which \<open>ide_loop_run\<close> in \<open>Ide_Thms\<close> shows to be enough.
\<close>

fun ide_loop :: "nat \<Rightarrow> (u32 \<Rightarrow> u32 \<Rightarrow> ('d ide, unit) kprog) \<Rightarrow> u32 \<Rightarrow> u32 \<Rightarrow> u32 \<Rightarrow> u32 \<Rightarrow> ('d ide, unit) kprog" where
  "ide_loop 0 sector start stop off va = panicK ''out of fuel''"
| "ide_loop (Suc k) sector start stop off va =
     (if start + off < stop
      then seqK (sector (start + off) (va + off)) (ide_loop k sector start stop (off + BY2SECT) va)
      else retK ())"

definition ide_read :: "'d devwrite \<Rightarrow> 'd devread \<Rightarrow> u32 \<Rightarrow> u32 \<Rightarrow> u32 \<Rightarrow> u32 \<Rightarrow> ('d ide, unit) kprog" where
  "ide_read devw devr diskno secno dst nsecs =
     (let start = secno * BY2SECT; stop = start + nsecs * BY2SECT in
      ide_loop (Suc (unat nsecs)) (ide_read_sector devw devr diskno) start stop 0 dst)"

definition ide_write :: "'d devwrite \<Rightarrow> 'd devread \<Rightarrow> u32 \<Rightarrow> u32 \<Rightarrow> u32 \<Rightarrow> u32 \<Rightarrow> ('d ide, unit) kprog" where
  "ide_write devw devr diskno secno src nsecs =
     (let start = secno * BY2SECT; stop = start + nsecs * BY2SECT in
      ide_loop (Suc (unat nsecs)) (ide_write_sector devw devr diskno) start stop 0 src)"

end
