(* ===== verification/Ide_Thms.thy ===== *)
theory Ide_Thms
  imports Ide
begin

text \<open>
  The sector loops against a disk that behaves as documented: a block written and read back is the
  same block.
\<close>

section \<open>What is known of the disk\<close>

abbreviation "reg_id \<equiv> DEV_DISK_ADDRESS + DEV_DISK_ID"
abbreviation "reg_off \<equiv> DEV_DISK_ADDRESS + DEV_DISK_OFFSET"
abbreviation "reg_start \<equiv> DEV_DISK_ADDRESS + DEV_DISK_START_OPERATION"
abbreviation "reg_status \<equiv> DEV_DISK_ADDRESS + DEV_DISK_STATUS"
abbreviation "reg_buf \<equiv> DEV_DISK_ADDRESS + DEV_DISK_BUFFER"

text \<open>
  \<open>sect d n off\<close> is what disk \<open>n\<close> holds in the sector at byte \<open>off\<close>. Selecting a disk and an
  offset and starting a read puts the sector into the buffer; filling the buffer, selecting and
  starting a write replaces the sector; the status register then reads nonzero.
\<close>

definition disk_device :: "'d devwrite \<Rightarrow> 'd devread \<Rightarrow> ('d \<Rightarrow> u32 \<Rightarrow> u32 \<Rightarrow> u8 list) \<Rightarrow> nat \<Rightarrow> bool" where
  "disk_device devw devr sect cap \<longleftrightarrow> (\<forall>d n off. unat off < cap \<longrightarrow> unat off mod 512 = 0 \<longrightarrow>
     (let d1 = devw (devw (devw d reg_id (word_bytes n)) reg_off (word_bytes off)) reg_start (word_bytes 0) in
        bytes_word (devr d1 reg_status 4) \<noteq> 0 \<and> devr d1 reg_buf 512 = sect d n off \<and>
        sect d1 = sect d \<and> length (sect d n off) = 512) \<and>
     (\<forall>bs. length bs = 512 \<longrightarrow>
       (let d2 = devw (devw (devw (devw d reg_id (word_bytes n)) reg_buf bs) reg_off (word_bytes off))
            reg_start (word_bytes 1) in
        bytes_word (devr d2 reg_status 4) \<noteq> 0 \<and> sect d2 = (sect d)(n := (sect d n)(off := bs)))))"

lemma regs_ok: "is_dev_range reg_id 4" "is_dev_range reg_off 4" "is_dev_range reg_start 4"
  "is_dev_range reg_status 4" "is_dev_range reg_buf BY2SECT"
  by (simp_all add: is_dev_range_def disk_regs BY2SECT_def)

lemma disk_deviceD:
  assumes "disk_device devw devr sect cap" "unat off < cap" "unat off mod 512 = 0"
  shows "(let d1 = devw (devw (devw d reg_id (word_bytes n)) reg_off (word_bytes off)) reg_start (word_bytes 0) in
        bytes_word (devr d1 reg_status 4) \<noteq> 0 \<and> devr d1 reg_buf 512 = sect d n off \<and>
        sect d1 = sect d \<and> length (sect d n off) = 512)"
    "length bs = 512 \<Longrightarrow> (let d2 = devw (devw (devw (devw d reg_id (word_bytes n)) reg_buf bs) reg_off (word_bytes off))
            reg_start (word_bytes 1) in
        bytes_word (devr d2 reg_status 4) \<noteq> 0 \<and> sect d2 = (sect d)(n := (sect d n)(off := bs)))"
  using assms(1) [unfolded disk_device_def, rule_format, OF assms(2,3), of d n] by simp_all

lemma read_sector_run:
  fixes s :: "'d ide"
  assumes dev: "disk_device devw devr sect cap" and off: "unat off < cap" "unat off mod 512 = 0"
    and va: "\<not> is_illegal_va_range va BY2SECT"
  shows "\<exists>d. ide_read_sector devw devr n off va s =
      Done () (s\<lparr>imem := store_list va (sect (idev s) n off) (imem s), idev := d\<rparr>) \<and> sect d = sect (idev s)"
proof -
  let ?d = "devw (devw (devw (idev s) reg_id (word_bytes n)) reg_off (word_bytes off)) reg_start (word_bytes 0)"
  from disk_deviceD(1) [OF dev off, of "idev s" n, unfolded Let_def]
  have "bytes_word (devr ?d reg_status 4) \<noteq> 0" "devr ?d reg_buf 512 = sect (idev s) n off"
    "sect ?d = sect (idev s)" by simp_all
  then show ?thesis
    using va regs_ok
    by (intro exI [of _ ?d]) (simp add: ide_read_sector_def put_reg_def get_reg_def buffer_in_def run_rules BY2SECT_def)
qed

definition mem_bytes :: "(u32 \<Rightarrow> u8) \<Rightarrow> u32 \<Rightarrow> nat \<Rightarrow> u8 list" where
  "mem_bytes m va n = map (\<lambda>i. m (va + of_nat i)) [0..<n]"

lemma write_sector_run:
  fixes s :: "'d ide"
  assumes dev: "disk_device devw devr sect cap" and off: "unat off < cap" "unat off mod 512 = 0"
    and va: "\<not> is_illegal_va_range va BY2SECT"
  shows "\<exists>d. ide_write_sector devw devr n off va s = Done () (s\<lparr>idev := d\<rparr>) \<and>
      sect d = (sect (idev s))(n := (sect (idev s) n)(off := mem_bytes (imem s) va 512))"
proof -
  let ?bs = "mem_bytes (imem s) va 512"
  let ?d = "devw (devw (devw (devw (idev s) reg_id (word_bytes n)) reg_buf ?bs) reg_off (word_bytes off)) reg_start (word_bytes 1)"
  have "length ?bs = 512" by (simp add: mem_bytes_def)
  from disk_deviceD(2) [OF dev off this, of "idev s" n, unfolded Let_def]
  have "bytes_word (devr ?d reg_status 4) \<noteq> 0"
    "sect ?d = (sect (idev s))(n := (sect (idev s) n)(off := ?bs))" by simp_all
  then show ?thesis
    using va regs_ok
    by (intro exI [of _ ?d]) (simp add: ide_write_sector_def put_reg_def get_reg_def buffer_out_def run_rules BY2SECT_def mem_bytes_def)
qed

section \<open>The loop\<close>

lemma ide_loop_run:
  assumes "unat start + 512 * n < 2 ^ 32" "i \<le> n"
  shows "ide_loop (Suc (n - i)) sector start (start + of_nat (512 * n)) (of_nat (512 * i)) va =
     forK [i..<n] (\<lambda>i. sector (start + of_nat (512 * i)) (va + of_nat (512 * i)))"
  using assms(2)
proof (induction "n - i" arbitrary: i)
  case 0
  then show ?case by (simp add: fun_eq_iff run_rules)
next
  case (Suc k)
  then have i: "i < n" by simp
  have "unat (start + of_nat (512 * i)) = unat start + 512 * i" "unat (start + of_nat (512 * n)) = unat start + 512 * n"
    by (rule unat_add_nat, use assms(1) i in simp)+
  then have lt: "start + of_nat (512 * i) < start + of_nat (512 * n)" using i by (simp add: word_less_nat_alt)
  have nx: "of_nat (512 * i) + BY2SECT = of_nat (512 * Suc i)" by (simp add: BY2SECT_def)
  have "ide_loop (Suc (n - Suc i)) sector start (start + of_nat (512 * n)) (of_nat (512 * Suc i)) va =
      forK [Suc i..<n] (\<lambda>i. sector (start + of_nat (512 * i)) (va + of_nat (512 * i)))"
    by (rule Suc.hyps(1)) (use Suc i in simp_all)
  moreover have "n - i = Suc (n - Suc i)" using i by simp
  ultimately show ?case
    using lt i nx by (simp only: ide_loop.simps(2) if_True upt_conv_Cons forK.simps)
qed

text \<open>A transfer of \<open>n\<close> sectors that stays inside the disk and inside the user's memory.\<close>

definition transfer_ok :: "nat \<Rightarrow> u32 \<Rightarrow> u32 \<Rightarrow> nat \<Rightarrow> bool" where
  "transfer_ok cap secno va n \<longleftrightarrow> 512 * (unat secno + n) \<le> cap \<and> cap < 2 ^ 32 \<and>
     UTEMP \<le> va \<and> unat va + 512 * n \<le> unat UTOP"

lemma transfer_facts:
  assumes "transfer_ok cap secno va n" "i < n"
  shows "unat (secno * BY2SECT + of_nat (512 * i)) = 512 * (unat secno + i)"
    "\<not> is_illegal_va_range (va + of_nat (512 * i)) BY2SECT"
proof -
  have s: "unat (secno * BY2SECT) = 512 * unat secno"
    using assms by (simp add: transfer_ok_def BY2SECT_def unat_word_ariths)
  show "unat (secno * BY2SECT + of_nat (512 * i)) = 512 * (unat secno + i)"
    using unat_add_nat [of "secno * BY2SECT" "512 * i"] assms s by (simp add: transfer_ok_def)
  have t: "unat UTOP = 0x7F400000" by (simp add: layout_defs)
  have v: "unat (va + of_nat (512 * i)) = unat va + 512 * i"
    by (rule unat_add_nat) (use assms t in \<open>simp add: transfer_ok_def\<close>)
  have w: "unat (va + of_nat (512 * i) + BY2SECT) = unat va + 512 * i + 512"
    using unat_add_nat [of "va + of_nat (512 * i)" 512] v assms t by (simp add: transfer_ok_def BY2SECT_def)
  show "\<not> is_illegal_va_range (va + of_nat (512 * i)) BY2SECT"
    unfolding is_illegal_va_range_def word_less_nat_alt v w using assms t
    by (simp add: transfer_ok_def word_le_nat_alt BY2SECT_def)
qed

lemma ide_loop_sectors:
  assumes "transfer_ok cap secno va (unat n)"
  shows "ide_loop (Suc (unat n)) sector (secno * BY2SECT) (secno * BY2SECT + n * BY2SECT) 0 va =
     forK [0..<unat n] (\<lambda>i. sector (secno * BY2SECT + of_nat (512 * i)) (va + of_nat (512 * i)))"
proof -
  have s: "unat (secno * BY2SECT) = 512 * unat secno"
    using assms by (simp add: transfer_ok_def BY2SECT_def unat_word_ariths)
  have "n * BY2SECT = of_nat (512 * unat n)" by (simp add: BY2SECT_def)
  with ide_loop_run [of "secno * BY2SECT" "unat n" 0 sector va] s assms show ?thesis
    by (simp add: transfer_ok_def)
qed

section \<open>Reading and writing\<close>

lemma ide_read_run:
  fixes s :: "'d ide"
  assumes dev: "disk_device devw devr sect cap" and tr: "transfer_ok cap secno va (unat n)"
  shows "\<exists>t. ide_read devw devr diskno secno va n s = Done () t \<and> sect (idev t) = sect (idev s) \<and>
     (\<forall>a. imem t a = (let j = unat (a - va) in if j < 512 * unat n
        then sect (idev s) diskno (secno * BY2SECT + of_nat (512 * (j div 512))) ! (j mod 512) else imem s a))"
proof -
  let ?f = "\<lambda>i. ide_read_sector devw devr diskno (secno * BY2SECT + of_nat (512 * i)) (va + of_nat (512 * i))"
  let ?m = "\<lambda>k a. let j = unat (a - va) in if j < 512 * k
        then sect (idev s) diskno (secno * BY2SECT + of_nat (512 * (j div 512))) ! (j mod 512) else imem s a"
  have "\<exists>t. forK [0..<unat n] ?f s = Done () t \<and> (sect (idev t) = sect (idev s) \<and> (\<forall>a. imem t a = ?m (unat n) a))"
  proof (rule forK_upt)
    show "sect (idev s) = sect (idev s) \<and> (\<forall>a. imem s a = ?m 0 a)" by (simp add: Let_def)
  next
    fix k and t :: "'d ide"
    assume k: "k < unat n" and t: "sect (idev t) = sect (idev s) \<and> (\<forall>a. imem t a = ?m k a)"
    note f = transfer_facts [OF tr k]
    have cap: "512 * (unat secno + k) < cap" using tr k by (simp add: transfer_ok_def)
    from read_sector_run [OF dev _ _ f(2), of "secno * BY2SECT + of_nat (512 * k)" diskno t] f(1) cap
    obtain d where run: "?f k t = Done () (t\<lparr>imem := store_list (va + of_nat (512 * k))
        (sect (idev t) diskno (secno * BY2SECT + of_nat (512 * k))) (imem t), idev := d\<rparr>)" and d: "sect d = sect (idev t)"
      by auto
    have len: "length (sect (idev s) diskno (secno * BY2SECT + of_nat (512 * k))) = 512"
      using dev f(1) cap unfolding disk_device_def Let_def by (metis mod_mult_self1_is_0)
    have bnd: "512 * k + 512 \<le> unat va + 512 * unat n" "unat va + 512 * unat n < 2 ^ 32"
      using k tr by (simp_all add: transfer_ok_def layout_defs)
    have "store_list (va + of_nat (512 * k)) (sect (idev s) diskno (secno * BY2SECT + of_nat (512 * k))) (imem t) a =
        ?m (Suc k) a" for a
    proof -
      have a: "a - (va + of_nat (512 * k)) = (a - va) - of_nat (512 * k)" by simp
      have u: "unat (of_nat (512 * k) :: u32) = 512 * k" using bnd k tr
        by (simp add: unat_of_nat take_bit_eq_mod transfer_ok_def layout_defs del: of_nat_mult)
      show ?thesis
      proof (cases "512 * k \<le> unat (a - va)")
        case True
        then have s: "unat (a - (va + of_nat (512 * k))) = unat (a - va) - 512 * k"
          unfolding a by (subst unat_sub) (simp_all add: word_le_nat_alt u del: of_nat_mult)
        show ?thesis
        proof (cases "unat (a - va) < 512 * k + 512")
          case in_: True
          have "unat (a - va) div 512 = k" "unat (a - va) mod 512 = unat (a - va) - 512 * k"
            using True in_ by (simp_all add: div_nat_eqI modulo_nat_def)
          moreover have "unat (a - va) - 512 * k < 512" using True in_ by linarith
          ultimately show ?thesis using True in_ s len by (simp add: store_list_def Let_def)
        next
          case False
          then have "\<not> unat (a - va) - 512 * k < 512" "\<not> unat (a - va) < 512 * Suc k" by (linarith, simp)
          with True t s len show ?thesis by (simp add: store_list_def Let_def)
        qed
      next
        case False
        then have "unat (a - (va + of_nat (512 * k))) \<ge> 512"
        proof -
          have "unat (a - (va + of_nat (512 * k))) = 2 ^ 32 - (512 * k - unat (a - va))"
            unfolding a using False u bnd k by (simp add: unat_sub_if_size word_size del: of_nat_mult)
          moreover have "512 * k < 2134900736" using bnd k tr by (simp add: transfer_ok_def layout_defs)
          ultimately show ?thesis by simp
        qed
        with False t len show ?thesis by (simp add: store_list_def Let_def)
      qed
    qed
    then show "\<exists>t'. ?f k t = Done () t' \<and> (sect (idev t') = sect (idev s) \<and> (\<forall>a. imem t' a = ?m (Suc k) a))"
      using run d t by simp
  qed
  then show ?thesis unfolding ide_read_def Let_def ide_loop_sectors [OF tr] by blast
qed

text \<open>The sectors after \<open>n\<close> of them, from \<open>secno\<close> on, have been written from memory.\<close>

definition written :: "(u32 \<Rightarrow> u8) \<Rightarrow> u32 \<Rightarrow> u32 \<Rightarrow> nat \<Rightarrow> (u32 \<Rightarrow> u8 list) \<Rightarrow> u32 \<Rightarrow> u8 list" where
  "written m va secno n f off =
     (if unat off mod 512 = 0 \<and> 512 * unat secno \<le> unat off \<and> unat off < 512 * (unat secno + n)
      then mem_bytes m (va + of_nat (unat off - 512 * unat secno)) 512 else f off)"

lemma written_Suc:
  assumes "unat off = 512 * (unat secno + k)"
  shows "(written m va secno k f)(off := mem_bytes m (va + of_nat (512 * k)) 512) = written m va secno (Suc k) f"
proof
  fix x
  show "((written m va secno k f)(off := mem_bytes m (va + of_nat (512 * k)) 512)) x = written m va secno (Suc k) f x"
  proof (cases "x = off")
    case True
    then show ?thesis using assms by (simp add: written_def)
  next
    case False
    then have "unat x \<noteq> 512 * (unat secno + k)" using assms by (metis word_unat_eq_iff)
    moreover have "unat x < 512 * (unat secno + k)"
      if m: "unat x mod 512 = 0" and "unat x < 512 * (unat secno + Suc k)" "unat x \<noteq> 512 * (unat secno + k)"
    proof -
      have e: "unat x = 512 * (unat x div 512)" using mult_div_mod_eq [of 512 "unat x"] m by simp
      with that have "512 * (unat x div 512) < 512 * (unat secno + Suc k)" "512 * (unat x div 512) \<noteq> 512 * (unat secno + k)"
        by metis+
      then have "unat x div 512 < unat secno + Suc k" "unat x div 512 \<noteq> unat secno + k" by (simp_all only: mult_less_cancel1 mult_cancel1) simp_all
      then have "unat x div 512 < unat secno + k" by simp
      then show ?thesis using e by simp
    qed
    moreover have "unat x < 512 * (unat secno + k) \<Longrightarrow> unat x < 512 * (unat secno + Suc k)" by simp
    ultimately have "(unat x mod 512 = 0 \<and> 512 * unat secno \<le> unat x \<and> unat x < 512 * (unat secno + Suc k)) =
        (unat x mod 512 = 0 \<and> 512 * unat secno \<le> unat x \<and> unat x < 512 * (unat secno + k))" by satx
    then show ?thesis using False unfolding written_def by simp
  qed
qed

lemma ide_write_run:
  fixes s :: "'d ide"
  assumes dev: "disk_device devw devr sect cap" and tr: "transfer_ok cap secno va (unat n)"
  shows "\<exists>t. ide_write devw devr diskno secno va n s = Done () t \<and> imem t = imem s \<and>
     sect (idev t) = (sect (idev s))(diskno := written (imem s) va secno (unat n) (sect (idev s) diskno))"
proof -
  let ?f = "\<lambda>i. ide_write_sector devw devr diskno (secno * BY2SECT + of_nat (512 * i)) (va + of_nat (512 * i))"
  let ?P = "\<lambda>k t. imem t = imem s \<and>
     sect (idev t) = (sect (idev s))(diskno := written (imem s) va secno k (sect (idev s) diskno))"
  have "\<exists>t. forK [0..<unat n] ?f s = Done () t \<and> ?P (unat n) t"
  proof (rule forK_upt)
    have "written (imem s) va secno 0 (sect (idev s) diskno) = sect (idev s) diskno"
      by (auto simp: written_def fun_eq_iff)
    then show "?P 0 s" by simp
  next
    fix k and t :: "'d ide"
    assume k: "k < unat n" and t: "?P k t"
    note f = transfer_facts [OF tr k]
    have "512 * (unat secno + k) < cap" using tr k by (simp add: transfer_ok_def)
    with write_sector_run [OF dev _ _ f(2), of "secno * BY2SECT + of_nat (512 * k)" diskno t] f(1)
    obtain d where run: "?f k t = Done () (t\<lparr>idev := d\<rparr>)" and d: "sect d = (sect (idev t))(diskno :=
        (sect (idev t) diskno)(secno * BY2SECT + of_nat (512 * k) := mem_bytes (imem t) (va + of_nat (512 * k)) 512))"
      by auto
    have "?P (Suc k) (t\<lparr>idev := d\<rparr>)"
      using t d written_Suc [OF f(1), of "imem s" va "sect (idev s) diskno"] by simp
    then show "\<exists>t'. ?f k t = Done () t' \<and> ?P (Suc k) t'" using run by blast
  qed
  then show ?thesis unfolding ide_write_def Let_def ide_loop_sectors [OF tr] by blast
qed

text \<open>
  C25. On a disk that behaves as documented, \<^verbatim>\<open>ide_write\<close> of any number of sectors followed
  by \<^verbatim>\<open>ide_read\<close> of the same sectors into another place neither panics nor runs on, and puts
  the same bytes there; the rest of memory and the source are as before.
\<close>
theorem ide_write_read_roundtrip:
  fixes s :: "'d ide"
  assumes dev: "disk_device devw devr sect cap" and src: "transfer_ok cap secno src (unat n)"
    and dst: "transfer_ok cap secno dst (unat n)"
  shows "\<exists>t. seqK (ide_write devw devr diskno secno src n) (ide_read devw devr diskno secno dst n) s = Done () t \<and>
     (\<forall>a. imem t a = (if unat (a - dst) < 512 * unat n then imem s (src + (a - dst)) else imem s a))"
proof -
  from ide_write_run [OF dev src, of diskno s] obtain u where
    w: "ide_write devw devr diskno secno src n s = Done () u" and m: "imem u = imem s"
    and sect: "sect (idev u) = (sect (idev s))(diskno := written (imem s) src secno (unat n) (sect (idev s) diskno))"
    by blast
  from ide_read_run [OF dev dst, of diskno u] obtain t where
    r: "ide_read devw devr diskno secno dst n u = Done () t"
    and t: "\<And>a. imem t a = (let j = unat (a - dst) in if j < 512 * unat n
        then sect (idev u) diskno (secno * BY2SECT + of_nat (512 * (j div 512))) ! (j mod 512) else imem u a)"
    by blast
  have "imem t a = (if unat (a - dst) < 512 * unat n then imem s (src + (a - dst)) else imem s a)" for a
  proof (cases "unat (a - dst) < 512 * unat n")
    case False
    then show ?thesis using t m by simp
  next
    case True
    let ?j = "unat (a - dst)" and ?o = "secno * BY2SECT + of_nat (512 * (unat (a - dst) div 512))"
    have q: "?j div 512 < unat n" using True by (simp add: less_mult_imp_div_less mult.commute)
    have o: "unat ?o = 512 * (unat secno + ?j div 512)" by (rule transfer_facts(1) [OF dst q])
    have "written (imem s) src secno (unat n) (sect (idev s) diskno) ?o =
        mem_bytes (imem s) (src + of_nat (512 * (?j div 512))) 512"
      using q unfolding written_def o by simp
    then have "imem t a = mem_bytes (imem s) (src + of_nat (512 * (?j div 512))) 512 ! (?j mod 512)"
      using t [of a] True sect by (simp add: Let_def)
    also have "\<dots> = imem s (src + of_nat (512 * (?j div 512)) + of_nat (?j mod 512))" by (simp add: mem_bytes_def)
    also have "src + of_nat (512 * (?j div 512)) + of_nat (?j mod 512) = src + of_nat (512 * (?j div 512) + ?j mod 512)"
      by (simp only: of_nat_add add.assoc)
    also have "512 * (?j div 512) + ?j mod 512 = ?j" by simp
    finally show ?thesis using True by simp
  qed
  with w r show ?thesis by (auto simp: run_rules)
qed

section \<open>A disk\<close>

text \<open>A device with the documented behaviour.\<close>

record sim_disk =
  sim_id :: u32
  sim_off :: u32
  sim_buf :: "u8 list"
  sim_data :: "u32 \<Rightarrow> u32 \<Rightarrow> u8 list"

definition sim_write :: "sim_disk devwrite" where
  "sim_write d a bs =
     (if a = reg_id then d\<lparr>sim_id := bytes_word bs\<rparr>
      else if a = reg_off then d\<lparr>sim_off := bytes_word bs\<rparr>
      else if a = reg_buf then d\<lparr>sim_buf := bs\<rparr>
      else if a = reg_start then
        if bytes_word bs = 0 then d\<lparr>sim_buf := take 512 (sim_data d (sim_id d) (sim_off d) @ replicate 512 0)\<rparr>
        else d\<lparr>sim_data := (sim_data d)(sim_id d := (sim_data d (sim_id d))(sim_off d := sim_buf d))\<rparr>
      else d)"

definition sim_read :: "sim_disk devread" where
  "sim_read d a n = (if a = reg_status then word_bytes 1 else if a = reg_buf then sim_buf d else [])"

definition sim_sect :: "sim_disk \<Rightarrow> u32 \<Rightarrow> u32 \<Rightarrow> u8 list" where
  "sim_sect d n off = take 512 (sim_data d n off @ replicate 512 0)"

lemma bytes_word_bytes [simp]: "bytes_word (word_bytes w) = w"
proof (rule bit_word_eqI)
  fix n assume n: "n < LENGTH(32)"
  have u: "[0..<4] = [0, 1, 2, 3 :: nat]" by (simp add: upt_rec)
  have "n < 8 \<or> 8 \<le> n \<and> n < 16 \<or> 16 \<le> n \<and> n < 24 \<or> 24 \<le> n" by linarith
  then show "bit (bytes_word (word_bytes w)) n \<longleftrightarrow> bit w n"
    using n by (auto simp: bytes_word_def word_bytes_def u byte_of_def bit_simps dest: bit_u8_lt)
qed

lemma sim_disk_device: "disk_device sim_write sim_read sim_sect cap"
  by (auto simp: disk_device_def Let_def sim_write_def sim_read_def sim_sect_def disk_regs fun_eq_iff)

theorem ide_write_read_roundtrip_witness:
  "\<exists>t. seqK (ide_write sim_write sim_read 1 16 0x60000000 8) (ide_read sim_write sim_read 1 16 0x60001000 8)
       \<lparr>imem = (\<lambda>a. ucast a), idev = \<lparr>sim_id = 0, sim_off = 0, sim_buf = [], sim_data = (\<lambda>_ _. [])\<rparr>\<rparr> = Done () t \<and>
     imem t 0x60001234 = 0x34 \<and> imem t 0x60001FFF = 0xFF"
proof -
  have "transfer_ok 65536 16 0x60000000 (unat (8 :: u32))" "transfer_ok 65536 16 0x60001000 (unat (8 :: u32))"
    by (simp_all add: transfer_ok_def layout_defs)
  from ide_write_read_roundtrip [OF sim_disk_device this, of 1
      "\<lparr>imem = (\<lambda>a. ucast a), idev = \<lparr>sim_id = 0, sim_off = 0, sim_buf = [], sim_data = (\<lambda>_ _. [])\<rparr>\<rparr>"]
  show ?thesis by auto
qed

end
