(* ===== verification/Fork.thy ===== *)
theory Fork
  imports Syscall
begin

text \<open>
  \<^verbatim>\<open>user/lib/fork.c\<close>: user code of the current environment, as a sequence of system calls on
  the kernel's state. Reading \<^verbatim>\<open>vpt\<close> and \<^verbatim>\<open>vpd\<close> reads the environment's own page tables
  through the self map; the TLB entries such a read loads are left out. A read of a \<^verbatim>\<open>vpt\<close> page
  whose directory entry is invalid would make the kernel allocate an empty page table; \<^verbatim>\<open>fork\<close>
  tests \<^verbatim>\<open>vpd\<close> first and the handler runs for mapped pages only, so that case is cut off with
  \<open>panicK\<close>. The errors of the system calls are ignored where the source ignores them.
\<close>

definition vpd_entry :: "nat \<Rightarrow> (kstate, u32) kprog" where
  "vpd_entry i = bindK (getsK curenv) (\<lambda>c. the_env c (\<lambda>e.
     getsK (\<lambda>s. mem s (env_pgdir (envs s e)) i)))"

definition vpt_entry :: "nat \<Rightarrow> (kstate, u32) kprog" where
  "vpt_entry vpn = bindK (vpd_entry (vpn div 1024)) (\<lambda>pde.
     if \<not> valid pde then panicK ''vpt page not mapped''
     else getsK (\<lambda>s. mem s (PPN pde) (vpn mod 1024)))"

definition ignore :: "(kstate, sysres) kprog \<Rightarrow> (kstate, unit) kprog" where
  "ignore m = bindK m (\<lambda>_. retK ())"

section \<open>Sharing one page\<close>

definition duppage :: "u32 \<Rightarrow> nat \<Rightarrow> (kstate, unit) kprog" where
  "duppage envid vpn =
     (let addr = of_nat vpn * BY2PG in
      bindK (vpt_entry vpn) (\<lambda>pte.
      let perm = pte AND 0xfff in
      if perm AND PTE_D = 0 \<or> perm AND PTE_LIBRARY \<noteq> 0 then ignore (sys_mem_map 0 addr envid addr perm)
      else
        let perm' = perm AND NOT PTE_D OR PTE_COW in
        seqK (ignore (sys_mem_map 0 addr envid addr perm'))
             (ignore (sys_mem_map 0 addr 0 addr perm'))))"

section \<open>The copy-on-write handler\<close>

text \<open>\<^verbatim>\<open>memcpy\<close> of a page between user addresses, by words.\<close>

fun copy_user_words :: "nat \<Rightarrow> u32 \<Rightarrow> u32 \<Rightarrow> (kstate, unit) kprog" where
  "copy_user_words 0 dst src = retK ()"
| "copy_user_words (Suc n) dst src =
     bindK (load_word src) (\<lambda>w. seqK (store_word dst w) (copy_user_words n (dst + 4) (src + 4)))"

text \<open>
  \<open>tf\<close> is the address of the trap frame on the exception stack, \<^verbatim>\<open>cp0_badvaddr\<close> its word
  35. \<^verbatim>\<open>perm & !PTE_COW\<close> is a logical negation, that is zero.
\<close>

definition cow_entry :: "u32 \<Rightarrow> (kstate, unit) kprog" where
  "cow_entry tf =
     bindK (load_word (tf + 140)) (\<lambda>badva.
     let va = ROUNDDOWN badva BY2PG in
     bindK (vpt_entry (VPN va)) (\<lambda>pte.
     let perm = pte AND 0xfff in
     if perm AND PTE_COW = 0 then panicK ''sb, tell me what to write''
     else
       let not_cow = (if PTE_COW = 0 then 1 else 0) :: u32; perm' = perm AND not_cow OR PTE_D in
       seqK (ignore (sys_mem_alloc 0 UCOW (PTE_D OR PTE_V)))
      (seqK (copy_user_words 1024 UCOW va)
      (seqK (ignore (sys_mem_map 0 UCOW 0 va perm'))
      (seqK (ignore (sys_mem_unmap 0 UCOW))
            (ignore (sys_set_trapframe 0 tf)))))))"

section \<open>Fork\<close>

text \<open>
  The parent's run. \<open>entry\<close> is the address of \<^verbatim>\<open>cow_entry\<close>. The result of
  \<^verbatim>\<open>syscall_exofork\<close> is a \<^verbatim>\<open>u_int\<close>, so an error code is taken for an id. The loop's
  \<^verbatim>\<open>i += 1 >> 10\<close> adds 0.
\<close>

definition dup_one :: "u32 \<Rightarrow> nat \<Rightarrow> (kstate, unit) kprog" where
  "dup_one child i =
     bindK (vpd_entry (i div 1024)) (\<lambda>pde.
     if pde AND PTE_V = 0 then retK ()
     else bindK (vpt_entry i) (\<lambda>pte. if pte AND PTE_V \<noteq> 0 then duppage child i else retK ()))"

definition fork :: "u32 \<Rightarrow> (kstate, sysres) kprog" where
  "fork entry =
     bindK (getsK curenv) (\<lambda>c. the_env c (\<lambda>e.
     bindK (getsK (\<lambda>s. env_user_tlb_mod_entry (envs s e))) (\<lambda>old.
     tryK (if old \<noteq> entry then sys_set_tlb_mod_entry 0 entry else retK (Inr 0)) (\<lambda>_.
     bindK sys_exofork (\<lambda>r.
     let child = sys_value r in
     if child = 0 then retK (Inr 0)
     else
       seqK (forK [0..<VPN USTACKTOP] (dup_one child))
      (seqK (ignore (sys_set_tlb_mod_entry child entry))
      (seqK (ignore (sys_set_env_status child 1))
            (retK (Inr child))))))))) "

end
