(* ===== verification/Fork_Thms.thy ===== *)
theory Fork_Thms
  imports Fork Ipc_Thms Env_Thms
begin

text \<open>
  What \<^verbatim>\<open>duppage\<close> does to the translations of parent and child, and what the loop of \<^verbatim>\<open>fork\<close> over all pages does.
\<close>

section \<open>Mapping again what is mapped\<close>

lemma page_insert_sys_same:
  assumes k: "kern_inv idx pin fl c s" and e: "in_use s e" and va: "\<not> is_illegal_va va"
    and v: "valid (tr s e va)" and perm: "perm < 4096"
  shows "\<exists>s'. page_insert_sys e (PPN (tr s e va)) va perm s = Done (Inr 0) s' \<and> kern_inv idx pin fl c s' \<and>
      tr s' e va = page2pa (PPN (tr s e va)) OR perm OR PTE_V \<and> only_tr e va s s' \<and> same_rest s s' \<and>
      pp_ref s' = pp_ref s \<and> (\<forall>d. idx d \<noteq> {} \<longrightarrow> mem s' d = mem s d) \<and> data_kept idx fl s s'"
proof -
  let ?d = "env_pgdir (envs s e)" and ?a = "env_asid (envs s e)" and ?pp = "PPN (tr s e va)"
  have slot: "PDX va \<in> idx ?d" using legal_slot [OF va] kern_invD(5) [OF k e] by simp
  have v': "valid (lookup_pte (mem s) ?d va)" using v by (simp add: tr_def)
  let ?s' = "reperm ?d ?pp va perm (flush ?a va s)"
  have inv: "mm_inv idx pin fl ?s'"
    by (rule reperm_inv) (use kern_invD(1) [OF k] slot v' perm in \<open>simp_all add: tr_def\<close>)
  have re: "remap idx fl ?d va (page2pa ?pp OR perm OR PTE_V) s ?s'"
    by (rule remap_store_leaf [OF kern_invD(1) [OF k] slot lookup_dir [OF v']]) (simp add: reperm_mem)
  have rest: "same_rest s ?s'" by (rule same_restI') (simp add: reperm_def store_def flush_def)
  have "only_tr e va s ?s'" by (rule only_trI [OF k e rest]) (use re in \<open>simp add: remap_def\<close>)
  moreover have "tr ?s' e va = page2pa ?pp OR perm OR PTE_V"
    using re same_restD(2) [OF rest] by (simp add: tr_def remap_def)
  moreover have "page_insert_sys e ?pp va perm s = Done (Inr 0) ?s'"
    using page_insert_run_same [OF kern_invD(1) [OF k] slot v', of ?pp ?a perm]
    by (simp add: page_insert_sys_def run_rules tr_def)
  moreover have "mem ?s' d = mem s d" if "idx d \<noteq> {}" for d
    using that pt_wf_tab(2) [OF mm_inv_wf [OF kern_invD(1) [OF k]], of ?d "PDX va"] slot lookup_dir [OF v']
    by (auto simp: reperm_mem tabs_def)
  moreover have "data_kept idx fl s ?s'" using re by (auto simp: remap_def data_kept_def)
  moreover have "pp_ref ?s' = pp_ref s" by (simp add: reperm_def store_def)
  ultimately show ?thesis using rest kern_inv_rest [OF k rest inv] by blast
qed

section \<open>The self map\<close>

lemma page_addr:
  assumes "vpn < 2 ^ 20"
  shows "VPN (of_nat vpn * BY2PG) = vpn" "PDX (of_nat vpn * BY2PG) = vpn div 1024" "PTX (of_nat vpn * BY2PG) = vpn mod 1024"
proof -
  have u: "unat (of_nat vpn * BY2PG :: u32) = vpn * 4096"
    using assms by (simp add: BY2PG_def unat_word_ariths unat_of_nat take_bit_eq_mod)
  show "VPN (of_nat vpn * BY2PG) = vpn" by (simp add: VPN_alt u)
  show "PTX (of_nat vpn * BY2PG) = vpn mod 1024" by (simp add: PTX_alt u)
  have "vpn * 4096 div 2 ^ 22 = vpn * 4096 div (4096 * 1024)" by simp
  also have "\<dots> = vpn div 1024" by (simp only: div_mult2_eq)
  finally show "PDX (of_nat vpn * BY2PG) = vpn div 1024" by (simp add: PDX_alt u)
qed

lemma vpt_entry_run:
  assumes "curenv s = Some c" "vpn < 2 ^ 20" "valid (tr s c (of_nat vpn * BY2PG))"
  shows "vpt_entry vpn s = Done (tr s c (of_nat vpn * BY2PG)) s"
  using assms page_addr [OF assms(2)]
  by (auto simp: vpt_entry_def vpd_entry_def run_rules the_env_def tr_def lookup_pte_def split: if_splits)

section \<open>Permissions\<close>

definition shared_page :: "u32 \<Rightarrow> bool" where
  "shared_page pte \<longleftrightarrow> pte AND PTE_D = 0 \<or> pte AND PTE_LIBRARY \<noteq> 0"

definition cow_perm :: "u32 \<Rightarrow> u32" where
  "cow_perm pte = (pte AND 0xfff) AND NOT PTE_D OR PTE_COW"

lemma low_bits: "(pte AND 0xfff) AND PTE_D = pte AND PTE_D" "(pte AND 0xfff) AND PTE_LIBRARY = pte AND PTE_LIBRARY"
  by (simp_all add: pte_flag_defs and.assoc)

lemma perm_small: "pte AND 0xfff < 4096" "cow_perm pte < 4096"
proof -
  show *: "pte AND 0xfff < 4096" by (simp only: small_take_bit mask12) (rule bit_word_eqI, auto simp: bit_simps)
  have "(pte AND 0xfff) AND NOT PTE_D < 4096"
    using word_and_le2 [of "pte AND 0xfff" "NOT PTE_D"] * by (rule order_le_less_trans)
  then show "cow_perm pte < 4096" unfolding cow_perm_def by (rule or_small) (simp add: pte_flag_defs)
qed

text \<open>The rewritten entry is copy-on-write and not writable.\<close>

lemma cow_entry_flags:
  "(page2pa pp OR cow_perm pte OR PTE_V) AND PTE_D = 0" "(page2pa pp OR cow_perm pte OR PTE_V) AND PTE_COW \<noteq> 0"
proof -
  have b: "bit PTE_D n \<longleftrightarrow> n = 10" "bit PTE_COW n \<longleftrightarrow> n = 0" "bit PTE_V n \<longleftrightarrow> n = 9" for n
  proof -
    have d: "PTE_D = push_bit 10 1" and w: "PTE_COW = push_bit 0 1" and v: "PTE_V = push_bit 9 1"
      by (simp_all add: pte_flag_defs)
    show "bit PTE_D n \<longleftrightarrow> n = 10" unfolding d by (auto simp only: bit_push_bit_iff bit_1_iff) auto
    show "bit PTE_COW n \<longleftrightarrow> n = 0" unfolding w by (auto simp only: bit_push_bit_iff bit_1_iff) auto
    show "bit PTE_V n \<longleftrightarrow> n = 9" unfolding v by (auto simp only: bit_push_bit_iff bit_1_iff) auto
  qed
  show "(page2pa pp OR cow_perm pte OR PTE_V) AND PTE_D = 0"
    by (rule bit_word_eqI) (auto simp: bit_simps b cow_perm_def page2pa_def)
  have "bit ((page2pa pp OR cow_perm pte OR PTE_V) AND PTE_COW) 0"
    by (simp only: bit_simps b cow_perm_def) simp
  then show "(page2pa pp OR cow_perm pte OR PTE_V) AND PTE_COW \<noteq> 0" by (metis bit_0_eq bot_apply bot_bool_def)
qed

section \<open>Duplicating a page\<close>

definition two_tr :: "nat \<Rightarrow> nat \<Rightarrow> u32 \<Rightarrow> kstate \<Rightarrow> kstate \<Rightarrow> bool" where
  "two_tr e1 e2 va s s' \<longleftrightarrow> (\<forall>e' va'. in_use s e' \<longrightarrow> PDX va' < PDX UTOP \<longrightarrow>
     e' \<notin> {e1, e2} \<or> VPN va' \<noteq> VPN va \<longrightarrow> tr s' e' va' = tr s e' va')"

lemma sys_map_self:
  assumes k: "kern_inv idx pin fl c s" and va: "\<not> is_illegal_va va" and v: "valid (tr s c va)" and perm: "perm < 4096"
  shows "\<exists>s'. sys_mem_map 0 va 0 va perm s = Done (Inr 0) s' \<and> kern_inv idx pin fl c s' \<and>
      tr s' c va = page2pa (PPN (tr s c va)) OR perm OR PTE_V \<and> only_tr c va s s' \<and> same_rest s s' \<and>
      pp_ref s' = pp_ref s \<and> (\<forall>d. idx d \<noteq> {} \<longrightarrow> mem s' d = mem s d) \<and> data_kept idx fl s s'"
proof -
  have t: "target s c 0 True = Some c" by (simp add: target_def)
  show ?thesis
    using sys_mem_map_run [OF k va va t t, of perm] v page_insert_sys_same [OF k kern_invD(4) [OF k] va v perm]
    by simp
qed

text \<open>
  What else a first mapping of page \<open>pp\<close> changes: it may take a free page as the table, which appears in
  the directory \<open>d\<close>, and \<open>pp\<close> has one more reference.
\<close>

definition grew :: "(nat \<Rightarrow> nat set) \<Rightarrow> nat \<Rightarrow> u32 \<Rightarrow> nat \<Rightarrow> nat list \<Rightarrow> nat list \<Rightarrow> kstate \<Rightarrow> kstate \<Rightarrow> bool" where
  "grew idx d va pp fl fl' s s' \<longleftrightarrow>
     fl' = (if valid (mem s d (PDX va)) then fl else tl fl) \<and> valid (mem s' d (PDX va)) \<and>
     PPN (mem s' d (PDX va)) = (if valid (mem s d (PDX va)) then PPN (mem s d (PDX va)) else hd fl) \<and>
     (\<forall>d' i. idx d' \<noteq> {} \<longrightarrow> d' \<noteq> d \<or> i \<noteq> PDX va \<longrightarrow> mem s' d' i = mem s d' i) \<and>
     (\<forall>p. p \<notin> set fl \<longrightarrow> pp_ref s' p = (if p = pp then pp_ref s p + 1 else pp_ref s p))"

lemma page_insert_grew:
  assumes inv: "mm_inv idx pin fl s" and va: "PDX va \<in> idx d" and nv: "\<not> valid (lookup_pte (mem s) d va)"
    and pp: "pp < npage s" "pp \<notin> set fl" "unat (pp_ref s pp) < 65535" and perm: "perm < 4096"
    and room: "valid (mem s d (PDX va)) \<or> fl \<noteq> []"
  shows "\<exists>s' fl'. page_insert d asid pp va perm s = Done (Inr ()) s' \<and> mm_inv idx pin fl' s' \<and>
    remap idx fl d va (page2pa pp OR perm OR PTE_V) s s' \<and> same_rest s s' \<and> grew idx d va pp fl fl' s s'"
proof -
  obtain s' fl' where s': "page_insert_new d asid pp va perm s = Done (Inr ()) s'" "mm_inv idx pin fl' s'"
      "remap idx fl d va (page2pa pp OR perm OR PTE_V) s s'" "same_rest s s'"
      "fl' = (if valid (mem s d (PDX va)) then fl else tl fl)"
    using page_insert_new_spec [OF inv va nv pp perm, of asid] room by blast
  have inv1: "mm_inv idx pin fl (flush asid va s)" using inv by simp
  have "grew idx d va pp fl fl' s s'"
  proof (cases "valid (mem s d (PDX va))")
    case True
    have e: "s' = inserted d pp va perm (flush asid va s)"
      using s'(1) True pgdir_walk_found [OF inv1 va, of True]
      by (simp add: page_insert_new_def run_rules tlb_invalidate_run inserted_def)
    have dd: "mem s' d' = mem s d'" if "idx d' \<noteq> {}" for d'
      using that pt_wf_tab(2) [OF mm_inv_wf [OF inv], of d "PDX va"] va True by (auto simp: e inserted_mem tabs_def)
    moreover have "pp_ref s' = (pp_ref s)(pp := pp_ref s pp + 1)"
      by (simp add: e inserted_def store_def page_incref_def set_ref_def)
    moreover have "mem s' d = mem s d" using dd [of d] va by auto
    ultimately show ?thesis using True s'(5) dd by (auto simp: grew_def)
  next
    case False
    then obtain t fl1 where fl: "fl = t # fl1" using room by (cases fl) auto
    have nv1: "\<not> valid (mem (flush asid va s) d (PDX va))" using False by simp
    obtain s2 where s2: "pgdir_walk d va True (flush asid va s) = Done (Inr (Some (t, PTX va))) s2" "pp_ref s2 = (pp_ref s)(t := 1)"
        "mem s2 = (mem s)(t := (\<lambda>_. 0), d := (mem s d)(PDX va := page2pa t OR PTE_D OR PTE_V))" "t < npage s" "d \<noteq> t"
      using pgdir_walk_create(2) [OF inv1 va nv1 fl] by auto
    have tab: "valid (mem s2 d (PDX va))" "PPN (mem s2 d (PDX va)) = t"
      using mm_inv_npage [OF inv s2(4)] by (simp_all add: s2(3))
    have e: "s' = inserted d pp va perm s2"
      using s'(1) s2(1) tab by (simp add: page_insert_new_def run_rules tlb_invalidate_run inserted_def)
    have t0: "idx t = {}" using mm_inv_unreferenced(1) [OF inv s2(4)] inv fl by (simp add: mm_inv_def)
    have "mem s' d' = mem s2 d'" if "idx d' \<noteq> {}" for d'
      using that t0 tab by (auto simp: e inserted_mem)
    moreover from this [of d] have "mem s' d = mem s2 d" using va by auto
    moreover have "pp_ref s' = (pp_ref s)(t := 1, pp := pp_ref s pp + 1)"
      using pp(2) fl by (simp add: e inserted_def store_def page_incref_def set_ref_def s2(2))
    ultimately show ?thesis
      using False s'(5) fl va t0 tab s2(3) by (auto simp: grew_def)
  qed
  then show ?thesis using s' page_insert_run_new [OF inv va nv] by auto
qed

lemma sys_map_child:
  assumes k: "kern_inv idx pin fl c s" and id: "target s c envid True = Some e"
    and va: "\<not> is_illegal_va va" and v: "valid (tr s c va)" "\<not> valid (tr s e va)"
    and ref: "unat (pp_ref s (PPN (tr s c va))) < 65535" and perm: "perm < 4096"
    and room: "valid (mem s (env_pgdir (envs s e)) (PDX va)) \<or> fl \<noteq> []"
  shows "\<exists>s' fl'. sys_mem_map 0 va envid va perm s = Done (Inr 0) s' \<and> kern_inv idx pin fl' c s' \<and>
      tr s' e va = page2pa (PPN (tr s c va)) OR perm OR PTE_V \<and> only_tr e va s s' \<and> same_rest s s' \<and> data_kept idx fl s s' \<and>
      grew idx (env_pgdir (envs s e)) va (PPN (tr s c va)) fl fl' s s'"
proof -
  let ?d = "env_pgdir (envs s e)" and ?pp = "PPN (tr s c va)"
  have t: "target s c 0 True = Some c" by (simp add: target_def)
  note e = target_in_use [OF k id]
  have slot: "PDX va \<in> idx ?d" using legal_slot [OF va] kern_invD(5) [OF k e] by simp
  have nv: "\<not> valid (lookup_pte (mem s) ?d va)" using v(2) by (simp add: tr_def)
  note p = page_lookup_sys(2) [OF k kern_invD(4) [OF k] va v(1)]
  obtain s' fl' where s': "page_insert ?d (env_asid (envs s e)) ?pp va perm s = Done (Inr ()) s'" "mm_inv idx pin fl' s'"
      "remap idx fl ?d va (page2pa ?pp OR perm OR PTE_V) s s'" "same_rest s s'" "grew idx ?d va ?pp fl fl' s s'"
    using page_insert_grew [OF kern_invD(1) [OF k] slot nv _ _ ref perm room, of "env_asid (envs s e)"] p by blast
  have "only_tr e va s s'" by (rule only_trI [OF k e s'(4)]) (use s'(3) in \<open>simp add: remap_def\<close>)
  moreover have "tr s' e va = page2pa ?pp OR perm OR PTE_V"
    using s'(3) same_restD(2) [OF s'(4)] by (simp add: tr_def remap_def)
  moreover have "data_kept idx fl s s'" using s'(3) by (auto simp: remap_def data_kept_def)
  moreover have "sys_mem_map 0 va envid va perm s = Done (Inr 0) s'"
    using sys_mem_map_run [OF k va va t id, of perm] v(1) s'(1) by (simp add: page_insert_sys_def run_rules)
  ultimately show ?thesis using s'(4,5) kern_inv_rest [OF k s'(4,2)] by blast
qed

text \<open>Frames of data stay data frames when a table is taken from the free list.\<close>

lemma grew_tabs:
  assumes g: "grew idx d va pp fl fl' s s'" and x: "x \<in> tabs idx (mem s')"
    and room: "valid (mem s d (PDX va)) \<or> fl \<noteq> []"
  shows "tab_of (mem s') x \<in> set fl \<union> tab_of (mem s) ` tabs idx (mem s)"
proof -
  obtain d' i where di: "x = (d', i)" by (cases x)
  then have v: "i \<in> idx d'" "valid (mem s' d' i)" using x by (auto simp: tabs_def)
  show ?thesis
  proof (cases "d' = d \<and> i = PDX va")
    case True
    show ?thesis
    proof (cases "valid (mem s d (PDX va))")
      case old: True
      then have "x \<in> tabs idx (mem s)" "tab_of (mem s') x = tab_of (mem s) x"
        using True v g di by (auto simp: tabs_def grew_def tab_of.simps)
      then show ?thesis by blast
    next
      case False
      then have "tab_of (mem s') x = hd fl" using True g di by (auto simp: grew_def tab_of.simps)
      then show ?thesis using False room by auto
    qed
  next
    case False
    then have "mem s' d' i = mem s d' i" using g v(1) by (auto simp: grew_def)
    then have "x \<in> tabs idx (mem s)" "tab_of (mem s') x = tab_of (mem s) x"
      using v di by (auto simp: tabs_def tab_of.simps)
    then show ?thesis by blast
  qed
qed

lemma data_kept_trans:
  assumes k: "data_kept idx fl s t" "data_kept idx fl' t u" and g: "grew idx d va pp fl fl' s t"
    and room: "valid (mem s d (PDX va)) \<or> fl \<noteq> []"
  shows "data_kept idx fl s u"
  unfolding data_kept_def
proof (intro allI impI)
  fix f
  assume f: "f \<notin> set fl" "idx f = {}" "\<forall>x \<in> tabs idx (mem s). tab_of (mem s) x \<noteq> f"
  have "f \<notin> set fl'" using f(1) g by (cases fl) (auto simp: grew_def split: if_splits)
  moreover have "\<forall>x \<in> tabs idx (mem t). tab_of (mem t) x \<noteq> f"
    using grew_tabs [OF g _ room] f(1, 3) by fastforce
  ultimately have "mem u f = mem t f" using k(2) f(2) by (simp add: data_kept_def)
  also have "mem t f = mem s f" using k(1) f by (simp add: data_kept_def)
  finally show "mem u f = mem s f" .
qed

text \<open>The entry that parent and child have afterwards for a page that the parent had mapped with \<open>pte\<close>.\<close>

definition forked :: "u32 \<Rightarrow> u32" where
  "forked pte = (if shared_page pte then pte else page2pa (PPN pte) OR cow_perm pte OR PTE_V)"

lemma pte_split: "valid pte \<Longrightarrow> page2pa (PPN pte) OR (pte AND 0xfff) OR PTE_V = pte"
proof -
  assume v: "valid pte"
  have w: "page2pa (PPN pte) = push_bit 12 (drop_bit 12 pte)"
    by (simp add: page2pa_def PPN_def VPN_def)
  have b: "bit PTE_V n \<longleftrightarrow> n = 9" for n
  proof -
    have w: "PTE_V = push_bit 9 1" by (simp add: pte_flag_defs)
    show ?thesis unfolding w by (auto simp only: bit_push_bit_iff bit_1_iff) auto
  qed
  have m: "(0xfff :: u32) = mask 12" by (simp add: mask_eq_exp_minus_1)
  show ?thesis
    unfolding w m
    by (rule bit_word_eqI) (use v in \<open>auto simp: bit_simps b valid_bit\<close>, metis le_add_diff_inverse not_le)
qed

text \<open>It is the same frame, still mapped, and not writable unless the page is shared.\<close>

lemma forked_entry:
  assumes "valid pte"
  shows "PPN (forked pte) = PPN pte" "valid (forked pte)"
    "\<not> shared_page pte \<Longrightarrow> forked pte AND PTE_D = 0 \<and> forked pte AND PTE_COW \<noteq> 0"
proof -
  have "PPN pte < 2 ^ 20"
  proof -
    have "unat pte < 2 ^ LENGTH(32)" by (rule unsigned_less)
    then show ?thesis by (simp add: PPN_alt less_mult_imp_div_less)
  qed
  then show "PPN (forked pte) = PPN pte" "valid (forked pte)"
    using assms PPN_pte [OF _ perm_small(2)] by (simp_all add: forked_def)
  show "forked pte AND PTE_D = 0 \<and> forked pte AND PTE_COW \<noteq> 0" if "\<not> shared_page pte"
    using that cow_entry_flags by (simp add: forked_def)
qed

text \<open>
  \<^verbatim>\<open>duppage\<close> of a page that the child does not have yet, with a free page to spare if the child's table for
  it is missing.
\<close>

lemma duppage_run:
  assumes k: "kern_inv idx pin fl c s" and id: "target s c envid True = Some e" "e \<noteq> c"
    and vpn: "vpn < 2 ^ 20" and va: "va = of_nat vpn * BY2PG" "\<not> is_illegal_va va" "valid (tr s c va)" "\<not> valid (tr s e va)"
    and ref: "unat (pp_ref s (PPN (tr s c va))) < 65535"
    and room: "valid (mem s (env_pgdir (envs s e)) (PDX va)) \<or> fl \<noteq> []"
  shows "\<exists>s' fl'. duppage envid vpn s = Done () s' \<and> kern_inv idx pin fl' c s' \<and> two_tr c e va s s' \<and> same_rest s s' \<and>
    tr s' c va = forked (tr s c va) \<and> tr s' e va = forked (tr s c va) \<and> data_kept idx fl s s' \<and>
    grew idx (env_pgdir (envs s e)) va (PPN (tr s c va)) fl fl' s s'"
proof -
  let ?pte = "tr s c va"
  have pte: "vpt_entry vpn s = Done ?pte s"
    using vpt_entry_run [OF kern_invD(3) [OF k] vpn] va by simp
  have pdx: "PDX va < PDX UTOP" using legal_slot [OF va(2)] by (simp add: user_slots_def PDX_UTOP)
  show ?thesis
  proof (cases "shared_page ?pte")
    case True
    from sys_map_child [OF k id(1) va(2-4) ref perm_small(1) room] obtain s' fl' where
      s': "sys_mem_map 0 va envid va (?pte AND 0xfff) s = Done (Inr 0) s'" "kern_inv idx pin fl' c s'"
        "tr s' e va = page2pa (PPN ?pte) OR (?pte AND 0xfff) OR PTE_V" "only_tr e va s s'" "same_rest s s'"
        "data_kept idx fl s s'" "grew idx (env_pgdir (envs s e)) va (PPN ?pte) fl fl' s s'" by blast
    have "duppage envid vpn s = Done () s'"
      using True s'(1) pte by (simp add: duppage_def va(1) run_rules ignore_def low_bits shared_page_def Let_def)
    moreover have "tr s' c va = ?pte" using s'(4) id(2) kern_invD(4) [OF k] pdx by (simp add: only_tr_def)
    moreover have "two_tr c e va s s'" using s'(4) by (auto simp: only_tr_def two_tr_def)
    ultimately show ?thesis using True s' pte_split [OF va(3)] by (auto simp: forked_def)
  next
    case False
    from sys_map_child [OF k id(1) va(2-4) ref perm_small(2) room, of ?pte] obtain s1 fl1 where
      s1: "sys_mem_map 0 va envid va (cow_perm ?pte) s = Done (Inr 0) s1" "kern_inv idx pin fl1 c s1"
        "tr s1 e va = page2pa (PPN ?pte) OR cow_perm ?pte OR PTE_V" "only_tr e va s s1" "same_rest s s1"
        "data_kept idx fl s s1" "grew idx (env_pgdir (envs s e)) va (PPN ?pte) fl fl1 s s1" by blast
    have c1: "tr s1 c va = ?pte" using s1(4) id(2) kern_invD(4) [OF k] pdx by (simp add: only_tr_def)
    from sys_map_self [OF s1(2) va(2) _ perm_small(2), of ?pte] c1 va(3) obtain s2 where
      s2: "sys_mem_map 0 va 0 va (cow_perm ?pte) s1 = Done (Inr 0) s2" "kern_inv idx pin fl1 c s2"
        "tr s2 c va = page2pa (PPN ?pte) OR cow_perm ?pte OR PTE_V" "only_tr c va s1 s2" "same_rest s1 s2"
        "pp_ref s2 = pp_ref s1" "\<forall>d. idx d \<noteq> {} \<longrightarrow> mem s2 d = mem s1 d" "data_kept idx fl1 s1 s2" by auto
    have u: "in_use s1 x = in_use s x" for x using same_restD(2) [OF s1(5)] by (simp add: in_use_def)
    have e2: "tr s2 e va = tr s1 e va"
      using s2(4) id(2) target_in_use [OF k id(1)] pdx u by (simp add: only_tr_def)
    have d: "idx (env_pgdir (envs s e)) \<noteq> {}"
      using kern_invD(5) [OF k target_in_use [OF k id(1)]] legal_slot [OF va(2)] by auto
    have "duppage envid vpn s = Done () s2"
      using False s1(1) s2(1) pte
      by (simp add: duppage_def va(1) run_rules ignore_def low_bits shared_page_def cow_perm_def Let_def)
    moreover have "two_tr c e va s s2" using s1(4) s2(4) u by (auto simp: only_tr_def two_tr_def)
    moreover have "grew idx (env_pgdir (envs s e)) va (PPN ?pte) fl fl1 s s2"
      using s1(7) s2(6,7) d by (auto simp: grew_def)
    moreover have "data_kept idx fl s s2"
      using data_kept_trans [OF s1(6) s2(8) s1(7) room] .
    ultimately show ?thesis
      using False s2 s1(3) e2 same_rest_trans [OF s1(5) s2(5)] by (auto simp: forked_def)
  qed
qed

section \<open>Pages by number\<close>

definition page_at :: "kstate \<Rightarrow> nat \<Rightarrow> nat \<Rightarrow> u32" where
  "page_at s e v = tr s e (of_nat v * BY2PG)"

lemma user_page:
  assumes "v < VPN USTACKTOP"
  shows "v < 2 ^ 20" "PDX (of_nat v * BY2PG) < PDX UTOP" "VPN UTEMP \<le> v \<Longrightarrow> \<not> is_illegal_va (of_nat v * BY2PG)"
proof -
  have n: "VPN UTEMP = 0x3fe" "VPN USTACKTOP = 0x7f3fe" by (simp_all add: VPN_alt layout_defs)
  show v: "v < 2 ^ 20" using assms n by simp
  have u: "unat (of_nat v * BY2PG :: u32) = v * 4096"
    using v by (simp add: BY2PG_def unat_word_ariths unat_of_nat take_bit_eq_mod)
  show "\<not> is_illegal_va (of_nat v * BY2PG)" if "VPN UTEMP \<le> v"
    using that assms n by (simp add: is_illegal_va_def word_less_nat_alt word_le_nat_alt u) (simp add: layout_defs)
  show "PDX (of_nat v * BY2PG) < PDX UTOP"
    using assms n page_addr(2) [OF v] by (simp add: PDX_UTOP)
qed

section \<open>One turn\<close>

lemma dup_one_skip:
  assumes "curenv s = Some c" "v < 2 ^ 20" "\<not> valid (page_at s c v)"
  shows "dup_one child v s = Done () s"
  using assms page_addr [OF assms(2)]
  by (auto simp: dup_one_def vpt_entry_def vpd_entry_def run_rules the_env_def page_at_def tr_def lookup_pte_def valid_def
      split: if_splits)

lemma dup_one_valid:
  assumes "curenv s = Some c" "v < 2 ^ 20" "valid (page_at s c v)"
  shows "dup_one child v s = duppage child v s"
proof -
  have "vpd_entry (v div 1024) s = Done (mem s (env_pgdir (envs s c)) (v div 1024)) s"
    using assms(1) by (simp add: vpd_entry_def run_rules the_env_def)
  moreover have "valid (mem s (env_pgdir (envs s c)) (v div 1024))"
    using assms(3) page_addr [OF assms(2)] by (auto simp: page_at_def tr_def lookup_pte_def split: if_splits)
  ultimately show ?thesis
    using vpt_entry_run [OF assms(1,2)] assms(3) by (simp add: dup_one_def run_rules page_at_def valid_def)
qed

section \<open>The loop\<close>

text \<open>
  The slots of directory \<open>d\<close> for which mapping the parent's pages \<open>vs\<close> takes a new table, and how many of
  the pages are frame \<open>p\<close>.
\<close>

definition missing_tabs :: "kstate \<Rightarrow> nat \<Rightarrow> nat \<Rightarrow> nat list \<Rightarrow> nat set" where
  "missing_tabs s c d vs = {i \<in> (\<lambda>v. v div 1024) ` {v \<in> set vs. valid (page_at s c v)}. \<not> valid (mem s d i)}"

definition shares :: "kstate \<Rightarrow> nat \<Rightarrow> nat list \<Rightarrow> nat \<Rightarrow> nat" where
  "shares s c vs p = length (filter (\<lambda>v. valid (page_at s c v) \<and> PPN (page_at s c v) = p) vs)"

definition copied :: "nat \<Rightarrow> nat \<Rightarrow> nat list \<Rightarrow> kstate \<Rightarrow> kstate \<Rightarrow> bool" where
  "copied c e vs s s' \<longleftrightarrow>
     (\<forall>v \<in> set vs. valid (page_at s c v) \<longrightarrow> page_at s' c v = forked (page_at s c v) \<and> page_at s' e v = forked (page_at s c v)) \<and>
     (\<forall>e' va. in_use s e' \<longrightarrow> PDX va < PDX UTOP \<longrightarrow>
        e' \<notin> {c, e} \<or> VPN va \<notin> {v \<in> set vs. valid (page_at s c v)} \<longrightarrow> tr s' e' va = tr s e' va)"

lemma grew_other:
  "grew idx d va pp fl fl' s s' \<Longrightarrow> idx d' \<noteq> {} \<Longrightarrow> d' \<noteq> d \<or> i \<noteq> PDX va \<Longrightarrow> mem s' d' i = mem s d' i"
  unfolding grew_def by blast

lemma two_tr_page:
  assumes "two_tr c e (of_nat v * BY2PG) s s1" "v < VPN USTACKTOP" "y < VPN USTACKTOP" "y \<noteq> v" "in_use s x"
  shows "page_at s1 x y = page_at s x y"
  using assms(1,4,5) user_page(1,2) [OF assms(3)] page_addr(1) [OF user_page(1) [OF assms(2)]]
    page_addr(1) [OF user_page(1) [OF assms(3)]]
  by (simp add: two_tr_def page_at_def)

lemma missing_step:
  assumes g: "grew idx d (of_nat v * BY2PG) pp fl fl1 s s1" and d: "idx d \<noteq> {}" and v: "v < VPN USTACKTOP"
    and same: "\<And>y. y \<in> set vs \<Longrightarrow> page_at s1 c y = page_at s c y" and pg: "valid (page_at s c v)"
    and room: "card (missing_tabs s c d (v # vs)) \<le> length fl"
  shows "card (missing_tabs s1 c d vs) \<le> length fl1"
proof -
  let ?i = "v div 1024"
  note pdx = page_addr(2) [OF user_page(1) [OF v]]
  have fin: "finite (missing_tabs s c d xs)" for xs by (simp add: missing_tabs_def)
  have sub: "missing_tabs s1 c d vs \<subseteq> missing_tabs s c d (v # vs) - {?i}"
  proof
    fix i
    assume "i \<in> missing_tabs s1 c d vs"
    then obtain y where y: "y \<in> set vs" "i = y div 1024" "valid (page_at s1 c y)" "\<not> valid (mem s1 d i)"
      unfolding missing_tabs_def by blast
    have n: "i \<noteq> ?i" using y(4) g unfolding grew_def pdx by blast
    then have "mem s1 d i = mem s d i" by (intro grew_other [OF g d]) (simp add: pdx)
    with y same [OF y(1)] have "i \<in> missing_tabs s c d (v # vs)" unfolding missing_tabs_def by force
    with n show "i \<in> missing_tabs s c d (v # vs) - {?i}" by blast
  qed
  show ?thesis
  proof (cases "valid (mem s d ?i)")
    case True
    then have "fl1 = fl" using g by (simp add: grew_def pdx)
    moreover have "card (missing_tabs s1 c d vs) \<le> card (missing_tabs s c d (v # vs))"
      by (rule card_mono [OF fin]) (use sub in blast)
    ultimately show ?thesis using room by simp
  next
    case False
    then have "length fl1 = length fl - 1" using g by (simp add: grew_def pdx)
    moreover have "?i \<in> missing_tabs s c d (v # vs)" using False pg by (simp add: missing_tabs_def)
    then have "card (missing_tabs s c d (v # vs) - {?i}) = card (missing_tabs s c d (v # vs)) - 1" by simp
    moreover have "card (missing_tabs s1 c d vs) \<le> card (missing_tabs s c d (v # vs) - {?i})"
      by (rule card_mono [OF _ sub]) (simp add: fin)
    ultimately show ?thesis using room by linarith
  qed
qed

lemma copied_step:
  assumes two: "two_tr c e (of_nat v * BY2PG) s s1" and envs: "envs s1 = envs s" and c: "in_use s c" "in_use s e"
    and v: "v < VPN USTACKTOP" "v \<notin> set vs" "valid (page_at s c v)"
    and pg: "page_at s1 c v = forked (page_at s c v)" "page_at s1 e v = forked (page_at s c v)"
    and same: "\<And>y x. y \<in> set vs \<Longrightarrow> in_use s x \<Longrightarrow> page_at s1 x y = page_at s x y"
    and rest: "copied c e vs s1 s'"
  shows "copied c e (v # vs) s s'"
proof -
  have u: "in_use s1 x = in_use s x" for x using envs by (simp add: in_use_def)
  note vpn = page_addr(1) [OF user_page(1) [OF v(1)]]
  note r = rest [unfolded copied_def]
  have at_v: "page_at s' x v = page_at s1 x v" if "in_use s x" for x
    unfolding page_at_def using r user_page(2) [OF v(1)] v(2) vpn u that by simp
  have other: "tr s' x va = tr s x va"
    if "in_use s x" "PDX va < PDX UTOP" "x \<notin> {c, e} \<or> VPN va \<notin> {y \<in> set (v # vs). valid (page_at s c y)}" for x va
  proof -
    have a: "x \<notin> {c, e} \<or> VPN va \<noteq> v \<and> VPN va \<notin> {y \<in> set vs. valid (page_at s1 c y)}"
      using that(3) v(3) same [OF _ c(1)] by fastforce
    have "tr s' x va = tr s1 x va" using r u [of x] that(1,2) a by blast
    also have "tr s1 x va = tr s x va" using two that(1,2) a unfolding two_tr_def vpn by blast
    finally show ?thesis .
  qed
  have "page_at s' c y = forked (page_at s c y) \<and> page_at s' e y = forked (page_at s c y)"
    if "y \<in> set vs" "valid (page_at s c y)" for y
    using r that same [OF that(1) c(1)] by simp
  moreover have "page_at s' c v = forked (page_at s c v)" "page_at s' e v = forked (page_at s c v)"
    using at_v c pg by simp_all
  ultimately show ?thesis unfolding copied_def using other by simp
qed

lemma fork_loop:
  assumes "kern_inv idx pin fl c s" "target s c child True = Some e" "e \<noteq> c" "distinct vs"
    and "\<And>v. v \<in> set vs \<Longrightarrow> v < VPN USTACKTOP \<and> (valid (page_at s c v) \<longrightarrow> VPN UTEMP \<le> v \<and> \<not> valid (page_at s e v))"
    and "card (missing_tabs s c (env_pgdir (envs s e)) vs) \<le> length fl"
    and "\<And>v. v \<in> set vs \<Longrightarrow> valid (page_at s c v) \<Longrightarrow>
      unat (pp_ref s (PPN (page_at s c v))) + shares s c vs (PPN (page_at s c v)) < 65536"
  shows "\<exists>s' fl'. forK vs (dup_one child) s = Done () s' \<and> kern_inv idx pin fl' c s' \<and> same_rest s s' \<and>
    data_kept idx fl s s' \<and> copied c e vs s s' \<and>
    (\<forall>p. p \<notin> set fl \<longrightarrow> unat (pp_ref s' p) = unat (pp_ref s p) + shares s c vs p)"
  using assms
proof (induction vs arbitrary: s fl)
  case Nil
  then show ?case by (auto simp: run_rules copied_def shares_def data_kept_def)
next
  case (Cons v vs)
  note k = Cons.prems(1) and id = Cons.prems(2,3)
  have v: "v < 2 ^ 20" using Cons.prems(5) [of v] user_page(1) [of v] by simp
  show ?case
  proof (cases "valid (page_at s c v)")
    case False
    have "\<exists>s' fl'. forK vs (dup_one child) s = Done () s' \<and> kern_inv idx pin fl' c s' \<and> same_rest s s' \<and>
      data_kept idx fl s s' \<and> copied c e vs s s' \<and>
      (\<forall>p. p \<notin> set fl \<longrightarrow> unat (pp_ref s' p) = unat (pp_ref s p) + shares s c vs p)"
    proof (rule Cons.IH [OF k id])
      have "missing_tabs s c (env_pgdir (envs s e)) vs = missing_tabs s c (env_pgdir (envs s e)) (v # vs)"
        using False by (auto simp: missing_tabs_def)
      then show "card (missing_tabs s c (env_pgdir (envs s e)) vs) \<le> length fl" using Cons.prems(6) by simp
    qed (use Cons.prems(4,5,7) False in \<open>auto simp: shares_def\<close>)
    moreover have "copied c e (v # vs) s s' = copied c e vs s s'" for s'
      using False by (auto simp: copied_def)
    moreover have "shares s c (v # vs) p = shares s c vs p" for p using False by (simp add: shares_def)
    ultimately show ?thesis
      using dup_one_skip [OF kern_invD(3) [OF k] v False] by (simp add: run_rules)
  next
    case True
    let ?va = "of_nat v * BY2PG :: u32" and ?d = "env_pgdir (envs s e)" and ?pp = "PPN (page_at s c v)"
    let ?ms = "missing_tabs s c ?d"
    have w: "v < VPN USTACKTOP" "VPN UTEMP \<le> v" "\<not> valid (page_at s e v)" using Cons.prems(5) [of v] True by auto
    note va = user_page(3) [OF w(1,2)]
    have sh: "shares s c (v # vs) p = (if p = ?pp then 1 else 0) + shares s c vs p" for p
      using True by (simp add: shares_def)
    have ref: "unat (pp_ref s ?pp) < 65535" using Cons.prems(7) [of v] True by (simp add: sh)
    have fin: "finite (?ms xs)" for xs by (simp add: missing_tabs_def)
    have slot: "v div 1024 \<in> ?ms (v # vs) \<longleftrightarrow> \<not> valid (mem s ?d (v div 1024))"
      using True by (auto simp: missing_tabs_def)
    have room: "valid (mem s ?d (PDX ?va)) \<or> fl \<noteq> []"
      using Cons.prems(6) slot card_gt_0_iff [of "?ms (v # vs)"] fin page_addr(2) [OF v] by fastforce
    obtain s1 fl1 where s1: "duppage child v s = Done () s1" "kern_inv idx pin fl1 c s1" "two_tr c e ?va s s1" "same_rest s s1"
        "page_at s1 c v = forked (page_at s c v)" "page_at s1 e v = forked (page_at s c v)" "data_kept idx fl s s1"
        "grew idx ?d ?va ?pp fl fl1 s s1"
      using duppage_run [OF k id v refl va _ _ _ room] True w(3) ref unfolding page_at_def by blast
    note inu = target_in_use [OF k id(1)] kern_invD(4) [OF k]
    have vs: "y < VPN USTACKTOP" "y \<noteq> v" if "y \<in> set vs" for y
      using that Cons.prems(4,5) by auto
    have same: "page_at s1 x y = page_at s x y" if "y \<in> set vs" "in_use s x" for x y
      by (rule two_tr_page [OF s1(3) w(1) vs [OF that(1)] that(2)])
    have envs: "envs s1 = envs s" "curenv s1 = curenv s" using same_restD [OF s1(4)] by simp_all
    have tgt: "target s1 = target s" by (intro ext) (simp add: target_def names_def may_control_def envs)
    have sh1: "shares s1 c vs = shares s c vs"
      unfolding shares_def by (rule ext, rule arg_cong [of _ _ length], rule filter_cong) (use same inu in auto)
    have fl1: "set fl1 \<subseteq> set fl" using s1(8) by (cases fl) (auto simp: grew_def)
    have free: "PPN (page_at s c y) \<notin> set fl" if "y \<in> set (v # vs)" "valid (page_at s c y)" for y
      using page_lookup_sys(2) [OF k inu(2), of "of_nat y * BY2PG"] user_page(3) [of y] Cons.prems(5) [OF that(1)] that(2)
      by (simp add: page_at_def)
    have refs: "unat (pp_ref s1 p) = unat (pp_ref s p) + (if p = ?pp then 1 else 0)" if "p \<notin> set fl" for p
    proof -
      have "unat (pp_ref s ?pp + 1) = unat (pp_ref s ?pp) + 1"
        using ref by (simp add: unat_word_ariths)
      then show ?thesis using s1(8) that by (simp add: grew_def)
    qed
    have "\<exists>s' fl'. forK vs (dup_one child) s1 = Done () s' \<and> kern_inv idx pin fl' c s' \<and> same_rest s1 s' \<and>
      data_kept idx fl1 s1 s' \<and> copied c e vs s1 s' \<and>
      (\<forall>p. p \<notin> set fl1 \<longrightarrow> unat (pp_ref s' p) = unat (pp_ref s1 p) + shares s1 c vs p)"
    proof (rule Cons.IH [OF s1(2) _ id(2)])
      show "target s1 c child True = Some e" using id(1) tgt by simp
      show "distinct vs" using Cons.prems(4) by simp
      show "y < VPN USTACKTOP \<and> (valid (page_at s1 c y) \<longrightarrow> VPN UTEMP \<le> y \<and> \<not> valid (page_at s1 e y))" if "y \<in> set vs" for y
        using Cons.prems(5) [of y] that same [OF that] inu by simp
      have "card (missing_tabs s1 c ?d vs) \<le> length fl1"
        by (rule missing_step [OF s1(8) _ w(1) _ True Cons.prems(6)])
          (use kern_invD(5) [OF k inu(1)] legal_slot [OF va] same inu in auto)
      then show "card (missing_tabs s1 c (env_pgdir (envs s1 e)) vs) \<le> length fl1" by (simp only: envs)
      show "unat (pp_ref s1 (PPN (page_at s1 c y))) + shares s1 c vs (PPN (page_at s1 c y)) < 65536"
        if "y \<in> set vs" "valid (page_at s1 c y)" for y
        using Cons.prems(7) [of y] that same [OF that(1)] inu refs [OF free, of y] sh [of "PPN (page_at s c y)"] sh1 by auto
    qed
    then obtain s' fl' where s': "forK vs (dup_one child) s1 = Done () s'" "kern_inv idx pin fl' c s'" "same_rest s1 s'"
      "data_kept idx fl1 s1 s'" "copied c e vs s1 s'"
      "\<forall>p. p \<notin> set fl1 \<longrightarrow> unat (pp_ref s' p) = unat (pp_ref s1 p) + shares s1 c vs p" by blast
    have "forK (v # vs) (dup_one child) s = Done () s'"
      using dup_one_valid [OF kern_invD(3) [OF k] v True] s1(1) s'(1) by (simp add: run_rules)
    moreover have "data_kept idx fl s s'" by (rule data_kept_trans [OF s1(7) s'(4) s1(8) room])
    moreover have "copied c e (v # vs) s s'"
      by (rule copied_step [OF s1(3) envs(1) inu(2,1) w(1) _ True s1(5,6) _ s'(5)]) (use vs same in auto)
    moreover have "unat (pp_ref s' p) = unat (pp_ref s p) + shares s c (v # vs) p" if "p \<notin> set fl" for p
      using s'(6) fl1 refs [OF that] that sh [of p] sh1 by auto
    ultimately show ?thesis using s'(2) same_rest_trans [OF s1(4) s'(3)] by blast
  qed
qed

end
