(* ===== verification/Fork_Child.thy ===== *)
theory Fork_Child
  imports Fork_Thms
begin

text \<open>
  \<^verbatim>\<open>sys_exofork\<close> and \<^verbatim>\<open>fork\<close> as a whole: the child gets the parent's address space, copy-on-write
  where it was writable, and joins the run list; nothing else changes.
\<close>

section \<open>The new environment\<close>

definition fork_env :: "nat \<Rightarrow> nat \<Rightarrow> (nat \<Rightarrow> u8) \<Rightarrow> nat \<Rightarrow> nat \<Rightarrow> kstate \<Rightarrow> env" where
  "fork_env e pp path i c s = (new_env pp (envid_of (mkenvid_i s + 1) e) (of_nat i) (env_id (envs s c)) (envs s e))\<lparr>
     env_tf := set_tf_reg 2 0 (kstack_tf s), env_status := ENV_NOT_RUNNABLE, env_pri := env_pri (envs s c), env_path := path\<rparr>"

text \<open>
  When \<^verbatim>\<open>sys_exofork\<close> can give out environment \<open>e\<close> with directory \<open>pp\<close> and ASID \<open>i\<close>: \<open>e\<close> is first in
  the free list, \<open>pp\<close> is the first free page, \<open>i\<close> is the lowest ASID that nobody uses, the id
  counter has not come round to 0, and the caller's path ends within the buffer.
\<close>

definition can_exofork :: "nat list \<Rightarrow> nat \<Rightarrow> nat \<Rightarrow> nat \<Rightarrow> nat \<Rightarrow> kstate \<Rightarrow> bool" where
  "can_exofork fl c e pp i s \<longleftrightarrow>
     base_pgdir s \<notin> set (pp # fl) \<and> (\<exists>el. is_list (env_free_list s) (e # el)) \<and> e < NENV \<and> \<not> in_use s e \<and>
     i < NASID \<and> i \<notin> asid_used s \<and> {..<i} \<subseteq> asid_used s \<and>
     (\<forall>x. in_use s x \<longrightarrow> unat (env_asid (envs s x)) \<in> asid_used s) \<and>
     take_bit 21 (mkenvid_i s + 1) \<noteq> 0 \<and> (\<exists>n < MAXPATH. env_path (envs s c) n = 0)"

lemma strcpy_buf_ends:
  "src (i + n) = 0 \<Longrightarrow> n < k \<Longrightarrow> strcpy_buf k i src dst \<noteq> None"
proof (induction k i src dst arbitrary: n rule: strcpy_buf.induct)
  case (2 k i src dst)
  show ?case
  proof (cases n)
    case (Suc m)
    show ?thesis
    proof (cases "src i = 0")
      case False
      have "strcpy_buf k (Suc i) src (dst(i := src i)) \<noteq> None"
        by (rule "2.IH" [OF refl False, of m]) (use "2.prems" Suc in simp_all)
      with False show ?thesis by (simp add: Let_def)
    qed (simp add: Let_def)
  qed (use 2 in \<open>simp add: Let_def\<close>)
qed simp

lemma sys_exofork_run:
  assumes k: "kern_inv idx pin (pp # fl) c s" and can: "can_exofork fl c e pp i s"
  shows "\<exists>s' path. sys_exofork s = Done (Inr (envid_of (mkenvid_i s + 1) e)) s' \<and>
    s' = (alloc_state e pp i (env_id (envs s c)) s)\<lparr>envs := (envs s)(e := fork_env e pp path i c s)\<rparr>"
proof -
  have c: "curenv s = Some c" "e \<noteq> c" using k can by (auto simp: kern_inv_def can_exofork_def)
  obtain el where el: "is_list (env_free_list s) (e # el)" using can by (auto simp: can_exofork_def)
  let ?a = "alloc_state e pp i (env_id (envs s c)) s"
  have al: "env_alloc (env_id (envs s c)) s = Done (Inr e) ?a"
    by (rule env_alloc_run [OF kern_invD(1) [OF k] _ el]) (use can in \<open>auto simp: can_exofork_def\<close>)
  have envs: "envs ?a = (envs s)(e := new_env pp (envid_of (mkenvid_i s + 1) e) (of_nat i) (env_id (envs s c)) (envs s e))"
    "kstack_tf ?a = kstack_tf s"
    by (simp_all add: alloc_state_def set_up_def set_asid_def)
  have "strcpy_buf MAXPATH 0 (env_path (envs s c)) (env_path (envs ?a e)) \<noteq> None"
    using can by (auto simp: can_exofork_def intro!: strcpy_buf_ends [of _ 0, simplified])
  then obtain path where p: "strcpy_buf MAXPATH 0 (env_path (envs s c)) (env_path (envs ?a e)) = Some path" by blast
  then have "sys_exofork s = Done (Inr (envid_of (mkenvid_i s + 1) e)) (?a\<lparr>envs := (envs s)(e := fork_env e pp path i c s)\<rparr>)"
    using c al by (cases "envs s e") (simp add: sys_exofork_def run_rules the_env_def envs upd_env_def fork_env_def new_env_def)
  then show ?thesis by blast
qed

lemma exofork_kern:
  assumes k: "kern_inv idx pin (pp # fl) c s" and can: "can_exofork fl c e pp i s"
    and s': "s' = (alloc_state e pp i (env_id (envs s c)) s)\<lparr>envs := (envs s)(e := fork_env e pp path i c s)\<rparr>"
  shows "kern_inv (idx(pp := user_slots)) (pin(pp := 1)) fl c s'" "idx pp = {}"
    "\<And>x. in_use s' x \<longleftrightarrow> x = e \<or> in_use s x"
    "\<And>x va. in_use s x \<Longrightarrow> PDX va < PDX UTOP \<Longrightarrow> tr s' x va = tr s x va"
    "\<And>va. PDX va < PDX UTOP \<Longrightarrow> \<not> valid (mem s' pp (PDX va)) \<and> tr s' e va = 0"
    "mem s' = (mem s)(pp := new_dir pp s)" "pp_ref s' = (pp_ref s)(pp := 1)"
    "target s' c (envid_of (mkenvid_i s + 1) e) chk = Some e" "e \<noteq> c"
proof -
  have e: "e < NENV" "\<not> in_use s e" using can by (simp_all add: can_exofork_def)
  note inv = set_up_inv(1) [OF kern_invD(1) [OF k], of e] set_up_inv(2) [OF kern_invD(1) [OF k]]
  show pp: "idx pp = {}" by (rule inv(2))
  show mem: "mem s' = (mem s)(pp := new_dir pp s)" and ref: "pp_ref s' = (pp_ref s)(pp := 1)"
    by (simp_all add: s' alloc_state_def set_asid_def set_up_def)
  have envs: "envs s' = (envs s)(e := fork_env e pp path i c s)" by (simp add: s')
  show use: "in_use s' x \<longleftrightarrow> x = e \<or> in_use s x" for x
    using e by (simp add: in_use_def envs fork_env_def)
  show ne: "e \<noteq> c" using e kern_invD(4) [OF k] by blast
  have mm: "mm_inv (idx(pp := user_slots)) (pin(pp := 1)) fl s'"
    using inv(1) by (simp add: mm_inv_def s' alloc_state_def set_asid_def)
  have dirs: "env_pgdir (envs s' x) = (if x = e then pp else env_pgdir (envs s x))"
    "env_asid (envs s' x) = (if x = e then of_nat i else env_asid (envs s x))"
    "env_id (envs s' x) = (if x = e then envid_of (mkenvid_i s + 1) e else env_id (envs s x))" for x
    by (simp_all add: envs fork_env_def new_env_def)
  have other: "env_pgdir (envs s x) \<noteq> pp \<and> env_asid (envs s x) \<noteq> of_nat i" if "in_use s x" for x
  proof
    have "0 \<in> user_slots" by (simp add: user_slots_def)
    then show "env_pgdir (envs s x) \<noteq> pp" using kern_invD(5) [OF k that] pp by auto
    have "unat (env_asid (envs s x)) \<noteq> i" using can that by (auto simp: can_exofork_def)
    then show "env_asid (envs s x) \<noteq> of_nat i" using can unat_NASID [of i] by (auto simp: can_exofork_def)
  qed
  have ids: "ids_ok s'"
    unfolding ids_ok_in_use use dirs
    using kern_invD(2) [OF k, unfolded ids_ok_in_use] e can envid_of_nonzero [of e "mkenvid_i s + 1"]
    by (auto simp: can_exofork_def)
  have "curenv s' = Some c" using kern_invD(3) [OF k] by (simp add: s' alloc_state_def set_asid_def set_up_def)
  moreover have "inj_on (\<lambda>x. env_pgdir (envs s' x)) {x. in_use s' x}" "inj_on (\<lambda>x. env_asid (envs s' x)) {x. in_use s' x}"
    unfolding use dirs using k e other [THEN conjunct2, THEN not_sym] by (auto simp: kern_inv_def inj_on_def dest: other)
  moreover have "(idx(pp := user_slots)) (env_pgdir (envs s' x)) = user_slots" if "in_use s' x" for x
    using that other kern_invD(5) [OF k] by (auto simp: use dirs)
  ultimately show "kern_inv (idx(pp := user_slots)) (pin(pp := 1)) fl c s'"
    unfolding kern_inv_def using mm ids kern_invD(4) [OF k] use by blast
  show "tr s' x va = tr s x va" if x: "in_use s x" and va: "PDX va < PDX UTOP" for x va
  proof -
    let ?d = "env_pgdir (envs s x)"
    have free: "pp < npage s" "pp_ref s pp = 0" using kern_invD(1) [OF k] by (simp_all add: mm_inv_def)
    have "PPN (mem s ?d (PDX va)) \<noteq> pp" if "valid (mem s ?d (PDX va))"
      using mm_inv_unreferenced(3) [OF kern_invD(1) [OF k] free, of "(?d, PDX va)"] that kern_invD(5) [OF k x] va
      by (simp add: tabs_def tab_of.simps user_slots_def PDX_UTOP)
    moreover have "x \<noteq> e" "?d \<noteq> pp" using x e other by auto
    ultimately show ?thesis by (simp add: tr_def dirs lookup_pte_def mem)
  qed
  show "\<not> valid (mem s' pp (PDX va)) \<and> tr s' e va = 0" if "PDX va < PDX UTOP" for va
    using that by (simp add: tr_def envs fork_env_def new_env_def lookup_pte_def mem new_dir_def PDX_UTOP)
  show "target s' c (envid_of (mkenvid_i s + 1) e) chk = Some e"
    using e can envid_of_nonzero [of e "mkenvid_i s + 1"]
    by (simp add: can_exofork_def target_def names_def may_control_def envs fork_env_def new_env_def ne [symmetric])
qed

section \<open>The whole call\<close>

lemma kern_inv_upd:
  assumes "kern_inv idx pin fl c s" "in_use s e"
    and "\<And>v. env_pgdir (f v) = env_pgdir v \<and> env_asid (f v) = env_asid v \<and> env_id (f v) = env_id v"
    and "env_status (f (envs s e)) \<noteq> ENV_FREE"
  shows "kern_inv idx pin fl c (upd_env e f s)"
proof -
  have u: "in_use (upd_env e f s) x = in_use s x" for x
    using assms(2,4) by (auto simp: in_use_def upd_env_def)
  have d: "env_pgdir (envs (upd_env e f s) x) = env_pgdir (envs s x)" "env_asid (envs (upd_env e f s) x) = env_asid (envs s x)"
    "env_id (envs (upd_env e f s) x) = env_id (envs s x)" for x
    using assms(3) by (simp_all add: upd_env_def)
  have "mm_inv idx pin fl (upd_env e f s) = mm_inv idx pin fl s" by (simp add: mm_inv_def upd_env_def)
  moreover have "curenv (upd_env e f s) = curenv s" by (simp add: upd_env_def)
  ultimately show ?thesis
    using assms(1) by (simp add: kern_inv_def ids_ok_in_use u d)
qed

lemma sys_set_tlb_mod_entry_run:
  assumes "kern_inv idx pin fl c s" "target s c envid False = Some e"
  shows "sys_set_tlb_mod_entry envid func s = Done (Inr 0) (upd_env e (env_user_tlb_mod_entry_update (\<lambda>_. func)) s)"
  using envid2env_target [OF kern_invD(2,3) [OF assms(1)], of envid False] assms(2)
  by (simp add: sys_set_tlb_mod_entry_def run_rules the_env_def)

lemma tr_upd:
  assumes "\<And>v. env_pgdir (f v) = env_pgdir v"
  shows "tr (upd_env e f s) = tr s" "page_at (upd_env e f s) = page_at s"
  by (auto simp: tr_def page_at_def upd_env_def assms fun_eq_iff)

lemma tr_page_at: "tr s e va = page_at s e (VPN va)"
proof -
  have "unat va < 2 ^ LENGTH(32)" by (rule unsigned_less)
  then have n: "VPN va < 2 ^ 20" by (simp add: VPN_alt less_mult_imp_div_less)
  have "unat va div 2 ^ 22 = unat va div (2 ^ 12 * 1024)" by simp
  also have "\<dots> = unat va div 2 ^ 12 div 1024" by (rule div_mult2_eq)
  finally have "PDX va = VPN va div 1024" by (simp add: PDX_alt VPN_alt)
  moreover have "PTX va = VPN va mod 1024" by (simp add: PTX_alt VPN_alt)
  ultimately have "PDX (of_nat (VPN va) * BY2PG) = PDX va" "PTX (of_nat (VPN va) * BY2PG) = PTX va"
    using page_addr(2,3) [OF n] by simp_all
  then show ?thesis by (simp add: page_at_def tr_def lookup_pte_def)
qed

definition mapped_pages :: "kstate \<Rightarrow> nat \<Rightarrow> nat set" where
  "mapped_pages s c = {v. v < VPN USTACKTOP \<and> valid (page_at s c v)}"

text \<open>The address space after \<^verbatim>\<open>fork\<close>, for the parent, the child and the others.\<close>

definition space_forked :: "nat \<Rightarrow> nat \<Rightarrow> kstate \<Rightarrow> kstate \<Rightarrow> bool" where
  "space_forked c e s s' \<longleftrightarrow> (\<forall>va. PDX va < PDX UTOP \<longrightarrow>
     tr s' c va = (if VPN va \<in> mapped_pages s c then forked (tr s c va) else tr s c va) \<and>
     tr s' e va = (if VPN va \<in> mapped_pages s c then forked (tr s c va) else 0) \<and>
     (\<forall>x. in_use s x \<longrightarrow> x \<noteq> c \<longrightarrow> tr s' x va = tr s x va))"

lemma space_forkedI:
  assumes c: "copied c e [0..<VPN USTACKTOP] t t'" and k: "in_use t c" "in_use t e" "in_use s c" "e \<noteq> c" "\<not> in_use s e"
    and use: "\<And>x. in_use s x \<Longrightarrow> in_use t x"
    and old: "\<And>x va. in_use s x \<Longrightarrow> PDX va < PDX UTOP \<Longrightarrow> tr t x va = tr s x va"
    and new: "\<And>va. PDX va < PDX UTOP \<Longrightarrow> tr t e va = 0"
  shows "space_forked c e s t'"
  unfolding space_forked_def
proof (intro allI impI conjI)
  fix va
  assume va: "PDX va < PDX UTOP"
  note r = c [unfolded copied_def]
  have pg: "page_at t c v = page_at s c v" if "v < VPN USTACKTOP" for v
    unfolding page_at_def using old [OF k(3)] user_page(2) [OF that] by simp
  have m: "{v \<in> set [0..<VPN USTACKTOP]. valid (page_at t c v)} = mapped_pages s c"
    using pg by (auto simp: mapped_pages_def)
  have same: "tr t' x va = tr t x va" if "in_use t x" "x \<notin> {c, e} \<or> VPN va \<notin> mapped_pages s c" for x
    using r that va unfolding m by blast
  have both: "tr t' c va = forked (tr s c va) \<and> tr t' e va = forked (tr s c va)" if "VPN va \<in> mapped_pages s c"
    using r that pg [of "VPN va"] unfolding tr_page_at by (auto simp: mapped_pages_def)
  show "tr t' c va = (if VPN va \<in> mapped_pages s c then forked (tr s c va) else tr s c va)"
    using both same [OF k(1)] old [OF k(3) va] by simp
  show "tr t' e va = (if VPN va \<in> mapped_pages s c then forked (tr s c va) else 0)"
    using both same [OF k(2)] new [OF va] by simp
  show "tr t' x va = tr s x va" if "in_use s x" "x \<noteq> c" for x
    using same [OF use [OF that(1)]] old [OF that(1) va] that k(5) by auto
qed

text \<open>The entries of the new directory change nothing for frames that are neither free nor tables.\<close>

lemma data_kept_new_dir:
  assumes k: "kern_inv idx pin (pp # fl) c s" and m: "mem t = (mem s)(pp := new_dir pp s)" and pp: "idx pp = {}"
    and d: "data_kept (idx(pp := user_slots)) fl t t'"
  shows "data_kept idx (pp # fl) s t'"
  unfolding data_kept_def
proof (intro allI impI)
  fix f
  assume f: "f \<notin> set (pp # fl)" "idx f = {}" "\<forall>x \<in> tabs idx (mem s). tab_of (mem s) x \<noteq> f"
  have "tab_of (mem t) x \<noteq> f" if "x \<in> tabs (idx(pp := user_slots)) (mem t)" for x
  proof -
    obtain d i where x: "x = (d, i)" by (cases x)
    have "d \<noteq> pp"
      using that x by (auto simp: tabs_def m new_dir_def user_slots_def)
    then have "x \<in> tabs idx (mem s)" "tab_of (mem t) x = tab_of (mem s) x"
      using that x by (auto simp: tabs_def m tab_of.simps)
    then show ?thesis using f(3) by auto
  qed
  then have "mem t' f = mem t f" using d f(1,2) by (simp add: data_kept_def)
  then show "mem t' f = mem s f" using f(1) m by simp
qed

lemma fork_parent:
  assumes k: "kern_inv idx pin (pp # fl) c s" and can: "can_exofork fl c e pp i s"
    and low: "\<And>v. v \<in> mapped_pages s c \<Longrightarrow> VPN UTEMP \<le> v"
    and room: "card ((\<lambda>v. v div 1024) ` mapped_pages s c) \<le> length fl"
    and refs: "\<And>v. v \<in> mapped_pages s c \<Longrightarrow>
      unat (pp_ref s (PPN (page_at s c v))) + shares s c [0..<VPN USTACKTOP] (PPN (page_at s c v)) < 65536"
  shows "\<exists>t t' fl' path. sys_exofork s = Done (Inr (envid_of (mkenvid_i s + 1) e)) t \<and>
    forK [0..<VPN USTACKTOP] (dup_one (envid_of (mkenvid_i s + 1) e)) t = Done () t' \<and>
    kern_inv (idx(pp := user_slots)) (pin(pp := 1)) fl' c t' \<and> same_rest t t' \<and>
    envs t = (envs s)(e := fork_env e pp path i c s) \<and> env_sched_list t = env_sched_list s \<and>
    target t c (envid_of (mkenvid_i s + 1) e) False = Some e \<and> e \<noteq> c \<and>
    space_forked c e s t' \<and> data_kept idx (pp # fl) s t' \<and>
    (\<forall>p. p \<notin> set (pp # fl) \<longrightarrow> unat (pp_ref t' p) = unat (pp_ref s p) + shares s c [0..<VPN USTACKTOP] p)"
proof -
  let ?id = "envid_of (mkenvid_i s + 1) e" and ?vs = "[0..<VPN USTACKTOP]" and ?idx = "idx(pp := user_slots)"
  obtain t path where t: "sys_exofork s = Done (Inr ?id) t"
      "t = (alloc_state e pp i (env_id (envs s c)) s)\<lparr>envs := (envs s)(e := fork_env e pp path i c s)\<rparr>"
    using sys_exofork_run [OF k can] by blast
  note x = exofork_kern [OF k can t(2)]
  have c: "in_use s c" by (rule kern_invD(4) [OF k])
  have dir: "env_pgdir (envs t e) = pp" by (simp add: t(2) fork_env_def new_env_def)
  have pg: "page_at t c v = page_at s c v" "page_at t e v = 0" if "v < VPN USTACKTOP" for v
    unfolding page_at_def using x(4) [OF c] x(5) user_page(2) [OF that] by simp_all
  have sh: "shares t c ?vs = shares s c ?vs"
    unfolding shares_def by (rule ext, rule arg_cong [of _ _ length], rule filter_cong) (auto simp: pg)
  have m: "{v \<in> set ?vs. valid (page_at t c v)} = mapped_pages s c"
    using pg by (auto simp: mapped_pages_def)
  have "missing_tabs t c pp ?vs \<subseteq> (\<lambda>v. v div 1024) ` mapped_pages s c" unfolding missing_tabs_def m by blast
  moreover have "finite (mapped_pages s c)" by (simp add: mapped_pages_def)
  ultimately have tab: "card (missing_tabs t c pp ?vs) \<le> length fl"
    using card_mono room finite_imageI by (metis le_trans)
  have free: "PPN (page_at s c v) \<noteq> pp" if "v \<in> mapped_pages s c" for v
    using page_lookup_sys(2) [OF k c, of "of_nat v * BY2PG"] user_page(3) [of v] low [OF that] that
    by (auto simp: page_at_def mapped_pages_def)
  have "\<exists>t' fl'. forK ?vs (dup_one ?id) t = Done () t' \<and> kern_inv ?idx (pin(pp := 1)) fl' c t' \<and> same_rest t t' \<and>
    data_kept ?idx fl t t' \<and> copied c e ?vs t t' \<and>
    (\<forall>p. p \<notin> set fl \<longrightarrow> unat (pp_ref t' p) = unat (pp_ref t p) + shares t c ?vs p)"
  proof (rule fork_loop [OF x(1) x(8) x(9)])
    show "v < VPN USTACKTOP \<and> (valid (page_at t c v) \<longrightarrow> VPN UTEMP \<le> v \<and> \<not> valid (page_at t e v))" if "v \<in> set ?vs" for v
      using that low [of v] by (simp add: pg mapped_pages_def valid_def)
    show "unat (pp_ref t (PPN (page_at t c v))) + shares t c ?vs (PPN (page_at t c v)) < 65536"
      if "v \<in> set ?vs" "valid (page_at t c v)" for v
      using that refs [of v] free [of v] by (simp add: pg sh x(7) mapped_pages_def)
  qed (use tab dir in simp_all)
  then obtain t' fl' where t': "forK ?vs (dup_one ?id) t = Done () t'" "kern_inv ?idx (pin(pp := 1)) fl' c t'" "same_rest t t'"
      "data_kept ?idx fl t t'" "copied c e ?vs t t'"
      "\<forall>p. p \<notin> set fl \<longrightarrow> unat (pp_ref t' p) = unat (pp_ref t p) + shares t c ?vs p" by blast
  have "space_forked c e s t'"
    by (rule space_forkedI [OF t'(5)]) (use x(3,4,5,9) c can in \<open>auto simp: can_exofork_def\<close>)
  moreover have "data_kept idx (pp # fl) s t'" by (rule data_kept_new_dir [OF k x(6,2) t'(4)])
  moreover have "unat (pp_ref t' p) = unat (pp_ref s p) + shares s c ?vs p" if "p \<notin> set (pp # fl)" for p
    using t'(6) that by (simp add: x(7) sh)
  moreover have "envs t = (envs s)(e := fork_env e pp path i c s)" "env_sched_list t = env_sched_list s"
    by (simp_all add: t(2) alloc_state_def set_asid_def set_up_def)
  ultimately show ?thesis using t(1) t'(1,2,3) x(8,9) by blast
qed

lemma same_spaces:
  assumes "\<And>v. env_pgdir (f v) = env_pgdir v" "\<And>v. env_status (f v) = env_status v"
  shows "mapped_pages (upd_env c f s) = mapped_pages s" "shares (upd_env c f s) = shares s"
    "space_forked c e (upd_env c f s) = space_forked c e s" "data_kept idx fl (upd_env c f s) = data_kept idx fl s"
proof -
  have u: "in_use (upd_env c f s) x = in_use s x" for x using assms(2) by (simp add: in_use_def upd_env_def)
  note t = tr_upd [of f, OF assms(1)]
  show m: "mapped_pages (upd_env c f s) = mapped_pages s" "shares (upd_env c f s) = shares s"
    by (auto simp: mapped_pages_def shares_def t fun_eq_iff)
  show "space_forked c e (upd_env c f s) = space_forked c e s"
    by (auto simp: space_forked_def m t u fun_eq_iff)
  show "data_kept idx fl (upd_env c f s) = data_kept idx fl s"
    by (auto simp: data_kept_def upd_env_def fun_eq_iff)
qed

text \<open>The state that \<^verbatim>\<open>fork\<close> leaves, with the child as it starts.\<close>

definition child_started :: "nat \<Rightarrow> nat \<Rightarrow> u32 \<Rightarrow> kstate \<Rightarrow> kstate \<Rightarrow> bool" where
  "child_started c e entry s s' \<longleftrightarrow>
     env_tf (envs s' e) = set_tf_reg 2 0 (kstack_tf s) \<and> env_parent_id (envs s' e) = env_id (envs s c) \<and>
     env_status (envs s' e) = ENV_RUNNABLE \<and> env_pri (envs s' e) = env_pri (envs s c) \<and>
     env_user_tlb_mod_entry (envs s' e) = entry \<and> env_user_tlb_mod_entry (envs s' c) = entry"

text \<open>The two system calls after the loop.\<close>

lemma fork_finish:
  assumes k: "kern_inv idx pin fl c t" and tgt: "target t c child False = Some e"
    and e: "e < NENV" "env_status (envs t e) = ENV_NOT_RUNNABLE" and q: "sched_ok xs t"
  shows "\<exists>t1 s' q'. sys_set_tlb_mod_entry child entry t = Done (Inr 0) t1 \<and> sys_set_env_status child 1 t1 = Done (Inr 0) s' \<and>
    kern_inv idx pin fl c s' \<and> sched_ok (xs @ [e]) s' \<and>
    s' = upd_env e (env_status_update (\<lambda>_. ENV_RUNNABLE))
      (upd_env e (env_user_tlb_mod_entry_update (\<lambda>_. entry)) t\<lparr>env_sched_list := q'\<rparr>)"
proof -
  let ?t = "upd_env e (env_user_tlb_mod_entry_update (\<lambda>_. entry)) t"
  have u: "in_use t e" using e by (simp add: in_use_def)
  have kt: "kern_inv idx pin fl c ?t" by (rule kern_inv_upd [OF k u]) (use e in simp_all)
  have st: "env_status (envs ?t x) = env_status (envs t x)" "env_id (envs ?t x) = env_id (envs t x)" for x
    by (simp_all add: upd_env_def)
  have tgt1: "target ?t c child False = Some e" using tgt by (simp add: target_def names_def st split: if_splits)
  have q1: "sched_ok xs ?t" using q by (simp add: sched_ok_def runnable_def st) (simp add: upd_env_def)
  have ne: "e \<notin> set xs" using sched_ok_mem [OF q e(1)] e(2) by simp
  obtain s' q' where s': "sys_set_env_status child 1 ?t = Done (Inr 0) s'" "sched_ok (xs @ [e]) s'"
      "s' = upd_env e (env_status_update (\<lambda>_. ENV_RUNNABLE)) (?t\<lparr>env_sched_list := q'\<rparr>)"
    using set_env_status_run [OF q1 kern_invD(2,3) [OF kt] tgt1 e(1), of 1 ENV_RUNNABLE] ne st(1) [of e] e(2)
    by (auto simp: status_of_def requeue_def)
  have kq: "kern_inv idx pin fl c (?t\<lparr>env_sched_list := q'\<rparr>)"
    using kt by (simp add: kern_inv_def mm_inv_def ids_ok_def in_use_def)
  have "kern_inv idx pin fl c s'"
    unfolding s'(3) by (rule kern_inv_upd [OF kq]) (use u in \<open>simp_all add: in_use_def upd_env_def\<close>)
  then show ?thesis using sys_set_tlb_mod_entry_run [OF k tgt] s' by blast
qed

text \<open>The call, from its parts.\<close>

lemma fork_from_parts:
  assumes k: "kern_inv idx pin fl c s" and id: "child \<noteq> 0"
    and "sys_exofork (upd_env c (env_user_tlb_mod_entry_update (\<lambda>_. entry)) s) = Done (Inr child) t"
    and "forK [0..<VPN USTACKTOP] (dup_one child) t = Done () t'"
    and "sys_set_tlb_mod_entry child entry t' = Done (Inr x) t1" "sys_set_env_status child 1 t1 = Done (Inr y) s'"
  shows "fork entry s = Done (Inr child) s'"
proof -
  let ?set = "upd_env c (env_user_tlb_mod_entry_update (\<lambda>_. entry))"
  have "target s c 0 False = Some c" by (simp add: target_def)
  note set = sys_set_tlb_mod_entry_run [OF k this, of entry]
  have rest: "bindK sys_exofork (\<lambda>r. let child = sys_value r in if child = 0 then retK (Inr 0)
     else seqK (forK [0..<VPN USTACKTOP] (dup_one child)) (seqK (ignore (sys_set_tlb_mod_entry child entry))
       (seqK (ignore (sys_set_env_status child 1)) (retK (Inr child))))) (?set s) = Done (Inr child) s'"
    using assms(2-) by (simp add: run_rules sys_value_def ignore_def Let_def del: forK.simps upt.simps)
  show ?thesis
  proof (cases "env_user_tlb_mod_entry (envs s c) = entry")
    case True
    then have "?set s = s" by (cases "envs s c") (simp add: upd_env_def fun_upd_idem)
    then show ?thesis using True rest kern_invD(3) [OF k] by (simp add: fork_def run_rules the_env_def)
  next
    case False
    then show ?thesis using rest set kern_invD(3) [OF k] by (simp add: fork_def run_rules the_env_def)
  qed
qed

text \<open>
  C13. \<^verbatim>\<open>fork\<close> gives the parent the id of a new child that has the parent's address space: each page
  below the stack's top that the parent has mapped is, in both, the same frame with the same
  rights if it was read-only or shared, and otherwise read-only and marked copy-on-write in both; no page
  of any other environment and no data frame changes, every frame's reference count grows by the number of
  mappings that the child got, and the child returns 0 from the call, with the handler of copy-on-write
  faults registered, at the tail of the run list.
\<close>

theorem fork_copies_address_space:
  assumes "kern_inv idx pin (pp # fl) c s" "can_exofork fl c e pp i s" "sched_ok xs s"
    and "\<And>v. v \<in> mapped_pages s c \<Longrightarrow> VPN UTEMP \<le> v"
    and "card ((\<lambda>v. v div 1024) ` mapped_pages s c) \<le> length fl"
    and "\<And>v. v \<in> mapped_pages s c \<Longrightarrow>
      unat (pp_ref s (PPN (page_at s c v))) + shares s c [0..<VPN USTACKTOP] (PPN (page_at s c v)) < 65536"
  shows "\<exists>s' fl'. fork entry s = Done (Inr (envid_of (mkenvid_i s + 1) e)) s' \<and>
    kern_inv (idx(pp := user_slots)) (pin(pp := 1)) fl' c s' \<and> sched_ok (xs @ [e]) s' \<and>
    space_forked c e s s' \<and> child_started c e entry s s' \<and> data_kept idx (pp # fl) s s' \<and>
    (\<forall>p. p \<notin> set (pp # fl) \<longrightarrow> unat (pp_ref s' p) = unat (pp_ref s p) + shares s c [0..<VPN USTACKTOP] p)"
proof -
  let ?set = "env_user_tlb_mod_entry_update (\<lambda>_. entry)" and ?id = "envid_of (mkenvid_i s + 1) e"
  let ?s = "upd_env c ?set s" and ?n = "shares s c [0..<VPN USTACKTOP]"
  note cur = kern_invD(3,4) [OF assms(1)]
  have k: "kern_inv idx pin (pp # fl) c ?s"
    by (rule kern_inv_upd [OF assms(1) cur(2)]) (use cur(2) in \<open>simp_all add: in_use_def\<close>)
  have can: "can_exofork fl c e pp i ?s"
    using assms(2) by (auto simp: can_exofork_def in_use_def asid_used_def upd_env_def)
  have same: "mapped_pages ?s = mapped_pages s" "shares ?s = shares s" "space_forked c e ?s = space_forked c e s"
    "data_kept idx (pp # fl) ?s = data_kept idx (pp # fl) s" "page_at ?s = page_at s" "pp_ref ?s = pp_ref s"
    "mkenvid_i ?s = mkenvid_i s" "env_sched_list ?s = env_sched_list s" "kstack_tf ?s = kstack_tf s"
    using same_spaces [of ?set] tr_upd [of ?set] by (simp_all add: upd_env_def)
  obtain t t' fl' path where t: "sys_exofork ?s = Done (Inr ?id) t" "forK [0..<VPN USTACKTOP] (dup_one ?id) t = Done () t'"
      "kern_inv (idx(pp := user_slots)) (pin(pp := 1)) fl' c t'" "same_rest t t'"
      "envs t = (envs ?s)(e := fork_env e pp path i c ?s)" "env_sched_list t = env_sched_list s"
      "target t c ?id False = Some e" "e \<noteq> c" "space_forked c e s t'" "data_kept idx (pp # fl) s t'"
      "\<forall>p. p \<notin> set (pp # fl) \<longrightarrow> unat (pp_ref t' p) = unat (pp_ref s p) + ?n p"
    using fork_parent [OF k can, unfolded same] assms(4-6) by blast
  have envs: "envs t' = envs t" "env_sched_list t' = env_sched_list t" using same_restD [OF t(4)] by simp_all
  have e: "e < NENV" "env_status (envs s e) = ENV_FREE" "?id \<noteq> 0"
    using assms(2) envid_of_nonzero [of e "mkenvid_i s + 1"] by (auto simp: can_exofork_def in_use_def)
  have st: "env_status (envs t' x) = (if x = e then ENV_NOT_RUNNABLE else env_status (envs s x))" for x
    by (simp add: upd_env_def envs t(5) fork_env_def)
  have tgt: "target t' c ?id False = Some e" using t(7) by (simp add: target_def names_def envs split: if_splits)
  have "runnable t' = runnable s" using e(2) by (auto simp: runnable_def st)
  then have q: "sched_ok xs t'" using assms(3) by (simp add: sched_ok_def envs t(6))
  obtain t1 s' q' where s': "sys_set_tlb_mod_entry ?id entry t' = Done (Inr 0) t1" "sys_set_env_status ?id 1 t1 = Done (Inr 0) s'"
      "kern_inv (idx(pp := user_slots)) (pin(pp := 1)) fl' c s'" "sched_ok (xs @ [e]) s'"
      "s' = upd_env e (env_status_update (\<lambda>_. ENV_RUNNABLE)) (upd_env e ?set t'\<lparr>env_sched_list := q'\<rparr>)"
    using fork_finish [OF t(3) tgt e(1) _ q, of entry] st [of e] by auto
  have "tr s' = tr t'" "mem s' = mem t'" "pp_ref s' = pp_ref t'"
    by (auto simp: s'(5) tr_def upd_env_def fun_eq_iff)
  then have "space_forked c e s s'" "data_kept idx (pp # fl) s s'" "\<forall>p. p \<notin> set (pp # fl) \<longrightarrow> unat (pp_ref s' p) = unat (pp_ref s p) + ?n p"
    using t(9-11) by (simp_all add: space_forked_def data_kept_def)
  moreover have "child_started c e entry s s'"
    using t(8) by (simp add: child_started_def s'(5) upd_env_def envs t(5) fork_env_def new_env_def)
  ultimately show ?thesis
    using fork_from_parts [OF assms(1) e(3) t(1,2) s'(1,2)] s'(3,4) by blast
qed

section \<open>An example\<close>

text \<open>
  The machine of \<open>Env_Thms\<close>, where the running environment has page 5 mapped writable at
  \<open>0x400000\<close>; page 4 is its page table.
\<close>

definition lone_mem :: "nat \<Rightarrow> frame" where
  "lone_mem = (\<lambda>_ _. 0)(1 := (\<lambda>_. 0)(1 := page2pa 4 OR PTE_D OR PTE_V), 4 := (\<lambda>_. 0)(0 := page2pa 5 OR PTE_D OR PTE_V))"

definition lone_machine :: kstate where
  "lone_machine = env_machine\<lparr>mem := lone_mem, pp_ref := (\<lambda>p. if p < 6 then 1 else 0),
     page_free_list := fold LIST_INSERT_HEAD [7, 6] (LIST_INIT empty_list)\<rparr>"

lemma lone_simps [simp]: "envs lone_machine = one_env" "curenv lone_machine = Some 0" "mem lone_machine = lone_mem"
  "base_pgdir lone_machine = 0" "mkenvid_i lone_machine = 1" "env_free_list lone_machine = env_free_list env_machine"
  "pp_ref lone_machine p = (if p < 6 then 1 else 0)" "asid_bitmap lone_machine = asid_bitmap env_machine"
  "env_sched_list lone_machine = env_sched_list env_machine"
  by (simp_all add: lone_machine_def)

lemma lone_in_use: "in_use lone_machine e \<longleftrightarrow> e = 0"
  by (auto simp: in_use_def one_env_def zero_env_def NENV_def LOG2NENV_def)

lemma lone_tabs: "tabs small_idx lone_mem = {(1, 1)}"
  by (auto simp: tabs_def small_idx_def lone_mem_def split: if_splits)

lemma lone_leafs: "leafs small_idx lone_mem = {(1, 1, 0)}"
  unfolding leafs_def lone_tabs by (auto simp: lone_mem_def split: if_splits)

lemma card_single: "card {x \<in> {a}. Q x} = (if Q a then 1 else 0)"
proof -
  have "{x \<in> {a}. Q x} = (if Q a then {a} else {})" by auto
  then show ?thesis by simp
qed

lemma lone_kern: "kern_inv small_idx small_pin [6, 7] 0 lone_machine"
proof -
  have t: "tab_of lone_mem (1, 1) = 4" "leaf_of lone_mem (1, 1, 0) = 5"
    by (simp_all add: tab_of.simps leaf_of.simps lone_mem_def)
  have n: "ntab small_idx lone_mem p = (if p = 4 then 1 else 0)" "nleaf small_idx lone_mem p = (if p = 5 then 1 else 0)" for p
    unfolding ntab_def nleaf_def lone_tabs lone_leafs card_single t by simp_all
  have wf: "pt_wf small_idx lone_mem 8"
    unfolding pt_wf_def lone_tabs lone_leafs by (simp add: t [simplified] small_idx_def)
  have "is_list (page_free_list lone_machine) [6, 7]"
    unfolding lone_machine_def using lq.fold_push [OF lq.repr_init, of "[7, 6 :: nat]"] by simp
  moreover have "npage lone_machine = 8" by (simp add: lone_machine_def)
  ultimately have "mm_inv small_idx small_pin [6, 7] lone_machine"
    using wf by (simp add: mm_inv_def n small_pin_def small_idx_def)
  moreover have "ids_ok lone_machine" using env_machine_ids by (simp add: ids_ok_def)
  ultimately show ?thesis
    by (simp add: kern_inv_def lone_in_use) (simp add: one_env_def small_idx_def user_slots_def)
qed

lemma lone_page: "page_at lone_machine 0 v = (if v div 1024 = 1 \<and> v mod 1024 = 0 then page2pa 5 OR PTE_D OR PTE_V else 0)"
  if "v < 2 ^ 20"
  using page_addr [OF that] by (simp add: page_at_def tr_def lookup_pte_def one_env_def lone_mem_def)

lemma page_1024: "v div 1024 = 1 \<and> v mod 1024 = 0 \<longleftrightarrow> v = (1024 :: nat)"
proof
  assume "v div 1024 = 1 \<and> v mod 1024 = 0"
  then show "v = 1024" using div_mult_mod_eq [of v 1024] by linarith
qed simp

lemma lone_valid: "valid (page2pa 5 OR PTE_D OR PTE_V)" "\<not> valid 0"
  by simp_all

lemma lone_valid_at: "v < VPN USTACKTOP \<Longrightarrow> valid (page_at lone_machine 0 v) \<longleftrightarrow> v = 1024"
  by (simp only: lone_page [OF user_page(1)] page_1024 lone_valid split: if_split) blast

lemma lone_mapped: "mapped_pages lone_machine 0 = {1024}"
proof -
  have n: "VPN USTACKTOP = 0x7f3fe" by (simp add: VPN_alt layout_defs)
  have "v < VPN USTACKTOP \<and> valid (page_at lone_machine 0 v) \<longleftrightarrow> v = 1024" for v
    using lone_valid_at [of v] unfolding n by (cases "v = 1024") auto
  then show ?thesis unfolding mapped_pages_def by blast
qed

lemma lone_can: "can_exofork [7] 0 1 6 1 lone_machine"
proof -
  have "asid_used lone_machine = {0}" using env_machine_asids by (simp add: asid_used_def)
  moreover have "\<exists>n < MAXPATH. env_path (one_env 0) n = 0"
    by (rule exI [of _ 0]) (simp add: one_env_def zero_env_def MAXPATH_def)
  moreover have "{..<Suc 0} = {0 :: nat}" by auto
  ultimately show ?thesis
    using env_machine_lists(2) by (auto simp: can_exofork_def lone_in_use NENV_def LOG2NENV_def NASID_def one_env_def zero_env_def)
qed

text \<open>
  Environment 1 has page 6 as its directory and page 7 as the page table of \<open>0x400000\<close>, where parent and
  child both have page 5, copy-on-write.
\<close>

theorem fork_copies_address_space_witness:
  "\<exists>s'. fork 0x401000 lone_machine = Done (Inr (envid_of 2 1)) s' \<and> sched_ok [0, 1] s' \<and>
     tr s' 0 0x400000 = forked (page2pa 5 OR PTE_D OR PTE_V) \<and> tr s' 1 0x400000 = forked (page2pa 5 OR PTE_D OR PTE_V) \<and>
     pp_ref s' 5 = 2 \<and> mem s' 5 = mem lone_machine 5"
proof -
  define n where "n = shares lone_machine 0 [0..<VPN USTACKTOP]"
  have ppn: "PPN (page_at lone_machine 0 1024) = 5" by (simp add: lone_page)
  have n5: "n 5 = 1"
  proof -
    let ?P = "\<lambda>v. valid (page_at lone_machine 0 v) \<and> PPN (page_at lone_machine 0 v) = 5"
    have "set (filter ?P [0..<VPN USTACKTOP]) = {v \<in> mapped_pages lone_machine 0. PPN (page_at lone_machine 0 v) = 5}"
      by (auto simp: mapped_pages_def)
    also have "\<dots> = {1024}" using ppn by (auto simp: lone_mapped)
    finally have "card (set (filter ?P [0..<VPN USTACKTOP])) = 1" by simp
    then show ?thesis unfolding n_def shares_def by (subst distinct_card [symmetric]) (simp_all only: distinct_filter distinct_upt)
  qed
  have q: "sched_ok [0] lone_machine"
    using env_machine_lists(1) by (auto simp: sched_ok_def runnable_def one_env_def zero_env_def NENV_def LOG2NENV_def split: if_splits)
  have hyps: "v \<in> mapped_pages lone_machine 0 \<Longrightarrow> VPN UTEMP \<le> v"
    "card ((\<lambda>v. v div 1024) ` mapped_pages lone_machine 0) \<le> length [7 :: nat]"
    "v \<in> mapped_pages lone_machine 0 \<Longrightarrow>
       unat (pp_ref lone_machine (PPN (page_at lone_machine 0 v))) + n (PPN (page_at lone_machine 0 v)) < 65536" for v
    unfolding lone_mapped using n5 by (simp_all add: ppn) (simp add: VPN_alt layout_defs)
  obtain s' where s': "fork 0x401000 lone_machine = Done (Inr (envid_of 2 1)) s'" "sched_ok [0, 1] s'"
    "space_forked 0 1 lone_machine s'" "data_kept small_idx [6, 7] lone_machine s'"
    "\<forall>p. p \<notin> set [6, 7] \<longrightarrow> unat (pp_ref s' p) = unat (pp_ref lone_machine p) + n p"
    using fork_copies_address_space [OF lone_kern lone_can q hyps [unfolded n_def], of "0x401000", folded n_def]
    by (simp only: append.simps lone_simps one_add_one) blast
  have "mem s' 5 = mem lone_machine 5"
    using s'(4) by (simp add: data_kept_def lone_tabs small_idx_def tab_of.simps) (simp add: lone_mem_def)
  moreover have va: "PDX 0x400000 < PDX UTOP" "VPN 0x400000 = 1024" by (simp_all add: PDX_alt VPN_alt layout_defs)
  have "tr lone_machine 0 0x400000 = page2pa 5 OR PTE_D OR PTE_V" by (simp add: tr_page_at va(2) lone_page)
  then have "tr s' 0 0x400000 = forked (page2pa 5 OR PTE_D OR PTE_V)" "tr s' 1 0x400000 = forked (page2pa 5 OR PTE_D OR PTE_V)"
    using s'(3) va unfolding space_forked_def lone_mapped by (metis insertI1)+
  moreover have "unat (pp_ref s' 5) = 2" using s'(5) n5 by simp
  then have "pp_ref s' 5 = 2" by (simp add: word_unat_eq_iff)
  ultimately show ?thesis using s'(1,2) by blast
qed

end
