(* ===== verification/Pipe.thy ===== *)
theory Pipe
  imports Prelude
begin

text \<open>
  The pipe of \<^verbatim>\<open>user/lib/pipe.c\<close> with one reader and one writer that run concurrently. Each
  side is a program counter over the loop of \<^verbatim>\<open>pipe_read\<close> or \<^verbatim>\<open>pipe_write\<close>; one step
  is one access to the shared page, so every interleaving of the two loops is a sequence of steps.
  The positions are 32-bit words that grow and wrap; \<open>BY2PIPE\<close> divides \<open>2 ^ 32\<close>.

  \<open>_pipe_is_closed\<close> compares reference counts that other environments change; its answer is a
  parameter of the step. \<open>r_out\<close> and \<open>w_sent\<close> are the bytes delivered and accepted so far, over all
  calls.
\<close>

definition BY2PIPE :: u32 where "BY2PIPE = 32"

datatype read_pc = R_idle | R_test | R_closed | R_copy | R_adv
datatype write_pc = W_idle | W_test | W_closed | W_copy | W_adv

record pipe =
  p_rpos :: u32
  p_wpos :: u32
  p_buf :: "nat \<Rightarrow> u8"
  r_pc :: read_pc
  r_i :: nat
  r_n :: nat
  r_out :: "u8 list"
  w_pc :: write_pc
  w_i :: nat
  w_arg :: "u8 list"
  w_sent :: "u8 list"

text \<open>The pipe as \<^verbatim>\<open>pipe\<close> creates it, on a zeroed page.\<close>

definition new_pipe :: pipe where
  "new_pipe = \<lparr>p_rpos = 0, p_wpos = 0, p_buf = (\<lambda>_. 0), r_pc = R_idle, r_i = 0, r_n = 0, r_out = [],
     w_pc = W_idle, w_i = 0, w_arg = [], w_sent = []\<rparr>"

section \<open>Reading\<close>

text \<open>A call \<^verbatim>\<open>pipe_read(fd, buf, n, offset)\<close> enters the loop, or returns at once for \<open>n = 0\<close>.\<close>

definition pipe_read_call :: "nat \<Rightarrow> pipe \<Rightarrow> pipe" where
  "pipe_read_call n s = s\<lparr>r_i := 0, r_n := n, r_pc := (if n = 0 then R_idle else R_test)\<rparr>"

definition pipe_read_step :: "bool \<Rightarrow> pipe \<Rightarrow> pipe" where
  "pipe_read_step closed s = (case r_pc s of
       R_idle \<Rightarrow> s
     | R_test \<Rightarrow>
         if p_rpos s = p_wpos s
         then if r_i s > 0 then s\<lparr>r_pc := R_idle\<rparr> else s\<lparr>r_pc := R_closed\<rparr>
         else s\<lparr>r_pc := R_copy\<rparr>
     | R_closed \<Rightarrow> if closed then s\<lparr>r_pc := R_idle\<rparr> else s\<lparr>r_pc := R_test\<rparr>
     | R_copy \<Rightarrow> s\<lparr>r_out := r_out s @ [p_buf s (unat (p_rpos s mod BY2PIPE))], r_pc := R_adv\<rparr>
     | R_adv \<Rightarrow> s\<lparr>p_rpos := p_rpos s + 1, r_i := r_i s + 1,
         r_pc := (if r_i s + 1 < r_n s then R_test else R_idle)\<rparr>)"

section \<open>Writing\<close>

definition pipe_write_call :: "u8 list \<Rightarrow> pipe \<Rightarrow> pipe" where
  "pipe_write_call bs s = s\<lparr>w_i := 0, w_arg := bs, w_pc := (if bs = [] then W_idle else W_test)\<rparr>"

definition pipe_write_step :: "bool \<Rightarrow> pipe \<Rightarrow> pipe" where
  "pipe_write_step closed s = (case w_pc s of
       W_idle \<Rightarrow> s
     | W_test \<Rightarrow>
         if p_wpos s - p_rpos s = BY2PIPE then s\<lparr>w_pc := W_closed\<rparr> else s\<lparr>w_pc := W_copy\<rparr>
     | W_closed \<Rightarrow> if closed then s\<lparr>w_pc := W_idle\<rparr> else s\<lparr>w_pc := W_test\<rparr>
     | W_copy \<Rightarrow> s\<lparr>p_buf := (p_buf s)(unat (p_wpos s mod BY2PIPE) := w_arg s ! w_i s), w_pc := W_adv\<rparr>
     | W_adv \<Rightarrow> s\<lparr>p_wpos := p_wpos s + 1, w_sent := w_sent s @ [w_arg s ! w_i s], w_i := w_i s + 1,
         w_pc := (if w_i s + 1 < length (w_arg s) then W_test else W_idle)\<rparr>)"

section \<open>Interleaving\<close>

inductive pipe_run :: "pipe \<Rightarrow> pipe \<Rightarrow> bool" where
  refl: "pipe_run s s"
| read_call: "pipe_run s t \<Longrightarrow> r_pc t = R_idle \<Longrightarrow> pipe_run s (pipe_read_call n t)"
| write_call: "pipe_run s t \<Longrightarrow> w_pc t = W_idle \<Longrightarrow> pipe_run s (pipe_write_call bs t)"
| read_step: "pipe_run s t \<Longrightarrow> pipe_run s (pipe_read_step closed t)"
| write_step: "pipe_run s t \<Longrightarrow> pipe_run s (pipe_write_step closed t)"

end
