(* ===== verification/Pipe_Thms.thy ===== *)
theory Pipe_Thms
  imports Pipe "HOL-Library.Sublist"
begin

text \<open>The bytes in the buffer, and that the reader gets the writer's bytes in order.\<close>

section \<open>Positions\<close>

definition used :: "pipe \<Rightarrow> nat" where
  "used s = unat (p_wpos s - p_rpos s)"

lemma pos_mod: "unat (p mod BY2PIPE) = unat p mod 32"
  by (simp add: BY2PIPE_def unat_mod)

lemma pos_Suc: "unat (p + 1 :: u32) mod 32 = (unat p + 1) mod 32"
proof -
  have "(unat p + 1) mod 2 ^ 32 mod 32 = (unat p + 1) mod 32" by (rule mod_mod_cancel) simp
  then show ?thesis by (simp add: unat_word_ariths)
qed

lemma diff_Suc: "unat (w - r :: u32) < 2 ^ 32 - 1 \<Longrightarrow> unat (w + 1 - r) = unat (w - r) + 1"
proof -
  assume a: "unat (w - r) < 2 ^ 32 - 1"
  have "w + 1 - r = (w - r) + 1" by simp
  then show ?thesis using a by (simp only: unat_word_ariths) simp
qed

lemma diff_pred: "w \<noteq> r \<Longrightarrow> unat (w - (r + 1) :: u32) = unat (w - r) - 1"
proof -
  assume "w \<noteq> r"
  then have "w - r \<noteq> 0" by simp
  then have "unat (w - r - 1) = unat (w - r) - 1" by (rule unat_minus_one)
  then show ?thesis by (simp add: diff_diff_eq)
qed

lemma pos_diff: "(unat r + unat (w - r :: u32)) mod 32 = unat w mod 32"
proof -
  have "unat w = (unat r + unat (w - r)) mod 2 ^ 32"
    using unat_word_ariths(1) [of r "w - r"] by simp
  then have "unat w mod 32 = (unat r + unat (w - r)) mod 2 ^ 32 mod 32" by simp
  also have "\<dots> = (unat r + unat (w - r)) mod 32" by (rule mod_mod_cancel) simp
  finally show ?thesis by simp
qed

section \<open>The invariant\<close>

text \<open>The bytes between the positions, oldest first.\<close>

definition content :: "pipe \<Rightarrow> u8 list" where
  "content s = map (\<lambda>k. p_buf s ((unat (p_rpos s) + k) mod 32)) [0..<used s]"

definition delivered :: "pipe \<Rightarrow> u8 list" where
  "delivered s = (if r_pc s = R_adv then butlast (r_out s) else r_out s)"

definition pipe_inv :: "pipe \<Rightarrow> bool" where
  "pipe_inv s \<longleftrightarrow> used s \<le> 32 \<and>
     (r_pc s = R_copy \<longrightarrow> 0 < used s) \<and>
     (r_pc s = R_adv \<longrightarrow> 0 < used s \<and> r_out s \<noteq> [] \<and> last (r_out s) = p_buf s (unat (p_rpos s) mod 32)) \<and>
     (w_pc s = W_copy \<longrightarrow> used s < 32) \<and>
     (w_pc s = W_adv \<longrightarrow> used s < 32 \<and> p_buf s (unat (p_wpos s) mod 32) = w_arg s ! w_i s) \<and>
     w_sent s = delivered s @ content s"

lemma used_0: "used s = 0 \<longleftrightarrow> p_rpos s = p_wpos s"
  by (auto simp: used_def unat_eq_zero)

lemma content_adv_w:
  assumes "used s < 32"
  shows "map (\<lambda>k. p_buf s ((unat (p_rpos s) + k) mod 32)) [0..<used s + 1] = content s @ [p_buf s (unat (p_wpos s) mod 32)]"
  by (simp add: content_def) (simp add: used_def pos_diff)

lemma content_write:
  assumes "used s < 32"
  shows "map (\<lambda>k. ((p_buf s)(unat (p_wpos s) mod 32 := b)) ((unat (p_rpos s) + k) mod 32)) [0..<used s] = content s"
proof -
  have "(unat (p_rpos s) + k) mod 32 \<noteq> unat (p_wpos s) mod 32" if k: "k < used s" for k
  proof
    assume "(unat (p_rpos s) + k) mod 32 = unat (p_wpos s) mod 32"
    then have "(unat (p_rpos s) + k) mod 32 = (unat (p_rpos s) + used s) mod 32"
      by (simp add: used_def pos_diff)
    then have "k mod 32 = used s mod 32" by (simp add: mod_add_left_eq nat_mod_eq_iff)
    with k assms show False by simp
  qed
  then show ?thesis by (simp add: content_def)
qed

lemma content_adv_r:
  assumes "0 < used s"
  shows "content s = p_buf s (unat (p_rpos s) mod 32) #
     map (\<lambda>k. p_buf s ((unat (p_rpos s + 1) + k) mod 32)) [0..<used s - 1]"
proof -
  have "(unat (p_rpos s + 1) + k) mod 32 = (unat (p_rpos s) + Suc k) mod 32" for k
  proof -
    have "(unat (p_rpos s + 1) + k) mod 32 = (unat (p_rpos s + 1) mod 32 + k) mod 32" by (simp only: mod_add_left_eq)
    also have "\<dots> = ((unat (p_rpos s) + 1) mod 32 + k) mod 32" by (simp only: pos_Suc)
    also have "\<dots> = (unat (p_rpos s) + 1 + k) mod 32" by (simp only: mod_add_left_eq)
    finally show ?thesis by simp
  qed
  moreover have "[0..<used s] = 0 # map Suc [0..<used s - 1]"
  proof -
    have "Suc (used s - 1) = used s" using assms by simp
    then show ?thesis using assms by (simp only: map_Suc_upt) (simp add: upt_conv_Cons)
  qed
  ultimately show ?thesis by (simp add: content_def comp_def)
qed

section \<open>Every step keeps it\<close>

lemma butlast_last_append: "xs \<noteq> [] \<Longrightarrow> butlast xs @ last xs # ys = xs @ ys"
  by (induction xs) auto

text \<open>Moving a program counter between states that promise nothing.\<close>

lemma pipe_inv_frame:
  "pipe_inv s \<Longrightarrow> r_pc s \<noteq> R_adv \<Longrightarrow> pc \<noteq> R_adv \<Longrightarrow> (pc = R_copy \<longrightarrow> 0 < used s) \<Longrightarrow> pipe_inv (s\<lparr>r_pc := pc\<rparr>)"
  "pipe_inv s \<Longrightarrow> wpc \<noteq> W_adv \<Longrightarrow> (wpc = W_copy \<longrightarrow> used s < 32) \<Longrightarrow> pipe_inv (s\<lparr>w_pc := wpc\<rparr>)"
  by (simp_all add: pipe_inv_def used_def content_def delivered_def)

lemma pipe_inv_calls: "pipe_inv s \<Longrightarrow> r_pc s = R_idle \<Longrightarrow> pipe_inv (pipe_read_call n s)"
  "pipe_inv s \<Longrightarrow> w_pc s = W_idle \<Longrightarrow> pipe_inv (pipe_write_call bs s)"
  by (auto simp: pipe_inv_def pipe_read_call_def pipe_write_call_def used_def content_def delivered_def)

lemma pipe_inv_read:
  assumes "pipe_inv s"
  shows "pipe_inv (pipe_read_step closed s)"
proof (cases "r_pc s")
  case R_adv
  with assms have u: "0 < used s" and o: "r_out s \<noteq> []" "last (r_out s) = p_buf s (unat (p_rpos s) mod 32)"
    by (simp_all add: pipe_inv_def)
  let ?t = "pipe_read_step closed s"
  have t: "p_rpos ?t = p_rpos s + 1" "p_wpos ?t = p_wpos s" "p_buf ?t = p_buf s" "r_out ?t = r_out s"
    "w_pc ?t = w_pc s" "w_arg ?t = w_arg s" "w_i ?t = w_i s" "w_sent ?t = w_sent s" "r_pc ?t \<in> {R_test, R_idle}"
    using R_adv by (simp_all add: pipe_read_step_def)
  have ne: "p_wpos s \<noteq> p_rpos s" using u used_0 [of s] by auto
  have ut: "used ?t = used s - 1" using diff_pred [OF ne] by (simp add: used_def t)
  have "content s = last (r_out s) # content ?t"
    using content_adv_r [OF u] o by (simp add: content_def [of ?t] ut t)
  then have "w_sent s = r_out s @ content ?t"
    using assms R_adv butlast_last_append [OF o(1)] by (simp add: pipe_inv_def delivered_def)
  moreover have "used s \<le> 32" using assms by (simp add: pipe_inv_def)
  ultimately show ?thesis using assms t(9) unfolding pipe_inv_def delivered_def t(1-8) ut by auto
next
  case R_copy
  let ?t = "pipe_read_step closed s"
  have t: "p_rpos ?t = p_rpos s" "p_wpos ?t = p_wpos s" "p_buf ?t = p_buf s" "w_pc ?t = w_pc s" "w_arg ?t = w_arg s"
    "w_i ?t = w_i s" "w_sent ?t = w_sent s" "r_pc ?t = R_adv" "r_out ?t = r_out s @ [p_buf s (unat (p_rpos s) mod 32)]"
    using R_copy by (simp_all add: pipe_read_step_def pos_mod)
  show ?thesis using assms R_copy unfolding pipe_inv_def delivered_def content_def used_def t by simp
next
  case R_test
  then show ?thesis using assms used_0 [of s]
    by (cases "p_rpos s = p_wpos s"; cases "r_i s > 0") (simp_all add: pipe_read_step_def pipe_inv_frame)
next
  case R_closed
  then show ?thesis using assms by (cases closed) (simp_all add: pipe_read_step_def pipe_inv_frame)
next
  case R_idle
  then show ?thesis using assms by (simp add: pipe_read_step_def)
qed

lemma pipe_inv_write:
  assumes "pipe_inv s"
  shows "pipe_inv (pipe_write_step closed s)"
proof (cases "w_pc s")
  case W_copy
  then have u: "used s < 32" using assms by (simp add: pipe_inv_def)
  let ?b = "w_arg s ! w_i s"
  have "r_pc s = R_adv \<Longrightarrow> unat (p_rpos s) mod 32 \<noteq> unat (p_wpos s) mod 32"
  proof
    assume "r_pc s = R_adv" and e: "unat (p_rpos s) mod 32 = unat (p_wpos s) mod 32"
    then have "0 < used s" using assms by (simp add: pipe_inv_def)
    moreover have "(unat (p_rpos s) + used s) mod 32 = unat (p_rpos s) mod 32"
      unfolding e by (simp add: used_def pos_diff)
    then have "32 dvd used s" using mod_eq_dvd_iff_nat [of "unat (p_rpos s)" "unat (p_rpos s) + used s" 32] by simp
    ultimately show False using u by (auto dest: dvd_imp_le)
  qed
  then have l: "r_pc s = R_adv \<Longrightarrow> last (r_out s) = ((p_buf s)(unat (p_wpos s) mod 32 := ?b)) (unat (p_rpos s) mod 32)"
    using assms by (simp add: pipe_inv_def)
  let ?t = "pipe_write_step closed s"
  have t: "p_rpos ?t = p_rpos s" "p_wpos ?t = p_wpos s" "p_buf ?t = (p_buf s)(unat (p_wpos s) mod 32 := ?b)"
    "r_out ?t = r_out s" "r_pc ?t = r_pc s" "w_sent ?t = w_sent s" "w_pc ?t = W_adv" "w_arg ?t = w_arg s" "w_i ?t = w_i s"
    using W_copy by (simp_all add: pipe_write_step_def pos_mod)
  have ut: "used ?t = used s" by (simp add: used_def t)
  have "content ?t = content s" using content_write [OF u, of ?b] by (simp only: content_def [of ?t] ut t)
  then show ?thesis using assms l u unfolding pipe_inv_def delivered_def t ut by simp
next
  case W_adv
  then have u: "used s < 32" and b: "p_buf s (unat (p_wpos s) mod 32) = w_arg s ! w_i s"
    using assms by (simp_all add: pipe_inv_def)
  let ?t = "pipe_write_step closed s"
  have t: "p_rpos ?t = p_rpos s" "p_wpos ?t = p_wpos s + 1" "p_buf ?t = p_buf s" "r_out ?t = r_out s"
    "r_pc ?t = r_pc s" "w_sent ?t = w_sent s @ [w_arg s ! w_i s]" "w_pc ?t \<in> {W_test, W_idle}"
    using W_adv by (simp_all add: pipe_write_step_def)
  have ut: "used ?t = used s + 1" using diff_Suc [of "p_wpos s" "p_rpos s"] u by (simp add: used_def t)
  have "content ?t = content s @ [w_arg s ! w_i s]"
    using content_adv_w [OF u] b by (simp add: content_def [of ?t] ut t)
  then have "pipe_inv s \<longrightarrow> w_sent ?t = delivered s @ content ?t" by (simp add: pipe_inv_def t)
  then show ?thesis using assms u t(7) unfolding pipe_inv_def delivered_def t(1-6) ut by auto
next
  case W_test
  have "unat BY2PIPE = 32" by (simp add: BY2PIPE_def)
  then have "p_wpos s - p_rpos s \<noteq> BY2PIPE \<Longrightarrow> used s \<noteq> 32"
    unfolding used_def by (metis word_unat_eq_iff)
  moreover have "used s \<le> 32" using assms by (simp add: pipe_inv_def)
  ultimately show ?thesis using assms W_test
    by (cases "p_wpos s - p_rpos s = BY2PIPE") (simp_all add: pipe_write_step_def pipe_inv_frame)
next
  case W_closed
  then show ?thesis using assms by (cases closed) (simp_all add: pipe_write_step_def pipe_inv_frame)
next
  case W_idle
  then show ?thesis using assms by (simp add: pipe_write_step_def)
qed

lemma pipe_inv_run: "pipe_run s t \<Longrightarrow> pipe_inv s \<Longrightarrow> pipe_inv t"
  by (induction rule: pipe_run.induct) (auto intro: pipe_inv_calls pipe_inv_read pipe_inv_write)

lemma pipe_inv_new: "pipe_inv new_pipe"
  by (simp add: pipe_inv_def new_pipe_def used_def content_def delivered_def)

text \<open>
  C26. Under every interleaving of one reader and one writer, over any number of calls and whatever
  \<^verbatim>\<open>_pipe_is_closed\<close> answers, the bytes delivered are a prefix of the bytes accepted, and at
  most \<^verbatim>\<open>BY2PIPE\<close> accepted bytes are not yet delivered, also when the positions wrap around.
\<close>
theorem pipe_fifo:
  assumes "pipe_run new_pipe t"
  shows "prefix (r_out t) (w_sent t) \<and> length (w_sent t) \<le> length (r_out t) + 32"
proof -
  have inv: "pipe_inv t" using pipe_inv_run [OF assms] pipe_inv_new by simp
  show ?thesis
  proof (cases "r_pc t = R_adv")
    case True
    with inv have u: "0 < used t" "r_out t \<noteq> []" "last (r_out t) = p_buf t (unat (p_rpos t) mod 32)"
      and s: "w_sent t = butlast (r_out t) @ content t" by (simp_all add: pipe_inv_def delivered_def)
    then obtain cs where "content t = last (r_out t) # cs" "length cs = used t - 1" using content_adv_r [OF u(1)] by simp
    then have "w_sent t = r_out t @ cs" using s butlast_last_append [OF u(2)] by simp
    moreover have "used t \<le> 32" using inv by (simp add: pipe_inv_def)
    ultimately show ?thesis using \<open>length cs = _\<close> by simp
  next
    case False
    with inv show ?thesis by (simp add: pipe_inv_def delivered_def content_def)
  qed
qed

theorem pipe_fifo_witness:
  "\<exists>t. pipe_run new_pipe t \<and> r_out t = [0x41] \<and> w_sent t = [0x41, 0x42] \<and> prefix (r_out t) (w_sent t)"
proof -
  define w where "w = pipe_write_step False"
  define r where "r = pipe_read_step False"
  let ?t = "r (r (r (w (w (w (pipe_read_call 1 (w (w (w (pipe_write_call [0x41, 0x42] new_pipe)))))))))) "
  have run: "pipe_run new_pipe ?t"
    unfolding w_def r_def
    by (intro read_step write_step read_call write_call refl)
      (simp_all add: new_pipe_def pipe_write_call_def pipe_write_step_def BY2PIPE_def)
  have "r_out ?t = [0x41]" "w_sent ?t = [0x41, 0x42]"
    by (simp_all add: w_def r_def new_pipe_def pipe_write_call_def pipe_read_call_def pipe_write_step_def
        pipe_read_step_def BY2PIPE_def)
  with run pipe_fifo [OF run] show ?thesis by blast
qed

end
