(* ===== verification/Uproc.thy ===== *)
theory Uproc
  imports Mmu
begin

text \<open>
  A user process with shared pages: its page table maps virtual page numbers to physical frames
  with permission bits, so that two addresses (or two processes) may name the same frame. The
  system calls on memory act on it as \<^verbatim>\<open>kern/syscall_all.c\<close> does; an access to an unmapped
  page gets a fresh zero page, as the TLB refill does, and a store to a copy-on-write page a
  private copy, as \<^verbatim>\<open>cow_entry\<close> does. \<open>frefs\<close> counts the mappings of a frame by all processes.
  The frames of page tables are not counted: reading \<^verbatim>\<open>vpt\<close> where there is no table yet makes
  the kernel map an empty one, so an absent table reads as absent entries.
\<close>

record uproc =
  upt :: "nat \<Rightarrow> (nat \<times> u32) option"
  frames :: "nat \<Rightarrow> frame"
  frefs :: "nat \<Rightarrow> nat"
  ffree :: "nat list"

type_synonym ('x, 'a) procM = "('x uproc_scheme, 'a) kprog"

definition wofs :: "u32 \<Rightarrow> nat" where "wofs va = unat va mod 4096 div 4"
definition bofs :: "u32 \<Rightarrow> nat" where "bofs va = unat va mod 4096"

definition low_va :: "u32 \<Rightarrow> bool" where
  "low_va va \<longleftrightarrow> va < UTEMP \<or> UTOP \<le> va"

section \<open>Page table operations\<close>

text \<open>One mapping less for the frame of a page, which is freed with the last one.\<close>

definition drop_frame :: "nat \<Rightarrow> 'x uproc_scheme \<Rightarrow> 'x uproc_scheme" where
  "drop_frame f s = s\<lparr>frefs := (frefs s)(f := frefs s f - 1),
     ffree := (if frefs s f = 1 then f # ffree s else ffree s)\<rparr>"

definition unmap_vpn :: "nat \<Rightarrow> 'x uproc_scheme \<Rightarrow> 'x uproc_scheme" where
  "unmap_vpn v s = (case upt s v of None \<Rightarrow> s | Some (f, _) \<Rightarrow> drop_frame f (s\<lparr>upt := (upt s)(v := None)\<rparr>))"

definition map_vpn :: "nat \<Rightarrow> nat \<Rightarrow> u32 \<Rightarrow> 'x uproc_scheme \<Rightarrow> 'x uproc_scheme" where
  "map_vpn v f perm s = (case upt s v of
      Some (f', _) \<Rightarrow> if f' = f then s\<lparr>upt := (upt s)(v \<mapsto> (f, perm OR PTE_V))\<rparr>
        else (let t = unmap_vpn v s in t\<lparr>upt := (upt t)(v \<mapsto> (f, perm OR PTE_V)), frefs := (frefs t)(f := frefs t f + 1)\<rparr>)
    | None \<Rightarrow> s\<lparr>upt := (upt s)(v \<mapsto> (f, perm OR PTE_V)), frefs := (frefs s)(f := frefs s f + 1)\<rparr>)"

section \<open>System calls\<close>

definition p_alloc :: "u32 \<Rightarrow> u32 \<Rightarrow> ('x, err + unit) procM" where
  "p_alloc va perm =
     (if low_va va then retK (Inl E_INVAL)
      else bindK (getsK ffree) (\<lambda>fl. case fl of
          [] \<Rightarrow> retK (Inl E_NO_MEM)
        | f # fs \<Rightarrow> seqK (modifyK (\<lambda>s. map_vpn (VPN va) f perm
              (s\<lparr>ffree := fs, frames := (frames s)(f := \<lambda>_. 0)\<rparr>))) (retK (Inr ()))))"

definition p_map :: "u32 \<Rightarrow> u32 \<Rightarrow> u32 \<Rightarrow> ('x, err + unit) procM" where
  "p_map srcva dstva perm =
     (if low_va srcva \<or> low_va dstva then retK (Inl E_INVAL)
      else bindK (getsK (\<lambda>s. upt s (VPN srcva))) (\<lambda>m. case m of
          None \<Rightarrow> retK (Inl E_INVAL)
        | Some (f, _) \<Rightarrow> seqK (modifyK (map_vpn (VPN dstva) f perm)) (retK (Inr ()))))"

definition p_unmap :: "u32 \<Rightarrow> ('x, err + unit) procM" where
  "p_unmap va =
     (if low_va va then retK (Inl E_INVAL)
      else seqK (modifyK (unmap_vpn (VPN va))) (retK (Inr ())))"

section \<open>Loads and stores\<close>

definition p_touch :: "u32 \<Rightarrow> ('x, nat) procM" where
  "p_touch va = bindK (getsK (\<lambda>s. upt s (VPN va))) (\<lambda>m. case m of
      Some (f, _) \<Rightarrow> retK f
    | None \<Rightarrow>
        if low_va va \<or> USTACKTOP \<le> va \<and> va < USTACKTOP + BY2PG then panicK ''bad address''
        else bindK (p_alloc va PTE_D) (\<lambda>r. case r of
            Inl _ \<Rightarrow> panicK ''out of memory''
          | Inr _ \<Rightarrow> getsK (\<lambda>s. fst (the (upt s (VPN va))))))"

definition p_wtouch :: "u32 \<Rightarrow> ('x, nat) procM" where
  "p_wtouch va = bindK (p_touch va) (\<lambda>f.
     bindK (getsK (\<lambda>s. snd (the (upt s (VPN va))))) (\<lambda>perm.
     if perm AND PTE_D \<noteq> 0 then retK f
     else if perm AND PTE_COW = 0 then panicK ''write to a read-only page''
     else bindK (getsK ffree) (\<lambda>fl. case fl of
         [] \<Rightarrow> panicK ''out of memory''
       | g # gs \<Rightarrow>
           seqK (modifyK (\<lambda>s. map_vpn (VPN va) g PTE_D (s\<lparr>ffree := gs, frames := (frames s)(g := frames s f)\<rparr>)))
                (retK g))))"

definition p_ldw :: "u32 \<Rightarrow> ('x, u32) procM" where
  "p_ldw va = bindK (p_touch va) (\<lambda>f. getsK (\<lambda>s. frames s f (wofs va)))"

definition p_stw :: "u32 \<Rightarrow> u32 \<Rightarrow> ('x, unit) procM" where
  "p_stw va w = bindK (p_wtouch va) (\<lambda>f.
     modifyK (\<lambda>s. s\<lparr>frames := (frames s)(f := (frames s f)(wofs va := w))\<rparr>))"

definition p_ldb :: "u32 \<Rightarrow> ('x, u8) procM" where
  "p_ldb va = bindK (p_touch va) (\<lambda>f. getsK (\<lambda>s. frame_byte (frames s f) (bofs va)))"

definition p_stb :: "u32 \<Rightarrow> u8 \<Rightarrow> ('x, unit) procM" where
  "p_stb va b = bindK (p_wtouch va) (\<lambda>f.
     modifyK (\<lambda>s. s\<lparr>frames := (frames s)(f := set_frame_byte (frames s f) (bofs va) b)\<rparr>))"

text \<open>\<^verbatim>\<open>pageref\<close>, and \<^verbatim>\<open>memcpy\<close> and the string functions on the process's own memory, byte by byte.\<close>

definition p_pageref :: "u32 \<Rightarrow> ('x, nat) procM" where
  "p_pageref va = getsK (\<lambda>s. case upt s (VPN va) of None \<Rightarrow> 0 | Some (f, _) \<Rightarrow> frefs s f)"

fun p_copy :: "nat \<Rightarrow> u32 \<Rightarrow> u32 \<Rightarrow> ('x, unit) procM" where
  "p_copy 0 dst src = retK ()"
| "p_copy (Suc n) dst src = bindK (p_ldb src) (\<lambda>b. seqK (p_stb dst b) (p_copy n (dst + 1) (src + 1)))"

fun p_store_string :: "u8 list \<Rightarrow> u32 \<Rightarrow> ('x, unit) procM" where
  "p_store_string [] p = p_stb p 0"
| "p_store_string (c # cs) p = seqK (p_stb p c) (p_store_string cs (p + 1))"

section \<open>Accesses to mapped pages\<close>

lemma p_touch_run: "upt s (VPN va) = Some (f, perm) \<Longrightarrow> p_touch va s = Done f s"
  by (simp add: p_touch_def run_rules)

lemma p_wtouch_run: "upt s (VPN va) = Some (f, perm) \<Longrightarrow> perm AND PTE_D \<noteq> 0 \<Longrightarrow> p_wtouch va s = Done f s"
  by (simp add: p_wtouch_def run_rules p_touch_run)

lemma p_ldw_run: "upt s (VPN va) = Some (f, perm) \<Longrightarrow> p_ldw va s = Done (frames s f (wofs va)) s"
  by (simp add: p_ldw_def run_rules p_touch_run)

lemma p_stw_run: "upt s (VPN va) = Some (f, perm) \<Longrightarrow> perm AND PTE_D \<noteq> 0 \<Longrightarrow>
    p_stw va w s = Done () (s\<lparr>frames := (frames s)(f := (frames s f)(wofs va := w))\<rparr>)"
  by (simp add: p_stw_def run_rules p_wtouch_run)

end
