(* ===== verification/Fd.thy ===== *)
theory Fd
  imports Uproc
begin

text \<open>
  File descriptors, \<^verbatim>\<open>user/lib/fd.c\<close>, and what of \<^verbatim>\<open>pipe.c\<close> and \<^verbatim>\<open>console.c\<close> works on
  them. A descriptor is a page of the descriptor table; its data is the 4 MB region that belongs to
  its number. The device table is an argument, as \<^verbatim>\<open>struct Dev\<close> is a record of functions.
  An \<^verbatim>\<open>int\<close> result is an \<open>int\<close>: a count or the negative of an error code. All descriptor
  pages lie under one directory entry, so \<open>fd_alloc\<close>'s test of \<^verbatim>\<open>vpd\<close> is the test of the
  page; a missing directory entry means that no page below it is mapped.
\<close>

definition MAXFD :: int where "MAXFD = 32"
definition FILEBASE :: u32 where "FILEBASE = 0x60000000"
definition FDTABLE :: u32 where "FDTABLE = FILEBASE - PDMAP"
definition O_RDONLY :: u32 where "O_RDONLY = 0"
definition O_WRONLY :: u32 where "O_WRONLY = 1"
definition O_RDWR :: u32 where "O_RDWR = 2"
definition O_ACCMODE :: u32 where "O_ACCMODE = 3"

record ('s) dev =
  dev_id :: u32
  dev_addr :: u32
  dev_read :: "u32 \<Rightarrow> u32 \<Rightarrow> u32 \<Rightarrow> u32 \<Rightarrow> ('s, int) kprog"
  dev_write :: "u32 \<Rightarrow> u32 \<Rightarrow> u32 \<Rightarrow> u32 \<Rightarrow> ('s, int) kprog"
  dev_close :: "u32 \<Rightarrow> ('s, int) kprog"
  dev_stat :: "u32 \<Rightarrow> u32 \<Rightarrow> ('s, int) kprog"

text \<open>Fields of \<^verbatim>\<open>struct Fd\<close>: device, offset, mode.\<close>

definition fd_dev_id :: "u32 \<Rightarrow> u32" where "fd_dev_id fd = fd"
definition fd_offset :: "u32 \<Rightarrow> u32" where "fd_offset fd = fd + 4"
definition fd_omode :: "u32 \<Rightarrow> u32" where "fd_omode fd = fd + 8"

definition neg :: "err \<Rightarrow> int" where "neg e = - errno e"

section \<open>The table\<close>

definition INDEX2FD :: "u32 \<Rightarrow> u32" where "INDEX2FD i = FDTABLE + i * BY2PG"
definition INDEX2DATA :: "u32 \<Rightarrow> u32" where "INDEX2DATA i = FILEBASE + i * PDMAP"

definition fd2num :: "u32 \<Rightarrow> u32" where "fd2num fd = (fd - FDTABLE) div BY2PG"
definition fd2data :: "u32 \<Rightarrow> u32" where "fd2data fd = INDEX2DATA (fd2num fd)"
definition num2fd :: "u32 \<Rightarrow> u32" where "num2fd n = n * BY2PG + FDTABLE"

fun dev_lookup :: "'s dev list \<Rightarrow> u32 \<Rightarrow> err + 's dev" where
  "dev_lookup [] i = Inl E_INVAL"
| "dev_lookup (d # ds) i = (if dev_id d = i then Inr d else dev_lookup ds i)"

definition fd_alloc :: "('x, err + u32) procM" where
  "fd_alloc = getsK (\<lambda>s.
     case find (\<lambda>n. upt s (VPN (INDEX2FD (of_nat n))) = None) [0..<nat MAXFD - 1] of
       None \<Rightarrow> Inl E_MAX_OPEN
     | Some n \<Rightarrow> Inr (INDEX2FD (of_nat n)))"

definition fd_close :: "u32 \<Rightarrow> ('x, unit) procM" where
  "fd_close fd = bindK (p_unmap fd) (\<lambda>_. retK ())"

definition fd_lookup :: "u32 \<Rightarrow> ('x, err + u32) procM" where
  "fd_lookup fdnum =
     (if MAXFD \<le> sint fdnum then retK (Inl E_INVAL)
      else getsK (\<lambda>s. if upt s (VPN (INDEX2FD fdnum)) \<noteq> None then Inr (INDEX2FD fdnum) else Inl E_INVAL))"

text \<open>The descriptor and the device behind a number, as most operations begin.\<close>

definition with_fd :: "u32 \<Rightarrow> (u32 \<Rightarrow> ('x, int) procM) \<Rightarrow> ('x, int) procM" where
  "with_fd fdnum f = bindK (fd_lookup fdnum) (\<lambda>r. case r of Inl e \<Rightarrow> retK (neg e) | Inr fd \<Rightarrow> f fd)"

definition with_dev :: "('x uproc_scheme) dev list \<Rightarrow> u32 \<Rightarrow>
    (u32 \<Rightarrow> ('x uproc_scheme) dev \<Rightarrow> ('x, int) procM) \<Rightarrow> ('x, int) procM" where
  "with_dev devtab fdnum f = with_fd fdnum (\<lambda>fd.
     bindK (p_ldw (fd_dev_id fd)) (\<lambda>i. case dev_lookup devtab i of
       Inl e \<Rightarrow> retK (neg e) | Inr d \<Rightarrow> f fd d))"

section \<open>Operations\<close>

definition close :: "('x uproc_scheme) dev list \<Rightarrow> u32 \<Rightarrow> ('x, int) procM" where
  "close devtab fdnum = with_dev devtab fdnum (\<lambda>fd d.
     bindK (dev_close d fd) (\<lambda>r. seqK (fd_close fd) (retK r)))"

definition close_all :: "('x uproc_scheme) dev list \<Rightarrow> ('x, unit) procM" where
  "close_all devtab = forK [0..<nat MAXFD] (\<lambda>i. bindK (close devtab (of_nat i)) (\<lambda>_. retK ()))"

fun dup_pages :: "nat list \<Rightarrow> u32 \<Rightarrow> u32 \<Rightarrow> ('x, err + unit) procM" where
  "dup_pages [] ova nva = retK (Inr ())"
| "dup_pages (i # is) ova nva =
     bindK (getsK (\<lambda>s. upt s (VPN (ova + of_nat i * BY2PG)))) (\<lambda>m.
     tryK (case m of
             Some (_, pte) \<Rightarrow> p_map (ova + of_nat i * BY2PG) (nva + of_nat i * BY2PG) (pte AND (PTE_D OR PTE_LIBRARY))
           | None \<Rightarrow> retK (Inr ())) (\<lambda>_.
     dup_pages is ova nva))"

definition dup :: "('x uproc_scheme) dev list \<Rightarrow> u32 \<Rightarrow> u32 \<Rightarrow> ('x, int) procM" where
  "dup devtab oldfdnum newfdnum = with_fd oldfdnum (\<lambda>oldfd.
     bindK (close devtab newfdnum) (\<lambda>_.
     let newfd = INDEX2FD newfdnum; ova = fd2data oldfd; nva = fd2data newfd in
     bindK (tryK (dup_pages [0..<1024] ova nva) (\<lambda>_.
            bindK (getsK (\<lambda>s. case upt s (VPN oldfd) of None \<Rightarrow> 0 | Some (_, pte) \<Rightarrow> pte)) (\<lambda>pte.
            p_map oldfd newfd (pte AND (PTE_D OR PTE_LIBRARY))))) (\<lambda>r. case r of
       Inr _ \<Rightarrow> retK (sint newfdnum)
     | Inl e \<Rightarrow>
         seqK (bindK (p_unmap newfd) (\<lambda>_. retK ()))
        (seqK (forK [0..<1024] (\<lambda>i. bindK (p_unmap (nva + of_nat i * BY2PG)) (\<lambda>_. retK ())))
              (retK (neg e))))))"

text \<open>\<^verbatim>\<open>fd->fd_offset += r\<close> when \<^verbatim>\<open>r > 0\<close>.\<close>

definition advance :: "u32 \<Rightarrow> int \<Rightarrow> ('x, unit) procM" where
  "advance fd r = (if r > 0 then bindK (p_ldw (fd_offset fd)) (\<lambda>off. p_stw (fd_offset fd) (off + of_int r))
     else retK ())"

definition read :: "('x uproc_scheme) dev list \<Rightarrow> u32 \<Rightarrow> u32 \<Rightarrow> u32 \<Rightarrow> ('x, int) procM" where
  "read devtab fdnum buf n = with_dev devtab fdnum (\<lambda>fd d.
     bindK (p_ldw (fd_omode fd)) (\<lambda>omode.
     if omode AND O_ACCMODE = O_WRONLY then retK (neg E_INVAL)
     else bindK (p_ldw (fd_offset fd)) (\<lambda>off.
          bindK (dev_read d fd buf n off) (\<lambda>r.
          seqK (advance fd r) (retK r)))))"

definition write_fd :: "('x uproc_scheme) dev list \<Rightarrow> u32 \<Rightarrow> u32 \<Rightarrow> u32 \<Rightarrow> ('x, int) procM" where
  "write_fd devtab fdnum buf n = with_dev devtab fdnum (\<lambda>fd d.
     bindK (p_ldw (fd_omode fd)) (\<lambda>omode.
     if omode AND O_ACCMODE = O_RDONLY then retK (neg E_INVAL)
     else bindK (p_ldw (fd_offset fd)) (\<lambda>off.
          bindK (dev_write d fd buf n off) (\<lambda>r.
          seqK (advance fd r) (retK r)))))"

text \<open>The loop of \<^verbatim>\<open>readn\<close>: every turn reads at least one byte, so \<open>n + 1\<close> turns are enough.\<close>

fun readn_loop :: "nat \<Rightarrow> ('x uproc_scheme) dev list \<Rightarrow> u32 \<Rightarrow> u32 \<Rightarrow> u32 \<Rightarrow> u32 \<Rightarrow> ('x, int) procM" where
  "readn_loop 0 devtab fdnum buf n tot = panicK ''out of fuel''"
| "readn_loop (Suc k) devtab fdnum buf n tot =
     (if \<not> tot < n then retK (sint tot)
      else bindK (read devtab fdnum (buf + tot) (n - tot)) (\<lambda>m.
        if m < 0 then retK m
        else if m = 0 then retK (sint tot)
        else readn_loop k devtab fdnum buf n (tot + of_int m)))"

definition readn :: "('x uproc_scheme) dev list \<Rightarrow> u32 \<Rightarrow> u32 \<Rightarrow> u32 \<Rightarrow> ('x, int) procM" where
  "readn devtab fdnum buf n = readn_loop (Suc (unat n)) devtab fdnum buf n 0"

definition seek :: "u32 \<Rightarrow> u32 \<Rightarrow> ('x, int) procM" where
  "seek fdnum offset = with_fd fdnum (\<lambda>fd. seqK (p_stw (fd_offset fd) offset) (retK 0))"

text \<open>\<^verbatim>\<open>struct Stat\<close>: name, then size, directory flag and device.\<close>

definition fstat :: "('x uproc_scheme) dev list \<Rightarrow> u32 \<Rightarrow> u32 \<Rightarrow> ('x, int) procM" where
  "fstat devtab fdnum st = with_dev devtab fdnum (\<lambda>fd d.
     seqK (p_stb st 0)
    (seqK (p_stw (st + 128) 0)
    (seqK (p_stw (st + 132) 0)
    (seqK (p_stw (st + 136) (dev_addr d))
          (dev_stat d fd st)))))"

section \<open>Pipes as descriptors\<close>

definition DEV_PIPE :: u32 where "DEV_PIPE = 0x70"

text \<open>
  \<^verbatim>\<open>pipe\<close>: the two descriptors share one data page; what was set up is undone on an error.
  The result is the pair of numbers.
\<close>

definition undo :: "u32 list \<Rightarrow> err \<Rightarrow> ('x, err + 'a) procM" where
  "undo vas e = seqK (forK vas (\<lambda>va. bindK (p_unmap va) (\<lambda>_. retK ()))) (retK (Inl e))"

definition orelse :: "('x, err + 'a) procM \<Rightarrow> u32 list \<Rightarrow> ('a \<Rightarrow> ('x, err + 'b) procM) \<Rightarrow> ('x, err + 'b) procM" where
  "orelse m vas f = bindK m (\<lambda>r. case r of Inl e \<Rightarrow> undo vas e | Inr a \<Rightarrow> f a)"

definition make_pipe :: "('x, err + u32 \<times> u32) procM" where
  "make_pipe =
     orelse fd_alloc [] (\<lambda>fd0.
     orelse (p_alloc fd0 (PTE_D OR PTE_LIBRARY)) [] (\<lambda>_.
     orelse fd_alloc [fd0] (\<lambda>fd1.
     orelse (p_alloc fd1 (PTE_D OR PTE_LIBRARY)) [fd0] (\<lambda>_.
     orelse (p_alloc (fd2data fd0) (PTE_D OR PTE_LIBRARY)) [fd1, fd0] (\<lambda>_.
     orelse (p_map (fd2data fd0) (fd2data fd1) (PTE_D OR PTE_LIBRARY)) [fd2data fd0, fd1, fd0] (\<lambda>_.
     seqK (p_stw (fd_dev_id fd0) DEV_PIPE)
    (seqK (p_stw (fd_omode fd0) O_RDONLY)
    (seqK (p_stw (fd_dev_id fd1) DEV_PIPE)
    (seqK (p_stw (fd_omode fd1) O_WRONLY)
          (retK (Inr (fd2num fd0, fd2num fd1))))))))))))"

text \<open>Nothing preempts the process here, so \<^verbatim>\<open>env_runs\<close> is unchanged after one turn.\<close>

definition pipe_closed :: "u32 \<Rightarrow> u32 \<Rightarrow> ('x, bool) procM" where
  "pipe_closed fd p = bindK (p_pageref fd) (\<lambda>fd_ref. bindK (p_pageref p) (\<lambda>pipe_ref. retK (fd_ref = pipe_ref)))"

definition pipe_is_closed :: "u32 \<Rightarrow> ('x, int) procM" where
  "pipe_is_closed fdnum = with_fd fdnum (\<lambda>fd.
     bindK (pipe_closed fd (fd2data fd)) (\<lambda>b. retK (if b then 1 else 0)))"

definition pipe_close :: "u32 \<Rightarrow> ('x, int) procM" where
  "pipe_close fd = bindK (p_unmap fd) (\<lambda>_. bindK (p_unmap (fd2data fd)) (\<lambda>_. retK 0))"

definition pipe_stat :: "u32 \<Rightarrow> u32 \<Rightarrow> ('x, int) procM" where
  "pipe_stat fd st = retK 0"

section \<open>The console\<close>

text \<open>\<open>cin\<close> is what will be typed, \<open>cout\<close> what was printed; waiting for input that never comes is cut off.\<close>

record cproc = uproc +
  cin :: "u8 list"
  cout :: "u8 list"

definition DEV_CONS :: u32 where "DEV_CONS = 0x63"

definition iscons :: "u32 \<Rightarrow> ('x, int) procM" where
  "iscons fdnum = with_fd fdnum (\<lambda>fd. bindK (p_ldw (fd_dev_id fd)) (\<lambda>i. retK (if i = DEV_CONS then 1 else 0)))"

definition opencons :: "('x, int) procM" where
  "opencons = bindK fd_alloc (\<lambda>r. case r of
       Inl e \<Rightarrow> retK (neg e)
     | Inr fd \<Rightarrow> bindK (p_alloc fd (PTE_D OR PTE_LIBRARY)) (\<lambda>q. case q of
         Inl e \<Rightarrow> retK (neg e)
       | Inr _ \<Rightarrow> seqK (p_stw (fd_dev_id fd) DEV_CONS)
           (seqK (p_stw (fd_omode fd) O_RDWR) (retK (sint (fd2num fd))))))"

text \<open>
  \<^verbatim>\<open>while ((c = syscall_cgetc()) == 0) syscall_yield()\<close> takes the first key that is not 0;
  the kernel reads it as a signed \<^verbatim>\<open>char\<close>, so that a key above 127 is a negative result.
\<close>

definition cons_key :: "('x cproc_scheme, u8) kprog" where
  "cons_key = bindK (getsK (\<lambda>s. dropWhile (\<lambda>c. c = 0) (cin s))) (\<lambda>ks. case ks of
       [] \<Rightarrow> panicK ''no input''
     | c # cs \<Rightarrow> seqK (modifyK (\<lambda>s. s\<lparr>cin := cs\<rparr>)) (retK c))"

definition cons_read :: "u32 \<Rightarrow> u32 \<Rightarrow> u32 \<Rightarrow> u32 \<Rightarrow> ('x cproc_scheme, int) kprog" where
  "cons_read fd buf n offset =
     (if n = 0 then retK 0
      else bindK cons_key (\<lambda>c.
        seqK (modifyK (\<lambda>s. s\<lparr>cout := cout s @ [if c \<noteq> 0x0D then c else 0x0A]\<rparr>))
        (if sint c < 0 then retK (sint c)
         else if c = 4 then retK 0
         else seqK (p_stb buf c) (retK 1))))"

fun p_load_bytes :: "nat \<Rightarrow> u32 \<Rightarrow> ('x, u8 list) procM" where
  "p_load_bytes 0 va = retK []"
| "p_load_bytes (Suc n) va = bindK (p_ldb va) (\<lambda>b. bindK (p_load_bytes n (va + 1)) (\<lambda>bs. retK (b # bs)))"

text \<open>\<^verbatim>\<open>syscall_print_cons\<close> refuses ranges that wrap or reach above user memory.\<close>

definition cons_write :: "u32 \<Rightarrow> u32 \<Rightarrow> u32 \<Rightarrow> u32 \<Rightarrow> ('x cproc_scheme, int) kprog" where
  "cons_write fd buf n offset =
     (if buf + n > UTOP \<or> UTOP \<le> buf \<or> buf + n < buf then retK (neg E_INVAL)
      else bindK (p_load_bytes (unat n) buf) (\<lambda>bs.
        seqK (modifyK (\<lambda>s. s\<lparr>cout := cout s @ bs\<rparr>)) (retK (sint n))))"

definition cons_close :: "u32 \<Rightarrow> ('x cproc_scheme, int) kprog" where "cons_close fd = retK 0"

definition cons_stat :: "u32 \<Rightarrow> u32 \<Rightarrow> ('x cproc_scheme, int) kprog" where
  "cons_stat fd st = seqK (p_store_string [0x3C, 0x63, 0x6F, 0x6E, 0x73, 0x3E] st) (retK 0)"

definition devcons :: "('x cproc_scheme) dev" where
  "devcons = \<lparr>dev_id = DEV_CONS, dev_addr = 0, dev_read = cons_read, dev_write = cons_write,
     dev_close = cons_close, dev_stat = cons_stat\<rparr>"

end
