(* ===== verification/Fd_Thms.thy ===== *)
theory Fd_Thms
  imports Fd
begin

text \<open>
  What the operations on descriptors do to the pages of the process: the table is laid out below
  the data regions, a duplicate shares its pages, a pipe's end sees the other end go.
\<close>

section \<open>The layout of the table\<close>

lemma VPN_of_nat: "k < 2 ^ 32 \<Longrightarrow> VPN (of_nat k) = k div 4096"
  by (simp add: VPN_alt unat_of_nat_len)

lemma low_va_of_nat: "k < 2 ^ 32 \<Longrightarrow> low_va (of_nat k) \<longleftrightarrow> k < 0x3FE000 \<or> 0x7F400000 \<le> k"
  by (simp add: low_va_def UTEMP_def UCOW_def UTEXT_def UTOP_def UENVS_def UPAGES_def UVPT_def ULIM_def PDMAP_def BY2PG_def
      word_less_nat_alt word_le_nat_alt unat_of_nat_len)

definition fd_va :: "nat \<Rightarrow> nat" where "fd_va n = 0x5FC00000 + 4096 * n"
definition data_va :: "nat \<Rightarrow> nat \<Rightarrow> nat" where "data_va n i = 0x60000000 + 0x400000 * n + 4096 * i"

lemma INDEX2FD_nat: "INDEX2FD (of_nat n) = of_nat (fd_va n)"
  by (simp add: INDEX2FD_def FDTABLE_def FILEBASE_def PDMAP_def BY2PG_def fd_va_def)

lemma INDEX2DATA_nat: "INDEX2DATA (of_nat n) + of_nat i * BY2PG = of_nat (data_va n i)"
  by (simp add: INDEX2DATA_def FILEBASE_def PDMAP_def BY2PG_def data_va_def)

lemma fd2num_nat: "n < 32 \<Longrightarrow> fd2num (of_nat (fd_va n)) = of_nat n"
proof -
  assume "n < 32"
  have "of_nat (fd_va n) - FDTABLE = (of_nat (4096 * n) :: u32)"
    by (simp add: fd_va_def FDTABLE_def FILEBASE_def PDMAP_def)
  moreover have "of_nat (4096 * n) div (4096 :: u32) = of_nat n"
    using \<open>n < 32\<close> by (intro word_unat_eq_iff [THEN iffD2]) (simp add: unat_div_distrib unat_of_nat_len del: of_nat_mult)
  ultimately show ?thesis by (simp add: fd2num_def BY2PG_def)
qed

lemma fd2data_nat: "n < 32 \<Longrightarrow> fd2data (of_nat (fd_va n)) = INDEX2DATA (of_nat n)"
  by (simp add: fd2data_def fd2num_nat)

definition fdvpn :: "nat \<Rightarrow> nat" where "fdvpn n = 0x5FC00 + n"
definition dvpn :: "nat \<Rightarrow> nat \<Rightarrow> nat" where "dvpn n i = 0x60000 + 1024 * n + i"

lemma VPN_fd: "n < 32 \<Longrightarrow> VPN (of_nat (fd_va n)) = fdvpn n"
  by (subst VPN_of_nat) (auto simp: fd_va_def fdvpn_def)

lemma VPN_data: "n < 32 \<Longrightarrow> i < 1024 \<Longrightarrow> VPN (of_nat (data_va n i)) = dvpn n i"
  by (subst VPN_of_nat) (auto simp: data_va_def dvpn_def)

lemma fd_not_low: "n < 32 \<Longrightarrow> \<not> low_va (of_nat (fd_va n))"
  by (subst low_va_of_nat) (auto simp: fd_va_def)

lemma data_not_low: "n < 32 \<Longrightarrow> i < 1024 \<Longrightarrow> \<not> low_va (of_nat (data_va n i))"
  by (subst low_va_of_nat) (auto simp: data_va_def)

lemma sint_of_nat: "n < 2 ^ 31 \<Longrightarrow> sint (of_nat n :: u32) = int n"
  apply (simp add: sint_uint)
  apply (simp add: uint_nat unat_of_nat_len signed_take_bit_int_eq_self)
  done

lemma fd_lookup_nat: "n < 32 \<Longrightarrow> fd_lookup (of_nat n) s =
    Done (if upt s (fdvpn n) \<noteq> None then Inr (of_nat (fd_va n)) else Inl E_INVAL) s"
  by (simp add: fd_lookup_def MAXFD_def sint_of_nat getsK_def INDEX2FD_nat VPN_fd)

section \<open>Mapping and unmapping\<close>

lemma upt_unmap_vpn: "upt (unmap_vpn v s) = (upt s)(v := None)"
  by (auto simp: unmap_vpn_def drop_frame_def split: option.split)

lemma frames_unmap_vpn: "frames (unmap_vpn v s) = frames s"
  by (auto simp: unmap_vpn_def drop_frame_def split: option.split)

lemma upt_map_vpn: "upt (map_vpn v f p s) = (upt s)(v \<mapsto> (f, p OR PTE_V))"
  by (auto simp: map_vpn_def Let_def upt_unmap_vpn split: option.split)

lemma frames_map_vpn: "frames (map_vpn v f p s) = frames s"
  by (auto simp: map_vpn_def Let_def frames_unmap_vpn split: option.split)

lemma p_map_run:
  assumes "\<not> low_va a" "\<not> low_va b" "upt s (VPN a) = Some (f, q)"
  shows "p_map a b p s = Done (Inr ()) (map_vpn (VPN b) f p s)"
  using assms by (simp add: p_map_def run_rules)

section \<open>Duplicating a descriptor\<close>

text \<open>The entry of a duplicated page, and the page table after duplicating some data pages.\<close>

definition dup_entry :: "nat \<times> u32 \<Rightarrow> nat \<times> u32" where
  "dup_entry e = (fst e, snd e AND (PTE_D OR PTE_LIBRARY) OR PTE_V)"

definition dup_data :: "nat list \<Rightarrow> nat \<Rightarrow> nat \<Rightarrow> (nat \<Rightarrow> (nat \<times> u32) option) \<Rightarrow> nat \<Rightarrow> (nat \<times> u32) option" where
  "dup_data is a b m v =
     (if v \<in> dvpn b ` set is \<and> m (dvpn a (v - dvpn b 0)) \<noteq> None
      then map_option dup_entry (m (dvpn a (v - dvpn b 0))) else m v)"

lemma dup_pages_run:
  assumes "a < 32" "b < 32" "a \<noteq> b" "distinct is" "\<And>i. i \<in> set is \<Longrightarrow> i < 1024"
  shows "\<exists>t. dup_pages is (INDEX2DATA (of_nat a)) (INDEX2DATA (of_nat b)) s = Done (Inr ()) t \<and>
    upt t = dup_data is a b (upt s) \<and> frames t = frames s"
  using assms(4, 5)
proof (induction "is" arbitrary: s)
  case Nil
  then show ?case by (auto simp: run_rules dup_data_def)
next
  case (Cons i js)
  let ?s = "case upt s (dvpn a i) of Some (f, p) \<Rightarrow> map_vpn (dvpn b i) f (p AND (PTE_D OR PTE_LIBRARY)) s | None \<Rightarrow> s"
  have i: "i < 1024" using Cons.prems by simp
  have step: "dup_pages (i # js) (INDEX2DATA (of_nat a)) (INDEX2DATA (of_nat b)) s =
      dup_pages js (INDEX2DATA (of_nat a)) (INDEX2DATA (of_nat b)) ?s"
    using assms(1, 2) i
    by (auto simp: run_rules INDEX2DATA_nat VPN_data data_not_low p_map_run split: option.split)
  obtain t where t: "dup_pages js (INDEX2DATA (of_nat a)) (INDEX2DATA (of_nat b)) ?s = Done (Inr ()) t"
      "upt t = dup_data js a b (upt ?s)" "frames t = frames ?s"
    using Cons.IH [of ?s] Cons.prems by auto
  have other: "dvpn b i \<noteq> dvpn a j" if "j < 1024" for j
    using assms(3) i that by (auto simp: dvpn_def)
  have "dup_data js a b (upt ?s) = dup_data (i # js) a b (upt s)"
  proof
    fix v
    have upd: "upt ?s w = (if w = dvpn b i \<and> upt s (dvpn a i) \<noteq> None
        then map_option dup_entry (upt s (dvpn a i)) else upt s w)" for w
      by (auto simp: upt_map_vpn dup_entry_def split: option.split)
    show "dup_data js a b (upt ?s) v = dup_data (i # js) a b (upt s) v"
    proof (cases "v = dvpn b i")
      case True
      then have "v \<notin> dvpn b ` set js" "v - dvpn b 0 = i" using Cons.prems(1) by (auto simp: dvpn_def)
      then show ?thesis using True by (simp add: dup_data_def upd)
    next
      case False
      have "dvpn a (v - dvpn b 0) \<noteq> dvpn b i" if "v \<in> dvpn b ` set js"
      proof -
        from that obtain x where "v = dvpn b x" "x < 1024" using Cons.prems(2) by auto
        then show ?thesis using other [of x] by (simp add: dvpn_def)
      qed
      then show ?thesis using False by (auto simp: dup_data_def upd)
    qed
  qed
  moreover have "frames ?s = frames s" by (auto simp: frames_map_vpn split: option.split)
  ultimately show ?case using step t by simp
qed

text \<open>
  Duplicating an open descriptor onto an unused number gives the new number the same descriptor
  page and the same data pages (so that offset and contents are shared), with the same write and
  library permissions. No other page of the process changes.
\<close>

theorem dup_shares:
  assumes "a < 32" "b < 32" "a \<noteq> b" "upt s (fdvpn a) = Some e" "upt s (fdvpn b) = None"
  shows "\<exists>t. dup devtab (of_nat a) (of_nat b) s = Done (int b) t \<and>
    upt t = (dup_data [0..<1024] a b (upt s))(fdvpn b \<mapsto> dup_entry e) \<and> frames t = frames s"
proof -
  obtain t where t: "dup_pages [0..<1024] (INDEX2DATA (of_nat a)) (INDEX2DATA (of_nat b)) s = Done (Inr ()) t"
      "upt t = dup_data [0..<1024] a b (upt s)" "frames t = frames s"
    using dup_pages_run [of a b "[0..<1024]" s] assms by auto
  have [simp]: "upt t (fdvpn a) = Some e"
    using assms by (auto simp: t(2) dup_data_def dvpn_def fdvpn_def)
  have "close devtab (of_nat b) s = Done (neg E_INVAL) s"
    using assms by (simp add: close_def with_dev_def with_fd_def run_rules fd_lookup_nat)
  then have "dup devtab (of_nat a) (of_nat b) s =
      Done (int b) (map_vpn (fdvpn b) (fst e) (snd e AND (PTE_D OR PTE_LIBRARY)) t)"
    using assms t(1)
    by (cases e) (simp add: dup_def Let_def with_fd_def run_rules fd_lookup_nat fd2data_nat INDEX2FD_nat
        p_map_run VPN_fd fd_not_low sint_of_nat)
  then show ?thesis by (simp add: upt_map_vpn frames_map_vpn t dup_entry_def)
qed

text \<open>A process with descriptor 0 open, two pages of data and six free frames.\<close>

definition demo_proc :: uproc where
  "demo_proc = \<lparr>upt = [fdvpn 0 \<mapsto> (1, PTE_V OR PTE_D OR PTE_LIBRARY), dvpn 0 0 \<mapsto> (2, PTE_V OR PTE_LIBRARY),
       dvpn 0 1 \<mapsto> (3, PTE_V OR PTE_D OR PTE_LIBRARY)],
     frames = (\<lambda>_ _. 0), frefs = (\<lambda>f. if f \<in> {1, 2, 3} then 1 else 0), ffree = [4, 5, 6, 7, 8, 9]\<rparr>"

theorem dup_shares_witness:
  "\<exists>t. dup [] 0 5 demo_proc = Done 5 t \<and> upt t (fdvpn 5) = Some (1, PTE_D OR PTE_LIBRARY OR PTE_V) \<and>
     upt t (dvpn 5 0) = Some (2, PTE_LIBRARY OR PTE_V) \<and> upt t (dvpn 5 2) = None"
proof -
  have "upt demo_proc (fdvpn 0) = Some (1, PTE_V OR PTE_D OR PTE_LIBRARY)" "upt demo_proc (fdvpn 5) = None"
    by (simp_all add: demo_proc_def fdvpn_def dvpn_def)
  then obtain t where t: "dup [] 0 5 demo_proc = Done 5 t"
      "upt t = (dup_data [0..<1024] 0 5 (upt demo_proc))(fdvpn 5 \<mapsto> dup_entry (1, PTE_V OR PTE_D OR PTE_LIBRARY))"
    using dup_shares [of 0 5 demo_proc _ "[]"] by auto
  have "0 \<in> set [0..<1024]" "2 \<in> set [0..<1024]" by simp_all
  then have "dvpn 5 0 \<in> dvpn 5 ` set [0..<1024]" "dvpn 5 2 \<in> dvpn 5 ` set [0..<1024]" by blast+
  then show ?thesis
    by (intro exI [of _ t] conjI)
      (simp_all add: t dup_data_def dup_entry_def, simp_all add: demo_proc_def fdvpn_def dvpn_def dup_entry_def
        PTE_V_def PTE_D_def PTE_LIBRARY_def)
qed

section \<open>Allocating a descriptor\<close>

lemma fd_alloc_run:
  assumes "n < 31" "upt s (fdvpn n) = None" "\<And>m. m < n \<Longrightarrow> upt s (fdvpn m) \<noteq> None"
  shows "fd_alloc s = Done (Inr (of_nat (fd_va n))) s"
proof -
  have "find (\<lambda>n. upt s (VPN (INDEX2FD (of_nat n))) = None) [0..<nat MAXFD - 1] = Some n"
    unfolding find_Some_iff using assms
    by (intro exI [of _ n]) (auto simp: MAXFD_def INDEX2FD_nat VPN_fd)
  then show ?thesis by (simp add: fd_alloc_def run_rules INDEX2FD_nat)
qed

lemma fd_alloc_full:
  assumes "\<And>m. m < 31 \<Longrightarrow> upt s (fdvpn m) \<noteq> None"
  shows "fd_alloc s = Done (Inl E_MAX_OPEN) s"
proof -
  have "find (\<lambda>n. upt s (VPN (INDEX2FD (of_nat n))) = None) [0..<nat MAXFD - 1] = None"
    unfolding find_None_iff using assms by (auto simp: MAXFD_def INDEX2FD_nat VPN_fd)
  then show ?thesis by (simp add: fd_alloc_def run_rules)
qed

lemma p_alloc_run:
  assumes "\<not> low_va a" "ffree s = f # fs" "upt s (VPN a) = None"
  shows "p_alloc a p s = Done (Inr ()) (s\<lparr>ffree := fs, frames := (frames s)(f := \<lambda>_. 0),
     upt := (upt s)(VPN a \<mapsto> (f, p OR PTE_V)), frefs := (frefs s)(f := frefs s f + 1)\<rparr>)"
  using assms by (simp add: p_alloc_def run_rules map_vpn_def)

lemma p_map_fresh:
  assumes "\<not> low_va a" "\<not> low_va b" "upt s (VPN a) = Some (f, q)" "upt s (VPN b) = None"
  shows "p_map a b p s = Done (Inr ()) (s\<lparr>upt := (upt s)(VPN b \<mapsto> (f, p OR PTE_V)), frefs := (frefs s)(f := frefs s f + 1)\<rparr>)"
  using assms by (simp add: p_map_run map_vpn_def)

section \<open>A pipe and its ends\<close>

lemma fdvpn_inj [simp]: "fdvpn a = fdvpn b \<longleftrightarrow> a = b" by (simp add: fdvpn_def)
lemma dvpn_inj [simp]: "dvpn a 0 = dvpn b 0 \<longleftrightarrow> a = b" by (simp add: dvpn_def)
lemma fdvpn_dvpn: "a < 32 \<Longrightarrow> fdvpn a \<noteq> dvpn b i \<and> dvpn b i \<noteq> fdvpn a" by (simp add: fdvpn_def dvpn_def)

lemma data_addr: "n < 32 \<Longrightarrow> VPN (INDEX2DATA (of_nat n)) = dvpn n 0 \<and> \<not> low_va (INDEX2DATA (of_nat n))"
  using INDEX2DATA_nat [of n 0] VPN_data [of n 0] data_not_low [of n 0] by simp

definition same_pages :: "'x uproc_scheme \<Rightarrow> 'x uproc_scheme \<Rightarrow> bool" where
  "same_pages s t \<longleftrightarrow> upt t = upt s \<and> frefs t = frefs s \<and> ffree t = ffree s"

lemma p_stw_fd:
  assumes "n < 32" "upt s (fdvpn n) = Some (f, p)" "p AND PTE_D \<noteq> 0" "k < 4096"
  shows "\<exists>t. p_stw (of_nat (fd_va n) + of_nat k) x s = Done () t \<and> same_pages s t"
proof -
  have "VPN (of_nat (fd_va n) + of_nat k) = VPN (of_nat (fd_va n + k))" by simp
  also have "\<dots> = fdvpn n"
    using assms(1, 4) by (subst VPN_of_nat) (auto simp: fd_va_def fdvpn_def)
  finally show ?thesis using assms(2, 3) by (auto simp: p_stw_run same_pages_def)
qed

text \<open>The page table and the reference counts that a new pipe between \<open>a\<close> and \<open>b\<close> adds.\<close>

definition pipe_perm :: u32 where "pipe_perm = PTE_D OR PTE_LIBRARY OR PTE_V"

lemma pipe_perm_simps: "(PTE_D OR PTE_LIBRARY) OR PTE_V = pipe_perm" "pipe_perm AND PTE_D \<noteq> 0"
  by (simp_all add: pipe_perm_def PTE_V_def PTE_D_def PTE_LIBRARY_def)

lemma make_pipe_run:
  assumes "a < b" "b < 31" "upt s (fdvpn a) = None" "upt s (fdvpn b) = None"
    "\<And>m. m < b \<Longrightarrow> m \<noteq> a \<Longrightarrow> upt s (fdvpn m) \<noteq> None"
    "upt s (dvpn a 0) = None" "upt s (dvpn b 0) = None"
    "ffree s = f0 # f1 # f2 # fs" "distinct [f0, f1, f2]"
  shows "\<exists>t. make_pipe s = Done (Inr (of_nat a, of_nat b)) t \<and>
    upt t = (upt s)(fdvpn a \<mapsto> (f0, pipe_perm), fdvpn b \<mapsto> (f1, pipe_perm),
      dvpn a 0 \<mapsto> (f2, pipe_perm), dvpn b 0 \<mapsto> (f2, pipe_perm)) \<and>
    frefs t = (frefs s)(f0 := frefs s f0 + 1, f1 := frefs s f1 + 1, f2 := frefs s f2 + 2) \<and> ffree t = fs"
proof -
  let ?P = "PTE_D OR PTE_LIBRARY"
  note [simp] = fd_not_low VPN_fd data_addr fdvpn_dvpn fd2data_nat fd2num_nat
  have ab: "a < 32" "b < 32" "a \<noteq> b" "a < 31" using assms by auto
  define s1 where "s1 = s\<lparr>ffree := f1 # f2 # fs, frames := (frames s)(f0 := \<lambda>_. 0),
     upt := (upt s)(fdvpn a \<mapsto> (f0, ?P OR PTE_V)), frefs := (frefs s)(f0 := frefs s f0 + 1)\<rparr>"
  define s2 where "s2 = s1\<lparr>ffree := f2 # fs, frames := (frames s1)(f1 := \<lambda>_. 0),
     upt := (upt s1)(fdvpn b \<mapsto> (f1, ?P OR PTE_V)), frefs := (frefs s1)(f1 := frefs s1 f1 + 1)\<rparr>"
  define s3 where "s3 = s2\<lparr>ffree := fs, frames := (frames s2)(f2 := \<lambda>_. 0),
     upt := (upt s2)(dvpn a 0 \<mapsto> (f2, ?P OR PTE_V)), frefs := (frefs s2)(f2 := frefs s2 f2 + 1)\<rparr>"
  define s4 where "s4 = s3\<lparr>upt := (upt s3)(dvpn b 0 \<mapsto> (f2, ?P OR PTE_V)), frefs := (frefs s3)(f2 := frefs s3 f2 + 1)\<rparr>"
  have c1: "fd_alloc s = Done (Inr (of_nat (fd_va a))) s"
    by (rule fd_alloc_run) (use assms in auto)
  have c2: "p_alloc (of_nat (fd_va a)) ?P s = Done (Inr ()) s1"
    using assms ab by (simp add: p_alloc_run s1_def)
  have c3: "fd_alloc s1 = Done (Inr (of_nat (fd_va b))) s1"
    by (rule fd_alloc_run) (use assms ab in \<open>auto simp: s1_def\<close>)
  have c4: "p_alloc (of_nat (fd_va b)) ?P s1 = Done (Inr ()) s2"
    using assms ab by (simp add: p_alloc_run s1_def s2_def)
  have c5: "p_alloc (INDEX2DATA (of_nat a)) ?P s2 = Done (Inr ()) s3"
    using assms ab by (simp add: p_alloc_run s1_def s2_def s3_def)
  have c6: "p_map (INDEX2DATA (of_nat a)) (INDEX2DATA (of_nat b)) ?P s3 = Done (Inr ()) s4"
    using assms ab by (simp add: p_map_fresh s1_def s2_def s3_def s4_def)
  have m4: "upt s4 (fdvpn a) = Some (f0, pipe_perm)" "upt s4 (fdvpn b) = Some (f1, pipe_perm)"
    using ab by (simp_all add: s1_def s2_def s3_def s4_def pipe_perm_simps)
  obtain u1 where d1: "p_stw (fd_dev_id (of_nat (fd_va a))) DEV_PIPE s4 = Done () u1" "same_pages s4 u1"
    using p_stw_fd [OF ab(1) m4(1) pipe_perm_simps(2), of 0] by (auto simp: fd_dev_id_def)
  obtain u2 where d2: "p_stw (fd_omode (of_nat (fd_va a))) O_RDONLY u1 = Done () u2" "same_pages s4 u2"
    using p_stw_fd [OF ab(1) _ pipe_perm_simps(2), of u1 f0 8] m4 d1(2) by (auto simp: fd_omode_def same_pages_def)
  obtain u3 where d3: "p_stw (fd_dev_id (of_nat (fd_va b))) DEV_PIPE u2 = Done () u3" "same_pages s4 u3"
    using p_stw_fd [OF ab(2) _ pipe_perm_simps(2), of u2 f1 0] m4 d2(2) by (auto simp: fd_dev_id_def same_pages_def)
  obtain u4 where d4: "p_stw (fd_omode (of_nat (fd_va b))) O_WRONLY u3 = Done () u4" "same_pages s4 u4"
    using p_stw_fd [OF ab(2) _ pipe_perm_simps(2), of u3 f1 8] m4 d3(2) by (auto simp: fd_omode_def same_pages_def)
  have "make_pipe s = Done (Inr (of_nat a, of_nat b)) u4"
    using ab by (simp add: make_pipe_def orelse_def run_rules c1 c2 c3 c4 c5 c6 d1(1) d2(1) d3(1) d4(1))
  moreover have "upt u4 = upt s4" "frefs u4 = frefs s4" "ffree u4 = ffree s4"
    using d4(2) by (simp_all add: same_pages_def)
  moreover have "upt s4 = (upt s)(fdvpn a \<mapsto> (f0, pipe_perm), fdvpn b \<mapsto> (f1, pipe_perm),
      dvpn a 0 \<mapsto> (f2, pipe_perm), dvpn b 0 \<mapsto> (f2, pipe_perm))"
    by (simp add: s1_def s2_def s3_def s4_def pipe_perm_simps)
  moreover have "frefs s4 = (frefs s)(f0 := frefs s f0 + 1, f1 := frefs s f1 + 1, f2 := frefs s f2 + 2)"
    using assms(9) by (auto simp: s1_def s2_def s3_def s4_def)
  moreover have "ffree s4 = fs" by (simp add: s1_def s2_def s3_def s4_def)
  ultimately show ?thesis by metis
qed

lemma pipe_is_closed_run:
  assumes "n < 32" "upt s (fdvpn n) = Some (f, p)" "upt s (dvpn n 0) = Some (g, q)"
  shows "pipe_is_closed (of_nat n) s = Done (if frefs s f = frefs s g then 1 else 0) s"
  using assms by (simp add: pipe_is_closed_def with_fd_def run_rules fd_lookup_nat fd2data_nat
      pipe_closed_def p_pageref_def VPN_fd data_addr)

lemma pipe_close_run:
  assumes "n < 32"
  shows "pipe_close (of_nat (fd_va n)) s = Done 0 (unmap_vpn (dvpn n 0) (unmap_vpn (fdvpn n) s))"
  using assms by (simp add: pipe_close_def run_rules p_unmap_def fd_not_low VPN_fd fd2data_nat data_addr)

lemma unmap_vpn_Some: "upt s v = Some (f, p) \<Longrightarrow>
    unmap_vpn v s = drop_frame f (s\<lparr>upt := (upt s)(v := None)\<rparr>)"
  by (simp add: unmap_vpn_def)

text \<open>
  C27. A new pipe uses the two lowest free descriptor numbers and shares one data page between them.
  Neither end reports the pipe as closed; once the process closes one end, the other end reports it
  as closed, and the frame of the closed descriptor is free again.
\<close>

theorem pipe_detects_close:
  assumes "a < b" "b < 31" "upt s (fdvpn a) = None" "upt s (fdvpn b) = None"
    "\<And>m. m < b \<Longrightarrow> m \<noteq> a \<Longrightarrow> upt s (fdvpn m) \<noteq> None"
    "upt s (dvpn a 0) = None" "upt s (dvpn b 0) = None"
    "ffree s = f0 # f1 # f2 # fs" "distinct [f0, f1, f2]"
    "frefs s f0 = 0" "frefs s f1 = 0" "frefs s f2 = 0"
    "{x, y} = {a, b}" "x \<noteq> y"
  shows "\<exists>t u. make_pipe s = Done (Inr (of_nat a, of_nat b)) t \<and>
    pipe_is_closed (of_nat x) t = Done 0 t \<and>
    pipe_close (of_nat (fd_va y)) t = Done 0 u \<and>
    pipe_is_closed (of_nat x) u = Done 1 u \<and>
    ffree u = (if y = a then f0 else f1) # fs"
proof -
  obtain t where mk: "make_pipe s = Done (Inr (of_nat a, of_nat b)) t"
    and m: "upt t = (upt s)(fdvpn a \<mapsto> (f0, pipe_perm), fdvpn b \<mapsto> (f1, pipe_perm),
      dvpn a 0 \<mapsto> (f2, pipe_perm), dvpn b 0 \<mapsto> (f2, pipe_perm))"
    and r: "frefs t = (frefs s)(f0 := frefs s f0 + 1, f1 := frefs s f1 + 1, f2 := frefs s f2 + 2)" "ffree t = fs"
    using make_pipe_run [OF assms(1-9)] by auto
  define g where "g n = (if n = a then f0 else f1)" for n
  have xy: "x < 32" "y < 32" "x = a \<and> y = b \<or> x = b \<and> y = a"
    using assms(1, 2, 13, 14) by (auto simp: doubleton_eq_iff)
  have ne: "f0 \<noteq> f1" "f0 \<noteq> f2" "f1 \<noteq> f2" "a \<noteq> b" using assms by auto
  have e: "upt t (fdvpn x) = Some (g x, pipe_perm)" "upt t (dvpn x 0) = Some (f2, pipe_perm)"
    "upt t (fdvpn y) = Some (g y, pipe_perm)" "upt t (dvpn y 0) = Some (f2, pipe_perm)"
    using xy(3) ne(4) fdvpn_dvpn [of a] fdvpn_dvpn [of b] xy(1, 2) by (auto simp: m g_def)
  have n: "frefs t (g x) = 1" "frefs t (g y) = 1" "frefs t f2 = 2" "g x \<noteq> g y" "g y \<noteq> f2" "g x \<noteq> f2"
    using xy(3) ne assms(10-12) by (auto simp: r g_def)
  define u where "u = unmap_vpn (dvpn y 0) (unmap_vpn (fdvpn y) t)"
  have u: "u = drop_frame f2 (drop_frame (g y) (t\<lparr>upt := (upt t)(fdvpn y := None)\<rparr>)
      \<lparr>upt := (upt t)(fdvpn y := None, dvpn y 0 := None)\<rparr>)"
    using e fdvpn_dvpn [OF xy(2), of y 0] by (simp add: u_def unmap_vpn_Some drop_frame_def)
  have v: "upt u (fdvpn x) = Some (g x, pipe_perm)" "upt u (dvpn x 0) = Some (f2, pipe_perm)"
    "frefs u (g x) = 1" "frefs u f2 = 1" "ffree u = g y # fs"
    using e n xy assms(14) fdvpn_dvpn [OF xy(1), of y 0] fdvpn_dvpn [OF xy(2), of x 0] r(2)
    by (simp_all add: u drop_frame_def)
  have "pipe_is_closed (of_nat x) t = Done 0 t" "pipe_is_closed (of_nat x) u = Done 1 u"
    using pipe_is_closed_run [OF xy(1) e(1, 2)] pipe_is_closed_run [OF xy(1) v(1, 2)] n v(3, 4) by simp_all
  moreover have "pipe_close (of_nat (fd_va y)) t = Done 0 u" using pipe_close_run [OF xy(2)] by (simp add: u_def)
  ultimately show ?thesis using mk v(5) by (intro exI [of _ t] exI [of _ u]) (simp add: g_def)
qed

theorem pipe_detects_close_witness:
  "\<exists>t u. make_pipe demo_proc = Done (Inr (1, 2)) t \<and> pipe_is_closed 1 t = Done 0 t \<and>
     pipe_close (INDEX2FD 2) t = Done 0 u \<and> pipe_is_closed 1 u = Done 1 u \<and> ffree u = [5, 7, 8, 9]"
proof -
  have h: "upt demo_proc (fdvpn 1) = None" "upt demo_proc (fdvpn 2) = None"
    "upt demo_proc (dvpn 1 0) = None" "upt demo_proc (dvpn 2 0) = None" "upt demo_proc (fdvpn 0) \<noteq> None"
    by (simp_all add: demo_proc_def fdvpn_def dvpn_def)
  have "upt demo_proc (fdvpn m) \<noteq> None" if "m < 2" "m \<noteq> 1" for m
    using that h(5) by (cases "m = 0") auto
  then show ?thesis
    using pipe_detects_close [of 1 2 demo_proc 4 5 6 "[7, 8, 9]" 1 2] h INDEX2FD_nat [of 2]
    by (simp add: demo_proc_def)
qed

section \<open>Reading in full\<close>

text \<open>The contract of a device's read: no more than was asked for.\<close>

locale reader =
  fixes rd :: "u32 \<Rightarrow> u32 \<Rightarrow> u32 \<Rightarrow> u32 \<Rightarrow> ('s, int) kprog"
  assumes bounded: "rd fd buf n off s = Done r t \<Longrightarrow> r \<le> int (unat n)"
begin

lemma progress:
  assumes "rd fd buf (n - tot) off s = Done r t" "tot < n" "0 < r"
  shows "unat (n - (tot + of_int r)) < unat (n - tot) \<and> \<not> n < tot + of_int r"
proof -
  have le: "nat r \<le> unat (n - tot)" using bounded [OF assms(1)] by (simp add: nat_le_iff)
  have r: "(of_int r :: u32) = of_nat (nat r)" using assms(3) by (simp add: of_nat_nat)
  have nt: "unat (n - tot) = unat n - unat tot" "unat tot < unat n"
    using assms(2) by (simp_all add: unat_sub word_less_nat_alt word_le_nat_alt)
  have "unat n < 2 ^ 32" using unsigned_less [of n, where ?'a = nat] by simp
  then have s: "unat (tot + of_nat (nat r)) = unat tot + nat r"
    using le nt by (intro unat_add_nat) linarith
  have l: "unat (tot + of_int r) \<le> unat n" unfolding r s using le nt by linarith
  then have "tot + of_int r \<le> n" unfolding word_le_nat_alt .
  then have "unat (n - (tot + of_int r)) = unat n - unat (tot + of_int r)" by (rule unat_sub)
  moreover have "unat (tot + of_int r) = unat tot + nat r" unfolding r by (rule s)
  moreover have "0 < nat r" using assms(3) by simp
  ultimately have "unat (n - (tot + of_int r)) < unat (n - tot)" using nt by linarith
  then show ?thesis using l by (simp add: word_less_nat_alt)
qed

end

lemma dev_lookup_in: "dev_lookup ds i = Inr d \<Longrightarrow> d \<in> set ds"
  by (induction ds) (auto split: if_splits)

text \<open>A positive count comes from some device of the table.\<close>

lemma read_from_device:
  assumes "read devtab fdnum buf n s = Done r t" "0 < r"
  shows "\<exists>d \<in> set devtab. \<exists>fd off s' t'. dev_read d fd buf n off s' = Done r t'"
proof -
  have e: "neg e < 0" "\<not> 0 < neg e" for e by (cases e; simp add: neg_def)+
  obtain q t1 where q: "fd_lookup fdnum s = Done q t1" "(case q of Inl e \<Rightarrow> retK (neg e) | Inr fd \<Rightarrow>
      bindK (p_ldw (fd_dev_id fd)) (\<lambda>i. case dev_lookup devtab i of Inl e \<Rightarrow> retK (neg e)
        | Inr d \<Rightarrow> bindK (p_ldw (fd_omode fd)) (\<lambda>omode.
            if omode AND O_ACCMODE = O_WRONLY then retK (neg E_INVAL)
            else bindK (p_ldw (fd_offset fd)) (\<lambda>off. bindK (dev_read d fd buf n off) (\<lambda>r.
              seqK (advance fd r) (retK r)))))) t1 = Done r t"
    using assms(1) unfolding read_def with_dev_def with_fd_def by (auto simp: bind_Done)
  then obtain fd where fd: "q = Inr fd" using e assms(2) by (cases q) (auto simp: retK_def)
  obtain i t2 where i: "(case dev_lookup devtab i of Inl e \<Rightarrow> retK (neg e)
        | Inr d \<Rightarrow> bindK (p_ldw (fd_omode fd)) (\<lambda>omode.
            if omode AND O_ACCMODE = O_WRONLY then retK (neg E_INVAL)
            else bindK (p_ldw (fd_offset fd)) (\<lambda>off. bindK (dev_read d fd buf n off) (\<lambda>r.
              seqK (advance fd r) (retK r))))) t2 = Done r t"
    using q(2) unfolding fd by (auto simp: bind_Done)
  then obtain d where d: "dev_lookup devtab i = Inr d"
    using e assms(2) by (cases "dev_lookup devtab i") (auto simp: retK_def)
  then obtain off t3 t4 where "dev_read d fd buf n off t3 = Done r t4"
    using i e assms(2) by (auto simp: bind_Done seq_Done retK_def split: if_splits)
  then show ?thesis using dev_lookup_in [OF d] by blast
qed

lemma readn_fuel:
  assumes "\<And>d. d \<in> set devtab \<Longrightarrow> reader (dev_read d)"
  shows "unat (n - tot) < k \<Longrightarrow> unat (n - tot) < k' \<Longrightarrow> \<not> n < tot \<Longrightarrow>
    readn_loop k devtab fdnum buf n tot s = readn_loop k' devtab fdnum buf n tot s"
proof (induction k arbitrary: k' tot s)
  case 0
  then show ?case by simp
next
  case (Suc j)
  obtain j' where k': "k' = Suc j'" using Suc.prems(2) by (cases k') auto
  show ?case
  proof (cases "tot < n")
    case True
    have "readn_loop j devtab fdnum buf n (tot + of_int r) t = readn_loop j' devtab fdnum buf n (tot + of_int r) t"
      if r: "read devtab fdnum (buf + tot) (n - tot) s = Done r t" "0 < r" for r t
    proof -
      obtain d fd off s' t' where d: "d \<in> set devtab" "dev_read d fd (buf + tot) (n - tot) off s' = Done r t'"
        using read_from_device [OF r] by blast
      have "unat (n - (tot + of_int r)) < unat (n - tot)" "\<not> n < tot + of_int r"
        using reader.progress [OF assms [OF d(1)] d(2) True r(2)] by simp_all
      then show ?thesis using Suc.IH [of "tot + of_int r" j' t] Suc.prems(1, 2) k' by simp
    qed
    then show ?thesis using True k' by (auto simp: bindK_def retK_def split: outcome.split)
  qed (simp add: k')
qed

end
