(* ===== verification/File.thy ===== *)
theory File
  imports Fd
begin

text \<open>
  Files: \<^verbatim>\<open>user/lib/fsipc.c\<close>, the requests to the file system server, and
  \<^verbatim>\<open>user/lib/file.c\<close>, the device of open files and the calls on paths (\<^verbatim>\<open>get_path\<close>
  is in \<open>Path\<close>). The contents of an open file are pages mapped at its data region.

  The exchange with the server, \<^verbatim>\<open>ipc_send\<close> to and \<^verbatim>\<open>ipc_recv\<close> from the second
  environment, is the argument \<open>srv\<close>: given the request's number, the address of its page and the
  address for the reply page, it returns the reply's value and permissions and may map a page. The
  address \<open>fsipcbuf\<close> of the request buffer is an argument, too. Paths are byte lists without the
  terminator.
\<close>

type_synonym 'x server = "u32 \<Rightarrow> u32 \<Rightarrow> u32 \<Rightarrow> ('x, u32 \<times> u32) procM"

definition FSREQ_OPEN :: u32 where "FSREQ_OPEN = 1"
definition FSREQ_MAP :: u32 where "FSREQ_MAP = 2"
definition FSREQ_SET_SIZE :: u32 where "FSREQ_SET_SIZE = 3"
definition FSREQ_CLOSE :: u32 where "FSREQ_CLOSE = 4"
definition FSREQ_DIRTY :: u32 where "FSREQ_DIRTY = 5"
definition FSREQ_REMOVE :: u32 where "FSREQ_REMOVE = 6"
definition FSREQ_SYNC :: u32 where "FSREQ_SYNC = 7"
definition FSREQ_CREATE :: u32 where "FSREQ_CREATE = 8"

definition MAXPATH :: nat where "MAXPATH = 1024"
definition MAXFILE :: u32 where "MAXFILE = 1024 * BY2PG"
definition DEV_FILE :: u32 where "DEV_FILE = 0x66"

section \<open>Requests\<close>

definition fsipc :: "'x server \<Rightarrow> u32 \<Rightarrow> u32 \<Rightarrow> u32 \<Rightarrow> ('x, int) procM" where
  "fsipc srv ty fsreq dstva = bindK (srv ty fsreq dstva) (\<lambda>(v, _). retK (sint v))"

definition fsipc_open :: "'x server \<Rightarrow> u32 \<Rightarrow> u8 list \<Rightarrow> u32 \<Rightarrow> u32 \<Rightarrow> ('x, int) procM" where
  "fsipc_open srv fsipcbuf path omode fd =
     (if MAXPATH \<le> length path then retK (neg E_BAD_PATH)
      else seqK (p_store_string path fsipcbuf)
          (seqK (p_stw (fsipcbuf + 1024) omode)
                (fsipc srv FSREQ_OPEN fsipcbuf fd)))"

definition fsipc_map :: "'x server \<Rightarrow> u32 \<Rightarrow> u32 \<Rightarrow> u32 \<Rightarrow> u32 \<Rightarrow> ('x, int) procM" where
  "fsipc_map srv fsipcbuf fileid offset dstva =
     seqK (p_stw fsipcbuf fileid)
    (seqK (p_stw (fsipcbuf + 4) offset)
    (bindK (srv FSREQ_MAP fsipcbuf dstva) (\<lambda>(v, perm).
     if sint v < 0 then retK (sint v)
     else if perm AND NOT (PTE_D OR PTE_LIBRARY) \<noteq> PTE_V then panicK ''fsipc_map: unexpected permissions''
     else retK 0)))"

definition fsipc_set_size :: "'x server \<Rightarrow> u32 \<Rightarrow> u32 \<Rightarrow> u32 \<Rightarrow> ('x, int) procM" where
  "fsipc_set_size srv fsipcbuf fileid n =
     seqK (p_stw fsipcbuf fileid) (seqK (p_stw (fsipcbuf + 4) n) (fsipc srv FSREQ_SET_SIZE fsipcbuf 0))"

definition fsipc_close :: "'x server \<Rightarrow> u32 \<Rightarrow> u32 \<Rightarrow> ('x, int) procM" where
  "fsipc_close srv fsipcbuf fileid = seqK (p_stw fsipcbuf fileid) (fsipc srv FSREQ_CLOSE fsipcbuf 0)"

definition fsipc_dirty :: "'x server \<Rightarrow> u32 \<Rightarrow> u32 \<Rightarrow> u32 \<Rightarrow> ('x, int) procM" where
  "fsipc_dirty srv fsipcbuf fileid offset =
     seqK (p_stw fsipcbuf fileid) (seqK (p_stw (fsipcbuf + 4) offset) (fsipc srv FSREQ_DIRTY fsipcbuf 0))"

definition fsipc_remove :: "'x server \<Rightarrow> u32 \<Rightarrow> u8 list \<Rightarrow> ('x, int) procM" where
  "fsipc_remove srv fsipcbuf path =
     (if length path = 0 \<or> MAXPATH < length path then retK (neg E_BAD_PATH)
      else seqK (p_store_string path fsipcbuf) (fsipc srv FSREQ_REMOVE fsipcbuf 0))"

definition fsipc_create :: "'x server \<Rightarrow> u32 \<Rightarrow> u8 list \<Rightarrow> u32 \<Rightarrow> ('x, int) procM" where
  "fsipc_create srv fsipcbuf path ty =
     seqK (p_stw fsipcbuf ty) (seqK (p_store_string path (fsipcbuf + 4)) (fsipc srv FSREQ_CREATE fsipcbuf 0))"

definition fsipc_sync :: "'x server \<Rightarrow> u32 \<Rightarrow> ('x, int) procM" where
  "fsipc_sync srv fsipcbuf = fsipc srv FSREQ_SYNC fsipcbuf 0"

section \<open>Loops over pages\<close>

text \<open>
  \<^verbatim>\<open>for (i = from; i < to; i += BY2PG)\<close>, left when the body returns a result. \<open>2 ^ 20\<close> turns
  are enough unless \<^verbatim>\<open>i\<close> wraps around, which only bounds above \<^verbatim>\<open>2^32 - BY2PG\<close> allow;
  the loop would then not end.
\<close>

fun page_loop :: "nat \<Rightarrow> u32 \<Rightarrow> u32 \<Rightarrow> (u32 \<Rightarrow> ('x, int option) procM) \<Rightarrow> ('x, int option) procM" where
  "page_loop n i to f =
     (if i < to then (case n of
        0 \<Rightarrow> panicK ''loops''
      | Suc n' \<Rightarrow> bindK (f i) (\<lambda>r. case r of Some v \<Rightarrow> retK (Some v) | None \<Rightarrow> page_loop n' (i + BY2PG) to f))
      else retK None)"

declare page_loop.simps [simp del]

definition for_pages :: "u32 \<Rightarrow> u32 \<Rightarrow> (u32 \<Rightarrow> ('x, int option) procM) \<Rightarrow> ('x, int option) procM" where
  "for_pages i to f = page_loop (2 ^ 20) i to f"

text \<open>What is done after a loop that was not left early.\<close>

definition thenK :: "('x, int option) procM \<Rightarrow> ('x, int) procM \<Rightarrow> ('x, int) procM" where
  "thenK m k = bindK m (\<lambda>r. case r of Some v \<Rightarrow> retK v | None \<Rightarrow> k)"

text \<open>Fields of \<^verbatim>\<open>struct Filefd\<close>.\<close>

definition ff_fileid :: "u32 \<Rightarrow> u32" where "ff_fileid fd = fd + 12"
definition ff_name :: "u32 \<Rightarrow> u32" where "ff_name fd = fd + 16"
definition ff_size :: "u32 \<Rightarrow> u32" where "ff_size fd = fd + 144"
definition ff_type :: "u32 \<Rightarrow> u32" where "ff_type fd = fd + 148"

section \<open>Calls\<close>

definition open_path :: "'x server \<Rightarrow> u32 \<Rightarrow> u8 list \<Rightarrow> u32 \<Rightarrow> ('x, int) procM" where
  "open_path srv fsipcbuf path mode =
     bindK fd_alloc (\<lambda>q. case q of Inl e \<Rightarrow> retK (neg e) | Inr fd \<Rightarrow>
     bindK (fsipc_open srv fsipcbuf path mode fd) (\<lambda>r.
     if r < 0 then retK r
     else
       let va = fd2data fd in
       bindK (p_ldw (ff_size fd)) (\<lambda>n.
       bindK (p_ldw (ff_fileid fd)) (\<lambda>fileid.
       thenK (for_pages 0 n (\<lambda>i. bindK (fsipc_map srv fsipcbuf fileid i (va + i)) (\<lambda>r.
                retK (if r < 0 then Some 0 else None))))
             (retK (sint (fd2num fd)))))))"

definition file_close :: "'x server \<Rightarrow> u32 \<Rightarrow> u32 \<Rightarrow> ('x, int) procM" where
  "file_close srv fsipcbuf fd =
     bindK (p_ldw (ff_fileid fd)) (\<lambda>fileid.
     bindK (p_ldw (ff_size fd)) (\<lambda>n.
     let va = fd2data fd in
     thenK (for_pages 0 n (\<lambda>i. bindK (fsipc_dirty srv fsipcbuf fileid i) (\<lambda>_. retK None)))
    (bindK (fsipc_close srv fsipcbuf fileid) (\<lambda>r.
     if r < 0 then retK r
     else if n = 0 then retK 0
     else thenK (for_pages 0 n (\<lambda>i. bindK (p_unmap (va + i)) (\<lambda>q. case q of
                   Inl e \<Rightarrow> retK (Some (neg e)) | Inr _ \<Rightarrow> retK None)))
                (retK 0)))))"

definition file_read :: "u32 \<Rightarrow> u32 \<Rightarrow> u32 \<Rightarrow> u32 \<Rightarrow> ('x, int) procM" where
  "file_read fd buf n offset =
     bindK (p_ldw (ff_size fd)) (\<lambda>sz.
     if offset > sz then retK 0
     else
       let n' = (if offset + n > sz then sz - offset else n) in
       seqK (p_copy (unat n') buf (fd2data fd + offset)) (retK (sint n')))"

definition read_map :: "u32 \<Rightarrow> u32 \<Rightarrow> ('x, err + u32) procM" where
  "read_map fdnum offset =
     bindK (fd_lookup fdnum) (\<lambda>r. case r of Inl e \<Rightarrow> retK (Inl e) | Inr fd \<Rightarrow>
     bindK (p_ldw (fd_dev_id fd)) (\<lambda>i.
     if i \<noteq> DEV_FILE then retK (Inl E_INVAL)
     else
       let va = fd2data fd + offset in
       if MAXFILE \<le> offset then retK (Inl E_NO_DISK)
       else getsK (\<lambda>s. if upt s (VPN va) = None then Inl E_NO_DISK else Inr va)))"

definition ftruncate :: "'x server \<Rightarrow> u32 \<Rightarrow> u32 \<Rightarrow> u32 \<Rightarrow> ('x, int) procM" where
  "ftruncate srv fsipcbuf fdnum n =
     (if n > MAXFILE then retK (neg E_NO_DISK)
      else with_fd fdnum (\<lambda>fd.
        bindK (p_ldw (fd_dev_id fd)) (\<lambda>i.
        if i \<noteq> DEV_FILE then retK (neg E_INVAL)
        else
          bindK (p_ldw (ff_fileid fd)) (\<lambda>fileid.
          bindK (p_ldw (ff_size fd)) (\<lambda>oldsize.
          seqK (p_stw (ff_size fd) n)
         (bindK (fsipc_set_size srv fsipcbuf fileid n) (\<lambda>r.
          if r < 0 then retK r
          else
            let va = fd2data fd in
            thenK (for_pages (ROUND oldsize BY2PG) (ROUND n BY2PG) (\<lambda>i.
                     bindK (fsipc_map srv fsipcbuf fileid i (va + i)) (\<lambda>r.
                     if r < 0 then bindK (fsipc_set_size srv fsipcbuf fileid oldsize) (\<lambda>_. retK (Some r))
                     else retK None)))
           (thenK (for_pages (ROUND n BY2PG) (ROUND oldsize BY2PG) (\<lambda>i.
                     bindK (p_unmap (va + i)) (\<lambda>q. case q of
                       Inl _ \<Rightarrow> panicK ''ftruncate: syscall_mem_unmap'' | Inr _ \<Rightarrow> retK None)))
                  (retK 0)))))))))"

definition file_write :: "'x server \<Rightarrow> u32 \<Rightarrow> u32 \<Rightarrow> u32 \<Rightarrow> u32 \<Rightarrow> u32 \<Rightarrow> ('x, int) procM" where
  "file_write srv fsipcbuf fd buf n offset =
     (let tot = offset + n in
      if tot > MAXFILE then retK (neg E_NO_DISK)
      else bindK (p_ldw (ff_size fd)) (\<lambda>sz.
        bindK (if tot > sz then ftruncate srv fsipcbuf (fd2num fd) tot else retK 0) (\<lambda>r.
        if tot > sz \<and> r < 0 then retK r
        else seqK (p_copy (unat n) (fd2data fd + offset) buf) (retK (sint n)))))"

text \<open>\<^verbatim>\<open>strcpy\<close> within the process, cut off after \<open>2 ^ 32\<close> bytes without a terminator.\<close>

fun p_strcpy :: "nat \<Rightarrow> u32 \<Rightarrow> u32 \<Rightarrow> ('x, unit) procM" where
  "p_strcpy 0 dst src = panicK ''unterminated string''"
| "p_strcpy (Suc k) dst src =
     bindK (p_ldb src) (\<lambda>b. seqK (p_stb dst b) (if b = 0 then retK () else p_strcpy k (dst + 1) (src + 1)))"

definition file_stat :: "u32 \<Rightarrow> u32 \<Rightarrow> ('x, int) procM" where
  "file_stat fd st =
     seqK (p_strcpy (2 ^ 32) st (ff_name fd))
    (bindK (p_ldw (ff_size fd)) (\<lambda>n.
     seqK (p_stw (st + 128) n)
    (bindK (p_ldw (ff_type fd)) (\<lambda>ty.
     seqK (p_stw (st + 132) (if ty = 1 then 1 else 0)) (retK 0)))))"

definition remove_path :: "'x server \<Rightarrow> u32 \<Rightarrow> u8 list \<Rightarrow> ('x, int) procM" where
  "remove_path srv fsipcbuf path = fsipc_remove srv fsipcbuf path"

definition create_path :: "'x server \<Rightarrow> u32 \<Rightarrow> u8 list \<Rightarrow> u32 \<Rightarrow> ('x, int) procM" where
  "create_path srv fsipcbuf path ty = fsipc_create srv fsipcbuf path ty"

definition sync_files :: "'x server \<Rightarrow> u32 \<Rightarrow> ('x, int) procM" where
  "sync_files srv fsipcbuf = fsipc_sync srv fsipcbuf"

definition devfile :: "'x server \<Rightarrow> u32 \<Rightarrow> ('x uproc_scheme) dev" where
  "devfile srv fsipcbuf = \<lparr>dev_id = DEV_FILE, dev_addr = 0, dev_read = file_read,
     dev_write = file_write srv fsipcbuf, dev_close = file_close srv fsipcbuf, dev_stat = file_stat\<rparr>"

text \<open>\<^verbatim>\<open>stat\<close> of \<^verbatim>\<open>fd.c\<close>.\<close>

definition stat_path :: "('x uproc_scheme) dev list \<Rightarrow> 'x server \<Rightarrow> u32 \<Rightarrow> u8 list \<Rightarrow> u32 \<Rightarrow> ('x, int) procM" where
  "stat_path devtab srv fsipcbuf path st =
     bindK (open_path srv fsipcbuf path O_RDONLY) (\<lambda>fd.
     if fd < 0 then retK fd
     else bindK (fstat devtab (of_int fd) st) (\<lambda>r.
       bindK (close devtab (of_int fd)) (\<lambda>_. retK r)))"

end
