(* ===== verification/File_Thms.thy ===== *)
theory File_Thms
  imports File Fd_Thms
begin

text \<open>
  Copying within a process whose pages may be shared, and reading back what was written to an open
  file.
\<close>

section \<open>Copying\<close>

text \<open>The frame and byte behind an address, and the byte itself.\<close>

definition ploc :: "'x uproc_scheme \<Rightarrow> u32 \<Rightarrow> nat \<times> nat" where
  "ploc s va = (fst (the (upt s (VPN va))), bofs va)"

definition pbyte :: "'x uproc_scheme \<Rightarrow> u32 \<Rightarrow> u8" where
  "pbyte s va = frame_byte (frames s (fst (ploc s va))) (snd (ploc s va))"

definition readable :: "'x uproc_scheme \<Rightarrow> u32 \<Rightarrow> bool" where
  "readable s va \<longleftrightarrow> upt s (VPN va) \<noteq> None"

definition writable :: "'x uproc_scheme \<Rightarrow> u32 \<Rightarrow> bool" where
  "writable s va \<longleftrightarrow> (\<exists>f p. upt s (VPN va) = Some (f, p) \<and> p AND PTE_D \<noteq> 0)"

text \<open>\<open>t\<close> differs from \<open>s\<close> only in the contents of frames.\<close>

definition only_frames :: "'x uproc_scheme \<Rightarrow> 'x uproc_scheme \<Rightarrow> bool" where
  "only_frames s t \<longleftrightarrow> (\<exists>m. t = s\<lparr>frames := m\<rparr>)"

lemma only_frames_refl [simp]: "only_frames s s"
  by (auto simp: only_frames_def intro: exI [of _ "frames s"])

lemma only_frames_trans: "only_frames s t \<Longrightarrow> only_frames t u \<Longrightarrow> only_frames s u"
  by (auto simp: only_frames_def)

lemma only_frames_simps:
  assumes "only_frames s t"
  shows "upt t = upt s" "ploc t = ploc s" "readable t = readable s" "writable t = writable s"
  using assms by (auto simp: only_frames_def ploc_def readable_def writable_def fun_eq_iff)

lemma p_ldb_run: "readable s va \<Longrightarrow> p_ldb va s = Done (pbyte s va) s"
  by (auto simp: readable_def p_ldb_def run_rules p_touch_run pbyte_def ploc_def)

lemma p_stb_run:
  assumes "writable s va"
  shows "\<exists>t. p_stb va b s = Done () t \<and> only_frames s t \<and>
    (\<forall>a. pbyte t a = (if ploc s a = ploc s va then b else pbyte s a)) \<and>
    (\<forall>f. f \<noteq> fst (ploc s va) \<longrightarrow> frames t f = frames s f)"
proof -
  obtain f p where f: "upt s (VPN va) = Some (f, p)" "p AND PTE_D \<noteq> 0"
    using assms by (auto simp: writable_def)
  let ?t = "s\<lparr>frames := (frames s)(f := set_frame_byte (frames s f) (bofs va) b)\<rparr>"
  have "p_stb va b s = Done () ?t" using f by (simp add: p_stb_def run_rules p_wtouch_run)
  moreover have "pbyte ?t a = (if ploc s a = ploc s va then b else pbyte s a)" for a
    using f by (simp add: pbyte_def ploc_def frame_byte_set)
  ultimately show ?thesis using f by (auto simp: only_frames_def ploc_def)
qed

text \<open>Two ranges that share no byte, and a range whose bytes are all different.\<close>

definition apart :: "'x uproc_scheme \<Rightarrow> u32 \<Rightarrow> u32 \<Rightarrow> nat \<Rightarrow> bool" where
  "apart s a b n \<longleftrightarrow> (\<forall>i < n. \<forall>j < n. ploc s (a + of_nat i) \<noteq> ploc s (b + of_nat j))"

definition one_to_one :: "'x uproc_scheme \<Rightarrow> u32 \<Rightarrow> nat \<Rightarrow> bool" where
  "one_to_one s a n \<longleftrightarrow> (\<forall>i < n. \<forall>j < n. ploc s (a + of_nat i) = ploc s (a + of_nat j) \<longrightarrow> i = j)"

lemma shift: "(a :: u32) + of_nat (Suc i) = (a + 1) + of_nat i"
  by (simp add: add.assoc)

lemma p_copy_run:
  assumes "\<And>i. i < n \<Longrightarrow> readable s (src + of_nat i)" "\<And>i. i < n \<Longrightarrow> writable s (dst + of_nat i)"
    "apart s dst src n" "one_to_one s dst n"
  shows "\<exists>t. p_copy n dst src s = Done () t \<and> only_frames s t \<and>
    (\<forall>i < n. pbyte t (dst + of_nat i) = pbyte s (src + of_nat i)) \<and>
    (\<forall>a. (\<forall>i < n. ploc s a \<noteq> ploc s (dst + of_nat i)) \<longrightarrow> pbyte t a = pbyte s a) \<and>
    (\<forall>f. (\<forall>i < n. f \<noteq> fst (ploc s (dst + of_nat i))) \<longrightarrow> frames t f = frames s f)"
  using assms
proof (induction n arbitrary: dst src s)
  case 0
  then show ?case by (simp add: run_rules)
next
  case (Suc n)
  have w0: "writable s dst" "readable s src" using Suc.prems(1) [of 0] Suc.prems(2) [of 0] by simp_all
  obtain t where t: "p_stb dst (pbyte s src) s = Done () t" "only_frames s t"
      "\<And>a. pbyte t a = (if ploc s a = ploc s dst then pbyte s src else pbyte s a)"
      "\<And>f. f \<noteq> fst (ploc s dst) \<Longrightarrow> frames t f = frames s f"
    using p_stb_run [OF w0(1)] by metis
  note sm = only_frames_simps [OF t(2)]
  have rd: "readable t (src + 1 + of_nat i)" "writable t (dst + 1 + of_nat i)" if "i < n" for i
    using Suc.prems(1, 2) [of "Suc i"] that unfolding sm shift by simp_all
  have ap: "ploc s (dst + of_nat i) \<noteq> ploc s (src + of_nat j)" if "i < Suc n" "j < Suc n" for i j
    using Suc.prems(3) that unfolding apart_def by blast
  have oo: "ploc s (dst + of_nat i) = ploc s (dst + of_nat j) \<Longrightarrow> i = j" if "i < Suc n" "j < Suc n" for i j
    using Suc.prems(4) that unfolding one_to_one_def by blast
  have "apart t (dst + 1) (src + 1) n"
    unfolding apart_def sm by (intro allI impI) (use ap [of "Suc _" "Suc _"] in \<open>simp add: add.assoc\<close>)
  moreover have "one_to_one t (dst + 1) n"
    unfolding one_to_one_def sm
  proof (intro allI impI)
    fix i j assume "i < n" "j < n" "ploc s (dst + 1 + of_nat i) = ploc s (dst + 1 + of_nat j)"
    then show "i = j" using oo [of "Suc i" "Suc j"] by (simp add: add.assoc)
  qed
  ultimately obtain u where u: "p_copy n (dst + 1) (src + 1) t = Done () u" "only_frames t u"
      "\<And>i. i < n \<Longrightarrow> pbyte u (dst + 1 + of_nat i) = pbyte t (src + 1 + of_nat i)"
      "\<And>a. (\<forall>i < n. ploc s a \<noteq> ploc s (dst + 1 + of_nat i)) \<Longrightarrow> pbyte u a = pbyte t a"
      "\<And>f. (\<forall>i < n. f \<noteq> fst (ploc s (dst + 1 + of_nat i))) \<Longrightarrow> frames u f = frames t f"
    using Suc.IH [of t "src + 1" "dst + 1"] rd unfolding sm by metis
  have run: "p_copy (Suc n) dst src s = Done () u"
    using w0(2) t(1) u(1) by (simp add: run_rules p_ldb_run)
  have copied: "pbyte u (dst + of_nat i) = pbyte s (src + of_nat i)" if i: "i < Suc n" for i
  proof (cases i)
    case 0
    have "pbyte u dst = pbyte t dst"
      using oo [of 0 "Suc _"] by (intro u(4)) (auto simp: add.assoc)
    then show ?thesis using 0 t(3) by simp
  next
    case (Suc j)
    have "pbyte t (src + of_nat i) = pbyte s (src + of_nat i)"
      using t(3) ap [of 0 i] i by (simp add: eq_commute)
    then show ?thesis using u(3) [of j] Suc i by (simp add: add.assoc)
  qed
  have other: "pbyte u a = pbyte s a" if "\<forall>i < Suc n. ploc s a \<noteq> ploc s (dst + of_nat i)" for a
  proof -
    have "ploc s a \<noteq> ploc s dst" using that [rule_format, of 0] by simp
    moreover have "\<forall>i < n. ploc s a \<noteq> ploc s (dst + 1 + of_nat i)"
      using that [rule_format, of "Suc _"] by (simp add: add.assoc)
    ultimately show ?thesis using u(4) t(3) by simp
  qed
  have fr: "frames u f = frames s f" if "\<forall>i < Suc n. f \<noteq> fst (ploc s (dst + of_nat i))" for f
  proof -
    have "f \<noteq> fst (ploc s dst)" using that [rule_format, of 0] by simp
    moreover have "\<forall>i < n. f \<noteq> fst (ploc s (dst + 1 + of_nat i))"
      using that [rule_format, of "Suc _"] by (simp add: add.assoc)
    ultimately show ?thesis using u(5) t(4) by simp
  qed
  show ?case using run only_frames_trans [OF t(2) u(2)] copied other fr by blast
qed

section \<open>Reading and writing an open file\<close>

lemma ff_size_run:
  assumes "a < 32" "upt s (fdvpn a) = Some (f, p)"
  shows "p_ldw (ff_size (of_nat (fd_va a))) s = Done (frames s f 36) s"
proof -
  have e: "ff_size (of_nat (fd_va a)) = of_nat (fd_va a + 144)" by (simp add: ff_size_def)
  have "VPN (ff_size (of_nat (fd_va a))) = fdvpn a"
    unfolding e using assms(1) by (subst VPN_of_nat) (auto simp: fd_va_def fdvpn_def)
  moreover have "wofs (ff_size (of_nat (fd_va a))) = 36"
    unfolding e wofs_def using assms(1) by (subst unat_of_nat_len) (auto simp: fd_va_def)
  ultimately show ?thesis using assms(2) by (simp add: p_ldw_run)
qed

lemma sint_small: "unat (w :: u32) < 2 ^ 31 \<Longrightarrow> sint w = int (unat w)"
  using sint_of_nat [of "unat w"] by simp

lemma apart_sym: "apart s a b n \<Longrightarrow> apart s b a n"
  unfolding apart_def by metis

lemma file_write_inside:
  assumes "a < 32" "upt s (fdvpn a) = Some (f, p)"
    "unat offset + unat n \<le> unat (frames s f 36)" "frames s f 36 \<le> MAXFILE"
  shows "file_write srv fb (of_nat (fd_va a)) src n offset s =
    bindK (p_copy (unat n) (INDEX2DATA (of_nat a) + offset) src) (\<lambda>_. retK (int (unat n))) s"
proof -
  have m: "unat (frames s f 36) \<le> 4194304"
    using assms(4) by (simp add: word_le_nat_alt MAXFILE_def BY2PG_def)
  then have s: "unat (offset + n) = unat offset + unat n" using assms(3) unat_add_nat [of offset "unat n"] by simp
  then have "\<not> offset + n > frames s f 36" "\<not> offset + n > MAXFILE"
    using assms(3) m by (simp_all add: word_less_nat_alt MAXFILE_def BY2PG_def)
  moreover have "sint n = int (unat n)" using assms(3) m by (intro sint_small) simp
  ultimately show ?thesis
    using assms(1, 2) by (simp add: file_write_def Let_def run_rules ff_size_run fd2data_nat)
qed

lemma file_read_inside:
  assumes "a < 32" "upt s (fdvpn a) = Some (f, p)"
    "unat offset + unat n \<le> unat (frames s f 36)" "frames s f 36 \<le> MAXFILE"
  shows "file_read (of_nat (fd_va a)) dst n offset s =
    bindK (p_copy (unat n) dst (INDEX2DATA (of_nat a) + offset)) (\<lambda>_. retK (int (unat n))) s"
proof -
  have m: "unat (frames s f 36) \<le> 4194304"
    using assms(4) by (simp add: word_le_nat_alt MAXFILE_def BY2PG_def)
  then have s: "unat (offset + n) = unat offset + unat n" using assms(3) unat_add_nat [of offset "unat n"] by simp
  then have "\<not> offset + n > frames s f 36" "\<not> offset > frames s f 36"
    using assms(3) m by (simp_all add: word_less_nat_alt)
  moreover have "sint n = int (unat n)" using assms(3) m by (intro sint_small) simp
  ultimately show ?thesis
    using assms(1, 2) by (simp add: file_read_def Let_def run_rules ff_size_run fd2data_nat)
qed

text \<open>
  C28. Bytes written to an open file within its size are read back by a read at the same offset.
  The write asks nothing of the server. The hypotheses: the file's pages there are mapped and
  writable, no two of its bytes are the same byte, and neither its pages nor the descriptor alias
  the buffers where that matters.
\<close>

theorem file_write_read:
  assumes "a < 32" "upt s (fdvpn a) = Some (f, p)"
    "unat offset + unat n \<le> unat (frames s f 36)" "frames s f 36 \<le> MAXFILE"
    "\<And>i. i < unat n \<Longrightarrow> writable s (va + of_nat i) \<and> readable s (src + of_nat i) \<and>
       writable s (dst + of_nat i) \<and> fst (ploc s (va + of_nat i)) \<noteq> f"
    "apart s va src (unat n)" "apart s dst va (unat n)" "one_to_one s va (unat n)" "one_to_one s dst (unat n)"
    "va = INDEX2DATA (of_nat a) + offset"
  shows "\<exists>t u. file_write srv fb (of_nat (fd_va a)) src n offset s = Done (int (unat n)) t \<and>
    file_read (of_nat (fd_va a)) dst n offset t = Done (int (unat n)) u \<and>
    (\<forall>i < unat n. pbyte u (dst + of_nat i) = pbyte s (src + of_nat i))"
proof -
  obtain t where t: "p_copy (unat n) va src s = Done () t" "only_frames s t"
      "\<And>i. i < unat n \<Longrightarrow> pbyte t (va + of_nat i) = pbyte s (src + of_nat i)"
      "\<And>g. (\<forall>i < unat n. g \<noteq> fst (ploc s (va + of_nat i))) \<Longrightarrow> frames t g = frames s g"
    using p_copy_run [of "unat n" s src va] assms(5, 6, 8) by metis
  note sm = only_frames_simps [OF t(2)]
  have ft: "frames t f = frames s f" using assms(5) by (intro t(4)) metis
  have "readable s (va + of_nat i)" if "i < unat n" for i
    using assms(5) [OF that] by (auto simp: writable_def readable_def)
  then have "\<exists>u. p_copy (unat n) dst va t = Done () u \<and> only_frames t u \<and>
      (\<forall>i < unat n. pbyte u (dst + of_nat i) = pbyte t (va + of_nat i)) \<and>
      (\<forall>a. (\<forall>i < unat n. ploc t a \<noteq> ploc t (dst + of_nat i)) \<longrightarrow> pbyte u a = pbyte t a) \<and>
      (\<forall>f. (\<forall>i < unat n. f \<noteq> fst (ploc t (dst + of_nat i))) \<longrightarrow> frames u f = frames t f)"
    using assms(5, 7, 9) by (intro p_copy_run) (simp_all add: sm apart_def one_to_one_def)
  then obtain u where u: "p_copy (unat n) dst va t = Done () u"
      "\<And>i. i < unat n \<Longrightarrow> pbyte u (dst + of_nat i) = pbyte t (va + of_nat i)"
    by blast
  have "file_write srv fb (of_nat (fd_va a)) src n offset s = Done (int (unat n)) t"
    using file_write_inside [OF assms(1-4)] t(1) assms(10) by (simp add: run_rules)
  moreover have "file_read (of_nat (fd_va a)) dst n offset t = Done (int (unat n)) u"
    using file_read_inside [of a t f p offset n dst] assms(1-4, 10) ft u(1) sm(1) by (simp add: run_rules)
  ultimately show ?thesis using t(3) u(2) by auto
qed

text \<open>Descriptor 0 is a file of 8192 bytes; three bytes across its page boundary are written and read.\<close>

definition file_proc :: uproc where
  "file_proc = \<lparr>upt = [fdvpn 0 \<mapsto> (1, PTE_V OR PTE_D), dvpn 0 0 \<mapsto> (2, PTE_V OR PTE_D),
       dvpn 0 1 \<mapsto> (3, PTE_V OR PTE_D), 0x500 \<mapsto> (4, PTE_V OR PTE_D)],
     frames = (\<lambda>f k. if f = 1 \<and> k = 36 then 8192 else if f = 4 then 0x64636261 else 0),
     frefs = (\<lambda>f. if f \<in> {1, 2, 3, 4} then 1 else 0), ffree = []\<rparr>"

theorem file_write_read_witness:
  "\<exists>t u. file_write (\<lambda>_ _ _. panicK ''no server'') 0 (of_nat (fd_va 0)) 0x500000 3 4094 file_proc = Done 3 t \<and>
    file_read (of_nat (fd_va 0)) 0x500100 3 4094 t = Done 3 u \<and> pbyte u 0x500102 = 0x63"
proof -
  have i3: "i = 0 \<or> i = 1 \<or> i = 2" if "i < 3" for i :: nat using that by auto
  have m: "upt file_proc (fdvpn 0) = Some (1, PTE_V OR PTE_D)" "frames file_proc 1 36 = 8192"
    by (simp_all add: file_proc_def fdvpn_def dvpn_def)
  have loc: "ploc file_proc (0x60000FFE + of_nat i) = (if i < 2 then (2, 4094 + i) else (3, i - 2))"
    "ploc file_proc (0x500000 + of_nat i) = (4, i)" "ploc file_proc (0x500100 + of_nat i) = (4, 256 + i)"
    "writable file_proc (0x60000FFE + of_nat i)" "readable file_proc (0x500000 + of_nat i)"
    "writable file_proc (0x500100 + of_nat i)" if "i < 3" for i
    using i3 [OF that]
    by (auto simp: ploc_def file_proc_def fdvpn_def dvpn_def VPN_alt bofs_def writable_def readable_def
        PTE_V_def PTE_D_def)
  have va: "INDEX2DATA (of_nat 0) + 4094 = 0x60000FFE"
    by (simp add: INDEX2DATA_def FILEBASE_def PDMAP_def)
  let ?srv = "\<lambda>_ _ _. panicK ''no server'' :: (unit, u32 \<times> u32) procM" and ?n = "unat (3 :: u32)"
  have "\<And>i. i < ?n \<Longrightarrow> writable file_proc (0x60000FFE + of_nat i) \<and> readable file_proc (0x500000 + of_nat i) \<and>
       writable file_proc (0x500100 + of_nat i) \<and> fst (ploc file_proc (0x60000FFE + of_nat i)) \<noteq> 1"
    "apart file_proc 0x60000FFE 0x500000 ?n" "apart file_proc 0x500100 0x60000FFE ?n"
    "one_to_one file_proc 0x60000FFE ?n" "one_to_one file_proc 0x500100 ?n"
    by (auto simp: apart_def one_to_one_def loc split: if_splits)
  then have "\<exists>t u. file_write ?srv 0 (of_nat (fd_va 0)) 0x500000 3 4094 file_proc = Done (int ?n) t \<and>
      file_read (of_nat (fd_va 0)) 0x500100 3 4094 t = Done (int ?n) u \<and>
      (\<forall>i < ?n. pbyte u (0x500100 + of_nat i) = pbyte file_proc (0x500000 + of_nat i))"
    using m va by (intro file_write_read [of 0 file_proc 1 "PTE_V OR PTE_D" 4094 3 "0x60000FFE"])
      (simp_all add: MAXFILE_def BY2PG_def)
  then obtain t u where tu: "file_write ?srv 0 (of_nat (fd_va 0)) 0x500000 3 4094 file_proc = Done 3 t"
      "file_read (of_nat (fd_va 0)) 0x500100 3 4094 t = Done 3 u"
      "\<And>i. i < 3 \<Longrightarrow> pbyte u (0x500100 + of_nat i) = pbyte file_proc (0x500000 + of_nat i)"
    by auto
  have "pbyte u 0x500102 = 0x63"
    using tu(3) [of 2] loc(2) [of 2] by (simp add: pbyte_def file_proc_def frame_byte_def byte_of_def)
  then show ?thesis using tu by blast
qed

section \<open>The devices keep the contract of reading\<close>

lemma sint_le_uint: "sint (w :: u32) \<le> int (unat w)"
proof -
  have "take_bit 32 (uint w) \<le> uint w" by (simp add: take_bit_int_less_eq_self_iff)
  moreover have "sint w \<le> take_bit 32 (uint w)"
    by (simp add: sint_uint signed_take_bit_eq_take_bit_minus)
  ultimately show ?thesis by simp
qed

interpretation file_reader: reader file_read
proof
  fix fd buf n off s r t
  assume "file_read fd buf n off s = Done r t"
  moreover have "z - off \<le> n" if "z < off + n" "\<not> z < off" for z
  proof -
    have "unat off \<le> unat z" "unat z < unat (off + n)" using that by (simp_all add: word_less_nat_alt)
    moreover have "unat (off + n) \<le> unat off + unat n" by (simp add: unat_word_ariths)
    ultimately have "unat (z - off) \<le> unat n" by (simp add: unat_sub word_le_nat_alt)
    then show ?thesis by (simp add: word_le_nat_alt)
  qed
  ultimately consider "r = 0" | z where "r = sint z" "z \<le> n"
    by (fastforce simp: file_read_def Let_def bind_Done seq_Done retK_def split: if_splits)
  then show "r \<le> int (unat n)"
  proof cases
    case 2
    then show ?thesis using sint_le_uint [of z] by (simp add: word_le_def)
  qed simp
qed

interpretation cons_reader: reader cons_read
proof
  fix fd buf n off s r t
  assume h: "cons_read fd buf n off s = Done r t"
  show "r \<le> int (unat n)"
  proof (cases "n = 0")
    case True
    then show ?thesis using h by (simp add: cons_read_def retK_def)
  next
    case False
    then have "unat n \<noteq> 0" by (simp add: unsigned_eq_0_iff)
    then have "1 \<le> int (unat n)" by linarith
    moreover have "r \<le> 1"
    proof -
      obtain c s1 where "seqK (modifyK (\<lambda>s. s\<lparr>cout := cout s @ [if c \<noteq> 0x0D then c else 0x0A]\<rparr>))
          (if sint c < 0 then retK (sint c) else if c = 4 then retK 0 else seqK (p_stb buf c) (retK 1)) s1 = Done r t"
        using h False by (auto simp: cons_read_def bind_Done)
      then obtain s2 where
        "(if sint c < 0 then retK (sint c) else if c = 4 then retK 0 else seqK (p_stb buf c) (retK 1)) s2 = Done r t"
        by (auto simp: seq_Done)
      then show ?thesis by (auto simp: seq_Done retK_def split: if_splits)
    qed
    ultimately show ?thesis by simp
  qed
qed

text \<open>
  What a program's own access to memory and its wait for a key can end in. A loop of the model that
  runs out of its bound panics with a different message.
\<close>

definition fault_messages :: "string set" where
  "fault_messages = {''bad address'', ''out of memory'', ''write to a read-only page'', ''no input''}"

definition faults :: "('s, 'a) kprog \<Rightarrow> bool" where
  "faults m \<longleftrightarrow> (\<forall>s msg. m s = Panic msg \<longrightarrow> msg \<in> fault_messages) \<and> (\<forall>s t. m s \<noteq> Away t)"

lemma faults_bind: "faults m \<Longrightarrow> (\<And>a. faults (k a)) \<Longrightarrow> faults (bindK m k)"
  unfolding faults_def bindK_def by (auto split: outcome.splits)

lemma faults_intros:
  "faults (retK a)" "faults (getsK f)" "faults (modifyK g)"
  "faults m \<Longrightarrow> (\<And>a. faults (k a)) \<Longrightarrow> faults (bindK m k)"
  "faults m \<Longrightarrow> faults c \<Longrightarrow> faults (seqK m c)"
  "faults m \<Longrightarrow> faults m' \<Longrightarrow> faults (if b then m else m')"
  "faults (panicK ''bad address'')" "faults (panicK ''out of memory'')"
  "faults (panicK ''write to a read-only page'')" "faults (panicK ''no input'')"
  by (simp_all add: faults_bind seqK_def)
    (simp_all add: faults_def retK_def getsK_def modifyK_def panicK_def fault_messages_def)

lemma faults_cases:
  "(\<And>e. faults (f e)) \<Longrightarrow> (\<And>a. faults (g a)) \<Longrightarrow> faults (case x of Inl e \<Rightarrow> f e | Inr a \<Rightarrow> g a)"
  "faults m \<Longrightarrow> (\<And>a. faults (h a)) \<Longrightarrow> faults (case y of None \<Rightarrow> m | Some a \<Rightarrow> h a)"
  "faults m \<Longrightarrow> (\<And>a as. faults (l a as)) \<Longrightarrow> faults (case zs of [] \<Rightarrow> m | a # as \<Rightarrow> l a as)"
  "(\<And>a b. faults (q a b)) \<Longrightarrow> faults (case p of (a, b) \<Rightarrow> q a b)"
  by (simp_all split: sum.split option.split list.split prod.split)

lemmas faults_rules = faults_intros faults_cases

lemma faults_touch: "faults (p_touch va)"
  unfolding p_touch_def p_alloc_def by (intro faults_rules)

lemma faults_wtouch: "faults (p_wtouch va)"
  unfolding p_wtouch_def by (intro faults_rules faults_touch)

lemma faults_memory: "faults (p_ldw va)" "faults (p_stw va w)" "faults (p_ldb va)" "faults (p_stb va b)"
  unfolding p_ldw_def p_stw_def p_ldb_def p_stb_def
  by (intro faults_rules faults_touch faults_wtouch)+

lemma faults_copy: "faults (p_copy n dst src)"
  by (induction n arbitrary: dst src) (auto intro!: faults_rules faults_memory)

lemma faults_readers: "faults (file_read fd buf n off)" "faults (cons_read fd buf n off)"
  unfolding file_read_def cons_read_def cons_key_def Let_def
  by (intro faults_rules faults_memory faults_copy)+

lemma faults_dev:
  assumes "\<And>d. d \<in> set devtab \<Longrightarrow> faults (f d)"
  shows "faults (case dev_lookup devtab i of Inl e \<Rightarrow> retK (neg e) | Inr d \<Rightarrow> f d)"
  using assms dev_lookup_in by (cases "dev_lookup devtab i") (auto intro: faults_intros)

lemma faults_read:
  assumes "\<And>d fd buf n off. d \<in> set devtab \<Longrightarrow> faults (dev_read d fd buf n off)"
  shows "faults (read devtab fdnum buf n)"
  unfolding read_def with_dev_def with_fd_def fd_lookup_def advance_def
  by (intro faults_rules(4) faults_rules(6) faults_rules(1-3) faults_rules(11) faults_memory faults_dev faults_rules assms | assumption)+

lemma readn_loop_outcome:
  assumes rd: "\<And>d. d \<in> set devtab \<Longrightarrow> reader (dev_read d)"
    and ft: "\<And>d fd buf n off. d \<in> set devtab \<Longrightarrow> faults (dev_read d fd buf n off)"
  shows "unat (n - tot) < k \<Longrightarrow> \<not> n < tot \<Longrightarrow>
    (case readn_loop k devtab fdnum buf n tot s of Done r t \<Rightarrow> r \<le> int (unat n) | Away t \<Rightarrow> False
     | Panic msg \<Rightarrow> msg \<in> fault_messages)"
proof (induction k arbitrary: tot s)
  case 0
  then show ?case by simp
next
  case (Suc k)
  have le: "sint tot \<le> int (unat n)"
    using sint_le_uint [of tot] Suc.prems(2) unfolding word_less_nat_alt by linarith
  show ?case
  proof (cases "tot < n")
    case False
    with le show ?thesis by (simp add: run_rules)
  next
    case True
    let ?m = "read devtab fdnum (buf + tot) (n - tot)"
    have f: "faults ?m" by (rule faults_read) (rule ft)
    show ?thesis
    proof (cases "?m s")
      case (Done r t)
      show ?thesis
      proof (cases "0 < r")
        case pos: True
        obtain d fd off s' t' where d: "d \<in> set devtab" "dev_read d fd (buf + tot) (n - tot) off s' = Done r t'"
          using read_from_device [OF Done pos] by blast
        from reader.progress [OF rd [OF d(1)] d(2) True pos] Suc.prems(1) Suc.IH [of "tot + of_int r" t]
        show ?thesis using True Done pos by (simp add: run_rules)
      next
        case False
        with True Done le show ?thesis
          using order_less_le_trans [OF _ of_nat_0_le_iff, of r "unat n"] by (auto simp: run_rules simp del: int_nat_eq)
      qed
    next
      case (Panic msg)
      with f True show ?thesis by (simp add: faults_def run_rules)
    next
      case (Away t)
      with f show ?thesis by (simp add: faults_def)
    qed
  qed
qed

text \<open>
  C31. \<^verbatim>\<open>readn\<close> on files and the console comes to an end: its loop, which has no bound in the
  source, never takes more than \<open>n + 1\<close> turns. From every state it returns a count of at most \<open>n\<close> or
  an error code, unless the process faults on its own memory or waits for a key that is never
  pressed; it does not run out of turns, and with more turns it does the same.
\<close>

theorem readn_ends:
  assumes "unat n < k"
  shows "readn_loop k [devfile srv fb, devcons] fdnum buf n 0 s = readn [devfile srv fb, devcons] fdnum buf n s \<and>
    (case readn [devfile srv fb, devcons] fdnum buf n s of Done r t \<Rightarrow> r \<le> int (unat n) | Away t \<Rightarrow> False
     | Panic msg \<Rightarrow> msg \<in> fault_messages)"
proof -
  have r: "reader (dev_read d)" and f: "faults (dev_read d fd b m off)"
    if "d \<in> set [devfile srv fb, devcons]" for d fd b m off
    using that file_reader.reader_axioms cons_reader.reader_axioms faults_readers by (auto simp: devfile_def devcons_def)
  have "readn_loop k [devfile srv fb, devcons] fdnum buf n 0 s = readn [devfile srv fb, devcons] fdnum buf n s"
    using assms r by (auto simp: readn_def simp del: readn_loop.simps intro!: readn_fuel)
  moreover from readn_loop_outcome [OF r f, of "[devfile srv fb, devcons]" n 0 "Suc (unat n)" fdnum buf s]
  have "case readn [devfile srv fb, devcons] fdnum buf n s of Done r t \<Rightarrow> r \<le> int (unat n) | Away t \<Rightarrow> False
     | Panic msg \<Rightarrow> msg \<in> fault_messages" by (simp add: readn_def del: readn_loop.simps)
  ultimately show ?thesis ..
qed

text \<open>Two keys of a console, whose buffer is the page at \<open>0x500000\<close>.\<close>

definition cons_proc :: cproc where
  "cons_proc = \<lparr>upt = [fdvpn 0 \<mapsto> (1, PTE_V OR PTE_D), 0x500 \<mapsto> (2, PTE_V OR PTE_D)],
     frames = (\<lambda>f k. if f = 1 \<and> k = 0 then DEV_CONS else if f = 1 \<and> k = 2 then O_RDWR else 0),
     frefs = (\<lambda>f. 1), ffree = [], cin = [0x61, 0, 0x62], cout = []\<rparr>"

definition no_server :: "'x server" where "no_server _ _ _ = panicK ''no server''"

theorem readn_ends_witness:
  "readn_loop 9 [devfile no_server 0, devcons] 0 0x500000 2 0 cons_proc =
     readn [devfile no_server 0, devcons] 0 0x500000 2 cons_proc \<and>
   (case readn [devfile no_server 0, devcons] 0 0x500000 2 cons_proc of Done r t \<Rightarrow> r \<le> 2 | Away t \<Rightarrow> False
     | Panic msg \<Rightarrow> msg \<noteq> ''out of fuel'')"
  using readn_ends [of 2 9 no_server 0 0 "0x500000" cons_proc]
  by (auto simp: fault_messages_def split: outcome.splits)

end
