(* ===== verification/Path.thy ===== *)
theory Path
  imports Prelude
begin

text \<open>
  \<^verbatim>\<open>get_path\<close> of \<^verbatim>\<open>user/lib/file.c\<close>: the absolute form of a path, from the working
  directory when the path is relative. Strings are byte lists without the terminator. \<open>gp_stack\<close>
  is the part of \<^verbatim>\<open>stack\<close> up to \<^verbatim>\<open>top\<close>, \<open>gp_name\<close> the 128 bytes of \<^verbatim>\<open>name\<close>.
  \<^verbatim>\<open>name\<close> and \<^verbatim>\<open>p\<close> are not initialised, so their first contents are arguments. \<open>None\<close>
  stands for an access outside the arrays.
\<close>

definition SLASH :: u8 where "SLASH = 0x2F"
definition DOT :: u8 where "DOT = 0x2E"

record pstate =
  gp_name :: "u8 list"
  gp_p :: nat
  gp_stack :: "u8 list list"

definition put_char :: "u8 \<Rightarrow> pstate \<Rightarrow> pstate option" where
  "put_char c s = (if gp_p s < length (gp_name s)
     then Some (s\<lparr>gp_name := (gp_name s)[gp_p s := c], gp_p := gp_p s + 1\<rparr>) else None)"

text \<open>\<^verbatim>\<open>name[p] = 0; p = 0;\<close>\<close>

definition end_name :: "pstate \<Rightarrow> pstate option" where
  "end_name s = (if gp_p s < length (gp_name s)
     then Some (s\<lparr>gp_name := (gp_name s)[gp_p s := 0], gp_p := 0\<rparr>) else None)"

definition cstring :: "u8 list \<Rightarrow> u8 list" where "cstring bs = takeWhile (\<lambda>c. c \<noteq> 0) bs"

text \<open>\<^verbatim>\<open>top++; strcpy(stack[top], name);\<close>\<close>

definition push_name :: "pstate \<Rightarrow> pstate option" where
  "push_name s = (if length (gp_stack s) < 40 \<and> 0 \<in> set (gp_name s)
     then Some (s\<lparr>gp_stack := gp_stack s @ [cstring (gp_name s)]\<rparr>) else None)"

definition cwd_sep :: "pstate \<Rightarrow> pstate option" where
  "cwd_sep s = Option.bind (end_name s) (\<lambda>s. if gp_name s ! 0 \<noteq> 0 then push_name s else Some s)"

fun cwd_loop :: "u8 list \<Rightarrow> pstate \<Rightarrow> pstate option" where
  "cwd_loop [] s = Some s"
| "cwd_loop (c # cs) s = Option.bind (if c = SLASH then cwd_sep s else put_char c s) (cwd_loop cs)"

definition path_sep :: "pstate \<Rightarrow> pstate option" where
  "path_sep s = Option.bind (end_name s) (\<lambda>s.
     if cstring (gp_name s) = [DOT] then Some s
     else if cstring (gp_name s) = [DOT, DOT] then
       (if gp_stack s = [] then None else Some (s\<lparr>gp_stack := butlast (gp_stack s)\<rparr>))
     else if gp_name s ! 0 \<noteq> 0 then push_name s else Some s)"

fun path_loop :: "u8 list \<Rightarrow> pstate \<Rightarrow> pstate option" where
  "path_loop [] s = path_sep s"
| "path_loop (c # cs) s = Option.bind (if c = SLASH then path_sep s else put_char c s) (path_loop cs)"

text \<open>The loop that writes \<^verbatim>\<open>newpath\<close>.\<close>

definition render :: "u8 list list \<Rightarrow> u8 list" where
  "render st = SLASH # concat (map (\<lambda>c. c @ [SLASH]) st)"

definition get_path :: "u8 list \<Rightarrow> nat \<Rightarrow> u8 list \<Rightarrow> u8 list \<Rightarrow> u8 list option" where
  "get_path name p oldpath path =
     (let s = \<lparr>gp_name = name, gp_p = p, gp_stack = []\<rparr> in
      Option.bind (if path \<noteq> [] \<and> hd path = SLASH then Some s else cwd_loop oldpath s) (\<lambda>s.
      map_option (\<lambda>s. render (gp_stack s)) (path_loop path (s\<lparr>gp_p := 0\<rparr>))))"

section \<open>The specification\<close>

text \<open>The components between slashes, and one step of resolving them.\<close>

fun components :: "u8 list \<Rightarrow> u8 list list" where
  "components [] = [[]]"
| "components (c # cs) = (if c = SLASH then [] # components cs
     else (c # hd (components cs)) # tl (components cs))"

definition resolve1 :: "u8 list list \<Rightarrow> u8 list \<Rightarrow> u8 list list" where
  "resolve1 st c = (if c = [] \<or> c = [DOT] then st else if c = [DOT, DOT] then butlast st else st @ [c])"

text \<open>Components shorter than 128 bytes, at most 40 deep, that never climb above the root.\<close>

fun fits :: "u8 list list \<Rightarrow> u8 list list \<Rightarrow> bool" where
  "fits st [] = True"
| "fits st (c # cs) = (length c < 128 \<and> (c = [DOT, DOT] \<longrightarrow> st \<noteq> []) \<and> length (resolve1 st c) \<le> 40 \<and>
     fits (resolve1 st c) cs)"

section \<open>The scan\<close>

text \<open>The name buffer holds the bytes of the component read so far.\<close>

definition reading :: "u8 list \<Rightarrow> u8 list list \<Rightarrow> pstate \<Rightarrow> bool" where
  "reading w st s \<longleftrightarrow> length (gp_name s) = 128 \<and> gp_p s = length w \<and> length w \<le> 128 \<and>
     take (length w) (gp_name s) = w \<and> gp_stack s = st"

lemma components_nonempty [simp]: "components cs \<noteq> []"
  by (cases cs) auto

lemma reading_put: "reading w st s \<Longrightarrow> length w < 128 \<Longrightarrow>
    \<exists>t. put_char c s = Some t \<and> reading (w @ [c]) st t"
  by (auto simp: reading_def put_char_def take_Suc_conv_app_nth)

lemma cstring_terminated:
  assumes "take k bs = w" "k < length bs" "0 \<notin> set w" "k = length w"
  shows "cstring (bs[k := 0]) = w"
proof -
  have "bs[k := 0] = w @ 0 # drop (Suc k) bs"
    using assms by (simp add: upd_conv_take_nth_drop)
  then show ?thesis using assms(3) by (auto simp: cstring_def takeWhile_append)
qed

lemma cstring_nth0: "bs \<noteq> [] \<Longrightarrow> bs ! 0 \<noteq> 0 \<longleftrightarrow> cstring bs \<noteq> []"
  by (cases bs) (auto simp: cstring_def)

lemma reading_end:
  assumes "reading w st s" "length w < 128" "0 \<notin> set w"
  shows "\<exists>t. end_name s = Some t \<and> cstring (gp_name t) = w \<and> 0 \<in> set (gp_name t) \<and> reading [] st t"
  using assms cstring_terminated [of "length w" "gp_name s" w]
  by (auto simp: reading_def end_name_def intro: set_update_memI)

lemma reading_path_sep:
  assumes "reading w st s" "length w < 128" "0 \<notin> set w" "w = [DOT, DOT] \<longrightarrow> st \<noteq> []" "length (resolve1 st w) \<le> 40"
  shows "\<exists>t. path_sep s = Some t \<and> reading [] (resolve1 st w) t"
proof -
  obtain t where t: "end_name s = Some t" "cstring (gp_name t) = w" "0 \<in> set (gp_name t)" "reading [] st t"
    using reading_end [OF assms(1-3)] by auto
  have "gp_name t ! 0 \<noteq> 0 \<longleftrightarrow> w \<noteq> []"
  proof -
    have "gp_name t \<noteq> []" using t(4) by (auto simp: reading_def)
    then show ?thesis using t(2) cstring_nth0 by blast
  qed
  then show ?thesis
    using t assms(4, 5) by (auto simp: path_sep_def reading_def resolve1_def push_name_def split: if_splits)
qed

lemma path_loop_resolves:
  assumes "reading w st s" "0 \<notin> set w" "0 \<notin> set cs" "fits st ((w @ hd (components cs)) # tl (components cs))"
  shows "\<exists>t. path_loop cs s = Some t \<and> gp_stack t = foldl resolve1 st ((w @ hd (components cs)) # tl (components cs))"
  using assms
proof (induction cs arbitrary: w st s)
  case Nil
  then show ?case using reading_path_sep [of w st s] by (auto simp: reading_def)
next
  case (Cons c cs)
  show ?case
  proof (cases "c = SLASH")
    case True
    obtain t where t: "path_sep s = Some t" "reading [] (resolve1 st w) t"
      using reading_path_sep [of w st s] Cons.prems True by auto
    have "\<exists>u. path_loop cs t = Some u \<and> gp_stack u = foldl resolve1 (resolve1 st w) (components cs)"
      using Cons.IH [OF t(2)] Cons.prems True by (auto simp: hd_Cons_tl)
    then show ?thesis using t True by auto
  next
    case False
    have "length w < 128" using Cons.prems(4) False by auto
    then obtain t where t: "put_char c s = Some t" "reading (w @ [c]) st t"
      using reading_put Cons.prems(1) by blast
    then show ?thesis using Cons.IH [OF t(2)] Cons.prems False by auto
  qed
qed

section \<open>The working directory\<close>

lemma reading_name:
  assumes "reading w st s" "length w + length cs \<le> 127" "SLASH \<notin> set cs"
  shows "\<exists>t. cwd_loop (cs @ rest) s = cwd_loop rest t \<and> reading (w @ cs) st t"
  using assms
proof (induction cs arbitrary: w s)
  case Nil
  then show ?case by auto
next
  case (Cons c cs)
  obtain t where t: "put_char c s = Some t" "reading (w @ [c]) st t"
    using reading_put [of w st s c] Cons.prems by auto
  then show ?case using Cons.IH [OF t(2)] Cons.prems by auto
qed

lemma reading_cwd_sep:
  assumes "reading w st s" "length w < 128" "0 \<notin> set w" "length st < 40"
  shows "\<exists>t. cwd_sep s = Some t \<and> reading [] (if w = [] then st else st @ [w]) t"
proof -
  obtain t where t: "end_name s = Some t" "cstring (gp_name t) = w" "0 \<in> set (gp_name t)" "reading [] st t"
    using reading_end [OF assms(1-3)] by auto
  have "gp_name t ! 0 \<noteq> 0 \<longleftrightarrow> w \<noteq> []"
  proof -
    have "gp_name t \<noteq> []" using t(4) by (auto simp: reading_def)
    then show ?thesis using t(2) cstring_nth0 by blast
  qed
  then show ?thesis using t assms(4) by (auto simp: cwd_sep_def reading_def push_name_def)
qed

text \<open>A component that a path may have.\<close>

definition good_name :: "u8 list \<Rightarrow> bool" where
  "good_name c \<longleftrightarrow> c \<noteq> [] \<and> length c < 128 \<and> SLASH \<notin> set c \<and> 0 \<notin> set c"

lemma cwd_loop_names:
  assumes "reading [] st s" "\<forall>c\<in>set cwd. good_name c" "length st + length cwd \<le> 40"
  shows "\<exists>t. cwd_loop (concat (map (\<lambda>c. c @ [SLASH]) cwd)) s = Some t \<and> reading [] (st @ cwd) t"
  using assms
proof (induction cwd arbitrary: st s)
  case Nil
  then show ?case by auto
next
  case (Cons c cs)
  have c: "good_name c" using Cons.prems by simp
  obtain t where t: "cwd_loop (c @ SLASH # concat (map (\<lambda>c. c @ [SLASH]) cs)) s =
      cwd_loop (SLASH # concat (map (\<lambda>c. c @ [SLASH]) cs)) t" "reading c st t"
    using reading_name [OF Cons.prems(1), of c "SLASH # concat (map (\<lambda>c. c @ [SLASH]) cs)"] c
    by (auto simp: good_name_def)
  obtain u where u: "cwd_sep t = Some u" "reading [] (st @ [c]) u"
    using reading_cwd_sep [OF t(2)] c Cons.prems by (auto simp: good_name_def)
  show ?case using Cons.IH [OF u(2)] Cons.prems t(1) u(1) by auto
qed

lemma cwd_loop_render:
  assumes "reading [] [] s" "\<forall>c\<in>set cwd. good_name c" "length cwd \<le> 40"
  shows "\<exists>t. cwd_loop (render cwd) s = Some t \<and> reading [] cwd t"
proof -
  obtain t where t: "cwd_sep s = Some t" "reading [] [] t"
    using reading_cwd_sep [OF assms(1)] by auto
  then show ?thesis using cwd_loop_names [OF t(2)] assms by (auto simp: render_def)
qed

text \<open>
  C29. \<^verbatim>\<open>get_path\<close> returns the path that resolving the components from the root (or from
  the working directory, for a relative path) gives, with empty components and \<^verbatim>\<open>.\<close> skipped
  and \<^verbatim>\<open>..\<close> going up, for every path within the arrays' sizes that never climbs above the
  root. For a relative path this needs the uninitialised \<^verbatim>\<open>p\<close> to be 0.
\<close>

theorem get_path_resolves:
  assumes "length name = 128" "0 \<notin> set path"
    "path \<noteq> [] \<and> hd path = SLASH \<and> start = [] \<or>
     (path = [] \<or> hd path \<noteq> SLASH) \<and> p = 0 \<and> oldpath = render start \<and> length start \<le> 40 \<and>
       (\<forall>c\<in>set start. good_name c)"
    "fits start (components path)"
  shows "get_path name p oldpath path = Some (render (foldl resolve1 start (components path)))"
proof -
  let ?s = "\<lparr>gp_name = name, gp_p = p, gp_stack = []\<rparr>"
  have "\<exists>t. (if path \<noteq> [] \<and> hd path = SLASH then Some ?s else cwd_loop oldpath ?s) = Some t \<and>
      reading [] start (t\<lparr>gp_p := 0\<rparr>)"
    using assms(3)
  proof
    assume "path \<noteq> [] \<and> hd path = SLASH \<and> start = []"
    then show ?thesis using assms(1) by (auto simp: reading_def)
  next
    assume h: "(path = [] \<or> hd path \<noteq> SLASH) \<and> p = 0 \<and> oldpath = render start \<and> length start \<le> 40 \<and>
       (\<forall>c\<in>set start. good_name c)"
    then have "reading [] [] ?s" using assms(1) by (auto simp: reading_def)
    then obtain t where "cwd_loop oldpath ?s = Some t" "reading [] start t"
      using cwd_loop_render h by metis
    then show ?thesis using h by (auto simp: reading_def)
  qed
  then obtain t where t: "(if path \<noteq> [] \<and> hd path = SLASH then Some ?s else cwd_loop oldpath ?s) = Some t"
      "reading [] start (t\<lparr>gp_p := 0\<rparr>)" by auto
  obtain u where "path_loop path (t\<lparr>gp_p := 0\<rparr>) = Some u" "gp_stack u = foldl resolve1 start (components path)"
    using path_loop_resolves [OF t(2) _ assms(2)] assms(4) by (auto simp: hd_Cons_tl)
  then show ?thesis using t(1) by (simp add: get_path_def Let_def)
qed

text \<open>\<^verbatim>\<open>../b/./c\<close> from \<^verbatim>\<open>/u/a/\<close> is \<^verbatim>\<open>/u/b/c/\<close>.\<close>

theorem get_path_resolves_witness:
  "get_path (replicate 128 7) 0 (render [[0x75], [0x61]]) [0x2E, 0x2E, 0x2F, 0x62, 0x2F, 0x2E, 0x2F, 0x63] =
   Some (render [[0x75], [0x62], [0x63]])"
  using get_path_resolves [of "replicate 128 7" "[0x2E, 0x2E, 0x2F, 0x62, 0x2F, 0x2E, 0x2F, 0x63]"
      "[[0x75], [0x61]]" 0 "render [[0x75], [0x61]]"]
  by (simp add: SLASH_def DOT_def good_name_def resolve1_def)

end
