(* ===== verification/Shell_Lex.thy ===== *)
theory Shell_Lex
  imports Prelude
begin

text \<open>
  The shell's lexer, \<^verbatim>\<open>_gettoken\<close> and \<^verbatim>\<open>gettoken\<close> of \<^verbatim>\<open>user/sh.c\<close>, which cuts a
  command line into words and symbols in place. Pointers into the line are numbers, 0 is
  \<^verbatim>\<open>NULL\<close>; the line does not reach the end of the address space. A scan ends at the line's
  terminator; \<open>None\<close> stands for a scan that runs away because there is none.
\<close>

definition is_white :: "u8 \<Rightarrow> bool" where "is_white c \<longleftrightarrow> c \<in> {0x20, 0x09, 0x0D, 0x0A}"

definition is_symbol :: "u8 \<Rightarrow> bool" where
  "is_symbol c \<longleftrightarrow> c \<in> {0x3C, 0x7C, 0x3E, 0x26, 0x3B, 0x28, 0x29}"

definition QUOTE :: u8 where "QUOTE = 0x22"
definition WORD :: u8 where "WORD = 0x77"

partial_function (option) skip_white :: "(nat \<Rightarrow> u8) \<Rightarrow> nat \<Rightarrow> ((nat \<Rightarrow> u8) \<times> nat) option" where
  "skip_white m s = (if is_white (m s) then skip_white (m(s := 0)) (s + 1) else Some (m, s))"

partial_function (option) scan_quoted :: "(nat \<Rightarrow> u8) \<Rightarrow> nat \<Rightarrow> nat option" where
  "scan_quoted m s = (if m s \<noteq> 0 \<and> m s \<noteq> QUOTE then scan_quoted m (s + 1) else Some s)"

partial_function (option) scan_word :: "(nat \<Rightarrow> u8) \<Rightarrow> nat \<Rightarrow> nat option" where
  "scan_word m s = (if m s \<noteq> 0 \<and> \<not> (is_white (m s) \<or> is_symbol (m s)) then scan_word m (s + 1) else Some s)"

text \<open>The result is the buffer, the token's kind, \<^verbatim>\<open>*p1\<close> and \<^verbatim>\<open>*p2\<close>.\<close>

definition gettoken1 :: "(nat \<Rightarrow> u8) \<Rightarrow> nat \<Rightarrow> ((nat \<Rightarrow> u8) \<times> u8 \<times> nat \<times> nat) option" where
  "gettoken1 m s =
     (if s = 0 then Some (m, 0, 0, 0)
      else Option.bind (skip_white m s) (\<lambda>(m, s).
        if m s = 0 then Some (m, 0, 0, 0)
        else if m s = QUOTE then
          (let m = m(s := 0); p1 = s + 1 in
           Option.bind (scan_quoted m p1) (\<lambda>s.
           if m s = 0 then Some (m, 0, p1, 0) else Some (m(s := 0), WORD, p1, s + 1)))
        else if is_symbol (m s) then Some (m(s := 0), m s, s, s + 1)
        else Option.bind (scan_word m s) (\<lambda>e. Some (m, WORD, s, e))))"

text \<open>The static variables of \<^verbatim>\<open>gettoken\<close> with the buffer.\<close>

record lexer =
  lbuf :: "nat \<Rightarrow> u8"
  nc :: u8
  np1 :: nat
  np2 :: nat

definition gettoken :: "nat \<Rightarrow> lexer \<Rightarrow> (u8 \<times> nat \<times> lexer) option" where
  "gettoken s x =
     (if s \<noteq> 0 then Option.bind (gettoken1 (lbuf x) s) (\<lambda>(m, k, p1, p2).
        Some (0, 0, x\<lparr>lbuf := m, nc := k, np1 := p1, np2 := p2\<rparr>))
      else Option.bind (gettoken1 (lbuf x) (np2 x)) (\<lambda>(m, k, p1, p2).
        Some (nc x, np1 x, x\<lparr>lbuf := m, nc := k, np1 := p1, np2 := p2\<rparr>)))"

text \<open>Taking tokens until there are no more, as the loop of \<^verbatim>\<open>parsecmd\<close> does.\<close>

fun take_tokens :: "nat \<Rightarrow> lexer \<Rightarrow> ((u8 \<times> nat) list \<times> lexer) option" where
  "take_tokens 0 x = None"
| "take_tokens (Suc k) x = Option.bind (gettoken 0 x) (\<lambda>(c, p1, x).
     if c = 0 then Some ([], x)
     else map_option (\<lambda>(ts, x). ((c, p1) # ts, x)) (take_tokens k x))"

section \<open>The specification\<close>

definition word_char :: "u8 \<Rightarrow> bool" where "word_char c \<longleftrightarrow> \<not> is_white c \<and> \<not> is_symbol c"

text \<open>The first token of a string: its kind, its text and the rest of the string.\<close>

definition lex1 :: "u8 list \<Rightarrow> (u8 \<times> u8 list \<times> u8 list) option" where
  "lex1 cs = (case dropWhile is_white cs of
       [] \<Rightarrow> None
     | c # r \<Rightarrow>
         if c = QUOTE then (case dropWhile (\<lambda>c. c \<noteq> QUOTE) r of
             [] \<Rightarrow> None
           | _ # r' \<Rightarrow> Some (WORD, takeWhile (\<lambda>c. c \<noteq> QUOTE) r, r'))
         else if is_symbol c then Some (c, [c], r)
         else Some (WORD, takeWhile word_char (c # r), dropWhile word_char (c # r)))"

lemma dropWhile_shorter: "dropWhile P cs = c # r \<Longrightarrow> length r < length cs"
  by (metis length_dropWhile_le impossible_Cons leI order.trans)

lemma lex1_shorter: "lex1 cs = Some (k, w, r) \<Longrightarrow> length r < length cs"
proof -
  assume h: "lex1 cs = Some (k, w, r)"
  then obtain c t where t: "dropWhile is_white cs = c # t" by (auto simp: lex1_def split: list.splits)
  have "length t < length cs" using dropWhile_shorter [OF t] .
  moreover have "length r \<le> length t"
  proof (cases "c = QUOTE")
    case True
    then obtain d where "dropWhile (\<lambda>c. c \<noteq> QUOTE) t = d # r"
      using h t by (auto simp: lex1_def split: list.splits)
    then show ?thesis using dropWhile_shorter by fastforce
  next
    case False
    have "\<not> is_white c" using t by (metis hd_dropWhile list.distinct(1) list.sel(1))
    then show ?thesis
      using h t False length_dropWhile_le [of word_char t]
      by (auto simp: lex1_def word_char_def split: if_splits)
  qed
  ultimately show ?thesis by simp
qed

function lex_all :: "u8 list \<Rightarrow> (u8 \<times> u8 list) list" where
  "lex_all cs = (case lex1 cs of None \<Rightarrow> [] | Some (k, w, r) \<Rightarrow> (k, w) # lex_all r)"
  by pat_completeness auto
termination by (relation "measure length") (auto simp: lex1_shorter)

declare lex_all.simps [simp del]

end
