(* ===== verification/Shell_Lex_Thms.thy ===== *)
theory Shell_Lex_Thms
  imports Shell_Lex
begin

text \<open>The lexer cuts a line into the tokens of its specification and terminates every word.\<close>

section \<open>Strings in the buffer\<close>

definition text_at :: "(nat \<Rightarrow> u8) \<Rightarrow> nat \<Rightarrow> u8 list \<Rightarrow> bool" where
  "text_at m p w \<longleftrightarrow> (\<forall>i < length w. m (p + i) = w ! i) \<and> 0 \<notin> set w"

definition str_at :: "(nat \<Rightarrow> u8) \<Rightarrow> nat \<Rightarrow> u8 list \<Rightarrow> bool" where
  "str_at m p w \<longleftrightarrow> text_at m p w \<and> m (p + length w) = 0"

lemma text_Nil [simp]: "text_at m p []"
  by (simp add: text_at_def)

lemma text_Cons: "text_at m p (c # cs) \<longleftrightarrow> m p = c \<and> c \<noteq> 0 \<and> text_at m (Suc p) cs"
  by (auto simp: text_at_def nth_Cons less_Suc_eq_0_disj all_conj_distrib split: nat.splits)

lemma str_Nil: "str_at m p [] \<longleftrightarrow> m p = 0"
  by (simp add: str_at_def)

lemma str_Cons: "str_at m p (c # cs) \<longleftrightarrow> m p = c \<and> c \<noteq> 0 \<and> str_at m (Suc p) cs"
  by (auto simp: str_at_def text_Cons)

lemma text_cong: "(\<And>a. p \<le> a \<Longrightarrow> a < p + length w \<Longrightarrow> m' a = m a) \<Longrightarrow> text_at m' p w = text_at m p w"
  by (simp add: text_at_def)

lemma str_upd_before: "a < p \<Longrightarrow> str_at (m(a := x)) p w = str_at m p w"
  by (simp add: str_at_def text_at_def)

lemma text_upd_before: "a < p \<Longrightarrow> text_at (m(a := x)) p w = text_at m p w"
  by (simp add: text_at_def)

lemma white_0 [simp]: "\<not> is_white 0" and symbol_0 [simp]: "\<not> is_symbol 0" and quote_0 [simp]: "QUOTE \<noteq> 0"
  by (simp_all add: is_white_def is_symbol_def QUOTE_def)

lemma kinds: "is_symbol c \<Longrightarrow> \<not> is_white c \<and> c \<noteq> QUOTE \<and> c \<noteq> WORD" "\<not> is_white QUOTE" "\<not> is_symbol QUOTE" "WORD \<noteq> 0"
  by (auto simp: is_white_def is_symbol_def QUOTE_def WORD_def)

section \<open>The scans\<close>

text \<open>Where the scan stops: the rest of the string, with everything before \<open>s\<close> unchanged.\<close>

lemma skip_white_run:
  "str_at m s cs \<Longrightarrow> \<exists>m' e. skip_white m s = Some (m', e) \<and> s \<le> e \<and>
     str_at m' e (dropWhile is_white cs) \<and> (\<forall>a < s. m' a = m a) \<and>
     (cs \<noteq> [] \<and> is_white (hd cs) \<longrightarrow> s < e \<and> m' s = 0) \<and>
     (\<not> (cs \<noteq> [] \<and> is_white (hd cs)) \<longrightarrow> e = s \<and> m' = m)"
proof (induction cs arbitrary: m s)
  case Nil
  then show ?case by (subst skip_white.simps) (auto simp: str_Nil)
next
  case (Cons c cs)
  show ?case
  proof (cases "is_white c")
    case False
    then show ?thesis using Cons.prems by (subst skip_white.simps) (auto simp: str_Cons)
  next
    case True
    have "str_at (m(s := 0)) (Suc s) cs" using Cons.prems by (simp add: str_Cons str_upd_before)
    from Cons.IH [OF this] obtain m' e where e: "skip_white (m(s := 0)) (Suc s) = Some (m', e)" "Suc s \<le> e"
        "str_at m' e (dropWhile is_white cs)" "\<forall>a < Suc s. m' a = (m(s := 0)) a" by blast
    have "skip_white m s = Some (m', e)"
      using e(1) True Cons.prems by (subst skip_white.simps) (simp add: str_Cons)
    then show ?thesis using e True by auto
  qed
qed

lemma scan_quoted_run:
  "str_at m s cs \<Longrightarrow> scan_quoted m s = Some (s + length (takeWhile (\<lambda>c. c \<noteq> QUOTE) cs))"
proof (induction cs arbitrary: s)
  case Nil
  then show ?case by (subst scan_quoted.simps) (simp add: str_Nil)
next
  case (Cons c cs)
  then show ?case by (subst scan_quoted.simps) (simp add: str_Cons)
qed

lemma scan_word_run:
  "str_at m s cs \<Longrightarrow> scan_word m s = Some (s + length (takeWhile word_char cs))"
proof (induction cs arbitrary: s)
  case Nil
  then show ?case by (subst scan_word.simps) (simp add: str_Nil)
next
  case (Cons c cs)
  then show ?case by (subst scan_word.simps) (simp add: str_Cons word_char_def [abs_def])
qed

lemma str_append: "str_at m p (u @ v) \<longleftrightarrow> text_at m p u \<and> str_at m (p + length u) v"
  by (induction u arbitrary: p) (auto simp: str_Cons text_Cons)

lemma str_split: "str_at m p cs \<Longrightarrow> text_at m p (takeWhile P cs) \<and> str_at m (p + length (takeWhile P cs)) (dropWhile P cs)"
  using str_append [of m p "takeWhile P cs" "dropWhile P cs"] by simp

section \<open>One token\<close>

text \<open>A word may end here: the next call puts a terminator at the first of these characters.\<close>

definition ends_word :: "u8 list \<Rightarrow> bool" where
  "ends_word cs \<longleftrightarrow> (cs = [] \<or> is_white (hd cs) \<or> is_symbol (hd cs))"

lemma gettoken1_end:
  assumes "str_at m s cs" "0 < s" "lex1 cs = None"
  shows "\<exists>m' p1. gettoken1 m s = Some (m', 0, p1, 0) \<and> (\<forall>a < s. m' a = m a) \<and> (ends_word cs \<longrightarrow> m' s = 0)"
proof -
  obtain m1 e where e: "skip_white m s = Some (m1, e)" "s \<le> e" "str_at m1 e (dropWhile is_white cs)"
      "\<forall>a < s. m1 a = m a" "cs \<noteq> [] \<and> is_white (hd cs) \<longrightarrow> s < e \<and> m1 s = 0"
      "\<not> (cs \<noteq> [] \<and> is_white (hd cs)) \<longrightarrow> e = s \<and> m1 = m"
    using skip_white_run [OF assms(1)] by blast
  show ?thesis
  proof (cases "dropWhile is_white cs")
    case Nil
    have "m1 e = 0" using e(3) unfolding Nil by (simp add: str_Nil)
    then have "gettoken1 m s = Some (m1, 0, 0, 0)" using e(1) assms(2) by (simp add: gettoken1_def)
    moreover have "m1 s = 0" using e(5, 6) \<open>m1 e = 0\<close> by blast
    ultimately show ?thesis using e(4) by blast
  next
    case (Cons c r)
    then have c: "c = QUOTE" "dropWhile (\<lambda>c. c \<noteq> QUOTE) r = []"
      using assms(3) by (auto simp: lex1_def split: if_splits list.splits)
    have r: "m1 e = QUOTE" "str_at m1 (Suc e) r" using e(3) Cons c(1) by (simp_all add: str_Cons)
    let ?m = "m1(e := 0)"
    have r': "str_at ?m (Suc e) r" using r(2) by (simp add: str_upd_before)
    have tw: "takeWhile (\<lambda>c. c \<noteq> QUOTE) r = r" using c(2) by (simp add: takeWhile_eq_all_conv dropWhile_eq_Nil_conv)
    then have "scan_quoted ?m (Suc e) = Some (Suc e + length r)" "?m (Suc e + length r) = 0"
      using scan_quoted_run [OF r'] r' unfolding tw by (simp_all add: str_at_def)
    then have "gettoken1 m s = Some (?m, 0, Suc e, 0)"
      using e(1) assms(2) r(1) by (simp add: gettoken1_def Let_def)
    moreover have "\<forall>a < s. ?m a = m a" using e(2, 4) by auto
    moreover have "ends_word cs \<longrightarrow> ?m s = 0"
      using e(5, 6) Cons c(1) kinds(2, 3) by (cases cs) (auto simp: ends_word_def split: if_splits)
    ultimately show ?thesis by blast
  qed
qed

text \<open>The token's text in the buffer, terminated now or by the next call.\<close>

definition word_at :: "(nat \<Rightarrow> u8) \<Rightarrow> nat \<Rightarrow> u8 list \<Rightarrow> nat \<Rightarrow> u8 list \<Rightarrow> bool" where
  "word_at m p1 w p2 r \<longleftrightarrow> text_at m p1 w \<and>
     (m (p1 + length w) = 0 \<and> p1 + length w < p2 \<or> p1 + length w = p2 \<and> ends_word r)"

lemma gettoken1_token:
  assumes "str_at m s cs" "0 < s" "lex1 cs = Some (k, w, r)"
  shows "\<exists>m' p1 p2. gettoken1 m s = Some (m', k, p1, p2) \<and> s < p2 \<and> str_at m' p2 r \<and> k \<noteq> 0 \<and>
    (\<forall>a < s. m' a = m a) \<and> (ends_word cs \<longrightarrow> m' s = 0) \<and> (k = WORD \<longrightarrow> word_at m' p1 w p2 r)"
proof -
  obtain m1 e where e: "skip_white m s = Some (m1, e)" "s \<le> e" "str_at m1 e (dropWhile is_white cs)"
      "\<forall>a < s. m1 a = m a" "cs \<noteq> [] \<and> is_white (hd cs) \<longrightarrow> s < e \<and> m1 s = 0"
      "\<not> (cs \<noteq> [] \<and> is_white (hd cs)) \<longrightarrow> e = s \<and> m1 = m"
    using skip_white_run [OF assms(1)] by blast
  obtain c t where ct: "dropWhile is_white cs = c # t"
    using assms(3) by (auto simp: lex1_def split: list.splits)
  have c: "m1 e = c" "c \<noteq> 0" "str_at m1 (Suc e) t" "\<not> is_white c"
    using e(3) ct hd_dropWhile [of is_white cs] by (simp_all add: str_Cons)
  have hd: "e = s \<longrightarrow> cs = c # t" using e(5) ct by (cases cs) (simp_all split: if_splits)
  have ms: "m1 s = 0" if "e \<noteq> s" using e(5, 6) that by blast
  consider (quoted) "c = QUOTE" | (symbol) "c \<noteq> QUOTE" "is_symbol c" | (word) "c \<noteq> QUOTE" "\<not> is_symbol c"
    by blast
  then show ?thesis
  proof cases
    case quoted
    then obtain d where d: "dropWhile (\<lambda>c. c \<noteq> QUOTE) t = d # r" "k = WORD" "w = takeWhile (\<lambda>c. c \<noteq> QUOTE) t"
      using assms(3) ct by (auto simp: lex1_def split: list.splits)
    let ?m = "m1(e := 0)" and ?q = "Suc e + length w"
    have t: "str_at ?m (Suc e) t" using c(3) by (simp add: str_upd_before)
    have s: "text_at ?m (Suc e) w" "?m ?q = d" "d \<noteq> 0" "str_at ?m (Suc ?q) r"
      using str_split [OF t, of "\<lambda>c. c \<noteq> QUOTE"] d by (simp_all add: str_Cons)
    have "gettoken1 m s = Some (?m(?q := 0), WORD, Suc e, Suc ?q)"
      using e(1) assms(2) c quoted scan_quoted_run [OF t] s d by (simp add: gettoken1_def Let_def)
    moreover have "word_at (?m(?q := 0)) (Suc e) w (Suc ?q) r"
      using s(1) by (auto simp: word_at_def text_at_def)
    moreover have "str_at (?m(?q := 0)) (Suc ?q) r" using s(4) by (simp add: str_upd_before)
    moreover have "\<forall>a < s. (?m(?q := 0)) a = m a" using e(2, 4) by (intro allI impI) simp
    moreover have "ends_word cs \<longrightarrow> (?m(?q := 0)) s = 0"
    proof (cases "e = s")
      case True
      then show ?thesis using hd quoted kinds(2, 3) by (simp add: ends_word_def)
    next
      case False
      then show ?thesis using ms by simp
    qed
    ultimately show ?thesis using d(2) e(2) kinds(4) by - (rule exI [of _ "?m(?q := 0)"], rule exI [of _ "Suc e"], rule exI [of _ "Suc ?q"], simp)
  next
    case symbol
    then have d: "k = c" "r = t" using assms(3) ct by (auto simp: lex1_def)
    have "gettoken1 m s = Some (m1(e := 0), c, e, Suc e)"
      using e(1) assms(2) c symbol by (simp add: gettoken1_def)
    moreover have "str_at (m1(e := 0)) (Suc e) r" using c(3) d by (simp add: str_upd_before)
    moreover have "\<forall>a < s. (m1(e := 0)) a = m a" using e(2, 4) by auto
    moreover have "ends_word cs \<longrightarrow> (m1(e := 0)) s = 0" using ms by simp
    ultimately show ?thesis
      using d c(2) e(2) kinds(1) [OF symbol(2)] by - (rule exI [of _ "m1(e := 0)"], rule exI [of _ e], rule exI [of _ "Suc e"], simp)
  next
    case word
    then have d: "k = WORD" "w = takeWhile word_char (c # t)" "r = dropWhile word_char (c # t)"
      using assms(3) ct by (auto simp: lex1_def)
    have ct1: "str_at m1 e (c # t)" using e(3) ct by simp
    have "gettoken1 m s = Some (m1, WORD, e, e + length w)"
      using e(1) assms(2) c word scan_word_run [OF ct1] d(2) by (simp add: gettoken1_def)
    moreover have "text_at m1 e w" "str_at m1 (e + length w) r" using str_split [OF ct1, of word_char] d by simp_all
    moreover have "ends_word r"
    proof (cases "r = []")
      case False
      then have "\<not> word_char (hd r)" using hd_dropWhile d(3) by metis
      then show ?thesis unfolding ends_word_def word_char_def by blast
    qed (simp add: ends_word_def)
    moreover have "s < e + length w" using e(2) d(2) word(2) c(4) by (simp add: word_char_def)
    moreover have "ends_word cs \<longrightarrow> m1 s = 0"
    proof (cases "e = s")
      case True
      then show ?thesis using hd word c(4) by (simp add: ends_word_def)
    next
      case False
      then show ?thesis using ms by simp
    qed
    ultimately show ?thesis
      using d(1) e(2, 4) kinds(4) by - (rule exI [of _ m1], rule exI [of _ e], rule exI [of _ "e + length w"], simp add: word_at_def)
  qed
qed

section \<open>The whole line\<close>

text \<open>The token that the next call will return is the first one of \<open>cs\<close>.\<close>

definition pending :: "lexer \<Rightarrow> u8 list \<Rightarrow> bool" where
  "pending x cs \<longleftrightarrow> (case lex1 cs of
      None \<Rightarrow> nc x = 0 \<and> np2 x = 0
    | Some (k, w, r) \<Rightarrow> nc x = k \<and> k \<noteq> 0 \<and> 0 < np2 x \<and> str_at (lbuf x) (np2 x) r \<and>
        (k = WORD \<longrightarrow> word_at (lbuf x) (np1 x) w (np2 x) r))"

lemma gettoken1_pending:
  assumes "str_at (lbuf x) s cs" "0 < s"
  shows "\<exists>m k p1 p2. gettoken1 (lbuf x) s = Some (m, k, p1, p2) \<and>
    pending (x\<lparr>lbuf := m, nc := k, np1 := p1, np2 := p2\<rparr>) cs \<and> (\<forall>a < s. m a = lbuf x a) \<and>
    (ends_word cs \<longrightarrow> m s = 0) \<and> (p2 \<noteq> 0 \<longrightarrow> s < p2)"
proof (cases "lex1 cs")
  case None
  then show ?thesis using gettoken1_end [OF assms None] by (auto simp: pending_def)
next
  case (Some q)
  obtain k w r where "q = (k, w, r)" by (cases q)
  then show ?thesis using gettoken1_token [OF assms] Some assms(2) by (fastforce simp: pending_def)
qed

lemma take_tokens_run:
  assumes "pending x cs" "length cs < n"
  shows "\<exists>ts y. take_tokens n x = Some (ts, y) \<and> map fst ts = map fst (lex_all cs) \<and>
    (\<forall>a. np2 x = 0 \<or> a < np2 x \<longrightarrow> lbuf y a = lbuf x a) \<and>
    (\<forall>i < length ts. fst (ts ! i) = WORD \<longrightarrow> str_at (lbuf y) (snd (ts ! i)) (snd (lex_all cs ! i)))"
  using assms
proof (induction n arbitrary: x cs)
  case 0
  then show ?case by simp
next
  case (Suc n)
  show ?case
  proof (cases "lex1 cs")
    case None
    then have "lex_all cs = []" by (subst lex_all.simps) simp
    then show ?thesis
      using Suc.prems(1) None by (simp add: pending_def gettoken_def gettoken1_def)
  next
    case (Some q)
    then obtain k w r where q: "lex1 cs = Some (k, w, r)" by (cases q) auto
    have all: "lex_all cs = (k, w) # lex_all r" using q by (subst lex_all.simps) simp
    have x: "nc x = k" "k \<noteq> 0" "0 < np2 x" "str_at (lbuf x) (np2 x) r"
      "k = WORD \<longrightarrow> word_at (lbuf x) (np1 x) w (np2 x) r"
      using Suc.prems(1) q by (simp_all add: pending_def)
    obtain m k' p1 p2 where g: "gettoken1 (lbuf x) (np2 x) = Some (m, k', p1, p2)"
        "pending (x\<lparr>lbuf := m, nc := k', np1 := p1, np2 := p2\<rparr>) r" (is "pending ?y r")
        "\<And>a. a < np2 x \<Longrightarrow> m a = lbuf x a" "ends_word r \<longrightarrow> m (np2 x) = 0" "p2 \<noteq> 0 \<longrightarrow> np2 x < p2"
      using gettoken1_pending [OF x(4, 3)] by blast
    have "length r < n" using lex1_shorter [OF q] Suc.prems(2) by simp
    then obtain ts z where z: "take_tokens n ?y = Some (ts, z)" "map fst ts = map fst (lex_all r)"
        "\<And>a. p2 = 0 \<or> a < p2 \<Longrightarrow> lbuf z a = m a"
        "\<And>i. i < length ts \<Longrightarrow> fst (ts ! i) = WORD \<Longrightarrow> str_at (lbuf z) (snd (ts ! i)) (snd (lex_all r ! i))"
      using Suc.IH [OF g(2)] by auto
    have "take_tokens (Suc n) x = Some ((k, np1 x) # ts, z)"
      using g(1) x(1, 2) z(1) by (simp add: gettoken_def)
    moreover have "lbuf z a = lbuf x a" if "a < np2 x" for a
      using z(3) [of a] g(3, 5) that by auto
    moreover have "str_at (lbuf z) (np1 x) w" if "k = WORD"
    proof -
      have w: "word_at (lbuf x) (np1 x) w (np2 x) r" using x(5) that by simp
      then have keep: "lbuf z a = lbuf x a" if "a < np1 x + length w" for a
        using z(3) [of a] g(3, 5) that by (auto simp: word_at_def)
      then have "text_at (lbuf z) (np1 x) w"
        using w text_cong [of "np1 x" w "lbuf z" "lbuf x"] by (simp add: word_at_def)
      moreover have "lbuf z (np1 x + length w) = 0"
      proof (cases "np1 x + length w < np2 x")
        case True
        then have "lbuf z (np1 x + length w) = lbuf x (np1 x + length w)"
          using z(3) [of "np1 x + length w"] g(3, 5) by auto
        then show ?thesis using w True by (auto simp: word_at_def)
      next
        case False
        then have "np1 x + length w = np2 x" "ends_word r" using w by (auto simp: word_at_def)
        then show ?thesis using z(3) [of "np2 x"] g(4, 5) by auto
      qed
      ultimately show ?thesis by (simp add: str_at_def)
    qed
    ultimately show ?thesis
      using z(2, 4) all x(3) by (auto simp: nth_Cons split: nat.split)
  qed
qed

text \<open>
  C30. Giving a line to the lexer and taking tokens until there are no more gives the kinds of the
  tokens that the specification finds, in order, and every word is in the buffer as a terminated
  string with its text, whatever quotes, blanks and symbols surround it.
\<close>

theorem lexer_correct:
  assumes "str_at (lbuf x) s cs" "0 < s"
  shows "\<exists>y ts z. gettoken s x = Some (0, 0, y) \<and> take_tokens (Suc (length cs)) y = Some (ts, z) \<and>
    map fst ts = map fst (lex_all cs) \<and>
    (\<forall>i < length ts. fst (ts ! i) = WORD \<longrightarrow> str_at (lbuf z) (snd (ts ! i)) (snd (lex_all cs ! i)))"
proof -
  obtain m k p1 p2 where g: "gettoken1 (lbuf x) s = Some (m, k, p1, p2)"
      "pending (x\<lparr>lbuf := m, nc := k, np1 := p1, np2 := p2\<rparr>) cs"
    using gettoken1_pending [OF assms] by blast
  then have "gettoken s x = Some (0, 0, x\<lparr>lbuf := m, nc := k, np1 := p1, np2 := p2\<rparr>)"
    using assms(2) by (simp add: gettoken_def)
  then show ?thesis using take_tokens_run [OF g(2), of "Suc (length cs)"] by blast
qed

text \<open>The line \<^verbatim>\<open>a<"b c"\<close> at address 100.\<close>

definition demo_line :: "u8 list" where "demo_line = [0x61, 0x3C, 0x22, 0x62, 0x20, 0x63, 0x22]"

definition demo_lexer :: lexer where
  "demo_lexer = \<lparr>lbuf = (\<lambda>a. if 100 \<le> a \<and> a < 107 then demo_line ! (a - 100) else 0), nc = 0, np1 = 0, np2 = 0\<rparr>"

theorem lexer_correct_witness:
  "\<exists>y ts z. gettoken 100 demo_lexer = Some (0, 0, y) \<and> take_tokens 8 y = Some (ts, z) \<and>
    map fst ts = [WORD, 0x3C, WORD] \<and> str_at (lbuf z) (snd (ts ! 2)) [0x62, 0x20, 0x63]"
proof -
  have s: "str_at (lbuf demo_lexer) 100 demo_line"
    by (auto simp: str_at_def text_at_def demo_lexer_def demo_line_def)
  have "is_white 0x61 = False" "is_symbol 0x61 = False" "is_white 0x3C = False" "is_symbol 0x3C = True"
    "is_white 0x22 = False" "is_symbol 0x22 = False"
    by (auto simp: is_white_def is_symbol_def)
  then have l: "lex_all demo_line = [(WORD, [0x61]), (0x3C, [0x3C]), (WORD, [0x62, 0x20, 0x63])]"
    by (simp add: demo_line_def lex_all.simps lex1_def word_char_def QUOTE_def)
  have n: "Suc (length demo_line) = 8" by (simp add: demo_line_def)
  obtain y ts z where t: "gettoken 100 demo_lexer = Some (0, 0, y)" "take_tokens 8 y = Some (ts, z)"
      "map fst ts = map fst (lex_all demo_line)"
      "\<forall>i < length ts. fst (ts ! i) = WORD \<longrightarrow> str_at (lbuf z) (snd (ts ! i)) (snd (lex_all demo_line ! i))"
    using lexer_correct [OF s, unfolded n] by auto
  have "length ts = 3" "map fst ts ! 2 = WORD" using t(3) l by (auto dest: arg_cong [of _ _ length])
  then have "str_at (lbuf z) (snd (ts ! 2)) [0x62, 0x20, 0x63]" using t(4) [rule_format, of 2] l by simp
  then show ?thesis using t l by auto
qed

end
