(* ===== verification/Fsformat.thy ===== *)
theory Fsformat
  imports Prelude
begin

text \<open>
  \<^verbatim>\<open>tools/fsformat.c\<close>, the program that builds the disk image. A block is a frame of 1024
  little-endian words, as on the host. A \<^verbatim>\<open>struct File *\<close> is the block it lies in (\<open>None\<close>
  for \<^verbatim>\<open>super\<close>) and its first word; fields are at fixed word offsets. Writing past
  \<^verbatim>\<open>disk[NBLOCK]\<close> stops the model, as does a failed \<^verbatim>\<open>assert\<close>.

  The host's files are the argument of \<open>format_disk\<close>: for each argument of \<^verbatim>\<open>main\<close> its path
  and its contents, a directory with the entries in the order of \<^verbatim>\<open>readdir\<close>. The image is the
  array of blocks that \<^verbatim>\<open>finish_fs\<close> writes out.
\<close>

definition NBLOCK :: nat where "NBLOCK = 1024"
definition NDIRECT :: nat where "NDIRECT = 10"
definition NINDIRECT :: nat where "NINDIRECT = 1024"
definition BITBLK :: nat where "BITBLK = 32768"
definition FILE2BLK :: nat where "FILE2BLK = 16"
definition FS_MAGIC :: u32 where "FS_MAGIC = 0x68286097"

datatype block_type = BLOCK_FREE | BLOCK_BOOT | BLOCK_BMAP | BLOCK_SUPER | BLOCK_DATA | BLOCK_FILE | BLOCK_INDEX

record image =
  blk :: "nat \<Rightarrow> frame"
  btype :: "nat \<Rightarrow> block_type"
  nextbno :: nat
  superblk :: frame

type_synonym 'a fmtM = "(image, 'a) kprog"
type_synonym fptr = "nat option \<times> nat"

definition root :: fptr where "root = (None, 2)"

definition frame_of :: "image \<Rightarrow> nat option \<Rightarrow> frame" where
  "frame_of s b = (case b of None \<Rightarrow> superblk s | Some n \<Rightarrow> blk s n)"

definition set_frame :: "nat option \<Rightarrow> frame \<Rightarrow> image \<Rightarrow> image" where
  "set_frame b fr s = (case b of None \<Rightarrow> s\<lparr>superblk := fr\<rparr> | Some n \<Rightarrow> s\<lparr>blk := (blk s)(n := fr)\<rparr>)"

text \<open>Word \<open>i\<close> of the file structure, and the words that the fields are.\<close>

definition fld :: "image \<Rightarrow> fptr \<Rightarrow> nat \<Rightarrow> u32" where
  "fld s f i = frame_of s (fst f) (snd f + i)"

definition set_fld :: "fptr \<Rightarrow> nat \<Rightarrow> u32 \<Rightarrow> image \<Rightarrow> image" where
  "set_fld f i w s = set_frame (fst f) ((frame_of s (fst f))(snd f + i := w)) s"

definition F_SIZE :: nat where "F_SIZE = 32"
definition F_TYPE :: nat where "F_TYPE = 33"
definition F_DIRECT :: nat where "F_DIRECT = 34"
definition F_INDIRECT :: nat where "F_INDIRECT = 44"

text \<open>Storing bytes in a frame from a byte offset on; \<^verbatim>\<open>strcpy\<close> stores the terminator, too.\<close>

fun put_bytes :: "nat \<Rightarrow> u8 list \<Rightarrow> frame \<Rightarrow> frame" where
  "put_bytes k [] fr = fr"
| "put_bytes k (b # bs) fr = put_bytes (Suc k) bs (set_frame_byte fr k b)"

definition set_name :: "fptr \<Rightarrow> u8 list \<Rightarrow> image \<Rightarrow> image" where
  "set_name f name s = set_frame (fst f) (put_bytes (4 * snd f) name (frame_of s (fst f))) s"

section \<open>Operations\<close>

definition init_disk :: image where
  "init_disk =
     (let nbitblock = (NBLOCK + BITBLK - 1) div BITBLK;
          diff = NBLOCK mod BITBLK div 8;
          bm = (\<lambda>i j. if 2 \<le> i \<and> i < 2 + nbitblock then
                  (if i = 2 + (nbitblock - 1) \<and> NBLOCK \<noteq> nbitblock * BITBLK \<and> diff \<le> 4 * j then 0 else 0xFFFFFFFF)
                else 0)
      in set_name root [0x2F, 0] \<lparr>blk = bm,
           btype = (\<lambda>i. if i = 0 then BLOCK_BOOT else if i = 1 then BLOCK_SUPER
                     else if i < 2 + nbitblock then BLOCK_BMAP else BLOCK_FREE),
           nextbno = 2 + nbitblock,
           superblk = (\<lambda>_. 0)(0 := FS_MAGIC, 1 := of_nat NBLOCK, 2 + F_TYPE := 1)\<rparr>)"

definition next_block :: "block_type \<Rightarrow> nat fmtM" where
  "next_block ty =
     bindK (getsK nextbno) (\<lambda>n.
     seqK (assertK (n < NBLOCK) ''disk overflow'')
    (seqK (modifyK (\<lambda>s. s\<lparr>btype := (btype s)(n := ty), nextbno := n + 1\<rparr>))
          (retK n)))"

definition save_block_link :: "fptr \<Rightarrow> nat \<Rightarrow> nat \<Rightarrow> unit fmtM" where
  "save_block_link f nblk bno =
     seqK (assertK (nblk < NINDIRECT) ''assert'')
     (if nblk < NDIRECT then modifyK (set_fld f (F_DIRECT + nblk) (of_nat bno))
      else
        seqK (bindK (getsK (\<lambda>s. fld s f F_INDIRECT)) (\<lambda>ind.
              if ind = 0 then bindK (next_block BLOCK_INDEX) (\<lambda>n. modifyK (set_fld f F_INDIRECT (of_nat n)))
              else retK ()))
             (modifyK (\<lambda>s. set_fld (Some (unat (fld s f F_INDIRECT)), 0) nblk (of_nat bno) s)))"

definition make_link_block :: "fptr \<Rightarrow> nat \<Rightarrow> nat fmtM" where
  "make_link_block dirf nblk =
     bindK (next_block BLOCK_FILE) (\<lambda>bno.
     seqK (save_block_link dirf nblk bno)
    (seqK (modifyK (\<lambda>s. set_fld dirf F_SIZE (fld s dirf F_SIZE + 4096) s))
          (retK bno)))"

text \<open>The block number of a file's block.\<close>

definition link :: "image \<Rightarrow> fptr \<Rightarrow> nat \<Rightarrow> nat" where
  "link s f i = (if i < NDIRECT then unat (fld s f (F_DIRECT + i))
     else unat (blk s (unat (fld s f F_INDIRECT)) i))"

text \<open>The first structure in a block whose name is empty.\<close>

definition free_slot :: "frame \<Rightarrow> nat option" where
  "free_slot fr = find (\<lambda>k. frame_byte fr (256 * k) = 0) [0..<FILE2BLK]"

fun find_slot :: "image \<Rightarrow> fptr \<Rightarrow> nat list \<Rightarrow> fptr option" where
  "find_slot s dirf [] = None"
| "find_slot s dirf (i # is) = (case free_slot (blk s (link s dirf i)) of
     Some k \<Rightarrow> Some (Some (link s dirf i), 64 * k) | None \<Rightarrow> find_slot s dirf is)"

definition create_file :: "fptr \<Rightarrow> fptr fmtM" where
  "create_file dirf =
     bindK (getsK (\<lambda>s. unat (fld s dirf F_SIZE) div 4096)) (\<lambda>nblk.
     bindK (getsK (\<lambda>s. find_slot s dirf [0..<nblk])) (\<lambda>r. case r of
       Some f \<Rightarrow> retK f
     | None \<Rightarrow> bindK (make_link_block dirf nblk) (\<lambda>bno. retK (Some bno, 0))))"

text \<open>\<^verbatim>\<open>strrchr(path, '/')\<close> and one behind it.\<close>

definition base_name :: "u8 list \<Rightarrow> u8 list" where
  "base_name path = rev (takeWhile (\<lambda>c. c \<noteq> 0x2F) (rev path))"

text \<open>The loop of \<^verbatim>\<open>read\<close>: a block takes the next 4096 bytes of the file.\<close>

function write_blocks :: "fptr \<Rightarrow> nat \<Rightarrow> u8 list \<Rightarrow> unit fmtM" where
  "write_blocks f iblk content =
     (if content = [] then retK ()
      else
        bindK (getsK nextbno) (\<lambda>n.
        seqK (assertK (n < NBLOCK) ''disk overflow'')
       (seqK (modifyK (\<lambda>s. s\<lparr>blk := (blk s)(n := put_bytes 0 (take 4096 content) (blk s n))\<rparr>))
       (bindK (next_block BLOCK_DATA) (\<lambda>bno.
        seqK (save_block_link f iblk bno)
             (write_blocks f (iblk + 1) (drop 4096 content)))))))"
  by pat_completeness auto
termination by (relation "measure (\<lambda>(f, i, c). length c)") auto

declare write_blocks.simps [simp del]

definition write_file :: "fptr \<Rightarrow> u8 list \<Rightarrow> u8 list \<Rightarrow> unit fmtM" where
  "write_file dirf path content =
     bindK (create_file dirf) (\<lambda>target.
     seqK (assertK (length (base_name path) < 128) ''strcpy past f_name'')
    (seqK (modifyK (set_name target (base_name path @ [0])))
    (seqK (modifyK (set_fld target F_SIZE (of_nat (length content))))
    (seqK (modifyK (set_fld target F_TYPE 0))
          (write_blocks target 0 content)))))"

datatype host = Reg "u8 list" | Dir "(u8 list \<times> host) list"

text \<open>\<^verbatim>\<open>strncpy\<close> of at most 127 bytes, padded with zeroes.\<close>

definition dir_name :: "u8 list \<Rightarrow> u8 list" where
  "dir_name path = (let w = take 127 (base_name path) in w @ replicate (127 - length w) 0)"

fun write_node :: "fptr \<Rightarrow> u8 list \<Rightarrow> host \<Rightarrow> unit fmtM"
  and write_entries :: "fptr \<Rightarrow> u8 list \<Rightarrow> (u8 list \<times> host) list \<Rightarrow> unit fmtM" where
  "write_node dirf path (Reg content) = write_file dirf path content"
| "write_node dirf path (Dir es) =
     bindK (create_file dirf) (\<lambda>pdir.
     seqK (modifyK (set_name pdir (dir_name path)))
    (seqK (bindK (getsK (\<lambda>s. frame_byte (frame_of s (fst pdir)) (4 * snd pdir + 127))) (\<lambda>c.
           assertK (c = 0) ''file name is too long''))
    (seqK (modifyK (set_fld pdir F_TYPE 1))
          (write_entries pdir path es))))"
| "write_entries pdir path [] = retK ()"
| "write_entries pdir path ((name, h) # es) =
     seqK (if name \<noteq> [0x2E] \<and> name \<noteq> [0x2E, 0x2E] then write_node pdir (path @ [0x2F] @ name) h else retK ())
          (write_entries pdir path es)"

definition flush_bit :: "nat \<Rightarrow> image \<Rightarrow> image" where
  "flush_bit i s =
     (let b = 2 + i div BITBLK; w = (i mod BITBLK) div 32 in
      s\<lparr>blk := (blk s)(b := (blk s b)(w := blk s b w AND NOT (push_bit (i mod 32) 1)))\<rparr>)"

definition flush_bitmap :: "unit fmtM" where
  "flush_bitmap = bindK (getsK nextbno) (\<lambda>n. forK [0..<n] (\<lambda>i. modifyK (flush_bit i)))"

text \<open>\<^verbatim>\<open>memcpy(disk[1].data, &super, sizeof(super))\<close>: 66 words.\<close>

definition finish_fs :: "unit fmtM" where
  "finish_fs = modifyK (\<lambda>s. s\<lparr>blk := (blk s)(1 := (\<lambda>j. if j < 66 then superblk s j else blk s 1 j))\<rparr>)"

definition format_disk :: "(u8 list \<times> host) list \<Rightarrow> unit fmtM" where
  "format_disk args =
     seqK (modifyK (\<lambda>_. init_disk))
    (seqK (forK args (\<lambda>(path, h). write_node root path h))
    (seqK flush_bitmap finish_fs))"

end
