(* ===== verification/Fsformat_Inv.thy ===== *)
theory Fsformat_Inv
  imports Fsformat
begin

text \<open>
  The invariant of the image under construction: which blocks file structures lie in, and which
  blocks they may name. Structures in use are never shared: two structures have different index
  blocks, and a directory's blocks hold structures only.
\<close>

section \<open>Fields\<close>

definition node :: "image \<Rightarrow> fptr \<Rightarrow> bool" where
  "node s f \<longleftrightarrow> f = root \<or> (\<exists>b k. f = (Some b, 64 * k) \<and> k < FILE2BLK \<and> btype s b = BLOCK_FILE)"

definition ind :: "image \<Rightarrow> fptr \<Rightarrow> nat" where "ind s f = unat (fld s f F_INDIRECT)"
definition fsize :: "image \<Rightarrow> fptr \<Rightarrow> nat" where "fsize s f = unat (fld s f F_SIZE)"
definition is_dir :: "image \<Rightarrow> fptr \<Rightarrow> bool" where "is_dir s f \<longleftrightarrow> fld s f F_TYPE = 1"
definition name0 :: "image \<Rightarrow> fptr \<Rightarrow> u8" where "name0 s f = frame_byte (frame_of s (fst f)) (4 * snd f)"

lemma frame_of_set [simp]: "frame_of (set_frame b fr s) c = (if b = c then fr else frame_of s c)"
  by (auto simp: frame_of_def set_frame_def split: option.splits)

lemma blk_set_frame: "blk (set_frame b fr s) n = (if b = Some n then fr else blk s n)"
  by (auto simp: set_frame_def split: option.splits)

lemma set_frame_simps [simp]:
  "btype (set_frame b fr s) = btype s" "nextbno (set_frame b fr s) = nextbno s"
  by (auto simp: set_frame_def split: option.splits)

lemma set_fld_simps [simp]: "btype (set_fld f i w s) = btype s" "nextbno (set_fld f i w s) = nextbno s"
  by (simp_all add: set_fld_def)

lemma set_name_simps [simp]: "btype (set_name f w s) = btype s" "nextbno (set_name f w s) = nextbno s"
  by (simp_all add: set_name_def)

lemma node_cong: "btype t = btype s \<Longrightarrow> node t f = node s f"
  by (simp add: node_def)

text \<open>Two structures do not overlap.\<close>

lemma node_apart:
  assumes "node s f" "node s g" "f \<noteq> g" "i < 64" "j < 64"
  shows "fst f = fst g \<Longrightarrow> snd f + i \<noteq> snd g + j"
proof -
  assume h: "fst f = fst g"
  then obtain b k l where fg: "f = (Some b, 64 * k)" "g = (Some b, 64 * l)"
    using assms(1-3) by (auto simp: node_def root_def)
  then have "k \<noteq> l" using assms(3) by auto
  with fg show ?thesis using assms(4, 5) by (cases "k < l") (auto simp: nat_neq_iff)
qed

lemma fld_set_fld:
  assumes "node s f" "node s g" "i < 64" "j < 64"
  shows "fld (set_fld f i w s) g j = (if f = g \<and> i = j then w else fld s g j)"
proof (cases "f = g")
  case False
  then show ?thesis
    using node_apart [OF assms(1, 2) False assms(3, 4)] by (auto simp: fld_def set_fld_def)
qed (auto simp: fld_def set_fld_def)

section \<open>The invariant\<close>

definition dir_ok :: "image \<Rightarrow> fptr \<Rightarrow> bool" where
  "dir_ok s f \<longleftrightarrow> 4096 dvd fsize s f \<and>
     (\<forall>i < fsize s f div 4096. i < NINDIRECT \<and> (NDIRECT \<le> i \<longrightarrow> ind s f \<noteq> 0) \<and> btype s (link s f i) = BLOCK_FILE)"

definition img_inv :: "image \<Rightarrow> bool" where
  "img_inv s \<longleftrightarrow>
     3 \<le> nextbno s \<and> nextbno s \<le> NBLOCK \<and>
     btype s 0 = BLOCK_BOOT \<and> btype s 1 = BLOCK_SUPER \<and> btype s 2 = BLOCK_BMAP \<and>
     (\<forall>n. btype s n = BLOCK_FREE \<longleftrightarrow> nextbno s \<le> n) \<and>
     (\<forall>n. btype s n = BLOCK_FREE \<longrightarrow> blk s n = (\<lambda>_. 0)) \<and>
     (\<forall>f. node s f \<longrightarrow> ind s f = 0 \<or> btype s (ind s f) = BLOCK_INDEX) \<and>
     (\<forall>f g. node s f \<longrightarrow> node s g \<longrightarrow> ind s f = ind s g \<longrightarrow> ind s f \<noteq> 0 \<longrightarrow> f = g) \<and>
     (\<forall>f. node s f \<longrightarrow> is_dir s f \<longrightarrow> dir_ok s f) \<and>
     (\<forall>f. node s f \<longrightarrow> name0 s f = 0 \<longrightarrow> fsize s f = 0 \<and> \<not> is_dir s f)"

lemma img_invD:
  assumes "img_inv s"
  shows "3 \<le> nextbno s" "nextbno s \<le> NBLOCK" "btype s 0 = BLOCK_BOOT" "btype s 1 = BLOCK_SUPER"
    "btype s 2 = BLOCK_BMAP" "btype s n = BLOCK_FREE \<longleftrightarrow> nextbno s \<le> n"
    "btype s n = BLOCK_FREE \<Longrightarrow> blk s n = (\<lambda>_. 0)"
    "node s f \<Longrightarrow> ind s f = 0 \<or> btype s (ind s f) = BLOCK_INDEX"
    "node s f \<Longrightarrow> node s g \<Longrightarrow> ind s f = ind s g \<Longrightarrow> ind s f \<noteq> 0 \<Longrightarrow> f = g"
    "node s f \<Longrightarrow> is_dir s f \<Longrightarrow> dir_ok s f"
    "node s f \<Longrightarrow> name0 s f = 0 \<Longrightarrow> fsize s f = 0 \<and> \<not> is_dir s f"
  using assms unfolding img_inv_def by (blast | simp)+

section \<open>Steps on one structure\<close>

text \<open>
  A step on the structure \<open>f\<close> may change its fields, its index block and blocks that were free.
\<close>

definition step_on :: "fptr \<Rightarrow> image \<Rightarrow> image \<Rightarrow> bool" where
  "step_on f s t \<longleftrightarrow>
     (\<forall>n. btype s n \<noteq> BLOCK_FREE \<longrightarrow> btype t n = btype s n) \<and>
     (\<forall>g. node s g \<longrightarrow> g \<noteq> f \<longrightarrow> (\<forall>i < 64. fld t g i = fld s g i)) \<and>
     (\<forall>n. btype s n \<noteq> BLOCK_FREE \<longrightarrow> btype s n \<noteq> BLOCK_FILE \<longrightarrow> n = ind s f \<and> n \<noteq> 0 \<or> blk t n = blk s n) \<and>
     superblk t 0 = superblk s 0 \<and> superblk t 1 = superblk s 1"

lemma step_onD:
  assumes "step_on f s t"
  shows "btype s n \<noteq> BLOCK_FREE \<Longrightarrow> btype t n = btype s n"
    "node s g \<Longrightarrow> g \<noteq> f \<Longrightarrow> i < 64 \<Longrightarrow> fld t g i = fld s g i"
    "btype s n \<noteq> BLOCK_FREE \<Longrightarrow> btype s n \<noteq> BLOCK_FILE \<Longrightarrow> n = ind s f \<and> n \<noteq> 0 \<or> blk t n = blk s n"
  using assms unfolding step_on_def by blast+

lemma name0_fld: "name0 s f = byte_of (fld s f 0) 0"
  by (simp add: name0_def frame_byte_def fld_def)

lemma step_on_same:
  assumes "step_on f s t" "node s g" "g \<noteq> f" "img_inv s" "node s f"
  shows "ind t g = ind s g" "fsize t g = fsize s g" "is_dir t g = is_dir s g" "name0 t g = name0 s g"
    "i < NINDIRECT \<Longrightarrow> link t g i = link s g i"
proof -
  note fl = step_onD(2) [OF assms(1-3)]
  show i: "ind t g = ind s g" and "fsize t g = fsize s g" "is_dir t g = is_dir s g" "name0 t g = name0 s g"
    using fl by (simp_all add: ind_def fsize_def is_dir_def name0_fld F_INDIRECT_def F_SIZE_def F_TYPE_def)
  show "link t g i = link s g i" if "i < NINDIRECT"
  proof (cases "i < NDIRECT")
    case True
    then show ?thesis using fl by (simp add: link_def F_DIRECT_def NDIRECT_def)
  next
    case False
    have "btype s (ind s g) = BLOCK_BOOT \<or> btype s (ind s g) = BLOCK_INDEX"
      using img_invD(3, 8) [OF assms(4)] assms(2) by metis
    moreover have "\<not> (ind s g = ind s f \<and> ind s g \<noteq> 0)"
      using img_invD(9) [OF assms(4) assms(2) assms(5)] assms(3) by metis
    ultimately have "blk t (ind s g) = blk s (ind s g)"
      using step_onD(3) [OF assms(1), of "ind s g"] by auto
    then show ?thesis using i False by (simp add: link_def ind_def)
  qed
qed

lemma node_mono:
  assumes "step_on f s t" "node s g"
  shows "node t g"
proof -
  have "btype t b = BLOCK_FILE" if "btype s b = BLOCK_FILE" for b
    using step_onD(1) [OF assms(1), of b] that by simp
  then show ?thesis using assms(2) unfolding node_def by blast
qed

text \<open>What has to be checked of the changed structure to keep the invariant.\<close>

lemma step_on_inv:
  assumes s: "img_inv s" "step_on f s t" "node s f"
    and n: "nextbno s \<le> nextbno t" "nextbno t \<le> NBLOCK"
    and free: "\<And>n. btype t n = BLOCK_FREE \<longleftrightarrow> nextbno t \<le> n" "\<And>n. nextbno t \<le> n \<Longrightarrow> blk t n = (\<lambda>_. 0)"
    and new: "\<And>n. btype s n = BLOCK_FREE \<Longrightarrow> btype t n = BLOCK_FILE \<Longrightarrow> blk t n = (\<lambda>_. 0)"
    and ind: "ind t f = ind s f \<or> btype t (ind t f) = BLOCK_INDEX \<and> (\<forall>g. node s g \<longrightarrow> ind s g \<noteq> ind t f)"
    and dir: "is_dir t f \<Longrightarrow> dir_ok t f" and name: "name0 t f = 0 \<Longrightarrow> fsize t f = 0 \<and> \<not> is_dir t f"
  shows "img_inv t"
proof -
  note same = step_on_same [OF s(2) _ _ s(1) s(3)]
  have fresh: "ind t g = 0 \<and> fsize t g = 0 \<and> \<not> is_dir t g" if g: "node t g" "\<not> node s g" for g
  proof -
    obtain b k where b: "g = (Some b, 64 * k)" "btype t b = BLOCK_FILE" "k < FILE2BLK"
      using g by (auto simp: node_def)
    then have "btype s b \<noteq> BLOCK_FILE" using g(2) by (auto simp: node_def)
    then have "btype s b = BLOCK_FREE" using step_onD(1) [OF s(2), of b] b(2) by auto
    from new [OF this b(2)] show ?thesis
      by (simp add: b(1) ind_def fsize_def is_dir_def fld_def frame_of_def)
  qed
  have indt: "ind t g = 0 \<or> btype t (ind t g) = BLOCK_INDEX" if g: "node t g" for g
  proof (cases "node s g")
    case True
    show ?thesis
    proof (cases "ind t g = ind s g")
      case True
      then show ?thesis using img_invD(8) [OF s(1) \<open>node s g\<close>] step_onD(1) [OF s(2), of "ind s g"] by auto
    next
      case False
      then have "g = f" using same(1) True by blast
      then show ?thesis using ind False by blast
    qed
  qed (use fresh g in blast)
  have uniq: "g = h" if gh: "node t g" "node t h" "ind t g = ind t h" "ind t g \<noteq> 0" for g h
  proof -
    have gs: "node s g" "node s h" using fresh gh by metis+
    have old: "ind t x = ind s x" if "node s x" "x \<noteq> f" for x using same(1) that by blast
    have ne: "ind t x \<noteq> ind t f" if x: "node s x" "x \<noteq> f" "ind t x \<noteq> 0" for x
    proof
      assume h: "ind t x = ind t f"
      have x': "ind s x = ind t f" "ind s x \<noteq> 0" using old x h by simp_all
      from ind show False
      proof
        assume "ind t f = ind s f"
        then show False using img_invD(9) [OF s(1) x(1) s(3)] x' x(2) by simp
      next
        assume "btype t (ind t f) = BLOCK_INDEX \<and> (\<forall>g. node s g \<longrightarrow> ind s g \<noteq> ind t f)"
        then show False using x(1) x'(1) by metis
      qed
    qed
    show ?thesis
    proof (cases "g = f \<or> h = f")
      case True
      then show ?thesis using ne gs gh(3, 4) by metis
    next
      case False
      then show ?thesis using old gs gh(3, 4) img_invD(9) [OF s(1) gs] by simp
    qed
  qed
  have dirs: "dir_ok t g" if g: "node t g" "is_dir t g" for g
  proof (cases "g = f")
    case False
    have gs: "node s g" using fresh g by blast
    have d: "dir_ok s g" using img_invD(10) [OF s(1) gs] same(3) [OF gs False] g(2) by simp
    have "i < NINDIRECT \<Longrightarrow> btype s (link s g i) = BLOCK_FILE \<Longrightarrow> btype t (link t g i) = BLOCK_FILE" for i
      using same(5) [OF gs False] step_onD(1) [OF s(2), of "link s g i"] by simp
    then show ?thesis using d same(1, 2) [OF gs False] by (simp add: dir_ok_def)
  qed (use dir g in simp)
  have names: "fsize t g = 0 \<and> \<not> is_dir t g" if g: "node t g" "name0 t g = 0" for g
  proof (cases "g = f")
    case False
    show ?thesis
    proof (cases "node s g")
      case True
      then show ?thesis using img_invD(11) [OF s(1) True] same(2-4) [OF True False] g(2) by simp
    qed (use fresh g in simp)
  qed (use name g in simp)
  have "btype t 0 = BLOCK_BOOT" "btype t 1 = BLOCK_SUPER" "btype t 2 = BLOCK_BMAP"
    using img_invD(3-5) [OF s(1)] step_onD(1) [OF s(2), of 0] step_onD(1) [OF s(2), of 1] step_onD(1) [OF s(2), of 2]
    by simp_all
  then show ?thesis
    unfolding img_inv_def using img_invD(1) [OF s(1)] n free indt uniq dirs names by auto
qed

section \<open>What is kept\<close>

definition used :: "image \<Rightarrow> fptr \<Rightarrow> bool" where
  "used s f \<longleftrightarrow> node s f \<and> name0 s f \<noteq> 0"

text \<open>The structures in use, except those in \<open>X\<close>, keep their names, files their blocks, directories their blocks so far.\<close>

definition kept :: "image \<Rightarrow> image \<Rightarrow> fptr \<Rightarrow> bool" where
  "kept s t f \<longleftrightarrow> (\<forall>i < 32. fld t f i = fld s f i) \<and> is_dir t f = is_dir s f \<and>
     (if is_dir s f then fsize s f \<le> fsize t f \<and> (\<forall>i < fsize s f div 4096. link t f i = link s f i)
      else fsize t f = fsize s f \<and> (\<forall>i < NINDIRECT. link t f i = link s f i))"

definition keeps :: "fptr set \<Rightarrow> image \<Rightarrow> image \<Rightarrow> bool" where
  "keeps X s t \<longleftrightarrow>
     (\<forall>n. btype s n \<noteq> BLOCK_FREE \<longrightarrow> btype t n = btype s n) \<and>
     (\<forall>n. btype s n \<in> {BLOCK_BOOT, BLOCK_SUPER, BLOCK_BMAP, BLOCK_DATA} \<longrightarrow> blk t n = blk s n) \<and>
     superblk t 0 = superblk s 0 \<and> superblk t 1 = superblk s 1 \<and>
     (\<forall>f. used s f \<longrightarrow> f \<notin> X \<longrightarrow> kept s t f)"

lemma kept_refl [simp]: "kept s s f"
  by (simp add: kept_def)

lemma keeps_refl [simp]: "keeps X s s"
  by (simp add: keeps_def)

lemma keepsD:
  assumes "keeps X s t"
  shows "btype s n \<noteq> BLOCK_FREE \<Longrightarrow> btype t n = btype s n"
    "btype s n \<in> {BLOCK_BOOT, BLOCK_SUPER, BLOCK_BMAP, BLOCK_DATA} \<Longrightarrow> blk t n = blk s n"
    "superblk t 0 = superblk s 0" "superblk t 1 = superblk s 1"
    "used s f \<Longrightarrow> f \<notin> X \<Longrightarrow> kept s t f"
  using assms unfolding keeps_def by blast+

lemma keeps_node: "keeps X s t \<Longrightarrow> node s f \<Longrightarrow> node t f"
  unfolding keeps_def node_def by (metis block_type.distinct(9))

lemma keeps_used:
  assumes "keeps X s t" "used s f" "f \<notin> X"
  shows "used t f"
  using keeps_node [OF assms(1)] keepsD(5) [OF assms] assms(2) by (simp add: used_def kept_def name0_fld)

lemma kept_trans: "kept s t f \<Longrightarrow> kept t u f \<Longrightarrow> kept s u f"
  unfolding kept_def using div_le_mono [of "fsize s f" "fsize t f" 4096]
  by (auto split: if_splits)

lemma keeps_trans:
  assumes "keeps X s t" "keeps X t u"
  shows "keeps X s u"
proof -
  have "kept s u f" if "used s f" "f \<notin> X" for f
    using kept_trans keepsD(5) assms keeps_used [OF assms(1) that] that by metis
  moreover have "btype u n = btype s n \<and> (btype s n \<in> {BLOCK_BOOT, BLOCK_SUPER, BLOCK_BMAP, BLOCK_DATA} \<longrightarrow> blk u n = blk s n)"
    if "btype s n \<noteq> BLOCK_FREE" for n
    using keepsD(1, 2) [OF assms(1), of n] keepsD(1, 2) [OF assms(2), of n] that by auto
  moreover have "superblk u 0 = superblk s 0" "superblk u 1 = superblk s 1"
    using keepsD(3, 4) assms by metis+
  ultimately show ?thesis unfolding keeps_def by auto
qed

lemma keeps_mono: "keeps X s t \<Longrightarrow> X \<subseteq> Y \<Longrightarrow> keeps Y s t"
  unfolding keeps_def by blast

text \<open>Changes to a structure that was not in use do not count.\<close>

lemma keeps_unused: "keeps {f} s t \<Longrightarrow> \<not> used s f \<Longrightarrow> keeps {} s t"
  unfolding keeps_def by blast

lemma step_on_keeps:
  assumes "step_on f s t" "img_inv s" "node s f"
  shows "keeps {f} s t"
proof -
  have "kept s t g" if g: "used s g" "g \<noteq> f" for g
  proof -
    have n: "node s g" using g(1) by (simp add: used_def)
    note same = step_on_same [OF assms(1) n g(2) assms(2, 3)]
    have "i < NINDIRECT" if "is_dir s g" "i < fsize s g div 4096" for i
      using img_invD(10) [OF assms(2) n that(1)] that(2) by (simp add: dir_ok_def)
    then show ?thesis using same step_onD(2) [OF assms(1) n g(2)] by (auto simp: kept_def)
  qed
  moreover have "blk t n = blk s n" if "btype s n \<in> {BLOCK_BOOT, BLOCK_SUPER, BLOCK_BMAP, BLOCK_DATA}" for n
  proof -
    have "\<not> (n = ind s f \<and> n \<noteq> 0)" using img_invD(8) [OF assms(2, 3)] that by auto
    then show ?thesis using step_onD(3) [OF assms(1), of n] that by auto
  qed
  ultimately show ?thesis using assms(1) unfolding keeps_def step_on_def by auto
qed

end
