(* ===== verification/Fsformat_Ops.thy ===== *)
theory Fsformat_Ops
  imports Fsformat_Inv
begin

text \<open>Each operation of the formatter keeps the invariant and the structures in use.\<close>

section \<open>Names\<close>

lemma put_bytes_byte:
  "frame_byte (put_bytes k bs fr) j = (if k \<le> j \<and> j < k + length bs then bs ! (j - k) else frame_byte fr j)"
  by (induction bs arbitrary: k fr)
    (auto simp: frame_byte_set nth_Cons split: nat.split intro!: arg_cong [where f = "(!) _"])

lemma put_bytes_word:
  "(\<And>i. i < length bs \<Longrightarrow> x \<noteq> (k + i) div 4) \<Longrightarrow> put_bytes k bs fr x = fr x"
proof (induction bs arbitrary: k fr)
  case (Cons b bs)
  have "x \<noteq> k div 4" using Cons.prems [of 0] by simp
  moreover have "x \<noteq> (Suc k + i) div 4" if "i < length bs" for i using Cons.prems [of "Suc i"] that by simp
  ultimately show ?case using Cons.IH [of "Suc k"] by (simp add: frame_word_set_other)
qed simp

lemma put_name_word:
  assumes "length w \<le> 128" "x < b \<or> b + 32 \<le> x"
  shows "put_bytes (4 * b) w fr x = fr x"
proof (rule put_bytes_word)
  fix i assume "i < length w"
  then have "(4 * b + i) div 4 = b + i div 4" "i div 4 < 32" using assms(1) by auto
  then show "x \<noteq> (4 * b + i) div 4" using assms(2) by auto
qed

lemma fld_set_name:
  assumes "length w \<le> 128" "node s f" "node s g" "j < 64" "g = f \<longrightarrow> 32 \<le> j"
  shows "fld (set_name f w s) g j = fld s g j"
proof (cases "fst g = fst f")
  case True
  have "snd g + j < snd f \<or> snd f + 32 \<le> snd g + j"
  proof (cases "g = f")
    case False
    have "snd g + j \<noteq> snd f + i" if "i < 32" for i
      using node_apart [OF assms(3, 2) False assms(4), of i] True that by simp
    then show ?thesis by (metis add_diff_inverse_nat le_eq_less_or_eq nat_add_left_cancel_less not_less)
  qed (use assms(5) in simp)
  then show ?thesis using True put_name_word [OF assms(1)] by (simp add: fld_def set_name_def)
qed (simp add: fld_def set_name_def)

lemma node_frame: "node s f \<Longrightarrow> fst f = Some b \<Longrightarrow> btype s b = BLOCK_FILE"
  by (auto simp: node_def root_def)

lemma ind_type:
  assumes "img_inv s" "node s f"
  shows "btype s (ind s f) = BLOCK_BOOT \<or> btype s (ind s f) = BLOCK_INDEX"
  using img_invD(8) [OF assms] img_invD(3) [OF assms(1)] by auto

lemma ind_not_file: "img_inv s \<Longrightarrow> node s f \<Longrightarrow> btype s (ind s f) \<noteq> BLOCK_FILE"
  using ind_type by fastforce

lemma set_name_step:
  assumes "length w \<le> 128" "node s f"
  shows "step_on f s (set_name f w s)"
proof -
  have "superblk (set_name f w s) i = superblk s i" if "i < 2" for i
  proof (cases "fst f")
    case None
    then have "snd f = 2" using assms(2) by (auto simp: node_def root_def)
    then show ?thesis using None put_name_word [OF assms(1), of i 2] that
      by (simp add: set_name_def set_frame_def frame_of_def)
  next
    case (Some b)
    then show ?thesis by (simp add: set_name_def set_frame_def)
  qed
  moreover have "blk (set_name f w s) n = blk s n" if "btype s n \<noteq> BLOCK_FILE" for n
    using node_frame [OF assms(2), of n] that by (auto simp: set_name_def blk_set_frame)
  ultimately show ?thesis using fld_set_name [OF assms] by (simp add: step_on_def)
qed

lemma set_fld_step:
  assumes "i < 64" "node s f"
  shows "step_on f s (set_fld f i w s)"
proof -
  have "superblk (set_fld f i w s) j = superblk s j" if "j < 2" for j
  proof (cases "fst f")
    case None
    then have "snd f = 2" using assms(2) by (auto simp: node_def root_def)
    then show ?thesis using None that by (simp add: set_fld_def set_frame_def frame_of_def)
  next
    case (Some b)
    then show ?thesis by (simp add: set_fld_def set_frame_def)
  qed
  moreover have "blk (set_fld f i w s) n = blk s n" if "btype s n \<noteq> BLOCK_FILE" for n
    using node_frame [OF assms(2), of n] that by (auto simp: set_fld_def blk_set_frame)
  ultimately show ?thesis using fld_set_fld [OF assms(2) _ assms(1)] by (simp add: step_on_def)
qed

text \<open>What an operation on \<open>f\<close> guarantees of everything else.\<close>

definition good :: "fptr \<Rightarrow> image \<Rightarrow> image \<Rightarrow> bool" where
  "good f s t \<longleftrightarrow> img_inv t \<and> keeps {f} s t \<and>
     (\<forall>g. node s g \<longrightarrow> g \<noteq> f \<longrightarrow> (\<forall>i < 64. fld t g i = fld s g i)) \<and>
     (\<forall>g. node t g \<longrightarrow> \<not> node s g \<longrightarrow> g \<noteq> f \<longrightarrow> name0 t g = 0)"

lemma goodI:
  assumes "img_inv s" "step_on f s t" "node s f" "nextbno t = nextbno s"
    "\<And>n. btype t n = btype s n" "\<And>n. btype s n = BLOCK_FREE \<Longrightarrow> blk t n = blk s n"
    "ind t f = ind s f \<or> btype t (ind t f) = BLOCK_INDEX \<and> (\<forall>g. node s g \<longrightarrow> ind s g \<noteq> ind t f)"
    "is_dir t f \<Longrightarrow> dir_ok t f" "name0 t f = 0 \<Longrightarrow> fsize t f = 0 \<and> \<not> is_dir t f"
  shows "good f s t"
proof -
  have "img_inv t"
  proof (rule step_on_inv [OF assms(1-3)])
    show "btype t n = BLOCK_FREE \<longleftrightarrow> nextbno t \<le> n" for n
      using img_invD(6) [OF assms(1)] assms(4, 5) by simp
    show "blk t n = (\<lambda>_. 0)" if "nextbno t \<le> n" for n
      using img_invD(6, 7) [OF assms(1)] assms(4, 6) that by simp
  qed (use assms img_invD(2) [OF assms(1)] in auto)
  moreover have "btype t = btype s" by (rule ext) (rule assms(5))
  then have "node t g = node s g" for g by (rule node_cong)
  ultimately show ?thesis
    using step_on_keeps [OF assms(2, 1, 3)] step_onD(2) [OF assms(2)] unfolding good_def by blast
qed

lemma set_name_good:
  assumes "img_inv s" "node s f" "w \<noteq> []" "hd w \<noteq> 0" "length w \<le> 128"
  shows "good f s (set_name f w s)"
proof -
  have same: "ind (set_name f w s) f = ind s f" "fsize (set_name f w s) f = fsize s f"
    "is_dir (set_name f w s) f = is_dir s f"
    using fld_set_name [OF assms(5, 2, 2)]
    by (simp_all add: ind_def fsize_def is_dir_def F_INDIRECT_def F_SIZE_def F_TYPE_def)
  have blk: "blk (set_name f w s) n = blk s n" if "btype s n \<noteq> BLOCK_FILE" for n
    using node_frame [OF assms(2), of n] that by (auto simp: set_name_def blk_set_frame)
  have link: "link (set_name f w s) f i = link s f i" if "i < NINDIRECT" for i
  proof (cases "i < NDIRECT")
    case True
    then show ?thesis using fld_set_name [OF assms(5, 2, 2)] by (simp add: link_def F_DIRECT_def NDIRECT_def)
  next
    case False
    have "btype s (ind s f) \<noteq> BLOCK_FILE" by (rule ind_not_file [OF assms(1, 2)])
    then show ?thesis using False same(1) blk by (simp add: link_def ind_def)
  qed
  have "name0 (set_name f w s) f = hd w"
    using assms(3) by (cases w) (simp_all add: name0_def set_name_def put_bytes_byte)
  moreover have "dir_ok (set_name f w s) f" if "is_dir s f"
    using img_invD(10) [OF assms(1, 2) that] link same by (simp add: dir_ok_def)
  ultimately show ?thesis
    using goodI [OF assms(1) set_name_step [OF assms(5, 2)] assms(2)] same blk assms(4) by simp
qed

lemma set_fld_same:
  assumes "node s f" "i < 64"
  shows "i \<noteq> F_INDIRECT \<Longrightarrow> ind (set_fld f i w s) f = ind s f"
    "i \<noteq> F_SIZE \<Longrightarrow> fsize (set_fld f i w s) f = fsize s f"
    "i \<noteq> F_TYPE \<Longrightarrow> is_dir (set_fld f i w s) f = is_dir s f"
    "i \<noteq> 0 \<Longrightarrow> name0 (set_fld f i w s) f = name0 s f"
    "img_inv s \<Longrightarrow> i \<noteq> F_INDIRECT \<Longrightarrow> i \<noteq> F_DIRECT + j \<or> NDIRECT \<le> j \<Longrightarrow> link (set_fld f i w s) f j = link s f j"
proof -
  note fl = fld_set_fld [OF assms(1, 1, 2)]
  show "i \<noteq> F_INDIRECT \<Longrightarrow> ind (set_fld f i w s) f = ind s f"
    "i \<noteq> F_SIZE \<Longrightarrow> fsize (set_fld f i w s) f = fsize s f"
    "i \<noteq> F_TYPE \<Longrightarrow> is_dir (set_fld f i w s) f = is_dir s f"
    "i \<noteq> 0 \<Longrightarrow> name0 (set_fld f i w s) f = name0 s f"
    using fl by (simp_all add: ind_def fsize_def is_dir_def name0_fld F_INDIRECT_def F_SIZE_def F_TYPE_def)
  show "link (set_fld f i w s) f j = link s f j"
    if h: "img_inv s" "i \<noteq> F_INDIRECT" "i \<noteq> F_DIRECT + j \<or> NDIRECT \<le> j"
  proof (cases "j < NDIRECT")
    case True
    then show ?thesis using fl h(3) by (simp add: link_def F_DIRECT_def NDIRECT_def)
  next
    case False
    have "btype s (ind s f) \<noteq> BLOCK_FILE" by (rule ind_not_file [OF h(1) assms(1)])
    then have "blk (set_fld f i w s) (ind s f) = blk s (ind s f)"
      using node_frame [OF assms(1), of "ind s f"] by (auto simp: set_fld_def blk_set_frame)
    then show ?thesis using False fl h(2) by (simp add: link_def ind_def F_INDIRECT_def)
  qed
qed

text \<open>Any field of a structure in use but the index block.\<close>

lemma set_fld_good:
  assumes "img_inv s" "used s f" "i < 64" "i \<noteq> 0" "i \<noteq> F_INDIRECT"
    "is_dir (set_fld f i w s) f \<Longrightarrow> dir_ok (set_fld f i w s) f"
  shows "good f s (set_fld f i w s)"
proof -
  have n: "node s f" using assms(2) by (simp add: used_def)
  have "blk (set_fld f i w s) k = blk s k" if "btype s k \<noteq> BLOCK_FILE" for k
    using node_frame [OF n, of k] that by (auto simp: set_fld_def blk_set_frame)
  then show ?thesis
    using goodI [OF assms(1) set_fld_step [OF assms(3) n] n] set_fld_same [OF n assms(3)] assms(2, 4-6)
    by (simp add: used_def)
qed

section \<open>Taking a block\<close>

definition take_block :: "block_type \<Rightarrow> frame \<Rightarrow> image \<Rightarrow> image" where
  "take_block ty d s = s\<lparr>blk := (blk s)(nextbno s := d), btype := (btype s)(nextbno s := ty), nextbno := nextbno s + 1\<rparr>"

lemma next_block_run:
  assumes "img_inv s"
  shows "next_block ty s = Done n t \<longleftrightarrow> n = nextbno s \<and> n < NBLOCK \<and> t = take_block ty (\<lambda>_. 0) s"
proof -
  have "blk s (nextbno s) = (\<lambda>_. 0)" using img_invD(6, 7) [OF assms, of "nextbno s"] by simp
  then have "s\<lparr>btype := (btype s)(nextbno s := ty), nextbno := nextbno s + 1\<rparr> = take_block ty (\<lambda>_. 0) s"
    by (simp add: take_block_def fun_upd_idem)
  then show ?thesis by (auto simp: next_block_def done_rules)
qed

lemma take_block_old:
  assumes "img_inv s" "btype s n \<noteq> BLOCK_FREE"
  shows "btype (take_block ty d s) n = btype s n" "blk (take_block ty d s) n = blk s n"
proof -
  have "n \<noteq> nextbno s" using img_invD(6) [OF assms(1), of n] assms(2) by auto
  then show "btype (take_block ty d s) n = btype s n" "blk (take_block ty d s) n = blk s n"
    by (simp_all add: take_block_def)
qed

lemma take_block_fld:
  assumes "img_inv s" "node s g"
  shows "fld (take_block ty d s) g i = fld s g i"
proof (cases "fst g")
  case None
  then show ?thesis by (simp add: fld_def frame_of_def take_block_def)
next
  case (Some b)
  then have "btype s b \<noteq> BLOCK_FREE" using node_frame [OF assms(2)] by simp
  then show ?thesis using take_block_old(2) [OF assms(1)] Some by (simp add: fld_def frame_of_def)
qed

lemma take_block_view:
  assumes "img_inv s" "node s g"
  shows "ind (take_block ty d s) g = ind s g" "fsize (take_block ty d s) g = fsize s g"
    "is_dir (take_block ty d s) g = is_dir s g" "name0 (take_block ty d s) g = name0 s g"
    "link (take_block ty d s) g i = link s g i"
proof -
  note fl = take_block_fld [OF assms, of ty d]
  show i: "ind (take_block ty d s) g = ind s g" and "fsize (take_block ty d s) g = fsize s g"
    "is_dir (take_block ty d s) g = is_dir s g" "name0 (take_block ty d s) g = name0 s g"
    using fl by (simp_all add: ind_def fsize_def is_dir_def name0_fld)
  have "btype s (ind s g) \<noteq> BLOCK_FREE" using ind_type [OF assms] by auto
  then show "link (take_block ty d s) g i = link s g i"
    using fl i take_block_old(2) [OF assms(1)] by (simp add: link_def ind_def)
qed

lemma root_node [simp]: "node s root"
  by (simp add: node_def)

lemma take_block_good:
  assumes "img_inv s" "nextbno s < NBLOCK" "ty \<noteq> BLOCK_FREE" "ty = BLOCK_FILE \<longrightarrow> d = (\<lambda>_. 0)"
  shows "img_inv (take_block ty d s)" "keeps {} s (take_block ty d s)"
proof -
  let ?t = "take_block ty d s"
  note view = take_block_view [OF assms(1), of _ ty d]
  have step: "step_on root s ?t"
    using take_block_old [OF assms(1)] take_block_fld [OF assms(1)] by (auto simp: step_on_def take_block_def)
  show inv: "img_inv ?t"
  proof (rule step_on_inv [OF assms(1) step root_node])
    show "btype ?t n = BLOCK_FREE \<longleftrightarrow> nextbno ?t \<le> n" for n
      using img_invD(6) [OF assms(1), of n] assms(3) by (auto simp: take_block_def)
    show "blk ?t n = (\<lambda>_. 0)" if "nextbno ?t \<le> n" for n
      using img_invD(6, 7) [OF assms(1), of n] that by (auto simp: take_block_def)
    show "blk ?t n = (\<lambda>_. 0)" if "btype s n = BLOCK_FREE" "btype ?t n = BLOCK_FILE" for n
      using that assms(4) by (auto simp: take_block_def split: if_splits)
    show "dir_ok ?t root" if "is_dir ?t root"
    proof -
      have "dir_ok s root" using img_invD(10) [OF assms(1) root_node] that view(3) by simp
      then show ?thesis using view(1, 2, 5) take_block_old(1) [OF assms(1)] by (simp add: dir_ok_def)
    qed
    show "fsize ?t root = 0 \<and> \<not> is_dir ?t root" if "name0 ?t root = 0"
      using img_invD(11) [OF assms(1) root_node] that view by simp
  qed (use assms(2) view(1) in \<open>simp_all add: take_block_def\<close>)
  have "kept s ?t g" if "used s g" for g
    using view that take_block_fld [OF assms(1)] by (simp add: kept_def used_def)
  then show "keeps {} s ?t"
    using take_block_old [OF assms(1)] by (auto simp: keeps_def take_block_def)
qed

section \<open>Linking a block\<close>

text \<open>The index block of \<open>f\<close> is set up, or one of its entries written.\<close>

lemma set_index_good:
  assumes "img_inv s" "used s f" "ind s f = 0" "n < NBLOCK" "btype s n = BLOCK_INDEX"
    "\<And>g. node s g \<Longrightarrow> ind s g \<noteq> n"
  shows "good f s (set_fld f F_INDIRECT (of_nat n) s)"
proof -
  let ?t = "set_fld f F_INDIRECT (of_nat n) s"
  have nf: "node s f" and i: "F_INDIRECT < 64" using assms(2) by (auto simp: used_def F_INDIRECT_def)
  have n: "unat (of_nat n :: u32) = n" using assms(4) by (simp add: unsigned_of_nat take_bit_nat_eq_self NBLOCK_def)
  have ind: "ind ?t f = n" using fld_set_fld [OF nf nf i i] n by (simp add: ind_def)
  have "n \<noteq> 0" using assms(5) img_invD(3) [OF assms(1)] by (cases n) auto
  have blk: "blk ?t k = blk s k" if "btype s k \<noteq> BLOCK_FILE" for k
    using node_frame [OF nf, of k] that by (auto simp: set_fld_def blk_set_frame)
  note same = set_fld_same [OF nf i, of "of_nat n"]
  have link: "link ?t f j = link s f j" if "j < NDIRECT" for j
    using that fld_set_fld [OF nf nf i] by (simp add: link_def F_DIRECT_def F_INDIRECT_def NDIRECT_def)
  have "dir_ok ?t f" if "is_dir ?t f"
  proof -
    have d: "dir_ok s f" using img_invD(10) [OF assms(1) nf] that same(3) by (simp add: F_TYPE_def F_INDIRECT_def)
    then have "j < NDIRECT" if "j < fsize s f div 4096" for j
      using that assms(3) by (auto simp: dir_ok_def not_le [symmetric])
    then show ?thesis using d link same(2) \<open>n \<noteq> 0\<close> ind
      by (simp add: dir_ok_def F_SIZE_def F_INDIRECT_def)
  qed
  moreover have "name0 ?t f \<noteq> 0" using same(4) assms(2) by (simp add: used_def F_INDIRECT_def)
  ultimately show ?thesis
    using assms(5, 6) ind blk by (intro goodI [OF assms(1) set_fld_step [OF i nf] nf]) simp_all
qed

definition put_index :: "fptr \<Rightarrow> nat \<Rightarrow> u32 \<Rightarrow> image \<Rightarrow> image" where
  "put_index f nblk w s = set_fld (Some (unat (fld s f F_INDIRECT)), 0) nblk w s"

lemma put_index_view:
  assumes "img_inv s" "node s f" "ind s f \<noteq> 0"
  shows "node s g \<Longrightarrow> fld (put_index f nblk w s) g i = fld s g i"
    "n \<noteq> ind s f \<Longrightarrow> blk (put_index f nblk w s) n = blk s n"
    "NDIRECT \<le> j \<Longrightarrow> link (put_index f nblk w s) f j = (if j = nblk then unat w else link s f j)"
    "j < NDIRECT \<Longrightarrow> link (put_index f nblk w s) f j = link s f j"
    "btype (put_index f nblk w s) = btype s" "nextbno (put_index f nblk w s) = nextbno s"
    "superblk (put_index f nblk w s) = superblk s"
proof -
  let ?t = "put_index f nblk w s"
  have t: "?t = s\<lparr>blk := (blk s)(ind s f := (blk s (ind s f))(nblk := w))\<rparr>"
    by (simp add: put_index_def set_fld_def set_frame_def frame_of_def ind_def)
  show fl: "fld ?t g i = fld s g i" if "node s g" for g i
  proof (cases "fst g")
    case None
    then show ?thesis by (simp add: t fld_def frame_of_def)
  next
    case (Some b)
    then have "b \<noteq> ind s f" using node_frame [OF that] ind_not_file [OF assms(1, 2)] by metis
    then show ?thesis using Some by (simp add: t fld_def frame_of_def)
  qed
  show "blk ?t n = blk s n" if "n \<noteq> ind s f" using that by (simp add: t)
  show "link ?t f j = (if j = nblk then unat w else link s f j)" if "NDIRECT \<le> j"
    using that fl [OF assms(2)] by (simp add: link_def) (simp add: t ind_def)
  show "link ?t f j = link s f j" if "j < NDIRECT" using that fl [OF assms(2)] by (simp add: link_def)
  show "btype ?t = btype s" "nextbno ?t = nextbno s" "superblk ?t = superblk s" by (simp_all add: t)
qed

lemma put_index_good:
  assumes "img_inv s" "used s f" "ind s f \<noteq> 0" "NDIRECT \<le> nblk" "is_dir s f \<longrightarrow> fsize s f div 4096 \<le> nblk"
  shows "good f s (put_index f nblk w s)"
proof -
  let ?t = "put_index f nblk w s"
  have nf: "node s f" using assms(2) by (simp add: used_def)
  note view = put_index_view [OF assms(1) nf assms(3)]
  have same: "ind ?t f = ind s f" "fsize ?t f = fsize s f" "is_dir ?t f = is_dir s f" "name0 ?t f = name0 s f"
    using view(1) [OF nf] by (simp_all add: ind_def fsize_def is_dir_def name0_fld)
  have step: "step_on f s ?t"
    using view(1, 2, 5, 7) assms(3) unfolding step_on_def by metis
  have "dir_ok ?t f" if "is_dir ?t f"
  proof -
    have d: "dir_ok s f" using img_invD(10) [OF assms(1) nf] that same(3) by simp
    have "link ?t f i = link s f i" if "i < fsize s f div 4096" for i
      using assms(5) \<open>is_dir ?t f\<close> same(3) that view(3, 4) by (cases "i < NDIRECT") auto
    then show ?thesis using d same view(5) by (simp add: dir_ok_def)
  qed
  moreover have "btype s (ind s f) = BLOCK_INDEX" using img_invD(8) [OF assms(1) nf] assms(3) by simp
  then have "blk ?t n = blk s n" if "btype s n = BLOCK_FREE" for n
    using that view(2) by (cases "n = ind s f") auto
  ultimately show ?thesis
    using goodI [OF assms(1) step nf] view(5, 6) same assms(2) by (simp add: used_def)
qed

lemma goodD:
  assumes "good f s t"
  shows "img_inv t" "keeps {f} s t" "node s g \<Longrightarrow> g \<noteq> f \<Longrightarrow> i < 64 \<Longrightarrow> fld t g i = fld s g i"
    "node t g \<Longrightarrow> \<not> node s g \<Longrightarrow> g \<noteq> f \<Longrightarrow> name0 t g = 0"
  using assms unfolding good_def by blast+

lemma good_trans:
  assumes "good f s t" "good f t u"
  shows "good f s u"
proof -
  have "fld u g i = fld s g i" if "node s g" "g \<noteq> f" "i < 64" for g i
    using goodD(3) [OF assms(1) that] goodD(3) [OF assms(2) keeps_node [OF goodD(2) [OF assms(1)] that(1)] that(2, 3)]
    by simp
  moreover have "name0 u g = 0" if g: "node u g" "\<not> node s g" "g \<noteq> f" for g
  proof (cases "node t g")
    case True
    have "name0 u g = name0 t g" using goodD(3) [OF assms(2) True g(3), of 0] by (simp add: name0_fld)
    then show ?thesis using goodD(4) [OF assms(1) True g(2, 3)] by simp
  next
    case False
    then show ?thesis by (rule goodD(4) [OF assms(2) g(1) _ g(3)])
  qed
  ultimately show ?thesis
    using goodD(1) [OF assms(2)] keeps_trans [OF goodD(2) [OF assms(1)] goodD(2) [OF assms(2)]]
    unfolding good_def by blast
qed

lemma take_block_good_all:
  assumes "img_inv s" "nextbno s < NBLOCK" "ty \<noteq> BLOCK_FREE" "ty = BLOCK_FILE \<longrightarrow> d = (\<lambda>_. 0)"
  shows "good f s (take_block ty d s)"
proof -
  have "name0 (take_block ty d s) g = 0" if g: "node (take_block ty d s) g" "\<not> node s g" for g
  proof -
    obtain b k where b: "g = (Some b, 64 * k)" "k < FILE2BLK" "btype (take_block ty d s) b = BLOCK_FILE"
      using g by (auto simp: node_def)
    then have "b = nextbno s \<and> ty = BLOCK_FILE" using g(2) by (auto simp: node_def take_block_def split: if_splits)
    then show ?thesis using assms(4) b(1) by (simp add: name0_def frame_of_def take_block_def frame_byte_def byte_of_def)
  qed
  then show ?thesis
    using take_block_good [OF assms] take_block_fld [OF assms(1)] keeps_mono [of "{}" s _ "{f}"]
    unfolding good_def by blast
qed

text \<open>No other structure comes into use.\<close>

lemma good_used:
  assumes "good f s t" "used t g" "g \<noteq> f"
  shows "used s g"
proof -
  have g: "node t g" "name0 t g \<noteq> 0" using assms(2) by (simp_all add: used_def)
  then have n: "node s g" using goodD(4) [OF assms(1) g(1) _ assms(3)] by blast
  then show ?thesis using goodD(3) [OF assms(1) n assms(3), of 0] g(2) by (simp add: used_def name0_fld)
qed

text \<open>What linking block \<open>bno\<close> as block \<open>nblk\<close> of \<open>f\<close> does to \<open>f\<close> itself.\<close>

definition linked :: "fptr \<Rightarrow> nat \<Rightarrow> nat \<Rightarrow> image \<Rightarrow> image \<Rightarrow> bool" where
  "linked f nblk bno s t \<longleftrightarrow> used t f \<and> (\<forall>i < 34. fld t f i = fld s f i) \<and> nblk < NINDIRECT \<and> link t f nblk = bno \<and>
     (\<forall>j. j \<noteq> nblk \<longrightarrow> j < NDIRECT \<or> ind s f \<noteq> 0 \<longrightarrow> link t f j = link s f j) \<and>
     (NDIRECT \<le> nblk \<longrightarrow> ind t f \<noteq> 0) \<and> (ind s f \<noteq> 0 \<longrightarrow> ind t f = ind s f) \<and> nextbno s \<le> nextbno t"

lemma head_eq:
  assumes "\<forall>i < 34. fld t f i = fld s f i"
  shows "fsize t f = fsize s f" "is_dir t f = is_dir s f" "name0 t f = name0 s f"
  using assms by (simp_all add: fsize_def is_dir_def name0_fld F_SIZE_def F_TYPE_def)

lemma save_index_linked:
  assumes "img_inv s" "used s f" "bno < NBLOCK" "is_dir s f \<longrightarrow> fsize s f div 4096 \<le> nblk"
    "NDIRECT \<le> nblk" "nblk < NINDIRECT" "ind s f \<noteq> 0"
  shows "good f s (put_index f nblk (of_nat bno) s) \<and> linked f nblk bno s (put_index f nblk (of_nat bno) s)"
proof -
  have nf: "node s f" using assms(2) by (simp add: used_def)
  note view' = put_index_view(3-7) [OF assms(1) nf assms(7), where nblk = nblk and w = "of_nat bno"]
  have n: "unat (of_nat bno :: u32) = bno" using assms(3) by (simp add: unsigned_of_nat take_bit_nat_eq_self NBLOCK_def)
  have "ind (put_index f nblk (of_nat bno) s) f = ind s f" using put_index_view(1) [OF assms(1) nf assms(7) nf] by (simp add: ind_def)
  moreover have "node (put_index f nblk (of_nat bno) s) f" using nf node_cong [OF view'(3)] by simp
  moreover have "name0 (put_index f nblk (of_nat bno) s) f = name0 s f"
    using put_index_view(1) [OF assms(1) nf assms(7) nf] by (simp add: name0_fld)
  moreover have "link (put_index f nblk (of_nat bno) s) f j = link s f j" if "j \<noteq> nblk" for j
    using view'(1, 2) that by (cases "j < NDIRECT") auto
  ultimately show ?thesis
    using put_index_good [OF assms(1, 2, 7, 5, 4)] put_index_view(1) [OF assms(1) nf assms(7) nf] view' n assms(2, 5-7)
    by (simp add: linked_def used_def)
qed

lemma save_block_link_ok:
  assumes s: "img_inv s" "used s f" "bno < NBLOCK" "is_dir s f \<longrightarrow> fsize s f div 4096 \<le> nblk"
    and run: "save_block_link f nblk bno s = Done () t"
  shows "good f s t \<and> linked f nblk bno s t"
proof -
  have nf: "node s f" using s(2) by (simp add: used_def)
  have n: "unat (of_nat k :: u32) = k" if "k < NBLOCK" for k
    using that by (simp add: unsigned_of_nat take_bit_nat_eq_self NBLOCK_def)
  have lt: "nblk < NINDIRECT" using run by (auto simp: save_block_link_def done_rules)
  consider (direct) "nblk < NDIRECT" | (index) "NDIRECT \<le> nblk" "ind s f \<noteq> 0" | (new) "NDIRECT \<le> nblk" "ind s f = 0"
    by linarith
  then show ?thesis
  proof cases
    case direct
    let ?i = "F_DIRECT + nblk"
    have t: "t = set_fld f ?i (of_nat bno) s" using run direct by (simp add: save_block_link_def done_rules)
    have i: "?i < 64" "?i \<noteq> 0" "?i \<noteq> F_INDIRECT" "?i \<noteq> F_SIZE" "?i \<noteq> F_TYPE"
      using direct by (simp_all add: F_DIRECT_def F_INDIRECT_def F_SIZE_def F_TYPE_def NDIRECT_def)
    note same = set_fld_same [OF nf i(1), of "of_nat bno"]
    have link: "link t f j = link s f j" if "j \<noteq> nblk" for j
      using set_fld_same(5) [OF nf i(1) s(1) i(3)] that by (simp add: t)
    have "dir_ok t f" if "is_dir t f"
    proof -
      have "is_dir s f" using that same(3) [OF i(5)] by (simp add: t)
      then have "dir_ok s f" "fsize s f div 4096 \<le> nblk" using img_invD(10) [OF s(1) nf] s(4) by simp_all
      then show ?thesis using same(1) [OF i(3)] same(2) [OF i(4)] link by (simp add: t dir_ok_def)
    qed
    then have "good f s t" unfolding t by (intro set_fld_good [OF s(1, 2) i(1-3)])
    moreover have "link t f nblk = bno"
      using fld_set_fld [OF nf nf i(1), of ?i] i(1) n [OF s(3)] direct by (simp add: t link_def)
    moreover have "\<forall>i < 34. fld t f i = fld s f i"
      using fld_set_fld [OF nf nf i(1)] by (simp add: t F_DIRECT_def)
    ultimately show ?thesis
      using lt link direct same(1) [OF i(3)] s(2) nf head_eq(3) [of t f s] node_cong [of t s] by (simp add: linked_def used_def t)
  next
    case index
    have "t = put_index f nblk (of_nat bno) s"
      using run index by (simp add: save_block_link_def done_rules put_index_def ind_def unsigned_eq_0_iff)
    then show ?thesis using save_index_linked [OF s index(1) lt index(2)] by simp
  next
    case new
    define s1 where "s1 = take_block BLOCK_INDEX (\<lambda>_. 0) s"
    define m where "m = nextbno s"
    define s2 where "s2 = set_fld f F_INDIRECT (of_nat m) s1"
    have r: "m < NBLOCK" "t = put_index f nblk (of_nat bno) s2"
      using run new next_block_run [OF s(1)]
      by (auto simp: save_block_link_def done_rules put_index_def ind_def unsigned_eq_0_iff s1_def s2_def m_def)
    note b1 = take_block_good [OF s(1) r(1) [unfolded m_def], of BLOCK_INDEX "\<lambda>_. 0", folded s1_def, simplified]
      and v1 = take_block_view [OF s(1) nf, of BLOCK_INDEX "\<lambda>_. 0", folded s1_def]
    have u1: "used s1 f" using keeps_used [OF b1(2) s(2)] by simp
    have "btype s1 m = BLOCK_INDEX" by (simp add: s1_def take_block_def m_def)
    moreover have "ind s1 g \<noteq> m" if "node s1 g" for g
    proof -
      have ng: "node s g" using that by (auto simp: node_def s1_def take_block_def split: if_splits)
      then have "btype s (ind s g) \<noteq> BLOCK_FREE" using ind_type [OF s(1) ng] by auto
      then have "ind s g \<noteq> m" using img_invD(6) [OF s(1), of m] by (auto simp: m_def)
      then show ?thesis using take_block_view(1) [OF s(1) ng] by (simp add: s1_def)
    qed
    ultimately have g2: "good f s1 s2"
      unfolding s2_def using set_index_good [OF b1(1) u1 _ r(1)] v1(1) new(2) by simp
    have n1: "node s1 f" and i: "F_INDIRECT < 64" using u1 by (auto simp: used_def F_INDIRECT_def)
    note same = set_fld_same [OF n1 i, of "of_nat m", folded s2_def]
    have h2: "\<forall>i < 34. fld s2 f i = fld s f i"
      using fld_set_fld [OF n1 n1 i] take_block_fld [OF s(1) nf] by (simp add: s2_def s1_def F_INDIRECT_def)
    have i2: "ind s2 f = m" using fld_set_fld [OF n1 n1 i i] n [OF r(1)] by (simp add: s2_def ind_def)
    have m0: "m \<noteq> 0" using img_invD(1) [OF s(1)] by (simp add: m_def)
    have l2: "link s2 f j = link s f j" if "j < NDIRECT" for j
      using that fld_set_fld [OF n1 n1 i] take_block_fld [OF s(1) nf]
      by (simp add: link_def s2_def s1_def F_DIRECT_def F_INDIRECT_def NDIRECT_def)
    have u2: "used s2 f" using u1 h2 head_eq(3) [OF h2] s(2) node_cong [of s2 s1 f] by (simp add: used_def s2_def)
    have d2: "is_dir s2 f \<longrightarrow> fsize s2 f div 4096 \<le> nblk" using s(4) head_eq [OF h2] by simp
    have "img_inv s2" using g2 by (simp add: good_def)
    then have p: "good f s2 t \<and> linked f nblk bno s2 t"
      using save_index_linked [OF _ u2 s(3) d2 new(1) lt] i2 m0 r(2) by simp
    have "nextbno s \<le> nextbno s2" by (simp add: s2_def s1_def take_block_def)
    then have "linked f nblk bno s t"
      using p h2 l2 new i2 m0 by (auto simp: linked_def)
    then show ?thesis
      using p good_trans [OF take_block_good_all [OF s(1) r(1) [unfolded m_def], of BLOCK_INDEX "\<lambda>_. 0" f, folded s1_def, simplified]
        good_trans [OF g2]] by blast
  qed
qed

end
