(* ===== verification/Fsformat_Thms.thy ===== *)
theory Fsformat_Thms
  imports Fsformat_Ops
begin

text \<open>The image holds the whole tree that was given, and its bitmap marks the blocks in use.\<close>

section \<open>Creating a structure\<close>

definition entries :: "image \<Rightarrow> fptr \<Rightarrow> fptr set" where
  "entries s d = {(Some (link s d i), 64 * k) |i k. i < fsize s d div 4096 \<and> k < FILE2BLK}"

lemma entries_node: "dir_ok s d \<Longrightarrow> f \<in> entries s d \<Longrightarrow> node s f"
  by (auto simp: entries_def node_def dir_ok_def)

lemma entries_mono: "kept s t d \<Longrightarrow> is_dir s d \<Longrightarrow> entries s d \<subseteq> entries t d"
  using div_le_mono [of "fsize s d" "fsize t d" 4096]
  by (auto simp: entries_def kept_def) (metis order_less_le_trans)

lemma make_link_block_ok:
  assumes s: "img_inv s" "used s d" "is_dir s d" "nblk = fsize s d div 4096"
    and run: "make_link_block d nblk s = Done bno t"
  shows "img_inv t \<and> keeps {} s t \<and> (Some bno, 0) \<in> entries t d \<and> name0 t (Some bno, 0) = 0 \<and>
    (\<forall>g. used t g \<longrightarrow> used s g)"
proof -
  have nd: "node s d" using s(2) by (simp add: used_def)
  have dk: "dir_ok s d" using img_invD(10) [OF s(1) nd s(3)] .
  define s1 where "s1 = take_block BLOCK_FILE (\<lambda>_. 0) s"
  obtain s2 where r: "bno = nextbno s" "bno < NBLOCK" "save_block_link d nblk bno s1 = Done () s2"
      "t = set_fld d F_SIZE (fld s2 d F_SIZE + 4096) s2"
    using run next_block_run [OF s(1)] by (auto simp: make_link_block_def done_rules s1_def)
  note b1 = take_block_good [OF s(1) r(2) [unfolded r(1)], of BLOCK_FILE "\<lambda>_. 0", folded s1_def, simplified]
    and v1 = take_block_view [OF s(1) nd, of BLOCK_FILE "\<lambda>_. 0", folded s1_def]
  have u1: "used s1 d" using keeps_used [OF b1(2) s(2)] by simp
  have l: "good d s1 s2 \<and> linked d nblk bno s1 s2"
    using save_block_link_ok [OF b1(1) u1 r(2) _ r(3)] v1 s(4) by simp
  have u2: "used s2 d" and h2: "\<forall>i < 34. fld s2 d i = fld s1 d i" using l by (simp_all add: linked_def)
  have n2: "node s2 d" using u2 by (simp add: used_def)
  have i: "F_SIZE < 64" "F_SIZE \<noteq> 0" "F_SIZE \<noteq> F_INDIRECT" "F_SIZE \<noteq> F_TYPE"
    by (simp_all add: F_SIZE_def F_INDIRECT_def F_TYPE_def)
  note same = set_fld_same [OF n2 i(1), where w = "fld s2 d F_SIZE + 4096", folded r(4)]
  have f2: "fsize s2 d = fsize s d" "is_dir s2 d" using head_eq [OF h2] v1 s(3) by simp_all
  have nb: "nblk < 1024" "fsize s d = 4096 * nblk" using l dk s(4) by (auto simp: linked_def NINDIRECT_def dir_ok_def)
  have ft: "fsize t d = 4096 * (nblk + 1)"
  proof -
    have "unat (fld s2 d F_SIZE) = 4096 * nblk" using f2(1) nb(2) by (simp add: fsize_def)
    then have "unat (fld s2 d F_SIZE + of_nat 4096) = 4096 * nblk + 4096"
      using nb(1) by (subst unat_add_nat) simp_all
    then show ?thesis using fld_set_fld [OF n2 n2 i(1) i(1)] by (simp add: fsize_def r(4))
  qed
  have old: "j < NDIRECT \<or> ind s1 d \<noteq> 0" if "j < nblk" for j
    using dk that s(4) v1(1) by (auto simp: dir_ok_def)
  have "link t d j = link s2 d j" for j
    unfolding r(4) by (rule set_fld_same(5) [OF n2 i(1)])
      (use l i in \<open>simp_all add: good_def F_SIZE_def F_DIRECT_def\<close>)
  then have lt: "link t d nblk = bno" "j < nblk \<Longrightarrow> link t d j = link s d j" for j
    using l old v1(5) by (auto simp: linked_def)
  have bt: "btype t = btype s2" by (simp add: r(4))
  have k12: "btype s2 n = btype s1 n" if "btype s1 n \<noteq> BLOCK_FREE" for n
    using keepsD(1) [OF goodD(2)] l that by blast
  have tf: "btype t bno = BLOCK_FILE" using k12 [of bno] by (simp add: bt s1_def take_block_def r(1))
  have "dir_ok t d"
  proof -
    have "i < NINDIRECT \<and> (NDIRECT \<le> i \<longrightarrow> ind t d \<noteq> 0) \<and> btype t (link t d i) = BLOCK_FILE" if "i < nblk + 1" for i
    proof (cases "i = nblk")
      case True
      then show ?thesis using l lt(1) tf same(1) [OF i(3)] by (simp add: linked_def)
    next
      case False
      then have il: "i < nblk" using that by simp
      have o: "i < NINDIRECT" "NDIRECT \<le> i \<longrightarrow> ind s d \<noteq> 0" "btype s (link s d i) = BLOCK_FILE"
        using dk il s(4) by (simp_all add: dir_ok_def)
      have "btype t (link s d i) = BLOCK_FILE"
        using o(3) keepsD(1) [OF b1(2), of "link s d i"] k12 [of "link s d i"] by (simp add: bt)
      then show ?thesis using o(1, 2) lt(2) [OF il] same(1) [OF i(3)] l v1(1) by (auto simp: linked_def)
    qed
    then show ?thesis using ft by (simp add: dir_ok_def)
  qed
  then have g3: "good d s2 t"
    unfolding r(4) using l by (intro set_fld_good u2 i) (simp_all add: good_def)
  have g1: "good d s s1" unfolding s1_def by (rule take_block_good_all [OF s(1)]) (use r in simp_all)
  have g: "good d s t" using good_trans [OF g1 good_trans [OF conjunct1 [OF l] g3]] .
  have "kept s t d"
  proof -
    have "fld t d i = fld s d i" if "i < 32" for i
      using that h2 take_block_fld [OF s(1) nd] fld_set_fld [OF n2 n2 i(1)] by (simp add: r(4) s1_def F_SIZE_def)
    then show ?thesis using s(3, 4) same(3) [OF i(4)] f2 ft nb lt(2) by (simp add: kept_def)
  qed
  then have "keeps {} s t" using goodD(2) [OF g] unfolding keeps_def by blast
  moreover have "(Some bno, 0) \<in> entries t d"
  proof -
    have "(Some bno, 0) = (Some (link t d nblk), 64 * (0 :: nat)) \<and> nblk < fsize t d div 4096 \<and> (0 :: nat) < FILE2BLK"
      using lt(1) ft by (simp add: FILE2BLK_def)
    then show ?thesis unfolding entries_def by blast
  qed
  moreover have "name0 t (Some bno, 0) = 0"
  proof -
    have n1: "node s1 (Some bno, 0)" by (simp add: node_def s1_def take_block_def r(1) FILE2BLK_def)
    have "\<not> node s (Some bno, 0)" using img_invD(6) [OF s(1), of bno] by (auto simp: node_def root_def r(1))
    then have ne: "(Some bno, 0) \<noteq> d" using nd by blast
    have "fld t (Some bno, 0) 0 = fld s1 (Some bno, 0) 0"
      using goodD(3) [OF good_trans [OF conjunct1 [OF l] g3] n1 ne] by simp
    then show ?thesis by (simp add: name0_fld) (simp add: fld_def frame_of_def s1_def take_block_def r(1) byte_of_def)
  qed
  moreover have "used s g" if "used t g" for g using good_used [OF g that] s(2) by (cases "g = d") auto
  ultimately show ?thesis using goodD(1) [OF g] by blast
qed

lemma find_slot_entry:
  "find_slot s d is = Some f \<Longrightarrow>
     \<exists>i k. i \<in> set is \<and> k < FILE2BLK \<and> f = (Some (link s d i), 64 * k) \<and> name0 s f = 0"
proof (induction "is")
  case (Cons i js)
  show ?case
  proof (cases "free_slot (blk s (link s d i))")
    case None
    then show ?thesis using Cons by auto
  next
    case (Some k)
    then have "k < FILE2BLK" "frame_byte (blk s (link s d i)) (256 * k) = 0"
      by (auto simp: free_slot_def find_Some_iff)
    then show ?thesis using Some Cons.prems by (auto simp: name0_def frame_of_def)
  qed
qed simp

lemma create_file_ok:
  assumes "img_inv s" "used s d" "is_dir s d" "create_file d s = Done f t"
  shows "img_inv t \<and> keeps {} s t \<and> f \<in> entries t d \<and> name0 t f = 0 \<and> (\<forall>g. used t g \<longrightarrow> used s g)"
proof (cases "find_slot s d [0..<fsize s d div 4096]")
  case None
  then obtain bno where "make_link_block d (fsize s d div 4096) s = Done bno t" "f = (Some bno, 0)"
    using assms(4) by (auto simp: create_file_def done_rules fsize_def)
  then show ?thesis using make_link_block_ok [OF assms(1-3) refl] by blast
next
  case (Some g)
  then have "g = f" "t = s" using assms(4) by (auto simp: create_file_def done_rules fsize_def)
  then show ?thesis using find_slot_entry [OF Some] assms(1) by (auto simp: entries_def)
qed

section \<open>Files\<close>

text \<open>The bytes of a name, and a file's blocks from \<open>iblk\<close> on.\<close>

definition nbyte :: "image \<Rightarrow> fptr \<Rightarrow> nat \<Rightarrow> u8" where
  "nbyte s f i = byte_of (fld s f (i div 4)) (i mod 4)"

definition named :: "image \<Rightarrow> fptr \<Rightarrow> u8 list \<Rightarrow> bool" where
  "named s f w \<longleftrightarrow> length w < 128 \<and> (\<forall>i < length w. nbyte s f i = w ! i) \<and> nbyte s f (length w) = 0"

definition file_has :: "image \<Rightarrow> fptr \<Rightarrow> nat \<Rightarrow> u8 list \<Rightarrow> bool" where
  "file_has s f iblk content \<longleftrightarrow> (\<forall>x < length content.
     iblk + x div 4096 < NINDIRECT \<and> btype s (link s f (iblk + x div 4096)) = BLOCK_DATA \<and>
     frame_byte (blk s (link s f (iblk + x div 4096))) (x mod 4096) = content ! x)"

lemma nbyte_set_name:
  assumes "i < length w"
  shows "nbyte (set_name f w s) f i = w ! i"
proof -
  have "nbyte (set_name f w s) f i = frame_byte (put_bytes (4 * snd f) w (frame_of s (fst f))) (4 * snd f + i)"
    by (simp add: nbyte_def fld_def set_name_def frame_byte_def)
  then show ?thesis using assms by (simp add: put_bytes_byte)
qed

lemma named_cong:
  assumes "\<forall>i < 32. fld t f i = fld s f i"
  shows "named t f w = named s f w"
proof -
  have "nbyte t f i = nbyte s f i" if "i < 128" for i
    using assms that by (simp add: nbyte_def less_mult_imp_div_less)
  then show ?thesis by (auto simp: named_def)
qed

lemma write_blocks_ok:
  "img_inv s \<Longrightarrow> used s f \<Longrightarrow> \<not> is_dir s f \<Longrightarrow> \<forall>j < iblk. j < NDIRECT \<or> ind s f \<noteq> 0 \<Longrightarrow>
    write_blocks f iblk content s = Done () t \<Longrightarrow>
    good f s t \<and> used t f \<and> (\<forall>i < 34. fld t f i = fld s f i) \<and> (\<forall>j < iblk. link t f j = link s f j) \<and>
    file_has t f iblk content"
proof (induction f iblk content arbitrary: s rule: write_blocks.induct)
  case (1 f iblk content)
  show ?case
  proof (cases "content = []")
    case True
    then have "t = s" using 1(6) by (subst (asm) write_blocks.simps) (simp add: done_rules)
    then show ?thesis using 1(2, 3) True by (simp add: good_def file_has_def)
  next
    case False
    define n where "n = nextbno s"
    define d where "d = put_bytes 0 (take 4096 content) (\<lambda>_. 0)"
    define s1 where "s1 = take_block BLOCK_DATA d s"
    have "blk s n = (\<lambda>_. 0)" using img_invD(6, 7) [OF 1(2), of n] by (simp add: n_def)
    then have "n < NBLOCK \<and> (\<exists>s2. save_block_link f iblk n s1 = Done () s2 \<and>
        write_blocks f (iblk + 1) (drop 4096 content) s2 = Done () t)"
      using 1(6) False by (subst (asm) write_blocks.simps)
        (auto simp: done_rules next_block_def s1_def take_block_def d_def n_def)
    then obtain s2 where r: "n < NBLOCK" "save_block_link f iblk n s1 = Done () s2"
        "write_blocks f (iblk + 1) (drop 4096 content) s2 = Done () t" by blast
    have nf: "node s f" using 1(3) by (simp add: used_def)
    note b1 = take_block_good [OF 1(2) r(1) [unfolded n_def], of BLOCK_DATA d, folded s1_def, simplified]
      and v1 = take_block_view [OF 1(2) nf, of BLOCK_DATA d, folded s1_def]
    have g1: "good f s s1" unfolding s1_def by (rule take_block_good_all [OF 1(2)]) (use r(1) in \<open>simp_all add: n_def\<close>)
    have u1: "used s1 f" using keeps_used [OF b1(2) 1(3)] by simp
    have l: "good f s1 s2" "linked f iblk n s1 s2"
      using save_block_link_ok [OF b1(1) u1 r(1) _ r(2)] v1(3) 1(4) by simp_all
    have h2: "\<forall>i < 34. fld s2 f i = fld s f i"
      using l(2) take_block_fld [OF 1(2) nf] by (simp add: linked_def s1_def)
    have "\<forall>j < iblk + 1. j < NDIRECT \<or> ind s2 f \<noteq> 0" using l(2) by (auto simp: linked_def)
    then have ih: "good f s2 t \<and> used t f \<and> (\<forall>i < 34. fld t f i = fld s2 f i) \<and>
        (\<forall>j < iblk + 1. link t f j = link s2 f j) \<and> file_has t f (iblk + 1) (drop 4096 content)"
      using 1(1) [OF False goodD(1) [OF l(1)]] l(2) head_eq(2) [OF h2] 1(4) r(3) by (simp add: linked_def)
    have t1: "btype s1 n = BLOCK_DATA" "blk s1 n = d" by (simp_all add: s1_def take_block_def n_def)
    have g12: "good f s1 t" using good_trans [OF l(1)] ih by blast
    have tn: "btype t n = BLOCK_DATA" "blk t n = d"
      using keepsD(1, 2) [OF goodD(2) [OF g12], of n] t1 by simp_all
    have ln: "link t f iblk = n" using ih l(2) by (simp add: linked_def)
    have "file_has t f iblk content"
      unfolding file_has_def
    proof (intro allI impI)
      fix x assume x: "x < length content"
      show "iblk + x div 4096 < NINDIRECT \<and> btype t (link t f (iblk + x div 4096)) = BLOCK_DATA \<and>
        frame_byte (blk t (link t f (iblk + x div 4096))) (x mod 4096) = content ! x"
      proof (cases "x < 4096")
        case True
        then show ?thesis using ln tn l(2) x by (simp add: d_def put_bytes_byte linked_def)
      next
        case False
        then have y: "x - 4096 < length (drop 4096 content)" "x div 4096 = 1 + (x - 4096) div 4096"
            "x mod 4096 = (x - 4096) mod 4096"
          using x by (auto simp: le_div_geq le_mod_geq)
        have "file_has t f (iblk + 1) (drop 4096 content)" using ih by blast
        from this [unfolded file_has_def, rule_format, OF y(1)] show ?thesis
          using y(2, 3) False x by (simp add: add.assoc)
      qed
    qed
    moreover have "\<forall>j < iblk. link t f j = link s f j"
      using ih l(2) v1(1, 5) 1(5) by (auto simp: linked_def)
    ultimately show ?thesis using good_trans [OF g1 g12] ih h2 by simp
  qed
qed

text \<open>A structure of directory \<open>d\<close> that holds a file.\<close>

definition file_at :: "image \<Rightarrow> fptr \<Rightarrow> u8 list \<Rightarrow> u8 list \<Rightarrow> bool" where
  "file_at s d w content \<longleftrightarrow> (\<exists>f \<in> entries s d. used s f \<and> named s f w \<and> \<not> is_dir s f \<and>
     fld s f F_SIZE = of_nat (length content) \<and> file_has s f 0 content)"

text \<open>The blocks of a regular file are data blocks.\<close>

definition data_ok :: "image \<Rightarrow> fptr \<Rightarrow> bool" where
  "data_ok s f \<longleftrightarrow> (\<forall>i < (fsize s f + 4095) div 4096. i < NINDIRECT \<and> btype s (link s f i) = BLOCK_DATA)"

definition files_typed :: "image \<Rightarrow> bool" where
  "files_typed s \<longleftrightarrow> (\<forall>f. used s f \<longrightarrow> \<not> is_dir s f \<longrightarrow> data_ok s f)"

lemma file_has_data_ok:
  assumes "fld s f F_SIZE = of_nat (length content)" "file_has s f 0 content"
  shows "data_ok s f"
  unfolding data_ok_def
proof (intro allI impI)
  fix i assume i: "i < (fsize s f + 4095) div 4096"
  have l: "length content \<le> 4096 * NINDIRECT"
  proof (cases "length content = 0")
    case False
    then have "(length content - 1) div 4096 < NINDIRECT" using assms(2) by (simp add: file_has_def)
    then show ?thesis by (simp add: NINDIRECT_def)
  qed simp
  then have "fsize s f = length content"
    unfolding fsize_def assms(1) by (intro unat_of_nat_len) (simp add: NINDIRECT_def)
  then have "4096 * i < length content" using i by linarith
  from assms(2) [unfolded file_has_def, rule_format, OF this]
  show "i < NINDIRECT \<and> btype s (link s f i) = BLOCK_DATA" by simp
qed

lemma data_ok_mono:
  assumes "keeps {} s t" "used s f" "\<not> is_dir s f" "data_ok s f"
  shows "\<not> is_dir t f" "data_ok t f"
proof -
  have k: "kept s t f" using keepsD(5) [OF assms(1, 2)] by simp
  then show "\<not> is_dir t f" using assms(3) by (simp add: kept_def)
  have "btype t n = BLOCK_DATA" if "btype s n = BLOCK_DATA" for n
    using keepsD(1) [OF assms(1), of n] that by simp
  then show "data_ok t f" using assms(3, 4) k by (simp add: data_ok_def kept_def)
qed

text \<open>The typing survives a step after which only \<open>f\<close> is newly in use.\<close>

lemma files_typed_step:
  assumes "files_typed s" "keeps {} s t" "\<And>g. used t g \<Longrightarrow> g = f \<or> used s g" "is_dir t f \<or> data_ok t f"
  shows "files_typed t"
  unfolding files_typed_def
proof (intro allI impI)
  fix g assume g: "used t g" "\<not> is_dir t g"
  show "data_ok t g"
  proof (cases "g = f")
    case True
    then show ?thesis using assms(4) g(2) by blast
  next
    case False
    then have u: "used s g" using assms(3) g(1) by blast
    then have "\<not> is_dir s g" using keepsD(5) [OF assms(2) u] g(2) by (auto simp: kept_def)
    then show ?thesis using data_ok_mono(2) [OF assms(2) u] assms(1) u unfolding files_typed_def by blast
  qed
qed

lemma entry_unused:
  assumes "img_inv s" "used s d" "is_dir s d" "f \<in> entries s d" "name0 s f = 0"
  shows "node s f" "\<not> used s f" "\<not> is_dir s f" "fsize s f = 0" "f \<noteq> d"
proof -
  have "node s d" using assms(2) by (simp add: used_def)
  then show n: "node s f" using entries_node [OF img_invD(10) [OF assms(1) _ assms(3)] assms(4)] by simp
  show "\<not> used s f" "\<not> is_dir s f" "fsize s f = 0" "f \<noteq> d"
    using img_invD(11) [OF assms(1) n assms(5)] assms(2, 5) by (auto simp: used_def)
qed

text \<open>A fresh structure gets its name.\<close>

lemma name_entry:
  assumes s: "img_inv s" "node s f" "name0 s f = 0" and w: "w \<noteq> []" "hd w \<noteq> 0" "length w \<le> 128"
  shows "good f s (set_name f w s)" "used (set_name f w s) f" "\<not> is_dir (set_name f w s) f"
    "fsize (set_name f w s) f = 0"
proof -
  show "good f s (set_name f w s)" by (rule set_name_good [OF s(1, 2) w])
  have "nbyte (set_name f w s) f 0 = hd w" using nbyte_set_name [of 0 w f s] w(1) by (simp add: hd_conv_nth)
  then show "used (set_name f w s) f"
    using s(2) w(2) node_cong [of "set_name f w s" s] by (simp add: used_def nbyte_def name0_fld)
  have "fld (set_name f w s) f i = fld s f i" if "32 \<le> i" "i < 64" for i
    by (rule fld_set_name [OF w(3) s(2, 2)]) (use that in simp_all)
  then show "\<not> is_dir (set_name f w s) f" "fsize (set_name f w s) f = 0"
    using img_invD(11) [OF s] by (simp_all add: is_dir_def fsize_def F_TYPE_def F_SIZE_def)
qed

lemma keeps_entry:
  assumes "keeps {} s s1" "keeps {f} s1 t" "\<not> used s1 f" "used s d" "is_dir s d"
  shows "keeps {} s t" "entries s1 d \<subseteq> entries t d"
proof -
  have k: "keeps {} s1 t" by (rule keeps_unused [OF assms(2, 3)])
  then show "keeps {} s t" by (rule keeps_trans [OF assms(1)])
  have "is_dir s1 d" using keepsD(5) [OF assms(1, 4)] assms(5) by (simp add: kept_def)
  then show "entries s1 d \<subseteq> entries t d"
    using entries_mono keepsD(5) [OF k keeps_used [OF assms(1, 4)]] by simp
qed

lemma write_file_ok:
  assumes s: "img_inv s" "used s d" "is_dir s d" and w: "base_name path \<noteq> []" "0 \<notin> set (base_name path)"
    and run: "write_file d path content s = Done () t"
  shows "img_inv t \<and> keeps {} s t \<and> file_at t d (base_name path) content \<and> (files_typed s \<longrightarrow> files_typed t)"
proof -
  let ?w = "base_name path @ [0]"
  obtain f s1 where r1: "create_file d s = Done f s1" "length (base_name path) < 128"
      "write_blocks f 0 content (set_fld f F_TYPE 0 (set_fld f F_SIZE (of_nat (length content)) (set_name f ?w s1))) = Done () t"
    using run by (auto simp: write_file_def done_rules)
  define s2 where "s2 = set_name f ?w s1"
  define s3 where "s3 = set_fld f F_SIZE (of_nat (length content)) s2"
  define s4 where "s4 = set_fld f F_TYPE 0 s3"
  have c: "img_inv s1" "keeps {} s s1" "f \<in> entries s1 d" "name0 s1 f = 0"
    and cu: "\<And>g. used s1 g \<Longrightarrow> used s g"
    using create_file_ok [OF s r1(1)] by blast+
  have d1: "used s1 d" "is_dir s1 d"
    using keeps_used [OF c(2) s(2)] keepsD(5) [OF c(2) s(2)] s(3) by (simp_all add: kept_def)
  note e = entry_unused [OF c(1) d1 c(3, 4)]
  have "hd (base_name path) \<noteq> 0" using hd_in_set [OF w(1)] w(2) by metis
  then have hw: "?w \<noteq> []" "hd ?w \<noteq> 0" "length ?w \<le> 128"
    using w(1) r1(2) by (auto simp: hd_append)
  note n2 = name_entry [OF c(1) e(1) c(4) hw, folded s2_def]
  have nf: "node s2 f" using n2(2) by (simp add: used_def)
  have F: "F_SIZE < 64" "F_SIZE \<noteq> 0" "F_SIZE \<noteq> F_INDIRECT" "F_SIZE \<noteq> F_TYPE"
    "F_TYPE < 64" "F_TYPE \<noteq> 0" "F_TYPE \<noteq> F_INDIRECT"
    by (simp_all add: F_SIZE_def F_TYPE_def F_INDIRECT_def)
  have d3: "\<not> is_dir s3 f" using set_fld_same(3) [OF nf F(1, 4)] n2(3) by (simp add: s3_def)
  have g3: "good f s2 s3"
    unfolding s3_def by (rule set_fld_good [OF goodD(1) [OF n2(1)] n2(2) F(1-3)]) (use d3 in \<open>simp add: s3_def\<close>)
  have n3: "node s3 f" using nf node_cong [of s3 s2] by (simp add: s3_def)
  have u3: "used s3 f" using n3 n2(2) set_fld_same(4) [OF nf F(1, 2)] by (simp add: used_def s3_def)
  have d4: "\<not> is_dir s4 f" using fld_set_fld [OF n3 n3 F(5, 5)] by (simp add: s4_def is_dir_def)
  have g4: "good f s3 s4"
    unfolding s4_def by (rule set_fld_good [OF goodD(1) [OF g3] u3 F(5-7)]) (use d4 in \<open>simp add: s4_def\<close>)
  have u4: "used s4 f"
    using n3 node_cong [of s4 s3] u3 set_fld_same(4) [OF n3 F(5, 6)] by (simp add: used_def s4_def)
  have fb: "good f s4 t" "used t f" "\<forall>i < 34. fld t f i = fld s4 f i" "file_has t f 0 content"
    using write_blocks_ok [OF goodD(1) [OF g4] u4 d4 _ r1(3) [folded s2_def s3_def s4_def]] by auto
  have nm: "\<forall>i < 32. fld t f i = fld s2 f i"
    using fb(3) fld_set_fld [OF n3 n3 F(5)] fld_set_fld [OF nf nf F(1)]
    by (simp add: s4_def s3_def F_SIZE_def F_TYPE_def)
  have "nbyte s2 f i = ?w ! i" if "i < length ?w" for i unfolding s2_def by (rule nbyte_set_name [OF that])
  then have "named s2 f (base_name path)" using r1(2) by (simp add: named_def nth_append less_Suc_eq)
  then have "named t f (base_name path)" using named_cong [OF nm] by simp
  moreover have sz: "fld t f F_SIZE = of_nat (length content)"
    using fb(3) fld_set_fld [OF n3 n3 F(5) F(1)] fld_set_fld [OF nf nf F(1) F(1)] F(4) by (simp add: s4_def s3_def F_SIZE_def F_TYPE_def)
  moreover have "\<not> is_dir t f" using head_eq(2) [OF fb(3)] d4 by simp
  moreover have g: "good f s1 t" using good_trans [OF n2(1) good_trans [OF g3 good_trans [OF g4 fb(1)]]] .
  note ke = keeps_entry [OF c(2) goodD(2) [OF g] e(2) s(2, 3)]
  moreover have "files_typed t" if "files_typed s"
    by (rule files_typed_step [OF that ke(1)])
      (use good_used [OF g] cu file_has_data_ok [OF sz fb(4)] in blast)+
  ultimately show ?thesis
    using goodD(1) [OF g] ke c(3) fb(2, 4) unfolding file_at_def by blast
qed

section \<open>Directories\<close>

text \<open>The image holds the host's tree: every file under its name with its contents.\<close>

fun holds :: "image \<Rightarrow> fptr \<Rightarrow> u8 list \<Rightarrow> host \<Rightarrow> bool"
  and holds_all :: "image \<Rightarrow> fptr \<Rightarrow> u8 list \<Rightarrow> (u8 list \<times> host) list \<Rightarrow> bool" where
  "holds s d path (Reg content) = file_at s d (base_name path) content"
| "holds s d path (Dir es) = (\<exists>f \<in> entries s d. used s f \<and> named s f (take 127 (base_name path)) \<and> is_dir s f \<and>
     holds_all s f path es)"
| "holds_all s f path [] = True"
| "holds_all s f path ((n, h) # es) =
     ((n = [0x2E] \<or> n = [0x2E, 0x2E] \<or> holds s f (path @ [0x2F] @ n) h) \<and> holds_all s f path es)"

text \<open>Names are not empty and have no zero byte.\<close>

fun valid_node :: "u8 list \<Rightarrow> host \<Rightarrow> bool"
  and valid_all :: "u8 list \<Rightarrow> (u8 list \<times> host) list \<Rightarrow> bool" where
  "valid_node path (Reg content) = (base_name path \<noteq> [] \<and> 0 \<notin> set (base_name path))"
| "valid_node path (Dir es) = (base_name path \<noteq> [] \<and> 0 \<notin> set (base_name path) \<and> valid_all path es)"
| "valid_all path [] = True"
| "valid_all path ((n, h) # es) =
     ((n = [0x2E] \<or> n = [0x2E, 0x2E] \<or> valid_node (path @ [0x2F] @ n) h) \<and> valid_all path es)"

definition view_kept :: "image \<Rightarrow> image \<Rightarrow> bool" where
  "view_kept s t \<longleftrightarrow> (\<forall>f. used s f \<longrightarrow> used t f \<and> kept s t f) \<and>
     (\<forall>n. btype s n = BLOCK_DATA \<longrightarrow> btype t n = BLOCK_DATA \<and> blk t n = blk s n)"

lemma view_keptD:
  assumes "view_kept s t"
  shows "used s f \<Longrightarrow> used t f" "used s f \<Longrightarrow> kept s t f"
    "btype s n = BLOCK_DATA \<Longrightarrow> btype t n = BLOCK_DATA" "btype s n = BLOCK_DATA \<Longrightarrow> blk t n = blk s n"
  using assms unfolding view_kept_def by blast+

lemma keeps_view: "keeps {} s t \<Longrightarrow> view_kept s t"
  unfolding view_kept_def using keeps_used keepsD(1, 2, 5)
  by (metis block_type.distinct(7) empty_iff insertI1 insertI2)

lemma file_at_mono:
  assumes v: "view_kept s t" and d: "used s d" "is_dir s d" and h: "file_at s d w content"
  shows "file_at t d w content"
proof -
  obtain f where f: "f \<in> entries s d" "used s f" "named s f w" "\<not> is_dir s f"
      "fld s f F_SIZE = of_nat (length content)" "file_has s f 0 content"
    using h by (auto simp: file_at_def)
  have k: "kept s t f" by (rule view_keptD(2) [OF v f(2)])
  have "f \<in> entries t d" using entries_mono [OF view_keptD(2) [OF v d(1)] d(2)] f(1) by blast
  moreover have "named t f w" using named_cong [of t f s w] k f(3) by (simp add: kept_def)
  moreover have "\<not> is_dir t f" using k f(4) by (simp add: kept_def)
  moreover have "fld t f F_SIZE = of_nat (length content)"
  proof -
    have "unat (fld t f F_SIZE) = unat (fld s f F_SIZE)" using k f(4) by (simp add: kept_def fsize_def)
    then show ?thesis using f(5) by (simp only: word_unat_eq_iff)
  qed
  moreover have "file_has t f 0 content"
    using f(6) k f(4) view_keptD(3, 4) [OF v] by (simp add: file_has_def kept_def)
  ultimately show ?thesis using view_keptD(1) [OF v f(2)] unfolding file_at_def by blast
qed

lemma holds_mono:
  "view_kept s t \<Longrightarrow> used s d \<Longrightarrow> is_dir s d \<Longrightarrow> holds s d path h \<Longrightarrow> holds t d path h"
  "view_kept s t \<Longrightarrow> used s d \<Longrightarrow> is_dir s d \<Longrightarrow> holds_all s d path es \<Longrightarrow> holds_all t d path es"
proof (induction s d path h and s d path es rule: holds_holds_all.induct)
  case (1 s d path content)
  then show ?case using file_at_mono by simp
next
  case (2 s d path es)
  then obtain f where f: "f \<in> entries s d" "used s f" "named s f (take 127 (base_name path))" "is_dir s f"
      "holds_all s f path es" by auto
  have k: "kept s t f" by (rule view_keptD(2) [OF 2(2) f(2)])
  have "f \<in> entries t d" using entries_mono [OF view_keptD(2) [OF 2(2, 3)] 2(4)] f(1) by blast
  moreover have "named t f (take 127 (base_name path))" using named_cong [of t f s] k f(3) by (simp add: kept_def)
  moreover have "is_dir t f" using k f(4) by (simp add: kept_def)
  moreover have "holds_all t f path es" by (rule 2(1) [OF f(1) 2(2) f(2, 4, 5)])
  ultimately show ?case using view_keptD(1) [OF 2(2) f(2)] by auto
qed auto

lemma dir_name_props:
  assumes "base_name path \<noteq> []" "0 \<notin> set (base_name path)"
  shows "dir_name path \<noteq> []" "hd (dir_name path) \<noteq> 0" "length (dir_name path) = 127"
proof -
  show l: "length (dir_name path) = 127" by (simp add: dir_name_def Let_def)
  then show "dir_name path \<noteq> []" by auto
  have "hd (dir_name path) = hd (base_name path)"
    using assms(1) by (cases "base_name path") (simp_all add: dir_name_def Let_def)
  then show "hd (dir_name path) \<noteq> 0" using hd_in_set [OF assms(1)] assms(2) by metis
qed

lemma dir_name_named:
  assumes "\<And>i. i < 127 \<Longrightarrow> nbyte s f i = dir_name path ! i" "nbyte s f 127 = 0"
  shows "named s f (take 127 (base_name path))"
proof -
  have "nbyte s f i = take 127 (base_name path) ! i" if "i < length (take 127 (base_name path))" for i
    using assms(1) [of i] that by (simp add: dir_name_def Let_def nth_append)
  moreover have "nbyte s f (length (take 127 (base_name path))) = 0"
  proof (cases "length (base_name path) < 127")
    case True
    then show ?thesis using assms(1) [of "length (base_name path)"] by (simp add: dir_name_def Let_def nth_append)
  next
    case False
    then show ?thesis using assms(2) by (simp add: min_def)
  qed
  ultimately show ?thesis by (simp add: named_def)
qed

lemma make_dir_ok:
  assumes s: "img_inv s" "used s d" "is_dir s d" and w: "base_name path \<noteq> []" "0 \<notin> set (base_name path)"
    and run: "create_file d s = Done f s1" "s3 = set_fld f F_TYPE 1 (set_name f (dir_name path) s1)"
      "frame_byte (frame_of (set_name f (dir_name path) s1) (fst f)) (4 * snd f + 127) = 0"
  shows "img_inv s3" "used s3 f" "is_dir s3 f" "f \<in> entries s1 d" "\<not> used s1 f" "good f s1 s3" "keeps {} s s1"
    "named s3 f (take 127 (base_name path))" "\<And>g. used s1 g \<Longrightarrow> used s g"
proof -
  define s2 where "s2 = set_name f (dir_name path) s1"
  note dn = dir_name_props [OF w]
  have c: "img_inv s1" "keeps {} s s1" "f \<in> entries s1 d" "name0 s1 f = 0"
    using create_file_ok [OF s run(1)] by simp_all
  show "\<And>g. used s1 g \<Longrightarrow> used s g" using create_file_ok [OF s run(1)] by blast
  have d1: "used s1 d" "is_dir s1 d"
    using keeps_used [OF c(2) s(2)] keepsD(5) [OF c(2) s(2)] s(3) by (simp_all add: kept_def)
  note e = entry_unused [OF c(1) d1 c(3, 4)]
  note n2 = name_entry [OF c(1) e(1) c(4) dn(1, 2), folded s2_def]
  have g2: "good f s1 s2" "used s2 f" "fsize s2 f = 0" using n2 dn(3) by simp_all
  have nf: "node s2 f" using g2(2) by (simp add: used_def)
  have F: "F_TYPE < 64" "F_TYPE \<noteq> 0" "F_TYPE \<noteq> F_INDIRECT" "F_TYPE \<noteq> F_SIZE"
    by (simp_all add: F_TYPE_def F_INDIRECT_def F_SIZE_def)
  have s3: "s3 = set_fld f F_TYPE 1 s2" using run(2) by (simp add: s2_def)
  have "dir_ok s3 f" using set_fld_same(2) [OF nf F(1, 4)] g2(3) by (simp add: dir_ok_def s3)
  then have g3: "good f s2 s3" unfolding s3 by (intro set_fld_good [OF goodD(1) [OF g2(1)] g2(2) F(1-3)])
  show "img_inv s3" using goodD(1) [OF g3] .
  show "used s3 f" using g2(2) node_cong [of s3 s2] set_fld_same(4) [OF nf F(1, 2)] by (simp add: used_def s3)
  show "is_dir s3 f" using fld_set_fld [OF nf nf F(1, 1)] by (simp add: is_dir_def s3)
  show "f \<in> entries s1 d" "\<not> used s1 f" "keeps {} s s1" by (rule c(3), rule e(2), rule c(2))
  show "good f s1 s3" by (rule good_trans [OF g2(1) g3])
  have "nbyte s2 f i = dir_name path ! i" if "i < 127" for i
    unfolding s2_def by (rule nbyte_set_name) (use that dn(3) in simp)
  moreover have "nbyte s2 f 127 = 0" using run(3) by (simp add: s2_def nbyte_def fld_def frame_byte_def)
  ultimately have "named s2 f (take 127 (base_name path))" by (rule dir_name_named)
  moreover have "\<forall>i < 32. fld s3 f i = fld s2 f i" using fld_set_fld [OF nf nf F(1)] by (simp add: s3 F_TYPE_def)
  ultimately show "named s3 f (take 127 (base_name path))" using named_cong by blast
qed

lemma write_node_ok:
  "img_inv s \<Longrightarrow> used s d \<Longrightarrow> is_dir s d \<Longrightarrow> valid_node path h \<Longrightarrow> write_node d path h s = Done () t \<Longrightarrow>
     img_inv t \<and> keeps {} s t \<and> holds t d path h \<and> (files_typed s \<longrightarrow> files_typed t)"
  "img_inv s \<Longrightarrow> used s d \<Longrightarrow> is_dir s d \<Longrightarrow> valid_all path es \<Longrightarrow> write_entries d path es s = Done () t \<Longrightarrow>
     img_inv t \<and> keeps {} s t \<and> holds_all t d path es \<and> (files_typed s \<longrightarrow> files_typed t)"
proof (induction d path h and d path es arbitrary: s t and s t rule: write_node_write_entries.induct)
  case (1 d path content)
  have w: "base_name path \<noteq> []" "0 \<notin> set (base_name path)" "write_file d path content s = Done () t"
    using 1(4, 5) by simp_all
  show ?case using write_file_ok [OF 1(1-3) w] by simp
next
  case (2 d path es)
  have w: "base_name path \<noteq> []" "0 \<notin> set (base_name path)" "valid_all path es" using 2(5) by simp_all
  obtain f s1 where r: "create_file d s = Done f s1"
      "frame_byte (frame_of (set_name f (dir_name path) s1) (fst f)) (4 * snd f + 127) = 0"
      "write_entries f path es (set_fld f F_TYPE 1 (set_name f (dir_name path) s1)) = Done () t"
    using 2(6) by (auto simp: done_rules)
  define s3 where "s3 = set_fld f F_TYPE 1 (set_name f (dir_name path) s1)"
  note m = make_dir_ok [OF 2(2-4) w(1, 2) r(1) s3_def r(2)]
  have ih: "img_inv t" "keeps {} s3 t" "holds_all t f path es" "files_typed s3 \<longrightarrow> files_typed t"
    using 2(1) [OF m(1-3) w(3) r(3) [folded s3_def]] by simp_all
  have k: "kept s3 t f" using keepsD(5) [OF ih(2) m(2)] by simp
  have "keeps {f} s1 t" by (rule keeps_trans [OF goodD(2) [OF m(6)] keeps_mono [OF ih(2)]]) simp
  note ke = keeps_entry [OF m(7) this m(5) 2(3, 4)]
  have "used t f" "is_dir t f" "named t f (take 127 (base_name path))"
    using keeps_used [OF ih(2) m(2)] k m(3, 8) named_cong [of t f s3] by (simp_all add: kept_def)
  moreover have "files_typed s3" if "files_typed s"
  proof (rule files_typed_step [OF that])
    show "keeps {} s s3" by (rule keeps_trans [OF m(7) keeps_unused [OF goodD(2) [OF m(6)] m(5)]])
    show "is_dir s3 f \<or> data_ok s3 f" using m(3) ..
    show "g = f \<or> used s g" if "used s3 g" for g using good_used [OF m(6) that] m(9) by blast
  qed
  ultimately show ?case using ke m(4) ih(1, 3, 4) by auto
next
  case (3 d path)
  then show ?case by (simp add: done_rules)
next
  case (4 d path name h es)
  show ?case
  proof (cases "name = [0x2E] \<or> name = [0x2E, 0x2E]")
    case True
    then show ?thesis using 4(2) [OF 4(3-5)] 4(6, 7) by (auto simp: done_rules)
  next
    case False
    obtain s1 where r: "write_node d (path @ [0x2F] @ name) h s = Done () s1" "write_entries d path es s1 = Done () t"
      using 4(7) False by (auto simp: done_rules)
    have a: "img_inv s1" "keeps {} s s1" "holds s1 d (path @ [0x2F] @ name) h" "files_typed s \<longrightarrow> files_typed s1"
      using 4(1) [OF _ 4(3-5) _ r(1)] 4(6) False by auto
    have d1: "used s1 d" "is_dir s1 d"
      using keeps_used [OF a(2) 4(4)] keepsD(5) [OF a(2) 4(4)] 4(5) by (simp_all add: kept_def)
    have b: "img_inv t" "keeps {} s1 t" "holds_all t d path es" "files_typed s1 \<longrightarrow> files_typed t" using 4(2) [OF a(1) d1 _ r(2)] 4(6) by simp_all
    have "holds t d (path @ [0x2F] @ name) h" by (rule holds_mono(1) [OF keeps_view [OF b(2)] d1 a(3)])
    then show ?thesis using a(4) b keeps_trans [OF a(2) b(2)] by simp
  qed
qed

section \<open>The whole image\<close>

lemma init_disk_simps:
  "nextbno init_disk = 3" "superblk init_disk 0 = FS_MAGIC" "superblk init_disk 1 = 1024"
  "btype init_disk n = (if n = 0 then BLOCK_BOOT else if n = 1 then BLOCK_SUPER else if n = 2 then BLOCK_BMAP else BLOCK_FREE)"
  "blk init_disk 2 j = (if 32 \<le> j then 0 else 0xFFFFFFFF)" "n \<noteq> 2 \<Longrightarrow> blk init_disk n = (\<lambda>_. 0)"
  by (auto simp: init_disk_def Let_def NBLOCK_def BITBLK_def set_name_def set_frame_def root_def frame_of_def
      F_TYPE_def frame_word_set_other fun_eq_iff)

lemma init_root:
  "node init_disk f \<longleftrightarrow> f = root" "ind init_disk root = 0" "fsize init_disk root = 0" "is_dir init_disk root"
  "name0 init_disk root = 0x2F"
  by (auto simp: node_def init_disk_simps)
    (simp_all add: init_disk_def Let_def ind_def fsize_def is_dir_def name0_def fld_def set_name_def root_def F_TYPE_def
      F_INDIRECT_def F_SIZE_def frame_of_def set_frame_def frame_word_set_other frame_byte_set NBLOCK_def BITBLK_def)

lemma init_inv: "img_inv init_disk" "used init_disk root"
proof -
  show "img_inv init_disk"
    unfolding img_inv_def init_root
    by (auto simp: init_disk_simps init_root NBLOCK_def dir_ok_def)
  show "used init_disk root" by (simp add: used_def init_root)
qed

end
