(* ===== verification/Fsformat_Image.thy ===== *)
theory Fsformat_Image
  imports Fsformat_Thms
begin

text \<open>
  What \<^verbatim>\<open>fsformat\<close> leaves in the image: the bitmap of \<^verbatim>\<open>flush_bitmap\<close>, the super block of
  \<^verbatim>\<open>finish_fs\<close>, and the host's files below the root.
\<close>

section \<open>The arguments in turn\<close>

definition holds_args :: "image \<Rightarrow> (u8 list \<times> host) list \<Rightarrow> bool" where
  "holds_args s args \<longleftrightarrow> list_all (\<lambda>(path, h). holds s root path h) args"

definition valid_args :: "(u8 list \<times> host) list \<Rightarrow> bool" where
  "valid_args args \<longleftrightarrow> list_all (\<lambda>(path, h). valid_node path h) args"

lemma holds_args_mono:
  assumes "view_kept s t" "used s root" "is_dir s root" "holds_args s args"
  shows "holds_args t args"
  using assms holds_mono(1) [OF assms(1-3)] by (auto simp: holds_args_def list_all_iff)

lemma write_args_ok:
  "img_inv s \<Longrightarrow> used s root \<Longrightarrow> is_dir s root \<Longrightarrow> valid_args args \<Longrightarrow>
    forK args (\<lambda>(path, h). write_node root path h) s = Done () t \<Longrightarrow>
    img_inv t \<and> keeps {} s t \<and> holds_args t args \<and> (files_typed s \<longrightarrow> files_typed t)"
proof (induction args arbitrary: s)
  case Nil
  then show ?case by (simp add: done_rules holds_args_def)
next
  case (Cons a args)
  obtain path h where a: "a = (path, h)" by (cases a)
  obtain s1 where r: "write_node root path h s = Done () s1"
      "forK args (\<lambda>(path, h). write_node root path h) s1 = Done () t"
    using Cons.prems(5) by (auto simp: a done_rules)
  have v: "valid_node path h" "valid_args args" using Cons.prems(4) by (simp_all add: a valid_args_def)
  have n: "img_inv s1" "keeps {} s s1" "holds s1 root path h" "files_typed s \<longrightarrow> files_typed s1"
    using write_node_ok(1) [OF Cons.prems(1-3) v(1) r(1)] by simp_all
  have d: "used s1 root" "is_dir s1 root"
    using keeps_used [OF n(2) Cons.prems(2)] keepsD(5) [OF n(2) Cons.prems(2)] Cons.prems(3)
    by (simp_all add: kept_def)
  have i: "img_inv t" "keeps {} s1 t" "holds_args t args" "files_typed s1 \<longrightarrow> files_typed t" using Cons.IH [OF n(1) d v(2) r(2)] by simp_all
  have "holds t root path h" by (rule holds_mono(1) [OF keeps_view [OF i(2)] d n(3)])
  then show ?case using i n(4) keeps_trans [OF n(2) i(2)] by (simp add: a holds_args_def)
qed

section \<open>Blocks 1 and 2\<close>

text \<open>Storing the super block and the bitmap changes neither structures nor their blocks.\<close>

definition sealed :: "image \<Rightarrow> image \<Rightarrow> bool" where
  "sealed s t \<longleftrightarrow> btype t = btype s \<and> nextbno t = nextbno s \<and> superblk t = superblk s \<and>
     (\<forall>n. n \<noteq> 1 \<longrightarrow> n \<noteq> 2 \<longrightarrow> blk t n = blk s n)"

lemma sealed_same:
  assumes "sealed s t" "img_inv s" "node s f"
  shows "frame_of t (fst f) = frame_of s (fst f)" "fld t f = fld s f" "ind t f = ind s f" "fsize t f = fsize s f"
    "is_dir t f = is_dir s f" "name0 t f = name0 s f" "link t f = link s f"
proof -
  show fr: "frame_of t (fst f) = frame_of s (fst f)"
  proof (cases "f = root")
    case True
    then show ?thesis using assms(1) by (simp add: root_def frame_of_def sealed_def)
  next
    case False
    then obtain b where b: "fst f = Some b" "btype s b = BLOCK_FILE" using assms(3) by (auto simp: node_def)
    then have "b \<noteq> 1" "b \<noteq> 2" using img_invD(4, 5) [OF assms(2)] by auto
    then show ?thesis using assms(1) b(1) by (simp add: frame_of_def sealed_def)
  qed
  then show fl: "fld t f = fld s f" by (simp add: fld_def fun_eq_iff)
  then show i: "ind t f = ind s f" and "fsize t f = fsize s f" "is_dir t f = is_dir s f"
    by (simp_all add: ind_def fsize_def is_dir_def)
  show "name0 t f = name0 s f" using fr by (simp add: name0_def)
  have "ind s f \<noteq> 1 \<and> ind s f \<noteq> 2"
    using img_invD(8) [OF assms(2, 3)] img_invD(4, 5) [OF assms(2)] by auto
  then have "blk t (ind s f) = blk s (ind s f)" using assms(1) by (simp add: sealed_def)
  then show "link t f = link s f" using fl by (simp add: link_def fun_eq_iff ind_def)
qed

lemma sealed_view:
  assumes "sealed s t" "img_inv s"
  shows "view_kept s t"
proof -
  have b: "btype t = btype s" using assms(1) by (simp add: sealed_def)
  have "used t f \<and> kept s t f" if "used s f" for f
  proof -
    have n: "node s f" using that by (simp add: used_def)
    show ?thesis
      using sealed_same [OF assms n] node_cong [OF b] that n by (simp add: used_def kept_def)
  qed
  moreover have "blk t n = blk s n" if "btype s n = BLOCK_DATA" for n
  proof -
    have "n \<noteq> 1 \<and> n \<noteq> 2" using that img_invD(4, 5) [OF assms(2)] by auto
    then show ?thesis using assms(1) by (simp add: sealed_def)
  qed
  ultimately show ?thesis by (auto simp: view_kept_def b)
qed

lemma sealed_inv:
  assumes "sealed s t" "img_inv s"
  shows "img_inv t"
proof -
  have b: "btype t = btype s" "nextbno t = nextbno s" using assms(1) by (simp_all add: sealed_def)
  note nd = node_cong [OF b(1)] and same = sealed_same [OF assms]
  have d: "dir_ok t f" if "node s f" "is_dir s f" for f
    using img_invD(10) [OF assms(2) that] same [OF that(1)] by (simp add: dir_ok_def b)
  have z: "blk t n = (\<lambda>_. 0)" if f: "btype s n = BLOCK_FREE" for n
  proof -
    have "n \<noteq> 1" "n \<noteq> 2" using f img_invD(4, 5) [OF assms(2)] by auto
    then show ?thesis using assms(1) img_invD(7) [OF assms(2) f] by (simp add: sealed_def)
  qed
  have i: "ind t f = 0 \<or> btype s (ind t f) = BLOCK_INDEX" if "node s f" for f
    using img_invD(8) [OF assms(2) that] same(3) [OF that] by simp
  have u: "f = g" if "node s f" "node s g" "ind t f = ind t g" "ind t f \<noteq> 0" for f g
    by (rule img_invD(9) [OF assms(2) that(1, 2)]) (use that same(3) in simp_all)
  have e: "fsize t f = 0 \<and> \<not> is_dir t f" if "node s f" "name0 t f = 0" for f
    using img_invD(11) [OF assms(2) that(1)] that same [OF that(1)] by simp
  show ?thesis
    unfolding img_inv_def nd b
    using img_invD(1-6) [OF assms(2)] d z i u e same(5) by blast
qed

lemma sealed_files:
  assumes "sealed s t" "img_inv s" "files_typed s"
  shows "files_typed t"
proof -
  have b: "btype t = btype s" using assms(1) by (simp add: sealed_def)
  have "data_ok t f" if f: "used t f" "\<not> is_dir t f" for f
  proof -
    have n: "node s f" using f(1) node_cong [OF b] by (simp add: used_def)
    note same = sealed_same [OF assms(1,2) n]
    have "used s f" "\<not> is_dir s f" using f n same(5,6) by (simp_all add: used_def)
    then have "data_ok s f" using assms(3) unfolding files_typed_def by blast
    then show ?thesis using same(4,7) b by (simp add: data_ok_def)
  qed
  then show ?thesis unfolding files_typed_def by blast
qed

text \<open>After \<open>k\<close> rounds of \<^verbatim>\<open>flush_bitmap\<close>.\<close>

definition flushed :: "nat \<Rightarrow> image \<Rightarrow> image \<Rightarrow> bool" where
  "flushed k s t \<longleftrightarrow> sealed s t \<and> blk t 1 = blk s 1 \<and>
     (\<forall>j b. b < 32 \<longrightarrow> bit (blk t 2 j) b = (bit (blk s 2 j) b \<and> k \<le> 32 * j + b))"

lemma flush_bit_next:
  assumes "flushed k s t" "k < NBLOCK"
  shows "flushed (Suc k) s (flush_bit k t)"
proof -
  have kb: "k div BITBLK = 0" "k mod BITBLK = k" using assms(2) by (simp_all add: NBLOCK_def BITBLK_def)
  have "bit (blk (flush_bit k t) 2 j) b = (bit (blk s 2 j) b \<and> Suc k \<le> 32 * j + b)" if b: "b < 32" for j b
  proof (cases "j = k div 32")
    case True
    obtain e where e: "k mod 32 = e" "32 * j + e = k" using mult_div_mod_eq [of 32 k] True by metis
    have o: "bit (blk t 2 j) b = (bit (blk s 2 j) b \<and> k \<le> 32 * j + b)" using assms(1) b by (simp add: flushed_def)
    have "bit (blk t 2 j AND NOT (push_bit e 1)) b = (bit (blk t 2 j) b \<and> b \<noteq> e)"
      using b by (auto simp: bit_simps)
    moreover have "(bit (blk t 2 j) b \<and> b \<noteq> e) = (bit (blk s 2 j) b \<and> Suc k \<le> 32 * j + b)"
      unfolding o using e(2) by linarith
    ultimately show ?thesis using True [symmetric] by (simp add: flush_bit_def kb Let_def e(1))
  next
    case False
    have "k \<noteq> 32 * j + b" using False b by auto
    then show ?thesis using assms(1) b False by (auto simp: flushed_def flush_bit_def kb Let_def)
  qed
  then show ?thesis using assms(1) by (simp add: flushed_def sealed_def flush_bit_def kb Let_def)
qed

lemma flush_bitmap_run:
  assumes "nextbno s \<le> NBLOCK"
  shows "\<exists>t. flush_bitmap s = Done () t \<and> flushed (nextbno s) s t"
proof -
  have "\<exists>t. forK [0..<nextbno s] (\<lambda>i. modifyK (flush_bit i)) s = Done () t \<and> flushed (nextbno s) s t"
  proof (rule forK_upt)
    show "flushed 0 s s" by (simp add: flushed_def sealed_def)
    fix k t assume "k < nextbno s" "flushed k s t"
    then show "\<exists>t'. modifyK (flush_bit k) t = Done () t' \<and> flushed (Suc k) s t'"
      using flush_bit_next assms by (simp add: run_rules)
  qed
  then show ?thesis by (simp add: flush_bitmap_def run_rules)
qed

section \<open>The whole run\<close>

lemma sealed_trans: "sealed s t \<Longrightarrow> sealed t u \<Longrightarrow> sealed s u"
  by (simp add: sealed_def)

lemma all_ones_bit: "b < 32 \<Longrightarrow> bit (0xFFFFFFFF :: u32) b"
proof -
  assume b: "b < 32"
  have e: "(0xFFFFFFFF :: u32) = mask 32" by (simp add: mask_eq_exp_minus_1)
  show ?thesis unfolding e using b by (simp only: bit_mask_iff) simp
qed

lemma format_disk_run:
  assumes "format_disk args s0 = Done () u" "valid_args args"
  shows "img_inv u" "holds_args u args"
    "b < 32 \<Longrightarrow> bit (blk u 2 j) b = (j < 32 \<and> nextbno u \<le> 32 * j + b)"
    "j < 66 \<Longrightarrow> blk u 1 j = superblk u j" "superblk u 0 = FS_MAGIC" "superblk u 1 = 1024" "is_dir u root"
    "files_typed u"
proof -
  obtain s t where r: "forK args (\<lambda>(path, h). write_node root path h) init_disk = Done () s"
      "flush_bitmap s = Done () t" "finish_fs t = Done () u"
    using assms(1) by (auto simp: format_disk_def done_rules)
  have "files_typed init_disk" unfolding files_typed_def used_def init_root(1) using init_root(4) by blast
  then have w: "img_inv s" "keeps {} init_disk s" "holds_args s args" and ft: "files_typed s"
    using write_args_ok [OF init_inv init_root(4) assms(2) r(1)] by simp_all
  have rt: "used s root" "is_dir s root"
    using keeps_used [OF w(2) init_inv(2)] keepsD(5) [OF w(2) init_inv(2)] init_root(4) by (simp_all add: kept_def)
  have f: "flushed (nextbno s) s t"
    using flush_bitmap_run [OF img_invD(2) [OF w(1)]] r(2) by simp
  have u: "sealed t u" "blk u 2 = blk t 2" "j < 66 \<Longrightarrow> blk u 1 j = superblk u j" for j
    using r(3) by (auto simp: finish_fs_def done_rules sealed_def)
  have su: "sealed s u" using f sealed_trans u(1) by (auto simp: flushed_def)
  note v = sealed_view [OF su w(1)]
  show "img_inv u" by (rule sealed_inv [OF su w(1)])
  show "files_typed u" by (rule sealed_files [OF su w(1) ft])
  show "holds_args u args" by (rule holds_args_mono [OF v rt w(3)])
  have b2: "blk s 2 = blk init_disk 2" using keepsD(2) [OF w(2), of 2] by (simp add: init_disk_simps)
  have nb: "nextbno u = nextbno s" using su by (simp add: sealed_def)
  show "bit (blk u 2 j) b = (j < 32 \<and> nextbno u \<le> 32 * j + b)" if b: "b < 32"
  proof -
    have "bit (blk u 2 j) b = (bit (blk init_disk 2 j) b \<and> nextbno s \<le> 32 * j + b)"
      using f b by (simp add: flushed_def u(2) b2)
    then show ?thesis using all_ones_bit [OF b] by (auto simp: init_disk_simps nb)
  qed
  show "blk u 1 j = superblk u j" if "j < 66" by (rule u(3) [OF that])
  have "superblk u = superblk s" using su by (simp add: sealed_def)
  then show "superblk u 0 = FS_MAGIC" "superblk u 1 = 1024"
    using keepsD(3, 4) [OF w(2)] init_disk_simps(2, 3) by simp_all
  show "is_dir u root" using view_keptD(2) [OF v rt(1)] rt(2) by (simp add: kept_def)
qed

text \<open>A disk with one small file.\<close>

definition one_file :: "(u8 list \<times> host) list" where
  "one_file = [([0x61], Reg [0x62, 0x63])]"

lemma one_file_valid: "valid_args one_file"
  by (simp add: one_file_def valid_args_def base_name_def)

lemma init_root_size: "fld init_disk root F_SIZE = 0"
  using init_root(3) by (simp add: fsize_def unat_eq_0)

lemma one_file_run: "\<exists>u. format_disk one_file s0 = Done () u"
proof -
  have "\<exists>s. forK one_file (\<lambda>(path, h). write_node root path h) init_disk = Done () s"
    by (simp add: one_file_def run_rules write_file_def create_file_def make_link_block_def next_block_def
        save_block_link_def init_root_size init_disk_simps base_name_def write_blocks.simps NBLOCK_def
        NINDIRECT_def NDIRECT_def)
  then obtain s where s: "forK one_file (\<lambda>(path, h). write_node root path h) init_disk = Done () s" by blast
  then have "img_inv s"
    using write_args_ok [OF init_inv init_root(4) one_file_valid] by blast
  then obtain t where "flush_bitmap s = Done () t" using flush_bitmap_run img_invD(2) by blast
  then show ?thesis using s by (simp add: format_disk_def run_rules finish_fs_def)
qed

text \<open>A disk with one directory that has a small file.\<close>

definition one_tree :: "(u8 list \<times> host) list" where
  "one_tree = [([0x64], Dir [([0x61], Reg [0x62, 0x63])])]"

lemma one_tree_valid: "valid_args one_tree"
  by (simp add: one_tree_def valid_args_def base_name_def)

lemma root_blk: "blk (set_fld root i w s) = blk s"
  by (simp add: set_fld_def set_frame_def root_def)

lemma one_tree_run: "\<exists>u. format_disk one_tree s0 = Done () u"
proof -
  have "\<exists>f s1. create_file root init_disk = Done f s1 \<and> f = (Some 3, 0) \<and> nextbno s1 = 4 \<and> blk s1 3 = (\<lambda>_. 0)"
    by (simp add: run_rules create_file_def make_link_block_def next_block_def
        save_block_link_def init_root_size init_disk_simps NBLOCK_def NINDIRECT_def NDIRECT_def
        root_blk)
  then obtain s1 where s1: "create_file root init_disk = Done (Some 3, 0) s1" "nextbno s1 = 4"
    "blk s1 3 = (\<lambda>_. 0)" by blast
  define s2 where "s2 = set_name (Some 3, 0) (dir_name [0x64]) s1"
  define s3 where "s3 = set_fld (Some 3, 0) F_TYPE 1 s2"
  have len: "length (dir_name [0x64]) = 127" by (rule dir_name_props(3)) (simp_all add: base_name_def)
  have "frame_byte (\<lambda>_. 0) 127 = 0" by (simp add: frame_byte_def byte_of_def)
  then have "frame_byte (frame_of s2 (Some 3)) 127 = 0"
    using s1(3) len by (simp add: s2_def set_name_def frame_of_def set_frame_def put_bytes_byte)
  moreover have "fld s2 (Some 3, 0) F_SIZE = 0"
    using s1(3) put_name_word [of "dir_name [0x64]" 32 0 "\<lambda>_. 0"] len
    by (simp add: s2_def set_name_def frame_of_def fld_def set_frame_def F_SIZE_def)
  moreover have "fld s3 (Some 3, 0) F_SIZE = fld s2 (Some 3, 0) F_SIZE" "nextbno s3 = 4"
    using s1(2) by (simp_all add: s3_def s2_def fld_def set_fld_def F_SIZE_def F_TYPE_def)
  ultimately have "\<exists>s. forK one_tree (\<lambda>(path, h). write_node root path h) init_disk = Done () s"
    using s1(1) unfolding s3_def [symmetric] s2_def [symmetric]
    by (simp add: one_tree_def run_rules write_file_def s2_def [symmetric] s3_def [symmetric] create_file_def [of "(Some 3, 0)"]
        make_link_block_def next_block_def save_block_link_def base_name_def write_blocks.simps NBLOCK_def
        NINDIRECT_def NDIRECT_def)
  then obtain s where s: "forK one_tree (\<lambda>(path, h). write_node root path h) init_disk = Done () s" by blast
  then have "img_inv s"
    using write_args_ok [OF init_inv init_root(4) one_tree_valid] by blast
  then obtain t where "flush_bitmap s = Done () t" using flush_bitmap_run img_invD(2) by blast
  then show ?thesis using s by (simp add: format_disk_def run_rules finish_fs_def)
qed

section \<open>Properties\<close>

text \<open>
  What the image is to hold: each file under its full name with its size and its bytes, and each
  directory under its full name with its entries, its size being the number of its blocks, which
  are all blocks of structures.
\<close>

fun stored :: "image \<Rightarrow> fptr \<Rightarrow> u8 list \<Rightarrow> host \<Rightarrow> bool"
  and stored_all :: "image \<Rightarrow> fptr \<Rightarrow> u8 list \<Rightarrow> (u8 list \<times> host) list \<Rightarrow> bool" where
  "stored s d path (Reg content) = (\<exists>f \<in> entries s d. named s f (base_name path) \<and> \<not> is_dir s f \<and>
     fsize s f = length content \<and> (\<forall>x < length content. btype s (link s f (x div 4096)) = BLOCK_DATA \<and>
       frame_byte (blk s (link s f (x div 4096))) (x mod 4096) = content ! x))"
| "stored s d path (Dir es) = (\<exists>f \<in> entries s d. named s f (base_name path) \<and> is_dir s f \<and>
     (\<exists>n. fsize s f = 4096 * n \<and> (\<forall>i < n. btype s (link s f i) = BLOCK_FILE)) \<and> stored_all s f path es)"
| "stored_all s f path [] = True"
| "stored_all s f path ((n, h) # es) =
     ((n = [0x2E] \<or> n = [0x2E, 0x2E] \<or> stored s f (path @ [0x2F] @ n) h) \<and> stored_all s f path es)"

text \<open>
  The names of directories fit; \<^verbatim>\<open>fsformat\<close> means to refuse longer ones but cuts them off. A file
  name that does not fit overflows, where the model stops.
\<close>

fun names_fit :: "u8 list \<Rightarrow> host \<Rightarrow> bool"
  and names_fit_all :: "u8 list \<Rightarrow> (u8 list \<times> host) list \<Rightarrow> bool" where
  "names_fit path (Reg content) = True"
| "names_fit path (Dir es) = (length (base_name path) < 128 \<and> names_fit_all path es)"
| "names_fit_all path [] = True"
| "names_fit_all path ((n, h) # es) =
     ((n = [0x2E] \<or> n = [0x2E, 0x2E] \<or> names_fit (path @ [0x2F] @ n) h) \<and> names_fit_all path es)"

lemma file_at_stored: "file_at s d (base_name path) content \<Longrightarrow> stored s d path (Reg content)"
proof -
  assume "file_at s d (base_name path) content"
  then obtain f where f: "f \<in> entries s d" "named s f (base_name path)" "\<not> is_dir s f"
      "fld s f F_SIZE = of_nat (length content)" "file_has s f 0 content"
    by (auto simp: file_at_def)
  have "length content \<le> 4096 * NINDIRECT"
  proof (cases "length content = 0")
    case False
    then have "(length content - 1) div 4096 < NINDIRECT" using f(5) by (simp add: file_has_def)
    then show ?thesis by (simp add: NINDIRECT_def)
  qed simp
  then have "fsize s f = length content"
    unfolding fsize_def f(4) by (intro unat_of_nat_len) (simp add: NINDIRECT_def)
  moreover have "\<forall>x < length content. btype s (link s f (x div 4096)) = BLOCK_DATA \<and>
       frame_byte (blk s (link s f (x div 4096))) (x mod 4096) = content ! x"
    using f(5) by (simp add: file_has_def)
  ultimately show ?thesis using f(1-3) by auto
qed

lemma holds_stored:
  "img_inv s \<Longrightarrow> holds s d path h \<Longrightarrow> names_fit path h \<Longrightarrow> stored s d path h"
  "img_inv s \<Longrightarrow> holds_all s d path es \<Longrightarrow> names_fit_all path es \<Longrightarrow> stored_all s d path es"
proof (induction s d path h and s d path es rule: holds_holds_all.induct)
  case (1 s d path content)
  then show ?case using file_at_stored by simp
next
  case (2 s d path es)
  then obtain f where f: "f \<in> entries s d" "used s f" "named s f (take 127 (base_name path))" "is_dir s f"
      "holds_all s f path es" by auto
  have fit: "take 127 (base_name path) = base_name path" "names_fit_all path es" using 2(4) by simp_all
  have "dir_ok s f" using img_invD(10) [OF 2(2) _ f(4)] f(2) by (simp add: used_def)
  then have "\<exists>n. fsize s f = 4096 * n \<and> (\<forall>i < n. btype s (link s f i) = BLOCK_FILE)"
    by (auto simp: dir_ok_def elim!: dvdE)
  moreover have "stored_all s f path es" by (rule 2(1) [OF f(1) 2(2) f(5) fit(2)])
  moreover have "named s f (base_name path)" using f(3) fit(1) by simp
  ultimately show ?case using f(1,4) unfolding stored.simps by blast
qed auto

text \<open>
  C32. A run of \<^verbatim>\<open>fsformat\<close> that ends leaves every file and directory it was given in the image, when
  the names of the directories have at most 127 bytes: below the root there is a structure with the
  full name, the type and, for a file, the size, whose blocks are data blocks with the contents byte
  for byte; a directory's size is that of its blocks of structures, and the entries are in it in the
  same way.
\<close>

theorem format_disk_holds_tree:
  assumes "format_disk args s0 = Done () u" "valid_args args" "(path, h) \<in> set args" "names_fit path h"
  shows "is_dir u root \<and> stored u root path h"
proof -
  have "holds u root path h"
    using format_disk_run(2) [OF assms(1,2)] assms(3) by (auto simp: holds_args_def list_all_iff)
  then show ?thesis
    using holds_stored(1) [OF format_disk_run(1) [OF assms(1,2)]] format_disk_run(7) [OF assms(1,2)] assms(4) by blast
qed

theorem format_disk_holds_tree_witness:
  "\<exists>u. format_disk one_tree init_disk = Done () u \<and> is_dir u root \<and>
     stored u root [0x64] (Dir [([0x61], Reg [0x62, 0x63])])"
proof -
  obtain u where u: "format_disk one_tree init_disk = Done () u" using one_tree_run by blast
  have "([0x64], Dir [([0x61], Reg [0x62, 0x63])]) \<in> set one_tree" by (simp add: one_tree_def)
  from format_disk_holds_tree [OF u one_tree_valid this] u show ?thesis by (auto simp: base_name_def)
qed

text \<open>
  C33. The bitmap on the finished disk is exact: a bit is set just when its number is below
  \<^verbatim>\<open>NBLOCK\<close> and that block has not been given out; and block 1 holds the super block, with the
  magic number, the number of blocks and the root's structure as it is at the end.
\<close>

theorem format_disk_bitmap:
  assumes "format_disk args s0 = Done () u" "valid_args args"
  shows "(bit (blk u 2 (i div 32)) (i mod 32) \<longleftrightarrow> i < NBLOCK \<and> btype u i = BLOCK_FREE) \<and>
    blk u 1 0 = FS_MAGIC \<and> blk u 1 1 = of_nat NBLOCK \<and> (\<forall>k < 64. blk u 1 (2 + k) = fld u root k)"
proof (intro conjI allI impI)
  have "32 * (i div 32) + i mod 32 = i" "i div 32 < 32 \<longleftrightarrow> i < NBLOCK"
    by (simp, simp add: NBLOCK_def div_less_iff_less_mult)
  then show "bit (blk u 2 (i div 32)) (i mod 32) \<longleftrightarrow> i < NBLOCK \<and> btype u i = BLOCK_FREE"
    using format_disk_run(3) [OF assms, of "i mod 32" "i div 32"] img_invD(6) [OF format_disk_run(1) [OF assms], of i]
    by simp
qed (use format_disk_run(4-6) [OF assms] in \<open>simp_all add: NBLOCK_def fld_def root_def frame_of_def\<close>)

theorem format_disk_bitmap_witness:
  "\<exists>u. format_disk one_file init_disk = Done () u \<and>
     (\<forall>i. bit (blk u 2 (i div 32)) (i mod 32) \<longleftrightarrow> i < NBLOCK \<and> btype u i = BLOCK_FREE) \<and> blk u 1 35 = fld u root 33"
proof -
  obtain u where u: "format_disk one_file init_disk = Done () u" using one_file_run by blast
  have "(33 :: nat) < 64" by simp
  with format_disk_bitmap [OF u one_file_valid] have "blk u 1 (2 + 33) = fld u root 33" by blast
  then show ?thesis using u format_disk_bitmap [OF u one_file_valid] by auto
qed

text \<open>
  C34. The image is well typed: every block of a regular file in use is a data block; a structure's indirect pointer is 0 or names an index block, which no
  other structure names; a directory's size is a number of whole blocks, each of them a block of
  file structures, with an indirect pointer when there are more than \<^verbatim>\<open>NDIRECT\<close>; and an unused
  structure is an empty regular file.
\<close>

theorem format_disk_typed:
  assumes "format_disk args s0 = Done () u" "valid_args args" "node u f"
  shows "(ind u f = 0 \<or> btype u (ind u f) = BLOCK_INDEX) \<and>
    (\<forall>g. node u g \<longrightarrow> ind u f = ind u g \<longrightarrow> ind u f \<noteq> 0 \<longrightarrow> f = g) \<and>
    (is_dir u f \<longrightarrow> 4096 dvd fsize u f \<and> (\<forall>i < fsize u f div 4096.
       i < NINDIRECT \<and> (NDIRECT \<le> i \<longrightarrow> ind u f \<noteq> 0) \<and> btype u (link u f i) = BLOCK_FILE)) \<and>
    (name0 u f \<noteq> 0 \<longrightarrow> \<not> is_dir u f \<longrightarrow> (\<forall>i < (fsize u f + 4095) div 4096.
       i < NINDIRECT \<and> btype u (link u f i) = BLOCK_DATA)) \<and>
    (name0 u f = 0 \<longrightarrow> fsize u f = 0 \<and> \<not> is_dir u f)"
proof -
  have "data_ok u f" if "name0 u f \<noteq> 0" "\<not> is_dir u f"
    using format_disk_run(8) [OF assms(1, 2)] assms(3) that unfolding files_typed_def used_def by blast
  then have data: "name0 u f \<noteq> 0 \<longrightarrow> \<not> is_dir u f \<longrightarrow> (\<forall>i < (fsize u f + 4095) div 4096.
       i < NINDIRECT \<and> btype u (link u f i) = BLOCK_DATA)" unfolding data_ok_def by blast
  note inv = format_disk_run(1) [OF assms(1, 2)]
  have d: "is_dir u f \<Longrightarrow> dir_ok u f" by (rule img_invD(10) [OF inv assms(3)])
  have "is_dir u f \<longrightarrow> 4096 dvd fsize u f \<and> (\<forall>i < fsize u f div 4096.
       i < NINDIRECT \<and> (NDIRECT \<le> i \<longrightarrow> ind u f \<noteq> 0) \<and> btype u (link u f i) = BLOCK_FILE)"
    using d unfolding dir_ok_def by blast
  then show ?thesis
    using data img_invD(8) [OF inv assms(3)] img_invD(9) [OF inv assms(3)] img_invD(11) [OF inv assms(3)] by blast
qed

theorem format_disk_typed_witness:
  "\<exists>u. format_disk one_file init_disk = Done () u \<and> is_dir u root \<and> 4096 dvd fsize u root \<and>
     (ind u root = 0 \<or> btype u (ind u root) = BLOCK_INDEX)"
proof -
  obtain u where u: "format_disk one_file init_disk = Done () u" using one_file_run by blast
  have n: "node u root" by (simp add: node_def)
  note t = format_disk_typed [OF u one_file_valid n]
  have d: "is_dir u root" by (rule format_disk_run(7) [OF u one_file_valid])
  show ?thesis by (rule exI [of _ u], intro conjI u d) (use t d in blast)+
qed

text \<open>
  Writing the disk image out (\<^verbatim>\<open>finish_fs\<close> of \<^verbatim>\<open>tools/fsformat.c\<close>), with the change of byte order that
  \<^verbatim>\<open>CONFIG_REVERSE_ENDIAN\<close> asks for: the words that are numbers are reversed, by the type of the block, and
  names and file contents are not touched.
\<close>

section \<open>Reversing\<close>

definition reverse_word :: "u32 \<Rightarrow> u32" where
  "reverse_word y = push_bit 24 (y AND 0xFF) OR push_bit 16 (drop_bit 8 y AND 0xFF) OR
     push_bit 8 (drop_bit 16 y AND 0xFF) OR (drop_bit 24 y AND 0xFF)"

definition reverse_at :: "nat \<Rightarrow> frame \<Rightarrow> frame" where
  "reverse_at k fr = fr(k := reverse_word (fr k))"

definition reverse_words :: "nat list \<Rightarrow> frame \<Rightarrow> frame" where
  "reverse_words ks fr = fold reverse_at ks fr"

text \<open>The numbers in the file structure at word \<open>b\<close>.\<close>

definition file_words :: "nat \<Rightarrow> nat list" where
  "file_words b = [b + F_SIZE, b + F_TYPE] @ map (\<lambda>i. b + F_DIRECT + i) [0..<NDIRECT] @ [b + F_INDIRECT]"

fun reverse_files :: "nat list \<Rightarrow> frame \<Rightarrow> frame" where
  "reverse_files [] fr = fr"
| "reverse_files (i # is) fr =
     (if frame_byte fr (256 * i) = 0 then fr else reverse_files is (reverse_words (file_words (64 * i)) fr))"

definition reverse_block :: "block_type \<Rightarrow> frame \<Rightarrow> frame" where
  "reverse_block ty fr = (case ty of
       BLOCK_FREE \<Rightarrow> fr
     | BLOCK_BOOT \<Rightarrow> fr
     | BLOCK_SUPER \<Rightarrow> reverse_words ([0, 1] @ file_words 2) fr
     | BLOCK_FILE \<Rightarrow> reverse_files [0..<FILE2BLK] fr
     | BLOCK_INDEX \<Rightarrow> reverse_words [0..<1024] fr
     | BLOCK_BMAP \<Rightarrow> reverse_words [0..<1024] fr
     | BLOCK_DATA \<Rightarrow> fr)"

text \<open>The blocks in the order in which they are written to the target file.\<close>

definition dump_image :: "bool \<Rightarrow> image \<Rightarrow> frame list" where
  "dump_image reversed s = map (\<lambda>i. if reversed then reverse_block (btype s i) (blk s i) else blk s i) [0..<NBLOCK]"

section \<open>Reversing twice\<close>

lemma byte_bit: "(i :: nat) < 32 \<Longrightarrow> \<exists>j < 8. i = j \<or> i = j + 8 \<or> i = j + 16 \<or> i = j + 24"
  by presburger

lemma bit_reverse_word:
  "bit (reverse_word y) i \<longleftrightarrow> (if i < 8 then bit y (i + 24) else if i < 16 then bit y (i + 8)
     else if i < 24 then bit y (i - 8) else i < 32 \<and> bit y (i - 24))"
proof -
  have m: "(0xFF :: u32) = mask 8" by (simp add: mask_eq_exp_minus_1)
  have b: "bit (reverse_word y) i \<longleftrightarrow> (24 \<le> i \<and> i < 32 \<and> bit y (i - 24) \<and> i - 24 < 32 \<and> i - 24 < 8) \<or>
      (16 \<le> i \<and> i < 32 \<and> bit y (8 + (i - 16)) \<and> i - 16 < 32 \<and> i - 16 < 8) \<or>
      (8 \<le> i \<and> i < 32 \<and> bit y (16 + (i - 8)) \<and> i - 8 < 32 \<and> i - 8 < 8) \<or> (bit y (24 + i) \<and> i < 32 \<and> i < 8)"
    unfolding reverse_word_def m
    by (simp add: bit_or_iff bit_and_iff bit_push_bit_iff bit_drop_bit_eq bit_mask_iff del: push_bit_and)
  show ?thesis
  proof (cases "i < 32")
    case True
    then obtain j where "j < 8" "i = j \<or> i = j + 8 \<or> i = j + 16 \<or> i = j + 24" using byte_bit by blast
    then show ?thesis unfolding b by (elim disjE) (simp_all add: add.commute)
  next
    case False
    then show ?thesis unfolding b by simp
  qed
qed

lemma reverse_word_twice [simp]: "reverse_word (reverse_word y) = y"
proof (rule bit_word_eqI)
  fix i :: nat
  assume "i < LENGTH(32)"
  then obtain j where "j < 8" "i = j \<or> i = j + 8 \<or> i = j + 16 \<or> i = j + 24" using byte_bit [of i] by auto
  then show "bit (reverse_word (reverse_word y)) i \<longleftrightarrow> bit y i"
    by (elim disjE) (simp_all add: bit_reverse_word add.commute)
qed

lemma reverse_words_apply:
  "distinct ks \<Longrightarrow> reverse_words ks fr k = (if k \<in> set ks then reverse_word (fr k) else fr k)"
  by (induction ks arbitrary: fr) (auto simp: reverse_words_def reverse_at_def)

lemma reverse_words_twice: "distinct ks \<Longrightarrow> reverse_words ks (reverse_words ks fr) = fr"
  by (simp add: fun_eq_iff reverse_words_apply)

lemma distinct_file_words: "distinct (file_words b)"
  by (auto simp: file_words_def F_SIZE_def F_TYPE_def F_DIRECT_def F_INDIRECT_def NDIRECT_def distinct_map inj_on_def)

lemma file_words_range: "k \<in> set (file_words b) \<Longrightarrow> b + 32 \<le> k \<and> k < b + 45"
  by (auto simp: file_words_def F_SIZE_def F_TYPE_def F_DIRECT_def F_INDIRECT_def NDIRECT_def)

lemma name_kept: "frame_byte (reverse_words (file_words (64 * i)) fr) (256 * j) = frame_byte fr (256 * j)"
proof -
  have "64 * j \<notin> set (file_words (64 * i))"
  proof
    assume "64 * j \<in> set (file_words (64 * i))"
    then have "64 * i + 32 \<le> 64 * j" "64 * j < 64 * i + 45" using file_words_range by blast+
    then show False by presburger
  qed
  then show ?thesis by (simp add: frame_byte_def reverse_words_apply distinct_file_words)
qed

definition used_files :: "nat list \<Rightarrow> frame \<Rightarrow> nat list" where
  "used_files is fr = takeWhile (\<lambda>i. frame_byte fr (256 * i) \<noteq> 0) is"

lemma reverse_files_fold:
  "reverse_files is fr = fold (\<lambda>i. reverse_words (file_words (64 * i))) (used_files is fr) fr"
  by (induction "is" arbitrary: fr) (simp_all add: used_files_def name_kept)

lemma used_files_fold: "used_files is (fold (\<lambda>i. reverse_words (file_words (64 * i))) js fr) = used_files is fr"
proof (induction js arbitrary: fr)
  case (Cons j js)
  have "used_files is (reverse_words (file_words (64 * j)) fr) = used_files is fr"
    by (simp add: used_files_def name_kept)
  then show ?case using Cons by simp
qed simp

lemma fold_reverse_apply:
  assumes "distinct js"
  shows "fold (\<lambda>i. reverse_words (file_words (64 * i))) js fr k =
    (if \<exists>i \<in> set js. k \<in> set (file_words (64 * i)) then reverse_word (fr k) else fr k)"
  using assms
proof (induction js arbitrary: fr)
  case (Cons j js)
  have other: "k \<notin> set (file_words (64 * i))" if "i \<in> set js" "k \<in> set (file_words (64 * j))" for i
  proof
    assume "k \<in> set (file_words (64 * i))"
    then have "64 * i + 32 \<le> k" "k < 64 * i + 45" using file_words_range by blast+
    moreover have "64 * j + 32 \<le> k" "k < 64 * j + 45" using that(2) file_words_range by blast+
    ultimately have "i = j" by (cases i j rule: linorder_cases) linarith+
    then show False using that(1) Cons.prems by simp
  qed
  have d: "distinct js" using Cons.prems by simp
  let ?fr = "reverse_words (file_words (64 * j)) fr"
  have hd: "?fr k = (if k \<in> set (file_words (64 * j)) then reverse_word (fr k) else fr k)"
    by (rule reverse_words_apply [OF distinct_file_words])
  have tl: "fold (\<lambda>i. reverse_words (file_words (64 * i))) (j # js) fr k =
      (if \<exists>i \<in> set js. k \<in> set (file_words (64 * i)) then reverse_word (?fr k) else ?fr k)"
    unfolding fold_simps comp_apply by (rule Cons.IH [OF d])
  show ?case
    unfolding tl hd using other by auto
qed simp

text \<open>
  Reversing a block twice gives the block back, whatever its type: a big-endian machine that reads a reversed
  image finds the numbers of the original one. The scan over the file structures of a directory block stops at the
  same entry both times because names are not touched. So the two byte orders of an image determine each
  other, block by block.
\<close>

theorem reverse_block_twice:
  "reverse_block ty (reverse_block ty fr) = fr \<and>
    map (\<lambda>(i, fr). reverse_block (btype s i) fr) (zip [0..<NBLOCK] (dump_image True s)) = dump_image False s"
proof -
  have twice: "reverse_block ty (reverse_block ty fr) = fr" for ty fr
  proof (cases ty)
    case BLOCK_FILE
    have d: "distinct (used_files [0..<FILE2BLK] fr)" by (simp add: used_files_def)
    show ?thesis
      unfolding reverse_block_def BLOCK_FILE block_type.case reverse_files_fold used_files_fold
      by (rule ext) (simp add: fold_reverse_apply [OF d])
  next
    case BLOCK_SUPER
    have "distinct ([0, 1] @ file_words 2)" using distinct_file_words file_words_range [of _ 2] by fastforce
    then show ?thesis using BLOCK_SUPER reverse_words_twice [of "[0, 1] @ file_words 2"] by (simp add: reverse_block_def)
  qed (simp_all add: reverse_block_def reverse_words_twice)
  have "zip [0..<NBLOCK] (dump_image True s) = map (\<lambda>i. (i, reverse_block (btype s i) (blk s i))) [0..<NBLOCK]"
    by (simp add: dump_image_def zip_map2 zip_same_conv_map)
  then show ?thesis by (simp add: twice dump_image_def)
qed

end
