(* ===== verification/Spawn.thy ===== *)
theory Spawn
  imports File Elf
begin

text \<open>
  Starting a program, \<^verbatim>\<open>user/lib/spawn.c\<close>. The process of \<open>Uproc\<close> gets children: \<open>kids\<close> maps an
  environment id to the page table, the saved registers and the status of an environment that
  the process created, \<open>fresh_ids\<close> are the ids the kernel has left to give out, \<open>own_tf\<close> the
  registers of the process at the call, \<open>run_list\<close> the kernel's \<^verbatim>\<open>env_sched_list\<close> with the link fields of
  all environments. Pages of children are frames of the same \<open>frames\<close>. A panic of the kernel is the
  end of the run.

  An \<^verbatim>\<open>argv\<close> is the list of its strings, which do not lie in the page at \<^verbatim>\<open>UTEMP\<close>; \<^verbatim>\<open>elfbuf\<close> is
  the address of that array. Messages of \<^verbatim>\<open>debugf\<close> are left out.
\<close>

record kid =
  kpt :: "nat \<Rightarrow> (nat \<times> u32) option"
  ktf :: trapframe
  kready :: bool

record sproc = uproc +
  kids :: "u32 \<Rightarrow> kid option"
  fresh_ids :: "u32 list"
  own_tf :: trapframe
  run_list :: "nat tqueue"

type_synonym ('x, 'a) spawnM = "('x sproc_scheme, 'a) kprog"

section \<open>System calls on another environment\<close>

definition kid_of :: "u32 \<Rightarrow> (kid \<Rightarrow> ('x, err + 'a) spawnM) \<Rightarrow> ('x, err + 'a) spawnM" where
  "kid_of eid f = bindK (getsK (\<lambda>s. kids s eid)) (\<lambda>k. case k of None \<Rightarrow> retK (Inl E_BAD_ENV) | Some c \<Rightarrow> f c)"

definition set_kid :: "u32 \<Rightarrow> kid \<Rightarrow> 'x sproc_scheme \<Rightarrow> 'x sproc_scheme" where
  "set_kid eid c s = s\<lparr>kids := (kids s)(eid \<mapsto> c)\<rparr>"

text \<open>\<^verbatim>\<open>page_insert\<close> and \<^verbatim>\<open>page_remove\<close> on a child's page table.\<close>

definition kid_unmap :: "u32 \<Rightarrow> kid \<Rightarrow> nat \<Rightarrow> 'x sproc_scheme \<Rightarrow> 'x sproc_scheme" where
  "kid_unmap eid c v s = (case kpt c v of
       None \<Rightarrow> s
     | Some (f, _) \<Rightarrow> drop_frame f (set_kid eid (c\<lparr>kpt := (kpt c)(v := None)\<rparr>) s))"

definition kid_map :: "u32 \<Rightarrow> kid \<Rightarrow> nat \<Rightarrow> nat \<Rightarrow> u32 \<Rightarrow> 'x sproc_scheme \<Rightarrow> 'x sproc_scheme" where
  "kid_map eid c v f perm s =
     (let c' = c\<lparr>kpt := (kpt c)(v \<mapsto> (f, perm OR PTE_V))\<rparr>
      in case kpt c v of
           Some (f', _) \<Rightarrow> if f' = f then set_kid eid c' s
             else (let t = drop_frame f' s in set_kid eid c' (t\<lparr>frefs := (frefs t)(f := frefs t f + 1)\<rparr>))
         | None \<Rightarrow> set_kid eid c' (s\<lparr>frefs := (frefs s)(f := frefs s f + 1)\<rparr>))"

definition put_reg :: "nat \<Rightarrow> u32 \<Rightarrow> trapframe \<Rightarrow> trapframe" where
  "put_reg n w tf = tf\<lparr>tf_regs := (tf_regs tf)(n := w)\<rparr>"

definition exofork :: "('x, err + u32) spawnM" where
  "exofork = bindK (getsK fresh_ids) (\<lambda>ids. case ids of
       [] \<Rightarrow> retK (Inl E_NO_FREE_ENV)
     | i # is \<Rightarrow>
         seqK (modifyK (\<lambda>s. set_kid i \<lparr>kpt = \<lambda>_. None, ktf = put_reg 2 0 (own_tf s), kready = False\<rparr>
                 (s\<lparr>fresh_ids := is\<rparr>)))
              (retK (Inr i)))"

definition alloc_in :: "u32 \<Rightarrow> u32 \<Rightarrow> u32 \<Rightarrow> ('x, err + unit) spawnM" where
  "alloc_in eid va perm =
     (if low_va va then retK (Inl E_INVAL)
      else kid_of eid (\<lambda>c. bindK (getsK ffree) (\<lambda>fl. case fl of
          [] \<Rightarrow> retK (Inl E_NO_MEM)
        | f # fs \<Rightarrow> seqK (modifyK (\<lambda>s. kid_map eid c (VPN va) f perm
              (s\<lparr>ffree := fs, frames := (frames s)(f := \<lambda>_. 0)\<rparr>))) (retK (Inr ())))))"

definition map_to :: "u32 \<Rightarrow> u32 \<Rightarrow> u32 \<Rightarrow> u32 \<Rightarrow> ('x, err + unit) spawnM" where
  "map_to srcva eid dstva perm =
     (if low_va srcva \<or> low_va dstva then retK (Inl E_INVAL)
      else kid_of eid (\<lambda>c. bindK (getsK (\<lambda>s. upt s (VPN srcva))) (\<lambda>m. case m of
          None \<Rightarrow> retK (Inl E_INVAL)
        | Some (f, _) \<Rightarrow> seqK (modifyK (kid_map eid c (VPN dstva) f perm)) (retK (Inr ())))))"

definition map_from :: "u32 \<Rightarrow> u32 \<Rightarrow> u32 \<Rightarrow> u32 \<Rightarrow> ('x, err + unit) spawnM" where
  "map_from eid srcva dstva perm =
     (if low_va srcva \<or> low_va dstva then retK (Inl E_INVAL)
      else kid_of eid (\<lambda>c. case kpt c (VPN srcva) of
          None \<Rightarrow> retK (Inl E_INVAL)
        | Some (f, _) \<Rightarrow> seqK (modifyK (map_vpn (VPN dstva) f perm)) (retK (Inr ()))))"

definition unmap_in :: "u32 \<Rightarrow> u32 \<Rightarrow> ('x, err + unit) spawnM" where
  "unmap_in eid va =
     (if low_va va then retK (Inl E_INVAL)
      else kid_of eid (\<lambda>c. seqK (modifyK (kid_unmap eid c (VPN va))) (retK (Inr ()))))"

definition set_trapframe :: "u32 \<Rightarrow> trapframe \<Rightarrow> ('x, err + unit) spawnM" where
  "set_trapframe eid tf = kid_of eid (\<lambda>c. seqK (modifyK (set_kid eid (c\<lparr>ktf := tf\<rparr>))) (retK (Inr ())))"

text \<open>\<^verbatim>\<open>syscall_set_env_status\<close> with \<^verbatim>\<open>ENV_RUNNABLE\<close>.\<close>

definition on_run_list :: "(nat tqueue \<Rightarrow> nat tqueue option) \<Rightarrow> ('x, unit) spawnM" where
  "on_run_list f = stepK (\<lambda>s. map_option (\<lambda>q. s\<lparr>run_list := q\<rparr>) (f (run_list s))) ''store through NULL''"

definition set_runnable :: "u32 \<Rightarrow> ('x, err + unit) spawnM" where
  "set_runnable eid = kid_of eid (\<lambda>c.
     seqK (if kready c then retK () else on_run_list (TAILQ_INSERT_TAIL (ENVX eid)))
    (seqK (modifyK (set_kid eid (c\<lparr>kready := True\<rparr>))) (retK (Inr ()))))"

text \<open>\<^verbatim>\<open>env_free\<close> gives back the pages below \<^verbatim>\<open>UTOP\<close>.\<close>

definition drop_pages :: "(nat \<Rightarrow> (nat \<times> u32) option) \<Rightarrow> 'x sproc_scheme \<Rightarrow> 'x sproc_scheme" where
  "drop_pages pt = fold (\<lambda>v s. case pt v of None \<Rightarrow> s | Some (f, _) \<Rightarrow> drop_frame f s) [0..<VPN UTOP]"

text \<open>
  \<^verbatim>\<open>syscall_env_destroy\<close>: \<^verbatim>\<open>env_free\<close> takes the environment out of the run list whether or not it is in it.
\<close>

definition destroy_env :: "u32 \<Rightarrow> ('x, err + unit) spawnM" where
  "destroy_env eid = kid_of eid (\<lambda>c.
     seqK (modifyK (\<lambda>s. drop_pages (kpt c) (s\<lparr>kids := (kids s)(eid := None)\<rparr>)))
    (seqK (on_run_list (TAILQ_REMOVE (ENVX eid))) (retK (Inr ()))))"

section \<open>The initial stack\<close>

fun put_strings :: "u8 list list \<Rightarrow> u32 \<Rightarrow> ('x, unit) spawnM" where
  "put_strings [] ctemp = retK ()"
| "put_strings (a # as) ctemp = seqK (p_store_string a ctemp) (put_strings as (ctemp + of_nat (length a) + 1))"

text \<open>The pointers to the strings; the result is \<^verbatim>\<open>ctemp\<close> after the loop.\<close>

fun put_pointers :: "u8 list list \<Rightarrow> u32 \<Rightarrow> u32 \<Rightarrow> ('x, u32) spawnM" where
  "put_pointers [] args ctemp = retK ctemp"
| "put_pointers (a # as) args ctemp =
     seqK (p_stw args ctemp) (put_pointers as (args + 4) (ctemp + of_nat (length a) + 1))"

definition arg_bytes :: "u8 list list \<Rightarrow> nat" where
  "arg_bytes argv = (\<Sum>a \<leftarrow> argv. length a + 1)"

definition stack_off :: u32 where "stack_off = USTACKTOP - UTEMP - BY2PG"

definition try_else :: "('x, err + 'a) spawnM \<Rightarrow> ('x, unit) spawnM \<Rightarrow> ('a \<Rightarrow> ('x, err + 'b) spawnM) \<Rightarrow> ('x, err + 'b) spawnM" where
  "try_else m h f = bindK m (\<lambda>r. case r of Inl e \<Rightarrow> seqK h (retK (Inl e)) | Inr a \<Rightarrow> f a)"

definition ignoreE :: "('s, err + 'a) kprog \<Rightarrow> ('s, unit) kprog" where
  "ignoreE m = bindK m (\<lambda>_. retK ())"

definition init_stack :: "u32 \<Rightarrow> u8 list list \<Rightarrow> ('x, err + u32) spawnM" where
  "init_stack child argv =
     (let argc = length argv; tot = arg_bytes argv; rtot = (tot + 3) div 4 * 4 in
      if rtot + 4 * (argc + 3) > 4096 then retK (Inl E_NO_MEM)
      else
        let strings = UTEMP + BY2PG - of_nat tot; args = UTEMP + BY2PG - of_nat rtot - 4 * of_nat (argc + 1) in
        tryK (p_alloc UTEMP PTE_D) (\<lambda>_.
        seqK (put_strings argv strings)
       (bindK (put_pointers argv args (stack_off + strings)) (\<lambda>ctemp.
        seqK (p_stw (args + 4 * of_nat argc) (ctemp - 1))
       (seqK (p_stw (args - 4) (stack_off + args))
       (seqK (p_stw (args - 8) (of_nat argc))
       (try_else (map_to UTEMP child (USTACKTOP - BY2PG) PTE_D) (ignoreE (p_unmap UTEMP)) (\<lambda>_.
        try_else (p_unmap UTEMP) (ignoreE (p_unmap UTEMP)) (\<lambda>_.
        retK (Inr (stack_off + (args - 8))))))))))))"

section \<open>Loading\<close>

text \<open>The process's memory as the ELF routines read it.\<close>

definition mem_rd :: "'x uproc_scheme \<Rightarrow> u32 \<Rightarrow> u8" where
  "mem_rd s a = (case upt s (VPN a) of Some (f, _) \<Rightarrow> frame_byte (frames s f) (bofs a) | None \<Rightarrow> 0)"

definition spawn_mapper :: "u32 \<Rightarrow> ('x sproc_scheme) mapper" where
  "spawn_mapper child va offset perm src len =
     tryK (alloc_in child va perm) (\<lambda>_. case src of
       None \<Rightarrow> retK (Inr ())
     | Some a \<Rightarrow>
         try_else (map_from child va UTEMP (perm OR PTE_D)) (ignoreE (unmap_in child va)) (\<lambda>_.
         seqK (p_copy (unat len) (UTEMP + offset) a) (p_unmap UTEMP)))"

text \<open>\<^verbatim>\<open>if ((r = m) < 0)\<close> for a result that is a count, as an error.\<close>

datatype fail = Code int

definition checkK :: "('s, int) kprog \<Rightarrow> (int \<Rightarrow> ('s, fail + 'a) kprog) \<Rightarrow> ('s, fail + 'a) kprog" where
  "checkK m f = bindK m (\<lambda>r. if r < 0 then retK (Inl (Code r)) else f r)"

definition checkE :: "('s, err + 'b) kprog \<Rightarrow> ('b \<Rightarrow> ('s, fail + 'a) kprog) \<Rightarrow> ('s, fail + 'a) kprog" where
  "checkE m f = bindK m (\<lambda>r. case r of Inl e \<Rightarrow> retK (Inl (Code (neg e))) | Inr a \<Rightarrow> f a)"

text \<open>
  \<^verbatim>\<open>ELF_FOREACH_PHDR_OFF\<close>: the ELF header lies in \<^verbatim>\<open>elfbuf\<close>, into which each program header is
  read, so the count and the size of the program headers are read again in every turn. The count is
  a half word, so that \<open>2 ^ 16\<close> turns are enough.
\<close>

fun load_segments :: "nat \<Rightarrow> ('x sproc_scheme) dev list \<Rightarrow> u32 \<Rightarrow> u32 \<Rightarrow> u32 \<Rightarrow> nat \<Rightarrow> u32 \<Rightarrow> ('x, fail + unit) spawnM" where
  "load_segments n devtab fd elfbuf child idx ph_off =
     bindK (getsK (\<lambda>s. read_ehdr (mem_rd s) elfbuf)) (\<lambda>eh.
     if idx < unat (e_phnum eh) then
       (case n of
          0 \<Rightarrow> panicK ''loops''
        | Suc n' \<Rightarrow>
            checkK (seek fd ph_off) (\<lambda>_.
            checkK (readn devtab fd elfbuf (e_phentsize eh)) (\<lambda>_.
            bindK (getsK (\<lambda>s. read_phdr (mem_rd s) elfbuf)) (\<lambda>ph.
            bindK (if p_type ph = 1
                   then checkE (read_map fd (p_offset ph)) (\<lambda>bin.
                        checkE (elf_load_seg ph bin (spawn_mapper child)) (\<lambda>_. retK (Inr ())))
                   else retK (Inr ())) (\<lambda>r. case r of
              Inl e \<Rightarrow> retK (Inl e)
            | Inr _ \<Rightarrow>
                bindK (getsK (\<lambda>s. e_phentsize (read_ehdr (mem_rd s) elfbuf))) (\<lambda>sz.
                load_segments n' devtab fd elfbuf child (Suc idx) (ph_off + sz)))))))
     else retK (Inr ()))"

declare load_segments.simps [simp del]

text \<open>Pages marked \<^verbatim>\<open>PTE_LIBRARY\<close> are shared with the child.\<close>

definition vpd_valid :: "'x uproc_scheme \<Rightarrow> nat \<Rightarrow> bool" where
  "vpd_valid s pdeno \<longleftrightarrow> list_ex (\<lambda>i. upt s (1024 * pdeno + i) \<noteq> None) [0..<1024]"

definition share_page :: "u32 \<Rightarrow> nat \<Rightarrow> ('x, err + unit) spawnM" where
  "share_page child pn =
     bindK (getsK (\<lambda>s. case upt s pn of None \<Rightarrow> 0 | Some (_, pte) \<Rightarrow> pte AND 0xFFF)) (\<lambda>perm.
     if perm AND PTE_V \<noteq> 0 \<and> perm AND PTE_LIBRARY \<noteq> 0
     then let va = of_nat pn * BY2PG in map_to va child va perm
     else retK (Inr ()))"

definition share_library :: "u32 \<Rightarrow> ('x, err + unit) spawnM" where
  "share_library child = forE [0..<PDX USTACKTOP + 1] (\<lambda>pdeno.
     bindK (getsK (\<lambda>s. vpd_valid s pdeno)) (\<lambda>v.
     if \<not> v then retK (Inr ()) else forE [0..<1024] (\<lambda>pteno. share_page child (1024 * pdeno + pteno))))"

section \<open>spawn\<close>

text \<open>
  The path of the program. The test reads the last two characters; \<open>before\<close> holds the two bytes
  in front of the string, which it reads when the string is shorter.
\<close>

definition program_path :: "u8 list \<Rightarrow> u8 list \<Rightarrow> u8 list" where
  "program_path before prog =
     (let w = before @ prog; n = length w in
      if w ! (n - 1) \<noteq> 0x62 \<and> w ! (n - 2) \<noteq> 0x2E then prog @ [0x2E, 0x62] else prog)"

text \<open>From \<^verbatim>\<open>init_stack\<close> to the last segment; an error here is \<^verbatim>\<open>goto err1\<close>.\<close>

definition load_child :: "('x sproc_scheme) dev list \<Rightarrow> u32 \<Rightarrow> u32 \<Rightarrow> u32 \<Rightarrow> u8 list list \<Rightarrow> ('x, fail + u32) spawnM" where
  "load_child devtab fd elfbuf child argv =
     checkE (init_stack child argv) (\<lambda>sp.
     bindK (getsK (\<lambda>s. e_phoff (read_ehdr (mem_rd s) elfbuf))) (\<lambda>ph_off.
     bindK (load_segments (2 ^ 16) devtab fd elfbuf child 0 ph_off) (\<lambda>r. case r of
       Inl e \<Rightarrow> retK (Inl e)
     | Inr _ \<Rightarrow> retK (Inr sp))))"

text \<open>The rest, where an error is \<^verbatim>\<open>goto err2\<close>.\<close>

definition start_child :: "u32 \<Rightarrow> u32 \<Rightarrow> u32 \<Rightarrow> ('x, fail + unit) spawnM" where
  "start_child child entrypoint sp =
     bindK (getsK (\<lambda>s. kids s child)) (\<lambda>k. case k of None \<Rightarrow> panicK ''no such environment'' | Some c \<Rightarrow>
     checkE (set_trapframe child (put_reg 29 sp ((ktf c)\<lparr>tf_epc := entrypoint\<rparr>))) (\<lambda>_.
     checkE (share_library child) (\<lambda>_.
     checkE (set_runnable child) (\<lambda>_. retK (Inr ())))))"

text \<open>
  \<^verbatim>\<open>child\<close> is unsigned, so the error of \<^verbatim>\<open>syscall_exofork\<close> is never seen: its code is taken
  for an id.
\<close>

definition spawn_open :: "('x sproc_scheme) dev list \<Rightarrow> u32 \<Rightarrow> u32 \<Rightarrow> u8 list list \<Rightarrow> ('x, int) spawnM" where
  "spawn_open devtab fd elfbuf argv =
     bindK (readn devtab fd elfbuf 52) (\<lambda>r.
     if r \<noteq> 52 then seqK (bindK (close devtab fd) (\<lambda>_. retK ())) (retK r)
     else bindK (getsK (\<lambda>s. elf_from (mem_rd s) elfbuf 52)) (\<lambda>ehdr. case ehdr of
       None \<Rightarrow> seqK (bindK (close devtab fd) (\<lambda>_. retK ())) (retK (neg E_NOT_EXEC))
     | Some eh \<Rightarrow>
         bindK exofork (\<lambda>x.
         let child = (case x of Inl e \<Rightarrow> of_int (neg e) | Inr i \<Rightarrow> i) in
         bindK (load_child devtab fd elfbuf child argv) (\<lambda>l. case l of
           Inl (Code r) \<Rightarrow>
             seqK (ignoreE (destroy_env child)) (seqK (bindK (close devtab fd) (\<lambda>_. retK ())) (retK r))
         | Inr sp \<Rightarrow>
             bindK (close devtab fd) (\<lambda>_.
             bindK (start_child child (e_entry eh) sp) (\<lambda>q. case q of
               Inl (Code r) \<Rightarrow> seqK (ignoreE (destroy_env child)) (retK r)
             | Inr _ \<Rightarrow> retK (sint child)))))))"

definition spawn :: "('x sproc_scheme) dev list \<Rightarrow> 'x sproc_ext server \<Rightarrow> u32 \<Rightarrow> u32 \<Rightarrow> u8 list \<Rightarrow> u8 list \<Rightarrow>
    u8 list list \<Rightarrow> ('x, int) spawnM" where
  "spawn devtab srv fsipcbuf elfbuf before prog argv =
     seqK (assertK (length prog + 3 \<le> 1024) ''iprog overflows'')
    (bindK (open_path srv fsipcbuf (program_path before prog) O_RDONLY) (\<lambda>fd.
     if fd < 0 then retK fd else spawn_open devtab (of_int fd) elfbuf argv))"

end
