(* ===== verification/Spawn_Thms.thy ===== *)
theory Spawn_Thms
  imports Spawn Fd_Thms Elf_Thms
begin

text \<open>
  The stack page that \<^verbatim>\<open>init_stack\<close> hands to the child, and \<^verbatim>\<open>spawn_mapper\<close> as an interpretation of the
  loader's contract.
\<close>

section \<open>Stores to the page at \<^verbatim>\<open>UTEMP\<close>\<close>

definition set_fr :: "nat \<Rightarrow> frame \<Rightarrow> 'x uproc_scheme \<Rightarrow> 'x uproc_scheme" where
  "set_fr f fr s = s\<lparr>frames := (frames s)(f := fr)\<rparr>"

lemma set_fr_simps [simp]:
  "upt (set_fr f fr s) = upt s" "frames (set_fr f fr s) f = fr" "frefs (set_fr f fr s) = frefs s" "ffree (set_fr f fr s) = ffree s"
  "set_fr f fr' (set_fr f fr s) = set_fr f fr' s"
  by (simp_all add: set_fr_def)

definition utemp_page :: "'x uproc_scheme \<Rightarrow> nat \<Rightarrow> bool" where
  "utemp_page s f \<longleftrightarrow> (\<exists>p. upt s (VPN UTEMP) = Some (f, p) \<and> p AND PTE_D \<noteq> 0)"

lemma utemp_page_set [simp]: "utemp_page (set_fr g fr s) f = utemp_page s f"
  by (simp add: utemp_page_def)

lemma utemp_addr:
  assumes "k < 4096"
  shows "VPN (UTEMP + of_nat k) = VPN UTEMP" "bofs (UTEMP + of_nat k) = k" "wofs (UTEMP + of_nat k) = k div 4"
    "\<not> low_va (UTEMP + of_nat k)"
proof -
  have e: "UTEMP = of_nat (1022 * 4096)"
    by (simp add: UTEMP_def UCOW_def UTEXT_def PDMAP_def BY2PG_def)
  have e': "UTEMP + of_nat k = of_nat (1022 * 4096 + k)" unfolding e by (rule of_nat_add [symmetric])
  have l: "1022 * 4096 + k < 2 ^ 32" using assms by simp
  have u: "unat (UTEMP + of_nat k) = 1022 * 4096 + k" unfolding e' by (rule unat_of_nat_len [OF l])
  have u0: "unat UTEMP = 1022 * 4096" unfolding e by (rule unat_of_nat_len) simp
  show "VPN (UTEMP + of_nat k) = VPN UTEMP" unfolding VPN_alt u u0 using assms by simp
  show "bofs (UTEMP + of_nat k) = k" "wofs (UTEMP + of_nat k) = k div 4"
    unfolding bofs_def wofs_def u using assms by (simp_all only: mod_mult_self3 mod_less)
  show "\<not> low_va (UTEMP + of_nat k)" unfolding e' low_va_of_nat [OF l] using assms by simp
qed

lemma p_stb_utemp:
  assumes "utemp_page s f" "k < 4096"
  shows "p_stb (UTEMP + of_nat k) b s = Done () (set_fr f (set_frame_byte (frames s f) k b) s)"
  using assms utemp_addr [OF assms(2)] by (auto simp: utemp_page_def p_stb_def run_rules p_wtouch_run set_fr_def)

lemma p_stw_utemp:
  assumes "utemp_page s f" "k < 4096"
  shows "p_stw (UTEMP + of_nat k) w s = Done () (set_fr f ((frames s f)(k div 4 := w)) s)"
  using assms utemp_addr [OF assms(2)] by (auto simp: utemp_page_def p_stw_run set_fr_def)

text \<open>A frame that holds the bytes \<open>bs\<close> from \<open>k\<close> on and is otherwise as before.\<close>

definition blitted :: "frame \<Rightarrow> nat \<Rightarrow> u8 list \<Rightarrow> frame \<Rightarrow> bool" where
  "blitted fr k bs fr' \<longleftrightarrow>
     (\<forall>j. frame_byte fr' j = (if k \<le> j \<and> j < k + length bs then bs ! (j - k) else frame_byte fr j))"

lemma blitted_step:
  assumes "blitted (set_frame_byte fr k b) (Suc k) bs fr'"
  shows "blitted fr k (b # bs) fr'"
  using assms by (auto simp: blitted_def frame_byte_set nth_Cons split: nat.split intro!: arg_cong [where f = "(!) bs"])

lemma blitted_append:
  assumes "blitted fr k as fr1" "blitted fr1 (k + length as) bs fr2"
  shows "blitted fr k (as @ bs) fr2"
  using assms by (auto simp: blitted_def nth_append)

lemma p_store_string_utemp:
  "utemp_page s f \<Longrightarrow> k + length a < 4096 \<Longrightarrow>
    \<exists>fr. p_store_string a (UTEMP + of_nat k) s = Done () (set_fr f fr s) \<and> blitted (frames s f) k (a @ [0]) fr"
proof (induction a arbitrary: k s)
  case Nil
  then show ?case
    by (auto simp: p_stb_utemp blitted_def frame_byte_set)
next
  case (Cons c a)
  let ?fr = "set_frame_byte (frames s f) k c"
  have e: "UTEMP + of_nat k + 1 = UTEMP + of_nat (Suc k)" by simp
  obtain fr where r: "p_store_string a (UTEMP + of_nat k + 1) (set_fr f ?fr s) = Done () (set_fr f fr s)"
      "blitted ?fr (Suc k) (a @ [0]) fr"
    unfolding e using Cons.IH [of "set_fr f ?fr s" "Suc k"] Cons.prems by auto
  then show ?case
    using Cons.prems blitted_step [OF r(2)] by (auto simp: run_rules p_stb_utemp)
qed

definition blob :: "u8 list list \<Rightarrow> u8 list" where "blob argv = concat (map (\<lambda>a. a @ [0]) argv)"

lemma length_blob [simp]: "length (blob argv) = arg_bytes argv"
  by (induction argv) (simp_all add: blob_def arg_bytes_def)

lemma arg_bytes_simps [simp]: "arg_bytes [] = 0" "arg_bytes (a # as) = length a + 1 + arg_bytes as"
  by (simp_all add: arg_bytes_def)

lemma put_strings_utemp:
  "utemp_page s f \<Longrightarrow> k + arg_bytes argv \<le> 4096 \<Longrightarrow>
    \<exists>fr. put_strings argv (UTEMP + of_nat k) s = Done () (set_fr f fr s) \<and> blitted (frames s f) k (blob argv) fr"
proof (induction argv arbitrary: k s)
  case Nil
  then show ?case by (auto simp: run_rules blob_def blitted_def set_fr_def intro!: exI [of _ "frames s f"])
next
  case (Cons a argv)
  obtain fr where r: "p_store_string a (UTEMP + of_nat k) s = Done () (set_fr f fr s)" "blitted (frames s f) k (a @ [0]) fr"
    using p_store_string_utemp [of s f k a] Cons.prems by auto
  have e: "UTEMP + of_nat k + of_nat (length a) + 1 = UTEMP + of_nat (k + length (a @ [0]))" by simp
  obtain fr' where r': "put_strings argv (UTEMP + of_nat k + of_nat (length a) + 1) (set_fr f fr s) = Done () (set_fr f fr' s)"
      "blitted fr (k + length (a @ [0])) (blob argv) fr'"
    unfolding e using Cons.IH [of "set_fr f fr s" "k + length (a @ [0])"] Cons.prems by auto
  have "blitted (frames s f) k (blob (a # argv)) fr'"
    using blitted_append [OF r(2) r'(2)] by (simp add: blob_def)
  then show ?case using r r' by (auto simp: run_rules)
qed

lemma blob_nth: "i < length argv \<Longrightarrow> j \<le> length (argv ! i) \<Longrightarrow>
    arg_bytes (take i argv) + j < arg_bytes argv \<and> blob argv ! (arg_bytes (take i argv) + j) = (argv ! i @ [0]) ! j"
proof (induction argv arbitrary: i)
  case (Cons a argv)
  show ?case
  proof (cases i)
    case 0
    then show ?thesis using Cons.prems by (simp add: blob_def nth_append)
  next
    case (Suc i')
    have "length (a @ [0]) + x < length (a @ [0] @ bs) \<longleftrightarrow> x < length bs" for x and bs :: "u8 list" by simp
    then show ?thesis using Cons.IH [of i'] Cons.prems Suc by (simp add: blob_def nth_append)
  qed
qed simp

lemma put_pointers_utemp:
  "utemp_page s f \<Longrightarrow> 4 dvd k \<Longrightarrow> k + 4 * length argv \<le> 4096 \<Longrightarrow>
    \<exists>fr. put_pointers argv (UTEMP + of_nat k) c s = Done (c + of_nat (arg_bytes argv)) (set_fr f fr s) \<and>
      (\<forall>w. fr w = (if k div 4 \<le> w \<and> w < k div 4 + length argv
         then c + of_nat (arg_bytes (take (w - k div 4) argv)) else frames s f w))"
proof (induction argv arbitrary: k c s)
  case Nil
  then show ?case by (auto simp: run_rules set_fr_def intro!: exI [of _ "frames s f"])
next
  case (Cons a argv)
  let ?fr = "(frames s f)(k div 4 := c)"
  have e: "UTEMP + of_nat k + 4 = UTEMP + of_nat (k + 4)" by simp
  have q: "(k + 4) div 4 = Suc (k div 4)" by simp
  obtain fr where r: "put_pointers argv (UTEMP + of_nat k + 4) (c + of_nat (length a) + 1) (set_fr f ?fr s) =
        Done (c + of_nat (length a) + 1 + of_nat (arg_bytes argv)) (set_fr f fr s)"
      "\<forall>w. fr w = (if (k + 4) div 4 \<le> w \<and> w < (k + 4) div 4 + length argv
         then c + of_nat (length a) + 1 + of_nat (arg_bytes (take (w - (k + 4) div 4) argv)) else ?fr w)"
    unfolding e using Cons.IH [of "set_fr f ?fr s" "k + 4" "c + of_nat (length a) + 1"] Cons.prems by auto
  have "fr w = (if k div 4 \<le> w \<and> w < k div 4 + length (a # argv)
         then c + of_nat (arg_bytes (take (w - k div 4) (a # argv))) else frames s f w)" for w
  proof (cases "w \<le> k div 4")
    case False
    then obtain d where "w = Suc (k div 4) + d" by (metis not_less_eq_eq le_Suc_ex)
    then show ?thesis using r(2) q by (simp add: ac_simps)
  qed (use r(2) in auto)
  then show ?case using r(1) Cons.prems by (auto simp: run_rules p_stw_utemp add.assoc)
qed

section \<open>The stack page\<close>

definition SBASE :: u32 where "SBASE = USTACKTOP - BY2PG"

definition rtot :: "u8 list list \<Rightarrow> nat" where "rtot argv = (arg_bytes argv + 3) div 4 * 4"

text \<open>The string \<open>w\<close> with its terminator at the child's address \<open>a\<close>, when \<open>fr\<close> is its stack page.\<close>

definition string_at :: "frame \<Rightarrow> u32 \<Rightarrow> u8 list \<Rightarrow> bool" where
  "string_at fr a w \<longleftrightarrow> (\<exists>k. a = SBASE + of_nat k \<and> k + length w < 4096 \<and>
     (\<forall>j \<le> length w. frame_byte fr (k + j) = (w @ [0]) ! j))"

text \<open>The word at the child's address \<open>a\<close>.\<close>

definition word_at :: "frame \<Rightarrow> u32 \<Rightarrow> u32 \<Rightarrow> bool" where
  "word_at fr a w \<longleftrightarrow> (\<exists>k. a = SBASE + of_nat k \<and> 4 dvd k \<and> k < 4096 \<and> fr (k div 4) = w)"

text \<open>
  \<^verbatim>\<open>argc\<close> and \<^verbatim>\<open>argv\<close> as \<^verbatim>\<open>main\<close> finds them at the stack pointer: the count, the address of the
  array, and behind each pointer of the array its string. The word behind the last pointer is
  not zero but the address of the last terminator.
\<close>

definition stack_ok :: "frame \<Rightarrow> u32 \<Rightarrow> u8 list list \<Rightarrow> bool" where
  "stack_ok fr sp argv \<longleftrightarrow> 4 dvd unat sp \<and> word_at fr sp (of_nat (length argv)) \<and> (\<exists>av. word_at fr (sp + 4) av \<and>
     (\<forall>i < length argv. \<exists>p. word_at fr (av + 4 * of_nat i) p \<and> string_at fr p (argv ! i)))"

lemma stack_written:
  fixes argv f s
  defines "k0 \<equiv> 4096 - rtot argv - 4 * (length argv + 1)"
  assumes fit: "rtot argv + 4 * (length argv + 3) \<le> 4096"
    and b: "blitted fr0 (4096 - arg_bytes argv) (blob argv) fr1"
    and p: "\<forall>w. fr2 w = (if k0 div 4 \<le> w \<and> w < k0 div 4 + length argv
         then SBASE + of_nat (4096 - arg_bytes argv) + of_nat (arg_bytes (take (w - k0 div 4) argv)) else fr1 w)"
    and fr: "fr = fr2(k0 div 4 + length argv := x, (k0 - 4) div 4 := SBASE + of_nat k0, (k0 - 8) div 4 := of_nat (length argv))"
  shows "stack_ok fr (SBASE + of_nat (k0 - 8)) argv"
proof -
  have k0: "4 dvd k0" "8 \<le> k0" "k0 + 4 * (length argv + 1) = 4096 - rtot argv" "arg_bytes argv \<le> rtot argv" "4 dvd rtot argv"
    using fit by (auto simp: k0_def rtot_def)
  obtain q where q: "k0 = 4 * q" "2 \<le> q" using k0(1, 2) by auto
  have d: "k0 div 4 = q" "(k0 - 4) div 4 = q - 1" "(k0 - 8) div 4 = q - 2" using q by auto
  have "word_at fr (SBASE + of_nat (k0 - 8)) (of_nat (length argv))"
    unfolding word_at_def using k0 fit by (intro exI [of _ "k0 - 8"]) (auto simp: fr)
  moreover have "word_at fr (SBASE + of_nat (k0 - 8) + 4) (SBASE + of_nat k0)"
    unfolding word_at_def using k0 fit q by (intro exI [of _ "k0 - 4"]) (auto simp: fr of_nat_diff)
  moreover have "\<exists>p. word_at fr (SBASE + of_nat k0 + 4 * of_nat i) p \<and> string_at fr p (argv ! i)" if i: "i < length argv" for i
  proof -
    define t where "t = 4096 - arg_bytes argv + arg_bytes (take i argv)"
    have "fr (q + i) = SBASE + of_nat t" using p i q(2) by (auto simp: fr t_def d)
    then have "word_at fr (SBASE + of_nat k0 + 4 * of_nat i) (SBASE + of_nat t)"
      unfolding word_at_def using k0 i q by (intro exI [of _ "k0 + 4 * i"]) auto
    moreover have "frame_byte fr (t + j) = (argv ! i @ [0]) ! j \<and> t + j < 4096" if j: "j \<le> length (argv ! i)" for j
    proof -
      note bn = blob_nth [OF i j]
      have le: "arg_bytes argv \<le> 4096" using k0 fit by simp
      have u: "4096 - arg_bytes argv \<le> t + j" "t + j < 4096 - arg_bytes argv + length (blob argv)"
          "t + j - (4096 - arg_bytes argv) = arg_bytes (take i argv) + j"
        using bn le unfolding t_def length_blob by linarith+
      have "frame_byte fr1 (t + j) = (argv ! i @ [0]) ! j"
        using b [unfolded blitted_def, rule_format, of "t + j"] u bn by (simp only: simp_thms if_True)
      moreover have "4 * (q + length argv + 1) \<le> t + j" using k0 q by (simp add: t_def)
      then have "q + length argv + 1 \<le> (t + j) div 4" by simp
      then have "frame_byte fr (t + j) = frame_byte fr1 (t + j)" using p q(2) by (auto simp: frame_byte_def fr d)
      moreover have "t + j < 4096" using u(2) le by simp
      ultimately show ?thesis by simp
    qed
    then have "string_at fr (SBASE + of_nat t) (argv ! i)" unfolding string_at_def by blast
    ultimately show ?thesis by blast
  qed
  moreover have "4 dvd unat (SBASE + of_nat (k0 - 8))"
  proof -
    have e: "SBASE = of_nat 0x7F3FD000" by (simp add: SBASE_def USTACKTOP_def UTOP_def UENVS_def UPAGES_def UVPT_def ULIM_def PDMAP_def BY2PG_def)
    have "SBASE + of_nat (k0 - 8) = of_nat (0x7F3FD000 + (k0 - 8))" unfolding e by (rule of_nat_add [symmetric])
    then have "unat (SBASE + of_nat (k0 - 8)) = 0x7F3FD000 + (k0 - 8)"
      using k0 by (simp only:) (rule unat_of_nat_len, simp)
    then show ?thesis using k0(1, 2) by simp
  qed
  ultimately show ?thesis unfolding stack_ok_def by blast
qed

lemma SBASE_alt: "stack_off + (UTEMP + a) = SBASE + a" "USTACKTOP - BY2PG = SBASE"
  by (simp_all add: SBASE_def stack_off_def)

lemma word_at_range:
  assumes "word_at fr a w"
  shows "SBASE \<le> a \<and> a < USTACKTOP"
proof -
  obtain k where k: "a = SBASE + of_nat k" "k < 4096" using assms by (auto simp: word_at_def)
  have e: "SBASE = of_nat 0x7F3FD000" "USTACKTOP = of_nat 0x7F3FE000" by (simp_all add: SBASE_def layout_defs)
  have "a = of_nat (0x7F3FD000 + k)" unfolding k(1) e by (rule of_nat_add [symmetric])
  then have "unat a = 0x7F3FD000 + k" by (simp only:) (rule unat_of_nat_len, use k(2) in simp)
  moreover have "unat SBASE = 0x7F3FD000" "unat USTACKTOP = 0x7F3FE000" unfolding e by (rule unat_of_nat_len, simp)+
  ultimately show ?thesis using k(2) by (simp add: word_le_nat_alt word_less_nat_alt)
qed

lemma SBASE_not_low: "\<not> low_va SBASE"
  by (simp add: SBASE_def low_va_def layout_defs)

lemma utemp_sub:
  assumes "n \<le> 4096"
  shows "UTEMP + BY2PG - of_nat n = UTEMP + of_nat (4096 - n)"
  using assms by (simp add: of_nat_diff BY2PG_def)

text \<open>The page filled, before it goes to the child.\<close>

lemma fill_stack:
  assumes u: "utemp_page s f" and fit: "rtot argv + 4 * (length argv + 3) \<le> 4096"
  defines "strings \<equiv> UTEMP + BY2PG - of_nat (arg_bytes argv)"
    and "args \<equiv> UTEMP + BY2PG - of_nat (rtot argv) - 4 * of_nat (length argv + 1)"
  shows "\<exists>fr t c. put_strings argv strings s = Done () (set_fr f t s) \<and>
    put_pointers argv args (stack_off + strings) (set_fr f t s) = Done c (set_fr f (fr 0) s) \<and>
    p_stw (args + 4 * of_nat (length argv)) (c - 1) (set_fr f (fr 0) s) = Done () (set_fr f (fr 1) s) \<and>
    p_stw (args - 4) (stack_off + args) (set_fr f (fr 1) s) = Done () (set_fr f (fr 2) s) \<and>
    p_stw (args - 8) (of_nat (length argv)) (set_fr f (fr 2) s) = Done () (set_fr f (fr (3 :: nat)) s) \<and>
    stack_ok (fr 3) (stack_off + (args - 8)) argv"
proof -
  define k0 where "k0 = 4096 - rtot argv - 4 * (length argv + 1)"
  have k0: "4 dvd k0" "8 \<le> k0" "k0 + 4 * (length argv + 1) = 4096 - rtot argv" "arg_bytes argv \<le> rtot argv"
    using fit by (auto simp: k0_def rtot_def)
  have a: "strings = UTEMP + of_nat (4096 - arg_bytes argv)"
    unfolding strings_def by (rule utemp_sub) (use k0 fit in simp)
  have "args = UTEMP + BY2PG - of_nat (rtot argv + 4 * (length argv + 1))" by (simp add: args_def)
  then have b: "args = UTEMP + of_nat k0"
    using utemp_sub [of "rtot argv + 4 * (length argv + 1)"] fit by (simp add: k0_def)
  have c: "args + 4 * of_nat (length argv) = UTEMP + of_nat (k0 + 4 * length argv)"
      "args - 4 = UTEMP + of_nat (k0 - 4)" "args - 8 = UTEMP + of_nat (k0 - 8)"
    using k0(2) by (simp_all add: b of_nat_diff)
  obtain fr1 where f1: "put_strings argv strings s = Done () (set_fr f fr1 s)"
      "blitted (frames s f) (4096 - arg_bytes argv) (blob argv) fr1"
    using put_strings_utemp [OF u, of "4096 - arg_bytes argv" argv] k0 fit unfolding a by auto
  have "k0 + 4 * length argv \<le> 4096" using k0(3) by simp
  then obtain fr2 where f2: "put_pointers argv args (stack_off + strings) (set_fr f fr1 s) =
        Done (stack_off + strings + of_nat (arg_bytes argv)) (set_fr f fr2 s)"
      "\<forall>w. fr2 w = (if k0 div 4 \<le> w \<and> w < k0 div 4 + length argv
         then SBASE + of_nat (4096 - arg_bytes argv) + of_nat (arg_bytes (take (w - k0 div 4) argv)) else fr1 w)"
    using put_pointers_utemp [of "set_fr f fr1 s" f k0 argv "stack_off + strings"] u k0(1)
    unfolding a b by (auto simp: SBASE_alt)
  let ?c = "stack_off + strings + of_nat (arg_bytes argv)"
  define fr where "fr i = (if i = 0 then fr2 else if i = 1 then fr2(k0 div 4 + length argv := ?c - 1)
      else if i = 2 then fr2(k0 div 4 + length argv := ?c - 1, (k0 - 4) div 4 := SBASE + of_nat k0)
      else fr2(k0 div 4 + length argv := ?c - 1, (k0 - 4) div 4 := SBASE + of_nat k0, (k0 - 8) div 4 := of_nat (length argv)))"
    for i :: nat
  have w: "k0 + 4 * length argv < 4096" "(k0 + 4 * length argv) div 4 = k0 div 4 + length argv" "k0 < 4096"
    using k0(1-3) fit by auto
  note st = stack_written [where argv = argv and x = "?c - 1", folded k0_def, OF fit f1(2) f2(2) refl]
  have v: "utemp_page (set_fr f g s) f" for g using u by simp
  have "p_stw (args + 4 * of_nat (length argv)) (?c - 1) (set_fr f (fr 0) s) = Done () (set_fr f (fr 1) s)"
    unfolding c by (subst p_stw_utemp [OF v w(1)]) (simp add: fr_def w(2))
  moreover have "p_stw (args - 4) (stack_off + args) (set_fr f (fr 1) s) = Done () (set_fr f (fr 2) s)"
    unfolding c by (subst p_stw_utemp [OF v]) (use w(3) in \<open>simp_all add: fr_def b SBASE_alt\<close>)
  moreover have "p_stw (args - 8) (of_nat (length argv)) (set_fr f (fr 2) s) = Done () (set_fr f (fr 3) s)"
    unfolding c by (subst p_stw_utemp [OF v]) (use w(3) in \<open>simp_all add: fr_def\<close>)
  moreover have "stack_ok (fr 3) (stack_off + (args - 8)) argv"
    using st unfolding c SBASE_alt by (simp add: fr_def)
  moreover have "fr 0 = fr2" by (simp add: fr_def)
  ultimately show ?thesis using f1(1) f2(1)
    by - (rule exI [of _ fr], rule exI [of _ fr1], rule exI [of _ ?c], simp)
qed

text \<open>
  C35. \<^verbatim>\<open>init_stack\<close> refuses arguments that do not fit into a page, with nothing changed. Otherwise the
  child gets one new page below \<^verbatim>\<open>USTACKTOP\<close>, on which \<^verbatim>\<open>main\<close> finds its parameters at the stack pointer:
  the count, and an array whose pointers lead to the strings in the child's address space. The
  parent's page table is as before, and the page has one reference.
\<close>

theorem init_stack_correct:
  assumes "upt s (VPN UTEMP) = None" "ffree s = f # fs" "kids s child = Some c" "kpt c (VPN SBASE) = None"
  shows "(4096 < rtot argv + 4 * (length argv + 3) \<longrightarrow> init_stack child argv s = Done (Inl E_NO_MEM) s) \<and>
    (rtot argv + 4 * (length argv + 3) \<le> 4096 \<longrightarrow> (\<exists>sp t. init_stack child argv s = Done (Inr sp) t \<and>
      stack_ok (frames t f) sp argv \<and> SBASE \<le> sp \<and> sp < USTACKTOP \<and>
      kids t = (kids s)(child \<mapsto> c\<lparr>kpt := (kpt c)(VPN SBASE \<mapsto> (f, PTE_D OR PTE_V))\<rparr>) \<and>
      upt t = upt s \<and> ffree t = fs \<and> frefs t = (frefs s)(f := frefs s f + 1)))"
proof (intro conjI impI)
  show "init_stack child argv s = Done (Inl E_NO_MEM) s" if "4096 < rtot argv + 4 * (length argv + 3)"
    using that by (simp add: init_stack_def Let_def rtot_def run_rules)
next
  assume fit: "rtot argv + 4 * (length argv + 3) \<le> 4096"
  have low: "\<not> low_va UTEMP" using utemp_addr(4) [of 0] by simp
  define s1 where "s1 = s\<lparr>ffree := fs, frames := (frames s)(f := \<lambda>_. 0),
      upt := (upt s)(VPN UTEMP \<mapsto> (f, PTE_D OR PTE_V)), frefs := (frefs s)(f := frefs s f + 1)\<rparr>"
  have a: "p_alloc UTEMP PTE_D s = Done (Inr ()) s1"
    unfolding s1_def by (rule p_alloc_run [OF low assms(2, 1)])
  have u: "utemp_page s1 f"
    unfolding utemp_page_def by (intro exI [of _ "PTE_D OR PTE_V"]) (simp add: s1_def PTE_D_def PTE_V_def)
  define strings where "strings = UTEMP + BY2PG - of_nat (arg_bytes argv)"
  define args where "args = UTEMP + BY2PG - of_nat (rtot argv) - 4 * of_nat (length argv + 1)"
  define sp where "sp = stack_off + (args - 8)"
  obtain fr t0 x where st: "put_strings argv strings s1 = Done () (set_fr f t0 s1)"
      "put_pointers argv args (stack_off + strings) (set_fr f t0 s1) = Done x (set_fr f (fr 0) s1)"
      "p_stw (args + 4 * of_nat (length argv)) (x - 1) (set_fr f (fr 0) s1) = Done () (set_fr f (fr 1) s1)"
      "p_stw (args - 4) (stack_off + args) (set_fr f (fr 1) s1) = Done () (set_fr f (fr 2) s1)"
      "p_stw (args - 8) (of_nat (length argv)) (set_fr f (fr 2) s1) = Done () (set_fr f (fr (3 :: nat)) s1)"
      "stack_ok (fr 3) sp argv"
    using fill_stack [OF u fit, folded strings_def args_def, folded sp_def] by blast
  define c' where "c' = c\<lparr>kpt := (kpt c)(VPN SBASE \<mapsto> (f, PTE_D OR PTE_V))\<rparr>"
  define s2 where "s2 = set_fr f (fr 3) s1"
  define s3 where "s3 = set_kid child c' (s2\<lparr>frefs := (frefs s2)(f := frefs s2 f + 1)\<rparr>)"
  define s4 where "s4 = unmap_vpn (VPN UTEMP) s3"
  have m: "map_to UTEMP child SBASE PTE_D s2 = Done (Inr ()) s3"
    using low SBASE_not_low assms(3, 4)
    by (simp add: map_to_def kid_of_def run_rules s2_def s1_def set_fr_def kid_map_def c'_def s3_def)
  have n: "p_unmap UTEMP s3 = Done (Inr ()) s4" by (simp add: p_unmap_def low run_rules s4_def)
  have run: "init_stack child argv s = Done (Inr sp) s4"
    unfolding init_stack_def Let_def rtot_def [symmetric] strings_def [symmetric] args_def [symmetric] sp_def [symmetric]
    using fit m by (simp add: run_rules a st(1-5) [unfolded One_nat_def] try_else_def n SBASE_alt(2) flip: s2_def)
  have "upt s4 = upt s" "ffree s4 = fs" "frefs s4 = (frefs s)(f := frefs s f + 1)" "frames s4 f = fr 3"
      "kids s4 = (kids s)(child \<mapsto> c')"
    using assms(1) by (auto simp: s4_def s3_def s2_def s1_def set_fr_def set_kid_def unmap_vpn_def drop_frame_def fun_eq_iff)
  moreover have "SBASE \<le> sp \<and> sp < USTACKTOP" using st(6) word_at_range by (auto simp: stack_ok_def)
  ultimately show "\<exists>sp t. init_stack child argv s = Done (Inr sp) t \<and>
      stack_ok (frames t f) sp argv \<and> SBASE \<le> sp \<and> sp < USTACKTOP \<and>
      kids t = (kids s)(child \<mapsto> c\<lparr>kpt := (kpt c)(VPN SBASE \<mapsto> (f, PTE_D OR PTE_V))\<rparr>) \<and>
      upt t = upt s \<and> ffree t = fs \<and> frefs t = (frefs s)(f := frefs s f + 1)"
    using run st(6) by - (rule exI [of _ sp], rule exI [of _ s4], simp add: c'_def)
qed

text \<open>A parent with one child that has no pages yet, and the command \<^verbatim>\<open>ls -l\<close>.\<close>

definition bare_kid :: kid where
  "bare_kid = \<lparr>kpt = \<lambda>_. None, ktf = \<lparr>tf_regs = \<lambda>_. 0, tf_status = 0, tf_hi = 0, tf_lo = 0, tf_badvaddr = 0,
     tf_cause = 0, tf_epc = 0\<rparr>, kready = False\<rparr>"

definition one_child :: sproc where
  "one_child = \<lparr>upt = \<lambda>_. None, frames = \<lambda>_ _. 0, frefs = \<lambda>_. 0, ffree = [1, 2],
     kids = [0x801 \<mapsto> bare_kid], fresh_ids = [], own_tf = ktf bare_kid,
     run_list = \<lparr>tqh_first = None, tqh_last = HeadRef, tqe_next = (\<lambda>_. None), tqe_prev = (\<lambda>_. NullRef)\<rparr>\<rparr>"

theorem init_stack_correct_witness:
  "\<exists>sp t. init_stack 0x801 [[0x6C, 0x73], [0x2D, 0x6C]] one_child = Done (Inr sp) t \<and>
     stack_ok (frames t 1) sp [[0x6C, 0x73], [0x2D, 0x6C]] \<and> upt t = upt one_child \<and> frefs t 1 = 1"
proof -
  have "upt one_child (VPN UTEMP) = None" "ffree one_child = 1 # [2]" "kids one_child 0x801 = Some bare_kid"
      "kpt bare_kid (VPN SBASE) = None"
    by (simp_all add: one_child_def bare_kid_def)
  note c = init_stack_correct [OF this, of "[[0x6C, 0x73], [0x2D, 0x6C]]"]
  have "rtot [[0x6C, 0x73], [0x2D, 0x6C]] + 4 * (length [[0x6C, 0x73], [0x2D, 0x6C :: u8]] + 3) \<le> 4096"
    by (simp add: rtot_def)
  with c show ?thesis by (auto simp: one_child_def)
qed

section \<open>Loading a segment into the child\<close>

lemma p_copy_utemp:
  "utemp_page s f \<Longrightarrow> k + n \<le> 4096 \<Longrightarrow>
    (\<forall>i < n. \<exists>g p. upt s (VPN (src + of_nat i)) = Some (g, p) \<and> g \<noteq> f \<and>
      frame_byte (frames s g) (bofs (src + of_nat i)) = rd (src + of_nat i)) \<Longrightarrow>
    \<exists>fr. p_copy n (UTEMP + of_nat k) src s = Done () (set_fr f fr s) \<and>
      blitted (frames s f) k (map (\<lambda>i. rd (src + of_nat i)) [0..<n]) fr"
proof (induction n arbitrary: k src s)
  case 0
  then show ?case by (auto simp: run_rules blitted_def set_fr_def intro!: exI [of _ "frames s f"])
next
  case (Suc n)
  let ?fr = "set_frame_byte (frames s f) k (rd src)"
  have "\<exists>g p. upt s (VPN src) = Some (g, p) \<and> frame_byte (frames s g) (bofs src) = rd src"
    using Suc.prems(3) [rule_format, of 0] by auto
  then have ld: "p_ldb src s = Done (rd src) s" by (auto simp: p_ldb_def run_rules p_touch_run)
  have e: "UTEMP + of_nat k + 1 = UTEMP + of_nat (Suc k)" by simp
  have src': "\<exists>g p. upt (set_fr f ?fr s) (VPN (src + 1 + of_nat i)) = Some (g, p) \<and> g \<noteq> f \<and>
      frame_byte (frames (set_fr f ?fr s) g) (bofs (src + 1 + of_nat i)) = rd (src + 1 + of_nat i)" if "i < n" for i
    using Suc.prems(3) [rule_format, of "Suc i"] that by (auto simp: set_fr_def add.assoc)
  obtain fr where r: "p_copy n (UTEMP + of_nat k + 1) (src + 1) (set_fr f ?fr s) = Done () (set_fr f fr s)"
      "blitted ?fr (Suc k) (map (\<lambda>i. rd (src + 1 + of_nat i)) [0..<n]) fr"
    unfolding e using Suc.IH [of "set_fr f ?fr s" "Suc k" "src + 1"] Suc.prems(1,2) src' by auto
  have m: "map (\<lambda>i. rd (src + of_nat i)) [0..<Suc n] = rd src # map (\<lambda>i. rd (src + 1 + of_nat i)) [0..<n]"
    by (simp add: map_upt_Suc add.assoc del: upt_Suc)
  have "p_copy (Suc n) (UTEMP + of_nat k) src s = Done () (set_fr f fr s)"
    using Suc.prems(1,2) ld r(1) by (simp add: run_rules p_stb_utemp)
  then show ?case using blitted_step [OF r(2)] unfolding m by blast
qed

text \<open>
  \<open>spawn_room n\<close>: the child exists, \<^verbatim>\<open>UTEMP\<close> is free, there are \<open>n\<close> free frames that nobody maps, and the
  bytes of the file lie in the process's memory.
\<close>

definition spawn_room :: "u32 \<Rightarrow> (u32 \<Rightarrow> u8) \<Rightarrow> (u32 \<Rightarrow> bool) \<Rightarrow> nat \<Rightarrow> 'x sproc_scheme \<Rightarrow> bool" where
  "spawn_room child rd source n s \<longleftrightarrow> kids s child \<noteq> None \<and> upt s (VPN UTEMP) = None \<and> n \<le> length (ffree s) \<and>
     distinct (ffree s) \<and>
     (\<forall>f \<in> set (ffree s). frefs s f = 0 \<and> (\<forall>v p. upt s v \<noteq> Some (f, p)) \<and> (\<forall>v p. kpt (the (kids s child)) v \<noteq> Some (f, p))) \<and>
     (\<forall>a. source a \<longrightarrow> (\<exists>f p. upt s (VPN a) = Some (f, p) \<and> frame_byte (frames s f) (bofs a) = rd a))"

definition kid_image :: "u32 \<Rightarrow> 'x sproc_scheme \<Rightarrow> image" where
  "kid_image child s a = (case kids s child of None \<Rightarrow> None | Some c \<Rightarrow>
     (case kpt c (VPN a) of None \<Rightarrow> None | Some (f, _) \<Rightarrow> Some (frame_byte (frames s f) (bofs a))))"

text \<open>The state after a call: a new frame of the child at the page of \<open>va\<close>.\<close>

definition kid_page :: "u32 \<Rightarrow> kid \<Rightarrow> u32 \<Rightarrow> u32 \<Rightarrow> nat \<Rightarrow> nat list \<Rightarrow> frame \<Rightarrow> 'x sproc_scheme \<Rightarrow> 'x sproc_scheme" where
  "kid_page child c va perm f fs fr s = s\<lparr>kids := (kids s)(child \<mapsto> c\<lparr>kpt := (kpt c)(VPN va \<mapsto> (f, perm OR PTE_V))\<rparr>),
     ffree := fs, frames := (frames s)(f := fr), frefs := (frefs s)(f := 1)\<rparr>"

lemma spawn_mapper_run:
  assumes r: "spawn_room child rd source (Suc n) s" and va: "\<not> low_va va" and c: "kids s child = Some c" "kpt c (VPN va) = None"
    and off: "unat off < 4096"
    and src: "src \<noteq> None \<longrightarrow> unat off + unat len \<le> 4096 \<and> (\<forall>k < unat len. source (the src + of_nat k))"
  shows "\<exists>f fs fr. ffree s = f # fs \<and> spawn_mapper child va off perm src len s = Done (Inr ()) (kid_page child c va perm f fs fr s) \<and>
    (\<forall>j. frame_byte fr j = page_byte rd off src len j)"
proof -
  obtain f fs where f: "ffree s = f # fs" using r by (cases "ffree s") (auto simp: spawn_room_def)
  have ff: "frefs s f = 0" "\<And>v p. upt s v \<noteq> Some (f, p)" using r f by (auto simp: spawn_room_def)
  let ?s1 = "kid_page child c va perm f fs (\<lambda>_. 0) s"
  have z: "frame_byte (\<lambda>_. 0) j = 0" for j by (simp add: frame_byte_def byte_of_def)
  have al: "alloc_in child va perm s = Done (Inr ()) ?s1"
    using va c f ff(1) by (simp add: alloc_in_def kid_of_def run_rules kid_map_def Let_def set_kid_def kid_page_def)
  show ?thesis
  proof (cases src)
    case None
    then have "spawn_mapper child va off perm src len s = Done (Inr ()) ?s1" using al by (simp add: spawn_mapper_def run_rules)
    then show ?thesis using f None z by (auto simp: page_byte_def)
  next
    case (Some b)
    have len: "unat off + unat len \<le> 4096" and sr: "\<forall>k < unat len. source (b + of_nat k)" using src Some by simp_all
    define pp where "pp = (perm OR PTE_D) OR PTE_V"
    define s2 where "s2 = ?s1\<lparr>upt := (upt s)(VPN UTEMP \<mapsto> (f, pp)), frefs := (frefs s)(f := 2)\<rparr>"
    have ut: "\<not> low_va UTEMP" using utemp_addr(4) [of 0] by simp
    have ku: "upt s (VPN UTEMP) = None" using r by (simp add: spawn_room_def)
    have k1: "upt ?s1 = upt s" "frefs ?s1 = (frefs s)(f := 1)"
      "kids ?s1 child = Some (c\<lparr>kpt := (kpt c)(VPN va \<mapsto> (f, perm OR PTE_V))\<rparr>)" by (simp_all add: kid_page_def)
    have mf: "map_from child va UTEMP (perm OR PTE_D) ?s1 = Done (Inr ()) s2"
      using va ut ku k1 by (simp add: map_from_def kid_of_def run_rules map_vpn_def s2_def pp_def numeral_2_eq_2)
    have up: "utemp_page s2 f"
    proof -
      have "bit (pp AND PTE_D) 10" by (simp add: pp_def PTE_D_def bit_simps)
      then have "pp AND PTE_D \<noteq> 0" by auto
      then show ?thesis by (simp add: utemp_page_def s2_def)
    qed
    have "\<exists>g p. upt s2 (VPN a) = Some (g, p) \<and> g \<noteq> f \<and> frame_byte (frames s2 g) (bofs a) = rd a" if "source a" for a
    proof -
      obtain g p where g: "upt s (VPN a) = Some (g, p)" "frame_byte (frames s g) (bofs a) = rd a"
        using r \<open>source a\<close> by (auto simp: spawn_room_def)
      then have "g \<noteq> f" "VPN a \<noteq> VPN UTEMP" using ff(2) ku by auto
      then show ?thesis using g by (simp add: s2_def kid_page_def)
    qed
    then obtain fr where fr: "p_copy (unat len) (UTEMP + of_nat (unat off)) b s2 = Done () (set_fr f fr s2)"
        "blitted (frames s2 f) (unat off) (map (\<lambda>i. rd (b + of_nat i)) [0..<unat len]) fr"
      using p_copy_utemp [OF up len, of b rd] sr by blast
    have un: "p_unmap UTEMP (set_fr f fr s2) = Done (Inr ()) (kid_page child c va perm f fs fr s)"
    proof -
      have "(upt s)(VPN UTEMP := None) = upt s" using ku by auto
      then show ?thesis using ut
        by (simp add: p_unmap_def run_rules unmap_vpn_def drop_frame_def set_fr_def s2_def kid_page_def)
    qed
    have "spawn_mapper child va off perm src len s = Done (Inr ()) (kid_page child c va perm f fs fr s)"
      using al mf fr(1) un Some by (simp add: spawn_mapper_def try_else_def run_rules)
    moreover have "frame_byte fr j = page_byte rd off src len j" for j
      using fr(2) z Some by (auto simp: blitted_def page_byte_def s2_def kid_page_def)
    ultimately show ?thesis using f by blast
  qed
qed

lemma spawn_mapper_maps:
  assumes r: "spawn_room child rd source (Suc n) s" and va: "\<not> low_va va"
    and new: "\<And>a. VPN a = VPN va \<Longrightarrow> kid_image child s a = None" and off: "unat off < 4096"
    and src: "\<And>b. src = Some b \<Longrightarrow> unat off + unat len \<le> 4096 \<and> (\<forall>k < unat len. source (b + of_nat k))"
  shows "\<exists>t. spawn_mapper child va off perm src len s = Done (Inr ()) t \<and> spawn_room child rd source n t \<and>
    (\<forall>a. kid_image child t a = (if VPN a = VPN va then Some (page_byte rd off src len (unat a mod 4096)) else kid_image child s a))"
proof -
  obtain c where c: "kids s child = Some c" using r by (auto simp: spawn_room_def)
  have "kpt c (VPN va) = None" using new [of va] c by (auto simp: kid_image_def split: option.splits)
  from spawn_mapper_run [OF r va c this off, of src len] src obtain f fs fr where
    t: "ffree s = f # fs" "spawn_mapper child va off perm src len s = Done (Inr ()) (kid_page child c va perm f fs fr s)"
      "\<forall>j. frame_byte fr j = page_byte rd off src len j" by force
  let ?t = "kid_page child c va perm f fs fr s"
  have un: "upt s v \<noteq> Some (f, p)" "kpt c v \<noteq> Some (f, p)" for v p using r t(1) c by (auto simp: spawn_room_def)
  have fs: "f \<notin> set fs" "distinct fs" "n \<le> length fs" using r t(1) by (auto simp: spawn_room_def)
  have "\<exists>g p. upt s (VPN a) = Some (g, p) \<and> frame_byte (((frames s)(f := fr)) g) (bofs a) = rd a" if "source a" for a
    using r that un(1) unfolding spawn_room_def by (metis fun_upd_other)
  then have "spawn_room child rd source n ?t"
    using r fs t(1) c by (auto simp: spawn_room_def kid_page_def)
  moreover have "kid_image child ?t a = (if VPN a = VPN va then Some (page_byte rd off src len (unat a mod 4096)) else kid_image child s a)" for a
    using t(3) un(2) [of "VPN a"] c by (auto simp: kid_image_def kid_page_def bofs_def split: option.split)
  ultimately show ?thesis using t(2) by blast
qed

interpretation spawned: segment_mapper "spawn_mapper child" rd "spawn_room child rd source" "kid_image child"
    "\<lambda>a. \<not> low_va a" source for child rd source
  by unfold_locales (rule spawn_mapper_maps, assumption+)

text \<open>
  A segment that \<^verbatim>\<open>spawn\<close> loads: with a free frame for each of its pages the child's memory is what the
  file says.
\<close>

lemma spawn_loads_segment:
  assumes "loadable ph" "spawn_room child rd source (seg_end ph - seg_first ph) s"
    and "\<And>a. in_seg ph a \<Longrightarrow> \<not> low_va a \<and> kid_image child s a = None"
    and "\<And>k. k < unat (p_filesz ph) \<Longrightarrow> source (bin + of_nat k)"
  shows "\<exists>t. elf_load_seg ph bin (spawn_mapper child) s = Done (Inr ()) t \<and>
    (\<forall>a. kid_image child t a = (if in_seg ph a then Some (seg_byte rd ph bin a) else kid_image child s a))"
  using spawned.segment [OF assms(1), of child rd source 0 s bin] assms(2-4) by force

end
