(* ===== verification/Uframe.thy ===== *)
theory Uframe
  imports File
begin

text \<open>
  A calculus of frames: \<open>keeping K m\<close> says that a run of \<open>m\<close> that returns relates the state before to
  the state after by \<open>K\<close>. The locale \<open>frame_rel\<close> is the contract of such a relation, a preorder;
  \<open>user_frame\<close> adds that \<open>K\<close> does not look at a process's own pages, and then every operation on
  memory, descriptors and files keeps \<open>K\<close> when the devices and the server do.
\<close>

definition keeping :: "('s \<Rightarrow> 's \<Rightarrow> bool) \<Rightarrow> ('s, 'a) kprog \<Rightarrow> bool" where
  "keeping K m \<longleftrightarrow> (\<forall>s a t. m s = Done a t \<longrightarrow> K s t)"

lemma keepingD: "keeping K m \<Longrightarrow> m s = Done a t \<Longrightarrow> K s t"
  by (simp add: keeping_def)

named_theorems frame_rules

lemma keeping_if [frame_rules]: "keeping K m \<Longrightarrow> keeping K n \<Longrightarrow> keeping K (if b then m else n)"
  by simp

lemma keeping_cases [frame_rules]:
  "(\<And>e. keeping K (f e)) \<Longrightarrow> (\<And>a. keeping K (g a)) \<Longrightarrow> keeping K (case r of Inl e \<Rightarrow> f e | Inr a \<Rightarrow> g a)"
  "keeping K m \<Longrightarrow> (\<And>a. keeping K (h a)) \<Longrightarrow> keeping K (case p of None \<Rightarrow> m | Some a \<Rightarrow> h a)"
  "keeping K m \<Longrightarrow> (\<And>a as. keeping K (k a as)) \<Longrightarrow> keeping K (case l of [] \<Rightarrow> m | a # as \<Rightarrow> k a as)"
  "(\<And>a b. keeping K (c a b)) \<Longrightarrow> keeping K (case q of (a, b) \<Rightarrow> c a b)"
  by (simp_all split: sum.split option.split list.split prod.split)

lemma keeping_stop [frame_rules]: "keeping K (panicK msg)" "keeping K awayK"
  by (simp_all add: keeping_def panicK_def awayK_def)

locale frame_rel =
  fixes K :: "'s \<Rightarrow> 's \<Rightarrow> bool"
  assumes K_refl: "K s s"
    and K_trans: "K s t \<Longrightarrow> K t u \<Longrightarrow> K s u"
begin

lemma basic [frame_rules]: "keeping K (retK a)" "keeping K (getsK f)" "keeping K (assertK b msg)"
  by (auto simp: keeping_def run_rules K_refl split: if_splits)

lemma modify: "(\<And>s. K s (f s)) \<Longrightarrow> keeping K (modifyK f)"
  by (auto simp: keeping_def modifyK_def)

lemma bind [frame_rules]:
  assumes "keeping K m" "\<And>a. keeping K (f a)"
  shows "keeping K (bindK m f)"
  using assms K_trans unfolding keeping_def bind_Done by blast

lemma seq [frame_rules]: "keeping K m \<Longrightarrow> keeping K n \<Longrightarrow> keeping K (seqK m n)"
  by (simp add: seqK_def bind)

lemma tryr [frame_rules]: "keeping K m \<Longrightarrow> (\<And>a. keeping K (f a)) \<Longrightarrow> keeping K (tryK m f)"
  unfolding tryK_def by (intro frame_rules)

lemma for_loops [frame_rules]:
  "(\<And>i. keeping K (f i)) \<Longrightarrow> keeping K (forK is f)" "(\<And>i. keeping K (g i)) \<Longrightarrow> keeping K (forE js g)"
  by (induction "is", simp_all add: frame_rules) (induction js, simp_all add: frame_rules)

end

section \<open>A process's own pages\<close>

text \<open>The parts of the state that the operations on a process's own pages change.\<close>

definition set_pages :: "(nat \<Rightarrow> (nat \<times> u32) option) \<Rightarrow> (nat \<Rightarrow> frame) \<Rightarrow> (nat \<Rightarrow> nat) \<Rightarrow> nat list \<Rightarrow>
    'x uproc_scheme \<Rightarrow> 'x uproc_scheme" where
  "set_pages pt fr rf fl s = s\<lparr>upt := pt, frames := fr, frefs := rf, ffree := fl\<rparr>"

lemma frames_set_pages: "s\<lparr>frames := fr\<rparr> = set_pages (upt s) fr (frefs s) (ffree s) s"
  by (simp add: set_pages_def)

lemma map_vpn_pages: "\<exists>pt rf fl. map_vpn v f p s = set_pages pt (frames s) rf fl s"
  "\<exists>pt rf fl. unmap_vpn v s = set_pages pt (frames s) rf fl s"
proof -
  have u: "\<exists>pt rf fl. unmap_vpn v t = set_pages pt (frames t) rf fl t" for t :: "'a uproc_scheme"
  proof (cases "upt t v")
    case None
    then have "unmap_vpn v t = set_pages (upt t) (frames t) (frefs t) (ffree t) t"
      by (simp add: unmap_vpn_def set_pages_def)
    then show ?thesis by blast
  next
    case (Some q)
    then have "unmap_vpn v t = set_pages ((upt t)(v := None)) (frames t)
        ((frefs t)(fst q := frefs t (fst q) - 1)) (if frefs t (fst q) = 1 then fst q # ffree t else ffree t) t"
      by (cases q) (simp add: unmap_vpn_def drop_frame_def set_pages_def)
    then show ?thesis by blast
  qed
  show "\<exists>pt rf fl. unmap_vpn v s = set_pages pt (frames s) rf fl s" by (rule u)
  show "\<exists>pt rf fl. map_vpn v f p s = set_pages pt (frames s) rf fl s"
  proof (cases "upt s v")
    case None
    then have "map_vpn v f p s = set_pages ((upt s)(v \<mapsto> (f, p OR PTE_V))) (frames s) ((frefs s)(f := frefs s f + 1)) (ffree s) s"
      by (simp add: map_vpn_def set_pages_def)
    then show ?thesis by blast
  next
    case (Some q)
    obtain pt rf fl where r: "unmap_vpn v s = set_pages pt (frames s) rf fl s" using u by blast
    show ?thesis
    proof (cases "fst q = f")
      case True
      then have "map_vpn v f p s = set_pages ((upt s)(v \<mapsto> (f, p OR PTE_V))) (frames s) (frefs s) (ffree s) s"
        using Some by (cases q) (simp add: map_vpn_def set_pages_def)
      then show ?thesis by blast
    next
      case False
      then have "map_vpn v f p s = set_pages (pt(v \<mapsto> (f, p OR PTE_V))) (frames s) (rf(f := rf f + 1)) fl s"
        using Some r by (cases q) (simp add: map_vpn_def set_pages_def Let_def)
      then show ?thesis by blast
    qed
  qed
qed

locale user_frame = frame_rel K for K :: "'x uproc_scheme \<Rightarrow> 'x uproc_scheme \<Rightarrow> bool" +
  assumes K_pages: "K s (set_pages pt fr rf fl s)"
begin

lemma own_vpn: "K s (map_vpn v f p s)" "K s (unmap_vpn v s)"
  using map_vpn_pages(1) [of v f p s] map_vpn_pages(2) [of v s] K_pages by metis+

lemma own_frames: "K s (s\<lparr>frames := fr\<rparr>)"
  unfolding frames_set_pages by (rule K_pages)

lemma own_fresh: "K s (map_vpn v f p (s\<lparr>ffree := fl, frames := fr\<rparr>))"
proof -
  have "s\<lparr>ffree := fl, frames := fr\<rparr> = set_pages (upt s) fr (frefs s) fl s" by (simp add: set_pages_def)
  then have "K s (s\<lparr>ffree := fl, frames := fr\<rparr>)" by (metis K_pages)
  then show ?thesis using K_trans own_vpn(1) by blast
qed

lemma own_steps [frame_rules]:
  "keeping K (modifyK (\<lambda>s. map_vpn v f p (s\<lparr>ffree := fl, frames := g s\<rparr>)))"
  "keeping K (modifyK (map_vpn v f p))" "keeping K (modifyK (unmap_vpn v))"
  "keeping K (modifyK (\<lambda>s. s\<lparr>frames := g s\<rparr>))"
  by (intro modify own_vpn own_frames own_fresh)+

lemma pages [frame_rules]:
  "keeping K (p_alloc va perm)" "keeping K (p_map a b perm)" "keeping K (p_unmap va)"
  unfolding p_alloc_def p_map_def p_unmap_def by (intro frame_rules)+

lemma touch [frame_rules]: "keeping K (p_touch va)" "keeping K (p_wtouch va)"
  unfolding p_wtouch_def p_touch_def by (intro frame_rules)+

lemma access [frame_rules]:
  "keeping K (p_ldw va)" "keeping K (p_stw va w)" "keeping K (p_ldb va)" "keeping K (p_stb va b)"
  unfolding p_ldw_def p_stw_def p_ldb_def p_stb_def by (intro frame_rules)+

lemma copies [frame_rules]: "keeping K (p_copy n dst src)" "keeping K (p_store_string a p)"
  by (induction n arbitrary: dst src, simp_all add: frame_rules) (induction a arbitrary: p, simp_all add: frame_rules)

end

section \<open>Descriptors and files\<close>

text \<open>Devices and servers that keep \<open>K\<close>.\<close>

definition frame_dev :: "('s \<Rightarrow> 's \<Rightarrow> bool) \<Rightarrow> 's dev \<Rightarrow> bool" where
  "frame_dev K d \<longleftrightarrow> (\<forall>fd buf n off. keeping K (dev_read d fd buf n off) \<and> keeping K (dev_write d fd buf n off) \<and>
     keeping K (dev_close d fd))"

definition frame_srv :: "('x uproc_scheme \<Rightarrow> 'x uproc_scheme \<Rightarrow> bool) \<Rightarrow> 'x server \<Rightarrow> bool" where
  "frame_srv K srv \<longleftrightarrow> (\<forall>ty req dst. keeping K (srv ty req dst))"

lemma frame_devD:
  "list_all (frame_dev K) ds \<Longrightarrow> d \<in> set ds \<Longrightarrow> keeping K (dev_read d fd buf n off)"
  "list_all (frame_dev K) ds \<Longrightarrow> d \<in> set ds \<Longrightarrow> keeping K (dev_write d fd buf n off)"
  "list_all (frame_dev K) ds \<Longrightarrow> d \<in> set ds \<Longrightarrow> keeping K (dev_close d fd)"
  by (auto simp: list_all_iff frame_dev_def)

lemma dev_lookup_set: "dev_lookup ds i = Inr d \<Longrightarrow> d \<in> set ds"
  by (induction ds) (auto split: if_splits)

context user_frame
begin

lemma with_fd [frame_rules]: "(\<And>fd. keeping K (f fd)) \<Longrightarrow> keeping K (with_fd fdnum f)"
  unfolding with_fd_def fd_lookup_def by (intro frame_rules)

lemma with_dev:
  assumes "\<And>fd d. d \<in> set devtab \<Longrightarrow> keeping K (f fd d)"
  shows "keeping K (with_dev devtab fdnum f)"
proof -
  have "keeping K (case dev_lookup devtab i of Inl e \<Rightarrow> retK (neg e) | Inr d \<Rightarrow> f fd d)" for i fd
    by (cases "dev_lookup devtab i") (simp_all add: frame_rules assms dev_lookup_set)
  then show ?thesis unfolding with_dev_def by (intro with_fd bind access)
qed

lemma close_dup [frame_rules]:
  assumes "list_all (frame_dev K) ds"
  shows "keeping K (close ds fdnum)" "keeping K (close_all ds)" "keeping K (dup ds a b)"
proof -
  show c: "keeping K (close ds fdnum)" for fdnum
    unfolding close_def fd_close_def by (intro with_dev) (intro frame_rules frame_devD(3) [OF assms])
  then show "keeping K (close_all ds)" unfolding close_all_def by (intro frame_rules)
  have "keeping K (dup_pages is ova nva)" for "is" ova nva
    by (induction "is") (simp_all add: frame_rules split: option.split)
  then show "keeping K (dup ds a b)" unfolding dup_def Let_def by (intro frame_rules c)
qed

lemma transfers [frame_rules]:
  assumes "list_all (frame_dev K) ds"
  shows "keeping K (read ds fdnum buf n)" "keeping K (write_fd ds fdnum buf n)" "keeping K (readn ds fdnum buf n)"
proof -
  show r: "keeping K (read ds fdnum buf n)" for buf n
    unfolding read_def advance_def by (intro with_dev) (intro frame_rules frame_devD(1) [OF assms])
  show "keeping K (write_fd ds fdnum buf n)"
    unfolding write_fd_def advance_def by (intro with_dev) (intro frame_rules frame_devD(2) [OF assms])
  have "keeping K (readn_loop k ds fdnum buf n tot)" for k tot
    by (induction k arbitrary: tot) (simp_all add: frame_rules r)
  then show "keeping K (readn ds fdnum buf n)" unfolding readn_def .
qed

lemma files [frame_rules]: "keeping K (seek fdnum off)" "keeping K (read_map fdnum off)" "keeping K (fd_alloc)"
  unfolding seek_def read_map_def fd_lookup_def fd_alloc_def Let_def by (intro frame_rules)+

lemma for_pages [frame_rules]:
  assumes "\<And>i. keeping K (f i)"
  shows "keeping K (for_pages i n f)"
proof -
  have "keeping K (page_loop k i n f)" for k
  proof (induction k arbitrary: i)
    case (Suc k)
    then show ?case using assms by (subst page_loop.simps) (auto intro!: frame_rules)
  qed (subst page_loop.simps, simp add: frame_rules)
  then show ?thesis by (simp add: for_pages_def)
qed

lemma requests [frame_rules]:
  assumes "frame_srv K srv"
  shows "keeping K (open_path srv buf path mode)" "keeping K (create_path srv buf path ty)"
  using assms unfolding open_path_def create_path_def fsipc_create_def fsipc_open_def fsipc_def fsipc_map_def
    thenK_def Let_def frame_srv_def
  by (blast intro: frame_rules)+

lemma make_pipe_frame [frame_rules]: "keeping K make_pipe"
  unfolding make_pipe_def orelse_def undo_def by (intro frame_rules)

end

end
