(* ===== verification/Spawn_Safe.thy ===== *)
theory Spawn_Safe
  imports Spawn Uframe File_Thms
begin

text \<open>
  What \<^verbatim>\<open>spawn\<close> does to the environments: everything before its last step changes at most the new
  child, and a failure destroys it. The devices and the file server are parameters; they are
  assumed to leave the process's children alone.
\<close>

section \<open>Programs that change one child at most\<close>

definition one_kid :: "u32 \<Rightarrow> 'x sproc_scheme \<Rightarrow> 'x sproc_scheme \<Rightarrow> bool" where
  "one_kid c s t \<longleftrightarrow> (\<forall>i. i \<noteq> c \<longrightarrow> kids t i = kids s i) \<and>
     map_option kready (kids t c) = map_option kready (kids s c) \<and> fresh_ids t = fresh_ids s \<and> run_list t = run_list s"

abbreviation on_kid :: "u32 \<Rightarrow> ('x, 'a) spawnM \<Rightarrow> bool" where
  "on_kid c \<equiv> keeping (one_kid c)"

lemma one_kid_trans: "one_kid c s t \<Longrightarrow> one_kid c t u \<Longrightarrow> one_kid c s u"
  by (simp add: one_kid_def)

interpretation kid: user_frame "one_kid c" for c :: u32
  by unfold_locales (auto simp: one_kid_def set_pages_def)

lemma kids_drop [simp]: "kids (drop_frame f s) = kids s" "fresh_ids (drop_frame f s) = fresh_ids s"
  "run_list (drop_frame f s) = run_list s"
  by (simp_all add: drop_frame_def)

definition kid_free_dev :: "('x sproc_scheme) dev \<Rightarrow> bool" where
  "kid_free_dev d \<longleftrightarrow> (\<forall>c. frame_dev (one_kid c) d)"

definition kid_free_srv :: "'x sproc_ext server \<Rightarrow> bool" where
  "kid_free_srv srv \<longleftrightarrow> (\<forall>c. frame_srv (one_kid c) srv)"

lemma kid_free_devs: "list_all kid_free_dev ds \<Longrightarrow> list_all (frame_dev (one_kid c)) ds"
  by (simp add: list_all_iff kid_free_dev_def)

lemmas on_kid_close = kid.close_dup(1) [OF kid_free_devs]
lemmas on_kid_readn = kid.transfers(3) [OF kid_free_devs]

lemma on_kid_open: "kid_free_srv srv \<Longrightarrow> on_kid c (open_path srv buf path mode)"
  by (simp add: kid.requests kid_free_srv_def)

lemma on_kid_checks [frame_rules]:
  fixes m :: "('x, int) spawnM" and m' :: "('x, err + 'b) spawnM" and h :: "('x, unit) spawnM"
  shows "on_kid c m \<Longrightarrow> (\<And>a. on_kid c (f a)) \<Longrightarrow> on_kid c (checkK m f)"
  "on_kid c m' \<Longrightarrow> (\<And>a. on_kid c (g a)) \<Longrightarrow> on_kid c (checkE m' g)"
  "on_kid c m' \<Longrightarrow> on_kid c h \<Longrightarrow> (\<And>a. on_kid c (k a)) \<Longrightarrow> on_kid c (try_else m' h k)"
  "on_kid c m' \<Longrightarrow> on_kid c (ignoreE m')"
  unfolding checkK_def checkE_def try_else_def ignoreE_def by (intro frame_rules; assumption)+

section \<open>The child\<close>

lemma on_kid_kid_of [frame_rules]:
  assumes "\<And>k s t a. kids s c = Some k \<Longrightarrow> f k s = Done a t \<Longrightarrow> one_kid c s t"
  shows "on_kid c (kid_of c f)"
  using assms by (auto simp: keeping_def kid_of_def done_rules kid.K_refl split: option.splits)

lemma kids_kid_map [simp]: "kids (kid_map c k v f p s) = (kids s)(c \<mapsto> k\<lparr>kpt := (kpt k)(v \<mapsto> (f, p OR PTE_V))\<rparr>)"
  "fresh_ids (kid_map c k v f p s) = fresh_ids s" "run_list (kid_map c k v f p s) = run_list s"
  by (auto simp: kid_map_def set_kid_def Let_def split: option.split)

lemma kids_set_kid [simp]: "kids (set_kid c k s) = (kids s)(c \<mapsto> k)" "fresh_ids (set_kid c k s) = fresh_ids s"
  "run_list (set_kid c k s) = run_list s"
  by (simp_all add: set_kid_def)

lemma one_kid_unmap: "kids s c = Some k \<Longrightarrow> one_kid c s (kid_unmap c k v s)"
  by (auto simp: one_kid_def kid_unmap_def split: option.split)

lemma one_kid_set: "kids s c = Some k \<Longrightarrow> kready x = kready k \<Longrightarrow> one_kid c s (set_kid c x s)"
  "kids s c = Some k \<Longrightarrow> one_kid c s (kid_map c k v f p (s\<lparr>ffree := fl, frames := fr\<rparr>))"
  "kids s c = Some k \<Longrightarrow> one_kid c s (kid_map c k v f p s)"
  by (simp_all add: one_kid_def)

lemma on_kid_calls [frame_rules]:
  "on_kid c (alloc_in c va perm)" "on_kid c (map_to va c va' perm)" "on_kid c (map_from c va va' perm)"
  "on_kid c (unmap_in c va)" "on_kid c (set_trapframe c tf)"
  unfolding alloc_in_def map_to_def map_from_def unmap_in_def set_trapframe_def
  by (intro frame_rules; auto simp: done_rules one_kid_unmap one_kid_set kid.own_vpn kid.K_refl split: list.splits option.splits)+

lemma on_kid_elf:
  assumes "\<And>va off perm src len. on_kid c (m va off perm src len)"
  shows "on_kid c (elf_load_seg ph bin m)"
proof -
  have "on_kid c (elf_load_bin n m va perm b fsz i)" for n va perm b fsz i
  proof (induction n arbitrary: i)
    case (Suc n)
    then show ?case using assms by (subst elf_load_bin.simps) (auto intro!: frame_rules)
  qed (subst elf_load_bin.simps, simp add: frame_rules)
  moreover have "on_kid c (elf_load_bss n m va perm fsz msz i)" for n va perm fsz msz i
  proof (induction n arbitrary: i)
    case (Suc n)
    then show ?case using assms by (subst elf_load_bss.simps) (auto intro!: frame_rules)
  qed (subst elf_load_bss.simps, simp add: frame_rules)
  ultimately show ?thesis unfolding elf_load_seg_def Let_def by (intro frame_rules assms)
qed

lemma on_kid_mapper [frame_rules]: "on_kid c (spawn_mapper c va off perm src len)"
  unfolding spawn_mapper_def by (intro frame_rules)

lemma on_kid_segments [frame_rules]: "list_all kid_free_dev ds \<Longrightarrow> on_kid c (load_segments n ds fd buf c idx off)"
proof (induction n arbitrary: idx off)
  case (Suc n)
  then show ?case by (subst load_segments.simps) (auto intro!: frame_rules on_kid_elf intro: kid_free_devs)
qed (subst load_segments.simps, simp add: frame_rules)

lemma on_kid_strings [frame_rules]: "on_kid c (put_strings argv p)" "on_kid c (put_pointers argv q p)"
  by (induction argv arbitrary: p q) (simp_all add: frame_rules)

lemma on_kid_stack [frame_rules]: "on_kid c (init_stack c argv)"
  unfolding init_stack_def Let_def by (intro frame_rules)

lemma on_kid_load [frame_rules]: "list_all kid_free_dev ds \<Longrightarrow> on_kid c (load_child ds fd buf c argv)"
  unfolding load_child_def by (intro frame_rules)

lemma on_kid_share [frame_rules]: "on_kid c (share_library c)"
  unfolding share_library_def share_page_def Let_def by (intro frame_rules)

section \<open>The outcome of spawn\<close>

lemma kids_drop_pages [simp]: "kids (drop_pages pt s) = kids s" "run_list (drop_pages pt s) = run_list s"
proof -
  have "kids (fold (\<lambda>v s. case pt v of None \<Rightarrow> s | Some (f, _) \<Rightarrow> drop_frame f s) vs s) = kids s \<and>
      run_list (fold (\<lambda>v s. case pt v of None \<Rightarrow> s | Some (f, _) \<Rightarrow> drop_frame f s) vs s) = run_list s" for vs
    by (induction vs arbitrary: s) (auto split: option.split)
  then show "kids (drop_pages pt s) = kids s" "run_list (drop_pages pt s) = run_list s"
    by (simp_all add: drop_pages_def)
qed

lemma on_run_list_run:
  "on_run_list f s = (case f (run_list s) of None \<Rightarrow> Panic ''store through NULL'' | Some q \<Rightarrow> Done () (s\<lparr>run_list := q\<rparr>))"
  by (simp add: on_run_list_def stepK_def split: option.split)

text \<open>
  Destroying an environment that was never in the run list stops the kernel: the address of the cell
  that would point to it is null.
\<close>

lemma destroy_never_queued:
  assumes "kids s c = Some k" "tqe_prev (run_list s) (ENVX c) = NullRef"
  shows "destroy_env c s = Panic ''store through NULL''"
proof -
  have "TAILQ_REMOVE (ENVX c) (run_list s) = None"
    using assms(2) by (simp add: TAILQ_REMOVE_def Let_def split: option.split)
  then show ?thesis using assms(1) by (simp add: destroy_env_def kid_of_def run_rules on_run_list_run)
qed

lemma destroy_unknown: "kids s c = None \<Longrightarrow> destroy_env c s = Done (Inl E_BAD_ENV) s"
  by (simp add: destroy_env_def kid_of_def run_rules)

lemma set_runnable_cases:
  assumes "set_runnable c s = Done r t"
  shows "(r = Inl E_BAD_ENV \<and> t = s \<and> kids s c = None) \<or>
    (\<exists>k. kids s c = Some k \<and> r = Inr () \<and> kids t = (kids s)(c \<mapsto> k\<lparr>kready := True\<rparr>) \<and>
      (\<not> kready k \<longrightarrow> TAILQ_INSERT_TAIL (ENVX c) (run_list s) = Some (run_list t)))"
proof (cases "kids s c")
  case None
  then show ?thesis using assms by (simp add: set_runnable_def kid_of_def run_rules)
next
  case (Some k)
  then show ?thesis
    using assms by (auto simp: set_runnable_def kid_of_def run_rules on_run_list_run split: if_splits option.splits)
qed

lemma checkE_cases:
  assumes "checkE m f s = Done x t"
  shows "(\<exists>e. m s = Done (Inl e) t \<and> x = Inl (Code (neg e))) \<or> (\<exists>a u. m s = Done (Inr a) u \<and> f a u = Done x t)"
proof -
  obtain r u where r: "m s = Done r u" "(case r of Inl e \<Rightarrow> retK (Inl (Code (neg e))) | Inr a \<Rightarrow> f a) u = Done x t"
    using assms by (auto simp: checkE_def done_rules)
  show ?thesis
  proof (cases r)
    case (Inl e)
    then show ?thesis using r by (simp add: done_rules)
  next
    case (Inr a)
    then show ?thesis using r by simp
  qed
qed

lemma one_kid_none: "one_kid c s t \<Longrightarrow> kids s c = None \<longleftrightarrow> kids t c = None"
  unfolding one_kid_def by (cases "kids s c"; cases "kids t c") simp_all

text \<open>The last steps: an error leaves the child as it was; otherwise it has become ready and is in the run list.\<close>

lemma start_child_cases:
  assumes run: "start_child c entry sp s = Done q t"
  shows "(\<exists>e. q = Inl (Code (neg e)) \<and> one_kid c s t) \<or>
    (\<exists>u. q = Inr () \<and> one_kid c s u \<and> set_runnable c u = Done (Inr ()) t)"
proof -
  obtain k where k: "kids s c = Some k" and
    m: "checkE (set_trapframe c (put_reg 29 sp ((ktf k)\<lparr>tf_epc := entry\<rparr>))) (\<lambda>_. checkE (share_library c) (\<lambda>_.
        checkE (set_runnable c) (\<lambda>_. retK (Inr ())))) s = Done q t"
    using run by (auto simp: start_child_def done_rules split: option.splits)
  note tr = keepingD [OF on_kid_calls(5)] and sh = keepingD [OF on_kid_share]
  from checkE_cases [OF m] show ?thesis
  proof (elim disjE exE conjE)
    fix a u assume u: "set_trapframe c (put_reg 29 sp ((ktf k)\<lparr>tf_epc := entry\<rparr>)) s = Done (Inr a) u"
      and w: "checkE (share_library c) (\<lambda>_. checkE (set_runnable c) (\<lambda>_. retK (Inr ()))) u = Done q t"
    from checkE_cases [OF w] show ?thesis
    proof (elim disjE exE conjE)
      fix b v assume v: "share_library c u = Done (Inr b) v"
        and "checkE (set_runnable c) (\<lambda>_. retK (Inr ())) v = Done q t"
      moreover have o: "one_kid c s v" using one_kid_trans [OF tr [OF u] sh [OF v]] .
      ultimately show ?thesis
        using checkE_cases [of "set_runnable c" "\<lambda>_. retK (Inr ())" v q t] set_runnable_cases [of c v _ t]
        by (auto simp: done_rules)
    qed (use one_kid_trans [OF tr [OF u] sh] in blast)
  qed (use tr in blast)
qed

lemma on_kid_all:
  assumes "\<And>c. on_kid c m" "m s = Done a t"
  shows "kids t = kids s" "fresh_ids t = fresh_ids s" "run_list t = run_list s"
proof -
  show "kids t = kids s"
  proof
    fix i :: u32
    have "i \<noteq> i + 1" by simp
    then show "kids t i = kids s i" using assms(1) [of "i + 1"] assms(2) by (auto simp: keeping_def one_kid_def)
  qed
  show "fresh_ids t = fresh_ids s" "run_list t = run_list s"
    using keepingD [OF assms(1) [of 0] assms(2)] by (simp_all add: one_kid_def)
qed

text \<open>Every code that a check hands on is negative.\<close>

definition neg_fail :: "('s, fail + 'a) kprog \<Rightarrow> bool" where
  "neg_fail m \<longleftrightarrow> (\<forall>s r t. m s = Done (Inl (Code r)) t \<longrightarrow> r < 0)"

named_theorems neg_rules

lemma neg_fail_basic [neg_rules]: "neg_fail (retK (Inr a))" "neg_fail (panicK msg)"
  by (simp_all add: neg_fail_def retK_def panicK_def)

lemma neg_fail_bind [neg_rules]: "(\<And>a. neg_fail (f a)) \<Longrightarrow> neg_fail (bindK m f)"
  unfolding neg_fail_def bind_Done by blast

lemma neg_fail_gets: "(\<And>a. neg_fail (f a)) \<Longrightarrow> neg_fail (bindK (getsK g) f)"
  by (rule neg_fail_bind)

lemma neg_fail_checkK [neg_rules]:
  assumes "\<And>a. neg_fail (f a)"
  shows "neg_fail (checkK m f)"
proof -
  have "neg_fail (if r < 0 then retK (Inl (Code r)) else f r)" for r
    using assms by (simp add: neg_fail_def retK_def)
  then show ?thesis unfolding checkK_def by (intro neg_fail_bind)
qed

lemma neg_fail_checkE [neg_rules]:
  assumes "\<And>b. neg_fail (g b)"
  shows "neg_fail (checkE m g)"
proof -
  have "neg_fail (case r of Inl e \<Rightarrow> retK (Inl (Code (neg e))) | Inr a \<Rightarrow> g a)" for r
    using assms by (cases r) (simp_all add: neg_fail_def retK_def neg_def)
  then show ?thesis unfolding checkE_def by (intro neg_fail_bind)
qed

lemma neg_fail_pass:
  assumes "neg_fail m" "\<And>a. neg_fail (g a)"
  shows "neg_fail (bindK m (\<lambda>r. case r of Inl e \<Rightarrow> retK (Inl e) | Inr a \<Rightarrow> g a))"
proof -
  have "r < 0" if "m s = Done x u" "(case x of Inl e \<Rightarrow> retK (Inl e) | Inr a \<Rightarrow> g a) u = Done (Inl (Code r)) t" for s x u r t
  proof (cases x)
    case (Inl e)
    then show ?thesis using that assms(1) by (auto simp: neg_fail_def retK_def)
  next
    case (Inr b)
    then show ?thesis using that(2) assms(2) [of b] unfolding neg_fail_def by simp blast
  qed
  then show ?thesis unfolding neg_fail_def bind_Done by blast
qed

lemma neg_fail_segments: "neg_fail (load_segments n ds fd buf c idx off)"
proof (induction n arbitrary: idx off)
  case (Suc n)
  have "neg_fail (if p_type ph = 1 then checkE (read_map fd (p_offset ph)) (\<lambda>bin.
        checkE (elf_load_seg ph bin (spawn_mapper c)) (\<lambda>_. retK (Inr ()))) else retK (Inr ()))" for ph
    by (auto intro!: neg_rules)
  then show ?case
    by (subst load_segments.simps) (auto intro!: neg_fail_gets neg_fail_checkK neg_fail_checkE neg_fail_pass neg_fail_basic Suc)
qed (subst load_segments.simps, auto intro!: neg_rules)

lemma neg_fail_child: "neg_fail (load_child ds fd buf c argv)"
  unfolding load_child_def
  by (intro neg_fail_checkE neg_fail_pass neg_fail_gets neg_fail_segments neg_fail_basic)

text \<open>
  What follows \<^verbatim>\<open>syscall_exofork\<close>, when the child was never in the run list, or when \<open>c\<close> is the code of an error:
  an error after the child exists does not return.
\<close>

lemma spawn_tail:
  assumes ds: "list_all kid_free_dev ds"
    and new: "\<And>k. kids s c = Some k \<Longrightarrow> \<not> kready k \<and> tqe_prev (run_list s) (ENVX c) = NullRef"
    and run: "bindK (load_child ds fd buf c argv) (\<lambda>l. case l of
           Inl (Code r) \<Rightarrow>
             seqK (ignoreE (destroy_env c)) (seqK (bindK (close ds fd) (\<lambda>_. retK ())) (retK r))
         | Inr sp \<Rightarrow>
             bindK (close ds fd) (\<lambda>_.
             bindK (start_child c entry sp) (\<lambda>q. case q of
               Inl (Code r) \<Rightarrow> seqK (ignoreE (destroy_env c)) (retK r)
             | Inr _ \<Rightarrow> retK (sint c)))) s = Done r t"
  shows "(r < 0 \<and> kids s c = None \<and> kids t = kids s \<and> run_list t = run_list s) \<or>
    (r = sint c \<and> (\<exists>k k'. kids s c = Some k' \<and> kids t = (kids s)(c \<mapsto> k) \<and> kready k) \<and>
      TAILQ_INSERT_TAIL (ENVX c) (run_list s) = Some (run_list t))"
proof -
  have gone: "kids s c = None \<and> kids v = kids s \<and> run_list v = run_list s" if o: "one_kid c s u" and d: "destroy_env c u = Done a v" for u v a
  proof (cases "kids s c")
    case None
    then have n: "kids u c = None" using one_kid_none [OF o] by simp
    then have "v = u" using d destroy_unknown [OF n] by simp
    moreover have "kids u = kids s" using o None n unfolding one_kid_def by (metis ext)
    ultimately show ?thesis using o None by (simp add: one_kid_def)
  next
    case (Some k)
    then obtain k' where "kids u c = Some k'" using one_kid_none [OF o] by (cases "kids u c") auto
    moreover have "tqe_prev (run_list u) (ENVX c) = NullRef" using new [OF Some] o by (simp add: one_kid_def)
    ultimately show ?thesis using destroy_never_queued [of u c k'] d by simp
  qed
  obtain l s1 where l: "load_child ds fd buf c argv s = Done l s1" using run by (auto simp: done_rules)
  have o1: "one_kid c s s1" by (rule keepingD [OF on_kid_load [OF ds] l])
  show ?thesis
  proof (cases l)
    case (Inl f)
    then obtain e where e: "l = Inl (Code e)" by (cases f) simp
    obtain a s2 b where r: "destroy_env c s1 = Done a s2" "close ds fd s2 = Done b t" "r = e"
      using run l e by (auto simp: done_rules ignoreE_def)
    have "e < 0" using neg_fail_child l e unfolding neg_fail_def by blast
    then show ?thesis using gone [OF o1 r(1)] on_kid_all [OF on_kid_close [OF ds] r(2)] r(3) by simp
  next
    case (Inr sp)
    obtain b s2 q s3 where r: "close ds fd s1 = Done b s2" "start_child c entry sp s2 = Done q s3"
        "(case q of Inl (Code r) \<Rightarrow> seqK (ignoreE (destroy_env c)) (retK r) | Inr _ \<Rightarrow> retK (sint c)) s3 = Done r t"
      using run l Inr by (auto simp: done_rules)
    note o2 = one_kid_trans [OF o1 keepingD [OF on_kid_close [OF ds] r(1)]]
    from start_child_cases [OF r(2)] show ?thesis
    proof (elim disjE exE conjE)
      fix e assume e: "q = Inl (Code (neg e))" "one_kid c s2 s3"
      then obtain a where "destroy_env c s3 = Done a t" "r = neg e" using r(3) by (auto simp: done_rules ignoreE_def)
      then show ?thesis using gone [OF one_kid_trans [OF o2 e(2)]] by (simp add: neg_def)
    next
      fix u assume q: "q = Inr ()" "one_kid c s2 u" "set_runnable c u = Done (Inr ()) s3"
      have t: "t = s3" "r = sint c" using r(3) q(1) by (simp_all add: done_rules)
      note o = one_kid_trans [OF o2 q(2)]
      from set_runnable_cases [OF q(3)] obtain k where k: "kids u c = Some k" "kids s3 = (kids u)(c \<mapsto> k\<lparr>kready := True\<rparr>)"
          "\<not> kready k \<longrightarrow> TAILQ_INSERT_TAIL (ENVX c) (run_list u) = Some (run_list s3)" by auto
      then obtain k' where k': "kids s c = Some k'" "kready k = kready k'"
        using o by (cases "kids s c") (auto simp: one_kid_def)
      have "kids t = (kids s)(c \<mapsto> k\<lparr>kready := True\<rparr>)" using o k(2) t(1) by (auto simp: one_kid_def)
      then show ?thesis using k(3) k' new [OF k'(1)] o t by (auto simp: one_kid_def)
    qed
  qed
qed

lemma readn_at_most:
  assumes "\<And>d. d \<in> set ds \<Longrightarrow> reader (dev_read d)" "readn ds fd buf n s = Done r t"
  shows "r \<le> int (unat n)"
proof -
  have "unat (n - tot) < k \<Longrightarrow> \<not> n < tot \<Longrightarrow> readn_loop k ds fd buf n tot s = Done r t \<Longrightarrow> r \<le> int (unat n)" for k tot s
  proof (induction k arbitrary: tot s)
    case (Suc k)
    have le: "sint tot \<le> int (unat n)"
      using sint_le_uint [of tot] Suc.prems(2) unfolding word_less_nat_alt by linarith
    show ?case
    proof (cases "tot < n")
      case False
      with le Suc.prems(3) show ?thesis by (simp add: run_rules)
    next
      case True
      then obtain m u where m: "read ds fd (buf + tot) (n - tot) s = Done m u"
          "(if m < 0 then retK m else if m = 0 then retK (sint tot) else readn_loop k ds fd buf n (tot + of_int m)) u = Done r t"
        using Suc.prems(3) by (auto simp: done_rules)
      show ?thesis
      proof (cases "0 < m")
        case pos: True
        obtain d fd' off s' t' where d: "d \<in> set ds" "dev_read d fd' (buf + tot) (n - tot) off s' = Done m t'"
          using read_from_device [OF m(1) pos] by blast
        from reader.progress [OF assms(1) [OF d(1)] d(2) True pos] Suc.prems(1) Suc.IH [of "tot + of_int m" u] m(2) pos
        show ?thesis by simp
      next
        case False
        then have "r < 0 \<or> r = sint tot" using m(2) by (simp add: done_rules split: if_splits)
        then show ?thesis using le by linarith
      qed
    qed
  qed simp
  from this [of 0 "Suc (unat n)"] show ?thesis using assms(2) by (simp add: readn_def)
qed

text \<open>
  C36. A \<^verbatim>\<open>spawn\<close> that returns has started the program or left the environments and the run list as they
  were. In the first case the result is the id of one new environment, which is ready and the last of the run
  list; in the other it is negative, or the count of a file that is shorter than the ELF header. So no
  half-made environment is left at whatever step an error arises; once the child exists the error does
  not return, because \<^verbatim>\<open>env_free\<close> removes a child from the run list that was never in it
  (\<open>destroy_never_queued\<close>). The ids to come belong to slots of \<^verbatim>\<open>envs\<close> that were never in the run list.
\<close>

theorem spawn_leaves_no_child:
  assumes "list_all kid_free_dev devtab" "kid_free_srv srv" "\<And>d. d \<in> set devtab \<Longrightarrow> reader (dev_read d)"
    and "is_tailq (run_list s) xs" "kids s (of_int (neg E_NO_FREE_ENV)) = None"
    and new: "\<And>i. i \<in> set (fresh_ids s) \<Longrightarrow> kids s i = None \<and> ENVX i \<notin> set xs \<and> tqe_prev (run_list s) (ENVX i) = NullRef"
    and run: "spawn devtab srv fsipcbuf elfbuf before prog argv s = Done r t"
  shows "(r < 52 \<and> kids t = kids s \<and> run_list t = run_list s) \<or>
    (\<exists>i k. r = sint i \<and> i \<in> set (fresh_ids s) \<and> kids t = (kids s)(i \<mapsto> k) \<and> kready k \<and>
      is_tailq (run_list t) (xs @ [ENVX i]))"
proof -
  obtain fd s1 where o: "open_path srv fsipcbuf (program_path before prog) O_RDONLY s = Done fd s1"
      "(if fd < 0 then retK fd else spawn_open devtab (of_int fd) elfbuf argv) s1 = Done r t"
    using run by (auto simp: spawn_def done_rules)
  note k1 = on_kid_all [OF on_kid_open [OF assms(2)] o(1)]
  show ?thesis
  proof (cases "fd < 0")
    case True
    then show ?thesis using o(2) k1 by (simp add: done_rules)
  next
    case False
    let ?fd = "of_int fd :: u32"
    obtain n s2 where rd: "readn devtab ?fd elfbuf 52 s1 = Done n s2"
        "(if n \<noteq> 52 then seqK (bindK (close devtab ?fd) (\<lambda>_. retK ())) (retK n)
          else bindK (getsK (\<lambda>s. elf_from (mem_rd s) elfbuf 52)) (\<lambda>ehdr. case ehdr of
            None \<Rightarrow> seqK (bindK (close devtab ?fd) (\<lambda>_. retK ())) (retK (neg E_NOT_EXEC))
          | Some eh \<Rightarrow>
         bindK exofork (\<lambda>x.
         let child = (case x of Inl e \<Rightarrow> of_int (neg e) | Inr i \<Rightarrow> i) in
         bindK (load_child devtab ?fd elfbuf child argv) (\<lambda>l. case l of
           Inl (Code r) \<Rightarrow>
             seqK (ignoreE (destroy_env child)) (seqK (bindK (close devtab ?fd) (\<lambda>_. retK ())) (retK r))
         | Inr sp \<Rightarrow>
             bindK (close devtab ?fd) (\<lambda>_.
             bindK (start_child child (e_entry eh) sp) (\<lambda>q. case q of
               Inl (Code r) \<Rightarrow> seqK (ignoreE (destroy_env child)) (retK r)
             | Inr _ \<Rightarrow> retK (sint child))))))) s2 = Done r t"
      using o(2) False by (auto simp: spawn_open_def done_rules)
    note k2 = on_kid_all [OF on_kid_readn [OF assms(1)] rd(1)]
    note cl = on_kid_all(1,3) [OF on_kid_close [OF assms(1)]]
    have K: "kids s2 = kids s" "fresh_ids s2 = fresh_ids s" "run_list s2 = run_list s" using k1 k2 by simp_all
    have n: "n \<le> 52" using readn_at_most [OF assms(3) rd(1)] by simp
    show ?thesis
    proof (cases "n = 52 \<and> elf_from (mem_rd s2) elfbuf 52 \<noteq> None")
      case False
      then have "\<exists>b. close devtab ?fd s2 = Done b t \<and> r < 52"
        using rd(2) n by (auto simp: done_rules neg_def split: if_splits)
      then show ?thesis using cl K by auto
    next
      case True
      then obtain eh x s3 where x: "exofork s2 = Done x s3" "elf_from (mem_rd s2) elfbuf 52 = Some eh"
        using rd(2) by (auto simp: done_rules)
      define c where "c = (case x of Inl e \<Rightarrow> of_int (neg e) | Inr i \<Rightarrow> i)"
      have tl: "(r < 0 \<and> kids s3 c = None \<and> kids t = kids s3 \<and> run_list t = run_list s3) \<or>
          (r = sint c \<and> (\<exists>k k'. kids s3 c = Some k' \<and> kids t = (kids s3)(c \<mapsto> k) \<and> kready k) \<and>
            TAILQ_INSERT_TAIL (ENVX c) (run_list s3) = Some (run_list t))"
        if "\<And>k. kids s3 c = Some k \<Longrightarrow> \<not> kready k \<and> tqe_prev (run_list s3) (ENVX c) = NullRef"
        unfolding c_def
        by (rule spawn_tail [OF assms(1) that [unfolded c_def], of ?fd elfbuf argv "e_entry eh"])
          (use rd(2) True x in \<open>simp_all add: bind_Done [of "getsK _"] bind_Done [of exofork] basic_Done Let_def\<close>)
      show ?thesis
      proof (cases "fresh_ids s2")
        case Nil
        then have "x = Inl E_NO_FREE_ENV" "s3 = s2" using x(1) by (simp_all add: exofork_def done_rules)
        then show ?thesis using tl assms(5) K by (auto simp: c_def)
      next
        case (Cons i is')
        then have c: "c = i" "kids s3 i = Some k0 \<Longrightarrow> \<not> kready k0" "kids s3 = (kids s)(i := kids s3 i)" "kids s3 i \<noteq> None"
            "run_list s3 = run_list s" and i: "i \<in> set (fresh_ids s)" for k0
          using x(1) K by (auto simp: exofork_def done_rules c_def)
        have "\<exists>q. TAILQ_INSERT_TAIL (ENVX i) (run_list s) = Some q \<and> is_tailq q (xs @ [ENVX i])"
          by (rule TAILQ_INSERT_TAIL_spec) (use assms(4) new [OF i] in simp_all)
        moreover have "r = sint i \<and> (\<exists>k. kids t = (kids s3)(i \<mapsto> k) \<and> kready k) \<and>
            TAILQ_INSERT_TAIL (ENVX i) (run_list s) = Some (run_list t)"
          using tl new [OF i] c by auto
        ultimately show ?thesis using i c(3) by (metis fun_upd_upd option.inject)
      qed
    qed
  qed
qed

text \<open>A process with one page for requests, one id to give out, and a server that finds nothing.\<close>

definition lone_proc :: sproc where
  "lone_proc = \<lparr>upt = (\<lambda>v. if v = 0x500 then Some (0, PTE_D OR PTE_V) else None), frames = (\<lambda>_ _. 0),
     frefs = (\<lambda>f. if f = 0 then 1 else 0), ffree = [1, 2], kids = (\<lambda>_. None), fresh_ids = [0x801],
     own_tf = \<lparr>tf_regs = \<lambda>_. 0, tf_status = 0, tf_hi = 0, tf_lo = 0, tf_badvaddr = 0, tf_cause = 0, tf_epc = 0\<rparr>,
     run_list = \<lparr>tqh_first = None, tqh_last = HeadRef, tqe_next = (\<lambda>_. None), tqe_prev = (\<lambda>_. NullRef)\<rparr>\<rparr>"

definition not_found_srv :: "unit sproc_ext server" where
  "not_found_srv ty req dst = retK (of_int (neg E_NOT_FOUND), 0)"

lemma lone_fd: "fd_alloc lone_proc = Done (Inr (INDEX2FD 0)) lone_proc"
proof -
  have "[0..<nat MAXFD - 1] = 0 # [1..<31]" by (simp add: MAXFD_def upt_conv_Cons)
  then show ?thesis
    by (simp add: fd_alloc_def run_rules lone_proc_def INDEX2FD_def FDTABLE_def FILEBASE_def PDMAP_def VPN_alt)
qed

lemma lone_stb:
  assumes "upt s 0x500 = Some (0, PTE_D OR PTE_V)" "VPN va = 0x500"
  shows "p_stb va b s = Done () (s\<lparr>frames := (frames s)(0 := set_frame_byte (frames s 0) (bofs va) b)\<rparr>)"
    "p_stw va w s = Done () (s\<lparr>frames := (frames s)(0 := (frames s 0)(wofs va := w))\<rparr>)"
proof -
  have "PTE_D OR PTE_V AND PTE_D \<noteq> (0 :: u32)" by (simp add: PTE_D_def PTE_V_def)
  then show "p_stb va b s = Done () (s\<lparr>frames := (frames s)(0 := set_frame_byte (frames s 0) (bofs va) b)\<rparr>)"
    "p_stw va w s = Done () (s\<lparr>frames := (frames s)(0 := (frames s 0)(wofs va := w))\<rparr>)"
    using assms by (simp_all add: p_stb_def p_stw_run run_rules p_wtouch_run)
qed

lemma lone_spawn: "\<exists>t. spawn [] not_found_srv 0x500000 0x500800 [0, 0] [0x61] [[0x61]] lone_proc = Done (neg E_NOT_FOUND) t"
proof -
  have "program_path [0, 0] [0x61] = [0x61, 0x2E, 0x62]" by (simp add: program_path_def)
  moreover have "upt lone_proc 0x500 = Some (0, PTE_D OR PTE_V)" by (simp add: lone_proc_def)
  ultimately show ?thesis
    by (simp add: spawn_def run_rules open_path_def lone_fd fsipc_open_def fsipc_def MAXPATH_def lone_stb VPN_alt
        not_found_srv_def neg_def)
qed

theorem spawn_leaves_no_child_witness:
  "\<exists>r t. spawn [] not_found_srv 0x500000 0x500800 [0, 0] [0x61] [[0x61]] lone_proc = Done r t \<and>
     ((r < 52 \<and> kids t = kids lone_proc \<and> run_list t = run_list lone_proc) \<or>
      (\<exists>i k. r = sint i \<and> i \<in> set (fresh_ids lone_proc) \<and> kids t = (kids lone_proc)(i \<mapsto> k) \<and> kready k \<and>
        is_tailq (run_list t) [ENVX i]))"
proof -
  obtain t where t: "spawn [] not_found_srv 0x500000 0x500800 [0, 0] [0x61] [[0x61]] lone_proc = Done (neg E_NOT_FOUND) t"
    using lone_spawn by blast
  have srv: "kid_free_srv not_found_srv" by (simp add: kid_free_srv_def frame_srv_def not_found_srv_def frame_rules)
  have q: "is_tailq (run_list lone_proc) []" by (simp add: is_tailq_def lone_proc_def)
  have "list_all kid_free_dev ([] :: sproc dev list)" by simp
  from spawn_leaves_no_child [OF this srv _ q _ _ t] show ?thesis using t by (auto simp: lone_proc_def)
qed

end
