(* ===== verification/Shell.thy ===== *)
theory Shell
  imports Spawn Shell_Lex Path
begin

text \<open>
  Commands, \<^verbatim>\<open>parsecmd\<close> and \<^verbatim>\<open>runcmd\<close> of \<^verbatim>\<open>user/sh.c\<close>. A \<^verbatim>\<open>fork\<close> splits the shell
  into processes that go on with copies of the same memory; the model follows one of them, and
  \<open>forks\<close> says what each \<^verbatim>\<open>fork\<close> returns in it. \<^verbatim>\<open>wait\<close> is noted in \<open>waits\<close>. The line and the static
  variables of the lexer are \<open>lex\<close>; a token is a pointer into the line, and its text is read where
  it is used. \<open>cwd\<close> is the path that the kernel keeps for the process, \<open>stale\<close> the first contents
  of the arrays that \<^verbatim>\<open>get_path\<close> leaves uninitialised. \<^verbatim>\<open>exit\<close> leaves the program (\<open>Away\<close>).
\<close>

record shproc = sproc +
  lex :: lexer
  forks :: "u32 list"
  waits :: "u32 list"
  cwd :: "u8 list"
  stale :: "u8 list \<times> nat"

type_synonym ('x, 'a) shM = "('x shproc_scheme, 'a) kprog"
type_synonym 'x shdev = "('x shproc_scheme) dev"
type_synonym 'x shsrv = "('x shproc_ext) sproc_ext server"

section \<open>Calls\<close>

definition fork_call :: "('x, u32) shM" where
  "fork_call = bindK (getsK forks) (\<lambda>fs. case fs of
       [] \<Rightarrow> panicK ''no such process''
     | r # rs \<Rightarrow> seqK (modifyK (\<lambda>s. s\<lparr>forks := rs\<rparr>)) (retK r))"

definition wait_for :: "u32 \<Rightarrow> ('x, unit) shM" where
  "wait_for i = modifyK (\<lambda>s. s\<lparr>waits := waits s @ [i]\<rparr>)"

definition exit_sh :: "'x shdev list \<Rightarrow> ('x, 'a) shM" where
  "exit_sh devtab = seqK (close_all devtab) awayK"

definition ignoreI :: "('s, 'a) kprog \<Rightarrow> ('s, unit) kprog" where
  "ignoreI m = bindK m (\<lambda>_. retK ())"

text \<open>\<^verbatim>\<open>gettoken(0, &t)\<close>: the kind and the pointer.\<close>

definition next_token :: "('x, u8 \<times> nat) shM" where
  "next_token = bindK (getsK (\<lambda>s. gettoken 0 (lex s))) (\<lambda>r. case r of
       None \<Rightarrow> panicK ''unterminated line''
     | Some (c, t, x) \<Rightarrow> seqK (modifyK (\<lambda>s. s\<lparr>lex := x\<rparr>)) (retK (c, t)))"

text \<open>A string of the line: its bytes up to the first zero, which is at most \<open>LINE\<close> bytes away.\<close>

definition LINE :: nat where "LINE = 1024"

definition text_of :: "(nat \<Rightarrow> u8) \<Rightarrow> nat \<Rightarrow> u8 list" where
  "text_of m p = takeWhile (\<lambda>c. c \<noteq> 0) (map m [p..<p + LINE])"

section \<open>Redirection\<close>

text \<open>
  The file is opened with \<open>mode\<close>; when that fails it is created under its absolute path and opened
  for writing, also for \<^verbatim>\<open><\<close>.
\<close>

definition open_or_create :: "'x shsrv \<Rightarrow> u32 \<Rightarrow> u8 list \<Rightarrow> u32 \<Rightarrow> ('x, int) shM" where
  "open_or_create srv fsipcbuf name mode =
     bindK (open_path srv fsipcbuf name mode) (\<lambda>r.
     if r < 0 then
       bindK (getsK (\<lambda>s. get_path (fst (stale s)) (snd (stale s)) (cwd s) name)) (\<lambda>q. case q of
         None \<Rightarrow> panicK ''get_path leaves its arrays''
       | Some newpath \<Rightarrow>
           bindK (create_path srv fsipcbuf newpath 0) (\<lambda>r.
           if r < 0 then panicK ''Open err'' else open_path srv fsipcbuf newpath O_WRONLY))
     else retK r)"

definition redirect :: "'x shdev list \<Rightarrow> 'x shsrv \<Rightarrow> u32 \<Rightarrow> nat \<Rightarrow> u32 \<Rightarrow> u32 \<Rightarrow> ('x, unit) shM" where
  "redirect devtab srv fsipcbuf t mode target =
     bindK (getsK (\<lambda>s. text_of (lbuf (lex s)) t)) (\<lambda>name.
     bindK (open_or_create srv fsipcbuf name mode) (\<lambda>fd.
     seqK (ignoreI (dup devtab (of_int fd) target))
          (ignoreI (close devtab (of_int fd)))))"

section \<open>parsecmd\<close>

definition MAXARGS :: nat where "MAXARGS = 128"

definition LT :: u8 where "LT = 0x3C"
definition GT :: u8 where "GT = 0x3E"
definition BAR :: u8 where "BAR = 0x7C"
definition SEMI :: u8 where "SEMI = 0x3B"
definition AMP :: u8 where "AMP = 0x26"

text \<open>
  \<open>argv\<close> is the part of the array below \<^verbatim>\<open>argc\<close>, \<open>rp\<close> is \<^verbatim>\<open>*rightpipe\<close>; both are the result. The
  calls of \<^verbatim>\<open>parsecmd\<close> within itself start to fill the array again. Every turn takes a token, so that
  one turn more than the line has characters is enough.
\<close>

type_synonym 'x parser = "nat list \<Rightarrow> u32 \<Rightarrow> ('x, nat list \<times> u32) shM"

text \<open>\<^verbatim>\<open><\<close> and \<^verbatim>\<open>>\<close> with the word behind them.\<close>

definition redirect_word :: "'x shdev list \<Rightarrow> 'x shsrv \<Rightarrow> u32 \<Rightarrow> u32 \<Rightarrow> u32 \<Rightarrow> ('x, 'a) shM \<Rightarrow> ('x, 'a) shM" where
  "redirect_word devtab srv fsipcbuf mode target k =
     bindK next_token (\<lambda>(c, t). if c \<noteq> WORD then exit_sh devtab
       else seqK (redirect devtab srv fsipcbuf t mode target) k)"

definition move_fds :: "'x shdev list \<Rightarrow> u32 \<Rightarrow> u32 \<Rightarrow> u32 \<Rightarrow> ('x, unit) shM" where
  "move_fds devtab keep drp target =
     seqK (ignoreI (dup devtab keep target)) (seqK (ignoreI (close devtab keep)) (ignoreI (close devtab drp)))"

definition pipe_right :: "'x shdev list \<Rightarrow> 'x parser \<Rightarrow> nat list \<Rightarrow> ('x, nat list \<times> u32) shM" where
  "pipe_right devtab rec argv =
     bindK make_pipe (\<lambda>p. case p of Inl _ \<Rightarrow> panicK ''uninitialised p'' | Inr (p0, p1) \<Rightarrow>
     bindK fork_call (\<lambda>r.
       if r = 0 then seqK (move_fds devtab p0 p1 0) (rec [] 0)
       else seqK (move_fds devtab p1 p0 1) (retK (argv, r))))"

text \<open>\<^verbatim>\<open>;\<close>, where the shell waits, and \<^verbatim>\<open>&\<close>: the child has its command, the parent goes on.\<close>

definition fork_left :: "bool \<Rightarrow> 'x parser \<Rightarrow> nat list \<Rightarrow> ('x, nat list \<times> u32) shM" where
  "fork_left waiting rec argv =
     bindK fork_call (\<lambda>r. if r = 0 then retK (argv, 0)
       else seqK (if waiting then wait_for r else retK ()) (rec [] r))"

text \<open>The body of the loop for a token; \<open>rec\<close> is the rest of the loop.\<close>

definition parse_token :: "'x shdev list \<Rightarrow> 'x shsrv \<Rightarrow> u32 \<Rightarrow> 'x parser \<Rightarrow> nat list \<Rightarrow> u32 \<Rightarrow> u8 \<Rightarrow> nat \<Rightarrow>
    ('x, nat list \<times> u32) shM" where
  "parse_token devtab srv fsipcbuf rec argv rp c t =
     (if c = 0 then retK (argv, rp)
      else if c = WORD then (if MAXARGS \<le> length argv then exit_sh devtab else rec (argv @ [t]) rp)
      else if c = LT then redirect_word devtab srv fsipcbuf O_RDONLY 0 (rec argv rp)
      else if c = GT then redirect_word devtab srv fsipcbuf O_WRONLY 1 (rec argv rp)
      else if c = BAR then pipe_right devtab rec argv
      else if c = SEMI then fork_left True rec argv
      else if c = AMP then fork_left False rec argv
      else rec argv rp)"

primrec parsecmd :: "nat \<Rightarrow> 'x shdev list \<Rightarrow> 'x shsrv \<Rightarrow> u32 \<Rightarrow> 'x parser" where
  "parsecmd 0 devtab srv fsipcbuf = (\<lambda>argv rp. panicK ''out of fuel'')"
| "parsecmd (Suc n) devtab srv fsipcbuf = (\<lambda>argv rp.
     bindK next_token (\<lambda>(c, t). parse_token devtab srv fsipcbuf (parsecmd n devtab srv fsipcbuf) argv rp c t))"

section \<open>runcmd\<close>

text \<open>
  \<^verbatim>\<open>argv[argc] = 0\<close> stores behind the array when there are \<open>MAXARGS\<close> arguments. \<open>n\<close> bounds the turns of
  \<^verbatim>\<open>parsecmd\<close>; \<^verbatim>\<open>elfbuf\<close> is the address of \<^verbatim>\<open>spawn\<close>'s buffer.
\<close>

definition runcmd :: "nat \<Rightarrow> 'x shdev list \<Rightarrow> 'x shsrv \<Rightarrow> u32 \<Rightarrow> u32 \<Rightarrow> nat \<Rightarrow> ('x, unit) shM" where
  "runcmd n devtab srv fsipcbuf elfbuf line =
     bindK (getsK (\<lambda>s. gettoken line (lex s))) (\<lambda>g. case g of None \<Rightarrow> panicK ''unterminated line'' | Some (_, _, x) \<Rightarrow>
     seqK (modifyK (\<lambda>s. s\<lparr>lex := x\<rparr>))
    (bindK (parsecmd n devtab srv fsipcbuf [] 0) (\<lambda>(argv, rightpipe).
     if argv = [] then retK ()
     else
       seqK (assertK (length argv < MAXARGS) ''argv[argc] outside argv'')
      (bindK (getsK (\<lambda>s. lbuf (lex s))) (\<lambda>m.
       bindK (spawn devtab srv fsipcbuf elfbuf [m (hd argv - 2), m (hd argv - 1)] (text_of m (hd argv)) (map (text_of m) argv))
         (\<lambda>child.
       seqK (close_all devtab)
      (seqK (if 0 \<le> child then wait_for (of_int child) else retK ())
      (seqK (if rightpipe \<noteq> 0 then wait_for rightpipe else retK ())
            (exit_sh devtab)))))))))"

section \<open>A turn of the main loop\<close>

text \<open>
  The line that \<^verbatim>\<open>readline\<close> left in \<^verbatim>\<open>buf\<close>, as bytes from address \<open>line\<close> on, is run by a child;
  the shell waits for it. Prompt and echo are left out.
\<close>

definition shell_turn :: "nat \<Rightarrow> 'x shdev list \<Rightarrow> 'x shsrv \<Rightarrow> u32 \<Rightarrow> u32 \<Rightarrow> nat \<Rightarrow> ('x, unit) shM" where
  "shell_turn n devtab srv fsipcbuf elfbuf line =
     bindK (getsK (\<lambda>s. lbuf (lex s) line)) (\<lambda>c.
     if c = 0x23 then retK ()
     else bindK fork_call (\<lambda>r.
       if sint r < 0 then panicK ''fork''
       else if r = 0 then seqK (runcmd n devtab srv fsipcbuf elfbuf line) (exit_sh devtab)
       else wait_for r))"

end
