(* ===== verification/Shell_Thms.thy ===== *)
theory Shell_Thms
  imports Shell Shell_Lex_Thms Uframe
begin

text \<open>
  Which command a process of the shell runs: \<^verbatim>\<open>parsecmd\<close> follows the line's tokens as the
  specification \<open>plan\<close> does. The devices and the server are parameters that leave the lexer alone.
\<close>

section \<open>Tokens one at a time\<close>

text \<open>A word that is terminated, and that later tokens do not touch.\<close>

definition settled :: "lexer \<Rightarrow> nat \<Rightarrow> u8 list \<Rightarrow> bool" where
  "settled x p w \<longleftrightarrow> str_at (lbuf x) p w \<and> (np2 x = 0 \<or> p + length w < np2 x)"

lemma gettoken_last:
  assumes "pending x cs" "lex1 cs = None"
  shows "\<exists>p y. gettoken 0 x = Some (0, p, y) \<and> (\<forall>p w. settled x p w \<longrightarrow> settled y p w)"
  using assms by (auto simp: pending_def gettoken_def gettoken1_def settled_def)

lemma gettoken_next:
  assumes "pending x cs" "lex1 cs = Some (k, w, r)"
  shows "\<exists>p y. gettoken 0 x = Some (k, p, y) \<and> k \<noteq> 0 \<and> pending y r \<and> (k = WORD \<longrightarrow> settled y p w) \<and>
    (\<forall>q v. settled x q v \<longrightarrow> settled y q v)"
proof -
  have x: "nc x = k" "k \<noteq> 0" "0 < np2 x" "str_at (lbuf x) (np2 x) r" "k = WORD \<longrightarrow> word_at (lbuf x) (np1 x) w (np2 x) r"
    using assms by (simp_all add: pending_def)
  obtain m k' p1 p2 where g: "gettoken1 (lbuf x) (np2 x) = Some (m, k', p1, p2)"
      "pending (x\<lparr>lbuf := m, nc := k', np1 := p1, np2 := p2\<rparr>) r" (is "pending ?y r")
      "\<And>a. a < np2 x \<Longrightarrow> m a = lbuf x a" "ends_word r \<longrightarrow> m (np2 x) = 0" "p2 \<noteq> 0 \<longrightarrow> np2 x < p2"
    using gettoken1_pending [OF x(4, 3)] by blast
  have "gettoken 0 x = Some (k, np1 x, ?y)" using g(1) x(1) by (simp add: gettoken_def)
  moreover have "settled ?y q v" if "settled x q v" for q v
  proof -
    have l: "q + length v < np2 x" using that x(3) by (simp add: settled_def)
    then have "str_at m q v"
      using that text_cong [of q v m "lbuf x"] g(3) by (simp add: settled_def str_at_def)
    then show ?thesis using l g(5) by (auto simp: settled_def)
  qed
  moreover have "settled ?y (np1 x) w" if "k = WORD"
  proof -
    have w: "word_at (lbuf x) (np1 x) w (np2 x) r" using x(5) that by simp
    then have "text_at m (np1 x) w"
      using text_cong [of "np1 x" w m "lbuf x"] g(3) by (auto simp: word_at_def)
    moreover have "m (np1 x + length w) = 0" using w g(3, 4) by (auto simp: word_at_def)
    ultimately show ?thesis using w g(5) by (auto simp: settled_def str_at_def word_at_def)
  qed
  ultimately show ?thesis using x(2) g(2)
    by - (rule exI [of _ "np1 x"], rule exI [of _ ?y], simp)
qed

lemma gettoken_kind:
  assumes "pending x cs" "gettoken 0 x = Some (c, q, y)" "c \<noteq> 0"
  shows "\<exists>w r. lex1 cs = Some (c, w, r) \<and> pending y r"
proof (cases "lex1 cs")
  case None
  then show ?thesis using gettoken_last [OF assms(1)] assms(2, 3) by auto
next
  case (Some h)
  then obtain k w r where "lex1 cs = Some (k, w, r)" by (cases h) auto
  then show ?thesis using gettoken_next [OF assms(1)] assms(2) by fastforce
qed

lemma lex_all_cases: "lex_all cs = (case lex1 cs of None \<Rightarrow> [] | Some (k, w, r) \<Rightarrow> (k, w) # lex_all r)"
  by (subst lex_all.simps) simp

section \<open>The specification\<close>

text \<open>
  The words of the simple command that a process runs, given the tokens and what its \<^verbatim>\<open>fork\<close>s return:
  at \<^verbatim>\<open>|\<close> the parent has its command and the child goes on, at \<^verbatim>\<open>;\<close> and \<^verbatim>\<open>&\<close> it is the other way
  round; a redirection takes the word that follows it. \<open>None\<close> stands for a syntax error.
\<close>

fun plan :: "(u8 \<times> 'w) list \<Rightarrow> u32 list \<Rightarrow> 'w list \<Rightarrow> 'w list option" where
  "plan [] rs ws = Some ws"
| "plan ((k, w) # ts) rs ws =
     (if k = WORD then plan ts rs (ws @ [w])
      else if k = LT \<or> k = GT then (case ts of [] \<Rightarrow> None | (k', w') # ts' \<Rightarrow> if k' = WORD then plan ts' rs ws else None)
      else if k = BAR then (case rs of [] \<Rightarrow> None | r # rs' \<Rightarrow> if r = 0 then plan ts rs' [] else Some ws)
      else if k = SEMI \<or> k = AMP then (case rs of [] \<Rightarrow> None | r # rs' \<Rightarrow> if r = 0 then Some ws else plan ts rs' [])
      else plan ts rs ws)"

section \<open>What the rest of the shell keeps\<close>

definition same_lex :: "'x shproc_scheme \<Rightarrow> 'x shproc_scheme \<Rightarrow> bool" where
  "same_lex s t \<longleftrightarrow> lex t = lex s \<and> forks t = forks s"

interpretation sh: user_frame same_lex
  by unfold_locales (auto simp: same_lex_def set_pages_def)

lemma keeps_redirect [frame_rules]:
  assumes "list_all (frame_dev same_lex) ds" "frame_srv same_lex srv"
  shows "keeping same_lex (redirect ds srv b t mode target)"
  unfolding redirect_def open_or_create_def ignoreI_def by (intro frame_rules assms)

lemma keeps_moves [frame_rules]:
  assumes "list_all (frame_dev same_lex) ds"
  shows "keeping same_lex (move_fds ds a c d)"
  unfolding move_fds_def ignoreI_def by (intro frame_rules assms)

lemma keeps_wait [frame_rules]: "keeping same_lex (wait_for i)"
  unfolding wait_for_def by (intro sh.modify) (simp add: same_lex_def)

lemma same_lexD: "keeping same_lex m \<Longrightarrow> m s = Done a t \<Longrightarrow> lex t = lex s \<and> forks t = forks s"
  by (simp add: keeping_def same_lex_def)

lemma exit_sh_Done [simp]: "exit_sh ds s = Done a t \<longleftrightarrow> False"
  by (auto simp: exit_sh_def done_rules awayK_def)

lemma next_token_Done:
  "next_token s = Done (c, p) t \<longleftrightarrow> (\<exists>x. gettoken 0 (lex s) = Some (c, p, x) \<and> t = s\<lparr>lex := x\<rparr>)"
  by (auto simp: next_token_def done_rules split: option.splits)

lemma fork_call_Done: "fork_call s = Done r t \<longleftrightarrow> (\<exists>rs. forks s = r # rs \<and> t = s\<lparr>forks := rs\<rparr>)"
  by (auto simp: fork_call_def done_rules split: list.splits)

section \<open>parsecmd follows the plan\<close>

lemma settled_all: "list_all2 (settled x) ps ws \<Longrightarrow> (\<And>p w. settled x p w \<Longrightarrow> settled y p w) \<Longrightarrow> list_all2 (settled y) ps ws"
  by (rule list_all2_mono)

lemma redirect_run:
  assumes ds: "list_all (frame_dev same_lex) ds" "frame_srv same_lex srv" and p: "pending (lex s) cs"
    and run: "redirect_word ds srv b mode target m s = Done a t"
  shows "\<exists>w r s'. lex1 cs = Some (WORD, w, r) \<and> pending (lex s') r \<and> forks s' = forks s \<and> m s' = Done a t \<and>
    (\<forall>q v. settled (lex s) q v \<longrightarrow> settled (lex s') q v)"
proof -
  obtain c q x where g: "gettoken 0 (lex s) = Some (c, q, x)" "c = WORD"
      "seqK (redirect ds srv b q mode target) m (s\<lparr>lex := x\<rparr>) = Done a t"
    using run by (auto simp: redirect_word_def bind_Done next_token_Done split: if_splits)
  then obtain u s' where r: "redirect ds srv b q mode target (s\<lparr>lex := x\<rparr>) = Done u s'" "m s' = Done a t"
    by (auto simp: done_rules)
  have l: "lex s' = x \<and> forks s' = forks s" using same_lexD [OF keeps_redirect [OF ds] r(1)] by simp
  show ?thesis
  proof (cases "lex1 cs")
    case None
    then show ?thesis using gettoken_last [OF p None] g(1, 2) kinds(4) by auto
  next
    case (Some h)
    then obtain k w r' where h: "lex1 cs = Some (k, w, r')" by (cases h) auto
    show ?thesis using gettoken_next [OF p h] g(1, 2) h l r(2) by auto
  qed
qed

text \<open>Either side of a pipe.\<close>

lemma pipe_run:
  assumes ds: "list_all (frame_dev same_lex) ds" and run: "pipe_right ds rec argv s = Done (av, rp') t"
  shows "\<exists>f fs s'. forks s = f # fs \<and> lex s' = lex s \<and> forks s' = fs \<and>
    (if f = 0 then rec [] 0 s' = Done (av, rp') t else av = argv \<and> lex t = lex s)"
proof -
  obtain p s1 where p: "make_pipe s = Done p s1" "(case p of Inl _ \<Rightarrow> panicK ''uninitialised p'' | Inr (p0, p1) \<Rightarrow>
     bindK fork_call (\<lambda>r.
       if r = 0 then seqK (move_fds ds p0 p1 0) (rec [] 0)
       else seqK (move_fds ds p1 p0 1) (retK (argv, r)))) s1 = Done (av, rp') t"
    using run by (auto simp: pipe_right_def bind_Done [of make_pipe])
  have l1: "lex s1 = lex s" "forks s1 = forks s" using same_lexD [OF sh.make_pipe_frame p(1)] by simp_all
  obtain p0 p1 f fs where f: "forks s = f # fs" "(if f = 0 then seqK (move_fds ds p0 p1 0) (rec [] 0)
      else seqK (move_fds ds p1 p0 1) (retK (argv, f))) (s1\<lparr>forks := fs\<rparr>) = Done (av, rp') t"
    using p(2) l1(2) by (cases p) (auto simp: panicK_def bind_Done fork_call_Done)
  show ?thesis
  proof (cases "f = 0")
    case True
    then obtain u s' where r: "move_fds ds p0 p1 0 (s1\<lparr>forks := fs\<rparr>) = Done u s'" "rec [] 0 s' = Done (av, rp') t"
      using f(2) by (auto simp: seq_Done)
    have "lex s' = lex s" "forks s' = fs" using same_lexD [OF keeps_moves [OF ds] r(1)] l1 by simp_all
    then show ?thesis using f(1) r(2) True by auto
  next
    case False
    then obtain u where r: "move_fds ds p1 p0 1 (s1\<lparr>forks := fs\<rparr>) = Done u t" "av = argv"
      using f(2) by (auto simp: seq_Done basic_Done)
    have "lex t = lex s" using same_lexD [OF keeps_moves [OF ds] r(1)] l1 by simp
    then show ?thesis using f(1) r(2) False by (intro exI [of _ f] exI [of _ fs] exI [of _ "s\<lparr>forks := fs\<rparr>"]) simp
  qed
qed

text \<open>\<^verbatim>\<open>;\<close> and \<^verbatim>\<open>&\<close>.\<close>

lemma fork_run:
  assumes "fork_left w rec argv s = Done (av, rp') t"
  shows "\<exists>f fs s'. forks s = f # fs \<and> lex s' = lex s \<and> forks s' = fs \<and>
    (if f = 0 then av = argv \<and> lex t = lex s else rec [] f s' = Done (av, rp') t)"
proof -
  obtain f fs where f: "forks s = f # fs" "(if f = 0 then retK (argv, 0)
      else seqK (if w then wait_for f else retK ()) (rec [] f)) (s\<lparr>forks := fs\<rparr>) = Done (av, rp') t"
    using assms by (auto simp: fork_left_def bind_Done fork_call_Done)
  show ?thesis
  proof (cases "f = 0")
    case True
    then show ?thesis using f by (intro exI [of _ f] exI [of _ fs] exI [of _ "s\<lparr>forks := fs\<rparr>"]) (auto simp: basic_Done)
  next
    case False
    then obtain u s' where s': "(if w then wait_for f else retK ()) (s\<lparr>forks := fs\<rparr>) = Done u s'" "rec [] f s' = Done (av, rp') t"
      using f(2) by (auto simp: seq_Done)
    have "lex s' = lex s" "forks s' = fs"
      using s'(1) by (auto simp: wait_for_def basic_Done split: if_splits)
    then show ?thesis using f(1) s'(2) False by auto
  qed
qed

text \<open>What the rest of the loop has to do.\<close>

definition follows :: "'x parser \<Rightarrow> u8 list \<Rightarrow> bool" where
  "follows rec cs \<longleftrightarrow> (\<forall>s argv ws rp av rp' t.
     pending (lex s) cs \<longrightarrow> list_all2 (settled (lex s)) argv ws \<longrightarrow> length argv \<le> MAXARGS \<longrightarrow>
     rec argv rp s = Done (av, rp') t \<longrightarrow>
     (\<exists>ws'. plan (lex_all cs) (forks s) ws = Some ws' \<and> list_all2 (settled (lex t)) av ws' \<and> length av \<le> MAXARGS))"

lemma followsD:
  assumes "follows rec cs" "rec argv rp s = Done (av, rp') t" "pending (lex s) cs"
    "list_all2 (settled (lex s)) argv ws" "length argv \<le> MAXARGS"
  shows "\<exists>ws'. plan (lex_all cs) (forks s) ws = Some ws' \<and> list_all2 (settled (lex t)) av ws' \<and> length av \<le> MAXARGS"
  using assms unfolding follows_def by blast

lemma symbols: "LT \<noteq> 0" "LT \<noteq> WORD" "GT \<noteq> WORD" "BAR \<noteq> WORD" "SEMI \<noteq> WORD" "AMP \<noteq> WORD" "LT \<noteq> BAR" "GT \<noteq> BAR"
  "LT \<noteq> SEMI" "GT \<noteq> SEMI" "BAR \<noteq> SEMI" "LT \<noteq> AMP" "GT \<noteq> AMP" "BAR \<noteq> AMP" "SEMI \<noteq> AMP" "GT \<noteq> LT"
  by (simp_all add: LT_def GT_def BAR_def SEMI_def AMP_def WORD_def)

lemma parse_token_plan:
  assumes ds: "list_all (frame_dev same_lex) ds" "frame_srv same_lex srv"
    and rec: "follows rec r" "\<And>w r'. lex1 r = Some (WORD, w, r') \<Longrightarrow> follows rec r'"
    and x: "k \<noteq> 0" "pending (lex s) r" "k = WORD \<longrightarrow> settled (lex s) q w"
    and args: "list_all2 (settled (lex s)) argv ws" "length argv \<le> MAXARGS"
    and run: "parse_token ds srv b rec argv rp k q s = Done (av, rp') t"
  shows "\<exists>ws'. plan ((k, w) # lex_all r) (forks s) ws = Some ws' \<and> list_all2 (settled (lex t)) av ws' \<and> length av \<le> MAXARGS"
proof -
  note K = symbols and R = run [unfolded parse_token_def]
  have io: ?thesis if k: "k = LT \<or> k = GT" and m: "redirect_word ds srv b mode tg (rec argv rp) s = Done (av, rp') t" for mode tg
  proof -
    obtain w' r' s' where e: "lex1 r = Some (WORD, w', r')" "pending (lex s') r'" "forks s' = forks s"
        "rec argv rp s' = Done (av, rp') t" "\<forall>q v. settled (lex s) q v \<longrightarrow> settled (lex s') q v"
      using redirect_run [OF ds x(2) m] by auto
    have "list_all2 (settled (lex s')) argv ws" using settled_all [OF args(1)] e(5) by simp
    then show ?thesis
      using followsD [OF rec(2) [OF e(1)] e(4, 2) _ args(2)] k K e(1, 3) lex_all_cases [of r] by auto
  qed
  consider (word) "k = WORD" | (redir) "k = LT \<or> k = GT" | (bar) "k = BAR" | (split) "k = SEMI \<or> k = AMP"
    | (other) "k \<noteq> WORD" "k \<noteq> LT" "k \<noteq> GT" "k \<noteq> BAR" "k \<noteq> SEMI" "k \<noteq> AMP" by blast
  then show ?thesis
  proof cases
    case word
    have "length argv < MAXARGS" "rec (argv @ [q]) rp s = Done (av, rp') t" using R word x(1) by (simp_all split: if_splits)
    moreover have "list_all2 (settled (lex s)) (argv @ [q]) (ws @ [w])"
      using args(1) x(3) word by (simp add: list_all2_appendI)
    ultimately show ?thesis using followsD [OF rec(1) _ x(2)] word by simp
  next
    case redir
    then show ?thesis using R x(1) K io [OF redir] by auto
  next
    case bar
    have "pipe_right ds rec argv s = Done (av, rp') t" using R bar x(1) K by simp
    then obtain f fs s' where f: "forks s = f # fs" "lex s' = lex s" "forks s' = fs"
        "if f = 0 then rec [] 0 s' = Done (av, rp') t else av = argv \<and> lex t = lex s"
      using pipe_run [OF ds(1)] by blast
    then show ?thesis
      using followsD [OF rec(1), of "[]" 0 s' av rp' t "[]"] x(2) bar K args by (cases "f = 0") simp_all
  next
    case split
    then obtain w where "fork_left w rec argv s = Done (av, rp') t" using R x(1) K by auto
    then obtain f fs s' where f: "forks s = f # fs" "lex s' = lex s" "forks s' = fs"
        "if f = 0 then av = argv \<and> lex t = lex s else rec [] f s' = Done (av, rp') t"
      using fork_run by blast
    then show ?thesis
      using followsD [OF rec(1), of "[]" f s' av rp' t "[]"] x(2) split K args by (cases "f = 0") auto
  next
    case other
    then show ?thesis using followsD [OF rec(1) _ x(2) args] R x(1) by simp
  qed
qed

lemma parsecmd_follows:
  assumes ds: "list_all (frame_dev same_lex) ds" "frame_srv same_lex srv"
  shows "follows (parsecmd n ds srv b) cs"
proof (induction n arbitrary: cs)
  case 0
  then show ?case by (simp add: follows_def panicK_def)
next
  case (Suc n)
  show ?case
    unfolding follows_def
  proof (intro allI impI)
    fix s argv ws rp av rp' t
    assume p: "pending (lex s) cs" and args: "list_all2 (settled (lex s)) argv ws" "length argv \<le> MAXARGS"
      and "parsecmd (Suc n) ds srv b argv rp s = Done (av, rp') t"
    then obtain c q x where g: "gettoken 0 (lex s) = Some (c, q, x)"
        "parse_token ds srv b (parsecmd n ds srv b) argv rp c q (s\<lparr>lex := x\<rparr>) = Done (av, rp') t"
      by (auto simp: bind_Done next_token_Done)
    show "\<exists>ws'. plan (lex_all cs) (forks s) ws = Some ws' \<and> list_all2 (settled (lex t)) av ws' \<and> length av \<le> MAXARGS"
    proof (cases "lex1 cs")
      case None
      then show ?thesis
        using gettoken_last [OF p None] g args settled_all [OF args(1)]
        by (auto simp: parse_token_def basic_Done lex_all_cases [of cs])
    next
      case (Some h)
      then obtain k w r where h: "lex1 cs = Some (k, w, r)" by (cases h) auto
      have x: "c = k" "k \<noteq> 0" "pending x r" "k = WORD \<longrightarrow> settled x q w" "\<And>q v. settled (lex s) q v \<Longrightarrow> settled x q v"
        using gettoken_next [OF p h] g(1) by auto
      show ?thesis
        using parse_token_plan [OF ds Suc Suc x(2), of "s\<lparr>lex := x\<rparr>" r q w argv ws] x g(2) args(2) settled_all [OF args(1) x(5)]
          h lex_all_cases [of cs] by simp
    qed
  qed
qed

section \<open>The number of turns\<close>

lemma bind_run_cong:
  assumes "\<And>a t. m s = Done a t \<Longrightarrow> f a t = g a t"
  shows "bindK m f s = bindK m g s"
  using assms by (simp add: bindK_def split: outcome.split)

lemma seq_run_cong: "(\<And>a t. m s = Done a t \<Longrightarrow> f t = g t) \<Longrightarrow> seqK m f s = seqK m g s"
  unfolding seqK_def by (rule bind_run_cong)

text \<open>Two continuations that agree on lines in which \<open>cs\<close> is left.\<close>

definition agree :: "'x parser \<Rightarrow> 'x parser \<Rightarrow> u8 list \<Rightarrow> bool" where
  "agree f g cs \<longleftrightarrow> (\<forall>argv rp s. pending (lex s) cs \<longrightarrow> f argv rp s = g argv rp s)"

lemma agreeD: "agree f g cs \<Longrightarrow> pending (lex s) cs \<Longrightarrow> f argv rp s = g argv rp s"
  by (simp add: agree_def)

lemma redirect_cong:
  assumes ds: "list_all (frame_dev same_lex) ds" "frame_srv same_lex srv" and p: "pending (lex s) cs"
    and eq: "\<And>w r. lex1 cs = Some (WORD, w, r) \<Longrightarrow> agree f g r"
  shows "redirect_word ds srv b mode target (f argv rp) s = redirect_word ds srv b mode target (g argv rp) s"
  unfolding redirect_word_def
proof (rule bind_run_cong, clarify)
  fix c q t assume "next_token s = Done (c, q) t"
  then obtain x where x: "gettoken 0 (lex s) = Some (c, q, x)" "t = s\<lparr>lex := x\<rparr>" by (auto simp: next_token_Done)
  show "(if c \<noteq> WORD then exit_sh ds else seqK (redirect ds srv b q mode target) (f argv rp)) t =
      (if c \<noteq> WORD then exit_sh ds else seqK (redirect ds srv b q mode target) (g argv rp)) t"
  proof (cases "c = WORD")
    case True
    then obtain w r where r: "lex1 cs = Some (WORD, w, r)" "pending x r"
      using gettoken_kind [OF p x(1)] kinds(4) by metis
    have "f argv rp u = g argv rp u" if "redirect ds srv b q mode target t = Done a u" for a u
      by (rule agreeD [OF eq [OF r(1)]]) (use same_lexD [OF keeps_redirect [OF ds] that] x(2) r(2) in simp)
    then have "seqK (redirect ds srv b q mode target) (f argv rp) t = seqK (redirect ds srv b q mode target) (g argv rp) t"
      by (rule seq_run_cong)
    then show ?thesis using True by simp
  qed simp
qed

lemma pipe_cong:
  assumes ds: "list_all (frame_dev same_lex) ds" and p: "pending (lex s) r" and eq: "agree f g r"
  shows "pipe_right ds f argv s = pipe_right ds g argv s"
  unfolding pipe_right_def
proof (rule bind_run_cong)
  fix pp s1 assume m: "make_pipe s = Done pp s1"
  have p1: "pending (lex s1) r" using same_lexD [OF sh.make_pipe_frame m] p by simp
  have f0: "f [] 0 u = g [] 0 u" if "fork_call s1 = Done x s2" "move_fds ds a c d s2 = Done y u" for x s2 a c d y u
  proof (rule agreeD [OF eq])
    have "lex s2 = lex s1" using that(1) by (auto simp: fork_call_Done)
    then show "pending (lex u) r" using same_lexD [OF keeps_moves [OF ds] that(2)] p1 by simp
  qed
  have c: "(if x = 0 then seqK (move_fds ds a c 0) (f [] 0) else m) s2 = (if x = 0 then seqK (move_fds ds a c 0) (g [] 0) else m) s2"
    if "fork_call s1 = Done x s2" for x s2 a c m
  proof (cases "x = 0")
    case True
    show ?thesis unfolding if_P [OF True] by (rule seq_run_cong) (rule f0 [OF that])
  qed simp
  show "(case pp of Inl _ \<Rightarrow> panicK ''uninitialised p'' | Inr (p0, p1) \<Rightarrow>
     bindK fork_call (\<lambda>r.
       if r = 0 then seqK (move_fds ds p0 p1 0) (f [] 0)
       else seqK (move_fds ds p1 p0 1) (retK (argv, r)))) s1 =
    (case pp of Inl _ \<Rightarrow> panicK ''uninitialised p'' | Inr (p0, p1) \<Rightarrow>
     bindK fork_call (\<lambda>r.
       if r = 0 then seqK (move_fds ds p0 p1 0) (g [] 0)
       else seqK (move_fds ds p1 p0 1) (retK (argv, r)))) s1"
  proof (cases pp)
    case (Inr q)
    obtain p0 p1 where q: "q = (p0, p1)" by (cases q)
    show ?thesis unfolding Inr q by simp (rule bind_run_cong, rule c)
  qed simp
qed

lemma fork_left_cong:
  assumes p: "pending (lex s) r" and eq: "agree f g r"
  shows "fork_left w f argv s = fork_left w g argv s"
proof -
  have fx: "f [] x u = g [] x u"
    if "fork_call s = Done x t" "(if w then wait_for x else retK ()) t = Done y u" for x t y u
  proof (rule agreeD [OF eq])
    have "lex t = lex s" using that(1) by (auto simp: fork_call_Done)
    moreover have "lex u = lex t" using that(2) by (cases w) (auto simp: wait_for_def basic_Done)
    ultimately show "pending (lex u) r" using p by simp
  qed
  have "(if x = 0 then retK (argv, 0) else seqK (if w then wait_for x else retK ()) (f [] x)) t =
      (if x = 0 then retK (argv, 0) else seqK (if w then wait_for x else retK ()) (g [] x)) t"
    if "fork_call s = Done x t" for x t
  proof (cases "x = 0")
    case False
    show ?thesis unfolding if_not_P [OF False] by (rule seq_run_cong) (rule fx [OF that])
  qed simp
  then show ?thesis unfolding fork_left_def by (rule bind_run_cong)
qed

lemma parts_cong: "f s = g s \<Longrightarrow> h s = k s \<Longrightarrow> (if c then f else h) s = (if c then g else k) s" "f s = f s"
  by simp_all

text \<open>
  The first \<open>n\<close> turns of the loop, with \<open>z\<close> for whatever would come after them. When \<open>z\<close> does not
  matter, the loop has come to an end by then.
\<close>

primrec parse_turns :: "nat \<Rightarrow> 'x shdev list \<Rightarrow> 'x shsrv \<Rightarrow> u32 \<Rightarrow> 'x parser \<Rightarrow> 'x parser" where
  "parse_turns 0 devtab srv fsipcbuf z = z"
| "parse_turns (Suc n) devtab srv fsipcbuf z = (\<lambda>argv rp.
     bindK next_token (\<lambda>(c, t). parse_token devtab srv fsipcbuf (parse_turns n devtab srv fsipcbuf z) argv rp c t))"

lemma parsecmd_turns: "parsecmd n ds srv b = parse_turns n ds srv b (\<lambda>argv rp. panicK ''out of fuel'')"
  by (induction n) simp_all

lemma parse_turns_end:
  fixes ds :: "'x shdev list"
  assumes ds: "list_all (frame_dev same_lex) ds" "frame_srv same_lex srv"
  shows "length cs < n \<Longrightarrow> length cs < m \<Longrightarrow> agree (parse_turns n ds srv b y) (parse_turns m ds srv b z) cs"
proof (induction n arbitrary: m cs)
  case 0
  then show ?case by simp
next
  case (Suc n)
  then obtain m' where m: "m = Suc m'" by (cases m) auto
  let ?f = "parse_turns n ds srv b y" and ?g = "parse_turns m' ds srv b z"
  have rec: "agree ?f ?g r \<and> length r < length cs" if "lex1 cs = Some (k, w, r)" for k w r
    using Suc.IH [of r m'] lex1_shorter [OF that] Suc.prems m by simp
  show ?case
    unfolding agree_def m parse_turns.simps
  proof (intro allI impI, rule bind_run_cong, clarify)
    fix argv rp c q and s t :: "'x shproc_scheme"
    assume p: "pending (lex s) cs" and "next_token s = Done (c, q) t"
    then obtain x where x: "gettoken 0 (lex s) = Some (c, q, x)" "t = s\<lparr>lex := x\<rparr>" by (auto simp: next_token_Done)
    show "parse_token ds srv b ?f argv rp c q t = parse_token ds srv b ?g argv rp c q t"
    proof (cases "c = 0")
      case False
      then obtain w r where r: "lex1 cs = Some (c, w, r)" "pending (lex t) r"
        using gettoken_kind [OF p x(1) False] x(2) by auto
      note a = conjunct1 [OF rec [OF r(1)]]
      have a2: "agree ?f ?g r'" if "lex1 r = Some (WORD, w', r')" for w' r'
        using Suc.IH [of r' m'] lex1_shorter [OF that] conjunct2 [OF rec [OF r(1)]] Suc.prems m by simp
      show ?thesis
        unfolding parse_token_def
        by (intro parts_cong agreeD [OF a r(2)] redirect_cong [OF ds r(2) a2] pipe_cong [OF ds(1) r(2) a]
            fork_left_cong [OF r(2) a])
    qed (simp add: parse_token_def)
  qed
qed

text \<open>
  A line of words, \<^verbatim>\<open>;\<close> and \<^verbatim>\<open>&\<close> touches no files: when it has no more than \<^verbatim>\<open>MAXARGS\<close> tokens and the
  \<^verbatim>\<open>fork\<close>s return, so does \<^verbatim>\<open>parsecmd\<close>.
\<close>

lemma fork_left_step:
  assumes "forks s = f # fs"
  shows "fork_left w rec argv s =
    (if f = 0 then Done (argv, 0) (s\<lparr>forks := fs\<rparr>)
     else rec [] f (if w then s\<lparr>forks := fs, waits := waits s @ [f]\<rparr> else s\<lparr>forks := fs\<rparr>))"
  using assms by (simp add: fork_left_def fork_call_def wait_for_def run_rules)

lemma parse_turn_run:
  "gettoken 0 (lex s) = Some (c, t, x) \<Longrightarrow> bindK next_token (\<lambda>(c, t). f c t) s = f c t (s\<lparr>lex := x\<rparr>)"
  by (simp add: next_token_def run_rules)

lemma parse_token_word:
  "length argv < MAXARGS \<Longrightarrow> parse_token ds srv b rec argv rp WORD t = rec (argv @ [t]) rp"
  by (simp add: parse_token_def WORD_def)

lemma parse_token_fork:
  assumes "k = SEMI \<or> k = AMP"
  shows "parse_token ds srv b rec argv rp k t = fork_left (k = SEMI) rec argv"
  using assms by (auto simp: parse_token_def WORD_def LT_def GT_def BAR_def SEMI_def AMP_def)

lemma plan_fork:
  "k = SEMI \<or> k = AMP \<Longrightarrow> plan ((k, w) # ts) fs ws \<noteq> None \<Longrightarrow>
    \<exists>f fs'. fs = f # fs' \<and> (f \<noteq> 0 \<longrightarrow> plan ts fs' [] \<noteq> None)"
  by (cases fs) (auto simp: WORD_def LT_def GT_def BAR_def SEMI_def AMP_def split: if_splits)

lemma parsecmd_returns:
  "pending (lex s) cs \<Longrightarrow> length cs < n \<Longrightarrow> \<forall>(k, w) \<in> set (lex_all cs). k \<in> {WORD, SEMI, AMP} \<Longrightarrow>
   length argv + length (lex_all cs) \<le> MAXARGS \<Longrightarrow> plan (lex_all cs) (forks s) ws \<noteq> None \<Longrightarrow>
   \<exists>av rp' t. parsecmd n ds srv b argv rp s = Done (av, rp') t"
proof (induction n arbitrary: cs s argv rp ws)
  case 0
  then show ?case by simp
next
  case (Suc n)
  show ?case
  proof (cases "lex1 cs")
    case None
    from gettoken_last [OF Suc.prems(1) None] obtain p y where "gettoken 0 (lex s) = Some (0, p, y)" by blast
    then have "parsecmd (Suc n) ds srv b argv rp s = Done (argv, rp) (s\<lparr>lex := y\<rparr>)"
      unfolding parsecmd.simps(2) by (simp only: parse_turn_run parse_token_def if_True simp_thms retK_def)
    then show ?thesis by blast
  next
    case (Some h)
    then obtain k w r where h: "lex1 cs = Some (k, w, r)" by (cases h) auto
    from gettoken_next [OF Suc.prems(1) h] obtain p y where
      g: "gettoken 0 (lex s) = Some (k, p, y)" "k \<noteq> 0" "pending y r" by blast
    have all: "lex_all cs = (k, w) # lex_all r" using h lex_all_cases [of cs] by simp
    have r: "length r < n" "\<forall>(k, w) \<in> set (lex_all r). k \<in> {WORD, SEMI, AMP}" "k \<in> {WORD, SEMI, AMP}"
      using lex1_shorter [OF h] Suc.prems(2,3) by (simp_all add: all)
    have step: "parsecmd (Suc n) ds srv b argv rp s =
        parse_token ds srv b (parsecmd n ds srv b) argv rp k p (s\<lparr>lex := y\<rparr>)"
      unfolding parsecmd.simps(2) by (rule parse_turn_run [OF g(1)])
    show ?thesis
    proof (cases "k = WORD")
      case True
      have "plan (lex_all r) (forks (s\<lparr>lex := y\<rparr>)) (ws @ [w]) \<noteq> None"
        using Suc.prems(5) True by (simp add: all)
      moreover have "length (argv @ [p]) + length (lex_all r) \<le> MAXARGS" using Suc.prems(4) by (simp add: all)
      ultimately have "\<exists>av rp' t. parsecmd n ds srv b (argv @ [p]) rp (s\<lparr>lex := y\<rparr>) = Done (av, rp') t"
        by (intro Suc.IH [OF _ r(1,2)]) (simp_all add: g(3))
      moreover have "\<not> MAXARGS \<le> length argv" using Suc.prems(4) by (simp add: all)
      ultimately show ?thesis unfolding step True by (simp only: parse_token_word not_le)
    next
      case False
      then have k: "k = SEMI \<or> k = AMP" using r(3) by auto
      from plan_fork [OF this Suc.prems(5) [unfolded all]] obtain f fs where
        f: "forks s = f # fs" "f \<noteq> 0 \<longrightarrow> plan (lex_all r) fs [] \<noteq> None" by blast
      let ?rec = "parsecmd n ds srv b" and ?s = "s\<lparr>lex := y\<rparr>"
      define v where "v = (k = SEMI)"
      note v = parse_token_fork [OF k, of ds srv b ?rec argv rp p, folded v_def]
      have f': "forks ?s = f # fs" using f(1) by simp
      show ?thesis
      proof (cases "f = 0")
        case True
        then show ?thesis unfolding step v fork_left_step [OF f'] by simp
      next
        case ne: False
        define u where "u = (if v then ?s\<lparr>forks := fs, waits := waits ?s @ [f]\<rparr> else ?s\<lparr>forks := fs\<rparr>)"
        have u: "lex u = y" "forks u = fs" by (simp_all add: u_def)
        have "\<exists>av rp' t. ?rec [] f u = Done (av, rp') t"
          by (rule Suc.IH [of u r "[]" "[]"]) (use u f(2) ne g(3) r(1,2) Suc.prems(4) in \<open>simp_all add: all\<close>)
        then show ?thesis unfolding step v fork_left_step [OF f'] u_def using ne by simp
      qed
    qed
  qed
qed

section \<open>The command of a process\<close>

lemma lex1_word: "lex1 cs = Some (k, w, r) \<Longrightarrow> length w \<le> length cs"
proof -
  assume h: "lex1 cs = Some (k, w, r)"
  then obtain c t where t: "dropWhile is_white cs = c # t" by (auto simp: lex1_def split: list.splits)
  have "length (c # t) \<le> length cs" using length_dropWhile_le [of is_white cs] t by simp
  moreover have "length w \<le> length (c # t)"
    using h t length_takeWhile_le [of "\<lambda>c. c \<noteq> QUOTE" t] length_takeWhile_le [of word_char "c # t"]
    by (auto simp: lex1_def split: if_splits list.splits)
  ultimately show ?thesis by simp
qed

lemma lex_all_words: "(k, w) \<in> set (lex_all cs) \<Longrightarrow> length w \<le> length cs"
proof (induction cs rule: lex_all.induct)
  case (1 cs)
  show ?case
  proof (cases "lex1 cs")
    case (Some h)
    obtain k' w' r where h: "h = (k', w', r)" by (cases h)
    then have l: "lex1 cs = Some (k', w', r)" using Some by simp
    show ?thesis
      using 1 lex1_word [OF l] lex1_shorter [OF l] lex_all_cases [of cs] l by fastforce
  qed (use 1 lex_all_cases [of cs] in simp)
qed

lemma plan_words: "plan ts rs ws = Some ws' \<Longrightarrow> set ws' \<subseteq> set ws \<union> snd ` set ts"
proof (induction ts arbitrary: rs ws rule: length_induct)
  case (1 ts)
  show ?case
  proof (cases ts)
    case Nil
    then show ?thesis using 1(2) by simp
  next
    case (Cons a us)
    obtain k w where a: "a = (k, w)" by (cases a)
    have IH: "plan us rs' vs = Some ws' \<Longrightarrow> set ws' \<subseteq> set vs \<union> snd ` set us" for rs' vs
      using 1(1) Cons by simp
    show ?thesis
    proof (cases "k = LT \<or> k = GT")
      case True
      then obtain k' w' vs where v: "us = (k', w') # vs" "plan vs rs ws = Some ws'"
        using 1(2) Cons a symbols by (auto split: list.splits if_splits)
      then have "set ws' \<subseteq> set ws \<union> snd ` set vs" using 1(1) Cons by simp
      then show ?thesis using Cons v by auto
    next
      case False
      show ?thesis
        using 1(2) False unfolding Cons a plan.simps
        by (cases rs) (auto split: if_splits dest!: IH)
    qed
  qed
qed

lemma text_of_str: "str_at m p w \<Longrightarrow> length w < LINE \<Longrightarrow> text_of m p = w"
proof -
  assume s: "str_at m p w" and l: "length w < LINE"
  have "map m [p..<p + LINE] = map m [p..<p + length w] @ map m [p + length w..<p + LINE]"
    using l upt_add_eq_append [of p "p + length w" "LINE - length w"] by simp
  moreover have "map m [p..<p + length w] = w"
    using s by (intro nth_equalityI) (simp_all add: str_at_def text_at_def)
  moreover have "[p + length w..<p + LINE] = (p + length w) # [Suc (p + length w)..<p + LINE]"
    using l by (simp add: upt_conv_Cons)
  ultimately have "map m [p..<p + LINE] = w @ 0 # map m [Suc (p + length w)..<p + LINE]"
    using s by (simp add: str_at_def)
  moreover have "\<forall>c \<in> set w. c \<noteq> 0" using s by (auto simp: str_at_def text_at_def)
  ultimately show ?thesis by (simp add: text_of_def takeWhile_append2)
qed

text \<open>
  C37. \<^verbatim>\<open>parsecmd\<close> comes to an end on every line: after one turn more than the line has characters it
  takes no further turn, so that nothing depends on what would come then, whatever the devices and
  the server do to files. On a line of at most \<^verbatim>\<open>MAXARGS\<close> words, \<^verbatim>\<open>;\<close> and \<^verbatim>\<open>&\<close> whose \<^verbatim>\<open>fork\<close>s return,
  it returns. A process of the shell that comes out of it has in \<^verbatim>\<open>argv\<close> the words of its own simple
  command, at most \<^verbatim>\<open>MAXARGS\<close>, as the specification \<open>plan\<close> finds it from the tokens of the line and the
  results of its \<^verbatim>\<open>fork\<close>s: the parts before it have gone to other processes, redirections are taken
  out, and each word is a terminated string in the line.
\<close>

theorem parsecmd_runs_plan:
  fixes s :: "'x shproc_scheme"
  assumes "list_all (frame_dev same_lex) ds" "frame_srv same_lex srv"
    and "str_at (lbuf (lex s)) line cs" "0 < line" "length cs < LINE"
    and "gettoken line (lex s) = Some (c, q, x)" "length cs < n"
  shows "(\<forall>z. parse_turns (Suc (length cs)) ds srv b z [] 0 (s\<lparr>lex := x\<rparr>) = parsecmd n ds srv b [] 0 (s\<lparr>lex := x\<rparr>)) \<and>
    ((\<forall>(k, w) \<in> set (lex_all cs). k \<in> {WORD, SEMI, AMP}) \<longrightarrow> length (lex_all cs) \<le> MAXARGS \<longrightarrow>
      plan (lex_all cs) (forks s) [] \<noteq> None \<longrightarrow>
      (\<exists>argv rp t. parsecmd n ds srv b [] 0 (s\<lparr>lex := x\<rparr>) = Done (argv, rp) t)) \<and>
    (\<forall>argv rp t. parsecmd n ds srv b [] 0 (s\<lparr>lex := x\<rparr>) = Done (argv, rp) t \<longrightarrow>
      plan (lex_all cs) (forks s) [] = Some (map (text_of (lbuf (lex t))) argv) \<and> length argv \<le> MAXARGS)"
proof (intro conjI allI impI)
  have p: "pending (lex (s\<lparr>lex := x\<rparr>)) cs"
    using gettoken1_pending [OF assms(3, 4)] assms(4, 6) by (auto simp: gettoken_def)
  show "parse_turns (Suc (length cs)) ds srv b z [] 0 (s\<lparr>lex := x\<rparr>) = parsecmd n ds srv b [] 0 (s\<lparr>lex := x\<rparr>)" for z
    using parse_turns_end [OF assms(1, 2) _ assms(7), of "Suc (length cs)"] p
    by (simp only: agree_def parsecmd_turns lessI simp_thms)
  show "\<exists>argv rp t. parsecmd n ds srv b [] 0 (s\<lparr>lex := x\<rparr>) = Done (argv, rp) t"
    if "\<forall>(k, w) \<in> set (lex_all cs). k \<in> {WORD, SEMI, AMP}" "length (lex_all cs) \<le> MAXARGS"
      "plan (lex_all cs) (forks s) [] \<noteq> None"
    using parsecmd_returns [OF p assms(7) that(1), of "[]" "[]"] that(2,3) by simp
  fix argv rp t
  assume run: "parsecmd n ds srv b [] 0 (s\<lparr>lex := x\<rparr>) = Done (argv, rp) t"
  obtain ws where ws: "plan (lex_all cs) (forks s) [] = Some ws" "list_all2 (settled (lex t)) argv ws" "length argv \<le> MAXARGS"
    using followsD [OF parsecmd_follows [OF assms(1, 2)] run p, of "[]"] by auto
  have "text_of (lbuf (lex t)) (argv ! i) = ws ! i" if i: "i < length argv" for i
  proof (rule text_of_str)
    show "str_at (lbuf (lex t)) (argv ! i) (ws ! i)" using list_all2_nthD [OF ws(2) i] by (simp add: settled_def)
    have "ws ! i \<in> snd ` set (lex_all cs)"
      using plan_words [OF ws(1)] i list_all2_lengthD [OF ws(2)] nth_mem [of i ws] by auto
    then show "length (ws ! i) < LINE" using lex_all_words assms(5) by fastforce
  qed
  then have "map (text_of (lbuf (lex t))) argv = ws"
    using list_all2_lengthD [OF ws(2)] by (intro nth_equalityI) simp_all
  then show "plan (lex_all cs) (forks s) [] = Some (map (text_of (lbuf (lex t))) argv)" "length argv \<le> MAXARGS"
    using ws(1, 3) by simp_all
qed

text \<open>The line \<^verbatim>\<open>a;b\<close> at address 100, in the shell that waits for the first command.\<close>

definition semi_line :: "u8 list" where "semi_line = [0x61, 0x3B, 0x62]"

definition semi_shell :: shproc where
  "semi_shell = \<lparr>upt = \<lambda>_. None, frames = \<lambda>_ _. 0, frefs = \<lambda>_. 0, ffree = [], kids = \<lambda>_. None, fresh_ids = [],
     own_tf = \<lparr>tf_regs = \<lambda>_. 0, tf_status = 0, tf_hi = 0, tf_lo = 0, tf_badvaddr = 0, tf_cause = 0, tf_epc = 0\<rparr>,
     run_list = \<lparr>tqh_first = None, tqh_last = HeadRef, tqe_next = (\<lambda>_. None), tqe_prev = (\<lambda>_. NullRef)\<rparr>,
     lex = \<lparr>lbuf = (\<lambda>a. if 100 \<le> a \<and> a < 103 then semi_line ! (a - 100) else 0), nc = 0, np1 = 0, np2 = 0\<rparr>,
     forks = [0x801], waits = [], cwd = [0x2F], stale = ([], 0)\<rparr>"

definition idle_srv :: "unit shsrv" where "idle_srv ty req dst = retK (0, 0)"

lemma semi_tokens:
  "lex1 semi_line = Some (WORD, [0x61], [0x3B, 0x62])" "lex1 [0x3B, 0x62] = Some (SEMI, [0x3B], [0x62])"
  "lex1 [0x62] = Some (WORD, [0x62], [])" "lex1 [] = None"
  by (simp_all add: semi_line_def lex1_def word_char_def QUOTE_def is_white_def is_symbol_def SEMI_def)

lemma parsecmd_steps:
  "gettoken 0 (lex s) = Some (0, q, y) \<Longrightarrow> parsecmd (Suc n) ds srv b argv rp s = Done (argv, rp) (s\<lparr>lex := y\<rparr>)"
  "gettoken 0 (lex s) = Some (WORD, q, y) \<Longrightarrow> length argv < MAXARGS \<Longrightarrow>
     parsecmd (Suc n) ds srv b argv rp s = parsecmd n ds srv b (argv @ [q]) rp (s\<lparr>lex := y\<rparr>)"
  "gettoken 0 (lex s) = Some (SEMI, q, y) \<Longrightarrow> forks s = r # rs \<Longrightarrow> r \<noteq> 0 \<Longrightarrow>
     parsecmd (Suc n) ds srv b argv rp s =
     parsecmd n ds srv b [] r (s\<lparr>lex := y, forks := rs, waits := waits s @ [r]\<rparr>)"
proof -
  have "SEMI \<noteq> 0" "SEMI \<noteq> LT" "SEMI \<noteq> GT" "SEMI \<noteq> BAR" "WORD \<noteq> 0"
    by (simp_all add: SEMI_def LT_def GT_def BAR_def WORD_def)
  then show "gettoken 0 (lex s) = Some (0, q, y) \<Longrightarrow> parsecmd (Suc n) ds srv b argv rp s = Done (argv, rp) (s\<lparr>lex := y\<rparr>)"
    "gettoken 0 (lex s) = Some (WORD, q, y) \<Longrightarrow> length argv < MAXARGS \<Longrightarrow>
     parsecmd (Suc n) ds srv b argv rp s = parsecmd n ds srv b (argv @ [q]) rp (s\<lparr>lex := y\<rparr>)"
    "gettoken 0 (lex s) = Some (SEMI, q, y) \<Longrightarrow> forks s = r # rs \<Longrightarrow> r \<noteq> 0 \<Longrightarrow>
     parsecmd (Suc n) ds srv b argv rp s =
     parsecmd n ds srv b [] r (s\<lparr>lex := y, forks := rs, waits := waits s @ [r]\<rparr>)"
    by (simp_all add: run_rules next_token_def parse_token_def fork_left_def fork_call_def wait_for_def symbols)
qed

theorem parsecmd_runs_plan_witness:
  "\<exists>c q x argv rp t. gettoken 100 (lex semi_shell) = Some (c, q, x) \<and>
     parsecmd 9 [] idle_srv 0 [] 0 (semi_shell\<lparr>lex := x\<rparr>) = Done (argv, rp) t \<and>
     map (text_of (lbuf (lex t))) argv = [[0x62]]"
proof -
  have s: "str_at (lbuf (lex semi_shell)) 100 semi_line"
    by (auto simp: str_at_def text_at_def semi_shell_def semi_line_def)
  obtain c q x where g: "gettoken 100 (lex semi_shell) = Some (c, q, x)"
    using gettoken1_pending [OF s] by (auto simp: gettoken_def)
  note all = lex_all_cases [of semi_line] lex_all_cases [of "[0x3B, 0x62]"] lex_all_cases [of "[0x62]"] lex_all_cases [of "[]"]
  have toks: "lex_all semi_line = [(WORD, [0x61]), (SEMI, [0x3B]), (WORD, [0x62])]"
    using all semi_tokens by simp
  have pl: "plan (lex_all semi_line) (forks semi_shell) [] = Some [[0x62]]"
    unfolding toks by (simp add: semi_shell_def symbols WORD_def SEMI_def LT_def GT_def BAR_def)
  have "list_all (frame_dev same_lex) ([] :: unit shdev list)" by simp
  moreover have "frame_srv same_lex idle_srv" by (simp add: frame_srv_def idle_srv_def frame_rules)
  moreover have "(0 :: nat) < 100" "length semi_line < LINE" "length semi_line < 9"
    by (simp_all add: semi_line_def LINE_def)
  ultimately have t: "(\<forall>(k, w) \<in> set (lex_all semi_line). k \<in> {WORD, SEMI, AMP}) \<longrightarrow> length (lex_all semi_line) \<le> MAXARGS \<longrightarrow>
      plan (lex_all semi_line) (forks semi_shell) [] \<noteq> None \<longrightarrow>
      (\<exists>argv rp t. parsecmd 9 [] idle_srv 0 [] 0 (semi_shell\<lparr>lex := x\<rparr>) = Done (argv, rp) t)"
    "\<forall>argv rp t. parsecmd 9 [] idle_srv 0 [] 0 (semi_shell\<lparr>lex := x\<rparr>) = Done (argv, rp) t \<longrightarrow>
      plan (lex_all semi_line) (forks semi_shell) [] = Some (map (text_of (lbuf (lex t))) argv) \<and> length argv \<le> MAXARGS"
    using parsecmd_runs_plan [OF _ _ s _ _ g, of "[]" idle_srv 9 0] by blast+
  from t(1) pl obtain argv rp u where r: "parsecmd 9 [] idle_srv 0 [] 0 (semi_shell\<lparr>lex := x\<rparr>) = Done (argv, rp) u"
    by (auto simp: toks MAXARGS_def)
  with t(2) pl have "map (text_of (lbuf (lex u))) argv = [[0x62]]" by (metis option.inject)
  then show ?thesis by (intro exI conjI) (rule g, rule r, assumption)
qed

end
