(* ===== verification/History.thy ===== *)
theory History
  imports Prelude
begin

text \<open>
  The command history, \<^verbatim>\<open>user/lib/history.c\<close>, and the line editor of the shell, \<^verbatim>\<open>readline\<close> of
  \<^verbatim>\<open>user/sh.c\<close>. Both scan memory from a pointer that moves either way, so pointers are integers:
  \<open>hmem\<close> is the history file's data region, position 0 its first byte (\<^verbatim>\<open>beginva\<close>); \<open>ebuf\<close> is the
  memory around \<^verbatim>\<open>buf\<close>, position 0 the first of its 1024 bytes. \<^verbatim>\<open>write\<close> stores behind what was written
  before and the file's size grows with it, as \<open>File\<close> has it. Next to an array a read gives the byte
  that lies there; a store outside \<^verbatim>\<open>buf\<close> or \<^verbatim>\<open>tmp\<close>, a scan that finds no zero byte and a panic of the user
  program are \<open>None\<close>.
\<close>

type_synonym bytes = "int \<Rightarrow> u8"

record hist =
  hp :: int
  hnum :: int
  hva :: int
  htmp :: "u8 list"
  hmem :: bytes
  hsize :: int
  hoff :: int

section \<open>Strings\<close>

partial_function (option) scan_right :: "bytes \<Rightarrow> int \<Rightarrow> int option" where
  "scan_right m a = (if m a \<noteq> 0 then scan_right m (a + 1) else Some a)"

partial_function (option) scan_left :: "bytes \<Rightarrow> int \<Rightarrow> int option" where
  "scan_left m a = (if m a \<noteq> 0 then scan_left m (a - 1) else Some a)"

definition bytes_between :: "bytes \<Rightarrow> int \<Rightarrow> int \<Rightarrow> u8 list" where
  "bytes_between m a b = map (\<lambda>k. m (a + int k)) [0..<nat (b - a)]"

definition load_str :: "bytes \<Rightarrow> int \<Rightarrow> u8 list option" where
  "load_str m a = map_option (bytes_between m a) (scan_right m a)"

text \<open>Storing bytes, and a string with its terminator.\<close>

definition store_bytes :: "int \<Rightarrow> u8 list \<Rightarrow> bytes \<Rightarrow> bytes" where
  "store_bytes a w m = (\<lambda>j. if a \<le> j \<and> j < a + int (length w) then w ! nat (j - a) else m j)"

definition store_str :: "int \<Rightarrow> u8 list \<Rightarrow> bytes \<Rightarrow> bytes" where
  "store_str a w m = store_bytes a (w @ [0]) m"

text \<open>The size of \<^verbatim>\<open>buf\<close> and of \<^verbatim>\<open>tmp\<close>; storing a byte and a string in \<^verbatim>\<open>buf\<close>.\<close>

definition LINEBUF :: int where "LINEBUF = 1024"

definition set_char :: "int \<Rightarrow> u8 \<Rightarrow> bytes \<Rightarrow> bytes option" where
  "set_char j c m = (if 0 \<le> j \<and> j < LINEBUF then Some (m(j := c)) else None)"

definition set_line :: "u8 list \<Rightarrow> bytes \<Rightarrow> bytes option" where
  "set_line w m = (if int (length w) < LINEBUF then Some (store_str 0 w m) else None)"

text \<open>\<^verbatim>\<open>strcpy(tmp, *str)\<close>: the string that \<^verbatim>\<open>tmp\<close> then holds.\<close>

definition copy_tmp :: "bytes \<Rightarrow> u8 list option" where
  "copy_tmp buf = Option.bind (load_str buf 0) (\<lambda>w. if int (length w) < LINEBUF then Some w else None)"

section \<open>The history\<close>

definition MAXHIST :: int where "MAXHIST = 1024 * 4096"

text \<open>What \<^verbatim>\<open>create\<close> and \<^verbatim>\<open>open\<close> return is an argument; the new file is empty.\<close>

definition init_history :: "int \<Rightarrow> int \<Rightarrow> hist \<Rightarrow> hist option" where
  "init_history created opened h =
     (if created < 0 then None
      else if opened < 0 then None
      else Some (h\<lparr>hp := 0, hnum := 0, hoff := 0, hsize := 0\<rparr>))"

text \<open>A \<^verbatim>\<open>write\<close> that fails stops the shell, here as \<open>None\<close>; it fails when the file would grow too large.\<close>

definition add_history :: "u8 list \<Rightarrow> hist \<Rightarrow> hist option" where
  "add_history cmd h =
     (if cmd = [] then Some h
      else if MAXHIST < hoff h + int (length cmd) + 1 then None
      else
        let off = hoff h + int (length cmd) + 1; size = max (hsize h) off in
        Some (h\<lparr>hmem := store_str (hoff h) cmd (hmem h), hoff := off, hsize := size,
          hnum := hnum h + 1, hp := hnum h + 1, hva := size - 1, htmp := []\<rparr>))"

text \<open>The result, the history and the line.\<close>

definition next_history :: "hist \<Rightarrow> bytes \<Rightarrow> (int \<times> hist \<times> bytes) option" where
  "next_history h buf =
     (if hp h = hnum h then Some (-1, h, buf)
      else if hp h = hnum h - 1 then map_option (\<lambda>b. (1, h, b)) (set_line (htmp h) buf)
      else Option.bind (scan_right (hmem h) (hva h + 1)) (\<lambda>va.
           Option.bind (load_str (hmem h) (va + 1)) (\<lambda>w.
           map_option (\<lambda>b. (1, h\<lparr>hp := hp h + 1, hva := va\<rparr>, b)) (set_line w buf))))"

definition last_history :: "hist \<Rightarrow> bytes \<Rightarrow> (int \<times> hist \<times> bytes) option" where
  "last_history h buf =
     (if hp h = 0 then Some (-1, h, buf)
      else Option.bind (if hp h = hnum h then copy_tmp buf else Some (htmp h)) (\<lambda>tmp.
           Option.bind (scan_left (hmem h) (hva h - 1)) (\<lambda>va.
           Option.bind (load_str (hmem h) (va + 1)) (\<lambda>w.
           map_option (\<lambda>b. (1, h\<lparr>htmp := tmp, hp := hp h - 1, hva := va\<rparr>, b)) (set_line w buf)))))"

section \<open>The line editor\<close>

record editor =
  ebuf :: bytes
  ei :: int
  en :: int
  ehist :: hist
  eout :: "u8 list"

definition emit :: "u8 list \<Rightarrow> editor \<Rightarrow> editor" where
  "emit w e = e\<lparr>eout := eout e @ w\<rparr>"

definition BS :: u8 where "BS = 8"
definition SPC :: u8 where "SPC = 0x20"

text \<open>The two copying loops, in the order of the code.\<close>

definition copy_char :: "int \<Rightarrow> int \<Rightarrow> bytes option \<Rightarrow> bytes option" where
  "copy_char j k r = Option.bind r (\<lambda>m. set_char j (m k) m)"

definition shift_left :: "int \<Rightarrow> int \<Rightarrow> bytes \<Rightarrow> bytes option" where
  "shift_left a b m = fold (\<lambda>j. copy_char j (j + 1)) [a..b - 1] (Some m)"

definition shift_right :: "int \<Rightarrow> int \<Rightarrow> bytes \<Rightarrow> bytes option" where
  "shift_right a b m = fold (\<lambda>j. copy_char j (j - 1)) (rev [a..b]) (Some m)"

definition key_back :: "editor \<Rightarrow> editor option" where
  "key_back e =
     (let i = ei e; n = en e in
      Option.bind (shift_left (i - 1) (n - 1) (ebuf e)) (\<lambda>m.
      if i > 0 then
        map_option (\<lambda>m'.
          emit ([BS] @ bytes_between m' (i - 1) (n - 1) @ [SPC] @ replicate (nat (n - 1 - (i - 1) + 1)) BS)
            (e\<lparr>ebuf := m', ei := i - 1, en := n - 1\<rparr>))
          (set_char (n - 1) 0 m)
      else Some (e\<lparr>ebuf := m\<rparr>)))"

definition key_insert :: "u8 \<Rightarrow> editor \<Rightarrow> editor option" where
  "key_insert c e =
     (let i = ei e; n = en e + 1 in
      Option.bind (shift_right i (en e) (ebuf e)) (\<lambda>m1.
      Option.bind (set_char i c m1) (\<lambda>m.
      map_option (\<lambda>m'.
        emit (bytes_between m (i + 1) n @ replicate (nat (n - (i + 1))) BS)
          (e\<lparr>ebuf := m', ei := i + 1, en := n\<rparr>))
        (set_char n 0 m))))"

definition key_left :: "editor \<Rightarrow> editor" where
  "key_left e = (if ei e > 0 then e\<lparr>ei := ei e - 1\<rparr> else emit [SPC] e)"

definition key_right :: "editor \<Rightarrow> editor" where
  "key_right e = (if ei e < en e then e\<lparr>ei := ei e + 1\<rparr> else emit [BS] e)"

text \<open>After a successful move in the history: the old line is wiped out, the new one printed.\<close>

definition show_line :: "editor \<Rightarrow> editor option" where
  "show_line e = map_option (\<lambda>w.
       emit ((if ei e \<noteq> 0 then replicate (nat (en e - ei e + 1)) SPC @ concat (replicate (nat (en e + 1)) [BS, SPC, BS])
              else [SPC, BS]) @ w)
         (e\<lparr>ei := int (length w), en := int (length w)\<rparr>))
     (load_str (ebuf e) 0)"

definition key_down :: "editor \<Rightarrow> editor option" where
  "key_down e = Option.bind (next_history (ehist e) (ebuf e)) (\<lambda>(r, h, m).
     let e' = e\<lparr>ehist := h, ebuf := m\<rparr> in if r > 0 then show_line e' else Some e')"

definition key_up :: "editor \<Rightarrow> editor option" where
  "key_up e = Option.bind (last_history (ehist e) (ebuf e)) (\<lambda>(r, h, m).
     let e' = emit [0x1B, 0x5B, 0x42] (e\<lparr>ehist := h, ebuf := m\<rparr>) in if r > 0 then show_line e' else Some e')"

definition key_escape :: "u8 \<Rightarrow> u8 \<Rightarrow> editor \<Rightarrow> editor option" where
  "key_escape c2 c3 e =
     (if c2 \<noteq> 0x5B then Some e
      else if c3 = 0x44 then Some (key_left e)
      else if c3 = 0x43 then Some (key_right e)
      else if c3 = 0x42 then key_down e
      else if c3 = 0x41 then key_up e
      else Some e)"

text \<open>
  The loop over what \<^verbatim>\<open>read\<close> returns, one byte each. It ends with the line (\<open>Got\<close>), with \<^verbatim>\<open>exit\<close> when
  there is no more input, or with a line that is too long, which is dropped up to its end.
\<close>

datatype line_result = Got editor "u8 list" | Exited | Dropped editor "u8 list"

definition end_line :: "editor \<Rightarrow> editor option" where
  "end_line e = Option.bind (set_char (en e) 0 (ebuf e)) (\<lambda>m.
     Option.bind (load_str m 0) (\<lambda>w. map_option (\<lambda>h. e\<lparr>ebuf := m, ehist := h\<rparr>) (add_history w (ehist e))))"

definition drop_line :: "u8 list \<Rightarrow> editor \<Rightarrow> line_result" where
  "drop_line input e = Dropped (e\<lparr>ebuf := (ebuf e)(0 := 0)\<rparr>)
     (drop 1 (dropWhile (\<lambda>c. c \<noteq> 0x0D \<and> c \<noteq> 0x0A) input))"

fun readline_loop :: "int \<Rightarrow> u8 list \<Rightarrow> editor \<Rightarrow> line_result option" where
  "readline_loop n input e =
     (if \<not> ei e < n then Some (drop_line input e)
      else case input of
        [] \<Rightarrow> Some Exited
      | c1 # rest \<Rightarrow>
          if c1 = BS \<or> c1 = 0x7F then Option.bind (key_back e) (readline_loop n rest)
          else if c1 = 27 then (case rest of
              c2 # c3 # rest' \<Rightarrow> Option.bind (key_escape c2 c3 e) (readline_loop n rest')
            | _ \<Rightarrow> Some Exited)
          else if c1 = 0x0D \<or> c1 = 0x0A then map_option (\<lambda>e. Got e rest) (end_line e)
          else Option.bind (key_insert c1 e) (readline_loop n rest))"

declare readline_loop.simps [simp del]

definition readline :: "int \<Rightarrow> u8 list \<Rightarrow> editor \<Rightarrow> line_result option" where
  "readline n input e = readline_loop n input (e\<lparr>ei := 0, en := 0\<rparr>)"

end
