(* ===== verification/History_Thms.thy ===== *)
theory History_Thms
  imports History
begin

text \<open>
  The history file is a list of commands with a cursor, and the line editor a pair of the text
  before and behind the cursor.
\<close>

section \<open>Scans\<close>

lemma scan_right_run:
  "(\<And>k. k < n \<Longrightarrow> m (a + int k) \<noteq> 0) \<Longrightarrow> m (a + int n) = 0 \<Longrightarrow> scan_right m a = Some (a + int n)"
proof (induction n arbitrary: a)
  case 0
  then show ?case by (subst scan_right.simps) simp
next
  case (Suc n)
  have "scan_right m (a + 1) = Some (a + 1 + int n)"
    by (rule Suc.IH) (use Suc.prems(1) [of "Suc _"] Suc.prems(2) in \<open>simp_all add: algebra_simps\<close>)
  then show ?case using Suc.prems(1) [of 0] by (subst scan_right.simps) simp
qed

lemma scan_left_run:
  "(\<And>k. k < n \<Longrightarrow> m (a - int k) \<noteq> 0) \<Longrightarrow> m (a - int n) = 0 \<Longrightarrow> scan_left m a = Some (a - int n)"
proof (induction n arbitrary: a)
  case 0
  then show ?case by (subst scan_left.simps) simp
next
  case (Suc n)
  have "scan_left m (a - 1) = Some (a - 1 - int n)"
    by (rule Suc.IH) (use Suc.prems(1) [of "Suc _"] Suc.prems(2) in \<open>simp_all add: algebra_simps\<close>)
  then show ?case using Suc.prems(1) [of 0] by (subst scan_left.simps) simp
qed

text \<open>The string \<open>w\<close> with its terminator at \<open>a\<close>.\<close>

definition holds_str :: "bytes \<Rightarrow> int \<Rightarrow> u8 list \<Rightarrow> bool" where
  "holds_str m a w \<longleftrightarrow> (\<forall>k < length w. m (a + int k) = w ! k) \<and> m (a + int (length w)) = 0 \<and> 0 \<notin> set w"

lemma holds_str_scan: "holds_str m a w \<Longrightarrow> scan_right m a = Some (a + int (length w))"
  by (rule scan_right_run) (auto simp: holds_str_def in_set_conv_nth)

lemma holds_str_load: "holds_str m a w \<Longrightarrow> load_str m a = Some w"
  using holds_str_scan [of m a w]
  by (auto simp: load_str_def bytes_between_def holds_str_def intro!: nth_equalityI)

lemma store_str_holds: "0 \<notin> set w \<Longrightarrow> holds_str (store_str a w m) a w"
  by (auto simp: holds_str_def store_str_def store_bytes_def nth_append)

section \<open>The history as a list\<close>

definition blob :: "u8 list list \<Rightarrow> u8 list" where "blob cs = concat (map (\<lambda>c. c @ [0]) cs)"
definition offs :: "u8 list list \<Rightarrow> nat \<Rightarrow> int" where "offs cs i = int (length (blob (take i cs)))"

lemma blob_simps [simp]: "blob [] = []" "blob (c # cs) = c @ 0 # blob cs" "blob (cs @ ds) = blob cs @ blob ds"
  by (simp_all add: blob_def)

lemma offs_simps [simp]: "offs cs 0 = 0" "i < length cs \<Longrightarrow> offs cs (Suc i) = offs cs i + int (length (cs ! i)) + 1"
  by (simp_all add: offs_def take_Suc_conv_app_nth)

lemma offs_append: "i \<le> length cs \<Longrightarrow> offs (cs @ ds) i = offs cs i"
  by (simp add: offs_def)

text \<open>
  The byte before the file's region is 0: the page there is not mapped until it is read, and the
  kernel then maps a page of zeros (\<^verbatim>\<open>passive_alloc\<close>).
\<close>

definition hist_ok :: "hist \<Rightarrow> u8 list list \<Rightarrow> bool" where
  "hist_ok h cs \<longleftrightarrow> hnum h = int (length cs) \<and> (\<forall>c \<in> set cs. c \<noteq> [] \<and> 0 \<notin> set c \<and> int (length c) < LINEBUF) \<and> hmem h (- 1) = 0 \<and>
     (\<forall>k < length (blob cs). hmem h (int k) = blob cs ! k) \<and>
     hoff h = int (length (blob cs)) \<and> hsize h = hoff h \<and> 0 \<notin> set (htmp h) \<and> int (length (htmp h)) < LINEBUF \<and>
     0 \<le> hp h \<and> hp h \<le> hnum h \<and> (cs \<noteq> [] \<longrightarrow> hva h = offs cs (nat (hp h)) - 1)"

lemma init_history_ok:
  "init_history c r h = Some h' \<Longrightarrow> hmem h (- 1) = 0 \<Longrightarrow> htmp h = [] \<Longrightarrow> hist_ok h' []"
  by (auto simp: init_history_def hist_ok_def LINEBUF_def split: if_splits)

lemma hist_command:
  assumes "hist_ok h cs" "i < length cs"
  shows "holds_str (hmem h) (offs cs i) (cs ! i)"
proof -
  have e: "blob cs = blob (take i cs) @ (cs ! i) @ 0 # blob (drop (Suc i) cs)"
    using blob_simps(2, 3) id_take_nth_drop [OF assms(2)] by metis
  have m: "hmem h (offs cs i + int k) = blob cs ! (length (blob (take i cs)) + k)"
    if "k \<le> length (cs ! i)" for k
  proof -
    have "length (blob (take i cs)) + k < length (blob cs)" using that by (subst e) simp
    then show ?thesis using assms(1) by (simp add: hist_ok_def offs_def flip: of_nat_add)
  qed
  have "blob cs ! (length (blob (take i cs)) + k) = ((cs ! i) @ [0]) ! k" if "k \<le> length (cs ! i)" for k
    using that by (subst e) (simp add: nth_append)
  then show ?thesis using m assms by (auto simp: holds_str_def hist_ok_def nth_append)
qed

lemma hist_fits: "hist_ok h cs \<Longrightarrow> i < length cs \<Longrightarrow> int (length (cs ! i)) < LINEBUF"
  by (auto simp: hist_ok_def)

lemma hist_before: "hist_ok h cs \<Longrightarrow> i \<le> length cs \<Longrightarrow> hmem h (offs cs i - 1) = 0"
proof (cases i)
  case (Suc j)
  assume "hist_ok h cs" "i \<le> length cs"
  then show ?thesis using hist_command [of h cs j] Suc by (simp add: holds_str_def)
qed (simp add: hist_ok_def)

lemma hist_back:
  assumes h: "hist_ok h cs" and i: "i < length cs"
  shows "scan_left (hmem h) (offs cs (Suc i) - 1 - 1) = Some (offs cs i - 1)"
proof -
  let ?w = "cs ! i"
  note c = hist_command [OF h i]
  have "hmem h (offs cs (Suc i) - 1 - 1 - int k) \<noteq> 0" if "k < length ?w" for k
  proof -
    have "hmem h (offs cs i + int (length ?w - 1 - k)) = ?w ! (length ?w - 1 - k)"
      using c [unfolded holds_str_def, THEN conjunct1, rule_format, of "length ?w - 1 - k"] that by linarith
    moreover have "?w ! (length ?w - 1 - k) \<in> set ?w" using that by simp
    moreover have "offs cs i + int (length ?w - 1 - k) = offs cs (Suc i) - 1 - 1 - int k" using that i by simp
    ultimately show ?thesis using c unfolding holds_str_def by metis
  qed
  moreover have "offs cs (Suc i) - 1 - 1 - int (length ?w) = offs cs i - 1" using i by simp
  ultimately show ?thesis
    using scan_left_run [of "length ?w" "hmem h" "offs cs (Suc i) - 1 - 1"] hist_before [OF h, of i] i by simp
qed

lemma last_history_step:
  assumes h: "hist_ok h cs" and p: "0 < hp h" and b: "load_str buf 0 = Some w" "0 \<notin> set w" "int (length w) < LINEBUF"
  shows "\<exists>h'. last_history h buf = Some (1, h', store_str 0 (cs ! nat (hp h - 1)) buf) \<and> hist_ok h' cs \<and>
    hp h' = hp h - 1 \<and> htmp h' = (if hp h = hnum h then w else htmp h)"
proof -
  define i where "i = nat (hp h - 1)"
  have i: "i < length cs" "nat (hp h) = Suc i" "hp h - 1 = int i" "cs \<noteq> []"
    using h p by (auto simp: i_def hist_ok_def)
  have va: "hva h = offs cs (Suc i) - 1" using h i by (simp add: hist_ok_def)
  let ?h = "h\<lparr>htmp := if hp h = hnum h then w else htmp h, hp := hp h - 1, hva := offs cs i - 1\<rparr>"
  have "last_history h buf = Some (1, ?h, store_str 0 (cs ! i) buf)"
    using p b hist_back [OF h i(1)] holds_str_load [OF hist_command [OF h i(1)]] hist_fits [OF h i(1)]
    by (simp add: last_history_def va copy_tmp_def set_line_def)
  moreover have "hist_ok ?h cs" using h i b(2,3) unfolding hist_ok_def by auto
  ultimately show ?thesis by (simp add: i_def)
qed

lemma next_history_step:
  assumes h: "hist_ok h cs" and p: "hp h + 1 < hnum h"
  shows "\<exists>h'. next_history h buf = Some (1, h', store_str 0 (cs ! nat (hp h + 1)) buf) \<and> hist_ok h' cs \<and>
    hp h' = hp h + 1 \<and> htmp h' = htmp h"
proof -
  define i where "i = nat (hp h)"
  have i: "Suc i < length cs" "nat (hp h + 1) = Suc i" "hp h = int i" "cs \<noteq> []"
    using h p by (auto simp: i_def hist_ok_def)
  have va: "hva h = offs cs i - 1" using h i by (simp add: hist_ok_def)
  have s: "scan_right (hmem h) (offs cs i) = Some (offs cs (Suc i) - 1)"
    using holds_str_scan [OF hist_command [OF h, of i]] i(1) by simp
  let ?h = "h\<lparr>hp := hp h + 1, hva := offs cs (Suc i) - 1\<rparr>"
  have "next_history h buf = Some (1, ?h, store_str 0 (cs ! Suc i) buf)"
    using p s holds_str_load [OF hist_command [OF h i(1)]] hist_fits [OF h i(1)]
    by (simp add: next_history_def va set_line_def)
  moreover have "hist_ok ?h cs" using h i unfolding hist_ok_def by auto
  ultimately show ?thesis by (simp add: i(2))
qed

lemma add_history_step:
  assumes h: "hist_ok h cs" and w: "w \<noteq> []" "0 \<notin> set w" "int (length w) < LINEBUF" and fit: "int (length (blob cs)) + int (length w) + 1 \<le> MAXHIST"
  shows "\<exists>h'. add_history w h = Some h' \<and> hist_ok h' (cs @ [w]) \<and> hp h' = hnum h'"
proof -
  let ?off = "int (length (blob cs)) + int (length w) + 1"
  let ?h = "h\<lparr>hmem := store_str (hoff h) w (hmem h), hoff := ?off, hsize := ?off,
          hnum := hnum h + 1, hp := hnum h + 1, hva := ?off - 1, htmp := []\<rparr>"
  have o: "hoff h = int (length (blob cs))" "hsize h = hoff h" using h by (simp_all add: hist_ok_def)
  have "add_history w h = Some ?h" using w(1) fit o by (simp add: add_history_def Let_def max_def)
  moreover have "hist_ok ?h (cs @ [w])"
  proof -
    have "store_str (hoff h) w (hmem h) (int k) = blob (cs @ [w]) ! k" if "k < length (blob (cs @ [w]))" for k
      using that h o by (auto simp: store_str_def store_bytes_def hist_ok_def nth_append nat_diff_distrib)
    moreover have "offs (cs @ [w]) (nat (hnum h + 1)) = ?off" using h by (simp add: hist_ok_def offs_def nat_add_distrib)
    ultimately show ?thesis
      using h w o by (auto simp: hist_ok_def store_str_def store_bytes_def)
  qed
  ultimately show ?thesis by auto
qed

section \<open>The line as the text before and behind the cursor\<close>

lemma shift_left_eq:
  "0 \<le> a \<Longrightarrow> b \<le> LINEBUF \<Longrightarrow> shift_left a b m = Some (\<lambda>j. if a \<le> j \<and> j < b then m (j + 1) else m j)"
proof (induction "nat (b - a)" arbitrary: a m)
  case 0
  then show ?case by (auto simp: shift_left_def intro!: ext)
next
  case (Suc d)
  then have "shift_left a b m = shift_left (a + 1) b (m(a := m (a + 1)))"
    by (simp add: shift_left_def copy_char_def set_char_def upto_rec1)
  also have "\<dots> = Some (\<lambda>j. if a \<le> j \<and> j < b then m (j + 1) else m j)"
    using Suc.hyps(1) [of "a + 1" "m(a := m (a + 1))"] Suc.hyps(2) Suc.prems by (auto intro!: ext)
  finally show ?case .
qed

lemma shift_right_eq:
  "0 \<le> a \<Longrightarrow> b < LINEBUF \<Longrightarrow> shift_right a b m = Some (\<lambda>j. if a \<le> j \<and> j \<le> b then m (j - 1) else m j)"
proof (induction "nat (b + 1 - a)" arbitrary: b m)
  case 0
  then show ?case by (auto simp: shift_right_def intro!: ext)
next
  case (Suc d)
  then have "shift_right a b m = shift_right a (b - 1) (m(b := m (b - 1)))"
    by (simp add: shift_right_def copy_char_def set_char_def upto_rec2)
  also have "\<dots> = Some (\<lambda>j. if a \<le> j \<and> j \<le> b then m (j - 1) else m j)"
    using Suc.hyps(1) [of "b - 1" "m(b := m (b - 1))"] Suc.hyps(2) Suc.prems by (auto intro!: ext)
  finally show ?case .
qed

text \<open>Where the code stores outside \<^verbatim>\<open>buf\<close>: Back in front of the text, and one character too many.\<close>

lemma copy_char_None: "fold (\<lambda>j. copy_char j (f j)) js None = None"
  by (induction js) (simp_all add: copy_char_def)

lemma key_back_outside: "ei e = 0 \<Longrightarrow> 0 < en e \<Longrightarrow> key_back e = None"
  by (simp add: key_back_def shift_left_def upto_rec1 [of "- 1"] copy_char_def [of "- 1"] set_char_def copy_char_None)

lemma key_insert_outside: "0 \<le> ei e \<Longrightarrow> ei e \<le> en e \<Longrightarrow> en e = LINEBUF - 1 \<Longrightarrow> key_insert c e = None"
  by (simp add: key_insert_def shift_right_eq set_char_def)

text \<open>
  What the user means: the text before and behind the cursor, the commands entered before, the
  place in them (their number when it is the line being typed), the line kept while a command is
  shown, and whether that line has been brought back by Down.
\<close>

record screen =
  before :: "u8 list"
  behind :: "u8 list"
  cmds :: "u8 list list"
  place :: nat
  draft :: "u8 list"
  again :: bool

definition typed :: "screen \<Rightarrow> u8 list" where "typed s = before s @ behind s"

definition prompt :: "u8 list list \<Rightarrow> screen" where
  "prompt cs = \<lparr>before = [], behind = [], cmds = cs, place = length cs, draft = [], again = False\<rparr>"

datatype key = Char u8 | Back | Left | Right | Up | Down

fun key_code :: "key \<Rightarrow> u8 list" where
  "key_code (Char c) = [c]"
| "key_code Back = [0x7F]"
| "key_code Left = [27, 0x5B, 0x44]"
| "key_code Right = [27, 0x5B, 0x43]"
| "key_code Down = [27, 0x5B, 0x42]"
| "key_code Up = [27, 0x5B, 0x41]"

definition show_text :: "u8 list \<Rightarrow> u8 list \<Rightarrow> screen \<Rightarrow> screen" where
  "show_text l r s = s\<lparr>before := l, behind := r\<rparr>"

fun edit :: "key \<Rightarrow> screen \<Rightarrow> screen" where
  "edit (Char c) s = show_text (before s @ [c]) (behind s) s"
| "edit Back s = (if before s = [] then s else show_text (butlast (before s)) (behind s) s)"
| "edit Left s = (if before s = [] then s
     else show_text (butlast (before s)) (last (before s) # behind s) s)"
| "edit Right s = (if behind s = [] then s
     else show_text (before s @ [hd (behind s)]) (tl (behind s)) s)"
| "edit Up s = (if place s = 0 then s
     else show_text (cmds s ! (place s - 1)) []
       (s\<lparr>draft := if place s = length (cmds s) then typed s else draft s, place := place s - 1\<rparr>))"
| "edit Down s =
     (if place s = length (cmds s) then s
      else if Suc (place s) = length (cmds s) then show_text (draft s) [] (s\<lparr>place := Suc (place s), again := True\<rparr>)
      else show_text (cmds s ! Suc (place s)) [] (s\<lparr>place := Suc (place s)\<rparr>))"

text \<open>
  The keys for which the code does that: a character that fits into the buffer with its terminator;
  Back where there is a character before the cursor, or none at all (otherwise the code stores
  before \<^verbatim>\<open>buf\<close>); Up and Down until Down has brought the line being typed back (then \<^verbatim>\<open>p\<close> is one too
  small), which must not be empty (the code may have kept the line entered before).
\<close>

fun handled :: "key \<Rightarrow> screen \<Rightarrow> bool" where
  "handled (Char c) s = (c \<notin> {0, 8, 10, 13, 27, 0x7F} \<and> int (length (typed s)) + 1 < LINEBUF)"
| "handled Back s = (before s \<noteq> [] \<or> behind s = [])"
| "handled Up s = (\<not> again s)"
| "handled Down s = (\<not> again s \<and> (Suc (place s) = length (cmds s) \<longrightarrow> draft s \<noteq> []))"
| "handled _ s = True"

fun edits :: "key list \<Rightarrow> screen \<Rightarrow> screen option" where
  "edits [] s = Some s"
| "edits (k # ks) s = (if handled k s then edits ks (edit k s) else None)"

text \<open>The buffer holds the text, or, while there is none, some string, such as the line before.\<close>

definition holds_line :: "bytes \<Rightarrow> u8 list \<Rightarrow> bool" where
  "holds_line m l \<longleftrightarrow> (\<exists>w. holds_str m 0 w \<and> int (length w) < LINEBUF \<and> (l \<noteq> [] \<longrightarrow> w = l))"

definition displays :: "editor \<Rightarrow> screen \<Rightarrow> bool" where
  "displays e s \<longleftrightarrow> ei e = int (length (before s)) \<and> en e = int (length (typed s)) \<and>
     holds_line (ebuf e) (typed s) \<and> hist_ok (ehist e) (cmds s) \<and> place s \<le> length (cmds s) \<and>
     (again s \<longrightarrow> place s = length (cmds s)) \<and>
     hp (ehist e) = (if again s then int (place s) - 1 else int (place s)) \<and>
     (place s < length (cmds s) \<and> draft s \<noteq> [] \<longrightarrow> htmp (ehist e) = draft s)"

definition ready :: "editor \<Rightarrow> u8 list list \<Rightarrow> bool" where
  "ready e cs \<longleftrightarrow> hist_ok (ehist e) cs \<and> hp (ehist e) = hnum (ehist e) \<and> holds_line (ebuf e) []"

lemma ready_prompt: "ready e cs \<Longrightarrow> displays (e\<lparr>ei := 0, en := 0\<rparr>) (prompt cs)"
  by (simp add: ready_def displays_def prompt_def typed_def hist_ok_def)

lemma holds_lineI:
  "(\<And>k. k < length l \<Longrightarrow> m (int k) = l ! k) \<Longrightarrow> m (int (length l)) = 0 \<Longrightarrow> 0 \<notin> set l \<Longrightarrow>
    int (length l) < LINEBUF \<Longrightarrow> holds_line m l"
  unfolding holds_line_def holds_str_def by (intro exI [of _ l]) simp

lemma holds_lineD:
  assumes "holds_line m l"
  shows "k < length l \<Longrightarrow> m (int k) = l ! k" "0 \<notin> set l" "int (length l) < LINEBUF"
  using assms by (cases "l = []"; auto simp: holds_line_def holds_str_def LINEBUF_def)+

lemma displays_mem: "displays e s \<Longrightarrow> k < length (typed s) \<Longrightarrow> ebuf e (int k) = typed s ! k"
  by (simp add: displays_def holds_lineD)

lemma displays_mem_Suc: "displays e s \<Longrightarrow> Suc k < length (typed s) \<Longrightarrow> ebuf e (int k + 1) = typed s ! Suc k"
  using displays_mem [of e s "Suc k"] by (simp add: add.commute)

lemma displays_line: "displays e s \<Longrightarrow> 0 \<notin> set (typed s) \<and> int (length (typed s)) < LINEBUF"
  unfolding displays_def using holds_lineD(2,3) by blast

lemma emit_simps [simp]:
  "ebuf (emit w e) = ebuf e" "ei (emit w e) = ei e" "en (emit w e) = en e" "ehist (emit w e) = ehist e"
  by (simp_all add: emit_def)

lemma show_text_simps [simp]:
  "before (show_text l r s) = l" "behind (show_text l r s) = r" "typed (show_text l r s) = l @ r"
  "cmds (show_text l r s) = cmds s" "place (show_text l r s) = place s" "draft (show_text l r s) = draft s"
  "again (show_text l r s) = again s"
  by (simp_all add: show_text_def typed_def)

lemma displays_text:
  assumes "displays e s" "ehist e' = ehist e" "ei e' = int (length l)" "en e' = int (length (l @ r))"
    "holds_line (ebuf e') (l @ r)"
  shows "displays e' (show_text l r s)"
  using assms by (simp add: displays_def)

lemma key_insert_displays:
  assumes s: "displays e s" and c: "handled (Char c) s"
  shows "\<exists>e'. key_insert c e = Some e' \<and> displays e' (edit (Char c) s)"
proof -
  let ?l = "before s" and ?r = "behind s"
  let ?m = "((\<lambda>j. if ei e \<le> j \<and> j \<le> en e then ebuf e (j - 1) else ebuf e j)(ei e := c))(en e + 1 := 0)"
  have n: "ei e = int (length ?l)" "en e = int (length ?l + length ?r)" "en e + 1 < LINEBUF"
    using s c by (simp_all add: displays_def typed_def)
  obtain e' where e': "key_insert c e = Some e'" "ehist e' = ehist e" "ei e' = ei e + 1" "en e' = en e + 1" "ebuf e' = ?m"
    using n by (simp add: key_insert_def shift_right_eq set_char_def Let_def)
  have "?m (int k) = (?l @ c # ?r) ! k" if "k < length (?l @ c # ?r)" for k
  proof (cases "k \<le> length ?l")
    case True
    then show ?thesis using n that displays_mem [OF s, of k] by (auto simp: nth_append typed_def)
  next
    case False
    then have "int k - 1 = int (k - 1)" by simp
    then show ?thesis using False n that displays_mem [OF s, of "k - 1"] by (auto simp: nth_append nth_Cons' typed_def)
  qed
  then have "holds_line ?m (?l @ c # ?r)"
    by (rule holds_lineI) (use n c displays_line [OF s] in \<open>auto simp: typed_def\<close>)
  then have "displays e' (show_text (?l @ [c]) ?r s)"
    by (intro displays_text [OF s e'(2)]) (simp_all add: e'(3-5) n(1,2))
  then show ?thesis using e'(1) by simp
qed

lemma key_back_displays:
  assumes s: "displays e s" and k: "handled Back s"
  shows "\<exists>e'. key_back e = Some e' \<and> displays e' (edit Back s)"
proof (cases "before s = []")
  case True
  then have "ei e = 0" "en e = 0" using s k by (simp_all add: displays_def typed_def)
  then show ?thesis using s True by (simp add: key_back_def shift_left_def)
next
  case False
  then obtain xs x where l: "before s = xs @ [x]" using rev_exhaust by blast
  let ?r = "behind s"
  let ?m = "(\<lambda>j. if ei e - 1 \<le> j \<and> j < en e - 1 then ebuf e (j + 1) else ebuf e j)(en e - 1 := 0)"
  have n: "ei e = int (length xs) + 1" "en e = int (length xs + length ?r) + 1" "en e < LINEBUF"
    using s l displays_line [OF s] by (simp_all add: displays_def typed_def)
  obtain e' where e': "key_back e = Some e'" "ehist e' = ehist e" "ei e' = ei e - 1" "en e' = en e - 1" "ebuf e' = ?m"
    using n by (simp add: key_back_def shift_left_eq set_char_def Let_def)
  have "?m (int k) = (xs @ ?r) ! k" if k: "k < length (xs @ ?r)" for k
  proof (cases "k < length xs")
    case True
    then show ?thesis using n l displays_mem [OF s, of k] by (auto simp: nth_append typed_def)
  next
    case False
    then show ?thesis using n k l displays_mem_Suc [OF s, of k] by (simp add: nth_append Suc_diff_le typed_def)
  qed
  then have "holds_line ?m (xs @ ?r)"
    by (rule holds_lineI) (use n l displays_line [OF s] in \<open>auto simp: typed_def\<close>)
  then have "displays e' (show_text xs ?r s)"
    by (intro displays_text [OF s e'(2)]) (simp_all add: e'(3-5) n(1,2))
  then show ?thesis using e'(1) l by simp
qed

lemma key_left_displays: "displays e s \<Longrightarrow> displays (key_left e) (edit Left s)"
  by (cases "before s" rule: rev_cases) (auto simp: displays_def key_left_def typed_def)

lemma key_right_displays: "displays e s \<Longrightarrow> displays (key_right e) (edit Right s)"
  by (cases "behind s") (auto simp: displays_def key_right_def typed_def)

lemma show_line_displays:
  assumes "ebuf e = store_str 0 w m" "0 \<notin> set w" "int (length w) < LINEBUF"
    "displays (e\<lparr>ei := int (length w), en := int (length w)\<rparr>) (show_text w [] s)"
  shows "\<exists>e'. show_line e = Some e' \<and> displays e' (show_text w [] s)"
  using assms holds_str_load [OF store_str_holds [of w 0 m]]
  by (simp add: show_line_def displays_def)

lemma holds_line_store: "0 \<notin> set w \<Longrightarrow> int (length w) < LINEBUF \<Longrightarrow> holds_line (store_str 0 w m) w"
  using store_str_holds [of w 0 m] by (auto simp: holds_line_def)

lemma hist_ok_no_zero: "hist_ok h cs \<Longrightarrow> i < length cs \<Longrightarrow> 0 \<notin> set (cs ! i)"
  by (auto simp: hist_ok_def)

lemma key_up_displays:
  assumes s: "displays e s" and k: "handled Up s"
  shows "\<exists>e'. key_up e = Some e' \<and> displays e' (edit Up s)"
proof (cases "place s = 0")
  case True
  then show ?thesis using s k by (simp add: key_up_def last_history_def displays_def)
next
  case False
  note h = s [unfolded displays_def]
  obtain w where w: "holds_str (ebuf e) 0 w" "int (length w) < LINEBUF" "typed s \<noteq> [] \<longrightarrow> w = typed s" "0 \<notin> set w"
    using h unfolding holds_line_def holds_str_def by blast
  let ?c = "cmds s ! (place s - 1)" and ?d = "if place s = length (cmds s) then typed s else draft s"
  have n: "hnum (ehist e) = int (length (cmds s))" "hp (ehist e) = int (place s)" "place s - 1 < length (cmds s)"
    "hist_ok (ehist e) (cmds s)" using h k False by (auto simp: hist_ok_def)
  have p: "int (place s) - 1 = int (place s - 1)" using False by auto
  obtain h' where l: "last_history (ehist e) (ebuf e) = Some (1, h', store_str 0 ?c (ebuf e))"
    "hist_ok h' (cmds s)" "hp h' = int (place s - 1)" "htmp h' = (if place s = length (cmds s) then w else htmp (ehist e))"
    using last_history_step [OF n(4) _ holds_str_load [OF w(1)] w(4,2), unfolded n(1,2) p nat_int of_nat_eq_iff] False
    by fastforce
  note c = hist_ok_no_zero [OF l(2) n(3)] hist_fits [OF l(2) n(3)]
  let ?s = "s\<lparr>draft := ?d, place := place s - 1\<rparr>"
  let ?e = "emit [0x1B, 0x5B, 0x42] (e\<lparr>ehist := h', ebuf := store_str 0 ?c (ebuf e)\<rparr>)"
  have "?d \<noteq> [] \<longrightarrow> htmp h' = ?d"
  proof (cases "place s = length (cmds s)")
    case True
    then show ?thesis using l(4) w(3) by simp
  next
    case False
    then have "place s < length (cmds s)" using h by simp
    then show ?thesis using False l(4) h by simp
  qed
  then have "displays (?e\<lparr>ei := int (length ?c), en := int (length ?c)\<rparr>) (show_text ?c [] ?s)"
    unfolding displays_def using l(2,3) h k holds_line_store [OF c] less_imp_le [OF n(3)] by simp
  then have "\<exists>e'. show_line ?e = Some e' \<and> displays e' (show_text ?c [] ?s)"
    by (intro show_line_displays [OF _ c]) simp_all
  then show ?thesis using False by (simp add: key_up_def l(1) split del: if_split)
qed

lemma key_down_displays:
  assumes s: "displays e s" and k: "handled Down s"
  shows "\<exists>e'. key_down e = Some e' \<and> displays e' (edit Down s)"
proof -
  note h = s [unfolded displays_def]
  have n: "hnum (ehist e) = int (length (cmds s))" "hp (ehist e) = int (place s)" using h k by (simp_all add: hist_ok_def)
  consider "place s = length (cmds s)" | "Suc (place s) = length (cmds s)" | "Suc (place s) < length (cmds s)"
    using h by linarith
  then show ?thesis
  proof cases
    case 1
    then show ?thesis using s n by (simp add: key_down_def next_history_def)
  next
    case 2
    then have d: "htmp (ehist e) = draft s" using h k by simp
    have c: "0 \<notin> set (draft s)" "int (length (draft s)) < LINEBUF" using h d by (auto simp: hist_ok_def)
    have "\<exists>e'. show_line (e\<lparr>ebuf := store_str 0 (draft s) (ebuf e)\<rparr>) = Some e' \<and>
        displays e' (show_text (draft s) [] (s\<lparr>place := Suc (place s), again := True\<rparr>))"
      by (rule show_line_displays [OF _ c]) (use h n 2 holds_line_store [OF c] in \<open>auto simp: displays_def\<close>)
    then show ?thesis using 2 n c d by (simp add: key_down_def next_history_def set_line_def)
  next
    case 3
    obtain h' where l: "next_history (ehist e) (ebuf e) = Some (1, h', store_str 0 (cmds s ! Suc (place s)) (ebuf e))"
      "hist_ok h' (cmds s)" "hp h' = int (Suc (place s))" "htmp h' = htmp (ehist e)"
      using next_history_step [of "ehist e" "cmds s" "ebuf e"] h 3 n by (auto simp: nat_add_distrib)
    note c = hist_ok_no_zero [OF l(2) 3] hist_fits [OF l(2) 3]
    have "\<exists>e'. show_line (e\<lparr>ehist := h', ebuf := store_str 0 (cmds s ! Suc (place s)) (ebuf e)\<rparr>) = Some e' \<and>
        displays e' (show_text (cmds s ! Suc (place s)) [] (s\<lparr>place := Suc (place s)\<rparr>))"
      by (rule show_line_displays [OF _ c]) (use l h k 3 holds_line_store [OF c] in \<open>auto simp: displays_def\<close>)
    then show ?thesis using l 3 by (simp add: key_down_def)
  qed
qed

section \<open>Editing a line\<close>

lemma readline_key:
  assumes s: "displays e s" and k: "handled k s"
  shows "\<exists>e'. readline_loop LINEBUF (key_code k @ input) e = readline_loop LINEBUF input e' \<and> displays e' (edit k s)"
proof -
  have n: "ei e < LINEBUF" using displays_line [OF s] s by (simp add: displays_def typed_def)
  show ?thesis
  proof (cases k)
    case (Char c)
    then obtain e' where "key_insert c e = Some e'" "displays e' (edit k s)" using key_insert_displays [OF s] k by blast
    then show ?thesis using k n Char by (subst readline_loop.simps) (auto simp: BS_def)
  next
    case Back
    then obtain e' where "key_back e = Some e'" "displays e' (edit k s)" using key_back_displays [OF s] k by blast
    then show ?thesis using n Back by (subst readline_loop.simps) auto
  next
    case Left
    then show ?thesis using n key_left_displays [OF s] by (subst readline_loop.simps) (auto simp: BS_def key_escape_def)
  next
    case Right
    then show ?thesis using n key_right_displays [OF s] by (subst readline_loop.simps) (auto simp: BS_def key_escape_def)
  next
    case Up
    then obtain e' where "key_up e = Some e'" "displays e' (edit k s)" using key_up_displays [OF s] k by blast
    then show ?thesis using n Up by (subst readline_loop.simps) (auto simp: BS_def key_escape_def)
  next
    case Down
    then obtain e' where "key_down e = Some e'" "displays e' (edit k s)" using key_down_displays [OF s] k by blast
    then show ?thesis using n Down by (subst readline_loop.simps) (auto simp: BS_def key_escape_def)
  qed
qed

lemma readline_keys:
  "displays e s \<Longrightarrow> edits ks s = Some s' \<Longrightarrow>
    \<exists>e'. readline_loop LINEBUF (concat (map key_code ks) @ input) e = readline_loop LINEBUF input e' \<and> displays e' s'"
proof (induction ks arbitrary: e s)
  case Nil
  then show ?case by auto
next
  case (Cons k ks)
  then have k: "handled k s" and r: "edits ks (edit k s) = Some s'" by (auto split: if_splits)
  obtain e1 where e1: "readline_loop LINEBUF (key_code k @ concat (map key_code ks) @ input) e =
      readline_loop LINEBUF (concat (map key_code ks) @ input) e1" "displays e1 (edit k s)"
    using readline_key [OF Cons.prems(1) k] by blast
  then show ?case using Cons.IH [OF e1(2) r] by auto
qed

lemma edit_cmds: "cmds (edit k s) = cmds s"
  by (cases k) simp_all

lemma edits_cmds: "edits ks s = Some s' \<Longrightarrow> cmds s' = cmds s"
  by (induction ks arbitrary: s) (auto simp: edit_cmds split: if_splits)

lemma end_line_ready:
  assumes s: "displays e s" and w: "typed s = [] \<longrightarrow> place s = length (cmds s) \<and> \<not> again s"
    and fit: "int (length (blob (cmds s)) + length (typed s)) + 1 \<le> MAXHIST"
  shows "\<exists>e'. end_line e = Some e' \<and> load_str (ebuf e') 0 = Some (typed s) \<and>
    ready e' (if typed s = [] then cmds s else cmds s @ [typed s])"
proof -
  let ?w = "typed s" and ?m = "(ebuf e)(en e := 0)"
  note h = s [unfolded displays_def] displays_line [OF s]
  have m: "holds_str ?m 0 ?w" using h displays_mem [OF s] by (auto simp: holds_str_def)
  have l: "set_char (en e) 0 (ebuf e) = Some ?m" using h by (simp add: set_char_def)
  have b: "holds_line ?m []" using m h by (auto simp: holds_line_def)
  show ?thesis
  proof (cases "?w = []")
    case True
    then show ?thesis using h w l b holds_str_load [OF m]
      by (simp add: end_line_def add_history_def ready_def hist_ok_def)
  next
    case False
    obtain h' where "add_history ?w (ehist e) = Some h'" "hist_ok h' (cmds s @ [?w])" "hp h' = hnum h'"
      using add_history_step [of "ehist e" "cmds s" ?w] h False fit by auto
    then show ?thesis using l b holds_str_load [OF m] False by (simp add: end_line_def ready_def)
  qed
qed

text \<open>
  C38. The line editor computes what its user means. From a prompt where the history holds the
  commands \<open>cs\<close>, the characters, Back, Left, Right, Up and Down keys \<open>ks\<close>, all of them keys that the
  code handles (\<open>handled\<close>: no Back in front of the text, no line longer than the buffer, no Up or
  Down after Down has brought the line being typed back), and Return give the line that \<open>edit\<close>
  computes on the text before and behind the cursor, where Up and Down walk through the commands
  and keep the line being typed. No store leaves \<^verbatim>\<open>buf\<close> or \<^verbatim>\<open>tmp\<close>; the line is in the buffer, is added to the history
  unless it is empty, nothing more of the input is read, and the prompt is ready for the next line.
  An empty line must be entered at the newest place, since it leaves the place as it is.
\<close>

theorem readline_edits:
  assumes "ready e cs" "edits ks (prompt cs) = Some s"
    "typed s = [] \<longrightarrow> place s = length cs \<and> \<not> again s"
    "int (length (blob cs) + length (typed s)) + 1 \<le> MAXHIST"
  shows "\<exists>e'. readline LINEBUF (concat (map key_code ks) @ 13 # input) e = Some (Got e' input) \<and>
    load_str (ebuf e') 0 = Some (typed s) \<and> ready e' (if typed s = [] then cs else cs @ [typed s])"
proof -
  have c: "cmds s = cs" using edits_cmds [OF assms(2)] by (simp add: prompt_def)
  from readline_keys [OF ready_prompt [OF assms(1)] assms(2)] obtain e1 where
    e1: "readline LINEBUF (concat (map key_code ks) @ 13 # input) e = readline_loop LINEBUF (13 # input) e1"
      "displays e1 s"
    unfolding readline_def by blast
  have "ei e1 < LINEBUF" using displays_line [OF e1(2)] e1(2) by (simp add: displays_def typed_def)
  then have "readline_loop LINEBUF (13 # input) e1 = map_option (\<lambda>e. Got e input) (end_line e1)"
    by (subst readline_loop.simps) (simp add: BS_def)
  then show ?thesis using e1(1) end_line_ready [OF e1(2)] assms(3,4) unfolding c by auto
qed

text \<open>
  In front of the one command \<^verbatim>\<open>p\<close>: \<^verbatim>\<open>x\<close>, Up, Left, \<^verbatim>\<open>c\<close>, \<^verbatim>\<open>d\<close>, Back, Return.
\<close>

theorem readline_edits_witness:
  "\<exists>e'. readline LINEBUF [120, 27, 0x5B, 0x41, 27, 0x5B, 0x44, 99, 100, 0x7F, 13]
      \<lparr>ebuf = (\<lambda>_. 0), ei = 5, en = 9, ehist = \<lparr>hp = 1, hnum = 1, hva = 1, htmp = [],
        hmem = (\<lambda>j. if j = 0 then 112 else 0), hsize = 2, hoff = 2\<rparr>, eout = []\<rparr> = Some (Got e' []) \<and>
    load_str (ebuf e') 0 = Some [99, 112] \<and> ready e' [[112], [99, 112]]"
proof -
  let ?ks = "[Char 120, Up, Left, Char 99, Char 100, Back]"
  let ?s = "\<lparr>before = [99], behind = [112], cmds = [[112]], place = 0, draft = [120], again = False\<rparr>"
  let ?e = "\<lparr>ebuf = (\<lambda>_. 0), ei = 5, en = 9, ehist = \<lparr>hp = 1, hnum = 1, hva = 1, htmp = [],
        hmem = (\<lambda>j. if j = 0 then 112 else 0), hsize = 2, hoff = 2\<rparr>, eout = []\<rparr>"
  have "ready ?e [[112]]"
    by (auto simp: ready_def holds_line_def holds_str_def hist_ok_def offs_def less_Suc_eq LINEBUF_def
        intro: exI [of _ "[]"])
  moreover have "edits ?ks (prompt [[112]]) = Some ?s" by (simp add: prompt_def show_text_def typed_def LINEBUF_def)
  moreover have t: "typed ?s = [99, 112]" by (simp add: typed_def)
  moreover have "int (length (blob [[112]]) + length (typed ?s)) + 1 \<le> MAXHIST" by (simp add: MAXHIST_def t)
  ultimately show ?thesis using readline_edits [of ?e "[[112]]" ?ks ?s "[]"] by simp
qed

end
