(* ===== verification/Output.thy ===== *)
theory Output
  imports Print Env
begin

text \<open>
  What is done with formatted text: \<^verbatim>\<open>kern/printk.c\<close>, \<^verbatim>\<open>user/lib/debugf.c\<close> and \<^verbatim>\<open>user/lib/fprintf.c\<close>. Each passes a
  callback to \<^verbatim>\<open>vprintfmt\<close>; here it runs over the chunks of \<open>Print\<close>, in order. A format that C leaves
  undefined stops the program.
\<close>

definition ascii :: "string \<Rightarrow> u8 list" where "ascii s = map of_char s"
definition NL :: u8 where "NL = 0x0A"

definition with_format :: "bytes \<Rightarrow> u8 list \<Rightarrow> u32 list \<Rightarrow> (chunks \<Rightarrow> ('s, 'a) kprog) \<Rightarrow> ('s, 'a) kprog" where
  "with_format m fmt args f = (case vprintfmt m fmt args of None \<Rightarrow> panicK ''undefined'' | Some cs \<Rightarrow> f cs)"

section \<open>The kernel\<close>

definition printcharc :: "u8 \<Rightarrow> (kstate, unit) kprog" where
  "printcharc c = modifyK (\<lambda>s. s\<lparr>console := console s @ [c]\<rparr>)"

definition outputk :: "u8 list \<Rightarrow> (kstate, unit) kprog" where
  "outputk w = forK w printcharc"

definition printk :: "bytes \<Rightarrow> u8 list \<Rightarrow> u32 list \<Rightarrow> (kstate, unit) kprog" where
  "printk m fmt args = with_format m fmt args (\<lambda>cs. forK cs outputk)"

definition print_tf :: "bytes \<Rightarrow> trapframe \<Rightarrow> (kstate, unit) kprog" where
  "print_tf m tf =
     seqK (forK [0..<32] (\<lambda>i. printk m (ascii ''$%2d = %08x'' @ [NL]) [of_nat i, tf_regs tf i]))
    (seqK (printk m (ascii ''HI  = %08x'' @ [NL]) [tf_hi tf])
    (seqK (printk m (ascii ''LO  = %08x'' @ [NL, NL]) [tf_lo tf])
    (seqK (printk m (ascii ''CP0.SR    = %08x'' @ [NL]) [tf_status tf])
    (seqK (printk m (ascii ''CP0.BadV  = %08x'' @ [NL]) [tf_badvaddr tf])
    (seqK (printk m (ascii ''CP0.Cause = %08x'' @ [NL]) [tf_cause tf])
          (printk m (ascii ''CP0.EPC   = %08x'' @ [NL]) [tf_epc tf]))))))"

definition do_reserved :: "bytes \<Rightarrow> trapframe \<Rightarrow> (kstate, unit) kprog" where
  "do_reserved m tf = seqK (print_tf m tf) (panicK ''Unknown ExcCode'')"

text \<open>
  \<^verbatim>\<open>_panic\<close> of \<^verbatim>\<open>kern/panic.c\<close>, with the registers that its assembler reads as arguments. \<open>file\<close>, \<open>func\<close> and
  \<open>fmt\<close> are the caller's; the frame 0 stands for a null \<^verbatim>\<open>cur_pgdir\<close>. Pointers of the model are always valid, so
  that the lines for invalid ones are never printed.
\<close>

definition env_kva :: "kstate \<Rightarrow> nat \<Rightarrow> u32" where
  "env_kva s e = envs_kva s + of_nat e * sizeof_Env"

definition kern_panic :: "bytes \<Rightarrow> u32 \<Rightarrow> u32 \<Rightarrow> u32 \<Rightarrow> u8 list \<Rightarrow> u32 list \<Rightarrow> u32 \<Rightarrow> u32 \<Rightarrow> u32 \<Rightarrow> u32 \<Rightarrow> u32 \<Rightarrow> u32 \<Rightarrow> (kstate, 'a) kprog" where
  "kern_panic m file line func fmt args sp0 ra badva sr cause epc =
     seqK (printk m (ascii ''panic at %s:%d (%s): '') [file, line, func])
    (seqK (printk m fmt args)
    (seqK (printk m (NL # ascii ''ra:    %08x  sp:  %08x  Status: %08x'' @ [NL] @
                     ascii ''Cause: %08x  EPC: %08x  BadVA:  %08x'' @ [NL]) [ra, sp0, sr, cause, epc, badva])
    (seqK (bindK (getsK (\<lambda>s. (curenv s, s))) (\<lambda>(c, s). case c of
             Some e \<Rightarrow> printk m (ascii ''curenv:    %x (id = 0x%x, off = %d)'' @ [NL]) [env_kva s e, env_id (envs s e), of_nat e]
           | None \<Rightarrow> printk m (ascii ''curenv:    NULL'' @ [NL]) []))
    (seqK (bindK (getsK cur_pgdir) (\<lambda>d.
             if d \<noteq> 0 then printk m (ascii ''cur_pgdir: %x'' @ [NL]) [page2pa d + ULIM]
             else printk m (ascii ''cur_pgdir: NULL'' @ [NL]) []))
          (panicK ''halt'')))))"

section \<open>Messages of user programs\<close>

text \<open>
  \<^verbatim>\<open>struct debug_ctx\<close> at the address \<open>a\<close>, and what the kernel has printed. \<^verbatim>\<open>syscall_print_cons\<close> refuses
  ranges outside user memory; the panic that follows prints again, and so never ends.
\<close>

record debug_ctx =
  dbuf :: "u8 list"
  dpos :: u32
  dcons :: "u8 list"

definition BUF_LEN :: u32 where "BUF_LEN = 1024"

definition put_at :: "nat \<Rightarrow> u8 list \<Rightarrow> u8 list \<Rightarrow> u8 list" where
  "put_at p w b = take p b @ w @ drop (p + length w) b"

definition debug_copy :: "u8 list \<Rightarrow> (debug_ctx, unit) kprog" where
  "debug_copy w = modifyK (\<lambda>s. s\<lparr>dbuf := put_at (unat (dpos s)) w (dbuf s)\<rparr>)"

definition set_dpos :: "u32 \<Rightarrow> (debug_ctx, unit) kprog" where
  "set_dpos p = modifyK (\<lambda>s. s\<lparr>dpos := p\<rparr>)"

definition debug_flush :: "u32 \<Rightarrow> (debug_ctx, unit) kprog" where
  "debug_flush a = bindK (getsK dpos) (\<lambda>pos.
     if pos = 0 then retK ()
     else if UTOP < a + pos \<or> UTOP \<le> a \<or> a + pos < a then panicK ''syscall_print_cons''
     else seqK (modifyK (\<lambda>s. s\<lparr>dcons := dcons s @ take (unat pos) (dbuf s)\<rparr>)) (set_dpos 0))"

text \<open>
  The loop of \<^verbatim>\<open>debug_output\<close>: its first turn may only empty a full buffer, every later one takes
  \<open>BUF_LEN\<close> bytes, so that two turns more than the chunk has bytes are enough.
\<close>

primrec debug_loop :: "nat \<Rightarrow> u32 \<Rightarrow> u8 list \<Rightarrow> (debug_ctx, unit) kprog" where
  "debug_loop 0 a w = panicK ''out of fuel''"
| "debug_loop (Suc k) a w = bindK (getsK dpos) (\<lambda>pos.
     if pos + of_nat (length w) > BUF_LEN then
       let n = BUF_LEN - pos in
       seqK (debug_copy (take (unat n) w))
      (seqK (set_dpos BUF_LEN)
      (seqK (debug_flush a)
            (debug_loop k a (drop (unat n) w))))
     else seqK (debug_copy w) (set_dpos (pos + of_nat (length w))))"

definition debug_output :: "u32 \<Rightarrow> u8 list \<Rightarrow> (debug_ctx, unit) kprog" where
  "debug_output a w = debug_loop (length w + 2) a w"

definition vdebugf :: "u32 \<Rightarrow> bytes \<Rightarrow> u8 list \<Rightarrow> u32 list \<Rightarrow> (debug_ctx, unit) kprog" where
  "vdebugf a m fmt args =
     seqK (set_dpos 0)
    (seqK (with_format m fmt args (\<lambda>cs. forK cs (debug_output a)))
          (debug_flush a))"

text \<open>\<^verbatim>\<open>_user_panic\<close> and \<^verbatim>\<open>_user_halt\<close> differ in their first word and how they end, which is \<open>k\<close>.\<close>

definition user_stop :: "string \<Rightarrow> u32 \<Rightarrow> bytes \<Rightarrow> u32 \<Rightarrow> u32 \<Rightarrow> u8 list \<Rightarrow> u32 list \<Rightarrow> (debug_ctx, 'a) kprog \<Rightarrow>
    (debug_ctx, 'a) kprog" where
  "user_stop what a m file line fmt args k =
     seqK (vdebugf a m (ascii (what @ '' at %s:%d: '')) [file, line])
    (seqK (vdebugf a m fmt args)
    (seqK (vdebugf a m [NL] []) k))"

definition user_panic :: "u32 \<Rightarrow> bytes \<Rightarrow> u32 \<Rightarrow> u32 \<Rightarrow> u8 list \<Rightarrow> u32 list \<Rightarrow> (debug_ctx, 'a) kprog" where
  "user_panic a m file line fmt args = user_stop ''panic'' a m file line fmt args awayK"

definition user_halt :: "u32 \<Rightarrow> bytes \<Rightarrow> u32 \<Rightarrow> u32 \<Rightarrow> u8 list \<Rightarrow> u32 list \<Rightarrow> (debug_ctx, 'a) kprog" where
  "user_halt a m file line fmt args = user_stop ''halt'' a m file line fmt args (panicK ''user halt'')"

section \<open>Printing to a descriptor\<close>

text \<open>\<open>wr\<close> is \<^verbatim>\<open>write\<close> on the descriptor; the second argument of \<open>print_output\<close> is \<^verbatim>\<open>ctx->ret\<close>.\<close>

type_synonym 's writer = "u8 list \<Rightarrow> ('s, int) kprog"

definition print_output :: "'s writer \<Rightarrow> u8 list \<Rightarrow> int \<Rightarrow> ('s, int) kprog" where
  "print_output wr w ret =
     (if ret < 0 then retK ret
      else bindK (wr w) (\<lambda>r. if r < 0 then retK r else retK (ret + r)))"

primrec print_chunks :: "'s writer \<Rightarrow> chunks \<Rightarrow> int \<Rightarrow> ('s, int) kprog" where
  "print_chunks wr [] ret = retK ret"
| "print_chunks wr (w # ws) ret = bindK (print_output wr w ret) (print_chunks wr ws)"

definition vfprintf :: "'s writer \<Rightarrow> bytes \<Rightarrow> u8 list \<Rightarrow> u32 list \<Rightarrow> ('s, int) kprog" where
  "vfprintf wr m fmt args = with_format m fmt args (\<lambda>cs. print_chunks wr cs 0)"

end
