(* ===== verification/Output_Thms.thy ===== *)
theory Output_Thms
  imports Output
begin

text \<open>
  The kernel's and the user's ways of printing deliver the same bytes, however the text is cut into
  chunks and whatever the buffer's length is.
\<close>

section \<open>The buffer of debugf\<close>

text \<open>What has been printed or waits in the buffer.\<close>

definition emitted :: "debug_ctx \<Rightarrow> u8 list" where
  "emitted s = dcons s @ take (unat (dpos s)) (dbuf s)"

definition dctx_ok :: "u32 \<Rightarrow> debug_ctx \<Rightarrow> bool" where
  "dctx_ok a s \<longleftrightarrow> length (dbuf s) = 1024 \<and> unat (dpos s) \<le> 1024 \<and> unat a + 1024 \<le> unat UTOP"

lemma put_at_simps [simp]:
  "p + length w \<le> length b \<Longrightarrow> length (put_at p w b) = length b"
  "p \<le> length b \<Longrightarrow> take (p + length w) (put_at p w b) = take p b @ w"
  by (simp_all add: put_at_def)

lemma in_user_memory:
  assumes "dctx_ok a s" "unat p \<le> 1024"
  shows "\<not> UTOP < a + p" "p \<noteq> 0 \<longrightarrow> \<not> UTOP \<le> a" "\<not> a + p < a"
proof -
  have u: "unat a + 1024 \<le> 2134900736" using assms(1) by (simp add: dctx_ok_def layout_defs PDMAP_def)
  then have "unat (a + p) = unat a + unat p" using assms(2) by (simp add: unat_plus_if')
  then show "\<not> UTOP < a + p" "p \<noteq> 0 \<longrightarrow> \<not> UTOP \<le> a" "\<not> a + p < a"
    using u assms(2) by (simp_all add: word_less_nat_alt word_le_nat_alt layout_defs PDMAP_def)
qed

lemma debug_flush_run:
  assumes "dctx_ok a s"
  shows "\<exists>t. debug_flush a s = Done () t \<and> dctx_ok a t \<and> dpos t = 0 \<and> dcons t = emitted s"
  using assms in_user_memory [OF assms, of "dpos s"]
  by (cases "dpos s = 0") (auto simp: debug_flush_def set_dpos_def run_rules emitted_def dctx_ok_def)

lemma debug_loop_run:
  "dctx_ok a s \<Longrightarrow> length w < 2 ^ 32 - 1024 \<Longrightarrow> length w + (if dpos s = BUF_LEN then 1 else 0) < k \<Longrightarrow>
    \<exists>t. debug_loop k a w s = Done () t \<and> dctx_ok a t \<and> emitted t = emitted s @ w"
proof (induction k arbitrary: w s)
  case 0
  then show ?case by simp
next
  case (Suc k)
  let ?pos = "dpos s" and ?n = "BUF_LEN - dpos s"
  have pos: "unat ?pos \<le> 1024" and b: "length (dbuf s) = 1024" using Suc.prems(1) by (simp_all add: dctx_ok_def)
  have n: "unat ?n = 1024 - unat ?pos"
    using pos by (simp add: BUF_LEN_def unat_sub word_le_nat_alt)
  have sum: "unat (?pos + of_nat (length w)) = unat ?pos + length w"
    using pos Suc.prems(2) by (intro unat_add_nat) simp
  show ?case
  proof (cases "?pos + of_nat (length w) > BUF_LEN")
    case True
    then have l: "unat ?pos + length w > 1024" by (simp add: word_less_nat_alt sum BUF_LEN_def)
    let ?w = "take (unat ?n) w"
    let ?s = "s\<lparr>dbuf := put_at (unat ?pos) ?w (dbuf s), dpos := BUF_LEN\<rparr>"
    have lw: "unat ?pos + length ?w = 1024" using l n pos by simp
    then have "take 1024 (put_at (unat ?pos) ?w (dbuf s)) = take (unat ?pos) (dbuf s) @ ?w"
      using put_at_simps(2) [of "unat ?pos" "dbuf s" ?w] b pos unfolding lw by simp
    then have e: "dctx_ok a ?s" "emitted ?s = emitted s @ ?w"
      using Suc.prems(1) lw b n [unfolded BUF_LEN_def] by (simp_all add: dctx_ok_def emitted_def BUF_LEN_def)
    obtain t where t: "debug_flush a ?s = Done () t" "dctx_ok a t" "dpos t = 0" "dcons t = emitted ?s"
      using debug_flush_run [OF e(1)] by blast
    have "unat ?n = 0 \<longleftrightarrow> ?pos = BUF_LEN" using n pos by (simp add: BUF_LEN_def word_unat_eq_iff)
    then have "length (drop (unat ?n) w) + (if dpos t = BUF_LEN then 1 else 0) < k"
      using Suc.prems(3) l t(3) n pos by (auto simp: BUF_LEN_def split: if_splits)
    moreover have "length (drop (unat ?n) w) < 2 ^ 32 - 1024" using Suc.prems(2) by simp
    ultimately obtain u where
      "debug_loop k a (drop (unat ?n) w) t = Done () u" "dctx_ok a u" "emitted u = emitted t @ drop (unat ?n) w"
      using Suc.IH [OF t(2)] by blast
    moreover have "emitted t = emitted s @ ?w" using t(3, 4) e(2) by (simp add: emitted_def)
    ultimately show ?thesis
      using True t(1) by (simp add: run_rules Let_def debug_copy_def set_dpos_def)
  next
    case False
    then have l: "unat ?pos + length w \<le> 1024" by (simp add: word_less_nat_alt sum BUF_LEN_def not_less)
    then show ?thesis
      using False Suc.prems(1) sum pos b
      by (simp add: run_rules debug_copy_def set_dpos_def dctx_ok_def emitted_def)
  qed
qed

lemma debug_output_run:
  "dctx_ok a s \<Longrightarrow> length w < 2 ^ 32 - 1024 \<Longrightarrow>
    \<exists>t. debug_output a w s = Done () t \<and> dctx_ok a t \<and> emitted t = emitted s @ w"
  unfolding debug_output_def by (rule debug_loop_run) auto

lemma debug_outputs_run:
  "dctx_ok a s \<Longrightarrow> \<forall>w \<in> set ws. length w < 2 ^ 32 - 1024 \<Longrightarrow>
    \<exists>t. forK ws (debug_output a) s = Done () t \<and> dctx_ok a t \<and> emitted t = emitted s @ concat ws"
proof (induction ws arbitrary: s)
  case Nil
  then show ?case by (simp add: run_rules)
next
  case (Cons w ws)
  then obtain t where t: "debug_output a w s = Done () t" "dctx_ok a t" "emitted t = emitted s @ w"
    using debug_output_run [of a s w] by auto
  then show ?case using Cons.IH [OF t(2)] Cons.prems(2) by (auto simp: run_rules)
qed

lemma vdebugf_run:
  assumes "vprintfmt m fmt args = Some cs" "dctx_ok a s" "\<forall>w \<in> set cs. length w < 2 ^ 32 - 1024"
  shows "\<exists>t. vdebugf a m fmt args s = Done () t \<and> dctx_ok a t \<and> dpos t = 0 \<and> dcons t = dcons s @ concat cs"
proof -
  have "dctx_ok a (s\<lparr>dpos := 0\<rparr>)" "emitted (s\<lparr>dpos := 0\<rparr>) = dcons s"
    using assms(2) by (simp_all add: dctx_ok_def emitted_def)
  then obtain t where t: "forK cs (debug_output a) (s\<lparr>dpos := 0\<rparr>) = Done () t" "dctx_ok a t"
      "emitted t = dcons s @ concat cs"
    using debug_outputs_run [of a "s\<lparr>dpos := 0\<rparr>" cs] assms(3) by auto
  then show ?thesis using debug_flush_run [OF t(2)] assms(1)
    by (auto simp: vdebugf_def with_format_def set_dpos_def run_rules)
qed

section \<open>The kernel's console\<close>

lemma outputk_run: "outputk w s = Done () (s\<lparr>console := console s @ w\<rparr>)"
  unfolding outputk_def
  by (induction w arbitrary: s) (simp_all add: run_rules printcharc_def)

lemma printk_run:
  "vprintfmt m fmt args = Some cs \<Longrightarrow> printk m fmt args s = Done () (s\<lparr>console := console s @ concat cs\<rparr>)"
proof -
  have "forK cs outputk s = Done () (s\<lparr>console := console s @ concat cs\<rparr>)" for cs
    by (induction cs arbitrary: s) (simp_all add: run_rules outputk_run)
  moreover assume "vprintfmt m fmt args = Some cs"
  ultimately show ?thesis by (simp add: printk_def with_format_def)
qed

section \<open>Descriptors that take all bytes\<close>

text \<open>\<open>sent\<close> is what the descriptor was given; \<open>fits\<close> says which pieces it takes at once.\<close>

locale text_sink =
  fixes wr :: "'s writer" and sent :: "'s \<Rightarrow> u8 list" and ready :: "'s \<Rightarrow> bool" and fits :: "u8 list \<Rightarrow> bool"
  assumes sink_write: "ready s \<Longrightarrow> fits w \<Longrightarrow>
    \<exists>t. wr w s = Done (int (length w)) t \<and> sent t = sent s @ w \<and> ready t"
begin

lemma print_chunks_sent:
  "ready s \<Longrightarrow> \<forall>w \<in> set cs. fits w \<Longrightarrow> 0 \<le> r \<Longrightarrow>
    \<exists>t. print_chunks wr cs r s = Done (r + int (length (concat cs))) t \<and> sent t = sent s @ concat cs \<and> ready t"
proof (induction cs arbitrary: r s)
  case Nil
  then show ?case by (simp add: run_rules)
next
  case (Cons w ws)
  obtain t where t: "wr w s = Done (int (length w)) t" "sent t = sent s @ w" "ready t"
    using sink_write [of s w] Cons.prems by auto
  have o: "print_output wr w r s = Done (r + int (length w)) t"
    using t(1) Cons.prems(3) by (simp add: print_output_def run_rules)
  show ?case
    using Cons.IH [OF t(3), of "r + int (length w)"] Cons.prems(2, 3) t(2) o by (auto simp: run_rules add.assoc)
qed

lemma vfprintf_sent:
  "vprintfmt m fmt args = Some cs \<Longrightarrow> ready s \<Longrightarrow> \<forall>w \<in> set cs. fits w \<Longrightarrow>
    \<exists>t. vfprintf wr m fmt args s = Done (int (length (concat cs))) t \<and> sent t = sent s @ concat cs \<and> ready t"
  using print_chunks_sent [of s cs 0] by (simp add: vfprintf_def with_format_def)

end


section \<open>All three deliver the same\<close>

text \<open>
  C39. For every format, \<^verbatim>\<open>printk\<close> in the kernel and \<^verbatim>\<open>debugf\<close> in a process deliver the same bytes to the
  console, namely the formatted text, although \<^verbatim>\<open>debugf\<close> passes them on in pieces of its buffer of 1024
  bytes, whatever the chunks are; nothing is left in the buffer.
\<close>

theorem debugf_prints_as_printk:
  assumes "vprintfmt m fmt args = Some cs" "\<forall>w \<in> set cs. length w < 2 ^ 32 - 1024"
    "unat a + 1024 \<le> unat UTOP" "length (dbuf d) = 1024" "unat (dpos d) \<le> 1024"
  shows "\<exists>d'. vdebugf a m fmt args d = Done () d' \<and> dpos d' = 0 \<and> dcons d' = dcons d @ concat cs \<and>
    printk m fmt args s = Done () (s\<lparr>console := console s @ concat cs\<rparr>)"
  using vdebugf_run [OF assms(1), of a d] assms printk_run [OF assms(1)] by (auto simp: dctx_ok_def)

text \<open>A format with a character, printed with a buffer whose old contents are \<open>x\<close>.\<close>

theorem debugf_prints_as_printk_witness:
  "\<forall>s. \<exists>d'. vdebugf 0x7F3FD000 (\<lambda>_. 0) [0x61, 0x25, 0x33, 0x63] [0x62]
      \<lparr>dbuf = replicate 1024 0x78, dpos = 7, dcons = [0x21]\<rparr> = Done () d' \<and> dpos d' = 0 \<and>
    dcons d' = [0x21, 0x61, 0x20, 0x20, 0x62] \<and>
    printk (\<lambda>_. 0) [0x61, 0x25, 0x33, 0x63] [0x62] s = Done () (s\<lparr>console := console s @ [0x61, 0x20, 0x20, 0x62]\<rparr>)"
proof -
  have "scan_conv [0x33, 0x63] = (\<lparr>c_ladjust = False, c_padc = sp, c_width = 3, c_long = False\<rparr>, [0x63])"
    by (simp add: scan_conv_def skip_if_def is_digit_def)
  then have "vprintfmt (\<lambda>_. 0) [0x61, 0x25, 0x33, 0x63] [0x62] = Some [[0x61], [0x20], [0x20], [0x62]]"
    by (simp add: vprintfmt.simps print_conv_def print_char_def numeral_3_eq_3)
  note f = this
  let ?d = "\<lparr>dbuf = replicate 1024 0x78, dpos = 7, dcons = [0x21]\<rparr>"
  show ?thesis
  proof
    fix s
    show "\<exists>d'. vdebugf 0x7F3FD000 (\<lambda>_. 0) [0x61, 0x25, 0x33, 0x63] [0x62] ?d = Done () d' \<and> dpos d' = 0 \<and>
      dcons d' = [0x21, 0x61, 0x20, 0x20, 0x62] \<and>
      printk (\<lambda>_. 0) [0x61, 0x25, 0x33, 0x63] [0x62] s = Done () (s\<lparr>console := console s @ [0x61, 0x20, 0x20, 0x62]\<rparr>)"
      using debugf_prints_as_printk [OF f, where a = "0x7F3FD000" and d = ?d and s = s] by (simp add: layout_defs PDMAP_def)
  qed
qed

end
