(* ===== verification/Commands.thy ===== *)
theory Commands
  imports File Path Output
begin

text \<open>
  The commands of the shell: \<^verbatim>\<open>user/cat.c\<close>, \<^verbatim>\<open>num.c\<close>, \<^verbatim>\<open>echo.c\<close>, \<^verbatim>\<open>ls.c\<close>, \<^verbatim>\<open>tree.c\<close>, \<^verbatim>\<open>touch.c\<close>, \<^verbatim>\<open>mkdir.c\<close>,
  \<^verbatim>\<open>cd.c\<close>, \<^verbatim>\<open>pwd.c\<close> and \<^verbatim>\<open>history.c\<close>. The strings of \<^verbatim>\<open>argv\<close> are byte lists, without the command's
  name. \<open>wdir\<close> is the path that the kernel keeps, \<open>junk\<close> the first contents of the arrays that
  \<^verbatim>\<open>get_path\<close> leaves uninitialised. Buffers have their addresses as arguments, the texts of messages
  of \<^verbatim>\<open>user_panic\<close> are left out.
\<close>

record cmdproc = cproc +
  wdir :: "u8 list"
  junk :: "u8 list \<times> nat"

type_synonym 'a cmdM = "(cmdproc, 'a) kprog"
type_synonym cmddev = "cmdproc dev"
type_synonym cmdsrv = "(unit cmdproc_ext) cproc_ext server"

section \<open>Texts\<close>

primrec p_store_bytes :: "u8 list \<Rightarrow> u32 \<Rightarrow> ('x, unit) procM" where
  "p_store_bytes [] p = retK ()"
| "p_store_bytes (c # cs) p = seqK (p_stb p c) (p_store_bytes cs (p + 1))"

text \<open>\<^verbatim>\<open>printf\<close>, whose chunks lie at \<open>pb\<close> when they are written to descriptor 1.\<close>

definition write_text :: "('x uproc_scheme) dev list \<Rightarrow> u32 \<Rightarrow> 'x uproc_scheme writer" where
  "write_text devtab pb w = seqK (p_store_bytes w pb) (write_fd devtab 1 pb (of_nat (length w)))"

definition printf_chunks :: "('x uproc_scheme) dev list \<Rightarrow> u32 \<Rightarrow> chunks \<Rightarrow> ('x, int) procM" where
  "printf_chunks devtab pb cs = print_chunks (write_text devtab pb) cs 0"

definition say :: "('x uproc_scheme) dev list \<Rightarrow> u32 \<Rightarrow> chunks \<Rightarrow> ('x, unit) procM" where
  "say devtab pb cs = bindK (printf_chunks devtab pb cs) (\<lambda>_. retK ())"

text \<open>The characters of a format come one by one.\<close>

definition lit :: "string \<Rightarrow> chunks" where "lit s = map (\<lambda>c. [of_char c]) s"
definition newline :: chunks where "newline = [[NL]]"

text \<open>\<^verbatim>\<open>syscall_get_path\<close>, and \<^verbatim>\<open>get_path\<close>, which asks for it when the path is relative.\<close>

definition get_cwd :: "u8 list cmdM" where
  "get_cwd = seqK (modifyK (\<lambda>s. s\<lparr>wdir := (if wdir s = [] then [SLASH] else wdir s)\<rparr>)) (getsK wdir)"

definition abs_path :: "u8 list \<Rightarrow> u8 list cmdM" where
  "abs_path path =
     bindK (if path \<noteq> [] \<and> hd path = SLASH then retK [] else get_cwd) (\<lambda>cwd.
     bindK (getsK (\<lambda>s. get_path (fst (junk s)) (snd (junk s)) cwd path)) (\<lambda>r. case r of
       None \<Rightarrow> panicK ''get_path leaves its arrays'' | Some p \<Rightarrow> retK p))"

text \<open>A zero-terminated string in memory, at most \<open>n\<close> bytes.\<close>

primrec p_load_string :: "nat \<Rightarrow> u32 \<Rightarrow> ('x, u8 list) procM" where
  "p_load_string 0 p = panicK ''unterminated string''"
| "p_load_string (Suc n) p = bindK (p_ldb p) (\<lambda>c.
     if c = 0 then retK [] else bindK (p_load_string n (p + 1)) (\<lambda>cs. retK (c # cs)))"

section \<open>cat\<close>

text \<open>The loop turns until the input ends, so its turns are limited by an argument.\<close>

definition CATBUF :: u32 where "CATBUF = 8192"

primrec cat :: "nat \<Rightarrow> ('x uproc_scheme) dev list \<Rightarrow> u32 \<Rightarrow> u32 \<Rightarrow> ('x, unit) procM" where
  "cat 0 devtab buf f = panicK ''out of fuel''"
| "cat (Suc k) devtab buf f = bindK (read devtab f buf CATBUF) (\<lambda>n.
     if n > 0 then bindK (write_fd devtab 1 buf (of_int n)) (\<lambda>r.
       if r \<noteq> n then panicK ''write error'' else cat k devtab buf f)
     else if n < 0 then panicK ''error reading'' else retK ())"

definition cat_file :: "nat \<Rightarrow> cmddev list \<Rightarrow> cmdsrv \<Rightarrow> u32 \<Rightarrow> u32 \<Rightarrow> u8 list \<Rightarrow> unit cmdM" where
  "cat_file k devtab srv fsipcbuf buf arg =
     bindK (abs_path arg) (\<lambda>newpath.
     bindK (open_path srv fsipcbuf newpath O_RDONLY) (\<lambda>f.
     if f < 0 then panicK ''can't open''
     else seqK (cat k devtab buf (of_int f)) (bindK (close devtab (of_int f)) (\<lambda>_. retK ()))))"

definition cat_main :: "nat \<Rightarrow> cmddev list \<Rightarrow> cmdsrv \<Rightarrow> u32 \<Rightarrow> u32 \<Rightarrow> u8 list list \<Rightarrow> unit cmdM" where
  "cat_main k devtab srv fsipcbuf buf args =
     (if args = [] then cat k devtab buf 0 else forK args (cat_file k devtab srv fsipcbuf buf))"

section \<open>num\<close>

text \<open>\<open>bol\<close> and \<open>line\<close> are the static variables of that name; the character read lies at \<open>cb\<close>.\<close>

primrec num :: "nat \<Rightarrow> ('x uproc_scheme) dev list \<Rightarrow> u32 \<Rightarrow> u32 \<Rightarrow> u32 \<Rightarrow> bool \<times> u32 \<Rightarrow> ('x, bool \<times> u32) procM" where
  "num 0 devtab pb cb f st = panicK ''out of fuel''"
| "num (Suc k) devtab pb cb f st = bindK (read devtab f cb 1) (\<lambda>n.
     if n > 0 then
       bindK (p_ldb cb) (\<lambda>c.
       let (bol, line) = st; line' = (if bol then line + 1 else line) in
       seqK (if bol then with_format (\<lambda>_. 0) (ascii ''%5d '') [line'] (say devtab pb) else retK ())
      (bindK (printf_chunks devtab pb [[c]]) (\<lambda>r.
       if r \<noteq> 1 then panicK ''write error'' else num k devtab pb cb f (c = NL, line'))))
     else if n < 0 then panicK ''error reading'' else retK st)"

primrec num_files :: "nat \<Rightarrow> ('x uproc_scheme) dev list \<Rightarrow> 'x server \<Rightarrow> u32 \<Rightarrow> u32 \<Rightarrow> u32 \<Rightarrow> u8 list list \<Rightarrow> bool \<times> u32 \<Rightarrow>
    ('x, bool \<times> u32) procM" where
  "num_files k devtab srv fsipcbuf pb cb [] st = retK st"
| "num_files k devtab srv fsipcbuf pb cb (a # as) st =
     bindK (open_path srv fsipcbuf a O_RDONLY) (\<lambda>f.
     if f < 0 then panicK ''can't open''
     else bindK (num k devtab pb cb (of_int f) st) (\<lambda>st'.
          bindK (close devtab (of_int f)) (\<lambda>_. num_files k devtab srv fsipcbuf pb cb as st')))"

definition num_main :: "nat \<Rightarrow> ('x uproc_scheme) dev list \<Rightarrow> 'x server \<Rightarrow> u32 \<Rightarrow> u32 \<Rightarrow> u32 \<Rightarrow> u8 list list \<Rightarrow>
    ('x, bool \<times> u32) procM" where
  "num_main k devtab srv fsipcbuf pb cb args =
     (if args = [] then num k devtab pb cb 0 (True, 0)
      else num_files k devtab srv fsipcbuf pb cb args (True, 0))"

section \<open>echo\<close>

definition echo_words :: "('x uproc_scheme) dev list \<Rightarrow> u32 \<Rightarrow> u8 list list \<Rightarrow> ('x, unit) procM" where
  "echo_words devtab pb args = forK [0..<length args] (\<lambda>i.
     seqK (if i > 0 then say devtab pb (lit '' '') else retK ()) (say devtab pb [args ! i]))"

definition echo_main :: "('x uproc_scheme) dev list \<Rightarrow> u32 \<Rightarrow> u8 list list \<Rightarrow> ('x, unit) procM" where
  "echo_main devtab pb args =
     (let nflag = (args \<noteq> [] \<and> hd args = ascii ''-n'');
          args' = (if nflag then tl args else args) in
      seqK (echo_words devtab pb args') (if nflag then retK () else say devtab pb newline))"

section \<open>ls\<close>

type_synonym flags = "u8 \<Rightarrow> nat"

text \<open>\<^verbatim>\<open>ARGBEGIN ... ARGEND\<close>; \<open>None\<close> is an option that does not exist.\<close>

fun ls_letters :: "flags \<Rightarrow> u8 list \<Rightarrow> flags option" where
  "ls_letters fl [] = Some fl"
| "ls_letters fl (c # cs) =
     (if c = of_char CHR ''d'' \<or> c = of_char CHR ''F'' \<or> c = of_char CHR ''l''
      then ls_letters (fl(c := fl c + 1)) cs else None)"

fun ls_args :: "flags \<Rightarrow> u8 list list \<Rightarrow> (flags \<times> u8 list list) option" where
  "ls_args fl [] = Some (fl, [])"
| "ls_args fl (a # as) =
     (if a = [] \<or> hd a \<noteq> of_char CHR ''-'' \<or> tl a = [] then Some (fl, a # as)
      else if a = ascii ''--'' then Some (fl, as)
      else Option.bind (ls_letters fl (tl a)) (\<lambda>fl'. ls_args fl' as))"

definition ls1 :: "flags \<Rightarrow> ('x uproc_scheme) dev list \<Rightarrow> u32 \<Rightarrow> u8 list option \<Rightarrow> bool \<Rightarrow> u32 \<Rightarrow> u8 list \<Rightarrow>
    ('x, unit) procM" where
  "ls1 fl devtab pb prefix isdir sz name =
     seqK (if fl (of_char CHR ''l'') \<noteq> 0
           then with_format (\<lambda>_. 0) (ascii ''%11d %c '') [sz, of_char (if isdir then CHR ''d'' else CHR ''-'')]
                  (say devtab pb)
           else retK ())
    (seqK (case prefix of None \<Rightarrow> retK ()
           | Some p \<Rightarrow> say devtab pb [p, if p \<noteq> [] \<and> last p \<noteq> SLASH then [SLASH] else []])
    (seqK (say devtab pb [name])
    (seqK (if fl (of_char CHR ''F'') \<noteq> 0 \<and> isdir then say devtab pb (lit ''/'') else retK ())
          (say devtab pb (lit '' '')))))"

text \<open>A directory entry read to \<open>fa\<close>: its name, size and type.\<close>

definition BY2FILE :: u32 where "BY2FILE = 256"

definition entry :: "u32 \<Rightarrow> ('x, u8 list \<times> u32 \<times> u32) procM" where
  "entry fa = bindK (p_load_string 256 fa) (\<lambda>name. bindK (p_ldw (fa + 128)) (\<lambda>sz.
     bindK (p_ldw (fa + 132)) (\<lambda>ty. retK (name, sz, ty))))"

primrec lsdir_loop :: "nat \<Rightarrow> flags \<Rightarrow> ('x uproc_scheme) dev list \<Rightarrow> u32 \<Rightarrow> u32 \<Rightarrow> u8 list \<Rightarrow> u32 \<Rightarrow>
    ('x, unit) procM" where
  "lsdir_loop 0 fl devtab pb fa prefix fd = panicK ''out of fuel''"
| "lsdir_loop (Suc k) fl devtab pb fa prefix fd = bindK (readn devtab fd fa BY2FILE) (\<lambda>n.
     if n = int (unat BY2FILE) then
       bindK (entry fa) (\<lambda>(name, sz, ty).
       seqK (if name \<noteq> [] then ls1 fl devtab pb (Some prefix) (ty = 1) sz name else retK ())
            (lsdir_loop k fl devtab pb fa prefix fd))
     else if n > 0 then panicK ''short read in directory''
     else if n < 0 then panicK ''error reading directory''
     else retK ())"

definition lsdir :: "nat \<Rightarrow> flags \<Rightarrow> ('x uproc_scheme) dev list \<Rightarrow> 'x server \<Rightarrow> u32 \<Rightarrow> u32 \<Rightarrow> u32 \<Rightarrow> u8 list \<Rightarrow>
    u8 list \<Rightarrow> ('x, unit) procM" where
  "lsdir k fl devtab srv fsipcbuf pb fa path prefix =
     bindK (open_path srv fsipcbuf path O_RDONLY) (\<lambda>fd.
     if fd < 0 then panicK ''open'' else lsdir_loop k fl devtab pb fa prefix (of_int fd))"

text \<open>\<open>st\<close> is the address of the \<^verbatim>\<open>struct Stat\<close>.\<close>

definition ls :: "nat \<Rightarrow> flags \<Rightarrow> ('x uproc_scheme) dev list \<Rightarrow> 'x server \<Rightarrow> u32 \<Rightarrow> u32 \<Rightarrow> u32 \<Rightarrow> u32 \<Rightarrow> u8 list \<Rightarrow>
    u8 list \<Rightarrow> ('x, unit) procM" where
  "ls k fl devtab srv fsipcbuf pb fa st path prefix =
     bindK (stat_path devtab srv fsipcbuf path st) (\<lambda>r.
     if r < 0 then panicK ''stat''
     else bindK (p_ldw (st + 132)) (\<lambda>isdir. bindK (p_ldw (st + 128)) (\<lambda>sz.
       if isdir \<noteq> 0 \<and> fl (of_char CHR ''d'') = 0 then lsdir k fl devtab srv fsipcbuf pb fa path prefix
       else ls1 fl devtab pb None (isdir \<noteq> 0) sz path)))"

definition ls_main :: "nat \<Rightarrow> cmddev list \<Rightarrow> cmdsrv \<Rightarrow> u32 \<Rightarrow> u32 \<Rightarrow> u32 \<Rightarrow> u32 \<Rightarrow> u8 list list \<Rightarrow> unit cmdM" where
  "ls_main k devtab srv fsipcbuf pb fa st args =
     (case ls_args (\<lambda>_. 0) args of
        None \<Rightarrow> seqK (say devtab pb (lit ''usage: ls [-dFl] [file...]'' @ newline)) (seqK (close_all devtab) awayK)
      | Some (fl, files) \<Rightarrow>
          seqK (if files = [] then bindK get_cwd (\<lambda>path. ls k fl devtab srv fsipcbuf pb fa st path [])
                else forK files (\<lambda>arg. bindK (abs_path arg) (\<lambda>newpath.
                  seqK (say devtab pb (newpath # newline)) (ls k fl devtab srv fsipcbuf pb fa st newpath arg))))
               (say devtab pb newline))"

section \<open>tree\<close>

definition BAR_SPACES :: "u8 list" where "BAR_SPACES = [0xE2, 0x94, 0x82, 0x20, 0x20, 0x20]"
definition TEE :: "u8 list" where "TEE = [0xE2, 0x94, 0x9C, 0xE2, 0x94, 0x80, 0xE2, 0x94, 0x80, 0x20]"

definition BLUE :: "u8 list" where "BLUE = 0x1B # ascii ''[34m''"
definition PLAIN :: "u8 list" where "PLAIN = 0x1B # ascii ''[0m''"

definition chars :: "u8 list \<Rightarrow> chunks" where "chars w = map (\<lambda>c. [c]) w"

definition say_times :: "nat \<Rightarrow> ('x uproc_scheme) dev list \<Rightarrow> u32 \<Rightarrow> u8 list \<Rightarrow> ('x, unit) procM" where
  "say_times n devtab pb w = forK [0..<n] (\<lambda>_. say devtab pb (chars w))"

text \<open>The path of an entry, in an array of \<^verbatim>\<open>MAXNAMELEN\<close> bytes.\<close>

definition child_path :: "u8 list \<Rightarrow> u8 list \<Rightarrow> u8 list option" where
  "child_path path name =
     (let p = (if last path = SLASH then butlast path else path) @ SLASH # name in
      if path = [] \<or> 128 \<le> length path \<or> 128 \<le> length p then None else Some p)"

text \<open>
  The entry that every level reads lies at \<open>fa\<close>; its fields are taken out before the next level
  starts. The turns of the loops and the depth are limited together by the first argument.
\<close>

fun tree :: "nat \<Rightarrow> ('x uproc_scheme) dev list \<Rightarrow> 'x server \<Rightarrow> u32 \<Rightarrow> u32 \<Rightarrow> u32 \<Rightarrow> u8 list \<Rightarrow> nat \<Rightarrow> u8 list \<Rightarrow>
      ('x, unit) procM"
  and tree_loop :: "nat \<Rightarrow> ('x uproc_scheme) dev list \<Rightarrow> 'x server \<Rightarrow> u32 \<Rightarrow> u32 \<Rightarrow> u32 \<Rightarrow> u8 list \<Rightarrow> nat \<Rightarrow> u32 \<Rightarrow>
      ('x, unit) procM" where
  "tree k devtab srv fsipcbuf pb fa path depth name =
     seqK (say_times (depth - 1) devtab pb BAR_SPACES)
    (seqK (if depth \<noteq> 0 then say devtab pb (chars TEE) else retK ())
    (seqK (say devtab pb (chars BLUE))
    (seqK (say devtab pb (name # newline))
    (seqK (say devtab pb (chars PLAIN))
    (bindK (open_path srv fsipcbuf path O_RDONLY) (\<lambda>fd.
     if fd < 0 then panicK ''open''
     else seqK (tree_loop k devtab srv fsipcbuf pb fa path depth (of_int fd))
               (bindK (close devtab (of_int fd)) (\<lambda>_. retK ()))))))))"
| "tree_loop 0 devtab srv fsipcbuf pb fa path depth fd = panicK ''out of fuel''"
| "tree_loop (Suc k) devtab srv fsipcbuf pb fa path depth fd =
     bindK (readn devtab fd fa BY2FILE) (\<lambda>n.
     if n \<noteq> int (unat BY2FILE) then retK ()
     else bindK (entry fa) (\<lambda>(name, sz, ty).
       seqK (if name = [] then retK ()
             else if ty = 1 then (case child_path path name of
                 None \<Rightarrow> panicK ''newpath overflows''
               | Some newpath \<Rightarrow> tree k devtab srv fsipcbuf pb fa newpath (depth + 1) name)
             else seqK (say_times depth devtab pb BAR_SPACES) (say devtab pb (chars TEE @ name # newline)))
            (tree_loop k devtab srv fsipcbuf pb fa path depth fd)))"

definition tree_main :: "nat \<Rightarrow> cmddev list \<Rightarrow> cmdsrv \<Rightarrow> u32 \<Rightarrow> u32 \<Rightarrow> u32 \<Rightarrow> u8 list list \<Rightarrow> unit cmdM" where
  "tree_main k devtab srv fsipcbuf pb fa args =
     (if args = [] then
        bindK get_cwd (\<lambda>path. seqK (tree k devtab srv fsipcbuf pb fa path 0 [DOT]) (say devtab pb newline))
      else forK args (\<lambda>arg. bindK (abs_path arg) (\<lambda>newpath.
        seqK (tree k devtab srv fsipcbuf pb fa newpath 0 arg) (say devtab pb newline))))"

section \<open>touch, mkdir, cd, pwd\<close>

text \<open>\<^verbatim>\<open>touch\<close> and \<^verbatim>\<open>mkdir\<close> differ in the type and in two texts.\<close>

definition make_entry :: "u32 \<Rightarrow> string \<Rightarrow> string \<Rightarrow> cmddev list \<Rightarrow> cmdsrv \<Rightarrow> u32 \<Rightarrow> u32 \<Rightarrow> u8 list list \<Rightarrow> int cmdM" where
  "make_entry ty fails exists devtab srv fsipcbuf pb args =
     (case args of
        [arg] \<Rightarrow>
          bindK (abs_path arg) (\<lambda>newpath.
          bindK (open_path srv fsipcbuf newpath O_RDONLY) (\<lambda>fd.
          seqK (if fd < 0 then bindK (create_path srv fsipcbuf newpath ty) (\<lambda>r.
                  if r < 0 then say devtab pb (lit fails @ newline) else retK ())
                else say devtab pb (lit exists @ newline))
               (bindK (close devtab (of_int fd)) (\<lambda>_. retK 0))))
      | _ \<Rightarrow> seqK (say devtab pb (lit ''error argc'' @ newline)) (retK (- 1)))"

definition touch_main :: "cmddev list \<Rightarrow> cmdsrv \<Rightarrow> u32 \<Rightarrow> u32 \<Rightarrow> u8 list list \<Rightarrow> int cmdM" where
  "touch_main = make_entry 0 ''can't creat a file'' ''file exits''"

definition mkdir_main :: "cmddev list \<Rightarrow> cmdsrv \<Rightarrow> u32 \<Rightarrow> u32 \<Rightarrow> u8 list list \<Rightarrow> int cmdM" where
  "mkdir_main = make_entry 1 ''can't creat a dir'' ''dir exits''"

definition cd_main :: "cmddev list \<Rightarrow> cmdsrv \<Rightarrow> u32 \<Rightarrow> u32 \<Rightarrow> u8 list list \<Rightarrow> unit cmdM" where
  "cd_main devtab srv fsipcbuf pb args =
     (case args of
        [arg] \<Rightarrow>
          bindK (abs_path arg) (\<lambda>newpath.
          bindK (open_path srv fsipcbuf newpath O_RDONLY) (\<lambda>r.
          if r < 0 then say devtab pb (newpath # lit '' not exist'' @ newline)
          else modifyK (\<lambda>s. s\<lparr>wdir := newpath\<rparr>)))
      | _ \<Rightarrow> say devtab pb (lit ''error argc'' @ newline))"

definition pwd_main :: "cmddev list \<Rightarrow> u32 \<Rightarrow> u8 list list \<Rightarrow> unit cmdM" where
  "pwd_main devtab pb args =
     seqK (if args \<noteq> [] then say devtab pb (lit ''err argc'' @ newline) else retK ())
    (bindK get_cwd (\<lambda>path.
     if length path = 1 then say devtab pb (lit ''/ '' @ newline)
     else say devtab pb (butlast path # newline)))"

section \<open>history\<close>

definition history_main :: "('x uproc_scheme) dev list \<Rightarrow> 'x server \<Rightarrow> u32 \<Rightarrow> u32 \<Rightarrow> ('x, unit) procM" where
  "history_main devtab srv fsipcbuf pb =
     bindK (open_path srv fsipcbuf (ascii ''.history'') O_RDONLY) (\<lambda>fdnum.
     if fdnum < 0 then panicK ''filed to find .history''
     else
       let fd = num2fd (of_int fdnum); data = fd2data fd in
       bindK (p_ldw (ff_size fd)) (\<lambda>n.
       seqK (forK [0..<(if data < data + n then unat n else 0)] (\<lambda>i.
               bindK (p_ldb (data + of_nat i)) (\<lambda>c.
               if c \<noteq> 0 then say devtab pb [[c]] else say devtab pb newline)))
            (bindK (close devtab (of_int fdnum)) (\<lambda>_. retK ()))))"

end
