(* ===== verification/Commands_Thms.thy ===== *)
theory Commands_Thms
  imports Commands File_Thms Output_Thms
begin

text \<open>
  Reading from an open file and writing to the console, seen from the calls on descriptors: which
  bytes move, and that everything outside the frames involved stays as it is; and what the commands
  print.
\<close>

section \<open>Descriptors\<close>

text \<open>Descriptor \<open>a\<close> is the frame \<open>f\<close>, which may be written.\<close>

definition desc :: "(nat \<Rightarrow> (nat \<times> u32) option) \<Rightarrow> nat \<Rightarrow> nat \<Rightarrow> bool" where
  "desc U a f \<longleftrightarrow> a < 32 \<and> (\<exists>p. U (fdvpn a) = Some (f, p) \<and> p AND PTE_D \<noteq> 0)"

lemma desc_word:
  assumes "desc (upt s) a f" "k < 1024"
  shows "p_ldw (of_nat (fd_va a) + of_nat (4 * k)) s = Done (frames s f k) s"
    "p_stw (of_nat (fd_va a) + of_nat (4 * k)) x s = Done () (s\<lparr>frames := (frames s)(f := (frames s f)(k := x))\<rparr>)"
proof -
  obtain p where a: "a < 32" "upt s (fdvpn a) = Some (f, p)" "p AND PTE_D \<noteq> 0"
    using assms(1) by (auto simp: desc_def)
  have e: "of_nat (fd_va a) + of_nat (4 * k) = (of_nat (fd_va a + 4 * k) :: u32)" by simp
  have "VPN (of_nat (fd_va a + 4 * k)) = fdvpn a"
    using a(1) assms(2) by (subst VPN_of_nat) (auto simp: fd_va_def fdvpn_def)
  moreover have "wofs (of_nat (fd_va a + 4 * k)) = k"
  proof -
    have "(fd_va a + 4 * k) mod 4096 = (4 * k + 4096 * (0x5FC00 + a)) mod 4096" by (simp add: fd_va_def add.commute)
    also have "\<dots> = 4 * k" using assms(2) unfolding mod_mult_self2 by simp
    finally show ?thesis unfolding wofs_def using a(1) assms(2) by (subst unat_of_nat_len) (auto simp: fd_va_def)
  qed
  ultimately show "p_ldw (of_nat (fd_va a) + of_nat (4 * k)) s = Done (frames s f k) s"
    "p_stw (of_nat (fd_va a) + of_nat (4 * k)) x s = Done () (s\<lparr>frames := (frames s)(f := (frames s f)(k := x))\<rparr>)"
    unfolding e using a(2, 3) by (simp_all add: p_ldw_run p_stw_run)
qed

lemma desc_fields:
  assumes "desc (upt s) a f"
  shows "p_ldw (fd_dev_id (of_nat (fd_va a))) s = Done (frames s f 0) s"
    "p_ldw (fd_offset (of_nat (fd_va a))) s = Done (frames s f 1) s"
    "p_ldw (fd_omode (of_nat (fd_va a))) s = Done (frames s f 2) s"
    "p_stw (fd_offset (of_nat (fd_va a))) x s = Done () (s\<lparr>frames := (frames s)(f := (frames s f)(1 := x))\<rparr>)"
  using desc_word [OF assms, of 0] desc_word [OF assms, of 1] desc_word [OF assms, of 2]
  by (simp_all add: fd_dev_id_def fd_offset_def fd_omode_def)

lemma advance_run:
  assumes "desc (upt s) a f"
  shows "advance (of_nat (fd_va a)) (int n) s =
    Done () (s\<lparr>frames := (frames s)(f := (frames s f)(1 := frames s f 1 + of_nat n))\<rparr>)"
  using assms by (auto simp: advance_def run_rules desc_fields)

lemma with_dev_run:
  assumes "desc (upt s) a f" "dev_lookup devtab (frames s f 0) = Inr d"
  shows "with_dev devtab (of_nat a) k s = k (of_nat (fd_va a)) d s"
  using assms by (auto simp: with_dev_def with_fd_def run_rules fd_lookup_nat desc_fields desc_def)

section \<open>Writing to the console\<close>

text \<open>\<open>n\<close> bytes at \<open>va\<close> that a process may read and the kernel accepts.\<close>

definition user_range :: "u32 \<Rightarrow> nat \<Rightarrow> bool" where
  "user_range va n \<longleftrightarrow> unat va + n \<le> unat UTOP \<and> unat va < unat UTOP"

lemma user_range_ok:
  assumes "user_range va (unat n)"
  shows "\<not> (va + n > UTOP \<or> UTOP \<le> va \<or> va + n < va)"
proof -
  have u: "unat va + unat n \<le> 2134900736" "unat va < 2134900736"
    using assms by (simp_all add: user_range_def layout_defs PDMAP_def)
  then have "unat (va + n) = unat va + unat n" by (simp add: unat_plus_if')
  then show ?thesis using u by (simp add: word_less_nat_alt word_le_nat_alt layout_defs PDMAP_def)
qed

definition bytes_at :: "'x uproc_scheme \<Rightarrow> u32 \<Rightarrow> nat \<Rightarrow> u8 list" where
  "bytes_at s va n = map (\<lambda>i. pbyte s (va + of_nat i)) [0..<n]"

lemma bytes_at_length [simp]: "length (bytes_at s va n) = n"
  by (simp add: bytes_at_def)

lemma bytes_at_nth [simp]: "i < n \<Longrightarrow> bytes_at s va n ! i = pbyte s (va + of_nat i)"
  by (simp add: bytes_at_def)

lemma p_load_bytes_run:
  "(\<And>i. i < n \<Longrightarrow> readable s (va + of_nat i)) \<Longrightarrow> p_load_bytes n va s = Done (bytes_at s va n) s"
proof (induction n arbitrary: va)
  case 0
  then show ?case by (simp add: run_rules bytes_at_def)
next
  case (Suc n)
  have "readable s va" "\<And>i. i < n \<Longrightarrow> readable s (va + 1 + of_nat i)"
    using Suc.prems [of 0] Suc.prems [of "Suc _"] by (simp_all add: add.assoc)
  then have "p_load_bytes n (va + 1) s = Done (bytes_at s (va + 1) n) s" "p_ldb va s = Done (pbyte s va) s"
    using Suc.IH [of "va + 1"] p_ldb_run by blast+
  moreover have "bytes_at s va (Suc n) = pbyte s va # bytes_at s (va + 1) n"
    by (rule nth_equalityI) (auto simp: nth_Cons add.assoc split: nat.split)
  ultimately show ?case by (simp add: run_rules)
qed

abbreviation io_devs :: "'x cproc_ext server \<Rightarrow> u32 \<Rightarrow> ('x cproc_scheme) dev list" where
  "io_devs srv fb \<equiv> [devfile srv fb, devcons]"

lemma write_console:
  fixes s :: "'x cproc_scheme"
  assumes d: "desc (upt s) a g" "frames s g 0 = DEV_CONS" "frames s g 2 AND O_ACCMODE \<noteq> O_RDONLY"
    and r: "\<And>i. i < unat n \<Longrightarrow> readable s (buf + of_nat i)" "user_range buf (unat n)"
  shows "write_fd (io_devs srv fb) (of_nat a) buf n s = Done (int (unat n))
    (s\<lparr>cout := cout s @ bytes_at s buf (unat n), frames := (frames s)(g := (frames s g)(1 := frames s g 1 + n))\<rparr>)"
proof -
  have l: "dev_lookup (io_devs srv fb) (frames s g 0) = Inr devcons"
    by (simp add: d(2) devfile_def devcons_def DEV_FILE_def DEV_CONS_def)
  have n: "sint n = int (unat n)" using r(2) by (intro sint_small) (simp add: user_range_def layout_defs PDMAP_def)
  have w: "dev_write (devcons :: ('x cproc_scheme) dev) = cons_write" by (simp add: devcons_def)
  let ?s = "s\<lparr>cout := cout s @ bytes_at s buf (unat n)\<rparr>"
  have "cons_write (of_nat (fd_va a)) buf n off s = Done (int (unat n)) ?s" for off
    using user_range_ok [OF r(2)] p_load_bytes_run [of "unat n" s buf] r(1)
    by (simp add: cons_write_def run_rules n)
  moreover have "advance (of_nat (fd_va a)) (int (unat n)) ?s =
      Done () (?s\<lparr>frames := (frames s)(g := (frames s g)(1 := frames s g 1 + n))\<rparr>)"
    using advance_run [of ?s a g "unat n"] d(1) by simp
  ultimately show ?thesis
    using d(3) by (simp add: write_fd_def with_dev_run [OF d(1) l] run_rules desc_fields [OF d(1)] w)
qed

section \<open>Reading an open file\<close>

lemma only_frames_update: "only_frames s t \<Longrightarrow> only_frames s (t\<lparr>frames := m\<rparr>)"
  by (auto simp: only_frames_def)

lemma file_read_bytes:
  assumes d: "desc (upt s) a f" and o: "off \<le> frames s f 36" "frames s f 36 \<le> MAXFILE" and n: "unat n < 2 ^ 31"
  shows "file_read (of_nat (fd_va a)) buf n off s =
    bindK (p_copy (min (unat n) (unat (frames s f 36) - unat off)) buf (INDEX2DATA (of_nat a) + off))
      (\<lambda>_. retK (int (min (unat n) (unat (frames s f 36) - unat off)))) s"
proof -
  let ?sz = "frames s f 36" and ?m = "min (unat n) (unat (frames s f 36) - unat off)"
  have a: "a < 32" "\<exists>p. upt s (fdvpn a) = Some (f, p)" using d by (auto simp: desc_def)
  have sz: "unat ?sz \<le> 4194304" using o(2) by (simp add: word_le_nat_alt MAXFILE_def BY2PG_def)
  have off: "unat off \<le> unat ?sz" using o(1) by (simp add: word_le_nat_alt)
  have sum: "unat (off + n) = unat off + unat n" using sz off n unat_add_nat [of off "unat n"] by simp
  let ?n = "if off + n > ?sz then ?sz - off else n"
  have m: "unat ?n = ?m"
    using sum off o(1) by (auto simp: word_less_nat_alt unat_sub)
  moreover have "sint ?n = int ?m" using m n sz by (subst sint_small) auto
  ultimately show ?thesis
    using a o(1) by (auto simp: file_read_def Let_def run_rules ff_size_run fd2data_nat not_less)
qed

lemma read_file:
  fixes s :: "'x cproc_scheme"
  assumes d: "desc (upt s) a f" "frames s f 0 = DEV_FILE" "frames s f 2 AND O_ACCMODE \<noteq> O_WRONLY"
    and o: "frames s f 1 \<le> frames s f 36" "frames s f 36 \<le> MAXFILE" and n: "unat n < 2 ^ 31"
    and m: "m = min (unat n) (unat (frames s f 36) - unat (frames s f 1))" "va = INDEX2DATA (of_nat a) + frames s f 1"
    and r: "\<And>i. i < m \<Longrightarrow> readable s (va + of_nat i)"
    and w: "\<And>i. i < m \<Longrightarrow> writable s (buf + of_nat i) \<and> fst (ploc s (buf + of_nat i)) \<noteq> f"
    and ap: "apart s buf va m" "one_to_one s buf m"
  shows "\<exists>t. read (io_devs srv fb) (of_nat a) buf n s = Done (int m) t \<and> only_frames s t \<and>
    bytes_at t buf m = bytes_at s va m \<and> frames t f = (frames s f)(1 := frames s f 1 + of_nat m) \<and>
    (\<forall>h. h \<noteq> f \<longrightarrow> (\<forall>i < m. h \<noteq> fst (ploc s (buf + of_nat i))) \<longrightarrow> frames t h = frames s h)"
proof -
  have l: "dev_lookup (io_devs srv fb) (frames s f 0) = Inr (devfile srv fb)"
    by (simp add: d(2) devfile_def)
  have dv: "dev_read (devfile srv fb) = file_read" by (simp add: devfile_def)
  obtain t where t: "p_copy m buf va s = Done () t" "only_frames s t"
      "\<And>i. i < m \<Longrightarrow> pbyte t (buf + of_nat i) = pbyte s (va + of_nat i)"
      "\<And>h. (\<forall>i < m. h \<noteq> fst (ploc s (buf + of_nat i))) \<Longrightarrow> frames t h = frames s h"
    using p_copy_run [of m s va buf] r w ap by metis
  note sm = only_frames_simps [OF t(2)]
  let ?t = "t\<lparr>frames := (frames t)(f := (frames t f)(1 := frames t f 1 + of_nat m))\<rparr>"
  have f: "frames t f = frames s f" using w by (intro t(4)) metis
  have "read (io_devs srv fb) (of_nat a) buf n s = Done (int m) ?t"
    using d(3) file_read_bytes [OF d(1) o n, of buf] t(1) m advance_run [of t a f m] d(1)
    by (simp add: read_def with_dev_run [OF d(1) l] run_rules desc_fields [OF d(1)] dv sm)
  moreover have "bytes_at ?t buf m = bytes_at s va m"
    using t(3) w by (auto simp: bytes_at_def pbyte_def ploc_def sm(1))
  ultimately show ?thesis
    using t(2, 4) f by (intro exI [of _ ?t]) (auto simp: only_frames_update)
qed

section \<open>cat\<close>

text \<open>
  Descriptor \<open>a\<close> is an open file in the frame \<open>f\<close>, descriptor 1 the console in the frame \<open>g\<close>; the
  buffer and the file's pages are mapped, and share no frame with each other or the descriptors.
\<close>

definition file_data :: "nat \<Rightarrow> u32" where "file_data a = INDEX2DATA (of_nat a)"

definition cat_ready :: "'x cproc_scheme \<Rightarrow> nat \<Rightarrow> nat \<Rightarrow> nat \<Rightarrow> u32 \<Rightarrow> bool" where
  "cat_ready s a f g buf \<longleftrightarrow>
     desc (upt s) a f \<and> frames s f 0 = DEV_FILE \<and> frames s f 2 AND O_ACCMODE \<noteq> O_WRONLY \<and>
     frames s f 1 \<le> frames s f 36 \<and> frames s f 36 \<le> MAXFILE \<and>
     desc (upt s) 1 g \<and> frames s g 0 = DEV_CONS \<and> frames s g 2 AND O_ACCMODE \<noteq> O_RDONLY \<and> f \<noteq> g \<and>
     user_range buf 8192 \<and> one_to_one s buf 8192 \<and>
     (\<forall>i < 8192. writable s (buf + of_nat i) \<and> fst (ploc s (buf + of_nat i)) \<notin> {f, g}) \<and>
     (\<forall>i < unat (frames s f 36). readable s (file_data a + of_nat i) \<and> fst (ploc s (file_data a + of_nat i)) \<notin> {f, g} \<and>
        (\<forall>j < 8192. fst (ploc s (buf + of_nat j)) \<noteq> fst (ploc s (file_data a + of_nat i))))"

lemma cat_buffer:
  assumes "unat (frames s f 1) \<le> unat (frames s f 36)" "m = min 8192 (unat (frames s f 36) - unat (frames s f 1))"
  shows "bytes_at s (va + frames s f 1) m = take m (drop (unat (frames s f 1)) (bytes_at s va (unat (frames s f 36))))"
proof (rule nth_equalityI)
  fix i assume i: "i < length (bytes_at s (va + frames s f 1) m)"
  then have "i < unat (frames s f 36) - unat (frames s f 1)" using assms(2) by simp
  then have "unat (frames s f 1) + i < unat (frames s f 36)" by (simp add: less_diff_conv add.commute)
  moreover have "va + frames s f 1 + of_nat i = va + of_nat (unat (frames s f 1) + i)" by (simp add: add.assoc)
  ultimately show "bytes_at s (va + frames s f 1) m ! i =
      take m (drop (unat (frames s f 1)) (bytes_at s va (unat (frames s f 36)))) ! i"
    using assms i by (simp add: add.assoc)
qed (use assms in simp)

lemma same_upt:
  assumes "upt u = upt s"
  shows "ploc u = ploc s" "readable u = readable s" "writable u = writable s" "one_to_one u = one_to_one s"
  using assms by (auto simp: ploc_def readable_def writable_def one_to_one_def fun_eq_iff)

lemma cat_ready_cong:
  assumes "cat_ready s a f g buf" "upt u = upt s" "frames u f = (frames s f)(1 := x)" "frames u g = (frames s g)(1 := y)"
    "x \<le> frames s f 36"
  shows "cat_ready u a f g buf"
  using assms(1, 5) unfolding cat_ready_def assms(2-4) same_upt [OF assms(2)] by simp

lemma cat_turn:
  fixes s :: "'x cproc_scheme"
  assumes c: "cat_ready s a f g buf" and m: "m = min 8192 (unat (frames s f 36) - unat (frames s f 1))"
  shows "\<exists>t u. read (io_devs srv fb) (of_nat a) buf CATBUF s = Done (int m) t \<and>
    write_fd (io_devs srv fb) 1 buf (of_nat m) t = Done (int m) u \<and> cat_ready u a f g buf \<and>
    cout t = cout s \<and> cout u = cout s @ take m (drop (unat (frames s f 1)) (bytes_at s (file_data a) (unat (frames s f 36)))) \<and>
    frames u f 36 = frames s f 36 \<and> unat (frames u f 1) = unat (frames s f 1) + m \<and>
    bytes_at u (file_data a) (unat (frames s f 36)) = bytes_at s (file_data a) (unat (frames s f 36))"
proof -
  let ?sz = "frames s f 36" and ?o = "frames s f 1" and ?va = "file_data a + frames s f 1"
  note h = c [unfolded cat_ready_def]
  have o: "unat ?o \<le> unat ?sz" "unat ?sz \<le> 4194304"
    using h by (simp_all add: word_le_nat_alt MAXFILE_def BY2PG_def)
  have va: "?va + of_nat i = file_data a + of_nat (unat ?o + i)" for i by (simp add: add.assoc)
  have lt: "unat ?o + i < unat ?sz" "i < 8192" if "i < m" for i using that m o by auto
  have buf: "writable s (buf + of_nat i)" "fst (ploc s (buf + of_nat i)) \<noteq> f" "fst (ploc s (buf + of_nat i)) \<noteq> g"
    if "i < 8192" for i using h that by simp_all
  have dat: "readable s (file_data a + of_nat i)" "fst (ploc s (file_data a + of_nat i)) \<noteq> f"
    "fst (ploc s (file_data a + of_nat i)) \<noteq> g" if "i < unat ?sz" for i using h that by simp_all
  have sep: "fst (ploc s (buf + of_nat j)) \<noteq> fst (ploc s (file_data a + of_nat i))" if "j < 8192" "i < unat ?sz" for i j
    using h that by blast
  have n: "unat CATBUF < 2 ^ 31" "m = min (unat CATBUF) (unat ?sz - unat ?o)" using m by (simp_all add: CATBUF_def)
  have ap: "apart s buf ?va m" unfolding apart_def va by (intro allI impI) (use sep lt in metis)
  have oo: "one_to_one s buf m" using h lt(2) unfolding one_to_one_def by blast
  have rd: "readable s (?va + of_nat i)" if "i < m" for i unfolding va using dat(1) lt(1) [OF that] .
  have "\<exists>t. read (io_devs srv fb) (of_nat a) buf CATBUF s = Done (int m) t \<and> only_frames s t \<and>
    bytes_at t buf m = bytes_at s ?va m \<and> frames t f = (frames s f)(1 := ?o + of_nat m) \<and>
    (\<forall>h. h \<noteq> f \<longrightarrow> (\<forall>i < m. h \<noteq> fst (ploc s (buf + of_nat i))) \<longrightarrow> frames t h = frames s h)"
    by (rule read_file [OF _ _ _ _ _ n _ rd _ ap oo]) (use h lt(2) in \<open>simp_all add: file_data_def buf(1, 2)\<close>)
  then obtain t where t: "read (io_devs srv fb) (of_nat a) buf CATBUF s = Done (int m) t" "only_frames s t"
      "bytes_at t buf m = bytes_at s ?va m" "frames t f = (frames s f)(1 := ?o + of_nat m)"
      "\<And>h. h \<noteq> f \<Longrightarrow> (\<And>i. i < m \<Longrightarrow> h \<noteq> fst (ploc s (buf + of_nat i))) \<Longrightarrow> frames t h = frames s h"
    by blast
  note sm = only_frames_simps [OF t(2)]
  have cout: "cout t = cout s" using t(2) by (auto simp: only_frames_def)
  have g: "frames t g = frames s g" using h lt(2) buf(3) by (intro t(5)) metis+
  let ?u = "t\<lparr>cout := cout t @ bytes_at t buf m, frames := (frames t)(g := (frames t g)(1 := frames t g 1 + of_nat m))\<rparr>"
  have um: "unat (of_nat m :: u32) = m" using m by (intro unat_of_nat_len) simp
  have "user_range buf m" using h m by (auto simp: user_range_def)
  moreover have "readable t (buf + of_nat i)" if "i < m" for i
    using buf(1) [OF lt(2) [OF that]] unfolding sm by (auto simp: writable_def readable_def)
  ultimately have w: "write_fd (io_devs srv fb) 1 buf (of_nat m) t = Done (int m) ?u"
    using write_console [of t 1 g "of_nat m" buf srv fb] h by (simp add: sm g um)
  have data: "frames t (fst (ploc s (file_data a + of_nat i))) = frames s (fst (ploc s (file_data a + of_nat i)))"
    if "i < unat ?sz" for i
    using that lt(2) dat(2) sep by (intro t(5)) metis+
  have "bytes_at ?u (file_data a) (unat ?sz) = bytes_at s (file_data a) (unat ?sz)"
    using data dat(3) by (auto simp: bytes_at_def pbyte_def ploc_def sm(1))
  moreover have off: "unat (?o + of_nat m) = unat ?o + m" using o m by (intro unat_add_nat) simp
  moreover have "cat_ready ?u a f g buf"
  proof (rule cat_ready_cong [OF c])
    show "?o + of_nat m \<le> ?sz" using off o m by (simp add: word_le_nat_alt)
  qed (use h in \<open>simp_all add: sm t(4) g\<close>)
  ultimately show ?thesis
    using t(1, 3, 4) w cout h cat_buffer [OF o(1) m, of "file_data a"] by (intro exI [of _ t] exI [of _ ?u]) simp
qed

text \<open>
  C40. \<^verbatim>\<open>cat\<close> on an open file prints the rest of the file from the descriptor's offset, byte for byte and
  in order, however many turns its buffer of 8192 bytes needs, and comes to an end: after one turn
  for every 8192 bytes and one more.
\<close>

theorem cat_prints:
  fixes s :: "'x cproc_scheme"
  assumes "cat_ready s a f g buf" "unat (frames s f 36) - unat (frames s f 1) \<le> 8192 * k"
  shows "\<exists>t. cat (Suc k) (io_devs srv fb) buf (of_nat a) s = Done () t \<and>
    cout t = cout s @ drop (unat (frames s f 1)) (bytes_at s (file_data a) (unat (frames s f 36)))"
  using assms
proof (induction k arbitrary: s)
  case 0
  then obtain t where "read (io_devs srv fb) (of_nat a) buf CATBUF s = Done 0 t" "cout t = cout s"
    using cat_turn [OF 0(1) refl, of srv fb] by auto
  then show ?case using 0(2) by (auto simp: run_rules)
next
  case (Suc k)
  define m where "m = min 8192 (unat (frames s f 36) - unat (frames s f 1))"
  obtain t u where tu: "read (io_devs srv fb) (of_nat a) buf CATBUF s = Done (int m) t"
      "write_fd (io_devs srv fb) 1 buf (of_nat m) t = Done (int m) u" "cat_ready u a f g buf" "cout t = cout s"
      "cout u = cout s @ take m (drop (unat (frames s f 1)) (bytes_at s (file_data a) (unat (frames s f 36))))"
      "frames u f 36 = frames s f 36" "unat (frames u f 1) = unat (frames s f 1) + m"
      "bytes_at u (file_data a) (unat (frames s f 36)) = bytes_at s (file_data a) (unat (frames s f 36))"
    using cat_turn [OF Suc.prems(1) m_def] by blast
  show ?case
  proof (cases "m = 0")
    case True
    then show ?thesis using tu(1, 4) by (auto simp: run_rules m_def)
  next
    case False
    have "unat (frames u f 36) - unat (frames u f 1) \<le> 8192 * k" using tu(6, 7) Suc.prems(2) by (auto simp: m_def)
    from Suc.IH [OF tu(3) this] obtain v where
      v: "cat (Suc k) (io_devs srv fb) buf (of_nat a) u = Done () v"
        "cout v = cout u @ drop (unat (frames u f 1)) (bytes_at u (file_data a) (unat (frames u f 36)))"
      by blast
    have "take m (drop o' xs) @ drop (o' + m) xs = drop o' xs" for o' and xs :: "u8 list"
      by (metis add.commute append_take_drop_id drop_drop)
    then have "cout v = cout s @ drop (unat (frames s f 1)) (bytes_at s (file_data a) (unat (frames s f 36)))"
      using v(2) tu(5-8) by simp
    moreover have "cat (Suc (Suc k)) (io_devs srv fb) buf (of_nat a) s = Done () v"
      using v(1) tu(1, 2) False by (subst cat.simps) (simp add: run_rules del: cat.simps)
    ultimately show ?thesis by blast
  qed
qed

text \<open>Descriptor 0 is a file of three bytes, of which the first has been read; the buffer has two pages.\<close>

definition cat_proc :: cproc where
  "cat_proc = \<lparr>upt = [fdvpn 0 \<mapsto> (6, PTE_V OR PTE_D), fdvpn 1 \<mapsto> (2, PTE_V OR PTE_D),
       dvpn 0 0 \<mapsto> (3, PTE_V OR PTE_D), 0x500 \<mapsto> (4, PTE_V OR PTE_D), 0x501 \<mapsto> (5, PTE_V OR PTE_D)],
     frames = (\<lambda>f k. if f = 6 then (if k = 0 then DEV_FILE else if k = 1 then 1 else if k = 36 then 3 else 0)
       else if f = 2 then (if k = 0 then DEV_CONS else if k = 2 then O_RDWR else 0)
       else if f = 3 then 0x636261 else 0),
     frefs = (\<lambda>f. 1), ffree = [], cin = [], cout = [0x21]\<rparr>"

lemma cat_proc_buffer:
  assumes "i < 8192"
  shows "ploc cat_proc (0x500000 + of_nat i) = (if i < 4096 then (4, i) else (5, i - 4096))"
    "writable cat_proc (0x500000 + of_nat i)"
proof -
  have u: "unat (0x500000 + of_nat i :: u32) = 0x500000 + i" using assms by (subst unat_add_nat) auto
  have v: "VPN (0x500000 + of_nat i) = (if i < 4096 then 0x500 else 0x501)" using assms by (auto simp: VPN_alt u)
  have b: "bofs (0x500000 + of_nat i) = (if i < 4096 then i else i - 4096)"
    unfolding bofs_def u using assms by (auto simp: le_mod_geq)
  show "ploc cat_proc (0x500000 + of_nat i) = (if i < 4096 then (4, i) else (5, i - 4096))"
    "writable cat_proc (0x500000 + of_nat i)"
    by (auto simp: ploc_def writable_def v b cat_proc_def fdvpn_def dvpn_def PTE_V_def PTE_D_def)
qed

lemma cat_proc_data:
  assumes "i < 3"
  shows "ploc cat_proc (file_data 0 + of_nat i) = (3, i)" "readable cat_proc (file_data 0 + of_nat i)"
  using assms
  by (auto simp: less_Suc_eq numeral_3_eq_3 ploc_def readable_def cat_proc_def fdvpn_def dvpn_def VPN_alt bofs_def
      file_data_def INDEX2DATA_def FILEBASE_def PDMAP_def)

lemma cat_proc_fields:
  "frames cat_proc 6 0 = DEV_FILE" "frames cat_proc 6 (Suc 0) = 1" "frames cat_proc 6 2 = 0" "frames cat_proc 6 36 = 3"
  "frames cat_proc 2 0 = DEV_CONS" "frames cat_proc 2 2 = O_RDWR" "frames cat_proc 3 = (\<lambda>_. 0x636261)"
  "cout cat_proc = [0x21]"
  by (simp_all add: cat_proc_def)

lemma cat_proc_ready: "cat_ready cat_proc 0 6 2 0x500000"
proof -
  have d: "desc (upt cat_proc) 0 6" "desc (upt cat_proc) 1 2"
    by (auto simp: desc_def cat_proc_def fdvpn_def dvpn_def PTE_V_def PTE_D_def)
  have "one_to_one cat_proc 0x500000 8192"
    unfolding one_to_one_def by (auto simp: cat_proc_buffer split: if_splits)
  moreover have "\<forall>i < 8192. writable cat_proc (0x500000 + of_nat i) \<and> fst (ploc cat_proc (0x500000 + of_nat i)) \<notin> {6, 2}"
    by (auto simp: cat_proc_buffer split: if_splits)
  moreover have "\<forall>i < 3. readable cat_proc (file_data 0 + of_nat i) \<and> fst (ploc cat_proc (file_data 0 + of_nat i)) \<notin> {6, 2} \<and>
      (\<forall>j < 8192. fst (ploc cat_proc (0x500000 + of_nat j)) \<noteq> fst (ploc cat_proc (file_data 0 + of_nat i)))"
    by (auto simp: cat_proc_buffer cat_proc_data split: if_splits)
  ultimately show ?thesis
    using d by (simp add: cat_ready_def cat_proc_fields user_range_def layout_defs PDMAP_def MAXFILE_def BY2PG_def
        O_ACCMODE_def O_WRONLY_def O_RDONLY_def O_RDWR_def)
qed

theorem cat_prints_witness:
  "\<exists>t. cat 2 (io_devs no_server 0) 0x500000 0 cat_proc = Done () t \<and> cout t = [0x21, 0x62, 0x63]"
proof -
  have "unat (frames cat_proc 6 36) - unat (frames cat_proc 6 1) \<le> 8192 * 1" by (simp add: cat_proc_fields)
  from cat_prints [OF cat_proc_ready this, of no_server 0] obtain t where
    t: "cat (Suc 1) (io_devs no_server 0) 0x500000 (of_nat 0) cat_proc = Done () t"
      "cout t = cout cat_proc @ drop (unat (frames cat_proc 6 1)) (bytes_at cat_proc (file_data 0) (unat (frames cat_proc 6 36)))"
    by blast
  have "pbyte cat_proc (file_data 0 + of_nat i) = frame_byte (\<lambda>_. 0x636261) i" if "i < 3" for i
    using cat_proc_data(1) [OF that] by (simp add: pbyte_def cat_proc_fields)
  then have "bytes_at cat_proc (file_data 0) 3 = map (frame_byte (\<lambda>_. 0x636261)) [0..<3]" by (simp add: bytes_at_def)
  also have "\<dots> = [0x61, 0x62, 0x63]" by (simp add: frame_byte_def byte_of_def upt_rec)
  finally have "cout t = [0x21, 0x62, 0x63]" using t(2) by (simp add: cat_proc_fields)
  moreover have "cat 2 (io_devs no_server 0) 0x500000 0 cat_proc = Done () t" using t(1) unfolding numeral_2_eq_2 by simp
  ultimately show ?thesis by blast
qed

section \<open>Printing on the console\<close>

lemma p_store_bytes_run:
  assumes "\<And>i. i < length w \<Longrightarrow> writable s (dst + of_nat i)" "one_to_one s dst (length w)"
  shows "\<exists>t. p_store_bytes w dst s = Done () t \<and> only_frames s t \<and> bytes_at t dst (length w) = w \<and>
    (\<forall>a. (\<forall>i < length w. ploc s a \<noteq> ploc s (dst + of_nat i)) \<longrightarrow> pbyte t a = pbyte s a) \<and>
    (\<forall>f. (\<forall>i < length w. f \<noteq> fst (ploc s (dst + of_nat i))) \<longrightarrow> frames t f = frames s f)"
  using assms
proof (induction w arbitrary: dst s)
  case Nil
  then show ?case by (simp add: run_rules bytes_at_def)
next
  case (Cons c w)
  have w0: "writable s dst" using Cons.prems(1) [of 0] by simp
  obtain t where t: "p_stb dst c s = Done () t" "only_frames s t"
      "\<And>a. pbyte t a = (if ploc s a = ploc s dst then c else pbyte s a)"
      "\<And>f. f \<noteq> fst (ploc s dst) \<Longrightarrow> frames t f = frames s f"
    using p_stb_run [OF w0] by metis
  note sm = only_frames_simps [OF t(2)]
  have oo: "ploc s (dst + of_nat i) = ploc s (dst + of_nat j) \<Longrightarrow> i = j"
    if "i < Suc (length w)" "j < Suc (length w)" for i j
    using Cons.prems(2) that unfolding one_to_one_def length_Cons by blast
  have "one_to_one t (dst + 1) (length w)"
    unfolding one_to_one_def sm using oo [of "Suc _" "Suc _"] by (auto simp: add.assoc)
  moreover have "writable t (dst + 1 + of_nat i)" if "i < length w" for i
    using Cons.prems(1) [of "Suc i"] that unfolding sm shift by simp
  ultimately obtain u where u: "p_store_bytes w (dst + 1) t = Done () u" "only_frames t u"
      "bytes_at u (dst + 1) (length w) = w"
      "\<And>a. (\<forall>i < length w. ploc s a \<noteq> ploc s (dst + 1 + of_nat i)) \<Longrightarrow> pbyte u a = pbyte t a"
      "\<And>f. (\<forall>i < length w. f \<noteq> fst (ploc s (dst + 1 + of_nat i))) \<Longrightarrow> frames u f = frames t f"
    using Cons.IH [of t "dst + 1"] unfolding sm by metis
  have "pbyte u dst = c"
    using u(4) [of dst] t(3) oo [of 0 "Suc _"] by (auto simp: add.assoc)
  moreover have "pbyte u (dst + of_nat (Suc i)) = w ! i" if "i < length w" for i
    using arg_cong [OF u(3), of "\<lambda>x. x ! i"] that by (simp add: add.assoc)
  ultimately have "bytes_at u dst (length (c # w)) = c # w"
    by (intro nth_equalityI) (auto simp: nth_Cons split: nat.split)
  moreover have "pbyte u a = pbyte s a" if "\<forall>i < Suc (length w). ploc s a \<noteq> ploc s (dst + of_nat i)" for a
  proof -
    have "ploc s a \<noteq> ploc s dst" "\<forall>i < length w. ploc s a \<noteq> ploc s (dst + 1 + of_nat i)"
      using that [rule_format, of 0] that [rule_format, of "Suc _"] by (simp_all add: add.assoc)
    then show ?thesis using u(4) t(3) by simp
  qed
  moreover have "frames u f = frames s f" if "\<forall>i < Suc (length w). f \<noteq> fst (ploc s (dst + of_nat i))" for f
  proof -
    have "f \<noteq> fst (ploc s dst)" "\<forall>i < length w. f \<noteq> fst (ploc s (dst + 1 + of_nat i))"
      using that [rule_format, of 0] that [rule_format, of "Suc _"] by (simp_all add: add.assoc)
    then show ?thesis using u(5) t(4) by simp
  qed
  moreover have "p_store_bytes (c # w) dst s = Done () u" using t(1) u(1) by (simp add: run_rules)
  ultimately show ?case using only_frames_trans [OF t(2) u(2)] by auto
qed

text \<open>
  Descriptor 1 is the console in the frame \<open>g\<close>; texts of up to \<open>N\<close> bytes go through the frames \<open>P\<close>.
  The page table is \<open>U\<close>, and all other frames are as in \<open>F\<close>.
\<close>

definition screen :: "(nat \<Rightarrow> (nat \<times> u32) option) \<Rightarrow> (nat \<Rightarrow> frame) \<Rightarrow> nat \<Rightarrow> nat set \<Rightarrow> u32 \<Rightarrow> nat \<Rightarrow> 'x cproc_scheme \<Rightarrow> bool"
  where
  "screen U F g P pb N s \<longleftrightarrow> upt s = U \<and> desc U 1 g \<and> frames s g 0 = DEV_CONS \<and>
     frames s g 2 AND O_ACCMODE \<noteq> O_RDONLY \<and> g \<notin> P \<and> user_range pb N \<and> one_to_one s pb N \<and>
     (\<forall>i < N. writable s (pb + of_nat i) \<and> fst (ploc s (pb + of_nat i)) \<in> P) \<and>
     (\<forall>h. h \<notin> insert g P \<longrightarrow> frames s h = F h)"

lemma screen_write:
  fixes s :: "'x cproc_scheme"
  assumes c: "screen U F g P pb N s" and w: "length w \<le> N"
  shows "\<exists>t. write_text (io_devs srv fb) pb w s = Done (int (length w)) t \<and> cout t = cout s @ w \<and> screen U F g P pb N t"
proof -
  note h = c [unfolded screen_def]
  have lt: "i < length w \<Longrightarrow> i < N" for i using w by simp
  have "one_to_one s pb (length w)" using h lt unfolding one_to_one_def by blast
  then obtain t where t: "p_store_bytes w pb s = Done () t" "only_frames s t" "bytes_at t pb (length w) = w"
      "\<And>f. (\<forall>i < length w. f \<noteq> fst (ploc s (pb + of_nat i))) \<Longrightarrow> frames t f = frames s f"
    using p_store_bytes_run [of w s pb] h lt by metis
  note sm = only_frames_simps [OF t(2)]
  have N: "N \<le> 2134900736" using h by (simp add: user_range_def layout_defs PDMAP_def)
  have um: "unat (of_nat (length w) :: u32) = length w" using w N by (intro unat_of_nat_len) simp
  have fr: "frames t f = frames s f" if "f \<notin> P" for f using that h lt by (intro t(4)) metis
  have ur: "user_range pb (length w)" using h w by (auto simp: user_range_def)
  have rd: "readable t (pb + of_nat i)" if "i < length w" for i
    using h lt [OF that] unfolding sm by (auto simp: writable_def readable_def)
  let ?u = "t\<lparr>cout := cout t @ w, frames := (frames t)(g := (frames t g)(1 := frames t g 1 + of_nat (length w)))\<rparr>"
  have "write_fd (io_devs srv fb) (of_nat 1) pb (of_nat (length w)) t = Done (int (length w)) ?u"
    using write_console [of t 1 g "of_nat (length w)" pb srv fb] h ur rd by (simp add: sm fr um t(3))
  moreover have "cout t = cout s" using t(2) by (auto simp: only_frames_def)
  moreover have "screen U F g P pb N ?u"
    using h same_upt [of ?u s] unfolding screen_def by (simp add: sm fr)
  ultimately show ?thesis using t(1) by (auto simp: write_text_def run_rules)
qed

interpretation console: text_sink "write_text (io_devs srv fb) pb" cout "screen U F g P pb N" "\<lambda>w. length w \<le> N"
  by unfold_locales (rule screen_write)

lemma say_run:
  fixes s :: "'x cproc_scheme"
  assumes "screen U F g P pb N s" "\<forall>w \<in> set cs. length w \<le> N"
  shows "\<exists>t. say (io_devs srv fb) pb cs s = Done () t \<and> cout t = cout s @ concat cs \<and> screen U F g P pb N t"
  using console.print_chunks_sent [OF assms, of 0 srv fb] by (auto simp: say_def printf_chunks_def run_rules)

section \<open>echo\<close>

definition echo_text :: "u8 list list \<Rightarrow> u8 list" where
  "echo_text ws = (case ws of [] \<Rightarrow> [] | w # ws \<Rightarrow> w @ concat (map ((#) 0x20) ws))"

lemma echo_text_snoc: "echo_text (ws @ [w]) = echo_text ws @ (if ws = [] then w else 0x20 # w)"
  by (cases ws) (simp_all add: echo_text_def)

lemma echo_words_run:
  fixes s :: "'x cproc_scheme"
  assumes "screen U F g P pb N s" "\<forall>w \<in> set ws. length w \<le> N" "0 < N"
  shows "\<exists>t. echo_words (io_devs srv fb) pb ws s = Done () t \<and> cout t = cout s @ echo_text ws \<and> screen U F g P pb N t"
proof -
  let ?body = "\<lambda>i. seqK (if i > 0 then say (io_devs srv fb) pb (lit '' '') else retK ()) (say (io_devs srv fb) pb [ws ! i])"
  let ?P = "\<lambda>n t. cout t = cout s @ echo_text (take n ws) \<and> screen U F g P pb N t"
  have "\<exists>t'. ?body n t = Done () t' \<and> ?P (Suc n) t'" if n: "n < length ws" and t: "?P n t" for n t
  proof -
    obtain t1 where t1: "(if n > 0 then say (io_devs srv fb) pb (lit '' '') else retK ()) t = Done () t1"
        "cout t1 = cout t @ (if n > 0 then [0x20] else [])" "screen U F g P pb N t1"
      using say_run [of U F g P pb N t "lit '' ''" srv fb] t assms(3) by (cases "n > 0") (auto simp: lit_def run_rules)
    obtain t2 where "say (io_devs srv fb) pb [ws ! n] t1 = Done () t2" "cout t2 = cout t1 @ ws ! n" "screen U F g P pb N t2"
      using say_run [OF t1(3), of "[ws ! n]" srv fb] assms(2) n by auto
    moreover have "take n ws = [] \<longleftrightarrow> n = 0" using n by auto
    ultimately show ?thesis
      using t t1 n by (simp add: run_rules take_Suc_conv_app_nth echo_text_snoc)
  qed
  moreover have "?P 0 s" using assms(1) by (simp add: echo_text_def)
  ultimately have "\<exists>t. forK [0..<length ws] ?body s = Done () t \<and> ?P (length ws) t"
    by (intro forK_upt [of ?P]) blast+
  then show ?thesis by (simp add: echo_words_def)
qed

lemma echo_prints:
  fixes s :: "'x cproc_scheme"
  assumes "screen U F g P pb N s" "\<forall>w \<in> set args. length w \<le> N" "0 < N"
  shows "\<exists>t. echo_main (io_devs srv fb) pb args s = Done () t \<and> cout t = cout s @
    (if args \<noteq> [] \<and> hd args = ascii ''-n'' then echo_text (tl args) else echo_text args @ [NL])"
proof (cases "args \<noteq> [] \<and> hd args = ascii ''-n''")
  case True
  then have "\<forall>w \<in> set (tl args). length w \<le> N" using assms(2) by (meson list.set_sel(2))
  from echo_words_run [OF assms(1) this assms(3), of srv fb] show ?thesis
    using True by (auto simp: echo_main_def run_rules)
next
  case False
  obtain t where t: "echo_words (io_devs srv fb) pb args s = Done () t" "cout t = cout s @ echo_text args" "screen U F g P pb N t"
    using echo_words_run [OF assms] by blast
  show ?thesis using say_run [OF t(3), of newline srv fb] t assms(3) False
    by (auto simp: echo_main_def run_rules newline_def)
qed

end
