(* ===== verification/Traps.thy ===== *)
theory Traps
  imports Syscall
begin

text \<open>
  The assembler of the exception paths: \<^verbatim>\<open>SAVE_ALL\<close> and \<^verbatim>\<open>RESTORE_SOME\<close> of
  \<^verbatim>\<open>include/stackframe.h\<close>, the entry code of \<^verbatim>\<open>kern/entry.S\<close>, the handlers of
  \<^verbatim>\<open>kern/genex.S\<close>, \<^verbatim>\<open>kern/env_asm.S\<close>, \<^verbatim>\<open>kern/tlb_asm.S\<close> and
  \<^verbatim>\<open>kern/kclock.S\<close>, and the table of \<^verbatim>\<open>kern/traps.c\<close>. The machine has a register file, the
  registers of coprocessor 0, the words of \<^verbatim>\<open>kseg0\<close> and \<^verbatim>\<open>kseg1\<close> by address (the stack pointer is
  aligned) and a TLB of 64 entries. A straight run of instructions is a list; branches are written as
  conditionals, and a C function that is called is an argument.
\<close>

section \<open>The machine\<close>

record cpu =
  c_gpr :: "nat \<Rightarrow> u32"
  c_hi :: u32
  c_lo :: u32
  c_pc :: u32
  c_cp0 :: "nat \<Rightarrow> u32"
  c_ram :: "u32 \<Rightarrow> u32"
  c_tlb :: "nat \<Rightarrow> u32 \<times> u32"

definition r_v0 :: nat where "r_v0 = 2"
definition r_v1 :: nat where "r_v1 = 3"
definition r_a0 :: nat where "r_a0 = 4"
definition r_a1 :: nat where "r_a1 = 5"
definition r_t0 :: nat where "r_t0 = 8"
definition r_t1 :: nat where "r_t1 = 9"
definition r_t2 :: nat where "r_t2 = 10"
definition r_k0 :: nat where "r_k0 = 26"
definition r_sp :: nat where "r_sp = 29"

definition CP0_INDEX :: nat where "CP0_INDEX = 0"
definition CP0_ENTRYLO0 :: nat where "CP0_ENTRYLO0 = 2"
definition CP0_BADVADDR :: nat where "CP0_BADVADDR = 8"
definition CP0_ENTRYHI :: nat where "CP0_ENTRYHI = 10"
definition CP0_STATUS :: nat where "CP0_STATUS = 12"
definition CP0_CAUSE :: nat where "CP0_CAUSE = 13"
definition CP0_EPC :: nat where "CP0_EPC = 14"

definition STATUS_IEc :: u32 where "STATUS_IEc = 0x1"

definition rdr :: "nat \<Rightarrow> cpu \<Rightarrow> u32" where
  "rdr r c = (if r = 0 then 0 else c_gpr c r)"

definition wrr :: "nat \<Rightarrow> u32 \<Rightarrow> cpu \<Rightarrow> cpu" where
  "wrr r v c = (if r = 0 then c else c\<lparr>c_gpr := (c_gpr c)(r := v)\<rparr>)"

datatype instr = SW nat u32 nat | LW nat u32 nat | MOVE nat nat | LI nat u32 | ADDIU nat nat u32
  | ANDR nat nat nat | ORR nat nat nat | ANDI nat nat u32 | SLL nat nat nat | SRL nat nat nat
  | MFC0 nat nat | MTC0 nat nat | MFHI nat | MTHI nat | MFLO nat | MTLO nat

fun exec1 :: "instr \<Rightarrow> cpu \<Rightarrow> cpu" where
  "exec1 (SW r off b) c = c\<lparr>c_ram := (c_ram c)(rdr b c + off := rdr r c)\<rparr>"
| "exec1 (LW r off b) c = wrr r (c_ram c (rdr b c + off)) c"
| "exec1 (MOVE r q) c = wrr r (rdr q c) c"
| "exec1 (LI r v) c = wrr r v c"
| "exec1 (ADDIU r q v) c = wrr r (rdr q c + v) c"
| "exec1 (ANDR r q p) c = wrr r (rdr q c AND rdr p c) c"
| "exec1 (ORR r q p) c = wrr r (rdr q c OR rdr p c) c"
| "exec1 (ANDI r q v) c = wrr r (rdr q c AND v) c"
| "exec1 (SLL r q n) c = wrr r (push_bit n (rdr q c)) c"
| "exec1 (SRL r q n) c = wrr r (drop_bit n (rdr q c)) c"
| "exec1 (MFC0 r x) c = wrr r (c_cp0 c x) c"
| "exec1 (MTC0 r x) c = c\<lparr>c_cp0 := (c_cp0 c)(x := rdr r c)\<rparr>"
| "exec1 (MFHI r) c = wrr r (c_hi c) c"
| "exec1 (MTHI r) c = c\<lparr>c_hi := rdr r c\<rparr>"
| "exec1 (MFLO r) c = wrr r (c_lo c) c"
| "exec1 (MTLO r) c = c\<lparr>c_lo := rdr r c\<rparr>"

fun exec :: "instr list \<Rightarrow> cpu \<Rightarrow> cpu" where
  "exec [] c = c"
| "exec (i # is) c = exec is (exec1 i c)"

text \<open>
  What the processor does itself: an exception pushes the three pairs of mode and interrupt bits,
  \<^verbatim>\<open>rfe\<close> pops them.
\<close>

definition push_status :: "u32 \<Rightarrow> u32" where
  "push_status s = (s AND NOT 0x3F) OR (push_bit 2 s AND 0x3C)"

definition pop_status :: "u32 \<Rightarrow> u32" where
  "pop_status s = (s AND NOT 0xF) OR (drop_bit 2 s AND 0xF)"

definition take_exception :: "u32 \<Rightarrow> u32 \<Rightarrow> cpu \<Rightarrow> cpu" where
  "take_exception cause badva c = c\<lparr>c_cp0 := (c_cp0 c)(CP0_EPC := c_pc c, CP0_CAUSE := cause,
     CP0_BADVADDR := badva, CP0_STATUS := push_status (c_cp0 c CP0_STATUS)), c_pc := 0x80000080\<rparr>"

section \<open>The trap frame\<close>

definition TF_REG :: "nat \<Rightarrow> u32" where "TF_REG r = of_nat (4 * r)"
definition TF_STATUS :: u32 where "TF_STATUS = 128"
definition TF_HI :: u32 where "TF_HI = 132"
definition TF_LO :: u32 where "TF_LO = 136"
definition TF_BADVADDR :: u32 where "TF_BADVADDR = 140"
definition TF_CAUSE :: u32 where "TF_CAUSE = 144"
definition TF_EPC :: u32 where "TF_EPC = 148"
definition TF_SIZE :: u32 where "TF_SIZE = 152"

definition KSTACKTOP :: u32 where "KSTACKTOP = 0x80400000"

lemmas tf_offsets = TF_STATUS_def TF_HI_def TF_LO_def TF_BADVADDR_def TF_CAUSE_def TF_EPC_def TF_SIZE_def

lemmas reg_nums = r_v0_def r_v1_def r_a0_def r_a1_def r_t0_def r_t1_def r_t2_def r_k0_def r_sp_def

lemmas cp0_nums = CP0_INDEX_def CP0_ENTRYLO0_def CP0_BADVADDR_def CP0_ENTRYHI_def CP0_STATUS_def CP0_CAUSE_def CP0_EPC_def

text \<open>A \<^verbatim>\<open>struct Trapframe\<close> at an address.\<close>

definition tf_at :: "(u32 \<Rightarrow> u32) \<Rightarrow> u32 \<Rightarrow> trapframe" where
  "tf_at m b = \<lparr>tf_regs = (\<lambda>r. if r < 32 then m (b + TF_REG r) else 0), tf_status = m (b + TF_STATUS),
     tf_hi = m (b + TF_HI), tf_lo = m (b + TF_LO), tf_badvaddr = m (b + TF_BADVADDR),
     tf_cause = m (b + TF_CAUSE), tf_epc = m (b + TF_EPC)\<rparr>"

section \<open>Saving and restoring\<close>

definition save_special :: "instr list" where
  "save_special =
     [ADDIU r_sp r_sp (- TF_SIZE), SW r_k0 (TF_REG 29) r_sp,
      MFC0 r_k0 CP0_STATUS, SW r_k0 TF_STATUS r_sp,
      MFC0 r_k0 CP0_CAUSE, SW r_k0 TF_CAUSE r_sp,
      MFC0 r_k0 CP0_EPC, SW r_k0 TF_EPC r_sp,
      MFC0 r_k0 CP0_BADVADDR, SW r_k0 TF_BADVADDR r_sp,
      MFHI r_k0, SW r_k0 TF_HI r_sp,
      MFLO r_k0, SW r_k0 TF_LO r_sp]"

definition save_regs :: "instr list" where
  "save_regs = map (\<lambda>r. SW r (TF_REG r) r_sp) ([0..<29] @ [30, 31])"

definition save_all :: "cpu \<Rightarrow> cpu" where
  "save_all c =
     (let c = exec [MOVE r_k0 r_sp] c;
          c = (if sint (rdr r_sp c) < 0 then c else exec [LI r_sp KSTACKTOP] c)
      in exec (save_special @ save_regs) c)"

definition restore_some :: "instr list" where
  "restore_some =
     [LW r_v0 TF_STATUS r_sp, MTC0 r_v0 CP0_STATUS,
      LW r_v1 TF_LO r_sp, MTLO r_v1,
      LW r_v0 TF_HI r_sp, LW r_v1 TF_EPC r_sp, MTHI r_v0, MTC0 r_v1 CP0_EPC]
     @ map (\<lambda>r. LW r (TF_REG r) r_sp) ([31, 30, 28] @ rev [1..<26])"

definition ret_from_exception :: "cpu \<Rightarrow> cpu" where
  "ret_from_exception c =
     (let c = exec (restore_some @ [LW r_k0 TF_EPC r_sp, LW r_sp (TF_REG 29) r_sp]) c
      in c\<lparr>c_pc := rdr r_k0 c, c_cp0 := (c_cp0 c)(CP0_STATUS := pop_status (c_cp0 c CP0_STATUS))\<rparr>)"

section \<open>Handlers\<close>

definition build_handler :: "(cpu \<Rightarrow> cpu) \<Rightarrow> cpu \<Rightarrow> cpu" where
  "build_handler handler c =
     ret_from_exception (exec [ADDIU r_sp r_sp 8] (handler (exec [MOVE r_a0 r_sp, ADDIU r_sp r_sp (- 8)] c)))"

datatype handler = handle_int | handle_mod | handle_tlb | handle_sys | handle_reserved

definition exception_handlers :: "nat \<Rightarrow> handler" where
  "exception_handlers = (\<lambda>_. handle_reserved)(0 := handle_int, 2 := handle_tlb, 3 := handle_tlb,
     1 := handle_mod, 8 := handle_sys)"

definition exc_gen_entry :: "(handler \<Rightarrow> cpu \<Rightarrow> cpu) \<Rightarrow> cpu \<Rightarrow> cpu" where
  "exc_gen_entry run c =
     (let c = exec [MFC0 r_t0 CP0_CAUSE, ANDI r_t0 r_t0 0x7C] (save_all c)
      in run (exception_handlers (unat (rdr r_t0 c) div 4)) c)"

definition RTC_ACK :: u32 where "RTC_ACK = 0xB5000110"
definition RTC_FREQ :: u32 where "RTC_FREQ = 0xB5000100"

text \<open>Every interrupt falls through to the timer's code.\<close>

definition handle_int_code :: "(cpu \<Rightarrow> cpu) \<Rightarrow> cpu \<Rightarrow> cpu" where
  "handle_int_code sched c =
     sched (exec [MFC0 r_t0 CP0_CAUSE, MFC0 r_t2 CP0_STATUS, ANDR r_t0 r_t0 r_t2, ANDI r_t1 r_t0 STATUS_IM4,
       SW 0 RTC_ACK 0, LI r_a0 0] c)"

definition kclock_init :: "cpu \<Rightarrow> cpu" where
  "kclock_init = exec [LI r_t0 200, LI r_t1 KSEG1, LI r_t2 0x15000000, ORR r_t1 r_t1 r_t2,
     LI r_t2 0x100, ORR r_t1 r_t1 r_t2, SW r_t0 0 r_t1]"

definition env_pop_tf :: "cpu \<Rightarrow> cpu" where
  "env_pop_tf c = ret_from_exception (exec [SLL r_a1 r_a1 6, MTC0 r_a1 CP0_ENTRYHI, MOVE r_sp r_a0] c)"

definition enable_irq :: "cpu \<Rightarrow> cpu" where
  "enable_irq = exec [LI r_t0 (STATUS_CU0 OR STATUS_IM4 OR STATUS_IEc), MTC0 r_t0 CP0_STATUS]"

section \<open>The TLB\<close>

definition tlb_hit :: "u32 \<Rightarrow> (nat \<Rightarrow> u32 \<times> u32) \<Rightarrow> nat option" where
  "tlb_hit hi t = find (\<lambda>i. tlb_match hi (fst (t i)) (snd (t i))) [0..<64]"

definition tlbp :: "cpu \<Rightarrow> cpu" where
  "tlbp c = c\<lparr>c_cp0 := (c_cp0 c)(CP0_INDEX := (case tlb_hit (c_cp0 c CP0_ENTRYHI) (c_tlb c) of
     None \<Rightarrow> 0x80000000 | Some i \<Rightarrow> push_bit 8 (of_nat i)))\<rparr>"

definition tlb_write :: "nat \<Rightarrow> cpu \<Rightarrow> cpu" where
  "tlb_write i c = c\<lparr>c_tlb := (c_tlb c)(i := (c_cp0 c CP0_ENTRYHI, c_cp0 c CP0_ENTRYLO0))\<rparr>"

definition tlbwi :: "cpu \<Rightarrow> cpu" where
  "tlbwi c = tlb_write (unat (drop_bit 8 (c_cp0 c CP0_INDEX) AND 0x3F)) c"

definition tlb_out_code :: "cpu \<Rightarrow> cpu" where
  "tlb_out_code c =
     (let c = exec [MFC0 r_t1 CP0_INDEX] (tlbp (exec [MFC0 r_t0 CP0_ENTRYHI, MTC0 r_a0 CP0_ENTRYHI] c));
          c = (if sint (rdr r_t1 c) < 0 then c else tlbwi (exec [MTC0 0 CP0_ENTRYHI, MTC0 0 CP0_ENTRYLO0] c))
      in exec [MTC0 r_t0 CP0_ENTRYHI] c)"

text \<open>\<open>victim\<close> is the entry that \<^verbatim>\<open>tlbwr\<close> chooses.\<close>

definition do_tlb_refill_code :: "(cpu \<Rightarrow> cpu) \<Rightarrow> nat \<Rightarrow> cpu \<Rightarrow> cpu" where
  "do_tlb_refill_code refill victim c =
     tlb_write victim (exec [MTC0 r_v0 CP0_ENTRYLO0]
       (refill (exec [MFC0 r_a0 CP0_BADVADDR, MFC0 r_a1 CP0_ENTRYHI, SRL r_a1 r_a1 6, ANDI r_a1 r_a1 0x3F] c)))"

end
