(* ===== verification/Traps_Thms.thy ===== *)
theory Traps_Thms
  imports Traps
begin

text \<open>
  What the exception paths keep: \<^verbatim>\<open>SAVE_ALL\<close> builds the trap frame of the interrupted program,
  \<^verbatim>\<open>ret_from_exception\<close> loads whatever the frame then holds, so that a program which traps sees just
  what the handler did to its frame. \<^verbatim>\<open>tlb_out\<close> removes the entry that \<open>Pmap.tlb_out\<close> removes.
\<close>

section \<open>Runs of instructions\<close>

lemma exec_append [simp]: "exec (is @ js) c = exec js (exec is c)"
  by (induction "is" arbitrary: c) auto

lemma rdr_0 [simp]: "rdr 0 c = 0"
  by (simp add: rdr_def)

lemma rdr_wrr [simp]: "rdr r (wrr q v c) = (if r = q \<and> r \<noteq> 0 then v else rdr r c)"
  by (simp add: rdr_def wrr_def)

lemma rdr_upd [simp]:
  "rdr r (c\<lparr>c_ram := m\<rparr>) = rdr r c" "rdr r (c\<lparr>c_cp0 := x\<rparr>) = rdr r c" "rdr r (c\<lparr>c_hi := v\<rparr>) = rdr r c"
  "rdr r (c\<lparr>c_lo := v\<rparr>) = rdr r c" "rdr r (c\<lparr>c_pc := v\<rparr>) = rdr r c" "rdr r (c\<lparr>c_tlb := t\<rparr>) = rdr r c"
  by (simp_all add: rdr_def)

lemma wrr_fields [simp]:
  "c_ram (wrr r v c) = c_ram c" "c_cp0 (wrr r v c) = c_cp0 c" "c_hi (wrr r v c) = c_hi c"
  "c_lo (wrr r v c) = c_lo c" "c_pc (wrr r v c) = c_pc c" "c_tlb (wrr r v c) = c_tlb c"
  by (simp_all add: wrr_def)

lemma TF_REG_inj:
  assumes "r < 38" "q < 38"
  shows "TF_REG r = TF_REG q \<longleftrightarrow> r = q"
proof -
  have u: "unat (TF_REG x) = 4 * x" if "x < 38" for x
    unfolding TF_REG_def by (rule unat_of_nat_len) (use that in simp)
  have "unat (TF_REG r) = 4 * r" "unat (TF_REG q) = 4 * q" using u assms by blast+
  then show ?thesis by (metis mult_left_cancel zero_neq_numeral)
qed

text \<open>The other words of the frame are where registers 32 to 37 would be.\<close>

lemma tf_as_regs:
  "TF_STATUS = TF_REG 32" "TF_HI = TF_REG 33" "TF_LO = TF_REG 34" "TF_BADVADDR = TF_REG 35"
  "TF_CAUSE = TF_REG 36" "TF_EPC = TF_REG 37"
  by (simp_all add: tf_offsets TF_REG_def)

lemma tf_words: "tf_at m b = \<lparr>tf_regs = (\<lambda>r. if r < 32 then m (b + TF_REG r) else 0), tf_status = m (b + TF_REG 32),
     tf_hi = m (b + TF_REG 33), tf_lo = m (b + TF_REG 34), tf_badvaddr = m (b + TF_REG 35),
     tf_cause = m (b + TF_REG 36), tf_epc = m (b + TF_REG 37)\<rparr>"
  by (simp add: tf_at_def tf_as_regs)

lemma exec_stores:
  assumes "\<forall>r \<in> set rs. r < 38"
  shows "\<exists>m. exec (map (\<lambda>r. SW r (TF_REG r) b) rs) c = c\<lparr>c_ram := m\<rparr> \<and>
    (\<forall>r \<in> set rs. m (rdr b c + TF_REG r) = rdr r c) \<and>
    (\<forall>a. (\<forall>r \<in> set rs. a \<noteq> rdr b c + TF_REG r) \<longrightarrow> m a = c_ram c a)"
  using assms
proof (induction rs arbitrary: c)
  case Nil
  then show ?case by (auto intro: exI [of _ "c_ram c"])
next
  case (Cons q rs)
  let ?c = "c\<lparr>c_ram := (c_ram c)(rdr b c + TF_REG q := rdr q c)\<rparr>"
  obtain m where m: "exec (map (\<lambda>r. SW r (TF_REG r) b) rs) ?c = ?c\<lparr>c_ram := m\<rparr>"
      "\<forall>r \<in> set rs. m (rdr b c + TF_REG r) = rdr r c"
      "\<forall>a. (\<forall>r \<in> set rs. a \<noteq> rdr b c + TF_REG r) \<longrightarrow> m a = c_ram ?c a"
    using Cons.IH [of ?c] Cons.prems by auto
  have "m (rdr b c + TF_REG q) = rdr q c"
  proof (cases "q \<in> set rs")
    case False
    then have "\<forall>r \<in> set rs. rdr b c + TF_REG q \<noteq> rdr b c + TF_REG r"
      using TF_REG_inj [of q] Cons.prems by auto
    with m(3) show ?thesis by simp
  qed (use m(2) in simp)
  with m show ?case by (intro exI [of _ m]) simp
qed

lemma exec_loads:
  assumes "b \<notin> set rs" "0 \<notin> set rs"
  shows "exec (map (\<lambda>r. LW r (TF_REG r) b) rs) c =
    c\<lparr>c_gpr := (\<lambda>r. if r \<in> set rs then c_ram c (rdr b c + TF_REG r) else c_gpr c r)\<rparr>"
  using assms by (induction rs arbitrary: c) (auto simp: fun_eq_iff wrr_def rdr_def)

section \<open>The frame of the interrupted program\<close>

text \<open>
  The registers as a trap frame; register 26 has been overwritten by then, so its word holds
  \<^verbatim>\<open>lo\<close>.
\<close>

definition cpu_tf :: "cpu \<Rightarrow> trapframe" where
  "cpu_tf c = \<lparr>tf_regs = (\<lambda>r. if r = 26 then c_lo c else if r < 32 then rdr r c else 0),
     tf_status = c_cp0 c CP0_STATUS, tf_hi = c_hi c, tf_lo = c_lo c, tf_badvaddr = c_cp0 c CP0_BADVADDR,
     tf_cause = c_cp0 c CP0_CAUSE, tf_epc = c_cp0 c CP0_EPC\<rparr>"

definition frame_base :: "cpu \<Rightarrow> u32" where
  "frame_base c = (if sint (rdr r_sp c) < 0 then rdr r_sp c else KSTACKTOP) - TF_SIZE"

lemma save_special_run:
  fixes c :: cpu
  defines "b \<equiv> rdr 29 c - TF_SIZE"
  shows "exec save_special c = c\<lparr>c_gpr := (c_gpr c)(29 := b, 26 := c_lo c),
    c_ram := (c_ram c)(b + TF_REG 29 := rdr 26 c, b + TF_REG 32 := c_cp0 c CP0_STATUS, b + TF_REG 36 := c_cp0 c CP0_CAUSE,
      b + TF_REG 37 := c_cp0 c CP0_EPC, b + TF_REG 35 := c_cp0 c CP0_BADVADDR, b + TF_REG 33 := c_hi c,
      b + TF_REG 34 := c_lo c)\<rparr>"
  by (simp add: save_special_def b_def reg_nums tf_as_regs wrr_def rdr_def)

lemma save_all_run:
  shows "tf_at (c_ram (save_all c)) (frame_base c) = cpu_tf c" "rdr r_sp (save_all c) = frame_base c"
    "\<And>a. (\<And>k. k < 38 \<Longrightarrow> a \<noteq> frame_base c + TF_REG k) \<Longrightarrow> c_ram (save_all c) a = c_ram c a"
    "c_cp0 (save_all c) = c_cp0 c"
proof -
  let ?top = "if sint (rdr r_sp c) < 0 then rdr r_sp c else KSTACKTOP"
  let ?c1 = "c\<lparr>c_gpr := (c_gpr c)(26 := rdr 29 c, 29 := ?top)\<rparr>" and ?b = "frame_base c"
  define c2 where "c2 = exec save_special ?c1"
  let ?rs = "[0..<29] @ [30, 31]"
  have "(c_gpr c)(26 := v, 29 := c_gpr c 29) = (c_gpr c)(26 := v)" for v by (simp add: fun_eq_iff)
  then have all: "save_all c = exec save_regs c2"
    by (auto simp: c2_def save_all_def Let_def reg_nums wrr_def rdr_def fun_upd_twist)
  have c2: "c2 = c\<lparr>c_gpr := (c_gpr c)(26 := c_lo c, 29 := ?b),
    c_ram := (c_ram c)(?b + TF_REG 29 := rdr 29 c, ?b + TF_REG 32 := c_cp0 c CP0_STATUS, ?b + TF_REG 36 := c_cp0 c CP0_CAUSE,
      ?b + TF_REG 37 := c_cp0 c CP0_EPC, ?b + TF_REG 35 := c_cp0 c CP0_BADVADDR, ?b + TF_REG 33 := c_hi c,
      ?b + TF_REG 34 := c_lo c)\<rparr>"
    unfolding c2_def save_special_run by (simp add: frame_base_def rdr_def reg_nums fun_upd_twist)
  obtain m where m: "exec save_regs c2 = c2\<lparr>c_ram := m\<rparr>" "\<forall>r \<in> set ?rs. m (rdr r_sp c2 + TF_REG r) = rdr r c2"
      "\<forall>a. (\<forall>r \<in> set ?rs. a \<noteq> rdr r_sp c2 + TF_REG r) \<longrightarrow> m a = c_ram c2 a"
    using exec_stores [of ?rs r_sp c2] unfolding save_regs_def by auto
  have sp: "rdr r_sp c2 = ?b" unfolding c2 by (simp add: rdr_def reg_nums)
  note m = m [unfolded sp]
  have out: "m (?b + TF_REG k) = c_ram c2 (?b + TF_REG k)" if "k = 29 \<or> 32 \<le> k" "k < 38" for k
  proof -
    have "\<forall>r \<in> set ?rs. ?b + TF_REG k \<noteq> ?b + TF_REG r" using that by (auto simp: TF_REG_inj)
    with m(3) show ?thesis by blast
  qed
  have reg: "m (?b + TF_REG r) = (if r = 26 then c_lo c else rdr r c)" if "r < 32" for r
  proof (cases "r = 29")
    case True
    then show ?thesis using out [of 29] unfolding c2 by (simp add: TF_REG_inj)
  next
    case False
    then have "r \<in> set ?rs" using that by auto
    with m(2) have "m (?b + TF_REG r) = rdr r c2" by blast
    then show ?thesis using False unfolding c2 by (simp add: rdr_def)
  qed
  have rest: "m (?b + TF_REG 32) = c_cp0 c CP0_STATUS" "m (?b + TF_REG 33) = c_hi c" "m (?b + TF_REG 34) = c_lo c"
    "m (?b + TF_REG 35) = c_cp0 c CP0_BADVADDR" "m (?b + TF_REG 36) = c_cp0 c CP0_CAUSE" "m (?b + TF_REG 37) = c_cp0 c CP0_EPC"
    by (simp_all add: out) (simp_all add: c2 TF_REG_inj)
  show "tf_at (c_ram (save_all c)) ?b = cpu_tf c"
    unfolding all m(1) tf_words cpu_tf_def by (auto simp: rest reg)
  show "rdr r_sp (save_all c) = ?b" unfolding all m(1) rdr_upd by (rule sp)
  show "c_cp0 (save_all c) = c_cp0 c" unfolding all m(1) by (simp add: c2)
  show "c_ram (save_all c) a = c_ram c a" if "\<And>k. k < 38 \<Longrightarrow> a \<noteq> ?b + TF_REG k" for a
  proof -
    have "m a = c_ram c2 a" using m(3) that by auto
    also have "\<dots> = c_ram c a" using that unfolding c2 by simp
    finally show ?thesis unfolding all m(1) by simp
  qed
qed

lemma ret_run:
  fixes c :: cpu
  defines "tf \<equiv> tf_at (c_ram c) (rdr r_sp c)" and "d \<equiv> ret_from_exception c"
  shows "\<And>r. 0 < r \<Longrightarrow> r < 32 \<Longrightarrow> r \<noteq> 26 \<Longrightarrow> r \<noteq> 27 \<Longrightarrow> rdr r d = tf_regs tf r"
    "c_hi d = tf_hi tf" "c_lo d = tf_lo tf" "c_pc d = tf_epc tf" "c_cp0 d CP0_STATUS = pop_status (tf_status tf)"
    "c_ram d = c_ram c" "\<And>x. x \<noteq> CP0_STATUS \<Longrightarrow> x \<noteq> CP0_EPC \<Longrightarrow> c_cp0 d x = c_cp0 c x"
proof -
  let ?b = "rdr 29 c" and ?rs = "[31, 30, 28] @ rev [1..<26]" and ?m = "c_ram c"
  let ?c1 = "c\<lparr>c_gpr := (c_gpr c)(2 := ?m (?b + TF_REG 33), 3 := ?m (?b + TF_REG 37)), c_lo := ?m (?b + TF_REG 34),
    c_hi := ?m (?b + TF_REG 33), c_cp0 := (c_cp0 c)(CP0_STATUS := ?m (?b + TF_REG 32), CP0_EPC := ?m (?b + TF_REG 37))\<rparr>"
  let ?g = "\<lambda>r. if r \<in> set ?rs then ?m (?b + TF_REG r) else c_gpr ?c1 r"
  have "exec restore_some c = exec (map (\<lambda>r. LW r (TF_REG r) 29) ?rs) ?c1"
    unfolding restore_some_def exec_append r_sp_def
    by (rule arg_cong [where f = "exec (map (\<lambda>r. LW r (TF_REG r) 29) ?rs)"]) (simp add: reg_nums tf_as_regs wrr_def rdr_def cp0_nums)
  also have "\<dots> = ?c1\<lparr>c_gpr := ?g\<rparr>"
    by (subst exec_loads) (simp_all add: rdr_def cong: if_cong)
  finally have rs: "exec restore_some c = ?c1\<lparr>c_gpr := ?g\<rparr>" .
  have d: "d = ?c1\<lparr>c_gpr := ?g(26 := ?m (?b + TF_REG 37), 29 := ?m (?b + TF_REG 29)), c_pc := ?m (?b + TF_REG 37),
    c_cp0 := (c_cp0 ?c1)(CP0_STATUS := pop_status (?m (?b + TF_REG 32)))\<rparr>"
    unfolding d_def ret_from_exception_def exec_append rs
    by (simp add: Let_def reg_nums tf_as_regs wrr_def rdr_def cp0_nums)
  show "rdr r d = tf_regs tf r" if "0 < r" "r < 32" "r \<noteq> 26" "r \<noteq> 27" for r
    using that unfolding d tf_def tf_words by (auto simp: rdr_def reg_nums)
  show "c_hi d = tf_hi tf" "c_lo d = tf_lo tf" "c_pc d = tf_epc tf" "c_cp0 d CP0_STATUS = pop_status (tf_status tf)"
    "c_ram d = c_ram c" unfolding d tf_def tf_words by (simp_all add: reg_nums)
  show "c_cp0 d x = c_cp0 c x" if "x \<noteq> CP0_STATUS" "x \<noteq> CP0_EPC" for x
    using that unfolding d by simp
qed

section \<open>Traps\<close>

lemma pop_push_status: "pop_status (push_status x) AND NOT 0x30 = x AND NOT (0x30 :: u32)"
proof -
  have m: "(0x3F :: u32) = mask 6" "(0x3C :: u32) = push_bit 2 (mask 4)" "(0xF :: u32) = mask 4" "(0x30 :: u32) = push_bit 4 (mask 2)"
    by (simp_all add: mask_eq_exp_minus_1)
  show ?thesis
    unfolding pop_status_def push_status_def m
    by (rule bit_word_eqI) (auto simp: bit_simps)
qed

lemma take_exception_fields [simp]:
  "rdr r (take_exception cause badva c) = rdr r c" "c_hi (take_exception cause badva c) = c_hi c"
  "c_lo (take_exception cause badva c) = c_lo c" "c_cp0 (take_exception cause badva c) CP0_EPC = c_pc c"
  "c_cp0 (take_exception cause badva c) CP0_STATUS = push_status (c_cp0 c CP0_STATUS)"
  by (simp_all add: take_exception_def cp0_nums)

text \<open>
  C14. A program that traps sees what the handler made of its trap frame, and nothing else. When the
  handler that \<^verbatim>\<open>exception_handlers\<close> holds for the exception's code keeps the stack pointer and turns the frame
  its argument points to into \<open>f\<close> of it, then after the exception the registers (all but the scratch
  registers 26 and 27), \<^verbatim>\<open>hi\<close>, \<^verbatim>\<open>lo\<close> and the program counter are those of \<open>f\<close> of the frame of the
  interrupted program, and the status register is the frame's with the mode bits popped.
\<close>

theorem trap_runs_handler:
  fixes cause badva c h f k
  defines "c0 \<equiv> take_exception cause badva c"
  defines "tf \<equiv> f (cpu_tf c0)" and "d \<equiv> exc_gen_entry (\<lambda>k. build_handler (h k)) c0"
  assumes k: "k = exception_handlers (unat (cause AND 0x7C) div 4)"
    and sp: "\<forall>x. rdr r_sp (h k x) = rdr r_sp x"
    and frame: "\<forall>x. tf_at (c_ram (h k x)) (rdr r_a0 x) = f (tf_at (c_ram x) (rdr r_a0 x))"
  shows "(\<forall>r. 0 < r \<and> r < 32 \<and> r \<noteq> 26 \<and> r \<noteq> 27 \<longrightarrow> rdr r d = tf_regs tf r) \<and> c_hi d = tf_hi tf \<and> c_lo d = tf_lo tf \<and>
    c_pc d = tf_epc tf \<and> c_cp0 d CP0_STATUS = pop_status (tf_status tf)"
proof -
  let ?s = "save_all c0"
  let ?t = "exec [MFC0 r_t0 CP0_CAUSE, ANDI r_t0 r_t0 0x7C] ?s"
  let ?e = "exec [MOVE r_a0 r_sp, ADDIU r_sp r_sp (- 8)] ?t"
  let ?x = "exec [ADDIU r_sp r_sp 8] (h k ?e)"
  note s = save_all_run(1, 2) [of c0] save_all_run(4) [of c0]
  have code: "rdr r_t0 ?t = cause AND 0x7C"
    using s(3) by (simp add: c0_def take_exception_def reg_nums cp0_nums)
  have t: "rdr r_sp ?t = frame_base c0" "c_ram ?t = c_ram ?s" using s(2) by (simp_all add: reg_nums)
  have e: "rdr r_a0 ?e = frame_base c0" "rdr r_sp ?e = frame_base c0 - 8" "c_ram ?e = c_ram ?s"
    using t by (simp_all add: reg_nums)
  have x: "rdr r_sp ?x = frame_base c0" "c_ram ?x = c_ram (h k ?e)" using sp e(2) by (simp_all add: reg_nums)
  have d: "d = ret_from_exception ?x"
    unfolding d_def exc_gen_entry_def Let_def code k [symmetric] build_handler_def ..
  have "tf_at (c_ram ?x) (rdr r_sp ?x) = f (tf_at (c_ram ?e) (rdr r_a0 ?e))" unfolding x e(1) [symmetric] using frame by blast
  also have "\<dots> = tf" unfolding tf_def e(1, 3) s(1) ..
  finally have tf: "tf_at (c_ram ?x) (rdr r_sp ?x) = tf" .
  show ?thesis unfolding d using ret_run(1-5) [where c = ?x] unfolding tf by blast
qed

text \<open>
  A handler that leaves everything alone, at a system call: the program goes on at the same place with
  all its registers, and with all bits of the status register but the oldest pair.
\<close>

theorem trap_runs_handler_witness:
  "\<forall>badva c. let d = exc_gen_entry (\<lambda>k. build_handler (\<lambda>x. x)) (take_exception 0x20 badva c) in
    (\<forall>r. 0 < r \<and> r < 32 \<and> r \<noteq> 26 \<and> r \<noteq> 27 \<longrightarrow> rdr r d = rdr r c) \<and> c_hi d = c_hi c \<and> c_lo d = c_lo c \<and> c_pc d = c_pc c \<and>
    c_cp0 d CP0_STATUS AND NOT 0x30 = c_cp0 c CP0_STATUS AND NOT 0x30"
proof (intro allI)
  fix badva c
  show "let d = exc_gen_entry (\<lambda>k. build_handler (\<lambda>x. x)) (take_exception 0x20 badva c) in
    (\<forall>r. 0 < r \<and> r < 32 \<and> r \<noteq> 26 \<and> r \<noteq> 27 \<longrightarrow> rdr r d = rdr r c) \<and> c_hi d = c_hi c \<and> c_lo d = c_lo c \<and> c_pc d = c_pc c \<and>
    c_cp0 d CP0_STATUS AND NOT 0x30 = c_cp0 c CP0_STATUS AND NOT 0x30"
    using trap_runs_handler [where k = handle_sys and cause = "0x20" and h = "\<lambda>_ x. x" and f = "\<lambda>tf. tf" and badva = badva and c = c]
    by (simp add: Let_def exception_handlers_def cpu_tf_def pop_push_status [simplified])
qed

text \<open>\<^verbatim>\<open>env_pop_tf\<close> starts the program whose frame it is given.\<close>

lemma env_pop_tf_run:
  fixes c :: cpu
  defines "tf \<equiv> tf_at (c_ram c) (rdr r_a0 c)"
  shows "\<And>r. 0 < r \<Longrightarrow> r < 32 \<Longrightarrow> r \<noteq> 26 \<Longrightarrow> r \<noteq> 27 \<Longrightarrow> rdr r (env_pop_tf c) = tf_regs tf r"
    "c_pc (env_pop_tf c) = tf_epc tf" "c_cp0 (env_pop_tf c) CP0_STATUS = pop_status (tf_status tf)"
    "c_cp0 (env_pop_tf c) CP0_ENTRYHI = push_bit 6 (rdr r_a1 c)"
proof -
  let ?c = "exec [SLL r_a1 r_a1 6, MTC0 r_a1 CP0_ENTRYHI, MOVE r_sp r_a0] c"
  have c: "rdr r_sp ?c = rdr r_a0 c" "c_ram ?c = c_ram c" "c_cp0 ?c CP0_ENTRYHI = push_bit 6 (rdr r_a1 c)"
    by (simp_all add: reg_nums)
  note r = ret_run [where c = ?c, unfolded c(1, 2), folded tf_def]
  show "rdr r (env_pop_tf c) = tf_regs tf r" if "0 < r" "r < 32" "r \<noteq> 26" "r \<noteq> 27" for r
    unfolding env_pop_tf_def by (rule r(1) [OF that])
  show "c_pc (env_pop_tf c) = tf_epc tf" "c_cp0 (env_pop_tf c) CP0_STATUS = pop_status (tf_status tf)"
    unfolding env_pop_tf_def by (rule r)+
  have "c_cp0 (env_pop_tf c) CP0_ENTRYHI = c_cp0 ?c CP0_ENTRYHI"
    unfolding env_pop_tf_def by (rule r(7)) (simp_all add: cp0_nums)
  then show "c_cp0 (env_pop_tf c) CP0_ENTRYHI = push_bit 6 (rdr r_a1 c)" using c(3) by simp
qed

section \<open>Removing an entry of the TLB\<close>

text \<open>
  The entries that can be used, by their EntryHi value. The kernel never loads two entries for one
  address; the entries that \<^verbatim>\<open>tlb_out\<close> has overwritten all stand for page 0, which is never mapped.
\<close>

definition tlb_view :: "(nat \<Rightarrow> u32 \<times> u32) \<Rightarrow> u32 \<Rightarrow> u32 option" where
  "tlb_view t key = map_option (\<lambda>i. snd (t i)) (find (\<lambda>i. fst (t i) = key \<and> valid (snd (t i))) [0..<64])"

definition tlb_unique :: "(nat \<Rightarrow> u32 \<times> u32) \<Rightarrow> bool" where
  "tlb_unique t \<longleftrightarrow> (\<forall>hi i j. PTE_ADDR hi \<noteq> 0 \<and> i < 64 \<and> j < 64 \<and> tlb_match hi (fst (t i)) (snd (t i)) \<and>
     tlb_match hi (fst (t j)) (snd (t j)) \<longrightarrow> i = j)"

lemma tlb_uniqueD:
  "tlb_unique t \<Longrightarrow> PTE_ADDR hi \<noteq> 0 \<Longrightarrow> tlb_match hi (fst (t i)) (snd (t i)) \<Longrightarrow> tlb_match hi (fst (t j)) (snd (t j)) \<Longrightarrow>
    i < 64 \<Longrightarrow> j < 64 \<Longrightarrow> i = j"
  unfolding tlb_unique_def by blast

lemma tlb_out_code_run:
  fixes c :: cpu
  defines "d \<equiv> tlb_out_code c"
  shows "c_tlb d = (case tlb_hit (rdr r_a0 c) (c_tlb c) of None \<Rightarrow> c_tlb c | Some i \<Rightarrow> (c_tlb c)(i := (0, 0)))"
    "c_cp0 d CP0_ENTRYHI = c_cp0 c CP0_ENTRYHI"
proof -
  have i: "unat (drop_bit 8 (push_bit 8 (of_nat i)) AND 0x3F :: u32) = i" "\<not> sint (push_bit 8 (of_nat i) :: u32) < 0"
    if "i < 64" for i
  proof -
    have "\<forall>i \<in> set [0..<64]. unat (drop_bit 8 (push_bit 8 (of_nat i)) AND 0x3F :: u32) = i \<and>
        \<not> sint (push_bit 8 (of_nat i) :: u32) < 0"
      by (simp add: upt_rec push_bit_eq_mult drop_bit_eq_div)
    then show "unat (drop_bit 8 (push_bit 8 (of_nat i)) AND 0x3F :: u32) = i" "\<not> sint (push_bit 8 (of_nat i) :: u32) < 0"
      using that by simp_all
  qed
  have lt: "i < 64" if "tlb_hit hi t = Some i" for hi t i using that by (auto simp: tlb_hit_def find_Some_iff)
  show "c_tlb d = (case tlb_hit (rdr r_a0 c) (c_tlb c) of None \<Rightarrow> c_tlb c | Some i \<Rightarrow> (c_tlb c)(i := (0, 0)))"
    unfolding d_def tlb_out_code_def using i lt
    by (auto simp: Let_def tlbp_def tlbwi_def tlb_write_def reg_nums cp0_nums split: option.split)
  show "c_cp0 d CP0_ENTRYHI = c_cp0 c CP0_ENTRYHI"
    unfolding d_def tlb_out_code_def
    by (auto simp: Let_def tlbp_def tlbwi_def tlb_write_def reg_nums cp0_nums split: option.split)
qed

lemma find_cong_set: "(\<And>x. x \<in> set xs \<Longrightarrow> P x = Q x) \<Longrightarrow> find P xs = find Q xs"
  by (induction xs) auto

lemma tlb_view_SomeD:
  assumes "tlb_view t key = Some lo"
  shows "\<exists>j < 64. fst (t j) = key \<and> valid (snd (t j)) \<and> snd (t j) = lo"
proof -
  obtain j where "find (\<lambda>i. fst (t i) = key \<and> valid (snd (t i))) [0..<64] = Some j" "snd (t j) = lo"
    using assms by (auto simp: tlb_view_def)
  then show ?thesis by (auto simp: find_Some_iff)
qed

lemma tlb_view_remove:
  assumes u: "tlb_unique t" and hi: "PTE_ADDR hi \<noteq> 0" and i: "i < 64" "tlb_match hi (fst (t i)) (snd (t i))"
  shows "tlb_view (t(i := (0, 0))) key =
    (case tlb_view t key of None \<Rightarrow> None | Some lo \<Rightarrow> if tlb_match hi key lo then None else Some lo)"
proof (cases "fst (t i) = key \<and> valid (snd (t i))")
  case True
  then have key: "PTE_ADDR key \<noteq> 0" using i(2) hi by (simp add: tlb_match_def)
  have "j = i" if "j < 64" "fst (t j) = key" for j
    by (rule tlb_uniqueD [OF u key]) (use that i(1) True in \<open>simp_all add: tlb_match_def\<close>)
  then have only: "\<forall>j < 64. fst (t j) = key \<longrightarrow> j = i" by blast
  obtain j where j: "find (\<lambda>i. fst (t i) = key \<and> valid (snd (t i))) [0..<64] = Some j"
    using True i(1) by (cases "find (\<lambda>i. fst (t i) = key \<and> valid (snd (t i))) [0..<64]") (auto simp: find_None_iff)
  then have "j = i" using only by (auto simp: find_Some_iff)
  with j have "tlb_view t key = Some (snd (t i))" by (simp add: tlb_view_def)
  moreover have "tlb_view (t(i := (0, 0))) key = None"
    using only by (auto simp: tlb_view_def find_None_iff valid_def)
  ultimately show ?thesis using True i(2) by auto
next
  case False
  then have same: "tlb_view (t(i := (0, 0))) key = tlb_view t key"
  proof -
    have f: "find (\<lambda>j. fst ((t(i := (0, 0))) j) = key \<and> valid (snd ((t(i := (0, 0))) j))) [0..<64] =
        find (\<lambda>j. fst (t j) = key \<and> valid (snd (t j))) [0..<64]"
      by (rule find_cong_set) (use False in \<open>auto simp: valid_def\<close>)
    show ?thesis
      unfolding tlb_view_def f using False by (auto simp: find_Some_iff intro!: map_option_cong)
  qed
  have "\<not> tlb_match hi key lo" if v: "tlb_view t key = Some lo" for lo
  proof
    assume m: "tlb_match hi key lo"
    obtain j where j: "j < 64" "fst (t j) = key" "valid (snd (t j))" "snd (t j) = lo"
      using tlb_view_SomeD [OF v] by blast
    then have "j = i" using tlb_uniqueD [OF u hi _ i(2) _ i(1)] m by blast
    with j False show False by blast
  qed
  then show ?thesis unfolding same by (auto split: option.split)
qed

text \<open>
  C15. The assembler of \<^verbatim>\<open>tlb_out\<close> does to the 64 entries of the TLB what the kernel's memory management
  takes it to do: for the entries that can be used it has the effect of \<open>Pmap.tlb_out\<close> on the
  EntryHi value in \<^verbatim>\<open>a0\<close>, at most the one entry found is changed, and EntryHi is as before.
\<close>

theorem tlb_out_refines:
  fixes c :: cpu and s :: kstate
  assumes u: "tlb_unique (c_tlb c)" and hi: "PTE_ADDR (rdr r_a0 c) \<noteq> 0"
  shows "tlb_out (rdr r_a0 c) (s\<lparr>tlb := tlb_view (c_tlb c)\<rparr>) = Done () (s\<lparr>tlb := tlb_view (c_tlb (tlb_out_code c))\<rparr>) \<and>
    tlb_unique (c_tlb (tlb_out_code c)) \<and> c_cp0 (tlb_out_code c) CP0_ENTRYHI = c_cp0 c CP0_ENTRYHI"
proof (cases "tlb_hit (rdr r_a0 c) (c_tlb c)")
  case None
  then have t: "c_tlb (tlb_out_code c) = c_tlb c" using tlb_out_code_run(1) [of c] by simp
  have "\<not> tlb_match (rdr r_a0 c) key lo" if "tlb_view (c_tlb c) key = Some lo" for key lo
    using that None by (auto simp: tlb_view_def find_Some_iff tlb_hit_def find_None_iff)
  then have "(\<lambda>key. case tlb_view (c_tlb c) key of None \<Rightarrow> None | Some lo \<Rightarrow> if tlb_match (rdr r_a0 c) key lo then None else Some lo)
      = tlb_view (c_tlb c)"
    by (auto simp: fun_eq_iff split: option.split)
  then show ?thesis using t u tlb_out_code_run(2) [of c] by (simp add: tlb_out_def modifyK_def)
next
  case (Some i)
  then have i: "i < 64" "tlb_match (rdr r_a0 c) (fst (c_tlb c i)) (snd (c_tlb c i))" by (auto simp: tlb_hit_def find_Some_iff)
  have t: "c_tlb (tlb_out_code c) = (c_tlb c)(i := (0, 0))" using Some tlb_out_code_run(1) [of c] by simp
  have "tlb_unique ((c_tlb c)(i := (0, 0)))"
    using u unfolding tlb_unique_def by (auto simp: tlb_match_def PTE_ADDR_def)
  moreover have "tlb_view ((c_tlb c)(i := (0, 0))) =
      (\<lambda>key. case tlb_view (c_tlb c) key of None \<Rightarrow> None | Some lo \<Rightarrow> if tlb_match (rdr r_a0 c) key lo then None else Some lo)"
    by (rule ext) (rule tlb_view_remove [OF u hi i])
  ultimately show ?thesis
    using t tlb_out_code_run(2) [of c] by (simp add: tlb_out_def modifyK_def)
qed

theorem tlb_out_refines_witness:
  "\<forall>c s. tlb_out 0x400040 (s\<lparr>tlb := tlb_view (\<lambda>i. (of_nat i * 0x100000 + 0x40, 0x200))\<rparr>) =
    Done () (s\<lparr>tlb := tlb_view (c_tlb (tlb_out_code (c\<lparr>c_gpr := (\<lambda>_. 0x400040), c_tlb := (\<lambda>i. (of_nat i * 0x100000 + 0x40, 0x200))\<rparr>)))\<rparr>)"
proof (intro allI)
  fix c :: cpu and s
  let ?c = "c\<lparr>c_gpr := (\<lambda>_. 0x400040), c_tlb := (\<lambda>i. (of_nat i * 0x100000 + 0x40, 0x200))\<rparr>"
  have "inj_on (\<lambda>i. PTE_ADDR (of_nat i * 0x100000 + 0x40)) {..<64}"
  proof (rule inj_on_inverseI)
    have "\<forall>i \<in> set [0..<64]. unat (PTE_ADDR (of_nat i * 0x100000 + 0x40)) div 0x100000 = i"
      by (simp add: upt_rec PTE_ADDR_def)
    then show "unat (PTE_ADDR (of_nat i * 0x100000 + 0x40)) div 0x100000 = i" if "i \<in> {..<64}" for i
      using that by simp
  qed
  then have "tlb_unique (c_tlb ?c)"
    by (auto simp: tlb_unique_def tlb_match_def inj_on_def)
  moreover have "PTE_ADDR (rdr r_a0 ?c) \<noteq> 0" by (simp add: rdr_def reg_nums PTE_ADDR_def)
  ultimately show "tlb_out 0x400040 (s\<lparr>tlb := tlb_view (\<lambda>i. (of_nat i * 0x100000 + 0x40, 0x200))\<rparr>) =
    Done () (s\<lparr>tlb := tlb_view (c_tlb (tlb_out_code ?c))\<rparr>)"
    using tlb_out_refines [of ?c s] by (simp add: rdr_def reg_nums)
qed

end
