(* ===== verification/Ulib.thy ===== *)
theory Ulib
  imports Fork
begin

text \<open>
  The glue of the user library over the kernel: the system call stubs of
  \<^verbatim>\<open>user/lib/syscall_lib.c\<close> and \<^verbatim>\<open>syscall_wrap.S\<close>, messages (\<^verbatim>\<open>ipc.c\<close>), waiting for a child
  (\<^verbatim>\<open>wait.c\<close>) and the start and end of a process (\<^verbatim>\<open>libos.c\<close>). While the kernel serves a call, the
  caller's registers are the trap frame \<open>kstack_tf\<close>. Where the caller is descheduled, \<open>others\<close> says what the
  other environments do until it runs again.
\<close>

section \<open>System call stubs\<close>

datatype sysno = SYS_putchar | SYS_print_cons | SYS_getenvid | SYS_yield | SYS_env_destroy
  | SYS_set_tlb_mod_entry | SYS_mem_alloc | SYS_mem_map | SYS_mem_unmap | SYS_exofork | SYS_set_env_status
  | SYS_set_trapframe | SYS_panic | SYS_ipc_try_send | SYS_ipc_recv | SYS_cgetc | SYS_write_dev | SYS_read_dev
  | SYS_get_path | SYS_set_path

fun sys_number :: "sysno \<Rightarrow> nat" where
  "sys_number SYS_putchar = 0" | "sys_number SYS_print_cons = 1" | "sys_number SYS_getenvid = 2"
| "sys_number SYS_yield = 3" | "sys_number SYS_env_destroy = 4" | "sys_number SYS_set_tlb_mod_entry = 5"
| "sys_number SYS_mem_alloc = 6" | "sys_number SYS_mem_map = 7" | "sys_number SYS_mem_unmap = 8"
| "sys_number SYS_exofork = 9" | "sys_number SYS_set_env_status = 10" | "sys_number SYS_set_trapframe = 11"
| "sys_number SYS_panic = 12" | "sys_number SYS_ipc_try_send = 13" | "sys_number SYS_ipc_recv = 14"
| "sys_number SYS_cgetc = 15" | "sys_number SYS_write_dev = 16" | "sys_number SYS_read_dev = 17"
| "sys_number SYS_get_path = 18" | "sys_number SYS_set_path = 19"

text \<open>The first four arguments of a function go in registers, the others above the stack pointer.\<close>

definition put_regs :: "u32 list \<Rightarrow> kstate \<Rightarrow> kstate" where
  "put_regs args s = s\<lparr>kstack_tf := (kstack_tf s)\<lparr>tf_regs := (\<lambda>i.
     if 4 \<le> i \<and> i < 8 \<and> i - 4 < length args then args ! (i - 4) else tf_regs (kstack_tf s) i)\<rparr>\<rparr>"

definition msyscall :: "(u32 \<Rightarrow> u8) \<Rightarrow> u32 \<Rightarrow> sysno \<Rightarrow> u32 list \<Rightarrow> (kstate, u32) kprog" where
  "msyscall rd junk no args =
     bindK (getsK (\<lambda>s. tf_regs (kstack_tf s) 29)) (\<lambda>sp.
     seqK (store_words (drop 3 args) (sp + 16))
    (seqK (modifyK (put_regs (of_nat (sys_number no) # take 3 args)))
    (seqK (do_syscall rd junk)
          (getsK (\<lambda>s. tf_regs (kstack_tf s) 2)))))"

definition no_result :: "(kstate, u32) kprog \<Rightarrow> (kstate, unit) kprog" where
  "no_result m = bindK m (\<lambda>_. retK ())"

definition syscall_putchar :: "(u32 \<Rightarrow> u8) \<Rightarrow> u32 \<Rightarrow> u32 \<Rightarrow> (kstate, unit) kprog" where
  "syscall_putchar rd junk ch = no_result (msyscall rd junk SYS_putchar [ch])"

definition syscall_print_cons :: "(u32 \<Rightarrow> u8) \<Rightarrow> u32 \<Rightarrow> u32 \<Rightarrow> u32 \<Rightarrow> (kstate, u32) kprog" where
  "syscall_print_cons rd junk str num = msyscall rd junk SYS_print_cons [str, num]"

definition syscall_getenvid :: "(u32 \<Rightarrow> u8) \<Rightarrow> u32 \<Rightarrow> (kstate, u32) kprog" where
  "syscall_getenvid rd junk = msyscall rd junk SYS_getenvid []"

definition syscall_yield :: "(u32 \<Rightarrow> u8) \<Rightarrow> u32 \<Rightarrow> (kstate, unit) kprog" where
  "syscall_yield rd junk = no_result (msyscall rd junk SYS_yield [])"

definition syscall_env_destroy :: "(u32 \<Rightarrow> u8) \<Rightarrow> u32 \<Rightarrow> u32 \<Rightarrow> (kstate, u32) kprog" where
  "syscall_env_destroy rd junk envid = msyscall rd junk SYS_env_destroy [envid]"

definition syscall_set_tlb_mod_entry :: "(u32 \<Rightarrow> u8) \<Rightarrow> u32 \<Rightarrow> u32 \<Rightarrow> u32 \<Rightarrow> (kstate, u32) kprog" where
  "syscall_set_tlb_mod_entry rd junk envid func = msyscall rd junk SYS_set_tlb_mod_entry [envid, func]"

definition syscall_mem_alloc :: "(u32 \<Rightarrow> u8) \<Rightarrow> u32 \<Rightarrow> u32 \<Rightarrow> u32 \<Rightarrow> u32 \<Rightarrow> (kstate, u32) kprog" where
  "syscall_mem_alloc rd junk envid va perm = msyscall rd junk SYS_mem_alloc [envid, va, perm]"

definition syscall_mem_map ::
    "(u32 \<Rightarrow> u8) \<Rightarrow> u32 \<Rightarrow> u32 \<Rightarrow> u32 \<Rightarrow> u32 \<Rightarrow> u32 \<Rightarrow> u32 \<Rightarrow> (kstate, u32) kprog" where
  "syscall_mem_map rd junk srcid srcva dstid dstva perm =
     msyscall rd junk SYS_mem_map [srcid, srcva, dstid, dstva, perm]"

definition syscall_mem_unmap :: "(u32 \<Rightarrow> u8) \<Rightarrow> u32 \<Rightarrow> u32 \<Rightarrow> u32 \<Rightarrow> (kstate, u32) kprog" where
  "syscall_mem_unmap rd junk envid va = msyscall rd junk SYS_mem_unmap [envid, va]"

text \<open>\<^verbatim>\<open>syscall_exofork\<close> is an inline function of \<^verbatim>\<open>lib.h\<close>, which passes five zeroes.\<close>

definition syscall_exofork :: "(u32 \<Rightarrow> u8) \<Rightarrow> u32 \<Rightarrow> (kstate, u32) kprog" where
  "syscall_exofork rd junk = msyscall rd junk SYS_exofork [0, 0, 0, 0, 0]"

definition syscall_set_env_status :: "(u32 \<Rightarrow> u8) \<Rightarrow> u32 \<Rightarrow> u32 \<Rightarrow> u32 \<Rightarrow> (kstate, u32) kprog" where
  "syscall_set_env_status rd junk envid status = msyscall rd junk SYS_set_env_status [envid, status]"

definition syscall_set_trapframe :: "(u32 \<Rightarrow> u8) \<Rightarrow> u32 \<Rightarrow> u32 \<Rightarrow> u32 \<Rightarrow> (kstate, u32) kprog" where
  "syscall_set_trapframe rd junk envid tf = msyscall rd junk SYS_set_trapframe [envid, tf]"

definition syscall_panic :: "(u32 \<Rightarrow> u8) \<Rightarrow> u32 \<Rightarrow> u32 \<Rightarrow> (kstate, unit) kprog" where
  "syscall_panic rd junk msg = seqK (msyscall rd junk SYS_panic [msg]) (panicK ''SYS_panic returned'')"

definition syscall_ipc_try_send ::
    "(u32 \<Rightarrow> u8) \<Rightarrow> u32 \<Rightarrow> u32 \<Rightarrow> u32 \<Rightarrow> u32 \<Rightarrow> u32 \<Rightarrow> (kstate, u32) kprog" where
  "syscall_ipc_try_send rd junk envid val srcva perm = msyscall rd junk SYS_ipc_try_send [envid, val, srcva, perm]"

definition syscall_ipc_recv :: "(u32 \<Rightarrow> u8) \<Rightarrow> u32 \<Rightarrow> u32 \<Rightarrow> (kstate, u32) kprog" where
  "syscall_ipc_recv rd junk dstva = msyscall rd junk SYS_ipc_recv [dstva]"

definition syscall_cgetc :: "(u32 \<Rightarrow> u8) \<Rightarrow> u32 \<Rightarrow> (kstate, u32) kprog" where
  "syscall_cgetc rd junk = msyscall rd junk SYS_cgetc []"

text \<open>These two functions have no \<^verbatim>\<open>return\<close> statement; \<open>lost\<close> is the value their callers see.\<close>

definition syscall_write_dev ::
    "(u32 \<Rightarrow> u8) \<Rightarrow> u32 \<Rightarrow> u32 \<Rightarrow> u32 \<Rightarrow> u32 \<Rightarrow> u32 \<Rightarrow> (kstate, u32) kprog" where
  "syscall_write_dev rd junk lost va dev len = bindK (msyscall rd junk SYS_write_dev [va, dev, len]) (\<lambda>_. retK lost)"

definition syscall_read_dev ::
    "(u32 \<Rightarrow> u8) \<Rightarrow> u32 \<Rightarrow> u32 \<Rightarrow> u32 \<Rightarrow> u32 \<Rightarrow> u32 \<Rightarrow> (kstate, u32) kprog" where
  "syscall_read_dev rd junk lost va dev len = bindK (msyscall rd junk SYS_read_dev [va, dev, len]) (\<lambda>_. retK lost)"

definition syscall_set_path :: "(u32 \<Rightarrow> u8) \<Rightarrow> u32 \<Rightarrow> u32 \<Rightarrow> (kstate, unit) kprog" where
  "syscall_set_path rd junk path = no_result (msyscall rd junk SYS_set_path [path])"

definition syscall_get_path :: "(u32 \<Rightarrow> u8) \<Rightarrow> u32 \<Rightarrow> u32 \<Rightarrow> (kstate, unit) kprog" where
  "syscall_get_path rd junk newpath = no_result (msyscall rd junk SYS_get_path [newpath])"

section \<open>Messages\<close>

text \<open>A call that gives up the processor, and comes back when \<open>others\<close> are done.\<close>

definition resume :: "(kstate \<Rightarrow> kstate) \<Rightarrow> (kstate, sysres) kprog \<Rightarrow> (kstate, sysres) kprog" where
  "resume others m s = (case m s of Done r t \<Rightarrow> Done r t | Panic msg \<Rightarrow> Panic msg | Away t \<Rightarrow> Done (Inr 0) (others t))"

text \<open>The loop of \<^verbatim>\<open>ipc_send\<close> with the number of attempts as fuel.\<close>

fun ipc_send :: "(kstate \<Rightarrow> kstate) \<Rightarrow> nat \<Rightarrow> u32 \<Rightarrow> u32 \<Rightarrow> u32 \<Rightarrow> u32 \<Rightarrow> (kstate, unit) kprog" where
  "ipc_send others 0 whom val srcva perm = panicK ''ipc_send loops''"
| "ipc_send others (Suc n) whom val srcva perm =
     bindK (sys_ipc_try_send whom val srcva perm) (\<lambda>r.
     if r = Inl E_IPC_NOT_RECV then
       bindK (resume others sys_yield) (\<lambda>_. ipc_send others n whom val srcva perm)
     else assertK (sys_value r = 0) ''assertion failed: r == 0'')"

text \<open>The value, the sender and the permissions; \<^verbatim>\<open>env\<close> is the process's own entry of \<^verbatim>\<open>envs\<close>.\<close>

definition ipc_recv :: "(kstate \<Rightarrow> kstate) \<Rightarrow> nat \<Rightarrow> u32 \<Rightarrow> (kstate, u32 \<times> u32 \<times> u32) kprog" where
  "ipc_recv others env dstva =
     bindK (resume others (sys_ipc_recv dstva)) (\<lambda>r.
     if sys_value r \<noteq> 0 then panicK ''syscall_ipc_recv err''
     else getsK (\<lambda>s. (env_ipc_value (envs s env), env_ipc_from (envs s env), env_ipc_perm (envs s env))))"

section \<open>Processes\<close>

text \<open>The loop of \<^verbatim>\<open>wait\<close> with the number of looks at the environment as fuel.\<close>

fun wait :: "(kstate \<Rightarrow> kstate) \<Rightarrow> nat \<Rightarrow> u32 \<Rightarrow> (kstate, unit) kprog" where
  "wait others 0 envid = panicK ''wait loops''"
| "wait others (Suc n) envid =
     bindK (getsK (\<lambda>s. envs s (ENVX envid))) (\<lambda>e.
     if env_id e = envid \<and> env_status e \<noteq> ENV_FREE then
       bindK (resume others sys_yield) (\<lambda>_. wait others n envid)
     else retK ())"

text \<open>\<open>close_all\<close> is \<open>Fd.close_all\<close> on the process's memory; \<open>main\<close> is the program.\<close>

definition exit :: "(kstate, unit) kprog \<Rightarrow> (kstate, unit) kprog" where
  "exit close_all = seqK close_all (seqK (ignore (sys_env_destroy 0)) (panicK ''unreachable code''))"

definition libmain :: "(kstate, unit) kprog \<Rightarrow> (nat \<Rightarrow> u32 \<Rightarrow> u32 \<Rightarrow> (kstate, unit) kprog) \<Rightarrow> u32 \<Rightarrow> u32 \<Rightarrow> (kstate, unit) kprog" where
  "libmain close_all main argc argv =
     bindK sys_getenvid (\<lambda>r.
     seqK (main (ENVX (sys_value r)) argc argv) (exit close_all))"

end
