(* ===== verification/Ulib_Thms.thy ===== *)
theory Ulib_Thms
  imports Ulib Ipc_Thms
begin

text \<open>
  The user library against the kernel: each stub runs the handler of its name with the caller's
  arguments in order, a message that is sent until it is taken arrives, and waiting ends.
\<close>

section \<open>Stubs\<close>

text \<open>The words of the fifth and sixth argument can be written without a TLB refill.\<close>

definition arg_slot :: "kstate \<Rightarrow> u32 \<Rightarrow> nat \<times> nat" where
  "arg_slot s va = (PPN (the (tlb s (tlb_key (cur_asid s) va))), unat va mod 4096 div 4)"

definition arg_hot :: "kstate \<Rightarrow> u32 \<Rightarrow> bool" where
  "arg_hot s va \<longleftrightarrow> va AND 3 = 0 \<and> va < ULIM \<and>
     (\<exists>lo. tlb s (tlb_key (cur_asid s) va) = Some lo \<and> valid lo \<and> lo AND PTE_D \<noteq> 0)"

abbreviation user_sp :: "kstate \<Rightarrow> u32" where "user_sp s \<equiv> tf_regs (kstack_tf s) 29"

definition stack_hot :: "kstate \<Rightarrow> bool" where
  "stack_hot s \<longleftrightarrow> arg_hot s (user_sp s + 16) \<and> arg_hot s (user_sp s + 20)"

lemma hot_load: "arg_hot s va \<Longrightarrow> load_word va s = Done (mem s (fst (arg_slot s va)) (snd (arg_slot s va))) s"
  by (auto simp: arg_hot_def load_word_def translate_def run_rules arg_slot_def)

lemma hot_store: "arg_hot s va \<Longrightarrow> store_word va w s = Done () (store (fst (arg_slot s va)) (snd (arg_slot s va)) w s)"
  by (auto simp: arg_hot_def store_word_def translate_def run_rules arg_slot_def)

lemma cur_asid_simps [simp]: "cur_asid (store f i w s) = cur_asid s" "cur_asid (put_regs rs s) = cur_asid s"
  "cur_asid (s\<lparr>kstack_tf := t\<rparr>) = cur_asid s"
  by (simp_all add: cur_asid_def store_def put_regs_def split: option.split)

lemma tlb_simps [simp]: "tlb (store f i w s) = tlb s" "tlb (put_regs rs s) = tlb s" "mem (put_regs rs s) = mem s"
  "kstack_tf (store f i w s) = kstack_tf s"
  by (simp_all add: store_def put_regs_def)

lemma mem_store: "mem (store f i w s) f' i' = (if f' = f \<and> i' = i then w else mem s f' i')"
  by (simp add: store_def)

lemma arg_hot_simps [simp]:
  "arg_hot (store f i w s) va = arg_hot s va" "arg_hot (put_regs rs s) va = arg_hot s va"
  "arg_hot (s\<lparr>kstack_tf := t\<rparr>) va = arg_hot s va"
  "arg_slot (store f i w s) va = arg_slot s va" "arg_slot (put_regs rs s) va = arg_slot s va"
  "arg_slot (s\<lparr>kstack_tf := t\<rparr>) va = arg_slot s va"
  by (simp_all add: arg_hot_def arg_slot_def)

lemma slots_differ: "snd (arg_slot s (sp + 16)) \<noteq> snd (arg_slot s (sp + 20))"
proof -
  have m: "unat (x + of_nat k) mod 4096 = (unat x + k) mod 4096" if "k < 32" for x :: u32 and k
  proof -
    have "unat (x + of_nat k) mod 4096 = (unat x + k) mod 4294967296 mod 4096"
      using that by (simp add: unat_word_ariths unat_of_nat take_bit_eq_mod)
    moreover have "(4096 :: nat) dvd 4294967296" by simp
    ultimately show ?thesis by (simp only: mod_mod_cancel)
  qed
  have m16: "unat (sp + 16) mod 4096 = (unat sp + 16) mod 4096" and m20: "unat (sp + 20) mod 4096 = (unat sp + 20) mod 4096"
    using m [of 16 sp] m [of 20 sp] by simp_all
  have "(unat (sp + 16) + 4) mod 4096 = (unat (sp + 16) mod 4096 + 4) mod 4096" by (rule mod_add_left_eq [symmetric])
  also have "\<dots> = (unat sp + 16 + 4) mod 4096" unfolding m16 by (rule mod_add_left_eq)
  also have "\<dots> = unat (sp + 20) mod 4096" unfolding m20 by (simp only: add.assoc) simp
  finally have "unat (sp + 20) mod 4096 = (unat (sp + 16) + 4) mod 4096" ..
  moreover have "n mod 4096 div 4 \<noteq> (n + 4) mod 4096 div 4" for n :: nat
  proof (cases "n mod 4096 < 4092")
    case True
    then have "(n mod 4096 + 4) mod 4096 = n mod 4096 + 4" by simp
    then show ?thesis by (simp add: mod_add_left_eq)
  next
    case False
    then have ge: "1023 \<le> n mod 4096 div 4" by linarith
    have "n mod 4096 < 4096" by simp
    then have "(n mod 4096 + 4) mod 4096 = n mod 4096 + 4 - 4096" "n mod 4096 + 4 - 4096 < 4" using False by (auto simp: le_mod_geq)
    with ge show ?thesis by (simp add: mod_add_left_eq)
  qed
  ultimately show ?thesis by (simp add: arg_slot_def)
qed

text \<open>The state in which the handler starts: the arguments in place and the program counter moved on.\<close>

definition entered :: "sysno \<Rightarrow> u32 list \<Rightarrow> kstate \<Rightarrow> kstate" where
  "entered no args s =
     (let sp = user_sp s;
          s = (if 3 < length args then store (fst (arg_slot s (sp + 16))) (snd (arg_slot s (sp + 16))) (args ! 3) s else s);
          s = (if 4 < length args then store (fst (arg_slot s (sp + 20))) (snd (arg_slot s (sp + 20))) (args ! 4) s else s);
          s = put_regs (of_nat (sys_number no) # take 3 args) s
      in s\<lparr>kstack_tf := (kstack_tf s)\<lparr>tf_epc := tf_epc (kstack_tf s) + 4\<rparr>\<rparr>)"

definition served :: "(kstate, sysres) kprog \<Rightarrow> (kstate, u32) kprog" where
  "served m = bindK m (\<lambda>v. seqK (set_v0 (sys_value v)) (retK (sys_value v)))"

lemma args_cases:
  assumes "length args \<le> 5"
  obtains "args = []" | a where "args = [a]" | a b where "args = [a, b]" | a b c where "args = [a, b, c]"
    | a b c d where "args = [a, b, c, d]" | a b c d e where "args = [a, b, c, d, e]"
proof -
  have "length args = 0 \<or> length args = 1 \<or> length args = 2 \<or> length args = 3 \<or> length args = 4 \<or> length args = 5"
    using assms by linarith
  then show ?thesis using that by (auto simp: length_Suc_conv numeral_eq_Suc)
qed

lemma sys_number_less: "sys_number no < 20"
  by (cases no) simp_all

text \<open>What the registers and words beyond the arguments hold does not matter to the handlers.\<close>

lemma msyscall_run:
  assumes hot: "stack_hot s" and len: "length args \<le> 5"
  shows "\<exists>a1 a2 a3 a4 a5. (\<forall>i < length args. [a1, a2, a3, a4, a5] ! i = args ! i) \<and>
    msyscall rd junk no args s = served (syscall_table rd junk (sys_number no) a1 a2 a3 a4 a5) (entered no args s)"
proof -
  have h: "arg_hot s (user_sp s + 16)" "arg_hot s (user_sp s + 20)" using hot by (simp_all add: stack_hot_def)
  have no: "\<not> sint (of_nat (sys_number no) :: u32) < 0" "\<not> int MAX_SYSNO \<le> sint (of_nat (sys_number no) :: u32)"
    "unat (of_nat (sys_number no) :: u32) = sys_number no"
    by (cases no; simp add: MAX_SYSNO_def)+
  have regs: "tf_regs (kstack_tf (put_regs rs t)) i = (if 4 \<le> i \<and> i < 8 \<and> i - 4 < length rs then rs ! (i - 4) else tf_regs (kstack_tf t) i)"
    for rs t i by (simp add: put_regs_def)
  let ?e = "entered no args s" and ?r = "\<lambda>i. tf_regs (kstack_tf (entered no args s)) i"
  let ?m = "\<lambda>k. mem ?e (fst (arg_slot s (user_sp s + k))) (snd (arg_slot s (user_sp s + k)))"
  have eq: "msyscall rd junk no args s = served (syscall_table rd junk (sys_number no) (?r 5) (?r 6) (?r 7) (?m 16) (?m 20)) ?e"
    using len
  proof (cases rule: args_cases)
  qed (simp_all add: msyscall_def do_syscall_def run_rules regs no hot_load hot_store h entered_def Let_def served_def set_v0_def set_tf_reg_def
      add.assoc split: outcome.split)
  have "\<forall>i < length args. [?r 5, ?r 6, ?r 7, ?m 16, ?m 20] ! i = args ! i"
    using len
  proof (cases rule: args_cases)
  qed (auto simp: entered_def Let_def regs less_Suc_eq mem_store slots_differ slots_differ [symmetric])
  with eq show ?thesis by blast
qed

lemma msyscall_args:
  assumes hot: "stack_hot s"
  shows "\<exists>a1 a2 a3 a4 a5. msyscall rd junk no [] s = served (syscall_table rd junk (sys_number no) a1 a2 a3 a4 a5) (entered no [] s)"
    "\<exists>a2 a3 a4 a5. msyscall rd junk no [a] s = served (syscall_table rd junk (sys_number no) a a2 a3 a4 a5) (entered no [a] s)"
    "\<exists>a3 a4 a5. msyscall rd junk no [a, b] s = served (syscall_table rd junk (sys_number no) a b a3 a4 a5) (entered no [a, b] s)"
    "\<exists>a4 a5. msyscall rd junk no [a, b, c] s = served (syscall_table rd junk (sys_number no) a b c a4 a5) (entered no [a, b, c] s)"
    "\<exists>a5. msyscall rd junk no [a, b, c, d] s = served (syscall_table rd junk (sys_number no) a b c d a5) (entered no [a, b, c, d] s)"
    "msyscall rd junk no [a, b, c, d, e] s = served (syscall_table rd junk (sys_number no) a b c d e) (entered no [a, b, c, d, e] s)"
proof -
  note run = msyscall_run [OF hot, of _ rd junk no]
  show "\<exists>a1 a2 a3 a4 a5. msyscall rd junk no [] s = served (syscall_table rd junk (sys_number no) a1 a2 a3 a4 a5) (entered no [] s)"
    using run [of "[]"] by (auto simp: All_less_Suc2)
  show "\<exists>a2 a3 a4 a5. msyscall rd junk no [a] s = served (syscall_table rd junk (sys_number no) a a2 a3 a4 a5) (entered no [a] s)"
    using run [of "[a]"] by (auto simp: All_less_Suc2)
  show "\<exists>a3 a4 a5. msyscall rd junk no [a, b] s = served (syscall_table rd junk (sys_number no) a b a3 a4 a5) (entered no [a, b] s)"
    using run [of "[a, b]"] by (auto simp: All_less_Suc2)
  show "\<exists>a4 a5. msyscall rd junk no [a, b, c] s = served (syscall_table rd junk (sys_number no) a b c a4 a5) (entered no [a, b, c] s)"
    using run [of "[a, b, c]"] by (auto simp: All_less_Suc2)
  show "\<exists>a5. msyscall rd junk no [a, b, c, d] s = served (syscall_table rd junk (sys_number no) a b c d a5) (entered no [a, b, c, d] s)"
    using run [of "[a, b, c, d]"] by (auto simp: All_less_Suc2)
  show "msyscall rd junk no [a, b, c, d, e] s = served (syscall_table rd junk (sys_number no) a b c d e) (entered no [a, b, c, d, e] s)"
    using run [of "[a, b, c, d, e]"] by (auto simp: All_less_Suc2)
qed

text \<open>
  C16. Each stub of the user library runs the handler of its name, on its own arguments in their order: when the
  words for the fifth and sixth argument can be written, the call behaves as the handler does from the
  state in which the arguments are in place and the program counter is past the \<^verbatim>\<open>syscall\<close> instruction,
  and the handler's result is what the stub returns. This ties the numbers of \<^verbatim>\<open>include/syscall.h\<close>, the
  kernel's table, the registers and the stack words together.
\<close>

theorem stubs_reach_handlers:
  assumes hot: "stack_hot s"
  shows "syscall_putchar rd junk ch s = no_result (served (voidK junk (sys_putchar ch))) (entered SYS_putchar [ch] s) \<and>
    syscall_print_cons rd junk str num s = served (sys_print_cons str num) (entered SYS_print_cons [str, num] s) \<and>
    syscall_getenvid rd junk s = served (sys_getenvid) (entered SYS_getenvid [] s) \<and>
    syscall_yield rd junk s = no_result (served (sys_yield)) (entered SYS_yield [] s) \<and>
    syscall_env_destroy rd junk envid s = served (sys_env_destroy envid) (entered SYS_env_destroy [envid] s) \<and>
    syscall_set_tlb_mod_entry rd junk envid func s = served (sys_set_tlb_mod_entry envid func) (entered SYS_set_tlb_mod_entry [envid, func] s) \<and>
    syscall_mem_alloc rd junk envid va perm s = served (sys_mem_alloc envid va perm) (entered SYS_mem_alloc [envid, va, perm] s) \<and>
    syscall_mem_map rd junk srcid srcva envid va perm s = served (sys_mem_map srcid srcva envid va perm) (entered SYS_mem_map [srcid, srcva, envid, va, perm] s) \<and>
    syscall_mem_unmap rd junk envid va s = served (sys_mem_unmap envid va) (entered SYS_mem_unmap [envid, va] s) \<and>
    syscall_exofork rd junk s = served (sys_exofork) (entered SYS_exofork [0, 0, 0, 0, 0] s) \<and>
    syscall_set_env_status rd junk envid status s = served (sys_set_env_status envid status) (entered SYS_set_env_status [envid, status] s) \<and>
    syscall_set_trapframe rd junk envid tf s = served (sys_set_trapframe envid tf) (entered SYS_set_trapframe [envid, tf] s) \<and>
    syscall_ipc_try_send rd junk envid val srcva perm s = served (sys_ipc_try_send envid val srcva perm) (entered SYS_ipc_try_send [envid, val, srcva, perm] s) \<and>
    syscall_ipc_recv rd junk va s = served (sys_ipc_recv va) (entered SYS_ipc_recv [va] s) \<and>
    syscall_cgetc rd junk s = served (sys_cgetc) (entered SYS_cgetc [] s) \<and>
    syscall_set_path rd junk va s = no_result (served (voidK junk (sys_set_path va))) (entered SYS_set_path [va] s) \<and>
    syscall_get_path rd junk va s = no_result (served (voidK junk (sys_get_path va))) (entered SYS_get_path [va] s) \<and>
    syscall_write_dev rd junk lost va perm num s = bindK (served (sys_write_dev va perm num)) (\<lambda>_. retK lost) (entered SYS_write_dev [va, perm, num] s) \<and>
    syscall_read_dev rd junk lost va perm num s = bindK (served (sys_read_dev rd va perm num)) (\<lambda>_. retK lost) (entered SYS_read_dev [va, perm, num] s) \<and>
    syscall_panic rd junk str s = Panic ''panic from user''"
proof (intro conjI)
  note args = msyscall_args [OF hot, of rd junk]
  show "syscall_putchar rd junk ch s = no_result (served (voidK junk (sys_putchar ch))) (entered SYS_putchar [ch] s)"
    using args(2) [of SYS_putchar ch] by (auto simp: syscall_putchar_def no_result_def run_rules syscall_table_def)
  show "syscall_print_cons rd junk str num s = served (sys_print_cons str num) (entered SYS_print_cons [str, num] s)"
    using args(3) [of SYS_print_cons str num] by (auto simp: syscall_print_cons_def no_result_def run_rules syscall_table_def)
  show "syscall_getenvid rd junk s = served (sys_getenvid) (entered SYS_getenvid [] s)"
    using args(1) [of SYS_getenvid] by (auto simp: syscall_getenvid_def no_result_def run_rules syscall_table_def)
  show "syscall_yield rd junk s = no_result (served (sys_yield)) (entered SYS_yield [] s)"
    using args(1) [of SYS_yield] by (auto simp: syscall_yield_def no_result_def run_rules syscall_table_def)
  show "syscall_env_destroy rd junk envid s = served (sys_env_destroy envid) (entered SYS_env_destroy [envid] s)"
    using args(2) [of SYS_env_destroy envid] by (auto simp: syscall_env_destroy_def no_result_def run_rules syscall_table_def)
  show "syscall_set_tlb_mod_entry rd junk envid func s = served (sys_set_tlb_mod_entry envid func) (entered SYS_set_tlb_mod_entry [envid, func] s)"
    using args(3) [of SYS_set_tlb_mod_entry envid func] by (auto simp: syscall_set_tlb_mod_entry_def no_result_def run_rules syscall_table_def)
  show "syscall_mem_alloc rd junk envid va perm s = served (sys_mem_alloc envid va perm) (entered SYS_mem_alloc [envid, va, perm] s)"
    using args(4) [of SYS_mem_alloc envid va perm] by (auto simp: syscall_mem_alloc_def no_result_def run_rules syscall_table_def)
  show "syscall_mem_map rd junk srcid srcva envid va perm s = served (sys_mem_map srcid srcva envid va perm) (entered SYS_mem_map [srcid, srcva, envid, va, perm] s)"
    using args(6) [of SYS_mem_map srcid srcva envid va perm] by (auto simp: syscall_mem_map_def no_result_def run_rules syscall_table_def)
  show "syscall_mem_unmap rd junk envid va s = served (sys_mem_unmap envid va) (entered SYS_mem_unmap [envid, va] s)"
    using args(3) [of SYS_mem_unmap envid va] by (auto simp: syscall_mem_unmap_def no_result_def run_rules syscall_table_def)
  show "syscall_exofork rd junk s = served (sys_exofork) (entered SYS_exofork [0, 0, 0, 0, 0] s)"
    using args(6) [of SYS_exofork 0 0 0 0 0] by (auto simp: syscall_exofork_def no_result_def run_rules syscall_table_def)
  show "syscall_set_env_status rd junk envid status s = served (sys_set_env_status envid status) (entered SYS_set_env_status [envid, status] s)"
    using args(3) [of SYS_set_env_status envid status] by (auto simp: syscall_set_env_status_def no_result_def run_rules syscall_table_def)
  show "syscall_set_trapframe rd junk envid tf s = served (sys_set_trapframe envid tf) (entered SYS_set_trapframe [envid, tf] s)"
    using args(3) [of SYS_set_trapframe envid tf] by (auto simp: syscall_set_trapframe_def no_result_def run_rules syscall_table_def)
  show "syscall_ipc_try_send rd junk envid val srcva perm s = served (sys_ipc_try_send envid val srcva perm) (entered SYS_ipc_try_send [envid, val, srcva, perm] s)"
    using args(5) [of SYS_ipc_try_send envid val srcva perm] by (auto simp: syscall_ipc_try_send_def no_result_def run_rules syscall_table_def)
  show "syscall_ipc_recv rd junk va s = served (sys_ipc_recv va) (entered SYS_ipc_recv [va] s)"
    using args(2) [of SYS_ipc_recv va] by (auto simp: syscall_ipc_recv_def no_result_def run_rules syscall_table_def)
  show "syscall_cgetc rd junk s = served (sys_cgetc) (entered SYS_cgetc [] s)"
    using args(1) [of SYS_cgetc] by (auto simp: syscall_cgetc_def no_result_def run_rules syscall_table_def)
  show "syscall_set_path rd junk va s = no_result (served (voidK junk (sys_set_path va))) (entered SYS_set_path [va] s)"
    using args(2) [of SYS_set_path va] by (auto simp: syscall_set_path_def no_result_def run_rules syscall_table_def)
  show "syscall_get_path rd junk va s = no_result (served (voidK junk (sys_get_path va))) (entered SYS_get_path [va] s)"
    using args(2) [of SYS_get_path va] by (auto simp: syscall_get_path_def no_result_def run_rules syscall_table_def)
  show "syscall_write_dev rd junk lost va perm num s = bindK (served (sys_write_dev va perm num)) (\<lambda>_. retK lost) (entered SYS_write_dev [va, perm, num] s)"
    using args(4) [of SYS_write_dev va perm num] by (auto simp: syscall_write_dev_def run_rules syscall_table_def)
  show "syscall_read_dev rd junk lost va perm num s = bindK (served (sys_read_dev rd va perm num)) (\<lambda>_. retK lost) (entered SYS_read_dev [va, perm, num] s)"
    using args(4) [of SYS_read_dev va perm num] by (auto simp: syscall_read_dev_def run_rules syscall_table_def)
  show "syscall_panic rd junk str s = Panic ''panic from user''"
    using args(2) [of SYS_panic str] by (auto simp: syscall_panic_def run_rules served_def syscall_table_def sys_panic_def)
qed

text \<open>A machine whose TLB holds a writable entry for every page: page 0 cannot be allocated.\<close>

definition hot_machine :: kstate where
  "hot_machine = (bss 0 0)\<lparr>tlb := (\<lambda>_. Some 0x600)\<rparr>"

theorem stubs_reach_handlers_witness:
  "\<exists>t. syscall_mem_alloc (\<lambda>_. 0) 0 0 0 0 hot_machine = Done (- 3) t \<and> tf_regs (kstack_tf t) 2 = - 3"
proof -
  have "stack_hot hot_machine"
    by (simp add: stack_hot_def arg_hot_def hot_machine_def bss_def zero_tf_def valid_def PTE_V_def PTE_D_def ULIM_def)
  from stubs_reach_handlers [OF this, where rd = "\<lambda>_. 0" and junk = 0 and envid = 0 and va = 0 and perm = 0]
  have "syscall_mem_alloc (\<lambda>_. 0) 0 0 0 0 hot_machine = served (sys_mem_alloc 0 0 0) (entered SYS_mem_alloc [0, 0, 0] hot_machine)"
    by blast
  moreover have "is_illegal_va 0" by (simp add: is_illegal_va_def UTEMP_def UCOW_def UTEXT_def BY2PG_def PDMAP_def)
  ultimately show ?thesis
    by (simp add: served_def sys_mem_alloc_def run_rules set_v0_def set_tf_reg_def sys_value_def)
qed

section \<open>Messages\<close>

text \<open>One turn of the others: the caller yields and runs again.\<close>

definition turn :: "(kstate \<Rightarrow> kstate) \<Rightarrow> kstate \<Rightarrow> kstate" where
  "turn others s = (case resume others sys_yield s of Done _ t \<Rightarrow> t | _ \<Rightarrow> s)"

lemma yield_turn:
  assumes "sched_ok xs s" "curenv s = Some c" "c \<in> set xs"
  shows "resume others sys_yield s = Done (Inr 0) (turn others s)"
proof -
  obtain t where "(sys_yield s :: (sysres, kstate) outcome) = Away t"
    using schedule_rotate [OF assms(1, 2, 3), of True] by (auto simp: sys_yield_def)
  then show ?thesis by (simp add: resume_def turn_def)
qed

lemma try_send_early:
  assumes "ids_ok s" "curenv s = Some c" "target s c whom False = Some e" "env_ipc_recving (envs s e) = 0"
    and "srcva = 0 \<or> \<not> is_illegal_va srcva"
  shows "sys_ipc_try_send whom val srcva perm s = Done (Inl E_IPC_NOT_RECV) s"
  using envid2env_target [OF assms(1, 2), of whom False] assms(3-5) by (auto simp: sys_ipc_try_send_def run_rules the_env_def)

text \<open>The sender \<open>c\<close> is running and its receiver \<open>e\<close> does not wait for a message.\<close>

definition early :: "nat \<Rightarrow> nat \<Rightarrow> u32 \<Rightarrow> kstate \<Rightarrow> bool" where
  "early c e whom s \<longleftrightarrow> (\<exists>xs. sched_ok xs s \<and> c \<in> set xs) \<and> ids_ok s \<and> curenv s = Some c \<and>
     target s c whom False = Some e \<and> env_ipc_recving (envs s e) = 0"

lemma ipc_send_early:
  assumes "\<forall>i < k. early c e whom ((turn others ^^ i) s)" and va: "srcva = 0 \<or> \<not> is_illegal_va srcva"
  shows "ipc_send others (k + m) whom val srcva perm s = ipc_send others m whom val srcva perm ((turn others ^^ k) s)"
  using assms(1)
proof (induction k arbitrary: s)
  case 0
  then show ?case by simp
next
  case (Suc k)
  have "early c e whom s" using Suc.prems [rule_format, of 0] by simp
  then obtain xs where now: "sched_ok xs s" "c \<in> set xs" "ids_ok s" "curenv s = Some c" "target s c whom False = Some e"
      "env_ipc_recving (envs s e) = 0" by (auto simp: early_def)
  have "early c e whom ((turn others ^^ i) (turn others s))" if "i < k" for i
    using Suc.prems [rule_format, of "Suc i"] that by (simp add: funpow_swap1)
  then have "ipc_send others (k + m) whom val srcva perm (turn others s) =
      ipc_send others m whom val srcva perm ((turn others ^^ k) (turn others s))"
    using Suc.IH by blast
  then show ?case
    using try_send_early [OF now(3-6) va, of val perm] yield_turn [OF now(1, 4, 2), of others]
    by (simp add: run_rules funpow_swap1)
qed

text \<open>
  C17. \<^verbatim>\<open>ipc_send\<close> keeps trying until its message is taken. When the receiver is not waiting in the first
  \<open>k\<close> attempts and waits after \<open>k\<close> turns of the others, the send returns in attempt \<open>k + 1\<close>, however many
  attempts are allowed beyond it: the value, the sender and the permissions have arrived in the state after
  those \<open>k\<close> turns, and the receiver is at the end of the run list. A page must be mapped at the
  sender.
\<close>

theorem ipc_send_retries:
  fixes others s k
  defines "u \<equiv> (turn others ^^ k) s"
  assumes wait: "\<forall>i < k. early c e whom ((turn others ^^ i) s)"
    and u: "kern_inv idx pin fl c u" "sched_ok xs u" "target u c whom False = Some e"
    and recv: "env_ipc_recving (envs u e) \<noteq> 0" "env_status (envs u e) = ENV_NOT_RUNNABLE"
    and va: "srcva = 0 \<or> \<not> is_illegal_va srcva \<and> valid (tr u c srcva) \<and> \<not> is_illegal_va (env_ipc_dstva (envs u e))"
    and perm: "perm < 4096" and refs: "\<forall>p. unat (pp_ref u p) < 65535"
  shows "\<exists>t. (\<forall>m. ipc_send others (k + Suc m) whom val srcva perm s = Done () t) \<and>
    delivered e val (env_id (envs u c)) perm t \<and> sched_ok (xs @ [e]) t"
proof -
  have va': "srcva = 0 \<or> \<not> is_illegal_va srcva" using va by blast
  have dst: "\<not> is_illegal_va (env_ipc_dstva (envs u e))" if "srcva \<noteq> 0" using va that by blast
  obtain r t where t: "sys_ipc_try_send whom val srcva perm u = Done r t" "delivered e val (env_id (envs u c)) perm t"
      "sched_ok (xs @ [e]) t"
      "if srcva = 0 then r = Inr 0 \<and> mem t = mem u
       else if valid (tr u c srcva) then r = Inr 0 \<and>
         (tr t e (env_ipc_dstva (envs u e)) = page2pa (PPN (tr u c srcva)) OR perm OR PTE_V \<and>
            only_tr e (env_ipc_dstva (envs u e)) u t \<or> full_for u e (env_ipc_dstva (envs u e)) fl)
       else r = Inl E_INVAL"
    using ipc_try_send_run [OF u recv va' dst perm refs, of val] by blast
  have "r = Inr 0" using t(4) va by (cases "srcva = 0") auto
  then have "ipc_send others (Suc m) whom val srcva perm u = Done () t" for m
    using t(1) by (simp add: run_rules sys_value_def)
  then have "ipc_send others (k + Suc m) whom val srcva perm s = Done () t" for m
    using ipc_send_early [OF wait va', of "Suc m"] unfolding u_def by (simp only:)
  with t(2, 3) show ?thesis by blast
qed

text \<open>The receiver calls \<^verbatim>\<open>ipc_recv\<close> while the sender has given up the processor once.\<close>

definition busy_machine :: kstate where
  "busy_machine = pair_machine\<lparr>envs := pair_env(1 := (pair_env 1)\<lparr>env_ipc_recving := 0\<rparr>)\<rparr>"

theorem ipc_send_retries_witness:
  "\<exists>t. ipc_send (\<lambda>_. pair_machine) 5 (envid_of 2 1) 42 0 0 busy_machine = Done () t \<and>
    delivered 1 42 (envid_of 1 0) 0 t \<and> sched_ok [0, 1] t"
proof -
  have run: "runnable busy_machine = runnable pair_machine" by (auto simp: runnable_def busy_machine_def)
  have ok: "sched_ok [0] busy_machine"
    using pair_sched run by (simp add: sched_ok_def busy_machine_def)
  have "ids_ok busy_machine"
    using pair_kern by (simp add: kern_inv_def ids_ok_in_use in_use_def busy_machine_def)
  moreover have "target busy_machine 0 (envid_of 2 1) False = Some 1"
    using pair_nonzero by (simp add: target_def names_def busy_machine_def pair_env_def NENV_def LOG2NENV_def)
  ultimately have "early 0 1 (envid_of 2 1) busy_machine"
    using ok by (auto simp: early_def busy_machine_def)
  then have early: "\<forall>i < 1. early 0 1 (envid_of 2 1) ((turn (\<lambda>_. pair_machine) ^^ i) busy_machine)" by simp
  obtain x where "(sys_yield busy_machine :: (sysres, kstate) outcome) = Away x"
    using schedule_rotate [OF ok, of 0 True] by (auto simp: sys_yield_def busy_machine_def)
  then have u: "(turn (\<lambda>_. pair_machine) ^^ 1) busy_machine = pair_machine" by (simp add: turn_def resume_def)
  have "\<forall>p. unat (pp_ref pair_machine p) < 65535" by simp
  from ipc_send_retries [OF early, unfolded u, OF pair_kern pair_sched pair_target _ _ _ _ this, of 0 0 42]
  obtain t where t: "\<forall>m. ipc_send (\<lambda>_. pair_machine) (1 + Suc m) (envid_of 2 1) 42 0 0 busy_machine = Done () t"
      "delivered 1 42 (env_id (envs pair_machine 0)) 0 t" "sched_ok [0, 1] t"
    by (auto simp: pair_env_def zero_env_def)
  then show ?thesis using t(1) [rule_format, of 3] by (auto simp: pair_env_def)
qed

section \<open>Waiting\<close>

text \<open>\<^verbatim>\<open>wait\<close> returns at the first look at which the environment is gone.\<close>

lemma wait_ends:
  assumes "\<forall>i < k. let t = (turn others ^^ i) s in (\<exists>xs. sched_ok xs t \<and> c \<in> set xs) \<and> curenv t = Some c \<and>
      env_id (envs t (ENVX envid)) = envid \<and> env_status (envs t (ENVX envid)) \<noteq> ENV_FREE"
    and "\<not> (env_id (envs ((turn others ^^ k) s) (ENVX envid)) = envid \<and>
      env_status (envs ((turn others ^^ k) s) (ENVX envid)) \<noteq> ENV_FREE)"
  shows "wait others (k + Suc m) envid s = Done () ((turn others ^^ k) s)"
  using assms
proof (induction k arbitrary: s)
  case 0
  then show ?case by (auto simp: run_rules)
next
  case (Suc k)
  from Suc.prems(1) [rule_format, of 0] obtain xs where now: "sched_ok xs s" "c \<in> set xs" "curenv s = Some c"
      "env_id (envs s (ENVX envid)) = envid" "env_status (envs s (ENVX envid)) \<noteq> ENV_FREE" by (auto simp: Let_def)
  have "wait others (k + Suc m) envid (turn others s) = Done () ((turn others ^^ k) (turn others s))"
  proof (rule Suc.IH)
    show "\<forall>i < k. let t = (turn others ^^ i) (turn others s) in (\<exists>xs. sched_ok xs t \<and> c \<in> set xs) \<and> curenv t = Some c \<and>
        env_id (envs t (ENVX envid)) = envid \<and> env_status (envs t (ENVX envid)) \<noteq> ENV_FREE"
      using Suc.prems(1) [rule_format, of "Suc i" for i] by (simp add: funpow_swap1)
  qed (use Suc.prems(2) in \<open>simp add: funpow_swap1\<close>)
  then show ?case
    using yield_turn [OF now(1, 3, 2), of others] now(4, 5) by (simp add: run_rules funpow_swap1)
qed

section \<open>Receiving\<close>

text \<open>The state after a call that returns.\<close>

definition after :: "(kstate, sysres) kprog \<Rightarrow> kstate \<Rightarrow> kstate" where
  "after m s = (case m s of Done _ t \<Rightarrow> t | _ \<Rightarrow> s)"

text \<open>
  C18. A message reaches the caller of \<^verbatim>\<open>ipc_recv\<close>. The receiver blocks and the next environment in the
  run list runs; when that one sends to the receiver's id, and what happens until the receiver runs
  again leaves its message alone, \<^verbatim>\<open>ipc_recv\<close> returns the value sent, the id of the environment that
  sent it, and the permissions with the valid bit.
\<close>

theorem message_passed:
  assumes s: "sched_ok xs s" "ids_ok s" "curenv s = Some c" "c \<in> set xs" and nx: "remove1 c xs = n # ys"
    and va: "dstva = 0 \<or> \<not> is_illegal_va dstva"
    and rest: "\<forall>t. env_ipc_value (envs (rest t) c) = env_ipc_value (envs t c) \<and>
      env_ipc_from (envs (rest t) c) = env_ipc_from (envs t c) \<and> env_ipc_perm (envs (rest t) c) = env_ipc_perm (envs t c)"
  shows "\<exists>t. ipc_recv (\<lambda>u. rest (after (sys_ipc_try_send (env_id (envs s c)) val 0 perm) u)) c dstva s =
      Done (val, env_id (envs s n), PTE_V OR perm) t"
proof -
  obtain u where u: "(sys_ipc_recv dstva s :: (sysres, kstate) outcome) = Away u" "sched_ok (n # ys) u" "curenv u = Some n"
      "waiting c dstva u"
    using ipc_recv_blocks [OF s(1, 3, 4) va] nx by auto
  have same: "env_id (envs u x) = env_id (envs s x)" "env_status (envs u x) = ENV_FREE \<longleftrightarrow> env_status (envs s x) = ENV_FREE" for x
    using ipc_recv_blocks [OF s(1, 3, 4) va] nx u(1) by auto
  have ids: "ids_ok u" using s(2) same by (simp add: ids_ok_def)
  have c: "c < NENV" "env_status (envs s c) = ENV_RUNNABLE" using s(1, 4) by (auto simp: sched_ok_def runnable_def)
  then have "env_id (envs s c) \<noteq> 0" "ENVX (env_id (envs s c)) = c" using s(2) by (simp_all add: ids_ok_def)
  then have tgt: "target u n (env_id (envs s c)) False = Some c"
    using c same by (simp add: target_def names_def)
  have w: "env_ipc_recving (envs u c) \<noteq> 0" "env_status (envs u c) = ENV_NOT_RUNNABLE" using u(4) by (simp_all add: waiting_def)
  obtain v where "delivered c val (env_id (envs u n)) perm v"
      "sys_ipc_try_send (env_id (envs s c)) val 0 perm u = Done (Inr 0) v"
    using ipc_try_send_state [OF u(2) ids u(3) tgt c(1) w, of 0 val perm] by (metis (full_types))
  then show ?thesis
    using u(1) rest same(1) by (simp add: ipc_recv_def resume_def after_def run_rules sys_value_def delivered_def)
qed

text \<open>Environment 0 of three receives from environment 1.\<close>

theorem message_passed_witness:
  "\<exists>t. ipc_recv (after (sys_ipc_try_send (envid_of 1 0) 42 0 0)) 0 0 three_machine = Done (42, envid_of 2 1, PTE_V) t"
  using message_passed [OF three_sched_ok three_ids three_simps(1), of 1 "[2]" 0 "\<lambda>t. t" 42 0]
  by (simp add: three_envs_def)

end
