(* ===== verification/Shell_Main.thy ===== *)
theory Shell_Main
  imports Shell Commands
begin

text \<open>
  The rest of \<^verbatim>\<open>main\<close> in \<^verbatim>\<open>user/sh.c\<close>: the picture, the options, which the macros of
  \<^verbatim>\<open>include/args.h\<close> take apart, the script file, the prompt and the echo around a turn of the shell; and
  \<^verbatim>\<open>user/init.c\<close>, the process that starts the shell.
\<close>

section \<open>The picture\<close>

definition banner :: "string list" where
  "banner =
    [''........^z96212234321259uv8+++3767!annoooov19521463677777666652^++^-8375776666666666'',
     ''...+!34i*--+++-++++-++---+-8-+iu--+++++++++++---.-a8224666666648-..35667676666666666'',
     ''o..+..--++++++++++++++++++++++-8^++++++++++++++++++++--z52466663z+466787666666666666'',
     ''z937u^..-+++++++++++++++++++++++^++++++++++++++++++++++++-*7246587556676766666657766'',
     ''-+-.!o.-+++++++++++++++++++++++++++++++++++-++++++++++++++++-n3266666666666666666564'',
     ''.n5n..++++++++++++++++++++++++++++++++++++++z+-++++++++++++++-+^82666666666666656661'',
     ''n...++++++--*^++++++++++++++++++++++++++++++-*9^-++++++++++++++++-83656666666666663!'',
     ''--+++++++-zz--++++++++++++++++++++++++++++++++-v9-+++++++++++++++++^726666666766643.'',
     ''++++++--zi-++++++++++++-o^++++++++++++++++++++++-7o++++++++++++++++++o246666666653+.'',
     ''++++++^5*-^++++++++++++z+++++++++++++++++++++++++-ui-++++++++++++++++++7366666747^..'',
     ''++++-v6++++++++++++-+-u^+++++++++++++++++++++++++++o7-+++++++++++++++++-a267643*++*7'',
     ''++++a9+++++++++++++-+ao++++++++++++++++++++++++++++-^7-++++++++++++++++++*243664n++-'',
     ''++-v8+++++++++++++++*1-++++++++++++++++++++++++++++++^9-+++++++++++++++++++25663u+++'',
     ''+-*5-++++++++++++--.7--++++++++++++++++++++++++++++++-na-+++++++++++++++++++34a+++++'',
     ''+-3--++++++++++++++un++++++++++++++++++++++++++++++++++1^+++++++++++++++++++o3++++++'',
     ''-8a-++++++++++++++-5-++++++++++o+++++++++++++++++++++++^a++++++++++a++-n*++++19+++++'',
     ''*4-+++++++++++++++zv-++++++++++8*-++++++++++++++++++++++z+-+++++++-3^-i6-++++-6o++++'',
     ''4a+++++++++++++++.7++++++++++-7o9+++++++++++++++++++++++*a--++++++^+77o-+++++-n8-+++'',
     ''2+++++++++++++++++!++++++++-+18.7o+++++++++++++++++++++++^9-++++++++++++++++-+-8*+++'',
     ''9+++++++++++++++-ov+++++++++v5-.z8+++++++++++++++++++++^v.z6+++++++++++++++++++vz+++'',
     ''v-+++++++++++++++v^+++++zv^n3-..-4^++++++++++++++++++++oz..u7i*+++++++++++++++++u+++'',
     ''+-+++++++++++++++z++++++++i28512233668u+++++++++++++o6321241i7-++++++++++++++++-v+++'',
     ''-++++++++++++++++^+++++--76-......4o++-++++++++++++++-o7-....!7-++++++++++++++++*^++'',
     ''+++++++++++++++++++++++n3v...-^***v4-+++++++++++++++++5*..-...!7++++++++++++++++*n++'',
     ''++++++++++++++++++++-*31z77io+*na1u3u++++++++++++++--781zno*z9767+++++++++++++++*v++'',
     ''++++++++++++++++++-*437n+i37a^-.....3^++++++++++++++69v---.-*i4ui5-^++++++++++++*a-+'',
     ''+++++++++++++++++o73vn48^...+ono..--a6-+^++++++++--3z-.^u1*-..-.z52-++++++++++++^i-+'',
     ''+++++++++++++++++va15^...z361--n95^.-91-uz+++++++v3*.841+-a85+-..^n2++++++++++++*!-+'',
     ''+++++++++++++++++o^^.---571iiii!ii3o--6!16*++++o41.-861iuuiii3o....-5-++++++++++*9-+'',
     ''+++++++++++++++++^a---.i51iiiiii1i!3-.+.-n3+.v21-..+3iii11111!5+...z*+++++++++++o9-+'',
     ''.-++++++++++++++++7---.961iiii1i1i13^.--..845*.....^2i1iii1ii13o---3++++++++++++n!-+'',
     ''...-+++++++++++++-3+.--z41iiiiiiii13*..............^21ii1iiii13o-.i!+++++++++++-u6^+'',
     ''25-.+++++++++++++.6v--.-4!11ii111186-............-..581111ii178---3^+++++++++++-1a5i'',
     ''972.-+++++++++++++i9.---+48i111iu85+--.............--481111138+--*u-+++++++++++-9n.-'',
     ''996u.-+++++++++++^o2------n445537+..................-.o5334a-+--.no++++++++++++-6*..'',
     ''8873+.++++++++++++-2+---------------................----.--------^2-++++++++++++4+.^'',
     ''79976.-+++++++++++.4v------------------......---.-.--------------.2^+++++++++++o7-.^'',
     ''98862-.+++++++++++-!9------------------....v1uauv----------------u5-++++++++++-ai..^'',
     ''98811o.-++++++++++-n2------------------..-zi!!ao+---------------12^++++++++++--8v.++'',
     ''99248!..+++++++++++-3o---------------.....-...-.....-..-----.-v3u+++++++++++-+^5+.8^'',
     ''935^a5..+++++++++++-7i------------..................-.----.n44u9+++++++++++++-z9..-4'',
     ''1a^+o3-.+++++++++++^v3v*-..-------.................-.-z7338^++^4++++++++++++++6o...+'',
     ''++^+*4-.++++++++++++-41zzu532459un+--....--+oa!53134!avvvzvu28^3*++++++++++++*7-....'',
     ''++^+o4-ni.++++++++++-u5n9ui68888887777778866nvvvnvvvzvvvvvvzzva2z-++++++++++-8n.....'',
     ''++++v6..u6++++++++++++3un6z.!46778877778887a6vvvvnvnvvvvvvvzzv52a-++++++++++*7.....8'',
     ''+++-iv.-+^38++++++++++a3nv576v+n63478999935+367aovvvvvvzzzzva2n8i-++++n+++--6^...12v'',
     ''+++.5+.-+++^46*-+++++^-68zz388855uo.^*^n*.+4788944avzvzzzzv48++!!-++++v2^+-uz.^35i!1'',
     ''+-+*z.-+-+n5ii62u++++++^3uv94888888654446687888886739nzzzz2o-+-i9+++-ua-9+^7-.1!9637'',
     ''---5-.++-87!i!!!!34v-+++n1zv368878888777887777788778738zzvzzi56!8-+-5n..oz8+-4258i!!'',
     ''++i*.++-79!1!6ii!i!!43v++n1va278888888878877777787877773avvvvvv7!.!2^9.*.1^.i9i9999!'',
     ''-na..+-i75458ii6iii!ii555*^2v9397778878888788888778788864zzvzzv543!*-5-^o-.!!!!9!!!9'',
     ''u1..+-u5i!i111i9651u98vznz6u6n558788888777888888888878872zvzzzuavz4--5n.u9!9!9!9!!!9'',
     ''*.-++o41i111iiiiii9!6vzvvvvvziz27888877888888877777778863zvzzzzvz!i.-15-o99!!!9!99!9'',
     ''.^---4!i11iiiii1i1i4avzvvvvvzvv93888778888888888888887848vzvzvvvz4^++o3^+!!!!!!!!!!9'',
     ''6a++88iiiiiiii1iiiu131vvvzzvvzzz477877777778888888888762zvvvvzvv9i-++^3z.i!!i9!!9999'',
     ''*7+a6iiiiiiiii1auuu1i66zzvzvvvvvu2777777787788887888882ivvzzzzza4^--+-4i.a9!!!!!!ii!'',
     ''-8a31iiiiiiiiii11111i1i2!vvvvzvzn5477788888888778888869nvvvvvzv76n--++31.z9!!!!!!!!!'',
     ''+^21iiiiiiii1iii11i!1ii9!31zvvvvvz288888888888888888867vvvvvzvu416*++n5-.97i!!!!!!!!'',
     ''+.78iiiii!iiiiii1i1i11i6i181avvvvv658878887778888887866vvvzvvv4!ii3^-8u...^638i!!!!!'']"

definition title :: "string list" where
  "title =
    ['':::::::::::::::::::::::::::::::::::::::::::::::::::::::::::::'',
     ''::                                                         ::'',
     ''::                  Welcom To SOS Shell                    ::'',
     ''::                                                         ::'',
     '':::::::::::::::::::::::::::::::::::::::::::::::::::::::::::::'']"

definition print_banner :: "(u8 list \<Rightarrow> ('s, unit) kprog) \<Rightarrow> ('s, unit) kprog" where
  "print_banner put = forK (map ascii banner @ ([NL] @ ascii (hd title)) # map ascii (tl title)) (\<lambda>l. put (l @ [NL]))"

section \<open>Options\<close>

record shopts =
  interactive :: bool
  echocmds :: bool

definition DASH :: u8 where "DASH = 0x2D"

text \<open>The characters of one argument; \<open>None\<close> stands for \<^verbatim>\<open>usage\<close>, which ends the shell.\<close>

fun arg_chars :: "u8 list \<Rightarrow> shopts \<Rightarrow> shopts option" where
  "arg_chars [] opts = Some opts"
| "arg_chars (c # cs) opts =
     (if c = 0x69 then arg_chars cs (opts\<lparr>interactive := True\<rparr>)
      else if c = 0x78 then arg_chars cs (opts\<lparr>echocmds := True\<rparr>)
      else None)"

text \<open>\<^verbatim>\<open>ARGBEGIN\<close> to \<^verbatim>\<open>ARGEND\<close>, on the arguments behind the command's name.\<close>

fun shell_args :: "u8 list list \<Rightarrow> shopts \<Rightarrow> (shopts \<times> u8 list list) option" where
  "shell_args [] opts = Some (opts, [])"
| "shell_args (a # as) opts =
     (if 2 \<le> length a \<and> hd a = DASH then
        if a = [DASH, DASH] then Some (opts, as)
        else (case arg_chars (tl a) opts of None \<Rightarrow> None | Some opts' \<Rightarrow> shell_args as opts')
      else Some (opts, a # as))"

definition usage :: "(u8 list \<Rightarrow> ('x, unit) shM) \<Rightarrow> 'x shdev list \<Rightarrow> ('x, 'a) shM" where
  "usage put devtab = seqK (put (ascii ''usage: sh [-dix] [command-file]'' @ [NL])) (exit_sh devtab)"

text \<open>
  \<open>args\<close> are the arguments behind the options. \<^verbatim>\<open>argv\<close> then points to the first of them, so that with one left
  \<^verbatim>\<open>argv[1]\<close> is the entry behind the last argument; \<open>behind\<close> is the string there. \<open>Spawn_Thms\<close> shows what
  \<^verbatim>\<open>init_stack\<close> puts there: the address of the last string's terminator, that is the empty string.
\<close>

definition script_input :: "(u8 list \<Rightarrow> ('x, unit) shM) \<Rightarrow> 'x shdev list \<Rightarrow> 'x shsrv \<Rightarrow> u32 \<Rightarrow> u8 list \<Rightarrow> u8 list list \<Rightarrow> ('x, unit) shM" where
  "script_input put devtab srv fsipcbuf behind args =
     (if 1 < length args then usage put devtab
      else if length args = 1 then
        seqK (ignoreI (close devtab 0))
       (bindK (open_path srv fsipcbuf behind O_RDONLY) (\<lambda>r.
        if r < 0 then panicK ''open''
        else if r \<noteq> 0 then panicK ''assertion failed: r == 0'' else retK ()))
      else retK ())"

text \<open>\<open>history\<close> is \<^verbatim>\<open>init_history\<close>, modelled in \<open>History\<close>.\<close>

definition shell_start :: "('x, unit) shM \<Rightarrow> (u8 list \<Rightarrow> ('x, unit) shM) \<Rightarrow> 'x shdev list \<Rightarrow> 'x shsrv \<Rightarrow> u32 \<Rightarrow> u8 list \<Rightarrow> u8 list list \<Rightarrow> ('x, shopts) shM" where
  "shell_start history put devtab srv fsipcbuf behind args =
     bindK (iscons 0) (\<lambda>i.
     seqK history
    (seqK (print_banner put)
     (case shell_args args \<lparr>interactive = (i \<noteq> 0), echocmds = False\<rparr> of
        None \<Rightarrow> usage put devtab
      | Some (opts, rest) \<Rightarrow> seqK (script_input put devtab srv fsipcbuf behind rest) (retK opts))))"

section \<open>A turn\<close>

definition blue :: chunks where "blue = [[0x1B]] @ lit ''[34m''"
definition plain :: chunks where "plain = [[0x1B]] @ lit ''[0m''"

definition prompt :: "'x shdev list \<Rightarrow> u32 \<Rightarrow> u8 list \<Rightarrow> ('x, unit) shM" where
  "prompt devtab pb path =
     (if length path = 1 then say devtab pb (newline @ lit ''$ '')
      else
        seqK (say devtab pb blue)
       (seqK (say devtab pb (newline @ [butlast path] @ lit '' ''))
       (seqK (say devtab pb plain)
             (say devtab pb (lit ''$ '')))))"

text \<open>\<open>readline\<close> puts the next line in the buffer at \<open>line\<close>; \<open>pb\<close> is where chunks lie that are printed.\<close>

definition main_turn :: "('x, unit) shM \<Rightarrow> shopts \<Rightarrow> nat \<Rightarrow> 'x shdev list \<Rightarrow> 'x shsrv \<Rightarrow> u32 \<Rightarrow> u32 \<Rightarrow> u32 \<Rightarrow> nat \<Rightarrow> ('x, unit) shM" where
  "main_turn readline opts n devtab srv fsipcbuf elfbuf pb line =
     seqK (if interactive opts then
             seqK (modifyK (\<lambda>s. s\<lparr>cwd := (if cwd s = [] then [SLASH] else cwd s)\<rparr>))
                  (bindK (getsK cwd) (prompt devtab pb))
           else retK ())
    (seqK readline
    (bindK (getsK (\<lambda>s. lbuf (lex s))) (\<lambda>m.
     seqK (if m line \<noteq> 0x23 \<and> echocmds opts then say devtab pb (lit ''# '' @ [text_of m line] @ newline) else retK ())
          (shell_turn n devtab srv fsipcbuf elfbuf line))))"

section \<open>What the options mean\<close>

definition is_flag :: "u8 list \<Rightarrow> bool" where
  "is_flag a \<longleftrightarrow> 2 \<le> length a \<and> hd a = DASH \<and> a \<noteq> [DASH, DASH]"

lemma arg_chars_spec:
  "arg_chars cs opts = (if set cs \<subseteq> {0x69, 0x78} then
     Some \<lparr>interactive = (interactive opts \<or> 0x69 \<in> set cs), echocmds = (echocmds opts \<or> 0x78 \<in> set cs)\<rparr> else None)"
  by (induction cs arbitrary: opts) auto

text \<open>
  The loop over the arguments against a description of the whole command line: all characters of the leading
  arguments that are flags count, one that is neither \<^verbatim>\<open>i\<close> nor \<^verbatim>\<open>x\<close> ends the shell, and a \<^verbatim>\<open>--\<close> behind them is
  dropped.
\<close>

lemma shell_args_spec:
  "shell_args args opts =
    (let cs = concat (map tl (takeWhile is_flag args)); rest = dropWhile is_flag args
     in if set cs \<subseteq> {0x69, 0x78} then
       Some (\<lparr>interactive = (interactive opts \<or> 0x69 \<in> set cs), echocmds = (echocmds opts \<or> 0x78 \<in> set cs)\<rparr>,
         if rest \<noteq> [] \<and> hd rest = [DASH, DASH] then tl rest else rest)
     else None)"
proof (induction args arbitrary: opts)
  case Nil
  then show ?case by simp
next
  case (Cons a as)
  show ?case
  proof (cases "is_flag a")
    case True
    then have "shell_args (a # as) opts = (case arg_chars (tl a) opts of None \<Rightarrow> None | Some opts' \<Rightarrow> shell_args as opts')"
      by (simp add: is_flag_def)
    then show ?thesis using True by (auto simp: arg_chars_spec Cons.IH Let_def)
  next
    case False
    then show ?thesis by (cases "a = [DASH, DASH]") (auto simp: is_flag_def Let_def)
  qed
qed

section \<open>The process that starts the shell\<close>

text \<open>
  \<^verbatim>\<open>sum\<close> of \<^verbatim>\<open>user/init.c\<close> over the bytes from index \<open>i\<close> on; \<^verbatim>\<open>char\<close> is signed. \<open>data_bytes\<close> and \<open>bss_bytes\<close> are what
  the arrays \<^verbatim>\<open>data\<close> and \<^verbatim>\<open>bss\<close> hold when the loader has done its work.
\<close>

fun init_sum :: "nat \<Rightarrow> u8 list \<Rightarrow> u32 \<Rightarrow> u32" where
  "init_sum i [] tot = tot"
| "init_sum i (c # cs) tot = init_sum (Suc i) cs (tot XOR (of_nat i * scast c))"

definition padded :: "nat \<Rightarrow> string \<Rightarrow> u8 list" where
  "padded n s = ascii s @ replicate (n - length s) 0"

definition data_bytes :: "u8 list" where
  "data_bytes = padded 5000 ''this is initialized data'' @ padded 1000 ''so is this''"

definition bss_bytes :: "u8 list" where "bss_bytes = replicate 6000 0"

definition WANT :: u32 where "WANT = 0xf989e"

definition sum_checks :: "(u8 list \<Rightarrow> ('s, unit) kprog) \<Rightarrow> (u32 \<Rightarrow> u8 list) \<Rightarrow> u8 list \<Rightarrow> u8 list \<Rightarrow> ('s, unit) kprog" where
  "sum_checks put hex data zeroed =
     seqK (let x = init_sum 0 data 0 in
           if x \<noteq> WANT then put (ascii ''init: data is not initialized: got sum '' @ hex x @ ascii '' wanted '' @ hex WANT @ [NL])
           else put (ascii ''init: data seems okay'' @ [NL]))
          (let x = init_sum 0 zeroed 0 in
           if x \<noteq> 0 then put (ascii ''bss is not initialized: wanted sum 0 got '' @ hex x @ [NL])
           else put (ascii ''init: bss seems okay'' @ [NL]))"

text \<open>
  \<^verbatim>\<open>spawnl\<close> passes the address of its variable arguments: the list up to the null pointer. \<open>before\<close> are the two
  bytes in front of the string constant. A shell that ends is started again, at most \<open>n\<close> times here.
\<close>

definition run_sh :: "'x shdev list \<Rightarrow> 'x shsrv \<Rightarrow> u32 \<Rightarrow> u32 \<Rightarrow> u8 list \<Rightarrow> ('x, int) shM" where
  "run_sh devtab srv fsipcbuf elfbuf before = spawn devtab srv fsipcbuf elfbuf before (ascii ''sh.b'') [ascii ''sh'']"

primrec init_loop :: "nat \<Rightarrow> (u8 list \<Rightarrow> ('x, unit) shM) \<Rightarrow> (int \<Rightarrow> u8 list) \<Rightarrow> ('x, int) shM \<Rightarrow> ('x, int) shM" where
  "init_loop 0 put dec run = panicK ''out of fuel''"
| "init_loop (Suc n) put dec run =
     seqK (put (ascii ''init: starting sh'' @ [NL]))
    (bindK run (\<lambda>r.
     if r < 0 then seqK (put (ascii ''init: spawn sh: '' @ dec r @ [NL])) (retK r)
     else seqK (wait_for (of_int r)) (init_loop n put dec run)))"

definition init_main :: "nat \<Rightarrow> (u8 list \<Rightarrow> ('x, unit) shM) \<Rightarrow> (u32 \<Rightarrow> u8 list) \<Rightarrow> (int \<Rightarrow> u8 list) \<Rightarrow> 'x shdev list \<Rightarrow> 'x shsrv \<Rightarrow>
    u32 \<Rightarrow> u32 \<Rightarrow> u8 list \<Rightarrow> u8 list \<Rightarrow> u8 list \<Rightarrow> u8 list list \<Rightarrow> ('x, int) shM" where
  "init_main n put hex dec devtab srv fsipcbuf elfbuf before data zeroed args =
     seqK (put (ascii ''init: running'' @ [NL]))
    (seqK (sum_checks put hex data zeroed)
    (seqK (put (ascii ''init: args:''))
    (seqK (forK args (\<lambda>a. put ([0x20, 0x27] @ a @ [0x27])))
    (seqK (put [NL])
    (seqK (put (ascii ''init: running sh'' @ [NL]))
    (bindK opencons (\<lambda>r.
     if r \<noteq> 0 then panicK ''opencons''
     else bindK (dup devtab 0 1) (\<lambda>r.
     if r < 0 then panicK ''dup'' else init_loop n put dec (run_sh devtab srv fsipcbuf elfbuf before)))))))))"

text \<open>The loaded data has the sum that the program wants, so that it prints that all is well.\<close>

lemma init_sum_append: "init_sum i (xs @ ys) tot = init_sum (i + length xs) ys (init_sum i xs tot)"
  by (induction xs arbitrary: i tot) simp_all

lemma init_sum_zeros: "init_sum i (replicate n 0) tot = tot"
  by (induction n arbitrary: i) simp_all

lemma data_sum: "init_sum 0 data_bytes 0 = WANT"
  by (simp add: data_bytes_def padded_def init_sum_append init_sum_zeros ascii_def WANT_def)

lemma init_checks: "sum_checks put hex data_bytes bss_bytes =
    seqK (put (ascii ''init: data seems okay'' @ [NL])) (put (ascii ''init: bss seems okay'' @ [NL]))"
  by (simp add: sum_checks_def data_sum bss_bytes_def init_sum_zeros)

end
