(* ===== verification/Selftest.thy ===== *)
theory Selftest
  imports Pmap_Boot Env_Free
begin

text \<open>
  The self tests of \<^verbatim>\<open>kern/pmap.c\<close> and \<^verbatim>\<open>kern/env.c\<close>. A failed assertion is a panic; what is only
  printed is left out. Copying the list head into \<open>fl\<close> copies its first-pointer: the links stay in
  the elements.
\<close>

section \<open>Assertions\<close>

definition check :: "(kstate \<Rightarrow> bool) \<Rightarrow> (kstate, unit) kprog" where
  "check f = bindK (getsK f) (\<lambda>b. assertK b ''assertion failed'')"

text \<open>\<^verbatim>\<open>assert(f(...) == 0)\<close>, \<^verbatim>\<open>assert(f(...) < 0)\<close> and \<^verbatim>\<open>assert(f(...) == -e)\<close>\<close>

definition must :: "(kstate, err + 'a) kprog \<Rightarrow> (kstate, 'a) kprog" where
  "must m = bindK m (\<lambda>r. case r of Inl e \<Rightarrow> panicK ''assertion failed'' | Inr a \<Rightarrow> retK a)"

definition must_fail :: "(kstate, err + 'a) kprog \<Rightarrow> (kstate, unit) kprog" where
  "must_fail m = bindK m (\<lambda>r. assertK (case r of Inl e \<Rightarrow> True | Inr a \<Rightarrow> False) ''assertion failed'')"

definition refused :: "err \<Rightarrow> (kstate, err + 'a) kprog \<Rightarrow> (kstate, unit) kprog" where
  "refused e m = bindK m (\<lambda>r. assertK (case r of Inl e' \<Rightarrow> e' = e | Inr a \<Rightarrow> False) ''assertion failed'')"

definition check_pa :: "nat \<Rightarrow> u32 \<Rightarrow> u32 \<Rightarrow> (kstate, unit) kprog" where
  "check_pa d va pa = bindK (va2pa d va) (\<lambda>x. assertK (x = pa) ''assertion failed'')"

definition check_ref :: "nat \<Rightarrow> u16 \<Rightarrow> (kstate, unit) kprog" where
  "check_ref pp r = check (\<lambda>s. pp_ref s pp = r)"

section \<open>Pages\<close>

definition steal_pages :: "(kstate, nat option) kprog" where
  "steal_pages =
     bindK (getsK (\<lambda>s. lh_first (page_free_list s))) (\<lambda>fl.
     seqK (modifyK (\<lambda>s. s\<lparr>page_free_list := LIST_INIT (page_free_list s)\<rparr>)) (retK fl))"

definition give_pages_back :: "nat option \<Rightarrow> (kstate, unit) kprog" where
  "give_pages_back fl = modifyK (\<lambda>s. s\<lparr>page_free_list := (page_free_list s)\<lparr>lh_first := fl\<rparr>\<rparr>)"

definition three_pages :: "(kstate, nat \<times> nat \<times> nat) kprog" where
  "three_pages =
     bindK (must page_alloc) (\<lambda>pp0. bindK (must page_alloc) (\<lambda>pp1. bindK (must page_alloc) (\<lambda>pp2.
     seqK (assertK (pp1 \<noteq> pp0) ''assertion failed'')
    (seqK (assertK (pp2 \<noteq> pp1 \<and> pp2 \<noteq> pp0) ''assertion failed'')
          (retK (pp0, pp1, pp2))))))"

text \<open>The test of the list macros: \<open>q\<close> is the local list \<^verbatim>\<open>test_free\<close>, element 10 the page \<^verbatim>\<open>q\<close>.\<close>

fun walk_list :: "(nat \<Rightarrow> u16) \<Rightarrow> nat lqueue \<Rightarrow> nat option \<Rightarrow> u16 list \<Rightarrow> bool" where
  "walk_list ref q None answer = True"
| "walk_list ref q (Some p) [] = False"
| "walk_list ref q (Some p) (a # answer) = (ref p = a \<and> walk_list ref q (LIST_NEXT p q) answer)"

definition test_list :: "nat lqueue" where
  "test_list = fold LIST_INSERT_HEAD (rev [0..<10]) (LIST_INIT empty_list)"

text \<open>The references of the test pages are their places in the answers.\<close>

definition test_ref :: "nat \<Rightarrow> u16" where
  "test_ref i = (if i < 10 then of_nat i else 20)"

definition list_check :: bool where
  "list_check \<longleftrightarrow> LIST_FIRST test_list \<noteq> None \<and>
     walk_list test_ref test_list (LIST_FIRST test_list) [0, 1, 2, 3, 4, 5, 6, 7, 8, 9]"

definition insert_after_check :: bool where
  "insert_after_check \<longleftrightarrow>
     (let q = LIST_INSERT_AFTER 4 10 test_list
      in walk_list test_ref q (LIST_FIRST q) [0, 1, 2, 3, 4, 20, 5, 6, 7, 8, 9])"

definition physical_memory_manage_check :: "(kstate, unit) kprog" where
  "physical_memory_manage_check =
     bindK three_pages (\<lambda>(pp0, pp1, pp2).
     bindK steal_pages (\<lambda>fl.
     seqK (refused E_NO_MEM page_alloc)
    (bindK (page2kva pp0) (\<lambda>temp.
     seqK (modifyK (store temp 0 1000))
    (seqK (page_free pp0)
    (bindK (must page_alloc) (\<lambda>pp0.
     bindK (page2kva pp0) (\<lambda>temp'.
     seqK (assertK (temp = temp') ''assertion failed'')
    (seqK (check (\<lambda>s. mem s temp 0 = 0))
    (seqK (give_pages_back fl)
    (seqK (page_free pp0)
    (seqK (page_free pp1)
    (seqK (page_free pp2)
    (bindK (boot_alloc (10 * sizeof_Page) BY2PG True) (\<lambda>test_pages.
     seqK (assertK list_check ''assertion failed'')
    (bindK (boot_alloc sizeof_Page BY2PG True) (\<lambda>q.
           assertK insert_after_check ''assertion failed'')))))))))))))))))"

text \<open>\<open>d\<close> is the frame of \<^verbatim>\<open>boot_pgdir\<close>.\<close>

definition page_check_insert :: "nat \<Rightarrow> nat \<Rightarrow> nat \<Rightarrow> nat \<Rightarrow> (kstate, unit) kprog" where
  "page_check_insert d pp0 pp1 pp2 =
     seqK (refused E_NO_MEM page_alloc)
    (seqK (must_fail (page_insert d 0 pp1 0 0))
    (seqK (page_free pp0)
    (seqK (must (page_insert d 0 pp1 0 0))
    (seqK (check (\<lambda>s. PTE_ADDR (mem s d 0) = page2pa pp0))
    (seqK (check_pa d 0 (page2pa pp1))
    (seqK (check_ref pp1 1)
    (seqK (must (page_insert d 0 pp2 BY2PG 0))
    (seqK (check_pa d BY2PG (page2pa pp2))
    (seqK (check_ref pp2 1)
    (seqK (refused E_NO_MEM page_alloc)
    (seqK (must (page_insert d 0 pp2 BY2PG 0))
    (seqK (check_pa d BY2PG (page2pa pp2))
    (seqK (check_ref pp2 1)
    (seqK (refused E_NO_MEM page_alloc)
    (seqK (must_fail (page_insert d 0 pp0 PDMAP 0))
    (seqK (must (page_insert d 0 pp1 BY2PG 0))
    (seqK (check_pa d 0 (page2pa pp1))
    (seqK (check_pa d BY2PG (page2pa pp1))
    (seqK (check_ref pp1 2)
          (check_ref pp2 0))))))))))))))))))))"

definition page_check_remove :: "nat \<Rightarrow> nat \<Rightarrow> nat \<Rightarrow> nat \<Rightarrow> (kstate, unit) kprog" where
  "page_check_remove d pp0 pp1 pp2 =
     bindK (must page_alloc) (\<lambda>pp.
     seqK (assertK (pp = pp2) ''assertion failed'')
    (seqK (page_remove d 0 0)
    (seqK (check_pa d 0 (- 1))
    (seqK (check_pa d BY2PG (page2pa pp1))
    (seqK (check_ref pp1 1)
    (seqK (check_ref pp2 0)
    (seqK (page_remove d 0 BY2PG)
    (seqK (check_pa d 0 (- 1))
    (seqK (check_pa d BY2PG (- 1))
    (seqK (check_ref pp1 0)
    (seqK (check_ref pp2 0)
    (bindK (must page_alloc) (\<lambda>pp.
     seqK (assertK (pp = pp1) ''assertion failed'')
    (seqK (refused E_NO_MEM page_alloc)
    (seqK (check (\<lambda>s. PTE_ADDR (mem s d 0) = page2pa pp0))
    (seqK (modifyK (store d 0 0))
    (seqK (check_ref pp0 1)
          (modifyK (set_ref pp0 0)))))))))))))))))))"

definition page_check :: "(kstate, unit) kprog" where
  "page_check =
     bindK (boot_alloc BY2PG BY2PG True) (\<lambda>a.
     let d = PPN (a - ULIM) in
     bindK three_pages (\<lambda>(pp0, pp1, pp2).
     bindK steal_pages (\<lambda>fl.
     seqK (page_check_insert d pp0 pp1 pp2)
    (seqK (page_check_remove d pp0 pp1 pp2)
    (seqK (give_pages_back fl)
    (seqK (page_free pp0)
    (seqK (page_free pp1)
          (page_free pp2))))))))"

section \<open>The tests pass\<close>

lemma list_checks: "list_check" "insert_after_check"
  by (simp_all add: list_check_def insert_after_check_def test_list_def test_ref_def upt_rec numeral_eq_Suc
      LIST_INSERT_HEAD_def LIST_INSERT_AFTER_def LIST_INIT_def LIST_FIRST_def LIST_NEXT_def Let_def)

lemma page_alloc_first:
  assumes "is_list (page_free_list s) (pp # fl)" "pp < npage s" "npage s \<le> 2 ^ 20"
  shows "\<exists>q. is_list q fl \<and> page_alloc s = Done (Inr pp) (s\<lparr>page_free_list := q, mem := (mem s)(pp := (\<lambda>_. 0))\<rparr>)"
proof -
  obtain q where "LIST_FIRST (page_free_list s) = Some pp" "LIST_REMOVE pp (page_free_list s) = Some q" "is_list q fl"
    using lq.pop [OF assms(1)] by blast
  moreover have "PPN (page2pa pp) = pp" using assms(2,3) by simp
  ultimately show ?thesis using assms(2) by (auto simp: page_alloc_def run_rules page2kva_def KADDR_def)
qed

lemma page_alloc_none: "is_list (page_free_list s) [] \<Longrightarrow> page_alloc s = Done (Inl E_NO_MEM) s"
  using lq.front_None_iff [of "page_free_list s" "[]"] by (simp add: page_alloc_def run_rules)

text \<open>
  What the test of page tables sees: the free list, the first two entries of the directory \<open>d\<close> and of the
  table \<open>p0\<close>, and the references of the three pages.
\<close>

definition pages_ok :: "nat \<Rightarrow> nat \<Rightarrow> nat \<Rightarrow> nat \<Rightarrow> kstate \<Rightarrow> bool" where
  "pages_ok d p0 p1 p2 s \<longleftrightarrow> distinct [d, p0, p1, p2] \<and> (\<forall>p \<in> {d, p0, p1, p2}. p < npage s) \<and> npage s \<le> 2 ^ 20"

definition sees :: "nat \<Rightarrow> nat \<Rightarrow> nat \<Rightarrow> nat \<Rightarrow> nat list \<Rightarrow> u32 \<Rightarrow> u32 \<Rightarrow> u32 \<Rightarrow> u16 \<Rightarrow> u16 \<Rightarrow> u16 \<Rightarrow> kstate \<Rightarrow> bool" where
  "sees d p0 p1 p2 xs e t0 t1 r0 r1 r2 s \<longleftrightarrow> pages_ok d p0 p1 p2 s \<and> is_list (page_free_list s) xs \<and>
     mem s d 0 = e \<and> mem s d 1 = 0 \<and> mem s p0 0 = t0 \<and> mem s p0 1 = t1 \<and>
     pp_ref s p0 = r0 \<and> pp_ref s p1 = r1 \<and> pp_ref s p2 = r2"

lemma test_addresses: "PDX 0 = 0" "PTX 0 = 0" "PDX BY2PG = 0" "PTX BY2PG = 1" "PDX PDMAP = 1"
  by (simp_all add: PDX_alt PTX_alt layout_defs)

abbreviation tab :: "nat \<Rightarrow> u32" where
  "tab p \<equiv> page2pa p OR PTE_D OR PTE_V"

abbreviation leaf :: "nat \<Rightarrow> u32" where
  "leaf p \<equiv> page2pa p OR PTE_V"

lemma test_entries:
  assumes "p < 1048576"
  shows "PPN (leaf p) = p" "PTE_ADDR (leaf p) = page2pa p" "PTE_ADDR (tab p) = page2pa p"
    "(PTE_V AND tab p = 0) = False" "(PTE_V AND leaf p = 0) = False"
proof -
  have lt: "p < 2 ^ 20" using assms by simp
  show "PPN (leaf p) = p" using PPN_pte [OF lt, of 0] by simp
  have v: "valid (leaf p)" "valid (tab p)" by simp_all
  then show "(PTE_V AND tab p = 0) = False" "(PTE_V AND leaf p = 0) = False"
    by (simp_all add: valid_def and.commute [of PTE_V])
  have "push_bit 12 (drop_bit 12 PTE_V) = 0" "push_bit 12 (drop_bit 12 PTE_D) = 0" by (simp_all add: pte_flag_defs)
  moreover have "push_bit 12 (drop_bit 12 (page2pa p)) = page2pa p"
    unfolding page2pa_def by (rule bit_word_eqI) (auto simp: bit_simps)
  ultimately show "PTE_ADDR (leaf p) = page2pa p" "PTE_ADDR (tab p) = page2pa p"
    by (simp_all add: PTE_ADDR_alt drop_bit_or push_bit_or)
qed

lemma insert_without_table:
  assumes "sees d p0 p1 p2 [] e t0 t1 r0 r1 r2 s" "mem s d (PDX va) = 0"
  shows "\<exists>s'. page_insert d 0 p va 0 s = Done (Inl E_NO_MEM) s' \<and> sees d p0 p1 p2 [] e t0 t1 r0 r1 r2 s'"
proof -
  let ?s = "flush 0 va s"
  have "page_alloc ?s = Done (Inl E_NO_MEM) ?s"
    by (rule page_alloc_none) (use assms(1) in \<open>simp add: sees_def\<close>)
  then have "page_insert d 0 p va 0 s = Done (Inl E_NO_MEM) ?s"
    using assms(2) by (simp add: page_insert_def page_insert_new_def pgdir_walk_def run_rules tlb_invalidate_run)
  then show ?thesis using assms(1) by (intro exI [of _ ?s]) (simp add: sees_def pages_ok_def)
qed

lemma insert_new_table:
  assumes "sees d p0 p1 p2 [p0] 0 t0 t1 0 r1 r2 s"
  shows "\<exists>s'. page_insert d 0 p1 0 0 s = Done (Inr ()) s' \<and> sees d p0 p1 p2 [] (tab p0) (leaf p1) 0 1 (r1 + 1) r2 s'"
proof -
  let ?s = "flush 0 0 s"
  have "p0 < npage ?s" "npage ?s \<le> 2 ^ 20" "is_list (page_free_list ?s) [p0]"
    using assms by (simp_all add: sees_def pages_ok_def)
  then obtain q where q: "is_list q []" "page_alloc ?s = Done (Inr p0) (?s\<lparr>page_free_list := q, mem := (mem ?s)(p0 := (\<lambda>_. 0))\<rparr>)"
    using page_alloc_first by blast
  show ?thesis
    using assms q by (simp add: sees_def pages_ok_def page_insert_def page_insert_new_def pgdir_walk_def pte_pointer_def KADDR_def run_rules
        tlb_invalidate_run test_addresses store_def set_ref_def page_incref_def)
qed

lemmas table_rules = sees_def pages_ok_def page_insert_def page_insert_new_def pgdir_walk_def pte_pointer_def KADDR_def
  page_lookup_def pa2page_def page_remove_def page_decref_def page_free_run run_rules tlb_invalidate_run test_addresses
  store_def set_ref_def page_incref_def test_entries

lemma insert_in_table:
  assumes "sees d p0 p1 p2 [] (tab p0) t0 0 r0 r1 r2 s"
  shows "\<exists>s'. page_insert d 0 p2 BY2PG 0 s = Done (Inr ()) s' \<and> sees d p0 p1 p2 [] (tab p0) t0 (leaf p2) r0 r1 (r2 + 1) s'"
  using assms by (simp add: table_rules)

lemma insert_same_page:
  assumes "sees d p0 p1 p2 [] (tab p0) t0 (leaf p2) r0 r1 r2 s"
  shows "\<exists>s'. page_insert d 0 p2 BY2PG 0 s = Done (Inr ()) s' \<and> sees d p0 p1 p2 [] (tab p0) t0 (leaf p2) r0 r1 r2 s'"
  using assms by (simp add: table_rules)

lemma insert_other_page:
  assumes "sees d p0 p1 p2 [] (tab p0) t0 (leaf p2) r0 r1 1 s"
  shows "\<exists>s'. page_insert d 0 p1 BY2PG 0 s = Done (Inr ()) s' \<and> sees d p0 p1 p2 [p2] (tab p0) t0 (leaf p1) r0 (r1 + 1) 0 s'"
  using assms lq.push_repr [of "page_free_list s" "[]" p2] by (simp add: table_rules)

lemma remove_first:
  assumes "sees d p0 p1 p2 xs (tab p0) (leaf p1) t1 r0 2 r2 s"
  shows "\<exists>s'. page_remove d 0 0 s = Done () s' \<and> sees d p0 p1 p2 xs (tab p0) 0 t1 r0 1 r2 s'"
  using assms by (simp add: table_rules)

lemma remove_second:
  assumes "sees d p0 p1 p2 [] (tab p0) t0 (leaf p1) r0 1 r2 s"
  shows "\<exists>s'. page_remove d 0 BY2PG s = Done () s' \<and> sees d p0 p1 p2 [p1] (tab p0) t0 0 r0 0 r2 s'"
  using assms lq.push_repr [of "page_free_list s" "[]" p1] by (simp add: table_rules)

lemma sees_refused:
  "sees d p0 p1 p2 [] e t0 t1 r0 r1 r2 s \<Longrightarrow> refused E_NO_MEM page_alloc s = Done () s"
  using page_alloc_none [of s] by (simp add: refused_def sees_def run_rules)

lemma sees_alloc:
  assumes "sees d p0 p1 p2 [pp] e t0 t1 r0 r1 r2 s" "pp = p1 \<or> pp = p2"
  shows "\<exists>s'. must page_alloc s = Done pp s' \<and> sees d p0 p1 p2 [] e t0 t1 r0 r1 r2 s'"
proof -
  obtain q where "is_list q []" "page_alloc s = Done (Inr pp) (s\<lparr>page_free_list := q, mem := (mem s)(pp := (\<lambda>_. 0))\<rparr>)"
    using page_alloc_first [of s pp "[]"] assms by (auto simp: sees_def pages_ok_def)
  then show ?thesis using assms by (auto simp: must_def run_rules sees_def pages_ok_def)
qed

lemma sees_pa:
  assumes "sees d p0 p1 p2 xs (tab p0) t0 t1 r0 r1 r2 s"
  shows "t0 = leaf p \<Longrightarrow> p < npage s \<Longrightarrow> check_pa d 0 (page2pa p) s = Done () s" "t0 = 0 \<Longrightarrow> check_pa d 0 (- 1) s = Done () s"
    "t1 = leaf p \<Longrightarrow> p < npage s \<Longrightarrow> check_pa d BY2PG (page2pa p) s = Done () s" "t1 = 0 \<Longrightarrow> check_pa d BY2PG (- 1) s = Done () s"
  using assms by (simp_all add: check_pa_def va2pa_def table_rules)

lemma sees_frees:
  assumes "sees d p0 p1 p2 [] e t0 t1 0 r1 r2 s"
  shows "\<exists>s'. page_free p0 s = Done () s' \<and> sees d p0 p1 p2 [p0] e t0 t1 0 r1 r2 s'"
  using assms lq.push_repr [of "page_free_list s" "[]" p0] by (simp add: table_rules)

lemma sees_facts:
  assumes "sees d p0 p1 p2 xs e t0 t1 r0 r1 r2 s"
  shows "p0 < npage s" "p1 < npage s" "p2 < npage s" "mem s d 0 = e" "mem s d 1 = 0"
    "check_ref p0 r0 s = Done () s" "check_ref p1 r1 s = Done () s" "check_ref p2 r2 s = Done () s"
    "p < 1048576 \<Longrightarrow> e = tab p \<Longrightarrow> check (\<lambda>s. PTE_ADDR (mem s d 0) = page2pa p) s = Done () s"
  using assms by (simp_all add: sees_def pages_ok_def check_ref_def check_def run_rules test_entries)

lemma page_check_insert_passes:
  assumes a: "sees d p0 p1 p2 [] 0 t0 t1 0 0 0 s"
  shows "\<exists>s'. page_check_insert d p0 p1 p2 s = Done () s' \<and> sees d p0 p1 p2 [p2] (tab p0) (leaf p1) (leaf p1) 1 2 0 s'"
proof -
  obtain s1 where s1: "page_insert d 0 p1 0 0 s = Done (Inl E_NO_MEM) s1" "sees d p0 p1 p2 [] 0 t0 t1 0 0 0 s1"
    using insert_without_table [OF a, of 0 p1] sees_facts(4) [OF a] by (auto simp: test_addresses)
  obtain s2 where s2: "page_free p0 s1 = Done () s2" "sees d p0 p1 p2 [p0] 0 t0 t1 0 0 0 s2"
    using sees_frees [OF s1(2)] by blast
  obtain s3 where s3: "page_insert d 0 p1 0 0 s2 = Done (Inr ()) s3" "sees d p0 p1 p2 [] (tab p0) (leaf p1) 0 1 1 0 s3"
    using insert_new_table [OF s2(2)] by auto
  obtain s4 where s4: "page_insert d 0 p2 BY2PG 0 s3 = Done (Inr ()) s4" "sees d p0 p1 p2 [] (tab p0) (leaf p1) (leaf p2) 1 1 1 s4"
    using insert_in_table [OF s3(2)] by auto
  obtain s5 where s5: "page_insert d 0 p2 BY2PG 0 s4 = Done (Inr ()) s5" "sees d p0 p1 p2 [] (tab p0) (leaf p1) (leaf p2) 1 1 1 s5"
    using insert_same_page [OF s4(2)] by blast
  obtain s6 where s6: "page_insert d 0 p0 PDMAP 0 s5 = Done (Inl E_NO_MEM) s6" "sees d p0 p1 p2 [] (tab p0) (leaf p1) (leaf p2) 1 1 1 s6"
    using insert_without_table [OF s5(2), of PDMAP p0] sees_facts(5) [OF s5(2)] unfolding test_addresses by blast
  obtain s7 where s7: "page_insert d 0 p1 BY2PG 0 s6 = Done (Inr ()) s7" "sees d p0 p1 p2 [p2] (tab p0) (leaf p1) (leaf p1) 1 2 0 s7"
    using insert_other_page [OF s6(2)] by auto
  have "p0 < 1048576" using a by (auto simp: sees_def pages_ok_def)
  note lt = sees_facts(9) [OF s3(2) this refl]
  have "page_check_insert d p0 p1 p2 s = Done () s7"
    using s1(1) s2(1) s3(1) s4(1) s5(1) s6(1) s7(1) lt sees_facts(7) [OF s3(2)] sees_facts(8) [OF s4(2)] sees_facts(8) [OF s5(2)]
      sees_facts(7,8) [OF s7(2)] sees_pa(1) [OF s3(2) refl sees_facts(2) [OF s3(2)]] sees_pa(3) [OF s4(2) refl sees_facts(3) [OF s4(2)]]
      sees_pa(3) [OF s5(2) refl sees_facts(3) [OF s5(2)]] sees_pa(1,3) [OF s7(2) refl sees_facts(2) [OF s7(2)]]
      sees_refused [OF a] sees_refused [OF s4(2)] sees_refused [OF s5(2)]
    by (simp add: page_check_insert_def run_rules must_def must_fail_def)
  then show ?thesis using s7(2) by blast
qed

lemma page_check_remove_passes:
  assumes a: "sees d p0 p1 p2 [p2] (tab p0) (leaf p1) (leaf p1) 1 2 0 s"
  shows "\<exists>s'. page_check_remove d p0 p1 p2 s = Done () s' \<and> pp_ref s' p0 = 0 \<and> pp_ref s' p1 = 0 \<and> pp_ref s' p2 = 0"
proof -
  obtain s1 where s1: "must page_alloc s = Done p2 s1" "sees d p0 p1 p2 [] (tab p0) (leaf p1) (leaf p1) 1 2 0 s1"
    using sees_alloc [OF a] by blast
  obtain s2 where s2: "page_remove d 0 0 s1 = Done () s2" "sees d p0 p1 p2 [] (tab p0) 0 (leaf p1) 1 1 0 s2"
    using remove_first [OF s1(2)] by blast
  obtain s3 where s3: "page_remove d 0 BY2PG s2 = Done () s3" "sees d p0 p1 p2 [p1] (tab p0) 0 0 1 0 0 s3"
    using remove_second [OF s2(2)] by blast
  obtain s4 where s4: "must page_alloc s3 = Done p1 s4" "sees d p0 p1 p2 [] (tab p0) 0 0 1 0 0 s4"
    using sees_alloc [OF s3(2)] by blast
  have "p0 < 1048576" using a by (auto simp: sees_def pages_ok_def)
  note lt = sees_facts(9) [OF s4(2) this refl]
  let ?s = "set_ref p0 0 (store d 0 0 s4)"
  have r: "check_ref p0 1 (store d 0 0 s4) = Done () (store d 0 0 s4)"
    using s4(2) by (simp add: check_ref_def check_def run_rules sees_def store_def)
  have "page_check_remove d p0 p1 p2 s = Done () ?s"
    using s1(1) s2(1) s3(1) s4(1) lt r sees_facts(7,8) [OF s2(2)] sees_facts(7,8) [OF s3(2)]
      sees_pa(2) [OF s2(2) refl] sees_pa(3) [OF s2(2) refl sees_facts(2) [OF s2(2)]] sees_pa(2,4) [OF s3(2) refl] sees_refused [OF s4(2)]
    by (simp add: page_check_remove_def run_rules)
  moreover have "pp_ref ?s p0 = 0 \<and> pp_ref ?s p1 = 0 \<and> pp_ref ?s p2 = 0"
    using s4(2) by (simp add: sees_def pages_ok_def set_ref_def store_def)
  ultimately show ?thesis by blast
qed

section \<open>Memory for the tests\<close>

lemma clear_bytes_byte:
  "j < 4096 \<Longrightarrow> frame_byte (clear_bytes a n m f) j = (if a \<le> 4096 * f + j \<and> 4096 * f + j < a + n then 0 else frame_byte (m f) j)"
proof (induction n arbitrary: a m)
  case (Suc n)
  have "a div 4096 = f \<and> a mod 4096 = j \<longleftrightarrow> a = 4096 * f + j"
    using Suc.prems div_mult_mod_eq [of a 4096] by auto
  then show ?case using Suc.prems by (auto simp: Suc.IH frame_byte_set)
qed auto

lemma zero_word:
  assumes "\<And>j. j < 4 \<Longrightarrow> byte_of w j = 0"
  shows "w = 0"
proof (rule bit_word_eqI)
  fix n
  assume n: "n < LENGTH(32)"
  then have "byte_of w (n div 8) = 0" by (intro assms) (simp add: less_mult_imp_div_less)
  then have "\<not> bit (byte_of w (n div 8)) (n mod 8)" by simp
  moreover have "bit (byte_of w (n div 8)) (n mod 8) = bit w (8 * (n div 8) + n mod 8)"
    by (simp add: byte_of_def bit_simps)
  ultimately show "bit w n = bit (0 :: u32) n" by simp
qed

lemma cleared_word:
  assumes "4 * i + 4 \<le> n" "i < 1024"
  shows "clear_bytes (4096 * f) n m f i = 0"
proof (rule zero_word)
  fix j :: nat
  assume "j < 4"
  then show "byte_of (clear_bytes (4096 * f) n m f i) j = 0"
    using clear_bytes_byte [of "4 * i + j" "4096 * f" n m f] assms by (simp add: frame_byte_def)
qed

lemma boot_alloc_run:
  assumes f: "unat (freemem s) = 2 ^ 31 + f" "(f + 4095) div 4096 = d" and n: "4096 * d + unat n < unat (memsize s)"
    and m: "unat (memsize s) \<le> 2 ^ 31"
  shows "\<exists>a. boot_alloc n BY2PG True s = Done a (s\<lparr>freemem := a + n, mem := clear_bytes (4096 * d) (unat n) (mem s)\<rparr>) \<and>
    unat (a + n) = 2 ^ 31 + 4096 * d + unat n \<and> PPN (a - ULIM) = d"
proof -
  let ?a = "ROUND (freemem s) BY2PG"
  have le: "f \<le> 4096 * d" using f(2) by linarith
  have a: "unat ?a = 2 ^ 31 + 4096 * d"
  proof -
    have "d < 524288" using n m by simp
    then have b: "unat (freemem s) + 4095 < 2 ^ 32" using f(1) le by simp
    have "(2 ^ 31 + f + 4095) div 4096 = (4096 * 524288 + (f + 4095)) div (4096 :: nat)" by simp
    also have "\<dots> = 524288 + d" using f(2) by (simp only: div_mult_self4)
    finally show ?thesis using ROUND_page_unat [OF b] f(1) by (simp add: algebra_simps)
  qed
  have an: "unat (?a + n) = 2 ^ 31 + 4096 * d + unat n"
    using a n m by (simp add: unat_word_ariths)
  have p: "unat (?a + n - ULIM) = 4096 * d + unat n" "unat (?a - ULIM) = 4096 * d" "\<not> ?a + n < ULIM"
    using a an by (simp_all add: unat_sub word_le_nat_alt word_less_nat_alt ULIM_def)
  have "freemem s \<noteq> 0" using f(1) by auto
  moreover have "\<not> memsize s \<le> ?a + n - ULIM" using p(1) n by (simp add: word_le_nat_alt)
  ultimately have "boot_alloc n BY2PG True s = Done ?a (s\<lparr>freemem := ?a + n, mem := clear_bytes (4096 * d) (unat n) (mem s)\<rparr>)"
    using p by (simp add: boot_alloc_def run_rules PADDR_def)
  moreover have "PPN (?a - ULIM) = d" using p(2) by (simp add: PPN_alt)
  ultimately show ?thesis using an by blast
qed

section \<open>The tests pass\<close>

text \<open>
  The state that \<^verbatim>\<open>page_init\<close> leaves: three free pages at the head of the list, and memory for the next two calls of
  \<^verbatim>\<open>alloc\<close> from page \<open>d\<close> on, which is not one of the three.
\<close>

definition ready :: "nat \<Rightarrow> nat \<Rightarrow> nat \<Rightarrow> nat \<Rightarrow> kstate \<Rightarrow> bool" where
  "ready d p0 p1 p2 s \<longleftrightarrow> pages_ok d p0 p1 p2 s \<and> (\<exists>fl. is_list (page_free_list s) (p0 # p1 # p2 # fl)) \<and>
     pp_ref s p0 = 0 \<and> pp_ref s p1 = 0 \<and> pp_ref s p2 = 0 \<and>
     unat (freemem s) = 2 ^ 31 + 4096 * d \<and> 4096 * (d + 2) < unat (memsize s) \<and> unat (memsize s) \<le> 2 ^ 31"

lemma three_pages_run:
  assumes "pages_ok d p0 p1 p2 s" "is_list (page_free_list s) (p0 # p1 # p2 # fl)"
  shows "\<exists>s'. three_pages s = Done (p0, p1, p2) s' \<and> pages_ok d p0 p1 p2 s' \<and> is_list (page_free_list s') fl \<and>
    pp_ref s' = pp_ref s \<and> freemem s' = freemem s \<and> memsize s' = memsize s \<and> mem s' d = mem s d"
proof -
  have n: "p0 < npage s" "p1 < npage s" "p2 < npage s" "npage s \<le> 2 ^ 20" and ne: "p1 \<noteq> p0" "p2 \<noteq> p1 \<and> p2 \<noteq> p0" "d \<notin> {p0, p1, p2}"
    using assms(1) by (auto simp: pages_ok_def)
  let ?up = "\<lambda>q p s. s\<lparr>page_free_list := q, mem := (mem s)(p := (\<lambda>_. 0))\<rparr> :: kstate"
  obtain q0 where q0: "is_list q0 (p1 # p2 # fl)" "page_alloc s = Done (Inr p0) (?up q0 p0 s)"
    using page_alloc_first [OF assms(2) n(1,4)] by blast
  obtain q1 where q1: "is_list q1 (p2 # fl)" "page_alloc (?up q0 p0 s) = Done (Inr p1) (?up q1 p1 (?up q0 p0 s))"
    using page_alloc_first [of "?up q0 p0 s" p1 "p2 # fl"] q0(1) n by auto
  obtain q2 where q2: "is_list q2 fl" "page_alloc (?up q1 p1 (?up q0 p0 s)) = Done (Inr p2) (?up q2 p2 (?up q1 p1 (?up q0 p0 s)))"
    using page_alloc_first [of "?up q1 p1 (?up q0 p0 s)" p2 fl] q1(1) n by auto
  have "three_pages s = Done (p0, p1, p2) (?up q2 p2 (?up q1 p1 (?up q0 p0 s)))"
    using q0(2) q1(2) q2(2) ne(1,2) by (simp add: three_pages_def must_def run_rules)
  moreover have "pages_ok d p0 p1 p2 (?up q2 p2 (?up q1 p1 (?up q0 p0 s)))" using assms(1) by (simp add: pages_ok_def)
  ultimately show ?thesis using q2(1) ne(3) by simp
qed

lemma free_three:
  assumes "pp_ref s p0 = 0" "pp_ref s p1 = 0" "pp_ref s p2 = 0"
  shows "\<exists>s'. (\<forall>k :: (kstate, unit) kprog. (seqK (page_free p0) (seqK (page_free p1) (seqK (page_free p2) k))) s = k s') \<and>
    (seqK (page_free p0) (seqK (page_free p1) (page_free p2))) s = Done () s' \<and>
    freemem s' = freemem s \<and> memsize s' = memsize s"
  using assms by (simp add: run_rules page_free_run)

lemma page_check_passes:
  assumes "ready d p0 p1 p2 s"
  shows "\<exists>s'. page_check s = Done () s'"
proof -
  obtain fl where fl: "is_list (page_free_list s) (p0 # p1 # p2 # fl)" using assms by (auto simp: ready_def)
  obtain a where a: "boot_alloc BY2PG BY2PG True s = Done a (s\<lparr>freemem := a + BY2PG, mem := clear_bytes (4096 * d) (unat BY2PG) (mem s)\<rparr>)"
      "PPN (a - ULIM) = d"
    using boot_alloc_run [of s "4096 * d" d BY2PG] assms by (auto simp: ready_def BY2PG_def)
  let ?s = "s\<lparr>freemem := a + BY2PG, mem := clear_bytes (4096 * d) (unat BY2PG) (mem s)\<rparr>"
  have ok: "pages_ok d p0 p1 p2 ?s" using assms by (simp add: ready_def pages_ok_def)
  obtain s1 where s1: "three_pages ?s = Done (p0, p1, p2) s1" "pages_ok d p0 p1 p2 s1" "pp_ref s1 = pp_ref s" "mem s1 d = mem ?s d"
    using three_pages_run [OF ok] fl by auto
  let ?t = "s1\<lparr>page_free_list := LIST_INIT (page_free_list s1)\<rparr>"
  have "mem s1 d 0 = 0" "mem s1 d 1 = 0"
    unfolding s1(4) using cleared_word [of 0 4096 d] cleared_word [of 1 4096 d] by (simp_all add: BY2PG_def)
  then have "sees d p0 p1 p2 [] 0 (mem s1 p0 0) (mem s1 p0 1) 0 0 0 ?t"
    using s1(2,3) assms lq.repr_init by (simp add: sees_def pages_ok_def ready_def)
  then obtain s2 where s2: "page_check_insert d p0 p1 p2 ?t = Done () s2" "sees d p0 p1 p2 [p2] (tab p0) (leaf p1) (leaf p1) 1 2 0 s2"
    using page_check_insert_passes by blast
  obtain s3 where s3: "page_check_remove d p0 p1 p2 s2 = Done () s3" "pp_ref s3 p0 = 0" "pp_ref s3 p1 = 0" "pp_ref s3 p2 = 0"
    using page_check_remove_passes [OF s2(2)] by blast
  let ?u = "s3\<lparr>page_free_list := (page_free_list s3)\<lparr>lh_first := lh_first (page_free_list s1)\<rparr>\<rparr>"
  obtain s4 where "(seqK (page_free p0) (seqK (page_free p1) (page_free p2))) ?u = Done () s4"
    using free_three [of ?u p0 p1 p2] s3(2-4) by auto
  then have "page_check s = Done () s4"
    using a s1(1) s2(1) s3(1) by (simp add: page_check_def run_rules Let_def steal_pages_def give_pages_back_def)
  then show ?thesis by blast
qed

lemma physical_memory_manage_check_passes:
  assumes "ready d p0 p1 p2 s"
  shows "\<exists>s'. physical_memory_manage_check s = Done () s'"
proof -
  obtain fl where fl: "is_list (page_free_list s) (p0 # p1 # p2 # fl)" "pages_ok d p0 p1 p2 s" using assms by (auto simp: ready_def)
  obtain s1 where s1: "three_pages s = Done (p0, p1, p2) s1" "pages_ok d p0 p1 p2 s1" "pp_ref s1 = pp_ref s"
      "freemem s1 = freemem s" "memsize s1 = memsize s"
    using three_pages_run [OF fl(2,1)] by blast
  have kva: "page2kva p0 t = Done p0 t" if "npage t = npage s1" for t
    using s1(2) that by (simp add: page2kva_def KADDR_run pages_ok_def)
  let ?t = "s1\<lparr>page_free_list := LIST_INIT (page_free_list s1)\<rparr>"
  let ?t1 = "(store p0 0 1000 ?t)\<lparr>page_free_list := LIST_INSERT_HEAD p0 (LIST_INIT (page_free_list s1))\<rparr>"
  have l: "is_list (page_free_list ?t) []" "is_list (page_free_list ?t1) [p0]"
    using lq.repr_init lq.push_repr [OF lq.repr_init, of p0] by simp_all
  have free: "page_free p0 (store p0 0 1000 ?t) = Done () ?t1"
    using page_free_run [of "store p0 0 1000 ?t" p0] assms s1(3) by (simp add: store_def ready_def)
  obtain q where q: "page_alloc ?t1 = Done (Inr p0) (?t1\<lparr>page_free_list := q, mem := (mem ?t1)(p0 := (\<lambda>_. 0))\<rparr>)"
    using page_alloc_first [OF l(2)] s1(2) by (auto simp: store_def pages_ok_def)
  let ?u = "s1\<lparr>mem := (mem s1)(p0 := (\<lambda>_. 0)), page_free_list := q\<lparr>lh_first := lh_first (page_free_list s1)\<rparr>\<rparr>"
  obtain s4 where s4: "\<And>k :: (kstate, unit) kprog. (seqK (page_free p0) (seqK (page_free p1) (seqK (page_free p2) k))) ?u = k s4" "freemem s4 = freemem s" "memsize s4 = memsize s"
    using free_three [of ?u p0 p1 p2] assms s1(3-5) by (auto simp: ready_def)
  have mem: "4096 * d + 8192 < unat (memsize s)" "unat (memsize s) \<le> 2 ^ 31" "unat (freemem s) = 2 ^ 31 + 4096 * d"
    using assms by (simp_all add: ready_def)
  have size: "unat (10 * sizeof_Page) = 120" "unat sizeof_Page = 12" by (simp_all add: sizeof_Page_def)
  obtain a m where a: "boot_alloc (10 * sizeof_Page) BY2PG True s4 = Done a (s4\<lparr>freemem := a + 10 * sizeof_Page, mem := m\<rparr>)"
      "unat (a + 10 * sizeof_Page) = 2 ^ 31 + 4096 * d + 120"
    using boot_alloc_run [of s4 "4096 * d" d "10 * sizeof_Page"] s4(2,3) mem size by auto
  let ?v = "s4\<lparr>freemem := a + 10 * sizeof_Page, mem := m\<rparr>"
  have "(4096 * d + 120 + 4095) div 4096 = Suc d" by simp
  then obtain b s6 where "boot_alloc sizeof_Page BY2PG True ?v = Done b s6"
    using boot_alloc_run [of ?v "4096 * d + 120" "Suc d" sizeof_Page] s4(3) a(2) mem size by auto
  then have "physical_memory_manage_check s = Done () s6"
    using s1(1) page_alloc_none [OF l(1)] kva free q s4(1) [unfolded run_seq [of "page_free p0"]] a(1) list_checks
    by (simp add: physical_memory_manage_check_def run_rules steal_pages_def give_pages_back_def refused_def must_def check_def store_def)
  then show ?thesis by blast
qed

section \<open>Environments\<close>

text \<open>\<^verbatim>\<open>pe\<close> is the pointer that \<^verbatim>\<open>envid2env\<close> stores.\<close>

definition envid2env_check :: "(kstate, unit) kprog" where
  "envid2env_check =
     bindK (must (env_alloc 0)) (\<lambda>pe0.
     bindK (must (env_alloc 0)) (\<lambda>pe2.
     seqK (modifyK (upd_env pe2 (env_status_update (\<lambda>_. ENV_FREE))))
    (bindK (getsK (\<lambda>s. env_id (envs s pe2))) (\<lambda>i.
     seqK (refused E_BAD_ENV (envid2env i False))
    (seqK (modifyK (upd_env pe2 (env_status_update (\<lambda>_. ENV_RUNNABLE))))
    (bindK (must (envid2env i False)) (\<lambda>pe. the_env pe (\<lambda>pe.
     seqK (check (\<lambda>s. env_id (envs s pe) = env_id (envs s pe2)))
    (seqK (modifyK (\<lambda>s. s\<lparr>curenv := Some pe0\<rparr>))
          (refused E_BAD_ENV (envid2env i True)))))))))))"

text \<open>
  What the tests of environments need: free environments \<open>es\<close>, the free pages \<open>ps\<close> for their directories,
  and unused ASIDs \<open>as\<close>, each the lowest when its turn comes.
\<close>

definition env_ready :: "(nat \<Rightarrow> nat set) \<Rightarrow> (nat \<Rightarrow> nat) \<Rightarrow> nat list \<Rightarrow> nat list \<Rightarrow> nat list \<Rightarrow> nat list \<Rightarrow> kstate \<Rightarrow> bool" where
  "env_ready idx pin pl el ps es s \<longleftrightarrow> mm_inv idx pin (ps @ pl) s \<and> base_pgdir s \<notin> set (ps @ pl) \<and>
     is_list (env_free_list s) (es @ el) \<and> set es \<subseteq> {..<NENV}"

lemma env_ready_alloc:
  assumes r: "env_ready idx pin pl el (p # ps) (e # es) s" and a: "asid_used s = {..<i}" "i < NASID"
  shows "env_alloc 0 s = Done (Inr e) (alloc_state e p i 0 s)"
    "env_ready (idx(p := user_slots)) (pin(p := 1)) pl el ps es (alloc_state e p i 0 s)"
    "asid_used (alloc_state e p i 0 s) = {..<Suc i}"
proof -
  note inv = r [unfolded env_ready_def, THEN conjunct1, simplified]
  have el: "is_list (env_free_list s) (e # (es @ el))" using r by (simp add: env_ready_def)
  show "env_alloc 0 s = Done (Inr e) (alloc_state e p i 0 s)"
    by (rule env_alloc_run [OF inv _ el a(2)]) (use r a in \<open>auto simp: env_ready_def\<close>)
  have "mm_inv (idx(p := user_slots)) (pin(p := 1)) (ps @ pl) (alloc_state e p i 0 s)"
    using set_up_inv(1) [OF inv, of e] by (simp add: mm_inv_def alloc_state_def set_asid_def)
  moreover obtain q where "LIST_REMOVE e (env_free_list s) = Some q" "is_list q (es @ el)" using lq.pop(2) [OF el] by blast
  ultimately show "env_ready (idx(p := user_slots)) (pin(p := 1)) pl el ps es (alloc_state e p i 0 s)"
    using r by (auto simp: env_ready_def alloc_state_def set_asid_def set_up_def)
  have "asid_used (alloc_state e p i 0 s) = insert i (asid_used s)"
    using asid_used_set [OF a(2), of s] by (simp add: alloc_state_def asid_used_def set_asid_def set_up_def)
  then show "asid_used (alloc_state e p i 0 s) = {..<Suc i}" using a(1) by (simp add: lessThan_Suc)
qed

lemma envid2env_check_passes:
  assumes "env_ready idx pin pl el [p0, p2] [e0, e2] s" "asid_used s = {..<i}" "Suc i < NASID"
    and "take_bit 21 (mkenvid_i s + 1) \<noteq> 0" "take_bit 21 (mkenvid_i s + 2) \<noteq> 0"
  shows "\<exists>s'. envid2env_check s = Done () s'"
proof -
  let ?s1 = "alloc_state e0 p0 i 0 s"
  let ?s2 = "alloc_state e2 p2 (Suc i) 0 ?s1"
  note a = env_ready_alloc [OF assms(1,2)]
  have i: "i < NASID" using assms(3) by simp
  note b = env_ready_alloc [OF a(2) [OF i] a(3) [OF i] assms(3)]
  have e: "e0 < NENV" "e2 < NENV" "e0 \<noteq> e2"
    using assms(1) lq.repr_distinct [of "env_free_list s" "[e0, e2] @ el"] by (auto simp: env_ready_def)
  let ?i0 = "envid_of (mkenvid_i s + 1) e0" and ?i2 = "envid_of (mkenvid_i s + 2) e2"
  have id: "env_id (envs ?s2 e2) = ?i2" "env_id (envs ?s2 e0) = ?i0" "env_parent_id (envs ?s2 e2) = 0" "env_status (envs ?s2 e2) = env_status (envs s e2)"
    using e by (simp_all add: alloc_state_def new_env_def set_asid_def set_up_def) (simp add: add.commute)
  have nz: "?i2 \<noteq> 0" "?i0 \<noteq> 0" "?i2 \<noteq> ?i0"
    using envid_of_nonzero [OF e(2)] envid_of_nonzero [OF e(1)] assms(4,5) envid_of_inj(1) [OF e(2,1)] e(3) by auto
  show ?thesis
    using a(1) [OF i] b(1) id nz e
    by (simp add: envid2env_check_def must_def refused_def check_def run_rules envid2env_def the_env_def upd_env_def)
qed

text \<open>
  The loops of \<^verbatim>\<open>env_check\<close> over the pages of the two arrays in the template directory, the environments'
  way into the run list, and the whole test.
\<close>

definition check_segment :: "u32 \<Rightarrow> u32 \<Rightarrow> u32 \<Rightarrow> (kstate, unit) kprog" where
  "check_segment va kva len =
     bindK (getsK base_pgdir) (\<lambda>d.
     forK [0..<(unat len + 4095) div 4096] (\<lambda>k.
       bindK (PADDR kva) (\<lambda>pa. check_pa d (va + of_nat k * BY2PG) (pa + of_nat k * BY2PG))))"

definition enqueue :: "nat \<Rightarrow> (kstate, unit) kprog" where
  "enqueue e = stepK (\<lambda>s. map_option (\<lambda>q. s\<lparr>env_sched_list := q\<rparr>) (TAILQ_INSERT_TAIL e (env_sched_list s)))
     ''store through NULL''"

definition env_check :: "(kstate, unit) kprog" where
  "env_check =
     bindK (must (env_alloc 0)) (\<lambda>pe0. bindK (must (env_alloc 0)) (\<lambda>pe1. bindK (must (env_alloc 0)) (\<lambda>pe2.
     seqK (assertK (pe1 \<noteq> pe0) ''assertion failed'')
    (seqK (assertK (pe2 \<noteq> pe1 \<and> pe2 \<noteq> pe0) ''assertion failed'')
    (bindK (getsK (\<lambda>s. lh_first (env_free_list s))) (\<lambda>fl.
     seqK (modifyK (\<lambda>s. s\<lparr>env_free_list := LIST_INIT (env_free_list s)\<rparr>))
    (seqK (refused E_NO_FREE_ENV (env_alloc 0))
    (seqK (modifyK (\<lambda>s. s\<lparr>env_free_list := (env_free_list s)\<lparr>lh_first := fl\<rparr>\<rparr>))
    (seqK (check (\<lambda>s. env_id (envs s pe0) = 2048))
    (seqK (check (\<lambda>s. env_id (envs s pe1) = 4097))
    (seqK (check (\<lambda>s. env_id (envs s pe2) = 6146))
    (seqK (bindK (getsK (\<lambda>s. (pages_kva s, of_nat (npage s) * sizeof_Page))) (\<lambda>(kva, n). check_segment UPAGES kva n))
    (seqK (bindK (getsK envs_kva) (\<lambda>kva. check_segment UENVS kva (of_nat NENV * sizeof_Env)))
    (seqK (check (\<lambda>s. mem s (env_pgdir (envs s pe2)) (PDX UTOP) = mem s (base_pgdir s) (PDX UTOP)))
    (seqK (check (\<lambda>s. mem s (env_pgdir (envs s pe2)) (PDX UTOP - 1) = 0))
    (seqK (enqueue pe0) (seqK (enqueue pe1) (seqK (enqueue pe2)
    (seqK (env_free pe2) (seqK (env_free pe1) (env_free pe0)))))))))))))))))))))"

definition segment_ok :: "(nat \<Rightarrow> nat set) \<Rightarrow> kstate \<Rightarrow> u32 \<Rightarrow> u32 \<Rightarrow> u32 \<Rightarrow> bool" where
  "segment_ok idx s va kva len \<longleftrightarrow> ULIM \<le> kva \<and> (\<forall>k < (unat len + 4095) div 4096.
     let a = va + of_nat k * BY2PG; d = base_pgdir s in
     PDX a \<in> idx d \<and> valid (mem s d (PDX a)) \<and> valid (lookup_pte (mem s) d a) \<and>
     PTE_ADDR (lookup_pte (mem s) d a) = kva - ULIM + of_nat k * BY2PG)"

lemma segment_passes:
  assumes "mm_inv idx pin fl s" "segment_ok idx s va kva len"
  shows "check_segment va kva len s = Done () s"
proof -
  let ?d = "base_pgdir s"
  have body: "(bindK (PADDR kva) (\<lambda>pa. check_pa ?d (va + of_nat k * BY2PG) (pa + of_nat k * BY2PG))) s = Done () s"
    if "k < (unat len + 4095) div 4096" for k
  proof -
    let ?a = "va + of_nat k * BY2PG"
    have a: "PDX ?a \<in> idx ?d" "valid (mem s ?d (PDX ?a))" "valid (lookup_pte (mem s) ?d ?a)"
      "PTE_ADDR (lookup_pte (mem s) ?d ?a) = kva - ULIM + of_nat k * BY2PG" "\<not> kva < ULIM"
      using assms(2) that by (auto simp: segment_ok_def Let_def)
    have "PPN (mem s ?d (PDX ?a)) < npage s"
      using pt_wf_tab(1) [OF mm_inv_wf [OF assms(1)], of ?d "PDX ?a"] a(1,2) by (simp add: tabs_def)
    with a show ?thesis
      by (simp add: PADDR_def check_pa_def va2pa_def KADDR_run run_rules lookup_pte_def)
  qed
  have "forK [0..<n] (\<lambda>k. bindK (PADDR kva) (\<lambda>pa. check_pa ?d (va + of_nat k * BY2PG) (pa + of_nat k * BY2PG))) s = Done () s"
    if "n \<le> (unat len + 4095) div 4096" for n
  proof -
    have "\<exists>t. forK [0..<n] (\<lambda>k. bindK (PADDR kva) (\<lambda>pa. check_pa ?d (va + of_nat k * BY2PG) (pa + of_nat k * BY2PG))) s = Done () t \<and> t = s"
      by (rule forK_upt [where P = "\<lambda>k t. t = s"]) (use body that in auto)
    then show ?thesis by simp
  qed
  then show ?thesis by (simp add: check_segment_def run_rules)
qed

lemma segment_alloc:
  assumes r: "env_ready idx pin pl el (p # ps) es s" and sg: "segment_ok idx s va kva len"
  shows "segment_ok (idx(p := user_slots)) (alloc_state e p i 0 s) va kva len"
proof -
  let ?t = "alloc_state e p i 0 s"
  have inv: "mm_inv idx pin (p # ps @ pl) s" and b: "base_pgdir s \<noteq> p" using r by (auto simp: env_ready_def)
  have free: "p < npage s" "pp_ref s p = 0" using inv by (simp_all add: mm_inv_def)
  have t: "base_pgdir ?t = base_pgdir s" "mem ?t = (mem s)(p := new_dir p s)"
    by (simp_all add: alloc_state_def set_asid_def set_up_def)
  have "PPN (mem s (base_pgdir s) j) \<noteq> p" if "j \<in> idx (base_pgdir s)" "valid (mem s (base_pgdir s) j)" for j
    using mm_inv_unreferenced(3) [OF inv free, of "(base_pgdir s, j)"] that by (simp add: tabs_def tab_of.simps)
  then show ?thesis
    using sg b unfolding segment_ok_def by (auto simp: Let_def t lookup_pte_def)
qed

lemma enqueue_run:
  assumes "is_tailq (env_sched_list s) xs" "e \<notin> set xs"
  shows "\<exists>q. enqueue e s = Done () (s\<lparr>env_sched_list := q\<rparr>) \<and> is_tailq q (xs @ [e])"
  using tq.enq_repr [OF assms] by (auto simp: enqueue_def run_rules)

text \<open>Environments in the run list that own their directories, against the free list.\<close>

definition owned :: "(nat \<Rightarrow> nat set) \<Rightarrow> (nat \<Rightarrow> nat) \<Rightarrow> nat list \<Rightarrow> nat list \<Rightarrow> kstate \<Rightarrow> bool" where
  "owned idx pin es el s \<longleftrightarrow> (\<exists>fl. mm_inv idx pin fl s) \<and> is_list (env_free_list s) el \<and> set es \<inter> set el = {} \<and> distinct es \<and>
     (\<exists>xs. is_tailq (env_sched_list s) xs \<and> set es \<subseteq> set xs) \<and> inj_on (\<lambda>e. env_pgdir (envs s e)) (set es) \<and>
     (\<forall>e \<in> set es. idx (env_pgdir (envs s e)) = user_slots \<and> pin (env_pgdir (envs s e)) = 1)"

lemma owned_free:
  assumes o: "owned idx pin (e # es) el s"
  shows "\<exists>s' idx' pin'. env_free e s = Done () s' \<and> owned idx' pin' es (e # el) s'"
proof -
  let ?d = "env_pgdir (envs s e)"
  obtain fl xs where a: "mm_inv idx pin fl s" "is_tailq (env_sched_list s) xs" "e \<in> set xs" "set es \<subseteq> set xs"
      "idx ?d = user_slots" "pin ?d = 1" "is_list (env_free_list s) el" "e \<notin> set el" "e \<notin> set es"
    using o by (auto simp: owned_def)
  obtain s' fl' where s': "env_free e s = Done () s'" "mm_inv (idx(?d := {})) (pin(?d := 0)) fl' s'"
      "is_list (env_free_list s') (e # el)" "is_tailq (env_sched_list s') (remove1 e xs)"
      "envs s' = (envs s)(e := (envs s e)\<lparr>env_status := ENV_FREE\<rparr>)"
    using env_free_run [OF a(1) refl a(5,6,2,3,7,8)] by blast
  have d: "env_pgdir (envs s' x) = env_pgdir (envs s x)" for x by (simp add: s'(5))
  have "env_pgdir (envs s x) \<noteq> ?d" if "x \<in> set es" for x
    using o that a(9) by (auto simp: owned_def inj_on_def)
  moreover have "set es \<subseteq> set (remove1 e xs)"
    using a(4,9) tq.repr_distinct [OF a(2)] by auto
  ultimately have "owned (idx(?d := {})) (pin(?d := 0)) es (e # el) s'"
    using o s'(2-4) a(9) unfolding owned_def d by (auto simp: inj_on_def)
  with s'(1) show ?thesis by blast
qed

lemma owned_free_all: "owned idx pin [e2, e1, e0] el s \<Longrightarrow> \<exists>s'. (seqK (env_free e2) (seqK (env_free e1) (env_free e0))) s = Done () s'"
proof -
  assume "owned idx pin [e2, e1, e0] el s"
  from owned_free [OF this] obtain s1 idx1 pin1 where s1: "env_free e2 s = Done () s1" "owned idx1 pin1 [e1, e0] (e2 # el) s1" by blast
  from owned_free [OF this(2)] obtain s2 idx2 pin2 where s2: "env_free e1 s1 = Done () s2" "owned idx2 pin2 [e0] (e1 # e2 # el) s2" by blast
  from owned_free [OF this(2)] obtain s3 where "env_free e0 s2 = Done () s3" by blast
  with s1 s2 show ?thesis by (simp add: run_rules)
qed

lemma env_check_passes:
  assumes r: "env_ready idx pin pl el [p0, p1, p2] [0, 1, 2] s" and a: "asid_used s = {..<i}" "i + 2 < NASID" and n: "mkenvid_i s = 0"
    and seg: "segment_ok idx s UPAGES (pages_kva s) (of_nat (npage s) * sizeof_Page)"
      "segment_ok idx s UENVS (envs_kva s) (of_nat NENV * sizeof_Env)"
    and q: "is_tailq (env_sched_list s) xs" "set xs \<inter> {0, 1, 2} = {}"
  shows "\<exists>s'. env_check s = Done () s'"
proof -
  let ?s1 = "alloc_state 0 p0 i 0 s"
  let ?s2 = "alloc_state 1 p1 (Suc i) 0 ?s1"
  let ?s3 = "alloc_state 2 p2 (Suc (Suc i)) 0 ?s2"
  have i: "i < NASID" "Suc i < NASID" "Suc (Suc i) < NASID" using a(2) by simp_all
  note a1 = env_ready_alloc [OF r a(1) i(1)]
  note a2 = env_ready_alloc [OF a1(2,3) i(2)]
  note a3 = env_ready_alloc [OF a2(2,3) i(3)]
  note sg = segment_alloc [OF a2(2) segment_alloc [OF a1(2) segment_alloc [OF r]]]
  have ps: "distinct [p0, p1, p2]" "base_pgdir s \<notin> {p0, p1, p2}"
    using r lq.repr_distinct [of "page_free_list s" "[p0, p1, p2] @ pl"] by (auto simp: env_ready_def mm_inv_def)
  have el: "set el \<inter> {0, 1, 2} = {}" using r lq.repr_distinct [of "env_free_list s" "[0, 1, 2] @ el"] by (auto simp: env_ready_def)
  have dirs: "env_pgdir (envs ?s3 0) = p0" "env_pgdir (envs ?s3 1) = p1" "env_pgdir (envs ?s3 2) = p2"
    and ids: "env_id (envs ?s3 0) = envid_of 1 0" "env_id (envs ?s3 1) = envid_of 2 1" "env_id (envs ?s3 2) = envid_of 3 2"
    and rest: "base_pgdir ?s3 = base_pgdir s" "pages_kva ?s3 = pages_kva s" "npage ?s3 = npage s" "envs_kva ?s3 = envs_kva s"
      "env_sched_list ?s3 = env_sched_list s" "mem ?s3 = (mem ?s2)(p2 := new_dir p2 ?s2)" "base_pgdir ?s2 = base_pgdir s"
    using n by (simp_all add: alloc_state_def new_env_def set_asid_def set_up_def)
  have num: "envid_of 1 0 = 2048" "envid_of 2 1 = 4097" "envid_of 3 2 = 6146" by (simp_all add: envid_of_def)
  have "LIST_FIRST (LIST_INIT (env_free_list ?s3)) = None" using lq.front_None_iff [OF lq.repr_init] by simp
  then have no: "env_alloc 0 (?s3\<lparr>env_free_list := LIST_INIT (env_free_list ?s3)\<rparr>) = Done (Inl E_NO_FREE_ENV) (?s3\<lparr>env_free_list := LIST_INIT (env_free_list ?s3)\<rparr>)"
    by (simp add: env_alloc_def run_rules)
  have same: "?s3\<lparr>env_free_list := (LIST_INIT (env_free_list ?s3))\<lparr>lh_first := lh_first (env_free_list ?s3)\<rparr>\<rparr> = ?s3"
    by (simp add: LIST_INIT_def)
  have dir: "mem ?s3 p2 (PDX UTOP) = mem ?s3 (base_pgdir s) (PDX UTOP)" "mem ?s3 p2 (PDX UTOP - 1) = 0"
    unfolding rest(6) using ps(2) rest(7) by (simp_all add: new_dir_def PDX_UTOP)
  note m3 = a3(2) [unfolded env_ready_def]
  have segs: "check_segment UPAGES (pages_kva s) (of_nat (npage s) * sizeof_Page) ?s3 = Done () ?s3"
    "check_segment UENVS (envs_kva s) (of_nat NENV * sizeof_Env) ?s3 = Done () ?s3"
    using segment_passes [OF m3 [THEN conjunct1]] sg [OF seg(1)] sg [OF seg(2)] by simp_all
  obtain q0 where q0: "enqueue 0 ?s3 = Done () (?s3\<lparr>env_sched_list := q0\<rparr>)" "is_tailq q0 (xs @ [0])"
    using enqueue_run [of ?s3 xs 0] q rest(5) by auto
  obtain q1 where q1: "enqueue 1 (?s3\<lparr>env_sched_list := q0\<rparr>) = Done () (?s3\<lparr>env_sched_list := q1\<rparr>)" "is_tailq q1 (xs @ [0, 1])"
    using enqueue_run [of "?s3\<lparr>env_sched_list := q0\<rparr>" "xs @ [0]" 1] q0(2) q(2) by auto
  obtain q2 where q2: "enqueue 2 (?s3\<lparr>env_sched_list := q1\<rparr>) = Done () (?s3\<lparr>env_sched_list := q2\<rparr>)" "is_tailq q2 (xs @ [0, 1, 2])"
    using enqueue_run [of "?s3\<lparr>env_sched_list := q1\<rparr>" "xs @ [0, 1]" 2] q1(2) q(2) by auto
  let ?t = "?s3\<lparr>env_sched_list := q2\<rparr>"
  have mt: "mm_inv x y z ?t = mm_inv x y z ?s3" for x y z by (simp add: mm_inv_def)
  have "owned (idx(p0 := user_slots, p1 := user_slots, p2 := user_slots)) (pin(p0 := 1, p1 := 1, p2 := 1)) [2, 1, 0] el ?t"
    unfolding owned_def mt using m3 q2(2) el ps dirs by (auto simp: inj_on_def)
  then obtain s' where "(seqK (env_free 2) (seqK (env_free 1) (env_free 0))) ?t = Done () s'"
    using owned_free_all by blast
  then have "env_check s = Done () s'"
    using a1(1) a2(1) a3(1) no same dirs ids num rest dir segs q0(1) q1(1) q2(1)
    by (simp add: env_check_def must_def refused_def check_def run_rules)
  then show ?thesis by blast
qed

end
