(* ===== verification/Spec2Isabelle.thy ===== *)
theory Spec2Isabelle
  imports Pmap_Thms Sched_Thms Env_Thms Syscall_Thms Ipc_Thms Tlbex_Thms Elf_Thms
    Fs_Dir Fs_Trunc Fs_Create Cstring_Thms Print_Thms Serv_Thms Ide_Thms Fork_Child Pipe_Thms Fd_Thms File_Thms Path Shell_Lex_Thms Fsformat_Image
    Spawn_Thms Spawn_Safe Shell_Thms History_Thms
    Output_Thms Commands_Thms
    Traps_Thms Ulib_Thms Shell_Main Selftest
begin

text \<open>
  A verification library for MOS, the teaching operating system for 32-bit little-endian MIPS in
  this repository.

  \<^bold>\<open>The program.\<close> The kernel (\<^verbatim>\<open>kern/\<close>) owns physical memory, page tables, the software-filled
  TLB, the environments and the run queue, and answers system calls. Everything else runs as user
  environments: a file system server (\<^verbatim>\<open>fs/\<close>) that caches disk blocks in its own pages and
  answers requests sent by IPC, and programs linked with a library (\<^verbatim>\<open>user/lib/\<close>) that builds
  fork, pipes, file descriptors and files from the memory system calls. \<^verbatim>\<open>lib/\<close> is shared code;
  \<^verbatim>\<open>tools/fsformat.c\<close> builds the disk image on the host.

  \<^bold>\<open>How code is translated.\<close> A C function is a function from the state of its component to an
  \<open>outcome\<close> (\<open>Prelude\<close>): it returns with a new state, stops in \<^verbatim>\<open>panic\<close>, or leaves the kernel for
  user mode. Error codes are \<open>Inl e\<close>. Machine integers are words; where C indexes arrays by them
  they become natural numbers. Pointers into arrays are indices, a pointer to a list link is a value
  that says whose link it is, pointers into user memory are 32-bit addresses. Loops over a bound
  known in advance run over a list; loops that need not end are \<open>partial_function (option)\<close> or take
  fuel and stop with a message when it runs out.

  \<^bold>\<open>The kernel.\<close>
  \<^item> \<open>Queue\<close>: the list macros of \<^verbatim>\<open>include/queue.h\<close>, assignment by assignment, and the locales
    \<open>link_queue\<close> and \<open>fifo_queue\<close> that say what they do to the list they represent.
  \<^item> \<open>Mmu\<close>, \<open>Kstate\<close>: address arithmetic, and one record for all global variables of the kernel.
  \<^item> \<open>Pmap\<close>: \<^verbatim>\<open>kern/pmap.c\<close>. \<open>Pmap_Inv\<close> holds the invariant \<open>mm_inv\<close>: page tables form a tree, free
    pages have no references, every reference count is exact. \<open>Pmap_Ops\<close>, \<open>Pmap_Spec\<close> and \<open>Pmap_Boot\<close>
    show what each operation does to it and to the translation function; \<open>Pmap_Thms\<close> has the
    properties.
  \<^item> \<open>Slots\<close>: bitmaps and the locale \<open>slot_allocator\<close>, interpreted for ASIDs and for disk blocks.
  \<^item> \<open>Env\<close>: \<^verbatim>\<open>kern/env.c\<close>; \<open>Env_Inv\<close>, \<open>Env_Mem\<close>, \<open>Env_Spec\<close>, \<open>Env_Free\<close>, \<open>Env_Thms\<close>: ids, ASIDs, creation and
    release of address spaces against the same invariant.
  \<^item> \<open>Sched\<close>: \<^verbatim>\<open>kern/sched.c\<close>; \<open>Sched_Spec\<close> refines it to a round-robin queue with time slices,
    \<open>Sched_Thms\<close> derives that nobody starves.
  \<^item> \<open>Elf\<close>, \<open>Elf_Thms\<close>: \<^verbatim>\<open>lib/elfloader.c\<close>, polymorphic in the mapper, \<^verbatim>\<open>load_icode\<close>, and \<^verbatim>\<open>tools/readelf\<close>. The fuel of the
    page loops is more than the pages of the address space. The locale \<open>segment_mapper\<close> is the contract of the
    mapper, kept by \<^verbatim>\<open>load_icode_mapper\<close> (here) and \<^verbatim>\<open>spawn_mapper\<close> (\<open>Spawn_Thms\<close>).
  \<^item> \<open>Selftest\<close>: the self tests of \<^verbatim>\<open>pmap.c\<close> and \<^verbatim>\<open>env.c\<close>; every assertion holds in any state with three free pages,
    or three free environments, that the invariants allow.
  \<^item> \<open>Tlbex\<close>, \<open>Tlbex_Thms\<close>: \<^verbatim>\<open>kern/tlbex.c\<close>; the refill loop needs at most two turns.
  \<^item> \<open>Syscall\<close>, \<open>Syscall_Spec\<close>, \<open>Syscall_Thms\<close>, \<open>Ipc_Thms\<close>: \<^verbatim>\<open>kern/syscall_all.c\<close>, every call and the dispatch;
    the memory calls in terms of translations, messages and the run queue.
  \<^item> \<open>Traps\<close>, \<open>Traps_Thms\<close>: the assembler of exceptions (\<^verbatim>\<open>kern/entry.S\<close>, \<^verbatim>\<open>genex.S\<close>, \<^verbatim>\<open>env_asm.S\<close>, \<^verbatim>\<open>tlb_asm.S\<close> and the
    macros of \<^verbatim>\<open>include/stackframe.h\<close>) as instructions of a MIPS machine with its registers, coprocessor 0
    and memory; the interrupted program finds all its registers again, and \<^verbatim>\<open>tlb_out\<close> is the
    operation that \<open>Pmap\<close> uses.

  \<^bold>\<open>The file system.\<close>
  \<^item> \<open>Umem\<close>: the memory a server sees. \<open>Fs\<close>: \<^verbatim>\<open>fs/fs.c\<close> over it. \<open>Fs_Alloc\<close>, \<open>Fs_Thms\<close>, \<open>Fs_Dir\<close>: the block
    allocator, the cache, the block map, syncing and directory search. \<open>Fs_Trunc\<close>: the blocks that truncation gives
    back. \<open>Fs_Create\<close>: a file that is created is found.
  \<^item> \<open>Serv\<close>, \<open>Serv_Thms\<close>: \<^verbatim>\<open>fs/serv.c\<close> on top of \<open>Fs\<close>: the table of open files and the request handlers.
  \<^item> \<open>Ide\<close>, \<open>Ide_Thms\<close>: \<^verbatim>\<open>fs/ide.c\<close> with the disk's registers as parameters; the hypothesis \<open>disk_device\<close>
    states their documented behaviour.
  \<^item> \<open>Fsformat\<close>: \<^verbatim>\<open>tools/fsformat.c\<close>; the host's files are its argument. \<open>Fsformat_Inv\<close> types the blocks of
    the image, \<open>Fsformat_Ops\<close> shows that each operation keeps the types and what was written before,
    \<open>Fsformat_Thms\<close> that each file arrives, \<open>Fsformat_Image\<close> puts the whole run together.
    Its last section is the image for a host of the other byte order.

  \<^bold>\<open>Shared and user libraries.\<close>
  \<^item> \<open>Cstring\<close>, \<open>Cstring_Thms\<close>: \<^verbatim>\<open>lib/string.c\<close>, the word-wise loops against byte-wise copies.
  \<^item> \<open>Print\<close>, \<open>Print_Thms\<close>: \<^verbatim>\<open>lib/print.c\<close>, layout of numbers and reading them back.
  \<^item> \<open>Fork\<close>: \<^verbatim>\<open>user/lib/fork.c\<close> as a program over the kernel's system calls. \<open>Fork_Thms\<close>: one page
    and the loop over all; \<open>Fork_Child\<close>: the new environment and the whole call.
  \<^item> \<open>Ulib\<close>, \<open>Ulib_Thms\<close>: the system call stubs of \<^verbatim>\<open>syscall_lib.c\<close> down to the trap and the dispatch of the
    kernel, and \<^verbatim>\<open>ipc.c\<close>, \<^verbatim>\<open>wait.c\<close> and \<^verbatim>\<open>libos.c\<close> on top of them. Waiting loops take the number of turns.
  \<^item> \<open>Pipe\<close>, \<open>Pipe_Thms\<close>: the transfer loops of \<^verbatim>\<open>user/lib/pipe.c\<close>, one step per access to the shared page;
    order and content for every interleaving.
  \<^item> \<open>Uproc\<close>: a process whose pages may be shared. \<open>Fd\<close>, \<open>Fd_Thms\<close>: \<^verbatim>\<open>user/lib/fd.c\<close>, \<^verbatim>\<open>console.c\<close> and the
    rest of \<^verbatim>\<open>pipe.c\<close>. \<open>File\<close>, \<open>File_Thms\<close>: \<^verbatim>\<open>user/lib/file.c\<close> and \<^verbatim>\<open>fsipc.c\<close>, the exchange with the server as
    a parameter. \<open>Path\<close>: \<^verbatim>\<open>get_path\<close>.
  \<^item> \<open>Spawn\<close>: \<^verbatim>\<open>user/lib/spawn.c\<close> over a process with children, with the loader of \<open>Elf\<close>. \<open>Spawn_Thms\<close>: the
    stack page of the child, and its segments. \<open>Uframe\<close>: a calculus of programs that keep a part of the process, with the
    locale \<open>user_frame\<close> over the part, devices and server. \<open>Spawn_Safe\<close>: its instance for one child, and how
    \<^verbatim>\<open>spawn\<close> can end. Destroying a child takes it out of the run list, as \<^verbatim>\<open>env_free\<close> does, also one
    that is not in it.
  \<^item> \<open>Shell_Lex\<close>, \<open>Shell_Lex_Thms\<close>: the lexer of \<^verbatim>\<open>user/sh.c\<close>. \<open>Shell\<close>: \<^verbatim>\<open>parsecmd\<close>, \<^verbatim>\<open>runcmd\<close> and a turn of the
    main loop, in one of the processes that the shell forks. \<open>Shell_Thms\<close>: which command each of them
    runs, and that it ends; a turn of \<^verbatim>\<open>parsecmd\<close> takes a token, so that one more than the characters of the
    line is enough fuel. \<open>Shell_Main\<close>: the options, the script file, the prompt and the turn of the main loop,
    and \<^verbatim>\<open>user/init.c\<close>.
  \<^item> \<open>History\<close>: \<^verbatim>\<open>user/lib/history.c\<close> and \<^verbatim>\<open>readline\<close> of \<^verbatim>\<open>user/sh.c\<close>. \<open>History_Thms\<close>: the history file as a list of
    commands, and the editor as text before and behind the cursor, for the keys that the code
    handles; a store outside the line's buffer has no result.
  \<^item> \<open>Output\<close>, \<open>Output_Thms\<close>: \<^verbatim>\<open>kern/printk.c\<close>, \<^verbatim>\<open>user/lib/debugf.c\<close> and \<^verbatim>\<open>fprintf.c\<close> over the chunks of \<open>Print\<close>, and the
    locale \<open>text_sink\<close> of a descriptor that takes all bytes.
  \<^item> \<open>Commands\<close>: the commands \<^verbatim>\<open>cat\<close>, \<^verbatim>\<open>num\<close>, \<^verbatim>\<open>echo\<close>, \<^verbatim>\<open>ls\<close>, \<^verbatim>\<open>tree\<close>, \<^verbatim>\<open>touch\<close>, \<^verbatim>\<open>mkdir\<close>, \<^verbatim>\<open>cd\<close>, \<^verbatim>\<open>pwd\<close> and \<^verbatim>\<open>history\<close> of
    \<^verbatim>\<open>user/\<close>. \<open>Commands_Thms\<close>: which bytes a read of an open file and
    a write to the console move, and what is printed; the console interprets \<open>text_sink\<close>. Loops that follow the input take the number of
    turns as an argument; \<^verbatim>\<open>cat\<close> needs one for every 8192 bytes and one more.

  \<^bold>\<open>How the parts meet.\<close> \<open>Env\<close> and \<open>Syscall\<close> call the operations of \<open>Pmap\<close> and keep its invariant; \<open>Sched\<close>
  and the IPC calls work on the run queue through the contract of \<open>Queue\<close>; \<open>Fork\<close> runs on the system
  calls; \<open>Serv\<close> runs on \<open>Fs\<close>. Each \<open>_Thms\<close> theory has a small concrete state on which the hypotheses
  of its properties are discharged.

  \<^bold>\<open>Not modelled.\<close> Start-up code (\<^verbatim>\<open>init/\<close>) and the initialisation of device registers; the host tool
  \<^verbatim>\<open>bintoc\<close> and the file reading of \<^verbatim>\<open>readelf\<close>, which are host input and output; and test programs. A user process
  and the server are modelled one at a time: the memory they share is shared frames in \<open>Uproc\<close>, while
  \<open>Serv\<close> counts the references that clients hold.
\<close>

end
